(* ===== verification/Prelude.thy ===== *)
theory Prelude
  imports Main "HOL-Library.Word" "HOL-Library.Monad_Syntax"
begin

text \<open>
  Prelude of the f2fs development: C integer casts and wrap-around arithmetic on
  natural numbers, bit counting over bitmaps, the contract of a bit search, and
  the small list lemmas every component uses.

  A C integer of width \<open>w\<close> is a natural number below \<open>2 ^ w\<close>; the casts
  \<open>u8\<close>, \<open>u16\<close>, \<open>u32\<close> and \<open>u64\<close> are written wherever the C code can wrap.
  A kernel bitmap (\<open>unsigned long *\<close> used with \<open>set_bit\<close>, \<open>clear_bit\<close>,
  \<open>test_bit\<close>) is the function that reads one bit of the memory behind the
  pointer, so setting bit \<open>n\<close> is a function update.
\<close>

named_theorems casts \<open>rules that remove a cast whose argument is in range\<close>
named_theorems counts \<open>how a population count changes when one bit changes\<close>

section \<open>C integers\<close>

definition u8 :: "nat \<Rightarrow> nat" where "u8 n = n mod 2 ^ 8"
definition u16 :: "nat \<Rightarrow> nat" where "u16 n = n mod 2 ^ 16"
definition u32 :: "nat \<Rightarrow> nat" where "u32 n = n mod 2 ^ 32"
definition u64 :: "nat \<Rightarrow> nat" where "u64 n = n mod 2 ^ 64"

definition UINT_MAX :: nat where "UINT_MAX = 4294967295"

text \<open>Unsigned subtraction wraps below zero.\<close>

definition sub32 :: "nat \<Rightarrow> nat \<Rightarrow> nat" where "sub32 a b = u32 (a + 2 ^ 32 - b)"
definition sub64 :: "nat \<Rightarrow> nat \<Rightarrow> nat" where "sub64 a b = u64 (a + 2 ^ 64 - b)"

lemma u8_id [casts]: "n < 2 ^ 8 \<Longrightarrow> u8 n = n" by (simp add: u8_def)
lemma u16_id [casts]: "n < 2 ^ 16 \<Longrightarrow> u16 n = n" by (simp add: u16_def)
lemma u32_id [casts]: "n < 2 ^ 32 \<Longrightarrow> u32 n = n" by (simp add: u32_def)
lemma u64_id [casts]: "n < 2 ^ 64 \<Longrightarrow> u64 n = n" by (simp add: u64_def)

lemma u8_less [simp]: "u8 n < 256" by (simp add: u8_def)
lemma u16_less [simp]: "u16 n < 65536" by (simp add: u16_def)
lemma u32_less [simp]: "u32 n < 4294967296" by (simp add: u32_def)
lemma u64_less [simp]: "u64 n < 18446744073709551616" by (simp add: u64_def)

lemma sub32_id [casts]:
  assumes "b \<le> a" and "a < 2 ^ 32"
  shows "sub32 a b = a - b"
proof -
  have "a + 2 ^ 32 - b = (a - b) + 2 ^ 32"
    using assms(1) by (rule Nat.diff_add_assoc2)
  then have "sub32 a b = ((a - b) + 2 ^ 32) mod 2 ^ 32"
    by (simp only: sub32_def u32_def)
  also have "\<dots> = (a - b) mod 2 ^ 32"
    by (rule mod_add_self2)
  also have "\<dots> = a - b"
    using assms(2) by (intro mod_less) (rule le_less_trans [OF diff_le_self])
  finally show ?thesis .
qed

lemma sub64_id [casts]:
  assumes "b \<le> a" and "a < 2 ^ 64"
  shows "sub64 a b = a - b"
proof -
  have "a + 2 ^ 64 - b = (a - b) + 2 ^ 64"
    using assms(1) by (rule Nat.diff_add_assoc2)
  then have "sub64 a b = ((a - b) + 2 ^ 64) mod 2 ^ 64"
    by (simp only: sub64_def u64_def)
  also have "\<dots> = (a - b) mod 2 ^ 64"
    by (rule mod_add_self2)
  also have "\<dots> = a - b"
    using assms(2) by (intro mod_less) (rule le_less_trans [OF diff_le_self])
  finally show ?thesis .
qed

lemma sub32_less [simp]: "sub32 a b < 4294967296" by (simp add: sub32_def)
lemma sub64_less [simp]: "sub64 a b < 18446744073709551616" by (simp add: sub64_def)

lemma sub32_borrow: "a < b \<Longrightarrow> b \<le> 2 ^ 32 \<Longrightarrow> sub32 a b = 2 ^ 32 + a - b"
  by (simp add: sub32_def u32_def)

text \<open>A signed value stored in an unsigned field.\<close>

definition to_u16 :: "int \<Rightarrow> nat" where "to_u16 x = nat (x mod 2 ^ 16)"
definition to_u32 :: "int \<Rightarrow> nat" where "to_u32 x = nat (x mod 2 ^ 32)"

lemma to_u16_id [casts]: "0 \<le> x \<Longrightarrow> x < 2 ^ 16 \<Longrightarrow> to_u16 x = nat x" by (simp add: to_u16_def)
lemma to_u32_id [casts]: "0 \<le> x \<Longrightarrow> x < 2 ^ 32 \<Longrightarrow> to_u32 x = nat x" by (simp add: to_u32_def)

lemma to_u16_inc [casts]: "n + 1 < 2 ^ 16 \<Longrightarrow> to_u16 (int n + 1) = n + 1"
  by (subst to_u16_id) (auto simp: nat_add_distrib)

lemma to_u16_dec [casts]: "0 < n \<Longrightarrow> n < 2 ^ 16 \<Longrightarrow> to_u16 (int n + - 1) = n - 1"
  by (subst to_u16_id) (auto simp: nat_diff_distrib)

lemma to_u32_inc [casts]: "n + 1 < 2 ^ 32 \<Longrightarrow> to_u32 (int n + 1) = n + 1"
  by (subst to_u32_id) (auto simp: nat_add_distrib)

lemma to_u32_dec [casts]: "0 < n \<Longrightarrow> n < 2 ^ 32 \<Longrightarrow> to_u32 (int n + - 1) = n - 1"
  by (subst to_u32_id) (auto simp: nat_diff_distrib)

section \<open>Sums over an array one entry of which changes\<close>

lemma sum_change:
  fixes f g :: "'a \<Rightarrow> nat"
  assumes "finite A" and "k \<in> A" and "\<And>i. i \<in> A \<Longrightarrow> i \<noteq> k \<Longrightarrow> f i = g i"
  shows "sum f A + g k = sum g A + f k"
proof -
  have "sum f (A - {k}) = sum g (A - {k})" using assms(3) by (intro sum.cong) auto
  then show ?thesis using assms(1,2) by (simp add: sum.remove)
qed

lemma sum_bound:
  fixes f :: "nat \<Rightarrow> nat"
  assumes "\<And>i. i < n \<Longrightarrow> f i \<le> b"
  shows "(\<Sum>i<n. f i) \<le> n * b"
  using sum_bounded_above [of "{..<n}" f b] assms by simp

text \<open>\<open>memcpy\<close> of \<open>n\<close> array elements.\<close>

definition memcpy :: "'a list \<Rightarrow> 'a list \<Rightarrow> nat \<Rightarrow> 'a list" where
  "memcpy dst src n = take n src @ drop n dst"

lemma length_memcpy [simp]: "n \<le> length src \<Longrightarrow> n \<le> length dst \<Longrightarrow> length (memcpy dst src n) = length dst"
  by (simp add: memcpy_def)

lemma memcpy_all: "length dst = n \<Longrightarrow> length src = n \<Longrightarrow> memcpy dst src n = src"
  by (simp add: memcpy_def)

section \<open>Counting bits\<close>

definition count_bits :: "nat \<Rightarrow> (nat \<Rightarrow> bool) \<Rightarrow> nat" where
  "count_bits n P = length (filter P [0..<n])"

lemma count_bits_0 [simp]: "count_bits 0 P = 0"
  by (simp add: count_bits_def)

lemma count_bits_Suc [simp]: "count_bits (Suc n) P = count_bits n P + (if P n then 1 else 0)"
  by (simp add: count_bits_def)

lemma count_bits_le: "count_bits n P \<le> n"
  by (induction n) auto

lemma count_bits_cong: "(\<And>i. i < n \<Longrightarrow> P i = Q i) \<Longrightarrow> count_bits n P = count_bits n Q"
  by (induction n) auto

lemma count_bits_mono: "(\<And>i. i < n \<Longrightarrow> P i \<Longrightarrow> Q i) \<Longrightarrow> count_bits n P \<le> count_bits n Q"
  by (induction n) (auto simp: le_Suc_eq)

lemma count_bits_upd_True [counts]:
  "k < n \<Longrightarrow> count_bits n (P(k := True)) = count_bits n P + (if P k then 0 else 1)"
proof (induction n)
  case (Suc n)
  show ?case
  proof (cases "k = n")
    case True
    have "count_bits n (P(n := True)) = count_bits n P" by (rule count_bits_cong) auto
    with True show ?thesis by (simp only: count_bits_Suc) simp
  next
    case False
    with Suc show ?thesis by auto
  qed
qed simp

lemma count_bits_upd_False [counts]:
  "k < n \<Longrightarrow> count_bits n (P(k := False)) = count_bits n P - (if P k then 1 else 0)"
proof -
  assume k: "k < n"
  have "count_bits n ((P(k := False))(k := True)) = count_bits n (P(k := False)) + 1"
    using k by (subst count_bits_upd_True) auto
  moreover have "P(k := False, k := True) = P(k := True)" by auto
  ultimately show ?thesis using count_bits_upd_True [OF k, of P] by auto
qed

lemma count_bits_upd_out [counts]: "n \<le> k \<Longrightarrow> count_bits n (P(k := b)) = count_bits n P"
  by (rule count_bits_cong) auto

lemma count_bits_pos_iff: "0 < count_bits n P \<longleftrightarrow> (\<exists>i<n. P i)"
  by (induction n) (auto simp: less_Suc_eq)

lemma count_bits_pos: "i < n \<Longrightarrow> P i \<Longrightarrow> 0 < count_bits n P"
  by (auto simp: count_bits_pos_iff)

lemma count_bits_compl: "count_bits n (\<lambda>i. \<not> P i) = n - count_bits n P"
  by (induction n) (auto simp: Suc_diff_le count_bits_le)

text \<open>The clear bits below \<open>n\<close>.\<close>

definition count_clear :: "nat \<Rightarrow> (nat \<Rightarrow> bool) \<Rightarrow> nat" where
  "count_clear n P = count_bits n (\<lambda>i. \<not> P i)"

lemma not_fun_upd: "(\<lambda>i. \<not> (m(k := b)) i) = (\<lambda>i. \<not> m i)(k := \<not> b)"
  by auto

lemma count_clear_set [counts]:
  "k < n \<Longrightarrow> count_clear n (P(k := True)) = count_clear n P - (if P k then 0 else 1)"
  unfolding count_clear_def not_fun_upd by (auto simp: counts simp del: fun_upd_apply)

lemma count_clear_clear [counts]:
  "k < n \<Longrightarrow> count_clear n (P(k := False)) = count_clear n P + (if P k then 1 else 0)"
  unfolding count_clear_def not_fun_upd by (auto simp: counts simp del: fun_upd_apply)

lemma count_clear_le: "count_clear n P \<le> n"
  unfolding count_clear_def by (rule count_bits_le)

lemma count_clear_pos_iff: "0 < count_clear n P \<longleftrightarrow> (\<exists>i<n. \<not> P i)"
  unfolding count_clear_def by (rule count_bits_pos_iff)

lemma count_clear_pos: "i < n \<Longrightarrow> \<not> P i \<Longrightarrow> 0 < count_clear n P"
  by (auto simp: count_clear_pos_iff)

lemma count_clear_less: "i < n \<Longrightarrow> P i \<Longrightarrow> count_clear n P < n"
  using count_bits_pos [of i n P] by (simp add: count_clear_def count_bits_compl)

lemma count_bits_less: "k < n \<Longrightarrow> \<not> P k \<Longrightarrow> count_bits n P < n"
  using count_clear_pos [of k n P] count_bits_le [of n P] by (simp add: count_clear_def count_bits_compl)

text \<open>A run of equal bits.\<close>

lemma count_bits_run: "a \<le> b \<Longrightarrow> (\<And>i. a \<le> i \<Longrightarrow> i < b \<Longrightarrow> m i = v) \<Longrightarrow>
  count_bits b m = count_bits a m + (if v then b - a else 0)"
proof (induction "b - a" arbitrary: b)
  case 0
  then show ?case by simp
next
  case (Suc d)
  then obtain c where b: "b = Suc c" "a \<le> c" by (cases b) auto
  then have "count_bits c m = count_bits a m + (if v then c - a else 0)" using Suc by simp
  then show ?case using Suc.prems(2) [of c] b by auto
qed

end
