(* ===== verification/Bit_Search.thy ===== *)
theory Bit_Search
  imports Prelude
begin

text \<open>
  The contract of a bitmap search: the least index at or after an offset whose bit is
  wanted, or the size of the map when there is none.  The kernel's
  \<open>find_next_bit\<close> and \<open>find_next_zero_bit\<close> (not part of this repository) are
  parameters of the model that are assumed to satisfy it; the module's own
  \<open>__find_rev_next_zero_bit\<close> is shown to satisfy it in theory \<open>Rev_Search_Spec\<close>, which also says
  how far \<open>__find_rev_next_bit\<close> does.
\<close>

section \<open>The reference search\<close>

definition scan :: "(nat \<Rightarrow> bool) \<Rightarrow> nat \<Rightarrow> nat \<Rightarrow> nat" where
  "scan P sz off = (case filter P [off..<sz] of [] \<Rightarrow> sz | i # _ \<Rightarrow> i)"

lemma scan_none: "(\<And>i. off \<le> i \<Longrightarrow> i < sz \<Longrightarrow> \<not> P i) \<Longrightarrow> scan P sz off = sz"
proof -
  assume "\<And>i. off \<le> i \<Longrightarrow> i < sz \<Longrightarrow> \<not> P i"
  then have "filter P [off..<sz] = []" by (auto simp: filter_empty_conv)
  then show ?thesis by (simp add: scan_def)
qed

lemma scan_step:
  "scan P sz off = (if sz \<le> off then sz else if P off then off else scan P sz (Suc off))"
proof (cases "sz \<le> off")
  case True
  then show ?thesis by (simp add: scan_def)
next
  case False
  then have "[off..<sz] = off # [Suc off..<sz]" by (simp add: upt_conv_Cons)
  then show ?thesis using False by (auto simp: scan_def)
qed

lemma scan_some:
  assumes "off \<le> i" and "i < sz" and "P i"
  shows "off \<le> scan P sz off \<and> scan P sz off \<le> i \<and> P (scan P sz off)"
  using assms
proof (induction "i - off" arbitrary: off)
  case 0
  then have "off = i" by simp
  with 0 show ?case by (subst (1 2 3) scan_step) simp
next
  case (Suc d)
  show ?case
  proof (cases "P off")
    case True
    with Suc.prems show ?thesis by (subst (1 2 3) scan_step) simp
  next
    case False
    with Suc.prems have "Suc off \<le> i" by (metis Suc_leI le_neq_implies_less)
    with Suc have "Suc off \<le> scan P sz (Suc off) \<and> scan P sz (Suc off) \<le> i
      \<and> P (scan P sz (Suc off))" by simp
    moreover have "scan P sz off = scan P sz (Suc off)"
      using False Suc.prems by (subst scan_step) simp
    ultimately show ?thesis by simp
  qed
qed

lemma scan_cong: "(\<And>i. off \<le> i \<Longrightarrow> i < sz \<Longrightarrow> P i = Q i) \<Longrightarrow> scan P sz off = scan Q sz off"
proof -
  assume "\<And>i. off \<le> i \<Longrightarrow> i < sz \<Longrightarrow> P i = Q i"
  then have "filter P [off..<sz] = filter Q [off..<sz]" by (auto intro: filter_cong)
  then show ?thesis by (simp add: scan_def)
qed

section \<open>The contract\<close>

locale bit_search =
  fixes read :: "'m \<Rightarrow> nat \<Rightarrow> bool"
    and find :: "'m \<Rightarrow> nat \<Rightarrow> nat \<Rightarrow> nat"
    and ok :: "'m \<Rightarrow> nat \<Rightarrow> bool"
  assumes find_none: "ok m sz \<Longrightarrow> (\<And>i. off \<le> i \<Longrightarrow> i < sz \<Longrightarrow> \<not> read m i) \<Longrightarrow> find m sz off = sz"
    and find_some: "ok m sz \<Longrightarrow> off \<le> i \<Longrightarrow> i < sz \<Longrightarrow> read m i \<Longrightarrow>
      off \<le> find m sz off \<and> find m sz off \<le> i \<and> read m (find m sz off)"
begin

text \<open>Every search that keeps the contract computes the reference search.\<close>

lemma find_eq_scan:
  assumes "ok m sz"
  shows "find m sz off = scan (read m) sz off"
proof (cases "\<exists>i. off \<le> i \<and> i < sz \<and> read m i")
  case True
  then obtain i where i: "off \<le> i" "i < sz" "read m i" by blast
  let ?f = "find m sz off" and ?s = "scan (read m) sz off"
  have f: "off \<le> ?f" "?f \<le> i" "read m ?f" using find_some [OF assms i] by auto
  have s: "off \<le> ?s" "?s \<le> i" "read m ?s" using scan_some [of off i sz "read m"] i by auto
  have "?f \<le> ?s" using find_some [OF assms s(1) _ s(3)] s(2) i(2) by simp
  moreover have "?s \<le> ?f" using scan_some [of off ?f sz "read m"] f i(2) by simp
  ultimately show ?thesis by simp
next
  case False
  then show ?thesis using find_none [OF assms, of off] scan_none [of off sz "read m"] by auto
qed

end

interpretation scan: bit_search "\<lambda>m i. m i" scan "\<lambda>_ _. True"
proof unfold_locales
  fix m :: "nat \<Rightarrow> bool" and sz off
  assume "\<And>i. off \<le> i \<Longrightarrow> i < sz \<Longrightarrow> \<not> m i"
  then show "scan m sz off = sz" by (rule scan_none)
qed (rule scan_some)

section \<open>Facts about the reference search\<close>

lemma scan_cases:
  obtains (none) "scan P sz off = sz" "\<And>i. off \<le> i \<Longrightarrow> i < sz \<Longrightarrow> \<not> P i"
  | (some) "scan P sz off < sz" "off \<le> scan P sz off" "P (scan P sz off)"
      "\<And>i. off \<le> i \<Longrightarrow> i < scan P sz off \<Longrightarrow> \<not> P i"
proof (cases "\<exists>i. off \<le> i \<and> i < sz \<and> P i")
  case False
  then have n: "\<And>i. off \<le> i \<Longrightarrow> i < sz \<Longrightarrow> \<not> P i" by blast
  show thesis by (rule none [OF scan_none n]) (rule n)
next
  case True
  then obtain i where i: "off \<le> i" "i < sz" "P i" by blast
  note s = scan_some [of off i sz P, OF i]
  show thesis
  proof (rule some)
    show "scan P sz off < sz" using s i(2) by simp
    fix k
    assume k: "off \<le> k" "k < scan P sz off"
    show "\<not> P k"
    proof
      assume "P k"
      with k s i(2) scan_some [of off k sz P] show False by simp
    qed
  qed (use s in auto)
qed

lemma scan_le: "scan P sz off \<le> sz"
  by (rule scan_cases [of P sz off]) simp_all

lemma scan_less_iff: "scan P sz off < sz \<longleftrightarrow> (\<exists>i. off \<le> i \<and> i < sz \<and> P i)"
  by (rule scan_cases [of P sz off]) auto

lemma scan_hit: "scan P sz off < sz \<Longrightarrow> P (scan P sz off) \<and> off \<le> scan P sz off"
  by (rule scan_cases [of P sz off]) auto

lemma scan_skip: "off \<le> i \<Longrightarrow> i < scan P sz off \<Longrightarrow> \<not> P i"
  by (rule scan_cases [of P sz off]) auto

lemma scan_eqI:
  assumes "r < sz" and "off \<le> r" and "P r" and "\<And>i. off \<le> i \<Longrightarrow> i < r \<Longrightarrow> \<not> P i"
  shows "scan P sz off = r"
proof -
  have "off \<le> scan P sz off \<and> scan P sz off \<le> r \<and> P (scan P sz off)"
    using scan_some [of off r sz P] assms by simp
  then show ?thesis using assms(4) [of "scan P sz off"] by fastforce
qed

lemma scan_from:
  assumes "a \<le> b" and "b \<le> sz" and "\<And>i. a \<le> i \<Longrightarrow> i < b \<Longrightarrow> \<not> P i"
  shows "scan P sz a = scan P sz b"
proof (rule scan_cases [of P sz b])
  assume "scan P sz b = sz" and none: "\<And>i. b \<le> i \<Longrightarrow> i < sz \<Longrightarrow> \<not> P i"
  moreover have "scan P sz a = sz"
    using none assms(3) by (intro scan_none) (metis not_le)
  ultimately show ?thesis by simp
next
  let ?s = "scan P sz b"
  assume s: "?s < sz" "b \<le> ?s" "P ?s" and less: "\<And>i. b \<le> i \<Longrightarrow> i < ?s \<Longrightarrow> \<not> P i"
  show ?thesis
  proof (rule scan_eqI)
    fix i
    assume "a \<le> i" "i < ?s"
    then show "\<not> P i" using assms(3) less by (cases "i < b") auto
  qed (use s assms in auto)
qed

lemma scan_shift: "scan P (r + n) (r + a) = r + scan (\<lambda>j. P (r + j)) n a"
proof (rule scan_cases [of "\<lambda>j. P (r + j)" n a])
  assume "scan (\<lambda>j. P (r + j)) n a = n" and none: "\<And>i. a \<le> i \<Longrightarrow> i < n \<Longrightarrow> \<not> P (r + i)"
  moreover have "scan P (r + n) (r + a) = r + n"
  proof (rule scan_none)
    fix i
    assume "r + a \<le> i" "i < r + n"
    then show "\<not> P i" using none [of "i - r"] by simp
  qed
  ultimately show ?thesis by simp
next
  let ?s = "scan (\<lambda>j. P (r + j)) n a"
  assume s: "?s < n" "a \<le> ?s" "P (r + ?s)" and less: "\<And>i. a \<le> i \<Longrightarrow> i < ?s \<Longrightarrow> \<not> P (r + i)"
  show ?thesis
  proof (rule scan_eqI)
    fix i
    assume "r + a \<le> i" "i < r + ?s"
    then show "\<not> P i" using less [of "i - r"] by simp
  qed (use s in auto)
qed

text \<open>A hit below a smaller bound is the hit for the larger one.\<close>

lemma scan_bound:
  assumes "n \<le> m"
  shows "scan P n a = min n (scan P m a) \<or> n < a"
proof (cases "n < a")
  case False
  show ?thesis
  proof (rule scan_cases [of P n a])
    assume "scan P n a = n" and none: "\<And>i. a \<le> i \<Longrightarrow> i < n \<Longrightarrow> \<not> P i"
    moreover have "scan P m a = scan P m n"
      using False assms none by (intro scan_from) auto
    moreover have "n \<le> scan P m n"
      using assms by (rule_tac scan_cases [of P m n]) auto
    ultimately show ?thesis by simp
  next
    assume s: "scan P n a < n" "a \<le> scan P n a" "P (scan P n a)"
      and less: "\<And>i. a \<le> i \<Longrightarrow> i < scan P n a \<Longrightarrow> \<not> P i"
    have "scan P m a = scan P n a"
      using s less assms by (intro scan_eqI) auto
    with s show ?thesis by simp
  qed
qed simp

end
