(* ===== verification/F2fs_Types.thy ===== *)
theory F2fs_Types
  imports Bit_Search
begin

text \<open>
  The in-memory data of the f2fs module as records, one per C struct, with the fields
  the modelled code uses (\<open>src/filesystem/f2fs/segment.h\<close>, \<open>f2fs.h\<close>, \<open>gc.h\<close>), the
  accessor functions of \<open>f2fs.h\<close> and the address macros of \<open>segment.h\<close>.

  Field names carry the tag of their struct (\<open>se_\<close>, \<open>sit_\<close>, \<open>fsm_\<close>, \<open>dl_\<close>, \<open>cs_\<close>,
  \<open>sm_\<close>, \<open>sbi_\<close>) because HOL field names are global.  Locks have no field: every modelled
  operation is one critical section of the C code.  Arrays are lists, kernel bitmaps are
  functions from bit numbers, byte arrays are lists of 8-bit words.
\<close>

section \<open>What the module takes from elsewhere\<close>

text \<open>
  Constants of \<open>linux/f2fs_fs.h\<close>, the build option \<open>CONFIG_F2FS_CHECK_FS\<close>, the clock and
  the two bitmap searches of the kernel are not in the repository: they are the fields of
  one parameter that the definitions using them take as their first argument.
\<close>

record f2fs_env =
  find_next_bit :: "(nat \<Rightarrow> bool) \<Rightarrow> nat \<Rightarrow> nat \<Rightarrow> nat"
  find_next_zero_bit :: "(nat \<Rightarrow> bool) \<Rightarrow> nat \<Rightarrow> nat \<Rightarrow> nat"
  CHECK_FS :: bool
  NULL_ADDR :: nat
  NEW_ADDR :: nat
  SIT_VBLOCK_MAP_SIZE :: nat
  SIT_VBLOCKS_SHIFT :: nat
  GET_SIT_VBLOCKS :: "nat \<Rightarrow> nat"
  GET_SIT_TYPE :: "nat \<Rightarrow> nat"
  SIT_ENTRY_PER_BLOCK :: nat
  SUM_TYPE_NODE :: nat
  SUM_TYPE_DATA :: nat
  CURRENT_TIME_SEC :: nat

text \<open>The documented behaviour of the kernel's searches.\<close>

definition kernel_ok :: "f2fs_env \<Rightarrow> bool" where
  "kernel_ok E \<longleftrightarrow> bit_search (\<lambda>m i. m i) (find_next_bit E) (\<lambda>_ _. True)
     \<and> bit_search (\<lambda>m i. \<not> m i) (find_next_zero_bit E) (\<lambda>_ _. True)"

lemma find_next_bit_scan: "kernel_ok E \<Longrightarrow> find_next_bit E m n k = scan m n k"
  unfolding kernel_ok_def
  by (elim conjE) (drule bit_search.find_eq_scan [where ok = "\<lambda>_ _. True", OF _ TrueI]; simp)

lemma find_next_zero_bit_scan:
  "kernel_ok E \<Longrightarrow> find_next_zero_bit E m n k = scan (\<lambda>i. \<not> m i) n k"
  unfolding kernel_ok_def
  by (elim conjE) (drule bit_search.find_eq_scan [where ok = "\<lambda>_ _. True", OF _ TrueI]; simp)

text \<open>The parameter with the reference searches and the values of Linux 3.13 in it.\<close>

definition linux_env :: f2fs_env where
  "linux_env = \<lparr> find_next_bit = scan, find_next_zero_bit = (\<lambda>m. scan (\<lambda>i. \<not> m i)),
     CHECK_FS = True, NULL_ADDR = 0, NEW_ADDR = 4294967295,
     SIT_VBLOCK_MAP_SIZE = 64, SIT_VBLOCKS_SHIFT = 10,
     GET_SIT_VBLOCKS = (\<lambda>v. v mod 1024), GET_SIT_TYPE = (\<lambda>v. v div 1024), SIT_ENTRY_PER_BLOCK = 55,
     SUM_TYPE_NODE = 1, SUM_TYPE_DATA = 0, CURRENT_TIME_SEC = 1000 \<rparr>"

lemma linux_env_ok: "kernel_ok linux_env"
proof -
  have "bit_search (\<lambda>m i. \<not> m i) (\<lambda>m. scan (\<lambda>i. \<not> m i)) (\<lambda>_ _. True)"
    by (unfold_locales; rule scan_none scan_some) blast+
  then show ?thesis
    by (simp add: kernel_ok_def linux_env_def scan.bit_search_axioms)
qed

text \<open>\<open>BUG()\<close> stops the machine: the result is \<open>None\<close>. \<open>f2fs_bug_on\<close> is compiled in only
  with \<open>CONFIG_F2FS_CHECK_FS\<close>.\<close>

definition f2fs_bug_on :: "f2fs_env \<Rightarrow> bool \<Rightarrow> unit option" where
  "f2fs_bug_on E c = (if CHECK_FS E \<and> c then None else Some ())"

definition BUG_ON :: "bool \<Rightarrow> unit option" where
  "BUG_ON c = (if c then None else Some ())"

section \<open>Constants of the module\<close>

definition NULL_SEGNO :: nat where "NULL_SEGNO = 4294967295"

definition CURSEG_HOT_DATA :: nat where "CURSEG_HOT_DATA = 0"
definition CURSEG_WARM_DATA :: nat where "CURSEG_WARM_DATA = 1"
definition CURSEG_COLD_DATA :: nat where "CURSEG_COLD_DATA = 2"
definition CURSEG_HOT_NODE :: nat where "CURSEG_HOT_NODE = 3"
definition CURSEG_WARM_NODE :: nat where "CURSEG_WARM_NODE = 4"
definition CURSEG_COLD_NODE :: nat where "CURSEG_COLD_NODE = 5"
definition NO_CHECK_TYPE :: nat where "NO_CHECK_TYPE = 6"
definition NR_CURSEG_TYPE :: nat where "NR_CURSEG_TYPE = 6"

lemmas curseg_types = CURSEG_HOT_DATA_def CURSEG_WARM_DATA_def CURSEG_COLD_DATA_def
  CURSEG_HOT_NODE_def CURSEG_WARM_NODE_def CURSEG_COLD_NODE_def NO_CHECK_TYPE_def
  NR_CURSEG_TYPE_def

definition DIRTY :: nat where "DIRTY = 6"
definition PRE :: nat where "PRE = 7"
definition NR_DIRTY_TYPE :: nat where "NR_DIRTY_TYPE = 8"

lemmas dirty_types = DIRTY_def PRE_def NR_DIRTY_TYPE_def

datatype alloc_mode = LFS | SSR
datatype gc_mode = GC_CB | GC_GREEDY
datatype gc_type = BG_GC | FG_GC
datatype alloc_dir = ALLOC_RIGHT | ALLOC_LEFT

section \<open>Structs\<close>

record f2fs_summary =
  sum_nid :: nat
  sum_ofs_in_node :: nat
  sum_version :: nat

record f2fs_summary_block =
  sb_entries :: "f2fs_summary list"
  sb_entry_type :: nat

record seg_entry =
  se_valid_blocks :: nat
  se_cur_valid_map :: "8 word list"
  se_ckpt_valid_blocks :: nat
  se_ckpt_valid_map :: "8 word list"
  se_type :: nat
  se_mtime :: nat
  se_numberofcleaning :: nat

text \<open>The on-disk form of a segment entry.\<close>

record f2fs_sit_entry =
  rs_vblocks :: nat
  rs_valid_map :: "8 word list"
  rs_mtime :: nat

record sec_entry =
  sec_valid_blocks :: nat

record sit_info =
  sit_base_addr :: nat
  sit_blocks :: nat
  sit_written_valid_blocks :: nat
  sit_bitmap :: "8 word list"
  sit_dirty_sentries_bitmap :: "nat \<Rightarrow> bool"
  sit_dirty_sentries :: nat
  sit_sents_per_block :: nat
  sit_sentries :: "seg_entry list"
  sit_sec_entries :: "sec_entry list"
  sit_elapsed_time :: nat
  sit_mounted_time :: nat
  sit_min_mtime :: nat
  sit_max_mtime :: nat

record free_segmap_info =
  fsm_start_segno :: nat
  fsm_free_segments :: nat
  fsm_free_sections :: nat
  fsm_free_segmap :: "nat \<Rightarrow> bool"
  fsm_free_secmap :: "nat \<Rightarrow> bool"

record dirty_seglist_info =
  dl_dirty_segmap :: "(nat \<Rightarrow> bool) list"
  dl_nr_dirty :: "int list"
  dl_victim_secmap :: "nat \<Rightarrow> bool"

record curseg_info =
  cs_sum_blk :: f2fs_summary_block
  cs_alloc_type :: alloc_mode
  cs_segno :: nat
  cs_next_blkoff :: nat
  cs_zone :: nat
  cs_next_segno :: nat

record discard_entry =
  de_blkaddr :: nat
  de_len :: int

record f2fs_gc_kthread =
  gc_min_sleep_time :: nat
  gc_max_sleep_time :: nat
  gc_no_gc_sleep_time :: nat
  gc_gc_idle :: nat

record f2fs_sm_info =
  sm_sit_info :: sit_info
  sm_free_info :: free_segmap_info
  sm_dirty_info :: dirty_seglist_info
  sm_curseg_array :: "curseg_info list"
  sm_seg0_blkaddr :: nat
  sm_main_blkaddr :: nat
  sm_ssa_blkaddr :: nat
  sm_segment_count :: nat
  sm_main_segments :: nat
  sm_reserved_segments :: nat
  sm_ovp_segments :: nat
  sm_rec_prefree_segments :: nat
  sm_discard_list :: "discard_entry list"
  sm_nr_discards :: int
  sm_max_discards :: int
  sm_ipu_policy :: nat
  sm_min_ipu_util :: nat

record f2fs_sb_info =
  sbi_sm_info :: f2fs_sm_info
  sbi_por_doing :: bool
  sbi_log_blocks_per_seg :: nat
  sbi_blocks_per_seg :: nat
  sbi_segs_per_sec :: nat
  sbi_secs_per_zone :: nat
  sbi_total_sections :: nat
  sbi_total_node_count :: nat
  sbi_total_valid_node_count :: nat
  sbi_total_valid_inode_count :: nat
  sbi_active_logs :: nat
  sbi_user_block_count :: nat
  sbi_total_valid_block_count :: nat
  sbi_alloc_valid_block_count :: nat
  sbi_nr_dirty_dents :: int
  sbi_nr_dirty_nodes :: int
  sbi_opt_discard :: bool
  sbi_opt_noheap :: bool
  sbi_gc_thread :: "f2fs_gc_kthread option"
  sbi_cur_victim_sec :: nat
  sbi_max_victim_search :: nat
  sbi_last_victim_cb :: nat
  sbi_last_victim_greedy :: nat
  sbi_meta_pages :: "nat \<Rightarrow> f2fs_summary_block"

section \<open>Accessors\<close>

definition SM_I :: "f2fs_sb_info \<Rightarrow> f2fs_sm_info" where "SM_I sbi = sbi_sm_info sbi"
definition SIT_I :: "f2fs_sb_info \<Rightarrow> sit_info" where "SIT_I sbi = sm_sit_info (SM_I sbi)"
definition FREE_I :: "f2fs_sb_info \<Rightarrow> free_segmap_info" where "FREE_I sbi = sm_free_info (SM_I sbi)"
definition DIRTY_I :: "f2fs_sb_info \<Rightarrow> dirty_seglist_info" where
  "DIRTY_I sbi = sm_dirty_info (SM_I sbi)"
definition CURSEG_I :: "f2fs_sb_info \<Rightarrow> nat \<Rightarrow> curseg_info" where
  "CURSEG_I sbi type = sm_curseg_array (SM_I sbi) ! type"

text \<open>Writing through the pointers those accessors return.\<close>

definition set_SIT_I :: "sit_info \<Rightarrow> f2fs_sb_info \<Rightarrow> f2fs_sb_info" where
  "set_SIT_I v sbi = sbi\<lparr>sbi_sm_info := (SM_I sbi)\<lparr>sm_sit_info := v\<rparr>\<rparr>"
definition set_FREE_I :: "free_segmap_info \<Rightarrow> f2fs_sb_info \<Rightarrow> f2fs_sb_info" where
  "set_FREE_I v sbi = sbi\<lparr>sbi_sm_info := (SM_I sbi)\<lparr>sm_free_info := v\<rparr>\<rparr>"
definition set_DIRTY_I :: "dirty_seglist_info \<Rightarrow> f2fs_sb_info \<Rightarrow> f2fs_sb_info" where
  "set_DIRTY_I v sbi = sbi\<lparr>sbi_sm_info := (SM_I sbi)\<lparr>sm_dirty_info := v\<rparr>\<rparr>"
definition set_CURSEG_I :: "nat \<Rightarrow> curseg_info \<Rightarrow> f2fs_sb_info \<Rightarrow> f2fs_sb_info" where
  "set_CURSEG_I type v sbi =
     sbi\<lparr>sbi_sm_info := (SM_I sbi)\<lparr>sm_curseg_array := (sm_curseg_array (SM_I sbi))[type := v]\<rparr>\<rparr>"

lemmas accessors = SM_I_def SIT_I_def FREE_I_def DIRTY_I_def CURSEG_I_def
lemmas setters = set_SIT_I_def set_FREE_I_def set_DIRTY_I_def set_CURSEG_I_def

text \<open>A setter changes its own part of the state only.\<close>

lemma set_SIT_I_frame [simp]:
  "sbi_por_doing (set_SIT_I v sbi) = sbi_por_doing sbi"
  "sbi_log_blocks_per_seg (set_SIT_I v sbi) = sbi_log_blocks_per_seg sbi"
  "sbi_blocks_per_seg (set_SIT_I v sbi) = sbi_blocks_per_seg sbi"
  "sbi_segs_per_sec (set_SIT_I v sbi) = sbi_segs_per_sec sbi"
  "sbi_secs_per_zone (set_SIT_I v sbi) = sbi_secs_per_zone sbi"
  "sbi_total_sections (set_SIT_I v sbi) = sbi_total_sections sbi"
  "sbi_total_node_count (set_SIT_I v sbi) = sbi_total_node_count sbi"
  "sbi_total_valid_node_count (set_SIT_I v sbi) = sbi_total_valid_node_count sbi"
  "sbi_total_valid_inode_count (set_SIT_I v sbi) = sbi_total_valid_inode_count sbi"
  "sbi_active_logs (set_SIT_I v sbi) = sbi_active_logs sbi"
  "sbi_user_block_count (set_SIT_I v sbi) = sbi_user_block_count sbi"
  "sbi_total_valid_block_count (set_SIT_I v sbi) = sbi_total_valid_block_count sbi"
  "sbi_alloc_valid_block_count (set_SIT_I v sbi) = sbi_alloc_valid_block_count sbi"
  "sbi_nr_dirty_dents (set_SIT_I v sbi) = sbi_nr_dirty_dents sbi"
  "sbi_nr_dirty_nodes (set_SIT_I v sbi) = sbi_nr_dirty_nodes sbi"
  "sbi_opt_discard (set_SIT_I v sbi) = sbi_opt_discard sbi"
  "sbi_opt_noheap (set_SIT_I v sbi) = sbi_opt_noheap sbi"
  "sbi_gc_thread (set_SIT_I v sbi) = sbi_gc_thread sbi"
  "sbi_cur_victim_sec (set_SIT_I v sbi) = sbi_cur_victim_sec sbi"
  "sbi_max_victim_search (set_SIT_I v sbi) = sbi_max_victim_search sbi"
  "sbi_last_victim_cb (set_SIT_I v sbi) = sbi_last_victim_cb sbi"
  "sbi_last_victim_greedy (set_SIT_I v sbi) = sbi_last_victim_greedy sbi"
  "sbi_meta_pages (set_SIT_I v sbi) = sbi_meta_pages sbi"
  "sm_free_info (SM_I (set_SIT_I v sbi)) = sm_free_info (SM_I sbi)"
  "sm_dirty_info (SM_I (set_SIT_I v sbi)) = sm_dirty_info (SM_I sbi)"
  "sm_curseg_array (SM_I (set_SIT_I v sbi)) = sm_curseg_array (SM_I sbi)"
  "sm_seg0_blkaddr (SM_I (set_SIT_I v sbi)) = sm_seg0_blkaddr (SM_I sbi)"
  "sm_main_blkaddr (SM_I (set_SIT_I v sbi)) = sm_main_blkaddr (SM_I sbi)"
  "sm_ssa_blkaddr (SM_I (set_SIT_I v sbi)) = sm_ssa_blkaddr (SM_I sbi)"
  "sm_segment_count (SM_I (set_SIT_I v sbi)) = sm_segment_count (SM_I sbi)"
  "sm_main_segments (SM_I (set_SIT_I v sbi)) = sm_main_segments (SM_I sbi)"
  "sm_reserved_segments (SM_I (set_SIT_I v sbi)) = sm_reserved_segments (SM_I sbi)"
  "sm_ovp_segments (SM_I (set_SIT_I v sbi)) = sm_ovp_segments (SM_I sbi)"
  "sm_rec_prefree_segments (SM_I (set_SIT_I v sbi)) = sm_rec_prefree_segments (SM_I sbi)"
  "sm_discard_list (SM_I (set_SIT_I v sbi)) = sm_discard_list (SM_I sbi)"
  "sm_nr_discards (SM_I (set_SIT_I v sbi)) = sm_nr_discards (SM_I sbi)"
  "sm_max_discards (SM_I (set_SIT_I v sbi)) = sm_max_discards (SM_I sbi)"
  "sm_ipu_policy (SM_I (set_SIT_I v sbi)) = sm_ipu_policy (SM_I sbi)"
  "sm_min_ipu_util (SM_I (set_SIT_I v sbi)) = sm_min_ipu_util (SM_I sbi)"
  "FREE_I (set_SIT_I v sbi) = FREE_I sbi"
  "DIRTY_I (set_SIT_I v sbi) = DIRTY_I sbi"
  "CURSEG_I (set_SIT_I v sbi) = CURSEG_I sbi"
  "SIT_I (set_SIT_I v sbi) = v"
  "set_SIT_I w (set_SIT_I v sbi) = set_SIT_I w sbi"
  by (simp_all add: accessors setters fun_eq_iff)

lemma set_FREE_I_frame [simp]:
  "sbi_por_doing (set_FREE_I v sbi) = sbi_por_doing sbi"
  "sbi_log_blocks_per_seg (set_FREE_I v sbi) = sbi_log_blocks_per_seg sbi"
  "sbi_blocks_per_seg (set_FREE_I v sbi) = sbi_blocks_per_seg sbi"
  "sbi_segs_per_sec (set_FREE_I v sbi) = sbi_segs_per_sec sbi"
  "sbi_secs_per_zone (set_FREE_I v sbi) = sbi_secs_per_zone sbi"
  "sbi_total_sections (set_FREE_I v sbi) = sbi_total_sections sbi"
  "sbi_total_node_count (set_FREE_I v sbi) = sbi_total_node_count sbi"
  "sbi_total_valid_node_count (set_FREE_I v sbi) = sbi_total_valid_node_count sbi"
  "sbi_total_valid_inode_count (set_FREE_I v sbi) = sbi_total_valid_inode_count sbi"
  "sbi_active_logs (set_FREE_I v sbi) = sbi_active_logs sbi"
  "sbi_user_block_count (set_FREE_I v sbi) = sbi_user_block_count sbi"
  "sbi_total_valid_block_count (set_FREE_I v sbi) = sbi_total_valid_block_count sbi"
  "sbi_alloc_valid_block_count (set_FREE_I v sbi) = sbi_alloc_valid_block_count sbi"
  "sbi_nr_dirty_dents (set_FREE_I v sbi) = sbi_nr_dirty_dents sbi"
  "sbi_nr_dirty_nodes (set_FREE_I v sbi) = sbi_nr_dirty_nodes sbi"
  "sbi_opt_discard (set_FREE_I v sbi) = sbi_opt_discard sbi"
  "sbi_opt_noheap (set_FREE_I v sbi) = sbi_opt_noheap sbi"
  "sbi_gc_thread (set_FREE_I v sbi) = sbi_gc_thread sbi"
  "sbi_cur_victim_sec (set_FREE_I v sbi) = sbi_cur_victim_sec sbi"
  "sbi_max_victim_search (set_FREE_I v sbi) = sbi_max_victim_search sbi"
  "sbi_last_victim_cb (set_FREE_I v sbi) = sbi_last_victim_cb sbi"
  "sbi_last_victim_greedy (set_FREE_I v sbi) = sbi_last_victim_greedy sbi"
  "sbi_meta_pages (set_FREE_I v sbi) = sbi_meta_pages sbi"
  "sm_sit_info (SM_I (set_FREE_I v sbi)) = sm_sit_info (SM_I sbi)"
  "sm_dirty_info (SM_I (set_FREE_I v sbi)) = sm_dirty_info (SM_I sbi)"
  "sm_curseg_array (SM_I (set_FREE_I v sbi)) = sm_curseg_array (SM_I sbi)"
  "sm_seg0_blkaddr (SM_I (set_FREE_I v sbi)) = sm_seg0_blkaddr (SM_I sbi)"
  "sm_main_blkaddr (SM_I (set_FREE_I v sbi)) = sm_main_blkaddr (SM_I sbi)"
  "sm_ssa_blkaddr (SM_I (set_FREE_I v sbi)) = sm_ssa_blkaddr (SM_I sbi)"
  "sm_segment_count (SM_I (set_FREE_I v sbi)) = sm_segment_count (SM_I sbi)"
  "sm_main_segments (SM_I (set_FREE_I v sbi)) = sm_main_segments (SM_I sbi)"
  "sm_reserved_segments (SM_I (set_FREE_I v sbi)) = sm_reserved_segments (SM_I sbi)"
  "sm_ovp_segments (SM_I (set_FREE_I v sbi)) = sm_ovp_segments (SM_I sbi)"
  "sm_rec_prefree_segments (SM_I (set_FREE_I v sbi)) = sm_rec_prefree_segments (SM_I sbi)"
  "sm_discard_list (SM_I (set_FREE_I v sbi)) = sm_discard_list (SM_I sbi)"
  "sm_nr_discards (SM_I (set_FREE_I v sbi)) = sm_nr_discards (SM_I sbi)"
  "sm_max_discards (SM_I (set_FREE_I v sbi)) = sm_max_discards (SM_I sbi)"
  "sm_ipu_policy (SM_I (set_FREE_I v sbi)) = sm_ipu_policy (SM_I sbi)"
  "sm_min_ipu_util (SM_I (set_FREE_I v sbi)) = sm_min_ipu_util (SM_I sbi)"
  "SIT_I (set_FREE_I v sbi) = SIT_I sbi"
  "DIRTY_I (set_FREE_I v sbi) = DIRTY_I sbi"
  "CURSEG_I (set_FREE_I v sbi) = CURSEG_I sbi"
  "FREE_I (set_FREE_I v sbi) = v"
  "set_FREE_I w (set_FREE_I v sbi) = set_FREE_I w sbi"
  by (simp_all add: accessors setters fun_eq_iff)

lemma set_DIRTY_I_frame [simp]:
  "sbi_por_doing (set_DIRTY_I v sbi) = sbi_por_doing sbi"
  "sbi_log_blocks_per_seg (set_DIRTY_I v sbi) = sbi_log_blocks_per_seg sbi"
  "sbi_blocks_per_seg (set_DIRTY_I v sbi) = sbi_blocks_per_seg sbi"
  "sbi_segs_per_sec (set_DIRTY_I v sbi) = sbi_segs_per_sec sbi"
  "sbi_secs_per_zone (set_DIRTY_I v sbi) = sbi_secs_per_zone sbi"
  "sbi_total_sections (set_DIRTY_I v sbi) = sbi_total_sections sbi"
  "sbi_total_node_count (set_DIRTY_I v sbi) = sbi_total_node_count sbi"
  "sbi_total_valid_node_count (set_DIRTY_I v sbi) = sbi_total_valid_node_count sbi"
  "sbi_total_valid_inode_count (set_DIRTY_I v sbi) = sbi_total_valid_inode_count sbi"
  "sbi_active_logs (set_DIRTY_I v sbi) = sbi_active_logs sbi"
  "sbi_user_block_count (set_DIRTY_I v sbi) = sbi_user_block_count sbi"
  "sbi_total_valid_block_count (set_DIRTY_I v sbi) = sbi_total_valid_block_count sbi"
  "sbi_alloc_valid_block_count (set_DIRTY_I v sbi) = sbi_alloc_valid_block_count sbi"
  "sbi_nr_dirty_dents (set_DIRTY_I v sbi) = sbi_nr_dirty_dents sbi"
  "sbi_nr_dirty_nodes (set_DIRTY_I v sbi) = sbi_nr_dirty_nodes sbi"
  "sbi_opt_discard (set_DIRTY_I v sbi) = sbi_opt_discard sbi"
  "sbi_opt_noheap (set_DIRTY_I v sbi) = sbi_opt_noheap sbi"
  "sbi_gc_thread (set_DIRTY_I v sbi) = sbi_gc_thread sbi"
  "sbi_cur_victim_sec (set_DIRTY_I v sbi) = sbi_cur_victim_sec sbi"
  "sbi_max_victim_search (set_DIRTY_I v sbi) = sbi_max_victim_search sbi"
  "sbi_last_victim_cb (set_DIRTY_I v sbi) = sbi_last_victim_cb sbi"
  "sbi_last_victim_greedy (set_DIRTY_I v sbi) = sbi_last_victim_greedy sbi"
  "sbi_meta_pages (set_DIRTY_I v sbi) = sbi_meta_pages sbi"
  "sm_sit_info (SM_I (set_DIRTY_I v sbi)) = sm_sit_info (SM_I sbi)"
  "sm_free_info (SM_I (set_DIRTY_I v sbi)) = sm_free_info (SM_I sbi)"
  "sm_curseg_array (SM_I (set_DIRTY_I v sbi)) = sm_curseg_array (SM_I sbi)"
  "sm_seg0_blkaddr (SM_I (set_DIRTY_I v sbi)) = sm_seg0_blkaddr (SM_I sbi)"
  "sm_main_blkaddr (SM_I (set_DIRTY_I v sbi)) = sm_main_blkaddr (SM_I sbi)"
  "sm_ssa_blkaddr (SM_I (set_DIRTY_I v sbi)) = sm_ssa_blkaddr (SM_I sbi)"
  "sm_segment_count (SM_I (set_DIRTY_I v sbi)) = sm_segment_count (SM_I sbi)"
  "sm_main_segments (SM_I (set_DIRTY_I v sbi)) = sm_main_segments (SM_I sbi)"
  "sm_reserved_segments (SM_I (set_DIRTY_I v sbi)) = sm_reserved_segments (SM_I sbi)"
  "sm_ovp_segments (SM_I (set_DIRTY_I v sbi)) = sm_ovp_segments (SM_I sbi)"
  "sm_rec_prefree_segments (SM_I (set_DIRTY_I v sbi)) = sm_rec_prefree_segments (SM_I sbi)"
  "sm_discard_list (SM_I (set_DIRTY_I v sbi)) = sm_discard_list (SM_I sbi)"
  "sm_nr_discards (SM_I (set_DIRTY_I v sbi)) = sm_nr_discards (SM_I sbi)"
  "sm_max_discards (SM_I (set_DIRTY_I v sbi)) = sm_max_discards (SM_I sbi)"
  "sm_ipu_policy (SM_I (set_DIRTY_I v sbi)) = sm_ipu_policy (SM_I sbi)"
  "sm_min_ipu_util (SM_I (set_DIRTY_I v sbi)) = sm_min_ipu_util (SM_I sbi)"
  "SIT_I (set_DIRTY_I v sbi) = SIT_I sbi"
  "FREE_I (set_DIRTY_I v sbi) = FREE_I sbi"
  "CURSEG_I (set_DIRTY_I v sbi) = CURSEG_I sbi"
  "DIRTY_I (set_DIRTY_I v sbi) = v"
  "set_DIRTY_I w (set_DIRTY_I v sbi) = set_DIRTY_I w sbi"
  by (simp_all add: accessors setters fun_eq_iff)

lemma set_CURSEG_I_frame [simp]:
  "sbi_por_doing (set_CURSEG_I t v sbi) = sbi_por_doing sbi"
  "sbi_log_blocks_per_seg (set_CURSEG_I t v sbi) = sbi_log_blocks_per_seg sbi"
  "sbi_blocks_per_seg (set_CURSEG_I t v sbi) = sbi_blocks_per_seg sbi"
  "sbi_segs_per_sec (set_CURSEG_I t v sbi) = sbi_segs_per_sec sbi"
  "sbi_secs_per_zone (set_CURSEG_I t v sbi) = sbi_secs_per_zone sbi"
  "sbi_total_sections (set_CURSEG_I t v sbi) = sbi_total_sections sbi"
  "sbi_total_node_count (set_CURSEG_I t v sbi) = sbi_total_node_count sbi"
  "sbi_total_valid_node_count (set_CURSEG_I t v sbi) = sbi_total_valid_node_count sbi"
  "sbi_total_valid_inode_count (set_CURSEG_I t v sbi) = sbi_total_valid_inode_count sbi"
  "sbi_active_logs (set_CURSEG_I t v sbi) = sbi_active_logs sbi"
  "sbi_user_block_count (set_CURSEG_I t v sbi) = sbi_user_block_count sbi"
  "sbi_total_valid_block_count (set_CURSEG_I t v sbi) = sbi_total_valid_block_count sbi"
  "sbi_alloc_valid_block_count (set_CURSEG_I t v sbi) = sbi_alloc_valid_block_count sbi"
  "sbi_nr_dirty_dents (set_CURSEG_I t v sbi) = sbi_nr_dirty_dents sbi"
  "sbi_nr_dirty_nodes (set_CURSEG_I t v sbi) = sbi_nr_dirty_nodes sbi"
  "sbi_opt_discard (set_CURSEG_I t v sbi) = sbi_opt_discard sbi"
  "sbi_opt_noheap (set_CURSEG_I t v sbi) = sbi_opt_noheap sbi"
  "sbi_gc_thread (set_CURSEG_I t v sbi) = sbi_gc_thread sbi"
  "sbi_cur_victim_sec (set_CURSEG_I t v sbi) = sbi_cur_victim_sec sbi"
  "sbi_max_victim_search (set_CURSEG_I t v sbi) = sbi_max_victim_search sbi"
  "sbi_last_victim_cb (set_CURSEG_I t v sbi) = sbi_last_victim_cb sbi"
  "sbi_last_victim_greedy (set_CURSEG_I t v sbi) = sbi_last_victim_greedy sbi"
  "sbi_meta_pages (set_CURSEG_I t v sbi) = sbi_meta_pages sbi"
  "sm_sit_info (SM_I (set_CURSEG_I t v sbi)) = sm_sit_info (SM_I sbi)"
  "sm_free_info (SM_I (set_CURSEG_I t v sbi)) = sm_free_info (SM_I sbi)"
  "sm_dirty_info (SM_I (set_CURSEG_I t v sbi)) = sm_dirty_info (SM_I sbi)"
  "sm_seg0_blkaddr (SM_I (set_CURSEG_I t v sbi)) = sm_seg0_blkaddr (SM_I sbi)"
  "sm_main_blkaddr (SM_I (set_CURSEG_I t v sbi)) = sm_main_blkaddr (SM_I sbi)"
  "sm_ssa_blkaddr (SM_I (set_CURSEG_I t v sbi)) = sm_ssa_blkaddr (SM_I sbi)"
  "sm_segment_count (SM_I (set_CURSEG_I t v sbi)) = sm_segment_count (SM_I sbi)"
  "sm_main_segments (SM_I (set_CURSEG_I t v sbi)) = sm_main_segments (SM_I sbi)"
  "sm_reserved_segments (SM_I (set_CURSEG_I t v sbi)) = sm_reserved_segments (SM_I sbi)"
  "sm_ovp_segments (SM_I (set_CURSEG_I t v sbi)) = sm_ovp_segments (SM_I sbi)"
  "sm_rec_prefree_segments (SM_I (set_CURSEG_I t v sbi)) = sm_rec_prefree_segments (SM_I sbi)"
  "sm_discard_list (SM_I (set_CURSEG_I t v sbi)) = sm_discard_list (SM_I sbi)"
  "sm_nr_discards (SM_I (set_CURSEG_I t v sbi)) = sm_nr_discards (SM_I sbi)"
  "sm_max_discards (SM_I (set_CURSEG_I t v sbi)) = sm_max_discards (SM_I sbi)"
  "sm_ipu_policy (SM_I (set_CURSEG_I t v sbi)) = sm_ipu_policy (SM_I sbi)"
  "sm_min_ipu_util (SM_I (set_CURSEG_I t v sbi)) = sm_min_ipu_util (SM_I sbi)"
  "SIT_I (set_CURSEG_I t v sbi) = SIT_I sbi"
  "FREE_I (set_CURSEG_I t v sbi) = FREE_I sbi"
  "DIRTY_I (set_CURSEG_I t v sbi) = DIRTY_I sbi"
  "sm_curseg_array (SM_I (set_CURSEG_I t v sbi)) = (sm_curseg_array (SM_I sbi))[t := v]"
  by (simp_all add: accessors setters fun_eq_iff)

lemma CURSEG_I_set:
  "CURSEG_I (set_CURSEG_I t v sbi) i = (if i = t \<and> t < length (sm_curseg_array (SM_I sbi)) then v else CURSEG_I sbi i)"
proof (cases "t < length (sm_curseg_array (SM_I sbi))")
  case False
  then have "(sm_curseg_array (SM_I sbi))[t := v] = sm_curseg_array (SM_I sbi)"
    by (intro list_update_beyond) simp
  then show ?thesis using False by (simp add: CURSEG_I_def)
qed (simp add: CURSEG_I_def)

end
