(* ===== verification/Node_Path.thy ===== *)
theory Node_Path
  imports F2fs_Types
begin

unbundle bit_operations_syntax

text \<open>
  How a file's block index is turned into a place in the tree of node blocks
  (\<open>get_node_path\<close> of \<open>node.c\<close>) and back (\<open>start_bidx_of_node\<close> of \<open>gc.c\<close>), the footer of a
  node block with its offset and marks (\<open>node.h\<close>), and the largest file size (\<open>super.c\<close>).
  The two directions are shown to be inverse on the whole range of a file.
\<close>

section \<open>The constants of \<open>linux/f2fs_fs.h\<close>\<close>

record node_layout =
  ADDRS_PER_BLOCK :: nat
  NIDS_PER_BLOCK :: nat
  DEF_ADDRS_PER_INODE :: nat
  F2FS_INLINE_XATTR_ADDRS :: nat
  NODE_DIR1_BLOCK :: nat
  NODE_DIR2_BLOCK :: nat
  NODE_IND1_BLOCK :: nat
  NODE_IND2_BLOCK :: nat
  NODE_DIND_BLOCK :: nat
  OFFSET_BIT_SHIFT :: nat
  COLD_BIT_SHIFT :: nat
  NAT_ENTRY_PER_BLOCK :: nat
  NAT_JOURNAL_ENTRIES :: nat
  SIT_JOURNAL_ENTRIES :: nat

definition linux_layout :: node_layout where
  "linux_layout = \<lparr> ADDRS_PER_BLOCK = 1018, NIDS_PER_BLOCK = 1018, DEF_ADDRS_PER_INODE = 923,
     F2FS_INLINE_XATTR_ADDRS = 50, NODE_DIR1_BLOCK = 924, NODE_DIR2_BLOCK = 925, NODE_IND1_BLOCK = 926,
     NODE_IND2_BLOCK = 927, NODE_DIND_BLOCK = 928, OFFSET_BIT_SHIFT = 3,
     COLD_BIT_SHIFT = 0, NAT_ENTRY_PER_BLOCK = 455, NAT_JOURNAL_ENTRIES = 38, SIT_JOURNAL_ENTRIES = 6 \<rparr>"

section \<open>Flags of an inode\<close>

definition FI_NEW_INODE :: nat where "FI_NEW_INODE = 0"
definition FI_ACL_MODE :: nat where "FI_ACL_MODE = 3"
definition FI_NO_ALLOC :: nat where "FI_NO_ALLOC = 4"
definition FI_NO_EXTENT :: nat where "FI_NO_EXTENT = 7"
definition FI_INLINE_XATTR :: nat where "FI_INLINE_XATTR = 8"
definition FI_INLINE_DATA :: nat where "FI_INLINE_DATA = 9"

lemmas inode_flags = FI_NEW_INODE_def FI_ACL_MODE_def FI_NO_ALLOC_def FI_NO_EXTENT_def
  FI_INLINE_XATTR_def FI_INLINE_DATA_def

record extent_info =
  ext_fofs :: nat
  ext_blk_addr :: nat
  ext_len :: nat

record f2fs_inode_info =
  fi_flags :: "nat \<Rightarrow> bool"
  fi_i_xattr_nid :: nat
  fi_ext :: extent_info

definition set_inode_flag :: "f2fs_inode_info \<Rightarrow> nat \<Rightarrow> f2fs_inode_info" where
  "set_inode_flag fi flag = fi\<lparr>fi_flags := (fi_flags fi)(flag := True)\<rparr>"

definition is_inode_flag_set :: "f2fs_inode_info \<Rightarrow> nat \<Rightarrow> bool" where
  "is_inode_flag_set fi flag = fi_flags fi flag"

definition clear_inode_flag :: "f2fs_inode_info \<Rightarrow> nat \<Rightarrow> f2fs_inode_info" where
  "clear_inode_flag fi flag = fi\<lparr>fi_flags := (fi_flags fi)(flag := False)\<rparr>"

definition f2fs_has_inline_data :: "f2fs_inode_info \<Rightarrow> bool" where
  "f2fs_has_inline_data fi = is_inode_flag_set fi FI_INLINE_DATA"

definition addrs_per_inode :: "node_layout \<Rightarrow> f2fs_inode_info \<Rightarrow> nat" where
  "addrs_per_inode L fi =
    (if is_inode_flag_set fi FI_INLINE_XATTR then DEF_ADDRS_PER_INODE L - F2FS_INLINE_XATTR_ADDRS L
     else DEF_ADDRS_PER_INODE L)"

section \<open>From a block index to a path\<close>

text \<open>The level, the entry of \<open>offset\<close> and of \<open>noffset\<close> for every node on the path.  The C code has the block index in a signed \<open>long\<close>: the two agree for indices below \<open>2 ^ 63\<close>, and no
  file reaches that far.\<close>

definition get_node_path ::
  "node_layout \<Rightarrow> f2fs_inode_info \<Rightarrow> nat \<Rightarrow> (nat \<times> nat list \<times> nat list) option" where
  "get_node_path L fi block =
    (let direct_index = addrs_per_inode L fi;
         direct_blks = ADDRS_PER_BLOCK L;
         dptrs_per_blk = NIDS_PER_BLOCK L;
         indirect_blks = ADDRS_PER_BLOCK L * NIDS_PER_BLOCK L;
         dindirect_blks = indirect_blks * NIDS_PER_BLOCK L
     in if block < direct_index then Some (0, [block], [0])
     else let block = block - direct_index
     in if block < direct_blks then Some (1, [NODE_DIR1_BLOCK L, block], [0, 1])
     else let block = block - direct_blks
     in if block < direct_blks then Some (1, [NODE_DIR2_BLOCK L, block], [0, 2])
     else let block = block - direct_blks
     in if block < indirect_blks then
          (let o1 = block div direct_blks
           in Some (2, [NODE_IND1_BLOCK L, o1, block mod direct_blks], [0, 3, u32 (4 + o1)]))
     else let block = block - indirect_blks
     in if block < indirect_blks then
          (let o1 = block div direct_blks
           in Some (2, [NODE_IND2_BLOCK L, o1, block mod direct_blks],
                    [0, u32 (4 + dptrs_per_blk), u32 (5 + dptrs_per_blk + o1)]))
     else let block = block - indirect_blks
     in if block < dindirect_blks then
          (let o1 = block div indirect_blks;
               o2 = (block div direct_blks) mod dptrs_per_blk
           in Some (3, [NODE_DIND_BLOCK L, o1, o2, block mod direct_blks],
                    [0, u32 (5 + dptrs_per_blk * 2), u32 (6 + dptrs_per_blk * 2 + o1 * (dptrs_per_blk + 1)),
                     u32 (7 + dptrs_per_blk * 2 + o1 * (dptrs_per_blk + 1) + o2)]))
     else None)"

definition start_bidx_of_node :: "node_layout \<Rightarrow> nat \<Rightarrow> f2fs_inode_info \<Rightarrow> nat" where
  "start_bidx_of_node L node_ofs fi =
    (let indirect_blks = 2 * NIDS_PER_BLOCK L + 4
     in if node_ofs = 0 then 0
     else let bidx =
       (if node_ofs \<le> 2 then sub32 node_ofs 1
        else if node_ofs \<le> indirect_blks then
          (let dec = sub32 node_ofs 4 div (NIDS_PER_BLOCK L + 1)
           in sub32 (sub32 node_ofs 2) dec)
        else
          (let dec = sub32 (sub32 node_ofs indirect_blks) 3 div (NIDS_PER_BLOCK L + 1)
           in sub32 (sub32 node_ofs 5) dec))
     in u32 (bidx * ADDRS_PER_BLOCK L + addrs_per_inode L fi))"

definition max_file_size :: "node_layout \<Rightarrow> nat \<Rightarrow> nat" where
  "max_file_size L bits =
    (let result = DEF_ADDRS_PER_INODE L - F2FS_INLINE_XATTR_ADDRS L;
         leaf_count = ADDRS_PER_BLOCK L;
         result = result + leaf_count * 2;
         leaf_count = leaf_count * NIDS_PER_BLOCK L;
         result = result + leaf_count * 2;
         leaf_count = leaf_count * NIDS_PER_BLOCK L;
         result = result + leaf_count
     in result * 2 ^ bits)"

section \<open>Node footers\<close>

record node_footer =
  ft_nid :: nat
  ft_ino :: nat
  ft_flag :: "32 word"
  ft_cp_ver :: nat
  ft_next_blkaddr :: nat

definition zero_footer :: node_footer where
  "zero_footer = \<lparr> ft_nid = 0, ft_ino = 0, ft_flag = 0, ft_cp_ver = 0, ft_next_blkaddr = 0 \<rparr>"

text \<open>\<open>reset\<close> clears the whole block first, the footer with it.\<close>

definition fill_node_footer :: "node_layout \<Rightarrow> node_footer \<Rightarrow> nat \<Rightarrow> nat \<Rightarrow> nat \<Rightarrow> bool \<Rightarrow> node_footer" where
  "fill_node_footer L rn nid ino ofs reset =
    (let rn = (if reset then zero_footer else rn)
     in rn\<lparr>ft_nid := nid, ft_ino := ino, ft_flag := push_bit (OFFSET_BIT_SHIFT L) (of_nat ofs)\<rparr>)"

definition ofs_of_node :: "node_layout \<Rightarrow> node_footer \<Rightarrow> nat" where
  "ofs_of_node L rn = unat (drop_bit (OFFSET_BIT_SHIFT L) (ft_flag rn))"

definition XATTR_NODE_OFFSET :: "node_layout \<Rightarrow> nat" where
  "XATTR_NODE_OFFSET L =
     unat (drop_bit (OFFSET_BIT_SHIFT L) (push_bit (OFFSET_BIT_SHIFT L) (- 1 :: 32 word)))"

definition IS_DNODE_ofs :: "node_layout \<Rightarrow> nat \<Rightarrow> bool" where
  "IS_DNODE_ofs L ofs =
    (if ofs = XATTR_NODE_OFFSET L then False
     else if ofs = 3 \<or> ofs = 4 + NIDS_PER_BLOCK L \<or> ofs = 5 + 2 * NIDS_PER_BLOCK L then False
     else if 6 + 2 * NIDS_PER_BLOCK L \<le> ofs then
       (ofs - (6 + 2 * NIDS_PER_BLOCK L)) mod (NIDS_PER_BLOCK L + 1) \<noteq> 0
     else True)"

definition IS_DNODE :: "node_layout \<Rightarrow> node_footer \<Rightarrow> bool" where
  "IS_DNODE L rn = IS_DNODE_ofs L (ofs_of_node L rn)"

text \<open>The marks kept in the low bits of the flag word.\<close>

definition is_node :: "node_footer \<Rightarrow> nat \<Rightarrow> bool" where
  "is_node rn type = (ft_flag rn AND push_bit type 1 \<noteq> 0)"

definition set_mark :: "node_footer \<Rightarrow> bool \<Rightarrow> nat \<Rightarrow> node_footer" where
  "set_mark rn mark type =
     rn\<lparr>ft_flag := (if mark then ft_flag rn OR push_bit type 1 else ft_flag rn AND NOT (push_bit type 1))\<rparr>"

text \<open>Only directories have warm node blocks.\<close>

definition set_cold_node :: "node_layout \<Rightarrow> bool \<Rightarrow> node_footer \<Rightarrow> node_footer" where
  "set_cold_node L is_dir rn =
    (if is_dir then rn\<lparr>ft_flag := ft_flag rn AND NOT (push_bit (COLD_BIT_SHIFT L) 1)\<rparr>
     else rn\<lparr>ft_flag := ft_flag rn OR push_bit (COLD_BIT_SHIFT L) 1\<rparr>)"

section \<open>The documented sizes\<close>

text \<open>The number of blocks a file can have, and what the header file guarantees of the constants:
  a file's blocks are counted in 32 bits, and the offset of every node fits beside the marks.\<close>

definition max_blocks :: "node_layout \<Rightarrow> f2fs_inode_info \<Rightarrow> nat" where
  "max_blocks L fi = addrs_per_inode L fi + 2 * ADDRS_PER_BLOCK L
     + 2 * (NIDS_PER_BLOCK L * ADDRS_PER_BLOCK L) + NIDS_PER_BLOCK L * (NIDS_PER_BLOCK L * ADDRS_PER_BLOCK L)"

definition node_count :: "node_layout \<Rightarrow> nat" where
  "node_count L = 6 + 2 * NIDS_PER_BLOCK L + NIDS_PER_BLOCK L * (NIDS_PER_BLOCK L + 1)"

definition layout_ok :: "node_layout \<Rightarrow> bool" where
  "layout_ok L \<longleftrightarrow> 0 < ADDRS_PER_BLOCK L \<and> 0 < NIDS_PER_BLOCK L \<and> OFFSET_BIT_SHIFT L < 32 \<and> COLD_BIT_SHIFT L < OFFSET_BIT_SHIFT L
     \<and> 0 < NAT_ENTRY_PER_BLOCK L
     \<and> F2FS_INLINE_XATTR_ADDRS L < DEF_ADDRS_PER_INODE L
     \<and> DEF_ADDRS_PER_INODE L + 2 * ADDRS_PER_BLOCK L + 2 * (NIDS_PER_BLOCK L * ADDRS_PER_BLOCK L)
         + NIDS_PER_BLOCK L * (NIDS_PER_BLOCK L * ADDRS_PER_BLOCK L) < 2 ^ 31
     \<and> node_count L < 2 ^ (32 - OFFSET_BIT_SHIFT L)
     \<and> NODE_DIR1_BLOCK L = DEF_ADDRS_PER_INODE L + 1 \<and> NODE_DIR2_BLOCK L = DEF_ADDRS_PER_INODE L + 2
     \<and> NODE_IND1_BLOCK L = DEF_ADDRS_PER_INODE L + 3 \<and> NODE_IND2_BLOCK L = DEF_ADDRS_PER_INODE L + 4
     \<and> NODE_DIND_BLOCK L = DEF_ADDRS_PER_INODE L + 5"

lemma linux_layout_ok: "layout_ok linux_layout"
  by (simp add: layout_ok_def linux_layout_def node_count_def)

lemma layout_okD:
  assumes "layout_ok L"
  shows "0 < ADDRS_PER_BLOCK L" "0 < NIDS_PER_BLOCK L" "OFFSET_BIT_SHIFT L < 32"
    "node_count L < 2 ^ (32 - OFFSET_BIT_SHIFT L)" "node_count L < 2 ^ 32"
    "max_blocks L fi < 2 ^ 31" "0 < addrs_per_inode L fi" "COLD_BIT_SHIFT L < OFFSET_BIT_SHIFT L" "0 < NAT_ENTRY_PER_BLOCK L"
proof -
  have "(2::nat) ^ (32 - OFFSET_BIT_SHIFT L) \<le> 2 ^ 32" by (rule power_increasing) simp_all
  then show "node_count L < 2 ^ 32"
    using assms unfolding layout_ok_def by (elim conjE) (rule less_le_trans)
  from assms show "0 < ADDRS_PER_BLOCK L" "0 < NIDS_PER_BLOCK L" "OFFSET_BIT_SHIFT L < 32"
    "node_count L < 2 ^ (32 - OFFSET_BIT_SHIFT L)"
    "max_blocks L fi < 2 ^ 31" "0 < addrs_per_inode L fi" "COLD_BIT_SHIFT L < OFFSET_BIT_SHIFT L" "0 < NAT_ENTRY_PER_BLOCK L"
    by (auto simp: layout_ok_def max_blocks_def addrs_per_inode_def simp del: power_numeral)
qed

text \<open>The offset of the last node of a path, and the index of the block in it, by the shape of the tree:
  in the inode, in the two direct nodes, below the two indirect nodes and below the double one.\<close>

datatype leaf = In_inode | Direct nat | Indirect nat nat | Double nat nat

definition leaf_ok :: "node_layout \<Rightarrow> leaf \<Rightarrow> bool" where
  "leaf_ok L l = (case l of In_inode \<Rightarrow> True | Direct i \<Rightarrow> i < 2
     | Indirect i x \<Rightarrow> i < 2 \<and> x < NIDS_PER_BLOCK L | Double x y \<Rightarrow> x < NIDS_PER_BLOCK L \<and> y < NIDS_PER_BLOCK L)"

definition leaf_nofs :: "node_layout \<Rightarrow> leaf \<Rightarrow> nat" where
  "leaf_nofs L l = (case l of In_inode \<Rightarrow> 0 | Direct i \<Rightarrow> 1 + i
     | Indirect i x \<Rightarrow> 4 + i * (NIDS_PER_BLOCK L + 1) + x
     | Double x y \<Rightarrow> 7 + 2 * NIDS_PER_BLOCK L + x * (NIDS_PER_BLOCK L + 1) + y)"

definition leaf_index :: "node_layout \<Rightarrow> leaf \<Rightarrow> nat" where
  "leaf_index L l = (case l of In_inode \<Rightarrow> 0 | Direct i \<Rightarrow> i
     | Indirect i x \<Rightarrow> 2 + i * NIDS_PER_BLOCK L + x
     | Double x y \<Rightarrow> 2 + 2 * NIDS_PER_BLOCK L + x * NIDS_PER_BLOCK L + y)"

definition leaf_start :: "node_layout \<Rightarrow> f2fs_inode_info \<Rightarrow> leaf \<Rightarrow> nat" where
  "leaf_start L fi l = (if l = In_inode then 0 else leaf_index L l * ADDRS_PER_BLOCK L + addrs_per_inode L fi)"

definition leaf_room :: "node_layout \<Rightarrow> f2fs_inode_info \<Rightarrow> leaf \<Rightarrow> nat" where
  "leaf_room L fi l = (if l = In_inode then addrs_per_inode L fi else ADDRS_PER_BLOCK L)"

definition leaf_path :: "node_layout \<Rightarrow> leaf \<Rightarrow> nat \<Rightarrow> nat list \<times> nat list" where
  "leaf_path L l b = (case l of In_inode \<Rightarrow> ([b], [0])
     | Direct i \<Rightarrow> ([if i = 0 then NODE_DIR1_BLOCK L else NODE_DIR2_BLOCK L, b], [0, 1 + i])
     | Indirect i x \<Rightarrow> ([if i = 0 then NODE_IND1_BLOCK L else NODE_IND2_BLOCK L, x, b],
         [0, 3 + i * (NIDS_PER_BLOCK L + 1), leaf_nofs L l])
     | Double x y \<Rightarrow> ([NODE_DIND_BLOCK L, x, y, b],
         [0, 5 + 2 * NIDS_PER_BLOCK L, 6 + 2 * NIDS_PER_BLOCK L + x * (NIDS_PER_BLOCK L + 1), leaf_nofs L l]))"

lemmas leaf_defs = leaf_ok_def leaf_nofs_def leaf_index_def leaf_start_def leaf_room_def leaf_path_def

lemma pair_index_less: "x < n \<Longrightarrow> y < m \<Longrightarrow> x * m + y < n * (m::nat)"
proof -
  assume "x < n" "y < m"
  then have "x * m + y < Suc x * m" by simp
  also have "\<dots> \<le> n * m" using \<open>x < n\<close> by (intro mult_le_mono1) simp
  finally show ?thesis .
qed

lemma pair_index_div: "y < m \<Longrightarrow> (x * m + y) div m = (x::nat)"
  by simp

lemma leaf_nofs_less:
  assumes "layout_ok L" and "leaf_ok L l"
  shows "leaf_nofs L l < node_count L"
proof (cases l)
  case (Indirect i x)
  then have "i = 0 \<or> i = 1" "x < NIDS_PER_BLOCK L" using assms(2) by (auto simp: leaf_ok_def)
  then show ?thesis using Indirect by (auto simp: leaf_nofs_def node_count_def)
next
  case (Double x y)
  then have "x * (NIDS_PER_BLOCK L + 1) + (y + 1) < NIDS_PER_BLOCK L * (NIDS_PER_BLOCK L + 1)"
    using assms(2) by (intro pair_index_less) (auto simp: leaf_ok_def)
  then show ?thesis using Double by (simp add: leaf_nofs_def node_count_def)
qed (use assms layout_okD(2) [OF assms(1)] in \<open>auto simp: leaf_nofs_def leaf_ok_def node_count_def\<close>)

lemma leaf_index_less:
  assumes "leaf_ok L l"
  shows "leaf_index L l < 2 + 2 * NIDS_PER_BLOCK L + NIDS_PER_BLOCK L * NIDS_PER_BLOCK L"
proof (cases l)
  case (Indirect i x)
  then have "i = 0 \<or> i = 1" "x < NIDS_PER_BLOCK L" using assms by (auto simp: leaf_ok_def)
  then show ?thesis using Indirect by (auto simp: leaf_index_def)
next
  case (Double x y)
  then show ?thesis using assms pair_index_less [of x "NIDS_PER_BLOCK L" y "NIDS_PER_BLOCK L"]
    by (simp add: leaf_index_def leaf_ok_def)
qed (use assms in \<open>auto simp: leaf_index_def leaf_ok_def\<close>)

lemma leaf_block_less:
  assumes "leaf_ok L l" and "b < leaf_room L fi l"
  shows "leaf_start L fi l + b < max_blocks L fi"
proof (cases "l = In_inode")
  case True
  then show ?thesis using assms by (simp add: leaf_start_def leaf_room_def max_blocks_def)
next
  case False
  let ?n = "2 + 2 * NIDS_PER_BLOCK L + NIDS_PER_BLOCK L * NIDS_PER_BLOCK L"
  from False have "leaf_index L l * ADDRS_PER_BLOCK L + b < ?n * ADDRS_PER_BLOCK L"
    using assms leaf_index_less [OF assms(1)] by (intro pair_index_less) (auto simp: leaf_room_def)
  moreover have "max_blocks L fi = ?n * ADDRS_PER_BLOCK L + addrs_per_inode L fi"
    by (simp add: max_blocks_def algebra_simps)
  ultimately show ?thesis using False by (simp add: leaf_start_def)
qed

lemma get_node_path_leaf:
  assumes L: "layout_ok L" and l: "leaf_ok L l" and b: "b < leaf_room L fi l"
  shows "get_node_path L fi (leaf_start L fi l + b) =
    Some (length (fst (leaf_path L l b)) - 1, leaf_path L l b)"
proof -
  note n = layout_okD [OF L]
  have u: "u32 (leaf_nofs L l) = leaf_nofs L l" "u32 (4 + NIDS_PER_BLOCK L) = 4 + NIDS_PER_BLOCK L"
    "u32 (5 + NIDS_PER_BLOCK L * 2) = 5 + NIDS_PER_BLOCK L * 2"
    using leaf_nofs_less [OF L l] n(5) by (auto simp: u32_id node_count_def)
  show ?thesis
  proof (cases l)
    case (Indirect i x)
    let ?A = "ADDRS_PER_BLOCK L"
    let ?q = "x * ?A + b"
    have x: "i = 0 \<or> i = 1" "x < NIDS_PER_BLOCK L" "b < ?A" using l b Indirect by (auto simp: leaf_ok_def leaf_room_def)
    then have q: "?q div ?A = x" "?q mod ?A = b" "?q < ?A * NIDS_PER_BLOCK L"
      using pair_index_less [of x "NIDS_PER_BLOCK L" b ?A] by (simp_all add: mult.commute)
    have s: "leaf_start L fi l + b = addrs_per_inode L fi + (?A + (?A + (i * (?A * NIDS_PER_BLOCK L) + ?q)))"
      using Indirect by (simp add: leaf_start_def leaf_index_def algebra_simps)
    show ?thesis
      using x(1) u q unfolding s
      by (auto simp: get_node_path_def Let_def Indirect leaf_path_def leaf_nofs_def)
  next
    case (Double x y)
    let ?A = "ADDRS_PER_BLOCK L" and ?N = "NIDS_PER_BLOCK L"
    let ?q = "(x * ?N + y) * ?A + b"
    have x: "x < ?N" "y < ?N" "b < ?A" using l b Double by (auto simp: leaf_ok_def leaf_room_def)
    have xy: "x * ?N + y < ?N * ?N" by (rule pair_index_less [OF x(1,2)])
    have q: "?q div ?A = x * ?N + y" "?q mod ?A = b" "?q < ?A * ?N * ?N"
      using x(3) pair_index_less [OF xy x(3)] by (simp_all add: ac_simps)
    then have q2: "?q div (?A * ?N) = x" "(?q div ?A) mod ?N = y"
      using x(2) by (simp_all add: div_mult2_eq)
    have s: "leaf_start L fi l + b = addrs_per_inode L fi + (?A + (?A + (?A * ?N + (?A * ?N + ?q))))"
      using Double by (simp add: leaf_start_def leaf_index_def algebra_simps)
    have "6 + ?N * 2 + x * (?N + 1) \<le> leaf_nofs L l" using Double by (simp add: leaf_nofs_def)
    then have "6 + ?N * 2 + x * (?N + 1) < 2 ^ 32" using leaf_nofs_less [OF L l] n(5) by linarith
    then have u2: "u32 (6 + ?N * 2 + x * (?N + 1)) = 6 + ?N * 2 + x * (?N + 1)" by (rule u32_id)
    show ?thesis
      using u u2 q q2 unfolding s
      by (simp add: get_node_path_def Let_def Double leaf_path_def leaf_nofs_def mult.commute)
  next
    case (Direct i)
    then have "i = 0 \<or> i = 1" using l by (auto simp: leaf_ok_def)
    then show ?thesis using b Direct by (auto simp: get_node_path_def Let_def leaf_defs)
  qed (use l b in \<open>auto simp: get_node_path_def Let_def leaf_defs\<close>)
qed

lemma leaf_cases:
  assumes "layout_ok L" and "block < max_blocks L fi"
  obtains l b where "leaf_ok L l" "b < leaf_room L fi l" "block = leaf_start L fi l + b"
proof -
  let ?A = "ADDRS_PER_BLOCK L" and ?N = "NIDS_PER_BLOCK L" and ?I = "addrs_per_inode L fi"
  note pos = layout_okD(1,2) [OF assms(1)]
  consider "block < ?I" | "?I \<le> block" by linarith
  then show ?thesis
  proof cases
    case 1
    then show ?thesis using that [of In_inode block] by (simp add: leaf_defs)
  next
    case 2
    define q where "q = (block - ?I) div ?A"
    define b where "b = (block - ?I) mod ?A"
    have b: "b < ?A" "block = q * ?A + ?I + b" using 2 pos by (simp_all add: b_def q_def)
    have "q * ?A < (2 + 2 * ?N + ?N * ?N) * ?A" using assms(2) b(2) by (simp add: max_blocks_def algebra_simps)
    then have q: "q < 2 + 2 * ?N + ?N * ?N" unfolding mult_less_cancel2 by blast
    have *: "leaf_ok L l \<Longrightarrow> l \<noteq> In_inode \<Longrightarrow> leaf_index L l = q \<Longrightarrow> ?thesis" for l
      using that [of l b] b by (simp add: leaf_start_def leaf_room_def)
    consider "q < 2" | "2 \<le> q" "q < 2 + ?N" | "2 + ?N \<le> q" "q < 2 + 2 * ?N" | "2 + 2 * ?N \<le> q" by linarith
    then show ?thesis
    proof cases
      case 1
      then show ?thesis using * [of "Direct q"] by (simp add: leaf_defs)
    next
      case 2
      then show ?thesis using * [of "Indirect 0 (q - 2)"] by (simp add: leaf_defs)
    next
      case 3
      then have "q - 2 - ?N < ?N" "2 + ?N + (q - 2 - ?N) = q" by linarith+
      then show ?thesis using 3 * [of "Indirect 1 (q - 2 - ?N)"] by (simp add: leaf_ok_def leaf_index_def)
    next
      case 4
      let ?r = "q - 2 - 2 * ?N"
      have "?r < ?N * ?N" using q 4 by linarith
      then have "?r div ?N < ?N" "?r mod ?N < ?N" using pos by (simp_all add: less_mult_imp_div_less)
      moreover have "2 + 2 * ?N + (?r div ?N * ?N + ?r mod ?N) = q" using 4 by simp
      ultimately show ?thesis using * [of "Double (?r div ?N) (?r mod ?N)"] by (simp add: leaf_ok_def leaf_index_def)
    qed
  qed
qed

lemma get_node_path_beyond:
  assumes "max_blocks L fi \<le> block"
  shows "get_node_path L fi block = None"
proof -
  let ?A = "ADDRS_PER_BLOCK L" and ?N = "NIDS_PER_BLOCK L"
  define d where "d = block - max_blocks L fi"
  have "block = addrs_per_inode L fi + (?A + (?A + (?A * ?N + (?A * ?N + (?A * ?N * ?N + d)))))"
    using assms by (simp add: d_def max_blocks_def algebra_simps)
  then show ?thesis by (simp add: get_node_path_def Let_def)
qed

lemma start_bidx_leaf:
  assumes L: "layout_ok L" and l: "leaf_ok L l"
  shows "start_bidx_of_node L (leaf_nofs L l) fi = leaf_start L fi l"
proof -
  note n = layout_okD [OF L] and nofs = leaf_nofs_less [OF L l]
  have "leaf_start L fi l + 0 < max_blocks L fi"
    by (rule leaf_block_less [OF l]) (use n(1) n(7) [of fi] in \<open>auto simp: leaf_room_def\<close>)
  with n(6) [of fi] have small: "leaf_start L fi l < 2 ^ 32" by simp
  note s = sub32_id
  show ?thesis
  proof (cases l)
    case (Direct i)
    then show ?thesis using l small by (auto simp: leaf_defs start_bidx_of_node_def u32_id sub32_id)
  next
    case (Indirect i x)
    then have x: "i = 0 \<or> i = 1" "x < NIDS_PER_BLOCK L" using l by (auto simp: leaf_ok_def)
    have "sub32 (leaf_nofs L l) 4 = i * (NIDS_PER_BLOCK L + 1) + x" "4 + i * (NIDS_PER_BLOCK L + 1) + x < 2 ^ 32"
      using nofs n(5) by (simp_all add: Indirect leaf_nofs_def sub32_id)
    moreover have "(i * (NIDS_PER_BLOCK L + 1) + x) div (NIDS_PER_BLOCK L + 1) = i"
      by (rule pair_index_div) (use x(2) in simp)
    ultimately show ?thesis
      using x small by (auto simp: Indirect leaf_nofs_def leaf_start_def leaf_index_def start_bidx_of_node_def Let_def
        sub32_id u32_id)
  next
    case (Double x y)
    let ?N = "NIDS_PER_BLOCK L"
    have y: "y < ?N" using l Double by (simp add: leaf_ok_def)
    have big: "7 + 2 * ?N + x * (?N + 1) + y < 2 ^ 32" using nofs n(5) by (simp add: Double leaf_nofs_def)
    have "sub32 (sub32 (leaf_nofs L l) (2 * ?N + 4)) 3 = x * (?N + 1) + y"
      using big by (simp add: Double leaf_nofs_def sub32_id)
    moreover have "(x * (?N + 1) + y) div (?N + 1) = x" by (rule pair_index_div) (use y in simp)
    moreover have "sub32 (sub32 (leaf_nofs L l) 5) x = leaf_index L l"
      using big by (simp add: Double leaf_nofs_def leaf_index_def sub32_id algebra_simps)
    moreover have "\<not> leaf_nofs L l \<le> 2 * ?N + 4" "\<not> leaf_nofs L l \<le> 2" "leaf_nofs L l \<noteq> 0"
      by (simp_all add: Double leaf_nofs_def)
    ultimately show ?thesis
      using small by (simp add: start_bidx_of_node_def Let_def u32_id leaf_start_def Double)
  qed (simp add: leaf_defs start_bidx_of_node_def)
qed

section \<open>Which nodes hold data addresses\<close>

lemma drop_push_nat:
  assumes "s < 32" and "ofs < 2 ^ (32 - s)"
  shows "unat (drop_bit s (push_bit s (of_nat ofs :: 32 word))) = ofs"
proof -
  have eq: "(2::nat) ^ 32 = 2 ^ s * 2 ^ (32 - s)" using assms(1) by (simp flip: power_add)
  have "2 ^ s * ofs < 2 ^ s * 2 ^ (32 - s)" using assms(2) by simp
  then have lt: "2 ^ s * ofs < 2 ^ 32" unfolding eq .
  have "push_bit s (of_nat ofs :: 32 word) = of_nat (2 ^ s * ofs)" by (simp add: push_bit_eq_mult mult.commute)
  then have "unat (push_bit s (of_nat ofs :: 32 word)) = 2 ^ s * ofs mod 2 ^ 32" by (simp only: unat_of_nat) simp
  then have "unat (push_bit s (of_nat ofs :: 32 word)) = 2 ^ s * ofs" using lt by (simp only: mod_less)
  then show ?thesis by (simp only: unat_drop_bit_eq) (simp add: drop_bit_eq_div)
qed

lemma XATTR_NODE_OFFSET_value:
  assumes "OFFSET_BIT_SHIFT L < 32"
  shows "XATTR_NODE_OFFSET L = 2 ^ (32 - OFFSET_BIT_SHIFT L) - 1"
proof -
  let ?s = "OFFSET_BIT_SHIFT L"
  have "push_bit ?s (- 1 :: 32 word) = push_bit ?s (mask (32 - ?s))"
    by (rule bit_word_eqI) (use assms in \<open>auto simp: bit_simps\<close>)
  also have "(mask (32 - ?s) :: 32 word) = of_nat (2 ^ (32 - ?s) - 1)"
    unfolding mask_eq_exp_minus_1 [symmetric] by (simp only: of_nat_mask_eq)
  finally show ?thesis
    unfolding XATTR_NODE_OFFSET_def using drop_push_nat [OF assms, of "2 ^ (32 - ?s) - 1"] by simp
qed

lemma nofs_not_xattr: "layout_ok L \<Longrightarrow> ofs < node_count L \<Longrightarrow> ofs \<noteq> XATTR_NODE_OFFSET L"
  using XATTR_NODE_OFFSET_value [of L] layout_okD(3,4) [of L] by auto

lemma pair_index_mod: "y < m \<Longrightarrow> (x * m + y) mod m = (y::nat)"
  by simp

lemma IS_DNODE_leaf:
  assumes L: "layout_ok L" and l: "leaf_ok L l"
  shows "IS_DNODE_ofs L (leaf_nofs L l)"
proof -
  note x = nofs_not_xattr [OF L leaf_nofs_less [OF L l]]
  show ?thesis
  proof (cases l)
    case (Double x y)
    let ?N = "NIDS_PER_BLOCK L"
    have "leaf_nofs L l - (6 + 2 * ?N) = x * (?N + 1) + (y + 1)" by (simp add: Double leaf_nofs_def)
    moreover have "(x * (?N + 1) + (y + 1)) mod (?N + 1) = y + 1"
      by (rule pair_index_mod) (use l Double in \<open>simp add: leaf_ok_def\<close>)
    ultimately have "(leaf_nofs L l - (6 + 2 * ?N)) mod (?N + 1) \<noteq> 0" by simp
    moreover have "7 + 2 * ?N \<le> leaf_nofs L l" by (simp add: Double leaf_nofs_def)
    ultimately show ?thesis using x by (simp add: IS_DNODE_ofs_def)
  next
    case (Indirect i x)
    then have "i = 0 \<or> i = 1" "x < NIDS_PER_BLOCK L" using l by (auto simp: leaf_ok_def)
    then show ?thesis using x Indirect by (auto simp: IS_DNODE_ofs_def leaf_nofs_def)
  qed (use x l in \<open>auto simp: IS_DNODE_ofs_def leaf_nofs_def leaf_ok_def\<close>)
qed

lemma dnode_leaf:
  assumes d: "IS_DNODE_ofs L ofs" and c: "ofs < node_count L"
  obtains l where "leaf_ok L l" "ofs = leaf_nofs L l"
proof -
  let ?N = "NIDS_PER_BLOCK L"
  consider "ofs = 0" | "ofs = 1" | "ofs = 2" | "4 \<le> ofs" "ofs < 4 + ?N" | "5 + ?N \<le> ofs" "ofs < 5 + 2 * ?N"
    | "6 + 2 * ?N \<le> ofs" using d by (force simp: IS_DNODE_ofs_def split: if_splits)
  then show ?thesis
  proof cases
    case 4
    then show ?thesis using that [of "Indirect 0 (ofs - 4)"] by (simp add: leaf_ok_def leaf_nofs_def)
  next
    case 5
    then have "ofs - 5 - ?N < ?N" "5 + ?N + (ofs - 5 - ?N) = ofs" by linarith+
    then show ?thesis using that [of "Indirect 1 (ofs - 5 - ?N)"] by (simp add: leaf_ok_def leaf_nofs_def)
  next
    case 6
    define r where "r = ofs - (6 + 2 * ?N)"
    have r: "r mod (?N + 1) \<noteq> 0" "r < ?N * (?N + 1)" "ofs = 6 + 2 * ?N + r"
      using d c 6 by (auto simp: r_def IS_DNODE_ofs_def node_count_def split: if_splits)
    have x: "r div (?N + 1) < ?N" using r(2) by (rule less_mult_imp_div_less)
    have "r mod (?N + 1) < ?N + 1" by simp
    then have y: "r mod (?N + 1) - 1 < ?N" using r(1) by linarith
    have "r div (?N + 1) * (?N + 1) + r mod (?N + 1) = r" by (rule div_mult_mod_eq)
    then have "ofs = 7 + 2 * ?N + r div (?N + 1) * (?N + 1) + (r mod (?N + 1) - 1)" using r(1,3) by linarith
    then show ?thesis using that [of "Double (r div (?N + 1)) (r mod (?N + 1) - 1)"] x y
      unfolding leaf_ok_def leaf_nofs_def by simp
  qed (use that [of In_inode] that [of "Direct 0"] that [of "Direct 1"] in \<open>auto simp: leaf_ok_def leaf_nofs_def\<close>)
qed

text \<open>The data of a direct node, by its offset.\<close>

definition node_room :: "node_layout \<Rightarrow> f2fs_inode_info \<Rightarrow> nat \<Rightarrow> nat" where
  "node_room L fi nofs = (if nofs = 0 then addrs_per_inode L fi else ADDRS_PER_BLOCK L)"

lemma leaf_room_node: "leaf_ok L l \<Longrightarrow> node_room L fi (leaf_nofs L l) = leaf_room L fi l"
  by (cases l) (auto simp: node_room_def leaf_room_def leaf_nofs_def)

text \<open>The last node of the path of a block and the place of the block in it.\<close>

lemma leaf_path_last:
  "length (fst (leaf_path L l b)) = length (snd (leaf_path L l b))"
  "last (fst (leaf_path L l b)) = b" "last (snd (leaf_path L l b)) = leaf_nofs L l"
  "length (fst (leaf_path L l b)) - 1 \<le> 3" "fst (leaf_path L l b) \<noteq> []"
  by (cases l; simp add: leaf_path_def leaf_nofs_def)+

lemma get_node_path_sound:
  assumes L: "layout_ok L" and p: "get_node_path L fi block = Some (level, offset, noffset)"
  obtains l where "leaf_ok L l" "last offset < leaf_room L fi l" "block = leaf_start L fi l + last offset"
    "level = length offset - 1" "(offset, noffset) = leaf_path L l (last offset)"
proof -
  have "block < max_blocks L fi"
    using p get_node_path_beyond by (metis linorder_not_less option.distinct(1))
  from leaf_cases [OF L this] obtain l b where l: "leaf_ok L l" "b < leaf_room L fi l" "block = leaf_start L fi l + b" .
  with p get_node_path_leaf [OF L l(1,2)] have
    "level = length offset - 1" "(offset, noffset) = leaf_path L l b" by auto
  moreover have "last offset = b" using leaf_path_last(2) [of L l b] calculation(2) by (metis fst_conv)
  ultimately show ?thesis using that l by blast
qed

lemma get_node_path_dnode:
  assumes L: "layout_ok L" and d: "IS_DNODE_ofs L nofs" "nofs < node_count L" and b: "b < node_room L fi nofs"
  shows "\<exists>level offset noffset. get_node_path L fi (start_bidx_of_node L nofs fi + b) = Some (level, offset, noffset)
    \<and> last noffset = nofs \<and> last offset = b"
proof -
  from dnode_leaf [OF d] obtain l where l: "leaf_ok L l" "nofs = leaf_nofs L l" .
  have "b < leaf_room L fi l" using b l leaf_room_node by metis
  from get_node_path_leaf [OF L l(1) this] show ?thesis
    using leaf_path_last [of L l b] start_bidx_leaf [OF L l(1)] l(2) by (metis prod.collapse)
qed

lemma path_in_range:
  assumes L: "layout_ok L"
  shows "case get_node_path L fi block of
      None \<Rightarrow> max_blocks L fi \<le> block
    | Some (level, offset, noffset) \<Rightarrow> block < max_blocks L fi \<and> level = length offset - 1 \<and> length noffset = length offset
        \<and> IS_DNODE_ofs L (last noffset) \<and> last noffset < node_count L \<and> last offset < node_room L fi (last noffset)
        \<and> start_bidx_of_node L (last noffset) fi + last offset = block"
proof (cases "block < max_blocks L fi")
  case True
  from leaf_cases [OF L True] obtain l b where l: "leaf_ok L l" "b < leaf_room L fi l" "block = leaf_start L fi l + b" .
  have "length (snd (leaf_path L l b)) = length (fst (leaf_path L l b))" by (cases l) (simp_all add: leaf_path_def)
  then show ?thesis
    using get_node_path_leaf [OF L l(1,2)] leaf_path_last [of L l b] l True IS_DNODE_leaf [OF L l(1)]
      leaf_nofs_less [OF L l(1)] leaf_room_node [OF l(1)] start_bidx_leaf [OF L l(1)]
    by (auto split: prod.split)
qed (use get_node_path_beyond in auto)

section \<open>Footers\<close>

lemma ofs_fill_node_footer:
  assumes "layout_ok L" and "ofs < 2 ^ (32 - OFFSET_BIT_SHIFT L)"
  shows "ofs_of_node L (fill_node_footer L rn nid ino ofs reset) = ofs"
  using drop_push_nat [OF layout_okD(3) [OF assms(1)] assms(2)]
  by (simp add: ofs_of_node_def fill_node_footer_def Let_def)

lemma drop_bit_mark:
  assumes "type < s"
  shows "drop_bit s (w OR push_bit type 1 :: 32 word) = drop_bit s w"
    "drop_bit s (w AND NOT (push_bit type 1) :: 32 word) = drop_bit s w"
  by (rule bit_word_eqI; use assms in \<open>auto simp: bit_simps bit_1_iff dest: bit_imp_le_length\<close>)+

lemma ft_flag_marks:
  "ft_flag (set_mark rn True type) = ft_flag rn OR push_bit type 1"
  "ft_flag (set_mark rn False type) = ft_flag rn AND NOT (push_bit type 1)"
  "ft_flag (set_cold_node L is_dir rn) = ft_flag (set_mark rn (\<not> is_dir) (COLD_BIT_SHIFT L))"
  by (simp_all add: set_mark_def set_cold_node_def)

lemma marks_keep_ofs [simp]:
  assumes "type < OFFSET_BIT_SHIFT L"
  shows "ofs_of_node L (set_mark rn mark type) = ofs_of_node L rn"
proof -
  have "drop_bit (OFFSET_BIT_SHIFT L) (ft_flag (set_mark rn m type)) = drop_bit (OFFSET_BIT_SHIFT L) (ft_flag rn)" for m
    by (cases m) (simp_all only: ft_flag_marks drop_bit_mark [OF assms])
  then show "ofs_of_node L (set_mark rn mark type) = ofs_of_node L rn"
    unfolding ofs_of_node_def by simp
qed

lemma set_cold_node_keeps_ofs [simp]:
  "COLD_BIT_SHIFT L < OFFSET_BIT_SHIFT L \<Longrightarrow> ofs_of_node L (set_cold_node L is_dir rn) = ofs_of_node L rn"
  using marks_keep_ofs [of "COLD_BIT_SHIFT L" L rn "\<not> is_dir"] by (simp add: ofs_of_node_def ft_flag_marks(3))

lemma is_node_bit: "type < 32 \<Longrightarrow> is_node rn type \<longleftrightarrow> bit (ft_flag rn) type"
proof -
  assume t: "type < 32"
  have "ft_flag rn AND push_bit type 1 \<noteq> 0 \<longleftrightarrow> bit (ft_flag rn) type"
  proof
    assume "ft_flag rn AND push_bit type 1 \<noteq> 0"
    then obtain i where "bit (ft_flag rn AND push_bit type 1) i"
      using bit_eq_iff [of "ft_flag rn AND push_bit type 1" 0] by auto
    then show "bit (ft_flag rn) type" by (auto simp: bit_simps bit_1_iff split: if_splits)
  next
    assume "bit (ft_flag rn) type"
    then have "bit (ft_flag rn AND push_bit type 1) type" using t by (simp add: bit_simps bit_1_iff)
    then show "ft_flag rn AND push_bit type 1 \<noteq> 0" by auto
  qed
  then show ?thesis by (simp add: is_node_def)
qed

lemma is_node_set_mark:
  assumes "type < 32" and "type' < 32"
  shows "is_node (set_mark rn mark type) type' \<longleftrightarrow> (if type' = type then mark else is_node rn type')"
  using assms by (auto simp: is_node_bit set_mark_def bit_simps bit_1_iff)

section \<open>The index of a file\<close>

text \<open>What the users of a file's index rely on: a block is in at most one place, and the place of
  every block of a node is found.  Data kept by node and position is then data kept by block.\<close>

locale block_index =
  fixes place :: "nat \<Rightarrow> ('n \<times> nat) option" and base :: "'n \<Rightarrow> nat" and room :: "'n \<Rightarrow> nat" and nodes :: "'n set"
  assumes place_sound: "place b = Some (n, i) \<Longrightarrow> n \<in> nodes \<and> i < room n \<and> b = base n + i"
    and place_complete: "n \<in> nodes \<Longrightarrow> i < room n \<Longrightarrow> place (base n + i) = Some (n, i)"
begin

lemma place_inj: "place b = Some p \<Longrightarrow> place c = Some p \<Longrightarrow> b = c"
  by (cases p) (metis place_sound)

lemma base_inj:
  assumes "n \<in> nodes" and "i < room n" and "m \<in> nodes" and "j < room m" and "base n + i = base m + j"
  shows "n = m \<and> i = j"
  by (metis assms place_complete option.inject prod.inject)

definition entry :: "('n \<Rightarrow> nat list option) \<Rightarrow> nat \<Rightarrow> nat option" where
  "entry tab b = (case place b of None \<Rightarrow> None | Some (n, i) \<Rightarrow> map_option (\<lambda>a. a ! i) (tab n))"

lemma entry_write:
  assumes "n \<in> nodes" and "i < room n" and "tab n = Some a" and "i < length a"
  shows "entry (tab(n \<mapsto> a[i := v])) = (entry tab)(base n + i \<mapsto> v)"
proof
  fix b
  show "entry (tab(n \<mapsto> a[i := v])) b = ((entry tab)(base n + i \<mapsto> v)) b"
  proof (cases "b = base n + i")
    case True
    then show ?thesis using place_complete [OF assms(1,2)] assms(4) by (simp add: entry_def)
  next
    case False
    then have "place b \<noteq> Some (n, i)" using place_sound by blast
    then show ?thesis using False assms(3) by (auto simp: entry_def split: option.splits)
  qed
qed

end

definition block_place :: "node_layout \<Rightarrow> f2fs_inode_info \<Rightarrow> nat \<Rightarrow> (nat \<times> nat) option" where
  "block_place L fi block = map_option (\<lambda>(_, offset, noffset). (last noffset, last offset)) (get_node_path L fi block)"

lemma block_index_layout:
  assumes L: "layout_ok L"
  shows "block_index (block_place L fi) (\<lambda>n. start_bidx_of_node L n fi) (node_room L fi)
    {n. IS_DNODE_ofs L n \<and> n < node_count L}"
proof
  show "n \<in> {n. IS_DNODE_ofs L n \<and> n < node_count L} \<and> i < node_room L fi n \<and> b = start_bidx_of_node L n fi + i"
    if "block_place L fi b = Some (n, i)" for b n i
  proof -
    from that obtain level offset noffset where p: "get_node_path L fi b = Some (level, offset, noffset)"
      "n = last noffset" "i = last offset" by (auto simp: block_place_def)
    from get_node_path_sound [OF L p(1)] obtain l where l: "leaf_ok L l" "i < leaf_room L fi l"
      "b = leaf_start L fi l + i" "(offset, noffset) = leaf_path L l i" unfolding p(3) .
    have "n = leaf_nofs L l" using leaf_path_last(3) [of L l i] l(4) p(2) by (metis snd_conv)
    then show ?thesis
      using l IS_DNODE_leaf [OF L l(1)] leaf_nofs_less [OF L l(1)] leaf_room_node [OF l(1)] start_bidx_leaf [OF L l(1)] by simp
  qed
  show "block_place L fi (start_bidx_of_node L n fi + i) = Some (n, i)"
    if "n \<in> {n. IS_DNODE_ofs L n \<and> n < node_count L}" "i < node_room L fi n" for n i
    using get_node_path_dnode [OF L, of n i fi] that by (auto simp: block_place_def)
qed

interpretation linux: block_index "block_place linux_layout fi" "\<lambda>n. start_bidx_of_node linux_layout n fi"
  "node_room linux_layout fi" "{n. IS_DNODE_ofs linux_layout n \<and> n < node_count linux_layout}" for fi
  by (rule block_index_layout [OF linux_layout_ok])

end
