(* ===== verification/F2fs_Bits.thy ===== *)
theory F2fs_Bits
  imports F2fs_Types
begin

unbundle bit_operations_syntax

text \<open>
  Bit operations of f2fs: \<open>f2fs_test_bit\<close>, \<open>f2fs_set_bit\<close> and \<open>f2fs_clear_bit\<close> of \<open>f2fs.h\<close>
  on byte arrays.  The word-at-a-time searches of \<open>segment.c\<close> on the same memory are in
  theory \<open>Rev_Search\<close>.
\<close>

section \<open>Bits of a byte array\<close>

definition f2fs_mask :: "nat \<Rightarrow> 8 word" where
  "f2fs_mask nr = push_bit (7 - nr mod 8) 1"

definition f2fs_test_bit :: "nat \<Rightarrow> 8 word list \<Rightarrow> bool" where
  "f2fs_test_bit nr addr \<longleftrightarrow> f2fs_mask nr AND addr ! (nr div 8) \<noteq> 0"

text \<open>The setters return the old bit and the new array.\<close>

definition f2fs_set_bit :: "nat \<Rightarrow> 8 word list \<Rightarrow> bool \<times> 8 word list" where
  "f2fs_set_bit nr addr =
     (let ret = f2fs_mask nr AND addr ! (nr div 8) \<noteq> 0
      in (ret, addr[nr div 8 := addr ! (nr div 8) OR f2fs_mask nr]))"

definition f2fs_clear_bit :: "nat \<Rightarrow> 8 word list \<Rightarrow> bool \<times> 8 word list" where
  "f2fs_clear_bit nr addr =
     (let ret = f2fs_mask nr AND addr ! (nr div 8) \<noteq> 0
      in (ret, addr[nr div 8 := addr ! (nr div 8) AND NOT (f2fs_mask nr)]))"

lemma bit_f2fs_mask: "bit (f2fs_mask nr) j \<longleftrightarrow> j = 7 - nr mod 8"
  by (auto simp: f2fs_mask_def bit_exp_iff)

lemma f2fs_test_bit_iff: "f2fs_test_bit nr addr \<longleftrightarrow> bit (addr ! (nr div 8)) (7 - nr mod 8)"
proof -
  have "f2fs_mask nr AND b \<noteq> 0 \<longleftrightarrow> bit b (7 - nr mod 8)" for b
    using bit_eq_iff [of "f2fs_mask nr AND b" 0]
    by (auto simp: bit_and_iff bit_f2fs_mask possible_bit_word)
  then show ?thesis by (simp add: f2fs_test_bit_def)
qed

lemma fst_f2fs_set_bit [simp]: "fst (f2fs_set_bit nr m) = f2fs_test_bit nr m"
  by (simp add: f2fs_set_bit_def f2fs_test_bit_def)

lemma fst_f2fs_clear_bit [simp]: "fst (f2fs_clear_bit nr m) = f2fs_test_bit nr m"
  by (simp add: f2fs_clear_bit_def f2fs_test_bit_def)

lemma length_f2fs_set_bit [simp]: "length (snd (f2fs_set_bit nr m)) = length m"
  by (simp add: f2fs_set_bit_def)

lemma length_f2fs_clear_bit [simp]: "length (snd (f2fs_clear_bit nr m)) = length m"
  by (simp add: f2fs_clear_bit_def)

text \<open>Two bit numbers meet in the same byte and mask only when they are equal.\<close>

lemma byte_pos_eq: "i div 8 = j div 8 \<Longrightarrow> 7 - i mod 8 = 7 - j mod 8 \<Longrightarrow> i = (j::nat)"
proof -
  assume d: "i div 8 = j div 8" and m: "7 - i mod 8 = 7 - j mod 8"
  have "i mod 8 < 8" "j mod 8 < 8" by simp_all
  with m have "i mod 8 = j mod 8" by linarith
  with d show "i = j" by (metis div_mult_mod_eq)
qed

lemma f2fs_test_set_bit:
  assumes "nr < 8 * length m"
  shows "f2fs_test_bit i (snd (f2fs_set_bit nr m)) \<longleftrightarrow> i = nr \<or> f2fs_test_bit i m"
proof (cases "i div 8 = nr div 8")
  case True
  have "nr div 8 < length m" using assms by (simp add: less_mult_imp_div_less mult.commute)
  with True byte_pos_eq [of i nr] show ?thesis
    by (auto simp: f2fs_set_bit_def f2fs_test_bit_iff bit_or_iff bit_f2fs_mask)
next
  case False
  then show ?thesis by (auto simp: f2fs_set_bit_def f2fs_test_bit_iff)
qed

lemma f2fs_test_clear_bit:
  assumes "nr < 8 * length m"
  shows "f2fs_test_bit i (snd (f2fs_clear_bit nr m)) \<longleftrightarrow> i \<noteq> nr \<and> f2fs_test_bit i m"
proof (cases "i div 8 = nr div 8")
  case True
  have "nr div 8 < length m" using assms by (simp add: less_mult_imp_div_less mult.commute)
  with True byte_pos_eq [of i nr] show ?thesis
    by (auto simp: f2fs_clear_bit_def f2fs_test_bit_iff bit_and_iff bit_not_iff bit_f2fs_mask)
next
  case False
  then show ?thesis by (auto simp: f2fs_clear_bit_def f2fs_test_bit_iff)
qed

text \<open>A byte array as the set of its bits: the setters are function updates.\<close>

definition bits_of :: "8 word list \<Rightarrow> nat \<Rightarrow> bool" where
  "bits_of m i = f2fs_test_bit i m"

lemma bits_of_set: "nr < 8 * length m \<Longrightarrow> bits_of (snd (f2fs_set_bit nr m)) = (bits_of m)(nr := True)"
  by (rule ext) (simp add: bits_of_def f2fs_test_set_bit)

lemma bits_of_clear:
  "nr < 8 * length m \<Longrightarrow> bits_of (snd (f2fs_clear_bit nr m)) = (bits_of m)(nr := False)"
  by (rule ext) (simp add: bits_of_def f2fs_test_clear_bit)

lemma count_bits_set:
  "nr < n \<Longrightarrow> n \<le> 8 * length m \<Longrightarrow> \<not> f2fs_test_bit nr m \<Longrightarrow>
   count_bits n (bits_of (snd (f2fs_set_bit nr m))) = count_bits n (bits_of m) + 1"
  by (simp add: bits_of_set counts) (simp add: bits_of_def)

lemma count_bits_clear:
  "nr < n \<Longrightarrow> n \<le> 8 * length m \<Longrightarrow> f2fs_test_bit nr m \<Longrightarrow>
   count_bits n (bits_of (snd (f2fs_clear_bit nr m))) = count_bits n (bits_of m) - 1"
  by (simp add: bits_of_clear counts) (simp add: bits_of_def)

end
