(* ===== verification/Nat_Types.thy ===== *)
theory Nat_Types
  imports Node_Path F2fs_Bits
begin

text \<open>
  The node address table (\<open>node.c\<close>, \<open>node.h\<close>): which block holds the node with a given
  number.  Its entries live in blocks on disk that have two places each, in a journal that
  is part of a summary block, and in a cache.  This theory holds the data, the place of a
  table block, the journal and the elementary operations on the cache.

  A cache entry has one owner, the radix tree \<open>nat_root\<close>, and stands on one of two lists; the
  lists are lists of node ids.  An allocation of memory that fails is repeated by the code
  until it succeeds: the model is the state after the repetition.
\<close>

section \<open>Data\<close>

record f2fs_nat_entry =
  rne_version :: nat
  rne_ino :: nat
  rne_block_addr :: nat

record node_info =
  ni_nid :: nat
  ni_ino :: nat
  ni_blk_addr :: nat
  ni_version :: nat

record nat_entry =
  nat_checkpointed :: bool
  nat_ni :: node_info

datatype nid_state = NID_NEW | NID_ALLOC

record free_nid =
  fn_nid :: nat
  fn_state :: nid_state

record f2fs_nm_info =
  nm_nat_blkaddr :: nat
  nm_max_nid :: nat
  nm_next_scan_nid :: nat
  nm_nat_root :: "nat \<Rightarrow> nat_entry option"
  nm_nat_cnt :: nat
  nm_nat_entries :: "nat list"
  nm_dirty_nat_entries :: "nat list"
  nm_free_nid_list :: "free_nid list"
  nm_fcnt :: nat
  nm_nat_bitmap :: "8 word list"

text \<open>A page of the table with its dirty mark, and a journal: the number of entries in use and
  the array of entries with their keys.\<close>

record nat_page =
  np_dirty :: bool
  np_entries :: "f2fs_nat_entry list"

record 'e journal =
  jr_n :: nat
  jr_entries :: "(nat \<times> 'e) list"

text \<open>What the node manager works on: its own data, the journal of the hot data log, the pages of
  the table, and the flag \<open>on_build_free_nids\<close> of the superblock.\<close>

record nat_state =
  ns_nm :: f2fs_nm_info
  ns_journal :: "f2fs_nat_entry journal"
  ns_pages :: "nat \<Rightarrow> nat_page"
  ns_on_build_free_nids :: bool

section \<open>The place of a block of the table\<close>

definition START_NID :: "node_layout \<Rightarrow> nat \<Rightarrow> nat" where
  "START_NID L nid = nid div NAT_ENTRY_PER_BLOCK L * NAT_ENTRY_PER_BLOCK L"

definition NAT_BLOCK_OFFSET :: "node_layout \<Rightarrow> nat \<Rightarrow> nat" where
  "NAT_BLOCK_OFFSET L start_nid = start_nid div NAT_ENTRY_PER_BLOCK L"

definition current_nat_addr :: "node_layout \<Rightarrow> f2fs_sb_info \<Rightarrow> f2fs_nm_info \<Rightarrow> nat \<Rightarrow> nat" where
  "current_nat_addr L sbi nm_i start =
    (let block_off = NAT_BLOCK_OFFSET L start;
         seg_off = block_off div 2 ^ sbi_log_blocks_per_seg sbi;
         block_addr = u64 (nm_nat_blkaddr nm_i + seg_off * 2 ^ sbi_log_blocks_per_seg sbi * 2
                           + block_off mod 2 ^ sbi_log_blocks_per_seg sbi)
     in if f2fs_test_bit block_off (nm_nat_bitmap nm_i) then u64 (block_addr + sbi_blocks_per_seg sbi)
        else block_addr)"

definition next_nat_addr :: "f2fs_sb_info \<Rightarrow> f2fs_nm_info \<Rightarrow> nat \<Rightarrow> nat" where
  "next_nat_addr sbi nm_i block_addr =
    (let block_addr = sub64 block_addr (nm_nat_blkaddr nm_i);
         block_addr = (if (block_addr div 2 ^ sbi_log_blocks_per_seg sbi) mod 2 \<noteq> 0
                       then sub64 block_addr (sbi_blocks_per_seg sbi)
                       else u64 (block_addr + sbi_blocks_per_seg sbi))
     in u64 (block_addr + nm_nat_blkaddr nm_i))"

definition set_to_next_nat :: "node_layout \<Rightarrow> f2fs_nm_info \<Rightarrow> nat \<Rightarrow> f2fs_nm_info" where
  "set_to_next_nat L nm_i start_nid =
    (let block_off = NAT_BLOCK_OFFSET L start_nid
     in if f2fs_test_bit block_off (nm_nat_bitmap nm_i)
        then nm_i\<lparr>nm_nat_bitmap := snd (f2fs_clear_bit block_off (nm_nat_bitmap nm_i))\<rparr>
        else nm_i\<lparr>nm_nat_bitmap := snd (f2fs_set_bit block_off (nm_nat_bitmap nm_i))\<rparr>)"

section \<open>The journal\<close>

text \<open>\<open>update_nats_in_cursum\<close> and \<open>update_sits_in_cursum\<close>, and the two branches of
  \<open>lookup_journal_in_cursum\<close>, differ only in the array they use.\<close>

definition update_cursum :: "'e journal \<Rightarrow> int \<Rightarrow> nat \<times> 'e journal" where
  "update_cursum rs i = (jr_n rs, rs\<lparr>jr_n := to_u16 (int (jr_n rs) + i)\<rparr>)"

fun journal_index :: "(nat \<times> 'e) list \<Rightarrow> nat \<Rightarrow> nat \<Rightarrow> nat option" where
  "journal_index [] val i = None"
| "journal_index (e # es) val i = (if fst e = val then Some i else journal_index es val (i + 1))"

definition lookup_journal_in_cursum :: "nat \<Rightarrow> 'e journal \<Rightarrow> nat \<Rightarrow> bool \<Rightarrow> int \<times> 'e journal" where
  "lookup_journal_in_cursum entries_max rs val alloc =
    (case journal_index (take (jr_n rs) (jr_entries rs)) val 0 of
       Some i \<Rightarrow> (int i, rs)
     | None \<Rightarrow>
        if alloc \<and> jr_n rs < entries_max
        then (let (before, rs) = update_cursum rs 1 in (int before, rs))
        else (- 1, rs))"

section \<open>The cache\<close>

definition lookup_nat_cache :: "f2fs_nm_info \<Rightarrow> nat \<Rightarrow> nat_entry option" where
  "lookup_nat_cache nm_i n = nm_nat_root nm_i n"

definition put_nat_cache :: "nat \<Rightarrow> nat_entry \<Rightarrow> f2fs_nm_info \<Rightarrow> f2fs_nm_info" where
  "put_nat_cache n e nm_i = nm_i\<lparr>nm_nat_root := (nm_nat_root nm_i)(n \<mapsto> e)\<rparr>"

text \<open>\<open>list_del\<close> takes the entry off whichever list it is on.\<close>

definition del_from_nat_cache :: "f2fs_nm_info \<Rightarrow> nat \<Rightarrow> f2fs_nm_info" where
  "del_from_nat_cache nm_i n =
     nm_i\<lparr>nm_nat_entries := remove1 n (nm_nat_entries nm_i),
          nm_dirty_nat_entries := remove1 n (nm_dirty_nat_entries nm_i),
          nm_nat_root := (nm_nat_root nm_i)(n := None),
          nm_nat_cnt := sub32 (nm_nat_cnt nm_i) 1\<rparr>"

definition set_nat_cache_dirty :: "f2fs_nm_info \<Rightarrow> nat \<Rightarrow> f2fs_nm_info" where
  "set_nat_cache_dirty nm_i n =
     nm_i\<lparr>nm_nat_entries := remove1 n (nm_nat_entries nm_i),
          nm_dirty_nat_entries := remove1 n (nm_dirty_nat_entries nm_i) @ [n]\<rparr>"

definition clear_nat_cache_dirty :: "f2fs_nm_info \<Rightarrow> nat \<Rightarrow> f2fs_nm_info" where
  "clear_nat_cache_dirty nm_i n =
     nm_i\<lparr>nm_dirty_nat_entries := remove1 n (nm_dirty_nat_entries nm_i),
          nm_nat_entries := remove1 n (nm_nat_entries nm_i) @ [n]\<rparr>"

definition is_checkpointed_node :: "f2fs_nm_info \<Rightarrow> nat \<Rightarrow> bool" where
  "is_checkpointed_node nm_i nid =
    (case lookup_nat_cache nm_i nid of Some e \<Rightarrow> nat_checkpointed e | None \<Rightarrow> True)"

definition grab_nat_entry :: "f2fs_nm_info \<Rightarrow> nat \<Rightarrow> nat_entry \<times> f2fs_nm_info" where
  "grab_nat_entry nm_i nid =
    (let new = \<lparr> nat_checkpointed = False,
                 nat_ni = \<lparr> ni_nid = nid, ni_ino = 0, ni_blk_addr = 0, ni_version = 0 \<rparr> \<rparr>
     in (new, nm_i\<lparr>nm_nat_root := (nm_nat_root nm_i)(nid \<mapsto> new),
                   nm_nat_entries := nm_nat_entries nm_i @ [nid],
                   nm_nat_cnt := u32 (nm_nat_cnt nm_i + 1)\<rparr>))"

definition set_from_raw :: "nat_entry \<Rightarrow> f2fs_nat_entry \<Rightarrow> nat_entry" where
  "set_from_raw e ne = e\<lparr>nat_ni := (nat_ni e)\<lparr>ni_blk_addr := rne_block_addr ne, ni_ino := rne_ino ne,
     ni_version := rne_version ne\<rparr>\<rparr>"

definition cache_nat_entry :: "f2fs_nm_info \<Rightarrow> nat \<Rightarrow> f2fs_nat_entry \<Rightarrow> f2fs_nm_info" where
  "cache_nat_entry nm_i nid ne =
    (case lookup_nat_cache nm_i nid of
       Some _ \<Rightarrow> nm_i
     | None \<Rightarrow>
        let (e, nm_i) = grab_nat_entry nm_i nid
        in put_nat_cache nid ((set_from_raw e ne)\<lparr>nat_checkpointed := True\<rparr>) nm_i)"

definition node_info_from_raw_nat :: "node_info \<Rightarrow> f2fs_nat_entry \<Rightarrow> node_info" where
  "node_info_from_raw_nat ni raw_ne =
     ni\<lparr>ni_ino := rne_ino raw_ne, ni_blk_addr := rne_block_addr raw_ne, ni_version := rne_version raw_ne\<rparr>"

section \<open>Pages of the table\<close>

definition get_next_nat_page :: "node_layout \<Rightarrow> f2fs_sb_info \<Rightarrow> nat_state \<Rightarrow> nat \<Rightarrow> nat \<times> nat_state" where
  "get_next_nat_page L sbi S nid =
    (let src_off = current_nat_addr L sbi (ns_nm S) nid;
         dst_off = next_nat_addr sbi (ns_nm S) src_off;
         src_page = ns_pages S src_off
     in if np_dirty src_page then (src_off, S)
        else (dst_off, S\<lparr>ns_pages := (ns_pages S)(dst_off := \<lparr> np_dirty = True, np_entries = np_entries src_page \<rparr>),
                         ns_nm := set_to_next_nat L (ns_nm S) nid\<rparr>))"

text \<open>\<open>ni_ino\<close> and \<open>ni_version\<close> of the caller's record are overwritten on every path.\<close>

definition get_node_info :: "node_layout \<Rightarrow> f2fs_sb_info \<Rightarrow> nat_state \<Rightarrow> nat \<Rightarrow> node_info \<times> nat_state" where
  "get_node_info L sbi S nid =
    (let nm_i = ns_nm S;
         start_nid = START_NID L nid;
         ni = \<lparr> ni_nid = nid, ni_ino = 0, ni_blk_addr = 0, ni_version = 0 \<rparr>
     in case lookup_nat_cache nm_i nid of
          Some e \<Rightarrow> (ni\<lparr>ni_ino := ni_ino (nat_ni e), ni_blk_addr := ni_blk_addr (nat_ni e),
                         ni_version := ni_version (nat_ni e)\<rparr>, S)
        | None \<Rightarrow>
           let i = fst (lookup_journal_in_cursum (NAT_JOURNAL_ENTRIES L) (ns_journal S) nid False);
               ne = (if 0 \<le> i then snd (jr_entries (ns_journal S) ! nat i)
                     else np_entries (ns_pages S (current_nat_addr L sbi nm_i start_nid)) ! (nid - start_nid))
           in (node_info_from_raw_nat ni ne, S\<lparr>ns_nm := cache_nat_entry nm_i nid ne\<rparr>))"

text \<open>The new address of the node \<open>ni\<close>.\<close>

definition set_node_addr :: "f2fs_env \<Rightarrow> f2fs_nm_info \<Rightarrow> node_info \<Rightarrow> nat \<Rightarrow> f2fs_nm_info option" where
  "set_node_addr E nm_i ni new_blkaddr = do {
     let nid = ni_nid ni;
     (e, nm_i) \<leftarrow> (case lookup_nat_cache nm_i nid of
         None \<Rightarrow> do {
           let nm_i = snd (grab_nat_entry nm_i nid);
           f2fs_bug_on E (ni_blk_addr ni = NEW_ADDR E);
           Some (\<lparr> nat_checkpointed = True, nat_ni = ni \<rparr>, nm_i) }
       | Some e \<Rightarrow>
           if new_blkaddr = NEW_ADDR E then do {
             f2fs_bug_on E (ni_blk_addr ni \<noteq> NULL_ADDR E);
             Some (e\<lparr>nat_ni := ni\<rparr>, nm_i) }
           else Some (e, nm_i));
     let e = (if new_blkaddr = NEW_ADDR E then e\<lparr>nat_checkpointed := False\<rparr> else e);
     let blkaddr = ni_blk_addr (nat_ni e);
     f2fs_bug_on E (blkaddr \<noteq> ni_blk_addr ni);
     f2fs_bug_on E (blkaddr = NULL_ADDR E \<and> new_blkaddr = NULL_ADDR E);
     f2fs_bug_on E (blkaddr = NEW_ADDR E \<and> new_blkaddr = NEW_ADDR E);
     f2fs_bug_on E (blkaddr \<noteq> NEW_ADDR E \<and> blkaddr \<noteq> NULL_ADDR E \<and> new_blkaddr = NEW_ADDR E);
     let e = (if blkaddr \<noteq> NEW_ADDR E \<and> new_blkaddr = NULL_ADDR E
              then e\<lparr>nat_ni := (nat_ni e)\<lparr>ni_version := u8 (ni_version (nat_ni e) + 1)\<rparr>\<rparr> else e);
     let e = e\<lparr>nat_ni := (nat_ni e)\<lparr>ni_blk_addr := new_blkaddr\<rparr>\<rparr>;
     Some (set_nat_cache_dirty (put_nat_cache nid e nm_i) nid) }"
end
