(* ===== verification/Nat_Ops.thy ===== *)
theory Nat_Ops
  imports Nat_Types
begin

text \<open>
  The larger operations of the node address table (\<open>node.c\<close>): the list of free node ids
  (\<open>add_free_nid\<close> to \<open>alloc_nid_failed\<close>), and writing the dirty cache entries to the journal
  and the table at a checkpoint (\<open>flush_nats_in_journal\<close>, \<open>flush_nat_entries\<close>).
\<close>

definition FREE_NID_PAGES :: nat where "FREE_NID_PAGES = 4"

definition MAX_FREE_NIDS :: "node_layout \<Rightarrow> nat" where
  "MAX_FREE_NIDS L = NAT_ENTRY_PER_BLOCK L * FREE_NID_PAGES"

definition NM_WOUT_THRESHOLD :: "node_layout \<Rightarrow> nat" where
  "NM_WOUT_THRESHOLD L = 64 * NAT_ENTRY_PER_BLOCK L"

section \<open>Free node ids\<close>

definition lookup_free_nid_list :: "nat \<Rightarrow> free_nid list \<Rightarrow> free_nid option" where
  "lookup_free_nid_list n head = find (\<lambda>i. fn_nid i = n) head"

definition del_from_free_nid_list :: "f2fs_nm_info \<Rightarrow> free_nid \<Rightarrow> f2fs_nm_info" where
  "del_from_free_nid_list nm_i i = nm_i\<lparr>nm_free_nid_list := remove1 i (nm_free_nid_list nm_i)\<rparr>"

text \<open>The result is \<open>-1\<close> when there are enough, \<open>0\<close> when the id is not added and \<open>1\<close> when it is.\<close>

definition add_free_nid :: "f2fs_env \<Rightarrow> node_layout \<Rightarrow> f2fs_nm_info \<Rightarrow> nat \<Rightarrow> bool \<Rightarrow> int \<times> f2fs_nm_info" where
  "add_free_nid E L nm_i nid build =
    (if 2 * MAX_FREE_NIDS L < nm_fcnt nm_i then (- 1, nm_i)
     else if nid = 0 then (0, nm_i)
     else if build \<and> (case lookup_nat_cache nm_i nid of Some ne \<Rightarrow> ni_blk_addr (nat_ni ne) \<noteq> NULL_ADDR E | None \<Rightarrow> False)
     then (0, nm_i)
     else if lookup_free_nid_list nid (nm_free_nid_list nm_i) \<noteq> None then (0, nm_i)
     else (1, nm_i\<lparr>nm_free_nid_list := nm_free_nid_list nm_i @ [\<lparr> fn_nid = nid, fn_state = NID_NEW \<rparr>],
                   nm_fcnt := u32 (nm_fcnt nm_i + 1)\<rparr>))"

definition remove_free_nid :: "f2fs_nm_info \<Rightarrow> nat \<Rightarrow> f2fs_nm_info" where
  "remove_free_nid nm_i nid =
    (case lookup_free_nid_list nid (nm_free_nid_list nm_i) of
       Some i \<Rightarrow> if fn_state i = NID_NEW
                 then (del_from_free_nid_list nm_i i)\<lparr>nm_fcnt := sub32 (nm_fcnt nm_i) 1\<rparr> else nm_i
     | None \<Rightarrow> nm_i)"

text \<open>The loop over the entries of one page from \<open>start_nid\<close> on, \<open>n\<close> of them left.\<close>

primrec scan_nat_entries ::
  "f2fs_env \<Rightarrow> node_layout \<Rightarrow> nat \<Rightarrow> f2fs_nat_entry list \<Rightarrow> nat \<Rightarrow> f2fs_nm_info \<Rightarrow> f2fs_nm_info option" where
  "scan_nat_entries E L 0 entries start_nid nm_i = Some nm_i"
| "scan_nat_entries E L (Suc n) entries start_nid nm_i =
    (if nm_max_nid nm_i \<le> start_nid then Some nm_i
     else do {
       let blk_addr = rne_block_addr (entries ! (start_nid mod NAT_ENTRY_PER_BLOCK L));
       f2fs_bug_on E (blk_addr = NEW_ADDR E);
       if blk_addr = NULL_ADDR E then
         (let (ret, nm_i) = add_free_nid E L nm_i start_nid True
          in if ret < 0 then Some nm_i else scan_nat_entries E L n entries (u32 (start_nid + 1)) nm_i)
       else scan_nat_entries E L n entries (u32 (start_nid + 1)) nm_i })"

definition scan_nat_page :: "f2fs_env \<Rightarrow> node_layout \<Rightarrow> f2fs_nm_info \<Rightarrow> nat_page \<Rightarrow> nat \<Rightarrow> f2fs_nm_info option" where
  "scan_nat_page E L nm_i nat_page start_nid =
     scan_nat_entries E L (NAT_ENTRY_PER_BLOCK L - start_nid mod NAT_ENTRY_PER_BLOCK L) (np_entries nat_page) start_nid nm_i"

text \<open>The \<open>while (1)\<close> loop runs once more for every page left: the break comes after the scan.\<close>

primrec scan_nat_pages :: "f2fs_env \<Rightarrow> node_layout \<Rightarrow> f2fs_sb_info \<Rightarrow> nat \<Rightarrow> nat \<Rightarrow> nat_state \<Rightarrow> (nat \<times> nat_state) option" where
  "scan_nat_pages E L sbi 0 nid S = Some (nid, S)"
| "scan_nat_pages E L sbi (Suc n) nid S = do {
     let page = ns_pages S (current_nat_addr L sbi (ns_nm S) nid);
     nm_i \<leftarrow> scan_nat_page E L (ns_nm S) page nid;
     let nid = u32 (nid + (NAT_ENTRY_PER_BLOCK L - nid mod NAT_ENTRY_PER_BLOCK L));
     let nid = (if nm_max_nid nm_i \<le> nid then 0 else nid);
     scan_nat_pages E L sbi n nid (S\<lparr>ns_nm := nm_i\<rparr>) }"

fun scan_journal :: "f2fs_env \<Rightarrow> node_layout \<Rightarrow> (nat \<times> f2fs_nat_entry) list \<Rightarrow> f2fs_nm_info \<Rightarrow> f2fs_nm_info" where
  "scan_journal E L [] nm_i = nm_i"
| "scan_journal E L ((nid, ne) # es) nm_i =
     scan_journal E L es (if rne_block_addr ne = NULL_ADDR E then snd (add_free_nid E L nm_i nid True)
                          else remove_free_nid nm_i nid)"

definition build_free_nids :: "f2fs_env \<Rightarrow> node_layout \<Rightarrow> f2fs_sb_info \<Rightarrow> nat_state \<Rightarrow> nat_state option" where
  "build_free_nids E L sbi S =
    (if NAT_ENTRY_PER_BLOCK L < nm_fcnt (ns_nm S) then Some S
     else do {
       (nid, S) \<leftarrow> scan_nat_pages E L sbi (FREE_NID_PAGES + 1) (nm_next_scan_nid (ns_nm S)) S;
       let nm_i = (ns_nm S)\<lparr>nm_next_scan_nid := nid\<rparr>;
       Some (S\<lparr>ns_nm := scan_journal E L (take (jr_n (ns_journal S)) (jr_entries (ns_journal S))) nm_i\<rparr>) })"

text \<open>The first free id on the list; the iterator stays on the last entry when there is none.\<close>

fun first_new :: "free_nid list \<Rightarrow> free_nid option" where
  "first_new [] = None"
| "first_new (i # is) = (if fn_state i = NID_NEW \<or> is = [] then Some i else first_new is)"

definition set_nid_state :: "nat \<Rightarrow> nid_state \<Rightarrow> f2fs_nm_info \<Rightarrow> f2fs_nm_info" where
  "set_nid_state nid s nm_i = nm_i\<lparr>nm_free_nid_list :=
     map (\<lambda>i. if fn_nid i = nid then i\<lparr>fn_state := s\<rparr> else i) (nm_free_nid_list nm_i)\<rparr>"

definition take_free_nid :: "f2fs_env \<Rightarrow> f2fs_nm_info \<Rightarrow> (nat \<times> f2fs_nm_info) option" where
  "take_free_nid E nm_i = do {
     f2fs_bug_on E (nm_free_nid_list nm_i = []);
     i \<leftarrow> first_new (nm_free_nid_list nm_i);
     f2fs_bug_on E (fn_state i \<noteq> NID_NEW);
     Some (fn_nid i, (set_nid_state (fn_nid i) NID_ALLOC nm_i)\<lparr>nm_fcnt := sub32 (nm_fcnt nm_i) 1\<rparr>) }"

text \<open>\<open>None\<close> for the caller is out of ids; the outer \<open>None\<close> is a stop of the machine or a retry
  that never ends.\<close>

partial_function (option) alloc_nid ::
  "f2fs_env \<Rightarrow> node_layout \<Rightarrow> f2fs_sb_info \<Rightarrow> nat_state \<Rightarrow> (nat option \<times> nat_state) option" where
  "alloc_nid E L sbi S =
    (if nm_max_nid (ns_nm S) \<le> u32 (sbi_total_valid_node_count sbi + 1) then Some (None, S)
     else if nm_fcnt (ns_nm S) \<noteq> 0 \<and> \<not> ns_on_build_free_nids S then do {
       (nid, nm_i) \<leftarrow> take_free_nid E (ns_nm S);
       Some (Some nid, S\<lparr>ns_nm := nm_i\<rparr>) }
     else do {
       S \<leftarrow> build_free_nids E L sbi (S\<lparr>ns_on_build_free_nids := True\<rparr>);
       alloc_nid E L sbi (S\<lparr>ns_on_build_free_nids := False\<rparr>) })"

definition alloc_nid_done :: "f2fs_env \<Rightarrow> f2fs_nm_info \<Rightarrow> nat \<Rightarrow> f2fs_nm_info option" where
  "alloc_nid_done E nm_i nid = do {
     let r = lookup_free_nid_list nid (nm_free_nid_list nm_i);
     f2fs_bug_on E (case r of None \<Rightarrow> True | Some i \<Rightarrow> fn_state i \<noteq> NID_ALLOC);
     i \<leftarrow> r;
     Some (del_from_free_nid_list nm_i i) }"

definition alloc_nid_failed :: "f2fs_env \<Rightarrow> node_layout \<Rightarrow> f2fs_nm_info \<Rightarrow> nat \<Rightarrow> f2fs_nm_info option" where
  "alloc_nid_failed E L nm_i nid =
    (if nid = 0 then Some nm_i
     else do {
       let r = lookup_free_nid_list nid (nm_free_nid_list nm_i);
       f2fs_bug_on E (case r of None \<Rightarrow> True | Some i \<Rightarrow> fn_state i \<noteq> NID_ALLOC);
       i \<leftarrow> r;
       if 2 * MAX_FREE_NIDS L < nm_fcnt nm_i then Some (del_from_free_nid_list nm_i i)
       else Some ((set_nid_state nid NID_NEW nm_i)\<lparr>nm_fcnt := u32 (nm_fcnt nm_i + 1)\<rparr>) })"

section \<open>The flush of a checkpoint\<close>

text \<open>The first \<open>n\<close> clean entries are dropped, the oldest first.\<close>

primrec drop_nats :: "nat \<Rightarrow> f2fs_nm_info \<Rightarrow> nat \<times> f2fs_nm_info" where
  "drop_nats 0 nm_i = (0, nm_i)"
| "drop_nats (Suc n) nm_i = (case nm_nat_entries nm_i of [] \<Rightarrow> (Suc n, nm_i)
     | ne # _ \<Rightarrow> drop_nats n (del_from_nat_cache nm_i ne))"

definition try_to_free_nats :: "node_layout \<Rightarrow> f2fs_nm_info \<Rightarrow> nat \<Rightarrow> nat \<times> f2fs_nm_info" where
  "try_to_free_nats L nm_i nr_shrink =
    (if nm_nat_cnt nm_i \<le> NM_WOUT_THRESHOLD L then (0, nm_i) else drop_nats nr_shrink nm_i)"

fun dirty_journal_nats :: "(nat \<times> f2fs_nat_entry) list \<Rightarrow> f2fs_nm_info \<Rightarrow> f2fs_nm_info" where
  "dirty_journal_nats [] nm_i = nm_i"
| "dirty_journal_nats ((nid, raw_ne) # es) nm_i = dirty_journal_nats es
    (case lookup_nat_cache nm_i nid of
       Some _ \<Rightarrow> set_nat_cache_dirty nm_i nid
     | None \<Rightarrow>
        let (ne, nm_i) = grab_nat_entry nm_i nid
        in set_nat_cache_dirty (put_nat_cache nid (set_from_raw ne raw_ne) nm_i) nid)"

definition flush_nats_in_journal :: "node_layout \<Rightarrow> nat_state \<Rightarrow> bool \<times> nat_state" where
  "flush_nats_in_journal L S =
    (let summ = ns_journal S
     in if jr_n summ < NAT_JOURNAL_ENTRIES L then (False, S)
        else (True, S\<lparr>ns_nm := dirty_journal_nats (take (jr_n summ) (jr_entries summ)) (ns_nm S),
                      ns_journal := snd (update_cursum summ (- int (jr_n summ)))\<rparr>))"

text \<open>What the loop keeps from one entry to the next: the page of the table it holds and the
  range of ids on it.\<close>

record nat_cursor =
  nc_page :: "nat option"
  nc_start_nid :: nat
  nc_end_nid :: nat

definition seek_nat_page ::
  "node_layout \<Rightarrow> f2fs_sb_info \<Rightarrow> nat \<Rightarrow> nat_cursor \<Rightarrow> nat_state \<Rightarrow> nat_cursor \<times> nat_state" where
  "seek_nat_page L sbi nid c S =
    (if nc_page c = None \<or> nid < nc_start_nid c \<or> nc_end_nid c < nid then
       (let start_nid = START_NID L nid;
            end_nid = u32 (start_nid + NAT_ENTRY_PER_BLOCK L - 1);
            (page, S) = get_next_nat_page L sbi S start_nid
        in (\<lparr> nc_page = Some page, nc_start_nid = start_nid, nc_end_nid = end_nid \<rparr>, S))
     else (c, S))"

text \<open>The entry is written into the journal or into the page.\<close>

definition write_raw_nat ::
  "f2fs_env \<Rightarrow> node_layout \<Rightarrow> f2fs_sb_info \<Rightarrow> bool \<Rightarrow> nat \<Rightarrow> f2fs_nat_entry \<Rightarrow> nat_cursor \<Rightarrow> nat_state \<Rightarrow> (nat_cursor \<times> nat_state) option" where
  "write_raw_nat E L sbi flushed nid raw_ne c S = do {
     let (offset, summ) = (if flushed then (- 1, ns_journal S)
                           else lookup_journal_in_cursum (NAT_JOURNAL_ENTRIES L) (ns_journal S) nid True);
     let S = S\<lparr>ns_journal := summ\<rparr>;
     if 0 \<le> offset then
       Some (c, S\<lparr>ns_journal := summ\<lparr>jr_entries := (jr_entries summ)[nat offset := (nid, raw_ne)]\<rparr>\<rparr>)
     else do {
       let (c, S) = seek_nat_page L sbi nid c S;
       f2fs_bug_on E (nc_page c = None);
       page \<leftarrow> nc_page c;
       Some (c, S\<lparr>ns_pages := (ns_pages S)(page :=
         (ns_pages S page)\<lparr>np_entries := (np_entries (ns_pages S page))[nid - nc_start_nid c := raw_ne]\<rparr>)\<rparr>) } }"

definition flush_nat_entry ::
  "f2fs_env \<Rightarrow> node_layout \<Rightarrow> f2fs_sb_info \<Rightarrow> bool \<Rightarrow> nat \<Rightarrow> nat_cursor \<Rightarrow> nat_state \<Rightarrow> (nat_cursor \<times> nat_state) option" where
  "flush_nat_entry E L sbi flushed nid c S = do {
     ne \<leftarrow> lookup_nat_cache (ns_nm S) nid;
     let new_blkaddr = ni_blk_addr (nat_ni ne);
     if new_blkaddr = NEW_ADDR E then Some (c, S)
     else do {
       let raw_ne = \<lparr> rne_version = ni_version (nat_ni ne), rne_ino = ni_ino (nat_ni ne), rne_block_addr = new_blkaddr \<rparr>;
       (c, S) \<leftarrow> write_raw_nat E L sbi flushed nid raw_ne c S;
       let (ret, nm_i) = (if new_blkaddr = NULL_ADDR E then add_free_nid E L (ns_nm S) nid False else (1, ns_nm S));
       let nm_i = (if ret \<le> 0 then del_from_nat_cache nm_i nid
                   else put_nat_cache nid (ne\<lparr>nat_checkpointed := True\<rparr>) (clear_nat_cache_dirty nm_i nid));
       Some (c, S\<lparr>ns_nm := nm_i\<rparr>) } }"

text \<open>\<open>list_for_each_safe\<close> over the dirty list: the body removes at most the entry it is at.\<close>

fun flush_nat_loop ::
  "f2fs_env \<Rightarrow> node_layout \<Rightarrow> f2fs_sb_info \<Rightarrow> bool \<Rightarrow> nat list \<Rightarrow> nat_cursor \<Rightarrow> nat_state \<Rightarrow> nat_state option" where
  "flush_nat_loop E L sbi flushed [] c S = Some S"
| "flush_nat_loop E L sbi flushed (nid # nids) c S = do {
     (c, S) \<leftarrow> flush_nat_entry E L sbi flushed nid c S;
     flush_nat_loop E L sbi flushed nids c S }"

definition flush_nat_entries :: "f2fs_env \<Rightarrow> node_layout \<Rightarrow> f2fs_sb_info \<Rightarrow> nat_state \<Rightarrow> nat_state option" where
  "flush_nat_entries E L sbi S = do {
     let (flushed, S) = flush_nats_in_journal L S;
     S \<leftarrow> flush_nat_loop E L sbi flushed (nm_dirty_nat_entries (ns_nm S))
            \<lparr> nc_page = None, nc_start_nid = 0, nc_end_nid = 0 \<rparr> S;
     Some (S\<lparr>ns_nm := snd (try_to_free_nats L (ns_nm S) (sub32 (nm_nat_cnt (ns_nm S)) (NM_WOUT_THRESHOLD L)))\<rparr>) }"
end
