(* ===== verification/Segment_Addr.thy ===== *)
theory Segment_Addr
  imports F2fs_Bits
begin

text \<open>
  The address arithmetic of \<open>segment.h\<close>: which segment, section and zone a block address
  belongs to, where a segment starts, and the places of the summary and SIT blocks; with
  the facts that make a block address and its (segment, offset) pair the same thing.
\<close>

section \<open>Macros\<close>

definition TOTAL_SEGS :: "f2fs_sb_info \<Rightarrow> nat" where
  "TOTAL_SEGS sbi = sm_main_segments (SM_I sbi)"

definition TOTAL_SECS :: "f2fs_sb_info \<Rightarrow> nat" where
  "TOTAL_SECS sbi = sbi_total_sections sbi"

definition GET_L2R_SEGNO :: "free_segmap_info \<Rightarrow> nat \<Rightarrow> nat" where
  "GET_L2R_SEGNO free_i segno = sub32 segno (fsm_start_segno free_i)"

definition GET_R2L_SEGNO :: "free_segmap_info \<Rightarrow> nat \<Rightarrow> nat" where
  "GET_R2L_SEGNO free_i segno = u32 (segno + fsm_start_segno free_i)"

definition IS_DATASEG :: "nat \<Rightarrow> bool" where "IS_DATASEG t \<longleftrightarrow> t \<le> CURSEG_COLD_DATA"

definition IS_NODESEG :: "nat \<Rightarrow> bool" where "IS_NODESEG t \<longleftrightarrow> CURSEG_HOT_NODE \<le> t"

definition IS_CURSEG :: "f2fs_sb_info \<Rightarrow> nat \<Rightarrow> bool" where
  "IS_CURSEG sbi seg \<longleftrightarrow>
     seg = cs_segno (CURSEG_I sbi CURSEG_HOT_DATA) \<or>
     seg = cs_segno (CURSEG_I sbi CURSEG_WARM_DATA) \<or>
     seg = cs_segno (CURSEG_I sbi CURSEG_COLD_DATA) \<or>
     seg = cs_segno (CURSEG_I sbi CURSEG_HOT_NODE) \<or>
     seg = cs_segno (CURSEG_I sbi CURSEG_WARM_NODE) \<or>
     seg = cs_segno (CURSEG_I sbi CURSEG_COLD_NODE)"

definition IS_CURSEC :: "f2fs_sb_info \<Rightarrow> nat \<Rightarrow> bool" where
  "IS_CURSEC sbi secno \<longleftrightarrow>
     secno = cs_segno (CURSEG_I sbi CURSEG_HOT_DATA) div sbi_segs_per_sec sbi \<or>
     secno = cs_segno (CURSEG_I sbi CURSEG_WARM_DATA) div sbi_segs_per_sec sbi \<or>
     secno = cs_segno (CURSEG_I sbi CURSEG_COLD_DATA) div sbi_segs_per_sec sbi \<or>
     secno = cs_segno (CURSEG_I sbi CURSEG_HOT_NODE) div sbi_segs_per_sec sbi \<or>
     secno = cs_segno (CURSEG_I sbi CURSEG_WARM_NODE) div sbi_segs_per_sec sbi \<or>
     secno = cs_segno (CURSEG_I sbi CURSEG_COLD_NODE) div sbi_segs_per_sec sbi"

definition START_BLOCK :: "f2fs_sb_info \<Rightarrow> nat \<Rightarrow> nat" where
  "START_BLOCK sbi segno =
     u32 (sm_seg0_blkaddr (SM_I sbi) +
          u32 (push_bit (sbi_log_blocks_per_seg sbi) (GET_R2L_SEGNO (FREE_I sbi) segno)))"

definition NEXT_FREE_BLKADDR :: "f2fs_sb_info \<Rightarrow> curseg_info \<Rightarrow> nat" where
  "NEXT_FREE_BLKADDR sbi curseg = u32 (START_BLOCK sbi (cs_segno curseg) + cs_next_blkoff curseg)"

definition GET_SEGOFF_FROM_SEG0 :: "f2fs_sb_info \<Rightarrow> nat \<Rightarrow> nat" where
  "GET_SEGOFF_FROM_SEG0 sbi blk_addr = sub32 blk_addr (sm_seg0_blkaddr (SM_I sbi))"

definition GET_SEGNO_FROM_SEG0 :: "f2fs_sb_info \<Rightarrow> nat \<Rightarrow> nat" where
  "GET_SEGNO_FROM_SEG0 sbi blk_addr =
     drop_bit (sbi_log_blocks_per_seg sbi) (GET_SEGOFF_FROM_SEG0 sbi blk_addr)"

definition GET_SEGNO :: "f2fs_env \<Rightarrow> f2fs_sb_info \<Rightarrow> nat \<Rightarrow> nat" where
  "GET_SEGNO E sbi blk_addr =
     (if blk_addr = NULL_ADDR E \<or> blk_addr = NEW_ADDR E then NULL_SEGNO
      else GET_L2R_SEGNO (FREE_I sbi) (GET_SEGNO_FROM_SEG0 sbi blk_addr))"

definition GET_SECNO :: "f2fs_sb_info \<Rightarrow> nat \<Rightarrow> nat" where
  "GET_SECNO sbi segno = segno div sbi_segs_per_sec sbi"

definition GET_ZONENO_FROM_SEGNO :: "f2fs_sb_info \<Rightarrow> nat \<Rightarrow> nat" where
  "GET_ZONENO_FROM_SEGNO sbi segno = segno div sbi_segs_per_sec sbi div sbi_secs_per_zone sbi"

definition GET_SUM_BLOCK :: "f2fs_sb_info \<Rightarrow> nat \<Rightarrow> nat" where
  "GET_SUM_BLOCK sbi segno = u32 (sm_ssa_blkaddr (SM_I sbi) + segno)"

section \<open>Geometry\<close>

text \<open>
  The layout a mounted volume has: a segment is a power of two blocks, the main area is a
  whole number of sections, and it ends before the reserved address \<open>NEW_ADDR\<close>.
  \<open>NULL_ADDR\<close> and \<open>NEW_ADDR\<close> are 0 and the largest block address in \<open>linux/f2fs_fs.h\<close>.
\<close>

definition addr_consts :: "f2fs_env \<Rightarrow> bool" where
  "addr_consts E \<longleftrightarrow> NULL_ADDR E = 0 \<and> NEW_ADDR E = 2 ^ 32 - 1"

definition geometry :: "f2fs_sb_info \<Rightarrow> bool" where
  "geometry sbi \<longleftrightarrow>
     sbi_blocks_per_seg sbi = 2 ^ sbi_log_blocks_per_seg sbi \<and>
     0 < sbi_segs_per_sec sbi \<and> 0 < sbi_secs_per_zone sbi \<and> 0 < sm_seg0_blkaddr (SM_I sbi) \<and>
     TOTAL_SEGS sbi = TOTAL_SECS sbi * sbi_segs_per_sec sbi \<and>
     sm_seg0_blkaddr (SM_I sbi) + (TOTAL_SEGS sbi + fsm_start_segno (FREE_I sbi)) * sbi_blocks_per_seg sbi
       < 2 ^ 32"

lemma geometryD:
  assumes "geometry sbi"
  shows "sbi_blocks_per_seg sbi = 2 ^ sbi_log_blocks_per_seg sbi" "0 < sbi_blocks_per_seg sbi"
    "0 < sbi_segs_per_sec sbi" "0 < sbi_secs_per_zone sbi" "0 < sm_seg0_blkaddr (SM_I sbi)"
    "TOTAL_SEGS sbi = TOTAL_SECS sbi * sbi_segs_per_sec sbi"
  using assms by (auto simp: geometry_def)

lemma TOTAL_SEGS_less: "geometry sbi \<Longrightarrow> TOTAL_SEGS sbi + fsm_start_segno (FREE_I sbi) < 2 ^ 32"
proof -
  assume g: "geometry sbi"
  let ?n = "TOTAL_SEGS sbi + fsm_start_segno (FREE_I sbi)"
  have "?n * 1 \<le> ?n * sbi_blocks_per_seg sbi"
    using geometryD(2) [OF g] by (intro mult_le_mono2) simp
  also have "\<dots> < 2 ^ 32"
    using g unfolding geometry_def by linarith
  finally show ?thesis by simp
qed

text \<open>The address of a block of the main area, without the casts.\<close>

definition main_addr :: "f2fs_sb_info \<Rightarrow> nat \<Rightarrow> nat \<Rightarrow> nat" where
  "main_addr sbi segno off = sm_seg0_blkaddr (SM_I sbi)
     + (segno + fsm_start_segno (FREE_I sbi)) * sbi_blocks_per_seg sbi + off"

lemma main_addr_less:
  assumes "geometry sbi" and "segno < TOTAL_SEGS sbi" and "off < sbi_blocks_per_seg sbi"
  shows "main_addr sbi segno off < 2 ^ 32 - 1" and "0 < main_addr sbi segno off"
proof -
  let ?b = "sbi_blocks_per_seg sbi" and ?s = "fsm_start_segno (FREE_I sbi)"
  have "(segno + ?s) * ?b + ?b = (segno + ?s + 1) * ?b" by simp
  also have "\<dots> \<le> (TOTAL_SEGS sbi + ?s) * ?b"
    using assms(2) by (intro mult_le_mono1) simp
  finally have "(segno + ?s) * ?b + off + 1 \<le> (TOTAL_SEGS sbi + ?s) * ?b"
    using assms(3) by linarith
  then show "main_addr sbi segno off < 2 ^ 32 - 1"
    using assms(1) unfolding geometry_def main_addr_def by linarith
  show "0 < main_addr sbi segno off"
    using geometryD(5) [OF assms(1)] by (simp add: main_addr_def)
qed

lemma START_BLOCK_main:
  assumes "geometry sbi" and "segno < TOTAL_SEGS sbi"
  shows "START_BLOCK sbi segno = main_addr sbi segno 0"
proof -
  let ?s = "fsm_start_segno (FREE_I sbi)" and ?b = "sbi_blocks_per_seg sbi"
  have a: "main_addr sbi segno 0 < 2 ^ 32"
    using main_addr_less(1) [OF assms, of 0] geometryD(2) [OF assms(1)] by simp
  then have "(segno + ?s) * ?b < 2 ^ 32" by (simp add: main_addr_def)
  moreover have "segno + ?s < 2 ^ 32" using TOTAL_SEGS_less [OF assms(1)] assms(2) by simp
  ultimately show ?thesis
    using a geometryD(1) [OF assms(1)]
    by (simp add: START_BLOCK_def GET_R2L_SEGNO_def push_bit_eq_mult casts main_addr_def)
qed

lemma segoff_main:
  assumes "geometry sbi" and "segno < TOTAL_SEGS sbi" and "off < sbi_blocks_per_seg sbi"
  shows "GET_SEGOFF_FROM_SEG0 sbi (main_addr sbi segno off) =
    (segno + fsm_start_segno (FREE_I sbi)) * sbi_blocks_per_seg sbi + off"
proof -
  have "main_addr sbi segno off < 2 ^ 32" using main_addr_less(1) [OF assms] by simp
  then show ?thesis
    unfolding GET_SEGOFF_FROM_SEG0_def by (subst sub32_id) (simp_all add: main_addr_def)
qed

text \<open>Every block address of the main area determines its segment and its offset.\<close>

lemma GET_SEGNO_main:
  assumes "geometry sbi" and "addr_consts E" and "segno < TOTAL_SEGS sbi" and "off < sbi_blocks_per_seg sbi"
  shows "GET_SEGNO E sbi (main_addr sbi segno off) = segno"
proof -
  let ?s = "fsm_start_segno (FREE_I sbi)" and ?b = "sbi_blocks_per_seg sbi"
  have ne: "main_addr sbi segno off \<noteq> NULL_ADDR E" "main_addr sbi segno off \<noteq> NEW_ADDR E"
    using main_addr_less [OF assms(1,3,4)] assms(2) by (auto simp: addr_consts_def)
  have "GET_SEGNO_FROM_SEG0 sbi (main_addr sbi segno off) = ((segno + ?s) * ?b + off) div ?b"
    using geometryD(1) [OF assms(1)]
    by (simp add: GET_SEGNO_FROM_SEG0_def segoff_main [OF assms(1,3,4)] drop_bit_eq_div)
  also have "\<dots> = segno + ?s" using assms(4) by simp
  finally have "GET_SEGNO_FROM_SEG0 sbi (main_addr sbi segno off) = segno + ?s" .
  moreover have "sub32 (segno + ?s) ?s = segno"
    using TOTAL_SEGS_less [OF assms(1)] assms(3) by (subst sub32_id) simp_all
  ultimately show ?thesis using ne by (simp add: GET_SEGNO_def GET_L2R_SEGNO_def)
qed

lemma and_blocks_per_seg:
  assumes "geometry sbi"
  shows "n AND (sbi_blocks_per_seg sbi - 1) = n mod sbi_blocks_per_seg sbi"
  unfolding geometryD(1) [OF assms] mask_eq_exp_minus_1 [symmetric] take_bit_eq_mask [symmetric]
  by (rule take_bit_eq_mod)

lemma segoff_mod_main:
  assumes "geometry sbi" and "segno < TOTAL_SEGS sbi" and "off < sbi_blocks_per_seg sbi"
  shows "GET_SEGOFF_FROM_SEG0 sbi (main_addr sbi segno off) AND (sbi_blocks_per_seg sbi - 1) = off"
  unfolding segoff_main [OF assms] and_blocks_per_seg [OF assms(1)] using assms(3) by simp

lemma GET_SECNO_less:
  assumes "geometry sbi" and "segno < TOTAL_SEGS sbi"
  shows "GET_SECNO sbi segno < TOTAL_SECS sbi"
  using assms geometryD(3,6) [OF assms(1)]
  by (simp add: GET_SECNO_def less_mult_imp_div_less)

text \<open>A current segment lies in a current section.\<close>

lemma IS_CURSEG_IS_CURSEC: "IS_CURSEG sbi segno \<Longrightarrow> IS_CURSEC sbi (GET_SECNO sbi segno)"
  by (auto simp: IS_CURSEG_def IS_CURSEC_def GET_SECNO_def)

lemma IS_CURSEG_iff: "IS_CURSEG sbi seg \<longleftrightarrow> (\<exists>t<NR_CURSEG_TYPE. seg = cs_segno (CURSEG_I sbi t))"
  by (auto simp: IS_CURSEG_def curseg_types less_Suc_eq numeral_eq_Suc)

section \<open>The macros do not look at what the setters write\<close>

lemmas addr_macros = TOTAL_SEGS_def TOTAL_SECS_def IS_CURSEG_def IS_CURSEC_def START_BLOCK_def
  GET_SEGOFF_FROM_SEG0_def GET_SEGNO_FROM_SEG0_def GET_SEGNO_def GET_SECNO_def
  GET_ZONENO_FROM_SEGNO_def GET_SUM_BLOCK_def

lemma addr_macros_SIT [simp]:
  "TOTAL_SEGS (set_SIT_I v sbi) = TOTAL_SEGS sbi"
  "TOTAL_SECS (set_SIT_I v sbi) = TOTAL_SECS sbi"
  "GET_SECNO (set_SIT_I v sbi) = GET_SECNO sbi"
  "GET_ZONENO_FROM_SEGNO (set_SIT_I v sbi) = GET_ZONENO_FROM_SEGNO sbi"
  "GET_SUM_BLOCK (set_SIT_I v sbi) = GET_SUM_BLOCK sbi"
  "GET_SEGOFF_FROM_SEG0 (set_SIT_I v sbi) = GET_SEGOFF_FROM_SEG0 sbi"
  "GET_SEGNO_FROM_SEG0 (set_SIT_I v sbi) = GET_SEGNO_FROM_SEG0 sbi"
  "START_BLOCK (set_SIT_I v sbi) = START_BLOCK sbi"
  "IS_CURSEG (set_SIT_I v sbi) = IS_CURSEG sbi"
  "IS_CURSEC (set_SIT_I v sbi) = IS_CURSEC sbi"
  "GET_SEGNO E (set_SIT_I v sbi) = GET_SEGNO E sbi"
  "geometry (set_SIT_I v sbi) = geometry sbi"
  "main_addr (set_SIT_I v sbi) = main_addr sbi"
  by (simp_all add: addr_macros geometry_def main_addr_def fun_eq_iff)

lemma addr_macros_DIRTY [simp]:
  "TOTAL_SEGS (set_DIRTY_I v sbi) = TOTAL_SEGS sbi"
  "TOTAL_SECS (set_DIRTY_I v sbi) = TOTAL_SECS sbi"
  "GET_SECNO (set_DIRTY_I v sbi) = GET_SECNO sbi"
  "GET_ZONENO_FROM_SEGNO (set_DIRTY_I v sbi) = GET_ZONENO_FROM_SEGNO sbi"
  "GET_SUM_BLOCK (set_DIRTY_I v sbi) = GET_SUM_BLOCK sbi"
  "GET_SEGOFF_FROM_SEG0 (set_DIRTY_I v sbi) = GET_SEGOFF_FROM_SEG0 sbi"
  "GET_SEGNO_FROM_SEG0 (set_DIRTY_I v sbi) = GET_SEGNO_FROM_SEG0 sbi"
  "START_BLOCK (set_DIRTY_I v sbi) = START_BLOCK sbi"
  "IS_CURSEG (set_DIRTY_I v sbi) = IS_CURSEG sbi"
  "IS_CURSEC (set_DIRTY_I v sbi) = IS_CURSEC sbi"
  "GET_SEGNO E (set_DIRTY_I v sbi) = GET_SEGNO E sbi"
  "geometry (set_DIRTY_I v sbi) = geometry sbi"
  "main_addr (set_DIRTY_I v sbi) = main_addr sbi"
  by (simp_all add: addr_macros geometry_def main_addr_def fun_eq_iff)

lemma addr_macros_FREE [simp]:
  "TOTAL_SEGS (set_FREE_I v sbi) = TOTAL_SEGS sbi"
  "TOTAL_SECS (set_FREE_I v sbi) = TOTAL_SECS sbi"
  "GET_SECNO (set_FREE_I v sbi) = GET_SECNO sbi"
  "GET_ZONENO_FROM_SEGNO (set_FREE_I v sbi) = GET_ZONENO_FROM_SEGNO sbi"
  "GET_SUM_BLOCK (set_FREE_I v sbi) = GET_SUM_BLOCK sbi"
  "GET_SEGOFF_FROM_SEG0 (set_FREE_I v sbi) = GET_SEGOFF_FROM_SEG0 sbi"
  "GET_SEGNO_FROM_SEG0 (set_FREE_I v sbi) = GET_SEGNO_FROM_SEG0 sbi"
  "IS_CURSEG (set_FREE_I v sbi) = IS_CURSEG sbi"
  "IS_CURSEC (set_FREE_I v sbi) = IS_CURSEC sbi"
  by (simp_all add: addr_macros geometry_def main_addr_def fun_eq_iff)

lemma addr_macros_CURSEG [simp]:
  "TOTAL_SEGS (set_CURSEG_I t v sbi) = TOTAL_SEGS sbi"
  "TOTAL_SECS (set_CURSEG_I t v sbi) = TOTAL_SECS sbi"
  "GET_SECNO (set_CURSEG_I t v sbi) = GET_SECNO sbi"
  "GET_ZONENO_FROM_SEGNO (set_CURSEG_I t v sbi) = GET_ZONENO_FROM_SEGNO sbi"
  "GET_SUM_BLOCK (set_CURSEG_I t v sbi) = GET_SUM_BLOCK sbi"
  "GET_SEGOFF_FROM_SEG0 (set_CURSEG_I t v sbi) = GET_SEGOFF_FROM_SEG0 sbi"
  "GET_SEGNO_FROM_SEG0 (set_CURSEG_I t v sbi) = GET_SEGNO_FROM_SEG0 sbi"
  "START_BLOCK (set_CURSEG_I t v sbi) = START_BLOCK sbi"
  "GET_SEGNO E (set_CURSEG_I t v sbi) = GET_SEGNO E sbi"
  "geometry (set_CURSEG_I t v sbi) = geometry sbi"
  "main_addr (set_CURSEG_I t v sbi) = main_addr sbi"
  by (simp_all add: addr_macros geometry_def main_addr_def fun_eq_iff)

end
