(* ===== verification/Sit.thy ===== *)
theory Sit
  imports Segment_Addr
begin

text \<open>
  The segment information table (\<open>segment.h\<close>, \<open>segment.c\<close>): the validity bitmap and the
  counters of every segment, \<open>update_sit_entry\<close> and what is built on it, the on-disk form
  of an entry and its consistency check, and the two alternating SIT block locations.
\<close>

section \<open>Access\<close>

definition get_seg_entry :: "f2fs_sb_info \<Rightarrow> nat \<Rightarrow> seg_entry" where
  "get_seg_entry sbi segno = sit_sentries (SIT_I sbi) ! segno"

definition get_sec_entry :: "f2fs_sb_info \<Rightarrow> nat \<Rightarrow> sec_entry" where
  "get_sec_entry sbi segno = sit_sec_entries (SIT_I sbi) ! GET_SECNO sbi segno"

text \<open>Stores through the pointers those two return.\<close>

definition set_seg_entry :: "nat \<Rightarrow> seg_entry \<Rightarrow> f2fs_sb_info \<Rightarrow> f2fs_sb_info" where
  "set_seg_entry segno se sbi =
     set_SIT_I ((SIT_I sbi)\<lparr>sit_sentries := (sit_sentries (SIT_I sbi))[segno := se]\<rparr>) sbi"

definition set_sec_entry :: "nat \<Rightarrow> sec_entry \<Rightarrow> f2fs_sb_info \<Rightarrow> f2fs_sb_info" where
  "set_sec_entry segno e sbi =
     set_SIT_I ((SIT_I sbi)\<lparr>sit_sec_entries := (sit_sec_entries (SIT_I sbi))[GET_SECNO sbi segno := e]\<rparr>) sbi"

definition get_valid_blocks :: "f2fs_sb_info \<Rightarrow> nat \<Rightarrow> nat \<Rightarrow> nat" where
  "get_valid_blocks sbi segno sections =
     (if 1 < sections then sec_valid_blocks (get_sec_entry sbi segno)
      else se_valid_blocks (get_seg_entry sbi segno))"

definition written_block_count :: "f2fs_sb_info \<Rightarrow> nat" where
  "written_block_count sbi = sit_written_valid_blocks (SIT_I sbi)"

definition get_mtime :: "f2fs_env \<Rightarrow> f2fs_sb_info \<Rightarrow> nat" where
  "get_mtime E sbi =
     sub64 (u64 (sit_elapsed_time (SIT_I sbi) + CURRENT_TIME_SEC E)) (sit_mounted_time (SIT_I sbi))"

section \<open>Updates\<close>

definition mark_sit_entry_dirty :: "f2fs_sb_info \<Rightarrow> nat \<Rightarrow> f2fs_sb_info" where
  "mark_sit_entry_dirty sbi segno =
    (let sit_i = SIT_I sbi;
         old = sit_dirty_sentries_bitmap sit_i segno;
         sit_i = sit_i\<lparr>sit_dirty_sentries_bitmap := (sit_dirty_sentries_bitmap sit_i)(segno := True)\<rparr>
     in if \<not> old then set_SIT_I (sit_i\<lparr>sit_dirty_sentries := u32 (sit_dirty_sentries sit_i + 1)\<rparr>) sbi
        else set_SIT_I sit_i sbi)"

definition set_sit_entry_type :: "f2fs_sb_info \<Rightarrow> nat \<Rightarrow> nat \<Rightarrow> bool \<Rightarrow> f2fs_sb_info" where
  "set_sit_entry_type sbi type segno modified =
    (let sbi = set_seg_entry segno ((get_seg_entry sbi segno)\<lparr>se_type := u8 type\<rparr>) sbi
     in if modified then mark_sit_entry_dirty sbi segno else sbi)"

text \<open>The new entry of \<open>update_sit_entry\<close>, after its assertion and up to \<open>__mark_sit_entry_dirty\<close>.\<close>

definition updated_entry :: "nat \<Rightarrow> nat \<Rightarrow> int \<Rightarrow> seg_entry \<Rightarrow> seg_entry option" where
  "updated_entry offset mtime del se = do {
     let se = se\<lparr>se_valid_blocks := to_u16 (int (se_valid_blocks se) + del), se_mtime := mtime\<rparr>;
     se \<leftarrow> (if 0 < del then
              let (old, map) = f2fs_set_bit offset (se_cur_valid_map se)
              in do { BUG_ON old; Some (se\<lparr>se_cur_valid_map := map\<rparr>) }
            else
              let (old, map) = f2fs_clear_bit offset (se_cur_valid_map se)
              in do { BUG_ON (\<not> old); Some (se\<lparr>se_cur_valid_map := map\<rparr>) });
     Some (if \<not> f2fs_test_bit offset (se_ckpt_valid_map se)
           then se\<lparr>se_ckpt_valid_blocks := to_u16 (int (se_ckpt_valid_blocks se) + del)\<rparr>
           else se) }"

definition update_sit_entry :: "f2fs_env \<Rightarrow> f2fs_sb_info \<Rightarrow> nat \<Rightarrow> int \<Rightarrow> f2fs_sb_info option" where
  "update_sit_entry E sbi blkaddr del = do {
     let segno = GET_SEGNO E sbi blkaddr;
     let se = get_seg_entry sbi segno;
     let new_vblocks = int (se_valid_blocks se) + del;
     let offset = GET_SEGOFF_FROM_SEG0 sbi blkaddr AND (sbi_blocks_per_seg sbi - 1);
     f2fs_bug_on E (drop_bit 16 new_vblocks \<noteq> 0 \<or> int (sbi_blocks_per_seg sbi) < new_vblocks);
     se \<leftarrow> updated_entry offset (get_mtime E sbi) del se;
     let sbi = set_seg_entry segno se sbi;
     let sbi = set_SIT_I ((SIT_I sbi)\<lparr>sit_max_mtime := se_mtime se\<rparr>) sbi;
     let sbi = mark_sit_entry_dirty sbi segno;
     let sbi = set_SIT_I ((SIT_I sbi)\<lparr>sit_written_valid_blocks :=
                 to_u32 (int (sit_written_valid_blocks (SIT_I sbi)) + del)\<rparr>) sbi;
     Some (if 1 < sbi_segs_per_sec sbi
           then set_sec_entry segno ((get_sec_entry sbi segno)\<lparr>sec_valid_blocks :=
                  to_u32 (int (sec_valid_blocks (get_sec_entry sbi segno)) + del)\<rparr>) sbi
           else sbi) }"

definition refresh_sit_entry :: "f2fs_env \<Rightarrow> f2fs_sb_info \<Rightarrow> nat \<Rightarrow> nat \<Rightarrow> f2fs_sb_info option" where
  "refresh_sit_entry E sbi old_blkaddr new_blkaddr = do {
     sbi \<leftarrow> update_sit_entry E sbi new_blkaddr 1;
     if GET_SEGNO E sbi old_blkaddr \<noteq> NULL_SEGNO then update_sit_entry E sbi old_blkaddr (-1)
     else Some sbi }"

section \<open>On disk\<close>

definition seg_info_from_raw_sit :: "f2fs_env \<Rightarrow> seg_entry \<Rightarrow> f2fs_sit_entry \<Rightarrow> seg_entry" where
  "seg_info_from_raw_sit E se rs = se\<lparr>
     se_valid_blocks := u16 (GET_SIT_VBLOCKS E (rs_vblocks rs)),
     se_ckpt_valid_blocks := u16 (GET_SIT_VBLOCKS E (rs_vblocks rs)),
     se_cur_valid_map := memcpy (se_cur_valid_map se) (rs_valid_map rs) (SIT_VBLOCK_MAP_SIZE E),
     se_ckpt_valid_map := memcpy (se_ckpt_valid_map se) (rs_valid_map rs) (SIT_VBLOCK_MAP_SIZE E),
     se_type := u8 (GET_SIT_TYPE E (rs_vblocks rs)),
     se_mtime := rs_mtime rs\<rparr>"

definition seg_info_to_raw_sit :: "f2fs_env \<Rightarrow> seg_entry \<Rightarrow> f2fs_sit_entry \<Rightarrow> seg_entry \<times> f2fs_sit_entry" where
  "seg_info_to_raw_sit E se rs =
    (let raw_vblocks = u16 (push_bit (SIT_VBLOCKS_SHIFT E) (se_type se) OR se_valid_blocks se);
         rs = rs\<lparr>rs_vblocks := raw_vblocks,
                 rs_valid_map := memcpy (rs_valid_map rs) (se_cur_valid_map se) (SIT_VBLOCK_MAP_SIZE E)\<rparr>;
         se = se\<lparr>se_ckpt_valid_map := memcpy (se_ckpt_valid_map se) (rs_valid_map rs) (SIT_VBLOCK_MAP_SIZE E),
                 se_ckpt_valid_blocks := se_valid_blocks se\<rparr>
     in (se, rs\<lparr>rs_mtime := se_mtime se\<rparr>))"

definition SIT_BLOCK_OFFSET :: "f2fs_env \<Rightarrow> nat \<Rightarrow> nat" where
  "SIT_BLOCK_OFFSET E segno = segno div SIT_ENTRY_PER_BLOCK E"

definition SIT_ENTRY_OFFSET :: "sit_info \<Rightarrow> nat \<Rightarrow> nat" where
  "SIT_ENTRY_OFFSET sit_i segno = segno mod sit_sents_per_block sit_i"

definition START_SEGNO :: "f2fs_env \<Rightarrow> nat \<Rightarrow> nat" where
  "START_SEGNO E segno = SIT_BLOCK_OFFSET E segno * SIT_ENTRY_PER_BLOCK E"

definition check_seg_range :: "f2fs_env \<Rightarrow> f2fs_sb_info \<Rightarrow> nat \<Rightarrow> unit option" where
  "check_seg_range E sbi segno =
     (if CHECK_FS E then BUG_ON (sub32 (sm_segment_count (SM_I sbi)) 1 < segno) else Some ())"

definition verify_block_addr :: "f2fs_env \<Rightarrow> f2fs_sb_info \<Rightarrow> nat \<Rightarrow> unit option" where
  "verify_block_addr E sbi blk_addr =
    (if CHECK_FS E then
       let total_blks = u32 (push_bit (sbi_log_blocks_per_seg sbi) (sm_segment_count (SM_I sbi)));
           start_addr = sm_seg0_blkaddr (SM_I sbi);
           end_addr = sub32 (u32 (start_addr + total_blks)) 1
       in do { BUG_ON (blk_addr < start_addr); BUG_ON (end_addr < blk_addr) }
     else Some ())"

definition current_sit_addr :: "f2fs_env \<Rightarrow> f2fs_sb_info \<Rightarrow> nat \<Rightarrow> nat option" where
  "current_sit_addr E sbi start = do {
     let offset = SIT_BLOCK_OFFSET E start;
     let blk_addr = u32 (sit_base_addr (SIT_I sbi) + offset);
     check_seg_range E sbi start;
     Some (if f2fs_test_bit offset (sit_bitmap (SIT_I sbi))
           then u32 (blk_addr + sit_blocks (SIT_I sbi)) else blk_addr) }"

definition next_sit_addr :: "f2fs_sb_info \<Rightarrow> nat \<Rightarrow> nat" where
  "next_sit_addr sbi block_addr =
    (let block_addr = sub64 block_addr (sit_base_addr (SIT_I sbi));
         block_addr = (if block_addr < sit_blocks (SIT_I sbi)
                       then u64 (block_addr + sit_blocks (SIT_I sbi))
                       else sub64 block_addr (sit_blocks (SIT_I sbi)))
     in u64 (block_addr + sit_base_addr (SIT_I sbi)))"

definition set_to_next_sit :: "f2fs_env \<Rightarrow> sit_info \<Rightarrow> nat \<Rightarrow> sit_info" where
  "set_to_next_sit E sit_i start =
    (let block_off = SIT_BLOCK_OFFSET E start
     in if f2fs_test_bit block_off (sit_bitmap sit_i)
        then sit_i\<lparr>sit_bitmap := snd (f2fs_clear_bit block_off (sit_bitmap sit_i))\<rparr>
        else sit_i\<lparr>sit_bitmap := snd (f2fs_set_bit block_off (sit_bitmap sit_i))\<rparr>)"

end
