(* ===== verification/Sit_Inv.thy ===== *)
theory Sit_Inv
  imports Sit
begin

text \<open>
  The invariant of the segment information table and the operations that keep it: the
  counters of a segment count the bits of its maps, those of a section and of the volume
  sum the ones of their segments.  \<open>update_sit_entry\<close> adds one block to the set of live
  blocks or removes one from it, and stops on a block that already is in the wanted state.
\<close>

section \<open>The invariant\<close>

definition seg_ok :: "f2fs_env \<Rightarrow> nat \<Rightarrow> seg_entry \<Rightarrow> bool" where
  "seg_ok E bps se \<longleftrightarrow>
     length (se_cur_valid_map se) = SIT_VBLOCK_MAP_SIZE E \<and>
     length (se_ckpt_valid_map se) = SIT_VBLOCK_MAP_SIZE E \<and>
     se_valid_blocks se = count_bits bps (bits_of (se_cur_valid_map se)) \<and>
     se_ckpt_valid_blocks se =
       count_bits bps (\<lambda>i. bits_of (se_cur_valid_map se) i \<or> bits_of (se_ckpt_valid_map se) i)"

definition vblocks :: "f2fs_sb_info \<Rightarrow> nat \<Rightarrow> nat" where
  "vblocks sbi i = se_valid_blocks (get_seg_entry sbi i)"

definition sec_segs :: "f2fs_sb_info \<Rightarrow> nat \<Rightarrow> nat set" where
  "sec_segs sbi s = {s * sbi_segs_per_sec sbi ..< s * sbi_segs_per_sec sbi + sbi_segs_per_sec sbi}"

definition sit_ok :: "f2fs_env \<Rightarrow> f2fs_sb_info \<Rightarrow> bool" where
  "sit_ok E sbi \<longleftrightarrow>
     geometry sbi \<and> addr_consts E \<and>
     sbi_blocks_per_seg sbi \<le> 8 * SIT_VBLOCK_MAP_SIZE E \<and> sbi_blocks_per_seg sbi < 2 ^ 16 \<and>
     length (sit_sentries (SIT_I sbi)) = TOTAL_SEGS sbi \<and>
     (\<forall>i<TOTAL_SEGS sbi. seg_ok E (sbi_blocks_per_seg sbi) (get_seg_entry sbi i)) \<and>
     sit_written_valid_blocks (SIT_I sbi) = (\<Sum>i<TOTAL_SEGS sbi. vblocks sbi i) \<and>
     sit_dirty_sentries (SIT_I sbi) = count_bits (TOTAL_SEGS sbi) (sit_dirty_sentries_bitmap (SIT_I sbi)) \<and>
     (1 < sbi_segs_per_sec sbi \<longrightarrow>
        length (sit_sec_entries (SIT_I sbi)) = TOTAL_SECS sbi \<and>
        (\<forall>s<TOTAL_SECS sbi. sec_valid_blocks (sit_sec_entries (SIT_I sbi) ! s) = (\<Sum>i\<in>sec_segs sbi s. vblocks sbi i)))"

lemma sit_okD:
  assumes "sit_ok E sbi"
  shows "geometry sbi" "addr_consts E" "sbi_blocks_per_seg sbi \<le> 8 * SIT_VBLOCK_MAP_SIZE E"
    "sbi_blocks_per_seg sbi < 2 ^ 16" "length (sit_sentries (SIT_I sbi)) = TOTAL_SEGS sbi"
    "i < TOTAL_SEGS sbi \<Longrightarrow> seg_ok E (sbi_blocks_per_seg sbi) (get_seg_entry sbi i)"
    "sit_written_valid_blocks (SIT_I sbi) = (\<Sum>i<TOTAL_SEGS sbi. vblocks sbi i)"
    "sit_dirty_sentries (SIT_I sbi) = count_bits (TOTAL_SEGS sbi) (sit_dirty_sentries_bitmap (SIT_I sbi))"
    "1 < sbi_segs_per_sec sbi \<Longrightarrow> length (sit_sec_entries (SIT_I sbi)) = TOTAL_SECS sbi"
    "1 < sbi_segs_per_sec sbi \<Longrightarrow> s < TOTAL_SECS sbi \<Longrightarrow>
      sec_valid_blocks (sit_sec_entries (SIT_I sbi) ! s) = (\<Sum>i\<in>sec_segs sbi s. vblocks sbi i)"
  using assms by (auto simp: sit_ok_def)

text \<open>The invariant reads the state through these only.\<close>

lemma sit_ok_cong:
  assumes "SIT_I sbi' = SIT_I sbi" "geometry sbi' = geometry sbi" "TOTAL_SEGS sbi' = TOTAL_SEGS sbi"
    "TOTAL_SECS sbi' = TOTAL_SECS sbi" "sbi_segs_per_sec sbi' = sbi_segs_per_sec sbi"
    "sbi_blocks_per_seg sbi' = sbi_blocks_per_seg sbi"
  shows "sit_ok E sbi' = sit_ok E sbi"
  using assms by (simp add: sit_ok_def vblocks_def get_seg_entry_def sec_segs_def)

text \<open>A block of the main area that holds live data.\<close>

definition live :: "f2fs_sb_info \<Rightarrow> nat \<Rightarrow> nat \<Rightarrow> bool" where
  "live sbi segno off \<longleftrightarrow> bits_of (se_cur_valid_map (get_seg_entry sbi segno)) off"

lemma vblocks_le:
  assumes "sit_ok E sbi" and "i < TOTAL_SEGS sbi"
  shows "vblocks sbi i \<le> sbi_blocks_per_seg sbi"
  using sit_okD(6) [OF assms] by (simp add: seg_ok_def vblocks_def count_bits_le)

section \<open>One entry\<close>

lemma updated_entry_add:
  assumes "seg_ok E bps se" and "off < bps" and "bps \<le> 8 * SIT_VBLOCK_MAP_SIZE E" and "bps < 2 ^ 16"
    and free: "\<not> f2fs_test_bit off (se_cur_valid_map se)"
  shows "\<exists>se'. updated_entry off mt 1 se = Some se' \<and> seg_ok E bps se'
    \<and> bits_of (se_cur_valid_map se') = (bits_of (se_cur_valid_map se))(off := True)
    \<and> se_valid_blocks se' = se_valid_blocks se + 1 \<and> se_type se' = se_type se
    \<and> se_ckpt_valid_map se' = se_ckpt_valid_map se \<and> se_mtime se' = mt"
proof -
  let ?P = "bits_of (se_cur_valid_map se)" and ?Q = "bits_of (se_ckpt_valid_map se)"
  obtain m where s: "f2fs_set_bit off (se_cur_valid_map se) = (False, m)"
    using free fst_f2fs_set_bit [of off "se_cur_valid_map se"] by (metis prod.collapse)
  from assms(1) have l: "length (se_cur_valid_map se) = SIT_VBLOCK_MAP_SIZE E"
    and v: "se_valid_blocks se = count_bits bps ?P" "se_ckpt_valid_blocks se = count_bits bps (\<lambda>i. ?P i \<or> ?Q i)"
    by (auto simp: seg_ok_def)
  have o: "off < 8 * length (se_cur_valid_map se)" using assms(2,3) l by simp
  have free': "\<not> ?P off" using free by (simp add: bits_of_def)
  have lm: "length m = SIT_VBLOCK_MAP_SIZE E" using length_f2fs_set_bit [of off "se_cur_valid_map se"] s l by simp
  have b: "bits_of m = ?P(off := True)" using bits_of_set [OF o] s by simp
  have "se_valid_blocks se < bps" using count_bits_less [where P = ?P, OF assms(2) free'] v(1) by simp
  then have 1: "to_u16 (int (se_valid_blocks se) + 1) = se_valid_blocks se + 1"
    using assms(4) by (intro to_u16_inc) simp
  have union: "(\<lambda>i. (?P(off := True)) i \<or> ?Q i) = (\<lambda>i. ?P i \<or> ?Q i)(off := True)" by auto
  have 2: "to_u16 (int (se_ckpt_valid_blocks se) + 1) = se_ckpt_valid_blocks se + 1" if "\<not> ?Q off"
    using count_bits_less [OF assms(2), of "\<lambda>i. ?P i \<or> ?Q i"] that free' v(2) assms(4)
    by (intro to_u16_inc) simp
  have c: "count_bits bps (?P(off := True)) = se_valid_blocks se + 1"
    "count_bits bps (\<lambda>i. (?P(off := True)) i \<or> ?Q i) = se_ckpt_valid_blocks se + (if ?Q off then 0 else 1)"
    unfolding union v using assms(2) free' by (simp_all add: counts)
  define base where "base = se\<lparr>se_valid_blocks := se_valid_blocks se + 1, se_mtime := mt, se_cur_valid_map := m\<rparr>"
  define se' where "se' = (if ?Q off then base else base\<lparr>se_ckpt_valid_blocks := se_ckpt_valid_blocks se + 1\<rparr>)"
  have f: "se_cur_valid_map se' = m" "se_ckpt_valid_map se' = se_ckpt_valid_map se" "se_type se' = se_type se"
    "se_valid_blocks se' = se_valid_blocks se + 1" "se_mtime se' = mt"
    "se_ckpt_valid_blocks se' = se_ckpt_valid_blocks se + (if ?Q off then 0 else 1)"
    by (simp_all add: se'_def base_def)
  have "updated_entry off mt 1 se = Some se'"
    unfolding se'_def base_def
    using 1 2 by (simp add: updated_entry_def s BUG_ON_def bits_of_def)
  moreover have "seg_ok E bps se'"
    unfolding seg_ok_def f b c using lm assms(1) by (simp add: seg_ok_def)
  ultimately show ?thesis
    using f b c by simp
qed

lemma updated_entry_del:
  assumes "seg_ok E bps se" and "off < bps" and "bps \<le> 8 * SIT_VBLOCK_MAP_SIZE E" and "bps < 2 ^ 16"
    and used: "f2fs_test_bit off (se_cur_valid_map se)"
  shows "\<exists>se'. updated_entry off mt (- 1) se = Some se' \<and> seg_ok E bps se'
    \<and> bits_of (se_cur_valid_map se') = (bits_of (se_cur_valid_map se))(off := False)
    \<and> se_valid_blocks se' + 1 = se_valid_blocks se \<and> se_type se' = se_type se
    \<and> se_ckpt_valid_map se' = se_ckpt_valid_map se \<and> se_mtime se' = mt"
proof -
  let ?P = "bits_of (se_cur_valid_map se)" and ?Q = "bits_of (se_ckpt_valid_map se)"
  obtain m where s: "f2fs_clear_bit off (se_cur_valid_map se) = (True, m)"
    using used fst_f2fs_clear_bit [of off "se_cur_valid_map se"] by (metis prod.collapse)
  from assms(1) have l: "length (se_cur_valid_map se) = SIT_VBLOCK_MAP_SIZE E"
    and v: "se_valid_blocks se = count_bits bps ?P" "se_ckpt_valid_blocks se = count_bits bps (\<lambda>i. ?P i \<or> ?Q i)"
    by (auto simp: seg_ok_def)
  have o: "off < 8 * length (se_cur_valid_map se)" using assms(2,3) l by simp
  have used': "?P off" using used by (simp add: bits_of_def)
  have lm: "length m = SIT_VBLOCK_MAP_SIZE E" using length_f2fs_clear_bit [of off "se_cur_valid_map se"] s l by simp
  have b: "bits_of m = ?P(off := False)" using bits_of_clear [OF o] s by simp
  have pos: "0 < se_valid_blocks se" "0 < se_ckpt_valid_blocks se"
    using count_bits_pos [where P = ?P, OF assms(2) used']
      count_bits_pos [where P = "\<lambda>i. ?P i \<or> ?Q i", OF assms(2)] used' v by auto
  have le: "se_valid_blocks se \<le> bps" "se_ckpt_valid_blocks se \<le> bps" unfolding v by (rule count_bits_le)+
  have 1: "to_u16 (int (se_valid_blocks se) + - 1) = se_valid_blocks se - 1"
    using pos(1) le(1) assms(4) by (intro to_u16_dec) simp_all
  have 2: "to_u16 (int (se_ckpt_valid_blocks se) + - 1) = se_ckpt_valid_blocks se - 1"
    using pos(2) le(2) assms(4) by (intro to_u16_dec) simp_all
  have union: "(\<lambda>i. (?P(off := False)) i \<or> ?Q i) = (if ?Q off then (\<lambda>i. ?P i \<or> ?Q i) else (\<lambda>i. ?P i \<or> ?Q i)(off := False))"
    using used' by (auto simp: fun_eq_iff)
  have c: "count_bits bps (?P(off := False)) = se_valid_blocks se - 1"
    "count_bits bps (\<lambda>i. (?P(off := False)) i \<or> ?Q i) = se_ckpt_valid_blocks se - (if ?Q off then 0 else 1)"
    unfolding union v using assms(2) used' by (simp_all add: counts)
  define base where "base = se\<lparr>se_valid_blocks := se_valid_blocks se - 1, se_mtime := mt, se_cur_valid_map := m\<rparr>"
  define se' where "se' = (if ?Q off then base else base\<lparr>se_ckpt_valid_blocks := se_ckpt_valid_blocks se - 1\<rparr>)"
  have f: "se_cur_valid_map se' = m" "se_ckpt_valid_map se' = se_ckpt_valid_map se" "se_type se' = se_type se"
    "se_valid_blocks se' = se_valid_blocks se - 1" "se_mtime se' = mt"
    "se_ckpt_valid_blocks se' = se_ckpt_valid_blocks se - (if ?Q off then 0 else 1)"
    by (simp_all add: se'_def base_def)
  have "updated_entry off mt (- 1) se = Some se'"
    unfolding se'_def base_def
    using 1 2 by (simp add: updated_entry_def s BUG_ON_def bits_of_def)
  moreover have "seg_ok E bps se'"
    unfolding seg_ok_def f b c using lm assms(1) by (simp add: seg_ok_def)
  ultimately show ?thesis
    using f b pos by simp
qed

lemma updated_entry_bug:
  "f2fs_test_bit off (se_cur_valid_map se) \<Longrightarrow> updated_entry off mt 1 se = None"
  "\<not> f2fs_test_bit off (se_cur_valid_map se) \<Longrightarrow> updated_entry off mt (- 1) se = None"
  by (simp_all add: updated_entry_def f2fs_set_bit_def f2fs_clear_bit_def f2fs_test_bit_def BUG_ON_def)

section \<open>The table\<close>

text \<open>Only the segment information changes.\<close>

definition sit_frame :: "f2fs_sb_info \<Rightarrow> f2fs_sb_info \<Rightarrow> bool" where
  "sit_frame sbi sbi' \<longleftrightarrow> sbi' = set_SIT_I (SIT_I sbi') sbi"

lemma sit_frame_refl [simp]: "sit_frame sbi sbi"
  by (simp add: sit_frame_def setters accessors)

lemma sit_frame_trans: "sit_frame a b \<Longrightarrow> sit_frame b c \<Longrightarrow> sit_frame a c"
  unfolding sit_frame_def by (metis set_SIT_I_frame)

lemma sit_frame_set [simp]: "sit_frame sbi (set_SIT_I v sbi)"
  by (simp add: sit_frame_def)

lemma sit_frameD:
  assumes "sit_frame sbi sbi'"
  shows "TOTAL_SEGS sbi' = TOTAL_SEGS sbi" "TOTAL_SECS sbi' = TOTAL_SECS sbi"
    "sbi_segs_per_sec sbi' = sbi_segs_per_sec sbi" "sbi_blocks_per_seg sbi' = sbi_blocks_per_seg sbi"
    "FREE_I sbi' = FREE_I sbi" "DIRTY_I sbi' = DIRTY_I sbi" "CURSEG_I sbi' = CURSEG_I sbi"
    "geometry sbi' = geometry sbi" "main_addr sbi' = main_addr sbi" "GET_SEGNO E sbi' = GET_SEGNO E sbi"
    "GET_SECNO sbi' = GET_SECNO sbi" "IS_CURSEG sbi' = IS_CURSEG sbi" "START_BLOCK sbi' = START_BLOCK sbi"
    "sbi_secs_per_zone sbi' = sbi_secs_per_zone sbi" "sm_curseg_array (SM_I sbi') = sm_curseg_array (SM_I sbi)"
proof -
  obtain S where "sbi' = set_SIT_I S sbi" using assms unfolding sit_frame_def by metis
  then show "TOTAL_SEGS sbi' = TOTAL_SEGS sbi" "TOTAL_SECS sbi' = TOTAL_SECS sbi"
    "sbi_segs_per_sec sbi' = sbi_segs_per_sec sbi" "sbi_blocks_per_seg sbi' = sbi_blocks_per_seg sbi"
    "FREE_I sbi' = FREE_I sbi" "DIRTY_I sbi' = DIRTY_I sbi" "CURSEG_I sbi' = CURSEG_I sbi"
    "geometry sbi' = geometry sbi" "main_addr sbi' = main_addr sbi" "GET_SEGNO E sbi' = GET_SEGNO E sbi"
    "GET_SECNO sbi' = GET_SECNO sbi" "IS_CURSEG sbi' = IS_CURSEG sbi" "START_BLOCK sbi' = START_BLOCK sbi"
    "sbi_secs_per_zone sbi' = sbi_secs_per_zone sbi" "sm_curseg_array (SM_I sbi') = sm_curseg_array (SM_I sbi)"
    by (simp_all add: fun_eq_iff)
qed

lemma mark_dirty_simps [simp]:
  "sit_frame sbi (mark_sit_entry_dirty sbi segno)"
  "sit_sentries (SIT_I (mark_sit_entry_dirty sbi segno)) = sit_sentries (SIT_I sbi)"
  "sit_sec_entries (SIT_I (mark_sit_entry_dirty sbi segno)) = sit_sec_entries (SIT_I sbi)"
  "sit_written_valid_blocks (SIT_I (mark_sit_entry_dirty sbi segno)) = sit_written_valid_blocks (SIT_I sbi)"
  "sit_dirty_sentries_bitmap (SIT_I (mark_sit_entry_dirty sbi segno)) =
     (sit_dirty_sentries_bitmap (SIT_I sbi))(segno := True)"
  by (simp_all add: mark_sit_entry_dirty_def Let_def)

lemma mark_dirty_count:
  assumes "sit_dirty_sentries (SIT_I sbi) = count_bits n (sit_dirty_sentries_bitmap (SIT_I sbi))"
    and "segno < n" and "n < 2 ^ 32"
  shows "sit_dirty_sentries (SIT_I (mark_sit_entry_dirty sbi segno)) =
    count_bits n (sit_dirty_sentries_bitmap (SIT_I (mark_sit_entry_dirty sbi segno)))"
proof (cases "sit_dirty_sentries_bitmap (SIT_I sbi) segno")
  case True
  then show ?thesis using assms(1) by (simp add: mark_sit_entry_dirty_def Let_def fun_upd_idem)
next
  case False
  let ?P = "sit_dirty_sentries_bitmap (SIT_I sbi)"
  have "count_bits n ?P < n" by (rule count_bits_less [where P = ?P, OF assms(2) False])
  then have "u32 (sit_dirty_sentries (SIT_I sbi) + 1) = count_bits n ?P + 1"
    using assms(1,3) by (simp add: u32_id)
  moreover have "count_bits n (?P(segno := True)) = count_bits n ?P + 1"
    using False by (simp add: counts assms(2))
  ultimately show ?thesis using False by (simp add: mark_sit_entry_dirty_def Let_def del: fun_upd_apply)
qed

lemma sec_segs_mem:
  assumes "geometry sbi"
  shows "i \<in> sec_segs sbi s \<longleftrightarrow> GET_SECNO sbi i = s"
proof -
  let ?k = "sbi_segs_per_sec sbi"
  have k: "0 < ?k" by (rule geometryD(3) [OF assms])
  have "s \<le> i div ?k \<longleftrightarrow> s * ?k \<le> i" using k by (rule less_eq_div_iff_mult_less_eq)
  moreover have "i div ?k < Suc s \<longleftrightarrow> i < Suc s * ?k" using k by (rule div_less_iff_less_mult)
  ultimately show ?thesis by (auto simp: sec_segs_def GET_SECNO_def add.commute)
qed

text \<open>Replacing one entry by a consistent one, with the sums following it, keeps the invariant.\<close>

lemma sit_ok_replace:
  assumes ok: "sit_ok E sbi" and seg: "segno < TOTAL_SEGS sbi" and fr: "sit_frame sbi sbi'"
    and entries: "sit_sentries (SIT_I sbi') = (sit_sentries (SIT_I sbi))[segno := se]"
    and se: "seg_ok E (sbi_blocks_per_seg sbi) se"
    and written: "sit_written_valid_blocks (SIT_I sbi') + vblocks sbi segno =
      sit_written_valid_blocks (SIT_I sbi) + se_valid_blocks se"
    and dirty: "sit_dirty_sentries (SIT_I sbi') = count_bits (TOTAL_SEGS sbi) (sit_dirty_sentries_bitmap (SIT_I sbi'))"
    and sec: "1 < sbi_segs_per_sec sbi \<Longrightarrow> \<exists>e. sit_sec_entries (SIT_I sbi') = (sit_sec_entries (SIT_I sbi))[GET_SECNO sbi segno := e]
      \<and> sec_valid_blocks e + vblocks sbi segno = sec_valid_blocks (get_sec_entry sbi segno) + se_valid_blocks se"
  shows "sit_ok E sbi'"
proof -
  note D = sit_okD [OF ok] and F = sit_frameD [OF fr]
  have v: "vblocks sbi' i = (if i = segno then se_valid_blocks se else vblocks sbi i)" for i
    using D(5) seg by (simp add: vblocks_def get_seg_entry_def entries)
  have "seg_ok E (sbi_blocks_per_seg sbi) (get_seg_entry sbi' i)" if "i < TOTAL_SEGS sbi" for i
    using D(6) [OF that] D(5) seg se by (cases "i = segno") (simp_all add: get_seg_entry_def entries)
  moreover have "sit_written_valid_blocks (SIT_I sbi') = (\<Sum>i<TOTAL_SEGS sbi. vblocks sbi' i)"
    using sum_change [of "{..<TOTAL_SEGS sbi}" segno "vblocks sbi'" "vblocks sbi"] seg written D(7)
    by (simp add: v)
  moreover have "length (sit_sec_entries (SIT_I sbi')) = TOTAL_SECS sbi \<and>
      (\<forall>s<TOTAL_SECS sbi. sec_valid_blocks (sit_sec_entries (SIT_I sbi') ! s) = (\<Sum>i\<in>sec_segs sbi s. vblocks sbi' i))"
    if k: "1 < sbi_segs_per_sec sbi"
  proof -
    from sec [OF k] obtain e where e: "sit_sec_entries (SIT_I sbi') = (sit_sec_entries (SIT_I sbi))[GET_SECNO sbi segno := e]"
      "sec_valid_blocks e + vblocks sbi segno = sec_valid_blocks (get_sec_entry sbi segno) + se_valid_blocks se" by blast
    let ?t = "GET_SECNO sbi segno"
    have t: "?t < TOTAL_SECS sbi" by (rule GET_SECNO_less [OF D(1) seg])
    have "sec_valid_blocks (sit_sec_entries (SIT_I sbi') ! s) = (\<Sum>i\<in>sec_segs sbi s. vblocks sbi' i)"
      if s: "s < TOTAL_SECS sbi" for s
    proof (cases "s = ?t")
      case True
      have m: "segno \<in> sec_segs sbi ?t" by (simp add: sec_segs_mem [OF D(1)])
      have "(\<Sum>i\<in>sec_segs sbi ?t. vblocks sbi' i) + vblocks sbi segno = (\<Sum>i\<in>sec_segs sbi ?t. vblocks sbi i) + vblocks sbi' segno"
        by (rule sum_change [OF _ m]) (auto simp: v sec_segs_def)
      then show ?thesis using True e D(9) [OF k] D(10) [OF k t] t by (simp add: v get_sec_entry_def)
    next
      case False
      then have "segno \<notin> sec_segs sbi s" by (simp add: sec_segs_mem [OF D(1)])
      then have "(\<Sum>i\<in>sec_segs sbi s. vblocks sbi' i) = (\<Sum>i\<in>sec_segs sbi s. vblocks sbi i)"
        by (intro sum.cong) (auto simp: v)
      then show ?thesis using False e(1) D(10) [OF k s] by simp
    qed
    then show ?thesis using e(1) D(9) [OF k] by simp
  qed
  ultimately show ?thesis
    using D(1-4) D(5) dirty by (simp add: sit_ok_def F sec_segs_def entries)
qed

end
