(* ===== verification/Sit_Update.thy ===== *)
theory Sit_Update
  imports Sit_Inv
begin

text \<open>
  \<open>update_sit_entry\<close> and \<open>refresh_sit_entry\<close>: on a consistent table they succeed exactly when
  the block is in the state they expect, keep the table consistent, and change the set of
  live blocks by exactly the given block.
\<close>

section \<open>Room in the counters\<close>

lemma geometry_blocks: "geometry sbi \<Longrightarrow> TOTAL_SEGS sbi * sbi_blocks_per_seg sbi < 2 ^ 32"
proof -
  assume g: "geometry sbi"
  have "TOTAL_SEGS sbi * sbi_blocks_per_seg sbi \<le>
      (TOTAL_SEGS sbi + fsm_start_segno (FREE_I sbi)) * sbi_blocks_per_seg sbi"
    by (intro mult_le_mono1) simp
  also have "\<dots> < 2 ^ 32" using g unfolding geometry_def by linarith
  finally show ?thesis .
qed

lemma written_room:
  assumes "sit_ok E sbi" and "segno < TOTAL_SEGS sbi" and "vblocks sbi segno < sbi_blocks_per_seg sbi"
  shows "(\<Sum>i<TOTAL_SEGS sbi. vblocks sbi i) + 1 < 2 ^ 32"
proof -
  let ?g = "\<lambda>i. if i = segno then vblocks sbi i + 1 else vblocks sbi i"
  have "(\<Sum>i<TOTAL_SEGS sbi. ?g i) + vblocks sbi segno = (\<Sum>i<TOTAL_SEGS sbi. vblocks sbi i) + ?g segno"
    using assms(2) by (intro sum_change) auto
  moreover have "(\<Sum>i<TOTAL_SEGS sbi. ?g i) \<le> TOTAL_SEGS sbi * sbi_blocks_per_seg sbi"
    using vblocks_le [OF assms(1)] assms(3) by (intro sum_bound) auto
  ultimately show ?thesis using geometry_blocks [OF sit_okD(1) [OF assms(1)]] by simp
qed

lemma sec_sum_le:
  assumes "geometry sbi" and "s < TOTAL_SECS sbi"
  shows "(\<Sum>i\<in>sec_segs sbi s. vblocks sbi i) \<le> (\<Sum>i<TOTAL_SEGS sbi. vblocks sbi i)"
proof -
  have "Suc s * sbi_segs_per_sec sbi \<le> TOTAL_SEGS sbi"
    unfolding geometryD(6) [OF assms(1)] using assms(2) by (intro mult_le_mono1) simp
  then have "sec_segs sbi s \<subseteq> {..<TOTAL_SEGS sbi}" by (auto simp: sec_segs_def)
  then show ?thesis by (intro sum_mono2) auto
qed

section \<open>One update\<close>

lemma update_sit_entry_step:
  assumes ok: "sit_ok E sbi" and seg: "segno < TOTAL_SEGS sbi" and off: "off < sbi_blocks_per_seg sbi"
    and se: "updated_entry off (get_mtime E sbi) del (get_seg_entry sbi segno) = Some se"
      "seg_ok E (sbi_blocks_per_seg sbi) se" "int (se_valid_blocks se) = int (vblocks sbi segno) + del"
    and wr: "to_u32 (int (sit_written_valid_blocks (SIT_I sbi)) + del) + vblocks sbi segno =
      sit_written_valid_blocks (SIT_I sbi) + se_valid_blocks se"
    and sc: "1 < sbi_segs_per_sec sbi \<Longrightarrow> to_u32 (int (sec_valid_blocks (get_sec_entry sbi segno)) + del) + vblocks sbi segno =
      sec_valid_blocks (get_sec_entry sbi segno) + se_valid_blocks se"
  shows "\<exists>sbi'. update_sit_entry E sbi (main_addr sbi segno off) del = Some sbi' \<and> sit_ok E sbi' \<and> sit_frame sbi sbi'
    \<and> sit_sentries (SIT_I sbi') = (sit_sentries (SIT_I sbi))[segno := se]
    \<and> sit_dirty_sentries_bitmap (SIT_I sbi') = (sit_dirty_sentries_bitmap (SIT_I sbi))(segno := True)"
proof -
  note D = sit_okD [OF ok]
  define s1 where "s1 = set_seg_entry segno se sbi"
  define s2 where "s2 = set_SIT_I ((SIT_I s1)\<lparr>sit_max_mtime := se_mtime se\<rparr>) s1"
  define s3 where "s3 = mark_sit_entry_dirty s2 segno"
  define s4 where "s4 = set_SIT_I ((SIT_I s3)\<lparr>sit_written_valid_blocks := to_u32 (int (sit_written_valid_blocks (SIT_I s3)) + del)\<rparr>) s3"
  define s5 where "s5 = (if 1 < sbi_segs_per_sec s4
           then set_sec_entry segno ((get_sec_entry s4 segno)\<lparr>sec_valid_blocks := to_u32 (int (sec_valid_blocks (get_sec_entry s4 segno)) + del)\<rparr>) s4
           else s4)"
  have fr: "sit_frame sbi s1" "sit_frame s1 s2" "sit_frame s2 s3" "sit_frame s3 s4" "sit_frame s4 s5"
  proof -
    show "sit_frame sbi s1" by (simp add: s1_def set_seg_entry_def)
    show "sit_frame s1 s2" by (simp add: s2_def)
    show "sit_frame s2 s3" by (simp add: s3_def)
    show "sit_frame s3 s4" by (simp add: s4_def)
    show "sit_frame s4 s5" by (simp add: s5_def set_sec_entry_def)
  qed
  then have fr4: "sit_frame sbi s4" and fr5: "sit_frame sbi s5" by (metis sit_frame_trans)+
  note F4 = sit_frameD [OF fr4] and F5 = sit_frameD [OF fr5]
  have e4: "sit_sentries (SIT_I s4) = (sit_sentries (SIT_I sbi))[segno := se]"
    "sit_sec_entries (SIT_I s4) = sit_sec_entries (SIT_I sbi)"
    "sit_written_valid_blocks (SIT_I s4) = to_u32 (int (sit_written_valid_blocks (SIT_I sbi)) + del)"
    by (simp_all add: s4_def s3_def s2_def s1_def set_seg_entry_def)
  have b4: "sit_dirty_sentries_bitmap (SIT_I s4) = (sit_dirty_sentries_bitmap (SIT_I sbi))(segno := True)"
    unfolding s4_def s3_def by (simp add: s2_def s1_def set_seg_entry_def)
  have "TOTAL_SEGS sbi < 2 ^ 32" using TOTAL_SEGS_less [OF D(1)] by simp
  then have d3: "sit_dirty_sentries (SIT_I s3) = count_bits (TOTAL_SEGS sbi) (sit_dirty_sentries_bitmap (SIT_I s3))"
    unfolding s3_def by (intro mark_dirty_count) (simp_all add: D(8) seg s2_def s1_def set_seg_entry_def)
  then have d4: "sit_dirty_sentries (SIT_I s4) = count_bits (TOTAL_SEGS sbi) (sit_dirty_sentries_bitmap (SIT_I s4))"
    by (simp add: s4_def)
  have g4: "get_sec_entry s4 segno = get_sec_entry sbi segno"
    by (simp add: get_sec_entry_def e4 F4)
  have e5: "sit_sentries (SIT_I s5) = sit_sentries (SIT_I s4)"
    "sit_written_valid_blocks (SIT_I s5) = sit_written_valid_blocks (SIT_I s4)"
    "sit_dirty_sentries (SIT_I s5) = sit_dirty_sentries (SIT_I s4)"
    "sit_dirty_sentries_bitmap (SIT_I s5) = sit_dirty_sentries_bitmap (SIT_I s4)"
    by (simp_all add: s5_def set_sec_entry_def)
  have ok5: "sit_ok E s5"
  proof (rule sit_ok_replace [OF ok seg fr5 _ se(2)])
    show "sit_sentries (SIT_I s5) = (sit_sentries (SIT_I sbi))[segno := se]" by (simp add: e5 e4)
    show "sit_written_valid_blocks (SIT_I s5) + vblocks sbi segno = sit_written_valid_blocks (SIT_I sbi) + se_valid_blocks se"
      using wr by (simp add: e5 e4)
    show "sit_dirty_sentries (SIT_I s5) = count_bits (TOTAL_SEGS sbi) (sit_dirty_sentries_bitmap (SIT_I s5))"
      by (simp only: e5 d4)
    assume k: "1 < sbi_segs_per_sec sbi"
    show "\<exists>e. sit_sec_entries (SIT_I s5) = (sit_sec_entries (SIT_I sbi))[GET_SECNO sbi segno := e]
      \<and> sec_valid_blocks e + vblocks sbi segno = sec_valid_blocks (get_sec_entry sbi segno) + se_valid_blocks se"
      using sc [OF k] k by (auto simp: s5_def set_sec_entry_def F4 e4 g4)
  qed
  have nv: "int (se_valid_blocks (get_seg_entry sbi segno)) + del = int (se_valid_blocks se)"
    using se(3) by (simp add: vblocks_def)
  have le: "se_valid_blocks se \<le> sbi_blocks_per_seg sbi" using se(2) by (simp add: seg_ok_def count_bits_le)
  have bug: "f2fs_bug_on E (drop_bit 16 (int (se_valid_blocks se)) \<noteq> 0 \<or>
      int (sbi_blocks_per_seg sbi) < int (se_valid_blocks se)) = Some ()"
    using le D(4) by (simp add: f2fs_bug_on_def drop_bit_eq_div)
  have "update_sit_entry E sbi (main_addr sbi segno off) del = Some s5"
    unfolding update_sit_entry_def Let_def GET_SEGNO_main [OF D(1,2) seg off] segoff_mod_main [OF D(1) seg off]
      nv bug se(1) s1_def [symmetric] s2_def [symmetric] s3_def [symmetric] s4_def [symmetric] s5_def [symmetric] bind.bind_lunit
    by (simp add: s1_def [symmetric] s2_def [symmetric] s3_def [symmetric] s4_def [symmetric] s5_def [symmetric])
  then show ?thesis using ok5 fr5 e5 e4 b4 by auto
qed

section \<open>What an update does to the live blocks\<close>

text \<open>Everything but the state of one segment's current map and counters stays.\<close>

definition others_kept :: "f2fs_sb_info \<Rightarrow> f2fs_sb_info \<Rightarrow> nat \<Rightarrow> bool" where
  "others_kept sbi sbi' segno \<longleftrightarrow> sit_frame sbi sbi'
     \<and> length (sit_sentries (SIT_I sbi')) = length (sit_sentries (SIT_I sbi))
     \<and> (\<forall>s. s \<noteq> segno \<longrightarrow> get_seg_entry sbi' s = get_seg_entry sbi s)
     \<and> se_type (get_seg_entry sbi' segno) = se_type (get_seg_entry sbi segno)
     \<and> se_ckpt_valid_map (get_seg_entry sbi' segno) = se_ckpt_valid_map (get_seg_entry sbi segno)"

lemma update_sit_entry_add:
  assumes ok: "sit_ok E sbi" and seg: "segno < TOTAL_SEGS sbi" and off: "off < sbi_blocks_per_seg sbi"
    and free: "\<not> live sbi segno off"
  shows "\<exists>sbi'. update_sit_entry E sbi (main_addr sbi segno off) 1 = Some sbi' \<and> sit_ok E sbi'
    \<and> others_kept sbi sbi' segno \<and> vblocks sbi' segno = vblocks sbi segno + 1
    \<and> (\<forall>b. live sbi' segno b \<longleftrightarrow> b = off \<or> live sbi segno b)"
proof -
  note D = sit_okD [OF ok]
  have free': "\<not> f2fs_test_bit off (se_cur_valid_map (get_seg_entry sbi segno))"
    using free by (simp add: live_def bits_of_def)
  obtain se where se: "updated_entry off (get_mtime E sbi) 1 (get_seg_entry sbi segno) = Some se"
    "seg_ok E (sbi_blocks_per_seg sbi) se"
    "bits_of (se_cur_valid_map se) = (bits_of (se_cur_valid_map (get_seg_entry sbi segno)))(off := True)"
    "se_valid_blocks se = vblocks sbi segno + 1" "se_type se = se_type (get_seg_entry sbi segno)"
    "se_ckpt_valid_map se = se_ckpt_valid_map (get_seg_entry sbi segno)"
    using updated_entry_add [OF D(6) [OF seg] off D(3,4) free'] by (auto simp: vblocks_def)
  have room: "vblocks sbi segno < sbi_blocks_per_seg sbi"
    using se(2,4) count_bits_le [of "sbi_blocks_per_seg sbi" "bits_of (se_cur_valid_map se)"] by (simp add: seg_ok_def)
  note W = written_room [OF ok seg room]
  have wr: "to_u32 (int (sit_written_valid_blocks (SIT_I sbi)) + 1) + vblocks sbi segno =
      sit_written_valid_blocks (SIT_I sbi) + se_valid_blocks se"
  proof -
    have "sit_written_valid_blocks (SIT_I sbi) + 1 < 2 ^ 32" using W D(7) by simp
    then show ?thesis unfolding se(4) by (subst to_u32_inc) simp_all
  qed
  have sc: "to_u32 (int (sec_valid_blocks (get_sec_entry sbi segno)) + 1) + vblocks sbi segno =
      sec_valid_blocks (get_sec_entry sbi segno) + se_valid_blocks se" if k: "1 < sbi_segs_per_sec sbi"
  proof -
    have t: "GET_SECNO sbi segno < TOTAL_SECS sbi" by (rule GET_SECNO_less [OF D(1) seg])
    have "sec_valid_blocks (get_sec_entry sbi segno) + 1 < 2 ^ 32"
      using D(10) [OF k t] sec_sum_le [OF D(1) t] W by (simp add: get_sec_entry_def)
    then show ?thesis by (simp add: to_u32_inc se(4))
  qed
  obtain sbi' where u: "update_sit_entry E sbi (main_addr sbi segno off) 1 = Some sbi'" "sit_ok E sbi'"
    "sit_frame sbi sbi'" "sit_sentries (SIT_I sbi') = (sit_sentries (SIT_I sbi))[segno := se]"
    using update_sit_entry_step [OF ok seg off se(1,2) _ wr sc] se(4) by auto
  have g: "get_seg_entry sbi' s = (if s = segno then se else get_seg_entry sbi s)" for s
    using u(4) D(5) seg by (simp add: get_seg_entry_def)
  show ?thesis
    using u se(3-6) by (auto simp: others_kept_def g live_def vblocks_def)
qed

lemma update_sit_entry_del:
  assumes ok: "sit_ok E sbi" and seg: "segno < TOTAL_SEGS sbi" and off: "off < sbi_blocks_per_seg sbi"
    and used: "live sbi segno off"
  shows "\<exists>sbi'. update_sit_entry E sbi (main_addr sbi segno off) (- 1) = Some sbi' \<and> sit_ok E sbi'
    \<and> others_kept sbi sbi' segno \<and> vblocks sbi' segno + 1 = vblocks sbi segno
    \<and> (\<forall>b. live sbi' segno b \<longleftrightarrow> b \<noteq> off \<and> live sbi segno b)"
proof -
  note D = sit_okD [OF ok]
  have used': "f2fs_test_bit off (se_cur_valid_map (get_seg_entry sbi segno))"
    using used by (simp add: live_def bits_of_def)
  obtain se where se: "updated_entry off (get_mtime E sbi) (- 1) (get_seg_entry sbi segno) = Some se"
    "seg_ok E (sbi_blocks_per_seg sbi) se"
    "bits_of (se_cur_valid_map se) = (bits_of (se_cur_valid_map (get_seg_entry sbi segno)))(off := False)"
    "se_valid_blocks se + 1 = vblocks sbi segno" "se_type se = se_type (get_seg_entry sbi segno)"
    "se_ckpt_valid_map se = se_ckpt_valid_map (get_seg_entry sbi segno)"
    using updated_entry_del [OF D(6) [OF seg] off D(3,4) used'] by (auto simp: vblocks_def)
  have "vblocks sbi segno \<le> (\<Sum>i<TOTAL_SEGS sbi. vblocks sbi i)"
    using seg by (intro member_le_sum) auto
  then have W: "0 < sit_written_valid_blocks (SIT_I sbi)" using se(4) D(7) by simp
  have "(\<Sum>i<TOTAL_SEGS sbi. vblocks sbi i) \<le> TOTAL_SEGS sbi * sbi_blocks_per_seg sbi"
    using vblocks_le [OF ok] by (intro sum_bound) auto
  then have W2: "(\<Sum>i<TOTAL_SEGS sbi. vblocks sbi i) < 2 ^ 32" using geometry_blocks [OF D(1)] by simp
  have wr: "to_u32 (int (sit_written_valid_blocks (SIT_I sbi)) + - 1) + vblocks sbi segno =
      sit_written_valid_blocks (SIT_I sbi) + se_valid_blocks se"
    unfolding se(4) [symmetric] by (subst to_u32_dec) (use W W2 D(7) in auto)
  have sc: "to_u32 (int (sec_valid_blocks (get_sec_entry sbi segno)) + - 1) + vblocks sbi segno =
      sec_valid_blocks (get_sec_entry sbi segno) + se_valid_blocks se" if k: "1 < sbi_segs_per_sec sbi"
  proof -
    have t: "GET_SECNO sbi segno < TOTAL_SECS sbi" by (rule GET_SECNO_less [OF D(1) seg])
    have "sec_valid_blocks (get_sec_entry sbi segno) < 2 ^ 32"
      using D(10) [OF k t] sec_sum_le [OF D(1) t] W2 by (simp add: get_sec_entry_def)
    moreover have "vblocks sbi segno \<le> (\<Sum>i\<in>sec_segs sbi (GET_SECNO sbi segno). vblocks sbi i)"
      by (intro member_le_sum) (auto simp: sec_segs_mem [OF D(1)], simp add: sec_segs_def)
    then have "0 < sec_valid_blocks (get_sec_entry sbi segno)"
      using D(10) [OF k t] se(4) by (simp add: get_sec_entry_def)
    ultimately show ?thesis unfolding se(4) [symmetric] by (subst to_u32_dec) auto
  qed
  obtain sbi' where u: "update_sit_entry E sbi (main_addr sbi segno off) (- 1) = Some sbi'" "sit_ok E sbi'"
    "sit_frame sbi sbi'" "sit_sentries (SIT_I sbi') = (sit_sentries (SIT_I sbi))[segno := se]"
    using update_sit_entry_step [OF ok seg off se(1,2) _ wr sc] se(4) by auto
  have g: "get_seg_entry sbi' s = (if s = segno then se else get_seg_entry sbi s)" for s
    using u(4) D(5) seg by (simp add: get_seg_entry_def)
  show ?thesis
    using u se(3-6) by (auto simp: others_kept_def g live_def vblocks_def)
qed

lemma update_sit_entry_bug:
  assumes ok: "sit_ok E sbi" and seg: "segno < TOTAL_SEGS sbi" and off: "off < sbi_blocks_per_seg sbi"
  shows "live sbi segno off \<Longrightarrow> update_sit_entry E sbi (main_addr sbi segno off) 1 = None"
    and "\<not> live sbi segno off \<Longrightarrow> update_sit_entry E sbi (main_addr sbi segno off) (- 1) = None"
  unfolding update_sit_entry_def Let_def GET_SEGNO_main [OF sit_okD(1,2) [OF ok] seg off]
    segoff_mod_main [OF sit_okD(1) [OF ok] seg off]
  by (auto simp: live_def bits_of_def bind_eq_None_conv f2fs_bug_on_def updated_entry_bug)

text \<open>Writing a block in a new place: the new block becomes live, then the old one dies.\<close>

lemma refresh_sit_entry_moves:
  assumes ok: "sit_ok E sbi" and new: "segno < TOTAL_SEGS sbi" "off < sbi_blocks_per_seg sbi" "\<not> live sbi segno off"
    and old: "osegno < TOTAL_SEGS sbi" "ooff < sbi_blocks_per_seg sbi" "live sbi osegno ooff"
  shows "\<exists>sbi'. refresh_sit_entry E sbi (main_addr sbi osegno ooff) (main_addr sbi segno off) = Some sbi'
    \<and> sit_ok E sbi' \<and> sit_frame sbi sbi'
    \<and> (\<forall>s b. live sbi' s b \<longleftrightarrow> \<not> (s = osegno \<and> b = ooff) \<and> (s = segno \<and> b = off \<or> live sbi s b))
    \<and> (\<forall>i. se_type (get_seg_entry sbi' i) = se_type (get_seg_entry sbi i))"
proof -
  note D = sit_okD [OF ok]
  from update_sit_entry_add [OF ok new] obtain s1 where
    s1: "update_sit_entry E sbi (main_addr sbi segno off) 1 = Some s1" "sit_ok E s1" "others_kept sbi s1 segno"
      "\<And>b. live s1 segno b \<longleftrightarrow> b = off \<or> live sbi segno b" by auto
  have l1: "live s1 s b \<longleftrightarrow> s = segno \<and> b = off \<or> live sbi s b" for s b
    using s1(3,4) by (cases "s = segno") (auto simp: others_kept_def live_def)
  have fr1: "sit_frame sbi s1" using s1(3) by (simp add: others_kept_def)
  note F = sit_frameD [OF fr1]
  have old1: "osegno < TOTAL_SEGS s1" "ooff < sbi_blocks_per_seg s1" "live s1 osegno ooff"
    using old l1 by (auto simp: F)
  from update_sit_entry_del [OF s1(2) old1] obtain s2 where
    s2: "update_sit_entry E s1 (main_addr s1 osegno ooff) (- 1) = Some s2" "sit_ok E s2" "others_kept s1 s2 osegno"
      "\<And>b. live s2 osegno b \<longleftrightarrow> b \<noteq> ooff \<and> live s1 osegno b" by auto
  have l2: "live s2 s b \<longleftrightarrow> \<not> (s = osegno \<and> b = ooff) \<and> live s1 s b" for s b
    using s2(3,4) by (cases "s = osegno") (auto simp: others_kept_def live_def)
  have "osegno \<noteq> NULL_SEGNO" using old(1) TOTAL_SEGS_less [OF D(1)] by (auto simp: NULL_SEGNO_def)
  then have "refresh_sit_entry E sbi (main_addr sbi osegno ooff) (main_addr sbi segno off) = Some s2"
    using s1(1) s2(1) by (simp add: refresh_sit_entry_def F GET_SEGNO_main [OF D(1,2) old(1,2)])
  moreover have "sit_frame sbi s2" using fr1 s2(3) by (auto simp: others_kept_def intro: sit_frame_trans)
  moreover have "se_type (get_seg_entry s2 i) = se_type (get_seg_entry sbi i)" for i
    using s1(3) s2(3) unfolding others_kept_def by metis
  ultimately show ?thesis using s2(2) l1 l2 by auto
qed

end
