(* ===== verification/Free_Segmap.thy ===== *)
theory Free_Segmap
  imports Segment_Addr
begin

text \<open>
  The free-segment bitmap of \<open>segment.h\<close>: one bit per segment and one per section, set while
  it is in use, with the counters \<open>free_segments\<close> and \<open>free_sections\<close>.  The operations are
  \<open>__set_free\<close>, \<open>__set_inuse\<close>, \<open>__set_test_and_free\<close>, \<open>__set_test_and_inuse\<close>.
  The invariant \<open>free_ok\<close> says that the counters count the clear bits and that a section is in
  use exactly when one of its segments is; every operation keeps it.
\<close>

section \<open>Operations\<close>

definition find_next_inuse :: "f2fs_env \<Rightarrow> free_segmap_info \<Rightarrow> nat \<Rightarrow> nat \<Rightarrow> nat" where
  "find_next_inuse E free_i mx segno = find_next_bit E (fsm_free_segmap free_i) mx segno"

definition set_free :: "f2fs_env \<Rightarrow> f2fs_sb_info \<Rightarrow> nat \<Rightarrow> f2fs_sb_info" where
  "set_free E sbi segno =
    (let free_i = FREE_I sbi;
         secno = segno div sbi_segs_per_sec sbi;
         start_segno = u32 (secno * sbi_segs_per_sec sbi);
         free_i = free_i\<lparr>fsm_free_segmap := (fsm_free_segmap free_i)(segno := False),
                         fsm_free_segments := u32 (fsm_free_segments free_i + 1)\<rparr>;
         nxt = find_next_bit E (fsm_free_segmap free_i) (TOTAL_SEGS sbi) start_segno;
         free_i = (if u32 (start_segno + sbi_segs_per_sec sbi) \<le> nxt
                   then free_i\<lparr>fsm_free_secmap := (fsm_free_secmap free_i)(secno := False),
                               fsm_free_sections := u32 (fsm_free_sections free_i + 1)\<rparr>
                   else free_i)
     in set_FREE_I free_i sbi)"

definition set_inuse :: "f2fs_sb_info \<Rightarrow> nat \<Rightarrow> f2fs_sb_info" where
  "set_inuse sbi segno =
    (let free_i = FREE_I sbi;
         secno = segno div sbi_segs_per_sec sbi;
         free_i = free_i\<lparr>fsm_free_segmap := (fsm_free_segmap free_i)(segno := True),
                         fsm_free_segments := sub32 (fsm_free_segments free_i) 1\<rparr>;
         old = fsm_free_secmap free_i secno;
         free_i = free_i\<lparr>fsm_free_secmap := (fsm_free_secmap free_i)(secno := True)\<rparr>;
         free_i = (if \<not> old then free_i\<lparr>fsm_free_sections := sub32 (fsm_free_sections free_i) 1\<rparr>
                   else free_i)
     in set_FREE_I free_i sbi)"

definition set_test_and_free :: "f2fs_env \<Rightarrow> f2fs_sb_info \<Rightarrow> nat \<Rightarrow> f2fs_sb_info" where
  "set_test_and_free E sbi segno =
    (let free_i = FREE_I sbi;
         secno = segno div sbi_segs_per_sec sbi;
         start_segno = u32 (secno * sbi_segs_per_sec sbi);
         old = fsm_free_segmap free_i segno;
         free_i = free_i\<lparr>fsm_free_segmap := (fsm_free_segmap free_i)(segno := False)\<rparr>
     in if old then
          let free_i = free_i\<lparr>fsm_free_segments := u32 (fsm_free_segments free_i + 1)\<rparr>;
              nxt = find_next_bit E (fsm_free_segmap free_i) (TOTAL_SEGS sbi) start_segno
          in if u32 (start_segno + sbi_segs_per_sec sbi) \<le> nxt then
               let old_sec = fsm_free_secmap free_i secno;
                   free_i = free_i\<lparr>fsm_free_secmap := (fsm_free_secmap free_i)(secno := False)\<rparr>
               in if old_sec
                  then set_FREE_I (free_i\<lparr>fsm_free_sections := u32 (fsm_free_sections free_i + 1)\<rparr>) sbi
                  else set_FREE_I free_i sbi
             else set_FREE_I free_i sbi
        else set_FREE_I free_i sbi)"

definition set_test_and_inuse :: "f2fs_sb_info \<Rightarrow> nat \<Rightarrow> f2fs_sb_info" where
  "set_test_and_inuse sbi segno =
    (let free_i = FREE_I sbi;
         secno = segno div sbi_segs_per_sec sbi;
         old = fsm_free_segmap free_i segno;
         free_i = free_i\<lparr>fsm_free_segmap := (fsm_free_segmap free_i)(segno := True)\<rparr>
     in if \<not> old then
          let free_i = free_i\<lparr>fsm_free_segments := sub32 (fsm_free_segments free_i) 1\<rparr>;
              old_sec = fsm_free_secmap free_i secno;
              free_i = free_i\<lparr>fsm_free_secmap := (fsm_free_secmap free_i)(secno := True)\<rparr>
          in if \<not> old_sec
             then set_FREE_I (free_i\<lparr>fsm_free_sections := sub32 (fsm_free_sections free_i) 1\<rparr>) sbi
             else set_FREE_I free_i sbi
        else set_FREE_I free_i sbi)"

definition free_segments :: "f2fs_sb_info \<Rightarrow> nat" where
  "free_segments sbi = fsm_free_segments (FREE_I sbi)"

definition free_sections :: "f2fs_sb_info \<Rightarrow> nat" where
  "free_sections sbi = fsm_free_sections (FREE_I sbi)"

section \<open>The invariant\<close>

text \<open>A segment of the main area in use, and a section with such a segment.\<close>

definition seg_inuse :: "f2fs_sb_info \<Rightarrow> nat \<Rightarrow> bool" where
  "seg_inuse sbi segno \<longleftrightarrow> fsm_free_segmap (FREE_I sbi) segno"

definition sec_inuse :: "f2fs_sb_info \<Rightarrow> nat \<Rightarrow> bool" where
  "sec_inuse sbi secno \<longleftrightarrow> (\<exists>i<TOTAL_SEGS sbi. i div sbi_segs_per_sec sbi = secno \<and> seg_inuse sbi i)"

definition free_ok :: "f2fs_sb_info \<Rightarrow> bool" where
  "free_ok sbi \<longleftrightarrow>
     0 < sbi_segs_per_sec sbi \<and> TOTAL_SEGS sbi = TOTAL_SECS sbi * sbi_segs_per_sec sbi \<and>
     TOTAL_SEGS sbi < 2 ^ 32 \<and>
     free_segments sbi = count_clear (TOTAL_SEGS sbi) (fsm_free_segmap (FREE_I sbi)) \<and>
     free_sections sbi = count_clear (TOTAL_SECS sbi) (fsm_free_secmap (FREE_I sbi)) \<and>
     (\<forall>s<TOTAL_SECS sbi. fsm_free_secmap (FREE_I sbi) s \<longleftrightarrow> sec_inuse sbi s)"

lemma free_okD:
  assumes "free_ok sbi"
  shows "0 < sbi_segs_per_sec sbi" "TOTAL_SEGS sbi = TOTAL_SECS sbi * sbi_segs_per_sec sbi"
    "TOTAL_SEGS sbi < 2 ^ 32"
    "fsm_free_segments (FREE_I sbi) = count_clear (TOTAL_SEGS sbi) (fsm_free_segmap (FREE_I sbi))"
    "fsm_free_sections (FREE_I sbi) = count_clear (TOTAL_SECS sbi) (fsm_free_secmap (FREE_I sbi))"
    "s < TOTAL_SECS sbi \<Longrightarrow> fsm_free_secmap (FREE_I sbi) s \<longleftrightarrow> sec_inuse sbi s"
  using assms by (auto simp: free_ok_def free_segments_def free_sections_def seg_inuse_def)

lemma sec_bounds:
  assumes "free_ok sbi" and "segno < TOTAL_SEGS sbi"
  shows "segno div sbi_segs_per_sec sbi < TOTAL_SECS sbi"
    and "segno div sbi_segs_per_sec sbi * sbi_segs_per_sec sbi + sbi_segs_per_sec sbi \<le> TOTAL_SEGS sbi"
    and "TOTAL_SECS sbi \<le> TOTAL_SEGS sbi"
proof -
  let ?k = "sbi_segs_per_sec sbi" and ?s = "segno div sbi_segs_per_sec sbi"
  note k = free_okD(1) [OF assms(1)] and t = free_okD(2) [OF assms(1)]
  show s: "?s < TOTAL_SECS sbi" using assms(2) k unfolding t by (simp add: less_mult_imp_div_less)
  then have "Suc ?s * ?k \<le> TOTAL_SECS sbi * ?k" by (intro mult_le_mono1) simp
  then show "?s * ?k + ?k \<le> TOTAL_SEGS sbi" unfolding t by (simp add: add.commute)
  show "TOTAL_SECS sbi \<le> TOTAL_SEGS sbi" using k unfolding t by simp
qed

text \<open>The segments of a section are the ones from its start to its end.\<close>

lemma section_range: "0 < k \<Longrightarrow> s * k \<le> i \<and> i < s * k + k \<longleftrightarrow> i div k = (s :: nat)"
proof -
  assume k: "0 < k"
  have "s \<le> i div k \<longleftrightarrow> s * k \<le> i" using k by (rule less_eq_div_iff_mult_less_eq)
  moreover have "i div k < Suc s \<longleftrightarrow> i < Suc s * k" using k by (rule div_less_iff_less_mult)
  moreover have "Suc s * k = s * k + k" by simp
  ultimately show ?thesis by auto
qed

lemma scan_below:
  assumes "e \<le> sz"
  shows "scan P sz a < e \<longleftrightarrow> (\<exists>i. a \<le> i \<and> i < e \<and> P i)"
proof (rule scan_cases [of P sz a])
  assume "scan P sz a < sz" "a \<le> scan P sz a" "P (scan P sz a)"
    and less: "\<And>i. a \<le> i \<Longrightarrow> i < scan P sz a \<Longrightarrow> \<not> P i"
  then show ?thesis by (meson le_less_trans not_le)
qed (use assms in auto)

text \<open>The test of \<open>__set_free\<close> and \<open>__set_test_and_free\<close>: no segment of the section is in use.\<close>

lemma section_clear_iff:
  assumes "kernel_ok E" and "free_ok sbi" and "segno < TOTAL_SEGS sbi"
  defines "k \<equiv> sbi_segs_per_sec sbi"
  shows "u32 (u32 (segno div k * k) + k) \<le> find_next_bit E m (TOTAL_SEGS sbi) (u32 (segno div k * k))
    \<longleftrightarrow> (\<forall>i<TOTAL_SEGS sbi. i div k = segno div k \<longrightarrow> \<not> m i)"
proof -
  let ?s = "segno div k"
  have b: "?s * k + k \<le> TOTAL_SEGS sbi" and k: "0 < k"
    using sec_bounds(2) [OF assms(2,3)] free_okD(1) [OF assms(2)] by (auto simp: k_def)
  then have c: "?s * k < 2 ^ 32" "?s * k + k < 2 ^ 32" using free_okD(3) [OF assms(2)] by auto
  have "?s * k + k \<le> scan m (TOTAL_SEGS sbi) (?s * k) \<longleftrightarrow> \<not> (\<exists>i. ?s * k \<le> i \<and> i < ?s * k + k \<and> m i)"
    using scan_below [OF b, of m "?s * k"] by (simp only: not_less [symmetric])
  also have "\<dots> \<longleftrightarrow> (\<forall>i. i div k = ?s \<longrightarrow> \<not> m i)"
    using section_range [OF k, of ?s] by blast
  also have "\<dots> \<longleftrightarrow> (\<forall>i<TOTAL_SEGS sbi. i div k = ?s \<longrightarrow> \<not> m i)"
    using section_range [OF k, of ?s] b by (meson less_le_trans)
  finally show ?thesis
    unfolding u32_id [OF c(1)] u32_id [OF c(2)] find_next_bit_scan [OF assms(1)] .
qed

text \<open>What every operation must do to the two maps for the invariant to hold again.\<close>

lemma free_okI:
  assumes "free_ok sbi" and seg: "segno < TOTAL_SEGS sbi"
    and new: "fsm_free_segmap f = (fsm_free_segmap (FREE_I sbi))(segno := b)"
      "fsm_free_secmap f = (fsm_free_secmap (FREE_I sbi))(segno div sbi_segs_per_sec sbi := c)"
    and c: "c \<longleftrightarrow> (\<exists>i<TOTAL_SEGS sbi. i div sbi_segs_per_sec sbi = segno div sbi_segs_per_sec sbi
      \<and> fsm_free_segmap f i)"
    and counters: "fsm_free_segments f = count_clear (TOTAL_SEGS sbi) (fsm_free_segmap f)"
      "fsm_free_sections f = count_clear (TOTAL_SECS sbi) (fsm_free_secmap f)"
  shows "free_ok (set_FREE_I f sbi)"
proof -
  have "fsm_free_secmap f s \<longleftrightarrow> sec_inuse (set_FREE_I f sbi) s" if "s < TOTAL_SECS sbi" for s
  proof (cases "s = segno div sbi_segs_per_sec sbi")
    case True
    then show ?thesis using c by (simp add: new(2) sec_inuse_def seg_inuse_def)
  next
    case False
    then have "fsm_free_secmap f s \<longleftrightarrow> sec_inuse sbi s"
      using free_okD(6) [OF assms(1) that] by (simp add: new(2))
    also have "\<dots> \<longleftrightarrow> sec_inuse (set_FREE_I f sbi) s"
      using False by (auto simp: sec_inuse_def seg_inuse_def new(1))
    finally show ?thesis .
  qed
  then show ?thesis
    using free_okD(1-3) [OF assms(1)] counters
    by (simp add: free_ok_def free_segments_def free_sections_def seg_inuse_def)
qed

section \<open>Every operation keeps the invariant\<close>

lemma set_inuse_ok:
  assumes ok: "free_ok sbi" and seg: "segno < TOTAL_SEGS sbi" and free: "\<not> seg_inuse sbi segno"
  shows "free_ok (set_inuse sbi segno)"
proof -
  let ?f = "FREE_I sbi" and ?s = "segno div sbi_segs_per_sec sbi"
  note D = free_okD [OF ok] and b = sec_bounds [OF ok seg]
  have free': "\<not> fsm_free_segmap ?f segno" using free by (simp add: seg_inuse_def)
  have 1: "fsm_free_segments ?f < 2 ^ 32" "fsm_free_sections ?f < 2 ^ 32"
    using D(3) b(3) count_clear_le [of "TOTAL_SEGS sbi"] count_clear_le [of "TOTAL_SECS sbi"]
    unfolding D(4,5) by (meson le_less_trans)+
  have 2: "sub32 (fsm_free_segments ?f) 1 = count_clear (TOTAL_SEGS sbi) ((fsm_free_segmap ?f)(segno := True))"
    using count_clear_pos [where P = "fsm_free_segmap ?f", OF seg free'] 1(1) free' by (simp add: counts seg D(4) sub32_id)
  have 3: "sub32 (fsm_free_sections ?f) 1 = count_clear (TOTAL_SECS sbi) ((fsm_free_secmap ?f)(?s := True))"
    if "\<not> fsm_free_secmap ?f ?s"
    using count_clear_pos [OF b(1), of "fsm_free_secmap ?f"] 1(2) that by (simp add: counts b(1) D(5) sub32_id)
  have 4: "fsm_free_sections ?f = count_clear (TOTAL_SECS sbi) ((fsm_free_secmap ?f)(?s := True))"
    if "fsm_free_secmap ?f ?s"
    using that by (simp add: counts b(1) D(5))
  have e: "\<exists>i<TOTAL_SEGS sbi. i div sbi_segs_per_sec sbi = ?s \<and> ((fsm_free_segmap ?f)(segno := True)) i"
    using seg by (intro exI [of _ segno]) simp
  show ?thesis
    unfolding set_inuse_def Let_def
    by (rule free_okI [OF ok seg, where b = True and c = True])
      (use e 2 3 4 in \<open>simp_all del: fun_upd_apply\<close>)
qed

lemma set_test_and_inuse_eq:
  "set_test_and_inuse sbi segno = (if seg_inuse sbi segno then sbi else set_inuse sbi segno)"
proof -
  have "FREE_I sbi\<lparr>fsm_free_segmap := (fsm_free_segmap (FREE_I sbi))(segno := True)\<rparr> = FREE_I sbi"
    if "seg_inuse sbi segno"
    using that by (intro free_segmap_info.equality) (simp_all add: seg_inuse_def fun_upd_idem)
  moreover have "set_FREE_I (FREE_I sbi) sbi = sbi" by (simp add: setters accessors)
  ultimately show ?thesis by (auto simp: set_test_and_inuse_def set_inuse_def Let_def seg_inuse_def)
qed

lemma set_test_and_inuse_ok:
  "free_ok sbi \<Longrightarrow> segno < TOTAL_SEGS sbi \<Longrightarrow> free_ok (set_test_and_inuse sbi segno)"
  by (simp add: set_test_and_inuse_eq set_inuse_ok)

lemma set_free_ok:
  assumes K: "kernel_ok E" and ok: "free_ok sbi" and seg: "segno < TOTAL_SEGS sbi"
    and inuse: "seg_inuse sbi segno"
  shows "free_ok (set_free E sbi segno)"
proof -
  let ?f = "FREE_I sbi" and ?k = "sbi_segs_per_sec sbi"
  let ?s = "segno div ?k" and ?m = "(fsm_free_segmap (FREE_I sbi))(segno := False)"
  note D = free_okD [OF ok] and b = sec_bounds [OF ok seg]
  have inuse': "fsm_free_segmap ?f segno" using inuse by (simp add: seg_inuse_def)
  have used: "fsm_free_secmap ?f ?s"
    using D(6) [OF b(1)] seg inuse by (auto simp: sec_inuse_def)
  have c: "u32 (fsm_free_segments ?f + 1) = count_clear (TOTAL_SEGS sbi) ?m"
    "u32 (fsm_free_sections ?f + 1) = count_clear (TOTAL_SECS sbi) ((fsm_free_secmap ?f)(?s := False))"
    using count_clear_less [where P = "fsm_free_segmap ?f", OF seg inuse'] count_clear_less [where P = "fsm_free_secmap ?f", OF b(1) used] D(3) b(3) inuse' used
    unfolding D(4,5) by (simp_all add: counts seg b(1) u32_id)
  have clear: "u32 (u32 (?s * ?k) + ?k) \<le> find_next_bit E ?m (TOTAL_SEGS sbi) (u32 (?s * ?k))
      \<longleftrightarrow> (\<forall>i<TOTAL_SEGS sbi. i div ?k = ?s \<longrightarrow> \<not> ?m i)"
    by (rule section_clear_iff [OF K ok seg])
  show ?thesis
  proof (cases "\<forall>i<TOTAL_SEGS sbi. i div ?k = ?s \<longrightarrow> \<not> ?m i")
    case True
    then show ?thesis unfolding set_free_def Let_def
      by (intro free_okI [OF ok seg, where b = False and c = False])
        (use c True in \<open>simp_all add: clear del: fun_upd_apply\<close>)
  next
    case False
    then have t: "(fsm_free_secmap ?f)(?s := True) = fsm_free_secmap ?f" using used by (simp add: fun_upd_idem)
    from False show ?thesis unfolding set_free_def Let_def
      by (intro free_okI [OF ok seg, where b = False and c = True])
        (use c t D(5) in \<open>auto simp: clear simp del: fun_upd_apply\<close>)
  qed
qed

text \<open>On a segment in use the tested operation is the plain one, otherwise it does nothing.\<close>

lemma set_test_and_free_eq:
  assumes "free_ok sbi" and "segno < TOTAL_SEGS sbi"
  shows "set_test_and_free E sbi segno = (if seg_inuse sbi segno then set_free E sbi segno else sbi)"
proof (cases "seg_inuse sbi segno")
  case True
  have "fsm_free_secmap (FREE_I sbi) (segno div sbi_segs_per_sec sbi)"
    using free_okD(6) [OF assms(1) sec_bounds(1) [OF assms]] assms(2) True by (auto simp: sec_inuse_def)
  with True show ?thesis
    by (simp add: set_test_and_free_def set_free_def Let_def seg_inuse_def)
next
  case False
  have "FREE_I sbi\<lparr>fsm_free_segmap := (fsm_free_segmap (FREE_I sbi))(segno := False)\<rparr> = FREE_I sbi"
    using False by (intro free_segmap_info.equality) (simp_all add: seg_inuse_def fun_upd_idem)
  moreover have "set_FREE_I (FREE_I sbi) sbi = sbi" by (simp add: setters accessors)
  ultimately show ?thesis using False by (simp add: set_test_and_free_def Let_def seg_inuse_def)
qed

lemma set_test_and_free_ok:
  "kernel_ok E \<Longrightarrow> free_ok sbi \<Longrightarrow> segno < TOTAL_SEGS sbi \<Longrightarrow> free_ok (set_test_and_free E sbi segno)"
  by (simp add: set_test_and_free_eq set_free_ok)

text \<open>What the operations do to the set of segments in use.\<close>

lemma seg_inuse_ops [simp]:
  "seg_inuse (set_inuse sbi segno) i \<longleftrightarrow> i = segno \<or> seg_inuse sbi i"
  "seg_inuse (set_free E sbi segno) i \<longleftrightarrow> i \<noteq> segno \<and> seg_inuse sbi i"
  "seg_inuse (set_test_and_inuse sbi segno) i \<longleftrightarrow> i = segno \<or> seg_inuse sbi i"
  "seg_inuse (set_test_and_free E sbi segno) i \<longleftrightarrow> i \<noteq> segno \<and> seg_inuse sbi i"
  by (auto simp: set_inuse_def set_free_def set_test_and_inuse_def set_test_and_free_def seg_inuse_def Let_def)

text \<open>Each changes the free-segment information only, and not where it starts.\<close>

definition free_frame :: "f2fs_sb_info \<Rightarrow> f2fs_sb_info \<Rightarrow> bool" where
  "free_frame sbi sbi' \<longleftrightarrow> sbi' = set_FREE_I (FREE_I sbi') sbi
     \<and> fsm_start_segno (FREE_I sbi') = fsm_start_segno (FREE_I sbi)"

lemma free_frame_refl [simp]: "free_frame sbi sbi"
  by (simp add: free_frame_def setters accessors)

lemma free_frame_trans: "free_frame a b \<Longrightarrow> free_frame b c \<Longrightarrow> free_frame a c"
  unfolding free_frame_def by (metis set_FREE_I_frame)

lemma free_ops_frame [simp]:
  "free_frame sbi (set_inuse sbi segno)"
  "free_frame sbi (set_free E sbi segno)"
  "free_frame sbi (set_test_and_inuse sbi segno)"
  "free_frame sbi (set_test_and_free E sbi segno)"
  by (auto simp: free_frame_def set_inuse_def set_free_def set_test_and_inuse_def
      set_test_and_free_def Let_def)

lemma free_frameD:
  assumes "free_frame sbi sbi'"
  shows "TOTAL_SEGS sbi' = TOTAL_SEGS sbi" "TOTAL_SECS sbi' = TOTAL_SECS sbi"
    "sbi_segs_per_sec sbi' = sbi_segs_per_sec sbi" "sbi_secs_per_zone sbi' = sbi_secs_per_zone sbi"
    "SIT_I sbi' = SIT_I sbi" "DIRTY_I sbi' = DIRTY_I sbi" "CURSEG_I sbi' = CURSEG_I sbi"
    "geometry sbi' = geometry sbi" "START_BLOCK sbi' = START_BLOCK sbi" "GET_SEGNO E sbi' = GET_SEGNO E sbi"
proof -
  obtain f where f: "sbi' = set_FREE_I f sbi" "fsm_start_segno f = fsm_start_segno (FREE_I sbi)"
    using assms unfolding free_frame_def by (metis set_FREE_I_frame)
  show "TOTAL_SEGS sbi' = TOTAL_SEGS sbi" "TOTAL_SECS sbi' = TOTAL_SECS sbi"
    "sbi_segs_per_sec sbi' = sbi_segs_per_sec sbi" "sbi_secs_per_zone sbi' = sbi_secs_per_zone sbi"
    "SIT_I sbi' = SIT_I sbi" "DIRTY_I sbi' = DIRTY_I sbi" "CURSEG_I sbi' = CURSEG_I sbi"
    by (simp_all add: f(1))
  show "geometry sbi' = geometry sbi" "START_BLOCK sbi' = START_BLOCK sbi"
    "GET_SEGNO E sbi' = GET_SEGNO E sbi"
    using f(2) by (simp_all add: f(1) geometry_def START_BLOCK_def GET_R2L_SEGNO_def GET_SEGNO_def
        GET_L2R_SEGNO_def fun_eq_iff)
qed

end
