(* ===== verification/Rev_Search.thy ===== *)
theory Rev_Search
  imports F2fs_Bits
begin

text \<open>
  \<open>segment.c\<close>: the searches for the next set or clear bit of a validity map in the bit
  order of \<open>f2fs_set_bit\<close> (bit 0 of a byte is its most significant bit), one 64-bit
  word at a time.  A word list is the map read through \<open>unsigned long *\<close> on a
  little-endian machine.
\<close>

section \<open>The map as machine words\<close>

definition BITS_PER_LONG :: nat where "BITS_PER_LONG = 64"

fun le_long :: "8 word list \<Rightarrow> 64 word" where
  "le_long [] = 0"
| "le_long (b # bs) = push_bit 8 (le_long bs) OR ucast b"

definition longs :: "8 word list \<Rightarrow> 64 word list" where
  "longs m = map (\<lambda>i. le_long (take 8 (drop (8 * i) m))) [0..<length m div 8]"

text \<open>Where bit \<open>i\<close> of the map sits inside its word, and the map a word list stands for.\<close>

definition rpos :: "nat \<Rightarrow> nat" where "rpos i = 8 * (i div 8) + (7 - i mod 8)"

definition rev_bit :: "64 word list \<Rightarrow> nat \<Rightarrow> bool" where
  "rev_bit ws i \<longleftrightarrow> bit (ws ! (i div 64)) (rpos (i mod 64))"

lemma rpos_div_mod: "rpos i div 8 = i div 8" "rpos i mod 8 = 7 - i mod 8"
proof -
  have *: "(8 * q + k) div 8 = q \<and> (8 * q + k) mod 8 = k" if "k < 8" for q k :: nat
    using that by simp
  from * [of "7 - i mod 8" "i div 8"] show "rpos i div 8 = i div 8" "rpos i mod 8 = 7 - i mod 8"
    unfolding rpos_def by auto
qed

lemma rpos_less: "i < 8 * k \<Longrightarrow> rpos i < 8 * k"
proof -
  assume "i < 8 * k"
  then have "i div 8 < k" by (simp add: less_mult_imp_div_less mult.commute)
  then have "8 * (i div 8) + 8 \<le> 8 * k" by simp
  then show ?thesis by (simp add: rpos_def)
qed

lemma bit_le_long: "n < 64 \<Longrightarrow> bit (le_long bs) n \<longleftrightarrow> n div 8 < length bs \<and> bit (bs ! (n div 8)) (n mod 8)"
proof (induction bs arbitrary: n)
  case Nil
  then show ?case by simp
next
  case (Cons b bs)
  show ?case
  proof (cases "n < 8")
    case True
    then show ?thesis using Cons.prems by (simp add: bit_or_iff bit_push_bit_iff bit_ucast_iff)
  next
    case False
    then have n: "n div 8 = Suc ((n - 8) div 8)" "n mod 8 = (n - 8) mod 8"
      by (simp_all add: div_if mod_if)
    have "\<not> bit (ucast b :: 64 word) n"
      using False bit_imp_le_length [of b n] by (auto simp: bit_ucast_iff)
    then show ?thesis
      using False Cons.prems Cons.IH [of "n - 8"] n by (simp add: bit_or_iff bit_push_bit_iff)
  qed
qed

lemma rev_bit_longs:
  assumes "i < 8 * length m" and "8 dvd length m"
  shows "rev_bit (longs m) i \<longleftrightarrow> f2fs_test_bit i m"
proof -
  let ?w = "i div 64" and ?r = "i mod 64"
  have "8 * (length m div 8) = length m" using assms(2) by simp
  then have w: "?w < length m div 8" using assms(1) by (simp add: less_mult_imp_div_less)
  then have len: "8 * ?w + 8 \<le> length m" by linarith
  have r: "rpos ?r < 64" using rpos_less [of ?r 8] by simp
  note d = rpos_div_mod [of ?r]
  have rd: "?r div 8 < 8" by (simp add: less_mult_imp_div_less)
  have "i = ?r + (8 * ?w) * 8" by simp
  then have e: "8 * ?w + ?r div 8 = i div 8" "?r mod 8 = i mod 8"
    by (metis div_mult_self1 zero_neq_numeral) (simp add: mod_mod_cancel)
  have "?r div 8 < length m - 8 * ?w" using len rd by linarith
  then show ?thesis using w len r d rd e
    by (simp add: rev_bit_def longs_def bit_le_long f2fs_test_bit_iff)
qed

section \<open>\<open>__reverse_ffs\<close>\<close>

definition reverse_ffs :: "64 word \<Rightarrow> nat" where
  "reverse_ffs w0 =
    (let (num, w) = (if w0 AND 0xffffffff = 0 then (32, drop_bit 32 w0) else (0, w0));
         (num, w) = (if w AND 0xffff = 0 then (num + 16, drop_bit 16 w) else (num, w));
         (num, w) = (if w AND 0xff = 0 then (num + 8, drop_bit 8 w) else (num, w));
         (num, w) = (if w AND 0xf0 = 0 then (num + 4, w) else (num, drop_bit 4 w));
         (num, w) = (if w AND 0xc = 0 then (num + 2, w) else (num, drop_bit 2 w))
     in if w AND 0x2 = 0 then num + 1 else num)"

text \<open>The last three steps: the highest set bit of a nonzero low byte.\<close>

definition top_of_byte :: "64 word \<Rightarrow> nat" where
  "top_of_byte w =
    (let (num, w) = (if w AND 0xf0 = 0 then (4, w) else (0, drop_bit 4 w));
         (num, w) = (if w AND 0xc = 0 then (num + 2, w) else (num, drop_bit 2 w))
     in if w AND 0x2 = 0 then num + 1 else num)"

lemma and_shifted_mask_zero:
  "(w :: 64 word) AND push_bit i (mask k) = 0 \<longleftrightarrow> (\<forall>j. i \<le> j \<and> j < i + k \<and> j < 64 \<longrightarrow> \<not> bit w j)"
  unfolding bit_eq_iff [of "w AND _" 0]
  by (auto simp: bit_and_iff bit_push_bit_iff bit_mask_iff)

lemma and_consts:
  "(w :: 64 word) AND 0xffffffff = 0 \<longleftrightarrow> (\<forall>j<32. \<not> bit w j)"
  "(w :: 64 word) AND 0xffff = 0 \<longleftrightarrow> (\<forall>j<16. \<not> bit w j)"
  "(w :: 64 word) AND 0xff = 0 \<longleftrightarrow> (\<forall>j<8. \<not> bit w j)"
  using and_shifted_mask_zero [of w 0 32] and_shifted_mask_zero [of w 0 16]
    and_shifted_mask_zero [of w 0 8] by (auto simp: mask_eq_exp_minus_1)

lemma and_nibbles:
  "(w :: 64 word) AND 0xf0 = 0 \<longleftrightarrow> \<not> bit w 4 \<and> \<not> bit w 5 \<and> \<not> bit w 6 \<and> \<not> bit w 7"
  "(w :: 64 word) AND 0xc = 0 \<longleftrightarrow> \<not> bit w 2 \<and> \<not> bit w 3"
  "(w :: 64 word) AND 0x2 = 0 \<longleftrightarrow> \<not> bit w 1"
proof -
  have *: "(\<forall>j. a \<le> j \<and> j < a + b \<and> j < 64 \<longrightarrow> \<not> bit w j) \<longleftrightarrow> (\<forall>j \<in> set [a..<a+b]. j < 64 \<longrightarrow> \<not> bit w j)" for a b
    by auto
  show "w AND 0xf0 = 0 \<longleftrightarrow> \<not> bit w 4 \<and> \<not> bit w 5 \<and> \<not> bit w 6 \<and> \<not> bit w 7"
    using and_shifted_mask_zero [of w 4 4] unfolding *
    by (simp add: mask_eq_exp_minus_1 push_bit_eq_mult upt_rec)
  show "w AND 0xc = 0 \<longleftrightarrow> \<not> bit w 2 \<and> \<not> bit w 3"
    using and_shifted_mask_zero [of w 2 2] unfolding *
    by (simp add: mask_eq_exp_minus_1 push_bit_eq_mult upt_rec)
  show "w AND 0x2 = 0 \<longleftrightarrow> \<not> bit w 1"
    using and_shifted_mask_zero [of w 1 1] unfolding *
    by (simp add: mask_eq_exp_minus_1 push_bit_eq_mult upt_rec)
qed

text \<open>The first three steps: skip the zero bytes.\<close>

definition ffs_half :: "nat \<Rightarrow> nat \<times> 64 word \<Rightarrow> nat \<times> 64 word" where
  "ffs_half k = (\<lambda>(num, w). if w AND mask k = 0 then (num + k, drop_bit k w) else (num, w))"

definition ffs_inv :: "64 word \<Rightarrow> nat \<Rightarrow> nat \<times> 64 word \<Rightarrow> bool" where
  "ffs_inv w0 k = (\<lambda>(num, w). w = drop_bit num w0 \<and> (\<forall>j<num. \<not> bit w0 j) \<and> (\<exists>j<k. bit w j)
     \<and> num + k \<le> 64 \<and> 8 dvd num)"

lemma ffs_half_inv:
  assumes "ffs_inv w0 (2 * k) nw" and "8 dvd k"
  shows "ffs_inv w0 k (ffs_half k nw)"
proof -
  obtain num w where nw: "nw = (num, w)" by fastforce
  from assms(1) have w: "w = drop_bit num w0" and z: "\<And>j. j < num \<Longrightarrow> \<not> bit w0 j"
    and b: "num + 2 * k \<le> 64" and d: "8 dvd num" and e: "\<exists>j<2 * k. bit w j"
    by (auto simp: nw ffs_inv_def)
  have m: "w AND mask k = 0 \<longleftrightarrow> (\<forall>j<k. \<not> bit w j)"
    using and_shifted_mask_zero [of w 0 k] b by auto
  show ?thesis
  proof (cases "w AND mask k = 0")
    case True
    with m have zk: "\<And>j. j < k \<Longrightarrow> \<not> bit w j" by simp
    from e obtain j where j: "j < 2 * k" "bit w j" by blast
    with zk have "k \<le> j" by (auto simp: not_less [symmetric])
    with j have "j - k < k" "bit (drop_bit k w) (j - k)"
      by (auto simp: bit_drop_bit_eq)
    moreover have "\<not> bit w0 j" if "j < num + k" for j
    proof (cases "j < num")
      case False
      then show ?thesis using zk [of "j - num"] that by (simp add: w bit_drop_bit_eq)
    qed (rule z)
    ultimately show ?thesis using True b d assms(2)
      by (auto simp: nw ffs_half_def ffs_inv_def w add.commute)
  next
    case False
    then show ?thesis using m w z b d by (auto simp: nw ffs_half_def ffs_inv_def)
  qed
qed

lemma reverse_ffs_steps:
  "reverse_ffs w0 = (let (num, w) = ffs_half 8 (ffs_half 16 (ffs_half 32 (0, w0))) in num + top_of_byte w)"
proof -
  have m: "mask 32 = (0xffffffff :: 64 word)" "mask 16 = (0xffff :: 64 word)" "mask 8 = (0xff :: 64 word)"
    by (simp_all add: mask_eq_exp_minus_1)
  obtain n1 w1 where 1: "ffs_half 32 (0, w0) = (n1, w1)" by fastforce
  obtain n2 w2 where 2: "ffs_half 16 (n1, w1) = (n2, w2)" by fastforce
  obtain n3 w3 where 3: "ffs_half 8 (n2, w2) = (n3, w3)" by fastforce
  have a: "(if w0 AND 0xffffffff = 0 then (32, drop_bit 32 w0) else (0, w0)) = (n1, w1)"
    "(if w1 AND 0xffff = 0 then (n1 + 16, drop_bit 16 w1) else (n1, w1)) = (n2, w2)"
    "(if w2 AND 0xff = 0 then (n2 + 8, drop_bit 8 w2) else (n2, w2)) = (n3, w3)"
    using 1 2 3 by (auto simp: ffs_half_def m split: if_splits)
  show ?thesis
    unfolding reverse_ffs_def a top_of_byte_def 1 2 3 Let_def case_prod_conv
    by (simp add: add.assoc)
qed

lemma top_of_byte:
  assumes "\<exists>j<8. bit w j"
  shows "top_of_byte w < 8 \<and> bit w (7 - top_of_byte w)
    \<and> (\<forall>j. 7 - top_of_byte w < j \<and> j < 8 \<longrightarrow> \<not> bit w j)"
proof -
  have less8: "j < 8 \<longleftrightarrow> j = 0 \<or> j = 1 \<or> j = 2 \<or> j = 3 \<or> j = 4 \<or> j = 5 \<or> j = 6 \<or> j = 7" for j :: nat
    by arith
  from assms consider "bit w 7" | "\<not> bit w 7" "bit w 6" | "\<not> bit w 7" "\<not> bit w 6" "bit w 5"
    | "\<not> bit w 7" "\<not> bit w 6" "\<not> bit w 5" "bit w 4"
    | "\<not> bit w 7" "\<not> bit w 6" "\<not> bit w 5" "\<not> bit w 4" "bit w 3"
    | "\<not> bit w 7" "\<not> bit w 6" "\<not> bit w 5" "\<not> bit w 4" "\<not> bit w 3" "bit w 2"
    | "\<not> bit w 7" "\<not> bit w 6" "\<not> bit w 5" "\<not> bit w 4" "\<not> bit w 3" "\<not> bit w 2" "bit w 1"
    | "\<not> bit w 7" "\<not> bit w 6" "\<not> bit w 5" "\<not> bit w 4" "\<not> bit w 3" "\<not> bit w 2" "\<not> bit w 1" "bit w 0"
    unfolding less8 by blast
  then show ?thesis
    by cases (auto simp: top_of_byte_def and_nibbles bit_drop_bit_eq less8)
qed

text \<open>\<open>__reverse_ffs\<close> finds the first bit of a nonzero word, in the order of the map.\<close>

lemma reverse_ffs:
  assumes "w0 \<noteq> 0"
  shows "reverse_ffs w0 < 64 \<and> bit w0 (rpos (reverse_ffs w0))
    \<and> (\<forall>j < reverse_ffs w0. \<not> bit w0 (rpos j))"
proof -
  obtain num w where nw: "ffs_half 8 (ffs_half 16 (ffs_half 32 (0, w0))) = (num, w)" by fastforce
  have "\<exists>j<64. bit w0 j"
    using assms bit_eq_iff [of w0 0] by (auto simp: dest: bit_imp_le_length)
  then have "ffs_inv w0 (2 * 32) (0, w0)" by (simp add: ffs_inv_def)
  then have "ffs_inv w0 32 (ffs_half 32 (0, w0))" by (rule ffs_half_inv) simp
  then have "ffs_inv w0 16 (ffs_half 16 (ffs_half 32 (0, w0)))" by (intro ffs_half_inv) simp_all
  then have "ffs_inv w0 8 (num, w)" unfolding nw [symmetric] by (intro ffs_half_inv) simp_all
  then have w: "w = drop_bit num w0" and z: "\<And>j. j < num \<Longrightarrow> \<not> bit w0 j" and e: "\<exists>j<8. bit w j"
    and b: "num + 8 \<le> 64" and d: "8 dvd num" by (auto simp: ffs_inv_def)
  let ?t = "top_of_byte w"
  have t: "?t < 8" "bit w (7 - ?t)" "\<And>j. 7 - ?t < j \<Longrightarrow> j < 8 \<Longrightarrow> \<not> bit w j"
    using top_of_byte [OF e] by auto
  have r: "reverse_ffs w0 = num + ?t" by (simp add: reverse_ffs_steps nw)
  have pos: "rpos (num + s) = num + (7 - s)" if "s < 8" for s
    using d that by (auto simp: rpos_def dvd_def)
  have bits: "bit w0 (num + s) = bit w s" for s by (simp add: w bit_drop_bit_eq)
  have "\<not> bit w0 (rpos j)" if j: "j < num + ?t" for j
  proof (cases "j < num")
    case True
    then have "rpos j < num" using d rpos_less by (auto simp: dvd_def)
    then show ?thesis by (rule z)
  next
    case False
    then obtain s where s: "j = num + s" "s < ?t" using j by (metis le_add_diff_inverse not_less nat_add_left_cancel_less)
    then have "\<not> bit w (7 - s)" using t(1) by (intro t(3)) simp_all
    moreover have "rpos j = num + (7 - s)" using s t(1) by (simp only: pos [OF less_trans])
    ultimately show ?thesis by (simp only: bits not_False_eq_True)
  qed
  moreover have "bit w0 (rpos (num + ?t))" by (simp only: pos [OF t(1)] bits t(2))
  ultimately show ?thesis using r t(1) b by simp
qed

section \<open>The searches\<close>

text \<open>
  The labels \<open>found_first\<close>, \<open>found_middle\<close> and \<open>aligned\<close> of the C functions are
  definitions; \<open>p\<close> is the index of the word the C pointer \<open>p\<close> is at.
  \<open>size & ~(BITS_PER_LONG-1)\<close> is nonzero when \<open>BITS_PER_LONG \<le> size\<close>.
\<close>

definition found_first :: "nat \<Rightarrow> nat \<Rightarrow> 64 word \<Rightarrow> nat" where
  "found_first result sz tmp =
     (let tmp = tmp AND drop_bit (BITS_PER_LONG - sz) (NOT 0)
      in if tmp = 0 then result + sz else result + reverse_ffs tmp)"

function find_rev_aligned :: "64 word list \<Rightarrow> nat \<Rightarrow> nat \<Rightarrow> nat \<Rightarrow> nat" where
  "find_rev_aligned addr p result sz =
     (if BITS_PER_LONG \<le> sz then
        let tmp = addr ! p
        in if tmp \<noteq> 0 then result + reverse_ffs tmp
           else find_rev_aligned addr (p + 1) (result + BITS_PER_LONG) (sz - BITS_PER_LONG)
      else if sz = 0 then result
      else found_first result sz (addr ! p))"
  by pat_completeness auto
termination by (relation "measure (\<lambda>(_, _, _, sz). sz)") (auto simp: BITS_PER_LONG_def)

definition find_rev_next_bit :: "64 word list \<Rightarrow> nat \<Rightarrow> nat \<Rightarrow> nat" where
  "find_rev_next_bit addr sz offset =
     (let p = offset div BITS_PER_LONG; result = offset - offset mod BITS_PER_LONG
      in if sz \<le> offset then sz
         else
           let sz = sz - result; offset = offset mod BITS_PER_LONG
           in if offset = 0 then find_rev_aligned addr p result sz
              else
                let tmp = addr ! p;
                    quot = offset div 8 * 8;
                    rest = offset mod 8;
                    mask = push_bit quot (NOT 0) :: 64 word;
                    submask = ucast (drop_bit rest (ucast (push_bit rest (0xff :: 32 word)) :: 8 word)) :: 64 word;
                    submask = push_bit quot submask;
                    mask = mask AND submask;
                    tmp = tmp AND mask
                in if sz < BITS_PER_LONG then found_first result sz tmp
                   else if tmp \<noteq> 0 then result + reverse_ffs tmp
                   else find_rev_aligned addr (p + 1) (result + BITS_PER_LONG) (sz - BITS_PER_LONG))"

definition found_first_zero :: "nat \<Rightarrow> nat \<Rightarrow> 64 word \<Rightarrow> nat" where
  "found_first_zero result sz tmp =
     (let tmp = tmp OR push_bit sz (NOT 0)
      in if tmp = NOT 0 then result + sz else result + reverse_ffs (NOT tmp))"

function find_rev_zero_aligned :: "64 word list \<Rightarrow> nat \<Rightarrow> nat \<Rightarrow> nat \<Rightarrow> nat" where
  "find_rev_zero_aligned addr p result sz =
     (if BITS_PER_LONG \<le> sz then
        let tmp = addr ! p
        in if NOT tmp \<noteq> 0 then result + reverse_ffs (NOT tmp)
           else find_rev_zero_aligned addr (p + 1) (result + BITS_PER_LONG) (sz - BITS_PER_LONG)
      else if sz = 0 then result
      else found_first_zero result sz (addr ! p))"
  by pat_completeness auto
termination by (relation "measure (\<lambda>(_, _, _, sz). sz)") (auto simp: BITS_PER_LONG_def)

definition find_rev_next_zero_bit :: "64 word list \<Rightarrow> nat \<Rightarrow> nat \<Rightarrow> nat" where
  "find_rev_next_zero_bit addr sz offset =
     (let p = offset div BITS_PER_LONG; result = offset - offset mod BITS_PER_LONG
      in if sz \<le> offset then sz
         else
           let sz = sz - result; offset = offset mod BITS_PER_LONG
           in if offset = 0 then find_rev_zero_aligned addr p result sz
              else
                let tmp = addr ! p;
                    quot = offset div 8 * 8;
                    rest = offset mod 8;
                    mask = NOT (push_bit quot (NOT 0)) :: 64 word;
                    submask = ucast (NOT (drop_bit rest (ucast (push_bit rest (0xff :: 32 word)) :: 8 word))) :: 64 word;
                    submask = push_bit quot submask;
                    mask = mask + submask;
                    tmp = tmp OR mask
                in if sz < BITS_PER_LONG then found_first_zero result sz tmp
                   else if NOT tmp \<noteq> 0 then result + reverse_ffs (NOT tmp)
                   else find_rev_zero_aligned addr (p + 1) (result + BITS_PER_LONG) (sz - BITS_PER_LONG))"

declare find_rev_aligned.simps [simp del] find_rev_zero_aligned.simps [simp del]

subsection \<open>One word\<close>

lemma rpos_rpos: "i < 64 \<Longrightarrow> rpos (rpos i) = i"
  using rpos_div_mod [of i] by (simp add: rpos_def [of "rpos i"])

lemma rpos_less64 [simp]: "i < 64 \<Longrightarrow> rpos i < 64"
  using rpos_less [of i 8] by simp

lemma rpos_mult: "8 dvd n \<Longrightarrow> rpos i < n \<longleftrightarrow> i < n"
proof -
  assume "8 dvd n"
  then obtain k where k: "n = 8 * k" by (auto simp: dvd_def)
  have "rpos i < 8 * k \<longleftrightarrow> i div 8 < k" using rpos_div_mod(1) [of i] by (metis div_less_iff_less_mult mult.commute zero_less_numeral)
  also have "\<dots> \<longleftrightarrow> i < 8 * k" by (simp add: div_less_iff_less_mult mult.commute)
  finally show ?thesis by (simp add: k)
qed

lemma word_zero_rpos: "(w :: 64 word) = 0 \<longleftrightarrow> (\<forall>j<64. \<not> bit w (rpos j))"
proof -
  have "w = 0" if "\<forall>j<64. \<not> bit w (rpos j)"
  proof (rule bit_word_eqI)
    fix n
    assume "n < LENGTH(64)"
    then have "n < 64" by simp
    then have "\<not> bit w n" using that rpos_rpos [of n] rpos_less64 [of n] by metis
    then show "bit w n = bit 0 n" by simp
  qed
  then show ?thesis by auto
qed

text \<open>A word whose bits, read in map order, are \<open>Q\<close>.\<close>

lemma word_scan:
  assumes "\<And>j. j < 64 \<Longrightarrow> bit w (rpos j) \<longleftrightarrow> Q j"
  shows "w \<noteq> 0 \<Longrightarrow> reverse_ffs w < 64 \<and> Q (reverse_ffs w) \<and> (\<forall>j < reverse_ffs w. \<not> Q j)"
    and "w = 0 \<longleftrightarrow> (\<forall>j<64. \<not> Q j)"
proof -
  show "w = 0 \<longleftrightarrow> (\<forall>j<64. \<not> Q j)" using assms by (auto simp: word_zero_rpos)
  assume "w \<noteq> 0"
  from reverse_ffs [OF this] show "reverse_ffs w < 64 \<and> Q (reverse_ffs w) \<and> (\<forall>j < reverse_ffs w. \<not> Q j)"
    using assms by (metis less_trans)
qed

lemma rev_bit_word: "j < 64 \<Longrightarrow> rev_bit addr (64 * p + j) \<longleftrightarrow> bit (addr ! p) (rpos j)"
  by (simp add: rev_bit_def)

lemma found_first:
  assumes "8 dvd sz" and "sz < 64" and tmp: "\<And>j. j < 64 \<Longrightarrow> bit tmp (rpos j) \<longleftrightarrow> Q j"
  shows "found_first r sz tmp = r + scan Q sz 0"
proof -
  let ?w = "tmp AND drop_bit (64 - sz) (NOT 0)"
  have w: "bit ?w (rpos j) \<longleftrightarrow> Q j \<and> j < sz" if "j < 64" for j
    using that tmp [OF that] assms(2) rpos_mult [OF assms(1), of j]
    by (auto simp: bit_and_iff bit_drop_bit_eq bit_not_iff bit_mask_iff)
  show ?thesis
  proof (cases "?w = 0")
    case True
    then have "\<And>j. j < sz \<Longrightarrow> \<not> Q j"
      using word_scan(2) [of ?w "\<lambda>j. Q j \<and> j < sz", OF w] assms(2) by (meson less_trans)
    then have "scan Q sz 0 = sz" by (intro scan_none) auto
    with True show ?thesis by (simp add: found_first_def BITS_PER_LONG_def)
  next
    case False
    from word_scan(1) [of ?w, OF w False] assms(2)
    have "scan Q sz 0 = reverse_ffs ?w" by (intro scan_eqI) auto
    with False show ?thesis by (simp add: found_first_def BITS_PER_LONG_def)
  qed
qed

lemma found_first_zero:
  assumes "8 dvd sz" and "sz < 64" and tmp: "\<And>j. j < 64 \<Longrightarrow> bit tmp (rpos j) \<longleftrightarrow> \<not> Q j"
  shows "found_first_zero r sz tmp = r + scan Q sz 0"
proof -
  let ?w = "NOT (tmp OR push_bit sz (NOT 0))"
  have w: "bit ?w (rpos j) \<longleftrightarrow> Q j \<and> j < sz" if "j < 64" for j
    using that tmp [OF that] assms(2) rpos_mult [OF assms(1), of j]
    by (auto simp: bit_and_iff bit_or_iff bit_push_bit_iff bit_not_iff bit_mask_iff)
  have z: "tmp OR push_bit sz (NOT 0) = NOT 0 \<longleftrightarrow> ?w = 0"
    by (metis bit.double_compl)
  show ?thesis
  proof (cases "?w = 0")
    case True
    then have "\<And>j. j < sz \<Longrightarrow> \<not> Q j"
      using word_scan(2) [of ?w "\<lambda>j. Q j \<and> j < sz", OF w] assms(2) by (meson less_trans)
    then have "scan Q sz 0 = sz" by (intro scan_none) auto
    moreover have "tmp OR push_bit sz (NOT 0) = NOT 0" using True z by blast
    ultimately show ?thesis by (simp only: found_first_zero_def Let_def simp_thms if_True)
  next
    case False
    from word_scan(1) [of ?w, OF w False] assms(2)
    have "scan Q sz 0 = reverse_ffs ?w" by (intro scan_eqI) auto
    moreover have "tmp OR push_bit sz (NOT 0) \<noteq> NOT 0" using False z by blast
    ultimately show ?thesis by (simp only: found_first_zero_def Let_def simp_thms if_False)
  qed
qed

text \<open>A whole word of the map: either it holds the hit, or the search moves to the next word.\<close>

lemma scan_word:
  assumes w: "\<And>j. j < 64 \<Longrightarrow> bit w (rpos j) \<longleftrightarrow> P (r + j)" and "64 \<le> n"
  shows "w \<noteq> 0 \<Longrightarrow> scan P (r + n) r = r + reverse_ffs w"
    and "w = 0 \<Longrightarrow> scan P (r + n) r = scan P (r + n) (r + 64)"
proof -
  assume "w \<noteq> 0"
  from word_scan(1) [of w "\<lambda>j. P (r + j)", OF w this]
  have h: "reverse_ffs w < 64" "P (r + reverse_ffs w)" "\<And>j. j < reverse_ffs w \<Longrightarrow> \<not> P (r + j)" by auto
  show "scan P (r + n) r = r + reverse_ffs w"
  proof (rule scan_eqI)
    fix i
    assume "r \<le> i" "i < r + reverse_ffs w"
    then show "\<not> P i" using h(3) [of "i - r"] by simp
  qed (use h assms(2) in auto)
next
  assume "w = 0"
  with word_scan(2) [of w "\<lambda>j. P (r + j)", OF w] have z: "\<And>j. j < 64 \<Longrightarrow> \<not> P (r + j)" by auto
  show "scan P (r + n) r = scan P (r + n) (r + 64)"
  proof (rule scan_from)
    fix i
    assume "r \<le> i" "i < r + 64"
    then show "\<not> P i" using z [of "i - r"] by simp
  qed (use assms(2) in auto)
qed

lemma find_rev_aligned:
  "8 dvd sz \<Longrightarrow> find_rev_aligned addr p (64 * p) sz = scan (rev_bit addr) (64 * p + sz) (64 * p)"
proof (induction sz arbitrary: p rule: less_induct)
  case (less sz)
  have w: "\<And>j. j < 64 \<Longrightarrow> bit (addr ! p) (rpos j) \<longleftrightarrow> rev_bit addr (64 * p + j)"
    by (simp add: rev_bit_word)
  consider "64 \<le> sz" "addr ! p \<noteq> 0" | "64 \<le> sz" "addr ! p = 0" | "sz = 0" | "0 < sz" "sz < 64"
    by linarith
  then show ?case
  proof cases
    case 1
    then show ?thesis using scan_word(1) [of "addr ! p" "rev_bit addr", OF w]
      by (simp add: find_rev_aligned.simps BITS_PER_LONG_def)
  next
    case 2
    have "8 dvd sz - 64" using less.prems 2(1) by (intro dvd_diff_nat) auto
    then have "find_rev_aligned addr (p + 1) (64 * (p + 1)) (sz - 64) =
        scan (rev_bit addr) (64 * (p + 1) + (sz - 64)) (64 * (p + 1))"
      using 2(1) by (intro less.IH) auto
    with 2 show ?thesis using scan_word(2) [of "addr ! p" "rev_bit addr" "64 * p" sz, OF w]
      by (simp add: find_rev_aligned.simps [of addr p] BITS_PER_LONG_def add.commute)
  next
    case 3
    then show ?thesis by (simp add: find_rev_aligned.simps scan_def BITS_PER_LONG_def)
  next
    case 4
    then show ?thesis
      using found_first [OF less.prems _ w, of "64 * p"] scan_shift [of "rev_bit addr" "64 * p" sz 0]
      by (simp add: find_rev_aligned.simps BITS_PER_LONG_def)
  qed
qed

lemma find_rev_zero_aligned:
  "8 dvd sz \<Longrightarrow> find_rev_zero_aligned addr p (64 * p) sz =
     scan (\<lambda>i. \<not> rev_bit addr i) (64 * p + sz) (64 * p)"
proof (induction sz arbitrary: p rule: less_induct)
  case (less sz)
  let ?P = "\<lambda>i. \<not> rev_bit addr i"
  have w: "\<And>j. j < 64 \<Longrightarrow> bit (addr ! p) (rpos j) \<longleftrightarrow> \<not> ?P (64 * p + j)"
    by (simp add: rev_bit_word)
  then have nw: "\<And>j. j < 64 \<Longrightarrow> bit (NOT (addr ! p)) (rpos j) \<longleftrightarrow> ?P (64 * p + j)"
    by (simp add: bit_not_iff)
  consider "64 \<le> sz" "NOT (addr ! p) \<noteq> 0" | "64 \<le> sz" "NOT (addr ! p) = 0" | "sz = 0" | "0 < sz" "sz < 64"
    by linarith
  then show ?case
  proof cases
    case 1
    then show ?thesis using scan_word(1) [of "NOT (addr ! p)" ?P, OF nw]
      by (simp add: find_rev_zero_aligned.simps BITS_PER_LONG_def)
  next
    case 2
    have "8 dvd sz - 64" using less.prems 2(1) by (intro dvd_diff_nat) auto
    then have "find_rev_zero_aligned addr (p + 1) (64 * (p + 1)) (sz - 64) =
        scan ?P (64 * (p + 1) + (sz - 64)) (64 * (p + 1))"
      using 2(1) by (intro less.IH) auto
    with 2 show ?thesis using scan_word(2) [of "NOT (addr ! p)" ?P "64 * p" sz, OF nw]
      by (simp add: find_rev_zero_aligned.simps [of addr p] BITS_PER_LONG_def add.commute)
  next
    case 3
    then show ?thesis by (simp add: find_rev_zero_aligned.simps scan_def BITS_PER_LONG_def)
  next
    case 4
    then show ?thesis
      using found_first_zero [OF less.prems _ w, of "64 * p"] scan_shift [of ?P "64 * p" sz 0]
      by (simp add: find_rev_zero_aligned.simps BITS_PER_LONG_def)
  qed
qed

subsection \<open>The masks of an unaligned start\<close>

text \<open>\<open>(unsigned char)(0xff << rest) >> rest\<close> keeps the low \<open>8 - rest\<close> bits of a byte.\<close>

lemma bit_submask:
  "rest < 8 \<Longrightarrow>
   bit (drop_bit rest (ucast (push_bit rest (0xff :: 32 word)) :: 8 word)) k \<longleftrightarrow> k + rest < 8"
proof -
  assume "rest < 8"
  have f: "(0xff :: 32 word) = mask 8" by (simp add: mask_eq_exp_minus_1)
  show ?thesis unfolding f
    by (auto simp: bit_drop_bit_eq bit_ucast_iff bit_push_bit_iff bit_mask_iff)
qed

text \<open>Position arithmetic: byte \<open>q\<close>, and the bits of it at or after \<open>rest\<close>.\<close>

lemma rpos_in_byte:
  assumes "j < 64" and "rest < 8"
  shows "q * 8 \<le> rpos j \<and> rpos j - q * 8 + rest < 8 \<longleftrightarrow> j div 8 = q \<and> rest \<le> j mod 8"
    and "q * 8 \<le> rpos j \<longleftrightarrow> q \<le> j div 8"
proof -
  have m: "j mod 8 \<le> 7" by simp
  have r: "rpos j = 8 * (j div 8) + (7 - j mod 8)" by (simp add: rpos_def)
  show "q * 8 \<le> rpos j \<longleftrightarrow> q \<le> j div 8" unfolding r using m by linarith
  show "q * 8 \<le> rpos j \<and> rpos j - q * 8 + rest < 8 \<longleftrightarrow> j div 8 = q \<and> rest \<le> j mod 8"
  proof (cases "j div 8" q rule: linorder_cases)
    case less
    then show ?thesis unfolding r using m by linarith
  next
    case equal
    then show ?thesis unfolding r using m assms(2) by auto
  next
    case greater
    then show ?thesis unfolding r using m by linarith
  qed
qed

lemma off_le_iff: "off \<le> j \<longleftrightarrow> off div 8 < j div 8 \<or> off div 8 = j div 8 \<and> off mod 8 \<le> j mod (8 :: nat)"
proof -
  have "off = 8 * (off div 8) + off mod 8" "j = 8 * (j div 8) + j mod 8" by simp_all
  moreover have "off mod 8 < 8" "j mod 8 < 8" by simp_all
  ultimately show ?thesis by linarith
qed

lemma bit_set_mask:
  assumes "j < 64"
  shows "bit (push_bit (off div 8 * 8) (NOT 0) AND
      push_bit (off div 8 * 8) (ucast (drop_bit (off mod 8)
        (ucast (push_bit (off mod 8) (0xff :: 32 word)) :: 8 word))) :: 64 word) (rpos j)
    \<longleftrightarrow> off \<le> j \<and> j div 8 = off div 8"
proof -
  let ?q = "off div 8 * 8" and ?s = "drop_bit (off mod 8) (ucast (push_bit (off mod 8) (0xff :: 32 word)) :: 8 word)"
  have n: "rpos j < 64" using assms by simp
  have a: "bit (push_bit ?q (NOT 0) :: 64 word) (rpos j) \<longleftrightarrow> ?q \<le> rpos j"
    using n by (auto simp: bit_push_bit_iff bit_not_iff bit_and_iff bit_mask_iff)
  have b: "bit (push_bit ?q (ucast ?s) :: 64 word) (rpos j) \<longleftrightarrow> ?q \<le> rpos j \<and> rpos j - ?q + off mod 8 < 8"
    unfolding bit_push_bit_iff bit_ucast_iff using n by (auto simp: bit_submask)
  show ?thesis
    unfolding bit_and_iff a b rpos_in_byte(1) [OF assms mod_less_divisor [OF zero_less_numeral]]
    using rpos_in_byte [OF assms, of "off mod 8" "off div 8"] off_le_iff [of off j] by auto
qed

lemma bit_clear_mask:
  assumes "j < 64" and "off < 64"
  shows "bit (NOT (push_bit (off div 8 * 8) (NOT 0)) +
      push_bit (off div 8 * 8) (ucast (NOT (drop_bit (off mod 8)
        (ucast (push_bit (off mod 8) (0xff :: 32 word)) :: 8 word)))) :: 64 word) (rpos j)
    \<longleftrightarrow> j < off"
proof -
  let ?q = "off div 8 * 8" and ?s = "drop_bit (off mod 8) (ucast (push_bit (off mod 8) (0xff :: 32 word)) :: 8 word)"
  let ?a = "NOT (push_bit ?q (NOT 0)) :: 64 word" and ?b = "push_bit ?q (ucast (NOT ?s)) :: 64 word"
  have n: "rpos j < 64" using assms by simp
  have "?a + ?b = ?a OR ?b"
    by (rule disjunctive_add) (auto simp: bit_not_iff bit_and_iff bit_push_bit_iff bit_mask_iff)
  then have ab: "bit (?a + ?b) (rpos j) \<longleftrightarrow> bit ?a (rpos j) \<or> bit ?b (rpos j)"
    by (simp only: bit_or_iff)
  have a: "bit ?a (rpos j) \<longleftrightarrow> \<not> ?q \<le> rpos j"
    using n by (auto simp: bit_push_bit_iff bit_not_iff bit_and_iff bit_mask_iff)
  have b: "bit ?b (rpos j) \<longleftrightarrow> (?q \<le> rpos j \<and> rpos j - ?q + 0 < 8) \<and> \<not> (?q \<le> rpos j \<and> rpos j - ?q + off mod 8 < 8)"
    unfolding bit_push_bit_iff bit_ucast_iff using n by (auto simp: bit_submask bit_not_iff)
  have c: "?q \<le> rpos j \<longleftrightarrow> off div 8 \<le> j div 8"
    by (rule rpos_in_byte(2) [OF assms(1), of 0]) simp
  have d: "?q \<le> rpos j \<and> rpos j - ?q + r < 8 \<longleftrightarrow> j div 8 = off div 8 \<and> r \<le> j mod 8" if "r < 8" for r
    by (rule rpos_in_byte(1) [OF assms(1) that])
  have "j < off \<longleftrightarrow> \<not> off \<le> j" by (rule not_le [symmetric])
  then show ?thesis
    unfolding ab a b d [OF mod_less_divisor [OF zero_less_numeral]] d [OF zero_less_numeral]
    unfolding c off_le_iff [of off j]
    by (cases "j div 8" "off div 8" rule: linorder_cases) simp_all
qed

end
