(* ===== verification/Rev_Search_Spec.thy ===== *)
theory Rev_Search_Spec
  imports Rev_Search
begin

text \<open>
  What the two searches of theory \<open>Rev_Search\<close> return: the search for a clear bit is the
  reference search; the search for a set bit is the reference search on every start that is
  a multiple of the word size, and skips part of the first word on any other start.
\<close>

section \<open>What the searches compute\<close>

text \<open>
  \<open>__find_rev_next_zero_bit\<close> is the reference search for a clear bit, for every map size
  that is a whole number of bytes.
\<close>

theorem find_rev_next_zero_bit_scan:
  assumes "8 dvd sz"
  shows "find_rev_next_zero_bit addr sz offset = scan (\<lambda>i. \<not> rev_bit addr i) sz offset"
proof (cases "sz \<le> offset")
  case True
  then show ?thesis by (simp add: find_rev_next_zero_bit_def Let_def scan_def)
next
  case False
  let ?P = "\<lambda>i. \<not> rev_bit addr i"
  let ?p = "offset div 64" and ?off = "offset mod 64"
  let ?n = "sz - 64 * ?p"
  have r: "offset - ?off = 64 * ?p" by (simp add: minus_mod_eq_mult_div)
  have o: "offset = 64 * ?p + ?off" by simp
  have sz: "sz = 64 * ?p + ?n" using False o by linarith
  have n8: "8 dvd ?n" using assms by (intro dvd_diff_nat) auto
  define tmp where "tmp = addr ! ?p OR (NOT (push_bit (?off div 8 * 8) (NOT 0)) +
      push_bit (?off div 8 * 8) (ucast (NOT (drop_bit (?off mod 8)
        (ucast (push_bit (?off mod 8) (0xff :: 32 word)) :: 8 word)))))"
  have body: "find_rev_next_zero_bit addr sz offset = (if ?off = 0 then find_rev_zero_aligned addr ?p (64 * ?p) ?n
      else if ?n < 64 then found_first_zero (64 * ?p) ?n tmp
      else if NOT tmp \<noteq> 0 then 64 * ?p + reverse_ffs (NOT tmp)
      else find_rev_zero_aligned addr (?p + 1) (64 * ?p + 64) (?n - 64))"
    using False by (simp only: find_rev_next_zero_bit_def Let_def BITS_PER_LONG_def r tmp_def if_False)
  have w: "bit tmp (rpos j) \<longleftrightarrow> \<not> (?P (64 * ?p + j) \<and> ?off \<le> j)" if "j < 64" for j
    unfolding tmp_def bit_or_iff bit_clear_mask [OF that mod_less_divisor [OF zero_less_numeral]]
    using that by (auto simp: rev_bit_word)
  then have nw: "bit (NOT tmp) (rpos j) \<longleftrightarrow> ?P (64 * ?p + j) \<and> ?off \<le> j" if "j < 64" for j
    using w [OF that] that by (simp only: bit_not_iff) simp
  have shift: "scan ?P sz offset = 64 * ?p + scan (\<lambda>j. ?P (64 * ?p + j)) ?n ?off"
    using scan_shift [of ?P "64 * ?p" ?n ?off] sz o by simp
  have start: "scan (\<lambda>j. ?P (64 * ?p + j) \<and> ?off \<le> j) ?n 0 = scan (\<lambda>j. ?P (64 * ?p + j)) ?n ?off"
    using scan_from [of 0 ?off ?n "\<lambda>j. ?P (64 * ?p + j) \<and> ?off \<le> j"] False sz o
    by (auto intro: scan_cong)
  consider "?off = 0" | "?off \<noteq> 0" "?n < 64" | "?off \<noteq> 0" "64 \<le> ?n" by linarith
  then show ?thesis
  proof cases
    case 1
    then show ?thesis
      using find_rev_zero_aligned [OF n8, of addr ?p] sz o unfolding body by simp
  next
    case 2
    then have "find_rev_next_zero_bit addr sz offset = found_first_zero (64 * ?p) ?n tmp"
      unfolding body by simp
    also have "\<dots> = 64 * ?p + scan (\<lambda>j. ?P (64 * ?p + j) \<and> ?off \<le> j) ?n 0"
      by (rule found_first_zero [OF n8 2(2) w])
    finally show ?thesis by (simp only: start shift)
  next
    case 3
    let ?Q = "\<lambda>i. ?P i \<and> offset \<le> i"
    have nq: "bit (NOT tmp) (rpos j) \<longleftrightarrow> ?Q (64 * ?p + j)" if "j < 64" for j
    proof -
      have "?off \<le> j \<longleftrightarrow> offset \<le> 64 * ?p + j" using o by linarith
      then show ?thesis unfolding nw [OF that] by simp
    qed
    have q: "scan ?Q (64 * ?p + ?n) (64 * ?p) = scan ?P sz offset"
      using scan_from [of "64 * ?p" offset sz ?Q] False o sz by (auto intro: scan_cong)
    have next_word: "scan ?Q (64 * ?p + ?n) (64 * ?p + 64) = scan ?P (64 * (?p + 1) + (?n - 64)) (64 * (?p + 1))"
    proof -
      have e: "64 * ?p + ?n = 64 * (?p + 1) + (?n - 64)" "64 * ?p + 64 = 64 * (?p + 1)"
        using 3 by simp_all
      have "offset \<le> 64 * (?p + 1)" using dividend_less_times_div [of 64 offset] by simp
      then show ?thesis unfolding e by (intro scan_cong) auto
    qed
    have "8 dvd ?n - 64" using assms by (intro dvd_diff_nat) auto
    then show ?thesis
      using 3 scan_word [of "NOT tmp" ?Q "64 * ?p" ?n, OF nq] q next_word
        find_rev_zero_aligned [of "?n - 64" addr "?p + 1"] sz [symmetric]
      unfolding body by (simp add: add.commute)
  qed
qed

interpretation rev_zero: bit_search "\<lambda>ws i. \<not> rev_bit ws i" find_rev_next_zero_bit "\<lambda>ws sz. 8 dvd sz"
proof unfold_locales
  fix ws :: "64 word list" and sz off :: nat
  assume d: "8 dvd sz"
  show "(\<And>i. off \<le> i \<Longrightarrow> i < sz \<Longrightarrow> \<not> \<not> rev_bit ws i) \<Longrightarrow> find_rev_next_zero_bit ws sz off = sz"
    unfolding find_rev_next_zero_bit_scan [OF d] by (rule scan_none)
  show "off \<le> i \<Longrightarrow> i < sz \<Longrightarrow> \<not> rev_bit ws i \<Longrightarrow> off \<le> find_rev_next_zero_bit ws sz off \<and>
      find_rev_next_zero_bit ws sz off \<le> i \<and> \<not> rev_bit ws (find_rev_next_zero_bit ws sz off)" for i
    unfolding find_rev_next_zero_bit_scan [OF d] by (rule scan_some)
qed

text \<open>
  \<open>__find_rev_next_bit\<close> ands the mask of the bytes after the start with the mask of the
  start's own byte (\<open>mask &= submask\<close>), so the bytes of the first word after the byte of an
  unaligned start are never examined.
\<close>

definition skipped :: "nat \<Rightarrow> nat \<Rightarrow> bool" where
  "skipped offset i \<longleftrightarrow> offset mod 64 \<noteq> 0 \<and> (offset div 8 + 1) * 8 \<le> i \<and> i < (offset div 64 + 1) * 64"

lemma skipped_in_word:
  assumes "j < 64" and "offset mod 64 \<noteq> 0"
  shows "offset mod 64 \<le> j \<and> j div 8 = offset mod 64 div 8 \<longleftrightarrow>
    offset \<le> 64 * (offset div 64) + j \<and> \<not> skipped offset (64 * (offset div 64) + j)"
proof -
  let ?p = "offset div 64" and ?off = "offset mod 64"
  have o: "offset = 64 * ?p + ?off" by simp
  have d: "offset div 8 = 8 * ?p + ?off div 8"
  proof -
    have "offset div 8 = (?off + 8 * (8 * ?p)) div 8" using o by simp
    then show ?thesis by (simp only: div_mult_self2 [of 8 ?off "8 * ?p"])
  qed
  have s: "skipped offset (64 * ?p + j) \<longleftrightarrow> (?off div 8 + 1) * 8 \<le> j"
    using assms unfolding skipped_def d by auto
  have le: "?off \<le> j \<longleftrightarrow> offset \<le> 64 * ?p + j" using o by linarith
  have "(?off div 8 + 1) * 8 \<le> j \<longleftrightarrow> ?off div 8 < j div 8"
    using less_eq_div_iff_mult_less_eq [of 8 "?off div 8 + 1" j] by auto
  moreover have "?off \<le> j \<Longrightarrow> ?off div 8 \<le> j div 8" by (rule div_le_mono)
  ultimately show ?thesis unfolding s le [symmetric] by linarith
qed

theorem find_rev_next_bit_scan:
  assumes "8 dvd sz"
  shows "find_rev_next_bit addr sz offset =
    scan (\<lambda>i. rev_bit addr i \<and> \<not> skipped offset i) sz offset"
proof (cases "sz \<le> offset")
  case True
  then show ?thesis by (simp add: find_rev_next_bit_def Let_def scan_def)
next
  case False
  let ?P = "\<lambda>i. rev_bit addr i \<and> \<not> skipped offset i" and ?Q = "\<lambda>i. rev_bit addr i \<and> offset \<le> i \<and> \<not> skipped offset i"
  let ?p = "offset div 64" and ?off = "offset mod 64"
  let ?n = "sz - 64 * ?p"
  have r: "offset - ?off = 64 * ?p" by (simp add: minus_mod_eq_mult_div)
  have o: "offset = 64 * ?p + ?off" by simp
  have sz: "64 * ?p + ?n = sz" using False o by linarith
  have n8: "8 dvd ?n" using assms by (intro dvd_diff_nat) auto
  define tmp where "tmp = addr ! ?p AND (push_bit (?off div 8 * 8) (NOT 0) AND
      push_bit (?off div 8 * 8) (ucast (drop_bit (?off mod 8)
        (ucast (push_bit (?off mod 8) (0xff :: 32 word)) :: 8 word))))"
  have body: "find_rev_next_bit addr sz offset = (if ?off = 0 then find_rev_aligned addr ?p (64 * ?p) ?n
      else if ?n < 64 then found_first (64 * ?p) ?n tmp
      else if tmp \<noteq> 0 then 64 * ?p + reverse_ffs tmp
      else find_rev_aligned addr (?p + 1) (64 * ?p + 64) (?n - 64))"
    using False by (simp only: find_rev_next_bit_def Let_def BITS_PER_LONG_def r tmp_def if_False)
  have w: "bit tmp (rpos j) \<longleftrightarrow> ?Q (64 * ?p + j)" if "j < 64" "?off \<noteq> 0" for j
    unfolding tmp_def bit_and_iff [of "addr ! ?p"] bit_set_mask [OF that(1)] rev_bit_word [OF that(1)]
      skipped_in_word [OF that] by blast
  have q: "scan ?Q sz (64 * ?p) = scan ?P sz offset"
    using scan_from [of "64 * ?p" offset sz ?Q] False o by (auto intro: scan_cong)
  have sh: "64 * ?p + scan (\<lambda>j. ?Q (64 * ?p + j)) ?n 0 = scan ?Q sz (64 * ?p)"
    using scan_shift [of ?Q "64 * ?p" ?n 0] unfolding sz by simp
  consider "?off = 0" | "?off \<noteq> 0" "?n < 64" | "?off \<noteq> 0" "64 \<le> ?n" by linarith
  then show ?thesis
  proof cases
    case 1
    then have "find_rev_next_bit addr sz offset = scan (rev_bit addr) sz offset"
      using find_rev_aligned [OF n8, of addr ?p] sz o unfolding body by simp
    with 1 show ?thesis by (simp add: skipped_def)
  next
    case 2
    then have "find_rev_next_bit addr sz offset = found_first (64 * ?p) ?n tmp"
      unfolding body by simp
    also have "\<dots> = 64 * ?p + scan (\<lambda>j. ?Q (64 * ?p + j)) ?n 0"
      by (rule found_first [OF n8 2(2) w [OF _ 2(1)]])
    finally show ?thesis by (simp only: sh q)
  next
    case 3
    have nw: "scan ?Q (64 * ?p + ?n) (64 * ?p + 64) = scan (rev_bit addr) (64 * (?p + 1) + (?n - 64)) (64 * (?p + 1))"
    proof -
      have e: "64 * ?p + ?n = 64 * (?p + 1) + (?n - 64)" "64 * ?p + 64 = 64 * (?p + 1)"
        using 3 by simp_all
      have "offset \<le> 64 * (?p + 1)" using dividend_less_times_div [of 64 offset] by simp
      then show ?thesis unfolding e by (intro scan_cong) (auto simp: skipped_def)
    qed
    have "8 dvd ?n - 64" using assms by (intro dvd_diff_nat) auto
    then show ?thesis
      using 3 scan_word [of tmp ?Q "64 * ?p" ?n, OF w [OF _ 3(1)]] q nw sz
        find_rev_aligned [of "?n - 64" addr "?p + 1"]
      unfolding body by (simp add: add.commute)
  qed
qed

text \<open>On a word boundary, where nothing is skipped, the set-bit search is the reference search.\<close>

lemma find_rev_next_bit_aligned:
  "8 dvd sz \<Longrightarrow> 64 dvd offset \<Longrightarrow> find_rev_next_bit addr sz offset = scan (rev_bit addr) sz offset"
  by (simp add: find_rev_next_bit_scan skipped_def mod_eq_0_iff_dvd)

text \<open>Elsewhere it misses exactly the bits of the first word that are in a later byte than the offset; when the next set bit is one of
  these, the result lies behind it.\<close>

lemma scan_without:
  "if scan P sz off < sz \<and> bad (scan P sz off) then scan P sz off < scan (\<lambda>i. P i \<and> \<not> bad i) sz off
   else scan (\<lambda>i. P i \<and> \<not> bad i) sz off = scan P sz off"
proof -
  let ?r = "scan P sz off" and ?q = "scan (\<lambda>i. P i \<and> \<not> bad i) sz off"
  have le: "?r \<le> ?q"
  proof (rule ccontr)
    assume "\<not> ?r \<le> ?q"
    then have "?q < sz" using scan_le [of P sz off] by linarith
    then have "P ?q" "off \<le> ?q" using scan_hit [of "\<lambda>i. P i \<and> \<not> bad i" sz off] by simp_all
    then show False using scan_skip [of off ?q P sz] \<open>\<not> ?r \<le> ?q\<close> by simp
  qed
  show ?thesis
  proof (cases "?r < sz")
    case False
    then show ?thesis using le scan_le [of "\<lambda>i. P i \<and> \<not> bad i" sz off] scan_le [of P sz off] by simp
  next
    case r: True
    note h = scan_hit [OF r]
    show ?thesis
    proof (cases "bad ?r")
      case True
      then have "?q \<noteq> ?r" using scan_hit [of "\<lambda>i. P i \<and> \<not> bad i" sz off] r by fastforce
      then show ?thesis using le r True by simp
    next
      case False
      then have "?q = ?r" using h r scan_skip [of off _ P sz] by (intro scan_eqI) auto
      then show ?thesis using False by simp
    qed
  qed
qed

lemma find_rev_next_bit_skips:
  assumes "8 dvd sz"
  shows "let r = scan (rev_bit addr) sz offset in
    if r < sz \<and> skipped offset r then r < find_rev_next_bit addr sz offset else find_rev_next_bit addr sz offset = r"
  using scan_without [of "rev_bit addr" sz offset "skipped offset"] unfolding Let_def find_rev_next_bit_scan [OF assms] .

text \<open>A map of 64 bits in which only bit 9 is set.\<close>

lemma rev_bit_9:
  assumes "i < 64"
  shows "rev_bit (longs (0 # 0x40 # replicate 6 0)) i \<longleftrightarrow> i = 9"
proof -
  obtain q r where qr: "i = 8 * q + r" "r < 8"
    by (metis mult_div_mod_eq mod_less_divisor zero_less_numeral)
  then have e: "i div 8 = q" "i mod 8 = r" by simp_all
  have d: "i div 8 < 8" using assms by (simp add: less_mult_imp_div_less)
  have "bit (0x40 :: 8 word) k \<longleftrightarrow> k = 6" for k
    using bit_exp_iff [where 'a = "8 word", of 6 k] by auto
  then have "rev_bit (longs (0 # 0x40 # replicate 6 0)) i \<longleftrightarrow> i div 8 = 1 \<and> 7 - i mod 8 = 6"
    using assms d by (simp add: rev_bit_longs f2fs_test_bit_iff nth_Cons' nth_append)
  also have "\<dots> \<longleftrightarrow> i = 9" unfolding e
  proof
    assume "q = 1 \<and> 7 - r = 6"
    then show "i = 9" using qr by linarith
  next
    assume "i = 9"
    with qr have "q = 1" by linarith
    with qr \<open>i = 9\<close> show "q = 1 \<and> 7 - r = 6" by simp
  qed
  finally show ?thesis .
qed

lemma scan_9: "scan (rev_bit (longs (0 # 0x40 # replicate 6 0))) 64 1 = 9"
  by (rule scan_eqI) (auto simp: rev_bit_9)

end
