(* ===== verification/Dirty_Seglist.thy ===== *)
theory Dirty_Seglist
  imports Sit_Update Free_Segmap Rev_Search_Spec
begin

text \<open>
  The dirty segment lists of \<open>segment.c\<close>: one bitmap with a counter for each of the six
  segment types, one for all dirty segments (\<open>DIRTY\<close>) and one for segments without valid
  blocks that wait for the next checkpoint (\<open>PRE\<close>); \<open>locate_dirty_segment\<close> files a segment by
  its number of valid blocks.
\<close>

section \<open>Filing a segment\<close>

text \<open>\<open>if (!test_and_set_bit(segno, dirty_segmap[t])) nr_dirty[t]++\<close> and its opposite.\<close>

definition add_dirty :: "nat \<Rightarrow> nat \<Rightarrow> dirty_seglist_info \<Rightarrow> dirty_seglist_info" where
  "add_dirty segno t dirty_i =
    (let old = (dl_dirty_segmap dirty_i ! t) segno;
         dirty_i = dirty_i\<lparr>dl_dirty_segmap := (dl_dirty_segmap dirty_i)[t := (dl_dirty_segmap dirty_i ! t)(segno := True)]\<rparr>
     in if \<not> old then dirty_i\<lparr>dl_nr_dirty := (dl_nr_dirty dirty_i)[t := dl_nr_dirty dirty_i ! t + 1]\<rparr>
        else dirty_i)"

definition del_dirty :: "nat \<Rightarrow> nat \<Rightarrow> dirty_seglist_info \<Rightarrow> dirty_seglist_info" where
  "del_dirty segno t dirty_i =
    (let old = (dl_dirty_segmap dirty_i ! t) segno;
         dirty_i = dirty_i\<lparr>dl_dirty_segmap := (dl_dirty_segmap dirty_i)[t := (dl_dirty_segmap dirty_i ! t)(segno := False)]\<rparr>
     in if old then dirty_i\<lparr>dl_nr_dirty := (dl_nr_dirty dirty_i)[t := dl_nr_dirty dirty_i ! t - 1]\<rparr>
        else dirty_i)"

text \<open>\<open>__locate_dirty_segment\<close> and \<open>__remove_dirty_segment\<close>.\<close>

definition do_locate_dirty_segment :: "f2fs_sb_info \<Rightarrow> nat \<Rightarrow> nat \<Rightarrow> f2fs_sb_info" where
  "do_locate_dirty_segment sbi segno dirty_type =
    (if IS_CURSEG sbi segno then sbi
     else
       let dirty_i = add_dirty segno dirty_type (DIRTY_I sbi);
           dirty_i = (if dirty_type = DIRTY then add_dirty segno (se_type (get_seg_entry sbi segno)) dirty_i
                      else dirty_i)
       in set_DIRTY_I dirty_i sbi)"

definition do_remove_dirty_segment :: "f2fs_sb_info \<Rightarrow> nat \<Rightarrow> nat \<Rightarrow> f2fs_sb_info" where
  "do_remove_dirty_segment sbi segno dirty_type =
    (let dirty_i = del_dirty segno dirty_type (DIRTY_I sbi);
         dirty_i = (if dirty_type = DIRTY then
             let dirty_i = del_dirty segno (se_type (get_seg_entry sbi segno)) dirty_i
             in if get_valid_blocks sbi segno (sbi_segs_per_sec sbi) = 0
                then dirty_i\<lparr>dl_victim_secmap := (dl_victim_secmap dirty_i)(GET_SECNO sbi segno := False)\<rparr>
                else dirty_i
           else dirty_i)
     in set_DIRTY_I dirty_i sbi)"

definition locate_dirty_segment :: "f2fs_sb_info \<Rightarrow> nat \<Rightarrow> f2fs_sb_info" where
  "locate_dirty_segment sbi segno =
    (if segno = NULL_SEGNO \<or> IS_CURSEG sbi segno then sbi
     else
       let valid_blocks = u16 (get_valid_blocks sbi segno 0)
       in if valid_blocks = 0 then
            do_remove_dirty_segment (do_locate_dirty_segment sbi segno PRE) segno DIRTY
          else if valid_blocks < sbi_blocks_per_seg sbi then do_locate_dirty_segment sbi segno DIRTY
          else do_remove_dirty_segment sbi segno DIRTY)"

definition invalidate_blocks :: "f2fs_env \<Rightarrow> f2fs_sb_info \<Rightarrow> nat \<Rightarrow> f2fs_sb_info option" where
  "invalidate_blocks E sbi addr = do {
     let segno = GET_SEGNO E sbi addr;
     f2fs_bug_on E (addr = NULL_ADDR E);
     if addr = NEW_ADDR E then Some sbi
     else do {
       sbi \<leftarrow> update_sit_entry E sbi addr (- 1);
       Some (locate_dirty_segment sbi segno) } }"

definition prefree_segments :: "f2fs_sb_info \<Rightarrow> nat" where
  "prefree_segments sbi = to_u32 (dl_nr_dirty (DIRTY_I sbi) ! PRE)"

definition dirty_segments :: "f2fs_sb_info \<Rightarrow> nat" where
  "dirty_segments sbi = to_u32 (dl_nr_dirty (DIRTY_I sbi) ! 0 + dl_nr_dirty (DIRTY_I sbi) ! 1
     + dl_nr_dirty (DIRTY_I sbi) ! 2 + dl_nr_dirty (DIRTY_I sbi) ! 3
     + dl_nr_dirty (DIRTY_I sbi) ! 4 + dl_nr_dirty (DIRTY_I sbi) ! 5)"

section \<open>The invariant\<close>

text \<open>Every counter is the number of bits of its map, below \<open>n\<close> segments.\<close>

definition lists_ok :: "nat \<Rightarrow> dirty_seglist_info \<Rightarrow> bool" where
  "lists_ok n d \<longleftrightarrow> length (dl_dirty_segmap d) = NR_DIRTY_TYPE \<and> length (dl_nr_dirty d) = NR_DIRTY_TYPE \<and>
     (\<forall>t<NR_DIRTY_TYPE. dl_nr_dirty d ! t = int (count_bits n (dl_dirty_segmap d ! t)))"

definition types_ok :: "f2fs_sb_info \<Rightarrow> bool" where
  "types_ok sbi \<longleftrightarrow> (\<forall>i<TOTAL_SEGS sbi. se_type (get_seg_entry sbi i) < NR_CURSEG_TYPE)"

definition dirty_ok :: "f2fs_sb_info \<Rightarrow> bool" where
  "dirty_ok sbi \<longleftrightarrow> lists_ok (TOTAL_SEGS sbi) (DIRTY_I sbi) \<and> types_ok sbi"

definition is_dirty :: "f2fs_sb_info \<Rightarrow> nat \<Rightarrow> nat \<Rightarrow> bool" where
  "is_dirty sbi t segno \<longleftrightarrow> (dl_dirty_segmap (DIRTY_I sbi) ! t) segno"

lemma add_dirty_ok: "lists_ok n d \<Longrightarrow> t < NR_DIRTY_TYPE \<Longrightarrow> segno < n \<Longrightarrow> lists_ok n (add_dirty segno t d)"
  by (auto simp: lists_ok_def add_dirty_def Let_def nth_list_update counts fun_upd_idem)

lemma del_dirty_ok: "lists_ok n d \<Longrightarrow> t < NR_DIRTY_TYPE \<Longrightarrow> segno < n \<Longrightarrow> lists_ok n (del_dirty segno t d)"
proof -
  assume ok: "lists_ok n d" and t: "t < NR_DIRTY_TYPE" and s: "segno < n"
  have "0 < count_bits n (dl_dirty_segmap d ! t)" if "(dl_dirty_segmap d ! t) segno"
    using count_bits_pos [where P = "dl_dirty_segmap d ! t", OF s that] .
  with ok t s show ?thesis
    by (auto simp: lists_ok_def del_dirty_def Let_def nth_list_update counts fun_upd_idem)
qed

lemma add_dirty_segmap [simp]:
  "dl_dirty_segmap (add_dirty segno t d) = (dl_dirty_segmap d)[t := (dl_dirty_segmap d ! t)(segno := True)]"
  "dl_victim_secmap (add_dirty segno t d) = dl_victim_secmap d"
  by (simp_all add: add_dirty_def Let_def)

lemma del_dirty_segmap [simp]:
  "dl_dirty_segmap (del_dirty segno t d) = (dl_dirty_segmap d)[t := (dl_dirty_segmap d ! t)(segno := False)]"
  "dl_victim_secmap (del_dirty segno t d) = dl_victim_secmap d"
  by (simp_all add: del_dirty_def Let_def)

lemma victim_lists_ok [simp]: "lists_ok n (d\<lparr>dl_victim_secmap := v\<rparr>) = lists_ok n d"
  by (simp add: lists_ok_def)

lemma seg_entry_set_DIRTY [simp]:
  "get_seg_entry (set_DIRTY_I v sbi) = get_seg_entry sbi"
  "get_sec_entry (set_DIRTY_I v sbi) = get_sec_entry sbi"
  "get_valid_blocks (set_DIRTY_I v sbi) = get_valid_blocks sbi"
  "types_ok (set_DIRTY_I v sbi) = types_ok sbi"
  by (simp_all add: get_seg_entry_def get_sec_entry_def get_valid_blocks_def types_ok_def fun_eq_iff)

text \<open>Only the dirty lists change.\<close>

definition dirty_frame :: "f2fs_sb_info \<Rightarrow> f2fs_sb_info \<Rightarrow> bool" where
  "dirty_frame sbi sbi' \<longleftrightarrow> sbi' = set_DIRTY_I (DIRTY_I sbi') sbi"

lemma dirty_frame_refl [simp]: "dirty_frame sbi sbi"
  by (simp add: dirty_frame_def setters accessors)

lemma dirty_frame_set [simp]: "dirty_frame sbi (set_DIRTY_I v sbi)"
  by (simp add: dirty_frame_def)

lemma dirty_frame_trans: "dirty_frame a b \<Longrightarrow> dirty_frame b c \<Longrightarrow> dirty_frame a c"
  unfolding dirty_frame_def by (metis set_DIRTY_I_frame)

lemma dirty_frameD:
  assumes "dirty_frame sbi sbi'"
  shows "TOTAL_SEGS sbi' = TOTAL_SEGS sbi" "TOTAL_SECS sbi' = TOTAL_SECS sbi"
    "sbi_segs_per_sec sbi' = sbi_segs_per_sec sbi" "sbi_blocks_per_seg sbi' = sbi_blocks_per_seg sbi"
    "sbi_secs_per_zone sbi' = sbi_secs_per_zone sbi"
    "FREE_I sbi' = FREE_I sbi" "SIT_I sbi' = SIT_I sbi" "CURSEG_I sbi' = CURSEG_I sbi"
    "geometry sbi' = geometry sbi" "main_addr sbi' = main_addr sbi" "GET_SEGNO E sbi' = GET_SEGNO E sbi"
    "GET_SECNO sbi' = GET_SECNO sbi" "IS_CURSEG sbi' = IS_CURSEG sbi" "START_BLOCK sbi' = START_BLOCK sbi"
    "types_ok sbi' = types_ok sbi" "sm_curseg_array (SM_I sbi') = sm_curseg_array (SM_I sbi)"
proof -
  obtain S where "sbi' = set_DIRTY_I S sbi" using assms unfolding dirty_frame_def by metis
  then show "TOTAL_SEGS sbi' = TOTAL_SEGS sbi" "TOTAL_SECS sbi' = TOTAL_SECS sbi"
    "sbi_segs_per_sec sbi' = sbi_segs_per_sec sbi" "sbi_blocks_per_seg sbi' = sbi_blocks_per_seg sbi"
    "sbi_secs_per_zone sbi' = sbi_secs_per_zone sbi"
    "FREE_I sbi' = FREE_I sbi" "SIT_I sbi' = SIT_I sbi" "CURSEG_I sbi' = CURSEG_I sbi"
    "geometry sbi' = geometry sbi" "main_addr sbi' = main_addr sbi" "GET_SEGNO E sbi' = GET_SEGNO E sbi"
    "GET_SECNO sbi' = GET_SECNO sbi" "IS_CURSEG sbi' = IS_CURSEG sbi" "START_BLOCK sbi' = START_BLOCK sbi"
    "types_ok sbi' = types_ok sbi" "sm_curseg_array (SM_I sbi') = sm_curseg_array (SM_I sbi)"
    by (simp_all add: fun_eq_iff)
qed

lemma dirty_ops_frame [simp]:
  "dirty_frame sbi (do_locate_dirty_segment sbi segno t)"
  "dirty_frame sbi (do_remove_dirty_segment sbi segno t)"
  by (simp_all add: do_locate_dirty_segment_def do_remove_dirty_segment_def Let_def)

lemma locate_dirty_frame [simp]: "dirty_frame sbi (locate_dirty_segment sbi segno)"
  by (auto simp: locate_dirty_segment_def Let_def intro: dirty_frame_trans [OF dirty_ops_frame(1) dirty_ops_frame(2)])

lemma do_locate_ok:
  assumes "dirty_ok sbi" and "segno < TOTAL_SEGS sbi" and "t < NR_DIRTY_TYPE"
  shows "dirty_ok (do_locate_dirty_segment sbi segno t)"
proof -
  have "se_type (get_seg_entry sbi segno) < NR_DIRTY_TYPE"
    using assms(1,2) by (auto simp: dirty_ok_def types_ok_def curseg_types dirty_types)
  with assms show ?thesis
    by (auto simp: dirty_ok_def do_locate_dirty_segment_def Let_def intro!: add_dirty_ok)
qed

lemma do_remove_ok:
  assumes "dirty_ok sbi" and "segno < TOTAL_SEGS sbi" and "t < NR_DIRTY_TYPE"
  shows "dirty_ok (do_remove_dirty_segment sbi segno t)"
proof -
  have "se_type (get_seg_entry sbi segno) < NR_DIRTY_TYPE"
    using assms(1,2) by (auto simp: dirty_ok_def types_ok_def curseg_types dirty_types)
  with assms show ?thesis
    by (auto simp: dirty_ok_def do_remove_dirty_segment_def Let_def intro!: del_dirty_ok)
qed

lemma locate_dirty_ok:
  assumes "dirty_ok sbi" and "segno < TOTAL_SEGS sbi"
  shows "dirty_ok (locate_dirty_segment sbi segno)"
  using assms
  by (auto simp: locate_dirty_segment_def Let_def dirty_types
      dirty_frameD(1) [OF dirty_ops_frame(1)] intro!: do_locate_ok do_remove_ok)

section \<open>Where a segment is filed\<close>

lemma add_dirty_bit:
  "length (dl_dirty_segmap d) = n \<Longrightarrow> k < n \<Longrightarrow>
   (dl_dirty_segmap (add_dirty segno k d) ! t) i \<longleftrightarrow> (i = segno \<and> t = k) \<or> (dl_dirty_segmap d ! t) i"
  by (cases "t = k") auto

lemma del_dirty_bit:
  "length (dl_dirty_segmap d) = n \<Longrightarrow> k < n \<Longrightarrow>
   (dl_dirty_segmap (del_dirty segno k d) ! t) i \<longleftrightarrow> \<not> (i = segno \<and> t = k) \<and> (dl_dirty_segmap d ! t) i"
  by (cases "t = k") auto

lemma is_dirty_locate:
  assumes "dirty_ok sbi" and "segno < TOTAL_SEGS sbi" and "\<not> IS_CURSEG sbi segno" and d: "d < NR_DIRTY_TYPE"
  shows "is_dirty (do_locate_dirty_segment sbi segno d) t i \<longleftrightarrow>
    (i = segno \<and> (t = d \<or> d = DIRTY \<and> t = se_type (get_seg_entry sbi segno))) \<or> is_dirty sbi t i"
proof -
  have l: "length (dl_dirty_segmap (DIRTY_I sbi)) = NR_DIRTY_TYPE"
    "length (dl_dirty_segmap (add_dirty segno k (DIRTY_I sbi))) = NR_DIRTY_TYPE" for k
    using assms(1) by (simp_all add: dirty_ok_def lists_ok_def)
  have ty: "se_type (get_seg_entry sbi segno) < NR_DIRTY_TYPE"
    using assms(1,2) by (auto simp: dirty_ok_def types_ok_def curseg_types dirty_types)
  show ?thesis
    using assms(3) unfolding is_dirty_def do_locate_dirty_segment_def Let_def
    using d ty by (auto simp: add_dirty_bit [where n = NR_DIRTY_TYPE] l simp del: add_dirty_segmap)
qed

lemma is_dirty_remove:
  assumes "dirty_ok sbi" and "segno < TOTAL_SEGS sbi" and d: "d < NR_DIRTY_TYPE"
  shows "is_dirty (do_remove_dirty_segment sbi segno d) t i \<longleftrightarrow>
    \<not> (i = segno \<and> (t = d \<or> d = DIRTY \<and> t = se_type (get_seg_entry sbi segno))) \<and> is_dirty sbi t i"
proof -
  have l: "length (dl_dirty_segmap (DIRTY_I sbi)) = NR_DIRTY_TYPE"
    "length (dl_dirty_segmap (del_dirty segno k (DIRTY_I sbi))) = NR_DIRTY_TYPE" for k
    using assms(1) by (simp_all add: dirty_ok_def lists_ok_def)
  have ty: "se_type (get_seg_entry sbi segno) < NR_DIRTY_TYPE"
    using assms(1,2) by (auto simp: dirty_ok_def types_ok_def curseg_types dirty_types)
  show ?thesis
    unfolding is_dirty_def do_remove_dirty_segment_def Let_def
    using d ty by (auto simp: del_dirty_bit [where n = NR_DIRTY_TYPE] l simp del: del_dirty_segmap)
qed

text \<open>
  A segment without valid blocks becomes a prefree segment and leaves the dirty lists, a
  partly valid one is in \<open>DIRTY\<close> and in the list of its type, a full one in neither; a
  current segment is not touched, and no other segment is.
\<close>

lemma locate_dirty_segment_files:
  assumes ok: "sit_ok E sbi" "dirty_ok sbi" and seg: "segno < TOTAL_SEGS sbi" and cur: "\<not> IS_CURSEG sbi segno"
  defines "sbi' \<equiv> locate_dirty_segment sbi segno" and "t \<equiv> se_type (get_seg_entry sbi segno)"
  shows "is_dirty sbi' PRE segno \<longleftrightarrow> vblocks sbi segno = 0 \<or> is_dirty sbi PRE segno"
    and "is_dirty sbi' DIRTY segno \<longleftrightarrow> 0 < vblocks sbi segno \<and> vblocks sbi segno < sbi_blocks_per_seg sbi"
    and "is_dirty sbi' t segno \<longleftrightarrow> 0 < vblocks sbi segno \<and> vblocks sbi segno < sbi_blocks_per_seg sbi"
    and "i \<noteq> segno \<Longrightarrow> is_dirty sbi' d i = is_dirty sbi d i"
proof -
  let ?L = "do_locate_dirty_segment sbi segno" and ?R = "do_remove_dirty_segment"
  have "segno \<noteq> NULL_SEGNO"
    using seg TOTAL_SEGS_less [OF sit_okD(1) [OF ok(1)]] by (auto simp: NULL_SEGNO_def)
  moreover have "u16 (get_valid_blocks sbi segno 0) = vblocks sbi segno"
    using vblocks_le [OF ok(1) seg] sit_okD(4) [OF ok(1)] by (simp add: get_valid_blocks_def vblocks_def u16_id)
  ultimately have body: "sbi' = (if vblocks sbi segno = 0 then ?R (?L PRE) segno DIRTY
      else if vblocks sbi segno < sbi_blocks_per_seg sbi then ?L DIRTY else ?R sbi segno DIRTY)"
    using cur by (simp add: sbi'_def locate_dirty_segment_def Let_def)
  have t: "t < 6" using ok(2) seg by (simp add: t_def dirty_ok_def types_ok_def curseg_types)
  have same: "get_seg_entry (?L PRE) segno = get_seg_entry sbi segno"
    by (simp add: get_seg_entry_def dirty_frameD [OF dirty_ops_frame(1)])
  have okL: "dirty_ok (?L PRE)" "segno < TOTAL_SEGS (?L PRE)"
    using do_locate_ok [OF ok(2) seg] seg by (auto simp: dirty_types dirty_frameD [OF dirty_ops_frame(1)])
  note locate = is_dirty_locate [OF ok(2) seg cur] and remove = is_dirty_remove [OF ok(2) seg]
    and both = is_dirty_remove [OF okL]
  have n: "PRE < NR_DIRTY_TYPE" "DIRTY < NR_DIRTY_TYPE" "t < NR_DIRTY_TYPE" "PRE \<noteq> DIRTY" "t \<noteq> PRE" "t \<noteq> DIRTY"
    using t by (auto simp: dirty_types)
  show "is_dirty sbi' PRE segno \<longleftrightarrow> vblocks sbi segno = 0 \<or> is_dirty sbi PRE segno"
    "is_dirty sbi' DIRTY segno \<longleftrightarrow> 0 < vblocks sbi segno \<and> vblocks sbi segno < sbi_blocks_per_seg sbi"
    "is_dirty sbi' t segno \<longleftrightarrow> 0 < vblocks sbi segno \<and> vblocks sbi segno < sbi_blocks_per_seg sbi"
    using n by (auto simp: body locate remove both same t_def [symmetric])
  show "i \<noteq> segno \<Longrightarrow> is_dirty sbi' d i = is_dirty sbi d i"
    using n by (auto simp: body locate remove both)
qed

end
