(* ===== verification/Space.thy ===== *)
theory Space
  imports Dirty_Seglist
begin

text \<open>
  Space accounting: the counters of valid blocks, nodes and inodes (\<open>f2fs.h\<close>), and the
  predicates of \<open>segment.h\<close> that decide when to clean, when to reuse dirty segments and when
  to write in place.  An inode is represented by its \<open>i_blocks\<close>.
\<close>

section \<open>Valid blocks, nodes and inodes\<close>

text \<open>The result, the new \<open>i_blocks\<close> and the new state.\<close>

definition inc_valid_block_count :: "f2fs_sb_info \<Rightarrow> nat \<Rightarrow> nat \<Rightarrow> bool \<times> nat \<times> f2fs_sb_info" where
  "inc_valid_block_count sbi i_blocks count =
    (let valid_block_count = u32 (sbi_total_valid_block_count sbi + u32 count)
     in if sbi_user_block_count sbi < valid_block_count then (False, i_blocks, sbi)
        else (True, u64 (i_blocks + count),
              sbi\<lparr>sbi_total_valid_block_count := valid_block_count,
                  sbi_alloc_valid_block_count := u32 (sbi_alloc_valid_block_count sbi + u32 count)\<rparr>))"

definition dec_valid_block_count :: "f2fs_env \<Rightarrow> f2fs_sb_info \<Rightarrow> nat \<Rightarrow> nat \<Rightarrow> (nat \<times> f2fs_sb_info) option" where
  "dec_valid_block_count E sbi i_blocks count = do {
     f2fs_bug_on E (sbi_total_valid_block_count sbi < u32 count);
     f2fs_bug_on E (i_blocks < count);
     Some (sub64 i_blocks count,
           sbi\<lparr>sbi_total_valid_block_count := sub32 (sbi_total_valid_block_count sbi) (u32 count)\<rparr>) }"

text \<open>\<open>inode\<close> may be a null pointer.\<close>

definition inc_valid_node_count :: "f2fs_sb_info \<Rightarrow> nat option \<Rightarrow> bool \<times> nat option \<times> f2fs_sb_info" where
  "inc_valid_node_count sbi inode =
    (let valid_block_count = u32 (sbi_total_valid_block_count sbi + 1)
     in if sbi_user_block_count sbi < valid_block_count then (False, inode, sbi)
        else
          let valid_node_count = u32 (sbi_total_valid_node_count sbi + 1)
          in if sbi_total_node_count sbi < valid_node_count then (False, inode, sbi)
             else (True, map_option (\<lambda>b. u64 (b + 1)) inode,
                   sbi\<lparr>sbi_alloc_valid_block_count := u32 (sbi_alloc_valid_block_count sbi + 1),
                       sbi_total_valid_node_count := u32 (sbi_total_valid_node_count sbi + 1),
                       sbi_total_valid_block_count := u32 (sbi_total_valid_block_count sbi + 1)\<rparr>))"

definition dec_valid_node_count :: "f2fs_env \<Rightarrow> f2fs_sb_info \<Rightarrow> nat \<Rightarrow> (nat \<times> f2fs_sb_info) option" where
  "dec_valid_node_count E sbi i_blocks = do {
     f2fs_bug_on E (sbi_total_valid_block_count sbi = 0);
     f2fs_bug_on E (sbi_total_valid_node_count sbi = 0);
     f2fs_bug_on E (i_blocks = 0);
     Some (sub64 i_blocks 1,
           sbi\<lparr>sbi_total_valid_node_count := sub32 (sbi_total_valid_node_count sbi) 1,
               sbi_total_valid_block_count := sub32 (sbi_total_valid_block_count sbi) 1\<rparr>) }"

definition inc_valid_inode_count :: "f2fs_env \<Rightarrow> f2fs_sb_info \<Rightarrow> f2fs_sb_info option" where
  "inc_valid_inode_count E sbi = do {
     f2fs_bug_on E (sbi_total_valid_inode_count sbi = sbi_total_node_count sbi);
     Some (sbi\<lparr>sbi_total_valid_inode_count := u32 (sbi_total_valid_inode_count sbi + 1)\<rparr>) }"

definition dec_valid_inode_count :: "f2fs_env \<Rightarrow> f2fs_sb_info \<Rightarrow> f2fs_sb_info option" where
  "dec_valid_inode_count E sbi = do {
     f2fs_bug_on E (sbi_total_valid_inode_count sbi = 0);
     Some (sbi\<lparr>sbi_total_valid_inode_count := sub32 (sbi_total_valid_inode_count sbi) 1\<rparr>) }"

definition valid_user_blocks :: "f2fs_sb_info \<Rightarrow> nat" where
  "valid_user_blocks sbi = sbi_total_valid_block_count sbi"

definition valid_node_count :: "f2fs_sb_info \<Rightarrow> nat" where
  "valid_node_count sbi = sbi_total_valid_node_count sbi"

definition valid_inode_count :: "f2fs_sb_info \<Rightarrow> nat" where
  "valid_inode_count sbi = sbi_total_valid_inode_count sbi"

text \<open>No counter exceeds its limit, and every node is a block.\<close>

definition counts_ok :: "f2fs_sb_info \<Rightarrow> bool" where
  "counts_ok sbi \<longleftrightarrow> sbi_total_valid_block_count sbi \<le> sbi_user_block_count sbi
     \<and> sbi_total_valid_node_count sbi \<le> sbi_total_node_count sbi
     \<and> sbi_total_valid_node_count sbi \<le> sbi_total_valid_block_count sbi
     \<and> sbi_user_block_count sbi < 2 ^ 32 - 1 \<and> sbi_total_node_count sbi < 2 ^ 32 - 1"

lemma inc_valid_block_count_ok:
  assumes "counts_ok sbi" and "count + sbi_user_block_count sbi < 2 ^ 32"
  shows "inc_valid_block_count sbi b count = (ok, b', sbi') \<Longrightarrow> counts_ok sbi'
    \<and> (ok \<longleftrightarrow> sbi_total_valid_block_count sbi + count \<le> sbi_user_block_count sbi)
    \<and> sbi_total_valid_block_count sbi' = sbi_total_valid_block_count sbi + (if ok then count else 0)"
  using assms by (auto simp: inc_valid_block_count_def counts_ok_def Let_def u32_id split: if_splits)

lemma dec_valid_block_count_undoes:
  assumes "counts_ok sbi" and "count + sbi_user_block_count sbi < 2 ^ 32" and "b + count < 2 ^ 64"
    and inc: "inc_valid_block_count sbi b count = (True, b', sbi')"
  shows "\<exists>sbi''. dec_valid_block_count E sbi' b' count = Some (b, sbi'')
    \<and> sbi_total_valid_block_count sbi'' = sbi_total_valid_block_count sbi
    \<and> sbi_total_valid_node_count sbi'' = sbi_total_valid_node_count sbi"
  using assms
  by (auto simp: inc_valid_block_count_def dec_valid_block_count_def counts_ok_def Let_def f2fs_bug_on_def
      u32_id u64_id sub32_id sub64_id split: if_splits)

lemma inc_valid_node_count_ok:
  assumes "counts_ok sbi"
  shows "inc_valid_node_count sbi inode = (ok, inode', sbi') \<Longrightarrow> counts_ok sbi'
    \<and> (ok \<longleftrightarrow> sbi_total_valid_block_count sbi < sbi_user_block_count sbi
         \<and> sbi_total_valid_node_count sbi < sbi_total_node_count sbi)
    \<and> (\<not> ok \<longrightarrow> sbi' = sbi \<and> inode' = inode)
    \<and> (ok \<longrightarrow> sbi_total_valid_block_count sbi' = sbi_total_valid_block_count sbi + 1
         \<and> sbi_total_valid_node_count sbi' = sbi_total_valid_node_count sbi + 1)"
  using assms by (auto simp: inc_valid_node_count_def counts_ok_def Let_def u32_id split: if_splits)

lemma dec_valid_node_count_ok:
  assumes "counts_ok sbi" and "0 < sbi_total_valid_node_count sbi" and "0 < b" and "b < 2 ^ 64"
  shows "\<exists>sbi'. dec_valid_node_count E sbi b = Some (b - 1, sbi') \<and> counts_ok sbi'
    \<and> sbi_total_valid_block_count sbi' + 1 = sbi_total_valid_block_count sbi
    \<and> sbi_total_valid_node_count sbi' + 1 = sbi_total_valid_node_count sbi"
  using assms by (auto simp: dec_valid_node_count_def counts_ok_def f2fs_bug_on_def sub32_id sub64_id)

section \<open>Sections needed and available\<close>

definition overprovision_segments :: "f2fs_sb_info \<Rightarrow> nat" where
  "overprovision_segments sbi = sm_ovp_segments (SM_I sbi)"

definition reserved_segments :: "f2fs_sb_info \<Rightarrow> nat" where
  "reserved_segments sbi = sm_reserved_segments (SM_I sbi)"

definition overprovision_sections :: "f2fs_sb_info \<Rightarrow> nat" where
  "overprovision_sections sbi = overprovision_segments sbi div sbi_segs_per_sec sbi"

definition reserved_sections :: "f2fs_sb_info \<Rightarrow> nat" where
  "reserved_sections sbi = reserved_segments sbi div sbi_segs_per_sec sbi"

definition get_blocktype_secs :: "f2fs_sb_info \<Rightarrow> int \<Rightarrow> nat" where
  "get_blocktype_secs sbi pages =
    (let pages_per_sec = u32 (sbi_segs_per_sec sbi * 2 ^ sbi_log_blocks_per_seg sbi)
     in drop_bit (sbi_log_blocks_per_seg sbi) (sub32 (u32 (to_u32 pages + pages_per_sec)) 1) div sbi_segs_per_sec sbi)"

definition need_SSR :: "f2fs_sb_info \<Rightarrow> bool" where
  "need_SSR sbi \<longleftrightarrow> u32 (prefree_segments sbi div sbi_segs_per_sec sbi + free_sections sbi) < overprovision_sections sbi"

definition has_not_enough_free_secs :: "f2fs_sb_info \<Rightarrow> int \<Rightarrow> bool" where
  "has_not_enough_free_secs sbi freed =
    (let node_secs = get_blocktype_secs sbi (sbi_nr_dirty_nodes sbi);
         dent_secs = get_blocktype_secs sbi (sbi_nr_dirty_dents sbi)
     in if sbi_por_doing sbi then False
        else u32 (free_sections sbi + to_u32 freed) \<le> u32 (node_secs + 2 * dent_secs + reserved_sections sbi))"

definition excess_prefree_segs :: "f2fs_sb_info \<Rightarrow> bool" where
  "excess_prefree_segs sbi \<longleftrightarrow> sm_rec_prefree_segments (SM_I sbi) < prefree_segments sbi"

definition utilization :: "f2fs_sb_info \<Rightarrow> nat" where
  "utilization sbi = u64 (valid_user_blocks sbi * 100) div sbi_user_block_count sbi"

definition F2FS_IPU_FORCE :: nat where "F2FS_IPU_FORCE = 0"
definition F2FS_IPU_SSR :: nat where "F2FS_IPU_SSR = 1"
definition F2FS_IPU_UTIL :: nat where "F2FS_IPU_UTIL = 2"
definition F2FS_IPU_SSR_UTIL :: nat where "F2FS_IPU_SSR_UTIL = 3"
definition F2FS_IPU_DISABLE :: nat where "F2FS_IPU_DISABLE = 4"

lemmas ipu_policies = F2FS_IPU_FORCE_def F2FS_IPU_SSR_def F2FS_IPU_UTIL_def F2FS_IPU_SSR_UTIL_def
  F2FS_IPU_DISABLE_def

definition need_inplace_update :: "f2fs_sb_info \<Rightarrow> bool \<Rightarrow> bool" where
  "need_inplace_update sbi is_dir =
    (if is_dir then False
     else let policy = sm_ipu_policy (SM_I sbi)
       in if policy = F2FS_IPU_FORCE then True
          else if policy = F2FS_IPU_SSR then need_SSR sbi
          else if policy = F2FS_IPU_UTIL then sm_min_ipu_util (SM_I sbi) < utilization sbi
          else if policy = F2FS_IPU_SSR_UTIL then need_SSR sbi \<and> sm_min_ipu_util (SM_I sbi) < utilization sbi
          else False)"

text \<open>The number of sections some dirty pages need, rounded up.\<close>

lemma get_blocktype_secs_ceil:
  assumes "0 < sbi_segs_per_sec sbi" and "0 \<le> pages"
    and "nat pages + sbi_segs_per_sec sbi * 2 ^ sbi_log_blocks_per_seg sbi < 2 ^ 32"
  defines "P \<equiv> sbi_segs_per_sec sbi * 2 ^ sbi_log_blocks_per_seg sbi"
  shows "get_blocktype_secs sbi pages = (nat pages + P - 1) div P"
    and "get_blocktype_secs sbi pages * P < nat pages + P" and "nat pages \<le> get_blocktype_secs sbi pages * P"
proof -
  have P: "0 < P" using assms(1) by (simp add: P_def)
  have c: "u32 P = P" "to_u32 pages = nat pages" "u32 (nat pages + P) = nat pages + P"
    "sub32 (nat pages + P) 1 = nat pages + P - 1"
  proof -
    have b: "nat pages + P < 2 ^ 32" using assms(3) by (simp add: P_def)
    then show "u32 P = P" "u32 (nat pages + P) = nat pages + P" by (auto intro!: u32_id)
    have "nat pages < 2 ^ 32" using b by linarith
    then have "pages < 2 ^ 32" using assms(2) by (simp add: nat_less_iff)
    with assms(2) show "to_u32 pages = nat pages" by (rule to_u32_id)
    show "sub32 (nat pages + P) 1 = nat pages + P - 1" using b P by (intro sub32_id) simp_all
  qed
  show e: "get_blocktype_secs sbi pages = (nat pages + P - 1) div P"
    unfolding get_blocktype_secs_def P_def [symmetric] Let_def c drop_bit_eq_div div_mult2_eq [symmetric]
    by (simp add: P_def mult.commute)
  let ?x = "nat pages + P - 1"
  have "?x div P * P \<le> ?x" by simp
  then show "get_blocktype_secs sbi pages * P < nat pages + P" using P unfolding e by linarith
  have "?x < P + ?x div P * P" using P by (simp add: dividend_less_times_div mult.commute)
  then show "nat pages \<le> get_blocktype_secs sbi pages * P" unfolding e using P by linarith
qed

lemma utilization_le:
  assumes "counts_ok sbi"
  shows "utilization sbi = sbi_total_valid_block_count sbi * 100 div sbi_user_block_count sbi" and "utilization sbi \<le> 100"
proof -
  have "sbi_total_valid_block_count sbi * 100 < 2 ^ 64" using assms by (simp add: counts_ok_def)
  then show e: "utilization sbi = sbi_total_valid_block_count sbi * 100 div sbi_user_block_count sbi"
    by (simp add: utilization_def valid_user_blocks_def u64_id)
  have "sbi_total_valid_block_count sbi * 100 div sbi_user_block_count sbi
      \<le> sbi_user_block_count sbi * 100 div sbi_user_block_count sbi"
    using assms by (intro div_le_mono mult_le_mono1) (simp add: counts_ok_def)
  also have "\<dots> \<le> 100" by simp
  finally show "utilization sbi \<le> 100" unfolding e .
qed

end
