(* ===== verification/Extent_Cache.thy ===== *)
theory Extent_Cache
  imports Node_Path Segment_Addr
begin

text \<open>
  The extent cache of an inode (\<open>data.c\<close>): one run of blocks that are consecutive in the file
  and on the device.  \<open>update_extent_cache\<close> grows, splits or drops it when a block gets
  another address, \<open>check_extent_cache\<close> answers from it.  \<open>pgoff_t\<close> and \<open>size_t\<close> have 64 bits, the
  fields of the extent 32.
\<close>

definition F2FS_MIN_EXTENT_LEN :: nat where "F2FS_MIN_EXTENT_LEN = 16"

record buffer_head =
  bh_mapped :: bool
  bh_new :: bool
  b_blocknr :: nat
  b_size :: nat

definition map_bh :: "nat \<Rightarrow> buffer_head \<Rightarrow> nat \<Rightarrow> buffer_head" where
  "map_bh blkbits bh block = bh\<lparr>bh_mapped := True, b_blocknr := block, b_size := 2 ^ blkbits\<rparr>"

definition check_extent_cache :: "f2fs_inode_info \<Rightarrow> nat \<Rightarrow> nat \<Rightarrow> buffer_head \<Rightarrow> bool \<times> buffer_head" where
  "check_extent_cache fi blkbits pgofs bh_result =
    (if is_inode_flag_set fi FI_NO_EXTENT then (False, bh_result)
     else if ext_len (fi_ext fi) = 0 then (False, bh_result)
     else
       let start_fofs = ext_fofs (fi_ext fi);
           end_fofs = sub32 (u32 (ext_fofs (fi_ext fi) + ext_len (fi_ext fi))) 1;
           start_blkaddr = ext_blk_addr (fi_ext fi)
       in if start_fofs \<le> pgofs \<and> pgofs \<le> end_fofs then
            (let bh_result = map_bh blkbits (bh_result\<lparr>bh_new := False\<rparr>) (sub64 (u64 (start_blkaddr + pgofs)) start_fofs);
                 count = u64 (sub64 end_fofs pgofs + 1)
             in (True, bh_result\<lparr>b_size := (if count < UINT_MAX div 2 ^ blkbits then u64 (count * 2 ^ blkbits) else UINT_MAX)\<rparr>))
          else (False, bh_result))"

text \<open>What \<open>update_extent_cache\<close> does with the extent when the block \<open>fofs\<close> of the file gets the
  address \<open>blk_addr\<close>; the first component is \<open>need_update\<close>.\<close>

definition update_extent :: "f2fs_env \<Rightarrow> f2fs_inode_info \<Rightarrow> nat \<Rightarrow> nat \<Rightarrow> bool \<times> f2fs_inode_info" where
  "update_extent E fi fofs blk_addr =
    (let ext = fi_ext fi;
         start_fofs = ext_fofs ext;
         end_fofs = sub32 (u32 (ext_fofs ext + ext_len ext)) 1;
         start_blkaddr = ext_blk_addr ext;
         end_blkaddr = sub32 (u32 (ext_blk_addr ext + ext_len ext)) 1;
         ext = (if ext_len ext = 1 \<and> fofs = start_fofs then ext\<lparr>ext_len := 0\<rparr> else ext)
     in if ext_len ext = 0 then
          (True, if blk_addr \<noteq> NULL_ADDR E
                 then fi\<lparr>fi_ext := \<lparr> ext_fofs = fofs, ext_blk_addr = blk_addr, ext_len = 1 \<rparr>\<rparr>
                 else fi\<lparr>fi_ext := ext\<rparr>)
        else if fofs = sub64 start_fofs 1 \<and> blk_addr = sub32 start_blkaddr 1 then
          (True, fi\<lparr>fi_ext := \<lparr> ext_fofs = sub32 (ext_fofs ext) 1, ext_blk_addr = sub32 (ext_blk_addr ext) 1,
             ext_len = u32 (ext_len ext + 1) \<rparr>\<rparr>)
        else if fofs = u64 (end_fofs + 1) \<and> blk_addr = u32 (end_blkaddr + 1) then
          (True, fi\<lparr>fi_ext := ext\<lparr>ext_len := u32 (ext_len ext + 1)\<rparr>\<rparr>)
        else
          let (need_update, ext) =
                (if 1 < ext_len ext \<and> start_fofs \<le> fofs \<and> fofs \<le> end_fofs then
                   (True, if sub64 end_fofs fofs < ext_len ext div 2 then ext\<lparr>ext_len := u32 (sub64 fofs start_fofs)\<rparr>
                    else \<lparr> ext_fofs = u32 (fofs + 1),
                           ext_blk_addr = u32 (sub64 (u64 (start_blkaddr + fofs)) start_fofs + 1),
                           ext_len = u32 (sub64 (ext_len ext) (u64 (sub64 fofs start_fofs + 1))) \<rparr>)
                 else (False, ext))
          in if ext_len ext < F2FS_MIN_EXTENT_LEN
             then (True, set_inode_flag (fi\<lparr>fi_ext := ext\<lparr>ext_len := 0\<rparr>\<rparr>) FI_NO_EXTENT)
             else (need_update, fi\<lparr>fi_ext := ext\<rparr>))"

section \<open>The cache tells the truth\<close>

text \<open>\<open>tab\<close> gives the address of every block of the file.  The two flags exclude each other:
  once the cache is switched off it is empty.\<close>

definition extent_ok :: "f2fs_inode_info \<Rightarrow> (nat \<Rightarrow> nat) \<Rightarrow> bool" where
  "extent_ok fi tab \<longleftrightarrow>
     (let e = fi_ext fi
      in ext_fofs e + ext_len e \<le> 2 ^ 31
        \<and> (0 < ext_len e \<longrightarrow> 1 < ext_blk_addr e \<and> ext_blk_addr e + ext_len e < 2 ^ 32 \<and> \<not> is_inode_flag_set fi FI_NO_EXTENT)
        \<and> (\<forall>i<ext_len e. tab (ext_fofs e + i) = ext_blk_addr e + i))"

lemma extent_okD:
  assumes "extent_ok fi tab"
  shows "ext_fofs (fi_ext fi) + ext_len (fi_ext fi) \<le> 2 ^ 31"
    "0 < ext_len (fi_ext fi) \<Longrightarrow> 1 < ext_blk_addr (fi_ext fi)"
    "0 < ext_len (fi_ext fi) \<Longrightarrow> ext_blk_addr (fi_ext fi) + ext_len (fi_ext fi) < 2 ^ 32"
    "0 < ext_len (fi_ext fi) \<Longrightarrow> \<not> is_inode_flag_set fi FI_NO_EXTENT"
    "\<And>i. i < ext_len (fi_ext fi) \<Longrightarrow> tab (ext_fofs (fi_ext fi) + i) = ext_blk_addr (fi_ext fi) + i"
  using assms unfolding extent_ok_def Let_def by blast+

lemma extent_okI:
  assumes "f + l \<le> 2 ^ 31" and "0 < l \<Longrightarrow> 1 < b" and "0 < l \<Longrightarrow> b + l < 2 ^ 32" and "0 < l \<Longrightarrow> \<not> is_inode_flag_set fi FI_NO_EXTENT"
    and "\<And>i. i < l \<Longrightarrow> tab (f + i) = b + i"
  shows "extent_ok (fi\<lparr>fi_ext := \<lparr> ext_fofs = f, ext_blk_addr = b, ext_len = l \<rparr>\<rparr>) tab"
  using assms by (simp add: extent_ok_def is_inode_flag_set_def)

text \<open>Blocks outside the extent can change without it.\<close>

lemma extent_ok_outside:
  assumes "extent_ok fi tab" and "\<And>i. i < ext_len (fi_ext fi) \<Longrightarrow> tab' (ext_fofs (fi_ext fi) + i) = tab (ext_fofs (fi_ext fi) + i)"
  shows "extent_ok fi tab'"
  using assms by (simp add: extent_ok_def Let_def)

lemma extent_ok_hole:
  assumes ok: "extent_ok fi tab" and h: "tab b = 0"
  shows "extent_ok fi (tab(b := a))"
proof (rule extent_ok_outside [OF ok])
  show "(tab(b := a)) (ext_fofs (fi_ext fi) + i) = tab (ext_fofs (fi_ext fi) + i)" if "i < ext_len (fi_ext fi)" for i
    using extent_okD(2,5) [OF ok] that h by fastforce
qed

text \<open>The address of one block changes: the case that touches the extent in its middle.\<close>

lemma extent_ok_front:
  assumes ok: "extent_ok fi tab" and n: "n \<le> ext_len (fi_ext fi)"
  shows "extent_ok (fi\<lparr>fi_ext := (fi_ext fi)\<lparr>ext_len := n\<rparr>\<rparr>) (tab(ext_fofs (fi_ext fi) + n := a))"
  using extent_okD [OF ok] n by (auto simp: extent_ok_def is_inode_flag_set_def)

lemma extent_ok_back:
  assumes ok: "extent_ok fi tab" and n: "n < ext_len (fi_ext fi)"
  shows "extent_ok (fi\<lparr>fi_ext := \<lparr> ext_fofs = ext_fofs (fi_ext fi) + n + 1, ext_blk_addr = ext_blk_addr (fi_ext fi) + n + 1,
       ext_len = ext_len (fi_ext fi) - (n + 1) \<rparr>\<rparr>) (tab(ext_fofs (fi_ext fi) + n := a))"
proof (rule extent_okI)
  show "(tab(ext_fofs (fi_ext fi) + n := a)) (ext_fofs (fi_ext fi) + n + 1 + i) = ext_blk_addr (fi_ext fi) + n + 1 + i"
    if "i < ext_len (fi_ext fi) - (n + 1)" for i
    using extent_okD(5) [OF ok, of "n + 1 + i"] that by (simp add: add.assoc)
qed (use extent_okD(1-4) [OF ok] n in auto)

lemma extent_ok_empty:
  assumes "ext_fofs e \<le> 2 ^ 31" and "ext_len e = 0"
  shows "extent_ok (fi\<lparr>fi_ext := e\<rparr>) tab" "extent_ok (set_inode_flag (fi\<lparr>fi_ext := e\<rparr>) flag) tab"
  using assms by (simp_all add: extent_ok_def set_inode_flag_def)

section \<open>An update keeps it\<close>

definition block_addr :: "nat \<Rightarrow> bool" where
  "block_addr a \<longleftrightarrow> 1 < a \<and> a < 2 ^ 32 - 1"

text \<open>The values \<open>update_extent\<close> starts from, without the wrap-around.\<close>

lemma extent_ends:
  assumes ok: "extent_ok fi tab" and l: "0 < ext_len (fi_ext fi)"
  shows "sub32 (u32 (ext_fofs (fi_ext fi) + ext_len (fi_ext fi))) 1 = ext_fofs (fi_ext fi) + ext_len (fi_ext fi) - 1"
    "sub32 (u32 (ext_blk_addr (fi_ext fi) + ext_len (fi_ext fi))) 1 = ext_blk_addr (fi_ext fi) + ext_len (fi_ext fi) - 1"
proof -
  have "(2::nat) ^ 31 < 2 ^ 32" by simp
  then show "sub32 (u32 (ext_fofs (fi_ext fi) + ext_len (fi_ext fi))) 1 = ext_fofs (fi_ext fi) + ext_len (fi_ext fi) - 1"
    using extent_okD(1) [OF ok] l by (subst u32_id; simp add: sub32_id)
  show "sub32 (u32 (ext_blk_addr (fi_ext fi) + ext_len (fi_ext fi))) 1 = ext_blk_addr (fi_ext fi) + ext_len (fi_ext fi) - 1"
    using extent_okD(3) [OF ok l] l by (subst u32_id; simp add: sub32_id)
qed

lemma extent_merge_front:
  assumes ok: "extent_ok fi tab" and l: "0 < ext_len (fi_ext fi)" and f: "fofs + 1 = ext_fofs (fi_ext fi)"
    and a: "a + 1 = ext_blk_addr (fi_ext fi)" "1 < a"
  shows "extent_ok (fi\<lparr>fi_ext := \<lparr> ext_fofs = fofs, ext_blk_addr = a, ext_len = ext_len (fi_ext fi) + 1 \<rparr>\<rparr>) (tab(fofs := a))"
proof (rule extent_okI)
  show "(tab(fofs := a)) (fofs + i) = a + i" if "i < ext_len (fi_ext fi) + 1" for i
  proof (cases i)
    case (Suc j)
    then have "tab ((fofs + 1) + j) = (a + 1) + j" using extent_okD(5) [OF ok, of j] that f a by simp
    then show ?thesis using Suc by (simp add: add.assoc)
  qed simp
qed (use extent_okD(1-4) [OF ok] l f a in auto)

lemma extent_merge_back:
  assumes ok: "extent_ok fi tab" and l: "0 < ext_len (fi_ext fi)" and f: "fofs = ext_fofs (fi_ext fi) + ext_len (fi_ext fi)" "fofs < 2 ^ 31"
    and a: "a = ext_blk_addr (fi_ext fi) + ext_len (fi_ext fi)" "block_addr a"
  shows "extent_ok (fi\<lparr>fi_ext := (fi_ext fi)\<lparr>ext_len := ext_len (fi_ext fi) + 1\<rparr>\<rparr>) (tab(fofs := a))"
  unfolding extent_ok_def Let_def
  using extent_okD [OF ok] l f a by (auto simp: block_addr_def is_inode_flag_set_def less_Suc_eq)

text \<open>The update without the wrap-around.\<close>

lemma update_extent_eq:
  assumes E: "addr_consts E" and ok: "extent_ok fi tab" and f: "fofs < 2 ^ 31" and a: "a = 0 \<or> block_addr a"
    and l: "0 < ext_len (fi_ext fi)" "\<not> (ext_len (fi_ext fi) = 1 \<and> fofs = ext_fofs (fi_ext fi))"
  shows "snd (update_extent E fi fofs a) =
    (let e = fi_ext fi
     in if fofs + 1 = ext_fofs e \<and> a + 1 = ext_blk_addr e
        then fi\<lparr>fi_ext := \<lparr> ext_fofs = fofs, ext_blk_addr = a, ext_len = ext_len e + 1 \<rparr>\<rparr>
        else if fofs = ext_fofs e + ext_len e \<and> a = ext_blk_addr e + ext_len e
        then fi\<lparr>fi_ext := e\<lparr>ext_len := ext_len e + 1\<rparr>\<rparr>
        else
          let n = fofs - ext_fofs e;
              e = (if ext_fofs e \<le> fofs \<and> n < ext_len e then
                     (if ext_len e - 1 - n < ext_len e div 2 then e\<lparr>ext_len := n\<rparr>
                      else \<lparr> ext_fofs = ext_fofs e + n + 1, ext_blk_addr = ext_blk_addr e + n + 1, ext_len = ext_len e - (n + 1) \<rparr>)
                   else e)
          in if ext_len e < F2FS_MIN_EXTENT_LEN then set_inode_flag (fi\<lparr>fi_ext := e\<lparr>ext_len := 0\<rparr>\<rparr>) FI_NO_EXTENT
             else fi\<lparr>fi_ext := e\<rparr>)"
proof -
  note D = extent_okD(1) [OF ok] extent_okD(2-4) [OF ok l(1)]
  obtain f b n where e: "fi_ext fi = \<lparr> ext_fofs = f, ext_blk_addr = b, ext_len = n \<rparr>" by (cases "fi_ext fi") auto
  have B: "f + n \<le> 2 ^ 31" "1 < b" "b + n < 2 ^ 32" "0 < n" "\<not> (n = 1 \<and> fofs = f)" using D l e by auto
  have N: "NULL_ADDR E = 0" using E by (simp add: addr_consts_def)
  have ends: "sub32 (u32 (f + n)) 1 = f + n - 1" "sub32 (u32 (b + n)) 1 = b + n - 1"
    using extent_ends [OF ok l(1)] e by simp_all
  have front: "fofs = sub64 f 1 \<and> a = sub32 b 1 \<longleftrightarrow> fofs + 1 = f \<and> a + 1 = b"
    using f B(1,2,3) by (cases f) (auto simp: sub64_def u64_def casts)
  have behind: "fofs = u64 (f + n - 1 + 1) \<and> a = u32 (b + n - 1 + 1) \<longleftrightarrow> fofs = f + n \<and> a = b + n"
    using B(1,3,4) by (simp add: casts)
  have mid: "1 < n \<and> f \<le> fofs \<and> fofs \<le> f + n - 1 \<longleftrightarrow> f \<le> fofs \<and> fofs - f < n" using B(4,5) by auto
  have inside: "sub64 (f + n - 1) fofs = n - 1 - (fofs - f)" "u32 (sub64 fofs f) = fofs - f" "u32 (fofs + 1) = f + (fofs - f) + 1"
      "u32 (sub64 (u64 (b + fofs)) f + 1) = b + (fofs - f) + 1" "u32 (sub64 n (u64 (sub64 fofs f + 1))) = n - (fofs - f + 1)"
    if i: "f \<le> fofs \<and> fofs - f < n"
  proof -
    from i obtain k where k: "fofs = f + k" "k < n" by (metis le_add_diff_inverse)
    have "f + k < 2 ^ 32" "b + k + 1 < 2 ^ 32" "b + (f + k) < 2 ^ 64" using B(1,3) k by auto
    then show "sub64 (f + n - 1) fofs = n - 1 - (fofs - f)" "u32 (sub64 fofs f) = fofs - f" "u32 (fofs + 1) = f + (fofs - f) + 1"
      "u32 (sub64 (u64 (b + fofs)) f + 1) = b + (fofs - f) + 1" "u32 (sub64 n (u64 (sub64 fofs f + 1))) = n - (fofs - f + 1)"
      using B(1,3) f unfolding k(1) using k(2) by (simp_all add: casts)
  qed
  have merge: "sub32 f 1 = fofs" "sub32 b 1 = a" if "fofs + 1 = f \<and> a + 1 = b" using that front B by (auto simp: casts)
  have grow: "u32 (n + 1) = n + 1" using B(2,3) by (simp add: casts)
  have n: "(n = 1 \<and> fofs = f) = False" "(n = 0) = False" using B(4,5) by auto
  note plain = update_extent_def Let_def e extent_info.select_convs N ends n if_False front behind mid grow
  consider "fofs + 1 = f \<and> a + 1 = b" | "\<not> (fofs + 1 = f \<and> a + 1 = b)" "fofs = f + n \<and> a = b + n"
    | "\<not> (fofs + 1 = f \<and> a + 1 = b)" "\<not> (fofs = f + n \<and> a = b + n)" "f \<le> fofs \<and> fofs - f < n"
    | "\<not> (fofs + 1 = f \<and> a + 1 = b)" "\<not> (fofs = f + n \<and> a = b + n)" "\<not> (f \<le> fofs \<and> fofs - f < n)" by blast
  then show ?thesis
  proof cases
    case 1
    show ?thesis unfolding plain unfolding merge [OF 1] if_P [OF 1] by simp
  next
    case 2
    show ?thesis unfolding plain if_not_P [OF 2(1)] if_P [OF 2(2)] by simp
  next
    case 3
    show ?thesis unfolding plain unfolding if_not_P [OF 3(1)] if_not_P [OF 3(2)] if_P [OF 3(3)] inside [OF 3(3)] by simp
  next
    case 4
    show ?thesis unfolding plain if_not_P [OF 4(1)] if_not_P [OF 4(2)] if_not_P [OF 4(3)] by simp
  qed
qed

lemma update_extent_ok:
  assumes E: "addr_consts E" and ok: "extent_ok fi tab" and f: "fofs < 2 ^ 31" and a: "a = 0 \<or> block_addr a"
    and flag: "\<not> is_inode_flag_set fi FI_NO_EXTENT"
  shows "extent_ok (snd (update_extent E fi fofs a)) (tab(fofs := a))"
proof -
  let ?e = "fi_ext fi"
  note D = extent_okD [OF ok]
  have N: "NULL_ADDR E = 0" using E by (simp add: addr_consts_def)
  show ?thesis
  proof (cases "ext_len ?e = 0 \<or> ext_len ?e = 1 \<and> fofs = ext_fofs ?e")
    case True
    then have "snd (update_extent E fi fofs a) = (if a \<noteq> 0 then fi\<lparr>fi_ext := \<lparr> ext_fofs = fofs, ext_blk_addr = a, ext_len = 1 \<rparr>\<rparr>
      else fi\<lparr>fi_ext := ?e\<lparr>ext_len := 0\<rparr>\<rparr>)"
      using N by (elim disjE) (simp_all add: update_extent_def cong: if_weak_cong)
    moreover have "extent_ok (fi\<lparr>fi_ext := \<lparr> ext_fofs = fofs, ext_blk_addr = a, ext_len = 1 \<rparr>\<rparr>) (tab(fofs := a))" if "a \<noteq> 0"
      by (rule extent_okI) (use f a flag that in \<open>auto simp: block_addr_def\<close>)
    ultimately show ?thesis using extent_ok_empty(1) [of "?e\<lparr>ext_len := 0\<rparr>"] D(1) by auto
  next
    case False
    then have l: "0 < ext_len ?e" "\<not> (ext_len ?e = 1 \<and> fofs = ext_fofs ?e)" by simp_all
    define n where "n = fofs - ext_fofs ?e"
    define e where "e = (if ext_fofs ?e \<le> fofs \<and> n < ext_len ?e then
                     (if ext_len ?e - 1 - n < ext_len ?e div 2 then ?e\<lparr>ext_len := n\<rparr>
                      else \<lparr> ext_fofs = ext_fofs ?e + n + 1, ext_blk_addr = ext_blk_addr ?e + n + 1, ext_len = ext_len ?e - (n + 1) \<rparr>)
                   else ?e)"
    have split: "extent_ok (fi\<lparr>fi_ext := e\<rparr>) (tab(fofs := a))"
    proof (cases "ext_fofs ?e \<le> fofs \<and> n < ext_len ?e")
      case True
      then have "fofs = ext_fofs ?e + n" by (simp add: n_def)
      then show ?thesis using extent_ok_front [OF ok, of n a] extent_ok_back [OF ok, of n a] True by (simp add: e_def)
    next
      case False
      then have "ext_fofs ?e + i \<noteq> fofs" if "i < ext_len ?e" for i using that by (auto simp: n_def)
      then have "extent_ok fi (tab(fofs := a))" by (intro extent_ok_outside [OF ok]) simp
      then show ?thesis unfolding e_def if_not_P [OF False] by simp
    qed
    have small: "extent_ok (set_inode_flag (fi\<lparr>fi_ext := e\<lparr>ext_len := 0\<rparr>\<rparr>) FI_NO_EXTENT) (tab(fofs := a))"
      using extent_okD(1) [OF split] by (intro extent_ok_empty) simp_all
    have u: "snd (update_extent E fi fofs a) =
      (if fofs + 1 = ext_fofs ?e \<and> a + 1 = ext_blk_addr ?e
       then fi\<lparr>fi_ext := \<lparr> ext_fofs = fofs, ext_blk_addr = a, ext_len = ext_len ?e + 1 \<rparr>\<rparr>
       else if fofs = ext_fofs ?e + ext_len ?e \<and> a = ext_blk_addr ?e + ext_len ?e
       then fi\<lparr>fi_ext := ?e\<lparr>ext_len := ext_len ?e + 1\<rparr>\<rparr>
       else if ext_len e < F2FS_MIN_EXTENT_LEN then set_inode_flag (fi\<lparr>fi_ext := e\<lparr>ext_len := 0\<rparr>\<rparr>) FI_NO_EXTENT
       else fi\<lparr>fi_ext := e\<rparr>)"
      unfolding update_extent_eq [OF E ok f a l] Let_def n_def [symmetric] e_def [symmetric] ..
    have "extent_ok (fi\<lparr>fi_ext := \<lparr> ext_fofs = fofs, ext_blk_addr = a, ext_len = ext_len ?e + 1 \<rparr>\<rparr>) (tab(fofs := a))"
      if "fofs + 1 = ext_fofs ?e \<and> a + 1 = ext_blk_addr ?e"
      using extent_merge_front [OF ok l(1)] that a D(2) l(1) by (auto simp: block_addr_def)
    moreover have "extent_ok (fi\<lparr>fi_ext := ?e\<lparr>ext_len := ext_len ?e + 1\<rparr>\<rparr>) (tab(fofs := a))"
      if "fofs = ext_fofs ?e + ext_len ?e \<and> a = ext_blk_addr ?e + ext_len ?e"
      using extent_merge_back [OF ok l(1) _ f] that a D(2) l(1) by auto
    ultimately show ?thesis using split small unfolding u by presburger
  qed
qed

section \<open>An answer is right\<close>

lemma check_extent_cache_ok:
  assumes ok: "extent_ok fi tab" and bits: "blkbits < 32" and c: "check_extent_cache fi blkbits b bh = (True, bh')"
  shows "bh_mapped bh'" "\<not> bh_new bh'" "b_blocknr bh' = tab b"
    "\<And>i. i < b_size bh' div 2 ^ blkbits \<Longrightarrow> tab (b + i) = tab b + i"
proof -
  obtain f a n where e: "fi_ext fi = \<lparr> ext_fofs = f, ext_blk_addr = a, ext_len = n \<rparr>" by (cases "fi_ext fi") auto
  have n: "0 < n" using c e by (auto simp: check_extent_cache_def split: if_splits)
  note D = extent_okD(1) [OF ok] extent_okD(2,3) [OF ok] extent_okD(5) [OF ok]
  have B: "f + n \<le> 2 ^ 31" "1 < a" "a + n < 2 ^ 32" using D n e by auto
  have tab: "tab (f + i) = a + i" if "i < n" for i using D(4) [of i] that e by simp
  have ends: "sub32 (u32 (f + n)) 1 = f + n - 1" using extent_ends(1) [OF ok] n e by simp
  from c e n ends have r: "f \<le> b" "b \<le> f + n - 1" by (auto simp: check_extent_cache_def Let_def split: if_splits)
  define k where "k = b - f"
  have k: "b = f + k" "k < n" using r n by (auto simp: k_def)
  have v: "sub64 (u64 (a + b)) f = a + k" "u64 (sub64 (f + n - 1) b + 1) = n - k"
  proof -
    have "a + (f + k) < 2 ^ 64" "a + k < 2 ^ 64" "f + n < 2 ^ 64" using B k(2) by auto
    then show "sub64 (u64 (a + b)) f = a + k" "u64 (sub64 (f + n - 1) b + 1) = n - k"
      using k(2) unfolding k(1) by (simp_all add: casts)
  qed
  have "bh' = (map_bh blkbits (bh\<lparr>bh_new := False\<rparr>) (a + k))
      \<lparr>b_size := (if n - k < UINT_MAX div 2 ^ blkbits then u64 ((n - k) * 2 ^ blkbits) else UINT_MAX)\<rparr>"
    using c e n ends r v by (auto simp: check_extent_cache_def Let_def split: if_splits)
  then have bh': "bh_mapped bh'" "\<not> bh_new bh'" "b_blocknr bh' = a + k"
      "b_size bh' = (if n - k < UINT_MAX div 2 ^ blkbits then u64 ((n - k) * 2 ^ blkbits) else UINT_MAX)"
    by (simp_all add: map_bh_def)
  then show "bh_mapped bh'" "\<not> bh_new bh'" "b_blocknr bh' = tab b" using tab [OF k(2)] k(1) by simp_all
  have "b_size bh' div 2 ^ blkbits \<le> n - k"
  proof (cases "n - k < UINT_MAX div 2 ^ blkbits")
    case True
    then have "(n - k) * 2 ^ blkbits \<le> UINT_MAX" by (simp add: less_eq_div_iff_mult_less_eq [symmetric])
    then have "(n - k) * 2 ^ blkbits < 2 ^ 64" by (simp add: UINT_MAX_def)
    then show ?thesis using True bh'(4) by (simp add: u64_id)
  qed (use bh'(4) in simp)
  then show "tab (b + i) = tab b + i" if "i < b_size bh' div 2 ^ blkbits" for i
    using tab [of k] tab [of "k + i"] that k by (simp add: add.assoc)
qed

end
