(* ===== verification/Node_Store.thy ===== *)
theory Node_Store
  imports Nat_Ops Space Extent_Cache
begin

text \<open>
  Node blocks in memory and on disk (\<open>node.c\<close>, \<open>node.h\<close>, \<open>inode.c\<close>): reading the block of a node id,
  making a new one, and \<open>get_dnode_of_data\<close>, which walks from the inode to the direct node of
  a file block and makes the missing nodes on the way.

  The pages of the address space of nodes are a map from node ids, the device a map from block
  addresses.  A page that a caller holds is named by its node id.  Getting memory for a page
  does not fail, and reading ahead the siblings of a node changes nothing that is read later.
\<close>

section \<open>Data\<close>

datatype errno = EPERM | ENOENT | EIO | ENOSPC | EINVAL

text \<open>The fields of an inode block that the model keeps, and a node block: \<open>nb_addr\<close> is \<open>i_addr\<close> of an
  inode block and \<open>addr\<close> of a direct node, \<open>nb_nid\<close> is \<open>i_nid\<close> of an inode block and \<open>nid\<close> of an
  indirect node.\<close>

record raw_inode =
  ri_size :: nat
  ri_blocks :: nat
  ri_ext :: extent_info
  ri_inline_xattr :: bool
  ri_inline_data :: bool
  ri_xattr_nid :: nat

record node_block =
  nb_footer :: node_footer
  nb_inode :: raw_inode
  nb_addr :: "nat \<Rightarrow> nat"
  nb_nid :: "nat \<Rightarrow> nat"

datatype disk_block = Node_block node_block | Data_block "8 word list"

record inode =
  i_ino :: nat
  i_dir :: bool
  i_size :: nat
  i_blocks :: nat
  i_info :: f2fs_inode_info

record dnode_of_data =
  dn_inode :: inode
  dn_inode_page :: bool
  dn_node_page :: "nat option"
  dn_nid :: nat
  dn_ofs_in_node :: nat
  dn_data_blkaddr :: nat

record fs_state =
  fs_sbi :: f2fs_sb_info
  fs_nat :: nat_state
  fs_pages :: "nat \<Rightarrow> node_block option"
  fs_disk :: "nat \<Rightarrow> disk_block option"

datatype lookup_mode = ALLOC_NODE | LOOKUP_NODE | LOOKUP_NODE_RA

definition FI_DIRTY_INODE :: nat where "FI_DIRTY_INODE = 1"

text \<open>A block of zeros.\<close>

definition zero_inode :: raw_inode where
  "zero_inode = \<lparr> ri_size = 0, ri_blocks = 0, ri_ext = \<lparr> ext_fofs = 0, ext_blk_addr = 0, ext_len = 0 \<rparr>,
     ri_inline_xattr = False, ri_inline_data = False, ri_xattr_nid = 0 \<rparr>"

definition zero_block :: node_block where
  "zero_block = \<lparr> nb_footer = zero_footer, nb_inode = zero_inode, nb_addr = (\<lambda>_. 0), nb_nid = (\<lambda>_. 0) \<rparr>"

definition set_new_dnode :: "inode \<Rightarrow> bool \<Rightarrow> nat option \<Rightarrow> nat \<Rightarrow> dnode_of_data" where
  "set_new_dnode inode ipage npage nid =
     \<lparr> dn_inode = inode, dn_inode_page = ipage, dn_node_page = npage, dn_nid = nid, dn_ofs_in_node = 0, dn_data_blkaddr = 0 \<rparr>"

definition RAW_IS_INODE :: "node_block \<Rightarrow> bool" where
  "RAW_IS_INODE p \<longleftrightarrow> ft_nid (nb_footer p) = ft_ino (nb_footer p)"

definition nid_index :: "node_layout \<Rightarrow> nat \<Rightarrow> bool \<Rightarrow> nat" where
  "nid_index L off i = (if i then off - NODE_DIR1_BLOCK L else off)"

definition get_nid :: "node_layout \<Rightarrow> node_block \<Rightarrow> nat \<Rightarrow> bool \<Rightarrow> nat" where
  "get_nid L p off i = nb_nid p (nid_index L off i)"

definition set_nid :: "node_layout \<Rightarrow> nat \<Rightarrow> nat \<Rightarrow> nat \<Rightarrow> bool \<Rightarrow> fs_state \<Rightarrow> fs_state" where
  "set_nid L p off nid i st = st\<lparr>fs_pages := (fs_pages st)(p := map_option
     (\<lambda>rn. rn\<lparr>nb_nid := (nb_nid rn)(nid_index L off i := nid)\<rparr>) (fs_pages st p))\<rparr>"

definition datablock_addr :: "node_block \<Rightarrow> nat \<Rightarrow> nat" where
  "datablock_addr p offset = nb_addr p offset"

definition set_summary :: "nat \<Rightarrow> nat \<Rightarrow> nat \<Rightarrow> f2fs_summary" where
  "set_summary nid ofs_in_node version = \<lparr> sum_nid = nid, sum_ofs_in_node = ofs_in_node, sum_version = version \<rparr>"

section \<open>The inode's own block\<close>

definition update_inode :: "node_layout \<Rightarrow> inode \<Rightarrow> node_block \<Rightarrow> node_block" where
  "update_inode L inode p =
     p\<lparr>nb_inode := \<lparr> ri_size = i_size inode, ri_blocks = i_blocks inode, ri_ext = fi_ext (i_info inode),
          ri_inline_xattr = is_inode_flag_set (i_info inode) FI_INLINE_XATTR,
          ri_inline_data = is_inode_flag_set (i_info inode) FI_INLINE_DATA,
          ri_xattr_nid = fi_i_xattr_nid (i_info inode) \<rparr>,
       nb_footer := set_cold_node L (i_dir inode) (nb_footer p)\<rparr>"

text \<open>\<open>update_inode\<close> leaves the in-memory inode clean; marking it dirty is \<open>f2fs_dirty_inode\<close>.\<close>

definition clean_inode :: "inode \<Rightarrow> inode" where
  "clean_inode inode = inode\<lparr>i_info := clear_inode_flag (i_info inode) FI_DIRTY_INODE\<rparr>"

definition mark_inode_dirty :: "inode \<Rightarrow> inode" where
  "mark_inode_dirty inode = inode\<lparr>i_info := set_inode_flag (i_info inode) FI_DIRTY_INODE\<rparr>"

definition put_inode :: "node_layout \<Rightarrow> nat \<Rightarrow> inode \<Rightarrow> fs_state \<Rightarrow> fs_state" where
  "put_inode L nid inode st = st\<lparr>fs_pages := (fs_pages st)(nid := map_option (update_inode L inode) (fs_pages st nid))\<rparr>"

section \<open>Reading a node\<close>

text \<open>The node page is read from the address the table gives, unless it is in memory.\<close>

definition read_node_page :: "node_layout \<Rightarrow> f2fs_env \<Rightarrow> fs_state \<Rightarrow> nat \<Rightarrow> (errno + node_block) \<times> fs_state" where
  "read_node_page L E st nid =
    (let (ni, nat) = get_node_info L (fs_sbi st) (fs_nat st) nid;
         st = st\<lparr>fs_nat := nat\<rparr>
     in if ni_blk_addr ni = NULL_ADDR E then (Inl ENOENT, st)
        else case fs_pages st nid of
          Some p \<Rightarrow> (Inr p, st)
        | None \<Rightarrow> (case fs_disk st (ni_blk_addr ni) of
            Some (Node_block p) \<Rightarrow> (Inr p, st\<lparr>fs_pages := (fs_pages st)(nid \<mapsto> p)\<rparr>)
          | _ \<Rightarrow> (Inl EIO, st)))"

definition get_node_page :: "f2fs_env \<Rightarrow> node_layout \<Rightarrow> fs_state \<Rightarrow> nat \<Rightarrow> ((errno + node_block) \<times> fs_state) option" where
  "get_node_page E L st nid =
    (case read_node_page L E st nid of
       (Inl e, st) \<Rightarrow> Some (Inl e, st)
     | (Inr p, st) \<Rightarrow> do {
         f2fs_bug_on E (nid \<noteq> ft_nid (nb_footer p));
         Some (Inr p, st) })"

definition get_node_page_ra ::
  "f2fs_env \<Rightarrow> node_layout \<Rightarrow> fs_state \<Rightarrow> node_block \<Rightarrow> nat \<Rightarrow> (errno + node_block) \<times> fs_state" where
  "get_node_page_ra E L st parent start =
    (let nid = get_nid L parent start False
     in if nid = 0 then (Inl ENOENT, st) else read_node_page L E st nid)"

definition update_inode_page :: "f2fs_env \<Rightarrow> node_layout \<Rightarrow> inode \<Rightarrow> fs_state \<Rightarrow> ((errno + inode) \<times> fs_state) option" where
  "update_inode_page E L inode st = do {
     (r, st) \<leftarrow> get_node_page E L st (i_ino inode);
     case r of Inl e \<Rightarrow> Some (Inl e, st)
     | Inr _ \<Rightarrow> Some (Inr (clean_inode inode), put_inode L (i_ino inode) inode st) }"

definition sync_inode_page :: "f2fs_env \<Rightarrow> node_layout \<Rightarrow> dnode_of_data \<Rightarrow> fs_state \<Rightarrow> (dnode_of_data \<times> fs_state) option" where
  "sync_inode_page E L dn st = do {
     npage \<leftarrow> dn_node_page dn;
     p \<leftarrow> fs_pages st npage;
     let inode = dn_inode dn;
     if RAW_IS_INODE p then Some (dn\<lparr>dn_inode := clean_inode inode\<rparr>, put_inode L npage inode st)
     else if dn_inode_page dn then Some (dn\<lparr>dn_inode := clean_inode inode\<rparr>, put_inode L (i_ino inode) inode st)
     else do {
       (r, st) \<leftarrow> update_inode_page E L inode st;
       Some (case r of Inl _ \<Rightarrow> (dn, st) | Inr inode \<Rightarrow> (dn\<lparr>dn_inode := inode\<rparr>, st)) } }"

section \<open>A new node\<close>

text \<open>\<open>ipage\<close> tells whether the caller passes the page of the inode.\<close>

definition new_node_page ::
  "f2fs_env \<Rightarrow> node_layout \<Rightarrow> dnode_of_data \<Rightarrow> nat \<Rightarrow> bool \<Rightarrow> fs_state \<Rightarrow> ((errno + unit) \<times> dnode_of_data \<times> fs_state) option" where
  "new_node_page E L dn ofs ipage st =
    (let inode = dn_inode dn; nid = dn_nid dn
     in if is_inode_flag_set (i_info inode) FI_NO_ALLOC then Some (Inl EPERM, dn, st)
        else case inc_valid_node_count (fs_sbi st) (Some (i_blocks inode)) of
          (True, Some blocks, sbi) \<Rightarrow> do {
            let inode = inode\<lparr>i_blocks := blocks\<rparr>;
            let (old_ni, nat) = get_node_info L sbi (fs_nat st) nid;
            f2fs_bug_on E (ni_blk_addr old_ni \<noteq> NULL_ADDR E);
            nm \<leftarrow> set_node_addr E (ns_nm nat) (old_ni\<lparr>ni_ino := i_ino inode\<rparr>) (NEW_ADDR E);
            let p = zero_block\<lparr>nb_footer := set_cold_node L (i_dir inode) (fill_node_footer L zero_footer nid (i_ino inode) ofs True)\<rparr>;
            let st = st\<lparr>fs_sbi := sbi, fs_nat := nat\<lparr>ns_nm := nm\<rparr>, fs_pages := (fs_pages st)(nid \<mapsto> p)\<rparr>;
            let inode = (if ofs = XATTR_NODE_OFFSET L then inode\<lparr>i_info := (i_info inode)\<lparr>fi_i_xattr_nid := nid\<rparr>\<rparr> else inode);
            let dn = dn\<lparr>dn_inode := inode, dn_node_page := Some nid\<rparr>;
            (dn, st) \<leftarrow> (if ipage then Some (dn\<lparr>dn_inode := clean_inode inode\<rparr>, put_inode L (i_ino inode) inode st)
                         else sync_inode_page E L dn st);
            sbi \<leftarrow> (if ofs = 0 then inc_valid_inode_count E (fs_sbi st) else Some (fs_sbi st));
            Some (Inr (), dn, st\<lparr>fs_sbi := sbi\<rparr>) }
        | _ \<Rightarrow> Some (Inl ENOSPC, dn, st\<lparr>fs_pages := (fs_pages st)(nid := None)\<rparr>))"

definition new_inode_page :: "f2fs_env \<Rightarrow> node_layout \<Rightarrow> inode \<Rightarrow> fs_state \<Rightarrow> ((errno + unit) \<times> dnode_of_data \<times> fs_state) option" where
  "new_inode_page E L inode st = new_node_page E L (set_new_dnode inode False None (i_ino inode)) 0 False st"

section \<open>The direct node of a file block\<close>

text \<open>One node of the path is made: \<open>nofs\<close> is its offset in the tree, \<open>off\<close> its slot in the parent.\<close>

definition alloc_dnode ::
  "f2fs_env \<Rightarrow> node_layout \<Rightarrow> dnode_of_data \<Rightarrow> nat \<Rightarrow> nat \<Rightarrow> nat \<Rightarrow> bool \<Rightarrow> fs_state
    \<Rightarrow> ((errno + nat) \<times> dnode_of_data \<times> fs_state) option" where
  "alloc_dnode E L dn parent off nofs first st = do {
     (r, nat) \<leftarrow> alloc_nid E L (fs_sbi st) (fs_nat st);
     let st = st\<lparr>fs_nat := nat\<rparr>;
     case r of None \<Rightarrow> Some (Inl ENOSPC, dn, st)
     | Some nid \<Rightarrow> do {
         (r, dn, st) \<leftarrow> new_node_page E L (dn\<lparr>dn_nid := nid\<rparr>) nofs False st;
         case r of
           Inl e \<Rightarrow> do {
             nm \<leftarrow> alloc_nid_failed E L (ns_nm (fs_nat st)) nid;
             Some (Inl e, dn, st\<lparr>fs_nat := (fs_nat st)\<lparr>ns_nm := nm\<rparr>\<rparr>) }
         | Inr _ \<Rightarrow> do {
             let st = set_nid L parent off nid first st;
             nm \<leftarrow> alloc_nid_done E (ns_nm (fs_nat st)) nid;
             Some (Inr nid, dn, st\<lparr>fs_nat := (fs_nat st)\<lparr>ns_nm := nm\<rparr>\<rparr>) } } }"

text \<open>The loop from \<open>i = 1\<close> to \<open>level\<close>: the list pairs \<open>offset[i - 1]\<close> with \<open>noffset[i]\<close>.\<close>

fun dnode_walk ::
  "f2fs_env \<Rightarrow> node_layout \<Rightarrow> lookup_mode \<Rightarrow> (nat \<times> nat) list \<Rightarrow> dnode_of_data \<Rightarrow> nat \<Rightarrow> bool \<Rightarrow> fs_state
    \<Rightarrow> ((errno + nat) \<times> dnode_of_data \<times> fs_state) option" where
  "dnode_walk E L mode [] dn parent first st = Some (Inr parent, dn, st)"
| "dnode_walk E L mode ((off, nofs) # path) dn parent first st = do {
     p \<leftarrow> fs_pages st parent;
     let nid = get_nid L p off first;
     (r, dn, st) \<leftarrow>
       (if nid = 0 \<and> mode = ALLOC_NODE then alloc_dnode E L dn parent off nofs first st
        else if mode = LOOKUP_NODE_RA \<and> path = [] \<and> \<not> first then
          (let (r, st) = get_node_page_ra E L st p off in Some (map_sum id (\<lambda>_. nid) r, dn, st))
        else do {
          (r, st) \<leftarrow> get_node_page E L st nid;
          Some (map_sum id (\<lambda>_. nid) r, dn, st) });
     case r of Inl e \<Rightarrow> Some (Inl e, dn, st)
     | Inr nid \<Rightarrow> dnode_walk E L mode path dn nid False st }"

definition get_dnode_of_data ::
  "f2fs_env \<Rightarrow> node_layout \<Rightarrow> dnode_of_data \<Rightarrow> nat \<Rightarrow> lookup_mode \<Rightarrow> fs_state \<Rightarrow> ((errno + unit) \<times> dnode_of_data \<times> fs_state) option" where
  "get_dnode_of_data E L dn index mode st = do {
     (level, offset, noffset) \<leftarrow> get_node_path L (i_info (dn_inode dn)) index;
     let ino = i_ino (dn_inode dn);
     (r, st) \<leftarrow> (if dn_inode_page dn then Some (Inr (), st)
                 else do { (r, st) \<leftarrow> get_node_page E L st ino; Some (map_sum id (\<lambda>_. ()) r, st) });
     case r of Inl e \<Rightarrow> Some (Inl e, dn, st)
     | Inr _ \<Rightarrow> do {
         (r, dn, st) \<leftarrow> dnode_walk E L mode (zip (butlast offset) (tl noffset)) (dn\<lparr>dn_inode_page := True\<rparr>) ino True st;
         case r of Inl e \<Rightarrow> Some (Inl e, dn\<lparr>dn_inode_page := False, dn_node_page := None\<rparr>, st)
         | Inr nid \<Rightarrow> do {
             p \<leftarrow> fs_pages st nid;
             Some (Inr (), dn\<lparr>dn_nid := nid, dn_ofs_in_node := last offset, dn_node_page := Some nid,
               dn_data_blkaddr := datablock_addr p (last offset)\<rparr>, st) } } }"
end
