(* ===== verification/Orphans.thy ===== *)
theory Orphans
  imports Node_Store
begin

text \<open>
  The orphan inodes of \<open>checkpoint.c\<close>: inodes without a name that are still open.  They are kept in a list
  sorted by number, and a checkpoint writes the list into the pack so that the next mount can
  finish their deletion.  A place in the list is reserved before the last name goes, so the
  checkpoint always has room for it.
\<close>

section \<open>The list\<close>

record orphan_info =
  oi_list :: "nat list"
  oi_n :: nat
  oi_max :: nat

definition init_orphan_info :: "nat \<Rightarrow> f2fs_sb_info \<Rightarrow> orphan_info" where
  "init_orphan_info per_block sbi =
     \<lparr> oi_list = [], oi_n = 0, oi_max = u32 (sub32 (sub32 (sbi_blocks_per_seg sbi) 2) NR_CURSEG_TYPE * per_block) \<rparr>"

definition acquire_orphan_inode :: "orphan_info \<Rightarrow> errno + orphan_info" where
  "acquire_orphan_inode O1 = (if oi_max O1 \<le> oi_n O1 then Inl ENOSPC else Inr (O1\<lparr>oi_n := u32 (oi_n O1 + 1)\<rparr>))"

definition release_orphan_inode :: "f2fs_env \<Rightarrow> orphan_info \<Rightarrow> orphan_info option" where
  "release_orphan_inode E O1 = do {
     f2fs_bug_on E (oi_n O1 = 0);
     Some (O1\<lparr>oi_n := sub32 (oi_n O1) 1\<rparr>) }"

fun insert_orphan :: "nat \<Rightarrow> nat list \<Rightarrow> nat list" where
  "insert_orphan ino [] = [ino]"
| "insert_orphan ino (orphan # rest) =
     (if orphan = ino then orphan # rest
      else if ino < orphan then ino # orphan # rest
      else orphan # insert_orphan ino rest)"

definition add_orphan_inode :: "orphan_info \<Rightarrow> nat \<Rightarrow> orphan_info" where
  "add_orphan_inode O1 ino = O1\<lparr>oi_list := insert_orphan ino (oi_list O1)\<rparr>"

definition remove_orphan_inode :: "f2fs_env \<Rightarrow> orphan_info \<Rightarrow> nat \<Rightarrow> orphan_info option" where
  "remove_orphan_inode E O1 ino =
    (if ino \<in> set (oi_list O1) then do {
       let O1 = O1\<lparr>oi_list := remove1 ino (oi_list O1)\<rparr>;
       f2fs_bug_on E (oi_n O1 = 0);
       Some (O1\<lparr>oi_n := sub32 (oi_n O1) 1\<rparr>) }
     else Some O1)"

section \<open>The blocks\<close>

record orphan_block =
  ob_ino :: "nat list"
  ob_blk_addr :: nat
  ob_blk_count :: nat
  ob_entry_count :: nat

definition orphan_blocks :: "nat \<Rightarrow> orphan_info \<Rightarrow> nat" where
  "orphan_blocks per_block O1 = u32 (oi_n O1 + (per_block - 1)) div per_block"

text \<open>A block with the inodes in \<open>cur\<close>; the rest of it was cleared.\<close>

definition filled_block :: "nat \<Rightarrow> nat list \<Rightarrow> nat \<Rightarrow> nat \<Rightarrow> orphan_block" where
  "filled_block per_block cur index blocks =
     \<lparr> ob_ino = cur @ replicate (per_block - length cur) 0, ob_blk_addr = index, ob_blk_count = blocks, ob_entry_count = length cur \<rparr>"

text \<open>The loop over the list: \<open>cur\<close> are the inodes in the open block, which is empty when no page is held.  Only
  the pages grabbed before are in the page cache.\<close>

fun write_orphan_loop :: "f2fs_env \<Rightarrow> nat \<Rightarrow> nat \<Rightarrow> nat \<Rightarrow> nat \<Rightarrow> nat list \<Rightarrow> nat list \<Rightarrow> (nat \<times> orphan_block) list option" where
  "write_orphan_loop E per_block blocks start_blk index cur [] =
     Some (if cur = [] then [] else [(start_blk, filled_block per_block cur index blocks)])"
| "write_orphan_loop E per_block blocks start_blk index cur (ino # inos) = do {
     f2fs_bug_on E (cur = [] \<and> blocks < index);
     let cur = cur @ [ino];
     if length cur = per_block then do {
       ws \<leftarrow> write_orphan_loop E per_block blocks (u32 (start_blk + 1)) (u16 (index + 1)) [] inos;
       Some ((start_blk, filled_block per_block cur index blocks) # ws) }
     else write_orphan_loop E per_block blocks start_blk index cur inos }"

definition write_orphan_inodes :: "f2fs_env \<Rightarrow> nat \<Rightarrow> orphan_info \<Rightarrow> nat \<Rightarrow> (nat \<times> orphan_block) list option" where
  "write_orphan_inodes E per_block O1 start_blk =
     write_orphan_loop E per_block (u16 (orphan_blocks per_block O1)) start_blk 1 [] (oi_list O1)"

text \<open>The inodes that \<open>recover_orphan_inodes\<close> deletes, from \<open>n\<close> blocks.\<close>

definition orphans_in :: "orphan_block \<Rightarrow> nat list" where
  "orphans_in b = map (\<lambda>j. ob_ino b ! j) [0..<ob_entry_count b]"

definition recovered_orphans :: "(nat \<Rightarrow> orphan_block) \<Rightarrow> nat \<Rightarrow> nat \<Rightarrow> nat list" where
  "recovered_orphans blocks start_blk n = concat (map (\<lambda>i. orphans_in (blocks (u32 (start_blk + i)))) [0..<n])"

section \<open>The list stays sorted and has room\<close>

definition orphans_ok :: "orphan_info \<Rightarrow> bool" where
  "orphans_ok O1 \<longleftrightarrow> sorted_wrt (<) (oi_list O1) \<and> length (oi_list O1) \<le> oi_n O1 \<and> oi_n O1 \<le> oi_max O1 \<and> oi_max O1 < 2 ^ 32"

lemma init_orphans_ok:
  assumes "8 \<le> sbi_blocks_per_seg sbi" and "sbi_blocks_per_seg sbi * per_block < 2 ^ 32" and "sbi_blocks_per_seg sbi < 2 ^ 32"
  shows "orphans_ok (init_orphan_info per_block sbi)" "oi_max (init_orphan_info per_block sbi) = (sbi_blocks_per_seg sbi - 8) * per_block"
proof -
  show "orphans_ok (init_orphan_info per_block sbi)" by (simp add: init_orphan_info_def orphans_ok_def)
  have "sub32 (sub32 (sbi_blocks_per_seg sbi) 2) NR_CURSEG_TYPE = sbi_blocks_per_seg sbi - 8"
    using assms(1,3) by (simp add: NR_CURSEG_TYPE_def sub32_id)
  moreover have "(sbi_blocks_per_seg sbi - 8) * per_block < 2 ^ 32"
    by (rule le_less_trans [OF mult_le_mono1 [OF diff_le_self] assms(2)])
  ultimately show "oi_max (init_orphan_info per_block sbi) = (sbi_blocks_per_seg sbi - 8) * per_block"
    by (simp add: init_orphan_info_def u32_id)
qed

lemma set_insert_orphan [simp]: "set (insert_orphan ino xs) = insert ino (set xs)"
  by (induction xs) auto

lemma sorted_insert_orphan: "sorted_wrt (<) xs \<Longrightarrow> sorted_wrt (<) (insert_orphan ino xs)"
  by (induction xs) auto

lemma length_insert_orphan: "length (insert_orphan ino xs) = (if ino \<in> set xs then length xs else Suc (length xs))"
  if "sorted_wrt (<) xs"
  using that by (induction xs) (auto simp: not_less)

lemma orphan_ops_ok:
  assumes ok: "orphans_ok O1"
  shows "acquire_orphan_inode O1 = Inr O2 \<Longrightarrow> orphans_ok O2 \<and> length (oi_list O2) < oi_n O2"
    "length (oi_list O1) < oi_n O1 \<Longrightarrow> orphans_ok (add_orphan_inode O1 ino)"
    "length (oi_list O1) < oi_n O1 \<Longrightarrow> \<exists>O2. release_orphan_inode E O1 = Some O2 \<and> orphans_ok O2"
    "\<exists>O2. remove_orphan_inode E O1 ino = Some O2 \<and> orphans_ok O2 \<and> set (oi_list O2) = set (oi_list O1) - {ino}"
proof -
  have n: "oi_n O1 < 2 ^ 32" using ok by (simp add: orphans_ok_def)
  show "acquire_orphan_inode O1 = Inr O2 \<Longrightarrow> orphans_ok O2 \<and> length (oi_list O2) < oi_n O2"
    using ok by (auto simp: orphans_ok_def acquire_orphan_inode_def u32_id split: if_splits)
  show "length (oi_list O1) < oi_n O1 \<Longrightarrow> orphans_ok (add_orphan_inode O1 ino)"
    using ok by (auto simp: orphans_ok_def add_orphan_inode_def sorted_insert_orphan length_insert_orphan)
  show "length (oi_list O1) < oi_n O1 \<Longrightarrow> \<exists>O2. release_orphan_inode E O1 = Some O2 \<and> orphans_ok O2"
    using ok n by (auto simp: orphans_ok_def release_orphan_inode_def f2fs_bug_on_def sub32_id)
  have d: "distinct (oi_list O1)" using ok by (auto simp: orphans_ok_def strict_sorted_iff)
  show "\<exists>O2. remove_orphan_inode E O1 ino = Some O2 \<and> orphans_ok O2 \<and> set (oi_list O2) = set (oi_list O1) - {ino}"
  proof (cases "ino \<in> set (oi_list O1)")
    case True
    then have l: "0 < length (oi_list O1)" by (cases "oi_list O1") auto
    then have n0: "0 < oi_n O1" using ok unfolding orphans_ok_def by linarith
    have s: "sorted_wrt (<) (remove1 ino (oi_list O1))"
      using ok sorted_remove1 [of "oi_list O1" ino] d by (simp add: orphans_ok_def strict_sorted_iff)
    show ?thesis using True ok n l s d n0
      by (auto simp: orphans_ok_def remove_orphan_inode_def Let_def f2fs_bug_on_def sub32_id length_remove1)
  qed (use ok in \<open>simp add: remove_orphan_inode_def\<close>)
qed

section \<open>What is written is recovered\<close>

definition chunks :: "nat \<Rightarrow> nat \<Rightarrow> nat" where
  "chunks per_block n = (n + (per_block - 1)) div per_block"

lemma chunks_simps:
  assumes "0 < b"
  shows "chunks b 0 = 0" "chunks b (b + n) = Suc (chunks b n)" "0 < n \<Longrightarrow> n \<le> b \<Longrightarrow> chunks b n = 1"
proof -
  show "chunks b 0 = 0" using assms by (simp add: chunks_def)
  have "b + n + (b - 1) = (n + (b - 1)) + b" by simp
  then show "chunks b (b + n) = Suc (chunks b n)" using assms by (simp only: chunks_def div_add_self2)
  show "chunks b n = 1" if "0 < n" "n \<le> b"
    unfolding chunks_def using that assms by (intro div_nat_eqI) simp_all
qed

lemma orphans_in_filled: "length cur \<le> b \<Longrightarrow> orphans_in (filled_block b cur index blocks) = cur"
  by (intro nth_equalityI) (simp_all add: orphans_in_def filled_block_def nth_append)

lemma write_orphan_loop_ok:
  assumes b: "0 < b"
  shows "length cur < b \<Longrightarrow> index + chunks b (length cur + length inos) \<le> blocks + 1 \<Longrightarrow> blocks + 1 < 2 ^ 16 \<Longrightarrow>
    blk + chunks b (length cur + length inos) < 2 ^ 32 \<Longrightarrow>
    \<exists>ws. write_orphan_loop E b blocks blk index cur inos = Some ws \<and> map fst ws = [blk..<blk + chunks b (length cur + length inos)]
      \<and> concat (map (\<lambda>w. orphans_in (snd w)) ws) = cur @ inos"
proof (induction E b blocks blk index cur inos rule: write_orphan_loop.induct)
  case (1 E b blocks blk index cur)
  show ?case
  proof (cases "cur = []")
    case True
    then show ?thesis using b chunks_simps(1) [of b] 1 by simp
  next
    case False
    then have "chunks b (length cur) = 1" using 1 b by (intro chunks_simps(3)) auto
    then show ?thesis using False 1 orphans_in_filled [of cur b index blocks] by simp
  qed
next
  case (2 E b blocks blk index cur ino inos)
  have b: "0 < b" using "2.prems" by simp
  have no_bug: "\<not> (cur = [] \<and> blocks < index)"
  proof
    assume a: "cur = [] \<and> blocks < index"
    have "0 < chunks b (length cur + length (ino # inos))" using b by (simp add: chunks_def div_greater_zero_iff)
    then show False using a "2.prems" by simp
  qed
  let ?c = "cur @ [ino]"
  show ?case
  proof (cases "length ?c = b")
    case True
    then have ch: "chunks b (length cur + length (ino # inos)) = Suc (chunks b (length inos))"
      using chunks_simps(2) [OF b, of "length inos"] by (simp flip: True)
    have u: "u32 (blk + 1) = blk + 1" "u16 (index + 1) = index + 1" using "2.prems" unfolding ch by (simp_all add: u32_id u16_id)
    obtain ws where ws: "write_orphan_loop E b blocks (u32 (blk + 1)) (u16 (index + 1)) [] inos = Some ws" "map fst ws = [blk + 1..<blk + 1 + chunks b (length inos)]"
      "concat (map (\<lambda>w. orphans_in (snd w)) ws) = inos"
      using "2.IH"(1) [of "()" ?c] no_bug True "2.prems" b unfolding ch u by (auto simp: f2fs_bug_on_def)
    have "write_orphan_loop E b blocks blk index cur (ino # inos) = Some ((blk, filled_block b ?c index blocks) # ws)"
      using ws(1) no_bug True by (simp add: f2fs_bug_on_def)
    moreover have "[blk..<blk + Suc (chunks b (length inos))] = blk # [blk + 1..<blk + 1 + chunks b (length inos)]" by (simp add: upt_conv_Cons)
    ultimately show ?thesis unfolding ch using ws(2,3) True orphans_in_filled [of ?c b index blocks]
      by (intro exI [of _ "(blk, filled_block b ?c index blocks) # ws"]) (simp del: upt_Suc)
  next
    case False
    have "write_orphan_loop E b blocks blk index cur (ino # inos) = write_orphan_loop E b blocks blk index ?c inos"
      using no_bug False by (auto simp: f2fs_bug_on_def)
    moreover have "length ?c < b" using False "2.prems" by simp
    ultimately show ?thesis using "2.IH"(2) [of "()" ?c] no_bug False "2.prems" b by (simp add: f2fs_bug_on_def)
  qed
qed

text \<open>When no reservation is open, the pack has the whole list.\<close>

lemma orphans_roundtrip:
  assumes ok: "orphans_ok O1" and n: "length (oi_list O1) = oi_n O1" and b: "0 < b" "oi_n O1 + b < 2 ^ 32"
    and cnt: "chunks b (oi_n O1) + 1 < 2 ^ 16" and a: "a + chunks b (oi_n O1) < 2 ^ 32"
  shows "\<exists>ws. write_orphan_inodes E b O1 a = Some ws \<and> map fst ws = [a..<a + orphan_blocks b O1]
    \<and> (\<forall>blocks. (\<forall>(x, v)\<in>set ws. blocks x = v) \<longrightarrow> recovered_orphans blocks a (orphan_blocks b O1) = oi_list O1)"
proof -
  have ob: "orphan_blocks b O1 = chunks b (oi_n O1)" using b by (simp add: orphan_blocks_def chunks_def u32_id)
  have l: "length ([] :: nat list) + length (oi_list O1) = oi_n O1" using n by simp
  obtain ws where ws: "write_orphan_loop E b (chunks b (oi_n O1)) a 1 [] (oi_list O1) = Some ws" "map fst ws = [a..<a + chunks b (oi_n O1)]"
    "concat (map (\<lambda>w. orphans_in (snd w)) ws) = [] @ oi_list O1"
    using write_orphan_loop_ok [OF b(1), of "[]" 1 "oi_list O1" "chunks b (oi_n O1)" a E, unfolded l] b(1) cnt a by auto
  have run: "write_orphan_inodes E b O1 a = Some ws" using ws(1) cnt by (simp add: write_orphan_inodes_def ob u16_id)
  have "recovered_orphans blocks a (orphan_blocks b O1) = oi_list O1" if bl: "\<forall>(x, v)\<in>set ws. blocks x = v" for blocks
  proof -
    have len: "length ws = chunks b (oi_n O1)" using ws(2) by (metis diff_add_inverse length_map length_upt)
    have "orphans_in (blocks (u32 (a + i))) = orphans_in (snd (ws ! i))" if "i < length ws" for i
    proof -
      have "fst (ws ! i) = a + i" using arg_cong [OF ws(2), of "\<lambda>l. l ! i"] that len by simp
      moreover have "blocks (fst (ws ! i)) = snd (ws ! i)" using bl nth_mem [OF that] by fastforce
      ultimately show ?thesis using that a len by (simp add: u32_id)
    qed
    then have "map (\<lambda>i. orphans_in (blocks (u32 (a + i)))) [0..<length ws] = map (\<lambda>w. orphans_in (snd w)) ws"
      by (intro nth_equalityI) simp_all
    then show ?thesis using ws(3) len by (simp add: recovered_orphans_def ob)
  qed
  then show ?thesis using run ws(2) by (simp add: ob)
qed

text \<open>A pack with the most orphans, the largest summaries and those of the node logs fits into a segment.\<close>

lemma orphans_fit:
  assumes ok: "orphans_ok O1" and b: "0 < b" and mx: "oi_max O1 = (sbi_blocks_per_seg sbi - 8) * b" and bps: "8 \<le> sbi_blocks_per_seg sbi"
    and r: "oi_max O1 + b < 2 ^ 32"
  shows "2 + 3 + orphan_blocks b O1 + 3 \<le> sbi_blocks_per_seg sbi"
proof -
  have "oi_n O1 \<le> (sbi_blocks_per_seg sbi - 8) * b" using ok mx by (simp add: orphans_ok_def)
  then have "oi_n O1 + (b - 1) < Suc (sbi_blocks_per_seg sbi - 8) * b" using b by simp
  then have "(oi_n O1 + (b - 1)) div b < Suc (sbi_blocks_per_seg sbi - 8)" using b by (simp only: div_less_iff_less_mult)
  moreover have "u32 (oi_n O1 + (b - 1)) = oi_n O1 + (b - 1)" using ok r b unfolding orphans_ok_def by (intro u32_id) linarith
  ultimately show ?thesis using bps by (simp add: orphan_blocks_def)
qed

end
