(* ===== verification/Sit_Disk.thy ===== *)
theory Sit_Disk
  imports Sit_Update
begin

text \<open>
  SIT entries and blocks on disk: an entry written and read back, the consistency check
  \<open>check_block_count\<close> of \<open>segment.h\<close>, and the switch of a SIT block between its two places.
\<close>

section \<open>Writing and reading an entry\<close>

text \<open>\<open>GET_SIT_VBLOCKS\<close> and \<open>GET_SIT_TYPE\<close> of \<open>linux/f2fs_fs.h\<close> split the 16-bit field.\<close>

definition raw_sit_ok :: "f2fs_env \<Rightarrow> bool" where
  "raw_sit_ok E \<longleftrightarrow> SIT_VBLOCKS_SHIFT E \<le> 16 \<and>
     (\<forall>v. GET_SIT_VBLOCKS E v = v mod 2 ^ SIT_VBLOCKS_SHIFT E) \<and>
     (\<forall>v. GET_SIT_TYPE E v = v div 2 ^ SIT_VBLOCKS_SHIFT E)"

lemma linux_env_raw_sit: "raw_sit_ok linux_env"
  by (simp add: raw_sit_ok_def linux_env_def)

lemma raw_vblocks:
  assumes "raw_sit_ok E" and "v < 2 ^ SIT_VBLOCKS_SHIFT E" and "t < 2 ^ (16 - SIT_VBLOCKS_SHIFT E)"
  defines "raw \<equiv> u16 (push_bit (SIT_VBLOCKS_SHIFT E) t OR v)"
  shows "GET_SIT_VBLOCKS E raw = v" and "GET_SIT_TYPE E raw = t"
proof -
  let ?s = "SIT_VBLOCKS_SHIFT E"
  have s: "?s \<le> 16" using assms(1) by (simp add: raw_sit_ok_def)
  have v: "take_bit ?s v = v" using assms(2) by (simp add: take_bit_nat_eq_self)
  have t: "take_bit (16 - ?s) t = t" using assms(3) by (simp add: take_bit_nat_eq_self)
  have v16: "take_bit 16 v = v" using v s by (metis min.absorb2 take_bit_take_bit)
  have t16: "take_bit 16 (push_bit ?s t) = push_bit ?s t" using t by (simp add: take_bit_push_bit)
  have raw: "raw = push_bit ?s t OR v"
    unfolding raw_def u16_def take_bit_eq_mod [symmetric] take_bit_or v16 t16 ..
  have "GET_SIT_VBLOCKS E raw = take_bit ?s raw"
    using assms(1) by (simp add: raw_sit_ok_def take_bit_eq_mod)
  also have "\<dots> = v" unfolding raw take_bit_or v by (simp add: take_bit_push_bit)
  finally show "GET_SIT_VBLOCKS E raw = v" .
  have "GET_SIT_TYPE E raw = drop_bit ?s raw"
    using assms(1) by (simp add: raw_sit_ok_def drop_bit_eq_div)
  also have "\<dots> = t" unfolding raw drop_bit_or using assms(2) by (simp add: drop_bit_eq_div push_bit_eq_mult)
  finally show "GET_SIT_TYPE E raw = t" .
qed

text \<open>
  An entry that is written and read back has its counters, map, type and time; both sides
  of the checkpoint state are then the current state.
\<close>

lemma raw_sit_roundtrip:
  assumes "raw_sit_ok E"
    and "se_valid_blocks se < 2 ^ SIT_VBLOCKS_SHIFT E" "se_type se < 2 ^ (16 - SIT_VBLOCKS_SHIFT E)"
    and "se_valid_blocks se < 2 ^ 16" "se_type se < 2 ^ 8"
    and "length (se_cur_valid_map se) = SIT_VBLOCK_MAP_SIZE E" "length (se_ckpt_valid_map se) = SIT_VBLOCK_MAP_SIZE E"
    and "length (rs_valid_map rs) = SIT_VBLOCK_MAP_SIZE E"
  shows "seg_info_to_raw_sit E se rs = (se', rs') \<Longrightarrow>
    se' = se\<lparr>se_ckpt_valid_map := se_cur_valid_map se, se_ckpt_valid_blocks := se_valid_blocks se\<rparr>
    \<and> seg_info_from_raw_sit E se rs' = se'"
proof -
  assume w: "seg_info_to_raw_sit E se rs = (se', rs')"
  let ?raw = "u16 (push_bit (SIT_VBLOCKS_SHIFT E) (se_type se) OR se_valid_blocks se)"
  note R = raw_vblocks [OF assms(1,2,3)]
  have se': "se' = se\<lparr>se_ckpt_valid_map := se_cur_valid_map se, se_ckpt_valid_blocks := se_valid_blocks se\<rparr>"
    and rs': "rs_vblocks rs' = ?raw" "rs_valid_map rs' = se_cur_valid_map se" "rs_mtime rs' = se_mtime se"
    using w assms(6-8) by (auto simp: seg_info_to_raw_sit_def Let_def memcpy_all)
  have "seg_info_from_raw_sit E se rs' = se'"
    using assms(4-7) unfolding se'
    by (simp add: seg_info_from_raw_sit_def rs' R memcpy_all u16_id u8_id)
  with se' show ?thesis ..
qed

section \<open>\<open>check_block_count\<close>\<close>

text \<open>\<open>test_bit_le\<close> and its searches number the bits of a byte from the lowest one.\<close>

definition le_bits :: "8 word list \<Rightarrow> nat \<Rightarrow> bool" where
  "le_bits m i \<longleftrightarrow> bit (m ! (i div 8)) (i mod 8)"

text \<open>The \<open>do\<close> loop; \<open>None\<close> is a loop that never ends.\<close>

partial_function (option) count_runs ::
  "f2fs_env \<Rightarrow> (nat \<Rightarrow> bool) \<Rightarrow> nat \<Rightarrow> bool \<Rightarrow> nat \<Rightarrow> int \<Rightarrow> int option" where
  "count_runs E m bps is_valid cur_pos valid_blocks =
    (let next_pos = (if is_valid then find_next_zero_bit E m bps cur_pos else find_next_bit E m bps cur_pos);
         valid_blocks = (if is_valid then valid_blocks + (int next_pos - int cur_pos) else valid_blocks)
     in if next_pos < bps then count_runs E m bps (\<not> is_valid) next_pos valid_blocks
        else Some valid_blocks)"

definition check_block_count :: "f2fs_env \<Rightarrow> f2fs_sb_info \<Rightarrow> nat \<Rightarrow> f2fs_sit_entry \<Rightarrow> unit option" where
  "check_block_count E sbi segno raw_sit =
    (if CHECK_FS E then do {
       let end_segno = sub32 (sm_segment_count (SM_I sbi)) 1;
       let is_valid = le_bits (rs_valid_map raw_sit) 0;
       BUG_ON (sbi_blocks_per_seg sbi < GET_SIT_VBLOCKS E (rs_vblocks raw_sit));
       BUG_ON (end_segno < segno);
       valid_blocks \<leftarrow> count_runs E (le_bits (rs_valid_map raw_sit)) (sbi_blocks_per_seg sbi) is_valid 0 0;
       BUG_ON (int (GET_SIT_VBLOCKS E (rs_vblocks raw_sit)) \<noteq> valid_blocks) }
     else Some ())"

lemma count_runs_counts:
  assumes "kernel_ok E"
  shows "cur < bps \<Longrightarrow> m cur = v \<Longrightarrow>
    count_runs E m bps v cur (int (count_bits cur m)) = Some (int (count_bits bps m))"
proof (induction "bps - cur" arbitrary: cur v rule: less_induct)
  case less
  define nxt where "nxt = (if v then find_next_zero_bit E m bps cur else find_next_bit E m bps cur)"
  have nxt: "nxt = scan (\<lambda>i. m i \<noteq> v) bps cur"
    by (simp add: nxt_def find_next_zero_bit_scan [OF assms] find_next_bit_scan [OF assms])
  have le: "cur \<le> nxt" "nxt \<le> bps"
    using scan_cases [of "\<lambda>i. m i \<noteq> v" bps cur] less.prems(1) scan_le unfolding nxt
    by (metis less_imp_le_nat)+
  have same: "m i = v" if "cur \<le> i" "i < nxt" for i
    using scan_skip [of cur i "\<lambda>i. m i \<noteq> v" bps] that unfolding nxt by blast
  have run: "count_bits nxt m = count_bits cur m + (if v then nxt - cur else 0)"
    by (rule count_bits_run [OF le(1) same])
  have step: "count_runs E m bps v cur (int (count_bits cur m)) =
      (if nxt < bps then count_runs E m bps (\<not> v) nxt (int (count_bits nxt m)) else Some (int (count_bits nxt m)))"
    using le(1) by (subst count_runs.simps) (simp add: nxt_def [symmetric] run)
  show ?case
  proof (cases "nxt < bps")
    case True
    then have "m nxt \<noteq> v" using scan_hit [of "\<lambda>i. m i \<noteq> v" bps cur] unfolding nxt by blast
    moreover from this less.prems(2) le(1) have "cur < nxt" by (cases "cur = nxt") auto
    ultimately show ?thesis using True step less.hyps [of nxt "\<not> v"] by auto
  next
    case False
    then show ?thesis using step le(2) by simp
  qed
qed

text \<open>The check passes exactly for a segment of the volume whose count is its number of set bits.\<close>

lemma check_block_count_iff:
  assumes "kernel_ok E" and "CHECK_FS E" and "0 < sbi_blocks_per_seg sbi"
    and "0 < sm_segment_count (SM_I sbi)" "sm_segment_count (SM_I sbi) < 2 ^ 32"
  shows "check_block_count E sbi segno raw_sit = Some () \<longleftrightarrow>
    segno < sm_segment_count (SM_I sbi) \<and>
    GET_SIT_VBLOCKS E (rs_vblocks raw_sit) = count_bits (sbi_blocks_per_seg sbi) (le_bits (rs_valid_map raw_sit))"
proof -
  let ?m = "le_bits (rs_valid_map raw_sit)" and ?n = "sbi_blocks_per_seg sbi"
  have "count_runs E ?m ?n (?m 0) 0 0 = Some (int (count_bits ?n ?m))"
    using count_runs_counts [OF assms(1,3) refl, of ?m] by simp
  moreover have "sub32 (sm_segment_count (SM_I sbi)) 1 = sm_segment_count (SM_I sbi) - 1"
    using assms(4,5) by (intro sub32_id) auto
  ultimately show ?thesis
    using assms(2,4) count_bits_le [of ?n ?m] by (auto simp: check_block_count_def BUG_ON_def)
qed

text \<open>The bit order does not matter for the count of whole bytes.\<close>

lemma bits_of_le_bits: "bits_of m i = le_bits m (8 * (i div 8) + (7 - i mod 8))"
proof -
  have "(8 * q + k) div 8 = q \<and> (8 * q + k) mod 8 = k" if "k < 8" for q k :: nat
    using that by simp
  from this [of "7 - i mod 8" "i div 8"] show ?thesis
    by (simp add: bits_of_def le_bits_def f2fs_test_bit_iff)
qed

lemma count_le_bits: "count_bits (8 * k) (le_bits m) = count_bits (8 * k) (bits_of m)"
proof (induction k)
  case (Suc k)
  have "8 * Suc k = Suc (Suc (Suc (Suc (Suc (Suc (Suc (Suc (8 * k))))))))" by simp
  moreover have "bits_of m (8 * k + r) = le_bits m (8 * k + (7 - r))" if "r < 8" for r
    using bits_of_le_bits [of m "8 * k + r"] that by simp
  from this [of 0] this [of 1] this [of 2] this [of 3] this [of 4] this [of 5] this [of 6] this [of 7]
  have "bits_of m (8 * k) = le_bits m (8 * k + 7)" "bits_of m (8 * k + 1) = le_bits m (8 * k + 6)"
    "bits_of m (8 * k + 2) = le_bits m (8 * k + 5)" "bits_of m (8 * k + 3) = le_bits m (8 * k + 4)"
    "bits_of m (8 * k + 4) = le_bits m (8 * k + 3)" "bits_of m (8 * k + 5) = le_bits m (8 * k + 2)"
    "bits_of m (8 * k + 6) = le_bits m (8 * k + 1)" "bits_of m (8 * k + 7) = le_bits m (8 * k)"
    by simp_all
  ultimately show ?case using Suc by (simp add: numeral_eq_Suc)
qed simp

section \<open>The two places of a SIT block\<close>

lemma set_to_next_sit_toggles:
  assumes "SIT_BLOCK_OFFSET E start < 8 * length (sit_bitmap sit_i)"
  shows "f2fs_test_bit i (sit_bitmap (set_to_next_sit E sit_i start)) \<longleftrightarrow>
    (f2fs_test_bit i (sit_bitmap sit_i) \<noteq> (i = SIT_BLOCK_OFFSET E start))"
  using assms by (auto simp: set_to_next_sit_def Let_def f2fs_test_set_bit f2fs_test_clear_bit)

text \<open>\<open>next_sit_addr\<close> is the address \<open>current_sit_addr\<close> gives after the switch, and switching back
  gives the first place again.\<close>

lemma next_sit_addr_current:
  assumes "SIT_BLOCK_OFFSET E start < 8 * length (sit_bitmap (SIT_I sbi))"
    and "SIT_BLOCK_OFFSET E start < sit_blocks (SIT_I sbi)"
    and "sit_base_addr (SIT_I sbi) + 2 * sit_blocks (SIT_I sbi) \<le> 2 ^ 32"
    and cur: "current_sit_addr E sbi start = Some a"
  shows "current_sit_addr E (set_SIT_I (set_to_next_sit E (SIT_I sbi) start) sbi) start = Some (next_sit_addr sbi a)"
    and "next_sit_addr sbi (next_sit_addr sbi a) = a"
proof -
  let ?i = "SIT_I sbi" and ?o = "SIT_BLOCK_OFFSET E start"
  let ?b = "sit_base_addr (SIT_I sbi)" and ?n = "sit_blocks (SIT_I sbi)"
  have a: "a = ?b + ?o + (if f2fs_test_bit ?o (sit_bitmap ?i) then ?n else 0)"
    and r: "check_seg_range E sbi start = Some ()"
    using cur assms(2,3) by (auto simp: current_sit_addr_def Let_def bind_eq_Some_conv u32_id split: if_splits)
  have nxt: "next_sit_addr sbi x = (if x - ?b < ?n then x + ?n else x - ?n)" if "?b \<le> x" "x < ?b + 2 * ?n" for x
  proof -
    have s: "sub64 x ?b = x - ?b" using that assms(3) by (intro sub64_id) auto
    show ?thesis
    proof (cases "x - ?b < ?n")
      case True
      then have "u64 (x - ?b + ?n) = x - ?b + ?n" using assms(3) by (intro u64_id) simp
      moreover have "u64 (x - ?b + ?n + ?b) = x + ?n" using True that(1) assms(3) by (subst u64_id) simp_all
      ultimately show ?thesis using True by (simp add: next_sit_addr_def Let_def s)
    next
      case False
      then have "sub64 (x - ?b) ?n = x - ?b - ?n" using that assms(3) by (intro sub64_id) simp_all
      moreover have "u64 (x - ?b - ?n + ?b) = x - ?n" using False that(1) that(2) assms(3) by (subst u64_id) simp_all
      ultimately show ?thesis using False by (simp add: next_sit_addr_def Let_def s)
    qed
  qed
  have n1: "next_sit_addr sbi a = ?b + ?o + (if f2fs_test_bit ?o (sit_bitmap ?i) then 0 else ?n)"
    using nxt [of a] a assms(2) by auto
  show "next_sit_addr sbi (next_sit_addr sbi a) = a"
    using nxt [of "next_sit_addr sbi a"] n1 a assms(2) by auto
  have "sit_base_addr (set_to_next_sit E ?i start) = ?b" "sit_blocks (set_to_next_sit E ?i start) = ?n"
    by (simp_all add: set_to_next_sit_def Let_def)
  moreover have "check_seg_range E (set_SIT_I (set_to_next_sit E ?i start) sbi) start = Some ()"
    unfolding r [symmetric] by (simp add: check_seg_range_def)
  ultimately show "current_sit_addr E (set_SIT_I (set_to_next_sit E ?i start) sbi) start = Some (next_sit_addr sbi a)"
    using assms(1-3) n1
    by (auto simp: current_sit_addr_def Let_def set_to_next_sit_toggles u32_id)
qed

end
