(* ===== verification/Prefree.thy ===== *)
theory Prefree
  imports Dirty_Seglist
begin

text \<open>
  What a checkpoint does with the prefree segments (\<open>segment.c\<close>):
  \<open>set_prefree_as_free_segments\<close> gives them back to the free-segment bitmap,
  \<open>clear_prefree_segments\<close> empties their list and sends the discards, and
  \<open>add_discard_addrs\<close> queues discards for the blocks of one segment that died since the
  last checkpoint.  A loop of the C code is a recursion whose value is \<open>None\<close> when the loop
  does not end.
\<close>

section \<open>\<open>set_prefree_as_free_segments\<close>\<close>

partial_function (option) free_prefree_from :: "f2fs_env \<Rightarrow> f2fs_sb_info \<Rightarrow> nat \<Rightarrow> f2fs_sb_info option" where
  "free_prefree_from E sbi pos =
    (let segno = find_next_bit E (dl_dirty_segmap (DIRTY_I sbi) ! PRE) (TOTAL_SEGS sbi) pos
     in if TOTAL_SEGS sbi \<le> segno then Some sbi
        else free_prefree_from E (set_test_and_free E sbi segno) (u32 (segno + 1)))"

definition set_prefree_as_free_segments :: "f2fs_env \<Rightarrow> f2fs_sb_info \<Rightarrow> f2fs_sb_info option" where
  "set_prefree_as_free_segments E sbi = free_prefree_from E sbi (u32 (2 ^ 32 - 1 + 1))"

lemma free_prefree_from_ok:
  assumes "kernel_ok E"
  shows "free_ok sbi \<Longrightarrow> pos \<le> TOTAL_SEGS sbi \<Longrightarrow>
    \<exists>sbi'. free_prefree_from E sbi pos = Some sbi' \<and> free_ok sbi' \<and> free_frame sbi sbi'
      \<and> (\<forall>i. seg_inuse sbi' i \<longleftrightarrow> seg_inuse sbi i \<and> \<not> (pos \<le> i \<and> i < TOTAL_SEGS sbi \<and> is_dirty sbi PRE i))"
proof (induction "TOTAL_SEGS sbi - pos" arbitrary: sbi pos rule: less_induct)
  case less
  let ?P = "dl_dirty_segmap (DIRTY_I sbi) ! PRE" and ?n = "TOTAL_SEGS sbi"
  define s where "s = scan ?P ?n pos"
  have step: "free_prefree_from E sbi pos = (if ?n \<le> s then Some sbi
      else free_prefree_from E (set_test_and_free E sbi s) (u32 (s + 1)))"
    by (subst free_prefree_from.simps) (simp add: find_next_bit_scan [OF assms] s_def Let_def)
  have skip: "\<not> is_dirty sbi PRE i" if "pos \<le> i" "i < s" for i
    using scan_skip that unfolding s_def is_dirty_def by blast
  show ?case
  proof (cases "?n \<le> s")
    case True
    then show ?thesis using step less.prems(1) skip by (fastforce simp: less_le_trans)
  next
    case False
    then have s: "s < ?n" "?P s" "pos \<le> s" using scan_hit [of ?P ?n pos] by (auto simp: s_def)
    let ?sbi = "set_test_and_free E sbi s"
    note fr = free_ops_frame(4) [of sbi E s] and F = free_frameD [OF free_ops_frame(4) [of sbi E s]]
    have u: "u32 (s + 1) = s + 1" using s(1) free_okD(3) [OF less.prems(1)] by (intro u32_id) simp
    have "\<exists>sbi'. free_prefree_from E ?sbi (s + 1) = Some sbi' \<and> free_ok sbi' \<and> free_frame ?sbi sbi'
      \<and> (\<forall>i. seg_inuse sbi' i \<longleftrightarrow> seg_inuse ?sbi i \<and> \<not> (s + 1 \<le> i \<and> i < TOTAL_SEGS ?sbi \<and> is_dirty ?sbi PRE i))"
      using s less.prems by (intro less.hyps) (simp_all add: F set_test_and_free_ok [OF assms])
    then obtain sbi' where r: "free_prefree_from E ?sbi (s + 1) = Some sbi'" "free_ok sbi'" "free_frame ?sbi sbi'"
      "\<And>i. seg_inuse sbi' i \<longleftrightarrow> seg_inuse ?sbi i \<and> \<not> (s + 1 \<le> i \<and> i < ?n \<and> is_dirty sbi PRE i)"
      by (auto simp: F is_dirty_def)
    have "seg_inuse sbi' i \<longleftrightarrow> seg_inuse sbi i \<and> \<not> (pos \<le> i \<and> i < ?n \<and> is_dirty sbi PRE i)" for i
    proof (cases i s rule: linorder_cases)
      case less
      then show ?thesis using r(4) [of i] skip [of i] s by auto
    next
      case equal
      then show ?thesis using r(4) [of i] s by (simp add: is_dirty_def)
    next
      case greater
      then show ?thesis using r(4) [of i] s by auto
    qed
    moreover have "free_frame sbi sbi'" by (rule free_frame_trans [OF fr r(3)])
    ultimately show ?thesis using step False u r(1,2) by auto
  qed
qed

text \<open>
  Every prefree segment becomes free, no other segment changes, and the counters of the free
  bitmap stay right.
\<close>

lemma set_prefree_frees:
  assumes "kernel_ok E" and "free_ok sbi"
  shows "\<exists>sbi'. set_prefree_as_free_segments E sbi = Some sbi' \<and> free_ok sbi' \<and> free_frame sbi sbi'
    \<and> (\<forall>i<TOTAL_SEGS sbi. seg_inuse sbi' i \<longleftrightarrow> seg_inuse sbi i \<and> \<not> is_dirty sbi PRE i)"
  using free_prefree_from_ok [OF assms(1,2), of 0]
  by (auto simp: set_prefree_as_free_segments_def u32_def)

section \<open>\<open>clear_prefree_segments\<close>\<close>

text \<open>\<open>for (i = start; i < end; i++) clear_bit(i, prefree_map)\<close>.\<close>

definition clear_range :: "nat \<Rightarrow> nat \<Rightarrow> (nat \<Rightarrow> bool) \<Rightarrow> nat \<Rightarrow> bool" where
  "clear_range start stop m = fold (\<lambda>i m. m(i := False)) [start..<stop] m"

text \<open>The loop over the runs of prefree segments: the new state and the discards it issues, as
  block address and number of blocks.\<close>

partial_function (option) clear_prefree_from ::
  "f2fs_env \<Rightarrow> f2fs_sb_info \<Rightarrow> nat \<Rightarrow> (nat \<times> nat) list \<Rightarrow> (f2fs_sb_info \<times> (nat \<times> nat) list) option" where
  "clear_prefree_from E sbi pos issued =
    (let prefree_map = dl_dirty_segmap (DIRTY_I sbi) ! PRE;
         start = find_next_bit E prefree_map (TOTAL_SEGS sbi) pos
     in if TOTAL_SEGS sbi \<le> start then Some (sbi, issued)
        else
          let stop = find_next_zero_bit E prefree_map (TOTAL_SEGS sbi) (u32 (start + 1));
              dirty_i = DIRTY_I sbi;
              dirty_i = dirty_i\<lparr>dl_dirty_segmap := (dl_dirty_segmap dirty_i)[PRE := clear_range start stop prefree_map],
                  dl_nr_dirty := (dl_nr_dirty dirty_i)[PRE := dl_nr_dirty dirty_i ! PRE - (int stop - int start)]\<rparr>;
              issued = (if sbi_opt_discard sbi
                 then issued @ [(START_BLOCK sbi start, u32 (push_bit (sbi_log_blocks_per_seg sbi) (sub32 stop start)))]
                 else issued)
          in clear_prefree_from E (set_DIRTY_I dirty_i sbi) (u32 (stop + 1)) issued)"

text \<open>The queued small discards are sent and freed.\<close>

definition send_discards :: "f2fs_sb_info \<Rightarrow> f2fs_sb_info \<times> (nat \<times> nat) list" where
  "send_discards sbi =
    (let entries = sm_discard_list (SM_I sbi)
     in (sbi\<lparr>sbi_sm_info := (SM_I sbi)\<lparr>sm_discard_list := [],
              sm_nr_discards := fold (\<lambda>e n. n - de_len e) entries (sm_nr_discards (SM_I sbi))\<rparr>\<rparr>,
         map (\<lambda>e. (de_blkaddr e, to_u32 (de_len e))) entries))"

definition clear_prefree_segments :: "f2fs_env \<Rightarrow> f2fs_sb_info \<Rightarrow> (f2fs_sb_info \<times> (nat \<times> nat) list) option" where
  "clear_prefree_segments E sbi = do {
     (sbi, big) \<leftarrow> clear_prefree_from E sbi (u32 (2 ^ 32 - 1 + 1)) [];
     let (sbi, small) = send_discards sbi;
     Some (sbi, big @ small) }"

lemma clear_range_iff: "clear_range a b m i \<longleftrightarrow> m i \<and> \<not> (a \<le> i \<and> i < b)"
proof -
  have "fold (\<lambda>i m. m(i := False)) xs m i \<longleftrightarrow> m i \<and> i \<notin> set xs" for xs :: "nat list"
    by (induction xs arbitrary: m) auto
  then show ?thesis by (auto simp: clear_range_def)
qed

lemma count_bits_clear_run:
  assumes "a \<le> b" and "b \<le> n" and "\<And>i. a \<le> i \<Longrightarrow> i < b \<Longrightarrow> m i"
  shows "int (count_bits n (\<lambda>i. m i \<and> \<not> (a \<le> i \<and> i < b))) = int (count_bits n m) - (int b - int a)"
  using assms(2,3)
proof (induction n)
  case 0
  then show ?case using assms(1) by simp
next
  case (Suc n)
  show ?case
  proof (cases "b \<le> n")
    case True
    then show ?thesis using Suc by simp
  next
    case False
    then have b: "b = Suc n" using Suc.prems(1) by simp
    have "count_bits a (\<lambda>i. m i \<and> \<not> (a \<le> i \<and> i < b)) = count_bits a m" by (rule count_bits_cong) auto
    moreover have "count_bits b (\<lambda>i. m i \<and> \<not> (a \<le> i \<and> i < b)) = count_bits a (\<lambda>i. m i \<and> \<not> (a \<le> i \<and> i < b)) + (if False then b - a else 0)"
      by (rule count_bits_run [OF assms(1)]) auto
    moreover have "count_bits b m = count_bits a m + (if True then b - a else 0)"
      by (rule count_bits_run [OF assms(1)]) (use Suc.prems(2) in auto)
    ultimately show ?thesis using assms(1) unfolding b [symmetric] by simp
  qed
qed

lemma clear_prefree_from_ok:
  assumes "kernel_ok E"
  shows "dirty_ok sbi \<Longrightarrow> TOTAL_SEGS sbi < 2 ^ 32 - 1 \<Longrightarrow> pos \<le> TOTAL_SEGS sbi + 1 \<Longrightarrow>
    (\<And>i. i < pos \<Longrightarrow> i < TOTAL_SEGS sbi \<Longrightarrow> \<not> is_dirty sbi PRE i) \<Longrightarrow>
    \<exists>sbi' out. clear_prefree_from E sbi pos issued = Some (sbi', out) \<and> dirty_ok sbi' \<and> dirty_frame sbi sbi'
      \<and> (\<forall>i<TOTAL_SEGS sbi. \<not> is_dirty sbi' PRE i)
      \<and> (\<forall>t<NR_DIRTY_TYPE. t \<noteq> PRE \<longrightarrow> is_dirty sbi' t = is_dirty sbi t)
      \<and> (\<not> sbi_opt_discard sbi \<longrightarrow> out = issued)"
proof (induction "TOTAL_SEGS sbi + 1 - pos" arbitrary: sbi pos issued rule: less_induct)
  case less
  let ?P = "dl_dirty_segmap (DIRTY_I sbi) ! PRE" and ?n = "TOTAL_SEGS sbi" and ?d = "DIRTY_I sbi"
  define s where "s = scan ?P ?n pos"
  have skip: "\<not> is_dirty sbi PRE i" if "i < s" "i < ?n" for i
    using scan_skip [of pos i ?P ?n] less.prems(4) [of i] that unfolding s_def is_dirty_def by (meson not_le)
  show ?case
  proof (cases "?n \<le> s")
    case True
    then have "clear_prefree_from E sbi pos issued = Some (sbi, issued)"
      by (subst clear_prefree_from.simps) (simp add: find_next_bit_scan [OF assms] s_def)
    then show ?thesis using less.prems(1) skip True by auto
  next
    case False
    then have s: "s < ?n" "?P s" "pos \<le> s" using scan_hit [of ?P ?n pos] by (auto simp: s_def)
    define e where "e = scan (\<lambda>i. \<not> ?P i) ?n (s + 1)"
    have e: "s < e" "e \<le> ?n" and run: "\<And>i. s \<le> i \<Longrightarrow> i < e \<Longrightarrow> ?P i"
    proof -
      show "e \<le> ?n" unfolding e_def by (rule scan_le)
      show "s < e" unfolding e_def by (rule scan_cases [of "\<lambda>i. \<not> ?P i" ?n "s + 1"]) (use s(1) in auto)
      show "?P i" if "s \<le> i" "i < e" for i
        using scan_skip [of "s + 1" i "\<lambda>i. \<not> ?P i" ?n] that s(2) unfolding e_def by (cases "i = s") auto
    qed
    have u: "u32 (s + 1) = s + 1" "u32 (e + 1) = e + 1" using s(1) e(2) less.prems(2) by (auto intro!: u32_id)
    define d where "d = ?d\<lparr>dl_dirty_segmap := (dl_dirty_segmap ?d)[PRE := clear_range s e ?P],
                  dl_nr_dirty := (dl_nr_dirty ?d)[PRE := dl_nr_dirty ?d ! PRE - (int e - int s)]\<rparr>"
    define iss where "iss = (if sbi_opt_discard sbi
                 then issued @ [(START_BLOCK sbi s, u32 (push_bit (sbi_log_blocks_per_seg sbi) (sub32 e s)))]
                 else issued)"
    let ?sbi = "set_DIRTY_I d sbi"
    have step: "clear_prefree_from E sbi pos issued = clear_prefree_from E ?sbi (e + 1) iss"
      unfolding clear_prefree_from.simps [of E sbi pos] Let_def find_next_bit_scan [OF assms]
        s_def [symmetric] if_not_P [OF False] u(1) find_next_zero_bit_scan [OF assms]
        e_def [symmetric] u(2) d_def iss_def ..
    have L: "length (dl_dirty_segmap ?d) = NR_DIRTY_TYPE" "length (dl_nr_dirty ?d) = NR_DIRTY_TYPE"
      "\<And>t. t < NR_DIRTY_TYPE \<Longrightarrow> dl_nr_dirty ?d ! t = int (count_bits ?n (dl_dirty_segmap ?d ! t))"
      using less.prems(1) by (auto simp: dirty_ok_def lists_ok_def)
    have pre: "PRE < NR_DIRTY_TYPE" by (simp add: dirty_types)
    have cr: "clear_range s e ?P = (\<lambda>i. ?P i \<and> \<not> (s \<le> i \<and> i < e))" by (rule ext) (rule clear_range_iff)
    have cnt: "int (count_bits ?n (clear_range s e ?P)) = dl_nr_dirty ?d ! PRE - (int e - int s)"
      unfolding cr using count_bits_clear_run [of s e ?n ?P] e run L(3) [OF pre] by simp
    have "dl_nr_dirty d ! t = int (count_bits ?n (dl_dirty_segmap d ! t))" if "t < NR_DIRTY_TYPE" for t
      using L(3) [OF that] cnt L(1,2) pre by (cases "t = PRE") (simp_all add: d_def)
    then have "lists_ok ?n d" using L(1,2) by (simp add: lists_ok_def d_def)
    then have ok: "dirty_ok ?sbi" using less.prems(1) by (simp add: dirty_ok_def)
    have dirty': "is_dirty ?sbi t i \<longleftrightarrow> is_dirty sbi t i \<and> \<not> (t = PRE \<and> s \<le> i \<and> i < e)" for t i
      by (cases "t = PRE") (simp_all add: is_dirty_def d_def L(1) pre clear_range_iff)
    have below: "\<not> is_dirty ?sbi PRE i" if "i < e + 1" "i < ?n" for i
    proof (cases "i < s")
      case True
      then show ?thesis using skip that(2) dirty' by blast
    next
      case False
      have "\<not> ?P e" if "e < ?n" using scan_hit [of "\<lambda>i. \<not> ?P i" ?n "s + 1"] that unfolding e_def by blast
      then show ?thesis using False that dirty' [of PRE i] by (cases "i = e") (auto simp: is_dirty_def)
    qed
    have "\<exists>sbi' out. clear_prefree_from E ?sbi (e + 1) iss = Some (sbi', out) \<and> dirty_ok sbi' \<and> dirty_frame ?sbi sbi'
      \<and> (\<forall>i<TOTAL_SEGS ?sbi. \<not> is_dirty sbi' PRE i)
      \<and> (\<forall>t<NR_DIRTY_TYPE. t \<noteq> PRE \<longrightarrow> is_dirty sbi' t = is_dirty ?sbi t)
      \<and> (\<not> sbi_opt_discard ?sbi \<longrightarrow> out = iss)"
      by (rule less.hyps) (use s e ok below less.prems(2,3) in simp_all)
    moreover have "is_dirty ?sbi t = is_dirty sbi t" if "t \<noteq> PRE" for t using dirty' that by blast
    ultimately show ?thesis unfolding step by (auto simp: iss_def intro: dirty_frame_trans [OF dirty_frame_set])
  qed
qed

text \<open>After \<open>clear_prefree_segments\<close> no segment is prefree, the counter of the list is zero and
  no discard is queued.\<close>

lemma clear_prefree_empties:
  assumes "kernel_ok E" and "dirty_ok sbi" and "TOTAL_SEGS sbi < 2 ^ 32 - 1"
  shows "\<exists>sbi' out. clear_prefree_segments E sbi = Some (sbi', out) \<and> dirty_ok sbi'
    \<and> (\<forall>i<TOTAL_SEGS sbi. \<not> is_dirty sbi' PRE i) \<and> dl_nr_dirty (DIRTY_I sbi') ! PRE = 0
    \<and> (\<forall>t<NR_DIRTY_TYPE. t \<noteq> PRE \<longrightarrow> is_dirty sbi' t = is_dirty sbi t)
    \<and> sm_discard_list (SM_I sbi') = []
    \<and> sm_nr_discards (SM_I sbi') = sm_nr_discards (SM_I sbi) - (\<Sum>e\<leftarrow>sm_discard_list (SM_I sbi). de_len e)"
proof -
  obtain s1 out where r: "clear_prefree_from E sbi 0 [] = Some (s1, out)" "dirty_ok s1" "dirty_frame sbi s1"
    "\<forall>i<TOTAL_SEGS sbi. \<not> is_dirty s1 PRE i"
    "\<forall>t<NR_DIRTY_TYPE. t \<noteq> PRE \<longrightarrow> is_dirty s1 t = is_dirty sbi t"
    using clear_prefree_from_ok [OF assms(1,2,3), of 0 "[]"] by auto
  obtain v where v: "s1 = set_DIRTY_I v sbi" using r(3) unfolding dirty_frame_def by metis
  define s2 where "s2 = fst (send_discards s1)"
  have fold: "fold (\<lambda>e n. n - de_len e) es n = n - (\<Sum>e\<leftarrow>es. de_len e)" for es n
    by (induction es arbitrary: n) auto
  have s2: "DIRTY_I s2 = DIRTY_I s1" "SIT_I s2 = SIT_I s1" "TOTAL_SEGS s2 = TOTAL_SEGS sbi"
    "sm_discard_list (SM_I s2) = []"
    "sm_nr_discards (SM_I s2) = sm_nr_discards (SM_I sbi) - (\<Sum>e\<leftarrow>sm_discard_list (SM_I sbi). de_len e)"
    by (simp_all add: s2_def send_discards_def Let_def v accessors setters TOTAL_SEGS_def fold)
  have n: "TOTAL_SEGS s1 = TOTAL_SEGS sbi" by (simp add: v)
  have ok: "dirty_ok s2"
    using r(2) by (simp add: dirty_ok_def types_ok_def get_seg_entry_def s2(1-3) n)
  have z: "count_bits (TOTAL_SEGS sbi) (dl_dirty_segmap (DIRTY_I s1) ! PRE) = 0"
    using r(4) count_bits_pos_iff [of "TOTAL_SEGS sbi"] by (auto simp: is_dirty_def neq0_conv [symmetric] simp del: neq0_conv)
  have "dl_nr_dirty (DIRTY_I s1) ! PRE = 0"
    using r(2) z n by (simp add: dirty_ok_def lists_ok_def dirty_types)
  moreover have "is_dirty s2 = is_dirty s1" by (simp add: is_dirty_def s2(1) fun_eq_iff)
  moreover have "\<exists>out'. clear_prefree_segments E sbi = Some (s2, out')"
    using r(1) by (simp add: clear_prefree_segments_def u32_def s2_def case_prod_beta Let_def)
  ultimately show ?thesis using ok r(4,5) s2 by auto
qed

end
