(* ===== verification/Discard.thy ===== *)
theory Discard
  imports Prefree
begin

unbundle bit_operations_syntax

text \<open>
  \<open>add_discard_addrs\<close> of \<open>segment.c\<close>: the blocks of a segment that were valid at the last
  checkpoint and are not any more are queued for a discard, run by run.
\<close>

section \<open>Definition\<close>

text \<open>\<open>dmap[i] = (cur_map[i] ^ ckpt_map[i]) & ckpt_map[i]\<close>.\<close>

definition discard_map :: "f2fs_env \<Rightarrow> seg_entry \<Rightarrow> 64 word list" where
  "discard_map E se = map (\<lambda>i. (longs (se_cur_valid_map se) ! i XOR longs (se_ckpt_valid_map se) ! i)
     AND longs (se_ckpt_valid_map se) ! i) [0..<SIT_VBLOCK_MAP_SIZE E div 8]"

definition queue_discard :: "discard_entry \<Rightarrow> f2fs_sb_info \<Rightarrow> f2fs_sb_info" where
  "queue_discard e sbi = sbi\<lparr>sbi_sm_info := (SM_I sbi)\<lparr>
     sm_discard_list := sm_discard_list (SM_I sbi) @ [e],
     sm_nr_discards := sm_nr_discards (SM_I sbi) + de_len e\<rparr>\<rparr>"

partial_function (option) queue_discards ::
  "64 word list \<Rightarrow> nat \<Rightarrow> nat \<Rightarrow> f2fs_sb_info \<Rightarrow> nat \<Rightarrow> f2fs_sb_info option" where
  "queue_discards dmap segno max_blocks sbi pos =
    (if sm_nr_discards (SM_I sbi) \<le> sm_max_discards (SM_I sbi) then
       let start = find_rev_next_bit dmap max_blocks pos
       in if max_blocks \<le> start then Some sbi
          else
            let stop = find_rev_next_zero_bit dmap max_blocks (u32 (start + 1));
                new = \<lparr>de_blkaddr = u32 (START_BLOCK sbi segno + start), de_len = int stop - int start\<rparr>
            in queue_discards dmap segno max_blocks (queue_discard new sbi) (u32 (stop + 1))
     else Some sbi)"

definition add_discard_addrs :: "f2fs_env \<Rightarrow> f2fs_sb_info \<Rightarrow> nat \<Rightarrow> seg_entry \<Rightarrow> f2fs_sb_info option" where
  "add_discard_addrs E sbi segno se =
    (let max_blocks = sbi_blocks_per_seg sbi
     in if \<not> sbi_opt_discard sbi then Some sbi
        else if se_valid_blocks se = 0 \<or> se_valid_blocks se = max_blocks then Some sbi
        else queue_discards (discard_map E se) segno max_blocks sbi (u32 (2 ^ 32 - 1 + 1)))"

section \<open>What it queues\<close>

lemma discard_map_bit:
  assumes "length (se_cur_valid_map se) = SIT_VBLOCK_MAP_SIZE E" "length (se_ckpt_valid_map se) = SIT_VBLOCK_MAP_SIZE E"
    and "8 dvd SIT_VBLOCK_MAP_SIZE E" and "i < 8 * SIT_VBLOCK_MAP_SIZE E"
  shows "rev_bit (discard_map E se) i \<longleftrightarrow> bits_of (se_ckpt_valid_map se) i \<and> \<not> bits_of (se_cur_valid_map se) i"
proof -
  have "8 * (SIT_VBLOCK_MAP_SIZE E div 8) = SIT_VBLOCK_MAP_SIZE E" using assms(3) by simp
  then have w: "i div 64 < SIT_VBLOCK_MAP_SIZE E div 8" using assms(4) by (simp add: less_mult_imp_div_less)
  have "f2fs_test_bit i (se_cur_valid_map se) \<longleftrightarrow> bit (longs (se_cur_valid_map se) ! (i div 64)) (rpos (i mod 64))"
    "f2fs_test_bit i (se_ckpt_valid_map se) \<longleftrightarrow> bit (longs (se_ckpt_valid_map se) ! (i div 64)) (rpos (i mod 64))"
    using rev_bit_longs [of i "se_cur_valid_map se"] rev_bit_longs [of i "se_ckpt_valid_map se"] assms
    by (simp_all add: rev_bit_def)
  then show ?thesis
    using w by (auto simp: rev_bit_def discard_map_def bits_of_def bit_and_iff bit_xor_iff)
qed

text \<open>An entry covers blocks \<open>start\<close> to \<open>start + len - 1\<close> of the segment, all of them in \<open>D\<close>.\<close>

definition discards_only :: "nat \<Rightarrow> nat \<Rightarrow> (nat \<Rightarrow> bool) \<Rightarrow> discard_entry \<Rightarrow> bool" where
  "discards_only base max_blocks D e \<longleftrightarrow>
     (\<exists>start len. de_blkaddr e = u32 (base + start) \<and> de_len e = int len \<and> 0 < len \<and>
        start + len \<le> max_blocks \<and> (\<forall>i. start \<le> i \<and> i < start + len \<longrightarrow> D i))"

lemma queue_discard_simps [simp]:
  "sm_discard_list (SM_I (queue_discard e sbi)) = sm_discard_list (SM_I sbi) @ [e]"
  "sm_nr_discards (SM_I (queue_discard e sbi)) = sm_nr_discards (SM_I sbi) + de_len e"
  "sm_max_discards (SM_I (queue_discard e sbi)) = sm_max_discards (SM_I sbi)"
  "START_BLOCK (queue_discard e sbi) segno = START_BLOCK sbi segno"
  by (simp_all add: queue_discard_def accessors START_BLOCK_def)

lemma queue_discards_ok:
  assumes "8 dvd max_blocks" and "max_blocks < 2 ^ 32 - 1"
    and D: "\<And>i. i < max_blocks \<Longrightarrow> rev_bit dmap i = D i"
  shows "pos \<le> max_blocks + 1 \<Longrightarrow> \<exists>sbi' new. queue_discards dmap segno max_blocks sbi pos = Some sbi'
    \<and> sm_discard_list (SM_I sbi') = sm_discard_list (SM_I sbi) @ new
    \<and> sm_nr_discards (SM_I sbi') = sm_nr_discards (SM_I sbi) + (\<Sum>e\<leftarrow>new. de_len e)
    \<and> (\<forall>e\<in>set new. discards_only (START_BLOCK sbi segno) max_blocks D e)"
proof (induction "max_blocks + 1 - pos" arbitrary: sbi pos rule: less_induct)
  case less
  let ?P = "\<lambda>i. rev_bit dmap i \<and> \<not> skipped pos i"
  define s where "s = find_rev_next_bit dmap max_blocks pos"
  show ?case
  proof (cases "sm_nr_discards (SM_I sbi) \<le> sm_max_discards (SM_I sbi) \<and> s < max_blocks")
    case False
    then have "queue_discards dmap segno max_blocks sbi pos = Some sbi"
      by (subst queue_discards.simps) (auto simp: s_def Let_def)
    then show ?thesis by auto
  next
    case True
    have s: "rev_bit dmap s" "pos \<le> s"
      using scan_hit [of ?P max_blocks pos] True unfolding s_def find_rev_next_bit_scan [OF assms(1)] by auto
    define e where "e = find_rev_next_zero_bit dmap max_blocks (s + 1)"
    have e: "e = scan (\<lambda>i. \<not> rev_bit dmap i) max_blocks (s + 1)"
      unfolding e_def by (rule find_rev_next_zero_bit_scan [OF assms(1)])
    have le: "s < e" "e \<le> max_blocks"
    proof -
      show "e \<le> max_blocks" unfolding e by (rule scan_le)
      show "s < e" unfolding e by (rule scan_cases [of "\<lambda>i. \<not> rev_bit dmap i" max_blocks "s + 1"]) (use True in auto)
    qed
    have run: "D i" if "s \<le> i" "i < e" for i
    proof -
      have "rev_bit dmap i"
        using scan_skip [of "s + 1" i "\<lambda>i. \<not> rev_bit dmap i" max_blocks] that s(1) unfolding e by (cases "i = s") auto
      then show ?thesis using D that(2) le(2) by simp
    qed
    have u: "u32 (s + 1) = s + 1" "u32 (e + 1) = e + 1" using True le assms(2) by (auto intro!: u32_id)
    define new where "new = \<lparr>de_blkaddr = u32 (START_BLOCK sbi segno + s), de_len = int e - int s\<rparr>"
    have "queue_discards dmap segno max_blocks sbi pos = queue_discards dmap segno max_blocks (queue_discard new sbi) (e + 1)"
      using True unfolding queue_discards.simps [of dmap segno max_blocks sbi pos] Let_def s_def [symmetric]
        u(1) e_def [symmetric] u(2) new_def [symmetric] by (simp add: not_le)
    moreover have "discards_only (START_BLOCK sbi segno) max_blocks D new"
      using le run unfolding discards_only_def
      by (intro exI [of _ s] exI [of _ "e - s"]) (auto simp: new_def)
    moreover have "max_blocks + 1 - (e + 1) < max_blocks + 1 - pos" using s(2) le by linarith
    from less.hyps [OF this, of "queue_discard new sbi"] le(2)
    obtain sbi' rest where "queue_discards dmap segno max_blocks (queue_discard new sbi) (e + 1) = Some sbi'"
      "sm_discard_list (SM_I sbi') = sm_discard_list (SM_I (queue_discard new sbi)) @ rest"
      "sm_nr_discards (SM_I sbi') = sm_nr_discards (SM_I (queue_discard new sbi)) + (\<Sum>e\<leftarrow>rest. de_len e)"
      "\<forall>e\<in>set rest. discards_only (START_BLOCK (queue_discard new sbi) segno) max_blocks D e"
      by auto
    ultimately show ?thesis by (intro exI [of _ sbi'] exI [of _ "new # rest"]) auto
  qed
qed

text \<open>
  Only blocks that were valid at the last checkpoint and are dead now are queued: no live
  block of the segment is ever discarded.
\<close>

lemma add_discard_addrs_dead:
  assumes "seg_ok E (sbi_blocks_per_seg sbi) se" and "8 dvd SIT_VBLOCK_MAP_SIZE E" and "8 dvd sbi_blocks_per_seg sbi"
    and "sbi_blocks_per_seg sbi \<le> 8 * SIT_VBLOCK_MAP_SIZE E" and "sbi_blocks_per_seg sbi < 2 ^ 16"
  shows "\<exists>sbi' new. add_discard_addrs E sbi segno se = Some sbi'
    \<and> sm_discard_list (SM_I sbi') = sm_discard_list (SM_I sbi) @ new
    \<and> sm_nr_discards (SM_I sbi') = sm_nr_discards (SM_I sbi) + (\<Sum>e\<leftarrow>new. de_len e)
    \<and> (\<forall>e\<in>set new. discards_only (START_BLOCK sbi segno) (sbi_blocks_per_seg sbi)
        (\<lambda>i. bits_of (se_ckpt_valid_map se) i \<and> \<not> bits_of (se_cur_valid_map se) i) e)"
proof (cases "sbi_opt_discard sbi \<and> se_valid_blocks se \<noteq> 0 \<and> se_valid_blocks se \<noteq> sbi_blocks_per_seg sbi")
  case False
  then have "add_discard_addrs E sbi segno se = Some sbi" by (auto simp: add_discard_addrs_def Let_def)
  then show ?thesis by auto
next
  case True
  then have "add_discard_addrs E sbi segno se = queue_discards (discard_map E se) segno (sbi_blocks_per_seg sbi) sbi 0"
    by (simp add: add_discard_addrs_def u32_def)
  moreover have "rev_bit (discard_map E se) i \<longleftrightarrow> bits_of (se_ckpt_valid_map se) i \<and> \<not> bits_of (se_cur_valid_map se) i"
    if "i < sbi_blocks_per_seg sbi" for i
    using discard_map_bit [of se E i] assms(1,2,4) that by (simp add: seg_ok_def)
  ultimately show ?thesis
    using queue_discards_ok [OF assms(3), of "discard_map E se"
        "\<lambda>i. bits_of (se_ckpt_valid_map se) i \<and> \<not> bits_of (se_cur_valid_map se) i" 0 segno sbi] assms(5) by simp
qed

end
