(* ===== verification/Nat_Inv.thy ===== *)
theory Nat_Inv
  imports Nat_Ops
begin

text \<open>
  What the node address table means: \<open>nat_lookup\<close> is the entry of a node id as the cache, the
  journal and the pages together give it.  The invariant \<open>nat_ok\<close> of the node manager, and the
  effect of the elementary operations on both.
\<close>

section \<open>The two places of a block\<close>

definition nat_place :: "f2fs_sb_info \<Rightarrow> f2fs_nm_info \<Rightarrow> nat \<Rightarrow> bool \<Rightarrow> nat" where
  "nat_place sbi nm_i b second =
    nm_nat_blkaddr nm_i + (2 * (b div 2 ^ sbi_log_blocks_per_seg sbi) + (if second then 1 else 0)) * 2 ^ sbi_log_blocks_per_seg sbi
      + b mod 2 ^ sbi_log_blocks_per_seg sbi"

definition nat_geom :: "node_layout \<Rightarrow> f2fs_sb_info \<Rightarrow> f2fs_nm_info \<Rightarrow> bool" where
  "nat_geom L sbi nm_i \<longleftrightarrow> 0 < NAT_ENTRY_PER_BLOCK L \<and> sbi_blocks_per_seg sbi = 2 ^ sbi_log_blocks_per_seg sbi
     \<and> sbi_log_blocks_per_seg sbi < 32 \<and> nm_nat_blkaddr nm_i < 2 ^ 32
     \<and> nm_max_nid nm_i + NAT_ENTRY_PER_BLOCK L \<le> 2 ^ 32
     \<and> nm_max_nid nm_i \<le> NAT_ENTRY_PER_BLOCK L * (8 * length (nm_nat_bitmap nm_i))"

lemma nat_geomD:
  assumes "nat_geom L sbi nm_i"
  shows "0 < NAT_ENTRY_PER_BLOCK L" "sbi_blocks_per_seg sbi = 2 ^ sbi_log_blocks_per_seg sbi"
    "nm_max_nid nm_i + NAT_ENTRY_PER_BLOCK L \<le> 2 ^ 32"
  using assms by (simp_all add: nat_geom_def)

text \<open>The block of the table that holds a node id, and whether its second place is in use.\<close>

abbreviation nat_blk :: "node_layout \<Rightarrow> nat \<Rightarrow> nat" where
  "nat_blk L nid \<equiv> nid div NAT_ENTRY_PER_BLOCK L"

abbreviation nat_second :: "f2fs_nm_info \<Rightarrow> nat \<Rightarrow> bool" where
  "nat_second nm_i b \<equiv> f2fs_test_bit b (nm_nat_bitmap nm_i)"

lemma nat_blk_less:
  assumes "nat_geom L sbi nm_i" and "nid < nm_max_nid nm_i"
  shows "nat_blk L nid < 8 * length (nm_nat_bitmap nm_i)"
  using assms by (auto simp: nat_geom_def less_mult_imp_div_less mult.commute)

lemma nat_place_less:
  assumes "nat_geom L sbi nm_i" and "nid < nm_max_nid nm_i"
  shows "nat_place sbi nm_i (nat_blk L nid) x + 2 ^ sbi_log_blocks_per_seg sbi < 2 ^ 64"
proof -
  let ?P = "2 ^ sbi_log_blocks_per_seg sbi :: nat" and ?b = "nat_blk L nid"
  have "nid < 2 ^ 32" using assms by (simp add: nat_geom_def)
  then have b: "?b < 2 ^ 32" by (rule le_less_trans [OF div_le_dividend])
  have P: "?P \<le> 2 ^ 31" using assms(1) by (intro power_increasing) (auto simp: nat_geom_def)
  define A where "A = ?b div ?P * ?P"
  define R where "R = ?b mod ?P"
  have "nat_place sbi nm_i ?b x = nm_nat_blkaddr nm_i + 2 * A + (if x then ?P else 0) + R"
    by (simp add: nat_place_def add_mult_distrib A_def R_def)
  moreover have "A \<le> ?b" "R < ?P" by (simp_all add: A_def R_def)
  ultimately have "nat_place sbi nm_i ?b x < nm_nat_blkaddr nm_i + 2 * ?b + ?P + ?P"
    by (cases x) simp_all
  then show ?thesis using b P assms(1) by (simp add: nat_geom_def)
qed

lemma two_mul_bit_inj:
  "2 * p + (if x then 1 else 0) = 2 * q + (if y then 1 else 0) \<Longrightarrow> p = q \<and> x = y" for p q :: nat
  by (cases x; cases y; simp; presburger)

lemma nat_place_inj:
  assumes "nat_place sbi nm_i b x = nat_place sbi nm_i c y"
  shows "b = c \<and> x = y"
proof -
  let ?P = "2 ^ sbi_log_blocks_per_seg sbi :: nat"
  have p: "(q * ?P + r mod ?P) div ?P = q" "(q * ?P + r mod ?P) mod ?P = r mod ?P" for q r by simp_all
  let ?q = "\<lambda>b x. 2 * (b div ?P) + (if x then 1 else 0)"
  have e: "?q b x * ?P + b mod ?P = ?q c y * ?P + c mod ?P" using assms by (simp add: nat_place_def)
  have q: "?q b x = ?q c y" using p(1) [of "?q b x" b] p(1) [of "?q c y" c] e by metis
  have r: "b mod ?P = c mod ?P" using p(2) [of "?q b x" b] p(2) [of "?q c y" c] e by metis
  have "x = y" "b div ?P = c div ?P" using two_mul_bit_inj [OF q] by simp_all
  with r show ?thesis by (metis div_mult_mod_eq)
qed

lemma START_NID_simps:
  assumes "0 < NAT_ENTRY_PER_BLOCK L"
  shows "NAT_BLOCK_OFFSET L (START_NID L nid) = nat_blk L nid" "START_NID L nid \<le> nid"
    "nid - START_NID L nid = nid mod NAT_ENTRY_PER_BLOCK L" "NAT_BLOCK_OFFSET L nid = nat_blk L nid"
    "START_NID L (START_NID L nid) = START_NID L nid"
  using assms by (simp_all add: NAT_BLOCK_OFFSET_def START_NID_def modulo_nat_def)

lemma current_nat_addr_place:
  assumes g: "nat_geom L sbi nm_i" and n: "nid < nm_max_nid nm_i"
  shows "current_nat_addr L sbi nm_i nid = nat_place sbi nm_i (nat_blk L nid) (nat_second nm_i (nat_blk L nid))"
    "current_nat_addr L sbi nm_i (START_NID L nid) = current_nat_addr L sbi nm_i nid"
proof -
  let ?P = "2 ^ sbi_log_blocks_per_seg sbi :: nat" and ?b = "nat_blk L nid"
  have "u64 (nm_nat_blkaddr nm_i + ?b div ?P * ?P * 2 + ?b mod ?P) = nat_place sbi nm_i ?b False"
    using nat_place_less [OF g n, of False] by (simp add: nat_place_def u64_id mult.commute mult.left_commute)
  moreover have "u64 (nat_place sbi nm_i ?b False + sbi_blocks_per_seg sbi) = nat_place sbi nm_i ?b True"
    using nat_place_less [OF g n, of False] nat_geomD(2) [OF g] by (simp add: nat_place_def u64_id)
  ultimately show "current_nat_addr L sbi nm_i nid = nat_place sbi nm_i ?b (nat_second nm_i ?b)"
    by (simp add: current_nat_addr_def Let_def NAT_BLOCK_OFFSET_def)
  note p = nat_geomD(1) [OF g]
  show "current_nat_addr L sbi nm_i (START_NID L nid) = current_nat_addr L sbi nm_i nid"
    by (simp only: current_nat_addr_def trans [OF START_NID_simps(1) START_NID_simps(4) [symmetric], OF p p])
qed

lemma next_nat_addr_place:
  assumes g: "nat_geom L sbi nm_i" and n: "nid < nm_max_nid nm_i"
  shows "next_nat_addr sbi nm_i (nat_place sbi nm_i (nat_blk L nid) x) = nat_place sbi nm_i (nat_blk L nid) (\<not> x)"
proof -
  let ?P = "2 ^ sbi_log_blocks_per_seg sbi :: nat" and ?b = "nat_blk L nid" and ?base = "nm_nat_blkaddr nm_i"
  define R where "R = ?b mod ?P"
  define q where "q = 2 * (?b div ?P)"
  have R: "R < ?P" "q mod 2 = 0" by (simp_all add: R_def q_def)
  have pl: "nat_place sbi nm_i ?b False = ?base + q * ?P + R" "nat_place sbi nm_i ?b True = ?base + (q + 1) * ?P + R"
    by (simp_all add: nat_place_def R_def q_def)
  have lt: "?base + (q + 1) * ?P + R < 2 ^ 64" using nat_place_less [OF g n, of True] unfolding pl by simp
  then have lt': "(q + 1) * ?P + R < 2 ^ 64" "q * ?P + R + ?P < 2 ^ 64" "?base + q * ?P + R < 2 ^ 64" by simp_all
  note bps = nat_geomD(2) [OF g]
  show ?thesis
  proof (cases x)
    case True
    have "sub64 (?base + (q + 1) * ?P + R) ?base = (q + 1) * ?P + R"
      using lt by (subst sub64_id) simp_all
    moreover have "((q + 1) * ?P + R) div ?P = q + 1" using R(1) by (rule pair_index_div)
    moreover have "(q + 1) mod 2 = 1" using R(2) by presburger
    moreover have "sub64 ((q + 1) * ?P + R) ?P = q * ?P + R" using lt' by (subst sub64_id) simp_all
    moreover have "u64 (q * ?P + R + ?base) = ?base + q * ?P + R" using lt' by (subst u64_id) simp_all
    ultimately show ?thesis unfolding next_nat_addr_def Let_def bps using True pl by presburger
  next
    case False
    have "sub64 (?base + q * ?P + R) ?base = q * ?P + R" using lt' by (subst sub64_id) simp_all
    moreover have "(q * ?P + R) div ?P = q" using R(1) by (rule pair_index_div)
    moreover have "u64 (q * ?P + R + ?P) = (q + 1) * ?P + R" using lt' by (subst u64_id) simp_all
    moreover have "u64 ((q + 1) * ?P + R + ?base) = ?base + (q + 1) * ?P + R" using lt by (subst u64_id) simp_all
    ultimately show ?thesis unfolding next_nat_addr_def Let_def bps using False pl R(2) by simp
  qed
qed

lemma set_to_next_nat_frame [simp]:
  "nm_nat_blkaddr (set_to_next_nat L nm_i n) = nm_nat_blkaddr nm_i"
  "nm_max_nid (set_to_next_nat L nm_i n) = nm_max_nid nm_i"
  "nm_next_scan_nid (set_to_next_nat L nm_i n) = nm_next_scan_nid nm_i"
  "nm_nat_root (set_to_next_nat L nm_i n) = nm_nat_root nm_i"
  "nm_nat_cnt (set_to_next_nat L nm_i n) = nm_nat_cnt nm_i"
  "nm_nat_entries (set_to_next_nat L nm_i n) = nm_nat_entries nm_i"
  "nm_dirty_nat_entries (set_to_next_nat L nm_i n) = nm_dirty_nat_entries nm_i"
  "nm_free_nid_list (set_to_next_nat L nm_i n) = nm_free_nid_list nm_i"
  "nm_fcnt (set_to_next_nat L nm_i n) = nm_fcnt nm_i"
  "length (nm_nat_bitmap (set_to_next_nat L nm_i n)) = length (nm_nat_bitmap nm_i)"
  by (simp_all add: set_to_next_nat_def Let_def)

lemma set_to_next_nat_second:
  assumes "nat_geom L sbi nm_i" and "nid < nm_max_nid nm_i"
  shows "nat_second (set_to_next_nat L nm_i nid) b \<longleftrightarrow> (if b = nat_blk L nid then \<not> nat_second nm_i b else nat_second nm_i b)"
  using nat_blk_less [OF assms]
  by (auto simp: set_to_next_nat_def Let_def NAT_BLOCK_OFFSET_def f2fs_test_set_bit f2fs_test_clear_bit)

lemma nat_place_cong [simp]: "nat_place sbi (set_to_next_nat L nm_i n) = nat_place sbi nm_i"
  by (simp add: nat_place_def fun_eq_iff)

section \<open>The journal as a map\<close>

definition journal_map :: "'e journal \<Rightarrow> nat \<Rightarrow> 'e option" where
  "journal_map j = map_of (take (jr_n j) (jr_entries j))"

definition journal_ok :: "nat \<Rightarrow> 'e journal \<Rightarrow> bool" where
  "journal_ok entries_max j \<longleftrightarrow> jr_n j \<le> entries_max \<and> length (jr_entries j) = entries_max
     \<and> entries_max < 2 ^ 16 \<and> distinct (map fst (take (jr_n j) (jr_entries j)))"

lemma journal_index_map_of:
  "(case journal_index es v k of Some i \<Rightarrow> k \<le> i \<and> i - k < length es \<and> fst (es ! (i - k)) = v \<and> map_of es v = Some (snd (es ! (i - k)))
    | None \<Rightarrow> map_of es v = None)"
proof (induction es arbitrary: k)
  case (Cons e es)
  show ?case
  proof (cases "fst e = v")
    case False
    with Cons [of "k + 1"] show ?thesis
      by (auto split: option.splits simp: nth_Cons' Suc_diff_le Suc_le_eq)
  qed (cases e; simp)
qed simp

lemma journal_index_Some:
  assumes "journal_index (take (jr_n j) (jr_entries j)) v 0 = Some i"
  shows "i < jr_n j" "i < length (jr_entries j)" "fst (jr_entries j ! i) = v"
    "journal_map j v = Some (snd (jr_entries j ! i))"
  using journal_index_map_of [of "take (jr_n j) (jr_entries j)" v 0] assms by (auto simp: journal_map_def)

lemma journal_index_None:
  "journal_index (take (jr_n j) (jr_entries j)) v 0 = None \<longleftrightarrow> journal_map j v = None"
  using journal_index_map_of [of "take (jr_n j) (jr_entries j)" v 0]
  by (auto simp: journal_map_def split: option.splits)

lemma map_of_update_index:
  "distinct (map fst es) \<Longrightarrow> i < length es \<Longrightarrow> fst (es ! i) = v \<Longrightarrow>
   map_of (es[i := (v, x)]) = (map_of es)(v \<mapsto> x) \<and> map fst (es[i := (v, x)]) = map fst es"
proof (induction es arbitrary: i)
  case (Cons e es)
  show ?case
  proof (cases i)
    case 0
    with Cons.prems show ?thesis by (cases e) auto
  next
    case (Suc k)
    with Cons.prems have "k < length es" "fst (es ! k) = v" by simp_all
    then have "v \<in> fst ` set es" by (metis image_eqI nth_mem)
    then have "fst e \<noteq> v" using Cons.prems(1) by auto
    with Suc Cons show ?thesis by (cases e) (auto simp: fun_upd_twist)
  qed
qed simp

text \<open>A lookup that may allocate, and the entry then stored.\<close>

lemma lookup_journal_read:
  "lookup_journal_in_cursum m j v False =
    (case journal_index (take (jr_n j) (jr_entries j)) v 0 of Some i \<Rightarrow> (int i, j) | None \<Rightarrow> (- 1, j))"
  by (simp add: lookup_journal_in_cursum_def split: option.splits)

lemma lookup_journal_write:
  assumes ok: "journal_ok m j" and l: "lookup_journal_in_cursum m j v True = (off, j')"
  shows "off < 0 \<Longrightarrow> j' = j \<and> journal_map j v = None"
    and "0 \<le> off \<Longrightarrow> journal_ok m (j'\<lparr>jr_entries := (jr_entries j')[nat off := (v, x)]\<rparr>)
      \<and> journal_map (j'\<lparr>jr_entries := (jr_entries j')[nat off := (v, x)]\<rparr>) = (journal_map j)(v \<mapsto> x)"
proof -
  show "off < 0 \<Longrightarrow> j' = j \<and> journal_map j v = None"
    using l by (auto simp: lookup_journal_in_cursum_def update_cursum_def journal_index_None [symmetric]
      split: option.splits if_splits)
  assume o: "0 \<le> off"
  let ?es = "take (jr_n j) (jr_entries j)"
  show "journal_ok m (j'\<lparr>jr_entries := (jr_entries j')[nat off := (v, x)]\<rparr>)
      \<and> journal_map (j'\<lparr>jr_entries := (jr_entries j')[nat off := (v, x)]\<rparr>) = (journal_map j)(v \<mapsto> x)"
  proof (cases "journal_index ?es v 0")
    case (Some i)
    then have j': "j' = j" "nat off = i" using l by (auto simp: lookup_journal_in_cursum_def)
    note s = journal_index_Some [OF Some]
    have "map_of (?es[i := (v, x)]) = (map_of ?es)(v \<mapsto> x) \<and> map fst (?es[i := (v, x)]) = map fst ?es"
      by (rule map_of_update_index) (use ok s in \<open>auto simp: journal_ok_def\<close>)
    then show ?thesis using ok s(1) unfolding j' by (simp add: journal_ok_def journal_map_def take_update_swap)
  next
    case None
    then have j': "jr_n j < m" "nat off = jr_n j" "j' = j\<lparr>jr_n := jr_n j + 1\<rparr>"
      using l o ok by (auto simp: lookup_journal_in_cursum_def update_cursum_def journal_ok_def to_u16_inc split: if_splits)
    have len: "jr_n j < length (jr_entries j)" using ok j'(1) by (simp add: journal_ok_def)
    have t: "take (jr_n j + 1) ((jr_entries j)[jr_n j := (v, x)]) = ?es @ [(v, x)]"
      using len by (simp add: take_Suc_conv_app_nth)
    have n: "v \<notin> fst ` set ?es" using None journal_index_None by (fastforce simp: journal_map_def map_of_eq_None_iff)
    have "map_of (?es @ [(v, x)]) = (map_of ?es)(v \<mapsto> x)"
      using n by (simp add: map_add_upd_left dom_map_of_conv_image_fst)
    moreover have "distinct (map fst (?es @ [(v, x)]))" using ok n by (simp add: journal_ok_def)
    ultimately show ?thesis using ok j'(1) t unfolding j' by (simp add: journal_ok_def journal_map_def)
  qed
qed

section \<open>What the table says of a node id\<close>

definition raw_of :: "nat_entry \<Rightarrow> f2fs_nat_entry" where
  "raw_of e = \<lparr> rne_version = ni_version (nat_ni e), rne_ino = ni_ino (nat_ni e), rne_block_addr = ni_blk_addr (nat_ni e) \<rparr>"

definition page_nat :: "node_layout \<Rightarrow> f2fs_sb_info \<Rightarrow> nat_state \<Rightarrow> nat \<Rightarrow> f2fs_nat_entry" where
  "page_nat L sbi S nid =
     np_entries (ns_pages S (current_nat_addr L sbi (ns_nm S) nid)) ! (nid mod NAT_ENTRY_PER_BLOCK L)"

definition disk_nat :: "node_layout \<Rightarrow> f2fs_sb_info \<Rightarrow> nat_state \<Rightarrow> nat \<Rightarrow> f2fs_nat_entry" where
  "disk_nat L sbi S nid =
    (case journal_map (ns_journal S) nid of Some ne \<Rightarrow> ne | None \<Rightarrow> page_nat L sbi S nid)"

definition nat_lookup :: "node_layout \<Rightarrow> f2fs_sb_info \<Rightarrow> nat_state \<Rightarrow> nat \<Rightarrow> f2fs_nat_entry" where
  "nat_lookup L sbi S nid =
    (case nm_nat_root (ns_nm S) nid of Some e \<Rightarrow> raw_of e | None \<Rightarrow> disk_nat L sbi S nid)"

section \<open>The invariant\<close>

text \<open>Every entry of the tree is on exactly one list, and is found under its own id.\<close>

definition cache_ok :: "f2fs_nm_info \<Rightarrow> bool" where
  "cache_ok nm_i \<longleftrightarrow> distinct (nm_nat_entries nm_i @ nm_dirty_nat_entries nm_i)
     \<and> set (nm_nat_entries nm_i @ nm_dirty_nat_entries nm_i) = dom (nm_nat_root nm_i)
     \<and> nm_nat_cnt nm_i = length (nm_nat_entries nm_i @ nm_dirty_nat_entries nm_i)
     \<and> (\<forall>n e. nm_nat_root nm_i n = Some e \<longrightarrow> n < nm_max_nid nm_i \<and> ni_nid (nat_ni e) = n)
     \<and> nm_max_nid nm_i < 2 ^ 32"

text \<open>A clean entry is what is on disk.\<close>

definition nat_ok :: "node_layout \<Rightarrow> f2fs_sb_info \<Rightarrow> nat_state \<Rightarrow> bool" where
  "nat_ok L sbi S \<longleftrightarrow> nat_geom L sbi (ns_nm S) \<and> cache_ok (ns_nm S)
     \<and> journal_ok (NAT_JOURNAL_ENTRIES L) (ns_journal S)
     \<and> (\<forall>n. journal_map (ns_journal S) n \<noteq> None \<longrightarrow> n < nm_max_nid (ns_nm S))
     \<and> (\<forall>a. length (np_entries (ns_pages S a)) = NAT_ENTRY_PER_BLOCK L)
     \<and> (\<forall>n\<in>set (nm_nat_entries (ns_nm S)). map_option raw_of (nm_nat_root (ns_nm S) n) = Some (disk_nat L sbi S n))"

lemma nat_okD:
  assumes "nat_ok L sbi S"
  shows "nat_geom L sbi (ns_nm S)" "cache_ok (ns_nm S)" "journal_ok (NAT_JOURNAL_ENTRIES L) (ns_journal S)"
    "\<And>a. length (np_entries (ns_pages S a)) = NAT_ENTRY_PER_BLOCK L"
    "\<And>n. n \<in> set (nm_nat_entries (ns_nm S)) \<Longrightarrow> map_option raw_of (nm_nat_root (ns_nm S) n) = Some (disk_nat L sbi S n)"
    "\<And>n. journal_map (ns_journal S) n \<noteq> None \<Longrightarrow> n < nm_max_nid (ns_nm S)"
  using assms unfolding nat_ok_def by blast+

lemma cache_okD:
  assumes "cache_ok nm_i"
  shows "distinct (nm_nat_entries nm_i)" "distinct (nm_dirty_nat_entries nm_i)"
    "set (nm_nat_entries nm_i) \<inter> set (nm_dirty_nat_entries nm_i) = {}"
    "dom (nm_nat_root nm_i) = set (nm_nat_entries nm_i) \<union> set (nm_dirty_nat_entries nm_i)"
    "nm_nat_cnt nm_i = length (nm_nat_entries nm_i) + length (nm_dirty_nat_entries nm_i)"
    "nm_max_nid nm_i < 2 ^ 32"
    "\<And>n e. nm_nat_root nm_i n = Some e \<Longrightarrow> n < nm_max_nid nm_i"
    "\<And>n e. nm_nat_root nm_i n = Some e \<Longrightarrow> ni_nid (nat_ni e) = n"
    "length (nm_nat_entries nm_i) + length (nm_dirty_nat_entries nm_i) \<le> nm_max_nid nm_i"
proof -
  let ?all = "nm_nat_entries nm_i @ nm_dirty_nat_entries nm_i"
  have "set ?all \<subseteq> {..<nm_max_nid nm_i}" using assms unfolding cache_ok_def by blast
  then have "card (set ?all) \<le> nm_max_nid nm_i" using card_mono [of "{..<nm_max_nid nm_i}"] by fastforce
  moreover have "card (set ?all) = length ?all" by (rule distinct_card) (use assms in \<open>simp add: cache_ok_def\<close>)
  ultimately show "length (nm_nat_entries nm_i) + length (nm_dirty_nat_entries nm_i) \<le> nm_max_nid nm_i" by simp
qed (use assms in \<open>auto simp: cache_ok_def\<close>)
end
