(* ===== verification/Sit_Flush.thy ===== *)
theory Sit_Flush
  imports Sit_Disk Discard Nat_Inv
begin

text \<open>
  The segment information table at a checkpoint (\<open>flush_sit_entries\<close> of \<open>segment.c\<close>): the dirty
  entries go to the journal in the summary block of the cold data log, or to the other place of
  their table block.  What a later mount would read is \<open>disk_sit\<close>; the flush makes it agree with
  the entries in memory and leaves the blocks that the previous checkpoint refers to untouched.
\<close>

section \<open>Definitions\<close>

text \<open>A page of the table with its dirty mark.  The state is the superblock, the journal
  (\<open>sum_blk\<close> of \<open>CURSEG_COLD_DATA\<close>) and the pages by address.\<close>

record sit_page =
  sp_dirty :: bool
  sp_entries :: "f2fs_sit_entry list"

record sit_state =
  ss_sbi :: f2fs_sb_info
  ss_journal :: "f2fs_sit_entry journal"
  ss_pages :: "nat \<Rightarrow> sit_page"

definition get_next_sit_page :: "f2fs_env \<Rightarrow> sit_state \<Rightarrow> nat \<Rightarrow> (nat \<times> sit_state) option" where
  "get_next_sit_page E S start = do {
     let sbi = ss_sbi S;
     src_off \<leftarrow> current_sit_addr E sbi start;
     let dst_off = next_sit_addr sbi src_off;
     let src_page = ss_pages S src_off;
     f2fs_bug_on E (sp_dirty src_page);
     Some (dst_off, S\<lparr>ss_pages := (ss_pages S)(dst_off := \<lparr> sp_dirty = True, sp_entries = sp_entries src_page \<rparr>),
                      ss_sbi := set_SIT_I (set_to_next_sit E (SIT_I sbi) start) sbi\<rparr>) }"

text \<open>\<open>flush_sits_in_journal\<close> goes through the journal from its end.\<close>

definition flush_sits_in_journal :: "node_layout \<Rightarrow> sit_state \<Rightarrow> bool \<times> sit_state" where
  "flush_sits_in_journal L S =
    (let summ = ss_journal S
     in if SIT_JOURNAL_ENTRIES L \<le> jr_n summ
        then (True, S\<lparr>ss_sbi := fold (\<lambda>i sbi. mark_sit_entry_dirty sbi (fst (jr_entries summ ! i))) (rev [0..<jr_n summ]) (ss_sbi S),
                      ss_journal := snd (update_cursum summ (- int (jr_n summ)))\<rparr>)
        else (False, S))"

text \<open>What the loop keeps from one entry to the next: the page of the table it holds and the
  range of segments on it.\<close>

record sit_cursor =
  sc_page :: "nat option"
  sc_start :: nat
  sc_end :: nat

definition seek_sit_page :: "f2fs_env \<Rightarrow> nat \<Rightarrow> sit_cursor \<Rightarrow> sit_state \<Rightarrow> (sit_cursor \<times> sit_state) option" where
  "seek_sit_page E segno c S =
    (if sc_page c = None \<or> segno < sc_start c \<or> sc_end c < segno then do {
       let start = START_SEGNO E segno;
       let end_seg = u32 (start + SIT_ENTRY_PER_BLOCK E - 1);
       (page, S) \<leftarrow> get_next_sit_page E S start;
       Some (\<lparr> sc_page = Some page, sc_start = start, sc_end = end_seg \<rparr>, S) }
     else Some (c, S))"

text \<open>The entry is written into the journal or into the page; \<open>seg_info_to_raw_sit\<close> also moves its
  checkpoint map on.\<close>

definition write_raw_sit ::
  "f2fs_env \<Rightarrow> node_layout \<Rightarrow> bool \<Rightarrow> nat \<Rightarrow> seg_entry \<Rightarrow> sit_cursor \<Rightarrow> sit_state \<Rightarrow> (sit_cursor \<times> sit_state) option" where
  "write_raw_sit E L flushed segno se c S = do {
     let sit_offset = SIT_ENTRY_OFFSET (SIT_I (ss_sbi S)) segno;
     let (offset, summ) = (if flushed then (- 1, ss_journal S)
                           else lookup_journal_in_cursum (SIT_JOURNAL_ENTRIES L) (ss_journal S) segno True);
     let S = S\<lparr>ss_journal := summ\<rparr>;
     if 0 \<le> offset then
       let (se, raw) = seg_info_to_raw_sit E se (snd (jr_entries summ ! nat offset))
       in Some (c, S\<lparr>ss_journal := summ\<lparr>jr_entries := (jr_entries summ)[nat offset := (segno, raw)]\<rparr>,
                     ss_sbi := set_seg_entry segno se (ss_sbi S)\<rparr>)
     else do {
       (c, S) \<leftarrow> seek_sit_page E segno c S;
       page \<leftarrow> sc_page c;
       let (se, raw) = seg_info_to_raw_sit E se (sp_entries (ss_pages S page) ! sit_offset);
       Some (c, S\<lparr>ss_pages := (ss_pages S)(page :=
                    (ss_pages S page)\<lparr>sp_entries := (sp_entries (ss_pages S page))[sit_offset := raw]\<rparr>),
                  ss_sbi := set_seg_entry segno se (ss_sbi S)\<rparr>) } }"

definition flush_sit_entry ::
  "f2fs_env \<Rightarrow> node_layout \<Rightarrow> bool \<Rightarrow> nat \<Rightarrow> sit_cursor \<Rightarrow> sit_state \<Rightarrow> (sit_cursor \<times> sit_state) option" where
  "flush_sit_entry E L flushed segno c S = do {
     let se = get_seg_entry (ss_sbi S) segno;
     sbi \<leftarrow> (if sm_nr_discards (SM_I (ss_sbi S)) < sm_max_discards (SM_I (ss_sbi S))
            then add_discard_addrs E (ss_sbi S) segno se else Some (ss_sbi S));
     (c, S) \<leftarrow> write_raw_sit E L flushed segno se c (S\<lparr>ss_sbi := sbi\<rparr>);
     let sit_i = SIT_I (ss_sbi S);
     let sit_i = sit_i\<lparr>sit_dirty_sentries_bitmap := (sit_dirty_sentries_bitmap sit_i)(segno := False),
                       sit_dirty_sentries := sub32 (sit_dirty_sentries sit_i) 1\<rparr>;
     Some (c, S\<lparr>ss_sbi := set_SIT_I sit_i (ss_sbi S)\<rparr>) }"

partial_function (option) flush_sits_from ::
  "f2fs_env \<Rightarrow> node_layout \<Rightarrow> bool \<Rightarrow> sit_cursor \<Rightarrow> sit_state \<Rightarrow> nat \<Rightarrow> sit_state option" where
  "flush_sits_from E L flushed c S pos =
    (let segno = find_next_bit E (sit_dirty_sentries_bitmap (SIT_I (ss_sbi S))) (TOTAL_SEGS (ss_sbi S)) pos
     in if segno < TOTAL_SEGS (ss_sbi S)
        then Option.bind (flush_sit_entry E L flushed segno c S)
          (\<lambda>p. flush_sits_from E L flushed (fst p) (snd p) (u32 (segno + 1)))
        else Some S)"

definition flush_sit_entries :: "f2fs_env \<Rightarrow> node_layout \<Rightarrow> sit_state \<Rightarrow> sit_state option" where
  "flush_sit_entries E L S = do {
     let (flushed, S) = flush_sits_in_journal L S;
     S \<leftarrow> flush_sits_from E L flushed \<lparr> sc_page = None, sc_start = 0, sc_end = 0 \<rparr> S (u32 (2 ^ 32 - 1 + 1));
     sbi \<leftarrow> set_prefree_as_free_segments E (ss_sbi S);
     Some (S\<lparr>ss_sbi := sbi\<rparr>) }"

section \<open>The places of the table\<close>

definition sit_place :: "sit_info \<Rightarrow> nat \<Rightarrow> bool \<Rightarrow> nat" where
  "sit_place sit_i b second = sit_base_addr sit_i + b + (if second then sit_blocks sit_i else 0)"

abbreviation sit_blk :: "f2fs_env \<Rightarrow> nat \<Rightarrow> nat" where
  "sit_blk E segno \<equiv> segno div SIT_ENTRY_PER_BLOCK E"

abbreviation sit_second :: "sit_info \<Rightarrow> nat \<Rightarrow> bool" where
  "sit_second sit_i b \<equiv> f2fs_test_bit b (sit_bitmap sit_i)"

definition sit_addr :: "f2fs_env \<Rightarrow> sit_info \<Rightarrow> nat \<Rightarrow> nat" where
  "sit_addr E sit_i segno = sit_place sit_i (sit_blk E segno) (sit_second sit_i (sit_blk E segno))"

definition sit_geom :: "f2fs_env \<Rightarrow> f2fs_sb_info \<Rightarrow> bool" where
  "sit_geom E sbi \<longleftrightarrow> 0 < SIT_ENTRY_PER_BLOCK E \<and> sit_sents_per_block (SIT_I sbi) = SIT_ENTRY_PER_BLOCK E
     \<and> TOTAL_SEGS sbi \<le> SIT_ENTRY_PER_BLOCK E * sit_blocks (SIT_I sbi)
     \<and> sit_blocks (SIT_I sbi) \<le> 8 * length (sit_bitmap (SIT_I sbi))
     \<and> sit_base_addr (SIT_I sbi) + 2 * sit_blocks (SIT_I sbi) \<le> 2 ^ 32
     \<and> TOTAL_SEGS sbi \<le> sm_segment_count (SM_I sbi) \<and> sm_segment_count (SM_I sbi) < 2 ^ 32
     \<and> TOTAL_SEGS sbi + SIT_ENTRY_PER_BLOCK E \<le> 2 ^ 32"

lemma sit_geomD:
  assumes "sit_geom E sbi"
  shows "0 < SIT_ENTRY_PER_BLOCK E" "sit_sents_per_block (SIT_I sbi) = SIT_ENTRY_PER_BLOCK E"
    "sit_base_addr (SIT_I sbi) + 2 * sit_blocks (SIT_I sbi) \<le> 2 ^ 32" "TOTAL_SEGS sbi + SIT_ENTRY_PER_BLOCK E \<le> 2 ^ 32"
    "sit_blocks (SIT_I sbi) \<le> 8 * length (sit_bitmap (SIT_I sbi))"
    "segno < TOTAL_SEGS sbi \<Longrightarrow> sit_blk E segno < sit_blocks (SIT_I sbi)"
    "segno < TOTAL_SEGS sbi \<Longrightarrow> segno < sm_segment_count (SM_I sbi)" "sm_segment_count (SM_I sbi) < 2 ^ 32"
  using assms by (auto simp: sit_geom_def less_mult_imp_div_less mult.commute)

lemma sit_place_inj:
  assumes "sit_place sit_i b x = sit_place sit_i c y" and "b < sit_blocks sit_i" and "c < sit_blocks sit_i"
  shows "b = c \<and> x = y"
  using assms by (auto simp: sit_place_def split: if_splits)

lemma START_SEGNO_blk:
  assumes "0 < SIT_ENTRY_PER_BLOCK E"
  shows "SIT_BLOCK_OFFSET E (START_SEGNO E segno) = sit_blk E segno" "START_SEGNO E segno \<le> segno"
    "sit_blk E (START_SEGNO E segno) = sit_blk E segno"
  using assms by (simp_all add: START_SEGNO_def SIT_BLOCK_OFFSET_def)

lemma current_sit_addr_eq:
  assumes "sit_geom E sbi" and "segno < TOTAL_SEGS sbi"
  shows "current_sit_addr E sbi segno = Some (sit_addr E (SIT_I sbi) segno)"
    "sit_addr E (SIT_I sbi) (START_SEGNO E segno) = sit_addr E (SIT_I sbi) segno"
proof -
  note g = sit_geomD [OF assms(1)] and b = sit_geomD(6,7) [OF assms(1,2)]
  have "sub32 (sm_segment_count (SM_I sbi)) 1 = sm_segment_count (SM_I sbi) - 1"
    using b(2) g(8) by (intro sub32_id) auto
  then have r: "check_seg_range E sbi segno = Some ()"
    using b(2) by (auto simp: check_seg_range_def BUG_ON_def)
  have u: "u32 (sit_base_addr (SIT_I sbi) + sit_blk E segno) = sit_base_addr (SIT_I sbi) + sit_blk E segno"
    "u32 (sit_base_addr (SIT_I sbi) + sit_blk E segno + sit_blocks (SIT_I sbi)) =
      sit_base_addr (SIT_I sbi) + sit_blk E segno + sit_blocks (SIT_I sbi)"
    using b(1) g(3) by (intro u32_id; simp)+
  show "current_sit_addr E sbi segno = Some (sit_addr E (SIT_I sbi) segno)"
    by (simp add: current_sit_addr_def SIT_BLOCK_OFFSET_def Let_def r u sit_addr_def sit_place_def)
  show "sit_addr E (SIT_I sbi) (START_SEGNO E segno) = sit_addr E (SIT_I sbi) segno"
    using START_SEGNO_blk [OF g(1)] by (simp add: sit_addr_def)
qed

section \<open>What a mount would read\<close>

definition raw_sit :: "f2fs_env \<Rightarrow> seg_entry \<Rightarrow> f2fs_sit_entry" where
  "raw_sit E se = \<lparr> rs_vblocks = u16 (push_bit (SIT_VBLOCKS_SHIFT E) (se_type se) OR se_valid_blocks se),
     rs_valid_map = se_cur_valid_map se, rs_mtime = se_mtime se \<rparr>"

text \<open>The entry after a checkpoint: both of its states are the current one.\<close>

definition ckpted :: "seg_entry \<Rightarrow> seg_entry" where
  "ckpted se = se\<lparr>se_ckpt_valid_map := se_cur_valid_map se, se_ckpt_valid_blocks := se_valid_blocks se\<rparr>"

definition disk_sit :: "f2fs_env \<Rightarrow> sit_state \<Rightarrow> nat \<Rightarrow> f2fs_sit_entry" where
  "disk_sit E S segno = (case journal_map (ss_journal S) segno of Some e \<Rightarrow> e
     | None \<Rightarrow> sp_entries (ss_pages S (sit_addr E (SIT_I (ss_sbi S)) segno)) ! (segno mod SIT_ENTRY_PER_BLOCK E))"

definition sit_shape :: "f2fs_env \<Rightarrow> node_layout \<Rightarrow> sit_state \<Rightarrow> bool" where
  "sit_shape E L S \<longleftrightarrow> sit_geom E (ss_sbi S) \<and> journal_ok (SIT_JOURNAL_ENTRIES L) (ss_journal S)
     \<and> (\<forall>n. journal_map (ss_journal S) n \<noteq> None \<longrightarrow> n < TOTAL_SEGS (ss_sbi S))
     \<and> (\<forall>e\<in>set (jr_entries (ss_journal S)). length (rs_valid_map (snd e)) = SIT_VBLOCK_MAP_SIZE E)
     \<and> (\<forall>a. length (sp_entries (ss_pages S a)) = SIT_ENTRY_PER_BLOCK E
            \<and> (\<forall>e\<in>set (sp_entries (ss_pages S a)). length (rs_valid_map e) = SIT_VBLOCK_MAP_SIZE E))"

lemma sit_shapeD:
  assumes "sit_shape E L S"
  shows "sit_geom E (ss_sbi S)" "journal_ok (SIT_JOURNAL_ENTRIES L) (ss_journal S)"
    "journal_map (ss_journal S) n \<noteq> None \<Longrightarrow> n < TOTAL_SEGS (ss_sbi S)"
    "e \<in> set (jr_entries (ss_journal S)) \<Longrightarrow> length (rs_valid_map (snd e)) = SIT_VBLOCK_MAP_SIZE E"
    "length (sp_entries (ss_pages S a)) = SIT_ENTRY_PER_BLOCK E"
    "r \<in> set (sp_entries (ss_pages S a)) \<Longrightarrow> length (rs_valid_map r) = SIT_VBLOCK_MAP_SIZE E"
  using assms by (auto simp: sit_shape_def)

lemma raw_sit_made:
  assumes "length (se_cur_valid_map se) = SIT_VBLOCK_MAP_SIZE E" "length (se_ckpt_valid_map se) = SIT_VBLOCK_MAP_SIZE E"
    and "length (rs_valid_map rs) = SIT_VBLOCK_MAP_SIZE E"
  shows "seg_info_to_raw_sit E se rs = (ckpted se, raw_sit E se)"
  using assms by (simp add: seg_info_to_raw_sit_def Let_def memcpy_all ckpted_def raw_sit_def)

lemma ckpted_simps [simp]:
  "se_cur_valid_map (ckpted se) = se_cur_valid_map se" "se_valid_blocks (ckpted se) = se_valid_blocks se"
  "se_type (ckpted se) = se_type se" "se_mtime (ckpted se) = se_mtime se"
  "se_ckpt_valid_map (ckpted se) = se_cur_valid_map se" "se_ckpt_valid_blocks (ckpted se) = se_valid_blocks se"
  "raw_sit E (ckpted se) = raw_sit E se" "ckpted (ckpted se) = ckpted se"
  by (simp_all add: ckpted_def raw_sit_def)

lemma ckpted_ok: "seg_ok E bps se \<Longrightarrow> seg_ok E bps (ckpted se)"
  by (simp add: seg_ok_def)

section \<open>Finding the page of an entry\<close>

text \<open>\<open>S\<close> has been reached from \<open>S0\<close> by writing to new places only; the blocks above the one the cursor
  is at (that of segment \<open>j\<close>) still have their old place.\<close>

definition sit_cursor_at :: "f2fs_env \<Rightarrow> sit_info \<Rightarrow> sit_cursor \<Rightarrow> f2fs_sb_info \<Rightarrow> nat \<Rightarrow> nat \<Rightarrow> bool" where
  "sit_cursor_at E i0 c sbi p j \<longleftrightarrow> j < TOTAL_SEGS sbi \<and> p = sit_addr E (SIT_I sbi) j \<and> sc_start c = START_SEGNO E j
     \<and> sc_end c = START_SEGNO E j + SIT_ENTRY_PER_BLOCK E - 1
     \<and> sit_second (SIT_I sbi) (sit_blk E j) \<noteq> sit_second i0 (sit_blk E j)
     \<and> (\<forall>b < sit_blocks (SIT_I sbi). sit_blk E j < b \<longrightarrow> sit_second (SIT_I sbi) b = sit_second i0 b)"

definition sit_shadow :: "f2fs_env \<Rightarrow> sit_state \<Rightarrow> nat \<Rightarrow> sit_cursor \<Rightarrow> sit_state \<Rightarrow> bool" where
  "sit_shadow E S0 pos c S \<longleftrightarrow>
     (let i0 = SIT_I (ss_sbi S0); i = SIT_I (ss_sbi S) in
       sit_base_addr i = sit_base_addr i0 \<and> sit_blocks i = sit_blocks i0 \<and> TOTAL_SEGS (ss_sbi S) = TOTAL_SEGS (ss_sbi S0)
       \<and> (\<forall>k<TOTAL_SEGS (ss_sbi S0). ss_pages S (sit_addr E i0 k) = ss_pages S0 (sit_addr E i0 k))
       \<and> (case sc_page c of None \<Rightarrow> (\<forall>b < sit_blocks i. sit_second i b = sit_second i0 b)
          | Some p \<Rightarrow> (\<exists>j<pos. sit_cursor_at E i0 c (ss_sbi S) p j)))"

lemma sit_shadowD:
  assumes "sit_shadow E S0 pos c S"
  shows "sit_base_addr (SIT_I (ss_sbi S)) = sit_base_addr (SIT_I (ss_sbi S0))"
    "sit_blocks (SIT_I (ss_sbi S)) = sit_blocks (SIT_I (ss_sbi S0))" "TOTAL_SEGS (ss_sbi S) = TOTAL_SEGS (ss_sbi S0)"
    "k < TOTAL_SEGS (ss_sbi S0) \<Longrightarrow> ss_pages S (sit_addr E (SIT_I (ss_sbi S0)) k) = ss_pages S0 (sit_addr E (SIT_I (ss_sbi S0)) k)"
  using assms by (auto simp: sit_shadow_def Let_def)

lemma sit_addr_cong:
  assumes "sit_base_addr i' = sit_base_addr i" "sit_blocks i' = sit_blocks i" "sit_bitmap i' = sit_bitmap i"
  shows "sit_addr E i' = sit_addr E i"
  using assms by (simp add: sit_addr_def sit_place_def fun_eq_iff)

text \<open>The predicate reads the superblock through the bitmap of places only.\<close>

lemma sit_shadow_cong:
  assumes "sit_base_addr (SIT_I (ss_sbi S')) = sit_base_addr (SIT_I (ss_sbi S))" "sit_blocks (SIT_I (ss_sbi S')) = sit_blocks (SIT_I (ss_sbi S))"
    "sit_bitmap (SIT_I (ss_sbi S')) = sit_bitmap (SIT_I (ss_sbi S))" "TOTAL_SEGS (ss_sbi S') = TOTAL_SEGS (ss_sbi S)"
    and "\<And>k. k < TOTAL_SEGS (ss_sbi S0) \<Longrightarrow>
      ss_pages S' (sit_addr E (SIT_I (ss_sbi S0)) k) = ss_pages S (sit_addr E (SIT_I (ss_sbi S0)) k)"
  shows "sit_shadow E S0 pos c S' = sit_shadow E S0 pos c S"
proof -
  have "sit_cursor_at E (SIT_I (ss_sbi S0)) c (ss_sbi S') = sit_cursor_at E (SIT_I (ss_sbi S0)) c (ss_sbi S)"
    by (simp add: sit_cursor_at_def fun_eq_iff sit_addr_cong [OF assms(1-3)] assms(1-4))
  then show ?thesis by (cases "sc_page c") (simp_all add: sit_shadow_def Let_def assms)
qed

lemma set_seg_entry_sit [simp]:
  "SIT_I (set_seg_entry segno se sbi) = (SIT_I sbi)\<lparr>sit_sentries := (sit_sentries (SIT_I sbi))[segno := se]\<rparr>"
  "TOTAL_SEGS (set_seg_entry segno se sbi) = TOTAL_SEGS sbi" "sm_segment_count (SM_I (set_seg_entry segno se sbi)) = sm_segment_count (SM_I sbi)"
  by (simp_all add: set_seg_entry_def TOTAL_SEGS_def)

lemma sit_addr_sentries [simp]: "sit_addr E (i\<lparr>sit_sentries := x\<rparr>) = sit_addr E i"
  by (rule sit_addr_cong) simp_all

lemma sit_shadow_mono:
  assumes "sit_shadow E S0 pos c S" and "pos \<le> q"
  shows "sit_shadow E S0 q c S"
proof (cases "sc_page c")
  case (Some p)
  then have "\<exists>j<q. sit_cursor_at E (SIT_I (ss_sbi S0)) c (ss_sbi S) p j"
    using assms by (auto simp: sit_shadow_def Let_def intro: less_le_trans)
  then show ?thesis using assms(1) Some by (simp add: sit_shadow_def Let_def)
qed (use assms in \<open>simp add: sit_shadow_def\<close>)

lemma set_updD: "e \<in> set (xs[i := x]) \<Longrightarrow> e = x \<or> e \<in> set xs"
  using set_update_subset_insert [of xs i x] by blast

lemma seg_block_range:
  assumes "0 < SIT_ENTRY_PER_BLOCK E"
  shows "START_SEGNO E j \<le> segno \<and> segno \<le> START_SEGNO E j + SIT_ENTRY_PER_BLOCK E - 1 \<longleftrightarrow> sit_blk E segno = sit_blk E j"
proof -
  have "START_SEGNO E j \<le> segno \<and> segno \<le> START_SEGNO E j + SIT_ENTRY_PER_BLOCK E - 1 \<longleftrightarrow>
      sit_blk E j * SIT_ENTRY_PER_BLOCK E \<le> segno \<and> segno < sit_blk E j * SIT_ENTRY_PER_BLOCK E + SIT_ENTRY_PER_BLOCK E"
    using assms by (auto simp: START_SEGNO_def SIT_BLOCK_OFFSET_def)
  then show ?thesis by (simp add: section_range [OF assms])
qed

lemma START_SEGNO_cong: "sit_blk E a = sit_blk E b \<Longrightarrow> START_SEGNO E a = START_SEGNO E b"
  by (simp add: START_SEGNO_def SIT_BLOCK_OFFSET_def)

lemma sit_place_cong: "sit_base_addr i = sit_base_addr j \<Longrightarrow> sit_blocks i = sit_blocks j \<Longrightarrow> sit_place i = sit_place j"
  by (simp add: sit_place_def fun_eq_iff)

lemma sit_bitmap_upd [simp]:
  "sit_place (i\<lparr>sit_bitmap := m\<rparr>) = sit_place i"
  by (simp add: sit_place_def fun_eq_iff)

text \<open>The switch of a block to its other place.\<close>

lemma get_next_sit_page_eq:
  assumes sh: "sit_shape E L S" and n: "segno < TOTAL_SEGS (ss_sbi S)"
    and clean: "\<not> sp_dirty (ss_pages S (sit_addr E (SIT_I (ss_sbi S)) segno))"
  defines "b \<equiv> sit_blk E segno" and "i \<equiv> SIT_I (ss_sbi S)"
  defines "dst \<equiv> sit_place i b (\<not> sit_second i b)"
  shows "\<exists>m. get_next_sit_page E S (START_SEGNO E segno) = Some (dst, S\<lparr>
      ss_pages := (ss_pages S)(dst := \<lparr> sp_dirty = True, sp_entries = sp_entries (ss_pages S (sit_addr E i segno)) \<rparr>),
      ss_sbi := set_SIT_I (i\<lparr>sit_bitmap := m\<rparr>) (ss_sbi S)\<rparr>)
    \<and> length m = length (sit_bitmap i) \<and> (\<forall>k. f2fs_test_bit k m \<longleftrightarrow> sit_second i k \<noteq> (k = b))"
proof -
  note g = sit_shapeD(1) [OF sh] and G = sit_geomD [OF sit_shapeD(1) [OF sh]]
  have B: "b < sit_blocks i" "b < 8 * length (sit_bitmap i)"
    using G(5) G(6) [OF n] by (simp_all add: b_def i_def)
  have st: "START_SEGNO E segno < TOTAL_SEGS (ss_sbi S)" using START_SEGNO_blk(2) [OF G(1), of segno] n by linarith
  have cur: "current_sit_addr E (ss_sbi S) (START_SEGNO E segno) = Some (sit_addr E i segno)"
    using current_sit_addr_eq [OF g st] current_sit_addr_eq(2) [OF g n] by (simp add: i_def)
  have ob: "SIT_BLOCK_OFFSET E (START_SEGNO E segno) = b" using START_SEGNO_blk(1) [OF G(1)] by (simp add: b_def)
  define m where "m = sit_bitmap (set_to_next_sit E i (START_SEGNO E segno))"
  have m: "set_to_next_sit E i (START_SEGNO E segno) = i\<lparr>sit_bitmap := m\<rparr>" "length m = length (sit_bitmap i)"
    by (simp_all add: m_def set_to_next_sit_def Let_def)
  have bits: "f2fs_test_bit k m \<longleftrightarrow> sit_second i k \<noteq> (k = b)" for k
    using set_to_next_sit_toggles [of E "START_SEGNO E segno" i k] B(2) by (auto simp: ob m_def)
  have nxt: "next_sit_addr (ss_sbi S) (sit_addr E i segno) = dst"
  proof -
    have hyp: "SIT_BLOCK_OFFSET E (START_SEGNO E segno) < 8 * length (sit_bitmap (SIT_I (ss_sbi S)))"
      "SIT_BLOCK_OFFSET E (START_SEGNO E segno) < sit_blocks (SIT_I (ss_sbi S))"
      using B by (simp_all add: ob i_def)
    note N = next_sit_addr_current(1) [OF hyp G(3) cur]
    let ?sbi = "set_SIT_I (set_to_next_sit E (SIT_I (ss_sbi S)) (START_SEGNO E segno)) (ss_sbi S)"
    have sb: "?sbi = set_SIT_I (i\<lparr>sit_bitmap := m\<rparr>) (ss_sbi S)" using m(1) by (simp add: i_def)
    have "sit_geom E ?sbi" using g m(2) unfolding sb by (simp add: sit_geom_def i_def TOTAL_SEGS_def)
    moreover have "START_SEGNO E segno < TOTAL_SEGS ?sbi" using st by (simp add: TOTAL_SEGS_def)
    ultimately have "current_sit_addr E ?sbi (START_SEGNO E segno) = Some (sit_addr E (i\<lparr>sit_bitmap := m\<rparr>) (START_SEGNO E segno))"
      using current_sit_addr_eq(1) unfolding sb by fastforce
    then have "next_sit_addr (ss_sbi S) (sit_addr E i segno) = sit_addr E (i\<lparr>sit_bitmap := m\<rparr>) (START_SEGNO E segno)"
      using N by simp
    also have "\<dots> = dst"
      using bits [of b] START_SEGNO_blk(3) [OF G(1), of segno] by (simp add: sit_addr_def dst_def b_def)
    finally show ?thesis .
  qed
  have "get_next_sit_page E S (START_SEGNO E segno) = Some (dst, S\<lparr>
      ss_pages := (ss_pages S)(dst := \<lparr> sp_dirty = True, sp_entries = sp_entries (ss_pages S (sit_addr E i segno)) \<rparr>),
      ss_sbi := set_SIT_I (i\<lparr>sit_bitmap := m\<rparr>) (ss_sbi S)\<rparr>)"
    using clean by (simp add: get_next_sit_page_def cur nxt f2fs_bug_on_def m(1) [symmetric] i_def [symmetric])
  then show ?thesis using m(2) bits by blast
qed

text \<open>The state after a page has been found: only the bitmap of places and the pages changed.\<close>

definition moved_to :: "f2fs_env \<Rightarrow> sit_state \<Rightarrow> sit_state \<Rightarrow> bool" where
  "moved_to E S S' \<longleftrightarrow> ss_journal S' = ss_journal S
     \<and> (\<exists>m. ss_sbi S' = set_SIT_I ((SIT_I (ss_sbi S))\<lparr>sit_bitmap := m\<rparr>) (ss_sbi S))
     \<and> (\<forall>k<TOTAL_SEGS (ss_sbi S). sp_entries (ss_pages S' (sit_addr E (SIT_I (ss_sbi S')) k)) =
            sp_entries (ss_pages S (sit_addr E (SIT_I (ss_sbi S)) k)))"

lemma set_SIT_I_same [simp]: "set_SIT_I (SIT_I sbi) sbi = sbi"
  by (simp add: setters accessors)

lemma sit_bitmap_same [simp]: "(i :: sit_info)\<lparr>sit_bitmap := sit_bitmap i\<rparr> = i"
  by simp

lemma moved_to_refl: "moved_to E S S"
  unfolding moved_to_def by (intro conjI exI [of _ "sit_bitmap (SIT_I (ss_sbi S))"]) simp_all

lemma moved_disk:
  assumes "moved_to E S S'" and "k < TOTAL_SEGS (ss_sbi S)"
  shows "disk_sit E S' k = disk_sit E S k"
  using assms by (simp add: moved_to_def disk_sit_def split: option.split)

lemma sit_second_shadow:
  assumes "sit_shadow E S0 pos c S" and "sc_page c = None \<or> segno < sc_start c \<or> sc_end c < segno"
    and "pos \<le> segno" and n: "segno < TOTAL_SEGS (ss_sbi S)" and g: "sit_geom E (ss_sbi S)"
    and b: "sit_blk E segno \<le> b" "b < sit_blocks (SIT_I (ss_sbi S))"
  shows "sit_second (SIT_I (ss_sbi S)) b = sit_second (SIT_I (ss_sbi S0)) b"
proof (cases "sc_page c")
  case None
  then show ?thesis using assms(1) b by (simp add: sit_shadow_def Let_def)
next
  case (Some p)
  then obtain j where j0: "j < pos" "sit_cursor_at E (SIT_I (ss_sbi S0)) c (ss_sbi S) p j"
    using assms(1) by (auto simp: sit_shadow_def Let_def)
  then have j: "j < pos" "sc_start c = START_SEGNO E j" "sc_end c = START_SEGNO E j + SIT_ENTRY_PER_BLOCK E - 1"
    "\<forall>b < sit_blocks (SIT_I (ss_sbi S)). sit_blk E j < b \<longrightarrow> sit_second (SIT_I (ss_sbi S)) b = sit_second (SIT_I (ss_sbi S0)) b"
    by (simp_all add: sit_cursor_at_def)
  have "sit_blk E segno \<noteq> sit_blk E j"
    using assms(2) Some j(2,3) seg_block_range [OF sit_geomD(1) [OF g], of j segno] by auto
  moreover have "sit_blk E j \<le> sit_blk E segno" using j(1) assms(3) by (intro div_le_mono) simp
  ultimately show ?thesis using j(4) b by simp
qed

lemma seek_sit_page_ok:
  assumes sh: "sit_shape E L S" and n: "segno < TOTAL_SEGS (ss_sbi S)" and pos: "pos \<le> segno"
    and shd: "sit_shadow E S0 pos c S" and g0: "sit_geom E (ss_sbi S0)"
    and clean: "\<And>k. k < TOTAL_SEGS (ss_sbi S0) \<Longrightarrow> \<not> sp_dirty (ss_pages S0 (sit_addr E (SIT_I (ss_sbi S0)) k))"
  shows "\<exists>c' S'. seek_sit_page E segno c S = Some (c', S') \<and> sc_page c' = Some (sit_addr E (SIT_I (ss_sbi S')) segno)
    \<and> moved_to E S S' \<and> sit_shape E L S' \<and> sit_shadow E S0 (segno + 1) c' S'
    \<and> sit_second (SIT_I (ss_sbi S')) (sit_blk E segno) \<noteq> sit_second (SIT_I (ss_sbi S0)) (sit_blk E segno)"
proof (cases "sc_page c = None \<or> segno < sc_start c \<or> sc_end c < segno")
  case False
  note G = sit_geomD [OF sit_shapeD(1) [OF sh]]
  obtain p where p: "sc_page c = Some p" using False by auto
  obtain j where j0: "j < pos" "sit_cursor_at E (SIT_I (ss_sbi S0)) c (ss_sbi S) p j"
    using shd p by (auto simp: sit_shadow_def Let_def)
  then have j: "j < pos" "j < TOTAL_SEGS (ss_sbi S)" "p = sit_addr E (SIT_I (ss_sbi S)) j" "sc_start c = START_SEGNO E j"
    "sc_end c = START_SEGNO E j + SIT_ENTRY_PER_BLOCK E - 1"
    "sit_second (SIT_I (ss_sbi S)) (sit_blk E j) \<noteq> sit_second (SIT_I (ss_sbi S0)) (sit_blk E j)"
    by (simp_all add: sit_cursor_at_def)
  have same: "sit_blk E segno = sit_blk E j" using seg_block_range [OF G(1), of j segno] False j(4,5) by simp
  then have "sit_addr E (SIT_I (ss_sbi S)) segno = p" using j(3) by (simp add: sit_addr_def)
  moreover have "sit_shadow E S0 (segno + 1) c S" using sit_shadow_mono [OF shd] pos by simp
  ultimately show ?thesis
    using False p j(6) sh same by (intro exI [of _ c] exI [of _ S]) (simp add: seek_sit_page_def moved_to_refl)
next
  case True
  note G = sit_geomD [OF sit_shapeD(1) [OF sh]] and D = sit_shadowD [OF shd]
  let ?i = "SIT_I (ss_sbi S)" and ?prev = "SIT_I (ss_sbi S0)" and ?b = "sit_blk E segno"
  have old: "sit_second ?i b = sit_second ?prev b" if "?b \<le> b" "b < sit_blocks ?i" for b
    by (rule sit_second_shadow [OF shd True pos n sit_shapeD(1) [OF sh] that])
  have pl: "sit_place ?prev = sit_place ?i" using D(1,2) by (intro sit_place_cong) simp_all
  have blk: "sit_blk E k < sit_blocks ?i" if "k < TOTAL_SEGS (ss_sbi S)" for k using G(6) [OF that] .
  have a0: "sit_addr E ?i segno = sit_addr E ?prev segno" using old [of ?b] blk [OF n] by (simp add: sit_addr_def pl)
  have "\<not> sp_dirty (ss_pages S (sit_addr E ?i segno))"
    using clean [of segno] D(4) [of segno] n D(3) by (simp add: a0)
  from get_next_sit_page_eq [OF sh n this] obtain m where
    m: "get_next_sit_page E S (START_SEGNO E segno) = Some (sit_place ?i ?b (\<not> sit_second ?i ?b), S\<lparr>
      ss_pages := (ss_pages S)(sit_place ?i ?b (\<not> sit_second ?i ?b) := \<lparr> sp_dirty = True, sp_entries = sp_entries (ss_pages S (sit_addr E ?i segno)) \<rparr>),
      ss_sbi := set_SIT_I (?i\<lparr>sit_bitmap := m\<rparr>) (ss_sbi S)\<rparr>)"
    "length m = length (sit_bitmap ?i)" "\<And>k. f2fs_test_bit k m \<longleftrightarrow> sit_second ?i k \<noteq> (k = ?b)" by blast
  define dst where "dst = sit_place ?i ?b (\<not> sit_second ?i ?b)"
  define S' where "S' = S\<lparr>ss_pages := (ss_pages S)(dst := \<lparr> sp_dirty = True, sp_entries = sp_entries (ss_pages S (sit_addr E ?i segno)) \<rparr>),
      ss_sbi := set_SIT_I (?i\<lparr>sit_bitmap := m\<rparr>) (ss_sbi S)\<rparr>"
  define c' where "c' = \<lparr> sc_page = Some dst, sc_start = START_SEGNO E segno, sc_end = START_SEGNO E segno + SIT_ENTRY_PER_BLOCK E - 1 \<rparr>"
  have "START_SEGNO E segno + SIT_ENTRY_PER_BLOCK E - 1 < 2 ^ 32"
    using START_SEGNO_blk(2) [OF G(1), of segno] n G(4) by simp
  then have run: "seek_sit_page E segno c S = Some (c', S')"
    using True m(1) by (simp add: seek_sit_page_def Let_def u32_id c'_def S'_def dst_def)
  have fr: "SIT_I (ss_sbi S') = ?i\<lparr>sit_bitmap := m\<rparr>" "TOTAL_SEGS (ss_sbi S') = TOTAL_SEGS (ss_sbi S)" "ss_journal S' = ss_journal S"
    "SM_I (ss_sbi S') = (SM_I (ss_sbi S))\<lparr>sm_sit_info := ?i\<lparr>sit_bitmap := m\<rparr>\<rparr>"
    by (simp_all add: S'_def TOTAL_SEGS_def) (simp add: setters accessors)
  have pages: "ss_pages S' = (ss_pages S)(dst := \<lparr> sp_dirty = True, sp_entries = sp_entries (ss_pages S (sit_addr E ?i segno)) \<rparr>)"
    by (simp add: S'_def)
  have addr': "sit_addr E (SIT_I (ss_sbi S')) k = (if sit_blk E k = ?b then dst else sit_addr E ?i k)" for k
    using m(3) by (auto simp: fr sit_addr_def dst_def)
  have ne: "sit_addr E ?i k \<noteq> dst" if "k < TOTAL_SEGS (ss_sbi S)" for k
    using sit_place_inj [of ?i "sit_blk E k" "sit_second ?i (sit_blk E k)" ?b "\<not> sit_second ?i ?b"] blk [OF that] blk [OF n]
    by (auto simp: sit_addr_def dst_def)
  have ne0: "sit_addr E ?prev k \<noteq> dst" if "k < TOTAL_SEGS (ss_sbi S)" for k
    using sit_place_inj [of ?i "sit_blk E k" "sit_second ?prev (sit_blk E k)" ?b "\<not> sit_second ?i ?b"] blk [OF that] blk [OF n] old [of ?b]
    by (auto simp: sit_addr_def dst_def pl)
  have "moved_to E S S'"
  proof -
    have "sp_entries (ss_pages S' (sit_addr E (SIT_I (ss_sbi S')) k)) = sp_entries (ss_pages S (sit_addr E ?i k))"
      if "k < TOTAL_SEGS (ss_sbi S)" for k
    proof (cases "sit_blk E k = ?b")
      case True
      then have "sit_addr E ?i k = sit_addr E ?i segno" by (simp add: sit_addr_def)
      then show ?thesis using True by (simp add: addr' pages)
    qed (use ne [OF that] in \<open>simp add: addr' pages\<close>)
    then show ?thesis using fr(3) by (auto simp: moved_to_def S'_def)
  qed
  moreover have "sit_shape E L S'"
    using sh m(2) unfolding sit_shape_def sit_geom_def fr(1,2,3) by (simp add: fr(4) pages)
  moreover have "sit_shadow E S0 (segno + 1) c' S'"
  proof -
    have "sit_second (?i\<lparr>sit_bitmap := m\<rparr>) b = sit_second ?prev b" if "?b < b" "b < sit_blocks ?i" for b
      using m(3) [of b] old [of b] that by simp
    then have "sit_cursor_at E ?prev c' (ss_sbi S') dst segno"
      using n addr' [of segno] m(3) [of ?b] old [of ?b] blk [OF n] unfolding sit_cursor_at_def fr(2)
      by (simp add: c'_def fr(1))
    then have "\<exists>j < segno + 1. sit_cursor_at E ?prev c' (ss_sbi S') dst j" by auto
    then show ?thesis
      using D ne0 unfolding sit_shadow_def Let_def fr(1,2) by (simp add: c'_def pages)
  qed
  moreover have "sit_second (SIT_I (ss_sbi S')) ?b \<noteq> sit_second ?prev ?b"
    using m(3) [of ?b] old [of ?b] blk [OF n] by (simp add: fr)
  moreover have "sc_page c' = Some (sit_addr E (SIT_I (ss_sbi S')) segno)" by (simp add: c'_def addr')
  ultimately show ?thesis using run by blast
qed

section \<open>Writing one entry\<close>

text \<open>One write, wherever it goes: the entry of \<open>segno\<close> on disk is \<open>raw_sit E se\<close>, the others stay.\<close>

lemma write_raw_sit_ok:
  assumes sh: "sit_shape E L S" and n: "segno < TOTAL_SEGS (ss_sbi S)" and pos: "pos \<le> segno"
    and shd: "sit_shadow E S0 pos c S" and g0: "sit_geom E (ss_sbi S0)"
    and clean: "\<And>k. k < TOTAL_SEGS (ss_sbi S0) \<Longrightarrow> \<not> sp_dirty (ss_pages S0 (sit_addr E (SIT_I (ss_sbi S0)) k))"
    and fl: "flushed \<Longrightarrow> jr_n (ss_journal S) = 0"
    and se: "length (se_cur_valid_map se) = SIT_VBLOCK_MAP_SIZE E" "length (se_ckpt_valid_map se) = SIT_VBLOCK_MAP_SIZE E"
  shows "\<exists>c' S' m. write_raw_sit E L flushed segno se c S = Some (c', S')
    \<and> ss_sbi S' = set_seg_entry segno (ckpted se) (set_SIT_I ((SIT_I (ss_sbi S))\<lparr>sit_bitmap := m\<rparr>) (ss_sbi S))
    \<and> sit_shape E L S' \<and> sit_shadow E S0 (segno + 1) c' S' \<and> (flushed \<longrightarrow> jr_n (ss_journal S') = 0)
    \<and> (\<forall>k<TOTAL_SEGS (ss_sbi S). disk_sit E S' k = (if k = segno then raw_sit E se else disk_sit E S k))"
proof -
  note D = sit_shapeD [OF sh] and G = sit_geomD [OF sit_shapeD(1) [OF sh]]
  define l where "l = (if flushed then (- 1, ss_journal S)
    else lookup_journal_in_cursum (SIT_JOURNAL_ENTRIES L) (ss_journal S) segno True)"
  obtain off j' where l': "l = (off, j')" by (cases l)
  show ?thesis
  proof (cases "0 \<le> off")
    case True
    then have l2: "lookup_journal_in_cursum (SIT_JOURNAL_ENTRIES L) (ss_journal S) segno True = (off, j')" and nf: "\<not> flushed"
      using l' by (auto simp: l_def split: if_splits)
    let ?j = "j'\<lparr>jr_entries := (jr_entries j')[nat off := (segno, raw_sit E se)]\<rparr>"
    let ?S' = "S\<lparr>ss_journal := ?j, ss_sbi := set_seg_entry segno (ckpted se) (ss_sbi S)\<rparr>"
    note W = lookup_journal_write(2) [OF D(2) l2 True, of "raw_sit E se"]
    have je: "jr_entries j' = jr_entries (ss_journal S)"
      using l2 by (auto simp: lookup_journal_in_cursum_def update_cursum_def split: option.splits if_splits)
    have lt: "nat off < length (jr_entries j')" using D(2) l2 True je
      by (auto simp: lookup_journal_in_cursum_def update_cursum_def journal_ok_def
        dest!: journal_index_Some(2) split: option.splits if_splits)
    have rl: "length (rs_valid_map (snd (jr_entries j' ! nat off))) = SIT_VBLOCK_MAP_SIZE E"
      using D(4) lt je by (metis nth_mem)
    have run: "write_raw_sit E L flushed segno se c S = Some (c, ?S')"
      using True l' by (simp add: write_raw_sit_def l_def [symmetric] raw_sit_made [OF se rl])
    have "sit_shape E L ?S'"
    proof -
      have "length (rs_valid_map (snd e)) = SIT_VBLOCK_MAP_SIZE E" if "e \<in> set (jr_entries ?j)" for e
        using set_updD [of e "jr_entries j'" "nat off" "(segno, raw_sit E se)"] that D(4) [of e] se(1) je
        by (auto simp: raw_sit_def)
      moreover have "sit_geom E (ss_sbi ?S')" using D(1) by (simp add: sit_geom_def)
      ultimately show ?thesis using W n D(3,5,6) by (auto simp: sit_shape_def)
    qed
    moreover have "sit_shadow E S0 (segno + 1) c ?S'"
    proof -
      have "sit_shadow E S0 (segno + 1) c S" using sit_shadow_mono [OF shd] pos by simp
      moreover have "sit_shadow E S0 (segno + 1) c ?S' = sit_shadow E S0 (segno + 1) c S" by (rule sit_shadow_cong) simp_all
      ultimately show ?thesis by simp
    qed
    moreover have "disk_sit E ?S' k = (if k = segno then raw_sit E se else disk_sit E S k)" for k
      using W by (simp add: disk_sit_def split: option.split)
    moreover have "ss_sbi ?S' = set_seg_entry segno (ckpted se)
        (set_SIT_I ((SIT_I (ss_sbi S))\<lparr>sit_bitmap := sit_bitmap (SIT_I (ss_sbi S))\<rparr>) (ss_sbi S))" by simp
    ultimately show ?thesis using run nf by blast
  next
    case False
    have j: "j' = ss_journal S \<and> journal_map (ss_journal S) segno = None"
    proof (cases flushed)
      case True
      then show ?thesis using fl l' by (simp add: l_def journal_map_def)
    next
      case nf: False
      then have "lookup_journal_in_cursum (SIT_JOURNAL_ENTRIES L) (ss_journal S) segno True = (off, j')" using l' by (simp add: l_def)
      from lookup_journal_write(1) [OF D(2) this] False show ?thesis by simp
    qed
    from seek_sit_page_ok [OF sh n pos shd g0 clean] obtain c' S1 where s: "seek_sit_page E segno c S = Some (c', S1)"
      "sc_page c' = Some (sit_addr E (SIT_I (ss_sbi S1)) segno)" "moved_to E S S1" "sit_shape E L S1" "sit_shadow E S0 (segno + 1) c' S1"
      "sit_second (SIT_I (ss_sbi S1)) (sit_blk E segno) \<noteq> sit_second (SIT_I (ss_sbi S0)) (sit_blk E segno)" by blast
    obtain m where m: "ss_sbi S1 = set_SIT_I ((SIT_I (ss_sbi S))\<lparr>sit_bitmap := m\<rparr>) (ss_sbi S)" and j1: "ss_journal S1 = ss_journal S"
      using s(3) by (auto simp: moved_to_def)
    note D1 = sit_shapeD [OF s(4)] and H = sit_shadowD [OF s(5)] and G1 = sit_geomD [OF sit_shapeD(1) [OF s(4)]]
    have T: "TOTAL_SEGS (ss_sbi S1) = TOTAL_SEGS (ss_sbi S)" by (simp add: m TOTAL_SEGS_def)
    let ?p = "sit_addr E (SIT_I (ss_sbi S1)) segno" and ?o = "segno mod SIT_ENTRY_PER_BLOCK E"
    let ?S' = "S1\<lparr>ss_pages := (ss_pages S1)(?p := (ss_pages S1 ?p)\<lparr>sp_entries := (sp_entries (ss_pages S1 ?p))[?o := raw_sit E se]\<rparr>),
      ss_sbi := set_seg_entry segno (ckpted se) (ss_sbi S1)\<rparr>"
    have o: "?o < length (sp_entries (ss_pages S1 a))" for a using D1(5) G(1) by simp
    have off: "SIT_ENTRY_OFFSET (SIT_I (ss_sbi S)) segno = ?o" using G(2) by (simp add: SIT_ENTRY_OFFSET_def)
    have rl: "length (rs_valid_map (sp_entries (ss_pages S1 ?p) ! ?o)) = SIT_VBLOCK_MAP_SIZE E"
      using D1(6) nth_mem [OF o] by blast
    have "S\<lparr>ss_journal := j'\<rparr> = S" using j by simp
    then have run: "write_raw_sit E L flushed segno se c S = Some (c', ?S')"
      using False l' s(1,2) by (simp add: write_raw_sit_def l_def [symmetric] off raw_sit_made [OF se rl])
    have inj: "sit_addr E (SIT_I (ss_sbi S1)) k = ?p \<longleftrightarrow> sit_blk E k = sit_blk E segno" if "k < TOTAL_SEGS (ss_sbi S)" for k
      using sit_place_inj [of "SIT_I (ss_sbi S1)"] G1(6) that n T by (auto simp: sit_addr_def)
    have "sit_shape E L ?S'"
    proof -
      have "length (rs_valid_map e) = SIT_VBLOCK_MAP_SIZE E" if "e \<in> set ((sp_entries (ss_pages S1 ?p))[?o := raw_sit E se])" for e
        using set_updD [OF that] D1(6) [of e ?p] se(1) by (auto simp: raw_sit_def)
      moreover have "sit_geom E (ss_sbi ?S')" using D1(1) by (simp add: sit_geom_def)
      ultimately show ?thesis using D1 by (simp add: sit_shape_def)
    qed
    moreover have "sit_shadow E S0 (segno + 1) c' ?S'"
    proof -
      have "sit_addr E (SIT_I (ss_sbi S0)) k \<noteq> ?p" if "k < TOTAL_SEGS (ss_sbi S0)" for k
      proof
        assume a: "sit_addr E (SIT_I (ss_sbi S0)) k = ?p"
        have pl: "sit_place (SIT_I (ss_sbi S0)) = sit_place (SIT_I (ss_sbi S1))" using H(1,2) by (intro sit_place_cong) simp_all
        have "sit_blk E k = sit_blk E segno \<and> sit_second (SIT_I (ss_sbi S0)) (sit_blk E k) = sit_second (SIT_I (ss_sbi S1)) (sit_blk E segno)"
          by (rule sit_place_inj) (use a G1(6) that n T H(3) in \<open>simp_all add: sit_addr_def pl\<close>)
        then show False using s(6) by metis
      qed
      then have "sit_shadow E S0 (segno + 1) c' ?S' = sit_shadow E S0 (segno + 1) c' S1" by (intro sit_shadow_cong) simp_all
      then show ?thesis using s(5) by simp
    qed
    moreover have "disk_sit E ?S' k = (if k = segno then raw_sit E se else disk_sit E S k)" if k: "k < TOTAL_SEGS (ss_sbi S)" for k
    proof -
      have "k mod SIT_ENTRY_PER_BLOCK E = ?o \<longleftrightarrow> k = segno" if "sit_blk E k = sit_blk E segno"
        using that by (metis div_mult_mod_eq)
      then have "disk_sit E ?S' k = (if k = segno then raw_sit E se else disk_sit E S1 k)"
        using inj [OF k] o j j1 by (auto simp: disk_sit_def split: option.split)
      then show ?thesis using moved_disk [OF s(3) k] by simp
    qed
    moreover have "flushed \<longrightarrow> jr_n (ss_journal ?S') = 0" using fl j1 by simp
    ultimately show ?thesis using run m by (intro exI [of _ c'] exI [of _ ?S'] exI [of _ m]) simp
  qed
qed

section \<open>The loop\<close>

definition set_discards :: "discard_entry list \<Rightarrow> int \<Rightarrow> f2fs_sb_info \<Rightarrow> f2fs_sb_info" where
  "set_discards l n sbi = sbi\<lparr>sbi_sm_info := (SM_I sbi)\<lparr>sm_discard_list := l, sm_nr_discards := n\<rparr>\<rparr>"

lemma set_discards_simps [simp]:
  "SIT_I (set_discards l n sbi) = SIT_I sbi" "FREE_I (set_discards l n sbi) = FREE_I sbi" "DIRTY_I (set_discards l n sbi) = DIRTY_I sbi"
  "CURSEG_I (set_discards l n sbi) = CURSEG_I sbi" "TOTAL_SEGS (set_discards l n sbi) = TOTAL_SEGS sbi"
  "TOTAL_SECS (set_discards l n sbi) = TOTAL_SECS sbi" "sm_segment_count (SM_I (set_discards l n sbi)) = sm_segment_count (SM_I sbi)"
  "sbi_blocks_per_seg (set_discards l n sbi) = sbi_blocks_per_seg sbi" "sbi_segs_per_sec (set_discards l n sbi) = sbi_segs_per_sec sbi"
  "geometry (set_discards l n sbi) = geometry sbi" "get_seg_entry (set_discards l n sbi) = get_seg_entry sbi"
  "set_discards l n (set_discards l' n' sbi) = set_discards l n sbi"
  "set_SIT_I i (set_discards l n sbi) = set_discards l n (set_SIT_I i sbi)"
  by (simp_all add: set_discards_def accessors setters TOTAL_SEGS_def TOTAL_SECS_def geometry_def get_seg_entry_def fun_eq_iff)

text \<open>The flush changes the table and the list of discards only.\<close>

definition flush_frame :: "f2fs_sb_info \<Rightarrow> f2fs_sb_info \<Rightarrow> bool" where
  "flush_frame a b \<longleftrightarrow> (\<exists>i l n. b = set_discards l n (set_SIT_I i a))"

lemma set_discards_same: "set_discards (sm_discard_list (SM_I sbi)) (sm_nr_discards (SM_I sbi)) sbi = sbi"
  by (simp add: set_discards_def SM_I_def)

lemma flush_frame_SIT: "flush_frame a (set_SIT_I i a)"
  unfolding flush_frame_def using set_discards_same [of "set_SIT_I i a"] by metis

lemma flush_frame_discards: "flush_frame a (set_discards l n a)"
  unfolding flush_frame_def by (metis set_SIT_I_same)

lemma flush_frame_refl: "flush_frame a a"
  using flush_frame_SIT [of a "SIT_I a"] by simp

lemma flush_frame_trans: "flush_frame a b \<Longrightarrow> flush_frame b c \<Longrightarrow> flush_frame a c"
  unfolding flush_frame_def by fastforce

lemma flush_frame_seg: "flush_frame a (set_seg_entry segno se a)"
  unfolding set_seg_entry_def by (rule flush_frame_SIT)

lemma flush_frameD:
  assumes "flush_frame a b"
  shows "TOTAL_SEGS b = TOTAL_SEGS a" "TOTAL_SECS b = TOTAL_SECS a" "FREE_I b = FREE_I a" "DIRTY_I b = DIRTY_I a" "CURSEG_I b = CURSEG_I a"
    "geometry b = geometry a" "sbi_blocks_per_seg b = sbi_blocks_per_seg a" "sbi_segs_per_sec b = sbi_segs_per_sec a"
proof -
  obtain i l n where "b = set_discards l n (set_SIT_I i a)" using assms by (auto simp: flush_frame_def)
  then show "TOTAL_SEGS b = TOTAL_SEGS a" "TOTAL_SECS b = TOTAL_SECS a" "FREE_I b = FREE_I a" "DIRTY_I b = DIRTY_I a" "CURSEG_I b = CURSEG_I a"
    "geometry b = geometry a" "sbi_blocks_per_seg b = sbi_blocks_per_seg a" "sbi_segs_per_sec b = sbi_segs_per_sec a"
    by simp_all
qed

lemma queue_discards_frame:
  assumes "queue_discards dmap segno mx sbi pos = Some sbi'"
  shows "\<exists>l n. sbi' = set_discards l n sbi"
  using assms
proof (induction dmap segno mx sbi pos sbi' rule: queue_discards.raw_induct [rotated, consumes 1, case_names 1])
  case (1 qd dmap segno mx sbi pos sbi')
  have q: "\<exists>l n. queue_discard e sbi = set_discards l n sbi" for e
    by (auto simp: queue_discard_def set_discards_def)
  show ?case
  proof (cases "sm_nr_discards (SM_I sbi) \<le> sm_max_discards (SM_I sbi) \<and> find_rev_next_bit dmap mx pos < mx")
    case False
    then have "sbi' = sbi" using "1.hyps" by (auto simp: Let_def split: if_splits)
    then show ?thesis using set_discards_same by metis
  next
    case True
    then obtain e p where "qd dmap segno mx (queue_discard e sbi) p = Some sbi'"
      using "1.hyps" by (auto simp: Let_def not_le split: if_splits)
    from "1.IH" [OF this] q [of e] show ?thesis by (metis set_discards_simps(12))
  qed
qed

lemma add_discard_frame:
  assumes "add_discard_addrs E sbi segno se = Some sbi'"
  shows "\<exists>l n. sbi' = set_discards l n sbi"
proof (cases "sbi' = sbi")
  case True
  then show ?thesis using set_discards_same by metis
next
  case False
  then obtain d mx p where "queue_discards d segno mx sbi p = Some sbi'"
    using assms by (auto simp: add_discard_addrs_def Let_def split: if_splits)
  then show ?thesis by (rule queue_discards_frame)
qed

lemma ckpt_entry_sit_ok:
  assumes ok: "sit_ok E sbi" and n: "segno < TOTAL_SEGS sbi" and d: "sit_dirty_sentries_bitmap (SIT_I sbi) segno"
    and i: "i' = (SIT_I sbi)\<lparr>sit_bitmap := m, sit_sentries := (sit_sentries (SIT_I sbi))[segno := ckpted (get_seg_entry sbi segno)],
      sit_dirty_sentries_bitmap := (sit_dirty_sentries_bitmap (SIT_I sbi))(segno := False),
      sit_dirty_sentries := sub32 (sit_dirty_sentries (SIT_I sbi)) 1\<rparr>"
  shows "sit_ok E (set_SIT_I i' sbi)"
    "\<And>k. get_seg_entry (set_SIT_I i' sbi) k = (if k = segno then ckpted (get_seg_entry sbi segno) else get_seg_entry sbi k)"
proof -
  note D = sit_okD [OF ok]
  let ?sbi = "set_SIT_I i' sbi"
  show e: "\<And>k. get_seg_entry ?sbi k = (if k = segno then ckpted (get_seg_entry sbi segno) else get_seg_entry sbi k)"
    using n D(5) by (auto simp: get_seg_entry_def i nth_list_update)
  have fr: "TOTAL_SEGS ?sbi = TOTAL_SEGS sbi" "TOTAL_SECS ?sbi = TOTAL_SECS sbi" "geometry ?sbi = geometry sbi"
    by (simp_all add: TOTAL_SEGS_def TOTAL_SECS_def geometry_def)
  have v: "vblocks ?sbi = vblocks sbi" by (auto simp: vblocks_def e fun_eq_iff)
  have seg: "seg_ok E (sbi_blocks_per_seg sbi) (get_seg_entry ?sbi k)" if "k < TOTAL_SEGS sbi" for k
    unfolding e using D(6) [OF that] D(6) [OF n] ckpted_ok by simp
  have "0 < sit_dirty_sentries (SIT_I sbi)"
    using D(8) count_bits_pos [where P = "sit_dirty_sentries_bitmap (SIT_I sbi)", OF n d] by simp
  moreover have "sit_dirty_sentries (SIT_I sbi) < 2 ^ 32"
    using D(8) count_bits_le [of "TOTAL_SEGS sbi" "sit_dirty_sentries_bitmap (SIT_I sbi)"] TOTAL_SEGS_less [OF D(1)] by linarith
  ultimately have "sit_dirty_sentries i' = count_bits (TOTAL_SEGS sbi) (sit_dirty_sentries_bitmap i')"
    using D(8) n d by (simp add: i sub32_id counts)
  moreover have "sit_written_valid_blocks i' = sit_written_valid_blocks (SIT_I sbi)" "sit_sec_entries i' = sit_sec_entries (SIT_I sbi)"
    "length (sit_sentries i') = length (sit_sentries (SIT_I sbi))" by (simp_all add: i)
  ultimately show "sit_ok E ?sbi"
    using D seg unfolding sit_ok_def fr v by (simp add: sec_segs_def)
qed

abbreviation sit_dirty :: "sit_state \<Rightarrow> nat \<Rightarrow> bool" where
  "sit_dirty S segno \<equiv> sit_dirty_sentries_bitmap (SIT_I (ss_sbi S)) segno"

abbreviation sit_entry :: "sit_state \<Rightarrow> nat \<Rightarrow> seg_entry" where
  "sit_entry S segno \<equiv> get_seg_entry (ss_sbi S) segno"

text \<open>The state when the dirty segments below \<open>pos\<close> have been written.\<close>

definition flushed_to :: "f2fs_env \<Rightarrow> sit_state \<Rightarrow> nat \<Rightarrow> sit_state \<Rightarrow> bool" where
  "flushed_to E S0 pos S \<longleftrightarrow> (\<forall>k<TOTAL_SEGS (ss_sbi S0). (sit_dirty S k \<longleftrightarrow> sit_dirty S0 k \<and> pos \<le> k)
     \<and> sit_entry S k = (if sit_dirty S0 k \<and> k < pos then ckpted (sit_entry S0 k) else sit_entry S0 k)
     \<and> disk_sit E S k = (if sit_dirty S0 k \<and> k < pos then raw_sit E (sit_entry S0 k) else disk_sit E S0 k))"

definition sit_run :: "f2fs_env \<Rightarrow> node_layout \<Rightarrow> bool \<Rightarrow> sit_state \<Rightarrow> nat \<Rightarrow> sit_cursor \<Rightarrow> sit_state \<Rightarrow> bool" where
  "sit_run E L flushed S0 pos c S \<longleftrightarrow> sit_shape E L S \<and> sit_shadow E S0 pos c S \<and> sit_ok E (ss_sbi S)
     \<and> (flushed \<longrightarrow> jr_n (ss_journal S) = 0) \<and> flush_frame (ss_sbi S0) (ss_sbi S) \<and> flushed_to E S0 pos S"

lemma sit_runD:
  assumes "sit_run E L flushed S0 pos c S"
  shows "sit_shape E L S" "sit_shadow E S0 pos c S" "sit_ok E (ss_sbi S)" "flushed \<Longrightarrow> jr_n (ss_journal S) = 0"
    "flush_frame (ss_sbi S0) (ss_sbi S)" "flushed_to E S0 pos S"
  using assms by (simp_all add: sit_run_def)

text \<open>A segment that is not dirty is passed over.\<close>

lemma flushed_to_skip:
  assumes "flushed_to E S0 pos S" and "pos \<le> q" and "\<And>k. pos \<le> k \<Longrightarrow> k < q \<Longrightarrow> k < TOTAL_SEGS (ss_sbi S0) \<Longrightarrow> \<not> sit_dirty S k"
  shows "flushed_to E S0 q S"
  unfolding flushed_to_def
proof (intro allI impI)
  fix k assume k: "k < TOTAL_SEGS (ss_sbi S0)"
  have "\<not> sit_dirty S0 k" if "pos \<le> k" "k < q" using assms(1,3) that k by (auto simp: flushed_to_def)
  then show "(sit_dirty S k \<longleftrightarrow> sit_dirty S0 k \<and> q \<le> k)
     \<and> sit_entry S k = (if sit_dirty S0 k \<and> k < q then ckpted (sit_entry S0 k) else sit_entry S0 k)
     \<and> disk_sit E S k = (if sit_dirty S0 k \<and> k < q then raw_sit E (sit_entry S0 k) else disk_sit E S0 k)"
    using assms(1,2) k unfolding flushed_to_def by (cases "k < pos"; cases "k < q") auto
qed

lemma flushed_to_step:
  assumes "flushed_to E S0 segno S" and "sit_dirty S segno" and "segno < TOTAL_SEGS (ss_sbi S0)"
    and "\<And>k. k < TOTAL_SEGS (ss_sbi S0) \<Longrightarrow> (sit_dirty S' k \<longleftrightarrow> sit_dirty S k \<and> k \<noteq> segno)
       \<and> sit_entry S' k = (if k = segno then ckpted (sit_entry S segno) else sit_entry S k)
       \<and> disk_sit E S' k = (if k = segno then raw_sit E (sit_entry S segno) else disk_sit E S k)"
  shows "flushed_to E S0 (segno + 1) S'"
  unfolding flushed_to_def
proof (intro allI impI)
  fix k assume k: "k < TOTAL_SEGS (ss_sbi S0)"
  have "sit_dirty S0 segno" "sit_entry S segno = sit_entry S0 segno" using assms(1-3) by (auto simp: flushed_to_def)
  then show "(sit_dirty S' k \<longleftrightarrow> sit_dirty S0 k \<and> segno + 1 \<le> k)
     \<and> sit_entry S' k = (if sit_dirty S0 k \<and> k < segno + 1 then ckpted (sit_entry S0 k) else sit_entry S0 k)
     \<and> disk_sit E S' k = (if sit_dirty S0 k \<and> k < segno + 1 then raw_sit E (sit_entry S0 k) else disk_sit E S0 k)"
    using assms(4) [OF k] assms(1) k unfolding flushed_to_def by (cases k segno rule: linorder_cases) auto
qed

lemma flush_sit_entry_ok:
  assumes run: "sit_run E L flushed S0 segno c S" and n: "segno < TOTAL_SEGS (ss_sbi S0)" and d: "sit_dirty S segno"
    and g0: "sit_geom E (ss_sbi S0)"
    and clean: "\<And>k. k < TOTAL_SEGS (ss_sbi S0) \<Longrightarrow> \<not> sp_dirty (ss_pages S0 (sit_addr E (SIT_I (ss_sbi S0)) k))"
    and al: "8 dvd SIT_VBLOCK_MAP_SIZE E" "8 dvd sbi_blocks_per_seg (ss_sbi S0)"
  shows "\<exists>c' S'. flush_sit_entry E L flushed segno c S = Some (c', S') \<and> sit_run E L flushed S0 (segno + 1) c' S'"
proof -
  note R = sit_runD [OF run] and F = flush_frameD [OF sit_runD(5) [OF run]]
  have n': "segno < TOTAL_SEGS (ss_sbi S)" using n F(1) by simp
  let ?se = "sit_entry S segno"
  have so: "seg_ok E (sbi_blocks_per_seg (ss_sbi S)) ?se" by (rule sit_okD(6) [OF R(3) n'])
  have sl: "length (se_cur_valid_map ?se) = SIT_VBLOCK_MAP_SIZE E" "length (se_ckpt_valid_map ?se) = SIT_VBLOCK_MAP_SIZE E"
    using so by (simp_all add: seg_ok_def)
  define a where "a = (if sm_nr_discards (SM_I (ss_sbi S)) < sm_max_discards (SM_I (ss_sbi S))
    then add_discard_addrs E (ss_sbi S) segno ?se else Some (ss_sbi S))"
  obtain l k where a: "a = Some (set_discards l k (ss_sbi S))"
  proof (cases "sm_nr_discards (SM_I (ss_sbi S)) < sm_max_discards (SM_I (ss_sbi S))")
    case True
    obtain b where "add_discard_addrs E (ss_sbi S) segno ?se = Some b"
      using add_discard_addrs_dead [OF so al(1), of segno] al(2) sit_okD(3,4) [OF R(3)] F(7) by auto
    moreover from add_discard_frame [OF this] obtain l k where "b = set_discards l k (ss_sbi S)" by blast
    ultimately show ?thesis using True that by (simp add: a_def)
  next
    case False
    then show ?thesis using that [of "sm_discard_list (SM_I (ss_sbi S))" "sm_nr_discards (SM_I (ss_sbi S))"]
      by (simp add: a_def set_discards_same)
  qed
  let ?S = "S\<lparr>ss_sbi := set_discards l k (ss_sbi S)\<rparr>"
  have sh: "sit_shape E L ?S" using R(1) by (simp add: sit_shape_def sit_geom_def)
  have shd: "sit_shadow E S0 segno c ?S" using sit_shadow_cong [of ?S S S0 E segno c] R(2) by simp
  have n2: "segno < TOTAL_SEGS (ss_sbi ?S)" and fl: "flushed \<Longrightarrow> jr_n (ss_journal ?S) = 0" using n' R(4) by simp_all
  from write_raw_sit_ok [where flushed = flushed, OF sh n2 order_refl shd g0 clean fl sl] obtain c' S1 m where
    w: "write_raw_sit E L flushed segno ?se c ?S = Some (c', S1)"
      "ss_sbi S1 = set_seg_entry segno (ckpted ?se) (set_SIT_I ((SIT_I (ss_sbi ?S))\<lparr>sit_bitmap := m\<rparr>) (ss_sbi ?S))"
      "sit_shape E L S1" "sit_shadow E S0 (segno + 1) c' S1" "flushed \<longrightarrow> jr_n (ss_journal S1) = 0"
      "\<forall>k<TOTAL_SEGS (ss_sbi ?S). disk_sit E S1 k = (if k = segno then raw_sit E ?se else disk_sit E ?S k)" by blast
  let ?i1 = "SIT_I (ss_sbi S1)"
  define i' where "i' = ?i1\<lparr>sit_dirty_sentries_bitmap := (sit_dirty_sentries_bitmap ?i1)(segno := False),
     sit_dirty_sentries := sub32 (sit_dirty_sentries ?i1) 1\<rparr>"
  define S' where "S' = S1\<lparr>ss_sbi := set_SIT_I i' (ss_sbi S1)\<rparr>"
  have run': "flush_sit_entry E L flushed segno c S = Some (c', S')"
    using a w(1) by (simp add: flush_sit_entry_def Let_def a_def [symmetric] S'_def i'_def)
  have i': "i' = (SIT_I (ss_sbi S))\<lparr>sit_bitmap := m, sit_sentries := (sit_sentries (SIT_I (ss_sbi S)))[segno := ckpted ?se],
      sit_dirty_sentries_bitmap := (sit_dirty_sentries_bitmap (SIT_I (ss_sbi S)))(segno := False),
      sit_dirty_sentries := sub32 (sit_dirty_sentries (SIT_I (ss_sbi S))) 1\<rparr>"
    unfolding i'_def w(2) by (simp add: get_seg_entry_def)
  have sbi': "ss_sbi S' = set_discards l k (set_SIT_I i' (ss_sbi S))"
    unfolding S'_def w(2) by (simp add: set_seg_entry_def)
  note C = ckpt_entry_sit_ok [OF R(3) n' d i']
  have ok': "sit_ok E (ss_sbi S')" using C(1) unfolding sbi' by (subst sit_ok_cong [of "set_discards l k (set_SIT_I i' (ss_sbi S))" "set_SIT_I i' (ss_sbi S)"]) simp_all
  have ff: "flush_frame (ss_sbi S0) (ss_sbi S')"
    unfolding sbi' by (intro flush_frame_trans [OF R(5)] flush_frame_trans [OF flush_frame_SIT flush_frame_discards])
  have sis: "SIT_I (ss_sbi S') = i'" "ss_journal S' = ss_journal S1" "ss_pages S' = ss_pages S1" "TOTAL_SEGS (ss_sbi S') = TOTAL_SEGS (ss_sbi S1)"
    "sm_segment_count (SM_I (ss_sbi S')) = sm_segment_count (SM_I (ss_sbi S1))"
    by (simp_all add: S'_def TOTAL_SEGS_def)
  have same: "sit_base_addr i' = sit_base_addr ?i1" "sit_blocks i' = sit_blocks ?i1" "sit_bitmap i' = sit_bitmap ?i1"
    "sit_sents_per_block i' = sit_sents_per_block ?i1"
    by (simp_all add: i'_def)
  note ad = sit_addr_cong [OF same(1-3), of E]
  have sh': "sit_shape E L S'" using w(3) by (simp add: sit_shape_def sit_geom_def sis same)
  have shd': "sit_shadow E S0 (segno + 1) c' S'"
    using sit_shadow_cong [of S' S1 S0 E "segno + 1" c'] w(4) by (simp add: sis same)
  have disk: "disk_sit E S' j = disk_sit E S1 j" "disk_sit E ?S j = disk_sit E S j" for j
    by (simp_all add: disk_sit_def sis ad cong: option.case_cong)
  have "flushed_to E S0 (segno + 1) S'"
  proof (rule flushed_to_step [OF R(6) d n])
    fix j assume "j < TOTAL_SEGS (ss_sbi S0)"
    then have "j < TOTAL_SEGS (ss_sbi S)" using F(1) by simp
    then show "(sit_dirty S' j \<longleftrightarrow> sit_dirty S j \<and> j \<noteq> segno)
       \<and> sit_entry S' j = (if j = segno then ckpted (sit_entry S segno) else sit_entry S j)
       \<and> disk_sit E S' j = (if j = segno then raw_sit E (sit_entry S segno) else disk_sit E S j)"
      using w(6) C(2) [of j] by (simp add: disk sis(1) sbi') (simp add: i')
  qed
  then have "sit_run E L flushed S0 (segno + 1) c' S'"
    using sh' shd' ok' w(5) ff by (simp add: sit_run_def sis)
  with run' show ?thesis by blast
qed

lemma flush_sits_from_ok:
  assumes k: "kernel_ok E" and g0: "sit_geom E (ss_sbi S0)"
    and clean: "\<And>k. k < TOTAL_SEGS (ss_sbi S0) \<Longrightarrow> \<not> sp_dirty (ss_pages S0 (sit_addr E (SIT_I (ss_sbi S0)) k))"
    and al: "8 dvd SIT_VBLOCK_MAP_SIZE E" "8 dvd sbi_blocks_per_seg (ss_sbi S0)"
  shows "sit_run E L flushed S0 pos c S \<Longrightarrow> pos \<le> TOTAL_SEGS (ss_sbi S0) \<Longrightarrow>
    \<exists>c' S'. flush_sits_from E L flushed c S pos = Some S' \<and> sit_run E L flushed S0 (TOTAL_SEGS (ss_sbi S0)) c' S'"
proof (induction "TOTAL_SEGS (ss_sbi S0) - pos" arbitrary: pos c S rule: less_induct)
  case less
  note R = sit_runD [OF less.prems(1)] and F = flush_frameD [OF sit_runD(5) [OF less.prems(1)]]
  let ?n = "TOTAL_SEGS (ss_sbi S0)"
  define s where "s = scan (sit_dirty_sentries_bitmap (SIT_I (ss_sbi S))) ?n pos"
  have step: "flush_sits_from E L flushed c S pos = (if s < ?n
      then Option.bind (flush_sit_entry E L flushed s c S) (\<lambda>p. flush_sits_from E L flushed (fst p) (snd p) (u32 (s + 1)))
      else Some S)"
    by (subst flush_sits_from.simps) (simp add: find_next_bit_scan [OF k] s_def F(1) Let_def)
  have skip: "\<not> sit_dirty S i" if "pos \<le> i" "i < s" for i
    using scan_skip that unfolding s_def by blast
  show ?case
  proof (cases "s < ?n")
    case True
    then have d: "sit_dirty S s" "pos \<le> s"
      using scan_hit [of "sit_dirty_sentries_bitmap (SIT_I (ss_sbi S))" ?n pos] by (auto simp: s_def)
    have "sit_run E L flushed S0 s c S"
      using R sit_shadow_mono [OF R(2) d(2)] flushed_to_skip [OF R(6) d(2)] skip by (simp add: sit_run_def)
    from flush_sit_entry_ok [OF this True d(1) g0 clean al] obtain c1 S1 where
      s1: "flush_sit_entry E L flushed s c S = Some (c1, S1)" "sit_run E L flushed S0 (s + 1) c1 S1" by blast
    have "s + 1 < 2 ^ 32" using True sit_geomD(1,4) [OF g0] by simp
    then have u: "u32 (s + 1) = s + 1" by (rule u32_id)
    have "\<exists>c' S'. flush_sits_from E L flushed c1 S1 (s + 1) = Some S' \<and> sit_run E L flushed S0 ?n c' S'"
      using s1(2) True d(2) by (intro less.hyps) simp_all
    then show ?thesis using step True s1(1) u by simp
  next
    case False
    have "s \<le> ?n" unfolding s_def by (rule scan_le)
    then have "s = ?n" using False by simp
    then have "sit_run E L flushed S0 ?n c S"
      using R sit_shadow_mono [OF R(2) less.prems(2)] flushed_to_skip [OF R(6) less.prems(2)] skip by (simp add: sit_run_def)
    then show ?thesis using step False by auto
  qed
qed

section \<open>The whole flush\<close>

text \<open>Between two checkpoints the disk is right about the entries that are not dirty.\<close>

definition sit_disk_ok :: "f2fs_env \<Rightarrow> sit_state \<Rightarrow> bool" where
  "sit_disk_ok E S \<longleftrightarrow> (\<forall>k<TOTAL_SEGS (ss_sbi S). \<not> sit_dirty S k \<longrightarrow>
     disk_sit E S k = raw_sit E (sit_entry S k) \<and> ckpted (sit_entry S k) = sit_entry S k)"

lemma fold_mark_dirty:
  assumes "sit_ok E sbi" and "\<And>i. i \<in> set xs \<Longrightarrow> f i < TOTAL_SEGS sbi"
  defines "sbi' \<equiv> fold (\<lambda>i sbi. mark_sit_entry_dirty sbi (f i)) xs sbi"
  shows "sit_ok E sbi' \<and> flush_frame sbi sbi' \<and> get_seg_entry sbi' = get_seg_entry sbi
    \<and> sm_segment_count (SM_I sbi') = sm_segment_count (SM_I sbi)
    \<and> (\<exists>d. SIT_I sbi' = (SIT_I sbi)\<lparr>sit_dirty_sentries_bitmap := \<lambda>k. sit_dirty_sentries_bitmap (SIT_I sbi) k \<or> k \<in> f ` set xs,
        sit_dirty_sentries := d\<rparr>)"
  using assms(1,2) unfolding sbi'_def
proof (induction xs arbitrary: sbi)
  case Nil
  then show ?case
    by (auto simp: flush_frame_refl intro!: exI [of _ "sit_dirty_sentries (SIT_I sbi)"])
next
  case (Cons i xs)
  let ?s = "mark_sit_entry_dirty sbi (f i)"
  have fi: "f i < TOTAL_SEGS sbi" using Cons.prems(2) by simp
  define d where "d = sit_dirty_sentries (SIT_I ?s)"
  have d: "SIT_I ?s = (SIT_I sbi)\<lparr>sit_dirty_sentries_bitmap := (sit_dirty_sentries_bitmap (SIT_I sbi))(f i := True), sit_dirty_sentries := d\<rparr>"
    unfolding d_def by (simp add: mark_sit_entry_dirty_def Let_def)
  have s: "?s = set_SIT_I (SIT_I ?s) sbi" by (auto simp: mark_sit_entry_dirty_def Let_def)
  then have ff: "flush_frame sbi ?s" by (metis flush_frame_SIT)
  note F = flush_frameD [OF ff]
  have e: "get_seg_entry ?s = get_seg_entry sbi" by (simp add: get_seg_entry_def d fun_eq_iff)
  have sc: "sm_segment_count (SM_I ?s) = sm_segment_count (SM_I sbi)" by (metis s set_SIT_I_frame)
  have ok: "sit_ok E ?s"
  proof -
    note D = sit_okD [OF Cons.prems(1)]
    have "sit_dirty_sentries (SIT_I ?s) = count_bits (TOTAL_SEGS sbi) (sit_dirty_sentries_bitmap (SIT_I ?s))"
      using mark_dirty_count D(8) fi TOTAL_SEGS_less [OF D(1)] by (metis add_lessD1)
    then show ?thesis
      using D unfolding sit_ok_def F by (simp add: e d vblocks_def sec_segs_def F)
  qed
  have "\<And>j. j \<in> set xs \<Longrightarrow> f j < TOTAL_SEGS ?s" using Cons.prems(2) F(1) by simp
  note IH = Cons.IH [OF ok this]
  have "(\<lambda>k. (sit_dirty_sentries_bitmap (SIT_I ?s) k \<or> k \<in> f ` set xs)) =
      (\<lambda>k. sit_dirty_sentries_bitmap (SIT_I sbi) k \<or> k \<in> f ` set (i # xs))" by (auto simp: d)
  then show ?case using IH flush_frame_trans [OF ff] by (simp add: e sc) (simp add: d)
qed

text \<open>The journal is given up when it is full; its segments become dirty.\<close>

lemma flush_sits_in_journal_ok:
  assumes sh: "sit_shape E L S" and ok: "sit_ok E (ss_sbi S)" and r: "flush_sits_in_journal L S = (flushed, S0)"
  shows "sit_shape E L S0" "sit_ok E (ss_sbi S0)" "flush_frame (ss_sbi S) (ss_sbi S0)" "ss_pages S0 = ss_pages S"
    "sit_addr E (SIT_I (ss_sbi S0)) = sit_addr E (SIT_I (ss_sbi S))" "sit_entry S0 = sit_entry S"
    "flushed \<Longrightarrow> jr_n (ss_journal S0) = 0" "\<And>k. sit_dirty S k \<Longrightarrow> sit_dirty S0 k"
    "\<And>k. \<not> sit_dirty S0 k \<Longrightarrow> disk_sit E S0 k = disk_sit E S k"
    "sit_base_addr (SIT_I (ss_sbi S0)) = sit_base_addr (SIT_I (ss_sbi S)) \<and> sit_blocks (SIT_I (ss_sbi S0)) = sit_blocks (SIT_I (ss_sbi S))"
proof -
  note D = sit_shapeD [OF sh]
  let ?j = "ss_journal S"
  let ?goal = "sit_shape E L S0 \<and> sit_ok E (ss_sbi S0) \<and> flush_frame (ss_sbi S) (ss_sbi S0) \<and> ss_pages S0 = ss_pages S
    \<and> sit_addr E (SIT_I (ss_sbi S0)) = sit_addr E (SIT_I (ss_sbi S)) \<and> sit_entry S0 = sit_entry S
    \<and> (flushed \<longrightarrow> jr_n (ss_journal S0) = 0) \<and> (\<forall>k. sit_dirty S k \<longrightarrow> sit_dirty S0 k)
    \<and> (\<forall>k. \<not> sit_dirty S0 k \<longrightarrow> disk_sit E S0 k = disk_sit E S k)
    \<and> sit_base_addr (SIT_I (ss_sbi S0)) = sit_base_addr (SIT_I (ss_sbi S)) \<and> sit_blocks (SIT_I (ss_sbi S0)) = sit_blocks (SIT_I (ss_sbi S))"
  have ?goal
  proof (cases "SIT_JOURNAL_ENTRIES L \<le> jr_n ?j")
    case False
    then show ?thesis using r sh ok by (simp add: flush_sits_in_journal_def flush_frame_refl)
  next
    case True
    define sbi' where "sbi' = fold (\<lambda>i sbi. mark_sit_entry_dirty sbi (fst (jr_entries ?j ! i))) (rev [0..<jr_n ?j]) (ss_sbi S)"
    have len: "jr_n ?j \<le> length (jr_entries ?j)" using D(2) by (simp add: journal_ok_def)
    have keys: "(\<lambda>i. fst (jr_entries ?j ! i)) ` set (rev [0..<jr_n ?j]) = dom (journal_map ?j)"
    proof -
      have "take (jr_n ?j) (jr_entries ?j) = map ((!) (jr_entries ?j)) [0..<jr_n ?j]"
        using len by (intro nth_equalityI) simp_all
      then show ?thesis by (simp add: journal_map_def dom_map_of_conv_image_fst image_image)
    qed
    have key: "fst (jr_entries ?j ! i) < TOTAL_SEGS (ss_sbi S)" if "i \<in> set (rev [0..<jr_n ?j])" for i
    proof -
      have "fst (jr_entries ?j ! i) \<in> dom (journal_map ?j)" using keys that by (metis image_eqI)
      then show ?thesis using D(3) by blast
    qed
    note M = fold_mark_dirty [where f = "\<lambda>i. fst (jr_entries ?j ! i)" and xs = "rev [0..<jr_n ?j]", OF ok key, folded sbi'_def, unfolded keys]
    then obtain d where M': "sit_ok E sbi'" "flush_frame (ss_sbi S) sbi'" "get_seg_entry sbi' = get_seg_entry (ss_sbi S)"
      "sm_segment_count (SM_I sbi') = sm_segment_count (SM_I (ss_sbi S))"
      "SIT_I sbi' = (SIT_I (ss_sbi S))\<lparr>sit_dirty_sentries_bitmap := \<lambda>k. sit_dirty S k \<or> k \<in> dom (journal_map ?j), sit_dirty_sentries := d\<rparr>"
      by blast
    have j0: "snd (update_cursum ?j (- int (jr_n ?j))) = ?j\<lparr>jr_n := 0\<rparr>"
      using D(2) by (simp add: update_cursum_def journal_ok_def to_u16_def)
    have S0: "flushed" "S0 = S\<lparr>ss_sbi := sbi', ss_journal := ?j\<lparr>jr_n := 0\<rparr>\<rparr>"
      using r True j0 by (simp_all add: flush_sits_in_journal_def Let_def sbi'_def)
    have ad: "sit_addr E (SIT_I sbi') = sit_addr E (SIT_I (ss_sbi S))" by (rule sit_addr_cong) (simp_all add: M'(5))
    have none: "journal_map (?j\<lparr>jr_n := 0\<rparr>) = Map.empty" by (simp add: journal_map_def)
    have "sit_geom E sbi'" using D(1) flush_frameD(1) [OF M'(2)] by (simp add: sit_geom_def M'(4,5))
    then have "sit_shape E L S0" using sh by (simp add: sit_shape_def S0(2) none journal_ok_def)
    moreover have "disk_sit E S0 k = disk_sit E S k" if "\<not> sit_dirty S0 k" for k
    proof -
      have "journal_map ?j k = None" using that by (auto simp: S0(2) M'(5))
      then show ?thesis by (simp add: disk_sit_def S0(2) none ad)
    qed
    ultimately show ?thesis using M'(1-3) by (simp add: S0(2) ad) (simp add: M'(5))
  qed
  then show "sit_shape E L S0" "sit_ok E (ss_sbi S0)" "flush_frame (ss_sbi S) (ss_sbi S0)" "ss_pages S0 = ss_pages S"
    "sit_addr E (SIT_I (ss_sbi S0)) = sit_addr E (SIT_I (ss_sbi S))" "sit_entry S0 = sit_entry S"
    "flushed \<Longrightarrow> jr_n (ss_journal S0) = 0" "\<And>k. sit_dirty S k \<Longrightarrow> sit_dirty S0 k"
    "\<And>k. \<not> sit_dirty S0 k \<Longrightarrow> disk_sit E S0 k = disk_sit E S k"
    "sit_base_addr (SIT_I (ss_sbi S0)) = sit_base_addr (SIT_I (ss_sbi S)) \<and> sit_blocks (SIT_I (ss_sbi S0)) = sit_blocks (SIT_I (ss_sbi S))" by blast+
qed

text \<open>The flush changes the table, the list of discards and the bitmap of free segments only.\<close>

definition flush_keeps :: "f2fs_sb_info \<Rightarrow> f2fs_sb_info \<Rightarrow> bool" where
  "flush_keeps a b \<longleftrightarrow> (\<exists>i f l n. b = set_FREE_I f (set_discards l n (set_SIT_I i a)) \<and> sit_base_addr i = sit_base_addr (SIT_I a)
     \<and> sit_blocks i = sit_blocks (SIT_I a) \<and> fsm_start_segno f = fsm_start_segno (FREE_I a))"

lemma flush_keepsI:
  assumes "flush_frame a b" and "sit_base_addr (SIT_I b) = sit_base_addr (SIT_I a)" "sit_blocks (SIT_I b) = sit_blocks (SIT_I a)" and "free_frame b c"
  shows "flush_keeps a c"
proof -
  obtain i l n where b: "b = set_discards l n (set_SIT_I i a)" using assms(1) by (auto simp: flush_frame_def)
  have "FREE_I b = FREE_I a" by (simp add: b)
  then show ?thesis using assms(2-4) unfolding flush_keeps_def free_frame_def b
    by (intro exI [of _ i] exI [of _ "FREE_I c"] exI [of _ l] exI [of _ n]) simp
qed

text \<open>The checkpoint's flush.\<close>

lemma flush_sit_entries_ok:
  assumes k: "kernel_ok E" and sh: "sit_shape E L S" and ok: "sit_ok E (ss_sbi S)" and fr: "free_ok (ss_sbi S)"
    and dk: "sit_disk_ok E S"
    and clean: "\<And>k. k < TOTAL_SEGS (ss_sbi S) \<Longrightarrow> \<not> sp_dirty (ss_pages S (sit_addr E (SIT_I (ss_sbi S)) k))"
    and al: "8 dvd SIT_VBLOCK_MAP_SIZE E" "8 dvd sbi_blocks_per_seg (ss_sbi S)"
  shows "\<exists>S'. flush_sit_entries E L S = Some S' \<and> sit_shape E L S' \<and> sit_ok E (ss_sbi S') \<and> free_ok (ss_sbi S')
    \<and> TOTAL_SEGS (ss_sbi S') = TOTAL_SEGS (ss_sbi S) \<and> flush_keeps (ss_sbi S) (ss_sbi S')
    \<and> (\<forall>k<TOTAL_SEGS (ss_sbi S). disk_sit E S' k = raw_sit E (sit_entry S k) \<and> sit_entry S' k = ckpted (sit_entry S k)
        \<and> \<not> sit_dirty S' k \<and> ss_pages S' (sit_addr E (SIT_I (ss_sbi S)) k) = ss_pages S (sit_addr E (SIT_I (ss_sbi S)) k)
        \<and> (seg_inuse (ss_sbi S') k \<longleftrightarrow> seg_inuse (ss_sbi S) k \<and> \<not> is_dirty (ss_sbi S) PRE k))"
proof -
  obtain flushed S0 where f: "flush_sits_in_journal L S = (flushed, S0)" by fastforce
  note J = flush_sits_in_journal_ok [OF sh ok f] and F = flush_frameD [OF flush_sits_in_journal_ok(3) [OF sh ok f]]
  let ?n = "TOTAL_SEGS (ss_sbi S)" and ?c = "\<lparr> sc_page = None, sc_start = 0, sc_end = 0 \<rparr>"
  have clean0: "\<not> sp_dirty (ss_pages S0 (sit_addr E (SIT_I (ss_sbi S0)) k))" if "k < TOTAL_SEGS (ss_sbi S0)" for k
    using clean that by (simp add: J(4,5) F(1))
  have run: "sit_run E L flushed S0 0 ?c S0"
    using J(1,2,7) by (simp add: sit_run_def sit_shadow_def flushed_to_def flush_frame_refl)
  have al0: "8 dvd sbi_blocks_per_seg (ss_sbi S0)" using al(2) F(7) by simp
  from flush_sits_from_ok [OF k sit_shapeD(1) [OF J(1)] clean0 al(1) al0 run le0] obtain c' S1 where
    s1: "flush_sits_from E L flushed ?c S0 0 = Some S1" "sit_run E L flushed S0 ?n c' S1" by (auto simp: F(1))
  note R = sit_runD [OF s1(2)] and F1 = flush_frameD [OF sit_runD(5) [OF s1(2)]]
  have entry: "\<not> sit_dirty S1 i \<and> sit_entry S1 i = ckpted (sit_entry S i) \<and> disk_sit E S1 i = raw_sit E (sit_entry S i)" if i: "i < ?n" for i
    using R(6) i F(1) dk J(6) J(8,9) [of i] unfolding flushed_to_def sit_disk_ok_def
    by (cases "sit_dirty S0 i") auto
  have "free_ok (ss_sbi S1)" using fr F F1 by (simp add: free_ok_def sec_inuse_def seg_inuse_def free_segments_def free_sections_def)
  from set_prefree_frees [OF k this] obtain sbi' where p: "set_prefree_as_free_segments E (ss_sbi S1) = Some sbi'" "free_ok sbi'"
    "free_frame (ss_sbi S1) sbi'" "\<forall>i<?n. seg_inuse sbi' i \<longleftrightarrow> seg_inuse (ss_sbi S1) i \<and> \<not> is_dirty (ss_sbi S1) PRE i"
    by (auto simp: F F1)
  note P = free_frameD [OF p(3)]
  let ?S' = "S1\<lparr>ss_sbi := sbi'\<rparr>"
  have run': "flush_sit_entries E L S = Some ?S'"
    using f s1(1) p(1) by (simp add: flush_sit_entries_def u32_def)
  have sit': "SIT_I sbi' = SIT_I (ss_sbi S1)" "get_seg_entry sbi' = get_seg_entry (ss_sbi S1)"
    using P by (simp_all add: get_seg_entry_def fun_eq_iff)
  have bs: "sm_segment_count (SM_I sbi') = sm_segment_count (SM_I (ss_sbi S1))" "sbi_blocks_per_seg sbi' = sbi_blocks_per_seg (ss_sbi S1)"
    using p(3) by (metis free_frame_def set_FREE_I_frame)+
  then have "sit_shape E L ?S'" using R(1) P(1) by (simp add: sit_shape_def sit_geom_def sit')
  moreover have "sit_ok E sbi'"
    using R(3) P sit'(1) bs by (subst sit_ok_cong [of sbi' "ss_sbi S1"]) simp_all
  moreover have "ss_pages S1 (sit_addr E (SIT_I (ss_sbi S)) i) = ss_pages S (sit_addr E (SIT_I (ss_sbi S)) i)" if "i < ?n" for i
    using sit_shadowD(4) [OF R(2), of i] that F(1) by (simp add: J(4,5))
  moreover have "disk_sit E ?S' i = disk_sit E S1 i" for i by (simp add: disk_sit_def sit' cong: option.case_cong)
  moreover have "seg_inuse sbi' i \<longleftrightarrow> seg_inuse (ss_sbi S) i \<and> \<not> is_dirty (ss_sbi S) PRE i" if "i < ?n" for i
    using p(4) that F F1 by (simp add: seg_inuse_def is_dirty_def)
  moreover have "flush_keeps (ss_sbi S) sbi'"
    using flush_keepsI [OF flush_frame_trans [OF J(3) R(5)] _ _ p(3)] sit_shadowD(1,2) [OF R(2)] J(10) by simp
  ultimately show ?thesis using run' p(2) entry by (intro exI [of _ ?S']) (simp add: sit' P(1) F1 F)
qed

end
