(* ===== verification/Sit_Build.thy ===== *)
theory Sit_Build
  imports Sit_Flush
begin

text \<open>
  Reading the segment information table at mount (\<open>build_sit_entries\<close> of \<open>segment.c\<close>): every entry
  comes from the journal or from the place of its table block in use, in rounds of the pages
  that one readahead covers.  A round reads at least one page, so the loop ends.
\<close>

section \<open>Definitions\<close>

definition SIT_BLK_CNT :: "f2fs_env \<Rightarrow> f2fs_sb_info \<Rightarrow> nat" where
  "SIT_BLK_CNT E sbi = u32 (TOTAL_SEGS sbi + SIT_ENTRY_PER_BLOCK E - 1) div SIT_ENTRY_PER_BLOCK E"

text \<open>The page of the table that holds the entry of \<open>segno\<close>.\<close>

definition get_current_sit_page :: "f2fs_env \<Rightarrow> sit_state \<Rightarrow> nat \<Rightarrow> sit_page option" where
  "get_current_sit_page E S segno = do {
     let sit_i = SIT_I (ss_sbi S);
     let offset = SIT_BLOCK_OFFSET E segno;
     let blk_addr = u32 (sit_base_addr sit_i + offset);
     check_seg_range E (ss_sbi S) segno;
     let blk_addr = (if f2fs_test_bit offset (sit_bitmap sit_i) then u32 (blk_addr + sit_blocks sit_i) else blk_addr);
     Some (ss_pages S blk_addr) }"

text \<open>The loop of \<open>ra_sit_pages\<close> over at most \<open>n\<close> blocks of the table: where it stops.  It goes on while
  the places in use are next to each other.\<close>

primrec ra_sit_loop :: "f2fs_env \<Rightarrow> f2fs_sb_info \<Rightarrow> nat \<Rightarrow> nat \<Rightarrow> nat \<Rightarrow> nat \<Rightarrow> nat option" where
  "ra_sit_loop E sbi start blkno prev_blk_addr 0 = Some blkno"
| "ra_sit_loop E sbi start blkno prev_blk_addr (Suc n) =
     (if blkno < SIT_BLK_CNT E sbi then do {
        blk_addr \<leftarrow> current_sit_addr E sbi (u32 (blkno * SIT_ENTRY_PER_BLOCK E));
        if blkno \<noteq> start \<and> u32 (prev_blk_addr + 1) \<noteq> blk_addr then Some blkno
        else ra_sit_loop E sbi start (blkno + 1) blk_addr n }
      else Some blkno)"

definition ra_sit_pages :: "f2fs_env \<Rightarrow> f2fs_sb_info \<Rightarrow> nat \<Rightarrow> nat \<Rightarrow> nat option" where
  "ra_sit_pages E sbi start nrpages = do {
     blkno \<leftarrow> ra_sit_loop E sbi start start 0 nrpages;
     Some (blkno - start) }"

text \<open>The body of the inner loop.\<close>

definition build_sit_entry :: "f2fs_env \<Rightarrow> sit_state \<Rightarrow> nat \<Rightarrow> sit_state option" where
  "build_sit_entry E S start = do {
     let sbi = ss_sbi S;
     let se = get_seg_entry sbi start;
     let summ = ss_journal S;
     sit \<leftarrow> (case journal_index (take (jr_n summ) (jr_entries summ)) start 0 of
         Some i \<Rightarrow> Some (snd (jr_entries summ ! i))
       | None \<Rightarrow> do {
           page \<leftarrow> get_current_sit_page E S start;
           Some (sp_entries page ! SIT_ENTRY_OFFSET (SIT_I sbi) start) });
     check_block_count E sbi start sit;
     let se = seg_info_from_raw_sit E se sit;
     let sbi = set_seg_entry start se sbi;
     let sbi = (if 1 < sbi_segs_per_sec sbi
                then set_sec_entry start ((get_sec_entry sbi start)\<lparr>sec_valid_blocks :=
                       u32 (sec_valid_blocks (get_sec_entry sbi start) + se_valid_blocks se)\<rparr>) sbi
                else sbi);
     Some (S\<lparr>ss_sbi := sbi\<rparr>) }"

fun build_sit_range :: "f2fs_env \<Rightarrow> nat list \<Rightarrow> sit_state \<Rightarrow> sit_state option" where
  "build_sit_range E [] S = Some S"
| "build_sit_range E (start # starts) S = do { S \<leftarrow> build_sit_entry E S start; build_sit_range E starts S }"

partial_function (option) build_sit_from :: "f2fs_env \<Rightarrow> nat \<Rightarrow> sit_state \<Rightarrow> nat \<Rightarrow> sit_state option" where
  "build_sit_from E nrpages S start_blk =
    Option.bind (ra_sit_pages E (ss_sbi S) start_blk nrpages) (\<lambda>readed.
    let start = u32 (start_blk * sit_sents_per_block (SIT_I (ss_sbi S)));
        stop = u32 ((start_blk + readed) * sit_sents_per_block (SIT_I (ss_sbi S)))
    in Option.bind (build_sit_range E [start..<min stop (TOTAL_SEGS (ss_sbi S))] S) (\<lambda>S.
       let start_blk = u32 (start_blk + readed)
       in if start_blk < SIT_BLK_CNT E (ss_sbi S) then build_sit_from E nrpages S start_blk else Some S))"

definition build_sit_entries :: "f2fs_env \<Rightarrow> nat \<Rightarrow> sit_state \<Rightarrow> sit_state option" where
  "build_sit_entries E nrpages S = build_sit_from E nrpages S 0"

section \<open>One entry\<close>

text \<open>What the code relies on of an entry of the disk: its count is the number of its bits, and its type
  is one of the logs'.\<close>

definition raw_entry_ok :: "f2fs_env \<Rightarrow> nat \<Rightarrow> f2fs_sit_entry \<Rightarrow> bool" where
  "raw_entry_ok E bps r \<longleftrightarrow> length (rs_valid_map r) = SIT_VBLOCK_MAP_SIZE E \<and> GET_SIT_TYPE E (rs_vblocks r) < NR_CURSEG_TYPE
     \<and> GET_SIT_VBLOCKS E (rs_vblocks r) = count_bits bps (bits_of (rs_valid_map r))"

text \<open>The entry in memory.\<close>

definition loaded :: "f2fs_env \<Rightarrow> seg_entry \<Rightarrow> f2fs_sit_entry \<Rightarrow> bool" where
  "loaded E se r \<longleftrightarrow> se_cur_valid_map se = rs_valid_map r \<and> se_ckpt_valid_map se = rs_valid_map r
     \<and> se_valid_blocks se = GET_SIT_VBLOCKS E (rs_vblocks r) \<and> se_ckpt_valid_blocks se = GET_SIT_VBLOCKS E (rs_vblocks r)
     \<and> se_type se = GET_SIT_TYPE E (rs_vblocks r) \<and> se_mtime se = rs_mtime r"

lemma loaded_ok:
  assumes "loaded E se r" and "raw_entry_ok E bps r"
  shows "seg_ok E bps se" "se_type se < NR_CURSEG_TYPE"
  using assms by (simp_all add: loaded_def raw_entry_ok_def seg_ok_def)

lemma from_raw_loaded:
  assumes "raw_entry_ok E bps r" and "bps < 2 ^ 16"
    and "length (se_cur_valid_map se) = SIT_VBLOCK_MAP_SIZE E" "length (se_ckpt_valid_map se) = SIT_VBLOCK_MAP_SIZE E"
  shows "loaded E (seg_info_from_raw_sit E se r) r"
proof -
  have "GET_SIT_VBLOCKS E (rs_vblocks r) < 2 ^ 16"
    using assms(1,2) count_bits_le [of bps "bits_of (rs_valid_map r)"] by (simp add: raw_entry_ok_def)
  then show ?thesis
    using assms by (simp add: loaded_def seg_info_from_raw_sit_def raw_entry_ok_def memcpy_all u16_id u8_id curseg_types)
qed

lemma get_current_sit_page_eq:
  assumes "sit_geom E (ss_sbi S)" and "segno < TOTAL_SEGS (ss_sbi S)"
  shows "get_current_sit_page E S segno = Some (ss_pages S (sit_addr E (SIT_I (ss_sbi S)) segno))"
  using current_sit_addr_eq(1) [OF assms]
  by (auto simp: get_current_sit_page_def current_sit_addr_def Let_def bind_eq_Some_conv split: if_splits)

lemma check_block_count_pass:
  assumes k: "kernel_ok E" and r: "raw_entry_ok E (sbi_blocks_per_seg sbi) r" and g: "sit_geom E sbi" and n: "segno < TOTAL_SEGS sbi"
    and b: "0 < sbi_blocks_per_seg sbi" "8 dvd sbi_blocks_per_seg sbi"
  shows "check_block_count E sbi segno r = Some ()"
proof (cases "CHECK_FS E")
  case False
  then show ?thesis by (simp add: check_block_count_def)
next
  case True
  note G = sit_geomD(7) [OF g n] sit_geomD(8) [OF g]
  obtain m where "sbi_blocks_per_seg sbi = 8 * m" using b(2) by blast
  then have "count_bits (sbi_blocks_per_seg sbi) (le_bits (rs_valid_map r)) = count_bits (sbi_blocks_per_seg sbi) (bits_of (rs_valid_map r))"
    using count_le_bits [of m] by simp
  then show ?thesis
    using check_block_count_iff [OF k True b(1) _ G(2), of segno r] G(1) r by (simp add: raw_entry_ok_def)
qed

text \<open>The superblock while the table is being read: only entries and the counts of sections change.\<close>

definition building :: "f2fs_env \<Rightarrow> sit_state \<Rightarrow> nat \<Rightarrow> sit_state \<Rightarrow> bool" where
  "building E S0 pos S \<longleftrightarrow> ss_journal S = ss_journal S0 \<and> ss_pages S = ss_pages S0
     \<and> (\<exists>ents secs. ss_sbi S = set_SIT_I ((SIT_I (ss_sbi S0))\<lparr>sit_sentries := ents, sit_sec_entries := secs\<rparr>) (ss_sbi S0)
         \<and> length ents = length (sit_sentries (SIT_I (ss_sbi S0)))
         \<and> length secs = length (sit_sec_entries (SIT_I (ss_sbi S0))))
     \<and> (\<forall>k<TOTAL_SEGS (ss_sbi S0). if k < pos then loaded E (sit_entry S k) (disk_sit E S0 k) else sit_entry S k = sit_entry S0 k)
     \<and> (1 < sbi_segs_per_sec (ss_sbi S0) \<longrightarrow> (\<forall>s<TOTAL_SECS (ss_sbi S0). sec_valid_blocks (sit_sec_entries (SIT_I (ss_sbi S)) ! s)
          = (\<Sum>i\<in>sec_segs (ss_sbi S0) s \<inter> {..<pos}. vblocks (ss_sbi S) i)))"

text \<open>The state before: the entries are zeroed but for their types.\<close>

definition fresh_sit :: "f2fs_env \<Rightarrow> sit_state \<Rightarrow> bool" where
  "fresh_sit E S \<longleftrightarrow> length (sit_sentries (SIT_I (ss_sbi S))) = TOTAL_SEGS (ss_sbi S)
     \<and> (\<forall>k<TOTAL_SEGS (ss_sbi S). length (se_cur_valid_map (sit_entry S k)) = SIT_VBLOCK_MAP_SIZE E
          \<and> length (se_ckpt_valid_map (sit_entry S k)) = SIT_VBLOCK_MAP_SIZE E)
     \<and> (1 < sbi_segs_per_sec (ss_sbi S) \<longrightarrow> sit_sec_entries (SIT_I (ss_sbi S)) =
          replicate (TOTAL_SECS (ss_sbi S)) \<lparr> sec_valid_blocks = 0 \<rparr>)"

text \<open>What is on the disk.\<close>

definition sit_image_ok :: "f2fs_env \<Rightarrow> node_layout \<Rightarrow> sit_state \<Rightarrow> bool" where
  "sit_image_ok E L S \<longleftrightarrow> sit_shape E L S \<and> geometry (ss_sbi S) \<and> addr_consts E
     \<and> sbi_blocks_per_seg (ss_sbi S) \<le> 8 * SIT_VBLOCK_MAP_SIZE E \<and> sbi_blocks_per_seg (ss_sbi S) < 2 ^ 16
     \<and> 8 dvd sbi_blocks_per_seg (ss_sbi S)
     \<and> (\<forall>k<TOTAL_SEGS (ss_sbi S). raw_entry_ok E (sbi_blocks_per_seg (ss_sbi S)) (disk_sit E S k))"

lemma sit_image_okD:
  assumes "sit_image_ok E L S"
  shows "sit_shape E L S" "geometry (ss_sbi S)" "addr_consts E" "sbi_blocks_per_seg (ss_sbi S) \<le> 8 * SIT_VBLOCK_MAP_SIZE E"
    "sbi_blocks_per_seg (ss_sbi S) < 2 ^ 16" "8 dvd sbi_blocks_per_seg (ss_sbi S)"
    "k < TOTAL_SEGS (ss_sbi S) \<Longrightarrow> raw_entry_ok E (sbi_blocks_per_seg (ss_sbi S)) (disk_sit E S k)"
  using assms by (auto simp: sit_image_ok_def)

lemma buildingD:
  assumes "building E S0 pos S"
  shows "ss_journal S = ss_journal S0" "ss_pages S = ss_pages S0" "sit_addr E (SIT_I (ss_sbi S)) = sit_addr E (SIT_I (ss_sbi S0))"
    "TOTAL_SEGS (ss_sbi S) = TOTAL_SEGS (ss_sbi S0)" "TOTAL_SECS (ss_sbi S) = TOTAL_SECS (ss_sbi S0)" "sbi_segs_per_sec (ss_sbi S) = sbi_segs_per_sec (ss_sbi S0)"
    "sbi_blocks_per_seg (ss_sbi S) = sbi_blocks_per_seg (ss_sbi S0)" "sit_geom E (ss_sbi S) = sit_geom E (ss_sbi S0)"
    "GET_SECNO (ss_sbi S) = GET_SECNO (ss_sbi S0)" "current_sit_addr E (ss_sbi S) = current_sit_addr E (ss_sbi S0)" "SIT_BLK_CNT E (ss_sbi S) = SIT_BLK_CNT E (ss_sbi S0)"
    "k < TOTAL_SEGS (ss_sbi S0) \<Longrightarrow> k < pos \<Longrightarrow> loaded E (sit_entry S k) (disk_sit E S0 k)"
    "k < TOTAL_SEGS (ss_sbi S0) \<Longrightarrow> pos \<le> k \<Longrightarrow> sit_entry S k = sit_entry S0 k"
    "sit_sents_per_block (SIT_I (ss_sbi S)) = sit_sents_per_block (SIT_I (ss_sbi S0))"
proof -
  obtain ents secs where e: "ss_sbi S = set_SIT_I ((SIT_I (ss_sbi S0))\<lparr>sit_sentries := ents, sit_sec_entries := secs\<rparr>) (ss_sbi S0)"
    using assms by (auto simp: building_def)
  show "sit_addr E (SIT_I (ss_sbi S)) = sit_addr E (SIT_I (ss_sbi S0))" by (rule sit_addr_cong) (simp_all add: e)
  show "ss_journal S = ss_journal S0" "ss_pages S = ss_pages S0" using assms by (simp_all add: building_def)
  show "TOTAL_SEGS (ss_sbi S) = TOTAL_SEGS (ss_sbi S0)" "TOTAL_SECS (ss_sbi S) = TOTAL_SECS (ss_sbi S0)" "sbi_segs_per_sec (ss_sbi S) = sbi_segs_per_sec (ss_sbi S0)"
    "sbi_blocks_per_seg (ss_sbi S) = sbi_blocks_per_seg (ss_sbi S0)" "sit_geom E (ss_sbi S) = sit_geom E (ss_sbi S0)"
    "GET_SECNO (ss_sbi S) = GET_SECNO (ss_sbi S0)" "current_sit_addr E (ss_sbi S) = current_sit_addr E (ss_sbi S0)" "SIT_BLK_CNT E (ss_sbi S) = SIT_BLK_CNT E (ss_sbi S0)"
    "sit_sents_per_block (SIT_I (ss_sbi S)) = sit_sents_per_block (SIT_I (ss_sbi S0))"
    by (simp_all add: e TOTAL_SEGS_def TOTAL_SECS_def sit_geom_def GET_SECNO_def current_sit_addr_def Let_def check_seg_range_def SIT_BLK_CNT_def fun_eq_iff)
  show "k < TOTAL_SEGS (ss_sbi S0) \<Longrightarrow> k < pos \<Longrightarrow> loaded E (sit_entry S k) (disk_sit E S0 k)"
    "k < TOTAL_SEGS (ss_sbi S0) \<Longrightarrow> pos \<le> k \<Longrightarrow> sit_entry S k = sit_entry S0 k"
    using assms by (auto simp: building_def)
qed

lemma building_start:
  assumes "fresh_sit E S"
  shows "building E S 0 S"
proof -
  let ?i = "SIT_I (ss_sbi S)"
  have e: "\<exists>ents secs. ss_sbi S = set_SIT_I (?i\<lparr>sit_sentries := ents, sit_sec_entries := secs\<rparr>) (ss_sbi S)
      \<and> length ents = length (sit_sentries ?i) \<and> length secs = length (sit_sec_entries ?i)"
    by (intro exI [of _ "sit_sentries ?i"] exI [of _ "sit_sec_entries ?i"]) simp
  show ?thesis unfolding building_def using e assms by (simp add: fresh_sit_def)
qed

lemma build_sit_entry_ok:
  assumes k: "kernel_ok E" and im: "sit_image_ok E L S0" and fr: "fresh_sit E S0" and b: "building E S0 n S" and n: "n < TOTAL_SEGS (ss_sbi S0)"
  shows "\<exists>S'. build_sit_entry E S n = Some S' \<and> building E S0 (n + 1) S'"
proof -
  note I = sit_image_okD [OF im] and B = buildingD [OF b]
  note G = sit_geomD [OF sit_shapeD(1) [OF I(1)]]
  let ?r = "disk_sit E S0 n" and ?sbi = "ss_sbi S" and ?s = "ss_sbi S0"
  have n': "n < TOTAL_SEGS ?sbi" using n B(4) by simp
  define se where "se = seg_info_from_raw_sit E (sit_entry S n) ?r"
  have read: "(case journal_index (take (jr_n (ss_journal S)) (jr_entries (ss_journal S))) n 0 of
         Some i \<Rightarrow> Some (snd (jr_entries (ss_journal S) ! i))
       | None \<Rightarrow> do { page \<leftarrow> get_current_sit_page E S n; Some (sp_entries page ! SIT_ENTRY_OFFSET (SIT_I ?sbi) n) }) = Some ?r"
  proof (cases "journal_index (take (jr_n (ss_journal S0)) (jr_entries (ss_journal S0))) n 0")
    case None
    moreover have "get_current_sit_page E S n = Some (ss_pages S0 (sit_addr E (SIT_I ?s) n))"
      using get_current_sit_page_eq [of E S n] sit_shapeD(1) [OF I(1)] n' by (simp add: B)
    ultimately show ?thesis
      using journal_index_None [of "ss_journal S0" n] G(2) by (simp add: B disk_sit_def SIT_ENTRY_OFFSET_def)
  next
    case (Some i)
    then show ?thesis using journal_index_Some(4) [OF Some] by (simp add: B disk_sit_def)
  qed
  have chk: "check_block_count E ?sbi n ?r = Some ()"
    using check_block_count_pass [OF k, of ?sbi ?r n] I(7) [OF n] I(6) sit_shapeD(1) [OF I(1)] n' geometryD(2) [OF I(2)] by (simp add: B)
  have old: "sit_entry S n = sit_entry S0 n" using B(13) [OF n] by simp
  have ld: "loaded E se ?r"
    unfolding se_def old using from_raw_loaded [OF I(7) [OF n] I(5)] fr n by (simp add: fresh_sit_def)
  have ll: "length (sit_sentries (SIT_I ?sbi)) = TOTAL_SEGS ?s"
    using b fr by (auto simp: building_def fresh_sit_def)
  have g1: "get_seg_entry (set_seg_entry n se ?sbi) = (get_seg_entry ?sbi)(n := se)"
    using ll n by (auto simp: get_seg_entry_def nth_list_update fun_eq_iff)
  obtain ents secs where e: "?sbi = set_SIT_I ((SIT_I ?s)\<lparr>sit_sentries := ents, sit_sec_entries := secs\<rparr>) ?s"
    and len: "length ents = length (sit_sentries (SIT_I ?s))" "length secs = length (sit_sec_entries (SIT_I ?s))"
    using b by (auto simp: building_def)
  define secs' where "secs' = (if 1 < sbi_segs_per_sec ?s then secs[GET_SECNO ?s n := (secs ! GET_SECNO ?s n)\<lparr>sec_valid_blocks :=
     u32 (sec_valid_blocks (secs ! GET_SECNO ?s n) + se_valid_blocks se)\<rparr>] else secs)"
  define S' where "S' = S\<lparr>ss_sbi := set_SIT_I ((SIT_I ?s)\<lparr>sit_sentries := ents[n := se], sit_sec_entries := secs'\<rparr>) ?s\<rparr>"
  have sc: "GET_SECNO ?sbi = GET_SECNO ?s" "sbi_segs_per_sec ?sbi = sbi_segs_per_sec ?s" by (rule B)+
  have run: "build_sit_entry E S n = Some S'"
  proof -
    have "(SIT_I ?sbi)\<lparr>sit_sentries := (sit_sentries (SIT_I ?sbi))[n := se]\<rparr> =
        (SIT_I ?s)\<lparr>sit_sentries := ents[n := se], sit_sec_entries := secs\<rparr>" by (simp add: e)
    moreover have "set_SIT_I i ?sbi = set_SIT_I i ?s" for i by (simp add: e)
    ultimately have "set_seg_entry n se ?sbi = set_SIT_I ((SIT_I ?s)\<lparr>sit_sentries := ents[n := se], sit_sec_entries := secs\<rparr>) ?s"
      by (simp add: set_seg_entry_def)
    then show ?thesis
      unfolding build_sit_entry_def Let_def read bind.bind_lunit chk se_def [symmetric]
      by (simp add: S'_def secs'_def get_sec_entry_def set_sec_entry_def GET_SECNO_def)
  qed
  have ent': "sit_entry S' = (sit_entry S)(n := se)"
  proof -
    have "get_seg_entry (ss_sbi S') k = ents[n := se] ! k" "sit_entry S k = ents ! k" for k by (simp_all add: S'_def get_seg_entry_def e)
    moreover have "n < length ents" using len fr n by (simp add: fresh_sit_def)
    ultimately show ?thesis by (auto simp: fun_eq_iff nth_list_update)
  qed
  have "sec_valid_blocks (secs' ! s) = (\<Sum>i\<in>sec_segs ?s s \<inter> {..<n + 1}. vblocks (ss_sbi S') i)"
    if one: "1 < sbi_segs_per_sec ?s" and s: "s < TOTAL_SECS ?s" for s
  proof -
    have prev: "sec_valid_blocks (secs ! s) = (\<Sum>i\<in>sec_segs ?s s \<inter> {..<n}. vblocks ?sbi i)"
      using b one s by (simp add: building_def e)
    have sl: "length secs = TOTAL_SECS ?s" using len fr one by (simp add: fresh_sit_def)
    have vb: "vblocks (ss_sbi S') i = (if i = n then se_valid_blocks se else vblocks ?sbi i)" for i
      by (simp add: vblocks_def ent')
    have same: "(\<Sum>i\<in>sec_segs ?s s \<inter> {..<n}. vblocks (ss_sbi S') i) = (\<Sum>i\<in>sec_segs ?s s \<inter> {..<n}. vblocks ?sbi i)"
      by (intro sum.cong) (auto simp: vb)
    show ?thesis
    proof (cases "GET_SECNO ?s n = s")
      case True
      then have "sec_segs ?s s \<inter> {..<n + 1} = insert n (sec_segs ?s s \<inter> {..<n})"
        using sec_segs_mem [OF I(2), of n s] by auto
      then have sum: "(\<Sum>i\<in>sec_segs ?s s \<inter> {..<n + 1}. vblocks (ss_sbi S') i) = se_valid_blocks se + sec_valid_blocks (secs ! s)"
        by (simp add: same prev) (simp add: vb)
      have bnd: "vblocks (ss_sbi S') i \<le> sbi_blocks_per_seg ?s" if "i < n + 1" for i
      proof -
        have "loaded E (sit_entry S' i) (disk_sit E S0 i)" using that ent' ld B(12) [of i] n by (cases "i = n") auto
        moreover have "raw_entry_ok E (sbi_blocks_per_seg ?s) (disk_sit E S0 i)" using I(7) [of i] that n by simp
        ultimately show ?thesis by (simp add: vblocks_def loaded_def raw_entry_ok_def count_bits_le)
      qed
      have "(\<Sum>i\<in>sec_segs ?s s \<inter> {..<n + 1}. vblocks (ss_sbi S') i) \<le> (\<Sum>i<n + 1. vblocks (ss_sbi S') i)"
        by (intro sum_mono2) auto
      also have "\<dots> \<le> (n + 1) * sbi_blocks_per_seg ?s" using bnd by (intro sum_bound) simp
      also have "\<dots> \<le> TOTAL_SEGS ?s * sbi_blocks_per_seg ?s" using n by (intro mult_le_mono1) simp
      also have "\<dots> < 2 ^ 32" by (rule geometry_blocks [OF I(2)])
      finally have "u32 (sec_valid_blocks (secs ! s) + se_valid_blocks se) = sec_valid_blocks (secs ! s) + se_valid_blocks se"
        unfolding sum by (intro u32_id) simp
      then show ?thesis unfolding sum using one s sl True by (simp add: secs'_def)
    next
      case False
      then have "n \<notin> sec_segs ?s s" using sec_segs_mem [OF I(2), of n s] by simp
      then have "sec_segs ?s s \<inter> {..<n + 1} = sec_segs ?s s \<inter> {..<n}" using less_Suc_eq by auto
      then show ?thesis using False by (simp add: secs'_def same prev)
    qed
  qed
  moreover have "if k < n + 1 then loaded E (sit_entry S' k) (disk_sit E S0 k) else sit_entry S' k = sit_entry S0 k"
    if "k < TOTAL_SEGS ?s" for k
    using B(12,13) [OF that] ld by (auto simp: ent')
  moreover have "length secs' = length secs" by (simp add: secs'_def)
  then have "\<exists>ents secs. ss_sbi S' = set_SIT_I ((SIT_I ?s)\<lparr>sit_sentries := ents, sit_sec_entries := secs\<rparr>) ?s
      \<and> length ents = length (sit_sentries (SIT_I ?s)) \<and> length secs = length (sit_sec_entries (SIT_I ?s))"
    by (intro exI [of _ "ents[n := se]"] exI [of _ secs']) (simp add: S'_def len)
  moreover have "ss_journal S' = ss_journal S0" "ss_pages S' = ss_pages S0" "sit_sec_entries (SIT_I (ss_sbi S')) = secs'"
    using B(1,2) by (simp_all add: S'_def)
  ultimately have "building E S0 (n + 1) S'" unfolding building_def by blast
  with run show ?thesis by blast
qed

lemma build_sit_range_ok:
  assumes k: "kernel_ok E" and im: "sit_image_ok E L S0" and fr: "fresh_sit E S0"
  shows "building E S0 a S \<Longrightarrow> a \<le> b \<Longrightarrow> b \<le> TOTAL_SEGS (ss_sbi S0) \<Longrightarrow>
    \<exists>S'. build_sit_range E [a..<b] S = Some S' \<and> building E S0 b S'"
proof (induction "b - a" arbitrary: a S)
  case 0
  then show ?case by simp
next
  case (Suc m)
  then have ab: "a < b" by simp
  then have n: "a < TOTAL_SEGS (ss_sbi S0)" using Suc.prems(3) by simp
  obtain S1 where S1: "build_sit_entry E S a = Some S1" "building E S0 (a + 1) S1"
    using build_sit_entry_ok [OF k im fr Suc.prems(1) n] by blast
  have "m = b - (a + 1)" using Suc.hyps(2) by simp
  from Suc.hyps(1) [OF this S1(2)] ab Suc.prems(3) obtain S' where "build_sit_range E [a + 1..<b] S1 = Some S'" "building E S0 b S'"
    by auto
  then show ?case using S1(1) ab by (simp add: upt_conv_Cons)
qed

section \<open>The loop over the table\<close>

lemma ra_sit_loop_bounds:
  assumes "sit_geom E sbi"
  shows "\<exists>e. ra_sit_loop E sbi start blkno prev n = Some e \<and> blkno \<le> e \<and> (blkno < SIT_BLK_CNT E sbi \<longrightarrow> e \<le> SIT_BLK_CNT E sbi)
    \<and> (0 < n \<and> blkno = start \<and> blkno < SIT_BLK_CNT E sbi \<longrightarrow> blkno < e)"
proof (induction n arbitrary: blkno prev)
  case 0
  then show ?case by simp
next
  case (Suc n)
  show ?case
  proof (cases "blkno < SIT_BLK_CNT E sbi")
    case False
    then show ?thesis by simp
  next
    case True
    note G = sit_geomD [OF assms]
    let ?N = "SIT_ENTRY_PER_BLOCK E"
    have u: "u32 (TOTAL_SEGS sbi + ?N - 1) = TOTAL_SEGS sbi + ?N - 1" using G(1,4) by (intro u32_id) simp
    have "blkno < (TOTAL_SEGS sbi + ?N - 1) div ?N" using True by (simp only: SIT_BLK_CNT_def u)
    then have "Suc blkno \<le> (TOTAL_SEGS sbi + ?N - 1) div ?N" by simp
    then have "Suc blkno * ?N \<le> TOTAL_SEGS sbi + ?N - 1" using G(1) by (simp only: less_eq_div_iff_mult_less_eq)
    then have lt: "blkno * ?N < TOTAL_SEGS sbi" using G(1) by simp
    then have "u32 (blkno * ?N) = blkno * ?N" using G(4) by (intro u32_id) simp
    then obtain a where a: "current_sit_addr E sbi (u32 (blkno * ?N)) = Some a"
      using current_sit_addr_eq(1) [OF assms lt] by simp
    obtain e where e: "ra_sit_loop E sbi start (blkno + 1) a n = Some e" "blkno + 1 \<le> e"
      "blkno + 1 < SIT_BLK_CNT E sbi \<longrightarrow> e \<le> SIT_BLK_CNT E sbi"
      using Suc.IH [of "blkno + 1" a] by blast
    have "e \<le> SIT_BLK_CNT E sbi"
    proof (cases "blkno + 1 < SIT_BLK_CNT E sbi")
      case False
      then have "e = blkno + 1" using e(1) by (cases n) auto
      then show ?thesis using True by simp
    qed (use e(3) in simp)
    then show ?thesis using True a e(1,2) by auto
  qed
qed

lemma build_sit_from_ok:
  assumes k: "kernel_ok E" and im: "sit_image_ok E L S0" and fr: "fresh_sit E S0" and np: "0 < nrpages"
  shows "building E S0 (b * SIT_ENTRY_PER_BLOCK E) S \<Longrightarrow> b < SIT_BLK_CNT E (ss_sbi S0) \<Longrightarrow>
    \<exists>S'. build_sit_from E nrpages S b = Some S' \<and> building E S0 (TOTAL_SEGS (ss_sbi S0)) S'"
proof (induction "SIT_BLK_CNT E (ss_sbi S0) - b" arbitrary: b S rule: less_induct)
  case less
  note I = sit_image_okD [OF im] and B = buildingD [OF less.prems(1)]
  have g: "sit_geom E (ss_sbi S0)" by (rule sit_shapeD(1) [OF I(1)])
  note G = sit_geomD [OF g]
  let ?N = "SIT_ENTRY_PER_BLOCK E" and ?T = "TOTAL_SEGS (ss_sbi S0)" and ?C = "SIT_BLK_CNT E (ss_sbi S0)"
  have "sit_geom E (ss_sbi S)" using g B(8) by simp
  from ra_sit_loop_bounds [OF this, of b b 0 nrpages] obtain e where
    e: "ra_sit_loop E (ss_sbi S) b b 0 nrpages = Some e" "b < e" "e \<le> ?C"
    using np less.prems(2) by (auto simp: B(11))
  have u: "u32 (?T + ?N - 1) = ?T + ?N - 1" using G(1,4) by (intro u32_id) simp
  have C: "?C = (?T + ?N - 1) div ?N" by (simp only: SIT_BLK_CNT_def u)
  have "?C * ?N \<le> ?T + ?N - 1" unfolding C by simp
  moreover have "e * ?N \<le> ?C * ?N" using e(3) by (rule mult_le_mono1)
  ultimately have eN: "e * ?N < 2 ^ 32" using G(1,4) by linarith
  have bN: "b * ?N \<le> e * ?N" using e(2) by (intro mult_le_mono1) simp
  have bT: "b * ?N < ?T"
  proof -
    have "Suc b \<le> (?T + ?N - 1) div ?N" using less.prems(2) by (simp add: C)
    then have "Suc b * ?N \<le> ?T + ?N - 1" using G(1) by (simp only: less_eq_div_iff_mult_less_eq)
    then show ?thesis using G(1) by simp
  qed
  have eC: "e < 2 ^ 32" using eN G(1) by (metis le_less_trans mult.commute mult_le_mono1 nat_mult_1 One_nat_def Suc_leI)
  from build_sit_range_ok [OF k im fr less.prems(1), of "min (e * ?N) ?T"] bN bT obtain S1 where
    S1: "build_sit_range E [b * ?N..<min (e * ?N) ?T] S = Some S1" "building E S0 (min (e * ?N) ?T) S1" by auto
  have step: "build_sit_from E nrpages S b = (if e < ?C then build_sit_from E nrpages S1 e else Some S1)"
  proof -
    have "u32 (b * ?N) = b * ?N" "b + (e - b) = e" "u32 e = e" "u32 (e * ?N) = e * ?N"
      using eN bN eC e(2) by (intro u32_id | linarith)+
    then show ?thesis
      using S1(1) e(1) buildingD(11) [OF S1(2)]
      by (subst build_sit_from.simps) (simp add: ra_sit_pages_def B(4,14) G(2) Let_def)
  qed
  show ?case
  proof (cases "e < ?C")
    case True
    have "e * ?N < ?T"
    proof -
      have "Suc e \<le> (?T + ?N - 1) div ?N" using True by (simp add: C)
      then have "Suc e * ?N \<le> ?T + ?N - 1" using G(1) by (simp only: less_eq_div_iff_mult_less_eq)
      then show ?thesis using G(1) by simp
    qed
    then have "building E S0 (e * ?N) S1" using S1(2) by (simp add: min_def)
    then show ?thesis using step True less.hyps [of e S1] e(2) less.prems(2) by simp
  next
    case False
    then have "e = ?C" using e(3) by simp
    moreover have "?T \<le> ?C * ?N"
    proof -
      have "?T + ?N - 1 < Suc ?C * ?N" using G(1) unfolding C by (metis div_mult_mod_eq add.commute dividend_less_times_div mult.commute mult_Suc_right)
      then show ?thesis by simp
    qed
    ultimately have "min (e * ?N) ?T = ?T" by simp
    then show ?thesis using step False S1(2) by simp
  qed
qed

text \<open>The table in memory is the one on the disk.\<close>

lemma build_sit_entries_ok:
  assumes k: "kernel_ok E" and im: "sit_image_ok E L S" and fr: "fresh_sit E S" and np: "0 < nrpages" and T: "0 < TOTAL_SEGS (ss_sbi S)"
  shows "\<exists>S'. build_sit_entries E nrpages S = Some S' \<and> building E S (TOTAL_SEGS (ss_sbi S)) S'"
proof -
  note G = sit_geomD [OF sit_shapeD(1) [OF sit_image_okD(1) [OF im]]]
  have u: "u32 (TOTAL_SEGS (ss_sbi S) + SIT_ENTRY_PER_BLOCK E - 1) = TOTAL_SEGS (ss_sbi S) + SIT_ENTRY_PER_BLOCK E - 1"
    using G(1,4) by (intro u32_id) simp
  have "SIT_ENTRY_PER_BLOCK E \<le> TOTAL_SEGS (ss_sbi S) + SIT_ENTRY_PER_BLOCK E - 1" using T by simp
  then have "0 < SIT_BLK_CNT E (ss_sbi S)" unfolding SIT_BLK_CNT_def u using G(1) by (simp only: div_greater_zero_iff)
  then show ?thesis
    using build_sit_from_ok [OF k im fr np, of 0 S] building_start [OF fr] by (simp add: build_sit_entries_def)
qed

end
