(* ===== verification/New_Segment.thy ===== *)
theory New_Segment
  imports Free_Segmap
begin

text \<open>
  \<open>get_new_segment\<close> of \<open>segment.c\<close>: the search for a free segment, next to the current one or in
  a free section to the right or to the left, moving on once when the zone found is in use
  by another log.
\<close>

section \<open>The search\<close>

text \<open>\<open>while (test_bit(left_start, free_i->free_secmap))\<close>.\<close>

fun walk_left :: "f2fs_env \<Rightarrow> f2fs_sb_info \<Rightarrow> nat \<Rightarrow> nat option" where
  "walk_left E sbi left_start =
    (if fsm_free_secmap (FREE_I sbi) left_start then
       (if 0 < left_start then walk_left E sbi (left_start - 1)
        else
          let left_start = find_next_zero_bit E (fsm_free_secmap (FREE_I sbi)) (TOTAL_SECS sbi) 0
          in do { f2fs_bug_on E (TOTAL_SECS sbi \<le> left_start);
                  Some left_start })
     else Some left_start)"

declare walk_left.simps [simp del]

text \<open>From the label \<open>find_other_zone\<close> to the label \<open>skip_left\<close>: the section, and the new values of
  \<open>go_left\<close> and \<open>left_start\<close>.\<close>

definition find_section :: "f2fs_env \<Rightarrow> f2fs_sb_info \<Rightarrow> alloc_dir \<Rightarrow> nat \<Rightarrow> bool \<Rightarrow> nat \<Rightarrow> (nat \<times> bool \<times> nat) option" where
  "find_section E sbi dir hint go_left left_start = do {
     let secno = find_next_zero_bit E (fsm_free_secmap (FREE_I sbi)) (TOTAL_SECS sbi) hint;
     (secno, go_left, left_start) \<leftarrow>
       (if TOTAL_SECS sbi \<le> secno then
          (if dir = ALLOC_RIGHT then
             let secno = find_next_zero_bit E (fsm_free_secmap (FREE_I sbi)) (TOTAL_SECS sbi) 0
             in do { f2fs_bug_on E (TOTAL_SECS sbi \<le> secno); Some (secno, go_left, left_start) }
           else Some (secno, True, sub32 hint 1))
        else Some (secno, go_left, left_start));
     if \<not> go_left then Some (secno, go_left, left_start)
     else do { left_start \<leftarrow> walk_left E sbi left_start;
               Some (left_start, go_left, left_start) } }"

text \<open>From \<open>skip_left\<close> on: give up on another zone, or the hint to try again with.\<close>

definition zone_in_use :: "f2fs_sb_info \<Rightarrow> nat \<Rightarrow> bool" where
  "zone_in_use sbi zoneno \<longleftrightarrow> (\<exists>i \<in> set [0..<NR_CURSEG_TYPE]. cs_zone (CURSEG_I sbi i) = zoneno)"

definition next_hint :: "f2fs_sb_info \<Rightarrow> alloc_dir \<Rightarrow> nat \<Rightarrow> bool \<Rightarrow> bool \<Rightarrow> nat \<Rightarrow> nat option" where
  "next_hint sbi dir old_zoneno init go_left secno =
    (let zoneno = secno div sbi_secs_per_zone sbi;
         total_zones = TOTAL_SECS sbi div sbi_secs_per_zone sbi
     in if \<not> init then None
        else if sbi_secs_per_zone sbi = 1 then None
        else if zoneno = old_zoneno then None
        else if dir = ALLOC_LEFT \<and> \<not> go_left \<and> total_zones \<le> zoneno + 1 then None
        else if dir = ALLOC_LEFT \<and> go_left \<and> zoneno = 0 then None
        else if zone_in_use sbi zoneno then
          Some (if go_left then sub32 (zoneno * sbi_secs_per_zone sbi) 1
                else if total_zones \<le> zoneno + 1 then 0
                else u32 ((zoneno + 1) * sbi_secs_per_zone sbi))
        else None)"

lemma next_hint_last [simp]: "next_hint sbi dir old_zoneno False go_left secno = None"
  by (simp add: next_hint_def Let_def)

lemma next_hint_init: "next_hint sbi dir old_zoneno init go_left secno = Some hint \<Longrightarrow> init"
  by (cases init) simp_all

function find_zone :: "f2fs_env \<Rightarrow> f2fs_sb_info \<Rightarrow> alloc_dir \<Rightarrow> nat \<Rightarrow> bool \<Rightarrow> nat \<Rightarrow> bool \<Rightarrow> nat \<Rightarrow> nat option" where
  "find_zone E sbi dir old_zoneno init hint go_left left_start =
    (case find_section E sbi dir hint go_left left_start of
       None \<Rightarrow> None
     | Some (secno, go_left, left_start) \<Rightarrow>
         (case next_hint sbi dir old_zoneno init go_left secno of
            None \<Rightarrow> Some (u32 (secno * sbi_segs_per_sec sbi))
          | Some hint \<Rightarrow> find_zone E sbi dir old_zoneno False hint go_left left_start))"
  by pat_completeness auto
termination
  by (relation "measure (\<lambda>(_, _, _, _, init, _). if init then 1 else 0)") (auto dest: next_hint_init)

declare find_zone.simps [simp del]

text \<open>The segment number at the label \<open>got_it\<close>.\<close>

definition choose_segment :: "f2fs_env \<Rightarrow> f2fs_sb_info \<Rightarrow> nat \<Rightarrow> bool \<Rightarrow> alloc_dir \<Rightarrow> nat option" where
  "choose_segment E sbi newseg new_sec dir =
    (let hint = newseg div sbi_segs_per_sec sbi;
         old_zoneno = GET_ZONENO_FROM_SEGNO sbi newseg;
         segno = find_next_zero_bit E (fsm_free_segmap (FREE_I sbi)) (TOTAL_SEGS sbi) (u32 (newseg + 1))
     in if \<not> new_sec \<and> u32 (newseg + 1) mod sbi_segs_per_sec sbi \<noteq> 0
           \<and> sub32 segno newseg < sbi_segs_per_sec sbi - newseg mod sbi_segs_per_sec sbi
        then Some segno
        else find_zone E sbi dir old_zoneno True hint False hint)"

definition get_new_segment ::
  "f2fs_env \<Rightarrow> f2fs_sb_info \<Rightarrow> nat \<Rightarrow> bool \<Rightarrow> alloc_dir \<Rightarrow> (nat \<times> f2fs_sb_info) option" where
  "get_new_segment E sbi newseg new_sec dir = do {
     segno \<leftarrow> choose_segment E sbi newseg new_sec dir;
     f2fs_bug_on E (fsm_free_segmap (FREE_I sbi) segno);
     Some (segno, set_inuse sbi segno) }"

section \<open>Every step of it finds a free section\<close>

definition free_section :: "f2fs_sb_info \<Rightarrow> nat \<Rightarrow> bool" where
  "free_section sbi s \<longleftrightarrow> s < TOTAL_SECS sbi \<and> \<not> fsm_free_secmap (FREE_I sbi) s"

lemma find_zero_free_section:
  assumes "kernel_ok E"
  shows "find_next_zero_bit E (fsm_free_secmap (FREE_I sbi)) (TOTAL_SECS sbi) k < TOTAL_SECS sbi
    \<longleftrightarrow> (\<exists>s\<ge>k. free_section sbi s)"
    and "find_next_zero_bit E (fsm_free_secmap (FREE_I sbi)) (TOTAL_SECS sbi) k < TOTAL_SECS sbi \<Longrightarrow>
      free_section sbi (find_next_zero_bit E (fsm_free_secmap (FREE_I sbi)) (TOTAL_SECS sbi) k)
      \<and> k \<le> find_next_zero_bit E (fsm_free_secmap (FREE_I sbi)) (TOTAL_SECS sbi) k"
  using scan_less_iff [of "\<lambda>i. \<not> fsm_free_secmap (FREE_I sbi) i" "TOTAL_SECS sbi" k]
    scan_hit [of "\<lambda>i. \<not> fsm_free_secmap (FREE_I sbi) i" "TOTAL_SECS sbi" k]
  by (auto simp: find_next_zero_bit_scan [OF assms] free_section_def)

lemma walk_left_free:
  assumes "kernel_ok E" and "free_section sbi s"
  shows "l < TOTAL_SECS sbi \<Longrightarrow> \<exists>l'. walk_left E sbi l = Some l' \<and> free_section sbi l'"
proof (induction l)
  case 0
  have "find_next_zero_bit E (fsm_free_secmap (FREE_I sbi)) (TOTAL_SECS sbi) 0 < TOTAL_SECS sbi"
    using find_zero_free_section(1) [OF assms(1)] assms(2) by auto
  with find_zero_free_section(2) [OF assms(1) this] 0 show ?case
    by (subst walk_left.simps) (auto simp: Let_def f2fs_bug_on_def free_section_def)
next
  case (Suc l)
  then show ?case by (subst walk_left.simps) (auto simp: free_section_def)
qed

lemma find_section_free:
  assumes "kernel_ok E" and "free_section sbi s" and "TOTAL_SECS sbi < 2 ^ 32"
    and "go_left \<Longrightarrow> dir = ALLOC_LEFT \<and> left_start < TOTAL_SECS sbi"
    and "hint \<le> TOTAL_SECS sbi"
  shows "\<exists>secno go_left' left_start'. find_section E sbi dir hint go_left left_start = Some (secno, go_left', left_start')
    \<and> free_section sbi secno \<and> (go_left' \<longrightarrow> dir = ALLOC_LEFT \<and> left_start' = secno)"
proof -
  let ?z = "find_next_zero_bit E (fsm_free_secmap (FREE_I sbi)) (TOTAL_SECS sbi)"
  note F = find_zero_free_section [OF assms(1), where sbi = sbi]
  have z0: "?z 0 < TOTAL_SECS sbi" using F(1) [of 0] assms(2) by auto
  show ?thesis
  proof (cases "?z hint < TOTAL_SECS sbi")
    case True
    with F(2) [OF True] show ?thesis
      using walk_left_free [OF assms(1,2), of left_start] assms(4)
      by (cases go_left) (auto simp: find_section_def Let_def)
  next
    case False
    show ?thesis
    proof (cases dir)
      case ALLOC_RIGHT
      with False z0 F(2) [OF z0] assms(4) show ?thesis
        by (auto simp: find_section_def Let_def f2fs_bug_on_def)
    next
      case ALLOC_LEFT
      have "s < hint" using F(1) [of hint] False assms(2) by (meson not_le)
      then have "sub32 hint 1 = hint - 1" "hint - 1 < TOTAL_SECS sbi"
        using assms(3,5) by (simp_all add: sub32_id)
      with walk_left_free [OF assms(1,2), of "hint - 1"] False ALLOC_LEFT show ?thesis
        by (auto simp: find_section_def Let_def)
    qed
  qed
qed

lemma next_hint_le:
  assumes "next_hint sbi dir old_zoneno init go_left secno = Some hint"
    and "free_section sbi secno" and "TOTAL_SECS sbi < 2 ^ 32" and "0 < sbi_secs_per_zone sbi"
    and "go_left \<Longrightarrow> dir = ALLOC_LEFT"
  shows "hint \<le> TOTAL_SECS sbi"
proof -
  let ?k = "sbi_secs_per_zone sbi"
  let ?z = "secno div ?k"
  have s: "secno < TOTAL_SECS sbi" using assms(2) by (simp add: free_section_def)
  have zk: "?z * ?k \<le> secno" by simp
  have next_zone: "(?z + 1) * ?k \<le> TOTAL_SECS sbi" if "?z + 1 < TOTAL_SECS sbi div ?k"
  proof -
    have "(?z + 1) * ?k \<le> TOTAL_SECS sbi div ?k * ?k" using that by (intro mult_le_mono1) simp
    also have "\<dots> \<le> TOTAL_SECS sbi" by simp
    finally show ?thesis .
  qed
  have hint: "hint = (if go_left then sub32 (?z * ?k) 1
      else if TOTAL_SECS sbi div ?k \<le> ?z + 1 then 0 else u32 ((?z + 1) * ?k))"
    and left: "go_left \<Longrightarrow> dir = ALLOC_LEFT \<Longrightarrow> ?z \<noteq> 0"
    using assms(1) by (auto simp: next_hint_def Let_def split: if_splits)
  show ?thesis
  proof (cases go_left)
    case True
    then have "?z \<noteq> 0" using left assms(5) by blast
    then have "0 < ?z * ?k" using assms(4) by (simp only: nat_0_less_mult_iff) simp
    then have "sub32 (?z * ?k) 1 = ?z * ?k - 1"
      using zk s assms(3) by (intro sub32_id) linarith+
    moreover have "?z * ?k - 1 \<le> TOTAL_SECS sbi" using zk s by linarith
    ultimately show ?thesis using True hint by (simp only: if_True)
  next
    case False
    then show ?thesis using next_zone assms(3) hint by (auto simp: not_le u32_def)
  qed
qed

lemma find_zone_free:
  assumes "kernel_ok E" and "free_section sbi s" and "TOTAL_SECS sbi < 2 ^ 32" and "0 < sbi_secs_per_zone sbi"
  shows "(go_left \<Longrightarrow> dir = ALLOC_LEFT \<and> left_start < TOTAL_SECS sbi) \<Longrightarrow> hint \<le> TOTAL_SECS sbi \<Longrightarrow>
    \<exists>secno. find_zone E sbi dir old_zoneno init hint go_left left_start
      = Some (u32 (secno * sbi_segs_per_sec sbi)) \<and> free_section sbi secno"
proof -
  assume left: "go_left \<Longrightarrow> dir = ALLOC_LEFT \<and> left_start < TOTAL_SECS sbi" and hint: "hint \<le> TOTAL_SECS sbi"
  have last: "\<exists>secno. find_zone E sbi dir old_zoneno False h gl ls = Some (u32 (secno * sbi_segs_per_sec sbi))
      \<and> free_section sbi secno"
    if "gl \<Longrightarrow> dir = ALLOC_LEFT \<and> ls < TOTAL_SECS sbi" "h \<le> TOTAL_SECS sbi" for gl ls h
    using find_section_free [OF assms(1,2,3) that] by (subst find_zone.simps) fastforce
  from find_section_free [OF assms(1,2,3) left hint]
  obtain secno gl ls where f: "find_section E sbi dir hint go_left left_start = Some (secno, gl, ls)"
    "free_section sbi secno" "gl \<longrightarrow> dir = ALLOC_LEFT \<and> ls = secno" by blast
  show ?thesis
  proof (cases "next_hint sbi dir old_zoneno init gl secno")
    case None
    with f show ?thesis by (subst find_zone.simps) auto
  next
    case (Some h)
    have "h \<le> TOTAL_SECS sbi"
      using next_hint_le [OF Some f(2) assms(3,4)] f(3) by blast
    moreover have "gl \<Longrightarrow> dir = ALLOC_LEFT \<and> ls < TOTAL_SECS sbi"
      using f(2,3) by (simp add: free_section_def)
    ultimately have "\<exists>secno. find_zone E sbi dir old_zoneno False h gl ls
      = Some (u32 (secno * sbi_segs_per_sec sbi)) \<and> free_section sbi secno"
      by (intro last) auto
    with f Some show ?thesis by (subst find_zone.simps) auto
  qed
qed

section \<open>The segment it returns\<close>

text \<open>All segments of a free section are free.\<close>

lemma free_section_segments:
  assumes "free_ok sbi" and "free_section sbi s" and "i div sbi_segs_per_sec sbi = s"
  shows "i < TOTAL_SEGS sbi" and "\<not> seg_inuse sbi i"
proof -
  let ?k = "sbi_segs_per_sec sbi"
  note D = free_okD [OF assms(1)]
  have s: "s < TOTAL_SECS sbi" "\<not> fsm_free_secmap (FREE_I sbi) s"
    using assms(2) by (auto simp: free_section_def)
  have "i < s * ?k + ?k" using section_range [OF D(1), of s i] assms(3) by simp
  moreover have "Suc s * ?k \<le> TOTAL_SECS sbi * ?k" using s(1) by (intro mult_le_mono1) simp
  then have "s * ?k + ?k \<le> TOTAL_SEGS sbi" unfolding D(2) by (simp add: add.commute)
  ultimately show i: "i < TOTAL_SEGS sbi" by simp
  show "\<not> seg_inuse sbi i"
    using D(6) [OF s(1)] s(2) i assms(3) unfolding sec_inuse_def by blast
qed

text \<open>Near the current segment: a free segment of the same section, when there is one.\<close>

lemma near_segment:
  assumes "kernel_ok E" and "free_ok sbi" and "newseg < TOTAL_SEGS sbi"
  defines "near \<equiv> find_next_zero_bit E (fsm_free_segmap (FREE_I sbi)) (TOTAL_SEGS sbi) (u32 (newseg + 1))"
  assumes "sub32 near newseg < sbi_segs_per_sec sbi - newseg mod sbi_segs_per_sec sbi"
  shows "near < TOTAL_SEGS sbi" and "\<not> seg_inuse sbi near"
    and "near div sbi_segs_per_sec sbi = newseg div sbi_segs_per_sec sbi"
proof -
  let ?k = "sbi_segs_per_sec sbi" and ?P = "\<lambda>i. \<not> fsm_free_segmap (FREE_I sbi) i"
  note D = free_okD [OF assms(2)] and b = sec_bounds [OF assms(2,3)]
  have n1: "u32 (newseg + 1) = newseg + 1" using D(3) assms(3) by (intro u32_id) simp
  have near: "near = scan ?P (TOTAL_SEGS sbi) (newseg + 1)"
    unfolding near_def n1 by (rule find_next_zero_bit_scan [OF assms(1)])
  have le: "newseg < near" "near \<le> TOTAL_SEGS sbi"
    using scan_cases [of ?P "TOTAL_SEGS sbi" "newseg + 1"] assms(3) scan_le unfolding near
    by (smt (verit, best) Suc_eq_plus1 Suc_le_lessD)+
  have "sub32 near newseg = near - newseg" using le D(3) by (intro sub32_id) simp_all
  with assms(5) have "near - newseg < ?k - newseg mod ?k" by simp
  moreover have "newseg = newseg div ?k * ?k + newseg mod ?k" by simp
  moreover have "newseg mod ?k < ?k" using D(1) by simp
  ultimately have up: "near < newseg div ?k * ?k + ?k" using le(1) by linarith
  then show lt: "near < TOTAL_SEGS sbi" using b(2) by simp
  show "\<not> seg_inuse sbi near"
    using scan_hit [of ?P "TOTAL_SEGS sbi" "newseg + 1"] lt unfolding near seg_inuse_def by simp
  have "newseg div ?k * ?k \<le> near" using le(1) div_times_less_eq_dividend [of newseg ?k] by linarith
  with up show "near div ?k = newseg div ?k" using section_range [OF D(1)] by blast
qed

text \<open>
  \<open>get_new_segment\<close> always succeeds when a section is free, with a free segment of the main
  area, which is the only one it marks as in use.
\<close>

lemma choose_segment_free:
  assumes "kernel_ok E" and "free_ok sbi" and "newseg < TOTAL_SEGS sbi" and "0 < sbi_secs_per_zone sbi"
    and "free_section sbi s"
  shows "\<exists>segno. choose_segment E sbi newseg new_sec dir = Some segno
    \<and> segno < TOTAL_SEGS sbi \<and> \<not> seg_inuse sbi segno"
proof -
  let ?k = "sbi_segs_per_sec sbi"
  let ?near = "find_next_zero_bit E (fsm_free_segmap (FREE_I sbi)) (TOTAL_SEGS sbi) (u32 (newseg + 1))"
  note b = sec_bounds [OF assms(2,3)] and D = free_okD [OF assms(2)]
  have secs: "TOTAL_SECS sbi < 2 ^ 32" using b(3) D(3) by linarith
  show ?thesis
  proof (cases "\<not> new_sec \<and> u32 (newseg + 1) mod ?k \<noteq> 0 \<and> sub32 ?near newseg < ?k - newseg mod ?k")
    case True
    with near_segment(1,2) [OF assms(1-3)] show ?thesis by (auto simp: choose_segment_def Let_def)
  next
    case False
    obtain secno where z: "find_zone E sbi dir (GET_ZONENO_FROM_SEGNO sbi newseg) True (newseg div ?k) False (newseg div ?k)
        = Some (u32 (secno * ?k))" "free_section sbi secno"
      using find_zone_free [OF assms(1,5) secs assms(4), of False dir _ "newseg div ?k"] b(1) by fastforce
    have "secno * ?k div ?k = secno" using D(1) by simp
    note f = free_section_segments [OF assms(2) z(2) this]
    have "u32 (secno * ?k) = secno * ?k" using f(1) D(3) by (intro u32_id) linarith
    then show ?thesis unfolding choose_segment_def Let_def if_not_P [OF False] using z(1) f by simp
  qed
qed

lemma get_new_segment_free:
  assumes "kernel_ok E" and "free_ok sbi" and "newseg < TOTAL_SEGS sbi" and "0 < sbi_secs_per_zone sbi"
    and "free_section sbi s"
  shows "\<exists>segno. get_new_segment E sbi newseg new_sec dir = Some (segno, set_inuse sbi segno)
    \<and> segno < TOTAL_SEGS sbi \<and> \<not> seg_inuse sbi segno"
  using choose_segment_free [OF assms, of new_sec dir]
  by (auto simp: get_new_segment_def f2fs_bug_on_def seg_inuse_def)

section \<open>Going left, the zone is never changed\<close>

text \<open>
  When the first round went left to a section of a zone that another log uses, the second round
  starts the walk at the old \<open>left_start\<close>, which is that very section: the zone is kept.
\<close>

lemma find_zone_left_keeps:
  assumes "kernel_ok E" and "TOTAL_SECS sbi < 2 ^ 32" and "0 < sbi_secs_per_zone sbi"
    and f: "find_section E sbi ALLOC_LEFT hint False hint = Some (secno, True, left_start)"
    and "free_section sbi secno"
  shows "find_zone E sbi ALLOC_LEFT old_zoneno True hint False hint
    = Some (u32 (secno * sbi_segs_per_sec sbi))"
proof -
  have ls: "left_start = secno"
    using f by (auto simp: find_section_def Let_def bind_eq_Some_conv split: if_splits)
  show ?thesis
  proof (cases "next_hint sbi ALLOC_LEFT old_zoneno True True secno")
    case None
    then show ?thesis using f by (subst find_zone.simps) simp
  next
    case (Some h)
    let ?b = "secno div sbi_secs_per_zone sbi * sbi_secs_per_zone sbi"
    have "secno div sbi_secs_per_zone sbi \<noteq> 0" and h: "h = sub32 ?b 1"
      using Some by (auto simp: next_hint_def Let_def split: if_splits)
    then have "0 < ?b" using assms(3) by (simp only: nat_0_less_mult_iff) simp
    moreover have b: "?b \<le> secno" by simp
    moreover have s: "secno < TOTAL_SECS sbi" using assms(5) by (simp add: free_section_def)
    ultimately have "h = ?b - 1" unfolding h using assms(2) by (intro sub32_id) linarith+
    then have "h \<le> secno" using b by linarith
    then have "find_next_zero_bit E (fsm_free_secmap (FREE_I sbi)) (TOTAL_SECS sbi) h < TOTAL_SECS sbi"
      using find_zero_free_section(1) [OF assms(1)] assms(5) by blast
    then have "find_section E sbi ALLOC_LEFT h True secno = Some (secno, True, secno)"
      using assms(5)
      by (simp add: find_section_def Let_def walk_left.simps [of E sbi secno] free_section_def)
    then show ?thesis using f Some ls
      by (subst find_zone.simps) (simp add: find_zone.simps [of E sbi ALLOC_LEFT old_zoneno False])
  qed
qed

end
