(* ===== verification/Gc_Victim.thy ===== *)
theory Gc_Victim
  imports Dirty_Seglist "HOL-Library.Signed_Division"
begin

text \<open>
  Victim selection of \<open>gc.c\<close>: the policy, the three cost functions (valid blocks for SSR,
  cost-benefit and the cost-age-times function \<open>get_cat_cost\<close> for cleaning) and the search
  of \<open>get_victim_by_default\<close>.  The cost functions widen \<open>min_mtime\<close> and \<open>max_mtime\<close> of the
  segment information as they go, so they return the new state with the cost.
\<close>

section \<open>Policy\<close>

record victim_sel_policy =
  vp_alloc_mode :: alloc_mode
  vp_gc_mode :: gc_mode
  vp_dirty_segmap :: "nat \<Rightarrow> bool"
  vp_max_search :: nat
  vp_offset :: nat
  vp_ofs_unit :: nat
  vp_min_cost :: nat
  vp_min_segno :: nat

definition last_victim :: "f2fs_sb_info \<Rightarrow> gc_mode \<Rightarrow> nat" where
  "last_victim sbi m = (case m of GC_CB \<Rightarrow> sbi_last_victim_cb sbi | GC_GREEDY \<Rightarrow> sbi_last_victim_greedy sbi)"

definition set_last_victim :: "gc_mode \<Rightarrow> nat \<Rightarrow> f2fs_sb_info \<Rightarrow> f2fs_sb_info" where
  "set_last_victim m v sbi = (case m of GC_CB \<Rightarrow> sbi\<lparr>sbi_last_victim_cb := v\<rparr>
     | GC_GREEDY \<Rightarrow> sbi\<lparr>sbi_last_victim_greedy := v\<rparr>)"

definition select_gc_type :: "f2fs_gc_kthread option \<Rightarrow> gc_type \<Rightarrow> gc_mode" where
  "select_gc_type gc_th gc_type =
    (let gc_mode = (if gc_type = BG_GC then GC_CB else GC_GREEDY)
     in case gc_th of None \<Rightarrow> gc_mode
        | Some th \<Rightarrow> (if gc_gc_idle th = 1 then GC_CB else if gc_gc_idle th = 2 then GC_GREEDY else gc_mode))"

text \<open>\<open>min_cost\<close> and \<open>min_segno\<close> are set by the caller.\<close>

definition select_policy :: "f2fs_sb_info \<Rightarrow> gc_type \<Rightarrow> nat \<Rightarrow> alloc_mode \<Rightarrow> victim_sel_policy" where
  "select_policy sbi gc_type type alloc_mode =
    (let dirty_i = DIRTY_I sbi;
         gc_mode = (if alloc_mode = SSR then GC_GREEDY else select_gc_type (sbi_gc_thread sbi) gc_type);
         t = (if alloc_mode = SSR then type else DIRTY);
         ofs_unit = (if alloc_mode = SSR then 1 else sbi_segs_per_sec sbi);
         max_search = to_u32 (dl_nr_dirty dirty_i ! t);
         max_search = (if sbi_max_victim_search sbi < max_search then sbi_max_victim_search sbi else max_search)
     in \<lparr>vp_alloc_mode = alloc_mode, vp_gc_mode = gc_mode, vp_dirty_segmap = dl_dirty_segmap dirty_i ! t,
         vp_max_search = max_search, vp_offset = last_victim sbi gc_mode, vp_ofs_unit = ofs_unit,
         vp_min_cost = 0, vp_min_segno = NULL_SEGNO\<rparr>)"

definition get_max_cost :: "f2fs_sb_info \<Rightarrow> victim_sel_policy \<Rightarrow> nat" where
  "get_max_cost sbi p =
    (if vp_alloc_mode p = SSR then 2 ^ sbi_log_blocks_per_seg sbi
     else case vp_gc_mode p of
       GC_GREEDY \<Rightarrow> u32 (2 ^ sbi_log_blocks_per_seg sbi * vp_ofs_unit p)
     | GC_CB \<Rightarrow> UINT_MAX)"

definition sec_usage_check :: "f2fs_sb_info \<Rightarrow> nat \<Rightarrow> bool" where
  "sec_usage_check sbi secno \<longleftrightarrow> IS_CURSEC sbi secno \<or> sbi_cur_victim_sec sbi = secno"

section \<open>Costs\<close>

text \<open>The part \<open>get_cb_cost\<close> and \<open>get_cat_cost\<close> share: utilisation, age and the widened times.\<close>

definition sec_mtime :: "f2fs_sb_info \<Rightarrow> nat \<Rightarrow> nat" where
  "sec_mtime sbi segno =
    (let start = u32 (GET_SECNO sbi segno * sbi_segs_per_sec sbi)
     in fold (\<lambda>i mtime. u64 (mtime + se_mtime (get_seg_entry sbi (u32 (start + i))))) [0..<sbi_segs_per_sec sbi] 0
        div sbi_segs_per_sec sbi)"

definition sec_util :: "f2fs_sb_info \<Rightarrow> nat \<Rightarrow> nat" where
  "sec_util sbi segno =
    (let vblocks = u32 (get_valid_blocks sbi segno (sbi_segs_per_sec sbi) div sbi_segs_per_sec sbi)
     in u8 (drop_bit (sbi_log_blocks_per_seg sbi) (u32 (vblocks * 100))))"

definition widen_mtime :: "nat \<Rightarrow> sit_info \<Rightarrow> sit_info" where
  "widen_mtime mtime sit_i =
    (let sit_i = (if mtime < sit_min_mtime sit_i then sit_i\<lparr>sit_min_mtime := mtime\<rparr> else sit_i)
     in if sit_max_mtime sit_i < mtime then sit_i\<lparr>sit_max_mtime := mtime\<rparr> else sit_i)"

definition sec_age :: "nat \<Rightarrow> sit_info \<Rightarrow> nat" where
  "sec_age mtime sit_i =
    (if sit_max_mtime sit_i \<noteq> sit_min_mtime sit_i
     then u8 (sub64 100 (u64 (100 * sub64 mtime (sit_min_mtime sit_i)) div sub64 (sit_max_mtime sit_i) (sit_min_mtime sit_i)))
     else 0)"

text \<open>\<open>UINT_MAX - ((100 * (100 - u) * age) / (100 + u))\<close>, in \<open>int\<close> arithmetic with C division, and
  \<open>u * number / (100 - u) / age\<close> in 64-bit arithmetic.\<close>

definition cb_formula :: "nat \<Rightarrow> nat \<Rightarrow> nat" where
  "cb_formula u age = to_u32 (int UINT_MAX - (100 * (100 - int u) * int age) sdiv (100 + int u))"

definition cat_formula :: "nat \<Rightarrow> nat \<Rightarrow> nat \<Rightarrow> nat" where
  "cat_formula u age number =
     (if u = 100 \<or> age = 0 then UINT_MAX else u32 (u64 (u * number) div sub64 100 u div age))"

definition get_cb_cost :: "f2fs_sb_info \<Rightarrow> nat \<Rightarrow> nat \<times> f2fs_sb_info" where
  "get_cb_cost sbi segno =
    (let mtime = sec_mtime sbi segno;
         u = sec_util sbi segno;
         sit_i = widen_mtime mtime (SIT_I sbi);
         age = sec_age mtime sit_i
     in (cb_formula u age, set_SIT_I sit_i sbi))"

definition sec_cleanings :: "f2fs_sb_info \<Rightarrow> nat \<Rightarrow> nat" where
  "sec_cleanings sbi segno =
    (let start = u32 (GET_SECNO sbi segno * sbi_segs_per_sec sbi)
     in fold (\<lambda>i n. u64 (n + se_numberofcleaning (get_seg_entry sbi (u32 (start + i))))) [0..<sbi_segs_per_sec sbi] 0
        div sbi_segs_per_sec sbi)"

definition get_cat_cost :: "f2fs_sb_info \<Rightarrow> nat \<Rightarrow> nat \<times> f2fs_sb_info" where
  "get_cat_cost sbi segno =
    (let mtime = sec_mtime sbi segno;
         number = sec_cleanings sbi segno;
         u = sec_util sbi segno;
         sit_i = widen_mtime mtime (SIT_I sbi);
         age = sec_age mtime sit_i
     in (cat_formula u age number, set_SIT_I sit_i sbi))"

definition get_gc_cost :: "f2fs_sb_info \<Rightarrow> nat \<Rightarrow> victim_sel_policy \<Rightarrow> nat \<times> f2fs_sb_info" where
  "get_gc_cost sbi segno p =
    (if vp_alloc_mode p = SSR then (se_ckpt_valid_blocks (get_seg_entry sbi segno), sbi)
     else if vp_gc_mode p = GC_GREEDY then get_cat_cost sbi segno
     else get_cb_cost sbi segno)"

section \<open>The search\<close>

text \<open>The loop at the label \<open>next\<close>.\<close>

partial_function (option) check_bg_victims :: "f2fs_env \<Rightarrow> f2fs_sb_info \<Rightarrow> nat \<Rightarrow> (nat \<times> f2fs_sb_info) option" where
  "check_bg_victims E sbi hint =
    (let secno = find_next_bit E (dl_victim_secmap (DIRTY_I sbi)) (TOTAL_SECS sbi) hint
     in if secno < TOTAL_SECS sbi then
          if sec_usage_check sbi secno then check_bg_victims E sbi (u32 (hint + 1))
          else Some (u32 (secno * sbi_segs_per_sec sbi),
                 set_DIRTY_I ((DIRTY_I sbi)\<lparr>dl_victim_secmap := (dl_victim_secmap (DIRTY_I sbi))(secno := False)\<rparr>) sbi)
        else Some (NULL_SEGNO, sbi))"

definition next_offset :: "nat \<Rightarrow> nat \<Rightarrow> nat" where
  "next_offset ofs_unit segno =
    (let offset = u32 (segno + ofs_unit)
     in if 1 < ofs_unit then sub32 offset (segno mod ofs_unit) else offset)"

partial_function (option) victim_loop ::
  "f2fs_env \<Rightarrow> gc_type \<Rightarrow> nat \<Rightarrow> f2fs_sb_info \<Rightarrow> victim_sel_policy \<Rightarrow> nat \<Rightarrow> (f2fs_sb_info \<times> victim_sel_policy) option" where
  "victim_loop E gc_type max_cost sbi p nsearched =
    (let segno = find_next_bit E (vp_dirty_segmap p) (TOTAL_SEGS sbi) (vp_offset p)
     in if TOTAL_SEGS sbi \<le> segno then
          (if last_victim sbi (vp_gc_mode p) \<noteq> 0
           then victim_loop E gc_type max_cost (set_last_victim (vp_gc_mode p) 0 sbi) (p\<lparr>vp_offset := 0\<rparr>) nsearched
           else Some (sbi, p))
        else
          let p = p\<lparr>vp_offset := next_offset (vp_ofs_unit p) segno\<rparr>;
              secno = GET_SECNO sbi segno
          in if sec_usage_check sbi secno then victim_loop E gc_type max_cost sbi p nsearched
             else if gc_type = BG_GC \<and> dl_victim_secmap (DIRTY_I sbi) secno then victim_loop E gc_type max_cost sbi p nsearched
             else
               let (cost, sbi) = get_gc_cost sbi segno p
               in if \<not> cost < vp_min_cost p \<and> cost = max_cost then victim_loop E gc_type max_cost sbi p nsearched
                  else
                    let p = (if cost < vp_min_cost p then p\<lparr>vp_min_segno := segno, vp_min_cost := cost\<rparr> else p)
                    in if vp_max_search p \<le> nsearched then Some (set_last_victim (vp_gc_mode p) segno sbi, p)
                       else victim_loop E gc_type max_cost sbi p (nsearched + 1))"

text \<open>From the label \<open>got_it\<close>: the result, rounded down to the unit, and the section it marks.\<close>

definition got_victim :: "gc_type \<Rightarrow> victim_sel_policy \<Rightarrow> f2fs_sb_info \<Rightarrow> nat \<times> f2fs_sb_info" where
  "got_victim gc_type p sbi =
    (let secno = GET_SECNO sbi (vp_min_segno p);
         sbi = (if vp_alloc_mode p = LFS then
                  (if gc_type = FG_GC then sbi\<lparr>sbi_cur_victim_sec := secno\<rparr>
                   else set_DIRTY_I ((DIRTY_I sbi)\<lparr>dl_victim_secmap := (dl_victim_secmap (DIRTY_I sbi))(secno := True)\<rparr>) sbi)
                else sbi)
     in (u32 (vp_min_segno p div vp_ofs_unit p * vp_ofs_unit p), sbi))"

text \<open>The return value, the new \<open>*result\<close> and the new state.\<close>

definition get_victim_by_default ::
  "f2fs_env \<Rightarrow> f2fs_sb_info \<Rightarrow> nat \<Rightarrow> gc_type \<Rightarrow> nat \<Rightarrow> alloc_mode \<Rightarrow> (bool \<times> nat \<times> f2fs_sb_info) option" where
  "get_victim_by_default E sbi result gc_type type alloc_mode = do {
     let p = select_policy sbi gc_type type alloc_mode;
     let max_cost = get_max_cost sbi p;
     let p = p\<lparr>vp_min_segno := NULL_SEGNO, vp_min_cost := max_cost\<rparr>;
     (segno, sbi) \<leftarrow> (if alloc_mode = LFS \<and> gc_type = FG_GC then check_bg_victims E sbi 0
                     else Some (NULL_SEGNO, sbi));
     let p = p\<lparr>vp_min_segno := segno\<rparr>;
     (sbi, p) \<leftarrow> (if segno \<noteq> NULL_SEGNO then Some (sbi, p)
                 else victim_loop E gc_type max_cost sbi p 0);
     if vp_min_segno p \<noteq> NULL_SEGNO then
       let (result, sbi) = got_victim gc_type p sbi in Some (True, result, sbi)
     else Some (False, result, sbi) }"

end
