(* ===== verification/Gc_Search.thy ===== *)
theory Gc_Search
  imports Gc_Victim
begin

text \<open>
  The victim search terminates, returns only sections that may be cleaned, and, for SSR,
  the segment with the fewest valid blocks.  The proofs go through one rule for the loop
  of \<open>get_victim_by_default\<close> (\<open>victim_loop_rule\<close>): an invariant kept by its steps gives a
  result, with the postcondition of its exits.
\<close>

section \<open>What the costs leave alone\<close>

lemma set_last_victim_simps [simp]:
  "SM_I (set_last_victim m v sbi) = SM_I sbi" "SIT_I (set_last_victim m v sbi) = SIT_I sbi"
  "DIRTY_I (set_last_victim m v sbi) = DIRTY_I sbi" "FREE_I (set_last_victim m v sbi) = FREE_I sbi"
  "CURSEG_I (set_last_victim m v sbi) = CURSEG_I sbi"
  "sbi_segs_per_sec (set_last_victim m v sbi) = sbi_segs_per_sec sbi"
  "sbi_cur_victim_sec (set_last_victim m v sbi) = sbi_cur_victim_sec sbi"
  "TOTAL_SEGS (set_last_victim m v sbi) = TOTAL_SEGS sbi" "TOTAL_SECS (set_last_victim m v sbi) = TOTAL_SECS sbi"
  "last_victim (set_last_victim m v sbi) m = v"
  by (simp_all add: set_last_victim_def last_victim_def accessors TOTAL_SEGS_def TOTAL_SECS_def fun_eq_iff
      split: gc_mode.splits)

lemma set_last_victim_macros [simp]:
  "GET_SECNO (set_last_victim m v sbi) = GET_SECNO sbi"
  "sec_usage_check (set_last_victim m v sbi) = sec_usage_check sbi"
  "get_seg_entry (set_last_victim m v sbi) = get_seg_entry sbi"
  by (simp_all add: GET_SECNO_def sec_usage_check_def IS_CURSEC_def get_seg_entry_def fun_eq_iff)

lemma last_victim_set_SIT [simp]: "last_victim (set_SIT_I v sbi) = last_victim sbi"
  by (simp add: last_victim_def fun_eq_iff split: gc_mode.splits)

lemma sec_usage_check_set [simp]:
  "sec_usage_check (set_SIT_I v sbi) = sec_usage_check sbi"
  "sec_usage_check (set_DIRTY_I w sbi) = sec_usage_check sbi"
  by (simp_all add: sec_usage_check_def fun_eq_iff)

text \<open>Computing a cost writes the two times only.\<close>

definition times_frame :: "f2fs_sb_info \<Rightarrow> f2fs_sb_info \<Rightarrow> bool" where
  "times_frame sbi sbi' \<longleftrightarrow> (\<exists>a b. sbi' = set_SIT_I ((SIT_I sbi)\<lparr>sit_min_mtime := a, sit_max_mtime := b\<rparr>) sbi)"

lemma times_frame_refl [simp]: "times_frame sbi sbi"
proof -
  have "SIT_I sbi = (SIT_I sbi)\<lparr>sit_min_mtime := sit_min_mtime (SIT_I sbi), sit_max_mtime := sit_max_mtime (SIT_I sbi)\<rparr>"
    by simp
  moreover have "sbi = set_SIT_I (SIT_I sbi) sbi" by (simp add: setters accessors)
  ultimately show ?thesis unfolding times_frame_def by metis
qed

lemma widen_mtime_times: "times_frame sbi (set_SIT_I (widen_mtime t (SIT_I sbi)) sbi)"
proof -
  define S where "S = SIT_I sbi"
  have e: "S\<lparr>sit_min_mtime := a\<rparr> = S\<lparr>sit_min_mtime := a, sit_max_mtime := sit_max_mtime S\<rparr>"
    "S\<lparr>sit_max_mtime := b\<rparr> = S\<lparr>sit_min_mtime := sit_min_mtime S, sit_max_mtime := b\<rparr>"
    "S = S\<lparr>sit_min_mtime := sit_min_mtime S, sit_max_mtime := sit_max_mtime S\<rparr>" for a b
    by simp_all
  have "\<exists>a b. widen_mtime t S = S\<lparr>sit_min_mtime := a, sit_max_mtime := b\<rparr>"
  proof (cases "t < sit_min_mtime S"; cases "sit_max_mtime S < t")
    assume "t < sit_min_mtime S" "sit_max_mtime S < t"
    then have "widen_mtime t S = S\<lparr>sit_min_mtime := t, sit_max_mtime := t\<rparr>" by (simp add: widen_mtime_def)
    then show ?thesis by blast
  next
    assume "t < sit_min_mtime S" "\<not> sit_max_mtime S < t"
    then have "widen_mtime t S = S\<lparr>sit_min_mtime := t\<rparr>" by (simp add: widen_mtime_def)
    then show ?thesis using e(1) by metis
  next
    assume "\<not> t < sit_min_mtime S" "sit_max_mtime S < t"
    then have "widen_mtime t S = S\<lparr>sit_max_mtime := t\<rparr>" by (simp add: widen_mtime_def)
    then show ?thesis using e(2) by metis
  next
    assume "\<not> t < sit_min_mtime S" "\<not> sit_max_mtime S < t"
    then have "widen_mtime t S = S" by (simp add: widen_mtime_def)
    then show ?thesis using e(3) by metis
  qed
  then show ?thesis unfolding times_frame_def S_def by metis
qed

lemma get_gc_cost_frame:
  assumes "get_gc_cost sbi s p = (c, sbi')"
  shows "times_frame sbi sbi'"
proof -
  have "sbi' = sbi \<or> sbi' = set_SIT_I (widen_mtime (sec_mtime sbi s) (SIT_I sbi)) sbi"
    using assms by (simp add: get_gc_cost_def get_cat_cost_def get_cb_cost_def Let_def split: if_splits)
  then show ?thesis using widen_mtime_times times_frame_refl by blast
qed

lemma times_frameD:
  assumes "times_frame sbi sbi'"
  shows "TOTAL_SEGS sbi' = TOTAL_SEGS sbi" "TOTAL_SECS sbi' = TOTAL_SECS sbi" "DIRTY_I sbi' = DIRTY_I sbi"
    "FREE_I sbi' = FREE_I sbi" "CURSEG_I sbi' = CURSEG_I sbi" "GET_SECNO sbi' = GET_SECNO sbi"
    "sec_usage_check sbi' = sec_usage_check sbi" "last_victim sbi' = last_victim sbi"
    "get_seg_entry sbi' = get_seg_entry sbi" "sbi_segs_per_sec sbi' = sbi_segs_per_sec sbi"
    "sbi_cur_victim_sec sbi' = sbi_cur_victim_sec sbi"
  using assms by (auto simp: times_frame_def get_seg_entry_def fun_eq_iff)

section \<open>A rule for the loop\<close>

definition same_policy :: "victim_sel_policy \<Rightarrow> victim_sel_policy \<Rightarrow> bool" where
  "same_policy p q \<longleftrightarrow> vp_alloc_mode p = vp_alloc_mode q \<and> vp_gc_mode p = vp_gc_mode q
     \<and> vp_dirty_segmap p = vp_dirty_segmap q \<and> vp_max_search p = vp_max_search q \<and> vp_ofs_unit p = vp_ofs_unit q"

text \<open>A segment whose cost is computed.\<close>

definition candidate :: "gc_type \<Rightarrow> f2fs_sb_info \<Rightarrow> nat \<Rightarrow> bool" where
  "candidate gc_type sbi segno \<longleftrightarrow> \<not> sec_usage_check sbi (GET_SECNO sbi segno)
     \<and> \<not> (gc_type = BG_GC \<and> dl_victim_secmap (DIRTY_I sbi) (GET_SECNO sbi segno))"

definition take_if_less :: "nat \<Rightarrow> nat \<Rightarrow> victim_sel_policy \<Rightarrow> victim_sel_policy" where
  "take_if_less segno cost p =
     (if cost < vp_min_cost p then p\<lparr>vp_min_segno := segno, vp_min_cost := cost\<rparr> else p)"

lemma next_offset_greater:
  assumes "0 < ofs" and "s + ofs < 2 ^ 32"
  shows "s < next_offset ofs s"
proof -
  define r where "r = s mod ofs"
  have "r < ofs" using assms(1) by (simp add: r_def)
  then show ?thesis using assms by (auto simp: next_offset_def Let_def u32_id sub32_id r_def [symmetric])
qed

lemma next_offset_le: "s + ofs < 2 ^ 32 \<Longrightarrow> next_offset ofs s \<le> s + ofs"
proof -
  assume a: "s + ofs < 2 ^ 32"
  have "s mod ofs \<le> s + ofs" by (simp add: trans_le_add1)
  then show ?thesis using a by (auto simp: next_offset_def Let_def u32_id sub32_id)
qed

lemma victim_loop_step:
  fixes sbi :: f2fs_sb_info and p :: victim_sel_policy
  assumes "kernel_ok E"
  defines "s \<equiv> scan (vp_dirty_segmap p) (TOTAL_SEGS sbi) (vp_offset p)"
  defines "q \<equiv> p\<lparr>vp_offset := next_offset (vp_ofs_unit p) s\<rparr>"
  shows "TOTAL_SEGS sbi \<le> s \<Longrightarrow> victim_loop E gc_type max_cost sbi p ns =
      (if last_victim sbi (vp_gc_mode p) \<noteq> 0
       then victim_loop E gc_type max_cost (set_last_victim (vp_gc_mode p) 0 sbi) (p\<lparr>vp_offset := 0\<rparr>) ns
       else Some (sbi, p))"
    and "s < TOTAL_SEGS sbi \<Longrightarrow> \<not> candidate gc_type sbi s \<Longrightarrow> victim_loop E gc_type max_cost sbi p ns =
      victim_loop E gc_type max_cost sbi q ns"
    and "s < TOTAL_SEGS sbi \<Longrightarrow> candidate gc_type sbi s \<Longrightarrow> get_gc_cost sbi s p = (c, sbi') \<Longrightarrow>
      victim_loop E gc_type max_cost sbi p ns =
      (if \<not> c < vp_min_cost p \<and> c = max_cost then victim_loop E gc_type max_cost sbi' q ns
       else if vp_max_search p \<le> ns then Some (set_last_victim (vp_gc_mode p) s sbi', take_if_less s c q)
       else victim_loop E gc_type max_cost sbi' (take_if_less s c q) (ns + 1))"
proof -
  note step = victim_loop.simps [of E gc_type max_cost sbi p ns] and scan = find_next_bit_scan [OF assms(1)]
  have cost: "get_gc_cost sbi s q = get_gc_cost sbi s p" by (simp add: get_gc_cost_def q_def)
  have q: "vp_gc_mode q = vp_gc_mode p" "vp_min_cost q = vp_min_cost p" "vp_max_search q = vp_max_search p"
    by (simp_all add: q_def)
  show "TOTAL_SEGS sbi \<le> s \<Longrightarrow> victim_loop E gc_type max_cost sbi p ns =
      (if last_victim sbi (vp_gc_mode p) \<noteq> 0
       then victim_loop E gc_type max_cost (set_last_victim (vp_gc_mode p) 0 sbi) (p\<lparr>vp_offset := 0\<rparr>) ns
       else Some (sbi, p))"
    by (simp add: step scan s_def)
  show "s < TOTAL_SEGS sbi \<Longrightarrow> \<not> candidate gc_type sbi s \<Longrightarrow> victim_loop E gc_type max_cost sbi p ns =
      victim_loop E gc_type max_cost sbi q ns"
    unfolding step Let_def scan s_def [symmetric] q_def [symmetric] candidate_def by auto
  show "s < TOTAL_SEGS sbi \<Longrightarrow> candidate gc_type sbi s \<Longrightarrow> get_gc_cost sbi s p = (c, sbi') \<Longrightarrow>
      victim_loop E gc_type max_cost sbi p ns =
      (if \<not> c < vp_min_cost p \<and> c = max_cost then victim_loop E gc_type max_cost sbi' q ns
       else if vp_max_search p \<le> ns then Some (set_last_victim (vp_gc_mode p) s sbi', take_if_less s c q)
       else victim_loop E gc_type max_cost sbi' (take_if_less s c q) (ns + 1))"
    unfolding step Let_def scan s_def [symmetric] q_def [symmetric] candidate_def take_if_less_def
    by (auto simp: cost q)
qed

lemma victim_loop_rule:
  fixes I :: "f2fs_sb_info \<Rightarrow> victim_sel_policy \<Rightarrow> nat \<Rightarrow> bool" and Q :: "f2fs_sb_info \<Rightarrow> victim_sel_policy \<Rightarrow> bool"
  assumes K: "kernel_ok E" and ofs: "0 < vp_ofs_unit p0" "n + vp_ofs_unit p0 < 2 ^ 32"
    and wrap: "\<And>sbi p ns. I sbi p ns \<Longrightarrow> same_policy p0 p \<Longrightarrow> n \<le> scan (vp_dirty_segmap p0) n (vp_offset p) \<Longrightarrow>
      last_victim sbi (vp_gc_mode p0) \<noteq> 0 \<Longrightarrow> I (set_last_victim (vp_gc_mode p0) 0 sbi) (p\<lparr>vp_offset := 0\<rparr>) ns"
    and fin: "\<And>sbi p ns. I sbi p ns \<Longrightarrow> same_policy p0 p \<Longrightarrow> n \<le> scan (vp_dirty_segmap p0) n (vp_offset p) \<Longrightarrow>
      last_victim sbi (vp_gc_mode p0) = 0 \<Longrightarrow> Q sbi p"
    and skip: "\<And>sbi p ns s. I sbi p ns \<Longrightarrow> same_policy p0 p \<Longrightarrow> s = scan (vp_dirty_segmap p0) n (vp_offset p) \<Longrightarrow> s < n \<Longrightarrow>
      \<not> candidate gc_type sbi s \<Longrightarrow> I sbi (p\<lparr>vp_offset := next_offset (vp_ofs_unit p0) s\<rparr>) ns"
    and dear: "\<And>sbi p ns s c sbi'. I sbi p ns \<Longrightarrow> same_policy p0 p \<Longrightarrow> s = scan (vp_dirty_segmap p0) n (vp_offset p) \<Longrightarrow> s < n \<Longrightarrow>
      candidate gc_type sbi s \<Longrightarrow> get_gc_cost sbi s p = (c, sbi') \<Longrightarrow> \<not> c < vp_min_cost p \<Longrightarrow> c = max_cost \<Longrightarrow>
      I sbi' (p\<lparr>vp_offset := next_offset (vp_ofs_unit p0) s\<rparr>) ns"
    and count: "\<And>sbi p ns s c sbi'. I sbi p ns \<Longrightarrow> same_policy p0 p \<Longrightarrow> s = scan (vp_dirty_segmap p0) n (vp_offset p) \<Longrightarrow> s < n \<Longrightarrow>
      candidate gc_type sbi s \<Longrightarrow> get_gc_cost sbi s p = (c, sbi') \<Longrightarrow> c < vp_min_cost p \<or> c \<noteq> max_cost \<Longrightarrow> ns < vp_max_search p0 \<Longrightarrow>
      I sbi' (take_if_less s c (p\<lparr>vp_offset := next_offset (vp_ofs_unit p0) s\<rparr>)) (ns + 1)"
    and cut: "\<And>sbi p ns s c sbi'. I sbi p ns \<Longrightarrow> same_policy p0 p \<Longrightarrow> s = scan (vp_dirty_segmap p0) n (vp_offset p) \<Longrightarrow> s < n \<Longrightarrow>
      candidate gc_type sbi s \<Longrightarrow> get_gc_cost sbi s p = (c, sbi') \<Longrightarrow> c < vp_min_cost p \<or> c \<noteq> max_cost \<Longrightarrow> vp_max_search p0 \<le> ns \<Longrightarrow>
      Q (set_last_victim (vp_gc_mode p0) s sbi') (take_if_less s c (p\<lparr>vp_offset := next_offset (vp_ofs_unit p0) s\<rparr>))"
  shows "I sbi p ns \<Longrightarrow> same_policy p0 p \<Longrightarrow> TOTAL_SEGS sbi = n \<Longrightarrow>
    \<exists>sbi' p'. victim_loop E gc_type max_cost sbi p ns = Some (sbi', p') \<and> same_policy p0 p' \<and> Q sbi' p'"
proof (induction "(if last_victim sbi (vp_gc_mode p0) \<noteq> 0 then n + 1 else 0) + (n - vp_offset p)"
    arbitrary: sbi p ns rule: less_induct)
  case less
  note I = less.prems(1) and P = less.prems(2) and N = less.prems(3)
  have sp: "vp_dirty_segmap p = vp_dirty_segmap p0" "vp_gc_mode p = vp_gc_mode p0" "vp_ofs_unit p = vp_ofs_unit p0"
    "vp_max_search p = vp_max_search p0" using P by (auto simp: same_policy_def)
  define s where "s = scan (vp_dirty_segmap p0) n (vp_offset p)"
  note step = victim_loop_step [OF K, where p = p and sbi = sbi and ns = ns and gc_type = gc_type and max_cost = max_cost,
      unfolded sp N, folded s_def]
  let ?q = "p\<lparr>vp_offset := next_offset (vp_ofs_unit p0) s\<rparr>"
  have Pq: "same_policy p0 ?q" and Pt: "same_policy p0 (take_if_less s c ?q)"
    and P0: "same_policy p0 (p\<lparr>vp_offset := 0\<rparr>)" for c
    using P by (auto simp: same_policy_def take_if_less_def)
  have off: "vp_offset ?q = next_offset (vp_ofs_unit p0) s" "vp_offset (take_if_less s c ?q) = next_offset (vp_ofs_unit p0) s" for c
    by (auto simp: take_if_less_def)
  show ?case
  proof (cases "n \<le> s")
    case True
    show ?thesis
    proof (cases "last_victim sbi (vp_gc_mode p0) = 0")
      case True
      then show ?thesis using \<open>n \<le> s\<close> step(1) P fin [OF I P _ True] by (simp add: s_def)
    next
      case False
      have "I (set_last_victim (vp_gc_mode p0) 0 sbi) (p\<lparr>vp_offset := 0\<rparr>) ns"
        using wrap [OF I P _ False] \<open>n \<le> s\<close> by (simp add: s_def)
      then show ?thesis using step(1) \<open>n \<le> s\<close> False P0 N by (auto intro!: less.hyps)
    qed
  next
    case False
    then have sn: "s < n" by simp
    have "vp_offset p \<le> s" using scan_hit [of "vp_dirty_segmap p0" n "vp_offset p"] sn by (simp add: s_def)
    moreover have "s < next_offset (vp_ofs_unit p0) s" using ofs sn by (intro next_offset_greater) auto
    ultimately have dec: "n - next_offset (vp_ofs_unit p0) s < n - vp_offset p" using sn by linarith
    show ?thesis
    proof (cases "candidate gc_type sbi s")
      case False
      have "I sbi ?q ns" by (rule skip [OF I P s_def sn False])
      then show ?thesis using step(2) [OF sn False] Pq N dec by (auto intro!: less.hyps)
    next
      case True
      obtain c sbi' where c: "get_gc_cost sbi s p = (c, sbi')" by fastforce
      note fr = times_frameD [OF get_gc_cost_frame [OF c]]
      show ?thesis
      proof (cases "\<not> c < vp_min_cost p \<and> c = max_cost")
        case dear': True
        then have "I sbi' ?q ns" using dear [OF I P s_def sn True c] by blast
        then show ?thesis using step(3) [OF sn True c] dear' Pq N dec by (auto simp: fr intro!: less.hyps)
      next
        case False
        then have nd: "c < vp_min_cost p \<or> c \<noteq> max_cost" by blast
        show ?thesis
        proof (cases "vp_max_search p0 \<le> ns")
          case cut': True
          show ?thesis
            using step(3) [OF sn True c] False cut' cut [OF I P s_def sn True c nd cut'] Pt by (simp only: if_False if_True) blast
        next
          case more: False
          then have "I sbi' (take_if_less s c ?q) (ns + 1)"
            by (intro count [OF I P s_def sn True c nd]) simp
          moreover have "victim_loop E gc_type max_cost sbi p ns = victim_loop E gc_type max_cost sbi' (take_if_less s c ?q) (ns + 1)"
            using step(3) [OF sn True c] False more by (simp only: if_False)
          ultimately show ?thesis using Pt N dec off by (auto simp: fr intro!: less.hyps)
        qed
      qed
    qed
  qed
qed

end
