(* ===== verification/Gc_Correct.thy ===== *)
theory Gc_Correct
  imports Gc_Search
begin

text \<open>
  What the victim search returns: for cleaning, a section that has a dirty segment and is
  neither being written nor already chosen; for SSR, the dirty segment of the wanted type
  with the fewest blocks that are valid or still needed by the last checkpoint.
\<close>

section \<open>What the search leaves alone\<close>

definition search_frame :: "f2fs_sb_info \<Rightarrow> f2fs_sb_info \<Rightarrow> bool" where
  "search_frame a b \<longleftrightarrow> DIRTY_I b = DIRTY_I a \<and> FREE_I b = FREE_I a \<and> CURSEG_I b = CURSEG_I a
     \<and> GET_SECNO b = GET_SECNO a \<and> sec_usage_check b = sec_usage_check a
     \<and> TOTAL_SEGS b = TOTAL_SEGS a \<and> TOTAL_SECS b = TOTAL_SECS a \<and> get_seg_entry b = get_seg_entry a
     \<and> sbi_segs_per_sec b = sbi_segs_per_sec a"

lemma search_frame_refl [simp]: "search_frame a a"
  by (simp add: search_frame_def)

lemma search_frame_steps:
  "search_frame a b \<Longrightarrow> search_frame a (set_last_victim m v b)"
  "search_frame a b \<Longrightarrow> times_frame b c \<Longrightarrow> search_frame a c"
  using times_frameD [of b c] by (simp_all add: search_frame_def)

lemma candidate_search_frame: "search_frame a b \<Longrightarrow> candidate gc_type b = candidate gc_type a"
  by (simp add: search_frame_def candidate_def fun_eq_iff)

section \<open>Soundness\<close>

lemma take_if_less_min:
  "vp_min_segno (take_if_less s c p) = (if c < vp_min_cost p then s else vp_min_segno p)"
  "vp_min_cost (take_if_less s c p) = (if c < vp_min_cost p then c else vp_min_cost p)"
  by (simp_all add: take_if_less_def)

text \<open>The chosen segment, if any, is a candidate of the dirty map.\<close>

lemma victim_loop_sound:
  assumes K: "kernel_ok E" and ofs: "0 < vp_ofs_unit p" "TOTAL_SEGS sbi + vp_ofs_unit p < 2 ^ 32"
    and start: "vp_min_segno p = NULL_SEGNO"
  shows "\<exists>sbi' p'. victim_loop E gc_type max_cost sbi p ns = Some (sbi', p') \<and> same_policy p p' \<and> search_frame sbi sbi'
    \<and> (vp_min_segno p' \<noteq> NULL_SEGNO \<longrightarrow> vp_min_segno p' < TOTAL_SEGS sbi
        \<and> vp_dirty_segmap p (vp_min_segno p') \<and> candidate gc_type sbi (vp_min_segno p'))"
proof -
  let ?ok = "\<lambda>q. vp_min_segno q \<noteq> NULL_SEGNO \<longrightarrow> vp_min_segno q < TOTAL_SEGS sbi
        \<and> vp_dirty_segmap p (vp_min_segno q) \<and> candidate gc_type sbi (vp_min_segno q)"
  let ?I = "\<lambda>b q (n :: nat). search_frame sbi b \<and> ?ok q" and ?Q = "\<lambda>b q. search_frame sbi b \<and> ?ok q"
  have taken: "?ok (take_if_less s c (q\<lparr>vp_offset := x\<rparr>))"
    if "?ok q" "search_frame sbi b" "s = scan (vp_dirty_segmap p) (TOTAL_SEGS sbi) (vp_offset q)" "s < TOTAL_SEGS sbi"
      "candidate gc_type b s" for q b s c x
    using that scan_hit [of "vp_dirty_segmap p" "TOTAL_SEGS sbi" "vp_offset q"]
      candidate_search_frame [OF that(2), of gc_type] by (auto simp: take_if_less_min)
  have "\<exists>sbi' p'. victim_loop E gc_type max_cost sbi p ns = Some (sbi', p') \<and> same_policy p p' \<and> ?Q sbi' p'"
  proof (rule victim_loop_rule [OF K ofs, where I = ?I and Q = ?Q])
    show "?I sbi p ns" using start by simp
    show "same_policy p p" by (simp add: same_policy_def)
  qed (auto intro: search_frame_steps dest: get_gc_cost_frame simp: taken)
  then show ?thesis by blast
qed

lemma check_bg_victims_ok:
  assumes K: "kernel_ok E" and n: "TOTAL_SECS sbi < 2 ^ 32 - 1"
  shows "hint \<le> TOTAL_SECS sbi \<Longrightarrow> \<exists>r sbi'. check_bg_victims E sbi hint = Some (r, sbi') \<and>
    (r = NULL_SEGNO \<and> sbi' = sbi \<and>
       (\<forall>s<TOTAL_SECS sbi. hint \<le> s \<longrightarrow> dl_victim_secmap (DIRTY_I sbi) s \<longrightarrow> sec_usage_check sbi s)
     \<or> (\<exists>secno<TOTAL_SECS sbi. dl_victim_secmap (DIRTY_I sbi) secno \<and> \<not> sec_usage_check sbi secno
         \<and> r = u32 (secno * sbi_segs_per_sec sbi)
         \<and> sbi' = set_DIRTY_I ((DIRTY_I sbi)\<lparr>dl_victim_secmap := (dl_victim_secmap (DIRTY_I sbi))(secno := False)\<rparr>) sbi))"
proof (induction "TOTAL_SECS sbi - hint" arbitrary: hint rule: less_induct)
  case less
  let ?V = "dl_victim_secmap (DIRTY_I sbi)"
  define s where "s = scan ?V (TOTAL_SECS sbi) hint"
  note step = check_bg_victims.simps [of E sbi hint, unfolded find_next_bit_scan [OF K] s_def [symmetric] Let_def]
  show ?case
  proof (cases "s < TOTAL_SECS sbi")
    case False
    have "\<not> ?V i" if "hint \<le> i" "i < TOTAL_SECS sbi" for i
      using False scan_less_iff [of ?V "TOTAL_SECS sbi" hint] that by (auto simp: s_def)
    then show ?thesis using step False by auto
  next
    case True
    then have s: "?V s" "hint \<le> s" using scan_hit [of ?V "TOTAL_SECS sbi" hint] by (auto simp: s_def)
    show ?thesis
    proof (cases "sec_usage_check sbi s")
      case False
      then show ?thesis using step True s by auto
    next
      case used: True
      have u: "u32 (hint + 1) = hint + 1" using s(2) True n by (intro u32_id) simp
      have "i = s" if "?V i" "hint \<le> i" "\<not> hint + 1 \<le> i" for i
      proof -
        have "\<not> i < s" using that(1,2) scan_skip [of hint i ?V "TOTAL_SECS sbi"] by (auto simp: s_def)
        then show ?thesis using that(2,3) s(2) by linarith
      qed
      then have old: "sec_usage_check sbi i" if "?V i" "hint \<le> i" "\<not> hint + 1 \<le> i" for i
        using used that by blast
      have "TOTAL_SECS sbi - (hint + 1) < TOTAL_SECS sbi - hint" "hint + 1 \<le> TOTAL_SECS sbi" using s(2) True by auto
      from less.hyps [OF this] obtain r sbi' where r: "check_bg_victims E sbi (hint + 1) = Some (r, sbi')"
        "r = NULL_SEGNO \<and> sbi' = sbi \<and>
           (\<forall>s<TOTAL_SECS sbi. hint + 1 \<le> s \<longrightarrow> ?V s \<longrightarrow> sec_usage_check sbi s)
         \<or> (\<exists>secno<TOTAL_SECS sbi. ?V secno \<and> \<not> sec_usage_check sbi secno
             \<and> r = u32 (secno * sbi_segs_per_sec sbi)
             \<and> sbi' = set_DIRTY_I ((DIRTY_I sbi)\<lparr>dl_victim_secmap := ?V(secno := False)\<rparr>) sbi)" by blast
      have "check_bg_victims E sbi hint = Some (r, sbi')" using step True used u r(1) by simp
      then show ?thesis using r(2) old by (intro exI [of _ r] exI [of _ sbi']) blast
    qed
  qed
qed

text \<open>Background cleaning: the result is the start of a section that holds a dirty segment, is not
  in use and was not a victim before; it is one afterwards.\<close>

definition victim_section :: "f2fs_sb_info \<Rightarrow> nat \<Rightarrow> bool" where
  "victim_section sbi secno \<longleftrightarrow> secno < TOTAL_SECS sbi \<and> \<not> sec_usage_check sbi secno
     \<and> (\<exists>s<TOTAL_SEGS sbi. GET_SECNO sbi s = secno \<and> is_dirty sbi DIRTY s)"

lemma get_victim_bg:
  assumes K: "kernel_ok E" and g: "geometry sbi" and n: "TOTAL_SEGS sbi + sbi_segs_per_sec sbi < 2 ^ 32"
  shows "\<exists>found r sbi'. get_victim_by_default E sbi result BG_GC type LFS = Some (found, r, sbi')
    \<and> (if found then \<exists>secno. victim_section sbi secno \<and> \<not> dl_victim_secmap (DIRTY_I sbi) secno
          \<and> r = secno * sbi_segs_per_sec sbi
          \<and> dl_victim_secmap (DIRTY_I sbi') = (dl_victim_secmap (DIRTY_I sbi))(secno := True)
       else r = result)"
proof -
  define p where "p = (select_policy sbi BG_GC type LFS)\<lparr>
    vp_min_cost := get_max_cost sbi (select_policy sbi BG_GC type LFS), vp_min_segno := NULL_SEGNO\<rparr>"
  have p: "vp_ofs_unit p = sbi_segs_per_sec sbi" "vp_min_segno p = NULL_SEGNO" "vp_alloc_mode p = LFS"
    "vp_dirty_segmap p = dl_dirty_segmap (DIRTY_I sbi) ! DIRTY"
    by (simp_all add: p_def select_policy_def Let_def)
  have ofs: "0 < vp_ofs_unit p" using geometryD(3) [OF g] by (simp add: p)
  obtain sbi1 p' where r: "victim_loop E BG_GC (get_max_cost sbi (select_policy sbi BG_GC type LFS)) sbi p 0 = Some (sbi1, p')"
    "same_policy p p'" "search_frame sbi sbi1"
    "vp_min_segno p' \<noteq> NULL_SEGNO \<longrightarrow> vp_min_segno p' < TOTAL_SEGS sbi
        \<and> vp_dirty_segmap p (vp_min_segno p') \<and> candidate BG_GC sbi (vp_min_segno p')"
    using victim_loop_sound [OF K ofs _ p(2)] n p(1) by metis
  have body: "get_victim_by_default E sbi result BG_GC type LFS =
      (if vp_min_segno p' \<noteq> NULL_SEGNO then let (result, sbi) = got_victim BG_GC p' sbi1 in Some (True, result, sbi)
       else Some (False, result, sbi1))"
    using r(1) by (simp add: get_victim_by_default_def p_def Let_def)
  show ?thesis
  proof (cases "vp_min_segno p' = NULL_SEGNO")
    case True
    then show ?thesis using body by auto
  next
    case False
    let ?m = "vp_min_segno p'"
    let ?s = "GET_SECNO sbi ?m"
    have m: "?m < TOTAL_SEGS sbi" "is_dirty sbi DIRTY ?m" "\<not> sec_usage_check sbi ?s" "\<not> dl_victim_secmap (DIRTY_I sbi) ?s"
      using r(4) False by (auto simp: candidate_def is_dirty_def p)
    have t: "?s < TOTAL_SECS sbi" by (rule GET_SECNO_less [OF g m(1)])
    have pp: "vp_alloc_mode p' = LFS" "vp_ofs_unit p' = sbi_segs_per_sec sbi" using r(2) p by (auto simp: same_policy_def)
    have "?m div sbi_segs_per_sec sbi * sbi_segs_per_sec sbi \<le> ?m" by simp
    then have "u32 (?m div sbi_segs_per_sec sbi * sbi_segs_per_sec sbi) = ?s * sbi_segs_per_sec sbi"
      using m(1) n by (subst u32_id) (linarith, simp add: GET_SECNO_def)
    moreover have F: "DIRTY_I sbi1 = DIRTY_I sbi" "GET_SECNO sbi1 = GET_SECNO sbi" using r(3) by (auto simp: search_frame_def)
    ultimately have "get_victim_by_default E sbi result BG_GC type LFS = Some (True, ?s * sbi_segs_per_sec sbi,
        set_DIRTY_I ((DIRTY_I sbi)\<lparr>dl_victim_secmap := (dl_victim_secmap (DIRTY_I sbi))(?s := True)\<rparr>) sbi1)"
      using body False by (simp add: got_victim_def pp Let_def)
    then show ?thesis using m t by (auto simp: victim_section_def)
  qed
qed

text \<open>On-demand cleaning takes a section the background cleaner chose before, when one is not in use, and takes its mark away;
  the chosen section becomes \<open>cur_victim_sec\<close>.\<close>

definition bg_choice :: "f2fs_sb_info \<Rightarrow> nat \<Rightarrow> bool" where
  "bg_choice sbi secno \<longleftrightarrow> secno < TOTAL_SECS sbi \<and> dl_victim_secmap (DIRTY_I sbi) secno \<and> \<not> sec_usage_check sbi secno"

lemma get_victim_fg:
  assumes K: "kernel_ok E" and g: "geometry sbi" and n: "TOTAL_SEGS sbi + sbi_segs_per_sec sbi < 2 ^ 32"
  shows "\<exists>found r sbi'. get_victim_by_default E sbi result FG_GC type LFS = Some (found, r, sbi')
    \<and> (if \<exists>s. bg_choice sbi s
       then found \<and> (\<exists>secno. bg_choice sbi secno \<and> r = secno * sbi_segs_per_sec sbi \<and> sbi_cur_victim_sec sbi' = secno
          \<and> dl_victim_secmap (DIRTY_I sbi') = (dl_victim_secmap (DIRTY_I sbi))(secno := False))
       else DIRTY_I sbi' = DIRTY_I sbi
          \<and> (if found then \<exists>secno. victim_section sbi secno \<and> r = secno * sbi_segs_per_sec sbi \<and> sbi_cur_victim_sec sbi' = secno
             else r = result))"
proof -
  let ?k = "sbi_segs_per_sec sbi" and ?V = "dl_victim_secmap (DIRTY_I sbi)"
  have k: "0 < ?k" by (rule geometryD(3) [OF g])
  have "TOTAL_SECS sbi * 1 \<le> TOTAL_SECS sbi * ?k" using k by (intro mult_le_mono2) simp
  then have secs: "TOTAL_SECS sbi < 2 ^ 32 - 1" using n k unfolding geometryD(6) [OF g, symmetric] by simp
  have start: "s * ?k < TOTAL_SEGS sbi" "u32 (s * ?k) = s * ?k" "GET_SECNO sbi (s * ?k) = s" if "s < TOTAL_SECS sbi" for s
  proof -
    show l: "s * ?k < TOTAL_SEGS sbi" using that k unfolding geometryD(6) [OF g] by simp
    then show "u32 (s * ?k) = s * ?k" using n by (intro u32_id) linarith
    show "GET_SECNO sbi (s * ?k) = s" using k by (simp add: GET_SECNO_def)
  qed
  define p where "p = (select_policy sbi FG_GC type LFS)\<lparr>
    vp_min_cost := get_max_cost sbi (select_policy sbi FG_GC type LFS), vp_min_segno := NULL_SEGNO\<rparr>"
  have p: "vp_ofs_unit p = ?k" "vp_min_segno p = NULL_SEGNO" "vp_alloc_mode p = LFS"
    "vp_dirty_segmap p = dl_dirty_segmap (DIRTY_I sbi) ! DIRTY"
    by (simp_all add: p_def select_policy_def Let_def)
  obtain r0 sbi0 where bg: "check_bg_victims E sbi 0 = Some (r0, sbi0)"
    "r0 = NULL_SEGNO \<and> sbi0 = sbi \<and> (\<forall>s<TOTAL_SECS sbi. 0 \<le> s \<longrightarrow> ?V s \<longrightarrow> sec_usage_check sbi s)
     \<or> (\<exists>secno<TOTAL_SECS sbi. ?V secno \<and> \<not> sec_usage_check sbi secno \<and> r0 = u32 (secno * ?k)
         \<and> sbi0 = set_DIRTY_I ((DIRTY_I sbi)\<lparr>dl_victim_secmap := ?V(secno := False)\<rparr>) sbi)"
    using check_bg_victims_ok [OF K secs, of 0] by blast
  show ?thesis
  proof (cases "r0 = NULL_SEGNO")
    case False
    then obtain secno where s: "secno < TOTAL_SECS sbi" "?V secno" "\<not> sec_usage_check sbi secno" "r0 = secno * ?k"
      "sbi0 = set_DIRTY_I ((DIRTY_I sbi)\<lparr>dl_victim_secmap := ?V(secno := False)\<rparr>) sbi"
      using bg(2) start(2) by auto
    have "secno * ?k div vp_ofs_unit p * vp_ofs_unit p = secno * ?k" using k by (simp add: p)
    then have "get_victim_by_default E sbi result FG_GC type LFS = Some (True, secno * ?k, sbi0\<lparr>sbi_cur_victim_sec := secno\<rparr>)"
      using bg(1) False s start(2,3) [OF s(1)] p(1,3) k
      by (simp add: get_victim_by_default_def got_victim_def Let_def select_policy_def)
    moreover have b: "bg_choice sbi secno" using s(1-3) by (simp add: bg_choice_def)
    moreover have "dl_victim_secmap (DIRTY_I (sbi0\<lparr>sbi_cur_victim_sec := secno\<rparr>)) = ?V(secno := False)" by (simp add: s(5) accessors setters)
    ultimately have "get_victim_by_default E sbi result FG_GC type LFS = Some (True, secno * ?k, sbi0\<lparr>sbi_cur_victim_sec := secno\<rparr>)
      \<and> True \<and> (\<exists>x. bg_choice sbi x \<and> secno * ?k = x * ?k \<and> sbi_cur_victim_sec (sbi0\<lparr>sbi_cur_victim_sec := secno\<rparr>) = x
          \<and> dl_victim_secmap (DIRTY_I (sbi0\<lparr>sbi_cur_victim_sec := secno\<rparr>)) = ?V(x := False))"
      by (intro conjI exI [of _ secno]) simp_all
    moreover have "\<exists>s. bg_choice sbi s" using b by blast
    ultimately show ?thesis by (simp only: if_True) blast
  next
    case True
    have "NULL_SEGNO \<noteq> secno * ?k" if "secno < TOTAL_SECS sbi" for secno
      using start(1) [OF that] n k by (auto simp: NULL_SEGNO_def)
    then have none: "sbi0 = sbi" "\<not> (\<exists>s<TOTAL_SECS sbi. ?V s \<and> \<not> sec_usage_check sbi s)"
      using bg(2) True start(2) by auto
    then have nb: "\<not> (\<exists>s. bg_choice sbi s)" by (auto simp: bg_choice_def)
    obtain sbi1 p' where r: "victim_loop E FG_GC (get_max_cost sbi (select_policy sbi FG_GC type LFS)) sbi p 0 = Some (sbi1, p')"
      "same_policy p p'" "search_frame sbi sbi1"
      "vp_min_segno p' \<noteq> NULL_SEGNO \<longrightarrow> vp_min_segno p' < TOTAL_SEGS sbi
        \<and> vp_dirty_segmap p (vp_min_segno p') \<and> candidate FG_GC sbi (vp_min_segno p')"
      using victim_loop_sound [OF K _ _ p(2)] k n p(1) by metis
    have body: "get_victim_by_default E sbi result FG_GC type LFS =
      (if vp_min_segno p' \<noteq> NULL_SEGNO then let (result, sbi) = got_victim FG_GC p' sbi1 in Some (True, result, sbi)
       else Some (False, result, sbi1))"
      using r(1) bg(1) True none(1) by (simp add: get_victim_by_default_def p_def Let_def)
    show ?thesis
    proof (cases "vp_min_segno p' = NULL_SEGNO")
      case True
      moreover have "DIRTY_I sbi1 = DIRTY_I sbi" using r(3) by (simp add: search_frame_def)
      ultimately show ?thesis using body nb by (intro exI [of _ False] exI [of _ result] exI [of _ sbi1]) simp
    next
      case False
      let ?m = "vp_min_segno p'"
      let ?s = "GET_SECNO sbi ?m"
      have m: "?m < TOTAL_SEGS sbi" "is_dirty sbi DIRTY ?m" "\<not> sec_usage_check sbi ?s"
        using r(4) False by (auto simp: candidate_def is_dirty_def p)
      have t: "?s < TOTAL_SECS sbi" by (rule GET_SECNO_less [OF g m(1)])
      have pp: "vp_alloc_mode p' = LFS" "vp_ofs_unit p' = ?k" using r(2) p by (auto simp: same_policy_def)
      have F: "GET_SECNO sbi1 = GET_SECNO sbi" "DIRTY_I sbi1 = DIRTY_I sbi" using r(3) by (auto simp: search_frame_def)
      have "get_victim_by_default E sbi result FG_GC type LFS = Some (True, ?s * ?k, sbi1\<lparr>sbi_cur_victim_sec := ?s\<rparr>)"
        using body False start(2) [OF t] by (simp add: got_victim_def pp F Let_def GET_SECNO_def)
      moreover have "victim_section sbi ?s" using m t by (auto simp: victim_section_def)
      moreover have "DIRTY_I (sbi1\<lparr>sbi_cur_victim_sec := ?s\<rparr>) = DIRTY_I sbi" using F(2) by (simp add: accessors)
      ultimately show ?thesis using nb by (intro exI [of _ True] exI [of _ "?s * ?k"] exI [of _ "sbi1\<lparr>sbi_cur_victim_sec := ?s\<rparr>"]) auto
    qed
  qed
qed

section \<open>SSR: the segment with the fewest valid blocks\<close>

definition ssr_candidate :: "f2fs_sb_info \<Rightarrow> gc_type \<Rightarrow> nat \<Rightarrow> nat \<Rightarrow> bool" where
  "ssr_candidate sbi gc_type type s \<longleftrightarrow> s < TOTAL_SEGS sbi \<and> is_dirty sbi type s \<and> candidate gc_type sbi s"

lemma count_bits_mono_le: "a \<le> b \<Longrightarrow> count_bits a P \<le> count_bits b P"
  by (induction b) (auto simp: le_Suc_eq)

text \<open>
  The invariant of the search from offset \<open>k\<close>: the segments passed, in the first round from \<open>k\<close>
  and in the second one from 0, are no cheaper than the best one, and no more candidates
  were counted than were passed.
\<close>

definition ssr_seen :: "nat \<Rightarrow> nat \<Rightarrow> bool \<Rightarrow> nat \<Rightarrow> nat \<Rightarrow> bool" where
  "ssr_seen n k first off i \<longleftrightarrow> (if first then k \<le> i \<and> i < off else k \<le> i \<and> i < n \<or> i < off)"

definition ssr_best :: "f2fs_sb_info \<Rightarrow> (nat \<Rightarrow> bool) \<Rightarrow> nat \<Rightarrow> victim_sel_policy \<Rightarrow> bool" where
  "ssr_best s0 P mx p \<longleftrightarrow> vp_min_cost p \<le> mx \<and>
     (if vp_min_segno p = NULL_SEGNO then vp_min_cost p = mx
      else vp_min_segno p < TOTAL_SEGS s0 \<and> P (vp_min_segno p) \<and> vp_min_cost p < mx
        \<and> se_ckpt_valid_blocks (get_seg_entry s0 (vp_min_segno p)) = vp_min_cost p)"

definition ssr_counted :: "nat \<Rightarrow> (nat \<Rightarrow> bool) \<Rightarrow> nat \<Rightarrow> bool \<Rightarrow> nat \<Rightarrow> nat \<Rightarrow> bool" where
  "ssr_counted n P k first off ns \<longleftrightarrow> ns + count_bits (min k n) P \<le> (if first then 0 else count_bits n P) + count_bits (min off n) P"

definition no_cheaper :: "f2fs_sb_info \<Rightarrow> (nat \<Rightarrow> bool) \<Rightarrow> (nat \<Rightarrow> bool) \<Rightarrow> nat \<Rightarrow> bool" where
  "no_cheaper s0 P S c \<longleftrightarrow> (\<forall>i<TOTAL_SEGS s0. P i \<longrightarrow> S i \<longrightarrow> c \<le> se_ckpt_valid_blocks (get_seg_entry s0 i))"

definition ssr_inv :: "f2fs_sb_info \<Rightarrow> (nat \<Rightarrow> bool) \<Rightarrow> nat \<Rightarrow> gc_mode \<Rightarrow> nat \<Rightarrow> f2fs_sb_info \<Rightarrow> victim_sel_policy \<Rightarrow> nat \<Rightarrow> bool" where
  "ssr_inv s0 P k m mx sbi p ns \<longleftrightarrow> search_frame s0 sbi \<and> ssr_best s0 P mx p \<and> (last_victim sbi m \<noteq> 0 \<longrightarrow> k \<noteq> 0) \<and>
     (let first = (last_victim sbi m \<noteq> 0 \<or> k = 0) in
      (first \<longrightarrow> k \<le> vp_offset p) \<and>
      no_cheaper s0 P (ssr_seen (TOTAL_SEGS s0) k first (vp_offset p)) (vp_min_cost p) \<and>
      ssr_counted (TOTAL_SEGS s0) P k first (vp_offset p) ns)"

definition ssr_post :: "f2fs_sb_info \<Rightarrow> (nat \<Rightarrow> bool) \<Rightarrow> nat \<Rightarrow> victim_sel_policy \<Rightarrow> bool" where
  "ssr_post s0 P mx p \<longleftrightarrow> ssr_best s0 P mx p \<and> no_cheaper s0 P (\<lambda>_. True) (vp_min_cost p)"

text \<open>Passing segment \<open>s\<close>, the next one in the dirty map: what it does to the seen set and its count.\<close>

lemma ssr_seen_step:
  assumes "s = scan M n off" and "s < n" and "\<forall>i<n. P i \<longrightarrow> M i"
  shows "i < n \<Longrightarrow> P i \<Longrightarrow> (first \<longrightarrow> k \<le> off) \<Longrightarrow> ssr_seen n k first (s + 1) i \<longleftrightarrow> i = s \<or> ssr_seen n k first off i"
    and "count_bits (s + 1) P = count_bits (min off n) P + (if P s then 1 else 0)"
proof -
  have le: "off \<le> s" using scan_hit [of M n off] assms(1,2) by simp
  have gap: "\<not> P i" if "off \<le> i" "i < s" for i
    using scan_skip [of off i M n] assms that by (metis less_trans)
  show "i < n \<Longrightarrow> P i \<Longrightarrow> (first \<longrightarrow> k \<le> off) \<Longrightarrow> ssr_seen n k first (s + 1) i \<longleftrightarrow> i = s \<or> ssr_seen n k first off i"
    using le gap [of i] assms(2) by (cases "i < off"; cases i s rule: linorder_cases) (auto simp: ssr_seen_def)
  have "count_bits s P = count_bits off P + (if False then s - off else 0)"
    by (rule count_bits_run [OF le]) (use gap in auto)
  then show "count_bits (s + 1) P = count_bits (min off n) P + (if P s then 1 else 0)"
    using le assms(2) by (simp add: min_def)
qed

text \<open>One segment passed: not a candidate, or one whose cost is compared.\<close>

lemma ssr_pass:
  assumes s: "s = scan M n off" "s < n" and PM: "\<forall>i<n. P i \<longrightarrow> M i" and n: "n = TOTAL_SEGS s0"
    and old: "no_cheaper s0 P (ssr_seen n k first off) c" "first \<longrightarrow> k \<le> off" "ssr_counted n P k first off ns"
    and new: "c' \<le> c" "P s \<Longrightarrow> c' \<le> se_ckpt_valid_blocks (get_seg_entry s0 s)" "ns' \<le> ns + (if P s then 1 else 0)"
  shows "no_cheaper s0 P (ssr_seen n k first (s + 1)) c'" "first \<longrightarrow> k \<le> s + 1" "ssr_counted n P k first (s + 1) ns'"
proof -
  note step = ssr_seen_step [OF s PM]
  show "no_cheaper s0 P (ssr_seen n k first (s + 1)) c'"
    unfolding no_cheaper_def n [symmetric]
  proof (intro allI impI)
    fix i
    assume i: "i < n" "P i" "ssr_seen n k first (s + 1) i"
    show "c' \<le> se_ckpt_valid_blocks (get_seg_entry s0 i)"
    proof (cases "i = s")
      case False
      then have "ssr_seen n k first off i" using step(1) [OF i(1,2) old(2)] i(3) by blast
      then have "c \<le> se_ckpt_valid_blocks (get_seg_entry s0 i)" using old(1) i by (simp add: no_cheaper_def n)
      with new(1) show ?thesis by simp
    qed (use new(2) i in simp)
  qed
  show "first \<longrightarrow> k \<le> s + 1"
    using old(2) scan_hit [of M n off] s by auto
  have "min (s + 1) n = s + 1" using s(2) by simp
  then show "ssr_counted n P k first (s + 1) ns'"
    using old(3) new(3) unfolding ssr_counted_def by (simp only: step(2))
qed

text \<open>The bound on the number of counted candidates is only hit when all have been seen.\<close>

lemma ssr_cut_all:
  assumes s: "s = scan M n off" "s < n" and PM: "\<forall>i<n. P i \<longrightarrow> M i" and "P s"
    and "ssr_counted n P k first off ns" and "count_bits n P \<le> ns"
  shows "\<not> first \<and> k \<le> s"
proof -
  note step = ssr_seen_step(2) [OF s PM]
  have up: "count_bits (min off n) P + 1 = count_bits (s + 1) P" using step assms(4) by simp
  have "count_bits (s + 1) P \<le> count_bits n P" using s(2) by (intro count_bits_mono_le) simp
  with up assms(5,6) have nf: "\<not> first" by (auto simp: ssr_counted_def)
  have "k \<le> s"
  proof (rule ccontr)
    assume "\<not> k \<le> s"
    then have "count_bits (s + 1) P \<le> count_bits (min k n) P" using s(2) by (intro count_bits_mono_le) simp
    with up assms(5,6) nf show False by (auto simp: ssr_counted_def)
  qed
  with nf show ?thesis ..
qed

lemma ssr_best_take:
  assumes "ssr_best s0 P mx q" and "P s" and "s < TOTAL_SEGS s0" "TOTAL_SEGS s0 < 2 ^ 32 - 1"
    and "c = se_ckpt_valid_blocks (get_seg_entry s0 s)"
  shows "ssr_best s0 P mx (take_if_less s c q)" "vp_min_cost (take_if_less s c q) \<le> vp_min_cost q"
    "vp_min_cost (take_if_less s c q) \<le> c"
  using assms by (auto simp: ssr_best_def take_if_less_def NULL_SEGNO_def split: if_splits)

lemma ssr_search:
  assumes K: "kernel_ok E" and n: "TOTAL_SEGS sbi < 2 ^ 32 - 1"
    and p: "vp_alloc_mode p = SSR" "vp_ofs_unit p = 1" "vp_offset p = last_victim sbi (vp_gc_mode p)"
      "vp_min_segno p = NULL_SEGNO" "vp_min_cost p = mx"
    and P: "P = (\<lambda>i. vp_dirty_segmap p i \<and> candidate gc_type sbi i)"
    and search: "count_bits (TOTAL_SEGS sbi) P \<le> vp_max_search p"
  shows "\<exists>sbi' p'. victim_loop E gc_type mx sbi p 0 = Some (sbi', p') \<and> same_policy p p'
    \<and> search_frame sbi sbi' \<and> ssr_post sbi P mx p'"
proof -
  let ?n = "TOTAL_SEGS sbi" and ?M = "vp_dirty_segmap p" and ?k = "vp_offset p" and ?m = "vp_gc_mode p"
  let ?cost = "\<lambda>i. se_ckpt_valid_blocks (get_seg_entry sbi i)"
  let ?I = "ssr_inv sbi P ?k ?m mx" and ?Q = "\<lambda>b q. search_frame sbi b \<and> ssr_post sbi P mx q"
  let ?first = "\<lambda>b. last_victim b ?m \<noteq> 0 \<or> ?k = 0"
  have PM: "\<forall>i<?n. P i \<longrightarrow> ?M i" by (simp add: P)
  have nxt: "next_offset (vp_ofs_unit p) s = s + 1" if "s < ?n" for s
    using that n by (simp add: next_offset_def u32_id p(2))
  have costs: "c = ?cost s \<and> b' = b" if "get_gc_cost b s q = (c, b')" "same_policy p q" "search_frame sbi b" for b s q c b'
    using that p(1) by (auto simp: get_gc_cost_def same_policy_def search_frame_def)
  have cand: "P s \<longleftrightarrow> candidate gc_type b s" if "search_frame sbi b" "s = scan ?M ?n x" "s < ?n" for b s x
    using that scan_hit [of ?M ?n x] candidate_search_frame [OF that(1)] by (auto simp: P)
  have passed: "i < x" if "?n \<le> scan ?M ?n x" "i < ?n" "P i" for i x
    using that scan_less_iff [of ?M ?n x] PM by (meson not_le)
  have "\<exists>sbi' p'. victim_loop E gc_type mx sbi p 0 = Some (sbi', p') \<and> same_policy p p' \<and> ?Q sbi' p'"
  proof (rule victim_loop_rule [OF K, where I = ?I and Q = ?Q and n = ?n])
    show "0 < vp_ofs_unit p" "?n + vp_ofs_unit p < 2 ^ 32" using p(2) n by auto
    show "same_policy p p" by (simp add: same_policy_def)
    show "?I sbi p 0"
      using p by (auto simp: ssr_inv_def ssr_best_def no_cheaper_def ssr_seen_def ssr_counted_def Let_def)
  next
    fix b q ns
    assume I: "?I b q ns" and sp: "same_policy p q" and e: "?n \<le> scan ?M ?n (vp_offset q)" and l: "last_victim b ?m \<noteq> 0"
    have "count_bits (min (vp_offset q) ?n) P \<le> count_bits ?n P" by (rule count_bits_mono_le) simp
    then show "?I (set_last_victim ?m 0 b) (q\<lparr>vp_offset := 0\<rparr>) ns"
      using I l passed [OF e]
      by (auto simp: ssr_inv_def Let_def search_frame_steps(1) ssr_best_def no_cheaper_def ssr_seen_def ssr_counted_def)
  next
    fix b q ns
    assume I: "?I b q ns" and sp: "same_policy p q" and e: "?n \<le> scan ?M ?n (vp_offset q)" and l: "last_victim b ?m = 0"
    then show "?Q b q"
      using passed [OF e] by (auto simp: ssr_inv_def Let_def ssr_post_def no_cheaper_def ssr_seen_def)
  next
    fix b q ns s
    assume I: "?I b q ns" and sp: "same_policy p q" and s: "s = scan ?M ?n (vp_offset q)" "s < ?n"
      and nc: "\<not> candidate gc_type b s"
    have fr: "search_frame sbi b" using I by (simp add: ssr_inv_def)
    have "\<not> P s" using cand [OF fr s] nc by simp
    then show "?I b (q\<lparr>vp_offset := next_offset (vp_ofs_unit p) s\<rparr>) ns"
      using I ssr_pass [OF s PM refl, where k = ?k and first = "?first b" and c = "vp_min_cost q" and ns = ns and c' = "vp_min_cost q" and ns' = ns]
      by (auto simp: ssr_inv_def Let_def nxt [OF s(2)] ssr_best_def)
  next
    fix b q ns s c b'
    assume I: "?I b q ns" and sp: "same_policy p q" and s: "s = scan ?M ?n (vp_offset q)" "s < ?n"
      and cd: "candidate gc_type b s" and g: "get_gc_cost b s q = (c, b')" and c: "\<not> c < vp_min_cost q" "c = mx"
    have fr: "search_frame sbi b" using I by (simp add: ssr_inv_def)
    note cc = costs [OF g sp fr]
    show "?I b' (q\<lparr>vp_offset := next_offset (vp_ofs_unit p) s\<rparr>) ns"
      using I cc c ssr_pass [OF s PM refl, where k = ?k and first = "?first b" and c = "vp_min_cost q" and ns = ns and c' = "vp_min_cost q" and ns' = ns]
      by (auto simp: ssr_inv_def Let_def nxt [OF s(2)] ssr_best_def)
  next
    fix b q ns s c b'
    assume I: "?I b q ns" and sp: "same_policy p q" and s: "s = scan ?M ?n (vp_offset q)" "s < ?n"
      and cd: "candidate gc_type b s" and g: "get_gc_cost b s q = (c, b')"
    have fr: "search_frame sbi b" using I by (simp add: ssr_inv_def)
    note cc = costs [OF g sp fr]
    have Ps: "P s" using cand [OF fr s] cd by simp
    let ?q = "take_if_less s c (q\<lparr>vp_offset := next_offset (vp_ofs_unit p) s\<rparr>)"
    have off: "vp_offset ?q = s + 1" by (simp add: take_if_less_def nxt [OF s(2)])
    have best: "ssr_best sbi P mx (q\<lparr>vp_offset := next_offset (vp_ofs_unit p) s\<rparr>)"
      using I by (simp add: ssr_inv_def ssr_best_def)
    note T = ssr_best_take [OF best Ps s(2) n cc [THEN conjunct1]]
    have le: "vp_min_cost ?q \<le> vp_min_cost q" using T(2) by simp
    have old: "no_cheaper sbi P (ssr_seen ?n ?k (?first b) (vp_offset q)) (vp_min_cost q)"
      "?first b \<longrightarrow> ?k \<le> vp_offset q" "ssr_counted ?n P ?k (?first b) (vp_offset q) ns"
      using I by (auto simp: ssr_inv_def Let_def)
    have "vp_min_cost ?q \<le> se_ckpt_valid_blocks (get_seg_entry sbi s)" using T(3) cc by simp
    note new = ssr_pass [OF s PM refl old le this, where ns' = "ns + 1"]
    {
      show "?I b' ?q (ns + 1)" if "c < vp_min_cost q \<or> c \<noteq> mx" "ns < vp_max_search p"
        using I cc new Ps T(1) off by (auto simp: ssr_inv_def Let_def)
    next
      assume cut: "vp_max_search p \<le> ns"
      have nf: "\<not> ?first b" "?k \<le> s"
        using ssr_cut_all [OF s PM Ps old(3)] search cut by auto
      then have "ssr_seen ?n ?k (?first b) (s + 1) i" if "i < ?n" for i
        using that by (auto simp: ssr_seen_def)
      then have "no_cheaper sbi P (\<lambda>_. True) (vp_min_cost ?q)" using new(1) Ps by (auto simp: no_cheaper_def)
      then show "?Q (set_last_victim ?m s b') ?q"
        using T(1) fr cc by (simp add: ssr_post_def search_frame_steps(1))
    }
  qed simp
  then show ?thesis by blast
qed

text \<open>
  SSR returns a candidate of the wanted type with the fewest blocks that are valid or needed
  by the checkpoint, and nothing only when every candidate is full.
\<close>

lemma get_victim_ssr:
  assumes K: "kernel_ok E" and d: "dirty_ok sbi" and n: "TOTAL_SEGS sbi < 2 ^ 32 - 1"
    and t: "type < NR_CURSEG_TYPE" and mx: "count_bits (TOTAL_SEGS sbi) (is_dirty sbi type) \<le> sbi_max_victim_search sbi"
  shows "\<exists>found r sbi'. get_victim_by_default E sbi result gc_type type SSR = Some (found, r, sbi') \<and> search_frame sbi sbi'
    \<and> (if found then ssr_candidate sbi gc_type type r
            \<and> se_ckpt_valid_blocks (get_seg_entry sbi r) < 2 ^ sbi_log_blocks_per_seg sbi
            \<and> (\<forall>s. ssr_candidate sbi gc_type type s \<longrightarrow>
                  se_ckpt_valid_blocks (get_seg_entry sbi r) \<le> se_ckpt_valid_blocks (get_seg_entry sbi s))
       else r = result \<and> (\<forall>s. ssr_candidate sbi gc_type type s \<longrightarrow>
                  2 ^ sbi_log_blocks_per_seg sbi \<le> se_ckpt_valid_blocks (get_seg_entry sbi s)))"
proof -
  let ?mx = "2 ^ sbi_log_blocks_per_seg sbi" and ?n = "TOTAL_SEGS sbi"
  let ?P = "\<lambda>i. is_dirty sbi type i \<and> candidate gc_type sbi i"
  define p where "p = (select_policy sbi gc_type type SSR)\<lparr>
    vp_min_cost := get_max_cost sbi (select_policy sbi gc_type type SSR), vp_min_segno := NULL_SEGNO\<rparr>"
  have p: "vp_alloc_mode p = SSR" "vp_ofs_unit p = 1" "vp_offset p = last_victim sbi (vp_gc_mode p)"
    "vp_min_segno p = NULL_SEGNO" "vp_min_cost p = ?mx" "vp_dirty_segmap p = is_dirty sbi type"
    by (simp_all add: p_def select_policy_def get_max_cost_def Let_def is_dirty_def fun_eq_iff)
  have "is_dirty sbi type = dl_dirty_segmap (DIRTY_I sbi) ! type" by (simp add: is_dirty_def fun_eq_iff)
  then have "dl_nr_dirty (DIRTY_I sbi) ! type = int (count_bits ?n (is_dirty sbi type))"
    using d t by (simp add: dirty_ok_def lists_ok_def curseg_types dirty_types)
  moreover have "count_bits ?n (is_dirty sbi type) < 2 ^ 32" using count_bits_le [of ?n "is_dirty sbi type"] n by simp
  ultimately have "to_u32 (dl_nr_dirty (DIRTY_I sbi) ! type) = count_bits ?n (is_dirty sbi type)" by (simp add: to_u32_id)
  then have "vp_max_search p = count_bits ?n (is_dirty sbi type)" using mx by (simp add: p_def select_policy_def Let_def)
  then have search: "count_bits ?n ?P \<le> vp_max_search p" by (auto intro: count_bits_mono)
  obtain sbi1 p' where r: "victim_loop E gc_type ?mx sbi p 0 = Some (sbi1, p')" "same_policy p p'" "search_frame sbi sbi1"
    "ssr_post sbi ?P ?mx p'"
    using ssr_search [OF K n p(1-5) _ search] p(6) by (metis (no_types, lifting))
  have u: "vp_ofs_unit p' = 1" "vp_alloc_mode p' = SSR" using r(2) p(1,2) by (auto simp: same_policy_def)
  have "get_max_cost sbi (select_policy sbi gc_type type SSR) = ?mx"
    by (simp add: get_max_cost_def select_policy_def Let_def)
  then have body: "get_victim_by_default E sbi result gc_type type SSR =
      (if vp_min_segno p' \<noteq> NULL_SEGNO then let (result, sbi) = got_victim gc_type p' sbi1 in Some (True, result, sbi)
       else Some (False, result, sbi1))"
    using r(1) by (simp add: get_victim_by_default_def p_def Let_def)
  have none: "vp_min_segno p' = NULL_SEGNO \<Longrightarrow> vp_min_cost p' = ?mx"
    and some: "vp_min_segno p' \<noteq> NULL_SEGNO \<Longrightarrow> ssr_candidate sbi gc_type type (vp_min_segno p')
        \<and> vp_min_cost p' < ?mx \<and> se_ckpt_valid_blocks (get_seg_entry sbi (vp_min_segno p')) = vp_min_cost p'"
    and all: "\<And>s. ssr_candidate sbi gc_type type s \<Longrightarrow> vp_min_cost p' \<le> se_ckpt_valid_blocks (get_seg_entry sbi s)"
    using r(4) by (simp_all add: ssr_post_def ssr_best_def no_cheaper_def ssr_candidate_def)
  show ?thesis
  proof (cases "vp_min_segno p' = NULL_SEGNO")
    case True
    then have "get_victim_by_default E sbi result gc_type type SSR = Some (False, result, sbi1)"
      using body by simp
    moreover have "?mx \<le> se_ckpt_valid_blocks (get_seg_entry sbi s)" if "ssr_candidate sbi gc_type type s" for s
      using all [OF that] none [OF True] by simp
    ultimately show ?thesis using r(3) by (intro exI [of _ False] exI [of _ result] exI [of _ sbi1]) simp
  next
    case False
    note S = some [OF False]
    then have m: "vp_min_segno p' < ?n" by (simp add: ssr_candidate_def)
    then have "u32 (vp_min_segno p') = vp_min_segno p'" using n by (intro u32_id) simp
    then have "get_victim_by_default E sbi result gc_type type SSR = Some (True, vp_min_segno p', sbi1)"
      using body False u by (simp add: got_victim_def Let_def)
    moreover have "se_ckpt_valid_blocks (get_seg_entry sbi (vp_min_segno p')) \<le> se_ckpt_valid_blocks (get_seg_entry sbi s)"
      if "ssr_candidate sbi gc_type type s" for s
      using all [OF that] S by simp
    ultimately show ?thesis
      using r(3) S by (intro exI [of _ True] exI [of _ "vp_min_segno p'"] exI [of _ sbi1]) simp
  qed
qed

end
