(* ===== verification/Curseg.thy ===== *)
theory Curseg
  imports New_Segment Gc_Correct Space
begin

unbundle bit_operations_syntax

text \<open>
  The current segments of \<open>segment.c\<close>: where the next block of each log goes, how a log moves
  to a free segment (\<open>new_curseg\<close>) or to a dirty one with holes (\<open>change_curseg\<close>), and
  \<open>allocate_data_block\<close>, which gives a block an address.
\<close>

section \<open>Summary blocks\<close>

definition write_sum_page :: "f2fs_sb_info \<Rightarrow> f2fs_summary_block \<Rightarrow> nat \<Rightarrow> f2fs_sb_info" where
  "write_sum_page sbi sum_blk blk_addr = sbi\<lparr>sbi_meta_pages := (sbi_meta_pages sbi)(blk_addr := sum_blk)\<rparr>"

definition get_sum_page :: "f2fs_sb_info \<Rightarrow> nat \<Rightarrow> f2fs_summary_block" where
  "get_sum_page sbi segno = sbi_meta_pages sbi (GET_SUM_BLOCK sbi segno)"

definition add_sum_entry :: "f2fs_sb_info \<Rightarrow> nat \<Rightarrow> f2fs_summary \<Rightarrow> f2fs_sb_info" where
  "add_sum_entry sbi type summ =
    (let curseg = CURSEG_I sbi type
     in set_CURSEG_I type (curseg\<lparr>cs_sum_blk := (cs_sum_blk curseg)\<lparr>sb_entries :=
          (sb_entries (cs_sum_blk curseg))[cs_next_blkoff curseg := summ]\<rparr>\<rparr>) sbi)"

section \<open>Moving a log\<close>

definition is_next_segment_free :: "f2fs_sb_info \<Rightarrow> nat \<Rightarrow> bool" where
  "is_next_segment_free sbi type =
    (let segno = u32 (cs_segno (CURSEG_I sbi type) + 1)
     in if segno < TOTAL_SEGS sbi \<and> segno mod sbi_segs_per_sec sbi \<noteq> 0
        then \<not> fsm_free_segmap (FREE_I sbi) segno else False)"

definition reset_curseg :: "f2fs_env \<Rightarrow> f2fs_sb_info \<Rightarrow> nat \<Rightarrow> bool \<Rightarrow> f2fs_sb_info" where
  "reset_curseg E sbi type modified =
    (let curseg = CURSEG_I sbi type;
         curseg = curseg\<lparr>cs_segno := cs_next_segno curseg\<rparr>;
         curseg = curseg\<lparr>cs_zone := GET_ZONENO_FROM_SEGNO sbi (cs_segno curseg), cs_next_blkoff := 0,
                         cs_next_segno := NULL_SEGNO\<rparr>;
         sum_type = 0;
         sum_type = (if IS_DATASEG type then SUM_TYPE_DATA E else sum_type);
         sum_type = (if IS_NODESEG type then SUM_TYPE_NODE E else sum_type);
         curseg = curseg\<lparr>cs_sum_blk := (cs_sum_blk curseg)\<lparr>sb_entry_type := sum_type\<rparr>\<rparr>;
         sbi = set_CURSEG_I type curseg sbi
     in set_sit_entry_type sbi type (cs_segno curseg) modified)"

definition new_curseg :: "f2fs_env \<Rightarrow> f2fs_sb_info \<Rightarrow> nat \<Rightarrow> bool \<Rightarrow> f2fs_sb_info option" where
  "new_curseg E sbi type new_sec = do {
     let curseg = CURSEG_I sbi type;
     let segno = cs_segno curseg;
     let sbi = write_sum_page sbi (cs_sum_blk curseg) (GET_SUM_BLOCK sbi segno);
     let dir = (if type = CURSEG_WARM_DATA \<or> type = CURSEG_COLD_DATA then ALLOC_RIGHT else ALLOC_LEFT);
     let dir = (if sbi_opt_noheap sbi then ALLOC_RIGHT else dir);
     (segno, sbi) \<leftarrow> get_new_segment E sbi segno new_sec dir;
     let sbi = set_CURSEG_I type ((CURSEG_I sbi type)\<lparr>cs_next_segno := segno\<rparr>) sbi;
     let sbi = reset_curseg E sbi type True;
     Some (set_CURSEG_I type ((CURSEG_I sbi type)\<lparr>cs_alloc_type := LFS\<rparr>) sbi) }"

text \<open>\<open>target_map[i] = ckpt_map[i] | cur_map[i]\<close>.\<close>

definition target_map :: "f2fs_env \<Rightarrow> seg_entry \<Rightarrow> 64 word list" where
  "target_map E se = map (\<lambda>i. longs (se_ckpt_valid_map se) ! i OR longs (se_cur_valid_map se) ! i)
     [0..<SIT_VBLOCK_MAP_SIZE E div 8]"

definition next_free_blkoff :: "f2fs_env \<Rightarrow> f2fs_sb_info \<Rightarrow> curseg_info \<Rightarrow> nat \<Rightarrow> curseg_info" where
  "next_free_blkoff E sbi seg start =
    (let se = get_seg_entry sbi (cs_segno seg);
         pos = find_rev_next_zero_bit (target_map E se) (sbi_blocks_per_seg sbi) start
     in seg\<lparr>cs_next_blkoff := u16 pos\<rparr>)"

definition refresh_next_blkoff :: "f2fs_env \<Rightarrow> f2fs_sb_info \<Rightarrow> curseg_info \<Rightarrow> curseg_info" where
  "refresh_next_blkoff E sbi seg =
    (if cs_alloc_type seg = SSR then next_free_blkoff E sbi seg (cs_next_blkoff seg + 1)
     else seg\<lparr>cs_next_blkoff := u16 (cs_next_blkoff seg + 1)\<rparr>)"

definition change_curseg :: "f2fs_env \<Rightarrow> f2fs_sb_info \<Rightarrow> nat \<Rightarrow> bool \<Rightarrow> f2fs_sb_info" where
  "change_curseg E sbi type reuse =
    (let curseg = CURSEG_I sbi type;
         new_segno = cs_next_segno curseg;
         sbi = write_sum_page sbi (cs_sum_blk curseg) (GET_SUM_BLOCK sbi (cs_segno curseg));
         sbi = set_test_and_inuse sbi new_segno;
         sbi = do_remove_dirty_segment sbi new_segno PRE;
         sbi = do_remove_dirty_segment sbi new_segno DIRTY;
         sbi = reset_curseg E sbi type True;
         curseg = (CURSEG_I sbi type)\<lparr>cs_alloc_type := SSR\<rparr>;
         curseg = next_free_blkoff E sbi curseg 0;
         curseg = (if reuse then curseg\<lparr>cs_sum_blk := (cs_sum_blk curseg)\<lparr>sb_entries := sb_entries (get_sum_page sbi new_segno)\<rparr>\<rparr>
                   else curseg)
     in set_CURSEG_I type curseg sbi)"

text \<open>\<open>get_victim\<close> stores its result in \<open>next_segno\<close> of the log that asks.\<close>

definition ssr_victim :: "f2fs_env \<Rightarrow> f2fs_sb_info \<Rightarrow> nat \<Rightarrow> nat \<Rightarrow> (bool \<times> f2fs_sb_info) option" where
  "ssr_victim E sbi log type = do {
     (found, segno, sbi) \<leftarrow> get_victim_by_default E sbi (cs_next_segno (CURSEG_I sbi log)) BG_GC type SSR;
     Some (found, set_CURSEG_I log ((CURSEG_I sbi log)\<lparr>cs_next_segno := segno\<rparr>) sbi) }"

text \<open>\<open>for (; type >= CURSEG_HOT_DATA; type--)\<close>.\<close>

primrec ssr_data_victim :: "f2fs_env \<Rightarrow> nat \<Rightarrow> nat \<Rightarrow> f2fs_sb_info \<Rightarrow> (bool \<times> f2fs_sb_info) option" where
  "ssr_data_victim E log 0 sbi = ssr_victim E sbi log 0"
| "ssr_data_victim E log (Suc type) sbi = do {
     (found, sbi) \<leftarrow> ssr_victim E sbi log (Suc type);
     if found then Some (True, sbi) else ssr_data_victim E log type sbi }"

definition get_ssr_segment :: "f2fs_env \<Rightarrow> f2fs_sb_info \<Rightarrow> nat \<Rightarrow> (bool \<times> f2fs_sb_info) option" where
  "get_ssr_segment E sbi type =
    (if IS_NODESEG type \<or> \<not> has_not_enough_free_secs sbi 0 then ssr_victim E sbi type type
     else ssr_data_victim E type type sbi)"

definition allocate_segment_by_default :: "f2fs_env \<Rightarrow> f2fs_sb_info \<Rightarrow> nat \<Rightarrow> bool \<Rightarrow> f2fs_sb_info option" where
  "allocate_segment_by_default E sbi type force =
    (if force then new_curseg E sbi type True
     else if type = CURSEG_WARM_NODE then new_curseg E sbi type False
     else if cs_alloc_type (CURSEG_I sbi type) = LFS \<and> is_next_segment_free sbi type then new_curseg E sbi type False
     else do {
       (found, sbi) \<leftarrow> (if need_SSR sbi then get_ssr_segment E sbi type else Some (False, sbi));
       if found then Some (change_curseg E sbi type True)
       else new_curseg E sbi type False })"

fun allocate_new_segments_for :: "f2fs_env \<Rightarrow> nat list \<Rightarrow> f2fs_sb_info \<Rightarrow> f2fs_sb_info option" where
  "allocate_new_segments_for E [] sbi = Some sbi"
| "allocate_new_segments_for E (i # is) sbi = do {
     let old_curseg = cs_segno (CURSEG_I sbi i);
     sbi \<leftarrow> allocate_segment_by_default E sbi i True;
     allocate_new_segments_for E is (locate_dirty_segment sbi old_curseg) }"

definition allocate_new_segments :: "f2fs_env \<Rightarrow> f2fs_sb_info \<Rightarrow> f2fs_sb_info option" where
  "allocate_new_segments E sbi = allocate_new_segments_for E [CURSEG_HOT_DATA..<CURSEG_COLD_DATA + 1] sbi"

definition has_curseg_space :: "f2fs_sb_info \<Rightarrow> nat \<Rightarrow> bool" where
  "has_curseg_space sbi type \<longleftrightarrow> cs_next_blkoff (CURSEG_I sbi type) < sbi_blocks_per_seg sbi"

section \<open>Which log a page belongs to\<close>

datatype page_type = DATA | NODE | META

text \<open>What the classification looks at: a directory's page, a page or file marked cold, and for a
  node page whether it is a direct node and marked cold.\<close>

record page_info =
  pg_dir :: bool
  pg_cold_data :: bool
  pg_file_cold :: bool
  pg_dnode :: bool
  pg_cold_node :: bool

definition get_segment_type_2 :: "page_info \<Rightarrow> page_type \<Rightarrow> nat" where
  "get_segment_type_2 page p_type = (if p_type = DATA then CURSEG_HOT_DATA else CURSEG_HOT_NODE)"

definition get_segment_type_4 :: "page_info \<Rightarrow> page_type \<Rightarrow> nat" where
  "get_segment_type_4 page p_type =
    (if p_type = DATA then (if pg_dir page then CURSEG_HOT_DATA else CURSEG_COLD_DATA)
     else (if pg_dnode page \<and> \<not> pg_cold_node page then CURSEG_HOT_NODE else CURSEG_COLD_NODE))"

definition get_segment_type_6 :: "page_info \<Rightarrow> page_type \<Rightarrow> nat" where
  "get_segment_type_6 page p_type =
    (if p_type = DATA then
       (if pg_dir page then CURSEG_HOT_DATA
        else if pg_cold_data page \<or> pg_file_cold page then CURSEG_COLD_DATA
        else CURSEG_WARM_DATA)
     else
       (if pg_dnode page then (if pg_cold_node page then CURSEG_WARM_NODE else CURSEG_HOT_NODE)
        else CURSEG_COLD_NODE))"

definition get_segment_type :: "f2fs_env \<Rightarrow> f2fs_sb_info \<Rightarrow> page_info \<Rightarrow> page_type \<Rightarrow> nat option" where
  "get_segment_type E sbi page p_type =
    (if sbi_active_logs sbi = 2 then Some (get_segment_type_2 page p_type)
     else if sbi_active_logs sbi = 4 then Some (get_segment_type_4 page p_type)
     else do { f2fs_bug_on E (sbi_active_logs sbi \<noteq> NR_CURSEG_TYPE);
               Some (get_segment_type_6 page p_type) })"

section \<open>A block address\<close>

text \<open>The new address, the address of the next block written to the footer of a node page
  (\<open>has_page\<close>: a page is given), and the new state.\<close>

definition allocate_data_block ::
  "f2fs_env \<Rightarrow> f2fs_sb_info \<Rightarrow> bool \<Rightarrow> nat \<Rightarrow> f2fs_summary \<Rightarrow> nat \<Rightarrow> (nat \<times> nat option \<times> f2fs_sb_info) option" where
  "allocate_data_block E sbi has_page old_blkaddr summ type = do {
     let curseg = CURSEG_I sbi type;
     let new_blkaddr = NEXT_FREE_BLKADDR sbi curseg;
     let old_cursegno = cs_segno curseg;
     let sbi = add_sum_entry sbi type summ;
     let sbi = set_CURSEG_I type (refresh_next_blkoff E sbi (CURSEG_I sbi type)) sbi;
     sbi \<leftarrow> refresh_sit_entry E sbi old_blkaddr new_blkaddr;
     sbi \<leftarrow> (if \<not> has_curseg_space sbi type then allocate_segment_by_default E sbi type False else Some sbi);
     let sbi = locate_dirty_segment sbi old_cursegno;
     let sbi = locate_dirty_segment sbi (GET_SEGNO E sbi old_blkaddr);
     Some (new_blkaddr,
           (if has_page \<and> IS_NODESEG type then Some (NEXT_FREE_BLKADDR sbi (CURSEG_I sbi type)) else None), sbi) }"

end
