(* ===== verification/Curseg_Inv.thy ===== *)
theory Curseg_Inv
  imports Curseg
begin

text \<open>
  The invariant that ties the four parts of the segment manager together (\<open>fs_ok\<close>): each log
  has its own segment, which is in use and whose next block is not live; a segment that is
  free holds no live block.  Moving a log to another segment keeps it.
\<close>

section \<open>The invariant\<close>

text \<open>The next block of a log is inside its segment and dead; in LFS mode so are all that follow.\<close>

definition log_space :: "f2fs_sb_info \<Rightarrow> curseg_info \<Rightarrow> bool" where
  "log_space sbi c \<longleftrightarrow> cs_next_blkoff c < sbi_blocks_per_seg sbi \<and> \<not> live sbi (cs_segno c) (cs_next_blkoff c)
     \<and> (cs_alloc_type c = LFS \<longrightarrow>
          (\<forall>i. cs_next_blkoff c \<le> i \<and> i < sbi_blocks_per_seg sbi \<longrightarrow> \<not> live sbi (cs_segno c) i))"

definition log_seg :: "f2fs_sb_info \<Rightarrow> nat \<Rightarrow> nat" where
  "log_seg sbi t = cs_segno (CURSEG_I sbi t)"

text \<open>\<open>X\<close>: the log that may be without space, in the middle of an operation.\<close>

definition logs_ok :: "f2fs_sb_info \<Rightarrow> nat set \<Rightarrow> bool" where
  "logs_ok sbi X \<longleftrightarrow> length (sm_curseg_array (SM_I sbi)) = NR_CURSEG_TYPE \<and>
     (\<forall>t<NR_CURSEG_TYPE. log_seg sbi t < TOTAL_SEGS sbi \<and> seg_inuse sbi (log_seg sbi t)
        \<and> (t \<notin> X \<longrightarrow> log_space sbi (CURSEG_I sbi t))) \<and>
     (\<forall>s<NR_CURSEG_TYPE. \<forall>t<NR_CURSEG_TYPE. s \<noteq> t \<longrightarrow> log_seg sbi s \<noteq> log_seg sbi t)"

definition free_empty :: "f2fs_sb_info \<Rightarrow> bool" where
  "free_empty sbi \<longleftrightarrow> (\<forall>i<TOTAL_SEGS sbi. \<not> seg_inuse sbi i \<longrightarrow> vblocks sbi i = 0)"

definition fs_ok :: "f2fs_env \<Rightarrow> f2fs_sb_info \<Rightarrow> nat set \<Rightarrow> bool" where
  "fs_ok E sbi X \<longleftrightarrow> sit_ok E sbi \<and> free_ok sbi \<and> dirty_ok sbi \<and> logs_ok sbi X \<and> free_empty sbi
     \<and> 8 dvd sbi_blocks_per_seg sbi \<and> 8 dvd SIT_VBLOCK_MAP_SIZE E"

lemma fs_okD:
  assumes "fs_ok E sbi X"
  shows "sit_ok E sbi" "free_ok sbi" "dirty_ok sbi" "logs_ok sbi X" "free_empty sbi"
    "8 dvd sbi_blocks_per_seg sbi" "8 dvd SIT_VBLOCK_MAP_SIZE E" "geometry sbi" "addr_consts E"
  using assms by (auto simp: fs_ok_def dest: sit_okD(1,2))

lemma logs_okD:
  assumes "logs_ok sbi X"
  shows "length (sm_curseg_array (SM_I sbi)) = NR_CURSEG_TYPE"
    "t < NR_CURSEG_TYPE \<Longrightarrow> log_seg sbi t < TOTAL_SEGS sbi" "t < NR_CURSEG_TYPE \<Longrightarrow> seg_inuse sbi (log_seg sbi t)"
    "t < NR_CURSEG_TYPE \<Longrightarrow> t \<notin> X \<Longrightarrow> log_space sbi (CURSEG_I sbi t)"
    "s < NR_CURSEG_TYPE \<Longrightarrow> t < NR_CURSEG_TYPE \<Longrightarrow> s \<noteq> t \<Longrightarrow> log_seg sbi s \<noteq> log_seg sbi t"
  using assms by (auto simp: logs_ok_def)

text \<open>A segment without valid blocks has no live block.\<close>

lemma vblocks_0_live:
  assumes "sit_ok E sbi" and "i < TOTAL_SEGS sbi" and "vblocks sbi i = 0" and "b < sbi_blocks_per_seg sbi"
  shows "\<not> live sbi i b"
proof
  assume "live sbi i b"
  then have "0 < count_bits (sbi_blocks_per_seg sbi) (bits_of (se_cur_valid_map (get_seg_entry sbi i)))"
    using count_bits_pos [where P = "bits_of (se_cur_valid_map (get_seg_entry sbi i))", OF assms(4)] by (simp add: live_def)
  then show False using sit_okD(6) [OF assms(1,2)] assms(3) by (simp add: seg_ok_def vblocks_def)
qed

section \<open>Changes that the invariants do not see\<close>

lemma write_sum_page_simps [simp]:
  "SM_I (write_sum_page sbi s b) = SM_I sbi" "SIT_I (write_sum_page sbi s b) = SIT_I sbi"
  "FREE_I (write_sum_page sbi s b) = FREE_I sbi" "DIRTY_I (write_sum_page sbi s b) = DIRTY_I sbi"
  "CURSEG_I (write_sum_page sbi s b) = CURSEG_I sbi" "TOTAL_SEGS (write_sum_page sbi s b) = TOTAL_SEGS sbi"
  "TOTAL_SECS (write_sum_page sbi s b) = TOTAL_SECS sbi" "sbi_segs_per_sec (write_sum_page sbi s b) = sbi_segs_per_sec sbi"
  "sbi_secs_per_zone (write_sum_page sbi s b) = sbi_secs_per_zone sbi"
  "sbi_blocks_per_seg (write_sum_page sbi s b) = sbi_blocks_per_seg sbi"
  "geometry (write_sum_page sbi s b) = geometry sbi" "GET_SECNO (write_sum_page sbi s b) = GET_SECNO sbi"
  "IS_CURSEG (write_sum_page sbi s b) = IS_CURSEG sbi" "main_addr (write_sum_page sbi s b) = main_addr sbi"
  "GET_SEGNO E (write_sum_page sbi s b) = GET_SEGNO E sbi"
  by (simp_all add: write_sum_page_def accessors addr_macros geometry_def main_addr_def fun_eq_iff)

text \<open>The parts of \<open>fs_ok\<close> read the state through a few observers.\<close>

lemma free_ok_cong:
  assumes "FREE_I b = FREE_I a" "TOTAL_SEGS b = TOTAL_SEGS a" "TOTAL_SECS b = TOTAL_SECS a"
    "sbi_segs_per_sec b = sbi_segs_per_sec a"
  shows "free_ok b = free_ok a"
  using assms by (simp add: free_ok_def free_segments_def free_sections_def seg_inuse_def sec_inuse_def)

lemma dirty_ok_cong:
  assumes "DIRTY_I b = DIRTY_I a" "TOTAL_SEGS b = TOTAL_SEGS a" "types_ok b = types_ok a"
  shows "dirty_ok b = dirty_ok a"
  using assms by (simp add: dirty_ok_def)

lemma live_cong: "get_seg_entry b = get_seg_entry a \<Longrightarrow> live b = live a"
  by (simp add: live_def fun_eq_iff)

lemma vblocks_cong: "get_seg_entry b = get_seg_entry a \<Longrightarrow> vblocks b = vblocks a"
  by (simp add: vblocks_def fun_eq_iff)

lemma set_CURSEG_preds [simp]:
  "get_seg_entry (set_CURSEG_I t c sbi) = get_seg_entry sbi" "live (set_CURSEG_I t c sbi) = live sbi"
  "vblocks (set_CURSEG_I t c sbi) = vblocks sbi" "seg_inuse (set_CURSEG_I t c sbi) = seg_inuse sbi"
  "sit_ok E (set_CURSEG_I t c sbi) = sit_ok E sbi" "free_ok (set_CURSEG_I t c sbi) = free_ok sbi"
  "types_ok (set_CURSEG_I t c sbi) = types_ok sbi" "dirty_ok (set_CURSEG_I t c sbi) = dirty_ok sbi"
proof -
  show g: "get_seg_entry (set_CURSEG_I t c sbi) = get_seg_entry sbi" by (simp add: get_seg_entry_def fun_eq_iff)
  show "live (set_CURSEG_I t c sbi) = live sbi" by (rule live_cong [OF g])
  show "vblocks (set_CURSEG_I t c sbi) = vblocks sbi" by (rule vblocks_cong [OF g])
  show "seg_inuse (set_CURSEG_I t c sbi) = seg_inuse sbi" by (simp add: seg_inuse_def fun_eq_iff)
  show "sit_ok E (set_CURSEG_I t c sbi) = sit_ok E sbi" by (rule sit_ok_cong) simp_all
  show "free_ok (set_CURSEG_I t c sbi) = free_ok sbi" by (rule free_ok_cong) simp_all
  show ty: "types_ok (set_CURSEG_I t c sbi) = types_ok sbi" by (simp add: types_ok_def g)
  show "dirty_ok (set_CURSEG_I t c sbi) = dirty_ok sbi" by (rule dirty_ok_cong) (simp_all add: ty)
qed

lemma write_sum_preds [simp]:
  "get_seg_entry (write_sum_page sbi s b) = get_seg_entry sbi" "live (write_sum_page sbi s b) = live sbi"
  "vblocks (write_sum_page sbi s b) = vblocks sbi" "seg_inuse (write_sum_page sbi s b) = seg_inuse sbi"
  "sit_ok E (write_sum_page sbi s b) = sit_ok E sbi" "free_ok (write_sum_page sbi s b) = free_ok sbi"
  "types_ok (write_sum_page sbi s b) = types_ok sbi" "dirty_ok (write_sum_page sbi s b) = dirty_ok sbi"
  "logs_ok (write_sum_page sbi s b) X = logs_ok sbi X" "free_empty (write_sum_page sbi s b) = free_empty sbi"
  "fs_ok E (write_sum_page sbi s b) X = fs_ok E sbi X" "log_seg (write_sum_page sbi s b) = log_seg sbi"
proof -
  let ?w = "write_sum_page sbi s b"
  show g: "get_seg_entry ?w = get_seg_entry sbi" by (simp add: get_seg_entry_def fun_eq_iff)
  show l: "live ?w = live sbi" by (rule live_cong [OF g])
  show vb: "vblocks ?w = vblocks sbi" by (rule vblocks_cong [OF g])
  show si: "seg_inuse ?w = seg_inuse sbi" by (simp add: seg_inuse_def fun_eq_iff)
  show so: "sit_ok E ?w = sit_ok E sbi" by (rule sit_ok_cong) simp_all
  show fo: "free_ok ?w = free_ok sbi" by (rule free_ok_cong) simp_all
  show ty: "types_ok ?w = types_ok sbi" by (simp add: types_ok_def g)
  show dk: "dirty_ok ?w = dirty_ok sbi" by (rule dirty_ok_cong) (simp_all add: ty)
  show ls: "log_seg ?w = log_seg sbi" by (simp add: log_seg_def fun_eq_iff)
  show lo: "logs_ok ?w X = logs_ok sbi X" by (simp add: logs_ok_def log_space_def ls si l)
  show fe: "free_empty ?w = free_empty sbi" by (simp add: free_empty_def si vb)
  show "fs_ok E ?w X = fs_ok E sbi X" by (simp add: fs_ok_def so fo dk lo fe)
qed

section \<open>Setting the type of a segment\<close>

lemma set_sit_entry_type_ok:
  fixes sbi :: f2fs_sb_info and type segno :: nat
  assumes ok: "sit_ok E sbi" and seg: "segno < TOTAL_SEGS sbi"
  defines "sbi' \<equiv> set_sit_entry_type sbi type segno True"
  shows "sit_ok E sbi'" "sit_frame sbi sbi'" "live sbi' = live sbi" "vblocks sbi' = vblocks sbi"
    "\<And>i. se_ckpt_valid_map (get_seg_entry sbi' i) = se_ckpt_valid_map (get_seg_entry sbi i)"
    "\<And>i. se_type (get_seg_entry sbi' i) = (if i = segno then u8 type else se_type (get_seg_entry sbi i))"
proof -
  note D = sit_okD [OF ok]
  let ?se = "(get_seg_entry sbi segno)\<lparr>se_type := u8 type\<rparr>"
  define s1 where "s1 = set_seg_entry segno ?se sbi"
  have e: "sbi' = mark_sit_entry_dirty s1 segno" by (simp add: sbi'_def set_sit_entry_type_def s1_def)
  have fr1: "sit_frame sbi s1" by (simp add: s1_def set_seg_entry_def)
  show fr: "sit_frame sbi sbi'" unfolding e by (rule sit_frame_trans [OF fr1]) simp
  have ent: "sit_sentries (SIT_I sbi') = (sit_sentries (SIT_I sbi))[segno := ?se]"
    by (simp add: e s1_def set_seg_entry_def)
  have g: "get_seg_entry sbi' i = (if i = segno then ?se else get_seg_entry sbi i)" for i
    using D(5) seg by (simp add: get_seg_entry_def ent)
  show "live sbi' = live sbi" by (simp add: live_def g fun_eq_iff)
  show vb: "vblocks sbi' = vblocks sbi" by (simp add: vblocks_def g fun_eq_iff)
  show "se_ckpt_valid_map (get_seg_entry sbi' i) = se_ckpt_valid_map (get_seg_entry sbi i)" for i by (simp add: g)
  show "se_type (get_seg_entry sbi' i) = (if i = segno then u8 type else se_type (get_seg_entry sbi i))" for i by (simp add: g)
  have n: "TOTAL_SEGS sbi < 2 ^ 32" using TOTAL_SEGS_less [OF D(1)] by simp
  have s1: "sit_dirty_sentries (SIT_I s1) = sit_dirty_sentries (SIT_I sbi)"
    "sit_dirty_sentries_bitmap (SIT_I s1) = sit_dirty_sentries_bitmap (SIT_I sbi)"
    "sit_written_valid_blocks (SIT_I s1) = sit_written_valid_blocks (SIT_I sbi)"
    "sit_sec_entries (SIT_I s1) = sit_sec_entries (SIT_I sbi)"
    by (simp_all add: s1_def set_seg_entry_def)
  show "sit_ok E sbi'"
  proof (rule sit_ok_replace [OF ok seg fr ent])
    show "seg_ok E (sbi_blocks_per_seg sbi) ?se" using D(6) [OF seg] by (simp add: seg_ok_def)
    show "sit_written_valid_blocks (SIT_I sbi') + vblocks sbi segno = sit_written_valid_blocks (SIT_I sbi) + se_valid_blocks ?se"
      by (simp add: e s1 vblocks_def)
    show "sit_dirty_sentries (SIT_I sbi') = count_bits (TOTAL_SEGS sbi) (sit_dirty_sentries_bitmap (SIT_I sbi'))"
      unfolding e by (rule mark_dirty_count) (use D(8) seg n s1 in auto)
    show "\<exists>e. sit_sec_entries (SIT_I sbi') = (sit_sec_entries (SIT_I sbi))[GET_SECNO sbi segno := e]
      \<and> sec_valid_blocks e + vblocks sbi segno = sec_valid_blocks (get_sec_entry sbi segno) + se_valid_blocks ?se"
      by (intro exI [of _ "get_sec_entry sbi segno"]) (simp add: e s1 get_sec_entry_def vblocks_def)
  qed
qed

section \<open>Moving a log to a segment\<close>

text \<open>
  If the invariant holds but for log \<open>t\<close>, and \<open>t\<close> now is at a segment that is in use, that no
  other log has and with space, it holds.
\<close>

lemma logs_ok_move:
  assumes old: "logs_ok a X" "X \<subseteq> {t}" "t < NR_CURSEG_TYPE"
    and len: "length (sm_curseg_array (SM_I b)) = NR_CURSEG_TYPE"
    and others: "\<And>i. i \<noteq> t \<Longrightarrow> CURSEG_I b i = CURSEG_I a i"
    and same: "TOTAL_SEGS b = TOTAL_SEGS a" "sbi_blocks_per_seg b = sbi_blocks_per_seg a" "live b = live a"
    and inuse: "\<And>i. seg_inuse a i \<Longrightarrow> seg_inuse b i"
    and new: "log_seg b t < TOTAL_SEGS a" "seg_inuse b (log_seg b t)" "log_space b (CURSEG_I b t)"
      "\<And>i. i < NR_CURSEG_TYPE \<Longrightarrow> i \<noteq> t \<Longrightarrow> log_seg a i \<noteq> log_seg b t"
  shows "logs_ok b {}"
proof -
  note L = logs_okD [OF old(1)]
  have seg: "log_seg b i = log_seg a i" if "i \<noteq> t" for i using others [OF that] by (simp add: log_seg_def)
  have sp: "log_space b c = log_space a c" for c using same by (simp add: log_space_def)
  have "log_seg b i < TOTAL_SEGS b \<and> seg_inuse b (log_seg b i) \<and> log_space b (CURSEG_I b i)" if "i < NR_CURSEG_TYPE" for i
  proof (cases "i = t")
    case True
    then show ?thesis using new same by simp
  next
    case False
    moreover have "i \<notin> X" using False old(2) by blast
    ultimately show ?thesis using L(2,3,4) [OF that] inuse others same sp seg by simp
  qed
  moreover have "log_seg b i \<noteq> log_seg b j" if "i < NR_CURSEG_TYPE" "j < NR_CURSEG_TYPE" "i \<noteq> j" for i j
    using that L(5) [OF that] new(4) seg by (cases "i = t"; cases "j = t") (auto simp: eq_commute)
  ultimately show ?thesis using len by (simp add: logs_ok_def)
qed

lemma reset_curseg_eq:
  "reset_curseg E sbi type True = set_sit_entry_type (set_CURSEG_I type c sbi) type (cs_next_segno (CURSEG_I sbi type)) True"
  if "c = (CURSEG_I sbi type)\<lparr>cs_segno := cs_next_segno (CURSEG_I sbi type),
        cs_zone := GET_ZONENO_FROM_SEGNO sbi (cs_next_segno (CURSEG_I sbi type)), cs_next_blkoff := 0, cs_next_segno := NULL_SEGNO,
        cs_sum_blk := (cs_sum_blk (CURSEG_I sbi type))\<lparr>sb_entry_type :=
          (if IS_NODESEG type then SUM_TYPE_NODE E else if IS_DATASEG type then SUM_TYPE_DATA E else 0)\<rparr>\<rparr>"
  unfolding that reset_curseg_def Let_def by simp

end
