(* ===== verification/Compact_Sums.thy ===== *)
theory Compact_Sums
  imports Nat_Types Curseg_Inv
begin

text \<open>
  The summaries of the data logs in a checkpoint pack in their compact form (\<open>segment.c\<close>):
  the two journals and the used summary entries of the three logs packed one after the other
  into up to two pages, written by \<open>write_compacted_summaries\<close> and read back by
  \<open>read_compacted_summaries\<close> at mount.
\<close>

section \<open>Data\<close>

text \<open>Sizes of \<open>linux/f2fs_fs.h\<close>.\<close>

record sum_layout =
  PAGE_CACHE_SIZE :: nat
  SUM_JOURNAL_SIZE :: nat
  SUMMARY_SIZE :: nat
  SUM_FOOTER_SIZE :: nat

definition linux_sums :: sum_layout where
  "linux_sums = \<lparr> PAGE_CACHE_SIZE = 4096, SUM_JOURNAL_SIZE = 507, SUMMARY_SIZE = 7, SUM_FOOTER_SIZE = 5 \<rparr>"

text \<open>A page of the pack: the journals at its start (on the first page) and a summary at a byte offset.\<close>

record cp_page =
  cpp_nats :: "f2fs_nat_entry journal"
  cpp_sits :: "f2fs_sit_entry journal"
  cpp_sums :: "nat \<Rightarrow> f2fs_summary"

text \<open>What a mount reads of the superblock and the checkpoint block.\<close>

record f2fs_super_block =
  rsb_segment0_blkaddr :: nat
  rsb_cp_blkaddr :: nat
  rsb_sit_blkaddr :: nat
  rsb_ssa_blkaddr :: nat
  rsb_main_blkaddr :: nat
  rsb_segment_count :: nat
  rsb_segment_count_sit :: nat
  rsb_segment_count_main :: nat
  rsb_log_blocks_per_seg :: nat

record f2fs_checkpoint =
  ck_version :: nat
  ck_valid_block_count :: nat
  ck_rsvd_segment_count :: nat
  ck_overprov_segment_count :: nat
  ck_cur_data_segno :: "nat list"
  ck_cur_data_blkoff :: "nat list"
  ck_cur_node_segno :: "nat list"
  ck_cur_node_blkoff :: "nat list"
  ck_alloc_type :: "alloc_mode list"
  ck_umount :: bool
  ck_compact_sum :: bool
  ck_pack_total_block_count :: nat
  ck_pack_start_sum :: nat
  ck_elapsed_time :: nat
  ck_free_segment_count :: nat
  ck_valid_node_count :: nat
  ck_valid_inode_count :: nat
  ck_next_free_nid :: nat
  ck_orphan_present :: bool
  ck_error :: bool
  ck_sit_bitmap :: "8 word list"
  ck_nat_bitmap :: "8 word list"
  ck_checksum_offset :: nat

definition curseg_blkoff :: "f2fs_sb_info \<Rightarrow> nat \<Rightarrow> nat" where
  "curseg_blkoff sbi type = cs_next_blkoff (CURSEG_I sbi type)"

section \<open>Writing\<close>

definition npages_for_summary_flush :: "sum_layout \<Rightarrow> f2fs_checkpoint \<Rightarrow> f2fs_sb_info \<Rightarrow> nat" where
  "npages_for_summary_flush K ckpt sbi =
    (let valid_sum_count = (\<Sum>i\<leftarrow>[CURSEG_HOT_DATA..<CURSEG_COLD_DATA + 1].
           if ck_alloc_type ckpt ! i = SSR then sbi_blocks_per_seg sbi else curseg_blkoff sbi i);
         sum_in_page = (PAGE_CACHE_SIZE K - 2 * SUM_JOURNAL_SIZE K - SUM_FOOTER_SIZE K) div SUMMARY_SIZE K
     in if valid_sum_count \<le> sum_in_page then 1
        else if valid_sum_count - sum_in_page \<le> (PAGE_CACHE_SIZE K - SUM_FOOTER_SIZE K) div SUMMARY_SIZE K then 2
        else 3)"

text \<open>The writer: the pages, the address of the next one, the page it holds and how much of it is used.\<close>

record sum_writer =
  sw_pages :: "nat \<Rightarrow> cp_page"
  sw_blkaddr :: nat
  sw_page :: "nat option"
  sw_written :: nat

definition write_summary :: "sum_layout \<Rightarrow> f2fs_summary \<Rightarrow> sum_writer \<Rightarrow> sum_writer" where
  "write_summary K s w =
    (let w = (if sw_page w = None
              then w\<lparr>sw_page := Some (sw_blkaddr w), sw_blkaddr := u32 (sw_blkaddr w + 1), sw_written := 0\<rparr> else w);
         page = the (sw_page w);
         w = w\<lparr>sw_pages := (sw_pages w)(page := (sw_pages w page)\<lparr>cpp_sums := (cpp_sums (sw_pages w page))(sw_written w := s)\<rparr>),
               sw_written := sw_written w + SUMMARY_SIZE K\<rparr>
     in if sw_written w + SUMMARY_SIZE K \<le> PAGE_CACHE_SIZE K - SUM_FOOTER_SIZE K then w
        else w\<lparr>sw_page := None\<rparr>)"

definition log_summaries :: "f2fs_checkpoint \<Rightarrow> f2fs_sb_info \<Rightarrow> nat \<Rightarrow> f2fs_summary list" where
  "log_summaries ckpt sbi i =
    (let blkoff = (if ck_alloc_type ckpt ! i = SSR then sbi_blocks_per_seg sbi else curseg_blkoff sbi i)
     in map (\<lambda>j. sb_entries (cs_sum_blk (CURSEG_I sbi i)) ! j) [0..<blkoff])"

definition compact_writer ::
  "sum_layout \<Rightarrow> f2fs_checkpoint \<Rightarrow> f2fs_sb_info \<Rightarrow> f2fs_nat_entry journal \<Rightarrow> f2fs_sit_entry journal \<Rightarrow>
   (nat \<Rightarrow> cp_page) \<Rightarrow> nat \<Rightarrow> sum_writer" where
  "compact_writer K ckpt sbi nats sits pages blkaddr =
    (let w = \<lparr> sw_pages = pages(blkaddr := (pages blkaddr)\<lparr>cpp_nats := nats, cpp_sits := sits\<rparr>),
               sw_blkaddr = u32 (blkaddr + 1), sw_page = Some blkaddr, sw_written = 2 * SUM_JOURNAL_SIZE K \<rparr>
     in fold (\<lambda>i. fold (write_summary K) (log_summaries ckpt sbi i)) [CURSEG_HOT_DATA..<CURSEG_COLD_DATA + 1] w)"

definition write_compacted_summaries ::
  "sum_layout \<Rightarrow> f2fs_checkpoint \<Rightarrow> f2fs_sb_info \<Rightarrow> f2fs_nat_entry journal \<Rightarrow> f2fs_sit_entry journal \<Rightarrow>
   (nat \<Rightarrow> cp_page) \<Rightarrow> nat \<Rightarrow> (nat \<Rightarrow> cp_page)" where
  "write_compacted_summaries K ckpt sbi nats sits pages blkaddr = sw_pages (compact_writer K ckpt sbi nats sits pages blkaddr)"

section \<open>Reading\<close>

record sum_reader =
  sr_page :: nat
  sr_start :: nat
  sr_offset :: nat

definition read_summary :: "sum_layout \<Rightarrow> (nat \<Rightarrow> cp_page) \<Rightarrow> sum_reader \<Rightarrow> f2fs_summary \<times> sum_reader" where
  "read_summary K pages r =
    (let s = cpp_sums (pages (sr_page r)) (sr_offset r);
         r = r\<lparr>sr_offset := sr_offset r + SUMMARY_SIZE K\<rparr>
     in if sr_offset r + SUMMARY_SIZE K \<le> PAGE_CACHE_SIZE K - SUM_FOOTER_SIZE K then (s, r)
        else (s, r\<lparr>sr_page := sr_start r, sr_start := u32 (sr_start r + 1), sr_offset := 0\<rparr>))"

text \<open>\<open>entries[j] = *s\<close> for \<open>n\<close> entries from number \<open>j\<close>.\<close>

fun read_entries :: "sum_layout \<Rightarrow> (nat \<Rightarrow> cp_page) \<Rightarrow> nat \<Rightarrow> nat \<Rightarrow> f2fs_summary list \<Rightarrow> sum_reader \<Rightarrow> f2fs_summary list \<times> sum_reader" where
  "read_entries K pages j 0 entries r = (entries, r)"
| "read_entries K pages j (Suc n) entries r =
     (let (s, r) = read_summary K pages r in read_entries K pages (j + 1) n (entries[j := s]) r)"

definition read_log :: "f2fs_env \<Rightarrow> sum_layout \<Rightarrow> f2fs_checkpoint \<Rightarrow> (nat \<Rightarrow> cp_page) \<Rightarrow> nat \<Rightarrow> f2fs_sb_info \<times> sum_reader \<Rightarrow> f2fs_sb_info \<times> sum_reader" where
  "read_log E K ckpt pages i p =
    (let (sbi, r) = p;
         segno = ck_cur_data_segno ckpt ! i;
         blk_off = ck_cur_data_blkoff ckpt ! i;
         sbi = set_CURSEG_I i ((CURSEG_I sbi i)\<lparr>cs_next_segno := segno\<rparr>) sbi;
         sbi = reset_curseg E sbi i False;
         sbi = set_CURSEG_I i ((CURSEG_I sbi i)\<lparr>cs_alloc_type := ck_alloc_type ckpt ! i, cs_next_blkoff := blk_off\<rparr>) sbi;
         blk_off = (if cs_alloc_type (CURSEG_I sbi i) = SSR then sbi_blocks_per_seg sbi else blk_off);
         (entries, r) = read_entries K pages 0 blk_off (sb_entries (cs_sum_blk (CURSEG_I sbi i))) r;
         seg_i = CURSEG_I sbi i
     in (set_CURSEG_I i (seg_i\<lparr>cs_sum_blk := (cs_sum_blk seg_i)\<lparr>sb_entries := entries\<rparr>\<rparr>) sbi, r))"

definition read_compacted_summaries ::
  "f2fs_env \<Rightarrow> sum_layout \<Rightarrow> f2fs_checkpoint \<Rightarrow> (nat \<Rightarrow> cp_page) \<Rightarrow> nat \<Rightarrow> f2fs_sb_info \<Rightarrow>
   f2fs_nat_entry journal \<times> f2fs_sit_entry journal \<times> f2fs_sb_info" where
  "read_compacted_summaries E K ckpt pages start sbi =
    (let page = start;
         start = u32 (start + 1);
         r = \<lparr> sr_page = page, sr_start = start, sr_offset = 2 * SUM_JOURNAL_SIZE K \<rparr>;
         (sbi, r) = fold (read_log E K ckpt pages) [CURSEG_HOT_DATA..<CURSEG_COLD_DATA + 1] (sbi, r)
     in (cpp_nats (pages page), cpp_sits (pages page), sbi))"

section \<open>Positions\<close>

text \<open>The page (counted from the first) and the byte offset of the \<open>k\<close>-th summary.\<close>

definition sum_next :: "sum_layout \<Rightarrow> nat \<times> nat \<Rightarrow> nat \<times> nat" where
  "sum_next K p = (if snd p + SUMMARY_SIZE K + SUMMARY_SIZE K \<le> PAGE_CACHE_SIZE K - SUM_FOOTER_SIZE K
     then (fst p, snd p + SUMMARY_SIZE K) else (fst p + 1, 0))"

definition sum_pos :: "sum_layout \<Rightarrow> nat \<Rightarrow> nat \<times> nat" where
  "sum_pos K k = (sum_next K ^^ k) (0, 2 * SUM_JOURNAL_SIZE K)"

lemma sum_pos_simps [simp]:
  "sum_pos K 0 = (0, 2 * SUM_JOURNAL_SIZE K)" "sum_pos K (Suc k) = sum_next K (sum_pos K k)"
  by (simp_all add: sum_pos_def)

lemma sum_pos_step: "fst (sum_pos K k) \<le> fst (sum_pos K (Suc k))" "fst (sum_pos K (Suc k)) \<le> fst (sum_pos K k) + 1"
  by (simp_all add: sum_next_def)

lemma sum_pos_fst_mono: "i \<le> j \<Longrightarrow> fst (sum_pos K i) \<le> fst (sum_pos K j)"
  by (rule lift_Suc_mono_le [of "\<lambda>k. fst (sum_pos K k)"]) (rule sum_pos_step(1))

lemma sum_pos_less:
  assumes "0 < SUMMARY_SIZE K" and "i < j"
  shows "fst (sum_pos K i) < fst (sum_pos K j) \<or> fst (sum_pos K i) = fst (sum_pos K j) \<and> snd (sum_pos K i) < snd (sum_pos K j)"
  using assms(2)
proof (induction j)
  case (Suc j)
  have step: "fst (sum_pos K j) < fst (sum_pos K (Suc j)) \<or>
      fst (sum_pos K j) = fst (sum_pos K (Suc j)) \<and> snd (sum_pos K j) < snd (sum_pos K (Suc j))"
    using assms(1) by (simp add: sum_next_def)
  show ?case
  proof (cases "i = j")
    case False
    then show ?thesis using Suc step by (auto intro: less_trans)
  qed (use step in simp)
qed simp

lemma sum_pos_inj: "0 < SUMMARY_SIZE K \<Longrightarrow> sum_pos K i = sum_pos K j \<longleftrightarrow> i = j"
  using sum_pos_less [of K i j] sum_pos_less [of K j i] by (cases i j rule: linorder_cases) auto

text \<open>How many summaries the first page and the other ones take.\<close>

definition sums_first :: "sum_layout \<Rightarrow> nat" where
  "sums_first K = (PAGE_CACHE_SIZE K - 2 * SUM_JOURNAL_SIZE K - SUM_FOOTER_SIZE K) div SUMMARY_SIZE K"

definition sums_other :: "sum_layout \<Rightarrow> nat" where
  "sums_other K = (PAGE_CACHE_SIZE K - SUM_FOOTER_SIZE K) div SUMMARY_SIZE K"

definition sum_layout_ok :: "sum_layout \<Rightarrow> bool" where
  "sum_layout_ok K \<longleftrightarrow> 0 < SUMMARY_SIZE K \<and> 2 * SUM_JOURNAL_SIZE K + SUMMARY_SIZE K + SUM_FOOTER_SIZE K \<le> PAGE_CACHE_SIZE K"

lemma linux_sums_ok: "sum_layout_ok linux_sums"
  by (simp add: sum_layout_ok_def linux_sums_def)

lemma fits_iff:
  assumes "0 < (s :: nat)" and "o1 \<le> l"
  shows "o1 + k * s + s \<le> l \<longleftrightarrow> k < (l - o1) div s"
proof -
  have "k < (l - o1) div s \<longleftrightarrow> Suc k * s \<le> l - o1" using assms(1) by (simp only: Suc_le_eq [symmetric] less_eq_div_iff_mult_less_eq)
  then show ?thesis using assms(2) by auto
qed

lemma sum_pos_first:
  assumes "sum_layout_ok K"
  shows "k < sums_first K \<Longrightarrow> sum_pos K k = (0, 2 * SUM_JOURNAL_SIZE K + k * SUMMARY_SIZE K)"
    "sum_pos K (sums_first K) = (1, 0)"
proof -
  let ?l = "PAGE_CACHE_SIZE K - SUM_FOOTER_SIZE K" and ?o = "2 * SUM_JOURNAL_SIZE K"
  have s: "0 < SUMMARY_SIZE K" and l: "?o \<le> ?l" using assms unfolding sum_layout_ok_def by linarith+
  have n: "sums_first K = (?l - ?o) div SUMMARY_SIZE K" by (simp add: sums_first_def add.commute)
  have all: "k < sums_first K \<Longrightarrow> sum_pos K k = (0, ?o + k * SUMMARY_SIZE K)" for k
  proof (induction k)
    case (Suc k)
    then have "?o + Suc k * SUMMARY_SIZE K + SUMMARY_SIZE K \<le> ?l" using fits_iff [OF s l, of "Suc k"] by (simp add: n)
    then show ?case using Suc by (simp add: sum_next_def add.commute)
  qed simp
  then show "k < sums_first K \<Longrightarrow> sum_pos K k = (0, ?o + k * SUMMARY_SIZE K)" .
  have "?o + 0 * SUMMARY_SIZE K + SUMMARY_SIZE K \<le> ?l" using assms unfolding sum_layout_ok_def by linarith
  then have "0 < sums_first K" using fits_iff [OF s l, of 0] n by simp
  then obtain m where m: "sums_first K = Suc m" by (cases "sums_first K") auto
  have "\<not> ?o + Suc m * SUMMARY_SIZE K + SUMMARY_SIZE K \<le> ?l" using fits_iff [OF s l, of "Suc m"] m by (simp add: n)
  then show "sum_pos K (sums_first K) = (1, 0)" using all [of m] by (simp add: m sum_next_def add.commute)
qed

lemma sum_pos_second:
  assumes "sum_layout_ok K"
  shows "k < sums_other K \<Longrightarrow> sum_pos K (sums_first K + k) = (1, k * SUMMARY_SIZE K)"
proof (induction k)
  case 0
  then show ?case by (simp add: sum_pos_first(2) [OF assms])
next
  case (Suc k)
  let ?l = "PAGE_CACHE_SIZE K - SUM_FOOTER_SIZE K"
  have "0 < SUMMARY_SIZE K" using assms by (simp add: sum_layout_ok_def)
  from fits_iff [OF this, of 0 ?l "Suc k"] Suc.prems have "Suc k * SUMMARY_SIZE K + SUMMARY_SIZE K \<le> ?l"
    by (simp add: sums_other_def)
  then show ?case using Suc by (simp add: sum_next_def add.commute)
qed

section \<open>The writer and the reader at a position\<close>

definition writer_at :: "nat \<Rightarrow> nat \<times> nat \<Rightarrow> sum_writer \<Rightarrow> bool" where
  "writer_at a p w \<longleftrightarrow> sw_page w = Some (a + fst p) \<and> sw_written w = snd p \<and> sw_blkaddr w = a + fst p + 1
     \<or> sw_page w = None \<and> snd p = 0 \<and> sw_blkaddr w = a + fst p"

lemma write_summary_at:
  assumes "writer_at a p w" and "a + fst p + 1 < 2 ^ 32"
  shows "writer_at a (sum_next K p) (write_summary K s w)"
    "sw_pages (write_summary K s w) = (sw_pages w)(a + fst p :=
      (sw_pages w (a + fst p))\<lparr>cpp_sums := (cpp_sums (sw_pages w (a + fst p)))(snd p := s)\<rparr>)"
  using assms by (auto simp: writer_at_def write_summary_def sum_next_def Let_def u32_id)

definition reader_at :: "nat \<Rightarrow> nat \<times> nat \<Rightarrow> sum_reader \<Rightarrow> bool" where
  "reader_at a p r \<longleftrightarrow> sr_page r = a + fst p \<and> sr_offset r = snd p \<and> sr_start r = a + fst p + 1"

definition sum_at :: "(nat \<Rightarrow> cp_page) \<Rightarrow> nat \<Rightarrow> nat \<times> nat \<Rightarrow> f2fs_summary" where
  "sum_at pages a p = cpp_sums (pages (a + fst p)) (snd p)"

lemma read_summary_at:
  assumes "reader_at a p r" and "a + fst p + 2 < 2 ^ 32"
  shows "fst (read_summary K pages r) = sum_at pages a p" "reader_at a (sum_next K p) (snd (read_summary K pages r))"
  using assms by (auto simp: reader_at_def read_summary_def sum_next_def Let_def sum_at_def u32_id)

text \<open>Writing a list from position \<open>k\<close> on.\<close>

lemma write_list_at:
  assumes "0 < SUMMARY_SIZE K"
  shows "writer_at a (sum_pos K k) w \<Longrightarrow> a + fst (sum_pos K (k + length ss)) + 1 < 2 ^ 32 \<Longrightarrow>
    writer_at a (sum_pos K (k + length ss)) (fold (write_summary K) ss w)
    \<and> (\<forall>i<k. sum_at (sw_pages (fold (write_summary K) ss w)) a (sum_pos K i) = sum_at (sw_pages w) a (sum_pos K i))
    \<and> (\<forall>i<length ss. sum_at (sw_pages (fold (write_summary K) ss w)) a (sum_pos K (k + i)) = ss ! i)
    \<and> (\<forall>b. cpp_nats (sw_pages (fold (write_summary K) ss w) b) = cpp_nats (sw_pages w b)
         \<and> cpp_sits (sw_pages (fold (write_summary K) ss w) b) = cpp_sits (sw_pages w b))
    \<and> (\<forall>b. (\<forall>i<length ss. b \<noteq> a + fst (sum_pos K (k + i))) \<longrightarrow> sw_pages (fold (write_summary K) ss w) b = sw_pages w b)"
proof (induction ss arbitrary: k w)
  case Nil
  then show ?case by simp
next
  case (Cons s ss)
  let ?w = "write_summary K s w" and ?p = "sum_pos K k"
  have lt: "a + fst ?p + 1 < 2 ^ 32"
    using Cons.prems(2) sum_pos_fst_mono [of k "k + length (s # ss)" K] by simp
  note W = write_summary_at [OF Cons.prems(1) lt, of K s]
  have at: "writer_at a (sum_pos K (Suc k)) ?w" using W(1) by simp
  have "a + fst (sum_pos K (Suc k + length ss)) + 1 < 2 ^ 32" using Cons.prems(2) by simp
  note IH = Cons.IH [OF at this]
  have here: "sum_at (sw_pages ?w) a ?p = s" by (simp add: sum_at_def W(2))
  have other: "sum_at (sw_pages ?w) a (sum_pos K i) = sum_at (sw_pages w) a (sum_pos K i)" if "i < k" for i
  proof -
    have "sum_pos K i \<noteq> ?p" using sum_pos_inj [OF assms] that by simp
    then show ?thesis by (auto simp: sum_at_def W(2) prod_eq_iff)
  qed
  have "sum_at (sw_pages (fold (write_summary K) ss ?w)) a (sum_pos K (k + i)) = (s # ss) ! i" if "i < length (s # ss)" for i
  proof (cases i)
    case 0
    then show ?thesis using IH here by auto
  next
    case (Suc j)
    then show ?thesis using IH that by simp
  qed
  moreover have "sw_pages (fold (write_summary K) ss ?w) b = sw_pages w b"
    if "\<forall>i<length (s # ss). b \<noteq> a + fst (sum_pos K (k + i))" for b
  proof -
    have "b \<noteq> a + fst (sum_pos K (k + Suc i))" if "i < length ss" for i
      using \<open>\<forall>i<length (s # ss). _ i\<close> that by (metis length_Cons Suc_less_eq)
    moreover have "b \<noteq> a + fst ?p" using that [rule_format, of 0] by simp
    ultimately show ?thesis using IH by (simp add: W(2))
  qed
  moreover have "cpp_nats (sw_pages ?w b) = cpp_nats (sw_pages w b)" "cpp_sits (sw_pages ?w b) = cpp_sits (sw_pages w b)" for b
    by (simp_all add: W(2))
  ultimately show ?case using IH other by simp
qed

text \<open>Reading \<open>n\<close> summaries from position \<open>k\<close> on.\<close>

lemma read_entries_at:
  shows "reader_at a (sum_pos K k) r \<Longrightarrow> a + fst (sum_pos K (k + n)) + 2 < 2 ^ 32 \<Longrightarrow> j + n \<le> length entries \<Longrightarrow>
    reader_at a (sum_pos K (k + n)) (snd (read_entries K pages j n entries r))
    \<and> length (fst (read_entries K pages j n entries r)) = length entries
    \<and> (\<forall>i<length entries. fst (read_entries K pages j n entries r) ! i =
         (if j \<le> i \<and> i < j + n then sum_at pages a (sum_pos K (k + (i - j))) else entries ! i))"
proof (induction n arbitrary: j k entries r)
  case 0
  then show ?case by simp
next
  case (Suc n)
  have lt: "a + fst (sum_pos K k) + 2 < 2 ^ 32"
    using Suc.prems(2) sum_pos_fst_mono [of k "k + Suc n" K] by simp
  obtain s r1 where rs: "read_summary K pages r = (s, r1)" by (cases "read_summary K pages r")
  have R: "s = sum_at pages a (sum_pos K k)" "reader_at a (sum_pos K (Suc k)) r1"
    using read_summary_at [OF Suc.prems(1) lt, of K pages] by (simp_all add: rs)
  have "a + fst (sum_pos K (Suc k + n)) + 2 < 2 ^ 32" "j + 1 + n \<le> length (entries[j := s])" using Suc.prems(2,3) by simp_all
  note IH = Suc.IH [OF R(2) this]
  have run: "read_entries K pages j (Suc n) entries r = read_entries K pages (j + 1) n (entries[j := s]) r1" by (simp add: rs)
  have "(if j + 1 \<le> i \<and> i < j + 1 + n then sum_at pages a (sum_pos K (Suc k + (i - (j + 1)))) else entries[j := s] ! i) =
      (if j \<le> i \<and> i < j + Suc n then sum_at pages a (sum_pos K (k + (i - j))) else entries ! i)" if "i < length entries" for i
  proof (cases "i = j")
    case True
    then show ?thesis using R(1) that by simp
  next
    case False
    then have "j + 1 \<le> i \<Longrightarrow> Suc k + (i - (j + 1)) = k + (i - j)" by simp
    then show ?thesis using False by auto
  qed
  then show ?case unfolding run using IH by simp
qed

section \<open>The round trip\<close>

text \<open>A log set to a segment without marking its entry, as at mount.\<close>

lemma set_sit_entry_type_clean: "set_sit_entry_type sbi type segno False = set_seg_entry segno ((get_seg_entry sbi segno)\<lparr>se_type := u8 type\<rparr>) sbi"
  by (simp add: set_sit_entry_type_def)

lemma reset_curseg_mount:
  assumes "t < length (sm_curseg_array (SM_I sbi))"
  shows "CURSEG_I (reset_curseg E sbi t False) i = (if i = t then (CURSEG_I sbi t)\<lparr>cs_segno := cs_next_segno (CURSEG_I sbi t),
        cs_zone := GET_ZONENO_FROM_SEGNO sbi (cs_next_segno (CURSEG_I sbi t)), cs_next_blkoff := 0, cs_next_segno := NULL_SEGNO,
        cs_sum_blk := (cs_sum_blk (CURSEG_I sbi t))\<lparr>sb_entry_type :=
          (if IS_NODESEG t then SUM_TYPE_NODE E else if IS_DATASEG t then SUM_TYPE_DATA E else 0)\<rparr>\<rparr> else CURSEG_I sbi i)"
    "length (sm_curseg_array (SM_I (reset_curseg E sbi t False))) = length (sm_curseg_array (SM_I sbi))"
    "sbi_blocks_per_seg (reset_curseg E sbi t False) = sbi_blocks_per_seg sbi"
  using assms by (simp_all add: reset_curseg_def Let_def set_sit_entry_type_clean set_seg_entry_def CURSEG_I_set)

definition used_sums :: "f2fs_checkpoint \<Rightarrow> f2fs_sb_info \<Rightarrow> nat \<Rightarrow> nat" where
  "used_sums ckpt sbi i = (if ck_alloc_type ckpt ! i = SSR then sbi_blocks_per_seg sbi else ck_cur_data_blkoff ckpt ! i)"

lemma read_log_at:
  assumes u: "used_sums ckpt sbi i = u" and r: "reader_at a (sum_pos K k) r" and lt: "a + fst (sum_pos K (k + u)) + 2 < 2 ^ 32"
    and len: "i < length (sm_curseg_array (SM_I sbi))" "u \<le> length (sb_entries (cs_sum_blk (CURSEG_I sbi i)))"
    and run: "read_log E K ckpt pages i (sbi, r) = (sbi', r')"
  shows "reader_at a (sum_pos K (k + u)) r'"
    "cs_segno (CURSEG_I sbi' i) = ck_cur_data_segno ckpt ! i" "cs_next_blkoff (CURSEG_I sbi' i) = ck_cur_data_blkoff ckpt ! i"
    "cs_alloc_type (CURSEG_I sbi' i) = ck_alloc_type ckpt ! i"
    "\<And>j. j < u \<Longrightarrow> sb_entries (cs_sum_blk (CURSEG_I sbi' i)) ! j = sum_at pages a (sum_pos K (k + j))"
    "\<And>t. t \<noteq> i \<Longrightarrow> CURSEG_I sbi' t = CURSEG_I sbi t"
    "length (sm_curseg_array (SM_I sbi')) = length (sm_curseg_array (SM_I sbi))" "sbi_blocks_per_seg sbi' = sbi_blocks_per_seg sbi"
proof -
  define s1 where "s1 = set_CURSEG_I i ((CURSEG_I sbi i)\<lparr>cs_next_segno := ck_cur_data_segno ckpt ! i\<rparr>) sbi"
  define s2 where "s2 = reset_curseg E s1 i False"
  define s3 where "s3 = set_CURSEG_I i ((CURSEG_I s2 i)\<lparr>cs_alloc_type := ck_alloc_type ckpt ! i, cs_next_blkoff := ck_cur_data_blkoff ckpt ! i\<rparr>) s2"
  have l1: "length (sm_curseg_array (SM_I s1)) = length (sm_curseg_array (SM_I sbi))" "sbi_blocks_per_seg s1 = sbi_blocks_per_seg sbi"
    by (simp_all add: s1_def)
  have i1: "i < length (sm_curseg_array (SM_I s1))" using len(1) l1 by simp
  note R2 = reset_curseg_mount [OF i1, of E, folded s2_def]
  have l3: "length (sm_curseg_array (SM_I s3)) = length (sm_curseg_array (SM_I sbi))" "sbi_blocks_per_seg s3 = sbi_blocks_per_seg sbi"
    using R2(2,3) l1 by (simp_all add: s3_def)
  have c3: "cs_segno (CURSEG_I s3 i) = ck_cur_data_segno ckpt ! i" "cs_next_blkoff (CURSEG_I s3 i) = ck_cur_data_blkoff ckpt ! i"
    "cs_alloc_type (CURSEG_I s3 i) = ck_alloc_type ckpt ! i" "sb_entries (cs_sum_blk (CURSEG_I s3 i)) = sb_entries (cs_sum_blk (CURSEG_I sbi i))"
    using R2(1,2) len(1) l1 by (simp_all add: s3_def CURSEG_I_set s1_def)
  have o3: "CURSEG_I s3 t = CURSEG_I sbi t" if "t \<noteq> i" for t
    using R2(1) that by (simp add: s3_def CURSEG_I_set s1_def)
  obtain es r2 where e: "read_entries K pages 0 u (sb_entries (cs_sum_blk (CURSEG_I s3 i))) r = (es, r2)" by fastforce
  have "0 + u \<le> length (sb_entries (cs_sum_blk (CURSEG_I s3 i)))" using len(2) c3 by simp
  note RE = read_entries_at [OF r lt this, of pages, unfolded e]
  have "(if cs_alloc_type (CURSEG_I s3 i) = SSR then sbi_blocks_per_seg s3 else ck_cur_data_blkoff ckpt ! i) = u"
    using u by (auto simp: c3 l3 used_sums_def)
  then have run': "sbi' = set_CURSEG_I i ((CURSEG_I s3 i)\<lparr>cs_sum_blk := (cs_sum_blk (CURSEG_I s3 i))\<lparr>sb_entries := es\<rparr>\<rparr>) s3" "r' = r2"
    using run unfolding read_log_def Let_def prod.case s1_def [symmetric] s2_def [symmetric] s3_def [symmetric]
    by (simp_all add: e)
  show "reader_at a (sum_pos K (k + u)) r'" using RE by (simp add: run')
  show "cs_segno (CURSEG_I sbi' i) = ck_cur_data_segno ckpt ! i" "cs_next_blkoff (CURSEG_I sbi' i) = ck_cur_data_blkoff ckpt ! i"
    "cs_alloc_type (CURSEG_I sbi' i) = ck_alloc_type ckpt ! i"
    using len(1) by (simp_all add: run' CURSEG_I_set l3 c3)
  show "sb_entries (cs_sum_blk (CURSEG_I sbi' i)) ! j = sum_at pages a (sum_pos K (k + j))" if "j < u" for j
    using RE that len c3 by (simp add: run' CURSEG_I_set l3)
  show "CURSEG_I sbi' t = CURSEG_I sbi t" if "t \<noteq> i" for t
    using o3 that by (simp add: run' CURSEG_I_set)
  show "length (sm_curseg_array (SM_I sbi')) = length (sm_curseg_array (SM_I sbi))" "sbi_blocks_per_seg sbi' = sbi_blocks_per_seg sbi"
    by (simp_all add: run' l3)
qed

text \<open>The checkpoint block describes the data logs, as \<open>do_checkpoint\<close> stores them.\<close>

definition ckpt_of :: "f2fs_checkpoint \<Rightarrow> f2fs_sb_info \<Rightarrow> bool" where
  "ckpt_of ckpt sbi \<longleftrightarrow> (\<forall>i<3. ck_cur_data_segno ckpt ! i = cs_segno (CURSEG_I sbi i)
     \<and> ck_cur_data_blkoff ckpt ! i = cs_next_blkoff (CURSEG_I sbi i) \<and> ck_alloc_type ckpt ! i = cs_alloc_type (CURSEG_I sbi i))"

definition logs_shape :: "f2fs_sb_info \<Rightarrow> bool" where
  "logs_shape sbi \<longleftrightarrow> length (sm_curseg_array (SM_I sbi)) = NR_CURSEG_TYPE
     \<and> (\<forall>i<NR_CURSEG_TYPE. sbi_blocks_per_seg sbi \<le> length (sb_entries (cs_sum_blk (CURSEG_I sbi i))))"

lemma fold_lists: "fold (\<lambda>i. fold f (g i)) is w = fold f (concat (map g is)) w"
  by (induction "is" arbitrary: w) simp_all

lemma three_logs: "[CURSEG_HOT_DATA..<CURSEG_COLD_DATA + 1] = [0, 1, 2]"
  by (simp add: curseg_types upt_rec)

lemma compact_roundtrip:
  assumes K: "sum_layout_ok K" and ck: "ckpt_of ckpt sbi" and sh: "logs_shape sbi" "logs_shape sbi0"
    and bps: "sbi_blocks_per_seg sbi0 = sbi_blocks_per_seg sbi" "\<And>i. i < 3 \<Longrightarrow> cs_next_blkoff (CURSEG_I sbi i) \<le> sbi_blocks_per_seg sbi"
    and room: "a + 3 * sbi_blocks_per_seg sbi + 2 < 2 ^ 32"
    and r: "read_compacted_summaries E K ckpt (write_compacted_summaries K ckpt sbi nats sits pages a) a sbi0 = (nats', sits', sbi')"
  shows "nats' = nats" "sits' = sits"
    "\<And>i. i < 3 \<Longrightarrow> cs_segno (CURSEG_I sbi' i) = cs_segno (CURSEG_I sbi i) \<and> cs_next_blkoff (CURSEG_I sbi' i) = cs_next_blkoff (CURSEG_I sbi i)
       \<and> cs_alloc_type (CURSEG_I sbi' i) = cs_alloc_type (CURSEG_I sbi i)
       \<and> (\<forall>j<used_sums ckpt sbi i. sb_entries (cs_sum_blk (CURSEG_I sbi' i)) ! j = sb_entries (cs_sum_blk (CURSEG_I sbi i)) ! j)"
proof -
  let ?g = "log_summaries ckpt sbi" and ?u = "used_sums ckpt sbi"
  define ss where "ss = concat (map ?g [0, 1, 2])"
  have gl: "length (?g i) = ?u i" if "i < 3" for i
    using ck that by (simp add: log_summaries_def used_sums_def curseg_blkoff_def ckpt_of_def)
  have ub: "?u i \<le> sbi_blocks_per_seg sbi" if "i < 3" for i
    using ck bps(2) [OF that] that by (simp add: used_sums_def ckpt_of_def)
  have sl: "length ss = ?u 0 + ?u 1 + ?u 2" by (simp add: ss_def gl)
  have posb: "fst (sum_pos K k) \<le> k" for k
  proof (induction k)
    case (Suc k)
    then show ?case using sum_pos_step(2) [of K k] by linarith
  qed simp
  have lt: "a + fst (sum_pos K k) + 2 < 2 ^ 32" if "k \<le> length ss" for k
    using posb [of k] that sl ub [of 0] ub [of 1] ub [of 2] room by simp
  define w where "w = \<lparr> sw_pages = pages(a := (pages a)\<lparr>cpp_nats := nats, cpp_sits := sits\<rparr>),
               sw_blkaddr = u32 (a + 1), sw_page = Some a, sw_written = 2 * SUM_JOURNAL_SIZE K \<rparr>"
  define P where "P = write_compacted_summaries K ckpt sbi nats sits pages a"
  have P: "P = sw_pages (fold (write_summary K) ss w)"
    unfolding P_def write_compacted_summaries_def compact_writer_def three_logs fold_lists ss_def w_def Let_def by simp
  have s: "0 < SUMMARY_SIZE K" using K by (simp add: sum_layout_ok_def)
  have "writer_at a (sum_pos K 0) w" using room by (simp add: writer_at_def w_def u32_id)
  from write_list_at [OF s this, of ss] lt [of "length ss"]
  have W: "\<And>i. i < length ss \<Longrightarrow> sum_at P a (sum_pos K i) = ss ! i" "cpp_nats (P a) = nats" "cpp_sits (P a) = sits"
    unfolding P by (auto simp: w_def)
  define rd where "rd = \<lparr> sr_page = a, sr_start = u32 (a + 1), sr_offset = 2 * SUM_JOURNAL_SIZE K \<rparr>"
  have r0: "reader_at a (sum_pos K 0) rd" using room by (simp add: reader_at_def rd_def u32_id)
  obtain s1 r1 where e1: "read_log E K ckpt P 0 (sbi0, rd) = (s1, r1)" by fastforce
  obtain s2 r2 where e2: "read_log E K ckpt P 1 (s1, r1) = (s2, r2)" by fastforce
  obtain s3 r3 where e3: "read_log E K ckpt P 2 (s2, r2) = (s3, r3)" by fastforce
  have res: "nats' = cpp_nats (P a)" "sits' = cpp_sits (P a)" "sbi' = s3"
    using r unfolding read_compacted_summaries_def P_def [symmetric] Let_def rd_def [symmetric] three_logs
    by (simp_all add: e1 e2 e3 del: One_nat_def)
  show "nats' = nats" "sits' = sits" using res W by simp_all
  have us: "used_sums ckpt b i = ?u i" if "sbi_blocks_per_seg b = sbi_blocks_per_seg sbi" for b i
    using that by (simp add: used_sums_def)
  have len: "i < length (sm_curseg_array (SM_I b))" "?u i \<le> length (sb_entries (cs_sum_blk (CURSEG_I b i)))"
    if "i < 3" "length (sm_curseg_array (SM_I b)) = length (sm_curseg_array (SM_I sbi0))" "CURSEG_I b i = CURSEG_I sbi0 i" for b i
    using sh(2) ub [OF that(1)] bps(1) that by (auto simp: logs_shape_def curseg_types intro: order_trans)
  have b1: "a + fst (sum_pos K (0 + ?u 0)) + 2 < 2 ^ 32" using lt [of "?u 0"] sl by simp
  note L1 = read_log_at [OF us [OF bps(1)] r0 b1 len(1) [of 0 sbi0] len(2) [of 0 sbi0] e1, simplified]
  have bp1: "sbi_blocks_per_seg s1 = sbi_blocks_per_seg sbi" using L1(8) bps(1) by simp
  have b2: "a + fst (sum_pos K (?u 0 + ?u 1)) + 2 < 2 ^ 32" using lt [of "?u 0 + ?u 1"] sl by simp
  have c1: "CURSEG_I s1 1 = CURSEG_I sbi0 1" using L1(6) by simp
  note L2 = read_log_at [OF us [OF bp1] L1(1) b2 len(1) [OF _ L1(7) c1] len(2) [OF _ L1(7) c1] e2]
  have bp2: "sbi_blocks_per_seg s2 = sbi_blocks_per_seg sbi" using L2(8) bp1 by simp
  have b3: "a + fst (sum_pos K (?u 0 + ?u 1 + ?u 2)) + 2 < 2 ^ 32" using lt [of "length ss"] sl by simp
  have c2: "CURSEG_I s2 2 = CURSEG_I sbi0 2" "length (sm_curseg_array (SM_I s2)) = length (sm_curseg_array (SM_I sbi0))"
    using L1(6,7) L2(6,7) by simp_all
  note L3 = read_log_at [OF us [OF bp2] L2(1) b3 len(1) [OF _ c2(2,1)] len(2) [OF _ c2(2,1)] e3]
  have gn: "?g i ! j = sb_entries (cs_sum_blk (CURSEG_I sbi i)) ! j" if "i < 3" "j < ?u i" for i j
    using gl [OF that(1)] that(2) by (simp add: log_summaries_def)
  have nth: "j < ?u 0 \<Longrightarrow> ss ! j = ?g 0 ! j" "j < ?u 1 \<Longrightarrow> ss ! (?u 0 + j) = ?g 1 ! j"
    "j < ?u 2 \<Longrightarrow> ss ! (?u 0 + ?u 1 + j) = ?g 2 ! j" for j
    by (simp_all add: ss_def nth_append gl)
  have ck': "ck_cur_data_segno ckpt ! i = cs_segno (CURSEG_I sbi i)" "ck_cur_data_blkoff ckpt ! i = cs_next_blkoff (CURSEG_I sbi i)"
    "ck_alloc_type ckpt ! i = cs_alloc_type (CURSEG_I sbi i)" if "i < 3" for i
    using ck that by (simp_all add: ckpt_of_def)
  have C: "CURSEG_I sbi' 0 = CURSEG_I s1 0" "CURSEG_I sbi' 1 = CURSEG_I s2 1" "CURSEG_I sbi' 2 = CURSEG_I s3 2"
    using L2(6) L3(6) by (simp_all add: res)
  let ?same = "\<lambda>i. cs_segno (CURSEG_I sbi' i) = cs_segno (CURSEG_I sbi i) \<and> cs_next_blkoff (CURSEG_I sbi' i) = cs_next_blkoff (CURSEG_I sbi i)
       \<and> cs_alloc_type (CURSEG_I sbi' i) = cs_alloc_type (CURSEG_I sbi i)
       \<and> (\<forall>j<?u i. sb_entries (cs_sum_blk (CURSEG_I sbi' i)) ! j = sb_entries (cs_sum_blk (CURSEG_I sbi i)) ! j)"
  have "?same 0" unfolding C using L1(2-5) W(1) nth(1) gn [of 0] sl ck' [of 0] by simp
  moreover have "?same 1" unfolding C using L2(2-5) W(1) nth(2) gn [of 1] sl ck' [of 1] by simp
  moreover have "?same 2" unfolding C using L3(2-5) W(1) nth(3) gn [of 2] sl ck' [of 2] by simp
  moreover have "i = 0 \<or> i = 1 \<or> i = 2" if "i < 3" for i :: nat using that by auto
  ultimately show "?same i" if "i < 3" for i using that by (metis (no_types, lifting))
qed

text \<open>The writer uses the pages that were counted for it, all of them and no other.\<close>

lemma compact_shape:
  assumes K: "sum_layout_ok K" and room: "a + 3 < 2 ^ 32" and two: "npages_for_summary_flush K ckpt sbi < 3"
  shows "b < a \<or> a + npages_for_summary_flush K ckpt sbi \<le> b \<Longrightarrow> write_compacted_summaries K ckpt sbi nats sits pages a b = pages b"
    "sw_blkaddr (compact_writer K ckpt sbi nats sits pages a) = a + npages_for_summary_flush K ckpt sbi"
    "0 < npages_for_summary_flush K ckpt sbi"
proof -
  let ?g = "log_summaries ckpt sbi"
  define ss where "ss = concat (map ?g [0, 1, 2])"
  define w where "w = \<lparr> sw_pages = pages(a := (pages a)\<lparr>cpp_nats := nats, cpp_sits := sits\<rparr>),
               sw_blkaddr = u32 (a + 1), sw_page = Some a, sw_written = 2 * SUM_JOURNAL_SIZE K \<rparr>"
  have s: "0 < SUMMARY_SIZE K" using K by (simp add: sum_layout_ok_def)
  have N: "npages_for_summary_flush K ckpt sbi = (if length ss \<le> sums_first K then 1
      else if length ss - sums_first K \<le> sums_other K then 2 else 3)"
  proof -
    have "length ss = (\<Sum>i\<leftarrow>[0, 1, 2]. if ck_alloc_type ckpt ! i = SSR then sbi_blocks_per_seg sbi else curseg_blkoff sbi i)"
      by (simp add: ss_def log_summaries_def)
    then show ?thesis
      by (simp only: npages_for_summary_flush_def three_logs Let_def sums_first_def sums_other_def)
  qed
  then show n0: "0 < npages_for_summary_flush K ckpt sbi" by simp
  have f: "fst (sum_pos K k) = 0" if "k < sums_first K" for k using sum_pos_first(1) [OF K that] by simp
  have pg: "fst (sum_pos K k) < npages_for_summary_flush K ckpt sbi" if "k < length ss" for k
  proof (cases "k < sums_first K")
    case True
    then show ?thesis using f N by simp
  next
    case False
    then have "k - sums_first K < sums_other K" using that N two by (simp split: if_splits)
    from sum_pos_second [OF K this] False show ?thesis using that N by simp
  qed
  have "fst (sum_pos K (length ss)) \<le> 2"
  proof (cases "length ss")
    case (Suc k)
    then show ?thesis using pg [of k] sum_pos_step(2) [of K k] two by simp
  qed simp
  then have lt: "a + fst (sum_pos K (0 + length ss)) + 1 < 2 ^ 32" using room by simp
  have w0: "writer_at a (sum_pos K 0) w" using room by (simp add: writer_at_def w_def u32_id)
  note W = write_list_at [OF s w0 lt]
  have cw: "compact_writer K ckpt sbi nats sits pages a = fold (write_summary K) ss w"
    unfolding compact_writer_def three_logs fold_lists ss_def w_def Let_def by simp
  show "write_compacted_summaries K ckpt sbi nats sits pages a b = pages b" if b: "b < a \<or> a + npages_for_summary_flush K ckpt sbi \<le> b"
  proof -
    have "\<forall>i<length ss. b \<noteq> a + fst (sum_pos K (0 + i))" using pg b by fastforce
    then have "sw_pages (fold (write_summary K) ss w) b = sw_pages w b" using W by blast
    moreover have "b \<noteq> a" using b n0 by auto
    ultimately show ?thesis by (simp add: write_compacted_summaries_def cw w_def)
  qed
  show "sw_blkaddr (compact_writer K ckpt sbi nats sits pages a) = a + npages_for_summary_flush K ckpt sbi"
  proof (cases "ss = []")
    case True
    then show ?thesis using N room by (simp add: cw w_def u32_id)
  next
    case False
    let ?W = "fold (write_summary K) ss w" and ?p = "sum_pos K (length ss)"
    have at: "writer_at a ?p ?W" using W by simp
    have ne: "sw_page ?W = None \<or> 0 < sw_written ?W"
    proof -
      have "ss = butlast ss @ [last ss]" using False by simp
      then have "?W = write_summary K (last ss) (fold (write_summary K) (butlast ss) w)" by (metis fold_append fold_simps comp_apply)
      then show ?thesis using s by (auto simp: write_summary_def Let_def)
    qed
    obtain k where k: "length ss = Suc k" using False by (cases ss) auto
    consider "length ss < sums_first K" | "length ss = sums_first K" | "sums_first K < length ss" "length ss - sums_first K < sums_other K"
      | "sums_first K < length ss" "length ss - sums_first K = sums_other K"
      using N two by (cases "length ss" "sums_first K" rule: linorder_cases; cases "length ss - sums_first K" "sums_other K" rule: linorder_cases; simp)
    then show ?thesis
    proof cases
      case 1
      then have "?p = (0, 2 * SUM_JOURNAL_SIZE K + length ss * SUMMARY_SIZE K)" by (rule sum_pos_first(1) [OF K])
      then show ?thesis using at N 1 s False by (auto simp: writer_at_def cw)
    next
      case 2
      then have "?p = (1, 0)" using sum_pos_first(2) [OF K] by simp
      then show ?thesis using at N 2 ne by (auto simp: writer_at_def cw)
    next
      case 3
      then have "?p = (1, (length ss - sums_first K) * SUMMARY_SIZE K)" using sum_pos_second [OF K 3(2)] by simp
      then show ?thesis using at N 3 s by (auto simp: writer_at_def cw)
    next
      case 4
      then have "k - sums_first K < sums_other K" "sums_first K + (k - sums_first K) = k" using k by auto
      from sum_pos_second [OF K this(1)] this(2) have pk: "sum_pos K k = (1, (k - sums_first K) * SUMMARY_SIZE K)" by simp
      let ?l = "PAGE_CACHE_SIZE K - SUM_FOOTER_SIZE K"
      have "Suc (k - sums_first K) = sums_other K" using 4 k by auto
      then have "\<not> Suc (k - sums_first K) * SUMMARY_SIZE K + SUMMARY_SIZE K \<le> ?l"
        using fits_iff [OF s, of 0 ?l "Suc (k - sums_first K)"] by (simp add: sums_other_def)
      then have "?p = (2, 0)" using pk by (simp add: k sum_next_def add.commute)
      then show ?thesis using at N 4 ne by (auto simp: writer_at_def cw)
    qed
  qed
qed

lemmas compact_pages = compact_shape(1)

text \<open>What is written into a page depends on that page only.\<close>

lemma write_summary_fields:
  "sw_blkaddr w = sw_blkaddr w' \<Longrightarrow> sw_page w = sw_page w' \<Longrightarrow> sw_written w = sw_written w' \<Longrightarrow>
    sw_blkaddr (write_summary K s w) = sw_blkaddr (write_summary K s w') \<and> sw_page (write_summary K s w) = sw_page (write_summary K s w')
    \<and> sw_written (write_summary K s w) = sw_written (write_summary K s w')"
  by (simp add: write_summary_def Let_def)

lemma write_summary_pages:
  "sw_pages (write_summary K s w) b = (case sw_page w of
       None \<Rightarrow> if b = sw_blkaddr w then (sw_pages w b)\<lparr>cpp_sums := (cpp_sums (sw_pages w b))(0 := s)\<rparr> else sw_pages w b
     | Some p \<Rightarrow> if b = p then (sw_pages w b)\<lparr>cpp_sums := (cpp_sums (sw_pages w b))(sw_written w := s)\<rparr> else sw_pages w b)"
  by (simp add: write_summary_def Let_def split: option.split)

lemma write_summary_local:
  assumes "sw_pages w b = sw_pages w' b" and "sw_blkaddr w = sw_blkaddr w'" "sw_page w = sw_page w'" "sw_written w = sw_written w'"
  shows "sw_pages (write_summary K s w) b = sw_pages (write_summary K s w') b"
  unfolding write_summary_pages assms ..

lemma write_list_local:
  assumes "sw_pages w b = sw_pages w' b" and "sw_blkaddr w = sw_blkaddr w'" "sw_page w = sw_page w'" "sw_written w = sw_written w'"
  shows "sw_pages (fold (write_summary K) ss w) b = sw_pages (fold (write_summary K) ss w') b"
  using assms
proof (induction ss arbitrary: w w')
  case (Cons s ss)
  show ?case
    using Cons.IH [OF write_summary_local [OF Cons.prems]] write_summary_fields [OF Cons.prems(2-4)] by simp
qed simp

lemma compact_local:
  assumes "pages b = pages' b"
  shows "write_compacted_summaries K ckpt sbi nats sits pages a b = write_compacted_summaries K ckpt sbi nats sits pages' a b"
  unfolding write_compacted_summaries_def compact_writer_def fold_lists Let_def by (rule write_list_local) (use assms in auto)

end
