(* ===== verification/Mount.thy ===== *)
theory Mount
  imports Sit_Build Compact_Sums Discard Node_Store
begin

text \<open>
  Building the segment manager at mount (\<open>build_segment_manager\<close> of \<open>segment.c\<close>): the logs are put back
  where the checkpoint left them, the segment information table is read, and from it the
  bitmaps of free segments and the lists of dirty segments are made.  What comes out has the
  invariant \<open>fs_ok\<close> that all operations of the segment manager keep.
\<close>

section \<open>Restoring the logs\<close>

text \<open>The numbers of \<open>asm-generic/errno-base.h\<close>, for the functions that return an \<open>int\<close>.\<close>

definition errno_code :: "errno \<Rightarrow> int" where
  "errno_code e = (case e of EPERM \<Rightarrow> 1 | ENOENT \<Rightarrow> 2 | EIO \<Rightarrow> 5 | EINVAL \<Rightarrow> 22 | ENOSPC \<Rightarrow> 28)"

text \<open>\<open>restore_node_summary\<close> of \<open>node.c\<close>.  \<open>nn addr\<close> is the node id in the footer of the block at
  \<open>addr\<close>, or \<open>None\<close> when the block cannot be read.\<close>

fun restore_batch :: "(nat \<Rightarrow> nat option) \<Rightarrow> nat list \<Rightarrow> nat \<Rightarrow> f2fs_summary list \<Rightarrow> int \<Rightarrow> nat \<times> f2fs_summary list \<times> int" where
  "restore_batch nn [] k entries err = (k, entries, err)"
| "restore_batch nn (addr # addrs) k entries err =
     (case nn addr of
        None \<Rightarrow> restore_batch nn addrs k entries (- errno_code EIO)
      | Some nid \<Rightarrow> restore_batch nn addrs (k + 1) (entries[k := \<lparr> sum_nid = nid, sum_ofs_in_node = 0, sum_version = 0 \<rparr>]) err)"

partial_function (option) restore_node_from ::
  "(nat \<Rightarrow> nat option) \<Rightarrow> nat \<Rightarrow> nat \<Rightarrow> nat \<Rightarrow> nat \<Rightarrow> nat \<Rightarrow> f2fs_summary list \<Rightarrow> int \<Rightarrow> (int \<times> f2fs_summary list) option" where
  "restore_node_from nn bio_blocks last_offset i addr k entries err =
    (if i < last_offset then
       let nrpages = min (last_offset - i) bio_blocks;
           err = 0;
           (k, entries, err) = restore_batch nn [addr..<addr + nrpages] k entries err
       in restore_node_from nn bio_blocks last_offset (i + nrpages) (u32 (addr + nrpages)) k entries err
     else Some (err, entries))"

definition restore_node_summary ::
  "(nat \<Rightarrow> nat option) \<Rightarrow> nat \<Rightarrow> f2fs_sb_info \<Rightarrow> nat \<Rightarrow> f2fs_summary_block \<Rightarrow> (int \<times> f2fs_summary_block) option" where
  "restore_node_summary nn bio_blocks sbi segno summ = do {
     (err, entries) \<leftarrow> restore_node_from nn bio_blocks (sbi_blocks_per_seg sbi) 0 (START_BLOCK sbi segno) 0 (sb_entries summ) 0;
     Some (err, summ\<lparr>sb_entries := entries\<rparr>) }"

definition start_cp_addr :: "f2fs_super_block \<Rightarrow> f2fs_checkpoint \<Rightarrow> f2fs_sb_info \<Rightarrow> nat" where
  "start_cp_addr raw_super ckpt sbi =
    (let start_addr = rsb_cp_blkaddr raw_super
     in if even (ck_version ckpt) then u32 (start_addr + sbi_blocks_per_seg sbi) else start_addr)"

definition start_sum_block :: "f2fs_super_block \<Rightarrow> f2fs_checkpoint \<Rightarrow> f2fs_sb_info \<Rightarrow> nat" where
  "start_sum_block raw_super ckpt sbi = u32 (start_cp_addr raw_super ckpt sbi + ck_pack_start_sum ckpt)"

definition sum_blk_addr :: "f2fs_super_block \<Rightarrow> f2fs_checkpoint \<Rightarrow> f2fs_sb_info \<Rightarrow> nat \<Rightarrow> nat \<Rightarrow> nat" where
  "sum_blk_addr raw_super ckpt sbi base type =
     u32 (sub32 (u32 (start_cp_addr raw_super ckpt sbi + ck_pack_total_block_count ckpt)) (base + 1) + type)"

definition NR_CURSEG_DATA_TYPE :: nat where "NR_CURSEG_DATA_TYPE = 3"
definition NR_CURSEG_NODE_TYPE :: nat where "NR_CURSEG_NODE_TYPE = 3"

text \<open>What the checkpoint says about a log.\<close>

definition ck_segno :: "f2fs_checkpoint \<Rightarrow> nat \<Rightarrow> nat" where
  "ck_segno ckpt type = (if IS_DATASEG type then ck_cur_data_segno ckpt ! type else ck_cur_node_segno ckpt ! (type - CURSEG_HOT_NODE))"

definition ck_blkoff :: "f2fs_checkpoint \<Rightarrow> nat \<Rightarrow> nat" where
  "ck_blkoff ckpt type = (if IS_DATASEG type then ck_cur_data_blkoff ckpt ! type else ck_cur_node_blkoff ckpt ! (type - CURSEG_HOT_NODE))"

text \<open>\<open>sum\<close> points into the page that was read, which stays in the page cache.\<close>

definition read_normal_summaries ::
  "f2fs_env \<Rightarrow> f2fs_super_block \<Rightarrow> f2fs_checkpoint \<Rightarrow> (nat \<Rightarrow> nat option) \<Rightarrow> nat \<Rightarrow> f2fs_sb_info \<Rightarrow> nat \<Rightarrow> (int \<times> f2fs_sb_info) option" where
  "read_normal_summaries E raw_super ckpt nn bio_blocks sbi type = do {
     let segno = ck_segno ckpt type;
     let blk_off = ck_blkoff ckpt type;
     let blk_addr = (if IS_DATASEG type
         then (if ck_umount ckpt then sum_blk_addr raw_super ckpt sbi NR_CURSEG_TYPE type
               else sum_blk_addr raw_super ckpt sbi NR_CURSEG_DATA_TYPE type)
         else (if ck_umount ckpt then sum_blk_addr raw_super ckpt sbi NR_CURSEG_NODE_TYPE (type - CURSEG_HOT_NODE)
               else GET_SUM_BLOCK sbi segno));
     let summ = sbi_meta_pages sbi blk_addr;
     (err, summ) \<leftarrow> (if IS_NODESEG type
         then (if ck_umount ckpt
               then Some (0, summ\<lparr>sb_entries := map (\<lambda>s. s\<lparr>sum_version := 0, sum_ofs_in_node := 0\<rparr>) (take (sbi_blocks_per_seg sbi) (sb_entries summ))
                                                 @ drop (sbi_blocks_per_seg sbi) (sb_entries summ)\<rparr>)
               else restore_node_summary nn bio_blocks sbi segno summ)
         else Some (0, summ));
     let sbi = sbi\<lparr>sbi_meta_pages := (sbi_meta_pages sbi)(blk_addr := summ)\<rparr>;
     if err \<noteq> 0 then Some (- errno_code EINVAL, sbi)
     else do {
       let sbi = set_CURSEG_I type ((CURSEG_I sbi type)\<lparr>cs_sum_blk := summ, cs_next_segno := segno\<rparr>) sbi;
       let sbi = reset_curseg E sbi type False;
       let sbi = set_CURSEG_I type ((CURSEG_I sbi type)\<lparr>cs_alloc_type := ck_alloc_type ckpt ! type, cs_next_blkoff := blk_off\<rparr>) sbi;
       Some (0, sbi) } }"

fun read_normal_logs ::
  "f2fs_env \<Rightarrow> f2fs_super_block \<Rightarrow> f2fs_checkpoint \<Rightarrow> (nat \<Rightarrow> nat option) \<Rightarrow> nat \<Rightarrow> nat list \<Rightarrow> f2fs_sb_info \<Rightarrow> (int \<times> f2fs_sb_info) option" where
  "read_normal_logs E raw_super ckpt nn bio_blocks [] sbi = Some (0, sbi)"
| "read_normal_logs E raw_super ckpt nn bio_blocks (type # types) sbi = do {
     (err, sbi) \<leftarrow> read_normal_summaries E raw_super ckpt nn bio_blocks sbi type;
     if err \<noteq> 0 then Some (- errno_code EINVAL, sbi) else read_normal_logs E raw_super ckpt nn bio_blocks types sbi }"

text \<open>The journals are the ones in the summary blocks of the pack; the compact form has its own.\<close>

definition restore_curseg_summaries ::
  "f2fs_env \<Rightarrow> sum_layout \<Rightarrow> f2fs_super_block \<Rightarrow> f2fs_checkpoint \<Rightarrow> (nat \<Rightarrow> nat option) \<Rightarrow> nat \<Rightarrow> (nat \<Rightarrow> cp_page) \<Rightarrow>
   f2fs_nat_entry journal \<times> f2fs_sit_entry journal \<Rightarrow> f2fs_sb_info \<Rightarrow>
   (int \<times> (f2fs_nat_entry journal \<times> f2fs_sit_entry journal) \<times> f2fs_sb_info) option" where
  "restore_curseg_summaries E K raw_super ckpt nn bio_blocks cp_pages journals sbi = do {
     let (type, journals, sbi) = (if ck_compact_sum ckpt
         then let (nats, sits, sbi) = read_compacted_summaries E K ckpt cp_pages (start_sum_block raw_super ckpt sbi) sbi
              in (CURSEG_HOT_NODE, (nats, sits), sbi)
         else (CURSEG_HOT_DATA, journals, sbi));
     (err, sbi) \<leftarrow> read_normal_logs E raw_super ckpt nn bio_blocks [type..<CURSEG_COLD_NODE + 1] sbi;
     Some (err, journals, sbi) }"

section \<open>Fresh tables\<close>

definition zero_seg_entry :: "f2fs_env \<Rightarrow> seg_entry" where
  "zero_seg_entry E = \<lparr> se_valid_blocks = 0, se_cur_valid_map = replicate (SIT_VBLOCK_MAP_SIZE E) 0, se_ckpt_valid_blocks = 0,
     se_ckpt_valid_map = replicate (SIT_VBLOCK_MAP_SIZE E) 0, se_type = 0, se_mtime = 0, se_numberofcleaning = 1 \<rparr>"

definition build_sit_info :: "f2fs_env \<Rightarrow> f2fs_super_block \<Rightarrow> f2fs_checkpoint \<Rightarrow> f2fs_sb_info \<Rightarrow> f2fs_sb_info" where
  "build_sit_info E raw_super ckpt sbi =
    (let sit_segs = rsb_segment_count_sit raw_super div 2
     in set_SIT_I \<lparr> sit_base_addr = rsb_sit_blkaddr raw_super, sit_blocks = u32 (push_bit (sbi_log_blocks_per_seg sbi) sit_segs),
       sit_written_valid_blocks = u32 (ck_valid_block_count ckpt), sit_bitmap = ck_sit_bitmap ckpt,
       sit_dirty_sentries_bitmap = (\<lambda>_. False), sit_dirty_sentries = 0, sit_sents_per_block = SIT_ENTRY_PER_BLOCK E,
       sit_sentries = replicate (TOTAL_SEGS sbi) (zero_seg_entry E),
       sit_sec_entries = (if 1 < sbi_segs_per_sec sbi then replicate (TOTAL_SECS sbi) \<lparr> sec_valid_blocks = 0 \<rparr> else []),
       sit_elapsed_time = ck_elapsed_time ckpt, sit_mounted_time = CURRENT_TIME_SEC E, sit_min_mtime = 0, sit_max_mtime = 0 \<rparr> sbi)"

definition build_free_segmap :: "f2fs_sb_info \<Rightarrow> f2fs_sb_info" where
  "build_free_segmap sbi = set_FREE_I \<lparr> fsm_start_segno = GET_SEGNO_FROM_SEG0 sbi (sm_main_blkaddr (SM_I sbi)),
     fsm_free_segments = 0, fsm_free_sections = 0, fsm_free_segmap = (\<lambda>_. True), fsm_free_secmap = (\<lambda>_. True) \<rparr> sbi"

text \<open>A summary block has \<open>n\<close> entries.\<close>

definition zero_curseg :: "nat \<Rightarrow> curseg_info" where
  "zero_curseg n = \<lparr> cs_sum_blk = \<lparr> sb_entries = replicate n \<lparr> sum_nid = 0, sum_ofs_in_node = 0, sum_version = 0 \<rparr>, sb_entry_type = 0 \<rparr>,
     cs_alloc_type = LFS, cs_segno = NULL_SEGNO, cs_next_blkoff = 0, cs_zone = 0, cs_next_segno = 0 \<rparr>"

definition build_curseg ::
  "f2fs_env \<Rightarrow> sum_layout \<Rightarrow> nat \<Rightarrow> f2fs_super_block \<Rightarrow> f2fs_checkpoint \<Rightarrow> (nat \<Rightarrow> nat option) \<Rightarrow> nat \<Rightarrow> (nat \<Rightarrow> cp_page) \<Rightarrow>
   f2fs_nat_entry journal \<times> f2fs_sit_entry journal \<Rightarrow> f2fs_sb_info \<Rightarrow>
   (int \<times> (f2fs_nat_entry journal \<times> f2fs_sit_entry journal) \<times> f2fs_sb_info) option" where
  "build_curseg E K n raw_super ckpt nn bio_blocks cp_pages journals sbi =
     restore_curseg_summaries E K raw_super ckpt nn bio_blocks cp_pages journals
       (sbi\<lparr>sbi_sm_info := (SM_I sbi)\<lparr>sm_curseg_array := replicate NR_CURSEG_TYPE (zero_curseg n)\<rparr>\<rparr>)"

section \<open>Free and dirty segments\<close>

definition init_free_segmap :: "f2fs_env \<Rightarrow> f2fs_sb_info \<Rightarrow> f2fs_sb_info" where
  "init_free_segmap E sbi =
    (let sbi = fold (\<lambda>start sbi. if se_valid_blocks (get_seg_entry sbi start) = 0 then set_free E sbi start else sbi) [0..<TOTAL_SEGS sbi] sbi
     in fold (\<lambda>type sbi. set_test_and_inuse sbi (cs_segno (CURSEG_I sbi type))) [CURSEG_HOT_DATA..<CURSEG_COLD_NODE + 1] sbi)"

partial_function (option) init_dirty_from :: "f2fs_env \<Rightarrow> f2fs_sb_info \<Rightarrow> nat \<Rightarrow> f2fs_sb_info option" where
  "init_dirty_from E sbi offset =
    (let segno = find_next_inuse E (FREE_I sbi) (TOTAL_SEGS sbi) offset
     in if TOTAL_SEGS sbi \<le> segno then Some sbi
        else
          let offset = u32 (segno + 1);
              valid_blocks = u16 (get_valid_blocks sbi segno 0)
          in if sbi_blocks_per_seg sbi \<le> valid_blocks \<or> valid_blocks = 0 then init_dirty_from E sbi offset
             else init_dirty_from E (do_locate_dirty_segment sbi segno DIRTY) offset)"

definition build_dirty_segmap :: "f2fs_env \<Rightarrow> f2fs_sb_info \<Rightarrow> f2fs_sb_info option" where
  "build_dirty_segmap E sbi = do {
     let sbi = set_DIRTY_I \<lparr> dl_dirty_segmap = replicate NR_DIRTY_TYPE (\<lambda>_. False), dl_nr_dirty = replicate NR_DIRTY_TYPE 0,
                 dl_victim_secmap = (\<lambda>_. False) \<rparr> sbi;
     init_dirty_from E sbi 0 }"

definition init_min_max_mtime :: "f2fs_env \<Rightarrow> f2fs_sb_info \<Rightarrow> f2fs_sb_info" where
  "init_min_max_mtime E sbi =
    (let mtime = (\<lambda>segno. fold (\<lambda>i m. u64 (m + se_mtime (get_seg_entry sbi (segno + i)))) [0..<sbi_segs_per_sec sbi] 0
           div sbi_segs_per_sec sbi);
         min_mtime = fold (\<lambda>segno m. if mtime segno < m then mtime segno else m)
           (filter (\<lambda>segno. segno mod sbi_segs_per_sec sbi = 0) [0..<TOTAL_SEGS sbi]) (2 ^ 63 - 1)
     in set_SIT_I ((SIT_I sbi)\<lparr>sit_min_mtime := min_mtime, sit_max_mtime := get_mtime E sbi\<rparr>) sbi)"

section \<open>The segment manager\<close>

definition DEF_RECLAIM_PREFREE_SEGMENTS :: nat where "DEF_RECLAIM_PREFREE_SEGMENTS = 100"
definition DEF_MIN_IPU_UTIL :: nat where "DEF_MIN_IPU_UTIL = 70"

text \<open>The parts that later steps build start as zeros.\<close>

definition init_sm_info :: "f2fs_super_block \<Rightarrow> f2fs_checkpoint \<Rightarrow> f2fs_sm_info" where
  "init_sm_info raw_super ckpt = \<lparr>
     sm_sit_info = \<lparr> sit_base_addr = 0, sit_blocks = 0, sit_written_valid_blocks = 0, sit_bitmap = [], sit_dirty_sentries_bitmap = (\<lambda>_. False),
       sit_dirty_sentries = 0, sit_sents_per_block = 0, sit_sentries = [], sit_sec_entries = [], sit_elapsed_time = 0,
       sit_mounted_time = 0, sit_min_mtime = 0, sit_max_mtime = 0 \<rparr>,
     sm_free_info = \<lparr> fsm_start_segno = 0, fsm_free_segments = 0, fsm_free_sections = 0,
       fsm_free_segmap = (\<lambda>_. False), fsm_free_secmap = (\<lambda>_. False) \<rparr>,
     sm_dirty_info = \<lparr> dl_dirty_segmap = [], dl_nr_dirty = [], dl_victim_secmap = (\<lambda>_. False) \<rparr>,
     sm_curseg_array = [],
     sm_seg0_blkaddr = rsb_segment0_blkaddr raw_super, sm_main_blkaddr = rsb_main_blkaddr raw_super, sm_ssa_blkaddr = rsb_ssa_blkaddr raw_super,
     sm_segment_count = rsb_segment_count raw_super, sm_main_segments = rsb_segment_count_main raw_super,
     sm_reserved_segments = ck_rsvd_segment_count ckpt, sm_ovp_segments = ck_overprov_segment_count ckpt,
     sm_rec_prefree_segments = DEF_RECLAIM_PREFREE_SEGMENTS, sm_discard_list = [], sm_nr_discards = 0, sm_max_discards = 0,
     sm_ipu_policy = F2FS_IPU_DISABLE, sm_min_ipu_util = DEF_MIN_IPU_UTIL \<rparr>"

definition build_segment_manager ::
  "f2fs_env \<Rightarrow> sum_layout \<Rightarrow> nat \<Rightarrow> f2fs_super_block \<Rightarrow> f2fs_checkpoint \<Rightarrow> (nat \<Rightarrow> nat option) \<Rightarrow> nat \<Rightarrow> (nat \<Rightarrow> cp_page) \<Rightarrow>
   f2fs_nat_entry journal \<times> f2fs_sit_entry journal \<Rightarrow> (nat \<Rightarrow> sit_page) \<Rightarrow> f2fs_sb_info \<Rightarrow>
   (int \<times> f2fs_nat_entry journal \<times> sit_state) option" where
  "build_segment_manager E K n raw_super ckpt nn bio_blocks cp_pages journals pages sbi = do {
     let sbi = sbi\<lparr>sbi_sm_info := init_sm_info raw_super ckpt\<rparr>;
     let sbi = build_sit_info E raw_super ckpt sbi;
     let sbi = build_free_segmap sbi;
     (err, journals, sbi) \<leftarrow> build_curseg E K n raw_super ckpt nn bio_blocks cp_pages journals sbi;
     let S = \<lparr> ss_sbi = sbi, ss_journal = snd journals, ss_pages = pages \<rparr>;
     if err \<noteq> 0 then Some (err, fst journals, S)
     else do {
       S \<leftarrow> build_sit_entries E bio_blocks S;
       let sbi = init_free_segmap E (ss_sbi S);
       sbi \<leftarrow> build_dirty_segmap E sbi;
       let sbi = init_min_max_mtime E sbi;
       Some (0, fst journals, S\<lparr>ss_sbi := sbi\<rparr>) } }"

end
