(* ===== verification/Mount_Segs.thy ===== *)
theory Mount_Segs
  imports Mount
begin

text \<open>
  The bitmaps of free segments and the lists of dirty segments that \<open>init_free_segmap\<close> and
  \<open>init_dirty_segmap\<close> make at mount out of the table: a segment is in use exactly when it has a
  valid block or is the segment of a log, and it is listed as dirty exactly when it is in use, of no log
  and partly valid.
\<close>

section \<open>Segments in use\<close>

definition fresh_free :: "f2fs_sb_info \<Rightarrow> bool" where
  "fresh_free sbi \<longleftrightarrow> free_segments sbi = 0 \<and> free_sections sbi = 0
     \<and> (\<forall>i. fsm_free_segmap (FREE_I sbi) i) \<and> (\<forall>s. fsm_free_secmap (FREE_I sbi) s)"

lemma count_clear_none: "(\<And>i. P i) \<Longrightarrow> count_clear n P = 0"
  by (induction n) (simp_all add: count_clear_def)

lemma fresh_free_ok:
  assumes "geometry sbi" and "TOTAL_SEGS sbi < 2 ^ 32" and "fresh_free sbi"
  shows "free_ok sbi"
proof -
  have "sec_inuse sbi s" if s: "s < TOTAL_SECS sbi" for s
  proof -
    let ?k = "sbi_segs_per_sec sbi"
    have k: "0 < ?k" "TOTAL_SEGS sbi = TOTAL_SECS sbi * ?k" using geometryD(3,6) [OF assms(1)] by auto
    then have "s * ?k < TOTAL_SEGS sbi" "s * ?k div ?k = s" using s by simp_all
    then show ?thesis unfolding sec_inuse_def using assms(3) by (intro exI [of _ "s * ?k"]) (simp add: fresh_free_def seg_inuse_def)
  qed
  then show ?thesis
    using assms geometryD(3,6) [OF assms(1)] by (simp add: free_ok_def fresh_free_def count_clear_none)
qed

definition free_step :: "f2fs_env \<Rightarrow> nat \<Rightarrow> f2fs_sb_info \<Rightarrow> f2fs_sb_info" where
  "free_step E start sbi = (if se_valid_blocks (get_seg_entry sbi start) = 0 then set_free E sbi start else sbi)"

lemma get_seg_entry_frame: "free_frame a b \<Longrightarrow> get_seg_entry b = get_seg_entry a"
  using free_frameD(5) by (simp add: get_seg_entry_def fun_eq_iff)

lemma free_fold:
  assumes k: "kernel_ok E" and ok: "free_ok sbi" and full: "\<And>i. seg_inuse sbi i"
  shows "n \<le> TOTAL_SEGS sbi \<Longrightarrow> free_ok (fold (free_step E) [0..<n] sbi) \<and> free_frame sbi (fold (free_step E) [0..<n] sbi)
     \<and> (\<forall>i. seg_inuse (fold (free_step E) [0..<n] sbi) i \<longleftrightarrow> n \<le> i \<or> 0 < vblocks sbi i)"
proof (induction n)
  case 0
  then show ?case using ok full by simp
next
  case (Suc n)
  define s where "s = fold (free_step E) [0..<n] sbi"
  have IH: "free_ok s" "free_frame sbi s" "seg_inuse s i \<longleftrightarrow> n \<le> i \<or> 0 < vblocks sbi i" for i
    using Suc by (simp_all add: s_def)
  have g: "get_seg_entry s = get_seg_entry sbi" by (rule get_seg_entry_frame [OF IH(2)])
  have T: "n < TOTAL_SEGS s" using Suc.prems free_frameD(1) [OF IH(2)] by simp
  show ?case
  proof (cases "vblocks sbi n = 0")
    case True
    then have e: "free_step E n s = set_free E s n" by (simp add: free_step_def g vblocks_def)
    have "free_ok (set_free E s n)" using set_free_ok [OF k IH(1) T] IH(3) [of n] by simp
    moreover have "free_frame sbi (set_free E s n)" by (rule free_frame_trans [OF IH(2)]) simp
    moreover have "\<forall>i. seg_inuse (set_free E s n) i \<longleftrightarrow> Suc n \<le> i \<or> 0 < vblocks sbi i"
      using IH(3) True by (metis Suc_le_eq le_neq_implies_less less_imp_le less_irrefl seg_inuse_ops(2))
    ultimately show ?thesis by (simp add: s_def [symmetric] e)
  next
    case False
    then have e: "free_step E n s = s" by (simp add: free_step_def g vblocks_def)
    have "n \<le> i \<or> 0 < vblocks sbi i \<longleftrightarrow> Suc n \<le> i \<or> 0 < vblocks sbi i" for i
      using False by (metis Suc_le_eq le_neq_implies_less less_imp_le neq0_conv)
    then show ?thesis using IH by (simp add: s_def [symmetric] e)
  qed
qed

lemma inuse_fold:
  assumes "free_ok sbi" and "\<forall>t\<in>set ts. log_seg sbi t < TOTAL_SEGS sbi"
  defines "sbi' \<equiv> fold (\<lambda>type sbi. set_test_and_inuse sbi (cs_segno (CURSEG_I sbi type))) ts sbi"
  shows "free_ok sbi' \<and> free_frame sbi sbi' \<and> (\<forall>i. seg_inuse sbi' i \<longleftrightarrow> seg_inuse sbi i \<or> (\<exists>t\<in>set ts. log_seg sbi t = i))"
  using assms(1,2) unfolding sbi'_def
proof (induction ts arbitrary: sbi)
  case (Cons t ts)
  define s where "s = set_test_and_inuse sbi (log_seg sbi t)"
  have f: "free_frame sbi s" by (simp add: s_def)
  note F = free_frameD [OF f]
  have l: "log_seg s = log_seg sbi" using F(7) by (simp add: log_seg_def fun_eq_iff)
  have "free_ok s" using set_test_and_inuse_ok [OF Cons.prems(1)] Cons.prems(2) by (simp add: s_def)
  moreover have "\<forall>t\<in>set ts. log_seg s t < TOTAL_SEGS s" using Cons.prems(2) by (simp add: l F(1))
  moreover have si: "seg_inuse s i \<longleftrightarrow> i = log_seg sbi t \<or> seg_inuse sbi i" for i by (simp add: s_def)
  moreover have "fold (\<lambda>type sbi. set_test_and_inuse sbi (cs_segno (CURSEG_I sbi type))) (t # ts) sbi
      = fold (\<lambda>type sbi. set_test_and_inuse sbi (cs_segno (CURSEG_I sbi type))) ts s"
    by (simp add: s_def log_seg_def)
  ultimately show ?case using Cons.IH [of s] free_frame_trans [OF f] l by auto
qed simp

lemma init_free_segmap_ok:
  assumes k: "kernel_ok E" and g: "geometry sbi" "TOTAL_SEGS sbi < 2 ^ 32" and fr: "fresh_free sbi"
    and logs: "\<And>t. t < NR_CURSEG_TYPE \<Longrightarrow> log_seg sbi t < TOTAL_SEGS sbi"
  defines "sbi' \<equiv> init_free_segmap E sbi"
  shows "free_ok sbi'" "free_frame sbi sbi'"
    "i < TOTAL_SEGS sbi \<Longrightarrow> seg_inuse sbi' i \<longleftrightarrow> 0 < vblocks sbi i \<or> (\<exists>t<NR_CURSEG_TYPE. log_seg sbi t = i)"
proof -
  define s where "s = fold (free_step E) [0..<TOTAL_SEGS sbi] sbi"
  have 1: "free_ok s" "free_frame sbi s" "seg_inuse s i \<longleftrightarrow> TOTAL_SEGS sbi \<le> i \<or> 0 < vblocks sbi i" for i
    using free_fold [OF k fresh_free_ok [OF g fr], of "TOTAL_SEGS sbi"] fr by (simp_all add: s_def fresh_free_def seg_inuse_def)
  note F = free_frameD [OF 1(2)]
  have l: "log_seg s = log_seg sbi" using F(7) by (simp add: log_seg_def fun_eq_iff)
  have ts: "set [CURSEG_HOT_DATA..<CURSEG_COLD_NODE + 1] = {..<NR_CURSEG_TYPE}" by (auto simp: curseg_types)
  have eq: "sbi' = fold (\<lambda>type sbi. set_test_and_inuse sbi (cs_segno (CURSEG_I sbi type))) [CURSEG_HOT_DATA..<CURSEG_COLD_NODE + 1] s"
    by (simp add: sbi'_def init_free_segmap_def Let_def s_def free_step_def [abs_def])
  have "\<forall>t\<in>set [CURSEG_HOT_DATA..<CURSEG_COLD_NODE + 1]. log_seg s t < TOTAL_SEGS s"
    unfolding ts l F(1) using logs by simp
  note 2 = inuse_fold [OF 1(1) this, folded eq, unfolded ts l]
  show "free_ok sbi'" using 2 by simp
  show "free_frame sbi sbi'" using 2 free_frame_trans [OF 1(2)] by simp
  show "i < TOTAL_SEGS sbi \<Longrightarrow> seg_inuse sbi' i \<longleftrightarrow> 0 < vblocks sbi i \<or> (\<exists>t<NR_CURSEG_TYPE. log_seg sbi t = i)"
    using 2 1(3) by (simp add: Bex_def)
qed

section \<open>Dirty segments\<close>

text \<open>The segments that the dirty lists must have.\<close>

definition must_dirty :: "f2fs_sb_info \<Rightarrow> nat \<Rightarrow> bool" where
  "must_dirty sbi i \<longleftrightarrow> i < TOTAL_SEGS sbi \<and> seg_inuse sbi i \<and> \<not> IS_CURSEG sbi i \<and> 0 < vblocks sbi i \<and> vblocks sbi i < sbi_blocks_per_seg sbi"

lemma must_dirty_frame: "dirty_frame a b \<Longrightarrow> must_dirty b = must_dirty a"
  by (simp add: must_dirty_def dirty_frameD seg_inuse_def vblocks_def get_seg_entry_def fun_eq_iff)

text \<open>Filing of the segments below \<open>n\<close> is done.\<close>

definition filed :: "f2fs_sb_info \<Rightarrow> nat \<Rightarrow> f2fs_sb_info \<Rightarrow> bool" where
  "filed sbi0 n sbi \<longleftrightarrow> dirty_ok sbi \<and> dirty_frame sbi0 sbi \<and> dl_victim_secmap (DIRTY_I sbi) = dl_victim_secmap (DIRTY_I sbi0)
     \<and> (\<forall>t<NR_DIRTY_TYPE. \<forall>i. is_dirty sbi t i \<longleftrightarrow> i < n \<and> must_dirty sbi0 i \<and> (t = DIRTY \<or> t = se_type (get_seg_entry sbi0 i)))"

lemma filed_skip:
  assumes f: "filed sbi0 n sbi" and "n \<le> m" and no: "\<And>i. n \<le> i \<Longrightarrow> i < m \<Longrightarrow> \<not> must_dirty sbi0 i"
  shows "filed sbi0 m sbi"
proof -
  have "i < n \<and> must_dirty sbi0 i \<longleftrightarrow> i < m \<and> must_dirty sbi0 i" for i
    using assms(2) no [of i] by (cases "i < n") auto
  then have "i < n \<and> must_dirty sbi0 i \<and> q \<longleftrightarrow> i < m \<and> must_dirty sbi0 i \<and> q" for i q by blast
  with f show ?thesis unfolding filed_def by simp
qed

lemma filed_step:
  assumes f: "filed sbi0 n sbi" and T: "n < TOTAL_SEGS sbi0" and bps: "sbi_blocks_per_seg sbi0 < 2 ^ 16" "vblocks sbi0 n < 2 ^ 16"
    and u: "seg_inuse sbi0 n"
  shows "filed sbi0 (Suc n) (if sbi_blocks_per_seg sbi \<le> u16 (get_valid_blocks sbi n 0) \<or> u16 (get_valid_blocks sbi n 0) = 0 then sbi
     else do_locate_dirty_segment sbi n DIRTY)"
proof -
  have fr: "dirty_frame sbi0 sbi" and ok: "dirty_ok sbi" using f by (simp_all add: filed_def)
  note F = dirty_frameD [OF fr]
  have ge: "get_seg_entry sbi = get_seg_entry sbi0" using F(7) by (simp add: get_seg_entry_def fun_eq_iff)
  have v: "u16 (get_valid_blocks sbi n 0) = vblocks sbi0 n" using bps(2) by (simp add: get_valid_blocks_def ge vblocks_def u16_id)
  have s: "filed sbi0 (Suc n) sbi" if "\<not> must_dirty sbi0 n" using that by (intro filed_skip [OF f]) (auto simp: le_Suc_eq less_Suc_eq_le)
  show ?thesis
  proof (cases "sbi_blocks_per_seg sbi0 \<le> vblocks sbi0 n \<or> vblocks sbi0 n = 0")
    case True
    then have "\<not> must_dirty sbi0 n" by (auto simp: must_dirty_def)
    with s True show ?thesis by (simp add: v F(4))
  next
    case False
    let ?d = "do_locate_dirty_segment sbi n DIRTY"
    have "filed sbi0 (Suc n) ?d"
    proof (cases "IS_CURSEG sbi0 n")
      case True
      then have "?d = sbi" by (simp add: do_locate_dirty_segment_def F(13))
      with s True show ?thesis by (simp add: must_dirty_def)
    next
      case nc: False
      then have md: "must_dirty sbi0 n" using False T u by (simp add: must_dirty_def)
      have d: "is_dirty ?d t i \<longleftrightarrow> (i = n \<and> (t = DIRTY \<or> t = se_type (get_seg_entry sbi n))) \<or> is_dirty sbi t i" for t i
        using is_dirty_locate [OF ok, of n DIRTY t i] T nc by (simp add: F dirty_types)
      have v: "dl_victim_secmap (DIRTY_I ?d) = dl_victim_secmap (DIRTY_I sbi)"
        by (simp add: do_locate_dirty_segment_def Let_def)
      have "dirty_ok ?d" using do_locate_ok [OF ok, of n DIRTY] T by (simp add: F dirty_types)
      moreover have "dirty_frame sbi0 ?d" by (rule dirty_frame_trans [OF fr]) simp
      ultimately show ?thesis using f md unfolding filed_def d v ge by (auto simp: less_Suc_eq)
    qed
    with False show ?thesis by (simp add: v F(4))
  qed
qed

lemma init_dirty_from_ok:
  assumes k: "kernel_ok E" and T: "TOTAL_SEGS sbi0 < 2 ^ 32" and bps: "sbi_blocks_per_seg sbi0 < 2 ^ 16"
    and vb: "\<And>i. i < TOTAL_SEGS sbi0 \<Longrightarrow> vblocks sbi0 i < 2 ^ 16"
  shows "filed sbi0 n sbi \<Longrightarrow> n \<le> TOTAL_SEGS sbi0 \<Longrightarrow> \<exists>sbi'. init_dirty_from E sbi n = Some sbi' \<and> filed sbi0 (TOTAL_SEGS sbi0) sbi'"
proof (induction "TOTAL_SEGS sbi0 - n" arbitrary: n sbi rule: less_induct)
  case less
  note F = dirty_frameD [of sbi0 sbi]
  have fr: "dirty_frame sbi0 sbi" using less.prems by (simp add: filed_def)
  let ?m = "scan (seg_inuse sbi0) (TOTAL_SEGS sbi0) n"
  have si: "fsm_free_segmap (FREE_I sbi) = seg_inuse sbi0" by (simp add: F(6) [OF fr] seg_inuse_def fun_eq_iff)
  have e: "find_next_inuse E (FREE_I sbi) (TOTAL_SEGS sbi0) n = ?m"
    by (simp add: find_next_inuse_def find_next_bit_scan [OF k] si)
  have sk: "\<not> must_dirty sbi0 i" if "n \<le> i" "i < ?m" for i using scan_skip [OF that] by (simp add: must_dirty_def)
  show ?case
  proof (cases "?m < TOTAL_SEGS sbi0")
    case False
    then have m: "?m = TOTAL_SEGS sbi0" using scan_le [of "seg_inuse sbi0" "TOTAL_SEGS sbi0" n] by simp
    have "filed sbi0 (TOTAL_SEGS sbi0) sbi" using sk unfolding m by (intro filed_skip [OF less.prems])
    then show ?thesis by (subst init_dirty_from.simps) (simp add: Let_def e m F(1) [OF fr])
  next
    case True
    note H = scan_hit [OF True]
    have "filed sbi0 ?m sbi" using H sk by (intro filed_skip [OF less.prems(1)]) simp_all
    from filed_step [OF this True bps vb [OF True]] H
    have st: "filed sbi0 (Suc ?m) (if sbi_blocks_per_seg sbi \<le> u16 (get_valid_blocks sbi ?m 0) \<or> u16 (get_valid_blocks sbi ?m 0) = 0 then sbi
       else do_locate_dirty_segment sbi ?m DIRTY)" (is "filed _ _ ?s") by simp
    have u: "u32 (?m + 1) = Suc ?m" using True T by (simp add: u32_id)
    have "init_dirty_from E sbi n = init_dirty_from E ?s (Suc ?m)"
      using True by (subst init_dirty_from.simps) (simp add: Let_def e F(1) [OF fr] u [simplified])
    moreover have "TOTAL_SEGS sbi0 - Suc ?m < TOTAL_SEGS sbi0 - n" "Suc ?m \<le> TOTAL_SEGS sbi0" using True H by linarith+
    ultimately show ?thesis using less.hyps [OF _ st] by metis
  qed
qed

lemma build_dirty_segmap_ok:
  assumes k: "kernel_ok E" and T: "TOTAL_SEGS sbi < 2 ^ 32" and bps: "sbi_blocks_per_seg sbi < 2 ^ 16"
    and vb: "\<And>i. i < TOTAL_SEGS sbi \<Longrightarrow> vblocks sbi i < 2 ^ 16" and ty: "types_ok sbi"
  obtains sbi' where "build_dirty_segmap E sbi = Some sbi'" "dirty_ok sbi'" "dirty_frame sbi sbi'"
    "\<And>t i. t < NR_DIRTY_TYPE \<Longrightarrow> is_dirty sbi' t i \<longleftrightarrow> must_dirty sbi i \<and> (t = DIRTY \<or> t = se_type (get_seg_entry sbi i))"
    "dl_victim_secmap (DIRTY_I sbi') = (\<lambda>_. False)"
proof -
  let ?d = "\<lparr> dl_dirty_segmap = replicate NR_DIRTY_TYPE (\<lambda>_::nat. False), dl_nr_dirty = replicate NR_DIRTY_TYPE 0, dl_victim_secmap = (\<lambda>_. False) \<rparr>"
  define s where "s = set_DIRTY_I ?d sbi"
  have fr: "dirty_frame sbi s" by (simp add: s_def)
  note F = dirty_frameD [OF fr]
  have ge: "get_seg_entry s = get_seg_entry sbi" by (simp add: s_def)
  have "lists_ok (TOTAL_SEGS s) (DIRTY_I s)" by (simp add: s_def lists_ok_def count_bits_def)
  then have "dirty_ok s" using ty by (simp add: dirty_ok_def F(15))
  moreover have "\<not> is_dirty s t i" if "t < NR_DIRTY_TYPE" for t i using that by (simp add: is_dirty_def s_def)
  ultimately have f: "filed s 0 s" by (simp add: filed_def)
  have "vblocks s = vblocks sbi" by (simp add: vblocks_def ge fun_eq_iff)
  then obtain sbi' where "init_dirty_from E s 0 = Some sbi'" "filed s (TOTAL_SEGS s) sbi'"
    using init_dirty_from_ok [OF k _ _ _ f] T bps vb by (auto simp: F)
  moreover have md: "must_dirty s = must_dirty sbi" by (rule must_dirty_frame [OF fr])
  moreover have "build_dirty_segmap E sbi = init_dirty_from E s 0" by (simp add: build_dirty_segmap_def s_def)
  moreover have "must_dirty sbi i \<Longrightarrow> i < TOTAL_SEGS sbi" for i by (simp add: must_dirty_def)
  moreover have "dl_victim_secmap (DIRTY_I s) = (\<lambda>_. False)" by (simp add: s_def)
  ultimately show ?thesis
    using dirty_frame_trans [OF fr] by (intro that [of sbi']) (auto simp: filed_def ge F(1))
qed

end
