(* ===== verification/Mount_Logs.thy ===== *)
theory Mount_Logs
  imports Mount_Segs
begin

text \<open>
  The logs after \<open>restore_curseg_summaries\<close>: each is where the checkpoint says, and of the rest of the
  file system only the types of entries of the table and cached summary pages have changed.
  The summaries of a node log are the ids in the footers of its blocks, when all of them can be
  read; the code forgets an error in all batches but the last.
\<close>

section \<open>What restoring the logs changes\<close>

definition same_entry :: "seg_entry \<Rightarrow> seg_entry \<Rightarrow> bool" where
  "same_entry a b \<longleftrightarrow> b = a\<lparr>se_type := se_type b\<rparr>"

lemma same_entry_refl [simp]: "same_entry a a" by (simp add: same_entry_def)

lemma same_entry_trans: "same_entry a b \<Longrightarrow> same_entry b c \<Longrightarrow> same_entry a c"
  by (cases a; cases b; cases c) (simp add: same_entry_def)

definition log_frame :: "f2fs_sb_info \<Rightarrow> f2fs_sb_info \<Rightarrow> bool" where
  "log_frame a b \<longleftrightarrow> list_all2 same_entry (sit_sentries (SIT_I a)) (sit_sentries (SIT_I b))
     \<and> length (sm_curseg_array (SM_I b)) = length (sm_curseg_array (SM_I a))
     \<and> b = a\<lparr>sbi_meta_pages := sbi_meta_pages b, sbi_sm_info := (SM_I a)\<lparr>sm_sit_info := (SIT_I a)\<lparr>sit_sentries := sit_sentries (SIT_I b)\<rparr>,
         sm_curseg_array := sm_curseg_array (SM_I b)\<rparr>\<rparr>"

lemma log_frame_refl [simp]: "log_frame a a"
  by (simp add: log_frame_def accessors list_all2_refl)

lemma log_frame_trans:
  assumes "log_frame a b" and "log_frame b c"
  shows "log_frame a c"
proof -
  have "list_all2 same_entry (sit_sentries (SIT_I a)) (sit_sentries (SIT_I c))"
  proof (rule list_all2_trans [of same_entry same_entry same_entry, rule_format])
    show "same_entry x y \<Longrightarrow> same_entry y z \<Longrightarrow> same_entry x z" for x y z by (rule same_entry_trans)
    show "list_all2 same_entry (sit_sentries (SIT_I a)) (sit_sentries (SIT_I b))" using assms(1) by (simp add: log_frame_def)
    show "list_all2 same_entry (sit_sentries (SIT_I b)) (sit_sentries (SIT_I c))" using assms(2) by (simp add: log_frame_def)
  qed
  moreover have "c = a\<lparr>sbi_meta_pages := sbi_meta_pages c, sbi_sm_info := (SM_I a)\<lparr>sm_sit_info := (SIT_I a)\<lparr>sit_sentries := sit_sentries (SIT_I c)\<rparr>,
         sm_curseg_array := sm_curseg_array (SM_I c)\<rparr>\<rparr>"
  proof -
    from assms obtain m e s m' e' s' where "b = a\<lparr>sbi_meta_pages := m, sbi_sm_info := (SM_I a)\<lparr>sm_sit_info := (SIT_I a)\<lparr>sit_sentries := e\<rparr>, sm_curseg_array := s\<rparr>\<rparr>"
      "c = b\<lparr>sbi_meta_pages := m', sbi_sm_info := (SM_I b)\<lparr>sm_sit_info := (SIT_I b)\<lparr>sit_sentries := e'\<rparr>, sm_curseg_array := s'\<rparr>\<rparr>"
      unfolding log_frame_def by blast
    then show ?thesis by (simp add: accessors)
  qed
  ultimately show ?thesis using assms by (simp add: log_frame_def)
qed

lemma log_frame_CURSEG [simp]: "log_frame a (set_CURSEG_I t c a)"
  by (simp add: log_frame_def accessors setters list_all2_refl)

lemma log_frame_page [simp]: "log_frame a (a\<lparr>sbi_meta_pages := m\<rparr>)"
  by (simp add: log_frame_def accessors list_all2_refl)

lemma log_frame_type: "log_frame a (set_sit_entry_type a type segno False)"
proof -
  have "list_all2 same_entry xs (xs[i := (xs ! i)\<lparr>se_type := v\<rparr>])" for xs i v
    by (cases "i < length xs") (auto simp: list_all2_conv_all_nth nth_list_update same_entry_def list_all2_refl)
  then show ?thesis
    by (simp add: log_frame_def set_sit_entry_type_clean set_seg_entry_def get_seg_entry_def accessors setters)
qed

lemma log_frame_reset: "log_frame a (reset_curseg E a t False)"
  unfolding reset_curseg_def Let_def by (rule log_frame_trans [OF log_frame_CURSEG log_frame_type])

lemma log_frameD:
  assumes "log_frame a b"
  shows "TOTAL_SEGS b = TOTAL_SEGS a" "TOTAL_SECS b = TOTAL_SECS a" "sbi_segs_per_sec b = sbi_segs_per_sec a"
    "sbi_blocks_per_seg b = sbi_blocks_per_seg a" "geometry b = geometry a" "FREE_I b = FREE_I a" "DIRTY_I b = DIRTY_I a"
    "sm_curseg_array (SM_I b) \<noteq> [] \<or> sm_curseg_array (SM_I a) = []" "sm_segment_count (SM_I b) = sm_segment_count (SM_I a)"
    "\<exists>ents. length ents = length (sit_sentries (SIT_I a)) \<and> SIT_I b = (SIT_I a)\<lparr>sit_sentries := ents\<rparr> \<and> (\<forall>i<length ents. same_entry (sit_sentries (SIT_I a) ! i) (ents ! i))"
    "length (sm_curseg_array (SM_I b)) = length (sm_curseg_array (SM_I a))"
    "START_BLOCK b = START_BLOCK a" "start_cp_addr r ck b = start_cp_addr r ck a"
proof -
  from assms obtain m e s where b: "b = a\<lparr>sbi_meta_pages := m, sbi_sm_info := (SM_I a)\<lparr>sm_sit_info := (SIT_I a)\<lparr>sit_sentries := e\<rparr>, sm_curseg_array := s\<rparr>\<rparr>"
    "e = sit_sentries (SIT_I b)" unfolding log_frame_def by blast
  show "TOTAL_SEGS b = TOTAL_SEGS a" "TOTAL_SECS b = TOTAL_SECS a" "sbi_segs_per_sec b = sbi_segs_per_sec a"
    "sbi_blocks_per_seg b = sbi_blocks_per_seg a" "geometry b = geometry a" "FREE_I b = FREE_I a" "DIRTY_I b = DIRTY_I a"
    "sm_segment_count (SM_I b) = sm_segment_count (SM_I a)" "start_cp_addr r ck b = start_cp_addr r ck a" "START_BLOCK b = START_BLOCK a"
    by (simp_all add: b(1) TOTAL_SEGS_def TOTAL_SECS_def geometry_def accessors start_cp_addr_def START_BLOCK_def Let_def fun_eq_iff)
  show l: "length (sm_curseg_array (SM_I b)) = length (sm_curseg_array (SM_I a))" using assms by (simp add: log_frame_def)
  then show "sm_curseg_array (SM_I b) \<noteq> [] \<or> sm_curseg_array (SM_I a) = []" by auto
  have "SIT_I b = (SIT_I a)\<lparr>sit_sentries := e\<rparr>" by (simp add: b(1) accessors)
  moreover have "list_all2 same_entry (sit_sentries (SIT_I a)) e" using assms b(2) by (simp add: log_frame_def)
  ultimately show "\<exists>ents. length ents = length (sit_sentries (SIT_I a)) \<and> SIT_I b = (SIT_I a)\<lparr>sit_sentries := ents\<rparr> \<and> (\<forall>i<length ents. same_entry (sit_sentries (SIT_I a) ! i) (ents ! i))"
    by (auto simp: list_all2_conv_all_nth)
qed

section \<open>The summaries of a node log\<close>

definition node_sum :: "nat \<Rightarrow> f2fs_summary" where
  "node_sum nid = \<lparr> sum_nid = nid, sum_ofs_in_node = 0, sum_version = 0 \<rparr>"

definition readable :: "(nat \<Rightarrow> nat option) \<Rightarrow> nat list \<Rightarrow> f2fs_summary list" where
  "readable nn addrs = map node_sum (List.map_filter nn addrs)"

lemma readable_simps [simp]:
  "readable nn [] = []" "nn a = None \<Longrightarrow> readable nn (a # as) = readable nn as"
  "nn a = Some nid \<Longrightarrow> readable nn (a # as) = node_sum nid # readable nn as"
  "readable nn (as @ bs) = readable nn as @ readable nn bs"
  by (simp_all add: readable_def List.map_filter_def)

lemma readable_le: "length (readable nn as) \<le> length as"
proof (induction "as")
  case (Cons a as)
  then show ?case by (cases "nn a") simp_all
qed simp

lemma restore_batch_eq:
  "k + length addrs \<le> length es \<Longrightarrow> restore_batch nn addrs k es err =
     (k + length (readable nn addrs), take k es @ readable nn addrs @ drop (k + length (readable nn addrs)) es,
      if \<exists>a\<in>set addrs. nn a = None then - errno_code EIO else err)"
proof (induction addrs arbitrary: k es err)
  case (Cons a as)
  show ?case
  proof (cases "nn a")
    case None
    then show ?thesis using Cons by auto
  next
    case (Some nid)
    have 1: "take (Suc k) (es[k := s]) = take k es @ [s]" "drop (Suc k + n) (es[k := s]) = drop (Suc k + n) es" for s n
      using Cons.prems by (simp_all add: take_Suc_conv_app_nth)
    have "length (es[k := node_sum nid]) = length es" by simp
    then have "restore_batch nn as (Suc k) (es[k := node_sum nid]) err =
      (Suc k + length (readable nn as), take (Suc k) (es[k := node_sum nid]) @ readable nn as @ drop (Suc k + length (readable nn as)) (es[k := node_sum nid]),
       if \<exists>a\<in>set as. nn a = None then - errno_code EIO else err)" using Cons by (intro Cons.IH) simp
    then show ?thesis unfolding 1 using Some by (simp add: node_sum_def [symmetric])
  qed
qed simp

definition last_batch :: "nat \<Rightarrow> nat \<Rightarrow> nat" where
  "last_batch bio n = (n - 1) div bio * bio"

lemma last_batch_step:
  assumes "bio dvd i" and "i < n" and "0 < bio"
  shows "n - i \<le> bio \<Longrightarrow> last_batch bio n = i" and "bio < n - i \<Longrightarrow> i + bio \<le> last_batch bio n"
proof -
  obtain q where q: "i = q * bio" using assms(1) by (metis dvd_div_mult_self)
  show "last_batch bio n = i" if "n - i \<le> bio"
  proof -
    have "q * bio \<le> n - 1" "n - 1 < Suc q * bio" using assms(2) that by (auto simp: q)
    then have "(n - 1) div bio = q" using assms(3)
      by (meson div_less_iff_less_mult le_antisym less_Suc_eq_le less_eq_div_iff_mult_less_eq)
    then show ?thesis by (simp add: last_batch_def q)
  qed
  show "i + bio \<le> last_batch bio n" if "bio < n - i"
  proof -
    have "Suc q * bio \<le> n - 1" using that by (simp add: q)
    then have "Suc q \<le> (n - 1) div bio" using assms(3) by (simp only: less_eq_div_iff_mult_less_eq)
    then have "Suc q * bio \<le> last_batch bio n" unfolding last_batch_def by (rule mult_le_mono1)
    then show ?thesis by (simp add: q)
  qed
qed

text \<open>The nodes that could be read, one after the other; the error is the one of the last batch.\<close>

lemma restore_node_from_eq:
  assumes bio: "0 < bio" and n: "n \<le> length es0" "a + n < 2 ^ 32"
  shows "bio dvd i \<or> n \<le> i \<Longrightarrow> i \<le> n \<Longrightarrow> k = length (readable nn [a..<a + i]) \<Longrightarrow> es = readable nn [a..<a + i] @ drop k es0 \<Longrightarrow>
    restore_node_from nn bio n i (a + i) k es err =
      Some (if i < n then if \<exists>j<n. last_batch bio n \<le> j \<and> nn (a + j) = None then - errno_code EIO else 0 else err,
        readable nn [a..<a + n] @ drop (length (readable nn [a..<a + n])) es0)"
proof (induction "n - i" arbitrary: i k es err rule: less_induct)
  case less
  show ?case
  proof (cases "i < n")
    case False
    then have "i = n" using less.prems by simp
    then show ?thesis using less.prems by (subst restore_node_from.simps) simp
  next
    case True
    then have dv: "bio dvd i" using less.prems by simp
    let ?r = "min (n - i) bio" and ?A = "readable nn [a..<a + i]" 
    let ?B = "readable nn [a + i..<a + i + ?r]"
    have kl: "k \<le> i" using readable_le [of nn "[a..<a + i]"] by (simp add: less.prems)
    then have "length es = length es0" using True n by (simp add: less.prems)
    then have b: "restore_batch nn [a + i..<a + i + ?r] k es 0 = (k + length ?B, take k es @ ?B @ drop (k + length ?B) es,
        if \<exists>x\<in>set [a + i..<a + i + ?r]. nn x = None then - errno_code EIO else 0)"
      using kl n(1) True by (intro restore_batch_eq) simp
    have t: "take k es @ ?B @ drop (k + length ?B) es = (?A @ ?B) @ drop (k + length ?B) es0"
      by (simp add: less.prems add.commute)
    have AB: "?A @ ?B = readable nn [a..<a + (i + ?r)]"
      unfolding readable_simps(4) [symmetric] by (simp add: upt_add_eq_append [symmetric] add.assoc [symmetric])
    have u: "u32 (a + i + ?r) = a + (i + ?r)" using n(2) True by (subst u32_id) auto
    have rb: "restore_batch nn [a + i..<a + i + ?r] k es 0 = (k + length ?B, readable nn [a..<a + (i + ?r)] @ drop (k + length ?B) es0,
        if \<exists>x\<in>set [a + i..<a + i + ?r]. nn x = None then - errno_code EIO else 0)" by (simp only: b t AB)
    have run: "restore_node_from nn bio n i (a + i) k es err = restore_node_from nn bio n (i + ?r) (a + (i + ?r)) (k + length ?B)
        (readable nn [a..<a + (i + ?r)] @ drop (k + length ?B) es0) (if \<exists>x\<in>set [a + i..<a + i + ?r]. nn x = None then - errno_code EIO else 0)"
      (is "_ = restore_node_from _ _ _ _ _ _ _ ?e")
      using True unfolding restore_node_from.simps [of nn bio n i] by (simp only: Let_def rb prod.case u if_True)
    have len: "k + length ?B = length (readable nn [a..<a + (i + ?r)])" unfolding AB [symmetric] by (simp add: less.prems)
    have d: "bio dvd i + ?r \<or> n \<le> i + ?r" using dv by (auto simp: min_def)
    have IH: "restore_node_from nn bio n i (a + i) k es err = Some (if i + ?r < n then if \<exists>j<n. last_batch bio n \<le> j \<and> nn (a + j) = None then - errno_code EIO else 0 else ?e,
        readable nn [a..<a + n] @ drop (length (readable nn [a..<a + n])) es0)"
      unfolding run using True bio by (intro less.hyps [OF _ d _ len]) (auto simp: len)
    show ?thesis
    proof (cases "i + ?r < n")
      case True
      then have "i + bio < n" by (auto simp: min_def split: if_splits)
      then show ?thesis using IH by simp
    next
      case False
      then have r: "?r = n - i" "n - i \<le> bio" by auto
      have "(\<exists>x\<in>set [a + i..<a + i + ?r]. nn x = None) \<longleftrightarrow> (\<exists>j<n. i \<le> j \<and> nn (a + j) = None)"
      proof
        assume "\<exists>x\<in>set [a + i..<a + i + ?r]. nn x = None"
        then obtain x where "a + i \<le> x" "x < a + n" "nn x = None" using True by (auto simp: r)
        then show "\<exists>j<n. i \<le> j \<and> nn (a + j) = None" by (intro exI [of _ "x - a"]) auto
      next
        assume "\<exists>j<n. i \<le> j \<and> nn (a + j) = None"
        then obtain j where "j < n" "i \<le> j" "nn (a + j) = None" by blast
        then show "\<exists>x\<in>set [a + i..<a + i + ?r]. nn x = None" using True by (intro bexI [of _ "a + j"]) (auto simp: r)
      qed
      then show ?thesis using IH True False last_batch_step(1) [OF dv True bio r(2)] by simp
    qed
  qed
qed

lemma restore_node_summary_eq:
  assumes "0 < bio" and "sbi_blocks_per_seg sbi \<le> length (sb_entries summ)" and "START_BLOCK sbi segno + sbi_blocks_per_seg sbi < 2 ^ 32"
    and "0 < sbi_blocks_per_seg sbi"
  defines "n \<equiv> sbi_blocks_per_seg sbi" and "a \<equiv> START_BLOCK sbi segno"
  shows "restore_node_summary nn bio sbi segno summ =
    Some (if \<exists>j<n. last_batch bio n \<le> j \<and> nn (a + j) = None then - errno_code EIO else 0,
      summ\<lparr>sb_entries := readable nn [a..<a + n] @ drop (length (readable nn [a..<a + n])) (sb_entries summ)\<rparr>)"
  using restore_node_from_eq [of bio n "sb_entries summ" a 0 0 nn "sb_entries summ" 0] assms
  by (simp add: restore_node_summary_def)

text \<open>The error of a batch that is not the last is forgotten, and the summaries move up.\<close>

lemma restore_node_summary_shifted:
  assumes "0 < bio" and b: "bio < sbi_blocks_per_seg sbi" and "sbi_blocks_per_seg sbi \<le> length (sb_entries summ)"
    and "START_BLOCK sbi segno + sbi_blocks_per_seg sbi < 2 ^ 32"
    and nn: "\<And>j. nn (START_BLOCK sbi segno + j) = (if j = 0 then None else Some (nid j))"
  shows "\<exists>summ'. restore_node_summary nn bio sbi segno summ = Some (0, summ')
    \<and> (\<forall>j< sbi_blocks_per_seg sbi - 1. sum_nid (sb_entries summ' ! j) = nid (j + 1))"
proof -
  let ?n = "sbi_blocks_per_seg sbi" and ?a = "START_BLOCK sbi segno"
  have rd: "readable nn [?a + 1..<?a + 1 + m] = map (\<lambda>j. node_sum (nid (j + 1))) [0..<m]" for m
    using nn by (induction m) (simp_all add: upt_Suc_append del: upt_Suc, simp_all add: add.assoc [symmetric] nn [of "Suc _", simplified])
  have u: "[?a..<?a + ?n] = ?a # [?a + 1..<?a + 1 + (?n - 1)]" using b by (simp add: upt_conv_Cons)
  have "nn ?a = None" using nn [of 0] by simp
  then have r: "readable nn [?a..<?a + ?n] = map (\<lambda>j. node_sum (nid (j + 1))) [0..<?n - 1]" unfolding u by (simp only: readable_simps(2) rd)
  have "last_batch bio ?n \<noteq> 0" using assms(1) b by (simp add: last_batch_def div_eq_0_iff)
  then have no: "\<not> (\<exists>j<?n. last_batch bio ?n \<le> j \<and> nn (?a + j) = None)" using nn by auto
  have "0 < ?n" using b by simp
  note R = restore_node_summary_eq [OF assms(1,3,4) this, of nn, unfolded if_not_P [OF no] r]
  show ?thesis unfolding R by (simp add: nth_append node_sum_def)
qed

section \<open>Restoring one log\<close>

definition log_at :: "f2fs_checkpoint \<Rightarrow> f2fs_sb_info \<Rightarrow> nat \<Rightarrow> bool" where
  "log_at ckpt sbi t \<longleftrightarrow> cs_segno (CURSEG_I sbi t) = ck_segno ckpt t \<and> cs_next_blkoff (CURSEG_I sbi t) = ck_blkoff ckpt t
     \<and> cs_alloc_type (CURSEG_I sbi t) = ck_alloc_type ckpt ! t"

text \<open>The code's three steps on a log, whatever its summaries are.\<close>

lemma restore_steps:
  fixes sbi E b segno at off
  assumes "t < length (sm_curseg_array (SM_I sbi))"
  defines "s2 \<equiv> reset_curseg E (set_CURSEG_I t ((CURSEG_I sbi t)\<lparr>cs_sum_blk := b, cs_next_segno := segno\<rparr>) sbi) t False"
  defines "s3 \<equiv> set_CURSEG_I t ((CURSEG_I s2 t)\<lparr>cs_alloc_type := at, cs_next_blkoff := off\<rparr>) s2"
  shows "log_frame sbi s3" "i \<noteq> t \<Longrightarrow> CURSEG_I s3 i = CURSEG_I sbi i" "cs_segno (CURSEG_I s3 t) = segno"
    "cs_next_blkoff (CURSEG_I s3 t) = off" "cs_alloc_type (CURSEG_I s3 t) = at" "sb_entries (cs_sum_blk (CURSEG_I s3 t)) = sb_entries b"
proof -
  have "log_frame sbi s2" unfolding s2_def by (rule log_frame_trans [OF log_frame_CURSEG log_frame_reset])
  then show "log_frame sbi s3" unfolding s3_def by (rule log_frame_trans [OF _ log_frame_CURSEG])
  let ?s1 = "set_CURSEG_I t ((CURSEG_I sbi t)\<lparr>cs_sum_blk := b, cs_next_segno := segno\<rparr>) sbi"
  have l: "t < length (sm_curseg_array (SM_I ?s1))" using assms(1) by simp
  note R = reset_curseg_mount [OF l, of E, folded s2_def]
  have l2: "t < length (sm_curseg_array (SM_I s2))" using R(2) l by simp
  show "i \<noteq> t \<Longrightarrow> CURSEG_I s3 i = CURSEG_I sbi i" using R(1) l2 by (simp add: s3_def CURSEG_I_set)
  show "cs_segno (CURSEG_I s3 t) = segno" "cs_next_blkoff (CURSEG_I s3 t) = off" "cs_alloc_type (CURSEG_I s3 t) = at"
    "sb_entries (cs_sum_blk (CURSEG_I s3 t)) = sb_entries b"
    using R(1) l2 assms(1) by (simp_all add: s3_def CURSEG_I_set)
qed

text \<open>The blocks of the node logs can be read; a volume that was unmounted has the ids in the checkpoint pack.\<close>

definition nodes_readable :: "f2fs_checkpoint \<Rightarrow> (nat \<Rightarrow> nat option) \<Rightarrow> f2fs_sb_info \<Rightarrow> nat \<Rightarrow> bool" where
  "nodes_readable ckpt nn sbi t \<longleftrightarrow> (IS_NODESEG t \<and> \<not> ck_umount ckpt \<longrightarrow>
     START_BLOCK sbi (ck_segno ckpt t) + sbi_blocks_per_seg sbi < 2 ^ 32
     \<and> (\<forall>j< sbi_blocks_per_seg sbi. nn (START_BLOCK sbi (ck_segno ckpt t) + j) \<noteq> None))"

definition pages_full :: "f2fs_sb_info \<Rightarrow> bool" where
  "pages_full sbi \<longleftrightarrow> (\<forall>a. sbi_blocks_per_seg sbi \<le> length (sb_entries (sbi_meta_pages sbi a)))"

lemma reset_pages [simp]: "sbi_meta_pages (reset_curseg E sbi t False) = sbi_meta_pages sbi"
  by (simp add: reset_curseg_def Let_def set_sit_entry_type_clean set_seg_entry_def)

lemma CURSEG_meta [simp]: "CURSEG_I (sbi\<lparr>sbi_meta_pages := m\<rparr>) = CURSEG_I sbi" "SM_I (sbi\<lparr>sbi_meta_pages := m\<rparr>) = SM_I sbi"
  by (simp_all add: CURSEG_I_def SM_I_def fun_eq_iff)

lemma read_normal_summaries_ok:
  assumes t: "t < length (sm_curseg_array (SM_I sbi))" and bio: "0 < bio" and bps: "0 < sbi_blocks_per_seg sbi"
    and pf: "pages_full sbi" and nr: "nodes_readable ckpt nn sbi t"
  obtains sbi' where "read_normal_summaries E rsb ckpt nn bio sbi t = Some (0, sbi')" "log_frame sbi sbi'" "log_at ckpt sbi' t"
    "\<And>i. i \<noteq> t \<Longrightarrow> CURSEG_I sbi' i = CURSEG_I sbi i" "pages_full sbi'"
    "IS_NODESEG t \<Longrightarrow> \<not> ck_umount ckpt \<Longrightarrow> \<forall>j< sbi_blocks_per_seg sbi. sb_entries (cs_sum_blk (CURSEG_I sbi' t)) ! j = node_sum (the (nn (START_BLOCK sbi (ck_segno ckpt t) + j)))"
proof -
  define blk_addr where "blk_addr = (if IS_DATASEG t
         then (if ck_umount ckpt then sum_blk_addr rsb ckpt sbi NR_CURSEG_TYPE t
               else sum_blk_addr rsb ckpt sbi NR_CURSEG_DATA_TYPE t)
         else (if ck_umount ckpt then sum_blk_addr rsb ckpt sbi NR_CURSEG_NODE_TYPE (t - CURSEG_HOT_NODE)
               else GET_SUM_BLOCK sbi (ck_segno ckpt t)))"
  let ?m = "sbi_meta_pages sbi blk_addr" and ?n = "sbi_blocks_per_seg sbi"
  let ?a = "START_BLOCK sbi (ck_segno ckpt t)"
  have len: "?n \<le> length (sb_entries ?m)" using pf by (simp add: pages_full_def)
  have rd: "readable nn as = map (\<lambda>x. node_sum (the (nn x))) as" if "\<forall>x\<in>set as. nn x \<noteq> None" for "as"
    using that by (induction "as") auto
  have r: "restore_node_summary nn bio sbi (ck_segno ckpt t) ?m = Some (0, ?m\<lparr>sb_entries := map (\<lambda>x. node_sum (the (nn x))) [?a..<?a + ?n] @ drop ?n (sb_entries ?m)\<rparr>)"
    if "IS_NODESEG t" "\<not> ck_umount ckpt"
  proof -
    have N: "?a + ?n < 2 ^ 32" "\<forall>j<?n. nn (?a + j) \<noteq> None" using nr that by (simp_all add: nodes_readable_def)
    have "\<forall>x\<in>set [?a..<?a + ?n]. nn x \<noteq> None"
    proof
      fix x assume "x \<in> set [?a..<?a + ?n]"
      then have "x - ?a < ?n" "?a + (x - ?a) = x" by auto
      then show "nn x \<noteq> None" using N(2) by metis
    qed
    from rd [OF this] restore_node_summary_eq [OF bio len N(1) bps] N(2) show ?thesis by auto
  qed
  obtain b where b: "(if IS_NODESEG t then (if ck_umount ckpt
        then Some (0, ?m\<lparr>sb_entries := map (\<lambda>s. s\<lparr>sum_version := 0, sum_ofs_in_node := 0\<rparr>) (take ?n (sb_entries ?m)) @ drop ?n (sb_entries ?m)\<rparr>)
        else restore_node_summary nn bio sbi (ck_segno ckpt t) ?m) else Some (0, ?m)) = Some (0 :: int, b)"
    "length (sb_entries b) = length (sb_entries ?m)"
    "IS_NODESEG t \<Longrightarrow> \<not> ck_umount ckpt \<Longrightarrow> \<forall>j<?n. sb_entries b ! j = node_sum (the (nn (?a + j)))"
    using r len by (cases "IS_NODESEG t"; cases "ck_umount ckpt") (auto simp: nth_append)
  define s1 where "s1 = sbi\<lparr>sbi_meta_pages := (sbi_meta_pages sbi)(blk_addr := b)\<rparr>"
  define s2 where "s2 = reset_curseg E (set_CURSEG_I t ((CURSEG_I s1 t)\<lparr>cs_sum_blk := b, cs_next_segno := ck_segno ckpt t\<rparr>) s1) t False"
  define s3 where "s3 = set_CURSEG_I t ((CURSEG_I s2 t)\<lparr>cs_alloc_type := ck_alloc_type ckpt ! t, cs_next_blkoff := ck_blkoff ckpt t\<rparr>) s2"
  have l1: "t < length (sm_curseg_array (SM_I s1))" using t by (simp add: s1_def)
  note R = restore_steps [OF l1, where E = E and b = b and segno = "ck_segno ckpt t" and at = "ck_alloc_type ckpt ! t" and off = "ck_blkoff ckpt t",
      folded s2_def, folded s3_def]
  have run: "read_normal_summaries E rsb ckpt nn bio sbi t = Some (0, s3)"
    unfolding read_normal_summaries_def Let_def blk_addr_def [symmetric] b(1) by (simp add: s1_def s2_def s3_def)
  have fr: "log_frame sbi s3" using log_frame_trans [OF log_frame_page R(1) [unfolded s1_def]] by (simp add: s1_def)
  have "pages_full s3"
    using pf b(2) log_frameD(4) [OF fr] by (auto simp: pages_full_def s3_def s2_def s1_def)
  then show ?thesis using R b(3) by (intro that [OF run fr]) (auto simp: log_at_def s1_def)
qed

section \<open>Restoring all logs\<close>

lemma nodes_readable_frame: "log_frame a b \<Longrightarrow> nodes_readable ckpt nn b = nodes_readable ckpt nn a"
  by (simp add: nodes_readable_def log_frameD(4,12) fun_eq_iff)

lemma log_at_cong: "CURSEG_I b t = CURSEG_I a t \<Longrightarrow> log_at ckpt b t = log_at ckpt a t"
  by (simp add: log_at_def)

lemma read_normal_logs_ok:
  assumes bio: "0 < bio"
  shows "distinct ts \<Longrightarrow> \<forall>t\<in>set ts. t < length (sm_curseg_array (SM_I sbi)) \<and> nodes_readable ckpt nn sbi t \<Longrightarrow>
    0 < sbi_blocks_per_seg sbi \<Longrightarrow> pages_full sbi \<Longrightarrow>
    \<exists>sbi'. read_normal_logs E rsb ckpt nn bio ts sbi = Some (0, sbi') \<and> log_frame sbi sbi' \<and> (\<forall>t\<in>set ts. log_at ckpt sbi' t)
      \<and> (\<forall>t. t \<notin> set ts \<longrightarrow> CURSEG_I sbi' t = CURSEG_I sbi t)"
proof (induction ts arbitrary: sbi)
  case (Cons t ts)
  obtain s where s: "read_normal_summaries E rsb ckpt nn bio sbi t = Some (0, s)" "log_frame sbi s" "log_at ckpt s t"
    "\<And>i. i \<noteq> t \<Longrightarrow> CURSEG_I s i = CURSEG_I sbi i" "pages_full s"
    using Cons.prems by (auto intro: read_normal_summaries_ok [OF _ bio, of t sbi ckpt nn E rsb])
  note F = log_frameD [OF s(2)]
  obtain s' where s': "read_normal_logs E rsb ckpt nn bio ts s = Some (0, s')" "log_frame s s'" "\<forall>t\<in>set ts. log_at ckpt s' t"
    "\<forall>t. t \<notin> set ts \<longrightarrow> CURSEG_I s' t = CURSEG_I s t"
    using Cons.IH [of s] Cons.prems s(5) F(4,11) nodes_readable_frame [OF s(2), of ckpt nn] by auto
  have "read_normal_logs E rsb ckpt nn bio (t # ts) sbi = Some (0, s')" using s(1) s'(1) by simp
  moreover have "log_frame sbi s'" by (rule log_frame_trans [OF s(2) s'(2)])
  moreover have "CURSEG_I s' t = CURSEG_I s t" using s'(4) Cons.prems(1) by simp
  then have "log_at ckpt s' t" using s(3) by (simp only: log_at_cong [of s' t s])
  then have "\<forall>u\<in>set (t # ts). log_at ckpt s' u" using s'(3) by simp
  moreover have "\<forall>u. u \<notin> set (t # ts) \<longrightarrow> CURSEG_I s' u = CURSEG_I sbi u" using s(4) s'(4) by simp
  ultimately show ?case by blast
qed simp

lemma read_log_frame:
  assumes run: "read_log E K ckpt pages i (sbi, r) = (sbi', r')" and i: "i < length (sm_curseg_array (SM_I sbi))" and d: "IS_DATASEG i"
  shows "log_frame sbi sbi'" "log_at ckpt sbi' i" "t \<noteq> i \<Longrightarrow> CURSEG_I sbi' t = CURSEG_I sbi t" "sbi_meta_pages sbi' = sbi_meta_pages sbi"
proof -
  define s2 where "s2 = reset_curseg E (set_CURSEG_I i ((CURSEG_I sbi i)\<lparr>cs_sum_blk := cs_sum_blk (CURSEG_I sbi i), cs_next_segno := ck_cur_data_segno ckpt ! i\<rparr>) sbi) i False"
  define s3 where "s3 = set_CURSEG_I i ((CURSEG_I s2 i)\<lparr>cs_alloc_type := ck_alloc_type ckpt ! i, cs_next_blkoff := ck_cur_data_blkoff ckpt ! i\<rparr>) s2"
  note R = restore_steps [OF i, where E = E and b = "cs_sum_blk (CURSEG_I sbi i)" and segno = "ck_cur_data_segno ckpt ! i"
        and at = "ck_alloc_type ckpt ! i" and off = "ck_cur_data_blkoff ckpt ! i",
      folded s2_def, folded s3_def]
  have s2: "s2 = reset_curseg E (set_CURSEG_I i ((CURSEG_I sbi i)\<lparr>cs_next_segno := ck_cur_data_segno ckpt ! i\<rparr>) sbi) i False"
    by (simp add: s2_def)
  obtain b where e: "sbi' = set_CURSEG_I i ((CURSEG_I s3 i)\<lparr>cs_sum_blk := b\<rparr>) s3"
    using run unfolding read_log_def Let_def prod.case s2 [symmetric] s3_def [symmetric]
    by (auto split: prod.splits)
  have l3: "i < length (sm_curseg_array (SM_I s3))" using log_frameD(11) [OF R(1)] i by simp
  show "log_frame sbi sbi'" unfolding e by (rule log_frame_trans [OF R(1) log_frame_CURSEG])
  show "log_at ckpt sbi' i" using R(3-5) d l3 by (simp add: e log_at_def CURSEG_I_set ck_segno_def ck_blkoff_def)
  show "t \<noteq> i \<Longrightarrow> CURSEG_I sbi' t = CURSEG_I sbi t" using R(2) l3 by (simp add: e CURSEG_I_set)
  show "sbi_meta_pages sbi' = sbi_meta_pages sbi" by (simp add: e s3_def s2_def)
qed

lemma read_logs_frame:
  assumes "fold (read_log E K ckpt pages) is (sbi, r) = (sbi', r')" and "distinct is" "\<forall>i\<in>set is. i < length (sm_curseg_array (SM_I sbi)) \<and> IS_DATASEG i"
  shows "log_frame sbi sbi' \<and> (\<forall>i\<in>set is. log_at ckpt sbi' i) \<and> (\<forall>t. t \<notin> set is \<longrightarrow> CURSEG_I sbi' t = CURSEG_I sbi t)
    \<and> sbi_meta_pages sbi' = sbi_meta_pages sbi"
  using assms
proof (induction "is" arbitrary: sbi r)
  case (Cons i "is")
  obtain s q where s: "read_log E K ckpt pages i (sbi, r) = (s, q)" by fastforce
  note R = read_log_frame [OF s]
  have f: "log_frame sbi s" using R(1) Cons.prems by simp
  have "log_frame s sbi' \<and> (\<forall>i\<in>set is. log_at ckpt sbi' i) \<and> (\<forall>t. t \<notin> set is \<longrightarrow> CURSEG_I sbi' t = CURSEG_I s t) \<and> sbi_meta_pages sbi' = sbi_meta_pages s"
    using Cons.prems s log_frameD(11) [OF f] by (intro Cons.IH [of s q]) auto
  moreover have "log_at ckpt s i" "CURSEG_I s t = CURSEG_I sbi t" "sbi_meta_pages s = sbi_meta_pages sbi" if "t \<noteq> i" for t
    using R(2-4) Cons.prems that by simp_all
  ultimately show ?case using Cons.prems(2) log_frame_trans [OF f] log_at_cong [of sbi' i s ckpt] R(2,4) Cons.prems(3) by simp
qed simp

lemma restore_curseg_summaries_ok:
  assumes len: "length (sm_curseg_array (SM_I sbi)) = NR_CURSEG_TYPE" and bio: "0 < bio" and bps: "0 < sbi_blocks_per_seg sbi" and pf: "pages_full sbi"
    and nr: "\<And>t. t < NR_CURSEG_TYPE \<Longrightarrow> nodes_readable ckpt nn sbi t"
  obtains journals' sbi' where "restore_curseg_summaries E K rsb ckpt nn bio pages journals sbi = Some (0, journals', sbi')" "log_frame sbi sbi'"
    "\<And>t. t < NR_CURSEG_TYPE \<Longrightarrow> log_at ckpt sbi' t"
    "journals' = (if ck_compact_sum ckpt then (cpp_nats (pages (start_sum_block rsb ckpt sbi)), cpp_sits (pages (start_sum_block rsb ckpt sbi))) else journals)"
proof (cases "ck_compact_sum ckpt")
  case False
  have ts: "set [CURSEG_HOT_DATA..<CURSEG_COLD_NODE + 1] = {..<NR_CURSEG_TYPE}" by (auto simp: curseg_types)
  obtain s where s: "read_normal_logs E rsb ckpt nn bio [CURSEG_HOT_DATA..<CURSEG_COLD_NODE + 1] sbi = Some (0, s)" "log_frame sbi s"
    "\<forall>t\<in>set [CURSEG_HOT_DATA..<CURSEG_COLD_NODE + 1]. log_at ckpt s t"
    using read_normal_logs_ok [OF bio distinct_upt [of CURSEG_HOT_DATA "CURSEG_COLD_NODE + 1"], of sbi ckpt nn E rsb] len nr bps pf unfolding ts by auto
  show ?thesis using s(2,3) False unfolding ts
    by (intro that [of journals s]) (simp_all add: restore_curseg_summaries_def s(1) Let_def del: upt_Suc add_Suc_right One_nat_def)
next
  case True
  let ?start = "start_sum_block rsb ckpt sbi"
  obtain s r where s: "fold (read_log E K ckpt pages) [CURSEG_HOT_DATA..<CURSEG_COLD_DATA + 1] (sbi, \<lparr> sr_page = ?start, sr_start = u32 (?start + 1), sr_offset = 2 * SUM_JOURNAL_SIZE K \<rparr>) = (s, r)"
    by fastforce
  have rc: "read_compacted_summaries E K ckpt pages ?start sbi = (cpp_nats (pages ?start), cpp_sits (pages ?start), s)"
    unfolding read_compacted_summaries_def Let_def s by simp
  have ds: "set [CURSEG_HOT_DATA..<CURSEG_COLD_DATA + 1] = {..<3}" and ns: "set [CURSEG_HOT_NODE..<CURSEG_COLD_NODE + 1] = {3..<6}"
    and n6: "NR_CURSEG_TYPE = 6" by (auto simp: curseg_types)
  have dt: "IS_DATASEG i" if "i < 3" for i using that by (auto simp: IS_DATASEG_def curseg_types)
  have R: "log_frame sbi s" "\<forall>i<3. log_at ckpt s i" "sbi_meta_pages s = sbi_meta_pages sbi"
    using read_logs_frame [OF s distinct_upt] len dt unfolding ds n6 by auto
  note F = log_frameD [OF R(1)]
  have pf': "pages_full s" using pf F(4) R(3) by (simp add: pages_full_def)
  obtain s' where s': "read_normal_logs E rsb ckpt nn bio [CURSEG_HOT_NODE..<CURSEG_COLD_NODE + 1] s = Some (0, s')" "log_frame s s'"
    "\<forall>t\<in>{3..<6}. log_at ckpt s' t" "\<forall>t. t \<notin> {3..<6} \<longrightarrow> CURSEG_I s' t = CURSEG_I s t"
    using read_normal_logs_ok [OF bio distinct_upt [of CURSEG_HOT_NODE "CURSEG_COLD_NODE + 1"], of s ckpt nn E rsb] len nr bps pf' F(4,11)
      nodes_readable_frame [OF R(1), of ckpt nn] unfolding ns n6 by auto
  have la: "log_at ckpt s' t" if "t < NR_CURSEG_TYPE" for t
  proof (cases "t < 3")
    case True
    then show ?thesis using R(2) s'(4) log_at_cong [of s' t s] by auto
  next
    case False
    then show ?thesis using s'(3) that by (auto simp: n6)
  qed
  show ?thesis using True la log_frame_trans [OF R(1) s'(2)]
    by (intro that [of "(cpp_nats (pages ?start), cpp_sits (pages ?start))" s'])
      (simp_all add: restore_curseg_summaries_def rc s'(1) Let_def del: upt_Suc add_Suc_right One_nat_def)
qed

end
