(* ===== verification/Mount_Ok.thy ===== *)
theory Mount_Ok
  imports Mount_Logs
begin

text \<open>
  Mounting a well-formed volume establishes the invariant of the segment manager
  (\<open>build_segment_manager_ok\<close>): the entries in memory are the ones on disk, the logs are where the checkpoint
  left them, and the bitmaps and dirty lists agree with both.
\<close>

section \<open>The volume that is mounted\<close>

text \<open>The segment manager before the logs are restored, and the table on disk as it finds it.\<close>

definition mount_start :: "f2fs_env \<Rightarrow> nat \<Rightarrow> f2fs_super_block \<Rightarrow> f2fs_checkpoint \<Rightarrow> f2fs_sb_info \<Rightarrow> f2fs_sb_info" where
  "mount_start E n rsb ckpt sbi =
    (let sbi = build_free_segmap (build_sit_info E rsb ckpt (sbi\<lparr>sbi_sm_info := init_sm_info rsb ckpt\<rparr>))
     in sbi\<lparr>sbi_sm_info := (SM_I sbi)\<lparr>sm_curseg_array := replicate NR_CURSEG_TYPE (zero_curseg n)\<rparr>\<rparr>)"

definition pack_journals ::
  "f2fs_super_block \<Rightarrow> f2fs_checkpoint \<Rightarrow> (nat \<Rightarrow> cp_page) \<Rightarrow> f2fs_nat_entry journal \<times> f2fs_sit_entry journal \<Rightarrow> f2fs_sb_info \<Rightarrow>
   f2fs_nat_entry journal \<times> f2fs_sit_entry journal" where
  "pack_journals rsb ckpt cp_pages journals sbi =
    (if ck_compact_sum ckpt then let page = cp_pages (start_sum_block rsb ckpt sbi) in (cpp_nats page, cpp_sits page) else journals)"

definition image_state ::
  "f2fs_env \<Rightarrow> nat \<Rightarrow> f2fs_super_block \<Rightarrow> f2fs_checkpoint \<Rightarrow> (nat \<Rightarrow> cp_page) \<Rightarrow> f2fs_nat_entry journal \<times> f2fs_sit_entry journal \<Rightarrow>
   (nat \<Rightarrow> sit_page) \<Rightarrow> f2fs_sb_info \<Rightarrow> sit_state" where
  "image_state E n rsb ckpt cp_pages journals pages sbi =
    (let sbi0 = mount_start E n rsb ckpt sbi
     in \<lparr> ss_sbi = sbi0, ss_journal = snd (pack_journals rsb ckpt cp_pages journals sbi0), ss_pages = pages \<rparr>)"

text \<open>What the checkpoint says about the logs fits the table.\<close>

definition ckpt_logs_ok :: "f2fs_env \<Rightarrow> f2fs_checkpoint \<Rightarrow> sit_state \<Rightarrow> bool" where
  "ckpt_logs_ok E ckpt S \<longleftrightarrow>
     (\<forall>t<NR_CURSEG_TYPE. ck_segno ckpt t < TOTAL_SEGS (ss_sbi S) \<and> ck_blkoff ckpt t < sbi_blocks_per_seg (ss_sbi S)
        \<and> \<not> bits_of (rs_valid_map (disk_sit E S (ck_segno ckpt t))) (ck_blkoff ckpt t)
        \<and> (ck_alloc_type ckpt ! t = LFS \<longrightarrow> (\<forall>i. ck_blkoff ckpt t \<le> i \<and> i < sbi_blocks_per_seg (ss_sbi S) \<longrightarrow>
             \<not> bits_of (rs_valid_map (disk_sit E S (ck_segno ckpt t))) i)))
     \<and> (\<forall>s<NR_CURSEG_TYPE. \<forall>t<NR_CURSEG_TYPE. s \<noteq> t \<longrightarrow> ck_segno ckpt s \<noteq> ck_segno ckpt t)"

definition image_ok :: "f2fs_env \<Rightarrow> node_layout \<Rightarrow> f2fs_checkpoint \<Rightarrow> (nat \<Rightarrow> nat option) \<Rightarrow> sit_state \<Rightarrow> bool" where
  "image_ok E L ckpt nn S \<longleftrightarrow> sit_image_ok E L S \<and> ckpt_logs_ok E ckpt S \<and> pages_full (ss_sbi S)
     \<and> 0 < sbi_blocks_per_seg (ss_sbi S) \<and> 0 < TOTAL_SEGS (ss_sbi S) \<and> 8 dvd SIT_VBLOCK_MAP_SIZE E
     \<and> (\<forall>t<NR_CURSEG_TYPE. nodes_readable ckpt nn (ss_sbi S) t)
     \<and> ck_valid_block_count ckpt < 2 ^ 32
     \<and> ck_valid_block_count ckpt = (\<Sum>i<TOTAL_SEGS (ss_sbi S). GET_SIT_VBLOCKS E (rs_vblocks (disk_sit E S i)))"

lemma mount_start_simps:
  "TOTAL_SEGS (mount_start E n rsb ckpt sbi) = rsb_segment_count_main rsb"
  "sm_curseg_array (SM_I (mount_start E n rsb ckpt sbi)) = replicate NR_CURSEG_TYPE (zero_curseg n)"
  "fresh_free (mount_start E n rsb ckpt sbi)"
  "sit_written_valid_blocks (SIT_I (mount_start E n rsb ckpt sbi)) = u32 (ck_valid_block_count ckpt)"
  "sit_dirty_sentries (SIT_I (mount_start E n rsb ckpt sbi)) = 0"
  "sit_dirty_sentries_bitmap (SIT_I (mount_start E n rsb ckpt sbi)) = (\<lambda>_. False)"
  by (simp_all add: mount_start_def Let_def build_free_segmap_def build_sit_info_def init_sm_info_def TOTAL_SEGS_def fresh_free_def
      free_segments_def free_sections_def accessors setters)

lemma mount_start_fresh: "fresh_sit E \<lparr> ss_sbi = mount_start E n rsb ckpt sbi, ss_journal = j, ss_pages = p \<rparr>"
  by (simp add: fresh_sit_def get_seg_entry_def mount_start_def Let_def build_free_segmap_def build_sit_info_def init_sm_info_def
      TOTAL_SEGS_def TOTAL_SECS_def accessors setters zero_seg_entry_def)

section \<open>The table is read after the logs are restored\<close>

lemma same_entryD:
  assumes "same_entry x y"
  shows "se_cur_valid_map y = se_cur_valid_map x" "se_ckpt_valid_map y = se_ckpt_valid_map x"
proof -
  obtain ty where "y = x\<lparr>se_type := ty\<rparr>" using assms unfolding same_entry_def by blast
  then show "se_cur_valid_map y = se_cur_valid_map x" "se_ckpt_valid_map y = se_ckpt_valid_map x" by simp_all
qed

lemma image_frame:
  fixes j p
  assumes f: "log_frame a b"
  defines "S \<equiv> \<lparr> ss_sbi = a, ss_journal = j, ss_pages = p \<rparr>" and "S' \<equiv> \<lparr> ss_sbi = b, ss_journal = j, ss_pages = p \<rparr>"
  shows "disk_sit E S' = disk_sit E S" "sit_image_ok E L S' = sit_image_ok E L S" "fresh_sit E S \<Longrightarrow> fresh_sit E S'"
proof -
  note F = log_frameD [OF f]
  obtain ents where e: "length ents = length (sit_sentries (SIT_I a))" "SIT_I b = (SIT_I a)\<lparr>sit_sentries := ents\<rparr>"
    "\<forall>i<length ents. same_entry (sit_sentries (SIT_I a) ! i) (ents ! i)" using F(10) by blast
  have sa: "sit_addr E (SIT_I b) = sit_addr E (SIT_I a)" by (rule sit_addr_cong) (simp_all add: e)
  then show d: "disk_sit E S' = disk_sit E S" by (simp add: disk_sit_def S_def S'_def fun_eq_iff cong: option.case_cong)
  have sg: "sit_geom E b = sit_geom E a" by (simp add: sit_geom_def e F)
  have "sit_shape E L S' = sit_shape E L S" by (simp add: sit_shape_def S_def S'_def sg F)
  then show "sit_image_ok E L S' = sit_image_ok E L S" using d by (simp add: sit_image_ok_def) (simp add: S_def S'_def F)
  show "fresh_sit E S'" if "fresh_sit E S"
  proof -
    have l: "length ents = TOTAL_SEGS a" using that e by (simp add: fresh_sit_def S_def)
    have "se_cur_valid_map (sit_entry S' k) = se_cur_valid_map (sit_entry S k)"
      "se_ckpt_valid_map (sit_entry S' k) = se_ckpt_valid_map (sit_entry S k)" if "k < TOTAL_SEGS a" for k
    proof -
      have "same_entry (sit_sentries (SIT_I a) ! k) (ents ! k)" using e l that by simp
      then show "se_cur_valid_map (sit_entry S' k) = se_cur_valid_map (sit_entry S k)"
        "se_ckpt_valid_map (sit_entry S' k) = se_ckpt_valid_map (sit_entry S k)"
        using same_entryD by (simp_all add: S_def S'_def e(2) get_seg_entry_def)
    qed
    then show ?thesis using that e l F by (auto simp: fresh_sit_def S_def S'_def)
  qed
qed

section \<open>What the table says\<close>

lemma built_sit_ok:
  assumes im: "sit_image_ok E L S1" and fr: "fresh_sit E S1" and b: "building E S1 (TOTAL_SEGS (ss_sbi S1)) S2"
    and w: "sit_written_valid_blocks (SIT_I (ss_sbi S1)) = (\<Sum>i<TOTAL_SEGS (ss_sbi S1). GET_SIT_VBLOCKS E (rs_vblocks (disk_sit E S1 i)))"
    and d: "sit_dirty_sentries (SIT_I (ss_sbi S1)) = 0" "sit_dirty_sentries_bitmap (SIT_I (ss_sbi S1)) = (\<lambda>_. False)"
  shows "sit_ok E (ss_sbi S2)" "types_ok (ss_sbi S2)"
    "\<And>i. i < TOTAL_SEGS (ss_sbi S1) \<Longrightarrow> loaded E (get_seg_entry (ss_sbi S2) i) (disk_sit E S1 i)"
    "\<And>i. i < TOTAL_SEGS (ss_sbi S1) \<Longrightarrow> vblocks (ss_sbi S2) i < 2 ^ 16"
    "FREE_I (ss_sbi S2) = FREE_I (ss_sbi S1)" "CURSEG_I (ss_sbi S2) = CURSEG_I (ss_sbi S1)" "SM_I (ss_sbi S2) = (SM_I (ss_sbi S1))\<lparr>sm_sit_info := SIT_I (ss_sbi S2)\<rparr>"
    "geometry (ss_sbi S2) = geometry (ss_sbi S1)"
proof -
  let ?T = "TOTAL_SEGS (ss_sbi S1)" and ?n = "sbi_blocks_per_seg (ss_sbi S1)"
  note I = sit_image_okD [OF im] and B = buildingD [OF b]
  obtain ents secs where e: "ss_sbi S2 = set_SIT_I ((SIT_I (ss_sbi S1))\<lparr>sit_sentries := ents, sit_sec_entries := secs\<rparr>) (ss_sbi S1)"
    "length ents = length (sit_sentries (SIT_I (ss_sbi S1)))" "length secs = length (sit_sec_entries (SIT_I (ss_sbi S1)))"
    using b by (auto simp: building_def)
  show "FREE_I (ss_sbi S2) = FREE_I (ss_sbi S1)" "CURSEG_I (ss_sbi S2) = CURSEG_I (ss_sbi S1)"
    "SM_I (ss_sbi S2) = (SM_I (ss_sbi S1))\<lparr>sm_sit_info := SIT_I (ss_sbi S2)\<rparr>" by (simp_all add: e(1)) (simp add: accessors setters)
  show g: "geometry (ss_sbi S2) = geometry (ss_sbi S1)" by (simp add: e(1))
  show ld: "loaded E (get_seg_entry (ss_sbi S2) i) (disk_sit E S1 i)" if "i < ?T" for i using B(12) that by simp
  have so: "seg_ok E ?n (get_seg_entry (ss_sbi S2) i)" "se_type (get_seg_entry (ss_sbi S2) i) < NR_CURSEG_TYPE" if "i < ?T" for i
    using loaded_ok [OF ld [OF that] I(7) [OF that]] .
  then show "types_ok (ss_sbi S2)" by (simp add: types_ok_def B(4))
  have v: "vblocks (ss_sbi S2) i = GET_SIT_VBLOCKS E (rs_vblocks (disk_sit E S1 i))" if "i < ?T" for i
    using ld [OF that] by (simp add: vblocks_def loaded_def)
  show "vblocks (ss_sbi S2) i < 2 ^ 16" if "i < ?T" for i
    using v [OF that] I(7) [OF that] I(5) count_bits_le [of ?n "bits_of (rs_valid_map (disk_sit E S1 i))"] by (simp add: raw_entry_ok_def)
  have "sit_written_valid_blocks (SIT_I (ss_sbi S2)) = (\<Sum>i<?T. vblocks (ss_sbi S2) i)"
    using w v by (simp add: e(1))
  moreover have "sec_valid_blocks (sit_sec_entries (SIT_I (ss_sbi S2)) ! s) = (\<Sum>i\<in>sec_segs (ss_sbi S2) s. vblocks (ss_sbi S2) i)"
    if "1 < sbi_segs_per_sec (ss_sbi S1)" "s < TOTAL_SECS (ss_sbi S1)" for s
  proof -
    have "Suc s * sbi_segs_per_sec (ss_sbi S1) \<le> ?T" using geometryD(6) [OF I(2)] mult_le_mono1 [of "Suc s" "TOTAL_SECS (ss_sbi S1)"] that(2) by simp
    then have "sec_segs (ss_sbi S1) s \<inter> {..<?T} = sec_segs (ss_sbi S2) s" by (auto simp: sec_segs_def B(6))
    then show ?thesis using b that by (simp add: building_def)
  qed
  moreover have "1 < sbi_segs_per_sec (ss_sbi S1) \<Longrightarrow> length (sit_sec_entries (SIT_I (ss_sbi S2))) = TOTAL_SECS (ss_sbi S1)"
    using fr e(3) by (simp add: e(1) fresh_sit_def)
  moreover have "length (sit_sentries (SIT_I (ss_sbi S2))) = ?T" using fr e(2) by (simp add: e(1) fresh_sit_def)
  moreover have "sit_dirty_sentries (SIT_I (ss_sbi S2)) = count_bits ?T (sit_dirty_sentries_bitmap (SIT_I (ss_sbi S2)))"
    using d by (simp add: e(1) count_bits_def)
  ultimately show "sit_ok E (ss_sbi S2)" using I so(1) by (simp add: sit_ok_def g B)
qed

lemma sit_ok_mtime: "sit_ok E (set_SIT_I ((SIT_I sbi)\<lparr>sit_min_mtime := a, sit_max_mtime := b\<rparr>) sbi) = sit_ok E sbi"
  and preds_mtime:
    "get_seg_entry (set_SIT_I ((SIT_I sbi)\<lparr>sit_min_mtime := a, sit_max_mtime := b\<rparr>) sbi) = get_seg_entry sbi"
    "vblocks (set_SIT_I ((SIT_I sbi)\<lparr>sit_min_mtime := a, sit_max_mtime := b\<rparr>) sbi) = vblocks sbi"
    "live (set_SIT_I ((SIT_I sbi)\<lparr>sit_min_mtime := a, sit_max_mtime := b\<rparr>) sbi) = live sbi"
    "seg_inuse (set_SIT_I ((SIT_I sbi)\<lparr>sit_min_mtime := a, sit_max_mtime := b\<rparr>) sbi) = seg_inuse sbi"
    "is_dirty (set_SIT_I ((SIT_I sbi)\<lparr>sit_min_mtime := a, sit_max_mtime := b\<rparr>) sbi) = is_dirty sbi"
proof -
  let ?s = "set_SIT_I ((SIT_I sbi)\<lparr>sit_min_mtime := a, sit_max_mtime := b\<rparr>) sbi"
  show g: "get_seg_entry ?s = get_seg_entry sbi" by (simp add: get_seg_entry_def fun_eq_iff)
  show v: "vblocks ?s = vblocks sbi" by (rule vblocks_cong [OF g])
  show "live ?s = live sbi" by (rule live_cong [OF g])
  show "seg_inuse ?s = seg_inuse sbi" "is_dirty ?s = is_dirty sbi" by (simp_all add: seg_inuse_def is_dirty_def fun_eq_iff)
  show "sit_ok E ?s = sit_ok E sbi" by (simp add: sit_ok_def g v sec_segs_def)
qed

lemma fs_ok_mtime:
  "fs_ok E (set_SIT_I ((SIT_I sbi)\<lparr>sit_min_mtime := a, sit_max_mtime := b\<rparr>) sbi) X = fs_ok E sbi X"
proof -
  let ?s = "set_SIT_I ((SIT_I sbi)\<lparr>sit_min_mtime := a, sit_max_mtime := b\<rparr>) sbi"
  note P = preds_mtime [where sbi = sbi and a = a and b = b]
  have t: "types_ok ?s = types_ok sbi" by (simp add: types_ok_def P(1))
  have ls: "log_seg ?s = log_seg sbi" by (simp add: log_seg_def fun_eq_iff)
  have "free_ok ?s = free_ok sbi" by (rule free_ok_cong) simp_all
  moreover have "dirty_ok ?s = dirty_ok sbi" by (rule dirty_ok_cong) (simp_all add: t)
  moreover have "logs_ok ?s X = logs_ok sbi X" by (simp add: logs_ok_def log_space_def ls P)
  moreover have "free_empty ?s = free_empty sbi" by (simp add: free_empty_def P)
  ultimately show ?thesis by (simp add: fs_ok_def sit_ok_mtime)
qed

section \<open>Mounting\<close>

text \<open>What the segment manager must be once it is built from the image \<open>S0\<close>.\<close>

definition mounted :: "f2fs_env \<Rightarrow> f2fs_checkpoint \<Rightarrow> sit_state \<Rightarrow> sit_state \<Rightarrow> bool" where
  "mounted E ckpt S0 S \<longleftrightarrow> ss_journal S = ss_journal S0 \<and> ss_pages S = ss_pages S0 \<and> TOTAL_SEGS (ss_sbi S) = TOTAL_SEGS (ss_sbi S0)
     \<and> (\<forall>t<NR_CURSEG_TYPE. log_at ckpt (ss_sbi S) t)
     \<and> (\<forall>i<TOTAL_SEGS (ss_sbi S0). loaded E (get_seg_entry (ss_sbi S) i) (disk_sit E S0 i)
          \<and> (seg_inuse (ss_sbi S) i \<longleftrightarrow> 0 < vblocks (ss_sbi S) i \<or> (\<exists>t<NR_CURSEG_TYPE. ck_segno ckpt t = i)))
     \<and> (\<forall>t<NR_DIRTY_TYPE. \<forall>i. is_dirty (ss_sbi S) t i \<longleftrightarrow> must_dirty (ss_sbi S) i \<and> (t = DIRTY \<or> t = se_type (get_seg_entry (ss_sbi S) i)))"

lemma fs_ok_built:
  assumes k: "kernel_ok E" and sit: "sit_ok E sbi" and ty: "types_ok sbi" and vb: "\<And>i. i < TOTAL_SEGS sbi \<Longrightarrow> vblocks sbi i < 2 ^ 16"
    and fr: "fresh_free sbi" and len: "length (sm_curseg_array (SM_I sbi)) = NR_CURSEG_TYPE"
    and seg: "\<And>t. t < NR_CURSEG_TYPE \<Longrightarrow> log_seg sbi t < TOTAL_SEGS sbi" and sp: "\<And>t. t < NR_CURSEG_TYPE \<Longrightarrow> log_space sbi (CURSEG_I sbi t)"
    and inj: "\<And>s t. s < NR_CURSEG_TYPE \<Longrightarrow> t < NR_CURSEG_TYPE \<Longrightarrow> s \<noteq> t \<Longrightarrow> log_seg sbi s \<noteq> log_seg sbi t"
    and dv: "8 dvd sbi_blocks_per_seg sbi" "8 dvd SIT_VBLOCK_MAP_SIZE E"
  obtains sbi' where "build_dirty_segmap E (init_free_segmap E sbi) = Some sbi'" "fs_ok E sbi' {}"
    "CURSEG_I sbi' = CURSEG_I sbi" "get_seg_entry sbi' = get_seg_entry sbi" "TOTAL_SEGS sbi' = TOTAL_SEGS sbi"
    "\<And>i. i < TOTAL_SEGS sbi \<Longrightarrow> seg_inuse sbi' i \<longleftrightarrow> 0 < vblocks sbi i \<or> (\<exists>t<NR_CURSEG_TYPE. log_seg sbi t = i)"
    "\<And>t i. t < NR_DIRTY_TYPE \<Longrightarrow> is_dirty sbi' t i \<longleftrightarrow> must_dirty sbi' i \<and> (t = DIRTY \<or> t = se_type (get_seg_entry sbi i))"
proof -
  let ?f = "init_free_segmap E sbi"
  have T: "TOTAL_SEGS sbi < 2 ^ 32" using TOTAL_SEGS_less [OF sit_okD(1) [OF sit]] by simp
  note FR = init_free_segmap_ok [OF k sit_okD(1) [OF sit] T fr seg]
  note F = free_frameD [OF FR(2)]
  have gf: "get_seg_entry ?f = get_seg_entry sbi" by (rule get_seg_entry_frame [OF FR(2)])
  have bf: "sbi_blocks_per_seg ?f = sbi_blocks_per_seg sbi" "sm_curseg_array (SM_I ?f) = sm_curseg_array (SM_I sbi)"
    using FR(2) unfolding free_frame_def by (metis set_FREE_I_frame)+
  have vf: "vblocks ?f = vblocks sbi" by (rule vblocks_cong [OF gf])
  have tf: "types_ok ?f" using ty by (simp add: types_ok_def gf F(1))
  obtain s where s: "build_dirty_segmap E ?f = Some s" "dirty_ok s" "dirty_frame ?f s"
    "\<And>t i. t < NR_DIRTY_TYPE \<Longrightarrow> is_dirty s t i \<longleftrightarrow> must_dirty ?f i \<and> (t = DIRTY \<or> t = se_type (get_seg_entry ?f i))"
  proof -
    have "TOTAL_SEGS ?f < 2 ^ 32" "sbi_blocks_per_seg ?f < 2 ^ 16" "\<And>i. i < TOTAL_SEGS ?f \<Longrightarrow> vblocks ?f i < 2 ^ 16"
      using T sit_okD(4) [OF sit] vb by (simp_all add: F(1) bf vf)
    from build_dirty_segmap_ok [OF k this tf] that show thesis by blast
  qed
  note D = dirty_frameD [OF s(3)]
  have gs: "get_seg_entry s = get_seg_entry sbi" using D(7) gf by (simp add: get_seg_entry_def fun_eq_iff)
  have vs: "vblocks s = vblocks sbi" and ls: "live s = live sbi" by (rule vblocks_cong [OF gs], rule live_cong [OF gs])
  have si: "seg_inuse s = seg_inuse ?f" by (simp add: seg_inuse_def D(6) fun_eq_iff)
  have lg: "log_seg s = log_seg sbi" "CURSEG_I s = CURSEG_I sbi" using D(8) F(7) by (simp_all add: log_seg_def fun_eq_iff)
  have iu: "seg_inuse s i \<longleftrightarrow> 0 < vblocks sbi i \<or> (\<exists>t<NR_CURSEG_TYPE. log_seg sbi t = i)" if "i < TOTAL_SEGS sbi" for i
    unfolding si using FR(3) [of i] that by simp
  have "sit_ok E s = sit_ok E sbi" by (rule sit_ok_cong) (simp_all add: D F bf)
  then have so: "sit_ok E s" using sit by simp
  have fo: "free_ok s" using FR(1) free_ok_cong [of s ?f] D by simp
  have lo: "logs_ok s {}" unfolding logs_ok_def lg log_space_def ls
    using len seg sp inj iu by (auto simp: D bf F(1) log_space_def)
  have fe: "free_empty s" using iu by (auto simp: free_empty_def vs D(1) F(1))
  have "fs_ok E s {}" using so s(2) fo lo fe dv by (simp add: fs_ok_def D(4) bf)
  moreover have "must_dirty s = must_dirty ?f" by (rule must_dirty_frame [OF s(3)])
  ultimately show ?thesis using s(1,4) gs gf lg(2) D(1) F(1) iu by (intro that [of s]) simp_all
qed

lemma build_segment_manager_ok:
  assumes k: "kernel_ok E" and bio: "0 < bio" and im: "image_ok E L ckpt nn (image_state E n rsb ckpt cp_pages journals pages sbi)"
  obtains nats S where "build_segment_manager E K n rsb ckpt nn bio cp_pages journals pages sbi = Some (0, nats, S)"
    "fs_ok E (ss_sbi S) {}" "mounted E ckpt (image_state E n rsb ckpt cp_pages journals pages sbi) S"
    "nats = fst (pack_journals rsb ckpt cp_pages journals (mount_start E n rsb ckpt sbi))"
proof -
  define sbi0 where "sbi0 = mount_start E n rsb ckpt sbi"
  define S0 where "S0 = image_state E n rsb ckpt cp_pages journals pages sbi"
  have S0: "S0 = \<lparr> ss_sbi = sbi0, ss_journal = snd (pack_journals rsb ckpt cp_pages journals sbi0), ss_pages = pages \<rparr>"
    by (simp add: S0_def image_state_def Let_def sbi0_def)
  have I: "sit_image_ok E L S0" "ckpt_logs_ok E ckpt S0" "pages_full sbi0" "0 < sbi_blocks_per_seg sbi0" "0 < TOTAL_SEGS sbi0" "8 dvd SIT_VBLOCK_MAP_SIZE E"
    "\<And>t. t < NR_CURSEG_TYPE \<Longrightarrow> nodes_readable ckpt nn sbi0 t" "ck_valid_block_count ckpt < 2 ^ 32"
    "ck_valid_block_count ckpt = (\<Sum>i<TOTAL_SEGS sbi0. GET_SIT_VBLOCKS E (rs_vblocks (disk_sit E S0 i)))"
    using im by (simp_all add: image_ok_def S0_def [symmetric] S0)
  note M = mount_start_simps [of E n rsb ckpt sbi, folded sbi0_def]
  have len: "length (sm_curseg_array (SM_I sbi0)) = NR_CURSEG_TYPE" by (simp add: M)
  obtain js sbi1 where R: "restore_curseg_summaries E K rsb ckpt nn bio cp_pages journals sbi0 = Some (0, js, sbi1)" "log_frame sbi0 sbi1"
    "\<And>t. t < NR_CURSEG_TYPE \<Longrightarrow> log_at ckpt sbi1 t" "js = pack_journals rsb ckpt cp_pages journals sbi0"
    using restore_curseg_summaries_ok [OF len bio I(4) I(3) I(7), where E = E and K = K and rsb = rsb and pages = cp_pages and journals = journals]
    unfolding pack_journals_def Let_def by blast
  note F = log_frameD [OF R(2)]
  define S1 where "S1 = \<lparr> ss_sbi = sbi1, ss_journal = snd js, ss_pages = pages \<rparr>"
  note FR = image_frame [OF R(2), where j = "snd js" and p = pages, folded S1_def, folded R(4), folded S0 [folded R(4)]]
  have im1: "sit_image_ok E L S1" using I(1) FR(2) by simp
  have fr1: "fresh_sit E S1" by (rule FR(3)) (simp add: S0 sbi0_def mount_start_fresh)
  have T1: "0 < TOTAL_SEGS (ss_sbi S1)" "TOTAL_SEGS (ss_sbi S1) = TOTAL_SEGS sbi0" using I(5) F(1) by (simp_all add: S1_def)
  obtain S2 where S2: "build_sit_entries E bio S1 = Some S2" "building E S1 (TOTAL_SEGS (ss_sbi S1)) S2"
    using build_sit_entries_ok [OF k im1 fr1 bio T1(1)] by blast
  obtain ents where e: "SIT_I sbi1 = (SIT_I sbi0)\<lparr>sit_sentries := ents\<rparr>" using F(10) by blast
  have w: "sit_written_valid_blocks (SIT_I (ss_sbi S1)) = (\<Sum>i<TOTAL_SEGS (ss_sbi S1). GET_SIT_VBLOCKS E (rs_vblocks (disk_sit E S1 i)))"
    unfolding T1(2) FR(1) I(9) [symmetric] using I(8) by (simp add: S1_def e M(4) u32_id)
  have d: "sit_dirty_sentries (SIT_I (ss_sbi S1)) = 0" "sit_dirty_sentries_bitmap (SIT_I (ss_sbi S1)) = (\<lambda>_. False)"
    by (simp_all add: S1_def e M)
  note B = built_sit_ok [OF im1 fr1 S2(2) w d] and BD = buildingD [OF S2(2)]
  have cs: "CURSEG_I (ss_sbi S2) = CURSEG_I sbi1" "sm_curseg_array (SM_I (ss_sbi S2)) = sm_curseg_array (SM_I sbi1)"
    unfolding B(6,7) by (simp_all add: S1_def)
  have T2: "TOTAL_SEGS (ss_sbi S2) = TOTAL_SEGS sbi0" "sbi_blocks_per_seg (ss_sbi S2) = sbi_blocks_per_seg sbi0" using BD(4,7) T1(2) F(4) by (simp_all add: S1_def)
  have la: "log_at ckpt (ss_sbi S2) t" if "t < NR_CURSEG_TYPE" for t using R(3) [OF that] by (simp add: log_at_def cs)
  have lv: "live (ss_sbi S2) i = bits_of (rs_valid_map (disk_sit E S0 i))" if "i < TOTAL_SEGS sbi0" for i
    using B(3) [unfolded T1(2) FR(1), OF that] by (simp add: live_def loaded_def fun_eq_iff)
  have ck: "ck_segno ckpt t < TOTAL_SEGS sbi0" "log_space (ss_sbi S2) (CURSEG_I (ss_sbi S2) t)" if "t < NR_CURSEG_TYPE" for t
  proof -
    show s: "ck_segno ckpt t < TOTAL_SEGS sbi0" using I(2) that by (simp add: ckpt_logs_ok_def S0)
    show "log_space (ss_sbi S2) (CURSEG_I (ss_sbi S2) t)"
      using I(2) that la [OF that] by (simp add: log_space_def log_at_def lv [OF s] T2 ckpt_logs_ok_def S0 [symmetric]) (simp add: S0)
  qed
  have lg: "log_seg (ss_sbi S2) t = ck_segno ckpt t" if "t < NR_CURSEG_TYPE" for t using la [OF that] by (simp add: log_at_def log_seg_def)
  have ff: "fresh_free (ss_sbi S2)" using M(3) by (simp add: fresh_free_def free_segments_def free_sections_def B(5)) (simp add: S1_def F(6))
  obtain s3 where s3: "build_dirty_segmap E (init_free_segmap E (ss_sbi S2)) = Some s3" "fs_ok E s3 {}"
    "CURSEG_I s3 = CURSEG_I (ss_sbi S2)" "get_seg_entry s3 = get_seg_entry (ss_sbi S2)" "TOTAL_SEGS s3 = TOTAL_SEGS (ss_sbi S2)"
    "\<And>i. i < TOTAL_SEGS (ss_sbi S2) \<Longrightarrow> seg_inuse s3 i \<longleftrightarrow> 0 < vblocks (ss_sbi S2) i \<or> (\<exists>t<NR_CURSEG_TYPE. log_seg (ss_sbi S2) t = i)"
    "\<And>t i. t < NR_DIRTY_TYPE \<Longrightarrow> is_dirty s3 t i \<longleftrightarrow> must_dirty s3 i \<and> (t = DIRTY \<or> t = se_type (get_seg_entry (ss_sbi S2) i))"
  proof (rule fs_ok_built [OF k B(1) B(2) _ ff, of thesis])
    show "i < TOTAL_SEGS (ss_sbi S2) \<Longrightarrow> vblocks (ss_sbi S2) i < 2 ^ 16" for i using B(4) T2 T1(2) by simp
    show "length (sm_curseg_array (SM_I (ss_sbi S2))) = NR_CURSEG_TYPE" using F(11) len by (simp add: cs)
    show "8 dvd sbi_blocks_per_seg (ss_sbi S2)" using sit_image_okD(6) [OF I(1)] by (simp add: T2 S0)
    show "s < NR_CURSEG_TYPE \<Longrightarrow> t < NR_CURSEG_TYPE \<Longrightarrow> s \<noteq> t \<Longrightarrow> log_seg (ss_sbi S2) s \<noteq> log_seg (ss_sbi S2) t" for s t
      using I(2) lg by (simp add: ckpt_logs_ok_def)
  qed (use ck lg T2 I(6) in auto)
  define S3 where "S3 = S2\<lparr>ss_sbi := init_min_max_mtime E s3\<rparr>"
  obtain a b where mm: "init_min_max_mtime E s3 = set_SIT_I ((SIT_I s3)\<lparr>sit_min_mtime := a, sit_max_mtime := b\<rparr>) s3"
    by (simp add: init_min_max_mtime_def Let_def)
  note P = preds_mtime [where sbi = s3 and a = a and b = b, folded mm]
  have run: "build_segment_manager E K n rsb ckpt nn bio cp_pages journals pages sbi = Some (0, fst js, S3)"
  proof -
    have "build_curseg E K n rsb ckpt nn bio cp_pages journals (build_free_segmap (build_sit_info E rsb ckpt (sbi\<lparr>sbi_sm_info := init_sm_info rsb ckpt\<rparr>)))
        = Some (0, js, sbi1)"
      unfolding build_curseg_def using R(1) by (simp add: sbi0_def mount_start_def Let_def)
    then show ?thesis using S2(1) s3(1) by (simp add: build_segment_manager_def Let_def S1_def [symmetric] S3_def)
  qed
  have md: "must_dirty (init_min_max_mtime E s3) = must_dirty s3"
    by (simp add: must_dirty_def P fun_eq_iff) (simp add: mm)
  have "mounted E ckpt S0 S3"
    unfolding mounted_def
  proof (intro conjI allI impI)
    show "ss_journal S3 = ss_journal S0" "ss_pages S3 = ss_pages S0" using BD(1,2) by (simp_all add: S3_def S1_def S0 R(4))
    show "TOTAL_SEGS (ss_sbi S3) = TOTAL_SEGS (ss_sbi S0)" using s3(5) T2 by (simp add: S3_def S0 mm)
    show "log_at ckpt (ss_sbi S3) t" if "t < NR_CURSEG_TYPE" for t using la [OF that] s3(3) by (simp add: log_at_def S3_def mm)
    fix i assume i: "i < TOTAL_SEGS (ss_sbi S0)"
    then have i0: "i < TOTAL_SEGS sbi0" by (simp add: S0)
    show "loaded E (get_seg_entry (ss_sbi S3) i) (disk_sit E S0 i)"
      using B(3) [unfolded T1(2) FR(1), OF i0] by (simp add: S3_def P s3(4))
    have v: "vblocks s3 i = vblocks (ss_sbi S2) i" by (simp add: vblocks_def s3(4))
    have "(\<exists>t<NR_CURSEG_TYPE. log_seg (ss_sbi S2) t = i) \<longleftrightarrow> (\<exists>t<NR_CURSEG_TYPE. ck_segno ckpt t = i)" using lg by auto
    then show "seg_inuse (ss_sbi S3) i \<longleftrightarrow> 0 < vblocks (ss_sbi S3) i \<or> (\<exists>t<NR_CURSEG_TYPE. ck_segno ckpt t = i)"
      using s3(6) [of i] i0 T2 by (simp add: S3_def P v)
  next
    fix t i assume "t < NR_DIRTY_TYPE"
    then show "is_dirty (ss_sbi S3) t i \<longleftrightarrow> must_dirty (ss_sbi S3) i \<and> (t = DIRTY \<or> t = se_type (get_seg_entry (ss_sbi S3) i))"
      using s3(7) by (simp add: S3_def P md s3(4))
  qed
  moreover have "fs_ok E (ss_sbi S3) {}" using s3(2) fs_ok_mtime [where sbi = s3 and a = a and b = b] by (simp add: S3_def mm)
  ultimately show ?thesis using run by (intro that [of "fst js" S3]) (simp_all add: S0_def R(4) sbi0_def)
qed

end
