(* ===== verification/Remount.thy ===== *)
theory Remount
  imports Mount_Ok
begin

text \<open>
  A checkpoint and the next mount: the entries that \<open>build_sit_entries\<close> reads are the ones that were in
  memory when \<open>flush_sit_entries\<close> wrote them, but for the number of cleanings, which is not stored.
\<close>

definition same_but_cleaning :: "seg_entry \<Rightarrow> seg_entry \<Rightarrow> bool" where
  "same_but_cleaning a b \<longleftrightarrow> b = (ckpted a)\<lparr>se_numberofcleaning := se_numberofcleaning b\<rparr>"

text \<open>A mount of the volume of \<open>S\<close> finds the journal, the pages and the places of the table as the flush left
  them in \<open>S'\<close>.\<close>

definition same_disk :: "f2fs_env \<Rightarrow> sit_state \<Rightarrow> sit_state \<Rightarrow> sit_state \<Rightarrow> bool" where
  "same_disk E S S' S0 \<longleftrightarrow> ss_journal S0 = ss_journal S' \<and> ss_pages S0 = ss_pages S' \<and> sit_addr E (SIT_I (ss_sbi S0)) = sit_addr E (SIT_I (ss_sbi S'))
     \<and> sit_geom E (ss_sbi S0) \<and> geometry (ss_sbi S0) \<and> TOTAL_SEGS (ss_sbi S0) = TOTAL_SEGS (ss_sbi S)
     \<and> sbi_blocks_per_seg (ss_sbi S0) = sbi_blocks_per_seg (ss_sbi S)"

text \<open>The fields of an entry on disk are wide enough.\<close>

definition sit_fits :: "f2fs_env \<Rightarrow> f2fs_sb_info \<Rightarrow> bool" where
  "sit_fits E sbi \<longleftrightarrow> raw_sit_ok E \<and> sbi_blocks_per_seg sbi < 2 ^ SIT_VBLOCKS_SHIFT E \<and> NR_CURSEG_TYPE \<le> 2 ^ (16 - SIT_VBLOCKS_SHIFT E)"

lemma raw_sit_entry_ok:
  assumes so: "seg_ok E bps se" and ty: "se_type se < NR_CURSEG_TYPE"
    and fit: "raw_sit_ok E" "bps < 2 ^ SIT_VBLOCKS_SHIFT E" "NR_CURSEG_TYPE \<le> 2 ^ (16 - SIT_VBLOCKS_SHIFT E)"
  shows "raw_entry_ok E bps (raw_sit E se)" "loaded E se' (raw_sit E se) \<Longrightarrow> same_but_cleaning se se'"
proof -
  have "se_valid_blocks se \<le> bps" using so count_bits_le by (simp add: seg_ok_def)
  then have v: "GET_SIT_VBLOCKS E (rs_vblocks (raw_sit E se)) = se_valid_blocks se" "GET_SIT_TYPE E (rs_vblocks (raw_sit E se)) = se_type se"
    using raw_vblocks [OF fit(1), of "se_valid_blocks se" "se_type se"] fit(2,3) ty by (simp_all add: raw_sit_def)
  then show "raw_entry_ok E bps (raw_sit E se)" using so ty by (simp add: raw_entry_ok_def seg_ok_def raw_sit_def)
  show "loaded E se' (raw_sit E se) \<Longrightarrow> same_but_cleaning se se'"
    using v by (simp add: loaded_def same_but_cleaning_def raw_sit_def ckpted_def)
qed

lemma flush_then_build:
  assumes k: "kernel_ok E" and sh: "sit_shape E L S" and ok: "sit_ok E (ss_sbi S)" "types_ok (ss_sbi S)" "free_ok (ss_sbi S)"
    and dk: "sit_disk_ok E S"
    and clean: "\<And>k. k < TOTAL_SEGS (ss_sbi S) \<Longrightarrow> \<not> sp_dirty (ss_pages S (sit_addr E (SIT_I (ss_sbi S)) k))"
    and al: "8 dvd SIT_VBLOCK_MAP_SIZE E" "8 dvd sbi_blocks_per_seg (ss_sbi S)" and fit: "sit_fits E (ss_sbi S)"
    and run: "flush_sit_entries E L S = Some S'" and sd: "same_disk E S S' S0" and fr: "fresh_sit E S0"
    and np: "0 < np" "0 < TOTAL_SEGS (ss_sbi S)"
  shows "\<exists>S1. build_sit_entries E np S0 = Some S1 \<and> (\<forall>k<TOTAL_SEGS (ss_sbi S). same_but_cleaning (sit_entry S k) (sit_entry S1 k))"
proof -
  let ?T = "TOTAL_SEGS (ss_sbi S)" and ?n = "sbi_blocks_per_seg (ss_sbi S)"
  have F: "sit_shape E L S'" "\<And>k. k < ?T \<Longrightarrow> disk_sit E S' k = raw_sit E (sit_entry S k)" "TOTAL_SEGS (ss_sbi S') = ?T"
    using flush_sit_entries_ok [OF k sh ok(1,3) dk clean al] run by auto
  have D: "ss_journal S0 = ss_journal S'" "ss_pages S0 = ss_pages S'" "sit_addr E (SIT_I (ss_sbi S0)) = sit_addr E (SIT_I (ss_sbi S'))"
    "sit_geom E (ss_sbi S0)" "geometry (ss_sbi S0)" "TOTAL_SEGS (ss_sbi S0) = ?T" "sbi_blocks_per_seg (ss_sbi S0) = ?n"
    using sd by (simp_all add: same_disk_def)
  have d: "disk_sit E S0 = disk_sit E S'" by (simp add: disk_sit_def D fun_eq_iff cong: option.case_cong)
  have se: "seg_ok E ?n (sit_entry S k)" "se_type (sit_entry S k) < NR_CURSEG_TYPE" if "k < ?T" for k
    using sit_okD(6) [OF ok(1) that] ok(2) that by (simp_all add: types_ok_def)
  have fits: "raw_sit_ok E" "?n < 2 ^ SIT_VBLOCKS_SHIFT E" "NR_CURSEG_TYPE \<le> 2 ^ (16 - SIT_VBLOCKS_SHIFT E)"
    using fit by (simp_all add: sit_fits_def)
  have "sit_shape E L S0" using F(1) D(4) by (simp add: sit_shape_def D F(3))
  then have im: "sit_image_ok E L S0"
    using raw_sit_entry_ok(1) [OF se fits] F(2) sit_okD [OF ok(1)] al(2)
    by (simp add: sit_image_ok_def D(5-7) d)
  obtain S1 where S1: "build_sit_entries E np S0 = Some S1" "building E S0 (TOTAL_SEGS (ss_sbi S0)) S1"
    using build_sit_entries_ok [OF k im fr np(1)] np(2) D(6) by auto
  have "same_but_cleaning (sit_entry S k) (sit_entry S1 k)" if "k < ?T" for k
    using buildingD(12) [OF S1(2), of k] raw_sit_entry_ok(2) [OF se [OF that] fits] F(2) [OF that] that by (simp add: D(6) d)
  then show ?thesis using S1(1) by blast
qed

end
