(* ===== verification/Checkpoint.thy ===== *)
theory Checkpoint
  imports Orphans Remount Nat_Ops Prefree Space
begin

text \<open>
  Checkpoints (\<open>checkpoint.c\<close>): \<open>write_checkpoint\<close> makes the NAT and SIT entries durable and then writes a
  pack of blocks, between two copies of the checkpoint block; the packs of odd and even versions
  take turns in two segments.  \<open>get_valid_checkpoint\<close> picks at mount the newest pack whose two copies agree.
\<close>

section \<open>Blocks\<close>

text \<open>The checkpoint block and the checksum that is stored in it at \<open>checksum_offset\<close>.\<close>

record cp_block =
  cb_ckpt :: f2fs_checkpoint
  cb_crc :: "32 word"

text \<open>The journal in the summary block of a log.\<close>

datatype sum_journal = Nat_Journal "f2fs_nat_entry journal" | Sit_Journal "f2fs_sit_entry journal" | No_Journal

text \<open>A block of the checkpoint area by what was written into it.\<close>

datatype meta_block =
    Cp_Block cp_block
  | Orphan_Block orphan_block
  | Compact_Block cp_page
  | Sum_Block f2fs_summary_block sum_journal
  | Other_Block "8 word list"

text \<open>
  The layout of blocks, which \<open>linux/f2fs_fs.h\<close> gives: the first \<open>n\<close> bytes of a checkpoint block, and how the
  bytes of any block read as each kind of structure.
\<close>

record cp_layout =
  blocksize :: nat
  F2FS_SUPER_MAGIC :: "32 word"
  F2FS_ORPHANS_PER_BLOCK :: nat
  cp_bytes :: "f2fs_checkpoint \<Rightarrow> nat \<Rightarrow> 8 word list"
  as_cp :: "meta_block \<Rightarrow> cp_block"
  as_orphan :: "meta_block \<Rightarrow> orphan_block"
  as_compact :: "meta_block \<Rightarrow> cp_page"
  as_sum :: "meta_block \<Rightarrow> f2fs_summary_block \<times> sum_journal"

text \<open>A block reads as what was written.\<close>

definition reads_back :: "cp_layout \<Rightarrow> bool" where
  "reads_back C \<longleftrightarrow> (\<forall>c. as_cp C (Cp_Block c) = c) \<and> (\<forall>b. as_orphan C (Orphan_Block b) = b) \<and> (\<forall>p. as_compact C (Compact_Block p) = p)
     \<and> (\<forall>b j. as_sum C (Sum_Block b j) = (b, j))"

section \<open>The checksum\<close>

unbundle bit_operations_syntax

definition CRCPOLY_LE :: "32 word" where "CRCPOLY_LE = 0xedb88320"

definition crc_shift :: "32 word \<Rightarrow> 32 word" where
  "crc_shift crc = drop_bit 1 crc XOR (if crc AND 1 \<noteq> 0 then CRCPOLY_LE else 0)"

definition crc_byte :: "8 word \<Rightarrow> 32 word \<Rightarrow> 32 word" where
  "crc_byte b crc = (crc_shift ^^ 8) (crc XOR ucast b)"

definition f2fs_crc32 :: "32 word \<Rightarrow> 8 word list \<Rightarrow> 32 word" where
  "f2fs_crc32 magic buf = fold crc_byte buf magic"


definition f2fs_crc_valid :: "cp_layout \<Rightarrow> 32 word \<Rightarrow> f2fs_checkpoint \<Rightarrow> nat \<Rightarrow> bool" where
  "f2fs_crc_valid C blk_crc cp buf_size = (f2fs_crc32 (F2FS_SUPER_MAGIC C) (cp_bytes C cp buf_size) = blk_crc)"

section \<open>Finding the checkpoint at mount\<close>

text \<open>\<open>ver_after(a, b)\<close> reads the difference as a signed number.\<close>

definition ver_after :: "nat \<Rightarrow> nat \<Rightarrow> bool" where
  "ver_after a b = (let d = sub64 a b in 0 < d \<and> d < 2 ^ 63)"

definition validate_checkpoint :: "cp_layout \<Rightarrow> (nat \<Rightarrow> meta_block) \<Rightarrow> nat \<Rightarrow> (cp_block \<times> nat) option" where
  "validate_checkpoint C disk cp_addr =
    (let cp_page_1 = as_cp C (disk cp_addr);
         crc_offset = ck_checksum_offset (cb_ckpt cp_page_1)
     in if blocksize C \<le> crc_offset then None
        else if \<not> f2fs_crc_valid C (cb_crc cp_page_1) (cb_ckpt cp_page_1) crc_offset then None
        else
          let pre_version = ck_version (cb_ckpt cp_page_1);
              cp_addr = u32 (cp_addr + sub32 (ck_pack_total_block_count (cb_ckpt cp_page_1)) 1);
              cp_page_2 = as_cp C (disk cp_addr);
              crc_offset = ck_checksum_offset (cb_ckpt cp_page_2)
          in if blocksize C \<le> crc_offset then None
             else if \<not> f2fs_crc_valid C (cb_crc cp_page_2) (cb_ckpt cp_page_2) crc_offset then None
             else
               let cur_version = ck_version (cb_ckpt cp_page_2)
               in if cur_version = pre_version then Some (cp_page_1, cur_version) else None)"

definition get_valid_checkpoint :: "cp_layout \<Rightarrow> f2fs_super_block \<Rightarrow> (nat \<Rightarrow> meta_block) \<Rightarrow> errno + cp_block" where
  "get_valid_checkpoint C fsb disk =
    (let cp_start_blk_no = rsb_cp_blkaddr fsb;
         cp1 = validate_checkpoint C disk (u32 cp_start_blk_no);
         cp_start_blk_no = u64 (cp_start_blk_no + push_bit (rsb_log_blocks_per_seg fsb) 1);
         cp2 = validate_checkpoint C disk (u32 cp_start_blk_no)
     in case (cp1, cp2) of
          (Some (p1, v1), Some (p2, v2)) \<Rightarrow> if ver_after v2 v1 then Inr p2 else Inr p1
        | (Some (p1, v1), None) \<Rightarrow> Inr p1
        | (None, Some (p2, v2)) \<Rightarrow> Inr p2
        | (None, None) \<Rightarrow> Inl EINVAL)"

text \<open>The inodes that \<open>recover_orphan_inodes\<close> hands to \<open>recover_orphan_inode\<close>, and the checkpoint without its flag.\<close>

definition start_sum_addr :: "f2fs_checkpoint \<Rightarrow> nat" where
  "start_sum_addr ckpt = ck_pack_start_sum ckpt"

definition recover_orphan_inodes :: "cp_layout \<Rightarrow> f2fs_super_block \<Rightarrow> f2fs_checkpoint \<Rightarrow> f2fs_sb_info \<Rightarrow> (nat \<Rightarrow> meta_block) \<Rightarrow> nat list \<times> f2fs_checkpoint" where
  "recover_orphan_inodes C raw_super ckpt sbi disk =
    (if \<not> ck_orphan_present ckpt then ([], ckpt)
     else
       let start_blk = u32 (start_cp_addr raw_super ckpt sbi + 1);
           orphan_blkaddr = sub32 (start_sum_addr ckpt) 1
       in (recovered_orphans (\<lambda>a. as_orphan C (disk a)) start_blk orphan_blkaddr, ckpt\<lparr>ck_orphan_present := False\<rparr>))"

text \<open>The journals that a mount finds in the summary blocks of the first and the third data log; each block is copied into the log
  as a whole.\<close>

definition disk_journals ::
  "cp_layout \<Rightarrow> f2fs_super_block \<Rightarrow> f2fs_checkpoint \<Rightarrow> f2fs_sb_info \<Rightarrow> (nat \<Rightarrow> meta_block) \<Rightarrow> f2fs_nat_entry journal \<times> f2fs_sit_entry journal" where
  "disk_journals C raw_super ckpt sbi disk =
    (let blk_addr = (\<lambda>type. sum_blk_addr raw_super ckpt sbi (if ck_umount ckpt then NR_CURSEG_TYPE else NR_CURSEG_DATA_TYPE) type);
         journal = (\<lambda>type. snd (as_sum C (disk (blk_addr type))))
     in (case journal CURSEG_HOT_DATA of Nat_Journal j \<Rightarrow> j | _ \<Rightarrow> \<lparr> jr_n = 0, jr_entries = [] \<rparr>,
         case journal CURSEG_COLD_DATA of Sit_Journal j \<Rightarrow> j | _ \<Rightarrow> \<lparr> jr_n = 0, jr_entries = [] \<rparr>))"

section \<open>Summaries in the pack\<close>

definition sum_journal_of :: "f2fs_nat_entry journal \<Rightarrow> f2fs_sit_entry journal \<Rightarrow> nat \<Rightarrow> sum_journal" where
  "sum_journal_of nats sits i = (if i = CURSEG_HOT_DATA then Nat_Journal nats else if i = CURSEG_COLD_DATA then Sit_Journal sits else No_Journal)"

definition write_normal_summaries ::
  "f2fs_nat_entry journal \<Rightarrow> f2fs_sit_entry journal \<Rightarrow> f2fs_sb_info \<Rightarrow> nat \<Rightarrow> nat \<Rightarrow> f2fs_sb_info \<times> (nat \<times> meta_block) list" where
  "write_normal_summaries nats sits sbi blkaddr type =
    (let end = (if IS_DATASEG type then type + NR_CURSEG_DATA_TYPE else type + NR_CURSEG_NODE_TYPE)
     in (fold (\<lambda>i sbi. write_sum_page sbi (cs_sum_blk (CURSEG_I sbi i)) (u32 (blkaddr + (i - type)))) [type..<end] sbi,
         map (\<lambda>i. (u32 (blkaddr + (i - type)), Sum_Block (cs_sum_blk (CURSEG_I sbi i)) (sum_journal_of nats sits i))) [type..<end]))"

definition write_data_summaries ::
  "cp_layout \<Rightarrow> sum_layout \<Rightarrow> f2fs_checkpoint \<Rightarrow> (nat \<Rightarrow> meta_block) \<Rightarrow> f2fs_nat_entry journal \<Rightarrow> f2fs_sit_entry journal \<Rightarrow> f2fs_sb_info \<Rightarrow> nat \<Rightarrow>
   f2fs_sb_info \<times> (nat \<times> meta_block) list" where
  "write_data_summaries C K ckpt meta nats sits sbi start_blk =
    (if ck_compact_sum ckpt
     then let w = compact_writer K ckpt sbi nats sits (\<lambda>a. as_compact C (meta a)) start_blk
          in (sbi, map (\<lambda>i. let a = u32 (start_blk + i) in (a, Compact_Block (sw_pages w a))) [0..<sub32 (sw_blkaddr w) start_blk])
     else write_normal_summaries nats sits sbi start_blk CURSEG_HOT_DATA)"

definition write_node_summaries ::
  "f2fs_checkpoint \<Rightarrow> f2fs_nat_entry journal \<Rightarrow> f2fs_sit_entry journal \<Rightarrow> f2fs_sb_info \<Rightarrow> nat \<Rightarrow> f2fs_sb_info \<times> (nat \<times> meta_block) list" where
  "write_node_summaries ckpt nats sits sbi start_blk =
    (if ck_umount ckpt then write_normal_summaries nats sits sbi start_blk CURSEG_HOT_NODE else (sbi, []))"

section \<open>A checkpoint\<close>

definition curseg_segno :: "f2fs_sb_info \<Rightarrow> nat \<Rightarrow> nat" where
  "curseg_segno sbi type = cs_segno (CURSEG_I sbi type)"

definition curseg_alloc_type :: "f2fs_sb_info \<Rightarrow> nat \<Rightarrow> alloc_mode" where
  "curseg_alloc_type sbi type = cs_alloc_type (CURSEG_I sbi type)"

text \<open>The number \<open>nid\<close> stays as it is when there is no free node id; a list that is empty then would be a bug.\<close>

definition next_free_nid :: "f2fs_nm_info \<Rightarrow> nat \<Rightarrow> nat option" where
  "next_free_nid nm nid = (if nm_fcnt nm = 0 then Some nid else case nm_free_nid_list nm of [] \<Rightarrow> None | fnid # _ \<Rightarrow> Some (fn_nid fnid))"

definition get_sit_bitmap :: "f2fs_sb_info \<Rightarrow> 8 word list" where
  "get_sit_bitmap sbi = sit_bitmap (SIT_I sbi)"

definition get_nat_bitmap :: "f2fs_nm_info \<Rightarrow> 8 word list" where
  "get_nat_bitmap nm = nm_nat_bitmap nm"

text \<open>What a checkpoint works on: segment manager, node manager, orphans, the checkpoint in memory, the cache of meta
  pages, the addresses of the dirty ones among them (the pages of the two tables have a flag of their own),
  \<open>last_valid_block_count\<close> and the dirty flag of the superblock.\<close>

record cp_state =
  cps_sit :: sit_state
  cps_nat :: nat_state
  cps_orphans :: orphan_info
  cps_ckpt :: cp_block
  cps_meta :: "nat \<Rightarrow> meta_block"
  cps_dirty :: "nat list"
  cps_last_valid_block_count :: nat
  cps_sb_dirty :: bool

abbreviation cps_sbi :: "cp_state \<Rightarrow> f2fs_sb_info" where "cps_sbi S \<equiv> ss_sbi (cps_sit S)"

definition node_log_to_ckpt :: "f2fs_sb_info \<Rightarrow> nat \<Rightarrow> f2fs_checkpoint \<Rightarrow> f2fs_checkpoint" where
  "node_log_to_ckpt sbi i ckpt = ckpt\<lparr>
     ck_cur_node_segno := (ck_cur_node_segno ckpt)[i := curseg_segno sbi (i + CURSEG_HOT_NODE)],
     ck_cur_node_blkoff := (ck_cur_node_blkoff ckpt)[i := curseg_blkoff sbi (i + CURSEG_HOT_NODE)],
     ck_alloc_type := (ck_alloc_type ckpt)[i + CURSEG_HOT_NODE := curseg_alloc_type sbi (i + CURSEG_HOT_NODE)]\<rparr>"

definition data_log_to_ckpt :: "f2fs_sb_info \<Rightarrow> nat \<Rightarrow> f2fs_checkpoint \<Rightarrow> f2fs_checkpoint" where
  "data_log_to_ckpt sbi i ckpt = ckpt\<lparr>
     ck_cur_data_segno := (ck_cur_data_segno ckpt)[i := curseg_segno sbi (i + CURSEG_HOT_DATA)],
     ck_cur_data_blkoff := (ck_cur_data_blkoff ckpt)[i := curseg_blkoff sbi (i + CURSEG_HOT_DATA)],
     ck_alloc_type := (ck_alloc_type ckpt)[i + CURSEG_HOT_DATA := curseg_alloc_type sbi (i + CURSEG_HOT_DATA)]\<rparr>"

section \<open>Dirty meta pages\<close>

text \<open>\<open>f2fs_write_meta_page\<close> makes every page dirty again while the volume is recovered and once an I/O error has been recorded.\<close>

definition meta_writable :: "f2fs_checkpoint \<Rightarrow> f2fs_sb_info \<Rightarrow> bool" where
  "meta_writable ckpt sbi \<longleftrightarrow> \<not> (sbi_por_doing sbi \<or> ck_error ckpt)"

definition clean_meta :: "cp_state \<Rightarrow> cp_state" where
  "clean_meta S =
     S\<lparr>cps_sit := (cps_sit S)\<lparr>ss_pages := \<lambda>a. (ss_pages (cps_sit S) a)\<lparr>sp_dirty := False\<rparr>\<rparr>,
       cps_nat := (cps_nat S)\<lparr>ns_pages := \<lambda>a. (ns_pages (cps_nat S) a)\<lparr>np_dirty := False\<rparr>\<rparr>, cps_dirty := []\<rparr>"

text \<open>\<open>sync_meta_pages\<close> without a bound on the number of pages tries the first page of every group of dirty ones and gives up the
  group when it is not written.\<close>

definition sync_meta_pages :: "cp_state \<Rightarrow> cp_state" where
  "sync_meta_pages S = (if meta_writable (cb_ckpt (cps_ckpt S)) (cps_sbi S) then clean_meta S else S)"

text \<open>The blocks of the two tables, and the counter \<open>F2FS_DIRTY_META\<close> of dirty pages.\<close>

definition sit_area :: "f2fs_sb_info \<Rightarrow> nat list" where
  "sit_area sbi = [sit_base_addr (SIT_I sbi)..<sit_base_addr (SIT_I sbi) + 2 * sit_blocks (SIT_I sbi)]"

definition nat_area :: "f2fs_sb_info \<Rightarrow> f2fs_nm_info \<Rightarrow> nat list" where
  "nat_area sbi nm = (let bps = sbi_blocks_per_seg sbi; segs = (8 * length (nm_nat_bitmap nm) + bps - 1) div bps
     in [nm_nat_blkaddr nm..<nm_nat_blkaddr nm + 2 * bps * segs])"

definition dirty_meta :: "cp_state \<Rightarrow> nat" where
  "dirty_meta S = length (filter (\<lambda>a. sp_dirty (ss_pages (cps_sit S) a)) (sit_area (cps_sbi S)))
     + length (filter (\<lambda>a. np_dirty (ns_pages (cps_nat S) a)) (nat_area (cps_sbi S) (ns_nm (cps_nat S))))
     + length (cps_dirty S)"

text \<open>The loop with which \<open>do_checkpoint\<close> begins need not end.\<close>

partial_function (option) sync_dirty_meta :: "cp_state \<Rightarrow> cp_state option" where
  "sync_dirty_meta S = (if dirty_meta S \<noteq> 0 then sync_dirty_meta (sync_meta_pages S) else Some S)"

section \<open>The pack\<close>

text \<open>The first half of \<open>do_checkpoint\<close>: the new contents of the checkpoint block.\<close>

definition modify_checkpoint :: "f2fs_env \<Rightarrow> cp_layout \<Rightarrow> sum_layout \<Rightarrow> cp_state \<Rightarrow> nat \<Rightarrow> bool \<Rightarrow> cp_block" where
  "modify_checkpoint E C K S last_nid is_umount =
    (let sbi = cps_sbi S;
         ckpt = cb_ckpt (cps_ckpt S);
         ckpt = ckpt\<lparr>ck_elapsed_time := get_mtime E sbi, ck_valid_block_count := valid_user_blocks sbi, ck_free_segment_count := free_segments sbi\<rparr>;
         ckpt = fold (node_log_to_ckpt sbi) [0..<3] ckpt;
         ckpt = fold (data_log_to_ckpt sbi) [0..<3] ckpt;
         ckpt = ckpt\<lparr>ck_valid_node_count := valid_node_count sbi, ck_valid_inode_count := valid_inode_count sbi, ck_next_free_nid := last_nid\<rparr>;
         data_sum_blocks = npages_for_summary_flush K ckpt sbi;
         ckpt = ckpt\<lparr>ck_compact_sum := data_sum_blocks < 3\<rparr>;
         blocks = orphan_blocks (F2FS_ORPHANS_PER_BLOCK C) (cps_orphans S);
         ckpt = ckpt\<lparr>ck_pack_start_sum := u32 (1 + blocks)\<rparr>;
         ckpt = (if is_umount
           then ckpt\<lparr>ck_umount := True, ck_pack_total_block_count := u32 (2 + data_sum_blocks + blocks + NR_CURSEG_NODE_TYPE)\<rparr>
           else ckpt\<lparr>ck_umount := False, ck_pack_total_block_count := u32 (2 + data_sum_blocks + blocks)\<rparr>);
         ckpt = ckpt\<lparr>ck_orphan_present := oi_n (cps_orphans S) \<noteq> 0\<rparr>;
         ckpt = ckpt\<lparr>ck_sit_bitmap := get_sit_bitmap sbi, ck_nat_bitmap := get_nat_bitmap (ns_nm (cps_nat S))\<rparr>
     in \<lparr> cb_ckpt = ckpt, cb_crc = f2fs_crc32 (F2FS_SUPER_MAGIC C) (cp_bytes C ckpt (ck_checksum_offset ckpt)) \<rparr>)"

text \<open>Pages that were written are in the cache.\<close>

definition put_blocks :: "(nat \<times> meta_block) list \<Rightarrow> (nat \<Rightarrow> meta_block) \<Rightarrow> (nat \<Rightarrow> meta_block)" where
  "put_blocks ws = fold (\<lambda>(a, b) m. m(a := b)) ws"

text \<open>The result has the blocks of the pack in the order of their addresses, which is the order in which
  \<open>sync_meta_pages\<close> writes them, none when it writes nothing, and the discards that are issued afterwards.\<close>

definition write_pack ::
  "f2fs_env \<Rightarrow> cp_layout \<Rightarrow> sum_layout \<Rightarrow> f2fs_super_block \<Rightarrow> cp_state \<Rightarrow> bool \<Rightarrow>
   (cp_state \<times> (nat \<times> meta_block) list \<times> (nat \<times> nat) list) option" where
  "write_pack E C K raw_super S is_umount = do {
     last_nid \<leftarrow> next_free_nid (ns_nm (cps_nat S)) 0;
     let nats = ns_journal (cps_nat S);
     let sits = ss_journal (cps_sit S);
     let sbi = cps_sbi S;
     let cb = modify_checkpoint E C K S last_nid is_umount;
     let ckpt = cb_ckpt cb;
     let data_sum_blocks = npages_for_summary_flush K ckpt sbi;
     let start_blk = start_cp_addr raw_super ckpt sbi;
     let head = [(start_blk, Cp_Block cb)];
     let start_blk = u32 (start_blk + 1);
     (orphans, start_blk) \<leftarrow> (if oi_n (cps_orphans S) \<noteq> 0
        then do { ws \<leftarrow> write_orphan_inodes E (F2FS_ORPHANS_PER_BLOCK C) (cps_orphans S) start_blk;
                  Some (map (\<lambda>(a, b). (a, Orphan_Block b)) ws, u32 (start_blk + orphan_blocks (F2FS_ORPHANS_PER_BLOCK C) (cps_orphans S))) }
        else Some ([], start_blk));
     let (sbi, data) = write_data_summaries C K ckpt (cps_meta S) nats sits sbi start_blk;
     let start_blk = u32 (start_blk + data_sum_blocks);
     let (sbi, nodes, start_blk) = (if is_umount
        then let (sbi, ws) = write_node_summaries ckpt nats sits sbi start_blk in (sbi, ws, u32 (start_blk + NR_CURSEG_NODE_TYPE))
        else (sbi, [], start_blk));
     let ws = head @ orphans @ data @ nodes @ [(start_blk, Cp_Block cb)];
     let S = S\<lparr>cps_ckpt := cb, cps_meta := put_blocks ws (cps_meta S), cps_dirty := List.union (map fst ws) (cps_dirty S),
       cps_last_valid_block_count := sbi_total_valid_block_count sbi\<rparr>;
     let sbi = sbi\<lparr>sbi_alloc_valid_block_count := 0\<rparr>;
     let S = sync_meta_pages (S\<lparr>cps_sit := (cps_sit S)\<lparr>ss_sbi := sbi\<rparr>\<rparr>);
     let ws = (if meta_writable ckpt sbi then ws else []);
     if ck_error ckpt then Some (S, ws, [])
     else do {
       (sbi, discards) \<leftarrow> clear_prefree_segments E sbi;
       Some (S\<lparr>cps_sit := (cps_sit S)\<lparr>ss_sbi := sbi\<rparr>, cps_sb_dirty := False\<rparr>, ws, discards) } }"

text \<open>Before that, the dirty pages go to disk.\<close>

definition do_checkpoint ::
  "f2fs_env \<Rightarrow> cp_layout \<Rightarrow> sum_layout \<Rightarrow> f2fs_super_block \<Rightarrow> cp_state \<Rightarrow> bool \<Rightarrow>
   (cp_state \<times> (nat \<times> meta_block) list \<times> (nat \<times> nat) list) option" where
  "do_checkpoint E C K raw_super S is_umount = do { S \<leftarrow> sync_dirty_meta S; write_pack E C K raw_super S is_umount }"

text \<open>\<open>block_operations\<close> has written the dirty pages of directories and nodes before.\<close>

definition write_checkpoint ::
  "f2fs_env \<Rightarrow> node_layout \<Rightarrow> cp_layout \<Rightarrow> sum_layout \<Rightarrow> f2fs_super_block \<Rightarrow> cp_state \<Rightarrow> bool \<Rightarrow>
   (cp_state \<times> (nat \<times> meta_block) list \<times> (nat \<times> nat) list) option" where
  "write_checkpoint E L C K raw_super S is_umount = do {
     let ckpt = cb_ckpt (cps_ckpt S);
     let ckpt_ver = ck_version ckpt;
     let S = S\<lparr>cps_ckpt := (cps_ckpt S)\<lparr>cb_ckpt := ckpt\<lparr>ck_version := u64 (ckpt_ver + 1)\<rparr>\<rparr>\<rparr>;
     nats \<leftarrow> flush_nat_entries E L (cps_sbi S) (cps_nat S);
     let S = S\<lparr>cps_nat := nats\<rparr>;
     sits \<leftarrow> flush_sit_entries E L (cps_sit S);
     let S = S\<lparr>cps_sit := sits\<rparr>;
     do_checkpoint E C K raw_super S is_umount }"

end
