(* ===== verification/Pack.thy ===== *)
theory Pack
  imports Checkpoint
begin

text \<open>
  The pack that \<open>do_checkpoint\<close> writes, and what a mount finds when the machine stops before, while or
  after it is written.
\<close>

section \<open>The checkpoint block\<close>

text \<open>The arrays of the block have room for all logs.\<close>

definition ckpt_arrays :: "f2fs_checkpoint \<Rightarrow> bool" where
  "ckpt_arrays ck \<longleftrightarrow> 3 \<le> length (ck_cur_node_segno ck) \<and> 3 \<le> length (ck_cur_node_blkoff ck) \<and> 3 \<le> length (ck_cur_data_segno ck)
     \<and> 3 \<le> length (ck_cur_data_blkoff ck) \<and> 6 \<le> length (ck_alloc_type ck)"

lemma three: "[0..<3] = [0, 1, 2 :: nat]" by (simp add: upt_rec)

lemma npages_cong: "ck_alloc_type a = ck_alloc_type b \<Longrightarrow> npages_for_summary_flush K a sbi = npages_for_summary_flush K b sbi"
  by (simp add: npages_for_summary_flush_def)

lemma npages_range: "0 < npages_for_summary_flush K ck sbi" "npages_for_summary_flush K ck sbi \<le> 3"
  by (simp_all add: npages_for_summary_flush_def Let_def)

lemma modify_checkpoint_fields:
  fixes E C K S nid um
  defines "cb \<equiv> modify_checkpoint E C K S nid um"
  defines "ck \<equiv> cb_ckpt cb" and "old \<equiv> cb_ckpt (cps_ckpt S)" and "sbi \<equiv> cps_sbi S"
  defines "np \<equiv> npages_for_summary_flush K ck sbi" and "ob \<equiv> orphan_blocks (F2FS_ORPHANS_PER_BLOCK C) (cps_orphans S)"
  shows "ck_version ck = ck_version old" "ck_checksum_offset ck = ck_checksum_offset old" "ck_error ck = ck_error old"
    "ck_pack_start_sum ck = u32 (1 + ob)" "ck_compact_sum ck \<longleftrightarrow> np < 3" "ck_umount ck \<longleftrightarrow> um" "ck_orphan_present ck \<longleftrightarrow> oi_n (cps_orphans S) \<noteq> 0"
    "ck_pack_total_block_count ck = u32 (2 + np + ob + (if um then 3 else 0))" "ck_valid_block_count ck = sbi_total_valid_block_count sbi"
    "ck_elapsed_time ck = get_mtime E sbi" "ck_sit_bitmap ck = sit_bitmap (SIT_I sbi)" "ck_nat_bitmap ck = nm_nat_bitmap (ns_nm (cps_nat S))"
    "ck_rsvd_segment_count ck = ck_rsvd_segment_count old" "ck_overprov_segment_count ck = ck_overprov_segment_count old"
    "ck_free_segment_count ck = free_segments sbi" "ck_valid_node_count ck = sbi_total_valid_node_count sbi"
    "ck_valid_inode_count ck = sbi_total_valid_inode_count sbi" "ck_next_free_nid ck = nid"
    "f2fs_crc_valid C (cb_crc cb) ck (ck_checksum_offset ck)"
proof -
  have al: "npages_for_summary_flush K c sbi = np" if "ck_alloc_type c = ck_alloc_type ck" for c
    unfolding np_def by (rule npages_cong [OF that])
  note d = cb_def ck_def old_def modify_checkpoint_def Let_def three node_log_to_ckpt_def data_log_to_ckpt_def
  show "ck_version ck = ck_version old" "ck_checksum_offset ck = ck_checksum_offset old" "ck_error ck = ck_error old"
    "ck_rsvd_segment_count ck = ck_rsvd_segment_count old" "ck_overprov_segment_count ck = ck_overprov_segment_count old"
    by (simp_all add: d)
  show "ck_pack_start_sum ck = u32 (1 + ob)" "ck_umount ck \<longleftrightarrow> um" "ck_orphan_present ck \<longleftrightarrow> oi_n (cps_orphans S) \<noteq> 0"
    "ck_valid_block_count ck = sbi_total_valid_block_count sbi" "ck_elapsed_time ck = get_mtime E sbi"
    "ck_sit_bitmap ck = sit_bitmap (SIT_I sbi)" "ck_nat_bitmap ck = nm_nat_bitmap (ns_nm (cps_nat S))" "ck_next_free_nid ck = nid"
    "ck_free_segment_count ck = free_segments sbi" "ck_valid_node_count ck = sbi_total_valid_node_count sbi"
    "ck_valid_inode_count ck = sbi_total_valid_inode_count sbi"
    by (simp_all add: d ob_def sbi_def valid_user_blocks_def valid_node_count_def valid_inode_count_def get_sit_bitmap_def get_nat_bitmap_def)
  show "f2fs_crc_valid C (cb_crc cb) ck (ck_checksum_offset ck)" by (simp add: f2fs_crc_valid_def d)
  let ?c = "fold (data_log_to_ckpt sbi) [0..<3] (fold (node_log_to_ckpt sbi) [0..<3] (old\<lparr>ck_elapsed_time := get_mtime E sbi,
      ck_valid_block_count := valid_user_blocks sbi, ck_free_segment_count := free_segments sbi\<rparr>))
      \<lparr>ck_valid_node_count := valid_node_count sbi, ck_valid_inode_count := valid_inode_count sbi, ck_next_free_nid := nid\<rparr>"
  have "ck_alloc_type ?c = ck_alloc_type ck" by (simp add: d sbi_def)
  note np = al [OF this]
  show "ck_compact_sum ck \<longleftrightarrow> np < 3" unfolding np [symmetric]
    by (simp add: ck_def cb_def modify_checkpoint_def Let_def old_def sbi_def)
  show "ck_pack_total_block_count ck = u32 (2 + np + ob + (if um then 3 else 0))" unfolding np [symmetric]
    by (simp add: ck_def cb_def modify_checkpoint_def Let_def old_def sbi_def ob_def NR_CURSEG_NODE_TYPE_def)
qed

lemma modify_checkpoint_logs:
  fixes E C K S nid um
  assumes a: "ckpt_arrays (cb_ckpt (cps_ckpt S))" and t: "t < NR_CURSEG_TYPE"
  defines "ck \<equiv> cb_ckpt (modify_checkpoint E C K S nid um)"
  shows "ck_segno ck t = cs_segno (CURSEG_I (cps_sbi S) t)" "ck_blkoff ck t = cs_next_blkoff (CURSEG_I (cps_sbi S) t)"
    "ck_alloc_type ck ! t = cs_alloc_type (CURSEG_I (cps_sbi S) t)"
proof -
  have "t = 0 \<or> t = 1 \<or> t = 2 \<or> t = 3 \<or> t = 4 \<or> t = 5" using t by (auto simp: curseg_types)
  moreover have "ck_cur_node_segno (cb_ckpt (cps_ckpt S)) \<noteq> []" "ck_cur_node_blkoff (cb_ckpt (cps_ckpt S)) \<noteq> []"
    "ck_cur_data_segno (cb_ckpt (cps_ckpt S)) \<noteq> []" "ck_cur_data_blkoff (cb_ckpt (cps_ckpt S)) \<noteq> []" "ck_alloc_type (cb_ckpt (cps_ckpt S)) \<noteq> []"
    using a by (auto simp: ckpt_arrays_def)
  ultimately show "ck_segno ck t = cs_segno (CURSEG_I (cps_sbi S) t)" "ck_blkoff ck t = cs_next_blkoff (CURSEG_I (cps_sbi S) t)"
    "ck_alloc_type ck ! t = cs_alloc_type (CURSEG_I (cps_sbi S) t)"
    using a by (auto simp: ck_def modify_checkpoint_def Let_def three node_log_to_ckpt_def data_log_to_ckpt_def ck_segno_def ck_blkoff_def ckpt_arrays_def
        IS_DATASEG_def curseg_types curseg_segno_def curseg_blkoff_def curseg_alloc_type_def)
qed

section \<open>The blocks of the pack\<close>

lemma normal_summaries:
  "write_normal_summaries nats sits sbi a CURSEG_HOT_DATA =
    (sbi\<lparr>sbi_meta_pages := (sbi_meta_pages sbi)(u32 a := cs_sum_blk (CURSEG_I sbi 0), u32 (a + 1) := cs_sum_blk (CURSEG_I sbi 1), u32 (a + 2) := cs_sum_blk (CURSEG_I sbi 2))\<rparr>,
     [(u32 a, Sum_Block (cs_sum_blk (CURSEG_I sbi 0)) (Nat_Journal nats)), (u32 (a + 1), Sum_Block (cs_sum_blk (CURSEG_I sbi 1)) No_Journal),
      (u32 (a + 2), Sum_Block (cs_sum_blk (CURSEG_I sbi 2)) (Sit_Journal sits))])"
  "write_normal_summaries nats sits sbi a CURSEG_HOT_NODE =
    (sbi\<lparr>sbi_meta_pages := (sbi_meta_pages sbi)(u32 a := cs_sum_blk (CURSEG_I sbi 3), u32 (a + 1) := cs_sum_blk (CURSEG_I sbi 4), u32 (a + 2) := cs_sum_blk (CURSEG_I sbi 5))\<rparr>,
     [(u32 a, Sum_Block (cs_sum_blk (CURSEG_I sbi 3)) No_Journal), (u32 (a + 1), Sum_Block (cs_sum_blk (CURSEG_I sbi 4)) No_Journal),
      (u32 (a + 2), Sum_Block (cs_sum_blk (CURSEG_I sbi 5)) No_Journal)])"
proof -
  have l: "[0..<3] = [0, 1, 2 :: nat]" "[3..<6] = [3, 4, 5 :: nat]" by (simp_all add: upt_rec)
  show "write_normal_summaries nats sits sbi a CURSEG_HOT_DATA =
    (sbi\<lparr>sbi_meta_pages := (sbi_meta_pages sbi)(u32 a := cs_sum_blk (CURSEG_I sbi 0), u32 (a + 1) := cs_sum_blk (CURSEG_I sbi 1), u32 (a + 2) := cs_sum_blk (CURSEG_I sbi 2))\<rparr>,
     [(u32 a, Sum_Block (cs_sum_blk (CURSEG_I sbi 0)) (Nat_Journal nats)), (u32 (a + 1), Sum_Block (cs_sum_blk (CURSEG_I sbi 1)) No_Journal),
      (u32 (a + 2), Sum_Block (cs_sum_blk (CURSEG_I sbi 2)) (Sit_Journal sits))])"
    by (simp add: write_normal_summaries_def Let_def IS_DATASEG_def curseg_types NR_CURSEG_DATA_TYPE_def l write_sum_page_def sum_journal_of_def
        numeral_2_eq_2 del: upt_Suc)
  show "write_normal_summaries nats sits sbi a CURSEG_HOT_NODE =
    (sbi\<lparr>sbi_meta_pages := (sbi_meta_pages sbi)(u32 a := cs_sum_blk (CURSEG_I sbi 3), u32 (a + 1) := cs_sum_blk (CURSEG_I sbi 4), u32 (a + 2) := cs_sum_blk (CURSEG_I sbi 5))\<rparr>,
     [(u32 a, Sum_Block (cs_sum_blk (CURSEG_I sbi 3)) No_Journal), (u32 (a + 1), Sum_Block (cs_sum_blk (CURSEG_I sbi 4)) No_Journal),
      (u32 (a + 2), Sum_Block (cs_sum_blk (CURSEG_I sbi 5)) No_Journal)])"
    by (simp add: write_normal_summaries_def Let_def IS_DATASEG_def curseg_types NR_CURSEG_NODE_TYPE_def l write_sum_page_def sum_journal_of_def)
qed

lemma data_summaries_at:
  assumes K: "sum_layout_ok K" and room: "a + 3 < 2 ^ 32" and c: "ck_compact_sum ck \<longleftrightarrow> npages_for_summary_flush K ck sbi < 3"
    and w: "write_data_summaries C K ck meta nats sits sbi a = (sbi', ws)"
  shows "map fst ws = [a..<a + npages_for_summary_flush K ck sbi]" "\<exists>m. sbi' = sbi\<lparr>sbi_meta_pages := m\<rparr>"
proof -
  let ?np = "npages_for_summary_flush K ck sbi"
  have "map fst ws = [a..<a + ?np] \<and> (\<exists>m. sbi' = sbi\<lparr>sbi_meta_pages := m\<rparr>)"
  proof (cases "?np < 3")
    case True
    have b: "sub32 (sw_blkaddr (compact_writer K ck sbi nats sits (\<lambda>a. as_compact C (meta a)) a)) a = ?np"
      using compact_shape(2) [OF K room True] room True sub32_id [of a "a + ?np"] by simp
    have "map (\<lambda>i. u32 (a + i)) [0..<?np] = [a..<a + ?np]"
      using room True by (intro nth_equalityI) (simp_all add: u32_id)
    then have "map fst ws = [a..<a + ?np]" "sbi' = sbi" using w True c b by (auto simp: write_data_summaries_def Let_def comp_def)
    then show ?thesis by (intro conjI exI [of _ "sbi_meta_pages sbi"]) simp_all
  next
    case False
    then have n: "?np = 3" using npages_range(2) [of K ck sbi] by simp
    have e: "write_data_summaries C K ck meta nats sits sbi a = write_normal_summaries nats sits sbi a CURSEG_HOT_DATA"
      using False c by (simp add: write_data_summaries_def)
    have "[a..<a + 3] = [a, a + 1, a + 2]" by (simp add: upt_rec)
    then have "map fst ws = [a..<a + 3]" using w room unfolding e normal_summaries by (auto simp: u32_id)
    moreover have "\<exists>m. sbi' = sbi\<lparr>sbi_meta_pages := m\<rparr>" using w unfolding e normal_summaries by blast
    ultimately show ?thesis by (simp add: n)
  qed
  then show "map fst ws = [a..<a + ?np]" "\<exists>m. sbi' = sbi\<lparr>sbi_meta_pages := m\<rparr>" by blast+
qed

lemma node_summaries_at:
  assumes room: "a + 3 < 2 ^ 32" and u: "ck_umount ck" and w: "write_node_summaries ck nats sits sbi a = (sbi', ws)"
  shows "map fst ws = [a..<a + 3]" "\<exists>m. sbi' = sbi\<lparr>sbi_meta_pages := m\<rparr>"
proof -
  have e: "write_node_summaries ck nats sits sbi a = write_normal_summaries nats sits sbi a CURSEG_HOT_NODE"
    using u by (simp add: write_node_summaries_def)
  have "[a..<a + 3] = [a, a + 1, a + 2]" by (simp add: upt_rec)
  then show "map fst ws = [a..<a + 3]" using w room unfolding e normal_summaries by (auto simp: u32_id)
  show "\<exists>m. sbi' = sbi\<lparr>sbi_meta_pages := m\<rparr>" using w unfolding e normal_summaries by blast
qed

text \<open>What a checkpoint needs of the state: no reservation of an orphan is open, the pack area has two segments.\<close>

definition pack_ready :: "cp_layout \<Rightarrow> sum_layout \<Rightarrow> f2fs_super_block \<Rightarrow> cp_state \<Rightarrow> bool" where
  "pack_ready C K rsb S \<longleftrightarrow> sum_layout_ok K \<and> orphans_ok (cps_orphans S) \<and> length (oi_list (cps_orphans S)) = oi_n (cps_orphans S)
     \<and> 0 < F2FS_ORPHANS_PER_BLOCK C \<and> oi_max (cps_orphans S) = (sbi_blocks_per_seg (cps_sbi S) - 8) * F2FS_ORPHANS_PER_BLOCK C
     \<and> oi_max (cps_orphans S) + F2FS_ORPHANS_PER_BLOCK C < 2 ^ 32
     \<and> 8 \<le> sbi_blocks_per_seg (cps_sbi S) \<and> sbi_blocks_per_seg (cps_sbi S) < 2 ^ 16
     \<and> rsb_cp_blkaddr rsb + 2 * sbi_blocks_per_seg (cps_sbi S) < 2 ^ 32
     \<and> (nm_fcnt (ns_nm (cps_nat S)) \<noteq> 0 \<longrightarrow> nm_free_nid_list (ns_nm (cps_nat S)) \<noteq> [])"

definition pack_at :: "f2fs_super_block \<Rightarrow> f2fs_sb_info \<Rightarrow> cp_block \<Rightarrow> (nat \<times> meta_block) list \<Rightarrow> bool" where
  "pack_at rsb sbi cb ws \<longleftrightarrow> (let ck = cb_ckpt cb; a = start_cp_addr rsb ck sbi; n = ck_pack_total_block_count ck
     in map fst ws = [a..<a + n] \<and> 2 \<le> n \<and> n \<le> sbi_blocks_per_seg sbi \<and> ws ! 0 = (a, Cp_Block cb) \<and> ws ! (n - 1) = (a + n - 1, Cp_Block cb))"

lemma pack_length:
  assumes "pack_at rsb sbi cb ws"
  shows "length ws = ck_pack_total_block_count (cb_ckpt cb)" "2 \<le> length ws"
proof -
  let ?n = "ck_pack_total_block_count (cb_ckpt cb)"
  have m: "map fst ws = [start_cp_addr rsb (cb_ckpt cb) sbi..<start_cp_addr rsb (cb_ckpt cb) sbi + ?n]" "2 \<le> ?n"
    using assms by (simp_all add: pack_at_def Let_def)
  show "length ws = ?n" using m(1) by (metis diff_add_inverse length_map length_upt)
  then show "2 \<le> length ws" using m(2) by simp
qed

lemma upt_glue: "i \<le> j \<Longrightarrow> j \<le> k \<Longrightarrow> [i..<k] = [i..<j] @ [j..<k]"
  using upt_add_eq_append [of i j "k - j"] by simp

lemma start_cp_addr_eq:
  assumes "rsb_cp_blkaddr rsb + 2 * sbi_blocks_per_seg sbi < 2 ^ 32"
  shows "start_cp_addr rsb ck sbi = rsb_cp_blkaddr rsb + (if even (ck_version ck) then sbi_blocks_per_seg sbi else 0)"
  using assms by (simp add: start_cp_addr_def Let_def u32_id)

lemma pack_ready_orphans:
  assumes r: "pack_ready C K rsb S" and b: "b = F2FS_ORPHANS_PER_BLOCK C" and a: "a + sbi_blocks_per_seg (cps_sbi S) \<le> 2 ^ 32"
  shows "orphan_blocks b (cps_orphans S) + 8 \<le> sbi_blocks_per_seg (cps_sbi S)"
    "\<exists>ws. write_orphan_inodes E b (cps_orphans S) a = Some ws \<and> map fst ws = [a..<a + orphan_blocks b (cps_orphans S)]
      \<and> (\<forall>blocks. (\<forall>(x, v)\<in>set ws. blocks x = v) \<longrightarrow> recovered_orphans blocks a (orphan_blocks b (cps_orphans S)) = oi_list (cps_orphans S))"
    "oi_n (cps_orphans S) = 0 \<longleftrightarrow> orphan_blocks b (cps_orphans S) = 0"
proof -
  let ?O = "cps_orphans S" and ?n = "sbi_blocks_per_seg (cps_sbi S)"
  note R = r [unfolded pack_ready_def, folded b]
  have "2 + 3 + orphan_blocks b ?O + 3 \<le> ?n" using R by (intro orphans_fit) auto
  then show ob: "orphan_blocks b ?O + 8 \<le> ?n" by simp
  have mx: "oi_n ?O \<le> oi_max ?O" using R by (simp add: orphans_ok_def)
  have lt: "oi_n ?O + b < 2 ^ 32" using R mx by linarith
  have ch: "chunks b (oi_n ?O) = orphan_blocks b ?O" using R lt by (simp add: chunks_def orphan_blocks_def u32_id)
  show "\<exists>ws. write_orphan_inodes E b ?O a = Some ws \<and> map fst ws = [a..<a + orphan_blocks b ?O]
      \<and> (\<forall>blocks. (\<forall>(x, v)\<in>set ws. blocks x = v) \<longrightarrow> recovered_orphans blocks a (orphan_blocks b ?O) = oi_list ?O)"
    using R lt ob a by (intro orphans_roundtrip) (simp_all add: ch)
  show "oi_n ?O = 0 \<longleftrightarrow> orphan_blocks b ?O = 0"
    unfolding ch [symmetric] using R by (auto simp: chunks_def div_eq_0_iff)
qed

section \<open>Dirty pages\<close>

abbreviation writable :: "cp_state \<Rightarrow> bool" where
  "writable S \<equiv> meta_writable (cb_ckpt (cps_ckpt S)) (cps_sbi S)"

lemma sync_meta_pages_parts [simp]:
  "cps_orphans (sync_meta_pages S) = cps_orphans S" "cps_ckpt (sync_meta_pages S) = cps_ckpt S" "cps_meta (sync_meta_pages S) = cps_meta S"
  "ss_sbi (cps_sit (sync_meta_pages S)) = cps_sbi S" "ss_journal (cps_sit (sync_meta_pages S)) = ss_journal (cps_sit S)"
  "ns_nm (cps_nat (sync_meta_pages S)) = ns_nm (cps_nat S)" "ns_journal (cps_nat (sync_meta_pages S)) = ns_journal (cps_nat S)"
  "sp_entries (ss_pages (cps_sit (sync_meta_pages S)) a) = sp_entries (ss_pages (cps_sit S) a)"
  "np_entries (ns_pages (cps_nat (sync_meta_pages S)) a) = np_entries (ns_pages (cps_nat S) a)"
  by (simp_all add: sync_meta_pages_def clean_meta_def)

lemma sync_meta_pages_same [simp]:
  "pack_ready C K rsb (sync_meta_pages S) = pack_ready C K rsb S" "modify_checkpoint E C K (sync_meta_pages S) = modify_checkpoint E C K S"
  by (simp_all add: pack_ready_def modify_checkpoint_def fun_eq_iff)

lemma clean_meta_none [simp]: "dirty_meta (clean_meta S) = 0"
  by (simp add: dirty_meta_def clean_meta_def)

text \<open>The loop writes everything in one round, or never ends.\<close>

lemma sync_dirty_meta_writable:
  assumes "writable S"
  shows "sync_dirty_meta S = Some (if dirty_meta S = 0 then S else sync_meta_pages S)"
proof -
  have "sync_meta_pages S = clean_meta S" using assms by (simp add: sync_meta_pages_def)
  then show ?thesis by (simp add: sync_dirty_meta.simps [of S] sync_dirty_meta.simps [of "clean_meta S"])
qed

lemma sync_dirty_meta_stuck:
  assumes "\<not> writable S"
  shows "sync_dirty_meta S = (if dirty_meta S = 0 then Some S else None)"
proof (cases "dirty_meta S = 0")
  case False
  have "writable T \<or> dirty_meta T = 0" if "sync_dirty_meta T = Some R" for T R
    using that
  proof (rule sync_dirty_meta.raw_induct [rotated])
    fix loop T R
    assume ih: "\<And>T R. loop T = Some R \<Longrightarrow> writable T \<or> dirty_meta T = 0"
      and step: "(if dirty_meta T \<noteq> 0 then loop (sync_meta_pages T) else Some T) = Some R"
    show "writable T \<or> dirty_meta T = 0"
    proof (cases "writable T")
      case False
      then have "sync_meta_pages T = T" by (simp add: sync_meta_pages_def)
      then show ?thesis using ih [of T R] step by (simp split: if_splits)
    qed simp
  qed
  note stuck = this
  have "sync_dirty_meta S = None"
  proof (rule ccontr)
    assume "sync_dirty_meta S \<noteq> None"
    then obtain R where "sync_dirty_meta S = Some R" by (rule not_None_eq [THEN iffD1, THEN exE])
    from stuck [OF this] show False using assms False by simp
  qed
  then show ?thesis by (simp only: False if_False)
qed (simp add: sync_dirty_meta.simps [of S])

lemma sync_dirty_meta_cases:
  assumes "sync_dirty_meta S = Some T"
  shows "T = S \<or> T = sync_meta_pages S"
  using assms sync_dirty_meta_writable [of S] sync_dirty_meta_stuck [of S] by (cases "writable S") (auto split: if_splits)

lemma write_pack_shape:
  assumes r: "pack_ready C K rsb S" and k: "kernel_ok E" and dk: "dirty_ok (cps_sbi S)" "TOTAL_SEGS (cps_sbi S) < 2 ^ 32 - 1"
  obtains S' ws ds nid obs data nodes sbi1 where "write_pack E C K rsb S um = Some (S', if writable S then ws else [], ds)"
    "cps_ckpt S' = modify_checkpoint E C K S nid um" "pack_at rsb (cps_sbi S) (cps_ckpt S') ws"
    "ws = (start_cp_addr rsb (cb_ckpt (cps_ckpt S')) (cps_sbi S), Cp_Block (cps_ckpt S')) # map (\<lambda>(a, b). (a, Orphan_Block b)) obs @ data @ nodes
       @ [(start_cp_addr rsb (cb_ckpt (cps_ckpt S')) (cps_sbi S) + ck_pack_total_block_count (cb_ckpt (cps_ckpt S')) - 1, Cp_Block (cps_ckpt S'))]"
    "oi_n (cps_orphans S) \<noteq> 0 \<Longrightarrow> write_orphan_inodes E (F2FS_ORPHANS_PER_BLOCK C) (cps_orphans S) (start_cp_addr rsb (cb_ckpt (cps_ckpt S')) (cps_sbi S) + 1) = Some obs"
    "write_data_summaries C K (cb_ckpt (cps_ckpt S')) (cps_meta S) (ns_journal (cps_nat S)) (ss_journal (cps_sit S)) (cps_sbi S)
       (start_cp_addr rsb (cb_ckpt (cps_ckpt S')) (cps_sbi S) + 1 + orphan_blocks (F2FS_ORPHANS_PER_BLOCK C) (cps_orphans S)) = (sbi1, data)"
    "um \<Longrightarrow> nodes = snd (write_node_summaries (cb_ckpt (cps_ckpt S')) (ns_journal (cps_nat S)) (ss_journal (cps_sit S)) sbi1
       (start_cp_addr rsb (cb_ckpt (cps_ckpt S')) (cps_sbi S) + 1 + orphan_blocks (F2FS_ORPHANS_PER_BLOCK C) (cps_orphans S)
          + npages_for_summary_flush K (cb_ckpt (cps_ckpt S')) (cps_sbi S)))"
    "\<not> um \<Longrightarrow> nodes = []"
    "\<exists>m. sbi1 = (cps_sbi S)\<lparr>sbi_meta_pages := m\<rparr>"
    "cps_meta S' = put_blocks ws (cps_meta S)" "cps_nat S' = cps_nat (sync_meta_pages S)" "cps_orphans S' = cps_orphans S"
    "ss_journal (cps_sit S') = ss_journal (cps_sit S)" "ss_pages (cps_sit S') = ss_pages (cps_sit (sync_meta_pages S))"
    "cps_dirty S' = (if writable S then [] else List.union (map fst ws) (cps_dirty S))" "dirty_ok (cps_sbi S')"
    "map fst obs = [start_cp_addr rsb (cb_ckpt (cps_ckpt S')) (cps_sbi S) + 1..<start_cp_addr rsb (cb_ckpt (cps_ckpt S')) (cps_sbi S) + 1
       + orphan_blocks (F2FS_ORPHANS_PER_BLOCK C) (cps_orphans S)]"
proof -
  let ?b = "F2FS_ORPHANS_PER_BLOCK C" and ?sbi = "cps_sbi S" and ?O = "cps_orphans S" and ?n = "sbi_blocks_per_seg (cps_sbi S)"
  note R = r [unfolded pack_ready_def]
  obtain nid where nid: "next_free_nid (ns_nm (cps_nat S)) 0 = Some nid"
  proof (cases "nm_fcnt (ns_nm (cps_nat S)) = 0")
    case False
    then show ?thesis using R that by (cases "nm_free_nid_list (ns_nm (cps_nat S))") (simp_all add: next_free_nid_def)
  qed (simp add: next_free_nid_def that)
  define cb where "cb = modify_checkpoint E C K S nid um"
  define ck where "ck = cb_ckpt cb"
  define a where "a = start_cp_addr rsb ck ?sbi"
  define ob where "ob = orphan_blocks ?b ?O"
  define np where "np = npages_for_summary_flush K ck ?sbi"
  note F = modify_checkpoint_fields [where E = E and C = C and K = K and S = S and nid = nid and um = um, folded cb_def, folded ck_def, folded np_def ob_def]
  have alt: "a + ?n < 2 ^ 32" using R by (simp add: a_def start_cp_addr_eq split: if_splits)
  have np: "0 < np" "np \<le> 3" using npages_range by (simp_all add: np_def)
  have alt1: "a + 1 + ob + 6 < 2 ^ 32" "ob + 8 \<le> ?n"
    using pack_ready_orphans(1) [OF r refl, of 0] alt R by (simp_all add: ob_def)
  have u: "u32 (a + 1) = a + 1" "u32 (a + 1 + ob) = a + 1 + ob" "u32 (a + 1 + ob + np) = a + 1 + ob + np"
    "u32 (a + 1 + ob + np + 3) = a + 1 + ob + np + 3" using alt1 np by (simp_all add: u32_id)
  have tot: "ck_pack_total_block_count ck = 2 + np + ob + (if um then 3 else 0)"
    unfolding F(8) using alt1 np R by (intro u32_id) simp
  have obs: "\<exists>obs. (if oi_n ?O \<noteq> 0 then do { ws \<leftarrow> write_orphan_inodes E ?b ?O (a + 1);
                  Some (map (\<lambda>(a, b). (a, Orphan_Block b)) ws, u32 (a + 1 + ob)) } else Some ([], a + 1))
      = Some (map (\<lambda>(a, b). (a, Orphan_Block b)) obs, a + 1 + ob) \<and> map fst obs = [a + 1..<a + 1 + ob]
      \<and> (oi_n ?O \<noteq> 0 \<longrightarrow> write_orphan_inodes E ?b ?O (a + 1) = Some obs)"
  proof (cases "oi_n ?O = 0")
    case True
    then have "ob = 0" using pack_ready_orphans(3) [OF r refl, of 0] alt R by (simp add: ob_def)
    then show ?thesis using True by (intro exI [of _ "[]"]) simp
  next
    case False
    have "a + 1 + ?n \<le> 2 ^ 32" using R alt1 by (simp add: a_def start_cp_addr_eq split: if_splits)
    from pack_ready_orphans(2) [OF r refl this] obtain obs where
      "write_orphan_inodes E ?b ?O (a + 1) = Some obs" "map fst obs = [a + 1..<a + 1 + ob]" by (auto simp: ob_def)
    then show ?thesis using False u by (intro exI [of _ obs]) simp
  qed
  then obtain obs where obs: "(if oi_n ?O \<noteq> 0 then do { ws \<leftarrow> write_orphan_inodes E ?b ?O (a + 1);
                  Some (map (\<lambda>(a, b). (a, Orphan_Block b)) ws, u32 (a + 1 + ob)) } else Some ([], a + 1))
      = Some (map (\<lambda>(a, b). (a, Orphan_Block b)) obs, a + 1 + ob)" "map fst obs = [a + 1..<a + 1 + ob]"
      "oi_n ?O \<noteq> 0 \<Longrightarrow> write_orphan_inodes E ?b ?O (a + 1) = Some obs" by blast
  let ?jn = "ns_journal (cps_nat S)" and ?js = "ss_journal (cps_sit S)"
  obtain sbi1 data where data: "write_data_summaries C K ck (cps_meta S) ?jn ?js ?sbi (a + 1 + ob) = (sbi1, data)" by fastforce
  have "sum_layout_ok K" "a + 1 + ob + 3 < 2 ^ 32" using R alt1 by auto
  note D = data_summaries_at [OF this _ data, folded np_def, OF F(5)]
  obtain sbi2 nodes where nodes: "(if um then let (sbi, ws) = write_node_summaries ck ?jn ?js sbi1 (a + 1 + ob + np) in (sbi, ws, u32 (a + 1 + ob + np + NR_CURSEG_NODE_TYPE))
        else (sbi1, [], a + 1 + ob + np)) = (sbi2, nodes, a + 1 + ob + np + (if um then 3 else 0))"
    "map fst nodes = [a + 1 + ob + np..<a + 1 + ob + np + (if um then 3 else 0)]" "\<exists>m. sbi2 = ?sbi\<lparr>sbi_meta_pages := m\<rparr>"
    "um \<Longrightarrow> nodes = snd (write_node_summaries ck ?jn ?js sbi1 (a + 1 + ob + np))" "\<not> um \<Longrightarrow> nodes = []"
  proof (cases um)
    case False
    then show ?thesis using D(2) by (intro that [of sbi1 "[]"]) simp_all
  next
    case True
    obtain s w where w: "write_node_summaries ck ?jn ?js sbi1 (a + 1 + ob + np) = (s, w)" by fastforce
    have "a + 1 + ob + np + 3 < 2 ^ 32" "ck_umount ck" using alt1 np F(6) True by simp_all
    note N = node_summaries_at [OF this w]
    have "\<exists>m. s = ?sbi\<lparr>sbi_meta_pages := m\<rparr>" using N(2) D(2) by auto
    then show ?thesis using True w N(1) u(4) by (intro that [of s w]) (simp_all add: NR_CURSEG_NODE_TYPE_def)
  qed
  define ws where "ws = (a, Cp_Block cb) # map (\<lambda>(a, b). (a, Orphan_Block b)) obs @ data @ nodes @ [(a + ck_pack_total_block_count ck - 1, Cp_Block cb)]"
  have lastw: "a + 1 + ob + np + (if um then 3 else 0) = a + ck_pack_total_block_count ck - 1" using tot by simp
  define sbi3 where "sbi3 = sbi2\<lparr>sbi_alloc_valid_block_count := 0\<rparr>"
  define S1 where "S1 = sync_meta_pages (S\<lparr>cps_ckpt := cb, cps_meta := put_blocks ws (cps_meta S), cps_dirty := List.union (map fst ws) (cps_dirty S),
    cps_last_valid_block_count := sbi_total_valid_block_count sbi2, cps_sit := (cps_sit S)\<lparr>ss_sbi := sbi3\<rparr>\<rparr>)"
  have pk: "pack_at rsb ?sbi cb ws"
  proof -
    let ?t = "ck_pack_total_block_count ck"
    have "map fst (map (\<lambda>(a, b). (a, Orphan_Block b)) obs) = map fst obs" by (induction obs) auto
    then have "map fst ws = a # ([a + 1..<a + 1 + ob] @ [a + 1 + ob..<a + 1 + ob + np] @ [a + 1 + ob + np..<a + ?t - 1]) @ [a + ?t - 1]"
      using obs(2) D(1) nodes(2) lastw by (simp add: ws_def del: upt_Suc cong: if_cong)
    also have "[a + 1..<a + 1 + ob] @ [a + 1 + ob..<a + 1 + ob + np] @ [a + 1 + ob + np..<a + ?t - 1] = [a + 1..<a + ?t - 1]"
    proof -
      have le: "a + 1 \<le> a + 1 + ob" "a + 1 + ob \<le> a + 1 + ob + np" "a + 1 + ob + np \<le> a + ?t - 1" using tot by simp_all
      show ?thesis unfolding upt_glue [OF le(2,3), symmetric] by (rule upt_glue [OF le(1) le_trans [OF le(2,3)], symmetric])
    qed
    also have "a # [a + 1..<a + ?t - 1] @ [a + ?t - 1] = [a..<a + ?t]"
    proof -
      have "[a..<a + ?t] = a # [a + 1..<a + ?t]" using tot by (simp add: upt_conv_Cons del: upt_Suc)
      also have "[a + 1..<a + ?t] = [a + 1..<a + ?t - 1] @ [a + ?t - 1..<a + ?t]" using tot by (intro upt_glue) auto
      also have "[a + ?t - 1..<a + ?t] = [a + ?t - 1]" using tot by (simp add: upt_conv_Cons del: upt_Suc)
      finally show ?thesis by simp
    qed
    finally have mf: "map fst ws = [a..<a + ?t]" by simp
    then have "length ws = ?t" by (metis diff_add_inverse length_map length_upt)
    moreover define xs where "xs = (a, Cp_Block cb) # map (\<lambda>(a, b). (a, Orphan_Block b)) obs @ data @ nodes"
    then have "ws = xs @ [(a + ?t - 1, Cp_Block cb)]" by (simp add: ws_def)
    ultimately have "ws ! (?t - 1) = (a + ?t - 1, Cp_Block cb)" by (metis One_nat_def add_diff_cancel_right' length_append list.size(3,4) nth_append_length plus_nat.add_0)
    then show ?thesis using mf tot np alt1 by (simp add: pack_at_def Let_def ck_def [symmetric] a_def [symmetric]) (simp add: ws_def)
  qed
  obtain m where m: "sbi3 = ?sbi\<lparr>sbi_meta_pages := m, sbi_alloc_valid_block_count := 0\<rparr>" using nodes(3) by (auto simp: sbi3_def)
  have wr: "meta_writable ck sbi3 = writable S" using F(3) by (simp add: m meta_writable_def)
  let ?ws = "if writable S then ws else []"
  have run: "write_pack E C K rsb S um = (if ck_error ck then Some (S1, ?ws, [])
     else do { (sbi, discards) \<leftarrow> clear_prefree_segments E sbi3; Some (S1\<lparr>cps_sit := (cps_sit S1)\<lparr>ss_sbi := sbi\<rparr>, cps_sb_dirty := False\<rparr>, ?ws, discards) })"
    unfolding write_pack_def nid Let_def Option.bind.simps cb_def [symmetric] ck_def [symmetric] a_def [symmetric] u(1) ob_def [symmetric] obs(1) prod.case data
      np_def [symmetric] u(3) nodes(1) [unfolded Let_def] lastw wr [symmetric]
    by (simp add: ws_def S1_def sbi3_def cong: if_cong)
  have S1: "cps_ckpt S1 = cb" "cps_meta S1 = put_blocks ws (cps_meta S)" "cps_nat S1 = cps_nat (sync_meta_pages S)" "cps_orphans S1 = cps_orphans S"
    "ss_journal (cps_sit S1) = ss_journal (cps_sit S)" "ss_pages (cps_sit S1) = ss_pages (cps_sit (sync_meta_pages S))" "cps_sbi S1 = sbi3"
    "cps_dirty S1 = (if writable S then [] else List.union (map fst ws) (cps_dirty S))"
    using wr by (simp_all add: S1_def sync_meta_pages_def clean_meta_def ck_def)
  have d3: "dirty_ok sbi3" "TOTAL_SEGS sbi3 < 2 ^ 32 - 1" using dk by (simp_all add: m dirty_ok_def types_ok_def get_seg_entry_def accessors TOTAL_SEGS_def is_dirty_def)
  obtain s4 ds where "clear_prefree_segments E sbi3 = Some (s4, ds)" "dirty_ok s4" using clear_prefree_empties [OF k d3] by blast
  then have "\<exists>S' ds. write_pack E C K rsb S um = Some (S', ?ws, ds) \<and> cps_ckpt S' = cb \<and> cps_meta S' = put_blocks ws (cps_meta S) \<and> cps_nat S' = cps_nat (sync_meta_pages S)
      \<and> cps_orphans S' = cps_orphans S \<and> ss_journal (cps_sit S') = ss_journal (cps_sit S) \<and> ss_pages (cps_sit S') = ss_pages (cps_sit (sync_meta_pages S))
      \<and> cps_dirty S' = (if writable S then [] else List.union (map fst ws) (cps_dirty S)) \<and> dirty_ok (cps_sbi S')"
    using d3 by (cases "ck_error ck") (auto simp: run S1)
  then obtain S' ds where S': "write_pack E C K rsb S um = Some (S', ?ws, ds)" "cps_ckpt S' = cb" "cps_meta S' = put_blocks ws (cps_meta S)"
      "cps_nat S' = cps_nat (sync_meta_pages S)" "cps_orphans S' = cps_orphans S" "ss_journal (cps_sit S') = ss_journal (cps_sit S)"
      "ss_pages (cps_sit S') = ss_pages (cps_sit (sync_meta_pages S))" "cps_dirty S' = (if writable S then [] else List.union (map fst ws) (cps_dirty S))"
      "dirty_ok (cps_sbi S')" by blast
  show ?thesis
    using pk obs(2,3) data nodes(4,5) D(2) S'(3-) by (intro that [OF S'(1), where nid = nid and obs = obs and data = data and nodes = nodes and ?sbi1.0 = sbi1])
      (simp_all add: S'(2) cb_def [symmetric] ck_def [symmetric] a_def [symmetric] ob_def [symmetric] np_def [symmetric] ws_def)
qed

section \<open>A whole checkpoint\<close>

text \<open>The state after the loop is the old one with other dirty flags.\<close>

lemma synced_parts:
  assumes "T = S \<or> T = sync_meta_pages S"
  shows "cps_orphans T = cps_orphans S" "cps_ckpt T = cps_ckpt S" "cps_meta T = cps_meta S" "cps_sbi T = cps_sbi S"
    "ss_journal (cps_sit T) = ss_journal (cps_sit S)" "ns_nm (cps_nat T) = ns_nm (cps_nat S)" "ns_journal (cps_nat T) = ns_journal (cps_nat S)"
    "sp_entries (ss_pages (cps_sit T) a) = sp_entries (ss_pages (cps_sit S) a)" "np_entries (ns_pages (cps_nat T) a) = np_entries (ns_pages (cps_nat S) a)"
    "pack_ready C K rsb T = pack_ready C K rsb S" "modify_checkpoint E C K T = modify_checkpoint E C K S"
  using assms by auto

lemma do_checkpoint_pack:
  assumes r: "pack_ready C K rsb S" and k: "kernel_ok E" and dk: "dirty_ok (cps_sbi S)" "TOTAL_SEGS (cps_sbi S) < 2 ^ 32 - 1"
    and sy: "sync_dirty_meta S = Some T"
  obtains S' ws ds nid where "do_checkpoint E C K rsb S um = Some (S', if writable S then ws else [], ds)" "cps_ckpt S' = modify_checkpoint E C K S nid um"
    "pack_at rsb (cps_sbi S) (cps_ckpt S') ws" "dirty_ok (cps_sbi S')" "cps_dirty S' = (if writable S then [] else List.union (map fst ws) (cps_dirty S))"
proof -
  note P = synced_parts [OF sync_dirty_meta_cases [OF sy]]
  have h: "pack_ready C K rsb T" "dirty_ok (cps_sbi T)" "TOTAL_SEGS (cps_sbi T) < 2 ^ 32 - 1" using r dk by (simp_all add: P)
  have wr: "writable T = writable S" by (simp add: P)
  have "cps_dirty T = cps_dirty S" if "\<not> writable S" using sync_dirty_meta_cases [OF sy] that by (auto simp: sync_meta_pages_def)
  then have dd: "(if writable S then [] else List.union xs (cps_dirty T)) = (if writable S then [] else List.union xs (cps_dirty S))" for xs by simp
  obtain S' ws ds nid where
    "write_pack E C K rsb T um = Some (S', if writable T then ws else [], ds)" "cps_ckpt S' = modify_checkpoint E C K T nid um"
    "pack_at rsb (cps_sbi T) (cps_ckpt S') ws" "cps_dirty S' = (if writable T then [] else List.union (map fst ws) (cps_dirty T))" "dirty_ok (cps_sbi S')"
    by (rule write_pack_shape [OF h(1) k h(2,3), of um]) (rule that, assumption+)
  then show ?thesis by (intro that [of S' ws ds nid]) (simp_all add: do_checkpoint_def sy dd P(2,4,11))
qed

section \<open>After an I/O error\<close>

lemma do_checkpoint_stuck:
  assumes "\<not> writable S" and "dirty_meta S \<noteq> 0"
  shows "do_checkpoint E C K rsb S um = None"
  using sync_dirty_meta_stuck [OF assms(1)] assms(2) by (simp add: do_checkpoint_def)

lemma write_checkpoint_stuck:
  assumes "ck_error (cb_ckpt (cps_ckpt S))" and "cps_dirty S \<noteq> []"
  shows "write_checkpoint E L C K rsb S um = None"
proof (cases "flush_nat_entries E L (cps_sbi S) (cps_nat S)")
  case nat: (Some N)
  show ?thesis
  proof (cases "flush_sit_entries E L (cps_sit S)")
    case (Some F)
    then show ?thesis using assms nat by (simp add: write_checkpoint_def Let_def do_checkpoint_stuck meta_writable_def dirty_meta_def)
  qed (simp add: write_checkpoint_def Let_def nat)
qed (simp add: write_checkpoint_def Let_def)

end
