(* ===== verification/Crash.thy ===== *)
theory Crash
  imports Pack
begin

text \<open>
  The machine may stop while a pack is written.  Whatever part of the pack has reached the disk,
  \<open>get_valid_checkpoint\<close> finds the new checkpoint when both of its copies are there, and the last one otherwise.
\<close>

section \<open>Validating a pack\<close>

definition cp_ok :: "cp_layout \<Rightarrow> cp_block \<Rightarrow> bool" where
  "cp_ok C cb \<longleftrightarrow> ck_checksum_offset (cb_ckpt cb) < blocksize C \<and> f2fs_crc_valid C (cb_crc cb) (cb_ckpt cb) (ck_checksum_offset (cb_ckpt cb))"

abbreviation cb_version :: "cp_block \<Rightarrow> nat" where "cb_version cb \<equiv> ck_version (cb_ckpt cb)"
abbreviation cb_total :: "cp_block \<Rightarrow> nat" where "cb_total cb \<equiv> ck_pack_total_block_count (cb_ckpt cb)"

lemma validate_checkpoint_iff:
  "validate_checkpoint C disk a = Some r \<longleftrightarrow>
    (let p1 = as_cp C (disk a); p2 = as_cp C (disk (u32 (a + sub32 (cb_total p1) 1)))
     in cp_ok C p1 \<and> cp_ok C p2 \<and> cb_version p2 = cb_version p1 \<and> r = (p1, cb_version p1))"
  by (cases r) (auto simp: validate_checkpoint_def cp_ok_def Let_def)

lemma sub64_neg: "b < a \<Longrightarrow> a < 2 ^ 64 \<Longrightarrow> sub64 b a = 2 ^ 64 - (a - b)"
  by (simp add: sub64_def u64_def)

lemma ver_after_asym:
  assumes "a < 2 ^ 64" and "b < 2 ^ 64" and "ver_after a b"
  shows "\<not> ver_after b a"
proof (cases a b rule: linorder_cases)
  case less
  then show ?thesis using assms sub64_neg [of a b] sub64_id [of a b] by (simp add: ver_after_def Let_def)
next
  case equal
  then show ?thesis using assms by (simp add: ver_after_def Let_def sub64_id)
next
  case greater
  then show ?thesis using assms sub64_neg [of b a] sub64_id [of b a] by (simp add: ver_after_def Let_def)
qed

lemma next_version:
  assumes "v < 2 ^ 64"
  shows "ver_after (u64 (v + 1)) v" "even (u64 (v + 1)) \<longleftrightarrow> odd v" "u64 (v + 1) < 2 ^ 64" "u64 (v + 1) \<noteq> v"
proof -
  show p: "even (u64 (v + 1)) \<longleftrightarrow> odd v" by (simp add: u64_def dvd_mod_iff)
  show "ver_after (u64 (v + 1)) v"
  proof (cases "v = 2 ^ 64 - 1")
    case False
    then have "u64 (v + 1) = v + 1" using assms by (intro u64_id) simp
    then show ?thesis using assms False by (simp add: ver_after_def Let_def sub64_id)
  qed (simp add: ver_after_def Let_def u64_def sub64_def)
  show "u64 (v + 1) < 2 ^ 64" by (simp add: u64_def)
  show "u64 (v + 1) \<noteq> v" using p by metis
qed

section \<open>The two places\<close>

definition cp_place :: "f2fs_super_block \<Rightarrow> f2fs_sb_info \<Rightarrow> nat \<Rightarrow> nat" where
  "cp_place rsb sbi v = rsb_cp_blkaddr rsb + (if even v then sbi_blocks_per_seg sbi else 0)"

definition cp_area :: "f2fs_super_block \<Rightarrow> f2fs_sb_info \<Rightarrow> bool" where
  "cp_area rsb sbi \<longleftrightarrow> sbi_blocks_per_seg sbi = 2 ^ rsb_log_blocks_per_seg rsb \<and> rsb_cp_blkaddr rsb + 2 * sbi_blocks_per_seg sbi < 2 ^ 32"

text \<open>The last checkpoint is \<open>cb\<close>: its two copies are valid, and the pack in the other segment is older, if there is one.\<close>

definition committed :: "cp_layout \<Rightarrow> f2fs_super_block \<Rightarrow> f2fs_sb_info \<Rightarrow> (nat \<Rightarrow> meta_block) \<Rightarrow> cp_block \<Rightarrow> bool" where
  "committed C rsb sbi disk cb \<longleftrightarrow>
    (let v = cb_version cb; a = cp_place rsb sbi v; a' = cp_place rsb sbi (v + 1); other = as_cp C (disk a')
     in v < 2 ^ 64 \<and> as_cp C (disk a) = cb \<and> cp_ok C cb \<and> 1 \<le> cb_total cb \<and> cb_total cb \<le> sbi_blocks_per_seg sbi
        \<and> cp_ok C (as_cp C (disk (a + cb_total cb - 1))) \<and> cb_version (as_cp C (disk (a + cb_total cb - 1))) = v
        \<and> (cp_ok C other \<longrightarrow> cb_version other < 2 ^ 64 \<and> ver_after v (cb_version other)))"

text \<open>No block of the other segment is a checkpoint block of the next version yet.\<close>

definition next_unused :: "cp_layout \<Rightarrow> f2fs_super_block \<Rightarrow> f2fs_sb_info \<Rightarrow> (nat \<Rightarrow> meta_block) \<Rightarrow> nat \<Rightarrow> bool" where
  "next_unused C rsb sbi disk v \<longleftrightarrow> (\<forall>i< sbi_blocks_per_seg sbi. let p = as_cp C (disk (cp_place rsb sbi (v + 1) + i))
     in cp_ok C p \<longrightarrow> cb_version p \<noteq> u64 (v + 1))"

text \<open>The disk when the blocks at the addresses in \<open>X\<close> have been written.\<close>

definition torn :: "nat set \<Rightarrow> (nat \<times> meta_block) list \<Rightarrow> (nat \<Rightarrow> meta_block) \<Rightarrow> (nat \<Rightarrow> meta_block)" where
  "torn X ws disk a = (if a \<in> X then (case map_of ws a of Some b \<Rightarrow> b | None \<Rightarrow> disk a) else disk a)"

lemma get_valid_checkpoint_places:
  assumes "cp_area rsb sbi"
  shows "get_valid_checkpoint C rsb disk =
    (case (validate_checkpoint C disk (cp_place rsb sbi 1), validate_checkpoint C disk (cp_place rsb sbi 0)) of
       (Some (p1, v1), Some (p2, v2)) \<Rightarrow> if ver_after v2 v1 then Inr p2 else Inr p1
     | (Some (p1, v1), None) \<Rightarrow> Inr p1
     | (None, Some (p2, v2)) \<Rightarrow> Inr p2
     | (None, None) \<Rightarrow> Inl EINVAL)"
proof -
  let ?b = "rsb_cp_blkaddr rsb"
  have lt: "?b + 2 * sbi_blocks_per_seg sbi < 2 ^ 32" and p: "push_bit (rsb_log_blocks_per_seg rsb) 1 = sbi_blocks_per_seg sbi"
    using assms by (simp_all add: cp_area_def push_bit_eq_mult)
  have "u64 (?b + sbi_blocks_per_seg sbi) = ?b + sbi_blocks_per_seg sbi" "u32 (?b + sbi_blocks_per_seg sbi) = ?b + sbi_blocks_per_seg sbi" "u32 ?b = ?b"
    using lt by (simp_all add: u64_id u32_id)
  then show ?thesis by (simp only: get_valid_checkpoint_def Let_def p cp_place_def) simp
qed

text \<open>A newer pack wins, and so does the only one.\<close>

lemma get_valid_checkpoint_newest:
  assumes ar: "cp_area rsb sbi" and v: "validate_checkpoint C disk (cp_place rsb sbi v) = Some (p, v)"
    and o: "\<And>q w. validate_checkpoint C disk (cp_place rsb sbi (v + 1)) = Some (q, w) \<Longrightarrow> v < 2 ^ 64 \<and> w < 2 ^ 64 \<and> ver_after v w"
  shows "get_valid_checkpoint C rsb disk = Inr p"
proof (cases "even v")
  case True
  then have "cp_place rsb sbi v = cp_place rsb sbi 0" "cp_place rsb sbi (v + 1) = cp_place rsb sbi 1" by (simp_all add: cp_place_def)
  then show ?thesis unfolding get_valid_checkpoint_places [OF ar] using v o by (auto split: option.split)
next
  case False
  then have "cp_place rsb sbi v = cp_place rsb sbi 1" "cp_place rsb sbi (v + 1) = cp_place rsb sbi 0" by (simp_all add: cp_place_def)
  then show ?thesis unfolding get_valid_checkpoint_places [OF ar] using v o ver_after_asym by (auto split: option.split)
qed

section \<open>A pack is written\<close>

lemma cp_place_next: "cp_place rsb sbi (u64 (v + 1)) = cp_place rsb sbi (v + 1)"
  "cp_place rsb sbi (u64 (v + 1) + 1) = cp_place rsb sbi v" if "v < 2 ^ 64"
  using next_version(2) [of v] that by (auto simp: cp_place_def)

lemma pack_atomic:
  assumes rb: "reads_back C" and ar: "cp_area rsb sbi" and old: "committed C rsb sbi disk old"
    and un: "fst (last ws) \<notin> X \<Longrightarrow> next_unused C rsb sbi disk (cb_version old)"
    and new: "cp_ok C new" "cb_version new = u64 (cb_version old + 1)" and pk: "pack_at rsb sbi new ws"
  shows "get_valid_checkpoint C rsb (torn X ws disk) =
    Inr (if fst (ws ! 0) \<in> X \<and> fst (last ws) \<in> X then new else old)"
proof -
  let ?v = "cb_version old" and ?n = "sbi_blocks_per_seg sbi" and ?d = "torn X ws disk"
  define a where "a = cp_place rsb sbi ?v"
  define b where "b = cp_place rsb sbi (?v + 1)"
  note O = old [unfolded committed_def Let_def, folded a_def b_def]
  have v: "?v < 2 ^ 64" using O by simp
  note nv = next_version [OF v] and pn = cp_place_next [OF v]
  have lt: "rsb_cp_blkaddr rsb + 2 * ?n < 2 ^ 32" using ar by (simp add: cp_area_def)
  have st: "start_cp_addr rsb (cb_ckpt new) sbi = b" using start_cp_addr_eq [OF lt] nv(2) by (simp add: new(2) b_def cp_place_def)
  have P: "map fst ws = [b..<b + cb_total new]" "2 \<le> cb_total new" "cb_total new \<le> ?n" "ws ! 0 = (b, Cp_Block new)"
    "ws ! (cb_total new - 1) = (b + cb_total new - 1, Cp_Block new)"
    using pk by (simp_all add: pack_at_def Let_def st)
  have len: "length ws = cb_total new" using P(1) by (metis diff_add_inverse length_map length_upt)
  have "last ws = ws ! (cb_total new - 1)" using len P(2) by (subst last_conv_nth) auto
  then have ends: "fst (ws ! 0) = b" "fst (last ws) = b + cb_total new - 1" using P by simp_all
  have dist: "distinct (map fst ws)" unfolding P(1) by simp
  have "0 < length ws" "cb_total new - 1 < length ws" using len P(2) by simp_all
  from nth_mem [OF this(1)] nth_mem [OF this(2)]
  have "(b, Cp_Block new) \<in> set ws" "(b + cb_total new - 1, Cp_Block new) \<in> set ws" unfolding P(4,5) .
  then have mo: "map_of ws b = Some (Cp_Block new)" "map_of ws (b + cb_total new - 1) = Some (Cp_Block new)"
    using map_of_is_SomeI [OF dist] by simp_all
  have out: "?d x = disk x" if "x < b \<or> b + ?n \<le> x" for x
  proof -
    have "x \<notin> fst ` set ws" using that P(3) unfolding set_map [symmetric] P(1) by auto
    then have "map_of ws x = None" by (simp add: map_of_eq_None_iff)
    then show ?thesis by (simp add: torn_def)
  qed
  have apart: "x < b \<or> b + ?n \<le> x" if "a \<le> x" "x < a + ?n" for x
    using that by (auto simp: a_def b_def cp_place_def split: if_splits)
  have ab: "a + ?n < 2 ^ 32" "b + ?n < 2 ^ 32" using lt by (auto simp: a_def b_def cp_place_def)
  have da: "?d a = disk a" "?d (a + cb_total old - 1) = disk (a + cb_total old - 1)"
  proof -
    have "a < a + ?n" "a \<le> a + cb_total old - 1" "a + cb_total old - 1 < a + ?n" using O P(2,3) by auto
    then show "?d a = disk a" "?d (a + cb_total old - 1) = disk (a + cb_total old - 1)" using out apart by simp_all
  qed
  have "sub32 (cb_total old) 1 = cb_total old - 1" "u32 (a + (cb_total old - 1)) = a + (cb_total old - 1)"
    using O ab(1) by (auto intro: sub32_id u32_id)
  then have "u32 (a + sub32 (cb_total old) 1) = a + cb_total old - 1" using O by simp
  then have va: "validate_checkpoint C ?d a = Some (old, ?v)"
    using O by (simp add: validate_checkpoint_iff Let_def da del: One_nat_def)
  show ?thesis
  proof (cases "b \<in> X")
    case False
    then have b0: "?d b = disk b" by (simp add: torn_def)
    have "get_valid_checkpoint C rsb ?d = Inr old"
    proof (rule get_valid_checkpoint_newest [OF ar va [unfolded a_def]])
      fix q w assume "validate_checkpoint C ?d (cp_place rsb sbi (?v + 1)) = Some (q, w)"
      then show "?v < 2 ^ 64 \<and> w < 2 ^ 64 \<and> ver_after ?v w"
        using O v by (simp add: validate_checkpoint_iff Let_def b_def [symmetric] b0 del: One_nat_def)
    qed
    then show ?thesis using False by (simp add: ends)
  next
    case True
    have b1: "as_cp C (?d b) = new" using True mo rb by (simp add: torn_def reads_back_def)
    have "sub32 (cb_total new) 1 = cb_total new - 1" "u32 (b + (cb_total new - 1)) = b + (cb_total new - 1)"
      using P(2,3) ab(2) by (auto intro: sub32_id u32_id)
    then have sec: "u32 (b + sub32 (cb_total new) 1) = b + cb_total new - 1" using P(2) by simp
    show ?thesis
    proof (cases "b + cb_total new - 1 \<in> X")
      case False
      then have e: "?d (b + cb_total new - 1) = disk (b + (cb_total new - 1))" using P(2) by (simp add: torn_def)
      have "cb_total new - 1 < ?n" using P(2,3) by simp
      from un [unfolded next_unused_def Let_def ends, folded b_def, OF False, rule_format, OF this]
      have none: "validate_checkpoint C ?d b = Some r \<Longrightarrow> False" for r
        unfolding validate_checkpoint_iff Let_def b1 sec e by (auto simp: new(2))
      have "get_valid_checkpoint C rsb ?d = Inr old"
        by (rule get_valid_checkpoint_newest [OF ar va [unfolded a_def]]) (use none in \<open>simp add: b_def\<close>)
      then show ?thesis using False by (simp add: ends)
    next
      case in2: True
      then have "as_cp C (?d (b + cb_total new - 1)) = new" using mo rb by (simp add: torn_def reads_back_def)
      then have vb: "validate_checkpoint C ?d b = Some (new, u64 (?v + 1))"
        using new by (simp add: validate_checkpoint_iff Let_def b1 sec del: One_nat_def)
      have "get_valid_checkpoint C rsb ?d = Inr new"
        by (rule get_valid_checkpoint_newest [OF ar vb [unfolded b_def pn(1) [symmetric]]])
          (use va v nv(1,3) in \<open>simp add: pn(2) [simplified] a_def\<close>)
      then show ?thesis using in2 True by (simp add: ends)
    qed
  qed
qed

section \<open>Two attempts\<close>

text \<open>
  Nothing but the version tells two attempts at the same checkpoint apart.  When the last block of the first attempt and the first block of
  the second one are on disk, the checkpoint of the second attempt is taken for complete, whatever lies between.
\<close>

lemma attempts_mix:
  assumes rb: "reads_back C" and ar: "cp_area rsb sbi" and old: "committed C rsb sbi disk old"
    and n1: "cp_ok C new1" "cb_version new1 = u64 (cb_version old + 1)" "pack_at rsb sbi new1 ws1"
    and n2: "cp_ok C new2" "cb_version new2 = u64 (cb_version old + 1)" "pack_at rsb sbi new2 ws2" and t: "cb_total new1 = cb_total new2"
  shows "get_valid_checkpoint C rsb (torn {fst (ws2 ! 0)} ws2 (torn {fst (last ws1)} ws1 disk)) = Inr new2"
proof -
  let ?v = "cb_version old" and ?n = "sbi_blocks_per_seg sbi" and ?d = "torn {fst (ws2 ! 0)} ws2 (torn {fst (last ws1)} ws1 disk)" and ?t = "cb_total new2"
  define a where "a = cp_place rsb sbi ?v"
  define b where "b = cp_place rsb sbi (?v + 1)"
  note O = old [unfolded committed_def Let_def, folded a_def b_def]
  have v: "?v < 2 ^ 64" using O by simp
  note nv = next_version [OF v] and pn = cp_place_next [OF v]
  have lt: "rsb_cp_blkaddr rsb + 2 * ?n < 2 ^ 32" using ar by (simp add: cp_area_def)
  have st: "start_cp_addr rsb (cb_ckpt new1) sbi = b" "start_cp_addr rsb (cb_ckpt new2) sbi = b"
    using start_cp_addr_eq [OF lt] nv(2) by (simp_all add: n1(2) n2(2) b_def cp_place_def)
  have P: "map fst ws1 = [b..<b + ?t]" "map fst ws2 = [b..<b + ?t]" "2 \<le> ?t" "?t \<le> ?n" "ws1 ! (?t - 1) = (b + ?t - 1, Cp_Block new1)" "ws2 ! 0 = (b, Cp_Block new2)"
    using n1(3) n2(3) by (simp_all add: pack_at_def Let_def st t)
  have len: "length ws1 = ?t" "length ws2 = ?t" using pack_length(1) [OF n1(3)] pack_length(1) [OF n2(3)] t by simp_all
  then have "last ws1 = ws1 ! (?t - 1)" using P(3) by (subst last_conv_nth) auto
  then have l: "last ws1 = (b + ?t - 1, Cp_Block new1)" using P(5) by simp
  have "last ws1 \<in> set ws1" "ws2 ! 0 \<in> set ws2" using len P(3) by (auto intro!: last_in_set nth_mem)
  then have mo: "map_of ws1 (b + ?t - 1) = Some (Cp_Block new1)" "map_of ws2 b = Some (Cp_Block new2)"
    using P(1,2,6) l by (simp_all add: map_of_is_SomeI)
  have d: "?d x = (if x = b then Cp_Block new2 else if x = b + ?t - 1 then Cp_Block new1 else disk x)" for x
    using mo l P(3,6) by (simp add: torn_def)
  have "a + ?n \<le> b \<or> b + ?n \<le> a" by (simp add: a_def b_def cp_place_def)
  then have far: "?d (a + i) = disk (a + i)" if "i < ?n" for i unfolding d using that P(3,4) by auto
  have ab: "a + ?n < 2 ^ 32" "b + ?n < 2 ^ 32" using lt by (auto simp: a_def b_def cp_place_def)
  have "cb_total old - 1 < ?n" "a + cb_total old - 1 = a + (cb_total old - 1)" using O by auto
  then have da: "?d a = disk a" "?d (a + cb_total old - 1) = disk (a + cb_total old - 1)" using far [of 0] far [of "cb_total old - 1"] by simp_all
  have "sub32 (cb_total old) 1 = cb_total old - 1" "u32 (a + (cb_total old - 1)) = a + (cb_total old - 1)"
    using O ab(1) by (auto intro: sub32_id u32_id)
  then have "u32 (a + sub32 (cb_total old) 1) = a + cb_total old - 1" using O by simp
  then have va: "validate_checkpoint C ?d a = Some (old, ?v)"
    using O by (simp add: validate_checkpoint_iff Let_def da del: One_nat_def)
  have "sub32 ?t 1 = ?t - 1" "u32 (b + (?t - 1)) = b + (?t - 1)" using P(3,4) ab(2) by (auto intro: sub32_id u32_id)
  then have sec: "u32 (b + sub32 ?t 1) = b + ?t - 1" using P(3) by simp
  have "as_cp C (?d b) = new2" "as_cp C (?d (b + ?t - 1)) = new1" using P(3) rb by (simp_all add: d reads_back_def)
  then have vb: "validate_checkpoint C ?d b = Some (new2, u64 (?v + 1))"
    using n1 n2 by (simp add: validate_checkpoint_iff Let_def sec del: One_nat_def)
  show ?thesis
    by (rule get_valid_checkpoint_newest [OF ar vb [unfolded b_def pn(1) [symmetric]]])
      (use va v nv(1,3) in \<open>simp add: pn(2) [simplified] a_def\<close>)
qed

end
