(* ===== verification/Cp_Runs.thy ===== *)
theory Cp_Runs
  imports Crash
begin

text \<open>
  A history of checkpoints, each of which may be cut off after any number of its blocks: the mount always finds the
  last one that was written completely, also when the remains of an unfinished pack lie in the other segment.
\<close>

lemma put_blocks_take:
  assumes "map fst ws = [b..<b + t]"
  shows "m \<le> t \<Longrightarrow> put_blocks (take m ws) disk x = (if b \<le> x \<and> x < b + m then snd (ws ! (x - b)) else disk x)"
proof (induction m)
  case (Suc m)
  have len: "length ws = t" using assms by (metis diff_add_inverse length_map length_upt)
  have "fst (ws ! m) = b + m" using arg_cong [OF assms, of "\<lambda>l. l ! m"] Suc.prems len by simp
  moreover have "put_blocks (take (Suc m) ws) disk = (put_blocks (take m ws) disk)(fst (ws ! m) := snd (ws ! m))"
    using Suc.prems len by (simp add: put_blocks_def take_Suc_conv_app_nth split: prod.split)
  ultimately show ?case using Suc by auto
qed (auto simp: put_blocks_def)

section \<open>The checkpoint area\<close>

text \<open>
  The newest complete pack is \<open>cb\<close>.  Every checkpoint block has a version that belongs to its segment; only the first block of
  a segment can be newer than \<open>cb\<close>, by one: it is what remains of an unfinished pack.
\<close>

definition cp_inv :: "cp_layout \<Rightarrow> f2fs_super_block \<Rightarrow> f2fs_sb_info \<Rightarrow> (nat \<Rightarrow> meta_block) \<Rightarrow> cp_block \<Rightarrow> bool" where
  "cp_inv C rsb sbi disk cb \<longleftrightarrow>
    (let v = cb_version cb; a = cp_place rsb sbi v; n = sbi_blocks_per_seg sbi
     in v < 2 ^ 63 \<and> as_cp C (disk a) = cb \<and> cp_ok C cb \<and> 1 \<le> cb_total cb \<and> cb_total cb \<le> n
        \<and> cp_ok C (as_cp C (disk (a + cb_total cb - 1))) \<and> cb_version (as_cp C (disk (a + cb_total cb - 1))) = v
        \<and> (\<forall>w i. i < n \<longrightarrow> cp_ok C (as_cp C (disk (cp_place rsb sbi w + i))) \<longrightarrow>
             (let p = as_cp C (disk (cp_place rsb sbi w + i))
              in even (cb_version p) = even w \<and> cb_version p \<le> v + 1 \<and> (0 < i \<longrightarrow> cb_version p \<le> v)
                 \<and> (cb_version p = v + 1 \<longrightarrow> 2 \<le> cb_total p \<and> cb_total p \<le> n))))"

lemma cp_invD:
  assumes "cp_inv C rsb sbi disk cb"
  shows "cb_version cb < 2 ^ 63" "as_cp C (disk (cp_place rsb sbi (cb_version cb))) = cb" "cp_ok C cb" "1 \<le> cb_total cb" "cb_total cb \<le> sbi_blocks_per_seg sbi"
    "cp_ok C (as_cp C (disk (cp_place rsb sbi (cb_version cb) + cb_total cb - 1)))"
    "cb_version (as_cp C (disk (cp_place rsb sbi (cb_version cb) + cb_total cb - 1))) = cb_version cb"
    "\<And>w i. i < sbi_blocks_per_seg sbi \<Longrightarrow> cp_ok C (as_cp C (disk (cp_place rsb sbi w + i))) \<Longrightarrow>
       even (cb_version (as_cp C (disk (cp_place rsb sbi w + i)))) = even w \<and> cb_version (as_cp C (disk (cp_place rsb sbi w + i))) \<le> cb_version cb + 1
       \<and> (0 < i \<longrightarrow> cb_version (as_cp C (disk (cp_place rsb sbi w + i))) \<le> cb_version cb)
       \<and> (cb_version (as_cp C (disk (cp_place rsb sbi w + i))) = cb_version cb + 1 \<longrightarrow>
            2 \<le> cb_total (as_cp C (disk (cp_place rsb sbi w + i))) \<and> cb_total (as_cp C (disk (cp_place rsb sbi w + i))) \<le> sbi_blocks_per_seg sbi)"
  using assms unfolding cp_inv_def Let_def by blast+

lemma cp_inv_mount:
  assumes ar: "cp_area rsb sbi" and iv: "cp_inv C rsb sbi disk cb"
  shows "get_valid_checkpoint C rsb disk = Inr cb"
proof -
  let ?v = "cb_version cb" and ?n = "sbi_blocks_per_seg sbi"
  define a where "a = cp_place rsb sbi ?v"
  define b where "b = cp_place rsb sbi (?v + 1)"
  note I = cp_invD [OF iv, folded a_def]
  have lt: "a + ?n < 2 ^ 32" "b + ?n < 2 ^ 32" using ar by (auto simp: a_def b_def cp_place_def cp_area_def)
  have "sub32 (cb_total cb) 1 = cb_total cb - 1" "u32 (a + (cb_total cb - 1)) = a + (cb_total cb - 1)"
    using I(4,5) lt by (auto intro: sub32_id u32_id)
  then have "u32 (a + sub32 (cb_total cb) 1) = a + cb_total cb - 1" using I(4) by simp
  then have va: "validate_checkpoint C disk a = Some (cb, ?v)"
    using I by (simp add: validate_checkpoint_iff Let_def del: One_nat_def)
  show ?thesis
  proof (rule get_valid_checkpoint_newest [OF ar va [unfolded a_def]])
    fix q w assume "validate_checkpoint C disk (cp_place rsb sbi (?v + 1)) = Some (q, w)"
    then have Q: "q = as_cp C (disk b)" "w = cb_version q" "cp_ok C q" "cp_ok C (as_cp C (disk (u32 (b + sub32 (cb_total q) 1))))"
      "cb_version (as_cp C (disk (u32 (b + sub32 (cb_total q) 1)))) = w"
      by (auto simp: validate_checkpoint_iff Let_def b_def)
    have n: "0 < ?n" using I(4,5) by linarith
    have F: "even w = even (?v + 1)" "w \<le> ?v + 1" "w = ?v + 1 \<Longrightarrow> 2 \<le> cb_total q \<and> cb_total q \<le> ?n"
      using I(8) [of 0 "?v + 1", folded b_def] n Q(1-3) by simp_all
    have "w \<noteq> ?v + 1"
    proof
      assume e: "w = ?v + 1"
      then have t: "2 \<le> cb_total q" "cb_total q \<le> ?n" using F(3) by auto
      have "sub32 (cb_total q) 1 = cb_total q - 1" "u32 (b + (cb_total q - 1)) = b + (cb_total q - 1)"
        using t lt by (auto intro: sub32_id u32_id)
      then have "w \<le> ?v" using I(8) [of "cb_total q - 1" "?v + 1", folded b_def] Q(4,5) t by simp
      then show False using e by simp
    qed
    moreover have "w \<noteq> ?v" using F(1) by auto
    ultimately have "w < ?v" using F(2) by simp
    then show "?v < 2 ^ 64 \<and> w < 2 ^ 64 \<and> ver_after ?v w" using I(1) by (simp add: ver_after_def Let_def sub64_id)
  qed
qed

section \<open>A pack is written, or a part of it\<close>

definition foreign :: "cp_layout \<Rightarrow> (nat \<times> meta_block) list \<Rightarrow> bool" where
  "foreign C ws \<longleftrightarrow> (\<forall>i. 0 < i \<and> i < length ws - 1 \<longrightarrow> \<not> cp_ok C (as_cp C (snd (ws ! i))))"

lemma cp_inv_attempt:
  assumes rb: "reads_back C" and ar: "cp_area rsb sbi" and iv: "cp_inv C rsb sbi disk cb"
    and new: "cp_ok C new" "cb_version new = cb_version cb + 1" "cb_version new < 2 ^ 63" and pk: "pack_at rsb sbi new ws" and fo: "foreign C ws"
    and m: "m \<le> length ws"
  shows "cp_inv C rsb sbi (put_blocks (take m ws) disk) (if m = length ws then new else cb)"
proof -
  let ?v = "cb_version cb" and ?n = "sbi_blocks_per_seg sbi" and ?d = "put_blocks (take m ws) disk" and ?t = "cb_total new"
  let ?a = "cp_place rsb sbi ?v" and ?b = "cp_place rsb sbi (?v + 1)"
  note I = cp_invD [OF iv]
  have lt: "rsb_cp_blkaddr rsb + 2 * ?n < 2 ^ 32" using ar by (simp add: cp_area_def)
  have st: "start_cp_addr rsb (cb_ckpt new) sbi = ?b" using start_cp_addr_eq [OF lt] by (simp add: new(2) cp_place_def)
  have P: "map fst ws = [?b..<?b + ?t]" "2 \<le> ?t" "?t \<le> ?n" "ws ! 0 = (?b, Cp_Block new)" "ws ! (?t - 1) = (?b + ?t - 1, Cp_Block new)"
    using pk by (simp_all add: pack_at_def Let_def st)
  have len: "length ws = ?t" using P(1) by (metis diff_add_inverse length_map length_upt)
  have d: "?d x = (if ?b \<le> x \<and> x < ?b + m then snd (ws ! (x - ?b)) else disk x)" for x
    using put_blocks_take [OF P(1)] m len by simp
  have pl: "cp_place rsb sbi w = (if even w = even ?v then ?a else ?b)" for w by (simp add: cp_place_def)
  have apart: "\<not> (?b \<le> ?a + i \<and> ?a + i < ?b + m)" if "i < ?n" for i
    using that m len P(3) by (auto simp: cp_place_def split: if_splits)
  have da: "?d (?a + i) = disk (?a + i)" if "i < ?n" for i using apart [OF that] unfolding d by (simp only: if_False)
  have db: "?d (?b + i) = (if i < m then snd (ws ! i) else disk (?b + i))" for i unfolding d by simp
  have cp: "as_cp C (Cp_Block new) = new" using rb by (simp add: reads_back_def)
  have oldb: "p = as_cp C (?d (cp_place rsb sbi w + i)) \<Longrightarrow> cp_ok C p \<Longrightarrow> i < ?n \<Longrightarrow>
      even (cb_version p) = even w \<and> (p = new \<and> even w \<noteq> even ?v \<and> (i = 0 \<or> m = ?t)
       \<or> cb_version p \<le> ?v + 1 \<and> (0 < i \<longrightarrow> cb_version p \<le> ?v) \<and> (cb_version p = ?v + 1 \<longrightarrow> 2 \<le> cb_total p \<and> cb_total p \<le> ?n))" for p w i
  proof (cases "even w = even ?v")
    case True
    assume p: "p = as_cp C (?d (cp_place rsb sbi w + i))" "cp_ok C p" "i < ?n"
    then have "p = as_cp C (disk (cp_place rsb sbi w + i))" using da [of i] True by (simp add: pl [of w])
    then show ?thesis using I(8) [of i w] p by blast
  next
    case False
    assume p: "p = as_cp C (?d (cp_place rsb sbi w + i))" "cp_ok C p" "i < ?n"
    have w: "cp_place rsb sbi w = ?b" using False by (simp add: pl [of w])
    show ?thesis
    proof (cases "i < m")
      case False
      then have "p = as_cp C (disk (cp_place rsb sbi w + i))" using p(1) db [of i] by (simp add: w)
      then show ?thesis using I(8) [of i w] p by blast
    next
      case True
      then have e: "p = as_cp C (snd (ws ! i))" using p(1) db [of i] by (simp add: w)
      have "i = 0 \<or> i = ?t - 1"
      proof (rule ccontr)
        assume "\<not> (i = 0 \<or> i = ?t - 1)"
        then have "0 < i" "i < length ws - 1" using True m len by auto
        then show False using fo p(2) e by (auto simp: foreign_def)
      qed
      then have "p = new \<and> (i = 0 \<or> m = ?t)" using e P cp True m len by auto
      moreover have "even ?v \<noteq> even (cb_version new)" by (simp add: new(2))
      ultimately show ?thesis using False by blast
    qed
  qed
  show ?thesis
  proof (cases "m = length ws")
    case False
    have t: "cb_total cb - 1 < ?n" "?a + cb_total cb - 1 = ?a + (cb_total cb - 1)" using I(4,5) by auto
    have keep: "?d ?a = disk ?a" "?d (?a + cb_total cb - 1) = disk (?a + cb_total cb - 1)"
      using da [of 0] da [OF t(1)] t I(4,5) by simp_all
    have "even (cb_version (as_cp C (?d (cp_place rsb sbi w + i)))) = even w \<and> cb_version (as_cp C (?d (cp_place rsb sbi w + i))) \<le> ?v + 1
        \<and> (0 < i \<longrightarrow> cb_version (as_cp C (?d (cp_place rsb sbi w + i))) \<le> ?v)
        \<and> (cb_version (as_cp C (?d (cp_place rsb sbi w + i))) = ?v + 1 \<longrightarrow>
            2 \<le> cb_total (as_cp C (?d (cp_place rsb sbi w + i))) \<and> cb_total (as_cp C (?d (cp_place rsb sbi w + i))) \<le> ?n)"
      if "i < ?n" "cp_ok C (as_cp C (?d (cp_place rsb sbi w + i)))" for w i
      using oldb [OF refl that(2,1)] new(2) P(2,3) False len by auto
    then show ?thesis using I(1-7) False by (simp add: cp_inv_def Let_def keep del: One_nat_def)
  next
    case True
    have b0: "as_cp C (?d ?b) = new" using db [of 0] P(2,4) len True cp by simp
    have b1: "as_cp C (?d (?b + ?t - 1)) = new"
    proof -
      have "?b + ?t - 1 = ?b + (?t - 1)" using P(2) by simp
      then show ?thesis using db [of "?t - 1"] P(2,5) len True cp by simp
    qed
    have "even (cb_version (as_cp C (?d (cp_place rsb sbi w + i)))) = even w \<and> cb_version (as_cp C (?d (cp_place rsb sbi w + i))) \<le> ?v + 1 + 1
        \<and> (0 < i \<longrightarrow> cb_version (as_cp C (?d (cp_place rsb sbi w + i))) \<le> ?v + 1)
        \<and> (cb_version (as_cp C (?d (cp_place rsb sbi w + i))) = ?v + 1 + 1 \<longrightarrow>
            2 \<le> cb_total (as_cp C (?d (cp_place rsb sbi w + i))) \<and> cb_total (as_cp C (?d (cp_place rsb sbi w + i))) \<le> ?n)"
      if "i < ?n" "cp_ok C (as_cp C (?d (cp_place rsb sbi w + i)))" for w i
    proof -
      have "even (cb_version (as_cp C (?d (cp_place rsb sbi w + i)))) = even w" "cb_version (as_cp C (?d (cp_place rsb sbi w + i))) \<le> ?v + 1"
        using oldb [OF refl that(2,1)] new(2) by auto
      then show ?thesis by linarith
    qed
    moreover have "?v + 1 < 2 ^ 63" "1 \<le> ?t" using new P(2) by simp_all
    ultimately have "cp_inv C rsb sbi ?d new" unfolding cp_inv_def Let_def new(2) b0 b1 using new P(3) by blast
    then show ?thesis using True by simp
  qed
qed

section \<open>Histories\<close>

text \<open>The file system that goes to write the checkpoint after \<open>cb\<close>.\<close>

definition goes_on :: "cp_layout \<Rightarrow> sum_layout \<Rightarrow> f2fs_super_block \<Rightarrow> f2fs_sb_info \<Rightarrow> cp_block \<Rightarrow> cp_state \<Rightarrow> bool" where
  "goes_on C K rsb sbi cb S \<longleftrightarrow> pack_ready C K rsb S \<and> dirty_ok (cps_sbi S) \<and> TOTAL_SEGS (cps_sbi S) < 2 ^ 32 - 1
     \<and> sbi_blocks_per_seg (cps_sbi S) = sbi_blocks_per_seg sbi
     \<and> cb_version (cps_ckpt S) = cb_version cb + 1 \<and> cb_version cb + 1 < 2 ^ 63 \<and> ck_checksum_offset (cb_ckpt (cps_ckpt S)) < blocksize C"

inductive checkpoint_runs ::
  "f2fs_env \<Rightarrow> cp_layout \<Rightarrow> sum_layout \<Rightarrow> f2fs_super_block \<Rightarrow> f2fs_sb_info \<Rightarrow> (nat \<Rightarrow> meta_block) \<Rightarrow> cp_block \<Rightarrow> (nat \<Rightarrow> meta_block) \<Rightarrow> cp_block \<Rightarrow> bool"
  for E C K rsb sbi disk0 cb0 where
  start: "checkpoint_runs E C K rsb sbi disk0 cb0 disk0 cb0"
| attempt: "checkpoint_runs E C K rsb sbi disk0 cb0 disk cb \<Longrightarrow> goes_on C K rsb sbi cb S \<Longrightarrow> do_checkpoint E C K rsb S um = Some (S', ws, ds) \<Longrightarrow>
     foreign C ws \<Longrightarrow> m \<le> length ws \<Longrightarrow>
     checkpoint_runs E C K rsb sbi disk0 cb0 (put_blocks (take m ws) disk) (if m = length ws \<and> ws \<noteq> [] then cps_ckpt S' else cb)"

lemma runs_inv:
  assumes rb: "reads_back C" and ar: "cp_area rsb sbi" and k: "kernel_ok E" and run: "checkpoint_runs E C K rsb sbi disk0 cb0 disk cb"
    and iv: "cp_inv C rsb sbi disk0 cb0"
  shows "cp_inv C rsb sbi disk cb"
  using run
proof (induction rule: checkpoint_runs.induct)
  case start
  then show ?case by (rule iv)
next
  case (attempt disk cb S um S' ws ds m)
  note G = attempt.hyps(2) [unfolded goes_on_def]
  obtain T where T: "sync_dirty_meta S = Some T" using attempt.hyps(3) by (auto simp: do_checkpoint_def bind_eq_Some_conv)
  obtain S1 ws1 ds1 nid where S1: "do_checkpoint E C K rsb S um = Some (S1, if writable S then ws1 else [], ds1)" "cps_ckpt S1 = modify_checkpoint E C K S nid um"
    "pack_at rsb (cps_sbi S) (cps_ckpt S1) ws1"
    using do_checkpoint_pack [of C K rsb S E T um] G k T by metis
  show ?case
  proof (cases "writable S")
    case False
    then have "ws = []" using S1(1) attempt.hyps(3) by simp
    then show ?thesis using attempt.IH by (simp add: put_blocks_def)
  next
    case True
    have e: "S1 = S'" "ws1 = ws" using S1(1) attempt.hyps(3) True by simp_all
    note F = modify_checkpoint_fields [where E = E and C = C and K = K and S = S and nid = nid and um = um, folded S1(2) [unfolded e]]
    have ok: "cp_ok C (cps_ckpt S')" "cb_version (cps_ckpt S') = cb_version cb + 1" "cb_version (cps_ckpt S') < 2 ^ 63"
      using F(1,2,19) G by (simp_all add: cp_ok_def)
    have n: "sbi_blocks_per_seg (cps_sbi S) = sbi_blocks_per_seg sbi" using G by simp
    have pk: "pack_at rsb sbi (cps_ckpt S') ws" using S1(3) unfolding e pack_at_def start_cp_addr_def n .
    moreover have "ws \<noteq> []" using pack_length [OF pk] by auto
    ultimately show ?thesis using cp_inv_attempt [OF rb ar attempt.IH ok _ attempt.hyps(4,5)] by simp
  qed
qed

lemma runs_mount:
  assumes "reads_back C" and "cp_area rsb sbi" and "kernel_ok E" and "checkpoint_runs E C K rsb sbi disk0 cb0 disk cb" and "cp_inv C rsb sbi disk0 cb0"
  shows "get_valid_checkpoint C rsb disk = Inr cb"
  by (rule cp_inv_mount [OF assms(2) runs_inv [OF assms]])

end
