(* ===== verification/Nat_Cache.thy ===== *)
theory Nat_Cache
  imports Nat_Inv
begin

text \<open>
  The operations on the cache of the node address table keep its invariant and change the entry
  of at most one node id: \<open>get_node_info\<close> reports the entry and caches it.
\<close>

section \<open>The lists\<close>

lemma length_remove1_cases: "length (remove1 x xs) = (if x \<in> set xs then length xs - 1 else length xs)"
  by (simp add: length_remove1)

lemma cache_ok_grab_put:
  assumes ok: "cache_ok nm_i" and n: "nm_nat_root nm_i nid = None" "nid < nm_max_nid nm_i" and e: "ni_nid (nat_ni e) = nid"
  shows "cache_ok (put_nat_cache nid e (snd (grab_nat_entry nm_i nid)))"
proof -
  note c = cache_okD [OF ok]
  have notin: "nid \<notin> set (nm_nat_entries nm_i)" "nid \<notin> set (nm_dirty_nat_entries nm_i)" using n(1) c(4) by auto
  let ?all = "nid # nm_nat_entries nm_i @ nm_dirty_nat_entries nm_i"
  have "set ?all \<subseteq> {..<nm_max_nid nm_i}" using c(4,7) n(2) by fastforce
  then have "card (set ?all) \<le> nm_max_nid nm_i" using card_mono [of "{..<nm_max_nid nm_i}"] by fastforce
  moreover have "card (set ?all) = length ?all" by (rule distinct_card) (use c notin in simp)
  ultimately have "nm_nat_cnt nm_i + 1 < 2 ^ 32" using c(5,6) by simp
  then show ?thesis
    using ok n notin e by (auto simp: cache_ok_def put_nat_cache_def grab_nat_entry_def Let_def u32_id)
qed

lemma cache_ok_put:
  assumes "cache_ok nm_i" and "nm_nat_root nm_i nid \<noteq> None" and "ni_nid (nat_ni e) = nid"
  shows "cache_ok (put_nat_cache nid e nm_i)"
  using assms by (auto simp: cache_ok_def put_nat_cache_def)

lemma cache_ok_dirty:
  assumes ok: "cache_ok nm_i" and n: "nm_nat_root nm_i nid \<noteq> None"
  shows "cache_ok (set_nat_cache_dirty nm_i nid)"
    "set (nm_nat_entries (set_nat_cache_dirty nm_i nid)) = set (nm_nat_entries nm_i) - {nid}"
    "set (nm_dirty_nat_entries (set_nat_cache_dirty nm_i nid)) = insert nid (set (nm_dirty_nat_entries nm_i))"
proof -
  note c = cache_okD [OF ok]
  have inn: "nid \<in> set (nm_nat_entries nm_i) \<or> nid \<in> set (nm_dirty_nat_entries nm_i)" using n c(4) by auto
  have pos: "x \<in> set xs \<Longrightarrow> 0 < length xs" for x :: nat and xs by auto
  show "set (nm_nat_entries (set_nat_cache_dirty nm_i nid)) = set (nm_nat_entries nm_i) - {nid}"
    "set (nm_dirty_nat_entries (set_nat_cache_dirty nm_i nid)) = insert nid (set (nm_dirty_nat_entries nm_i))"
    using c(1,2) by (auto simp: set_nat_cache_dirty_def)
  show "cache_ok (set_nat_cache_dirty nm_i nid)"
    using inn c ok pos [of nid "nm_nat_entries nm_i"] pos [of nid "nm_dirty_nat_entries nm_i"]
    by (auto simp: cache_ok_def set_nat_cache_dirty_def length_remove1_cases distinct_remove1)
qed

lemma cache_ok_clean:
  assumes ok: "cache_ok nm_i" and n: "nm_nat_root nm_i nid \<noteq> None"
  shows "cache_ok (clear_nat_cache_dirty nm_i nid)"
    "set (nm_nat_entries (clear_nat_cache_dirty nm_i nid)) = insert nid (set (nm_nat_entries nm_i))"
    "set (nm_dirty_nat_entries (clear_nat_cache_dirty nm_i nid)) = set (nm_dirty_nat_entries nm_i) - {nid}"
proof -
  note c = cache_okD [OF ok]
  have inn: "nid \<in> set (nm_nat_entries nm_i) \<or> nid \<in> set (nm_dirty_nat_entries nm_i)" using n c(4) by auto
  have pos: "x \<in> set xs \<Longrightarrow> 0 < length xs" for x :: nat and xs by auto
  show "set (nm_nat_entries (clear_nat_cache_dirty nm_i nid)) = insert nid (set (nm_nat_entries nm_i))"
    "set (nm_dirty_nat_entries (clear_nat_cache_dirty nm_i nid)) = set (nm_dirty_nat_entries nm_i) - {nid}"
    using c(1,2) by (auto simp: clear_nat_cache_dirty_def)
  show "cache_ok (clear_nat_cache_dirty nm_i nid)"
    using inn c ok pos [of nid "nm_nat_entries nm_i"] pos [of nid "nm_dirty_nat_entries nm_i"]
    by (auto simp: cache_ok_def clear_nat_cache_dirty_def length_remove1_cases distinct_remove1)
qed

lemma cache_ok_del:
  assumes ok: "cache_ok nm_i" and n: "nm_nat_root nm_i nid \<noteq> None"
  shows "cache_ok (del_from_nat_cache nm_i nid)"
    "set (nm_nat_entries (del_from_nat_cache nm_i nid)) = set (nm_nat_entries nm_i) - {nid}"
    "set (nm_dirty_nat_entries (del_from_nat_cache nm_i nid)) = set (nm_dirty_nat_entries nm_i) - {nid}"
proof -
  note c = cache_okD [OF ok]
  have inn: "nid \<in> set (nm_nat_entries nm_i) \<or> nid \<in> set (nm_dirty_nat_entries nm_i)" using n c(4) by auto
  then have pos: "1 \<le> nm_nat_cnt nm_i" "nm_nat_cnt nm_i < 2 ^ 32" using c(5,6,9) by (auto simp: Suc_le_eq)
  have len: "x \<in> set xs \<Longrightarrow> \<exists>k. length xs = Suc k" for x :: nat and xs by (cases xs) auto
  show "set (nm_nat_entries (del_from_nat_cache nm_i nid)) = set (nm_nat_entries nm_i) - {nid}"
    "set (nm_dirty_nat_entries (del_from_nat_cache nm_i nid)) = set (nm_dirty_nat_entries nm_i) - {nid}"
    using c(1,2) by (auto simp: del_from_nat_cache_def)
  show "cache_ok (del_from_nat_cache nm_i nid)"
    using inn c ok len [of nid "nm_nat_entries nm_i"] len [of nid "nm_dirty_nat_entries nm_i"] pos
    by (auto simp: cache_ok_def del_from_nat_cache_def length_remove1_cases distinct_remove1 sub32_id)
qed

section \<open>The cache over the disk\<close>

text \<open>The parts of the manager's data that say where the pages are, and that no cache operation changes.\<close>

definition same_table :: "f2fs_nm_info \<Rightarrow> f2fs_nm_info \<Rightarrow> bool" where
  "same_table nm_i nm_i' \<longleftrightarrow> nm_nat_blkaddr nm_i' = nm_nat_blkaddr nm_i \<and> nm_max_nid nm_i' = nm_max_nid nm_i
     \<and> nm_nat_bitmap nm_i' = nm_nat_bitmap nm_i"

lemma same_table_ops [simp]:
  "same_table nm_i nm_i" "same_table nm_i (put_nat_cache n e nm_i)" "same_table nm_i (snd (grab_nat_entry nm_i n))"
  "same_table nm_i (set_nat_cache_dirty nm_i n)" "same_table nm_i (clear_nat_cache_dirty nm_i n)"
  "same_table nm_i (del_from_nat_cache nm_i n)"
  by (simp_all add: same_table_def put_nat_cache_def grab_nat_entry_def set_nat_cache_dirty_def
    clear_nat_cache_dirty_def del_from_nat_cache_def Let_def)

lemma same_table_trans: "same_table a b \<Longrightarrow> same_table b c \<Longrightarrow> same_table a c"
  by (simp add: same_table_def)

lemma same_table_addr: "same_table nm_i nm_i' \<Longrightarrow> current_nat_addr L sbi nm_i' = current_nat_addr L sbi nm_i"
  by (simp add: same_table_def current_nat_addr_def fun_eq_iff)

lemma disk_nat_nm: "same_table (ns_nm S) nm_i \<Longrightarrow> disk_nat L sbi (S\<lparr>ns_nm := nm_i\<rparr>) = disk_nat L sbi S"
  by (simp add: disk_nat_def page_nat_def same_table_addr fun_eq_iff split: option.split)

lemma nat_lookup_nm:
  "same_table (ns_nm S) nm_i \<Longrightarrow> nat_lookup L sbi (S\<lparr>ns_nm := nm_i\<rparr>) n =
     (case nm_nat_root nm_i n of Some e \<Rightarrow> raw_of e | None \<Rightarrow> disk_nat L sbi S n)"
  by (simp add: nat_lookup_def disk_nat_nm split: option.split)

lemma nat_ok_nm:
  assumes "nat_ok L sbi S" and t: "same_table (ns_nm S) nm_i" and "cache_ok nm_i"
    and "\<And>n. n \<in> set (nm_nat_entries nm_i) \<Longrightarrow> map_option raw_of (nm_nat_root nm_i n) = Some (disk_nat L sbi S n)"
  shows "nat_ok L sbi (S\<lparr>ns_nm := nm_i\<rparr>)"
  using assms unfolding nat_ok_def disk_nat_nm [OF t] by (simp add: nat_geom_def same_table_def)

lemma raw_of_set_from_raw [simp]: "raw_of (set_from_raw e ne) = ne"
  by (simp add: raw_of_def set_from_raw_def)

lemma raw_of_checkpointed [simp]: "raw_of (e\<lparr>nat_checkpointed := b\<rparr>) = raw_of e"
  by (simp add: raw_of_def)

lemma root_ops [simp]:
  "nm_nat_root (put_nat_cache n e nm_i) = (nm_nat_root nm_i)(n \<mapsto> e)"
  "nm_nat_root (set_nat_cache_dirty nm_i n) = nm_nat_root nm_i"
  "nm_nat_root (clear_nat_cache_dirty nm_i n) = nm_nat_root nm_i"
  "nm_nat_root (del_from_nat_cache nm_i n) = (nm_nat_root nm_i)(n := None)"
  "nm_nat_entries (put_nat_cache n e nm_i) = nm_nat_entries nm_i"
  "nm_dirty_nat_entries (put_nat_cache n e nm_i) = nm_dirty_nat_entries nm_i"
  "nm_max_nid (put_nat_cache n e nm_i) = nm_max_nid nm_i"
  by (simp_all add: put_nat_cache_def set_nat_cache_dirty_def clear_nat_cache_dirty_def del_from_nat_cache_def)

lemma grab_ops [simp]:
  "dom (nm_nat_root (snd (grab_nat_entry nm_i n))) = insert n (dom (nm_nat_root nm_i))"
  "m \<noteq> n \<Longrightarrow> nm_nat_root (snd (grab_nat_entry nm_i n)) m = nm_nat_root nm_i m"
  "nm_nat_entries (snd (grab_nat_entry nm_i n)) = nm_nat_entries nm_i @ [n]"
  "nm_dirty_nat_entries (snd (grab_nat_entry nm_i n)) = nm_dirty_nat_entries nm_i"
  "ni_nid (nat_ni (set_from_raw (fst (grab_nat_entry nm_i n)) ne)) = n"
  by (auto simp: grab_nat_entry_def Let_def set_from_raw_def)

section \<open>\<open>get_node_info\<close>\<close>

definition info_of :: "nat \<Rightarrow> f2fs_nat_entry \<Rightarrow> node_info" where
  "info_of nid ne = \<lparr> ni_nid = nid, ni_ino = rne_ino ne, ni_blk_addr = rne_block_addr ne, ni_version = rne_version ne \<rparr>"

lemma cache_nat_entry_ok:
  assumes ok: "nat_ok L sbi S" and n: "nm_nat_root (ns_nm S) nid = None" "nid < nm_max_nid (ns_nm S)"
  defines "nm' \<equiv> cache_nat_entry (ns_nm S) nid (disk_nat L sbi S nid)"
  shows "nat_ok L sbi (S\<lparr>ns_nm := nm'\<rparr>)" "nat_lookup L sbi (S\<lparr>ns_nm := nm'\<rparr>) = nat_lookup L sbi S"
    "same_table (ns_nm S) nm'" "nm_dirty_nat_entries nm' = nm_dirty_nat_entries (ns_nm S)"
proof -
  let ?g = "grab_nat_entry (ns_nm S) nid"
  let ?e = "(set_from_raw (fst ?g) (disk_nat L sbi S nid))\<lparr>nat_checkpointed := True\<rparr>"
  have nm': "nm' = put_nat_cache nid ?e (snd ?g)"
    using n(1) by (simp add: nm'_def cache_nat_entry_def lookup_nat_cache_def case_prod_beta)
  show t: "same_table (ns_nm S) nm'" unfolding nm' by (rule same_table_trans [OF same_table_ops(3) same_table_ops(2)])
  show "nm_dirty_nat_entries nm' = nm_dirty_nat_entries (ns_nm S)" unfolding nm' by simp
  note D = nat_okD [OF ok]
  show "nat_ok L sbi (S\<lparr>ns_nm := nm'\<rparr>)"
  proof (rule nat_ok_nm [OF ok t])
    show "cache_ok nm'" unfolding nm' by (rule cache_ok_grab_put [OF D(2) n]) simp
    fix m assume "m \<in> set (nm_nat_entries nm')"
    then show "map_option raw_of (nm_nat_root nm' m) = Some (disk_nat L sbi S m)"
      using D(5) unfolding nm' by (cases "m = nid") auto
  qed
  show "nat_lookup L sbi (S\<lparr>ns_nm := nm'\<rparr>) = nat_lookup L sbi S"
  proof
    fix m
    show "nat_lookup L sbi (S\<lparr>ns_nm := nm'\<rparr>) m = nat_lookup L sbi S m"
      unfolding nat_lookup_nm [OF t] unfolding nm' using n(1) by (cases "m = nid") (simp_all add: nat_lookup_def)
  qed
qed

lemma get_node_info_ok:
  assumes ok: "nat_ok L sbi S" and n: "nid < nm_max_nid (ns_nm S)" and g: "get_node_info L sbi S nid = (ni, S')"
  shows "ni = info_of nid (nat_lookup L sbi S nid)" "nat_ok L sbi S'" "nat_lookup L sbi S' = nat_lookup L sbi S"
    "same_table (ns_nm S) (ns_nm S')" "ns_journal S' = ns_journal S" "ns_pages S' = ns_pages S"
    "nm_dirty_nat_entries (ns_nm S') = nm_dirty_nat_entries (ns_nm S)"
proof -
  note D = nat_okD [OF ok]
  have "ni = info_of nid (nat_lookup L sbi S nid) \<and> nat_ok L sbi S' \<and> nat_lookup L sbi S' = nat_lookup L sbi S
    \<and> same_table (ns_nm S) (ns_nm S') \<and> ns_journal S' = ns_journal S \<and> ns_pages S' = ns_pages S
    \<and> nm_dirty_nat_entries (ns_nm S') = nm_dirty_nat_entries (ns_nm S)"
  proof (cases "nm_nat_root (ns_nm S) nid")
    case (Some e)
    then show ?thesis
      using g ok by (auto simp: get_node_info_def lookup_nat_cache_def nat_lookup_def raw_of_def info_of_def Let_def)
  next
    case None
    let ?i = "fst (lookup_journal_in_cursum (NAT_JOURNAL_ENTRIES L) (ns_journal S) nid False)"
    have "(if 0 \<le> ?i then snd (jr_entries (ns_journal S) ! nat ?i)
       else np_entries (ns_pages S (current_nat_addr L sbi (ns_nm S) (START_NID L nid))) ! (nid - START_NID L nid)) =
      disk_nat L sbi S nid"
    proof (cases "journal_index (take (jr_n (ns_journal S)) (jr_entries (ns_journal S))) nid 0")
      case (Some i)
      then show ?thesis using journal_index_Some [OF Some] by (simp add: lookup_journal_read disk_nat_def)
    next
      case no: None
      have "journal_map (ns_journal S) nid = None" using no journal_index_None by blast
      moreover have "current_nat_addr L sbi (ns_nm S) (START_NID L nid) = current_nat_addr L sbi (ns_nm S) nid"
        by (rule current_nat_addr_place(2) [OF D(1) n])
      moreover have "nid - START_NID L nid = nid mod NAT_ENTRY_PER_BLOCK L"
        by (rule START_NID_simps(3) [OF nat_geomD(1) [OF D(1)]])
      ultimately show ?thesis using no by (simp add: lookup_journal_read disk_nat_def page_nat_def)
    qed
    with g None have r: "ni = info_of nid (disk_nat L sbi S nid)"
      "S' = S\<lparr>ns_nm := cache_nat_entry (ns_nm S) nid (disk_nat L sbi S nid)\<rparr>"
      by (simp_all add: get_node_info_def lookup_nat_cache_def Let_def node_info_from_raw_nat_def info_of_def)
    show ?thesis
      using r None cache_nat_entry_ok [OF ok None n] by (simp add: nat_lookup_def)
  qed
  then show "ni = info_of nid (nat_lookup L sbi S nid)" "nat_ok L sbi S'" "nat_lookup L sbi S' = nat_lookup L sbi S"
    "same_table (ns_nm S) (ns_nm S')" "ns_journal S' = ns_journal S" "ns_pages S' = ns_pages S"
    "nm_dirty_nat_entries (ns_nm S') = nm_dirty_nat_entries (ns_nm S)" by blast+
qed

end
