(* ===== verification/Nat_Move.thy ===== *)
theory Nat_Move
  imports Nat_Cache
begin

text \<open>
  The operations of the node address table that change entries or move them between the cache and
  the disk: \<open>set_node_addr\<close>, \<open>try_to_free_nats\<close> and \<open>flush_nats_in_journal\<close>.
\<close>

section \<open>\<open>set_node_addr\<close>\<close>

definition moved_raw :: "f2fs_env \<Rightarrow> node_info \<Rightarrow> nat \<Rightarrow> f2fs_nat_entry" where
  "moved_raw E ni new = \<lparr> rne_version = (if ni_blk_addr ni \<noteq> NEW_ADDR E \<and> new = NULL_ADDR E then u8 (ni_version ni + 1) else ni_version ni),
     rne_ino = ni_ino ni, rne_block_addr = new \<rparr>"

text \<open>The changes of address a node goes through: it gets an address when it is made, a place when it
  is written, other places later, and loses its address when it is removed.\<close>

definition legal_move :: "f2fs_env \<Rightarrow> nat \<Rightarrow> nat \<Rightarrow> bool" where
  "legal_move E old new \<longleftrightarrow> (if new = NEW_ADDR E then old = NULL_ADDR E else old \<noteq> NULL_ADDR E \<or> new \<noteq> NULL_ADDR E)"

lemma set_node_addr_ok:
  assumes ok: "nat_ok L sbi S" and n: "ni_nid ni < nm_max_nid (ns_nm S)"
    and cur: "ni_blk_addr ni = rne_block_addr (nat_lookup L sbi S (ni_nid ni))"
      "ni_version ni = rne_version (nat_lookup L sbi S (ni_nid ni))"
      "new \<noteq> NEW_ADDR E \<Longrightarrow> ni_ino ni = rne_ino (nat_lookup L sbi S (ni_nid ni))"
    and legal: "legal_move E (ni_blk_addr ni) new" and N: "NULL_ADDR E \<noteq> NEW_ADDR E"
    and disk: "rne_block_addr (disk_nat L sbi S (ni_nid ni)) \<noteq> NEW_ADDR E"
  shows "\<exists>nm'. set_node_addr E (ns_nm S) ni new = Some nm' \<and> nat_ok L sbi (S\<lparr>ns_nm := nm'\<rparr>)
    \<and> same_table (ns_nm S) nm'
    \<and> nat_lookup L sbi (S\<lparr>ns_nm := nm'\<rparr>) = (nat_lookup L sbi S)(ni_nid ni := moved_raw E ni new)"
proof -
  note D = nat_okD [OF ok]
  let ?nid = "ni_nid ni"
  define base where "base = (case nm_nat_root (ns_nm S) ?nid of None \<Rightarrow> snd (grab_nat_entry (ns_nm S) ?nid) | Some _ \<Rightarrow> ns_nm S)"
  have "\<exists>e. set_node_addr E (ns_nm S) ni new = Some (set_nat_cache_dirty (put_nat_cache ?nid e base) ?nid)
    \<and> raw_of e = moved_raw E ni new \<and> ni_nid (nat_ni e) = ?nid"
  proof (cases "nm_nat_root (ns_nm S) ?nid")
    case None
    then have "ni_blk_addr ni \<noteq> NEW_ADDR E" using disk cur(1) by (simp add: nat_lookup_def)
    then show ?thesis
      using None legal N by (auto simp: set_node_addr_def lookup_nat_cache_def base_def f2fs_bug_on_def moved_raw_def
        raw_of_def Let_def legal_move_def split: if_splits)
  next
    case (Some e)
    have "ni_nid (nat_ni e) = ?nid" by (rule cache_okD(8) [OF D(2) Some])
    then show ?thesis
      using Some legal cur N by (auto simp: set_node_addr_def lookup_nat_cache_def base_def f2fs_bug_on_def moved_raw_def
        raw_of_def Let_def legal_move_def nat_lookup_def split: if_splits)
  qed
  then obtain e where e: "set_node_addr E (ns_nm S) ni new = Some (set_nat_cache_dirty (put_nat_cache ?nid e base) ?nid)"
    "raw_of e = moved_raw E ni new" "ni_nid (nat_ni e) = ?nid" by blast
  let ?put = "put_nat_cache ?nid e base"
  have t: "same_table (ns_nm S) (set_nat_cache_dirty ?put ?nid)"
    by (cases "nm_nat_root (ns_nm S) ?nid")
      (auto simp: base_def intro: same_table_trans [OF same_table_trans [OF _ same_table_ops(2)] same_table_ops(4)])
  have c: "cache_ok ?put" "set (nm_nat_entries ?put) - {?nid} \<subseteq> set (nm_nat_entries (ns_nm S))"
    using cache_ok_grab_put [OF D(2) _ n e(3)] cache_ok_put [OF D(2) _ e(3)]
    by (auto simp: base_def split: option.splits)
  have root: "nm_nat_root base m = nm_nat_root (ns_nm S) m" if "m \<noteq> ?nid" for m
    using that by (auto simp: base_def split: option.splits)
  have in_put: "nm_nat_root ?put ?nid \<noteq> None" by simp
  note d = cache_ok_dirty [OF c(1) in_put]
  have "nat_ok L sbi (S\<lparr>ns_nm := set_nat_cache_dirty ?put ?nid\<rparr>)"
    by (rule nat_ok_nm [OF ok t d(1)]) (use c(2) d(2) D(5) root in auto)
  moreover have "nat_lookup L sbi (S\<lparr>ns_nm := set_nat_cache_dirty ?put ?nid\<rparr>) = (nat_lookup L sbi S)(?nid := moved_raw E ni new)"
    using root e(2) unfolding nat_lookup_nm [OF t] fun_eq_iff by (auto simp: nat_lookup_def split: option.splits)
  ultimately show ?thesis using e(1) t by blast
qed

section \<open>Shrinking the cache\<close>

text \<open>Only clean entries go, and they are on disk.\<close>

lemma drop_nats_ok:
  fixes k :: nat
  assumes "nat_ok L sbi S"
  defines "nm' \<equiv> snd (drop_nats k (ns_nm S))"
  shows "nat_ok L sbi (S\<lparr>ns_nm := nm'\<rparr>)" "nat_lookup L sbi (S\<lparr>ns_nm := nm'\<rparr>) = nat_lookup L sbi S"
    "same_table (ns_nm S) nm'" "set (nm_dirty_nat_entries nm') = set (nm_dirty_nat_entries (ns_nm S))"
proof -
  have "nat_ok L sbi (S\<lparr>ns_nm := snd (drop_nats k (ns_nm S))\<rparr>)
    \<and> nat_lookup L sbi (S\<lparr>ns_nm := snd (drop_nats k (ns_nm S))\<rparr>) = nat_lookup L sbi S
    \<and> same_table (ns_nm S) (snd (drop_nats k (ns_nm S)))
    \<and> set (nm_dirty_nat_entries (snd (drop_nats k (ns_nm S)))) = set (nm_dirty_nat_entries (ns_nm S))"
    using assms(1)
  proof (induction k arbitrary: S)
    case (Suc k)
    show ?case
    proof (cases "nm_nat_entries (ns_nm S)")
      case Nil
      then show ?thesis using Suc.prems by simp
    next
      case (Cons nid rest)
      let ?nm = "del_from_nat_cache (ns_nm S) nid"
      note D = nat_okD [OF Suc.prems] and t = same_table_ops(6) [of "ns_nm S" nid]
      have inn: "nid \<in> set (nm_nat_entries (ns_nm S))" using Cons by simp
      then have "nm_nat_root (ns_nm S) nid \<noteq> None" using D(5) by fastforce
      note d = cache_ok_del [OF D(2) this]
      have ok: "nat_ok L sbi (S\<lparr>ns_nm := ?nm\<rparr>)"
        by (rule nat_ok_nm [OF Suc.prems t d(1)]) (use d(2) D(5) in auto)
      have "nat_lookup L sbi (S\<lparr>ns_nm := ?nm\<rparr>) = nat_lookup L sbi S"
        using D(5) [OF inn] unfolding nat_lookup_nm [OF t] by (auto simp: fun_eq_iff nat_lookup_def)
      moreover have "set (nm_dirty_nat_entries ?nm) = set (nm_dirty_nat_entries (ns_nm S))"
        using d(3) cache_okD(3) [OF D(2)] inn by auto
      ultimately show ?thesis
        using Suc.IH [OF ok] Cons same_table_trans [OF t] by simp
    qed
  qed simp
  then show "nat_ok L sbi (S\<lparr>ns_nm := nm'\<rparr>)" "nat_lookup L sbi (S\<lparr>ns_nm := nm'\<rparr>) = nat_lookup L sbi S"
    "same_table (ns_nm S) nm'" "set (nm_dirty_nat_entries nm') = set (nm_dirty_nat_entries (ns_nm S))"
    unfolding nm'_def by blast+
qed

section \<open>Moving the journal into the cache\<close>

lemma dirty_journal_nats_ok:
  assumes "cache_ok nm" and "distinct (map fst es)" and "\<forall>n\<in>fst ` set es. n < nm_max_nid nm"
  defines "nm' \<equiv> dirty_journal_nats es nm"
  shows "cache_ok nm' \<and> same_table nm nm'
    \<and> (\<forall>n. map_option raw_of (nm_nat_root nm' n) = (case nm_nat_root nm n of Some e \<Rightarrow> Some (raw_of e) | None \<Rightarrow> map_of es n))
    \<and> set (nm_nat_entries nm') = set (nm_nat_entries nm) - fst ` set es
    \<and> fst ` set es \<subseteq> set (nm_dirty_nat_entries nm')"
  unfolding nm'_def using assms(1-3)
proof (induction es arbitrary: nm)
  case Nil
  then show ?case by (auto split: option.splits)
next
  case (Cons x es)
  obtain nid raw where x: "x = (nid, raw)" by (cases x)
  define mid where "mid = (case lookup_nat_cache nm nid of Some _ \<Rightarrow> set_nat_cache_dirty nm nid
     | None \<Rightarrow> set_nat_cache_dirty (put_nat_cache nid (set_from_raw (fst (grab_nat_entry nm nid)) raw) (snd (grab_nat_entry nm nid))) nid)"
  have run: "dirty_journal_nats (x # es) nm = dirty_journal_nats es mid"
    by (simp add: x mid_def case_prod_beta split: option.split)
  have n: "nid < nm_max_nid nm" using Cons.prems(3) x by simp
  have mid: "cache_ok mid \<and> same_table nm mid
    \<and> (\<forall>m. map_option raw_of (nm_nat_root mid m) = (if m = nid \<and> nm_nat_root nm m = None then Some raw else map_option raw_of (nm_nat_root nm m)))
    \<and> set (nm_nat_entries mid) = set (nm_nat_entries nm) - {nid} \<and> nid \<in> set (nm_dirty_nat_entries mid)"
  proof (cases "nm_nat_root nm nid")
    case (Some e)
    then have "nm_nat_root nm nid \<noteq> None" by simp
    from cache_ok_dirty [OF Cons.prems(1) this] Some show ?thesis
      by (simp add: mid_def lookup_nat_cache_def)
  next
    case None
    let ?p = "put_nat_cache nid (set_from_raw (fst (grab_nat_entry nm nid)) raw) (snd (grab_nat_entry nm nid))"
    have c: "cache_ok ?p" by (rule cache_ok_grab_put [OF Cons.prems(1) None n]) simp
    have "nm_nat_root ?p nid \<noteq> None" by simp
    note d = cache_ok_dirty [OF c this]
    have "nid \<notin> set (nm_nat_entries nm)" using None cache_okD(4) [OF Cons.prems(1)] by auto
    then show ?thesis
      using d None same_table_trans [OF same_table_trans [OF same_table_ops(3) same_table_ops(2)] same_table_ops(4)]
      by (simp add: mid_def lookup_nat_cache_def)
  qed
  have t: "same_table nm mid" using mid by simp
  then have max: "nm_max_nid mid = nm_max_nid nm" by (simp add: same_table_def)
  have es: "distinct (map fst es)" "\<forall>n\<in>fst ` set es. n < nm_max_nid mid" "nid \<notin> fst ` set es"
    using Cons.prems(2,3) x max by auto
  note I = Cons.IH [OF conjunct1 [OF mid] es(1,2)]
  have none: "map_of es nid = None" using es(3) by (simp add: map_of_eq_None_iff)
  have "nid \<in> set (nm_dirty_nat_entries (dirty_journal_nats es mid))"
  proof -
    let ?r = "dirty_journal_nats es mid"
    have "nid \<in> dom (nm_nat_root mid)" using mid cache_okD(4) [of mid] by blast
    then have "nid \<in> dom (nm_nat_root ?r)" using I by (metis (no_types, lifting) domD domI domIff map_option_is_None option.case_eq_if option.distinct(1))
    moreover have "nid \<notin> set (nm_nat_entries ?r)" using I mid by auto
    ultimately show ?thesis using cache_okD(4) [of ?r] I by blast
  qed
  moreover have "map_option raw_of (nm_nat_root (dirty_journal_nats es mid) m) =
      (case nm_nat_root nm m of Some e \<Rightarrow> Some (raw_of e) | None \<Rightarrow> map_of (x # es) m)" for m
  proof (cases "nm_nat_root mid m")
    case None
    then have "nm_nat_root nm m = None" "m \<noteq> nid" using mid by (metis map_option_is_None option.distinct(1))+
    then show ?thesis using I None by (simp add: x)
  next
    case (Some e)
    then have "map_option raw_of (nm_nat_root (dirty_journal_nats es mid) m) = Some (raw_of e)" using I by simp
    moreover have "Some (raw_of e) = (if m = nid \<and> nm_nat_root nm m = None then Some raw else map_option raw_of (nm_nat_root nm m))"
      using mid Some by (metis option.simps(9))
    ultimately show ?thesis by (auto simp: x split: option.splits if_splits)
  qed
  ultimately show ?case
    unfolding run using I mid same_table_trans [OF t] x by auto
qed

lemma flush_nats_in_journal_ok:
  assumes ok: "nat_ok L sbi S" and f: "flush_nats_in_journal L S = (flushed, S')"
  shows "nat_ok L sbi S'" "nat_lookup L sbi S' = nat_lookup L sbi S" "same_table (ns_nm S) (ns_nm S')"
    "ns_pages S' = ns_pages S" "flushed \<Longrightarrow> jr_n (ns_journal S') = 0"
proof -
  have "nat_ok L sbi S' \<and> nat_lookup L sbi S' = nat_lookup L sbi S \<and> same_table (ns_nm S) (ns_nm S')
    \<and> ns_pages S' = ns_pages S \<and> (flushed \<longrightarrow> jr_n (ns_journal S') = 0)"
  proof (cases "jr_n (ns_journal S) < NAT_JOURNAL_ENTRIES L")
    case True
    then show ?thesis using f ok by (simp add: flush_nats_in_journal_def Let_def)
  next
    case False
    note D = nat_okD [OF ok]
    let ?j = "ns_journal S"
    let ?es = "take (jr_n ?j) (jr_entries ?j)"
    have n: "jr_n ?j < 2 ^ 16" using D(3) by (simp add: journal_ok_def)
    define nm where "nm = dirty_journal_nats ?es (ns_nm S)"
    have S': "S' = S\<lparr>ns_nm := nm, ns_journal := ?j\<lparr>jr_n := 0\<rparr>\<rparr>" "flushed"
      using f False by (simp_all add: flush_nats_in_journal_def Let_def update_cursum_def to_u16_def nm_def)
    have "\<forall>n\<in>fst ` set ?es. n < nm_max_nid (ns_nm S)"
      using D(6) by (metis journal_map_def map_of_eq_None_iff)
    from dirty_journal_nats_ok [OF D(2) _ this] D(3) have d: "cache_ok nm" "same_table (ns_nm S) nm"
      "\<And>n. map_option raw_of (nm_nat_root nm n) = (case nm_nat_root (ns_nm S) n of Some e \<Rightarrow> Some (raw_of e) | None \<Rightarrow> map_of ?es n)"
      "set (nm_nat_entries nm) = set (nm_nat_entries (ns_nm S)) - fst ` set ?es"
      by (simp_all add: journal_ok_def nm_def)
    have pages: "page_nat L sbi S' = page_nat L sbi S"
      using same_table_addr [OF d(2)] by (simp add: S' page_nat_def fun_eq_iff)
    have jm: "journal_map (ns_journal S') = Map.empty" by (simp add: S' journal_map_def)
    have off: "disk_nat L sbi S' m = disk_nat L sbi S m" if "m \<notin> fst ` set ?es" for m
    proof -
      have "journal_map ?j m = None" using that by (simp add: journal_map_def map_of_eq_None_iff)
      then show ?thesis by (simp add: disk_nat_def pages jm)
    qed
    have "nat_ok L sbi S'"
    proof -
      have "map_option raw_of (nm_nat_root nm m) = Some (disk_nat L sbi S' m)" if "m \<in> set (nm_nat_entries nm)" for m
      proof -
        have m: "m \<in> set (nm_nat_entries (ns_nm S))" "m \<notin> fst ` set ?es" using that d(4) by auto
        with D(5) [OF m(1)] d(3) [of m] off [OF m(2)] show ?thesis by (auto split: option.splits)
      qed
      moreover have "journal_ok (NAT_JOURNAL_ENTRIES L) (ns_journal S')" using D(3) by (simp add: S' journal_ok_def)
      moreover have "nat_geom L sbi nm" using D(1) d(2) by (simp add: nat_geom_def same_table_def)
      ultimately show ?thesis using D(4) d(1) jm unfolding nat_ok_def by (simp add: S')
    qed
    moreover have "nat_lookup L sbi S' m = nat_lookup L sbi S m" for m
    proof (cases "nm_nat_root nm m")
      case (Some e)
      then show ?thesis using d(3) [of m]
        by (auto simp: nat_lookup_def S' disk_nat_def journal_map_def split: option.splits)
    next
      case None
      then have "nm_nat_root (ns_nm S) m = None" "map_of ?es m = None" using d(3) [of m] by (auto split: option.splits)
      then have "m \<notin> fst ` set ?es" by (simp add: map_of_eq_None_iff)
      then show ?thesis using None \<open>nm_nat_root (ns_nm S) m = None\<close> off by (simp add: nat_lookup_def S')
    qed
    ultimately show ?thesis using d(2) by (auto simp: S')
  qed
  then show "nat_ok L sbi S'" "nat_lookup L sbi S' = nat_lookup L sbi S" "same_table (ns_nm S) (ns_nm S')"
    "ns_pages S' = ns_pages S" "flushed \<Longrightarrow> jr_n (ns_journal S') = 0" by blast+
qed
end
