(* ===== verification/Nat_Flush.thy ===== *)
theory Nat_Flush
  imports Nat_Move
begin

text \<open>
  \<open>flush_nat_entries\<close> writes the dirty entries of the cache to the journal or to the table.  It
  changes no entry as the node manager sees it, afterwards the disk agrees with the cache, and the
  pages that the previous checkpoint refers to are left as they are.
\<close>

section \<open>Pages in use and their other places\<close>

text \<open>The page that is in use for the block of a node id.\<close>

abbreviation cur_page :: "node_layout \<Rightarrow> f2fs_sb_info \<Rightarrow> nat_state \<Rightarrow> nat \<Rightarrow> nat_page" where
  "cur_page L sbi S nid \<equiv> ns_pages S (current_nat_addr L sbi (ns_nm S) nid)"

text \<open>\<open>S\<close> has been reached from \<open>S0\<close> by writing only to new places: what \<open>S0\<close> used is unchanged, and
  the dirty pages are those of the blocks that have moved.\<close>

definition shadow :: "node_layout \<Rightarrow> f2fs_sb_info \<Rightarrow> nat_state \<Rightarrow> nat_state \<Rightarrow> bool" where
  "shadow L sbi S0 S \<longleftrightarrow> nm_nat_blkaddr (ns_nm S) = nm_nat_blkaddr (ns_nm S0) \<and> nm_max_nid (ns_nm S) = nm_max_nid (ns_nm S0)
     \<and> (\<forall>nid<nm_max_nid (ns_nm S0). ns_pages S (current_nat_addr L sbi (ns_nm S0) nid) = cur_page L sbi S0 nid
         \<and> (np_dirty (cur_page L sbi S nid) \<longleftrightarrow>
             nat_second (ns_nm S) (nat_blk L nid) \<noteq> nat_second (ns_nm S0) (nat_blk L nid)))"

lemma shadow_start:
  assumes "\<And>nid. nid < nm_max_nid (ns_nm S) \<Longrightarrow> \<not> np_dirty (cur_page L sbi S nid)"
  shows "shadow L sbi S S"
  using assms by (simp add: shadow_def)

lemma nat_place_table: "nm_nat_blkaddr b = nm_nat_blkaddr a \<Longrightarrow> nat_place sbi b = nat_place sbi a"
  by (simp add: nat_place_def fun_eq_iff)

lemma START_NID_less:
  assumes "nat_geom L sbi nm_i" and "nid < nm_max_nid nm_i"
  shows "START_NID L nid < nm_max_nid nm_i" "nat_blk L (START_NID L nid) = nat_blk L nid"
  using START_NID_simps(1,2,4) [OF nat_geomD(1) [OF assms(1)], of nid] assms(2)
    START_NID_simps(4) [OF nat_geomD(1) [OF assms(1)], of "START_NID L nid"] by simp_all

lemma cur_addr_inj:
  assumes "nat_geom L sbi nm_i" and "n < nm_max_nid nm_i" and "m < nm_max_nid nm_i"
  shows "current_nat_addr L sbi nm_i m = current_nat_addr L sbi nm_i n \<longleftrightarrow> nat_blk L m = nat_blk L n"
  using nat_place_inj by (auto simp: current_nat_addr_place(1) [OF assms(1)] assms(2,3))

text \<open>The switch of the block of \<open>nid\<close> to its other place.\<close>

definition switched :: "node_layout \<Rightarrow> f2fs_sb_info \<Rightarrow> nat_state \<Rightarrow> nat \<Rightarrow> nat_state" where
  "switched L sbi S nid =
    (let dst = nat_place sbi (ns_nm S) (nat_blk L nid) (\<not> nat_second (ns_nm S) (nat_blk L nid))
     in S\<lparr>ns_pages := (ns_pages S)(dst := \<lparr> np_dirty = True, np_entries = np_entries (cur_page L sbi S nid) \<rparr>),
          ns_nm := set_to_next_nat L (ns_nm S) (START_NID L nid)\<rparr>)"

lemma get_next_nat_page_cases:
  assumes g: "nat_geom L sbi (ns_nm S)" and n: "nid < nm_max_nid (ns_nm S)"
  shows "get_next_nat_page L sbi S (START_NID L nid) =
    (if np_dirty (cur_page L sbi S nid) then (current_nat_addr L sbi (ns_nm S) nid, S)
     else (nat_place sbi (ns_nm S) (nat_blk L nid) (\<not> nat_second (ns_nm S) (nat_blk L nid)), switched L sbi S nid))"
  unfolding get_next_nat_page_def Let_def current_nat_addr_place(2) [OF g n] switched_def
  by (simp add: current_nat_addr_place(1) [OF g n] next_nat_addr_place [OF g n])

lemma switched_addr:
  assumes g: "nat_geom L sbi (ns_nm S)" and n: "nid < nm_max_nid (ns_nm S)" and m: "m < nm_max_nid (ns_nm S)"
  shows "nat_geom L sbi (ns_nm (switched L sbi S nid))"
    "current_nat_addr L sbi (ns_nm (switched L sbi S nid)) m =
       (if nat_blk L m = nat_blk L nid then nat_place sbi (ns_nm S) (nat_blk L nid) (\<not> nat_second (ns_nm S) (nat_blk L nid))
        else current_nat_addr L sbi (ns_nm S) m)"
    "nat_second (ns_nm (switched L sbi S nid)) (nat_blk L m) \<longleftrightarrow>
       (nat_blk L m = nat_blk L nid) \<noteq> nat_second (ns_nm S) (nat_blk L m)"
proof -
  let ?nm = "set_to_next_nat L (ns_nm S) (START_NID L nid)"
  have nm: "ns_nm (switched L sbi S nid) = ?nm" by (simp add: switched_def)
  show g': "nat_geom L sbi (ns_nm (switched L sbi S nid))" using g unfolding nm by (simp add: nat_geom_def)
  have sec: "nat_second ?nm b \<longleftrightarrow> (b = nat_blk L nid) \<noteq> nat_second (ns_nm S) b" for b
    using set_to_next_nat_second [OF g START_NID_less(1) [OF g n], of b] START_NID_less(2) [OF g n] by auto
  then show "nat_second (ns_nm (switched L sbi S nid)) (nat_blk L m) \<longleftrightarrow>
       (nat_blk L m = nat_blk L nid) \<noteq> nat_second (ns_nm S) (nat_blk L m)" by (simp add: nm)
  have "m < nm_max_nid ?nm" using m by simp
  from current_nat_addr_place(1) [OF g' [unfolded nm] this]
  show "current_nat_addr L sbi (ns_nm (switched L sbi S nid)) m =
       (if nat_blk L m = nat_blk L nid then nat_place sbi (ns_nm S) (nat_blk L nid) (\<not> nat_second (ns_nm S) (nat_blk L nid))
        else current_nat_addr L sbi (ns_nm S) m)"
    using current_nat_addr_place(1) [OF g m] by (simp add: nm sec)
qed

lemma switched_entries:
  assumes g: "nat_geom L sbi (ns_nm S)" and n: "nid < nm_max_nid (ns_nm S)" and m: "m < nm_max_nid (ns_nm S)"
  shows "np_entries (cur_page L sbi (switched L sbi S nid) m) = np_entries (cur_page L sbi S m)"
proof (cases "nat_blk L m = nat_blk L nid")
  case True
  then have "current_nat_addr L sbi (ns_nm S) m = current_nat_addr L sbi (ns_nm S) nid"
    using cur_addr_inj [OF g n m] by simp
  then show ?thesis using True by (simp add: switched_addr(2) [OF g n m]) (simp add: switched_def Let_def)
next
  case False
  then have "current_nat_addr L sbi (ns_nm S) m \<noteq> nat_place sbi (ns_nm S) (nat_blk L nid) x" for x
    using nat_place_inj by (auto simp: current_nat_addr_place(1) [OF g m])
  then show ?thesis using False by (simp add: switched_addr(2) [OF g n m]) (simp add: switched_def Let_def)
qed

lemma disk_nat_entries:
  assumes "ns_journal S' = ns_journal S" and "np_entries (cur_page L sbi S' m) = np_entries (cur_page L sbi S m)"
  shows "disk_nat L sbi S' m = disk_nat L sbi S m"
  using assms by (simp add: disk_nat_def page_nat_def split: option.split)

lemma switched_ok:
  assumes ok: "nat_ok L sbi S" and n: "nid < nm_max_nid (ns_nm S)"
  shows "nat_ok L sbi (switched L sbi S nid)"
    "m < nm_max_nid (ns_nm S) \<Longrightarrow> disk_nat L sbi (switched L sbi S nid) m = disk_nat L sbi S m"
proof -
  let ?S' = "switched L sbi S nid"
  note D = nat_okD [OF ok]
  have fr: "ns_journal ?S' = ns_journal S" "nm_nat_root (ns_nm ?S') = nm_nat_root (ns_nm S)"
    "nm_nat_entries (ns_nm ?S') = nm_nat_entries (ns_nm S)" "nm_dirty_nat_entries (ns_nm ?S') = nm_dirty_nat_entries (ns_nm S)"
    "nm_nat_cnt (ns_nm ?S') = nm_nat_cnt (ns_nm S)" "nm_max_nid (ns_nm ?S') = nm_max_nid (ns_nm S)"
    by (simp_all add: switched_def Let_def)
  show disk: "disk_nat L sbi ?S' m = disk_nat L sbi S m" if "m < nm_max_nid (ns_nm S)" for m
    by (rule disk_nat_entries [OF fr(1) switched_entries [OF D(1) n that]])
  have "length (np_entries (ns_pages ?S' a)) = NAT_ENTRY_PER_BLOCK L" for a
    using D(4) by (simp add: switched_def Let_def)
  moreover have "map_option raw_of (nm_nat_root (ns_nm S) k) = Some (disk_nat L sbi ?S' k)"
    if k: "k \<in> set (nm_nat_entries (ns_nm S))" for k
  proof -
    have "k \<in> dom (nm_nat_root (ns_nm S))" using k cache_okD(4) [OF D(2)] by simp
    then have "k < nm_max_nid (ns_nm S)" using cache_okD(7) [OF D(2)] by blast
    then show ?thesis using D(5) [OF k] disk by simp
  qed
  ultimately show "nat_ok L sbi ?S'"
    using ok switched_addr(1) [OF D(1) n n] unfolding nat_ok_def cache_ok_def fr by simp
qed

lemma shadow_addr:
  assumes sh: "shadow L sbi S0 S" and g0: "nat_geom L sbi (ns_nm S0)" and m: "m < nm_max_nid (ns_nm S)"
  shows "current_nat_addr L sbi (ns_nm S0) m = nat_place sbi (ns_nm S) (nat_blk L m) (nat_second (ns_nm S0) (nat_blk L m))"
  using sh m current_nat_addr_place(1) [OF g0, of m] nat_place_table [of "ns_nm S0" "ns_nm S"] by (simp add: shadow_def)

lemma shadowD:
  assumes "shadow L sbi S0 S" and "m < nm_max_nid (ns_nm S)"
  shows "ns_pages S (current_nat_addr L sbi (ns_nm S0) m) = cur_page L sbi S0 m"
    "np_dirty (cur_page L sbi S m) \<longleftrightarrow> nat_second (ns_nm S) (nat_blk L m) \<noteq> nat_second (ns_nm S0) (nat_blk L m)"
    "nm_max_nid (ns_nm S) = nm_max_nid (ns_nm S0)" "nm_nat_blkaddr (ns_nm S) = nm_nat_blkaddr (ns_nm S0)"
  using assms by (auto simp: shadow_def)

lemma switched_shadow:
  assumes g: "nat_geom L sbi (ns_nm S)" and n: "nid < nm_max_nid (ns_nm S)" and g0: "nat_geom L sbi (ns_nm S0)"
    and clean: "\<not> np_dirty (cur_page L sbi S nid)" and sh: "shadow L sbi S0 S"
  shows "shadow L sbi S0 (switched L sbi S nid)"
proof -
  let ?S' = "switched L sbi S nid" and ?b = "nat_blk L nid"
  let ?dst = "nat_place sbi (ns_nm S) ?b (\<not> nat_second (ns_nm S) ?b)"
  have pages: "ns_pages ?S' = (ns_pages S)(?dst := \<lparr> np_dirty = True, np_entries = np_entries (cur_page L sbi S nid) \<rparr>)"
    and fr: "nm_max_nid (ns_nm ?S') = nm_max_nid (ns_nm S)" "nm_nat_blkaddr (ns_nm ?S') = nm_nat_blkaddr (ns_nm S)"
    by (simp_all add: switched_def Let_def)
  have same: "nat_second (ns_nm S) ?b \<longleftrightarrow> nat_second (ns_nm S0) ?b" using shadowD(2) [OF sh n] clean by blast
  have "ns_pages ?S' (current_nat_addr L sbi (ns_nm S0) m) = cur_page L sbi S0 m
      \<and> (np_dirty (cur_page L sbi ?S' m) \<longleftrightarrow> nat_second (ns_nm ?S') (nat_blk L m) \<noteq> nat_second (ns_nm S0) (nat_blk L m))"
    if m: "m < nm_max_nid (ns_nm S)" for m
  proof
    have "current_nat_addr L sbi (ns_nm S0) m \<noteq> ?dst"
      using nat_place_inj same unfolding shadow_addr [OF sh g0 m] by metis
    then show "ns_pages ?S' (current_nat_addr L sbi (ns_nm S0) m) = cur_page L sbi S0 m"
      using shadowD(1) [OF sh m] by (simp add: pages)
    show "np_dirty (cur_page L sbi ?S' m) \<longleftrightarrow> nat_second (ns_nm ?S') (nat_blk L m) \<noteq> nat_second (ns_nm S0) (nat_blk L m)"
    proof (cases "nat_blk L m = ?b")
      case True
      then show ?thesis using same switched_addr(2,3) [OF g n m] by (simp add: pages)
    next
      case False
      then have "current_nat_addr L sbi (ns_nm S) m \<noteq> ?dst"
        using nat_place_inj by (auto simp: current_nat_addr_place(1) [OF g m])
      then show ?thesis using False shadowD(2) [OF sh m] switched_addr(2,3) [OF g n m] by (simp add: pages)
    qed
  qed
  then show ?thesis using shadowD(3,4) [OF sh n] by (simp add: shadow_def fr)
qed

text \<open>The manager's data but for the bitmap.\<close>

definition same_cache :: "f2fs_nm_info \<Rightarrow> f2fs_nm_info \<Rightarrow> bool" where
  "same_cache a b \<longleftrightarrow> (\<exists>m. b = a\<lparr>nm_nat_bitmap := m\<rparr>)"

lemma same_cacheD:
  assumes "same_cache a b"
  shows "nm_nat_root b = nm_nat_root a" "nm_nat_entries b = nm_nat_entries a" "nm_dirty_nat_entries b = nm_dirty_nat_entries a"
    "nm_max_nid b = nm_max_nid a" "nm_free_nid_list b = nm_free_nid_list a" "nm_fcnt b = nm_fcnt a" "nm_nat_cnt b = nm_nat_cnt a"
  using assms by (auto simp: same_cache_def)

lemma same_cache_refl [simp]: "same_cache a a"
  unfolding same_cache_def by (rule exI [of _ "nm_nat_bitmap a"]) simp

lemma same_cache_switched: "same_cache (ns_nm S) (ns_nm (switched L sbi S nid))"
  by (auto simp: same_cache_def switched_def Let_def set_to_next_nat_def)

section \<open>Finding the page of an entry\<close>

definition cursor_ok :: "node_layout \<Rightarrow> f2fs_sb_info \<Rightarrow> nat_cursor \<Rightarrow> nat_state \<Rightarrow> bool" where
  "cursor_ok L sbi c S \<longleftrightarrow> (\<forall>page. nc_page c = Some page \<longrightarrow> (\<exists>k<nm_max_nid (ns_nm S).
     page = current_nat_addr L sbi (ns_nm S) k \<and> np_dirty (ns_pages S page)
     \<and> nc_start_nid c = START_NID L k \<and> nc_end_nid c = START_NID L k + NAT_ENTRY_PER_BLOCK L - 1))"

lemma in_block:
  assumes "0 < NAT_ENTRY_PER_BLOCK L" and "START_NID L k \<le> nid" and "nid \<le> START_NID L k + NAT_ENTRY_PER_BLOCK L - 1"
  shows "nat_blk L nid = nat_blk L k" "START_NID L k = START_NID L nid"
proof -
  let ?N = "NAT_ENTRY_PER_BLOCK L"
  have "nat_blk L k * ?N \<le> nid" "nid < Suc (nat_blk L k) * ?N" using assms by (simp_all add: START_NID_def)
  then have "nat_blk L k \<le> nat_blk L nid" "nat_blk L nid < Suc (nat_blk L k)"
    using assms(1) by (simp_all add: less_eq_div_iff_mult_less_eq div_less_iff_less_mult)
  then show "nat_blk L nid = nat_blk L k" by simp
  then show "START_NID L k = START_NID L nid" by (simp add: START_NID_def)
qed

lemma seek_nat_page_ok:
  assumes ok: "nat_ok L sbi S" and n: "nid < nm_max_nid (ns_nm S)" and c: "cursor_ok L sbi c S"
    and s: "seek_nat_page L sbi nid c S = (c', S')" and g0: "nat_geom L sbi (ns_nm S0)" and sh: "shadow L sbi S0 S"
  shows "nc_page c' = Some (current_nat_addr L sbi (ns_nm S') nid)" "nc_start_nid c' = START_NID L nid"
    "np_dirty (cur_page L sbi S' nid)" "cursor_ok L sbi c' S'" "nat_ok L sbi S'" "shadow L sbi S0 S'"
    "same_cache (ns_nm S) (ns_nm S')" "ns_journal S' = ns_journal S"
    "\<And>m. m < nm_max_nid (ns_nm S) \<Longrightarrow> disk_nat L sbi S' m = disk_nat L sbi S m"
proof -
  note D = nat_okD [OF ok] and pos = nat_geomD(1) [OF nat_okD(1) [OF ok]]
  let ?goal = "nc_page c' = Some (current_nat_addr L sbi (ns_nm S') nid) \<and> nc_start_nid c' = START_NID L nid
    \<and> np_dirty (cur_page L sbi S' nid) \<and> cursor_ok L sbi c' S' \<and> nat_ok L sbi S' \<and> shadow L sbi S0 S'
    \<and> same_cache (ns_nm S) (ns_nm S') \<and> ns_journal S' = ns_journal S
    \<and> (\<forall>m<nm_max_nid (ns_nm S). disk_nat L sbi S' m = disk_nat L sbi S m)"
  have ?goal
  proof (cases "nc_page c = None \<or> nid < nc_start_nid c \<or> nc_end_nid c < nid")
    case True
    have "START_NID L nid + NAT_ENTRY_PER_BLOCK L - 1 < 2 ^ 32"
      using START_NID_less(1) [OF D(1) n] nat_geomD(3) [OF D(1)] by simp
    then have u: "u32 (START_NID L nid + NAT_ENTRY_PER_BLOCK L - 1) = START_NID L nid + NAT_ENTRY_PER_BLOCK L - 1" by (rule u32_id)
    obtain page where p: "get_next_nat_page L sbi S (START_NID L nid) = (page, S')"
      "c' = \<lparr> nc_page = Some page, nc_start_nid = START_NID L nid, nc_end_nid = START_NID L nid + NAT_ENTRY_PER_BLOCK L - 1 \<rparr>"
      using s True unfolding seek_nat_page_def Let_def u by (simp split: prod.splits)
    have "page = current_nat_addr L sbi (ns_nm S') nid \<and> np_dirty (cur_page L sbi S' nid) \<and> nat_ok L sbi S' \<and> shadow L sbi S0 S'
      \<and> same_cache (ns_nm S) (ns_nm S') \<and> ns_journal S' = ns_journal S
      \<and> (\<forall>m<nm_max_nid (ns_nm S). disk_nat L sbi S' m = disk_nat L sbi S m)"
    proof (cases "np_dirty (cur_page L sbi S nid)")
      case True
      then have "page = current_nat_addr L sbi (ns_nm S) nid" "S' = S"
        using p(1) by (auto simp: get_next_nat_page_cases [OF D(1) n])
      then show ?thesis using ok sh True by simp
    next
      case False
      then have S': "S' = switched L sbi S nid" "page = nat_place sbi (ns_nm S) (nat_blk L nid) (\<not> nat_second (ns_nm S) (nat_blk L nid))"
        using p(1) by (simp_all add: get_next_nat_page_cases [OF D(1) n])
      have "page = current_nat_addr L sbi (ns_nm S') nid" using switched_addr(2) [OF D(1) n n] by (simp add: S')
      moreover from this have "np_dirty (cur_page L sbi S' nid)" unfolding S' by (simp add: switched_def Let_def)
      ultimately show ?thesis
        using switched_ok [OF ok n] switched_shadow [OF D(1) n g0 False sh] same_cache_switched
        by (simp add: S'(1)) (simp add: switched_def Let_def)
    qed
    moreover from this have "nm_max_nid (ns_nm S') = nm_max_nid (ns_nm S)" using same_cacheD(4) by blast
    ultimately show ?thesis using n by (auto simp: p(2) cursor_ok_def)
  next
    case False
    then have S': "S' = S" "c' = c" using s by (auto simp: seek_nat_page_def)
    obtain page k where k: "nc_page c = Some page" "k < nm_max_nid (ns_nm S)" "page = current_nat_addr L sbi (ns_nm S) k"
      "np_dirty (ns_pages S page)" "nc_start_nid c = START_NID L k" "nc_end_nid c = START_NID L k + NAT_ENTRY_PER_BLOCK L - 1"
    proof -
      obtain page where page: "nc_page c = Some page" using False by auto
      show ?thesis using that [OF page] c page unfolding cursor_ok_def by blast
    qed
    then have "nat_blk L nid = nat_blk L k" "START_NID L k = START_NID L nid"
      using in_block [OF pos, of k nid] False by simp_all
    moreover from this have "page = current_nat_addr L sbi (ns_nm S) nid" using cur_addr_inj [OF D(1) k(2) n] k(3) by simp
    ultimately show ?thesis using k c ok sh by (simp add: S')
  qed
  then show "nc_page c' = Some (current_nat_addr L sbi (ns_nm S') nid)" "nc_start_nid c' = START_NID L nid"
    "np_dirty (cur_page L sbi S' nid)" "cursor_ok L sbi c' S'" "nat_ok L sbi S'" "shadow L sbi S0 S'"
    "same_cache (ns_nm S) (ns_nm S')" "ns_journal S' = ns_journal S"
    "\<And>m. m < nm_max_nid (ns_nm S) \<Longrightarrow> disk_nat L sbi S' m = disk_nat L sbi S m" by blast+
qed

section \<open>Writing one entry\<close>

lemma write_page_ok:
  fixes raw :: f2fs_nat_entry
  assumes ok: "nat_ok L sbi S" and n: "nid < nm_max_nid (ns_nm S)" and dirty: "nid \<notin> set (nm_nat_entries (ns_nm S))"
    and jm: "journal_map (ns_journal S) nid = None" and pd: "np_dirty (cur_page L sbi S nid)"
    and g0: "nat_geom L sbi (ns_nm S0)" and sh: "shadow L sbi S0 S"
  defines "page \<equiv> current_nat_addr L sbi (ns_nm S) nid"
  defines "S' \<equiv> S\<lparr>ns_pages := (ns_pages S)(page :=
     (ns_pages S page)\<lparr>np_entries := (np_entries (ns_pages S page))[nid - START_NID L nid := raw]\<rparr>)\<rparr>"
  shows "nat_ok L sbi S'" "shadow L sbi S0 S'"
    "m < nm_max_nid (ns_nm S) \<Longrightarrow> disk_nat L sbi S' m = (if m = nid then raw else disk_nat L sbi S m)"
    "cursor_ok L sbi c S \<Longrightarrow> cursor_ok L sbi c S'"
proof -
  note D = nat_okD [OF ok] and pos = nat_geomD(1) [OF nat_okD(1) [OF ok]]
  let ?N = "NAT_ENTRY_PER_BLOCK L"
  have fr: "ns_nm S' = ns_nm S" "ns_journal S' = ns_journal S" by (simp_all add: S'_def)
  have idx: "nid - START_NID L nid = nid mod ?N" by (rule START_NID_simps(3) [OF pos])
  have len: "length (np_entries (ns_pages S' a)) = ?N" for a using D(4) by (simp add: S'_def)
  have dirt: "np_dirty (ns_pages S' a) = np_dirty (ns_pages S a)" for a by (simp add: S'_def)
  have pages: "page_nat L sbi S' m = (if m = nid then raw else page_nat L sbi S m)" if m: "m < nm_max_nid (ns_nm S)" for m
  proof (cases "nat_blk L m = nat_blk L nid")
    case True
    then have "current_nat_addr L sbi (ns_nm S) m = page" using cur_addr_inj [OF D(1) n m] by (simp add: page_def)
    moreover have "m mod ?N = nid mod ?N \<longleftrightarrow> m = nid" using True by (metis div_mult_mod_eq)
    moreover have "nid mod ?N < length (np_entries (ns_pages S page))" using D(4) pos by simp
    ultimately show ?thesis by (auto simp: page_nat_def S'_def idx)
  next
    case False
    then have "current_nat_addr L sbi (ns_nm S) m \<noteq> page" using cur_addr_inj [OF D(1) n m] by (simp add: page_def)
    then show ?thesis using False by (auto simp: page_nat_def S'_def)
  qed
  then show disk: "disk_nat L sbi S' m = (if m = nid then raw else disk_nat L sbi S m)" if "m < nm_max_nid (ns_nm S)" for m
    using that jm by (simp add: disk_nat_def fr split: option.split)
  have "map_option raw_of (nm_nat_root (ns_nm S) k) = Some (disk_nat L sbi S' k)" if k: "k \<in> set (nm_nat_entries (ns_nm S))" for k
  proof -
    have "k \<in> dom (nm_nat_root (ns_nm S))" using k cache_okD(4) [OF D(2)] by simp
    then have "k < nm_max_nid (ns_nm S)" using cache_okD(7) [OF D(2)] by blast
    then show ?thesis using D(5) [OF k] disk k dirty by auto
  qed
  then show "nat_ok L sbi S'" using ok len unfolding nat_ok_def fr by simp
  have "current_nat_addr L sbi (ns_nm S0) m \<noteq> page" if m: "m < nm_max_nid (ns_nm S)" for m
  proof
    assume "current_nat_addr L sbi (ns_nm S0) m = page"
    then have "nat_blk L m = nat_blk L nid \<and> nat_second (ns_nm S0) (nat_blk L m) = nat_second (ns_nm S) (nat_blk L nid)"
      unfolding shadow_addr [OF sh g0 m] page_def current_nat_addr_place(1) [OF D(1) n] by (rule nat_place_inj)
    then show False using shadowD(2) [OF sh n] pd by metis
  qed
  then have "ns_pages S' (current_nat_addr L sbi (ns_nm S0) m) = cur_page L sbi S0 m" if "m < nm_max_nid (ns_nm S)" for m
    using shadowD(1) [OF sh that] that by (simp add: S'_def)
  then show "shadow L sbi S0 S'"
    using shadowD(2,3,4) [OF sh] n dirt unfolding shadow_def fr by simp
  show "cursor_ok L sbi c S \<Longrightarrow> cursor_ok L sbi c S'" by (simp add: cursor_ok_def fr dirt)
qed

lemma write_journal_ok:
  assumes ok: "nat_ok L sbi S" and n: "nid < nm_max_nid (ns_nm S)" and dirty: "nid \<notin> set (nm_nat_entries (ns_nm S))"
    and j: "journal_ok (NAT_JOURNAL_ENTRIES L) j'" "journal_map j' = (journal_map (ns_journal S))(nid \<mapsto> raw)"
  defines "S' \<equiv> S\<lparr>ns_journal := j'\<rparr>"
  shows "nat_ok L sbi S'" "shadow L sbi S0 S \<Longrightarrow> shadow L sbi S0 S'" "cursor_ok L sbi c S \<Longrightarrow> cursor_ok L sbi c S'"
    "disk_nat L sbi S' m = (if m = nid then raw else disk_nat L sbi S m)"
proof -
  note D = nat_okD [OF ok]
  have fr: "ns_nm S' = ns_nm S" "ns_pages S' = ns_pages S" by (simp_all add: S'_def)
  show disk: "disk_nat L sbi S' m = (if m = nid then raw else disk_nat L sbi S m)" for m
    by (simp add: disk_nat_def S'_def j(2) page_nat_def split: option.split)
  have "map_option raw_of (nm_nat_root (ns_nm S) k) = Some (disk_nat L sbi S' k)" if "k \<in> set (nm_nat_entries (ns_nm S))" for k
    using D(5) [OF that] disk that dirty by auto
  then show "nat_ok L sbi S'" using ok n j unfolding nat_ok_def fr by (simp add: S'_def)
  show "shadow L sbi S0 S \<Longrightarrow> shadow L sbi S0 S'" "cursor_ok L sbi c S \<Longrightarrow> cursor_ok L sbi c S'"
    by (simp_all add: shadow_def cursor_ok_def fr)
qed

text \<open>One write, wherever it goes.\<close>

definition wrote :: "node_layout \<Rightarrow> f2fs_sb_info \<Rightarrow> nat \<Rightarrow> f2fs_nat_entry \<Rightarrow> nat_state \<Rightarrow> nat_state \<Rightarrow> bool" where
  "wrote L sbi nid raw S S' \<longleftrightarrow> nat_ok L sbi S' \<and> same_cache (ns_nm S) (ns_nm S')
     \<and> (\<forall>m<nm_max_nid (ns_nm S). disk_nat L sbi S' m = (if m = nid then raw else disk_nat L sbi S m))"

lemma write_raw_nat_ok:
  assumes ok: "nat_ok L sbi S" and n: "nid < nm_max_nid (ns_nm S)" and dirty: "nid \<notin> set (nm_nat_entries (ns_nm S))"
    and fl: "flushed \<Longrightarrow> jr_n (ns_journal S) = 0" and c: "cursor_ok L sbi c S"
    and g0: "nat_geom L sbi (ns_nm S0)" and sh: "shadow L sbi S0 S"
  shows "\<exists>c' S'. write_raw_nat E L sbi flushed nid raw c S = Some (c', S') \<and> wrote L sbi nid raw S S'
    \<and> cursor_ok L sbi c' S' \<and> shadow L sbi S0 S' \<and> (flushed \<longrightarrow> jr_n (ns_journal S') = 0)"
proof -
  note D = nat_okD [OF ok]
  define l where "l = (if flushed then (- 1, ns_journal S)
    else lookup_journal_in_cursum (NAT_JOURNAL_ENTRIES L) (ns_journal S) nid True)"
  obtain off j' where l': "l = (off, j')" by (cases l)
  show ?thesis
  proof (cases "0 \<le> off")
    case True
    then have l2: "lookup_journal_in_cursum (NAT_JOURNAL_ENTRIES L) (ns_journal S) nid True = (off, j')" and nf: "\<not> flushed"
      using l' by (auto simp: l_def split: if_splits)
    let ?j = "j'\<lparr>jr_entries := (jr_entries j')[nat off := (nid, raw)]\<rparr>"
    from lookup_journal_write(2) [OF D(3) l2 True, of raw] have
      "journal_ok (NAT_JOURNAL_ENTRIES L) ?j" "journal_map ?j = (journal_map (ns_journal S))(nid \<mapsto> raw)" by simp_all
    note W = write_journal_ok [OF ok n dirty this]
    have "write_raw_nat E L sbi flushed nid raw c S = Some (c, S\<lparr>ns_journal := ?j\<rparr>)"
      using True l' by (simp add: write_raw_nat_def l_def [symmetric])
    then show ?thesis using W c sh nf by (auto simp: wrote_def)
  next
    case False
    have j: "j' = ns_journal S \<and> journal_map (ns_journal S) nid = None"
    proof (cases flushed)
      case True
      then show ?thesis using fl l' by (simp add: l_def journal_map_def)
    next
      case nf: False
      then have "lookup_journal_in_cursum (NAT_JOURNAL_ENTRIES L) (ns_journal S) nid True = (off, j')" using l' by (simp add: l_def)
      from lookup_journal_write(1) [OF D(3) this] False show ?thesis by simp
    qed
    obtain c' S1 where s: "seek_nat_page L sbi nid c S = (c', S1)" by (metis prod.collapse)
    note K = seek_nat_page_ok [OF ok n c s g0 sh]
    note sc = same_cacheD [OF K(7)]
    have p: "nid < nm_max_nid (ns_nm S1)" "nid \<notin> set (nm_nat_entries (ns_nm S1))" "journal_map (ns_journal S1) nid = None"
      using n dirty j by (simp_all add: sc K(8))
    note W = write_page_ok [OF K(5) p K(3) g0 K(6), where raw = raw]
    let ?page = "current_nat_addr L sbi (ns_nm S1) nid"
    let ?S' = "S1\<lparr>ns_pages := (ns_pages S1)(?page :=
      (ns_pages S1 ?page)\<lparr>np_entries := (np_entries (ns_pages S1 ?page))[nid - START_NID L nid := raw]\<rparr>)\<rparr>"
    have "S\<lparr>ns_journal := ns_journal S\<rparr> = S" by simp
    then have "write_raw_nat E L sbi flushed nid raw c S = Some (c', ?S')"
      using False l' j K(1,2) by (simp add: write_raw_nat_def l_def [symmetric] s f2fs_bug_on_def)
    moreover have "wrote L sbi nid raw S ?S'"
      using W(1,3) K(7,9) n by (simp add: wrote_def sc)
    moreover have "flushed \<longrightarrow> jr_n (ns_journal ?S') = 0" using fl K(8) by simp
    ultimately show ?thesis using W(2) W(4) [OF K(4)] by blast
  qed
qed

section \<open>The whole flush\<close>

lemma add_free_nid_keeps:
  assumes "add_free_nid E L nm_i nid build = (r, nm')"
  shows "cache_ok nm' = cache_ok nm_i" "same_table nm_i nm'" "nm_nat_root nm' = nm_nat_root nm_i"
    "nm_nat_entries nm' = nm_nat_entries nm_i" "nm_dirty_nat_entries nm' = nm_dirty_nat_entries nm_i"
proof -
  have "\<exists>fl fc. nm' = nm_i\<lparr>nm_free_nid_list := fl, nm_fcnt := fc\<rparr>"
  proof (cases "nm' = nm_i")
    case True
    then have "nm' = nm_i\<lparr>nm_free_nid_list := nm_free_nid_list nm_i, nm_fcnt := nm_fcnt nm_i\<rparr>" by simp
    then show ?thesis by blast
  next
    case False
    then have "nm' = nm_i\<lparr>nm_free_nid_list := nm_free_nid_list nm_i @ [\<lparr> fn_nid = nid, fn_state = NID_NEW \<rparr>],
        nm_fcnt := u32 (nm_fcnt nm_i + 1)\<rparr>"
      using assms unfolding add_free_nid_def by (simp split: if_splits)
    then show ?thesis by blast
  qed
  then show "cache_ok nm' = cache_ok nm_i" "same_table nm_i nm'" "nm_nat_root nm' = nm_nat_root nm_i"
    "nm_nat_entries nm' = nm_nat_entries nm_i" "nm_dirty_nat_entries nm' = nm_dirty_nat_entries nm_i"
    unfolding cache_ok_def same_table_def by (elim exE; hypsubst; simp)+
qed

text \<open>The entry leaves the dirty list: it stays as a clean one, or it is dropped.\<close>

lemma retire_ok:
  fixes gone :: bool
  assumes ok: "nat_ok L sbi S" and e: "nm_nat_root (ns_nm S) nid = Some e" and disk: "disk_nat L sbi S nid = raw_of e"
    and nm1: "cache_ok nm1" "same_table (ns_nm S) nm1" "nm_nat_root nm1 = nm_nat_root (ns_nm S)"
      "nm_nat_entries nm1 = nm_nat_entries (ns_nm S)" "nm_dirty_nat_entries nm1 = nm_dirty_nat_entries (ns_nm S)"
  defines "nm2 \<equiv> (if gone then del_from_nat_cache nm1 nid
     else put_nat_cache nid (e\<lparr>nat_checkpointed := True\<rparr>) (clear_nat_cache_dirty nm1 nid))"
  shows "nat_ok L sbi (S\<lparr>ns_nm := nm2\<rparr>)" "nat_lookup L sbi (S\<lparr>ns_nm := nm2\<rparr>) = nat_lookup L sbi S"
    "same_table (ns_nm S) nm2" "set (nm_dirty_nat_entries nm2) = set (nm_dirty_nat_entries (ns_nm S)) - {nid}"
proof -
  note D = nat_okD [OF ok]
  have inn: "nm_nat_root nm1 nid \<noteq> None" using e nm1(3) by simp
  note del = cache_ok_del [OF nm1(1) inn] and cl = cache_ok_clean [OF nm1(1) inn]
  have nid: "ni_nid (nat_ni e) = nid" by (rule cache_okD(8) [OF D(2) e])
  have put: "cache_ok (put_nat_cache nid (e\<lparr>nat_checkpointed := True\<rparr>) (clear_nat_cache_dirty nm1 nid))"
    by (rule cache_ok_put [OF cl(1)]) (use inn nid in simp_all)
  show t: "same_table (ns_nm S) nm2"
    using nm1(2) same_table_trans [OF nm1(2)] same_table_trans [OF same_table_ops(5) same_table_ops(2)]
    by (simp add: nm2_def)
  show "nat_ok L sbi (S\<lparr>ns_nm := nm2\<rparr>)"
  proof (rule nat_ok_nm [OF ok t])
    show "cache_ok nm2" using del(1) put by (simp add: nm2_def)
    fix k assume "k \<in> set (nm_nat_entries nm2)"
    then show "map_option raw_of (nm_nat_root nm2 k) = Some (disk_nat L sbi S k)"
      using D(5) disk del(2) cl(2) nm1(3,4) by (auto simp: nm2_def split: if_splits)
  qed
  show "nat_lookup L sbi (S\<lparr>ns_nm := nm2\<rparr>) = nat_lookup L sbi S"
    unfolding nat_lookup_nm [OF t] fun_eq_iff using e disk nm1(3)
    by (auto simp: nm2_def nat_lookup_def split: option.splits)
  show "set (nm_dirty_nat_entries nm2) = set (nm_dirty_nat_entries (ns_nm S)) - {nid}"
    using del(3) cl(3) nm1(5) by (simp add: nm2_def)
qed

text \<open>One turn of the loop.\<close>

lemma flush_nat_entry_ok:
  assumes ok: "nat_ok L sbi S" and nd: "nid \<in> set (nm_dirty_nat_entries (ns_nm S))"
    and fl: "flushed \<Longrightarrow> jr_n (ns_journal S) = 0" and c: "cursor_ok L sbi c S"
    and g0: "nat_geom L sbi (ns_nm S0)" and sh: "shadow L sbi S0 S"
  shows "\<exists>c' S'. flush_nat_entry E L sbi flushed nid c S = Some (c', S') \<and> nat_ok L sbi S' \<and> cursor_ok L sbi c' S'
    \<and> shadow L sbi S0 S' \<and> (flushed \<longrightarrow> jr_n (ns_journal S') = 0)
    \<and> (\<forall>m<nm_max_nid (ns_nm S). nat_lookup L sbi S' m = nat_lookup L sbi S m)
    \<and> set (nm_dirty_nat_entries (ns_nm S')) =
        set (nm_dirty_nat_entries (ns_nm S)) - (if rne_block_addr (nat_lookup L sbi S nid) = NEW_ADDR E then {} else {nid})"
proof -
  note D = nat_okD [OF ok]
  obtain e where e: "nm_nat_root (ns_nm S) nid = Some e" using nd cache_okD(4) [OF D(2)] by blast
  have n: "nid < nm_max_nid (ns_nm S)" by (rule cache_okD(7) [OF D(2) e])
  have notc: "nid \<notin> set (nm_nat_entries (ns_nm S))" using nd cache_okD(3) [OF D(2)] by blast
  have lk: "nat_lookup L sbi S nid = raw_of e" using e by (simp add: nat_lookup_def)
  show ?thesis
  proof (cases "ni_blk_addr (nat_ni e) = NEW_ADDR E")
    case True
    then show ?thesis
      using e ok c sh fl lk by (auto simp: flush_nat_entry_def lookup_nat_cache_def raw_of_def)
  next
    case False
    from write_raw_nat_ok [OF ok n notc fl c g0 sh, where E = E and raw = "raw_of e"] obtain c' S1 where
      w: "write_raw_nat E L sbi flushed nid (raw_of e) c S = Some (c', S1)" "wrote L sbi nid (raw_of e) S S1"
        "cursor_ok L sbi c' S1" "shadow L sbi S0 S1" "flushed \<longrightarrow> jr_n (ns_journal S1) = 0" by blast
    have ok1: "nat_ok L sbi S1" and sc: "same_cache (ns_nm S) (ns_nm S1)"
      and disk: "\<forall>m<nm_max_nid (ns_nm S). disk_nat L sbi S1 m = (if m = nid then raw_of e else disk_nat L sbi S m)"
      using w(2) by (simp_all add: wrote_def)
    note sc = same_cacheD [OF sc]
    define a where "a = (if ni_blk_addr (nat_ni e) = NULL_ADDR E then add_free_nid E L (ns_nm S1) nid False else (1, ns_nm S1))"
    obtain r nm1 where a: "a = (r, nm1)" by (cases a)
    have nm1: "cache_ok nm1 = cache_ok (ns_nm S1)" "same_table (ns_nm S1) nm1" "nm_nat_root nm1 = nm_nat_root (ns_nm S1)"
      "nm_nat_entries nm1 = nm_nat_entries (ns_nm S1)" "nm_dirty_nat_entries nm1 = nm_dirty_nat_entries (ns_nm S1)"
      using a add_free_nid_keeps [of E L "ns_nm S1" nid False r nm1] unfolding a_def by (simp_all split: if_splits)
    define nm2 where "nm2 = (if r \<le> 0 then del_from_nat_cache nm1 nid
      else put_nat_cache nid (e\<lparr>nat_checkpointed := True\<rparr>) (clear_nat_cache_dirty nm1 nid))"
    have e1: "nm_nat_root (ns_nm S1) nid = Some e" "disk_nat L sbi S1 nid = raw_of e" using e sc(1) disk n by simp_all
    have c1: "cache_ok nm1" using nm1(1) nat_okD(2) [OF ok1] by simp
    note R = retire_ok [OF ok1 e1 c1 nm1(2-5), of "r \<le> 0", folded nm2_def]
    have run: "flush_nat_entry E L sbi flushed nid c S = Some (c', S1\<lparr>ns_nm := nm2\<rparr>)"
      using False w(1) a by (simp add: flush_nat_entry_def lookup_nat_cache_def e raw_of_def a_def [symmetric] nm2_def)
    have "nat_lookup L sbi S1 m = nat_lookup L sbi S m" if "m < nm_max_nid (ns_nm S)" for m
      using disk that e by (auto simp: nat_lookup_def sc(1) split: option.splits)
    moreover have "cursor_ok L sbi c' (S1\<lparr>ns_nm := nm2\<rparr>)" "shadow L sbi S0 (S1\<lparr>ns_nm := nm2\<rparr>)"
      using w(3,4) R(3) same_table_addr [OF R(3)] by (simp_all add: cursor_ok_def shadow_def same_table_def)
    ultimately show ?thesis
      using run R(1,2,4) w(5) False lk sc(3) by (auto simp: raw_of_def)
  qed
qed

lemma flush_nat_loop_ok:
  assumes "nat_ok L sbi S" and "set nids \<subseteq> set (nm_dirty_nat_entries (ns_nm S))" and "distinct nids"
    and "flushed \<Longrightarrow> jr_n (ns_journal S) = 0" and "cursor_ok L sbi c S" and "nat_geom L sbi (ns_nm S0)" and "shadow L sbi S0 S"
  shows "\<exists>S'. flush_nat_loop E L sbi flushed nids c S = Some S' \<and> nat_ok L sbi S' \<and> shadow L sbi S0 S'
    \<and> (\<forall>m<nm_max_nid (ns_nm S). nat_lookup L sbi S' m = nat_lookup L sbi S m)
    \<and> set (nm_dirty_nat_entries (ns_nm S')) =
        set (nm_dirty_nat_entries (ns_nm S)) - {m \<in> set nids. rne_block_addr (nat_lookup L sbi S m) \<noteq> NEW_ADDR E}"
  using assms
proof (induction nids arbitrary: c S)
  case Nil
  then show ?case by simp
next
  case (Cons nid nids)
  have nd: "nid \<in> set (nm_dirty_nat_entries (ns_nm S))" using Cons.prems(2) by simp
  from flush_nat_entry_ok [OF Cons.prems(1) nd Cons.prems(4-7), where E = E] obtain c1 S1 where
    s: "flush_nat_entry E L sbi flushed nid c S = Some (c1, S1)" "nat_ok L sbi S1" "cursor_ok L sbi c1 S1" "shadow L sbi S0 S1"
      "flushed \<longrightarrow> jr_n (ns_journal S1) = 0" "\<forall>m<nm_max_nid (ns_nm S). nat_lookup L sbi S1 m = nat_lookup L sbi S m"
      "set (nm_dirty_nat_entries (ns_nm S1)) =
        set (nm_dirty_nat_entries (ns_nm S)) - (if rne_block_addr (nat_lookup L sbi S nid) = NEW_ADDR E then {} else {nid})"
    by blast
  have max: "nm_max_nid (ns_nm S1) = nm_max_nid (ns_nm S)" using s(4) Cons.prems(7) by (simp add: shadow_def)
  have "set nids \<subseteq> set (nm_dirty_nat_entries (ns_nm S1))" using Cons.prems(2,3) s(7) by auto
  moreover have "distinct nids" using Cons.prems(3) by simp
  moreover have "flushed \<Longrightarrow> jr_n (ns_journal S1) = 0" using s(5) by simp
  ultimately obtain S' where S': "flush_nat_loop E L sbi flushed nids c1 S1 = Some S'" "nat_ok L sbi S'" "shadow L sbi S0 S'"
    "\<forall>m<nm_max_nid (ns_nm S1). nat_lookup L sbi S' m = nat_lookup L sbi S1 m"
    "set (nm_dirty_nat_entries (ns_nm S')) =
        set (nm_dirty_nat_entries (ns_nm S1)) - {m \<in> set nids. rne_block_addr (nat_lookup L sbi S1 m) \<noteq> NEW_ADDR E}"
    using Cons.IH [OF s(2) _ _ _ s(3) Cons.prems(6) s(4)] by blast
  have small: "m < nm_max_nid (ns_nm S)" if "m \<in> set nids" for m
  proof -
    have "m \<in> dom (nm_nat_root (ns_nm S))"
      using that Cons.prems(2) cache_okD(4) [OF nat_okD(2) [OF Cons.prems(1)]] by auto
    then show ?thesis using cache_okD(7) [OF nat_okD(2) [OF Cons.prems(1)]] by blast
  qed
  have "{m \<in> set nids. rne_block_addr (nat_lookup L sbi S1 m) \<noteq> NEW_ADDR E} =
      {m \<in> set nids. rne_block_addr (nat_lookup L sbi S m) \<noteq> NEW_ADDR E}"
    using s(6) small by auto
  then have "set (nm_dirty_nat_entries (ns_nm S')) = set (nm_dirty_nat_entries (ns_nm S))
      - {m \<in> set (nid # nids). rne_block_addr (nat_lookup L sbi S m) \<noteq> NEW_ADDR E}"
    using S'(5) s(7) by auto
  then show ?case using s(1,6) S'(1-4) max by simp
qed

text \<open>The checkpoint's flush.\<close>

lemma flush_nat_entries_ok:
  assumes ok: "nat_ok L sbi S" and clean: "\<And>nid. nid < nm_max_nid (ns_nm S) \<Longrightarrow> \<not> np_dirty (cur_page L sbi S nid)"
  shows "\<exists>S'. flush_nat_entries E L sbi S = Some S' \<and> nat_ok L sbi S'
    \<and> (\<forall>nid<nm_max_nid (ns_nm S). nat_lookup L sbi S' nid = nat_lookup L sbi S nid
        \<and> (rne_block_addr (nat_lookup L sbi S nid) \<noteq> NEW_ADDR E \<longrightarrow> disk_nat L sbi S' nid = nat_lookup L sbi S nid)
        \<and> ns_pages S' (current_nat_addr L sbi (ns_nm S) nid) = cur_page L sbi S nid)"
proof -
  obtain flushed S1 where f: "flush_nats_in_journal L S = (flushed, S1)" by fastforce
  note J = flush_nats_in_journal_ok [OF ok f]
  have max: "nm_max_nid (ns_nm S1) = nm_max_nid (ns_nm S)" using J(3) by (simp add: same_table_def)
  have sh: "shadow L sbi S S1"
    using clean same_table_addr [OF J(3)] J(3,4) by (simp add: shadow_def same_table_def)
  let ?c = "\<lparr> nc_page = None, nc_start_nid = 0, nc_end_nid = 0 \<rparr>"
  have "cursor_ok L sbi ?c S1" by (simp add: cursor_ok_def)
  note loop = flush_nat_loop_ok [OF J(1) order_refl cache_okD(2) [OF nat_okD(2) [OF J(1)]] _ this nat_okD(1) [OF ok] sh,
    where E = E and flushed = flushed, OF J(5)]
  from loop obtain S2 where S2: "flush_nat_loop E L sbi flushed (nm_dirty_nat_entries (ns_nm S1)) ?c S1 = Some S2"
    "nat_ok L sbi S2" "shadow L sbi S S2" "\<forall>m<nm_max_nid (ns_nm S). nat_lookup L sbi S2 m = nat_lookup L sbi S m"
    "\<forall>m\<in>set (nm_dirty_nat_entries (ns_nm S2)). rne_block_addr (nat_lookup L sbi S m) = NEW_ADDR E"
    unfolding max J(2) by force
  define k where "k = sub32 (nm_nat_cnt (ns_nm S2)) (NM_WOUT_THRESHOLD L)"
  define nm where "nm = snd (try_to_free_nats L (ns_nm S2) k)"
  let ?S' = "S2\<lparr>ns_nm := nm\<rparr>"
  have F: "nat_ok L sbi ?S'" "nat_lookup L sbi ?S' = nat_lookup L sbi S2" "same_table (ns_nm S2) nm"
    using drop_nats_ok [OF S2(2), of k] S2(2) by (simp_all add: nm_def try_to_free_nats_def)
  have disk: "disk_nat L sbi ?S' m = nat_lookup L sbi S m"
    if m: "m < nm_max_nid (ns_nm S)" "rne_block_addr (nat_lookup L sbi S m) \<noteq> NEW_ADDR E" for m
  proof -
    have "disk_nat L sbi S2 m = nat_lookup L sbi S2 m"
    proof (cases "nm_nat_root (ns_nm S2) m")
      case (Some e)
      then have "m \<in> set (nm_nat_entries (ns_nm S2))"
        using S2(5) m(2) cache_okD(4) [OF nat_okD(2) [OF S2(2)]] by blast
      from nat_okD(5) [OF S2(2) this] Some show ?thesis by (simp add: nat_lookup_def)
    qed (simp add: nat_lookup_def)
    then show ?thesis using S2(4) m(1) disk_nat_nm [OF F(3)] by simp
  qed
  have "ns_pages ?S' (current_nat_addr L sbi (ns_nm S) m) = cur_page L sbi S m" if "m < nm_max_nid (ns_nm S)" for m
    using S2(3) that by (simp add: shadow_def)
  moreover have "flush_nat_entries E L sbi S = Some ?S'"
    using f S2(1) by (simp add: flush_nat_entries_def nm_def k_def)
  ultimately show ?thesis using F(1,2) S2(4) disk by (intro exI [of _ ?S']) simp
qed
end
