(* ===== verification/Cp_Mount.thy ===== *)
theory Cp_Mount
  imports Cp_Runs Nat_Flush
begin

text \<open>
  A checkpoint and the mount after it: \<open>write_checkpoint\<close> gets through, and \<open>build_segment_manager\<close> on the disk that it
  leaves brings back the table and the logs as they were in memory.
\<close>

section \<open>The free node ids at a checkpoint\<close>

definition has_next_nid :: "f2fs_nm_info \<Rightarrow> bool" where
  "has_next_nid nm \<longleftrightarrow> (nm_fcnt nm \<noteq> 0 \<longrightarrow> nm_free_nid_list nm \<noteq> [])"

lemma nid_cache_frame [simp]:
  "nm_fcnt (put_nat_cache n e nm) = nm_fcnt nm" "nm_free_nid_list (put_nat_cache n e nm) = nm_free_nid_list nm"
  "nm_fcnt (del_from_nat_cache nm n) = nm_fcnt nm" "nm_free_nid_list (del_from_nat_cache nm n) = nm_free_nid_list nm"
  "nm_fcnt (set_nat_cache_dirty nm n) = nm_fcnt nm" "nm_free_nid_list (set_nat_cache_dirty nm n) = nm_free_nid_list nm"
  "nm_fcnt (clear_nat_cache_dirty nm n) = nm_fcnt nm" "nm_free_nid_list (clear_nat_cache_dirty nm n) = nm_free_nid_list nm"
  "nm_fcnt (snd (grab_nat_entry nm n)) = nm_fcnt nm" "nm_free_nid_list (snd (grab_nat_entry nm n)) = nm_free_nid_list nm"
  "nm_fcnt (set_to_next_nat L nm n) = nm_fcnt nm" "nm_free_nid_list (set_to_next_nat L nm n) = nm_free_nid_list nm"
  by (simp_all add: put_nat_cache_def del_from_nat_cache_def set_nat_cache_dirty_def clear_nat_cache_dirty_def grab_nat_entry_def set_to_next_nat_def Let_def)

lemma drop_nats_nids: "nm_fcnt (snd (drop_nats k nm)) = nm_fcnt nm \<and> nm_free_nid_list (snd (drop_nats k nm)) = nm_free_nid_list nm"
  by (induction k arbitrary: nm) (simp_all split: list.split)

lemma dirty_journal_nids: "nm_fcnt (dirty_journal_nats es nm) = nm_fcnt nm \<and> nm_free_nid_list (dirty_journal_nats es nm) = nm_free_nid_list nm"
proof (induction es nm rule: dirty_journal_nats.induct)
  case (2 nid raw_ne es nm)
  then show ?case by (auto simp: Let_def split: option.split prod.split)
     (metis nid_cache_frame(9,10) snd_conv)+
qed simp

lemma seek_nat_nids:
  "seek_nat_page L sbi nid c S = (c', S') \<Longrightarrow> nm_fcnt (ns_nm S') = nm_fcnt (ns_nm S) \<and> nm_free_nid_list (ns_nm S') = nm_free_nid_list (ns_nm S)"
  by (auto simp: seek_nat_page_def get_next_nat_page_def Let_def split: if_splits prod.splits)

lemma write_raw_nat_nids:
  "write_raw_nat E L sbi flushed nid raw c S = Some (c', S') \<Longrightarrow>
    nm_fcnt (ns_nm S') = nm_fcnt (ns_nm S) \<and> nm_free_nid_list (ns_nm S') = nm_free_nid_list (ns_nm S)"
  by (auto simp: write_raw_nat_def Let_def bind_eq_Some_conv split: if_splits prod.splits dest!: seek_nat_nids)

lemma flush_nat_entry_nids:
  assumes "flush_nat_entry E L sbi flushed nid c S = Some (c', S')" and "has_next_nid (ns_nm S)"
  shows "has_next_nid (ns_nm S')"
proof -
  obtain ne where ne: "lookup_nat_cache (ns_nm S) nid = Some ne" using assms(1) by (auto simp: flush_nat_entry_def bind_eq_Some_conv)
  show ?thesis
  proof (cases "ni_blk_addr (nat_ni ne) = NEW_ADDR E")
    case True
    then show ?thesis using assms ne by (simp add: flush_nat_entry_def Let_def)
  next
    case False
    obtain raw c1 S1 where w: "write_raw_nat E L sbi flushed nid raw c S = Some (c1, S1)"
      and S': "\<exists>nm. S' = S1\<lparr>ns_nm := nm\<rparr> \<and> (\<exists>nm'. (nm' = ns_nm S1 \<or> nm' = snd (add_free_nid E L (ns_nm S1) nid False))
          \<and> nm_fcnt nm = nm_fcnt nm' \<and> nm_free_nid_list nm = nm_free_nid_list nm')"
      using assms(1) ne False unfolding flush_nat_entry_def Let_def
      by (auto simp: bind_eq_Some_conv split: if_splits prod.splits) (metis snd_conv nid_cache_frame)+
    have h: "has_next_nid (ns_nm S1)" using write_raw_nat_nids [OF w] assms(2) by (simp add: has_next_nid_def)
    then have "has_next_nid (snd (add_free_nid E L (ns_nm S1) nid False))" by (simp add: add_free_nid_def has_next_nid_def)
    then show ?thesis using S' h by (auto simp: has_next_nid_def)
  qed
qed

lemma flush_nat_entries_nids:
  assumes "flush_nat_entries E L sbi S = Some S'" and "has_next_nid (ns_nm S)"
  shows "has_next_nid (ns_nm S')"
proof -
  have loop: "flush_nat_loop E L sbi flushed nids c S = Some S' \<Longrightarrow> has_next_nid (ns_nm S) \<Longrightarrow> has_next_nid (ns_nm S')" for flushed nids c S S'
    by (induction nids arbitrary: c S) (auto simp: bind_eq_Some_conv dest: flush_nat_entry_nids)
  obtain flushed S1 where f: "flush_nats_in_journal L S = (flushed, S1)" by fastforce
  have h: "has_next_nid (ns_nm S1)" using f assms(2) dirty_journal_nids
    by (auto simp: flush_nats_in_journal_def Let_def has_next_nid_def split: if_splits)
  obtain S2 where S2: "flush_nat_loop E L sbi flushed (nm_dirty_nat_entries (ns_nm S1)) \<lparr> nc_page = None, nc_start_nid = 0, nc_end_nid = 0 \<rparr> S1 = Some S2"
    "S' = S2\<lparr>ns_nm := snd (try_to_free_nats L (ns_nm S2) (sub32 (nm_nat_cnt (ns_nm S2)) (NM_WOUT_THRESHOLD L)))\<rparr>"
    using assms(1) f by (auto simp: flush_nat_entries_def bind_eq_Some_conv)
  show ?thesis using loop [OF S2(1) h] drop_nats_nids S2(2) by (simp add: has_next_nid_def try_to_free_nats_def)
qed

section \<open>The volume at the next mount\<close>

text \<open>The superblock \<open>rsb\<close> and the fields that \<open>init_sb_info\<close> set in \<open>m\<close> describe the volume of \<open>sbi\<close>.\<close>

definition same_volume :: "f2fs_super_block \<Rightarrow> f2fs_sb_info \<Rightarrow> f2fs_sb_info \<Rightarrow> bool" where
  "same_volume rsb sbi m \<longleftrightarrow> rsb_segment_count_main rsb = TOTAL_SEGS sbi \<and> rsb_segment_count rsb = sm_segment_count (SM_I sbi)
     \<and> rsb_segment0_blkaddr rsb = sm_seg0_blkaddr (SM_I sbi) \<and> rsb_sit_blkaddr rsb = sit_base_addr (SIT_I sbi)
     \<and> u32 (push_bit (sbi_log_blocks_per_seg sbi) (rsb_segment_count_sit rsb div 2)) = sit_blocks (SIT_I sbi)
     \<and> GET_SEGNO_FROM_SEG0 sbi (rsb_main_blkaddr rsb) = fsm_start_segno (FREE_I sbi)
     \<and> sbi_log_blocks_per_seg m = sbi_log_blocks_per_seg sbi \<and> sbi_blocks_per_seg m = sbi_blocks_per_seg sbi
     \<and> sbi_segs_per_sec m = sbi_segs_per_sec sbi \<and> sbi_secs_per_zone m = sbi_secs_per_zone sbi \<and> sbi_total_sections m = sbi_total_sections sbi"

lemma mount_start_geometry:
  fixes E n ckpt
  assumes "same_volume rsb sbi m"
  defines "z \<equiv> mount_start E n rsb ckpt m"
  shows "geometry z = geometry sbi" "TOTAL_SEGS z = TOTAL_SEGS sbi" "sbi_blocks_per_seg z = sbi_blocks_per_seg sbi"
    "sit_base_addr (SIT_I z) = sit_base_addr (SIT_I sbi)" "sit_blocks (SIT_I z) = sit_blocks (SIT_I sbi)" "sit_bitmap (SIT_I z) = ck_sit_bitmap ckpt"
    "sit_sents_per_block (SIT_I z) = SIT_ENTRY_PER_BLOCK E" "sm_segment_count (SM_I z) = sm_segment_count (SM_I sbi)" "START_BLOCK z = START_BLOCK sbi"
    "sbi_meta_pages z = sbi_meta_pages m"
proof -
  have d: "sm_seg0_blkaddr (SM_I z) = sm_seg0_blkaddr (SM_I sbi)" "fsm_start_segno (FREE_I z) = fsm_start_segno (FREE_I sbi)" "TOTAL_SEGS z = TOTAL_SEGS sbi"
    "sbi_log_blocks_per_seg z = sbi_log_blocks_per_seg sbi" "sbi_blocks_per_seg z = sbi_blocks_per_seg sbi" "sbi_segs_per_sec z = sbi_segs_per_sec sbi"
    "sbi_secs_per_zone z = sbi_secs_per_zone sbi" "TOTAL_SECS z = TOTAL_SECS sbi"
    using assms(1) unfolding z_def same_volume_def
    by (simp_all add: mount_start_simps)
      (simp_all add: mount_start_def Let_def build_free_segmap_def build_sit_info_def init_sm_info_def accessors setters TOTAL_SECS_def
        GET_SEGNO_FROM_SEG0_def GET_SEGOFF_FROM_SEG0_def)
  then show "TOTAL_SEGS z = TOTAL_SEGS sbi" "sbi_blocks_per_seg z = sbi_blocks_per_seg sbi" by simp_all
  show "geometry z = geometry sbi" unfolding geometry_def d ..
  show "START_BLOCK z = START_BLOCK sbi" unfolding fun_eq_iff START_BLOCK_def d GET_R2L_SEGNO_def by simp
  show "sit_base_addr (SIT_I z) = sit_base_addr (SIT_I sbi)" "sit_blocks (SIT_I z) = sit_blocks (SIT_I sbi)" "sit_bitmap (SIT_I z) = ck_sit_bitmap ckpt"
    "sit_sents_per_block (SIT_I z) = SIT_ENTRY_PER_BLOCK E" "sm_segment_count (SM_I z) = sm_segment_count (SM_I sbi)" "sbi_meta_pages z = sbi_meta_pages m"
    using assms(1) unfolding z_def same_volume_def
    by (simp_all add: mount_start_def Let_def build_free_segmap_def build_sit_info_def init_sm_info_def accessors setters)
qed

lemma flush_keepsD:
  assumes "flush_keeps a b"
  shows "sit_base_addr (SIT_I b) = sit_base_addr (SIT_I a)" "sit_blocks (SIT_I b) = sit_blocks (SIT_I a)" "CURSEG_I b = CURSEG_I a"
    "sbi_blocks_per_seg b = sbi_blocks_per_seg a" "TOTAL_SEGS b = TOTAL_SEGS a" "DIRTY_I b = DIRTY_I a"
    "sbi_total_valid_block_count b = sbi_total_valid_block_count a" "sm_curseg_array (SM_I b) = sm_curseg_array (SM_I a)"
    "sm_segment_count (SM_I b) = sm_segment_count (SM_I a)" "START_BLOCK b = START_BLOCK a" "geometry b = geometry a" "sbi_por_doing b = sbi_por_doing a"
proof -
  obtain i f l n where b: "b = set_FREE_I f (set_discards l n (set_SIT_I i a))" "sit_base_addr i = sit_base_addr (SIT_I a)"
     "sit_blocks i = sit_blocks (SIT_I a)" "fsm_start_segno f = fsm_start_segno (FREE_I a)" using assms by (auto simp: flush_keeps_def)
  show "sit_base_addr (SIT_I b) = sit_base_addr (SIT_I a)" "sit_blocks (SIT_I b) = sit_blocks (SIT_I a)" "CURSEG_I b = CURSEG_I a"
    "sbi_blocks_per_seg b = sbi_blocks_per_seg a" "TOTAL_SEGS b = TOTAL_SEGS a" "DIRTY_I b = DIRTY_I a"
    "sm_segment_count (SM_I b) = sm_segment_count (SM_I a)"
    by (simp_all add: b)
  show "sbi_total_valid_block_count b = sbi_total_valid_block_count a" "sm_curseg_array (SM_I b) = sm_curseg_array (SM_I a)"
    "sbi_por_doing b = sbi_por_doing a"
    by (simp_all add: b(1) set_discards_def set_SIT_I_def set_FREE_I_def SM_I_def)
  have sm: "SM_I (x\<lparr>sbi_sm_info := y\<rparr>) = y" "SM_I (set_SIT_I i x) = (SM_I x)\<lparr>sm_sit_info := i\<rparr>" for x y by (simp_all add: SM_I_def set_SIT_I_def)
  show "START_BLOCK b = START_BLOCK a" "geometry b = geometry a"
    unfolding fun_eq_iff START_BLOCK_def GET_R2L_SEGNO_def geometry_def using b(2-)
    by (simp_all add: b(1) set_discards_def TOTAL_SEGS_def TOTAL_SECS_def sm)
qed

section \<open>The table on disk\<close>

lemma image_of_flush:
  fixes n js pages
  assumes sh: "sit_shape E L S1" and fr: "flush_keeps (ss_sbi S) (ss_sbi S1)" and ok: "sit_ok E (ss_sbi S)" "types_ok (ss_sbi S)"
    and dk: "\<And>k. k < TOTAL_SEGS (ss_sbi S) \<Longrightarrow> disk_sit E S1 k = raw_sit E (sit_entry S k)"
    and al: "8 dvd sbi_blocks_per_seg (ss_sbi S)" and fit: "sit_fits E (ss_sbi S)" and vol: "same_volume rsb (ss_sbi S) m"
    and ck: "ck_sit_bitmap ckpt = sit_bitmap (SIT_I (ss_sbi S1))"
    and jr: "snd (pack_journals rsb ckpt pages js (mount_start E n rsb ckpt m)) = ss_journal S1"
  defines "S0 \<equiv> image_state E n rsb ckpt pages js (ss_pages S1) m"
  shows "sit_image_ok E L S0" "\<And>k. k < TOTAL_SEGS (ss_sbi S) \<Longrightarrow> disk_sit E S0 k = raw_sit E (sit_entry S k)" "ss_sbi S0 = mount_start E n rsb ckpt m"
proof -
  define z where "z = mount_start E n rsb ckpt m"
  note M = mount_start_geometry [OF vol, where E = E and n = n and ckpt = ckpt, folded z_def] and F = flush_keepsD [OF fr]
  have S0: "ss_sbi S0 = z" "ss_journal S0 = ss_journal S1" "ss_pages S0 = ss_pages S1"
    using jr by (simp_all add: S0_def image_state_def Let_def z_def)
  show "ss_sbi S0 = mount_start E n rsb ckpt m" by (simp add: S0(1) z_def)
  have ad: "sit_addr E (SIT_I z) = sit_addr E (SIT_I (ss_sbi S1))"
    by (rule sit_addr_cong) (simp_all add: M F ck)
  then have d: "disk_sit E S0 = disk_sit E S1" by (simp add: disk_sit_def S0 fun_eq_iff cong: option.case_cong)
  then show raw: "\<And>k. k < TOTAL_SEGS (ss_sbi S) \<Longrightarrow> disk_sit E S0 k = raw_sit E (sit_entry S k)" using dk by simp
  have "sit_geom E z" using sit_shapeD(1) [OF sh] by (simp add: sit_geom_def M F ck)
  then have sh0: "sit_shape E L S0" using sh by (simp add: sit_shape_def S0 M(2) F(5))
  have gz: "geometry z" using M(1) sit_okD(1) [OF ok(1)] by simp
  have "raw_entry_ok E (sbi_blocks_per_seg (ss_sbi S)) (disk_sit E S0 k)" if "k < TOTAL_SEGS (ss_sbi S)" for k
    unfolding raw [OF that] using sit_okD(6) [OF ok(1) that] ok(2) fit that
    by (intro raw_sit_entry_ok(1)) (simp_all add: types_ok_def sit_fits_def)
  then show "sit_image_ok E L S0" using sh0 gz sit_okD [OF ok(1)] al by (simp add: sit_image_ok_def S0(1) M(2,3))
qed

section \<open>The journals in the pack\<close>

lemma write_summary_journals:
  "cpp_nats (sw_pages (fold (write_summary K) ss w) b) = cpp_nats (sw_pages w b) \<and> cpp_sits (sw_pages (fold (write_summary K) ss w) b) = cpp_sits (sw_pages w b)"
proof (induction ss arbitrary: w)
  case (Cons s ss)
  have "cpp_nats (sw_pages (write_summary K s w) b) = cpp_nats (sw_pages w b)" "cpp_sits (sw_pages (write_summary K s w) b) = cpp_sits (sw_pages w b)"
    by (simp_all add: write_summary_pages split: option.split)
  then show ?case using Cons.IH by simp
qed simp

lemma compact_journals:
  "cpp_nats (sw_pages (compact_writer K ck sbi nats sits pages a) a) = nats" "cpp_sits (sw_pages (compact_writer K ck sbi nats sits pages a) a) = sits"
  unfolding compact_writer_def fold_lists Let_def by (simp_all add: write_summary_journals)

lemma put_pack:
  assumes "pack_at rsb sbi cb ws" and "i < ck_pack_total_block_count (cb_ckpt cb)"
  shows "put_blocks ws disk (start_cp_addr rsb (cb_ckpt cb) sbi + i) = snd (ws ! i)"
proof -
  let ?a = "start_cp_addr rsb (cb_ckpt cb) sbi" and ?n = "ck_pack_total_block_count (cb_ckpt cb)"
  have m: "map fst ws = [?a..<?a + ?n]" using assms(1) by (simp add: pack_at_def Let_def)
  have "length ws = ?n" using m by (metis diff_add_inverse length_map length_upt)
  then show ?thesis using put_blocks_take [OF m, of ?n disk "?a + i"] assms(2) by simp
qed

lemma pack_journals_read:
  fixes disk
  assumes rb: "reads_back C" and r: "pack_ready C K rsb S" and k: "kernel_ok E" and dk: "dirty_ok (cps_sbi S)" "TOTAL_SEGS (cps_sbi S) < 2 ^ 32 - 1"
    and run: "write_pack E C K rsb S um = Some (S', ws, ds)" and wr: "writable S" and z: "sbi_blocks_per_seg z = sbi_blocks_per_seg (cps_sbi S)"
  defines "d \<equiv> put_blocks ws disk" and "ck \<equiv> cb_ckpt (cps_ckpt S')"
  shows "pack_journals rsb ck (\<lambda>a. as_compact C (d a)) (disk_journals C rsb ck z d) z = (ns_journal (cps_nat S), ss_journal (cps_sit S))"
    "recover_orphan_inodes C rsb ck z d = (oi_list (cps_orphans S), ck\<lparr>ck_orphan_present := False\<rparr>)"
proof -
  let ?b = "F2FS_ORPHANS_PER_BLOCK C" and ?O = "cps_orphans S" and ?jn = "ns_journal (cps_nat S)" and ?js = "ss_journal (cps_sit S)"
  obtain S2 ws2 ds2 nid obs data nodes sbi1 where Q: "write_pack E C K rsb S um = Some (S2, if writable S then ws2 else [], ds2)"
    "cps_ckpt S2 = modify_checkpoint E C K S nid um" "pack_at rsb (cps_sbi S) (cps_ckpt S2) ws2"
    "ws2 = (start_cp_addr rsb (cb_ckpt (cps_ckpt S2)) (cps_sbi S), Cp_Block (cps_ckpt S2)) # map (\<lambda>(a, b). (a, Orphan_Block b)) obs @ data @ nodes
       @ [(start_cp_addr rsb (cb_ckpt (cps_ckpt S2)) (cps_sbi S) + ck_pack_total_block_count (cb_ckpt (cps_ckpt S2)) - 1, Cp_Block (cps_ckpt S2))]"
    "oi_n ?O \<noteq> 0 \<Longrightarrow> write_orphan_inodes E ?b ?O (start_cp_addr rsb (cb_ckpt (cps_ckpt S2)) (cps_sbi S) + 1) = Some obs"
    "write_data_summaries C K (cb_ckpt (cps_ckpt S2)) (cps_meta S) ?jn ?js (cps_sbi S) (start_cp_addr rsb (cb_ckpt (cps_ckpt S2)) (cps_sbi S) + 1 + orphan_blocks ?b ?O) = (sbi1, data)"
    "map fst obs = [start_cp_addr rsb (cb_ckpt (cps_ckpt S2)) (cps_sbi S) + 1..<start_cp_addr rsb (cb_ckpt (cps_ckpt S2)) (cps_sbi S) + 1 + orphan_blocks ?b ?O]"
    by (rule write_pack_shape [OF r k dk, of um]) (rule that, assumption+)
  have "S2 = S'" "ws2 = ws" using Q(1) run wr by simp_all
  note P = Q(2-) [unfolded this, folded ck_def]
  define a where "a = start_cp_addr rsb ck (cps_sbi S)"
  define ob where "ob = orphan_blocks ?b ?O"
  define np where "np = npages_for_summary_flush K ck (cps_sbi S)"
  note F = modify_checkpoint_fields [where E = E and C = C and K = K and S = S and nid = nid and um = um, folded P(1), folded ck_def, folded np_def ob_def]
  have R: "sum_layout_ok K" "0 < ?b" "sbi_blocks_per_seg (cps_sbi S) < 2 ^ 16" "rsb_cp_blkaddr rsb + 2 * sbi_blocks_per_seg (cps_sbi S) < 2 ^ 32"
    using r by (simp_all add: pack_ready_def)
  have az: "start_cp_addr rsb ck z = a" unfolding a_def start_cp_addr_def z ..
  have np: "0 < np" "np \<le> 3" using npages_range by (simp_all add: np_def)
  have obr: "ob + 8 \<le> sbi_blocks_per_seg (cps_sbi S)" using pack_ready_orphans(1) [OF r refl, of 0] R(3) by (simp add: ob_def)
  have al: "a + sbi_blocks_per_seg (cps_sbi S) < 2 ^ 32" using start_cp_addr_eq [OF R(4)] R(4) by (simp add: a_def split: if_splits)
  have u: "u32 (1 + ob) = 1 + ob" "u32 (2 + np + ob + (if um then 3 else 0)) = 2 + np + ob + (if um then 3 else 0)"
    using obr R(3) np by (simp_all add: u32_id)
  have pa: "pack_at rsb (cps_sbi S) (cps_ckpt S') ws" "a = start_cp_addr rsb (cb_ckpt (cps_ckpt S')) (cps_sbi S)"
    using Q(3) unfolding \<open>S2 = S'\<close> \<open>ws2 = ws\<close> by (simp_all add: a_def ck_def)
  have tot: "ck_pack_total_block_count (cb_ckpt (cps_ckpt S')) = 2 + np + ob + (if um then 3 else 0)" using F(8) u by (simp add: ck_def)
  have at: "d (a + i) = snd (ws ! i)" if "i < 2 + np + ob" for i
    unfolding d_def pa(2) by (rule put_pack [OF pa(1)]) (use that tot in simp)
  have "sum_layout_ok K" "a + 1 + ob + 3 < 2 ^ 32" using R obr al by simp_all
  note D = data_summaries_at(1) [OF this _ P(5) [folded a_def ob_def], folded np_def, OF F(5)]
  have len: "length data = np" using D by (metis diff_add_inverse length_map length_upt)
  have mo: "map fst obs = [a + 1..<a + 1 + ob] \<and> (\<forall>blocks. (\<forall>(x, v)\<in>set obs. blocks x = v) \<longrightarrow> recovered_orphans blocks (a + 1) ob = oi_list ?O)" if "oi_n ?O \<noteq> 0"
  proof -
    have "a + 1 + sbi_blocks_per_seg (cps_sbi S) \<le> 2 ^ 32" using al by simp
    from pack_ready_orphans(2) [OF r refl this, of E] P(4) [OF that, folded a_def] show ?thesis by (auto simp: ob_def)
  qed
  have lo0: "length obs = ob" using P(6) [folded a_def ob_def] by (metis diff_add_inverse length_map length_upt)
  have dat: "ws ! (1 + ob + j) = data ! j" if "j < np" for j
    using that len lo0 by (simp add: P(3) nth_append)
  have sd: "d (a + 1 + ob + j) = snd (data ! j)" if "j < np" for j
    using at [of "1 + ob + j"] dat [OF that] that by (simp add: add.assoc)
  show "pack_journals rsb ck (\<lambda>a. as_compact C (d a)) (disk_journals C rsb ck z d) z = (?jn, ?js)"
  proof (cases "np < 3")
    case True
    then have c: "ck_compact_sum ck" using F(5) by simp
    have st: "start_sum_block rsb ck z = a + 1 + ob" unfolding start_sum_block_def az F(4) u using obr al by (simp add: u32_id)
    let ?w = "compact_writer K ck (cps_sbi S) ?jn ?js (\<lambda>a. as_compact C (cps_meta S a)) (a + 1 + ob)"
    have dd: "data = map (\<lambda>i. let x = u32 (a + 1 + ob + i) in (x, Compact_Block (sw_pages ?w x))) [0..<sub32 (sw_blkaddr ?w) (a + 1 + ob)]"
      using arg_cong [OF P(5) [folded a_def ob_def], of snd] c by (simp add: write_data_summaries_def Let_def)
    then have "data ! 0 = (a + 1 + ob, Compact_Block (sw_pages ?w (a + 1 + ob)))"
      using len np obr al by (simp add: Let_def u32_id)
    then have "d (a + 1 + ob) = Compact_Block (sw_pages ?w (a + 1 + ob))" using sd [of 0] np by simp
    then show ?thesis using c rb by (simp add: pack_journals_def Let_def st compact_journals reads_back_def)
  next
    case False
    then have c: "\<not> ck_compact_sum ck" "np = 3" using F(5) np by auto
    have bl: "sum_blk_addr rsb ck z (if ck_umount ck then NR_CURSEG_TYPE else NR_CURSEG_DATA_TYPE) t = a + 1 + ob + t" if "t < 3" for t
    proof -
      let ?base = "if um then 6 else 3"
      have "u32 (a + ck_pack_total_block_count ck) = a + ck_pack_total_block_count ck" "ck_pack_total_block_count ck = 2 + np + ob + (if um then 3 else 0)"
        using obr al np F(8) u by (auto intro: u32_id)
      then have "sub32 (u32 (a + ck_pack_total_block_count ck)) (?base + 1) = a + 1 + ob" using c(2) al obr by (cases um) (simp_all add: sub32_id)
      moreover have "(if ck_umount ck then NR_CURSEG_TYPE else NR_CURSEG_DATA_TYPE) = ?base" using F(6) by (simp add: curseg_types NR_CURSEG_DATA_TYPE_def)
      ultimately show ?thesis using that al obr by (simp only: sum_blk_addr_def az) (intro u32_id; simp)
    qed
    have "data = snd (write_normal_summaries ?jn ?js (cps_sbi S) (a + 1 + ob) CURSEG_HOT_DATA)"
      using arg_cong [OF P(5) [folded a_def ob_def], of snd] c by (simp add: write_data_summaries_def)
    then have "snd (as_sum C (d (a + 1 + ob + 0))) = Nat_Journal ?jn" "snd (as_sum C (d (a + 1 + ob + 2))) = Sit_Journal ?js"
      using sd [of 0] sd [of 2] c(2) rb by (simp_all add: normal_summaries reads_back_def)
    then show ?thesis using c bl [of 0] bl [of 2] by (simp add: pack_journals_def disk_journals_def Let_def curseg_types(1,3))
  qed
  show "recover_orphan_inodes C rsb ck z d = (oi_list ?O, ck\<lparr>ck_orphan_present := False\<rparr>)"
  proof (cases "oi_n ?O = 0")
    case True
    then have "oi_list ?O = []" using r by (simp add: pack_ready_def)
    moreover have "\<not> ck_orphan_present ck" using F(7) True by simp
    ultimately show ?thesis by (simp add: recover_orphan_inodes_def)
  next
    case False
    have "u32 (a + 1) = a + 1" "sub32 (1 + ob) 1 = ob" using al obr R(3) by (auto intro: u32_id simp: sub32_id)
    moreover have "as_orphan C (d x) = v" if "(x, v) \<in> set obs" for x v
    proof -
      obtain j where j: "j < ob" "obs ! j = (x, v)" using \<open>(x, v) \<in> set obs\<close> lo0 by (metis in_set_conv_nth)
      have "x = a + 1 + j" using arg_cong [OF conjunct1 [OF mo [OF False]], of "\<lambda>l. l ! j"] j lo0 by (simp del: upt_Suc)
      moreover have "ws ! (1 + j) = (x, Orphan_Block v)" using j lo0 by (simp add: P(3) nth_append)
      ultimately have "d x = Orphan_Block v" using at [of "1 + j"] j(1) by (simp add: add.assoc)
      then show ?thesis using rb by (simp add: reads_back_def)
    qed
    then have "\<forall>(x, v)\<in>set obs. as_orphan C (d x) = v" by blast
    then have "recovered_orphans (\<lambda>x. as_orphan C (d x)) (a + 1) ob = oi_list ?O" by (rule spec [OF conjunct2 [OF mo [OF False]], THEN mp])
    ultimately show ?thesis using False F(7) by (simp add: recover_orphan_inodes_def Let_def az start_sum_addr_def F(4) u(1) [simplified])
  qed
qed

section \<open>Full summary blocks\<close>

text \<open>A block has room for \<open>n\<close> summaries; every block has, which is not a summary block that somebody wrote with less.\<close>

definition sum_room :: "cp_layout \<Rightarrow> nat \<Rightarrow> meta_block \<Rightarrow> bool" where
  "sum_room C n b \<longleftrightarrow> n \<le> length (sb_entries (fst (as_sum C b)))"

definition sums_full :: "cp_layout \<Rightarrow> nat \<Rightarrow> bool" where
  "sums_full C n \<longleftrightarrow> (\<forall>b. (\<nexists>s j. b = Sum_Block s j) \<longrightarrow> sum_room C n b)"

lemma put_blocks_cases: "put_blocks ws disk a = disk a \<or> (a, put_blocks ws disk a) \<in> set ws"
proof (induction ws arbitrary: disk)
  case (Cons w ws)
  obtain x b where w: "w = (x, b)" by fastforce
  then have "put_blocks (w # ws) disk = put_blocks ws (disk(x := b))" by (simp add: put_blocks_def)
  moreover have "put_blocks ws (disk(x := b)) a = (disk(x := b)) a \<or> (a, put_blocks ws (disk(x := b)) a) \<in> set ws" by (rule Cons.IH)
  ultimately show ?case using w by (metis fun_upd_apply list.set_intros)
qed (simp add: put_blocks_def)

text \<open>The blocks between the two copies.\<close>

definition pack_part :: "f2fs_sb_info \<Rightarrow> meta_block \<Rightarrow> bool" where
  "pack_part sbi b \<longleftrightarrow> (\<exists>ob. b = Orphan_Block ob) \<or> (\<exists>p. b = Compact_Block p) \<or> (\<exists>t<NR_CURSEG_TYPE. \<exists>j. b = Sum_Block (cs_sum_blk (CURSEG_I sbi t)) j)"

lemma normal_summaries_parts:
  assumes "t = CURSEG_HOT_DATA \<or> t = CURSEG_HOT_NODE" and "(x, b) \<in> set (snd (write_normal_summaries nats sits sbi a t))"
  shows "pack_part sbi b"
proof -
  have p: "i < 6 \<Longrightarrow> pack_part sbi (Sum_Block (cs_sum_blk (CURSEG_I sbi i)) j)" for i j by (auto simp: pack_part_def NR_CURSEG_TYPE_def)
  from assms(1) show ?thesis
  proof
    assume t: "t = CURSEG_HOT_DATA"
    show ?thesis using assms(2) p [of 0] p [of 1] p [of 2] unfolding t normal_summaries by auto
  next
    assume t: "t = CURSEG_HOT_NODE"
    show ?thesis using assms(2) p [of 3] p [of 4] p [of 5] unfolding t normal_summaries by auto
  qed
qed

lemma pack_parts:
  assumes r: "pack_ready C K rsb S" and k: "kernel_ok E" and dk: "dirty_ok (cps_sbi S)" "TOTAL_SEGS (cps_sbi S) < 2 ^ 32 - 1"
    and run: "write_pack E C K rsb S um = Some (S', ws, ds)" "writable S"
  obtains a z mid where "ws = (a, Cp_Block (cps_ckpt S')) # mid @ [(z, Cp_Block (cps_ckpt S'))]" "\<And>x b. (x, b) \<in> set mid \<Longrightarrow> pack_part (cps_sbi S) b"
proof (rule write_pack_shape [OF r k dk, of um])
  fix S2 ws2 ds2 nid obs data nodes sbi1
  assume Q: "write_pack E C K rsb S um = Some (S2, if writable S then ws2 else [], ds2)"
    and ws2: "ws2 = (start_cp_addr rsb (cb_ckpt (cps_ckpt S2)) (cps_sbi S), Cp_Block (cps_ckpt S2)) # map (\<lambda>(a, b). (a, Orphan_Block b)) obs @ data @ nodes
       @ [(start_cp_addr rsb (cb_ckpt (cps_ckpt S2)) (cps_sbi S) + ck_pack_total_block_count (cb_ckpt (cps_ckpt S2)) - 1, Cp_Block (cps_ckpt S2))]"
    and data: "write_data_summaries C K (cb_ckpt (cps_ckpt S2)) (cps_meta S) (ns_journal (cps_nat S)) (ss_journal (cps_sit S)) (cps_sbi S)
       (start_cp_addr rsb (cb_ckpt (cps_ckpt S2)) (cps_sbi S) + 1 + orphan_blocks (F2FS_ORPHANS_PER_BLOCK C) (cps_orphans S)) = (sbi1, data)"
    and nodes: "um \<Longrightarrow> nodes = snd (write_node_summaries (cb_ckpt (cps_ckpt S2)) (ns_journal (cps_nat S)) (ss_journal (cps_sit S)) sbi1
       (start_cp_addr rsb (cb_ckpt (cps_ckpt S2)) (cps_sbi S) + 1 + orphan_blocks (F2FS_ORPHANS_PER_BLOCK C) (cps_orphans S)
          + npages_for_summary_flush K (cb_ckpt (cps_ckpt S2)) (cps_sbi S)))" "\<not> um \<Longrightarrow> nodes = []"
    and sbi1: "\<exists>m. sbi1 = (cps_sbi S)\<lparr>sbi_meta_pages := m\<rparr>"
  have eq: "S2 = S'" "ws2 = ws" using Q run by simp_all
  have same: "pack_part sbi1 = pack_part (cps_sbi S)" using sbi1 by (auto simp: fun_eq_iff pack_part_def accessors)
  have "pack_part (cps_sbi S) b" if "(x, b) \<in> set (map (\<lambda>(a, b). (a, Orphan_Block b)) obs @ data @ nodes)" for x b
  proof -
    from that consider ob where "b = Orphan_Block ob" | "(x, b) \<in> set data" | "(x, b) \<in> set nodes" by auto
    then show ?thesis
    proof cases
      case 1
      then show ?thesis by (simp add: pack_part_def)
    next
      case 2
      show ?thesis
      proof (cases "ck_compact_sum (cb_ckpt (cps_ckpt S2))")
        case True
        then show ?thesis using 2 data by (auto simp: write_data_summaries_def Let_def pack_part_def)
      next
        case False
        then show ?thesis using 2 data normal_summaries_parts [OF disjI1 [OF refl]] by (simp add: write_data_summaries_def) (metis snd_conv)
      qed
    next
      case 3
      have "um" using 3 nodes(2) by (cases um) simp_all
      note nd = nodes(1) [OF this]
      have "ck_umount (cb_ckpt (cps_ckpt S2))" using 3 unfolding nd by (simp add: write_node_summaries_def split: if_splits)
      then have "pack_part sbi1 b" using 3 normal_summaries_parts [OF disjI2 [OF refl]] unfolding nd by (simp add: write_node_summaries_def)
      then show ?thesis by (simp add: same)
    qed
  qed
  moreover have "ws = (start_cp_addr rsb (cb_ckpt (cps_ckpt S')) (cps_sbi S), Cp_Block (cps_ckpt S')) # (map (\<lambda>(a, b). (a, Orphan_Block b)) obs @ data @ nodes)
       @ [(start_cp_addr rsb (cb_ckpt (cps_ckpt S')) (cps_sbi S) + ck_pack_total_block_count (cb_ckpt (cps_ckpt S')) - 1, Cp_Block (cps_ckpt S'))]"
    using ws2 unfolding eq by simp
  ultimately show ?thesis by (rule that [rotated])
qed

lemma pack_room:
  assumes "reads_back C" and "pack_ready C K rsb S" "kernel_ok E" "dirty_ok (cps_sbi S)" "TOTAL_SEGS (cps_sbi S) < 2 ^ 32 - 1"
    "write_pack E C K rsb S um = Some (S', ws, ds)" "writable S" and "logs_shape (cps_sbi S)" and full: "sums_full C (sbi_blocks_per_seg (cps_sbi S))"
    and "(x, b) \<in> set ws"
  shows "sum_room C (sbi_blocks_per_seg (cps_sbi S)) b"
proof -
  have "b = Cp_Block (cps_ckpt S') \<or> pack_part (cps_sbi S) b" by (rule pack_parts [OF assms(2-7)]) (use assms(10) in auto)
  then show ?thesis using full assms(1,8) by (auto simp: sums_full_def pack_part_def sum_room_def logs_shape_def reads_back_def)
qed

text \<open>Between the copies no block can be taken for a checkpoint block, where only a checkpoint block can have the checksum of one.\<close>

lemma only_ends_foreign:
  assumes "pack_ready C K rsb S" "kernel_ok E" "dirty_ok (cps_sbi S)" "TOTAL_SEGS (cps_sbi S) < 2 ^ 32 - 1"
    "do_checkpoint E C K rsb S um = Some (S', ws, ds)" and "\<And>b. (\<And>c. b \<noteq> Cp_Block c) \<Longrightarrow> \<not> cp_ok C (as_cp C b)" and "writable S"
  shows "foreign C ws"
proof -
  obtain T where T: "sync_dirty_meta S = Some T" "write_pack E C K rsb T um = Some (S', ws, ds)"
    using assms(5) by (auto simp: do_checkpoint_def bind_eq_Some_conv)
  note P = synced_parts [OF sync_dirty_meta_cases [OF T(1)]]
  have h: "pack_ready C K rsb T" "dirty_ok (cps_sbi T)" "TOTAL_SEGS (cps_sbi T) < 2 ^ 32 - 1" "writable T"
    using assms(1,3,4,7) by (simp_all add: P)
  obtain a z mid where ws: "ws = (a, Cp_Block (cps_ckpt S')) # mid @ [(z, Cp_Block (cps_ckpt S'))]"
    and mid: "\<And>x b. (x, b) \<in> set mid \<Longrightarrow> pack_part (cps_sbi T) b"
    by (rule pack_parts [OF h(1) assms(2) h(2,3) T(2) h(4)]) (rule that)
  have "\<not> cp_ok C (as_cp C (snd (ws ! i)))" if "0 < i" "i < length ws - 1" for i
  proof -
    have "ws ! i = mid ! (i - 1)" "i - 1 < length mid" using that by (auto simp: ws nth_append nth_Cons')
    then have "ws ! i \<in> set mid" by simp
    then have "pack_part (cps_sbi T) (snd (ws ! i))" using mid by (metis prod.collapse)
    then show ?thesis by (intro assms(6)) (auto simp: pack_part_def)
  qed
  then show ?thesis by (simp add: foreign_def)
qed

section \<open>Checkpoint and mount\<close>

lemma pack_journals_cong:
  "sbi_blocks_per_seg a = sbi_blocks_per_seg b \<Longrightarrow> pack_journals rsb ck pages js a = pack_journals rsb ck pages js b"
  "sbi_blocks_per_seg a = sbi_blocks_per_seg b \<Longrightarrow> disk_journals C rsb ck a d = disk_journals C rsb ck b d"
  by (simp_all add: pack_journals_def disk_journals_def start_sum_block_def sum_blk_addr_def start_cp_addr_def cong: if_cong)

text \<open>The state in which a checkpoint starts: every change of the tables is in memory, and no block is reserved without an address.\<close>

definition can_checkpoint :: "f2fs_env \<Rightarrow> node_layout \<Rightarrow> cp_layout \<Rightarrow> sum_layout \<Rightarrow> f2fs_super_block \<Rightarrow> cp_state \<Rightarrow> bool" where
  "can_checkpoint E L C K rsb S \<longleftrightarrow> fs_ok E (cps_sbi S) {} \<and> sit_shape E L (cps_sit S) \<and> sit_disk_ok E (cps_sit S)
     \<and> (\<forall>k<TOTAL_SEGS (cps_sbi S). \<not> sp_dirty (ss_pages (cps_sit S) (sit_addr E (SIT_I (cps_sbi S)) k)))
     \<and> sit_fits E (cps_sbi S) \<and> nat_ok L (cps_sbi S) (cps_nat S)
     \<and> (\<forall>nid<nm_max_nid (ns_nm (cps_nat S)). \<not> np_dirty (cur_page L (cps_sbi S) (cps_nat S) nid))
     \<and> pack_ready C K rsb S \<and> ckpt_arrays (cb_ckpt (cps_ckpt S)) \<and> logs_shape (cps_sbi S) \<and> 0 < TOTAL_SEGS (cps_sbi S) \<and> TOTAL_SEGS (cps_sbi S) < 2 ^ 32 - 1
     \<and> sbi_total_valid_block_count (cps_sbi S) = (\<Sum>i<TOTAL_SEGS (cps_sbi S). vblocks (cps_sbi S) i)
     \<and> sbi_total_valid_block_count (cps_sbi S) < 2 ^ 32"

text \<open>After a clean unmount the pack has the summaries of the node logs; otherwise they come from the footers of the node blocks.\<close>

definition node_logs_readable :: "(nat \<Rightarrow> nat option) \<Rightarrow> f2fs_sb_info \<Rightarrow> bool" where
  "node_logs_readable nn sbi \<longleftrightarrow> (\<forall>t<NR_CURSEG_TYPE. IS_NODESEG t \<longrightarrow>
     (\<forall>j< sbi_blocks_per_seg sbi. nn (START_BLOCK sbi (cs_segno (CURSEG_I sbi t)) + j) \<noteq> None))"

lemma write_checkpoint_runs:
  assumes k: "kernel_ok E" and c: "can_checkpoint E L C K rsb S" and wr: "writable S"
  obtains T F S' ws ds nid where "write_checkpoint E L C K rsb S um = Some (S', ws, ds)" "write_pack E C K rsb T um = Some (S', ws, ds)"
    "pack_ready C K rsb T" "dirty_ok (cps_sbi T)" "cps_ckpt S' = modify_checkpoint E C K T nid um" "pack_at rsb (cps_sbi S) (cps_ckpt S') ws"
    "cps_ckpt T = (cps_ckpt S)\<lparr>cb_ckpt := (cb_ckpt (cps_ckpt S))\<lparr>ck_version := u64 (cb_version (cps_ckpt S) + 1)\<rparr>\<rparr>" "cps_orphans T = cps_orphans S"
    "ns_journal (cps_nat S') = ns_journal (cps_nat T)" "ss_journal (cps_sit S') = ss_journal F" "ss_pages (cps_sit S') = ss_pages F"
    "sit_shape E L F" "flush_keeps (cps_sbi S) (cps_sbi T)"
    "\<And>k. k < TOTAL_SEGS (cps_sbi S) \<Longrightarrow> disk_sit E F k = raw_sit E (sit_entry (cps_sit S) k)"
    "\<And>a. \<not> sp_dirty (ss_pages (cps_sit S') a)" "\<And>a. \<not> np_dirty (ns_pages (cps_nat S') a)" "cps_dirty S' = []"
    "writable T" "ss_sbi F = cps_sbi T" "ss_journal F = ss_journal (cps_sit T)"
proof -
  note I = c [unfolded can_checkpoint_def]
  note fs = fs_okD [of E "cps_sbi S" "{}"]
  let ?S1 = "S\<lparr>cps_ckpt := (cps_ckpt S)\<lparr>cb_ckpt := (cb_ckpt (cps_ckpt S))\<lparr>ck_version := u64 (cb_version (cps_ckpt S) + 1)\<rparr>\<rparr>\<rparr>"
  obtain N where N: "flush_nat_entries E L (cps_sbi S) (cps_nat S) = Some N" using flush_nat_entries_ok [of L "cps_sbi S" "cps_nat S" E] I by blast
  have nid: "has_next_nid (ns_nm N)" using flush_nat_entries_nids [OF N] I by (simp add: pack_ready_def has_next_nid_def)
  obtain F where F: "flush_sit_entries E L (cps_sit S) = Some F" "sit_shape E L F" "flush_keeps (cps_sbi S) (ss_sbi F)"
    "\<And>k. k < TOTAL_SEGS (cps_sbi S) \<Longrightarrow> disk_sit E F k = raw_sit E (sit_entry (cps_sit S) k) \<and> sit_entry F k = ckpted (sit_entry (cps_sit S) k)"
    using flush_sit_entries_ok [OF k, of L "cps_sit S"] I fs by blast
  let ?T = "?S1\<lparr>cps_nat := N, cps_sit := F\<rparr>"
  note FK0 = flush_keepsD [OF F(3)]
  have "writable ?T" using wr FK0(12) by (simp add: meta_writable_def)
  from sync_dirty_meta_writable [OF this] obtain T where sd: "sync_dirty_meta ?T = Some T" by blast
  note P = synced_parts [OF sync_dirty_meta_cases [OF sd]]
  have sync: "cps_sbi T = ss_sbi F" "ns_nm (cps_nat T) = ns_nm N" "cps_orphans T = cps_orphans S" "cps_ckpt T = cps_ckpt ?S1" "ss_journal (cps_sit T) = ss_journal F"
    by (simp_all add: P)
  have wT: "writable T" using wr FK0(12) by (simp add: sync meta_writable_def)
  define G where "G = cps_sit (sync_meta_pages T)"
  have pages: "sp_entries (ss_pages G a) = sp_entries (ss_pages F a)" "ss_journal G = ss_journal F" "ss_sbi G = ss_sbi F" for a
    by (simp_all add: G_def P(8) sync)
  have disk: "disk_sit E G = disk_sit E F" by (simp add: disk_sit_def fun_eq_iff pages cong: option.case_cong)
  have clean: "\<not> sp_dirty (ss_pages G a)" "\<not> np_dirty (ns_pages (cps_nat (sync_meta_pages T)) a)" for a
    using wT by (simp_all add: G_def sync_meta_pages_def clean_meta_def)
  have shape: "sit_shape E L G" using F(2) by (simp add: sit_shape_def pages)
  note FK = flush_keepsD [OF F(3)]
  have pr: "pack_ready C K rsb T" using I nid by (simp add: pack_ready_def sync FK has_next_nid_def)
  have dk: "dirty_ok (cps_sbi T)" using I fs(3) F(4) by (simp add: dirty_ok_def sync FK types_ok_def)
  have tt: "TOTAL_SEGS (cps_sbi T) < 2 ^ 32 - 1" using I by (simp add: sync FK)
  obtain S' ws ds nid where S': "write_pack E C K rsb T um = Some (S', if writable T then ws else [], ds)" "cps_ckpt S' = modify_checkpoint E C K T nid um"
    "pack_at rsb (cps_sbi T) (cps_ckpt S') ws" "cps_nat S' = cps_nat (sync_meta_pages T)" "ss_journal (cps_sit S') = ss_journal (cps_sit T)"
    "ss_pages (cps_sit S') = ss_pages (cps_sit (sync_meta_pages T))" "cps_dirty S' = (if writable T then [] else List.union (map fst ws) (cps_dirty T))"
    by (rule write_pack_shape [OF pr k dk tt, of um]) (rule that, assumption+)
  have n: "sbi_blocks_per_seg (cps_sbi T) = sbi_blocks_per_seg (cps_sbi S)" by (simp add: sync FK)
  have "pack_at rsb (cps_sbi S) (cps_ckpt S') ws" using S'(3) unfolding pack_at_def start_cp_addr_def n .
  moreover have "write_pack E C K rsb T um = Some (S', ws, ds)" "write_checkpoint E L C K rsb S um = Some (S', ws, ds)"
    using S'(1) N F(1) sd wT by (simp_all add: write_checkpoint_def do_checkpoint_def Let_def)
  moreover have "ss_pages (cps_sit S') = ss_pages G" using S'(6) by (simp add: G_def)
  ultimately show ?thesis using S'(2-5,7) pr dk F(3,4) shape wT by (intro that [of S' ws ds T nid G]) (simp_all add: sync disk clean pages)
qed

lemma raw_sit_valid:
  assumes "sit_ok E sbi" and "types_ok sbi" and "sit_fits E sbi" and "i < TOTAL_SEGS sbi"
  shows "GET_SIT_VBLOCKS E (rs_vblocks (raw_sit E (get_seg_entry sbi i))) = vblocks sbi i" "rs_valid_map (raw_sit E (get_seg_entry sbi i)) = se_cur_valid_map (get_seg_entry sbi i)"
    "loaded E se (raw_sit E (get_seg_entry sbi i)) \<Longrightarrow> same_but_cleaning (get_seg_entry sbi i) se"
proof -
  have se: "seg_ok E (sbi_blocks_per_seg sbi) (get_seg_entry sbi i)" "se_type (get_seg_entry sbi i) < NR_CURSEG_TYPE"
    using sit_okD(6) [OF assms(1,4)] assms(2,4) by (simp_all add: types_ok_def)
  have fit: "raw_sit_ok E" "sbi_blocks_per_seg sbi < 2 ^ SIT_VBLOCKS_SHIFT E" "NR_CURSEG_TYPE \<le> 2 ^ (16 - SIT_VBLOCKS_SHIFT E)"
    using assms(3) by (simp_all add: sit_fits_def)
  show m: "rs_valid_map (raw_sit E (get_seg_entry sbi i)) = se_cur_valid_map (get_seg_entry sbi i)" by (simp add: raw_sit_def)
  show "GET_SIT_VBLOCKS E (rs_vblocks (raw_sit E (get_seg_entry sbi i))) = vblocks sbi i"
    using raw_sit_entry_ok(1) [OF se fit] se(1) by (simp add: raw_entry_ok_def seg_ok_def vblocks_def m)
  show "loaded E se (raw_sit E (get_seg_entry sbi i)) \<Longrightarrow> same_but_cleaning (get_seg_entry sbi i) se"
    by (rule raw_sit_entry_ok(2) [OF se fit])
qed

text \<open>The segment manager that a mount builds from the disk \<open>d\<close>.\<close>

definition remount ::
  "f2fs_env \<Rightarrow> cp_layout \<Rightarrow> sum_layout \<Rightarrow> nat \<Rightarrow> f2fs_super_block \<Rightarrow> f2fs_checkpoint \<Rightarrow> (nat \<Rightarrow> nat option) \<Rightarrow> nat \<Rightarrow> (nat \<Rightarrow> meta_block) \<Rightarrow>
   (nat \<Rightarrow> sit_page) \<Rightarrow> f2fs_sb_info \<Rightarrow> (int \<times> f2fs_nat_entry journal \<times> sit_state) option" where
  "remount E C K n rsb ck nn bio d pages m =
    (let m = m\<lparr>sbi_meta_pages := \<lambda>a. fst (as_sum C (d a))\<rparr>
     in build_segment_manager E K n rsb ck nn bio (\<lambda>a. as_compact C (d a)) (disk_journals C rsb ck m d) pages m)"

lemma checkpoint_then_mount:
  assumes k: "kernel_ok E" and c: "can_checkpoint E L C K rsb S" and rb: "reads_back C" and bio: "0 < bio"
    and sf: "sums_full C (sbi_blocks_per_seg (cps_sbi S))" and wr: "writable S"
  obtains S' ws ds where "write_checkpoint E L C K rsb S um = Some (S', ws, ds)" "pack_at rsb (cps_sbi S) (cps_ckpt S') ws"
    "cb_version (cps_ckpt S') = u64 (cb_version (cps_ckpt S) + 1)" "f2fs_crc_valid C (cb_crc (cps_ckpt S')) (cb_ckpt (cps_ckpt S')) (ck_checksum_offset (cb_ckpt (cps_ckpt S')))"
    "ck_checksum_offset (cb_ckpt (cps_ckpt S')) = ck_checksum_offset (cb_ckpt (cps_ckpt S))"
    "\<And>a. \<not> sp_dirty (ss_pages (cps_sit S') a)" "\<And>a. \<not> np_dirty (ns_pages (cps_nat S') a)" "cps_dirty S' = []"
    "\<And>disk m n nn. same_volume rsb (cps_sbi S) m \<Longrightarrow> (\<And>a. sum_room C (sbi_blocks_per_seg m) (disk a)) \<Longrightarrow>
       um \<or> node_logs_readable nn (cps_sbi S) \<Longrightarrow>
       fst (recover_orphan_inodes C rsb (cb_ckpt (cps_ckpt S')) m (put_blocks ws disk)) = oi_list (cps_orphans S) \<and>
       (\<exists>M. remount E C K n rsb (cb_ckpt (cps_ckpt S')) nn bio (put_blocks ws disk) (ss_pages (cps_sit S')) m = Some (0, ns_journal (cps_nat S'), M)
          \<and> fs_ok E (ss_sbi M) {} \<and> TOTAL_SEGS (ss_sbi M) = TOTAL_SEGS (cps_sbi S)
          \<and> (\<forall>k<TOTAL_SEGS (cps_sbi S). same_but_cleaning (sit_entry (cps_sit S) k) (sit_entry M k))
          \<and> (\<forall>t<NR_CURSEG_TYPE. cs_segno (CURSEG_I (ss_sbi M) t) = cs_segno (CURSEG_I (cps_sbi S) t)
               \<and> cs_next_blkoff (CURSEG_I (ss_sbi M) t) = cs_next_blkoff (CURSEG_I (cps_sbi S) t)
               \<and> cs_alloc_type (CURSEG_I (ss_sbi M) t) = cs_alloc_type (CURSEG_I (cps_sbi S) t)))"
proof -
  obtain T F S' ws ds nid where R: "write_checkpoint E L C K rsb S um = Some (S', ws, ds)" "write_pack E C K rsb T um = Some (S', ws, ds)"
    "pack_ready C K rsb T" "dirty_ok (cps_sbi T)" "cps_ckpt S' = modify_checkpoint E C K T nid um" "pack_at rsb (cps_sbi S) (cps_ckpt S') ws"
    "cps_ckpt T = (cps_ckpt S)\<lparr>cb_ckpt := (cb_ckpt (cps_ckpt S))\<lparr>ck_version := u64 (cb_version (cps_ckpt S) + 1)\<rparr>\<rparr>" "cps_orphans T = cps_orphans S"
    "ns_journal (cps_nat S') = ns_journal (cps_nat T)" "ss_journal (cps_sit S') = ss_journal F" "ss_pages (cps_sit S') = ss_pages F"
    "sit_shape E L F" "flush_keeps (cps_sbi S) (cps_sbi T)"
    "\<And>k. k < TOTAL_SEGS (cps_sbi S) \<Longrightarrow> disk_sit E F k = raw_sit E (sit_entry (cps_sit S) k)"
    "\<And>a. \<not> sp_dirty (ss_pages (cps_sit S') a)" "\<And>a. \<not> np_dirty (ns_pages (cps_nat S') a)" "cps_dirty S' = []"
    "writable T" "ss_sbi F = cps_sbi T" "ss_journal F = ss_journal (cps_sit T)"
    by (rule write_checkpoint_runs [OF k c wr, of um]) (rule that, assumption+)
  note I = c [unfolded can_checkpoint_def] and FK = flush_keepsD [OF R(13)]
  have fs: "fs_ok E (cps_sbi S) {}" using I by blast
  note fsD = fs_okD [OF fs]
  have ty: "types_ok (cps_sbi S)" using fsD(3) by (simp add: dirty_ok_def)
  let ?ck = "cb_ckpt (cps_ckpt S')" and ?n = "sbi_blocks_per_seg (cps_sbi S)" and ?T = "TOTAL_SEGS (cps_sbi S)"
  note CK = modify_checkpoint_fields [where E = E and C = C and K = K and S = T and nid = nid and um = um, folded R(5)]
  have ar: "ckpt_arrays (cb_ckpt (cps_ckpt T))" using I by (simp add: R(7) ckpt_arrays_def)
  note LG = modify_checkpoint_logs [OF ar, where E = E and C = C and K = K and nid = nid and um = um, folded R(5), unfolded FK(3)]
  have lg: "length (sm_curseg_array (SM_I (cps_sbi S))) = NR_CURSEG_TYPE" "\<And>t. t < NR_CURSEG_TYPE \<Longrightarrow> log_seg (cps_sbi S) t < ?T"
    "\<And>t. t < NR_CURSEG_TYPE \<Longrightarrow> log_space (cps_sbi S) (CURSEG_I (cps_sbi S) t)"
    "\<And>s t. s < NR_CURSEG_TYPE \<Longrightarrow> t < NR_CURSEG_TYPE \<Longrightarrow> s \<noteq> t \<Longrightarrow> log_seg (cps_sbi S) s \<noteq> log_seg (cps_sbi S) t"
    using fsD(4) by (simp_all add: logs_ok_def)
  have "fst (recover_orphan_inodes C rsb ?ck m (put_blocks ws disk)) = oi_list (cps_orphans S) \<and>
       (\<exists>M. remount E C K n rsb ?ck nn bio (put_blocks ws disk) (ss_pages (cps_sit S')) m = Some (0, ns_journal (cps_nat S'), M)
          \<and> fs_ok E (ss_sbi M) {} \<and> TOTAL_SEGS (ss_sbi M) = ?T \<and> (\<forall>k<?T. same_but_cleaning (sit_entry (cps_sit S) k) (sit_entry M k))
          \<and> (\<forall>t<NR_CURSEG_TYPE. cs_segno (CURSEG_I (ss_sbi M) t) = cs_segno (CURSEG_I (cps_sbi S) t)
               \<and> cs_next_blkoff (CURSEG_I (ss_sbi M) t) = cs_next_blkoff (CURSEG_I (cps_sbi S) t)
               \<and> cs_alloc_type (CURSEG_I (ss_sbi M) t) = cs_alloc_type (CURSEG_I (cps_sbi S) t)))"
    if vol0: "same_volume rsb (cps_sbi S) m" and full0: "\<And>a. sum_room C (sbi_blocks_per_seg m) (disk a)"
      and nodes: "um \<or> node_logs_readable nn (cps_sbi S)" for disk m n nn
  proof -
    let ?d = "put_blocks ws disk"
    define m1 where "m1 = m\<lparr>sbi_meta_pages := \<lambda>a. fst (as_sum C (?d a))\<rparr>"
    have vol: "same_volume rsb (cps_sbi S) m1" using vol0 by (simp add: same_volume_def m1_def)
    have bp: "sbi_blocks_per_seg m1 = ?n" "sbi_blocks_per_seg m = ?n" using vol0 by (simp_all add: same_volume_def m1_def)
    have shT: "logs_shape (cps_sbi T)" "sums_full C (sbi_blocks_per_seg (cps_sbi T))"
      using I sf by (simp_all add: logs_shape_def FK)
    have ttT: "TOTAL_SEGS (cps_sbi T) < 2 ^ 32 - 1" using I by (simp add: FK)
    have full: "sbi_blocks_per_seg m \<le> length (sb_entries (fst (as_sum C (?d a))))" for a
      using put_blocks_cases [of ws disk a] full0 [of a] pack_room [OF rb R(3) k R(4) ttT R(2,18) shT, of a "?d a"]
      by (auto simp: sum_room_def bp FK)
    define js where "js = disk_journals C rsb ?ck m1 ?d"
    define z where "z = mount_start E n rsb ?ck m1"
    note M = mount_start_geometry [OF vol, where E = E and n = n and ckpt = ?ck, folded z_def]
    have tt: "TOTAL_SEGS (cps_sbi T) < 2 ^ 32 - 1" using I by (simp add: FK)
    have "sbi_blocks_per_seg m = sbi_blocks_per_seg (cps_sbi T)" "sbi_blocks_per_seg m1 = sbi_blocks_per_seg (cps_sbi T)" by (simp_all add: bp FK)
    note PJ = pack_journals_read [OF rb R(3) k R(4) tt R(2,18) this(1), of disk] pack_journals_read [OF rb R(3) k R(4) tt R(2,18) this(2), of disk]
    have pj: "pack_journals rsb ?ck (\<lambda>a. as_compact C (?d a)) js z = (ns_journal (cps_nat T), ss_journal (cps_sit T))"
      using PJ(3) pack_journals_cong(1) [of z m1] by (simp add: js_def M(3) bp)
    let ?S0 = "image_state E n rsb ?ck (\<lambda>a. as_compact C (?d a)) js (ss_pages F) m1"
    have al: "8 dvd ?n" using fs by (simp add: fs_ok_def)
    have "snd (pack_journals rsb ?ck (\<lambda>a. as_compact C (?d a)) js (mount_start E n rsb ?ck m1)) = ss_journal (cps_sit T)" using pj by (simp add: z_def)
    note IM = image_of_flush [OF R(12) R(13) [folded R(19)] fsD(1) ty R(14) al _ vol _ this [folded R(20)]]
    have S0: "sit_image_ok E L ?S0" "\<And>k. k < ?T \<Longrightarrow> disk_sit E ?S0 k = raw_sit E (sit_entry (cps_sit S) k)" "ss_sbi ?S0 = z"
      using IM I CK(11) R(19) by (simp_all add: z_def)
    note RS = raw_sit_valid [OF fsD(1) ty]
    have fit: "sit_fits E (cps_sbi S)" using I by blast
    have lgk: "ck_segno ?ck t = log_seg (cps_sbi S) t" if "t < NR_CURSEG_TYPE" for t using LG(1) [OF that] by (simp add: log_seg_def)
    have "ckpt_logs_ok E ?ck ?S0"
      unfolding ckpt_logs_ok_def S0(3) M(2,3)
    proof (intro conjI allI impI)
      fix t assume t: "t < NR_CURSEG_TYPE"
      have d: "bits_of (rs_valid_map (disk_sit E ?S0 (ck_segno ?ck t))) i = live (cps_sbi S) (cs_segno (CURSEG_I (cps_sbi S) t)) i" for i
        using lg(2) [OF t] RS(2) [OF fit, of "log_seg (cps_sbi S) t"] by (simp add: lgk [OF t] S0(2) live_def log_seg_def)
      note sp = lg(3) [OF t, unfolded log_space_def]
      show "ck_segno ?ck t < ?T" using lg(2) t lgk by simp
      show "ck_blkoff ?ck t < ?n" "\<not> bits_of (rs_valid_map (disk_sit E ?S0 (ck_segno ?ck t))) (ck_blkoff ?ck t)"
        using sp LG(2) [OF t] by (simp_all add: d)
      fix i assume "ck_alloc_type ?ck ! t = LFS" "ck_blkoff ?ck t \<le> i \<and> i < ?n"
      then show "\<not> bits_of (rs_valid_map (disk_sit E ?S0 (ck_segno ?ck t))) i" using sp LG(2,3) [OF t] by (simp add: d)
    qed (use lg(4) lgk in simp)
    moreover have "pages_full z" using full by (simp add: pages_full_def M bp m1_def)
    moreover have "nodes_readable ?ck nn z t" if t: "t < NR_CURSEG_TYPE" for t
    proof -
      have "START_BLOCK (cps_sbi S) (log_seg (cps_sbi S) t) + ?n < 2 ^ 32"
        using START_BLOCK_main [OF fsD(8) lg(2) [OF t]] geometryD(2) [OF fsD(8)] main_addr_less(1) [OF fsD(8) lg(2) [OF t], of "?n - 1"]
        by (simp add: main_addr_def)
      then show ?thesis using nodes t CK(6) lgk [OF t] by (auto simp: nodes_readable_def M(3,9) node_logs_readable_def log_seg_def)
    qed
    moreover have "ck_valid_block_count ?ck = (\<Sum>i<?T. GET_SIT_VBLOCKS E (rs_vblocks (disk_sit E ?S0 i)))"
      using I RS(1) [OF fit] by (simp add: CK(9) FK S0(2))
    ultimately have im: "image_ok E L ?ck nn ?S0"
      using S0(1) I geometryD(2) [OF fsD(8)] fs CK(9) by (simp add: image_ok_def S0(3) M FK fs_ok_def)
    obtain nats M' where M': "build_segment_manager E K n rsb ?ck nn bio (\<lambda>a. as_compact C (?d a)) js (ss_pages F) m1 = Some (0, nats, M')"
      "fs_ok E (ss_sbi M') {}" "mounted E ?ck ?S0 M'" "nats = fst (pack_journals rsb ?ck (\<lambda>a. as_compact C (?d a)) js (mount_start E n rsb ?ck m1))"
      by (rule build_segment_manager_ok [OF k bio im]) (rule that, assumption+)
    have "remount E C K n rsb ?ck nn bio ?d (ss_pages (cps_sit S')) m = Some (0, ns_journal (cps_nat S'), M')"
      using M'(1,4) pj by (simp add: remount_def Let_def m1_def [symmetric] js_def [symmetric] R(9,11) z_def)
    moreover note M'(2)
    moreover have "TOTAL_SEGS (ss_sbi M') = ?T" using M'(3) by (simp add: mounted_def S0(3) M(2))
    moreover have "same_but_cleaning (sit_entry (cps_sit S) i) (sit_entry M' i)" if "i < ?T" for i
    proof -
      have "loaded E (sit_entry M' i) (disk_sit E ?S0 i)" using M'(3) that by (simp add: mounted_def S0(3) M(2))
      then show ?thesis unfolding S0(2) [OF that] by (rule RS(3) [OF fit that])
    qed
    moreover have "log_at ?ck (ss_sbi M') t" if "t < NR_CURSEG_TYPE" for t using M'(3) that by (simp add: mounted_def)
    moreover have "fst (recover_orphan_inodes C rsb ?ck m ?d) = oi_list (cps_orphans S)" using PJ(2) by (simp add: R(8))
    ultimately show ?thesis using LG by (simp add: log_at_def)
  qed
  then show ?thesis using R(1,6,15,16,17) CK(1,2,19) by (intro that [of S' ws ds]) (simp_all add: R(7))
qed

text \<open>A pack that was written to the end is the one that the mount finds.\<close>

lemma torn_all:
  assumes "map fst ws = [b..<b + t]"
  shows "torn UNIV ws disk = put_blocks ws disk"
proof
  fix x
  have len: "length ws = t" using assms by (metis diff_add_inverse length_map length_upt)
  then have p: "put_blocks ws disk x = (if b \<le> x \<and> x < b + t then snd (ws ! (x - b)) else disk x)"
    using put_blocks_take [OF assms, of t disk x] by simp
  have "map_of ws x = (if b \<le> x \<and> x < b + t then Some (snd (ws ! (x - b))) else None)"
  proof (cases "b \<le> x \<and> x < b + t")
    case True
    then have i: "x - b < length ws" using len by linarith
    have "fst (ws ! (x - b)) = x" using arg_cong [OF assms, of "\<lambda>l. l ! (x - b)"] i True len by simp
    then have "(x, snd (ws ! (x - b))) \<in> set ws" using nth_mem [OF i] by (metis prod.collapse)
    moreover have "distinct (map fst ws)" unfolding assms by simp
    ultimately show ?thesis using True by simp
  next
    case False
    then have "x \<notin> fst ` set ws" unfolding set_map [symmetric] assms by auto
    then have "map_of ws x = None" by (simp add: map_of_eq_None_iff)
    then show ?thesis by (simp only: False if_False)
  qed
  then show "torn UNIV ws disk x = put_blocks ws disk x" by (simp add: torn_def p)
qed

lemma checkpoint_found:
  assumes rb: "reads_back C" and ar: "cp_area rsb sbi" and old: "committed C rsb sbi disk old"
    and new: "cp_ok C new" "cb_version new = u64 (cb_version old + 1)" and pk: "pack_at rsb sbi new ws"
  shows "get_valid_checkpoint C rsb (put_blocks ws disk) = Inr new"
proof -
  have "map fst ws = [start_cp_addr rsb (cb_ckpt new) sbi..<start_cp_addr rsb (cb_ckpt new) sbi + cb_total new]"
    using pk by (simp add: pack_at_def Let_def)
  from pack_atomic [OF assms(1-3) _ assms(4-6), of UNIV] show ?thesis by (simp add: torn_all [OF \<open>map fst ws = _\<close>])
qed

end
