(* ===== verification/Cp_Checksum.thy ===== *)
theory Cp_Checksum
  imports Checkpoint
begin

text \<open>
  What the checksum of a checkpoint block detects: every change that is confined to four bytes in a row, wherever
  they are among the bytes that it covers and the four of the stored checksum itself.  One step of \<open>f2fs_crc32\<close> can be undone, and the bytes of a burst go into different bits.
\<close>

unbundle bit_operations_syntax

lemma bit_crc_shift:
  "bit (crc_shift x) i \<longleftrightarrow> i < 32 \<and> (bit x (Suc i) \<noteq> (bit x 0 \<and> bit CRCPOLY_LE i))"
proof (cases "i < 32")
  case True
  have "x AND 1 \<noteq> 0 \<longleftrightarrow> bit x 0" by (simp add: and_one_eq odd_iff_mod_2_eq_one bit_0)
  then show ?thesis using True by (auto simp: crc_shift_def bit_xor_iff bit_drop_bit_eq)
qed (auto dest: bit_imp_le_length)

lemma crc_shift_inj:
  assumes "crc_shift x = crc_shift y"
  shows "x = y"
proof (rule bit_word_eqI)
  have b: "bit (crc_shift x) i = bit (crc_shift y) i" for i by (simp add: assms)
  have top: "bit CRCPOLY_LE 31" by (simp add: CRCPOLY_LE_def)
  have z: "\<not> bit x 32" "\<not> bit y 32" by (simp_all add: impossible_bit)
  have low: "bit x 0 = bit y 0" using b [of 31] top z by (auto simp: bit_crc_shift)
  fix i assume "i < LENGTH(32)"
  then show "bit x i = bit y i" using low b [of "i - 1"] by (cases i) (auto simp: bit_crc_shift)
qed

lemma crc_shifts_inj: "(crc_shift ^^ n) x = (crc_shift ^^ n) y \<Longrightarrow> x = y"
  by (induction n) (auto dest: crc_shift_inj)

lemma xor_cancel: "x XOR b = y XOR b \<longleftrightarrow> x = y" "b XOR x = b XOR y \<longleftrightarrow> x = y" for x y b :: "32 word"
  by (auto simp: bit_eq_iff bit_xor_iff)

lemma crc_byte_inj: "crc_byte b x = crc_byte b y \<Longrightarrow> x = y"
  unfolding crc_byte_def by (drule crc_shifts_inj) (simp only: xor_cancel)

lemma crc_fold_inj: "fold crc_byte bs x = fold crc_byte bs y \<Longrightarrow> x = y"
  by (induction bs arbitrary: x y) (auto dest: crc_byte_inj)

lemma crc_shift_xor:
  assumes "\<not> bit d 31"
  shows "crc_shift (c XOR push_bit 1 d) = crc_shift c XOR d"
proof (rule bit_word_eqI)
  define e where "e = push_bit 1 d"
  have g: "bit (push_bit n d) i \<longleftrightarrow> n \<le> i \<and> i < 32 \<and> bit d (i - n)" for n i by (simp add: bit_push_bit_iff)
  have e: "\<not> bit e 0" "bit e (Suc i) \<longleftrightarrow> Suc i < 32 \<and> bit d i" for i unfolding e_def g by auto
  fix i assume "i < LENGTH(32)"
  then have i: "i < 32" "\<not> bit d i \<or> Suc i < 32" using assms by (cases "i = 31"; simp)+
  have p: "(A \<noteq> D) \<noteq> Z \<longleftrightarrow> (A \<noteq> Z) \<noteq> D" for A D Z by blast
  show "bit (crc_shift (c XOR push_bit 1 d)) i = bit (crc_shift c XOR d) i"
    unfolding e_def [symmetric] bit_crc_shift bit_xor_iff e(2) using i e(1) by (simp add: p) blast
qed

lemma crc_shifts_xor:
  "(\<And>i. 32 - n \<le> i \<Longrightarrow> \<not> bit d i) \<Longrightarrow> n \<le> 32 \<Longrightarrow> (crc_shift ^^ n) (c XOR push_bit n d) = (crc_shift ^^ n) c XOR d"
proof (induction n arbitrary: c)
  case (Suc n)
  have "(crc_shift ^^ Suc n) (c XOR push_bit (Suc n) d) = (crc_shift ^^ n) (crc_shift (c XOR push_bit 1 (push_bit n d)))"
    by (simp only: funpow_Suc_right comp_apply push_bit_push_bit) simp
  also have "crc_shift (c XOR push_bit 1 (push_bit n d)) = crc_shift c XOR push_bit n d"
    using Suc.prems by (intro crc_shift_xor) (auto simp: bit_push_bit_iff)
  also have "(crc_shift ^^ n) (crc_shift c XOR push_bit n d) = (crc_shift ^^ Suc n) c XOR d"
    using Suc by (simp only: funpow_Suc_right comp_apply) (simp add: Suc.IH)
  finally show ?case .
qed simp

fun le_word :: "8 word list \<Rightarrow> 32 word" where
  "le_word [] = 0"
| "le_word (b # bs) = ucast b XOR push_bit 8 (le_word bs)"

lemma bit_le_word: "bit (le_word bs) i \<Longrightarrow> i < 8 * length bs"
proof (induction bs arbitrary: i)
  case (Cons b bs)
  then have "bit b i \<or> 8 \<le> i \<and> bit (le_word bs) (i - 8)" by (auto simp: bit_xor_iff bit_push_bit_iff bit_ucast_iff)
  then show ?case using Cons.IH [of "i - 8"] bit_imp_le_length [of b i] by auto
qed simp

lemma le_word_inj: "length bs = length cs \<Longrightarrow> length bs \<le> 4 \<Longrightarrow> le_word bs = le_word cs \<Longrightarrow> bs = cs"
proof (induction bs cs rule: list_induct2)
  case (Cons b bs c cs)
  have e: "bit (le_word (b # bs)) i = bit (le_word (c # cs)) i" for i using Cons.prems by simp
  have "b = c"
  proof (rule bit_word_eqI)
    fix i assume "i < LENGTH(8)"
    then show "bit b i = bit c i" using e [of i] by (simp add: bit_xor_iff bit_push_bit_iff bit_ucast_iff)
  qed
  moreover have "le_word bs = le_word cs"
  proof (rule bit_word_eqI)
    fix i assume "i < LENGTH(32)"
    show "bit (le_word bs) i = bit (le_word cs) i"
    proof (cases "i < 24")
      case True
      then show ?thesis using e [of "i + 8"] by (auto simp: bit_xor_iff bit_push_bit_iff bit_ucast_iff impossible_bit dest: bit_imp_le_length)
    next
      case False
      then show ?thesis using Cons.prems(1) Cons.hyps bit_le_word [of bs i] bit_le_word [of cs i] by auto
    qed
  qed
  ultimately show ?case using Cons by simp
qed simp

lemma crc_burst: "length bs \<le> 4 \<Longrightarrow> fold crc_byte bs c = (crc_shift ^^ (8 * length bs)) (c XOR le_word bs)"
proof (induction bs arbitrary: c)
  case (Cons b bs)
  have nb: "\<not> bit (le_word bs) i" if "32 - 8 \<le> i" for i using that Cons.prems bit_le_word [of bs i] by auto
  have "fold crc_byte (b # bs) c = (crc_shift ^^ (8 * length bs)) ((crc_shift ^^ 8) (c XOR ucast b) XOR le_word bs)"
    using Cons by (simp add: crc_byte_def [of b c])
  also have "(crc_shift ^^ 8) (c XOR ucast b) XOR le_word bs = (crc_shift ^^ 8) (c XOR ucast b XOR push_bit 8 (le_word bs))"
    using crc_shifts_xor [of 8 "le_word bs" "c XOR ucast b"] nb by (simp add: xor.assoc)
  also have "c XOR ucast b XOR push_bit 8 (le_word bs) = c XOR le_word (b # bs)" by (simp add: xor.assoc)
  also have "(crc_shift ^^ (8 * length bs)) ((crc_shift ^^ 8) (c XOR le_word (b # bs))) = (crc_shift ^^ (8 * length (b # bs))) (c XOR le_word (b # bs))"
  proof -
    have "8 * length (b # bs) = 8 * length bs + 8" by simp
    then show ?thesis by (simp only: funpow_add comp_apply)
  qed
  finally show ?case .
qed simp

lemma crc_detects_burst:
  assumes "length xs = length ys" and "length xs \<le> 4" and "f2fs_crc32 m (p @ xs @ s) = f2fs_crc32 m (p @ ys @ s)"
  shows "xs = ys"
proof -
  have "fold crc_byte s (fold crc_byte xs (fold crc_byte p m)) = fold crc_byte s (fold crc_byte ys (fold crc_byte p m))"
    using assms(3) by (simp add: f2fs_crc32_def)
  then have e: "fold crc_byte xs (fold crc_byte p m) = fold crc_byte ys (fold crc_byte p m)" by (rule crc_fold_inj)
  have l: "length ys \<le> 4" using assms(1,2) by simp
  have "fold crc_byte p m XOR le_word xs = fold crc_byte p m XOR le_word ys"
    by (rule crc_shifts_inj [OF e [unfolded crc_burst [OF assms(2)] crc_burst [OF l] assms(1)]])
  then have "le_word xs = le_word ys" by (simp only: xor_cancel)
  then show ?thesis using le_word_inj [OF assms(1,2)] by blast
qed

text \<open>The stored checksum is right exactly when the checksum of the bytes together with the stored one is zero.\<close>

lemma crc_shifts_zero: "(crc_shift ^^ n) x = 0 \<longleftrightarrow> x = 0"
proof -
  have z: "crc_shift 0 = 0" by (simp add: crc_shift_def)
  have "(crc_shift ^^ n) 0 = 0" by (induction n) (simp_all add: z)
  then show ?thesis using crc_shifts_inj [of n x 0] by auto
qed

lemma crc_stored:
  assumes "length bs = 4"
  shows "f2fs_crc32 m (xs @ bs) = 0 \<longleftrightarrow> f2fs_crc32 m xs = le_word bs"
proof -
  have "f2fs_crc32 m (xs @ bs) = (crc_shift ^^ (8 * length bs)) (f2fs_crc32 m xs XOR le_word bs)"
    unfolding f2fs_crc32_def fold_append comp_apply by (rule crc_burst) (simp add: assms)
  then have "f2fs_crc32 m (xs @ bs) = 0 \<longleftrightarrow> f2fs_crc32 m xs XOR le_word bs = 0" by (simp only: crc_shifts_zero)
  also have "\<dots> \<longleftrightarrow> f2fs_crc32 m xs XOR le_word bs = le_word bs XOR le_word bs" by simp
  finally show ?thesis by (simp only: xor_cancel)
qed

text \<open>The bytes of the stored checksum.\<close>

definition crc_bytes :: "32 word \<Rightarrow> 8 word list" where
  "crc_bytes crc = [ucast crc, ucast (drop_bit 8 crc), ucast (drop_bit 16 crc), ucast (drop_bit 24 crc)]"

lemma crc_bytes_read: "length (crc_bytes crc) = 4" "le_word (crc_bytes crc) = crc"
proof -
  show "le_word (crc_bytes crc) = crc"
  proof (rule bit_word_eqI)
    fix i assume "i < LENGTH(32)"
    then show "bit (le_word (crc_bytes crc)) i = bit crc i"
      by (cases "i < 8"; cases "i < 16"; cases "i < 24")
        (simp_all add: crc_bytes_def bit_xor_iff bit_push_bit_iff bit_ucast_iff bit_drop_bit_eq, auto)
  qed
qed (simp add: crc_bytes_def)

lemma crc_bytes_detect:
  assumes "f2fs_crc32 m data = crc" "f2fs_crc32 m data' = crc'" and "data @ crc_bytes crc = p @ xs @ s" "data' @ crc_bytes crc' = p @ ys @ s"
    and "length xs = length ys" "length xs \<le> 4"
  shows "xs = ys"
proof -
  have "f2fs_crc32 m (data @ crc_bytes crc) = 0" "f2fs_crc32 m (data' @ crc_bytes crc') = 0"
    using assms(1,2) by (simp_all only: crc_stored [OF crc_bytes_read(1)] crc_bytes_read(2))
  then have "f2fs_crc32 m (p @ xs @ s) = f2fs_crc32 m (p @ ys @ s)" unfolding assms(3,4) by simp
  then show ?thesis by (rule crc_detects_burst [OF assms(5,6)])
qed

end
