(* ===== verification/Curseg_Move.thy ===== *)
theory Curseg_Move
  imports Curseg_Inv
begin

text \<open>
  The two ways a log moves: to a free segment (\<open>new_curseg\<close>) and to a dirty segment with
  holes (\<open>change_curseg\<close>).  Both keep \<open>fs_ok\<close> and give the log space again.
\<close>

section \<open>What stays\<close>

definition same_layout :: "f2fs_env \<Rightarrow> f2fs_sb_info \<Rightarrow> f2fs_sb_info \<Rightarrow> bool" where
  "same_layout E a b \<longleftrightarrow> TOTAL_SEGS b = TOTAL_SEGS a \<and> TOTAL_SECS b = TOTAL_SECS a
     \<and> sbi_blocks_per_seg b = sbi_blocks_per_seg a \<and> sbi_segs_per_sec b = sbi_segs_per_sec a
     \<and> GET_SEGNO E b = GET_SEGNO E a \<and> main_addr b = main_addr a"

lemma same_layout_refl [simp]: "same_layout E a a"
  by (simp add: same_layout_def)

lemma same_layout_trans [trans]: "same_layout E a b \<Longrightarrow> same_layout E b c \<Longrightarrow> same_layout E a c"
  by (simp add: same_layout_def)

lemma same_layout_simps [simp]:
  "same_layout E a (set_CURSEG_I t c a)" "same_layout E a (write_sum_page a s b)"
  by (simp_all add: same_layout_def)

lemma same_layout_frames:
  "sit_frame a b \<Longrightarrow> same_layout E a b" "dirty_frame a b \<Longrightarrow> same_layout E a b"
  by (simp_all add: same_layout_def sit_frameD dirty_frameD)

lemma same_layout_inuse [simp]: "same_layout E a (set_inuse a s)" "same_layout E a (set_test_and_inuse a s)"
proof -
  have "same_layout E a b" if "free_frame a b" for b
  proof -
    have "sm_seg0_blkaddr (SM_I b) = sm_seg0_blkaddr (SM_I a)" "sbi_blocks_per_seg b = sbi_blocks_per_seg a"
      "fsm_start_segno (FREE_I b) = fsm_start_segno (FREE_I a)"
      using that unfolding free_frame_def by (metis set_FREE_I_frame)+
    then show ?thesis using free_frameD [OF that] by (simp add: same_layout_def main_addr_def fun_eq_iff)
  qed
  then show "same_layout E a (set_inuse a s)" "same_layout E a (set_test_and_inuse a s)" by simp_all
qed

section \<open>Each part of the invariant\<close>

lemma fs_ok_mono: "fs_ok E a X \<Longrightarrow> X \<subseteq> Y \<Longrightarrow> fs_ok E a Y"
  by (auto simp: fs_ok_def logs_ok_def)

lemma fs_ok_type: "fs_ok E a X \<Longrightarrow> t < NR_CURSEG_TYPE \<Longrightarrow> t < length (sm_curseg_array (SM_I a))"
  using logs_okD(1) [OF fs_okD(4)] by simp

text \<open>Changing a log in place, its segment kept.\<close>

lemma fs_ok_set_curseg:
  assumes ok: "fs_ok E a X" and t: "t < NR_CURSEG_TYPE" and c: "cs_segno c = log_seg a t"
    and space: "t \<notin> Y \<Longrightarrow> log_space a c" and "X \<subseteq> Y \<union> {t}"
  shows "fs_ok E (set_CURSEG_I t c a) Y"
proof -
  note L = logs_okD [OF fs_okD(4) [OF ok]]
  let ?b = "set_CURSEG_I t c a"
  have seg: "log_seg ?b i = log_seg a i" for i using c L(1) t by (simp add: log_seg_def CURSEG_I_set)
  have sp: "log_space ?b d = log_space a d" for d by (simp add: log_space_def)
  have "log_space ?b (CURSEG_I ?b i)" if "i < NR_CURSEG_TYPE" "i \<notin> Y" for i
    using that L(1) L(4) [of i] t space assms(5) unfolding sp by (cases "i = t") (auto simp: CURSEG_I_set)
  then have "logs_ok ?b Y" using L seg by (simp add: logs_ok_def)
  moreover have "free_empty ?b" using fs_okD(5) [OF ok] by (simp add: free_empty_def)
  ultimately show ?thesis using ok by (simp add: fs_ok_def)
qed

text \<open>Marking a segment as in use.\<close>

lemma fs_ok_inuse:
  assumes ok: "fs_ok E a X" and "s < TOTAL_SEGS a"
  shows "fs_ok E (set_test_and_inuse a s) X" "live (set_test_and_inuse a s) = live a"
proof -
  let ?b = "set_test_and_inuse a s"
  have "free_frame a ?b" by simp
  note F = free_frameD [OF this]
  obtain f where "?b = set_FREE_I f a" "sbi_blocks_per_seg ?b = sbi_blocks_per_seg a"
    "sm_curseg_array (SM_I ?b) = sm_curseg_array (SM_I a)"
    using \<open>free_frame a ?b\<close> unfolding free_frame_def by (metis set_FREE_I_frame)
  note B = this(2,3)
  have g: "get_seg_entry ?b = get_seg_entry a" by (simp add: get_seg_entry_def F fun_eq_iff)
  show l: "live ?b = live a" by (rule live_cong [OF g])
  have so: "sit_ok E ?b = sit_ok E a" by (rule sit_ok_cong) (simp_all add: F B)
  have ty: "types_ok ?b = types_ok a" by (simp add: types_ok_def F g)
  have dk: "dirty_ok ?b = dirty_ok a" by (rule dirty_ok_cong) (simp_all add: F ty)
  have "logs_ok ?b X" using fs_okD(4) [OF ok] by (simp add: logs_ok_def log_space_def log_seg_def F B l)
  moreover have "free_empty ?b" using fs_okD(5) [OF ok] by (simp add: free_empty_def F vblocks_cong [OF g])
  ultimately show "fs_ok E ?b X"
    using ok set_test_and_inuse_ok [OF fs_okD(2) [OF ok] assms(2)] by (simp add: fs_ok_def so dk B)
qed

text \<open>Changing the dirty lists.\<close>

lemma fs_ok_dirty:
  assumes ok: "fs_ok E a X" and fr: "dirty_frame a b" and dk: "dirty_ok b"
  shows "fs_ok E b X" "live b = live a" "seg_inuse b = seg_inuse a" "log_seg b = log_seg a" "free_section b = free_section a"
proof -
  note F = dirty_frameD [OF fr]
  have g: "get_seg_entry b = get_seg_entry a" by (simp add: get_seg_entry_def F fun_eq_iff)
  show l: "live b = live a" by (rule live_cong [OF g])
  have so: "sit_ok E b = sit_ok E a" by (rule sit_ok_cong) (simp_all add: F)
  show si: "seg_inuse b = seg_inuse a" by (simp add: seg_inuse_def F fun_eq_iff)
  show ls: "log_seg b = log_seg a" by (simp add: log_seg_def F fun_eq_iff)
  show "free_section b = free_section a" by (simp add: free_section_def F fun_eq_iff)
  have fo: "free_ok b = free_ok a" by (rule free_ok_cong) (simp_all add: F)
  have "logs_ok b X = logs_ok a X" by (simp add: logs_ok_def log_space_def F l si ls)
  moreover have "free_empty b = free_empty a" by (simp add: free_empty_def F si vblocks_cong [OF g])
  ultimately show "fs_ok E b X" using ok dk by (simp add: fs_ok_def so fo F)
qed

section \<open>Entering a segment\<close>

lemma reset_log:
  assumes ok: "fs_ok E a {t}" and t: "t < NR_CURSEG_TYPE" and v: "cs_next_segno (CURSEG_I a t) = v" "v < TOTAL_SEGS a"
    and inuse: "seg_inuse a v" and other: "\<forall>i<NR_CURSEG_TYPE. i \<noteq> t \<longrightarrow> log_seg a i \<noteq> v"
  shows "cs_segno c = v \<Longrightarrow> log_space a c \<Longrightarrow> fs_ok E (set_CURSEG_I t c (reset_curseg E a t True)) {}"
    "live (reset_curseg E a t True) = live a" "same_layout E a (reset_curseg E a t True)"
    "cs_segno (CURSEG_I (reset_curseg E a t True) t) = v" "cs_next_blkoff (CURSEG_I (reset_curseg E a t True) t) = 0"
    "\<And>i. se_ckpt_valid_map (get_seg_entry (reset_curseg E a t True) i) = se_ckpt_valid_map (get_seg_entry a i)"
    "free_section (reset_curseg E a t True) = free_section a"
proof -
  obtain d where d: "reset_curseg E a t True = set_sit_entry_type (set_CURSEG_I t d a) t v True" "cs_segno d = v" "cs_next_blkoff d = 0"
    using reset_curseg_eq [OF refl, of E a t] v(1) by simp
  let ?a = "set_CURSEG_I t d a" and ?r = "reset_curseg E a t True"
  let ?b = "set_CURSEG_I t c ?r"
  have len: "t < length (sm_curseg_array (SM_I a))" by (rule fs_ok_type [OF ok t])
  have "sit_ok E ?a" "v < TOTAL_SEGS ?a" using fs_okD(1) [OF ok] v(2) by simp_all
  note S = set_sit_entry_type_ok [OF this, of t, folded d(1)]
  note F = sit_frameD [OF S(2)]
  show l: "live ?r = live a" using S(3) by simp
  show "same_layout E a ?r" using same_layout_trans [OF same_layout_simps(1) same_layout_frames(1) [OF S(2)]] .
  show "cs_segno (CURSEG_I ?r t) = v" "cs_next_blkoff (CURSEG_I ?r t) = 0"
    unfolding F(7) using d(2,3) len by (simp_all add: CURSEG_I_set)
  show "se_ckpt_valid_map (get_seg_entry ?r i) = se_ckpt_valid_map (get_seg_entry a i)" for i using S(5) by simp
  show "free_section ?r = free_section a" by (simp add: free_section_def F fun_eq_iff)
  have inu: "seg_inuse ?b = seg_inuse a" by (simp add: seg_inuse_def F fun_eq_iff)
  have C: "CURSEG_I ?b i = (if i = t then c else CURSEG_I a i)" for i using len by (simp add: CURSEG_I_set F)
  have "logs_ok ?b {}" if c: "cs_segno c = v" "log_space a c"
  proof (rule logs_ok_move [OF fs_okD(4) [OF ok] subset_refl t])
    show "length (sm_curseg_array (SM_I ?b)) = NR_CURSEG_TYPE" using logs_okD(1) [OF fs_okD(4) [OF ok]] by (simp add: F)
    show "log_seg ?b t < TOTAL_SEGS a" "seg_inuse ?b (log_seg ?b t)"
      using c v inuse unfolding inu by (simp_all add: log_seg_def C)
    show "log_space ?b (CURSEG_I ?b t)" using c(2) by (simp add: C log_space_def F l)
    show "log_seg a i \<noteq> log_seg ?b t" if "i < NR_CURSEG_TYPE" "i \<noteq> t" for i using other that c(1) by (simp add: log_seg_def C)
  qed (simp_all add: C F l inu del: set_CURSEG_preds(4))
  moreover have "dirty_ok ?b"
  proof -
    have "types_ok ?r" using fs_okD(3) [OF ok] S(6) t by (auto simp: dirty_ok_def types_ok_def F u8_id curseg_types)
    then have "dirty_ok ?r" using fs_okD(3) [OF ok] by (simp add: dirty_ok_def F)
    then show ?thesis by simp
  qed
  moreover have "free_ok ?b = free_ok a" by (rule free_ok_cong) (simp_all add: F)
  moreover have "free_empty ?b" using fs_okD(5) [OF ok] S(4) unfolding free_empty_def inu by (simp add: F)
  ultimately show "cs_segno c = v \<Longrightarrow> log_space a c \<Longrightarrow> fs_ok E ?b {}" using ok S(1) by (simp add: fs_ok_def F)
qed

section \<open>A free segment\<close>

lemma new_curseg_ok:
  assumes K: "kernel_ok E" and ok: "fs_ok E sbi {t}" and t: "t < NR_CURSEG_TYPE" and free: "free_section sbi s"
  shows "\<exists>sbi'. new_curseg E sbi t new_sec = Some sbi' \<and> fs_ok E sbi' {} \<and> live sbi' = live sbi \<and> same_layout E sbi sbi'
    \<and> \<not> seg_inuse sbi (log_seg sbi' t)"
proof -
  note L = logs_okD [OF fs_okD(4) [OF ok]]
  define s1 where "s1 = write_sum_page sbi (cs_sum_blk (CURSEG_I sbi t)) (GET_SUM_BLOCK sbi (log_seg sbi t))"
  define dir where "dir = (if sbi_opt_noheap s1 then ALLOC_RIGHT
     else if t = CURSEG_WARM_DATA \<or> t = CURSEG_COLD_DATA then ALLOC_RIGHT else ALLOC_LEFT)"
  have ok1: "fs_ok E s1 {t}" and l1: "same_layout E sbi s1" using ok by (simp_all add: s1_def)
  have "free_section s1 s" using free by (simp add: s1_def free_section_def)
  moreover have "log_seg sbi t < TOTAL_SEGS s1" "0 < sbi_secs_per_zone s1"
    using L(2) [OF t] geometryD(4) [OF fs_okD(8) [OF ok]] by (simp_all add: s1_def)
  ultimately obtain v where v: "get_new_segment E s1 (log_seg sbi t) new_sec dir = Some (v, set_inuse s1 v)"
    "v < TOTAL_SEGS s1" "\<not> seg_inuse s1 v"
    using get_new_segment_free [OF K fs_okD(2) [OF ok1]] by blast
  have e2: "set_inuse s1 v = set_test_and_inuse s1 v" using v(3) by (simp add: set_test_and_inuse_eq)
  define s2 where "s2 = set_inuse s1 v"
  have ok2: "fs_ok E s2 {t}" and l2: "same_layout E s1 s2" and live2: "live s2 = live sbi"
    using fs_ok_inuse [OF ok1 v(2)] by (simp_all add: s2_def e2) (simp add: s1_def)
  have in2: "seg_inuse s2 i \<longleftrightarrow> i = v \<or> seg_inuse sbi i" for i by (simp add: s2_def) (simp add: s1_def)
  have seg2: "log_seg s2 i = log_seg sbi i" for i
    by (simp add: s2_def log_seg_def free_frameD(7) [OF free_ops_frame(1)]) (simp add: s1_def)
  let ?c = "(CURSEG_I s2 t)\<lparr>cs_next_segno := v\<rparr>"
  define s3 where "s3 = set_CURSEG_I t ?c s2"
  have ok3: "fs_ok E s3 {t}" unfolding s3_def
    by (rule fs_ok_set_curseg [OF ok2 t]) (simp_all add: log_seg_def)
  have len: "t < length (sm_curseg_array (SM_I s2))" by (rule fs_ok_type [OF ok2 t])
  have l3: "same_layout E sbi s3" unfolding s3_def using same_layout_trans [OF same_layout_trans [OF l1 l2]] by simp
  have v': "v < TOTAL_SEGS sbi" "\<not> seg_inuse sbi v" using v(2,3) by (simp_all add: s1_def)
  have v3: "cs_next_segno (CURSEG_I s3 t) = v" "v < TOTAL_SEGS s3" "seg_inuse s3 v"
    using v' l3 len by (simp_all add: s3_def CURSEG_I_set in2 same_layout_def)
  have other: "\<forall>i<NR_CURSEG_TYPE. i \<noteq> t \<longrightarrow> log_seg s3 i \<noteq> v"
    using L(3) v'(2) seg2 by (auto simp: s3_def log_seg_def CURSEG_I_set)
  define r where "r = reset_curseg E s3 t True"
  note R = reset_log [OF ok3 t v3 other, folded r_def]
  let ?d = "(CURSEG_I r t)\<lparr>cs_alloc_type := LFS\<rparr>"
  have "vblocks sbi v = 0" using fs_okD(5) [OF ok] v' by (simp add: free_empty_def)
  then have dead: "\<not> live sbi v b" if "b < sbi_blocks_per_seg sbi" for b
    by (rule vblocks_0_live [OF fs_okD(1) [OF ok] v'(1) _ that])
  have sp: "log_space s3 (CURSEG_I s3 t\<lparr>cs_segno := v, cs_next_blkoff := 0, cs_alloc_type := LFS\<rparr>)"
    using dead geometryD(2) [OF fs_okD(8) [OF ok]] l3 live2 by (simp add: log_space_def same_layout_def s3_def)
  have sp': "log_space s3 ?d" using sp R(4,5) by (simp add: log_space_def)
  have "new_curseg E sbi t new_sec = Some (set_CURSEG_I t ?d r)"
    unfolding new_curseg_def Let_def log_seg_def [symmetric] s1_def [symmetric] dir_def [symmetric] v(1)
    by (simp add: s2_def [symmetric] s3_def [symmetric] r_def [symmetric])
  moreover have okr: "fs_ok E (set_CURSEG_I t ?d r) {}" by (rule R(1) [OF _ sp']) (simp add: R(4))
  moreover have "live (set_CURSEG_I t ?d r) = live sbi" using R(2) live2 by (simp add: s3_def)
  moreover have "log_seg (set_CURSEG_I t ?d r) t = v"
    using R(4) fs_ok_type [OF okr t] by (simp add: log_seg_def CURSEG_I_set)
  moreover have "same_layout E sbi (set_CURSEG_I t ?d r)"
    using same_layout_trans [OF l3 same_layout_trans [OF R(3) same_layout_simps(1)]] .
  ultimately show ?thesis using v'(2) by simp
qed

section \<open>A dirty segment\<close>

lemma rev_bit_target:
  assumes "seg_ok E bps se" and "8 dvd SIT_VBLOCK_MAP_SIZE E" and i: "i < 8 * SIT_VBLOCK_MAP_SIZE E"
  shows "rev_bit (target_map E se) i \<longleftrightarrow> bits_of (se_cur_valid_map se) i \<or> bits_of (se_ckpt_valid_map se) i"
proof -
  have l: "length (se_cur_valid_map se) = SIT_VBLOCK_MAP_SIZE E" "length (se_ckpt_valid_map se) = SIT_VBLOCK_MAP_SIZE E"
    using assms(1) by (auto simp: seg_ok_def)
  have "8 * (SIT_VBLOCK_MAP_SIZE E div 8) = SIT_VBLOCK_MAP_SIZE E" using assms(2) by simp
  then have "i div 64 < SIT_VBLOCK_MAP_SIZE E div 8" using i by (simp add: less_mult_imp_div_less)
  then have "rev_bit (target_map E se) i \<longleftrightarrow> rev_bit (longs (se_cur_valid_map se)) i \<or> rev_bit (longs (se_ckpt_valid_map se)) i"
    by (auto simp: rev_bit_def target_map_def bit_or_iff)
  then show ?thesis using l i assms(2) by (simp add: rev_bit_longs bits_of_def)
qed

lemma count_bits_hole: "count_bits n P < n \<Longrightarrow> \<exists>i<n. \<not> P i"
  using count_bits_run [of 0 n P True] by auto

text \<open>The next block of an SSR log: the first one from \<open>start\<close> that neither the current state nor the
  checkpoint uses.\<close>

definition ssr_free :: "f2fs_sb_info \<Rightarrow> nat \<Rightarrow> nat \<Rightarrow> bool" where
  "ssr_free sbi s i \<longleftrightarrow> \<not> live sbi s i \<and> \<not> bits_of (se_ckpt_valid_map (get_seg_entry sbi s)) i"

lemma next_free_blkoff_eq:
  assumes ok: "sit_ok E sbi" and dvd: "8 dvd sbi_blocks_per_seg sbi" "8 dvd SIT_VBLOCK_MAP_SIZE E"
    and seg: "cs_segno c < TOTAL_SEGS sbi"
  shows "next_free_blkoff E sbi c start =
    c\<lparr>cs_next_blkoff := scan (ssr_free sbi (cs_segno c)) (sbi_blocks_per_seg sbi) start\<rparr>"
proof -
  note S = sit_okD [OF ok]
  let ?n = "sbi_blocks_per_seg sbi" and ?se = "get_seg_entry sbi (cs_segno c)"
  have e: "\<not> rev_bit (target_map E ?se) i \<longleftrightarrow> ssr_free sbi (cs_segno c) i" if "i < ?n" for i
    using rev_bit_target [OF S(6) [OF seg] dvd(2), of i] that S(3) by (simp add: ssr_free_def live_def)
  have "scan (\<lambda>i. \<not> rev_bit (target_map E ?se) i) ?n start = scan (ssr_free sbi (cs_segno c)) ?n start"
    by (rule scan_cong) (use e in simp)
  moreover have "scan (ssr_free sbi (cs_segno c)) ?n start < 2 ^ 16"
    using scan_le [of "ssr_free sbi (cs_segno c)" ?n start] S(4) by linarith
  ultimately show ?thesis
    by (simp add: next_free_blkoff_def find_rev_next_zero_bit_scan [OF dvd(1)] u16_id)
qed

lemma change_curseg_ok:
  assumes ok: "fs_ok E sbi {t}" and t: "t < NR_CURSEG_TYPE" and v: "cs_next_segno (CURSEG_I sbi t) = v" "v < TOTAL_SEGS sbi"
    and other: "\<not> IS_CURSEG sbi v" and holes: "se_ckpt_valid_blocks (get_seg_entry sbi v) < sbi_blocks_per_seg sbi"
  shows "fs_ok E (change_curseg E sbi t reuse) {} \<and> live (change_curseg E sbi t reuse) = live sbi
    \<and> same_layout E sbi (change_curseg E sbi t reuse) \<and> log_seg (change_curseg E sbi t reuse) t = v
    \<and> ssr_free sbi v (cs_next_blkoff (CURSEG_I (change_curseg E sbi t reuse) t))"
proof -
  define s1 where "s1 = write_sum_page sbi (cs_sum_blk (CURSEG_I sbi t)) (GET_SUM_BLOCK sbi (log_seg sbi t))"
  have ok1: "fs_ok E s1 {t}" and v1: "v < TOTAL_SEGS s1" using ok v by (simp_all add: s1_def)
  define s2 where "s2 = set_test_and_inuse s1 v"
  have l2: "same_layout E s1 s2" by (simp add: s2_def)
  have v2: "v < TOTAL_SEGS s2" using v1 l2 by (simp add: same_layout_def)
  note ok2 = fs_ok_inuse [OF ok1 v1, folded s2_def]
  define s3 where "s3 = do_remove_dirty_segment s2 v PRE"
  define s4 where "s4 = do_remove_dirty_segment s3 v DIRTY"
  have fr3: "dirty_frame s2 s3" and fr4: "dirty_frame s3 s4" by (simp_all add: s3_def s4_def)
  have d3: "dirty_ok s3" unfolding s3_def by (rule do_remove_ok [OF fs_okD(3) [OF ok2(1)] v2]) (simp add: dirty_types)
  have v3: "v < TOTAL_SEGS s3" using v2 by (simp add: dirty_frameD [OF fr3])
  have d4: "dirty_ok s4" unfolding s4_def by (rule do_remove_ok [OF d3 v3]) (simp add: dirty_types)
  have fr: "dirty_frame s2 s4" by (rule dirty_frame_trans [OF fr3 fr4])
  note ok4 = fs_ok_dirty [OF ok2(1) fr d4] and F4 = dirty_frameD [OF fr]
  have F2: "CURSEG_I s2 = CURSEG_I sbi" "SIT_I s2 = SIT_I sbi"
    using free_frameD [OF free_ops_frame(3) [of s1 v]] by (simp_all add: s2_def s1_def)
  have lay: "same_layout E sbi s4"
    using same_layout_trans [OF _ same_layout_trans [OF l2 same_layout_frames(2) [OF fr]]] by (simp add: s1_def)
  have C4: "CURSEG_I s4 = CURSEG_I sbi" "cs_next_segno (CURSEG_I s4 t) = v" "v < TOTAL_SEGS s4" "seg_inuse s4 v"
    using v lay F2(1) ok4(3) by (simp_all add: F4 s2_def same_layout_def)
  have live4: "live s4 = live sbi" using ok4(2) ok2(2) by (simp add: s1_def)
  have g4: "get_seg_entry s4 = get_seg_entry sbi" by (simp add: get_seg_entry_def F4 F2 fun_eq_iff)
  have "\<forall>i<NR_CURSEG_TYPE. i \<noteq> t \<longrightarrow> log_seg s4 i \<noteq> v" using other by (auto simp: IS_CURSEG_iff log_seg_def C4)
  note R = reset_log [OF ok4(1) t C4(2-4) this]
  define r where "r = reset_curseg E s4 t True"
  let ?c = "(CURSEG_I r t)\<lparr>cs_alloc_type := SSR\<rparr>" and ?n = "sbi_blocks_per_seg sbi"
  define pos where "pos = scan (ssr_free sbi v) ?n 0"
  have live_r: "live r = live sbi" using R(2) live4 by (simp add: r_def)
  have free_r: "ssr_free r v = ssr_free sbi v" using live_r R(6) g4 by (simp add: ssr_free_def r_def fun_eq_iff)
  have lay_r: "same_layout E sbi r" using same_layout_trans [OF lay R(3)] by (simp add: r_def)
  have "seg_ok E ?n (get_seg_entry sbi v)" by (rule sit_okD(6) [OF fs_okD(1) [OF ok] v(2)])
  then have "\<exists>i<?n. ssr_free sbi v i"
    using holes count_bits_hole by (auto simp: seg_ok_def ssr_free_def live_def)
  then have pos: "pos < ?n" "ssr_free sbi v pos"
    using scan_less_iff [of "ssr_free sbi v" ?n 0] scan_hit [of "ssr_free sbi v" ?n 0] by (auto simp: pos_def)
  let ?d = "?c\<lparr>cs_next_blkoff := pos\<rparr>"
  have sp: "log_space s4 ?d"
    using pos lay R(4) by (simp add: log_space_def live4 same_layout_def r_def ssr_free_def)
  have ok_d: "fs_ok E (set_CURSEG_I t ?d r) {}"
    using R(1) [OF _ sp] R(4) by (simp add: r_def)
  have blk: "next_free_blkoff E r ?c 0 = ?d"
    using next_free_blkoff_eq [of E r ?c 0] fs_okD(1,6,7) [OF ok_d] R(4) v(2) lay_r free_r
    by (simp add: r_def same_layout_def pos_def)
  define d' where "d' = (if reuse then ?d\<lparr>cs_sum_blk := (cs_sum_blk ?d)\<lparr>sb_entries := sb_entries (get_sum_page r v)\<rparr>\<rparr> else ?d)"
  have d': "cs_segno d' = v" "cs_next_blkoff d' = pos" "cs_alloc_type d' = SSR" using R(4) by (simp_all add: d'_def r_def)
  have e: "change_curseg E sbi t reuse = set_CURSEG_I t d' r"
    unfolding change_curseg_def Let_def log_seg_def [symmetric] s1_def [symmetric] v(1) s2_def [symmetric] s3_def [symmetric]
      s4_def [symmetric] r_def [symmetric] blk d'_def by (rule refl)
  have "log_space s4 d'" using sp d' R(4) by (simp add: log_space_def r_def)
  then have "fs_ok E (set_CURSEG_I t d' r) {}" using R(1) [of d'] d'(1) by (simp add: r_def)
  moreover have "t < length (sm_curseg_array (SM_I r))" using fs_ok_type [OF ok_d t] by simp
  moreover have "same_layout E sbi (set_CURSEG_I t d' r)" using same_layout_trans [OF lay_r] by simp
  ultimately show ?thesis unfolding e using d' live_r pos(2) by (simp add: log_seg_def CURSEG_I_set)
qed

end
