(* ===== verification/Curseg_Ssr.thy ===== *)
theory Curseg_Ssr
  imports Curseg_Move
begin

text \<open>
  Allocation with a search for a dirty segment: what \<open>get_victim\<close> returns for SSR without any
  bound on the search, and \<open>allocate_segment_by_default\<close>, which keeps the invariant whichever
  way it takes.
\<close>

section \<open>The search is quiet\<close>

definition quiet :: "f2fs_env \<Rightarrow> f2fs_sb_info \<Rightarrow> f2fs_sb_info \<Rightarrow> bool" where
  "quiet E a b \<longleftrightarrow> same_layout E a b \<and> search_frame a b \<and> geometry b = geometry a
     \<and> sm_curseg_array (SM_I b) = sm_curseg_array (SM_I a)
     \<and> (\<exists>x y. SIT_I b = (SIT_I a)\<lparr>sit_min_mtime := x, sit_max_mtime := y\<rparr>)"

lemma quiet_refl [simp]: "quiet E a a"
proof -
  have "SIT_I a = (SIT_I a)\<lparr>sit_min_mtime := sit_min_mtime (SIT_I a), sit_max_mtime := sit_max_mtime (SIT_I a)\<rparr>" by simp
  then show ?thesis unfolding quiet_def by (metis same_layout_refl search_frame_refl)
qed

lemma quiet_last_victim: "quiet E a b \<Longrightarrow> quiet E a (set_last_victim m v b)"
proof -
  have "same_layout E b (set_last_victim m v b)" "geometry (set_last_victim m v b) = geometry b"
    by (auto simp: same_layout_def geometry_def main_addr_def addr_macros set_last_victim_def accessors fun_eq_iff split: gc_mode.splits)
  then show "quiet E a b \<Longrightarrow> quiet E a (set_last_victim m v b)"
    by (auto simp: quiet_def search_frame_steps intro: same_layout_trans)
qed

lemma quiet_times: "quiet E a b \<Longrightarrow> times_frame b c \<Longrightarrow> quiet E a c"
proof -
  assume a: "quiet E a b" and t: "times_frame b c"
  then obtain x y where c: "c = set_SIT_I ((SIT_I b)\<lparr>sit_min_mtime := x, sit_max_mtime := y\<rparr>) b"
    by (auto simp: times_frame_def)
  have "sit_frame b c" by (simp add: c)
  moreover have "search_frame a c" using a t search_frame_steps(2) by (auto simp: quiet_def)
  moreover obtain u v where "SIT_I b = (SIT_I a)\<lparr>sit_min_mtime := u, sit_max_mtime := v\<rparr>"
    using a unfolding quiet_def by blast
  then have "SIT_I c = (SIT_I a)\<lparr>sit_min_mtime := x, sit_max_mtime := y\<rparr>" by (simp add: c)
  moreover have "same_layout E a c"
    using a same_layout_frames(1) [OF \<open>sit_frame b c\<close>] by (auto simp: quiet_def intro: same_layout_trans)
  moreover have "geometry c = geometry a" "sm_curseg_array (SM_I c) = sm_curseg_array (SM_I a)"
    using a by (simp_all add: quiet_def sit_frameD [OF \<open>sit_frame b c\<close>])
  ultimately show "quiet E a c" unfolding quiet_def by blast
qed

lemma quiet_ok:
  assumes q: "quiet E a b"
  shows "fs_ok E b X = fs_ok E a X" "live b = live a" "CURSEG_I b = CURSEG_I a" "free_section b = free_section a"
    "IS_CURSEG b = IS_CURSEG a" "get_seg_entry b = get_seg_entry a" "same_layout E a b" "seg_inuse b = seg_inuse a"
proof -
  obtain x y where S: "SIT_I b = (SIT_I a)\<lparr>sit_min_mtime := x, sit_max_mtime := y\<rparr>" using q by (auto simp: quiet_def)
  have B: "sbi_blocks_per_seg b = sbi_blocks_per_seg a" "geometry b = geometry a" "same_layout E a b"
    "sm_curseg_array (SM_I b) = sm_curseg_array (SM_I a)" "TOTAL_SEGS b = TOTAL_SEGS a" "TOTAL_SECS b = TOTAL_SECS a"
    "DIRTY_I b = DIRTY_I a" "FREE_I b = FREE_I a" "CURSEG_I b = CURSEG_I a" "sbi_segs_per_sec b = sbi_segs_per_sec a"
    "get_seg_entry b = get_seg_entry a"
    using q by (auto simp: quiet_def same_layout_def search_frame_def)
  show l: "live b = live a" by (rule live_cong [OF B(11)])
  show si: "seg_inuse b = seg_inuse a" by (simp add: seg_inuse_def B fun_eq_iff)
  have vb: "vblocks b = vblocks a" by (rule vblocks_cong [OF B(11)])
  have so: "sit_ok E b = sit_ok E a" by (simp add: sit_ok_def vb B S sec_segs_def cong: conj_cong)
  have ty: "types_ok b = types_ok a" by (simp add: types_ok_def B)
  have dk: "dirty_ok b = dirty_ok a" by (rule dirty_ok_cong) (simp_all add: B ty)
  have fo: "free_ok b = free_ok a" by (rule free_ok_cong) (simp_all add: B)
  have "logs_ok b X = logs_ok a X" by (simp add: logs_ok_def log_space_def log_seg_def B l si)
  moreover have "free_empty b = free_empty a" by (simp add: free_empty_def B si vb)
  ultimately show "fs_ok E b X = fs_ok E a X" by (simp add: fs_ok_def so dk fo B)
  show "free_section b = free_section a" by (simp add: free_section_def B fun_eq_iff)
  show "IS_CURSEG b = IS_CURSEG a" by (simp add: IS_CURSEG_def B fun_eq_iff)
qed (use q in \<open>auto simp: quiet_def search_frame_def\<close>)

section \<open>The victim for SSR\<close>

lemma ssr_loop:
  assumes K: "kernel_ok E" and n: "TOTAL_SEGS sbi < 2 ^ 32 - 1"
    and p: "vp_alloc_mode p = SSR" "vp_ofs_unit p = 1" "vp_min_segno p = NULL_SEGNO" "vp_min_cost p = mx"
    and P: "P = (\<lambda>i. vp_dirty_segmap p i \<and> candidate gc_type sbi i)"
  shows "\<exists>sbi' p'. victim_loop E gc_type mx sbi p 0 = Some (sbi', p') \<and> same_policy p p' \<and> quiet E sbi sbi' \<and> ssr_best sbi P mx p'"
proof -
  let ?I = "\<lambda>b q (k :: nat). quiet E sbi b \<and> ssr_best sbi P mx q" and ?Q = "\<lambda>b q. quiet E sbi b \<and> ssr_best sbi P mx q"
  have costs: "c = se_ckpt_valid_blocks (get_seg_entry sbi s)" if "get_gc_cost b s q = (c, b')" "same_policy p q" "quiet E sbi b" for b s q c b'
    using that p(1) quiet_ok(6) [OF that(3)] by (auto simp: get_gc_cost_def same_policy_def)
  have taken: "ssr_best sbi P mx (take_if_less s c (q\<lparr>vp_offset := x\<rparr>))"
    if "quiet E sbi b" "ssr_best sbi P mx q" "same_policy p q" "s = scan (vp_dirty_segmap p) (TOTAL_SEGS sbi) (vp_offset q)"
      "s < TOTAL_SEGS sbi" "candidate gc_type b s" "get_gc_cost b s q = (c, b')" for b q s c x b'
  proof (rule ssr_best_take(1))
    show "ssr_best sbi P mx (q\<lparr>vp_offset := x\<rparr>)" using that(2) by (simp add: ssr_best_def)
    have "search_frame sbi b" using that(1) by (simp add: quiet_def)
    then show "P s" using that(4,5,6) scan_hit [of "vp_dirty_segmap p" "TOTAL_SEGS sbi" "vp_offset q"] candidate_search_frame
      by (auto simp: P)
  qed (use n that(5) costs [OF that(7,3,1)] in auto)
  have "\<exists>sbi' p'. victim_loop E gc_type mx sbi p 0 = Some (sbi', p') \<and> same_policy p p' \<and> ?Q sbi' p'"
  proof (rule victim_loop_rule [OF K, where I = ?I and Q = ?Q and n = "TOTAL_SEGS sbi"])
    show "0 < vp_ofs_unit p" "TOTAL_SEGS sbi + vp_ofs_unit p < 2 ^ 32" using p(2) n by auto
    show "same_policy p p" by (simp add: same_policy_def)
    show "?I sbi p 0" using p(3,4) by (simp add: ssr_best_def)
  next
    fix b q ns s c b'
    assume I: "?I b q ns" and sp: "same_policy p q" and s: "s = scan (vp_dirty_segmap p) (TOTAL_SEGS sbi) (vp_offset q)"
      "s < TOTAL_SEGS sbi" and cd: "candidate gc_type b s" and g: "get_gc_cost b s q = (c, b')"
    note take = taken [OF conjunct1 [OF I] conjunct2 [OF I] sp s cd g, of "next_offset (vp_ofs_unit p) s"]
    note quiet = quiet_times [OF conjunct1 [OF I] get_gc_cost_frame [OF g]]
    show "?I b' (take_if_less s c (q\<lparr>vp_offset := next_offset (vp_ofs_unit p) s\<rparr>)) (ns + 1)"
      "?Q (set_last_victim (vp_gc_mode p) s b') (take_if_less s c (q\<lparr>vp_offset := next_offset (vp_ofs_unit p) s\<rparr>))"
      "?I b' (q\<lparr>vp_offset := next_offset (vp_ofs_unit p) s\<rparr>) ns"
      using take quiet quiet_last_victim [OF quiet] conjunct2 [OF I] by (simp_all add: ssr_best_def)
  qed (simp_all add: quiet_last_victim ssr_best_def)
  then show ?thesis by blast
qed

text \<open>A victim is a dirty segment of the type, not current, with a block that neither the current state
  nor the checkpoint uses.\<close>

definition ssr_target :: "f2fs_sb_info \<Rightarrow> nat \<Rightarrow> nat \<Rightarrow> bool" where
  "ssr_target sbi type v \<longleftrightarrow> v < TOTAL_SEGS sbi \<and> is_dirty sbi type v \<and> \<not> IS_CURSEG sbi v
     \<and> se_ckpt_valid_blocks (get_seg_entry sbi v) < sbi_blocks_per_seg sbi"

lemma get_victim_ssr_quiet:
  assumes K: "kernel_ok E" and g: "geometry sbi"
  shows "\<exists>found r sbi'. get_victim_by_default E sbi result gc_type type SSR = Some (found, r, sbi')
    \<and> quiet E sbi sbi' \<and> (found \<longrightarrow> ssr_target sbi type r)"
proof -
  let ?mx = "2 ^ sbi_log_blocks_per_seg sbi"
  let ?P = "\<lambda>i. is_dirty sbi type i \<and> candidate gc_type sbi i"
  have n: "TOTAL_SEGS sbi < 2 ^ 32 - 1"
  proof -
    have "TOTAL_SEGS sbi * 1 \<le> (TOTAL_SEGS sbi + fsm_start_segno (FREE_I sbi)) * sbi_blocks_per_seg sbi"
      using geometryD(2) [OF g] by (intro mult_le_mono) simp_all
    then show ?thesis using g geometryD(5) [OF g] unfolding geometry_def by linarith
  qed
  define p where "p = (select_policy sbi gc_type type SSR)\<lparr>
    vp_min_cost := get_max_cost sbi (select_policy sbi gc_type type SSR), vp_min_segno := NULL_SEGNO\<rparr>"
  have p: "vp_alloc_mode p = SSR" "vp_ofs_unit p = 1" "vp_min_segno p = NULL_SEGNO" "vp_min_cost p = ?mx"
    "vp_dirty_segmap p = is_dirty sbi type"
    by (simp_all add: p_def select_policy_def get_max_cost_def Let_def is_dirty_def fun_eq_iff)
  obtain sbi1 p' where r: "victim_loop E gc_type ?mx sbi p 0 = Some (sbi1, p')" "same_policy p p'" "quiet E sbi sbi1"
    "ssr_best sbi ?P ?mx p'"
    using ssr_loop [OF K n p(1-4)] p(5) by (metis (no_types, lifting))
  have u: "vp_ofs_unit p' = 1" "vp_alloc_mode p' = SSR" using r(2) p(1,2) by (auto simp: same_policy_def)
  have "get_max_cost sbi (select_policy sbi gc_type type SSR) = ?mx"
    by (simp add: get_max_cost_def select_policy_def Let_def)
  then have body: "get_victim_by_default E sbi result gc_type type SSR =
      (if vp_min_segno p' \<noteq> NULL_SEGNO then let (result, sbi) = got_victim gc_type p' sbi1 in Some (True, result, sbi)
       else Some (False, result, sbi1))"
    using r(1) by (simp add: get_victim_by_default_def p_def Let_def)
  show ?thesis
  proof (cases "vp_min_segno p' = NULL_SEGNO")
    case True
    then show ?thesis using body r(3) by auto
  next
    case False
    let ?m = "vp_min_segno p'"
    have m: "?m < TOTAL_SEGS sbi" "?P ?m" "se_ckpt_valid_blocks (get_seg_entry sbi ?m) < ?mx"
      using r(4) False by (auto simp: ssr_best_def)
    then have "u32 ?m = ?m" using n by (intro u32_id) simp
    then have "get_victim_by_default E sbi result gc_type type SSR = Some (True, ?m, sbi1)"
      using body False u by (simp add: got_victim_def Let_def)
    moreover have "\<not> IS_CURSEG sbi ?m"
      using m(2) IS_CURSEG_IS_CURSEC [of sbi ?m] by (auto simp: candidate_def sec_usage_check_def)
    ultimately show ?thesis using r(3) m geometryD(1) [OF g]
      by (intro exI [of _ True] exI [of _ ?m] exI [of _ sbi1]) (simp add: ssr_target_def)
  qed
qed

section \<open>A log without space gets a segment\<close>

definition searched :: "f2fs_env \<Rightarrow> f2fs_sb_info \<Rightarrow> nat \<Rightarrow> bool \<Rightarrow> f2fs_sb_info \<Rightarrow> bool" where
  "searched E a t found b \<longleftrightarrow> fs_ok E b {t} \<and> live b = live a \<and> same_layout E a b \<and> free_section b = free_section a
     \<and> (found \<longrightarrow> cs_next_segno (CURSEG_I b t) < TOTAL_SEGS b \<and> \<not> IS_CURSEG b (cs_next_segno (CURSEG_I b t))
          \<and> se_ckpt_valid_blocks (get_seg_entry b (cs_next_segno (CURSEG_I b t))) < sbi_blocks_per_seg b)"

lemma searched_trans: "searched E a t found b \<Longrightarrow> searched E b t found' c \<Longrightarrow> searched E a t found' c"
  by (auto simp: searched_def intro: same_layout_trans)

lemma ssr_victim_searched:
  assumes K: "kernel_ok E" and ok: "fs_ok E sbi {t}" and t: "t < NR_CURSEG_TYPE"
  shows "\<exists>found sbi'. ssr_victim E sbi t type = Some (found, sbi') \<and> searched E sbi t found sbi'"
proof -
  obtain found r s1 where v: "get_victim_by_default E sbi (cs_next_segno (CURSEG_I sbi t)) BG_GC type SSR = Some (found, r, s1)"
    "quiet E sbi s1" "found \<longrightarrow> ssr_target sbi type r"
    using get_victim_ssr_quiet [OF K fs_okD(8) [OF ok]] by blast
  note Q = quiet_ok [OF v(2)]
  define b where "b = set_CURSEG_I t ((CURSEG_I s1 t)\<lparr>cs_next_segno := r\<rparr>) s1"
  have ok1: "fs_ok E s1 {t}" using ok Q(1) by simp
  have C: "CURSEG_I b i = (if i = t then (CURSEG_I s1 t)\<lparr>cs_next_segno := r\<rparr> else CURSEG_I s1 i)" for i
    using fs_ok_type [OF ok1 t] by (simp add: b_def CURSEG_I_set)
  have "fs_ok E b {t}" unfolding b_def by (rule fs_ok_set_curseg [OF ok1 t]) (simp_all add: log_seg_def)
  moreover have "live b = live sbi" using Q(2) by (simp add: b_def)
  moreover have l: "same_layout E sbi b" using same_layout_trans [OF Q(7)] by (simp add: b_def)
  moreover have "free_section b = free_section sbi" using Q(4) by (auto simp: b_def free_section_def fun_eq_iff)
  moreover have "IS_CURSEG b = IS_CURSEG sbi" using Q(3) by (auto simp: IS_CURSEG_iff C fun_eq_iff)
  moreover have "get_seg_entry b = get_seg_entry sbi" using Q(6) by (simp add: b_def)
  moreover have "cs_next_segno (CURSEG_I b t) = r" by (simp add: C)
  ultimately have "searched E sbi t found b" using v(3) l by (auto simp: searched_def ssr_target_def same_layout_def)
  then show ?thesis using v(1) by (simp add: ssr_victim_def b_def)
qed

lemma ssr_data_victim_searched:
  assumes K: "kernel_ok E" and t: "t < NR_CURSEG_TYPE"
  shows "fs_ok E sbi {t} \<Longrightarrow> \<exists>found sbi'. ssr_data_victim E t n sbi = Some (found, sbi') \<and> searched E sbi t found sbi'"
proof (induction n arbitrary: sbi)
  case 0
  then show ?case using ssr_victim_searched [OF K 0 t] by simp
next
  case (Suc n)
  from ssr_victim_searched [OF K Suc.prems t, of "Suc n"] obtain found s1 where
    s1: "ssr_victim E sbi t (Suc n) = Some (found, s1)" "searched E sbi t found s1" by blast
  show ?case
  proof (cases found)
    case False
    from Suc.IH [of s1] s1(2) obtain found' s2 where
      s2: "ssr_data_victim E t n s1 = Some (found', s2)" "searched E s1 t found' s2" by (auto simp: searched_def)
    then show ?thesis using s1 False searched_trans by (intro exI [of _ found'] exI [of _ s2]) simp
  qed (use s1 in \<open>auto intro!: exI [of _ True]\<close>)
qed

lemma get_ssr_segment_searched:
  assumes "kernel_ok E" and "t < NR_CURSEG_TYPE" and "fs_ok E sbi {t}"
  shows "\<exists>found sbi'. get_ssr_segment E sbi t = Some (found, sbi') \<and> searched E sbi t found sbi'"
  using ssr_victim_searched [OF assms(1,3,2)] ssr_data_victim_searched [OF assms] by (simp add: get_ssr_segment_def)

text \<open>Whichever way it goes, when a section is free, allocation succeeds and keeps the invariant.\<close>

lemma allocate_segment_ok:
  assumes K: "kernel_ok E" and ok: "fs_ok E sbi {t}" and t: "t < NR_CURSEG_TYPE" and free: "free_section sbi s"
  shows "\<exists>sbi'. allocate_segment_by_default E sbi t force = Some sbi' \<and> fs_ok E sbi' {} \<and> live sbi' = live sbi
    \<and> same_layout E sbi sbi'"
proof -
  have new: "\<exists>sbi'. new_curseg E a t b = Some sbi' \<and> fs_ok E sbi' {} \<and> live sbi' = live sbi \<and> same_layout E sbi sbi'"
    if "searched E sbi t found a" for a b found
    using that new_curseg_ok [OF K, of a t s b] t free by (auto simp: searched_def intro: same_layout_trans)
  have here: "searched E sbi t False sbi" using ok by (simp add: searched_def)
  obtain found s1 where s1: "(if need_SSR sbi then get_ssr_segment E sbi t else Some (False, sbi)) = Some (found, s1)"
    "searched E sbi t found s1"
    using get_ssr_segment_searched [OF K t ok] here by (cases "need_SSR sbi") auto
  show ?thesis
  proof (cases "force \<or> t = CURSEG_WARM_NODE \<or> cs_alloc_type (CURSEG_I sbi t) = LFS \<and> is_next_segment_free sbi t")
    case True
    then show ?thesis using new [OF here, of True] new [OF here, of False] by (auto simp: allocate_segment_by_default_def)
  next
    case False
    then have e: "allocate_segment_by_default E sbi t force =
        (if found then Some (change_curseg E s1 t True) else new_curseg E s1 t False)"
      using s1(1) by (auto simp: allocate_segment_by_default_def)
    show ?thesis
    proof (cases found)
      case True
      then have "fs_ok E s1 {t}" "cs_next_segno (CURSEG_I s1 t) < TOTAL_SEGS s1"
        "\<not> IS_CURSEG s1 (cs_next_segno (CURSEG_I s1 t))"
        "se_ckpt_valid_blocks (get_seg_entry s1 (cs_next_segno (CURSEG_I s1 t))) < sbi_blocks_per_seg s1"
        using s1(2) by (auto simp: searched_def)
      from change_curseg_ok [OF this(1) t refl this(2-4), of True] show ?thesis
        using e True s1(2) by (auto simp: searched_def intro: same_layout_trans)
    qed (use e new [OF s1(2)] in simp)
  qed
qed

end
