(* ===== verification/Curseg_Alloc.thy ===== *)
theory Curseg_Alloc
  imports Curseg_Ssr
begin

text \<open>
  \<open>allocate_data_block\<close>: with a free section, it never fails; the address it gives was dead and
  is live, the old address of the block is dead, no other address changes, and the invariant
  is kept.  The volume is seen as its set of live addresses.
\<close>

section \<open>The live addresses\<close>

definition live_addrs :: "f2fs_sb_info \<Rightarrow> nat set" where
  "live_addrs sbi = {main_addr sbi s b | s b. s < TOTAL_SEGS sbi \<and> b < sbi_blocks_per_seg sbi \<and> live sbi s b}"

lemma main_addr_inj:
  assumes "b < sbi_blocks_per_seg sbi" and "b' < sbi_blocks_per_seg sbi"
  shows "main_addr sbi s b = main_addr sbi s' b' \<longleftrightarrow> s = s' \<and> b = b'"
proof
  assume "main_addr sbi s b = main_addr sbi s' b'"
  then have e: "(s + fsm_start_segno (FREE_I sbi)) * sbi_blocks_per_seg sbi + b =
      (s' + fsm_start_segno (FREE_I sbi)) * sbi_blocks_per_seg sbi + b'" by (simp add: main_addr_def)
  have "((s + fsm_start_segno (FREE_I sbi)) * sbi_blocks_per_seg sbi + b) div sbi_blocks_per_seg sbi = s + fsm_start_segno (FREE_I sbi)"
    "((s' + fsm_start_segno (FREE_I sbi)) * sbi_blocks_per_seg sbi + b') div sbi_blocks_per_seg sbi = s' + fsm_start_segno (FREE_I sbi)"
    using assms by simp_all
  with e have "s = s'" by simp
  with e show "s = s' \<and> b = b'" by simp
qed simp

lemma live_addrs_main:
  "s < TOTAL_SEGS sbi \<Longrightarrow> b < sbi_blocks_per_seg sbi \<Longrightarrow> main_addr sbi s b \<in> live_addrs sbi \<longleftrightarrow> live sbi s b"
  unfolding live_addrs_def using main_addr_inj by fastforce

lemma live_addrs_cong:
  "same_layout E a b \<Longrightarrow> live b = live a \<Longrightarrow> live_addrs b = live_addrs a"
  by (simp add: live_addrs_def same_layout_def)

text \<open>One address made live, one made dead.\<close>

lemma live_addrs_move:
  assumes "same_layout E a b" and "s < TOTAL_SEGS a" "i < sbi_blocks_per_seg a"
    and "\<forall>s' i'. s' < TOTAL_SEGS a \<longrightarrow> i' < sbi_blocks_per_seg a \<longrightarrow>
      live b s' i' \<longleftrightarrow> main_addr a s' i' \<noteq> old \<and> (s' = s \<and> i' = i \<or> live a s' i')"
  shows "live_addrs b = insert (main_addr a s i) (live_addrs a) - {old}"
proof (rule set_eqI)
  fix x
  have L: "main_addr b = main_addr a" "TOTAL_SEGS b = TOTAL_SEGS a" "sbi_blocks_per_seg b = sbi_blocks_per_seg a"
    using assms(1) by (auto simp: same_layout_def)
  show "x \<in> live_addrs b \<longleftrightarrow> x \<in> insert (main_addr a s i) (live_addrs a) - {old}"
    using assms(2-4) by (auto simp: live_addrs_def L)
qed

text \<open>The addresses a block may have before it is written: none yet, reserved, or a live one.\<close>

definition old_addr :: "f2fs_env \<Rightarrow> f2fs_sb_info \<Rightarrow> nat \<Rightarrow> bool" where
  "old_addr E sbi a \<longleftrightarrow> a = NULL_ADDR E \<or> a = NEW_ADDR E \<or> a \<in> live_addrs sbi"

section \<open>The update of the validity maps\<close>

lemma refresh_sit_entry_addrs:
  assumes ok: "sit_ok E sbi" and new: "segno < TOTAL_SEGS sbi" "off < sbi_blocks_per_seg sbi" "\<not> live sbi segno off"
    and old: "old_addr E sbi old"
  shows "\<exists>sbi'. refresh_sit_entry E sbi old (main_addr sbi segno off) = Some sbi' \<and> sit_ok E sbi' \<and> sit_frame sbi sbi'
    \<and> (\<forall>s b. s < TOTAL_SEGS sbi \<longrightarrow> b < sbi_blocks_per_seg sbi \<longrightarrow>
          live sbi' s b \<longleftrightarrow> main_addr sbi s b \<noteq> old \<and> (s = segno \<and> b = off \<or> live sbi s b))
    \<and> (\<forall>i. se_type (get_seg_entry sbi' i) = se_type (get_seg_entry sbi i))"
proof -
  note D = sit_okD [OF ok]
  show ?thesis
  proof (cases "old \<in> live_addrs sbi")
    case True
    then obtain s b where o: "old = main_addr sbi s b" "s < TOTAL_SEGS sbi" "b < sbi_blocks_per_seg sbi" "live sbi s b"
      by (auto simp: live_addrs_def)
    from refresh_sit_entry_moves [OF ok new o(2-4)] show ?thesis
      using main_addr_inj [of _ sbi b] o(3) unfolding o(1) by fastforce
  next
    case False
    then have null: "GET_SEGNO E sbi old = NULL_SEGNO" "old = 0 \<or> old = 2 ^ 32 - 1"
      using old D(2) by (auto simp: old_addr_def GET_SEGNO_def addr_consts_def)
    from update_sit_entry_add [OF ok new] obtain s1 where
      s1: "update_sit_entry E sbi (main_addr sbi segno off) 1 = Some s1" "sit_ok E s1" "others_kept sbi s1 segno"
        "\<And>b. live s1 segno b \<longleftrightarrow> b = off \<or> live sbi segno b" by auto
    have l1: "live s1 s b \<longleftrightarrow> s = segno \<and> b = off \<or> live sbi s b" for s b
      using s1(3,4) by (cases "s = segno") (auto simp: others_kept_def live_def)
    have fr: "sit_frame sbi s1" using s1(3) by (simp add: others_kept_def)
    have ty: "\<forall>i. se_type (get_seg_entry s1 i) = se_type (get_seg_entry sbi i)" using s1(3) unfolding others_kept_def by metis
    have "main_addr sbi s b \<noteq> old" if "s < TOTAL_SEGS sbi" "b < sbi_blocks_per_seg sbi" for s b
      using main_addr_less [OF D(1) that] null(2) by auto
    moreover have "refresh_sit_entry E sbi old (main_addr sbi segno off) = Some s1"
      using s1(1) null(1) by (simp add: refresh_sit_entry_def sit_frameD [OF fr])
    ultimately show ?thesis using s1(2) fr l1 ty by (intro exI [of _ s1]) auto
  qed
qed

section \<open>The next block of the log\<close>

text \<open>After the block at \<open>off\<close>: in LFS mode the next one, in SSR mode the next one that is free.\<close>

lemma refresh_next_blkoff_eq:
  assumes ok: "fs_ok E sbi X" and c: "cs_segno c < TOTAL_SEGS sbi" "cs_next_blkoff c < sbi_blocks_per_seg sbi"
  shows "refresh_next_blkoff E sbi c = c\<lparr>cs_next_blkoff :=
    (if cs_alloc_type c = SSR then scan (ssr_free sbi (cs_segno c)) (sbi_blocks_per_seg sbi) (cs_next_blkoff c + 1)
     else cs_next_blkoff c + 1)\<rparr>"
  using next_free_blkoff_eq [OF fs_okD(1,6,7) [OF ok] c(1), of "cs_next_blkoff c + 1"] sit_okD(4) [OF fs_okD(1) [OF ok]] c(2)
  by (simp add: refresh_next_blkoff_def u16_id)

text \<open>When that is inside the segment, the log has space once the block at \<open>off\<close> is the only new live one.\<close>

lemma next_log_space:
  assumes ok: "fs_ok E sbi X" and c: "cs_segno c < TOTAL_SEGS sbi" "log_space sbi c"
    and d: "cs_segno d = cs_segno c" "cs_alloc_type d = cs_alloc_type c"
      "cs_next_blkoff d = cs_next_blkoff (refresh_next_blkoff E sbi c)" "cs_next_blkoff d < sbi_blocks_per_seg sbi"
    and b: "sbi_blocks_per_seg b = sbi_blocks_per_seg sbi"
      "\<And>i. i < sbi_blocks_per_seg sbi \<Longrightarrow> live b (cs_segno c) i \<Longrightarrow> i = cs_next_blkoff c \<or> live sbi (cs_segno c) i"
  shows "log_space b d"
proof -
  let ?n = "sbi_blocks_per_seg sbi" and ?P = "ssr_free sbi (cs_segno c)"
  have off: "cs_next_blkoff c < ?n" using c(2) by (simp add: log_space_def)
  note e = refresh_next_blkoff_eq [OF ok c(1) off]
  show ?thesis
  proof (cases "cs_alloc_type c = SSR")
    case True
    then have "cs_next_blkoff d = scan ?P ?n (cs_next_blkoff c + 1)" using d(3) e by simp
    then have "?P (cs_next_blkoff d)" "cs_next_blkoff c < cs_next_blkoff d"
      using scan_hit [of ?P ?n "cs_next_blkoff c + 1"] d(4) by auto
    then show ?thesis using True d(1,2,4) b(1) b(2) [OF d(4)] by (auto simp: log_space_def ssr_free_def)
  next
    case False
    then have "cs_alloc_type c = LFS" "cs_next_blkoff d = cs_next_blkoff c + 1"
      using d(3) e by (cases "cs_alloc_type c"; simp)+
    then show ?thesis using c(2) d b by (fastforce simp: log_space_def)
  qed
qed

section \<open>The block\<close>

lemma NEXT_FREE_BLKADDR_main:
  assumes "geometry sbi" and "cs_segno c < TOTAL_SEGS sbi" and "cs_next_blkoff c < sbi_blocks_per_seg sbi"
  shows "NEXT_FREE_BLKADDR sbi c = main_addr sbi (cs_segno c) (cs_next_blkoff c)"
proof -
  have "main_addr sbi (cs_segno c) 0 + cs_next_blkoff c = main_addr sbi (cs_segno c) (cs_next_blkoff c)"
    by (simp add: main_addr_def)
  moreover have "main_addr sbi (cs_segno c) (cs_next_blkoff c) < 2 ^ 32" using main_addr_less(1) [OF assms] by simp
  ultimately show ?thesis by (simp add: NEXT_FREE_BLKADDR_def START_BLOCK_main [OF assms(1,2)] u32_id)
qed

text \<open>The state after the summary entry and the next offset of the log are set.\<close>

definition log_advanced :: "f2fs_env \<Rightarrow> f2fs_sb_info \<Rightarrow> nat \<Rightarrow> f2fs_summary \<Rightarrow> f2fs_sb_info" where
  "log_advanced E sbi t summ = (let s = add_sum_entry sbi t summ in set_CURSEG_I t (refresh_next_blkoff E s (CURSEG_I s t)) s)"

lemma log_advanced_ok:
  assumes ok: "fs_ok E sbi {}" and t: "t < NR_CURSEG_TYPE"
  shows "fs_ok E (log_advanced E sbi t summ) {t}" "live (log_advanced E sbi t summ) = live sbi"
    "same_layout E sbi (log_advanced E sbi t summ)" "free_section (log_advanced E sbi t summ) = free_section sbi"
    "i \<noteq> t \<Longrightarrow> CURSEG_I (log_advanced E sbi t summ) i = CURSEG_I sbi i"
    "cs_segno (CURSEG_I (log_advanced E sbi t summ) t) = log_seg sbi t"
    "cs_alloc_type (CURSEG_I (log_advanced E sbi t summ) t) = cs_alloc_type (CURSEG_I sbi t)"
    "cs_next_blkoff (CURSEG_I (log_advanced E sbi t summ) t) = cs_next_blkoff (refresh_next_blkoff E sbi (CURSEG_I sbi t))"
proof -
  let ?a = "log_advanced E sbi t summ"
  note L = logs_okD [OF fs_okD(4) [OF ok]]
  define c where "c = (CURSEG_I sbi t)\<lparr>cs_sum_blk := (cs_sum_blk (CURSEG_I sbi t))\<lparr>sb_entries :=
      (sb_entries (cs_sum_blk (CURSEG_I sbi t)))[cs_next_blkoff (CURSEG_I sbi t) := summ]\<rparr>\<rparr>"
  define s where "s = add_sum_entry sbi t summ"
  have s: "s = set_CURSEG_I t c sbi" by (simp add: s_def add_sum_entry_def c_def Let_def)
  have len: "t < length (sm_curseg_array (SM_I sbi))" using L(1) t by simp
  have C: "CURSEG_I s i = (if i = t then c else CURSEG_I sbi i)" for i using len by (simp add: s CURSEG_I_set)
  have oks: "fs_ok E s {}" unfolding s
    by (rule fs_ok_set_curseg [OF ok t]) (use L(4) [OF t] in \<open>simp_all add: c_def log_seg_def log_space_def\<close>)
  have f: "sbi_blocks_per_seg s = sbi_blocks_per_seg sbi" "TOTAL_SEGS s = TOTAL_SEGS sbi" "live s = live sbi"
    "ssr_free s = ssr_free sbi" by (simp_all add: s ssr_free_def fun_eq_iff)
  have in_seg: "cs_segno (CURSEG_I sbi t) < TOTAL_SEGS sbi" "cs_next_blkoff (CURSEG_I sbi t) < sbi_blocks_per_seg sbi"
    using L(2,4) [OF t] by (simp_all add: log_seg_def log_space_def)
  have r: "refresh_next_blkoff E s c = c\<lparr>cs_next_blkoff := cs_next_blkoff (refresh_next_blkoff E sbi (CURSEG_I sbi t))\<rparr>"
    using refresh_next_blkoff_eq [OF oks, of c] refresh_next_blkoff_eq [OF ok in_seg] in_seg by (simp add: c_def f)
  have a: "?a = set_CURSEG_I t (refresh_next_blkoff E s c) s" by (simp add: log_advanced_def Let_def s_def [symmetric] C)
  have lens: "t < length (sm_curseg_array (SM_I s))" using len by (simp add: s)
  show "fs_ok E ?a {t}" unfolding a by (rule fs_ok_set_curseg [OF oks t]) (simp_all add: r log_seg_def C)
  show "live ?a = live sbi" by (simp add: a f)
  show "same_layout E sbi ?a" unfolding a s using same_layout_trans [OF same_layout_simps(1) same_layout_simps(1)] .
  show "free_section ?a = free_section sbi" by (simp add: a s free_section_def fun_eq_iff)
  show "i \<noteq> t \<Longrightarrow> CURSEG_I ?a i = CURSEG_I sbi i" by (simp add: a CURSEG_I_set C)
  show "cs_segno (CURSEG_I ?a t) = log_seg sbi t" "cs_alloc_type (CURSEG_I ?a t) = cs_alloc_type (CURSEG_I sbi t)"
    "cs_next_blkoff (CURSEG_I ?a t) = cs_next_blkoff (refresh_next_blkoff E sbi (CURSEG_I sbi t))"
  proof -
    have "CURSEG_I ?a t = refresh_next_blkoff E s c" using lens by (simp add: a CURSEG_I_set)
    then show "cs_segno (CURSEG_I ?a t) = log_seg sbi t" "cs_alloc_type (CURSEG_I ?a t) = cs_alloc_type (CURSEG_I sbi t)"
      "cs_next_blkoff (CURSEG_I ?a t) = cs_next_blkoff (refresh_next_blkoff E sbi (CURSEG_I sbi t))"
      unfolding r by (simp_all add: c_def log_seg_def)
  qed
qed

text \<open>The segment maps change, the log not: what is left to show for the invariant.\<close>

lemma fs_ok_blocks:
  assumes ok: "fs_ok E a X" and X: "\<forall>t\<in>X. t < NR_CURSEG_TYPE" and b: "sit_ok E b" "sit_frame a b"
    and types: "\<forall>i. se_type (get_seg_entry b i) = se_type (get_seg_entry a i)"
    and lives: "\<forall>s i. s < TOTAL_SEGS a \<longrightarrow> i < sbi_blocks_per_seg a \<longrightarrow> live b s i \<longrightarrow> s \<in> log_seg a ` X \<or> live a s i"
  shows "fs_ok E b X"
proof -
  note L = logs_okD [OF fs_okD(4) [OF ok]] and F = sit_frameD [OF b(2)]
  have si: "seg_inuse b = seg_inuse a" by (simp add: seg_inuse_def F fun_eq_iff)
  have sg: "log_seg b = log_seg a" by (simp add: log_seg_def F fun_eq_iff)
  have "log_space b (CURSEG_I a i)" if i: "i < NR_CURSEG_TYPE" "i \<notin> X" for i
  proof -
    have "log_seg a i \<notin> log_seg a ` X" using L(5) [OF i(1)] X i(2) by (metis imageE)
    then have "\<not> live b (log_seg a i) j" if "j < sbi_blocks_per_seg a" "\<not> live a (log_seg a i) j" for j
      using lives L(2) [OF i(1)] that by blast
    then show ?thesis using L(4) [OF i] by (auto simp: log_space_def F log_seg_def)
  qed
  then have "logs_ok b X" using L by (simp add: logs_ok_def F si sg)
  moreover have "free_empty b"
    unfolding free_empty_def F si
  proof (intro allI impI)
    fix i assume i: "i < TOTAL_SEGS a" "\<not> seg_inuse a i"
    then have "vblocks a i = 0" using fs_okD(5) [OF ok] by (simp add: free_empty_def)
    moreover have "i \<notin> log_seg a ` X" using L(3) X i(2) by blast
    ultimately have "\<not> live b i j" if "j < sbi_blocks_per_seg a" for j
      using lives vblocks_0_live [OF fs_okD(1) [OF ok] i(1)] that i(1) by blast
    then have "count_bits (sbi_blocks_per_seg b) (bits_of (se_cur_valid_map (get_seg_entry b i))) = 0"
      using count_bits_run [of 0 "sbi_blocks_per_seg b" "bits_of (se_cur_valid_map (get_seg_entry b i))" False]
      by (simp add: live_def F)
    then show "vblocks b i = 0" using sit_okD(6) [OF b(1), of i] i(1) by (simp add: F seg_ok_def vblocks_def)
  qed
  moreover have "dirty_ok b" using fs_okD(3) [OF ok] types by (simp add: dirty_ok_def types_ok_def F)
  moreover have "free_ok b = free_ok a" by (rule free_ok_cong) (simp_all add: F)
  ultimately show ?thesis using ok b(1) by (simp add: fs_ok_def F)
qed

lemma locate_dirty_fs_ok:
  assumes "fs_ok E sbi X" and "segno < TOTAL_SEGS sbi \<or> segno = NULL_SEGNO"
  shows "fs_ok E (locate_dirty_segment sbi segno) X" "live (locate_dirty_segment sbi segno) = live sbi"
    "same_layout E sbi (locate_dirty_segment sbi segno)"
proof -
  have "dirty_ok (locate_dirty_segment sbi segno)"
    using assms(2) locate_dirty_ok [OF fs_okD(3) [OF assms(1)]] fs_okD(3) [OF assms(1)]
    by (auto simp: locate_dirty_segment_def [of sbi NULL_SEGNO])
  note * = fs_ok_dirty [OF assms(1) locate_dirty_frame this]
  show "fs_ok E (locate_dirty_segment sbi segno) X" "live (locate_dirty_segment sbi segno) = live sbi" by (rule *)+
  show "same_layout E sbi (locate_dirty_segment sbi segno)" by (rule same_layout_frames(2)) simp
qed

lemma allocate_data_block_ok:
  assumes K: "kernel_ok E" and ok: "fs_ok E sbi {}" and t: "t < NR_CURSEG_TYPE" and free: "free_section sbi s"
    and old: "old_addr E sbi old"
  shows "\<exists>new footer sbi'. allocate_data_block E sbi has_page old summ t = Some (new, footer, sbi')
    \<and> fs_ok E sbi' {} \<and> same_layout E sbi sbi' \<and> new \<notin> live_addrs sbi \<and> new \<noteq> NULL_ADDR E \<and> new \<noteq> NEW_ADDR E
    \<and> live_addrs sbi' = insert new (live_addrs sbi) - {old}"
proof -
  note L = logs_okD [OF fs_okD(4) [OF ok]] and g = fs_okD(8) [OF ok]
  define c where "c = CURSEG_I sbi t"
  have c: "cs_segno c < TOTAL_SEGS sbi" "cs_next_blkoff c < sbi_blocks_per_seg sbi" "\<not> live sbi (cs_segno c) (cs_next_blkoff c)"
    "log_space sbi c" using L(2,4) [OF t] by (simp_all add: c_def log_seg_def log_space_def)
  define new where "new = main_addr sbi (cs_segno c) (cs_next_blkoff c)"
  have new: "NEXT_FREE_BLKADDR sbi c = new" using NEXT_FREE_BLKADDR_main [OF g c(1,2)] by (simp add: new_def)
  define s1 where "s1 = log_advanced E sbi t summ"
  note A = log_advanced_ok [OF ok t, where summ = summ, folded s1_def]
  have lay1: "TOTAL_SEGS s1 = TOTAL_SEGS sbi" "sbi_blocks_per_seg s1 = sbi_blocks_per_seg sbi" "main_addr s1 = main_addr sbi"
    "GET_SEGNO E s1 = GET_SEGNO E sbi" using A(3) by (simp_all add: same_layout_def)
  have old1: "old_addr E s1 old" using old live_addrs_cong [OF A(3,2)] by (simp add: old_addr_def)
  have "cs_segno c < TOTAL_SEGS s1" "cs_next_blkoff c < sbi_blocks_per_seg s1" "\<not> live s1 (cs_segno c) (cs_next_blkoff c)"
    using c by (simp_all add: lay1 A(2))
  from refresh_sit_entry_addrs [OF fs_okD(1) [OF A(1)] this old1] obtain s2 where
    s2: "refresh_sit_entry E s1 old new = Some s2" "sit_ok E s2" "sit_frame s1 s2"
      "\<forall>s b. s < TOTAL_SEGS sbi \<longrightarrow> b < sbi_blocks_per_seg sbi \<longrightarrow>
         live s2 s b \<longleftrightarrow> main_addr sbi s b \<noteq> old \<and> (s = cs_segno c \<and> b = cs_next_blkoff c \<or> live sbi s b)"
      "\<forall>i. se_type (get_seg_entry s2 i) = se_type (get_seg_entry s1 i)"
    unfolding new_def lay1 A(2) by blast
  note F2 = sit_frameD [OF s2(3)]
  have lay2: "same_layout E sbi s2" using same_layout_trans [OF A(3) same_layout_frames(1) [OF s2(3)]] .
  have seg1: "log_seg s1 t = cs_segno c" using A(6) by (simp add: log_seg_def c_def)
  have ok2: "fs_ok E s2 {t}"
    by (rule fs_ok_blocks [OF A(1) _ s2(2,3,5)]) (use s2(4) t in \<open>auto simp: lay1 A(2) seg1\<close>)
  have addrs2: "live_addrs s2 = insert new (live_addrs sbi) - {old}"
    unfolding new_def by (rule live_addrs_move [OF lay2 c(1,2)]) (use s2(4) in blast)
  have c2: "CURSEG_I s2 t = CURSEG_I s1 t" by (simp add: F2)
  have len2: "t < length (sm_curseg_array (SM_I s2))" by (rule fs_ok_type [OF ok2 t])
  have "free_section s2 = free_section s1" by (simp add: free_section_def F2 fun_eq_iff)
  then have free2: "free_section s2 s" using free A(4) by simp
  obtain s3 where s3: "(if \<not> has_curseg_space s2 t then allocate_segment_by_default E s2 t False else Some s2) = Some s3"
    "fs_ok E s3 {}" "live s3 = live s2" "same_layout E s2 s3"
  proof (cases "has_curseg_space s2 t")
    case True
    then have sp: "log_space s2 (CURSEG_I s1 t)"
      using next_log_space [OF ok c(1,4), of "CURSEG_I s1 t" s2] A(6-8) s2(4) c(1) lay2
      by (auto simp: c_def log_seg_def has_curseg_space_def c2 same_layout_def)
    have "fs_ok E (set_CURSEG_I t (CURSEG_I s2 t) s2) {}"
      by (rule fs_ok_set_curseg [OF ok2 t]) (use sp in \<open>simp_all add: c2 log_seg_def\<close>)
    moreover have "set_CURSEG_I t (CURSEG_I s2 t) s2 = s2" by (simp add: set_CURSEG_I_def CURSEG_I_def accessors)
    ultimately have "fs_ok E s2 {}" by simp
    with that [of s2] True show ?thesis by simp
  next
    case False
    with allocate_segment_ok [OF K ok2 t free2, of False] that show ?thesis by auto
  qed
  have lay3: "same_layout E sbi s3" by (rule same_layout_trans [OF lay2 s3(4)])
  have "log_seg sbi t < TOTAL_SEGS s3" using L(2) [OF t] lay3 by (simp add: same_layout_def)
  define s4 where "s4 = locate_dirty_segment s3 (log_seg sbi t)"
  note D4 = locate_dirty_fs_ok [OF s3(2) disjI1, OF \<open>log_seg sbi t < TOTAL_SEGS s3\<close>, folded s4_def]
  have lay4: "same_layout E sbi s4" by (rule same_layout_trans [OF lay3 D4(3)])
  have "GET_SEGNO E sbi (NULL_ADDR E) = NULL_SEGNO" "GET_SEGNO E sbi (NEW_ADDR E) = NULL_SEGNO"
    by (simp_all add: GET_SEGNO_def)
  then have "GET_SEGNO E s4 old < TOTAL_SEGS s4 \<or> GET_SEGNO E s4 old = NULL_SEGNO"
    using old lay4 GET_SEGNO_main [OF g fs_okD(9) [OF ok]]
    by (auto simp: old_addr_def live_addrs_def same_layout_def)
  note D5 = locate_dirty_fs_ok [OF D4(1) this]
  let ?s5 = "locate_dirty_segment s4 (GET_SEGNO E s4 old)"
  have "live ?s5 = live s2" using D5(2) D4(2) s3(3) by simp
  moreover have lay5: "same_layout E s2 ?s5"
    using same_layout_trans [OF s3(4) same_layout_trans [OF D4(3) D5(3)]] .
  ultimately have "live_addrs ?s5 = live_addrs s2" by (intro live_addrs_cong)
  moreover have "allocate_data_block E sbi has_page old summ t = Some (new,
      (if has_page \<and> IS_NODESEG t then Some (NEXT_FREE_BLKADDR ?s5 (CURSEG_I ?s5 t)) else None), ?s5)"
    unfolding allocate_data_block_def Let_def c_def [symmetric] new log_advanced_def [unfolded Let_def, symmetric]
      s1_def [symmetric] s2(1) bind.bind_lunit s3(1) using c_def by (simp add: s4_def log_seg_def)
  moreover have "new \<notin> live_addrs sbi" using live_addrs_main [OF c(1,2)] c(3) by (simp add: new_def)
  moreover have "new \<noteq> NULL_ADDR E" "new \<noteq> NEW_ADDR E"
    using main_addr_less [OF g c(1,2)] fs_okD(9) [OF ok] by (auto simp: new_def addr_consts_def)
  ultimately show ?thesis using D5(1) same_layout_trans [OF lay2 lay5] addrs2 by auto
qed

section \<open>Freeing a block\<close>

lemma invalidate_new_addr:
  "addr_consts E \<Longrightarrow> invalidate_blocks E sbi (NEW_ADDR E) = Some sbi"
  by (simp add: invalidate_blocks_def f2fs_bug_on_def addr_consts_def)

lemma invalidate_blocks_ok:
  assumes ok: "fs_ok E sbi {}" and a: "a \<in> live_addrs sbi"
  shows "\<exists>sbi'. invalidate_blocks E sbi a = Some sbi' \<and> fs_ok E sbi' {} \<and> same_layout E sbi sbi'
    \<and> live_addrs sbi' = live_addrs sbi - {a}"
proof -
  note g = fs_okD(8) [OF ok]
  from a obtain s b where a': "a = main_addr sbi s b" "s < TOTAL_SEGS sbi" "b < sbi_blocks_per_seg sbi" "live sbi s b"
    by (auto simp: live_addrs_def)
  from update_sit_entry_del [OF fs_okD(1) [OF ok] a'(2-4)] obtain s1 where
    s1: "update_sit_entry E sbi a (- 1) = Some s1" "sit_ok E s1" "others_kept sbi s1 s"
      "\<forall>i. live s1 s i \<longleftrightarrow> i \<noteq> b \<and> live sbi s i" unfolding a'(1) by blast
  have fr: "sit_frame sbi s1" using s1(3) by (simp add: others_kept_def)
  have lv: "live s1 x i \<longleftrightarrow> \<not> (x = s \<and> i = b) \<and> live sbi x i" for x i
    using s1(3,4) by (cases "x = s") (auto simp: others_kept_def live_def)
  have ty: "\<forall>i. se_type (get_seg_entry s1 i) = se_type (get_seg_entry sbi i)" using s1(3) unfolding others_kept_def by metis
  have ok1: "fs_ok E s1 {}" by (rule fs_ok_blocks [OF ok _ s1(2) fr ty]) (simp_all add: lv)
  have addrs: "live_addrs s1 = live_addrs sbi - {a}"
    using a'(1-3) main_addr_inj by (auto simp: live_addrs_def sit_frameD [OF fr] lv)
  have "s < TOTAL_SEGS s1" using a'(2) by (simp add: sit_frameD [OF fr])
  note D = locate_dirty_fs_ok [OF ok1 disjI1, OF this]
  have "GET_SEGNO E sbi a = s" unfolding a'(1) by (rule GET_SEGNO_main [OF g fs_okD(9) [OF ok] a'(2,3)])
  moreover have "a \<noteq> NULL_ADDR E" "a \<noteq> NEW_ADDR E"
    using main_addr_less [OF g a'(2,3)] fs_okD(9) [OF ok] by (auto simp: a'(1) addr_consts_def)
  ultimately have "invalidate_blocks E sbi a = Some (locate_dirty_segment s1 s)"
    using s1(1) by (simp add: invalidate_blocks_def f2fs_bug_on_def)
  moreover have "live_addrs (locate_dirty_segment s1 s) = live_addrs s1" by (rule live_addrs_cong [OF D(3,2)])
  moreover have "same_layout E sbi (locate_dirty_segment s1 s)"
    using same_layout_trans [OF same_layout_frames(1) [OF fr] D(3)] .
  ultimately show ?thesis using D(1) addrs by blast
qed

end
