(* ===== verification/Small_Volume.thy ===== *)
theory Small_Volume
  imports Curseg_Alloc
begin

text \<open>
  A small volume on which the hypotheses of the properties hold: ten segments of eight blocks,
  one segment per section.  Segments 0 to 5 are the logs (the first with one block written),
  segment 6 holds three blocks and is dirty, segment 7 has no valid block left and waits for
  a checkpoint, segments 8 and 9 are free.
\<close>

definition map_of_byte :: "8 word \<Rightarrow> 8 word list" where
  "map_of_byte b = b # replicate 63 0"

definition vol_entry :: "8 word \<Rightarrow> nat \<Rightarrow> nat \<Rightarrow> seg_entry" where
  "vol_entry b n ty = \<lparr> se_valid_blocks = n, se_cur_valid_map = map_of_byte b, se_ckpt_valid_blocks = n,
     se_ckpt_valid_map = map_of_byte b, se_type = ty, se_mtime = 100, se_numberofcleaning = 0 \<rparr>"

definition vol_sit :: sit_info where
  "vol_sit = \<lparr> sit_base_addr = 2, sit_blocks = 1, sit_written_valid_blocks = 4, sit_bitmap = [0],
     sit_dirty_sentries_bitmap = (\<lambda>_. False), sit_dirty_sentries = 0, sit_sents_per_block = 55,
     sit_sentries = [vol_entry 0x80 1 0, vol_entry 0 0 1, vol_entry 0 0 2, vol_entry 0 0 3, vol_entry 0 0 4, vol_entry 0 0 5,
       vol_entry 0xE0 3 0, vol_entry 0 0 1, vol_entry 0 0 0, vol_entry 0 0 0],
     sit_sec_entries = [], sit_elapsed_time = 0, sit_mounted_time = 0, sit_min_mtime = 100, sit_max_mtime = 200 \<rparr>"

definition vol_free :: free_segmap_info where
  "vol_free = \<lparr> fsm_start_segno = 0, fsm_free_segments = 2, fsm_free_sections = 2,
     fsm_free_segmap = (\<lambda>i. i < 8), fsm_free_secmap = (\<lambda>i. i < 8) \<rparr>"

definition vol_dirty :: dirty_seglist_info where
  "vol_dirty = \<lparr> dl_dirty_segmap = [\<lambda>i. i = 6, \<lambda>_. False, \<lambda>_. False, \<lambda>_. False, \<lambda>_. False, \<lambda>_. False, \<lambda>i. i = 6, \<lambda>i. i = 7],
     dl_nr_dirty = [1, 0, 0, 0, 0, 0, 1, 1], dl_victim_secmap = (\<lambda>_. False) \<rparr>"

definition vol_log :: "nat \<Rightarrow> nat \<Rightarrow> curseg_info" where
  "vol_log segno off = \<lparr> cs_sum_blk = \<lparr> sb_entries = replicate 8 \<lparr> sum_nid = 0, sum_ofs_in_node = 0, sum_version = 0 \<rparr>, sb_entry_type = 0 \<rparr>,
     cs_alloc_type = LFS, cs_segno = segno, cs_next_blkoff = off, cs_zone = segno, cs_next_segno = NULL_SEGNO \<rparr>"

definition vol_sm :: f2fs_sm_info where
  "vol_sm = \<lparr> sm_sit_info = vol_sit, sm_free_info = vol_free, sm_dirty_info = vol_dirty,
     sm_curseg_array = [vol_log 0 1, vol_log 1 0, vol_log 2 0, vol_log 3 0, vol_log 4 0, vol_log 5 0],
     sm_seg0_blkaddr = 16, sm_main_blkaddr = 16, sm_ssa_blkaddr = 8, sm_segment_count = 12, sm_main_segments = 10,
     sm_reserved_segments = 1, sm_ovp_segments = 2, sm_rec_prefree_segments = 1, sm_discard_list = [], sm_nr_discards = 0,
     sm_max_discards = 100, sm_ipu_policy = 0, sm_min_ipu_util = 70 \<rparr>"

definition vol_sbi :: f2fs_sb_info where
  "vol_sbi = \<lparr> sbi_sm_info = vol_sm, sbi_por_doing = False, sbi_log_blocks_per_seg = 3, sbi_blocks_per_seg = 8,
     sbi_segs_per_sec = 1, sbi_secs_per_zone = 1, sbi_total_sections = 10, sbi_total_node_count = 100,
     sbi_total_valid_node_count = 1, sbi_total_valid_inode_count = 1, sbi_active_logs = 6, sbi_user_block_count = 50,
     sbi_total_valid_block_count = 4, sbi_alloc_valid_block_count = 0, sbi_nr_dirty_dents = 0, sbi_nr_dirty_nodes = 0,
     sbi_opt_discard = True, sbi_opt_noheap = False, sbi_gc_thread = None, sbi_cur_victim_sec = NULL_SEGNO,
     sbi_max_victim_search = 4096, sbi_last_victim_cb = 0, sbi_last_victim_greedy = 0,
     sbi_meta_pages = (\<lambda>_. \<lparr> sb_entries = [], sb_entry_type = 0 \<rparr>) \<rparr>"

section \<open>What its parts are\<close>

lemma vol_parts [simp]:
  "SIT_I vol_sbi = vol_sit" "FREE_I vol_sbi = vol_free" "DIRTY_I vol_sbi = vol_dirty" "SM_I vol_sbi = vol_sm"
  "TOTAL_SEGS vol_sbi = 10" "TOTAL_SECS vol_sbi = 10" "sbi_segs_per_sec vol_sbi = 1" "sbi_secs_per_zone vol_sbi = 1"
  "sbi_blocks_per_seg vol_sbi = 8" "sbi_log_blocks_per_seg vol_sbi = 3" "sm_seg0_blkaddr vol_sm = 16" "fsm_start_segno vol_free = 0"
  "sm_curseg_array vol_sm = [vol_log 0 1, vol_log 1 0, vol_log 2 0, vol_log 3 0, vol_log 4 0, vol_log 5 0]"
  by (simp_all add: accessors TOTAL_SEGS_def TOTAL_SECS_def vol_sbi_def vol_sm_def vol_free_def)

lemma nat_less_10: "(i :: nat) < 10 \<longleftrightarrow> i \<in> {0, 1, 2, 3, 4, 5, 6, 7, 8, 9}"
  by auto

lemma nat_less_6: "(i :: nat) < 6 \<longleftrightarrow> i \<in> {0, 1, 2, 3, 4, 5}"
  by auto

lemma nat_less_8: "(i :: nat) < 8 \<longleftrightarrow> i \<in> {0, 1, 2, 3, 4, 5, 6, 7}"
  by auto

lemma vol_log_seg: "t < 6 \<Longrightarrow> CURSEG_I vol_sbi t = vol_log t (if t = 0 then 1 else 0)"
  unfolding nat_less_6 by (auto simp: CURSEG_I_def)

lemma bits_of_byte: "i < 8 \<Longrightarrow> bits_of (map_of_byte b) i \<longleftrightarrow> bit b (7 - i)"
  by (simp add: bits_of_def f2fs_test_bit_iff map_of_byte_def)

lemma byte_bits [simp]:
  "i < 8 \<Longrightarrow> bits_of (map_of_byte 0x80) i \<longleftrightarrow> i = 0" "i < 8 \<Longrightarrow> bits_of (map_of_byte 0xE0) i \<longleftrightarrow> i < 3"
  "i < 8 \<Longrightarrow> \<not> bits_of (map_of_byte 0) i"
  unfolding nat_less_8 by (auto simp: bits_of_byte)

lemma vol_entries:
  "get_seg_entry vol_sbi 0 = vol_entry 0x80 1 0" "get_seg_entry vol_sbi 6 = vol_entry 0xE0 3 0"
  "t < 6 \<Longrightarrow> t \<noteq> 0 \<Longrightarrow> get_seg_entry vol_sbi t = vol_entry 0 0 t"
  "get_seg_entry vol_sbi 7 = vol_entry 0 0 1" "get_seg_entry vol_sbi 8 = vol_entry 0 0 0" "get_seg_entry vol_sbi 9 = vol_entry 0 0 0"
  unfolding nat_less_6 by (auto simp: get_seg_entry_def vol_sit_def)

lemma vol_live: "b < 8 \<Longrightarrow> s < 10 \<Longrightarrow> live vol_sbi s b \<longleftrightarrow> s = 0 \<and> b = 0 \<or> s = 6 \<and> b < 3"
  unfolding nat_less_10 by (auto simp: live_def vol_entries vol_entry_def)

section \<open>Its invariants\<close>

lemma count_bits_8: "count_bits 8 P = (\<Sum>i\<in>{0, 1, 2, 3, 4, 5, 6, 7}. if P i then 1 else 0)"
  by (simp add: numeral_eq_Suc)

lemma entry_seg_ok:
  assumes "count_bits 8 (bits_of (map_of_byte b)) = n"
  shows "seg_ok linux_env 8 (vol_entry b n ty)"
  using assms by (simp add: seg_ok_def vol_entry_def linux_env_def map_of_byte_def)

lemma entry_counts:
  "count_bits 8 (bits_of (map_of_byte 0x80)) = 1" "count_bits 8 (bits_of (map_of_byte 0xE0)) = 3"
  "count_bits 8 (bits_of (map_of_byte 0)) = 0"
  unfolding count_bits_8 by simp_all

lemma vol_seg_ok: "i < 10 \<Longrightarrow> seg_ok linux_env 8 (get_seg_entry vol_sbi i)"
  using entry_seg_ok [OF entry_counts(1)] entry_seg_ok [OF entry_counts(2)] entry_seg_ok [OF entry_counts(3)]
  unfolding nat_less_10 by (elim insertE) (simp_all add: vol_entries)

lemma vol_geometry: "geometry vol_sbi"
  by (simp add: geometry_def)

lemma vol_addr_consts: "addr_consts linux_env"
  by (simp add: addr_consts_def linux_env_def)

lemma sum_10: "(\<Sum>i<10. (f :: nat \<Rightarrow> nat) i) = f 0 + f 1 + f 2 + f 3 + f 4 + f 5 + f 6 + f 7 + f 8 + f 9"
  by (simp add: numeral_eq_Suc)

lemma upt_10: "[0..<10] = [0, 1, 2, 3, 4, 5, 6, 7, 8, 9 :: nat]"
  by (simp add: upt_rec)

lemmas count_10 = count_bits_def count_clear_def upt_10

lemma vol_vblocks: "i < 10 \<Longrightarrow> vblocks vol_sbi i = (if i = 0 then 1 else if i = 6 then 3 else 0)"
  unfolding nat_less_10 by (elim insertE) (simp_all add: vblocks_def vol_entries vol_entry_def)

lemma vol_sit_ok: "sit_ok linux_env vol_sbi"
proof -
  have "(\<Sum>i<10. vblocks vol_sbi i) = 4" unfolding sum_10 by (simp add: vol_vblocks)
  moreover have "count_bits 10 (\<lambda>_. False) = 0" unfolding count_10 by simp
  moreover have "SIT_VBLOCK_MAP_SIZE linux_env = 64" by (simp add: linux_env_def)
  moreover have "sit_written_valid_blocks vol_sit = 4" "sit_dirty_sentries vol_sit = 0" "length (sit_sentries vol_sit) = 10"
    "sit_dirty_sentries_bitmap vol_sit = (\<lambda>_. False)" by (simp_all add: vol_sit_def)
  ultimately show ?thesis
    using vol_geometry vol_addr_consts vol_seg_ok by (simp add: sit_ok_def)
qed

lemma vol_seg_inuse: "seg_inuse vol_sbi i \<longleftrightarrow> i < 8"
  by (simp add: seg_inuse_def vol_free_def)

lemma vol_free_ok: "free_ok vol_sbi"
proof -
  have "count_clear 10 (\<lambda>i. i < 8) = 2" unfolding count_10 by simp
  then show ?thesis
    by (auto simp: free_ok_def free_segments_def free_sections_def sec_inuse_def vol_seg_inuse) (simp_all add: vol_free_def)
qed

lemma vol_dirty_ok: "dirty_ok vol_sbi"
proof -
  have "count_bits 10 (\<lambda>i. i = 6) = 1" "count_bits 10 (\<lambda>i. i = 7) = 1" "count_bits 10 (\<lambda>_. False) = 0"
    unfolding count_10 by simp_all
  then have "lists_ok 10 vol_dirty"
    unfolding lists_ok_def vol_dirty_def NR_DIRTY_TYPE_def nat_less_8 by simp
  moreover have "types_ok vol_sbi"
    unfolding types_ok_def vol_parts(5) nat_less_10 by (simp add: vol_entries vol_entry_def NR_CURSEG_TYPE_def)
  ultimately show ?thesis by (simp add: dirty_ok_def)
qed

lemma vol_fs_ok: "fs_ok linux_env vol_sbi {}"
proof -
  have six: "NR_CURSEG_TYPE = 6" by (simp add: NR_CURSEG_TYPE_def)
  have seg: "log_seg vol_sbi t = t" if "t < 6" for t using that by (simp add: log_seg_def vol_log_seg) (simp add: vol_log_def)
  have "log_space vol_sbi (CURSEG_I vol_sbi t)" if "t < 6" for t
    using that by (simp add: vol_log_seg log_space_def vol_log_def vol_live)
  then have "logs_ok vol_sbi {}" by (simp add: logs_ok_def six seg vol_seg_inuse)
  moreover have "free_empty vol_sbi" by (simp add: free_empty_def vol_seg_inuse vol_vblocks)
  moreover have "SIT_VBLOCK_MAP_SIZE linux_env = 64" by (simp add: linux_env_def)
  ultimately show ?thesis using vol_sit_ok vol_free_ok vol_dirty_ok by (simp add: fs_ok_def)
qed

lemma vol_free_section: "free_section vol_sbi 8"
  by (simp add: free_section_def vol_free_def)

lemma vol_old_addr: "old_addr linux_env vol_sbi 16" "old_addr linux_env vol_sbi 0" "16 \<in> live_addrs vol_sbi"
proof -
  have "main_addr vol_sbi 0 0 \<in> live_addrs vol_sbi" using live_addrs_main [of 0 vol_sbi 0] by (simp add: vol_live)
  then show "16 \<in> live_addrs vol_sbi" by (simp add: main_addr_def)
  then show "old_addr linux_env vol_sbi 16" "old_addr linux_env vol_sbi 0" by (simp_all add: old_addr_def linux_env_def)
qed

section \<open>What the searches see\<close>

lemma vol_IS_CURSEG: "IS_CURSEG vol_sbi s \<longleftrightarrow> s < 6"
proof -
  have "IS_CURSEG vol_sbi s \<longleftrightarrow> (\<exists>t<6. s = t)"
    unfolding IS_CURSEG_iff NR_CURSEG_TYPE_def using vol_log_seg by (auto simp: vol_log_def)
  then show ?thesis by simp
qed

lemma vol_PRE: "is_dirty vol_sbi PRE i \<longleftrightarrow> i = 7"
  by (simp add: is_dirty_def PRE_def vol_dirty_def)

lemma vol_search: "sbi_max_victim_search vol_sbi = 4096"
  by (simp add: vol_sbi_def)

lemma vol_usage: "sec_usage_check vol_sbi s \<longleftrightarrow> s < 6 \<or> s = NULL_SEGNO"
proof -
  have "IS_CURSEC vol_sbi s \<longleftrightarrow> IS_CURSEG vol_sbi s" by (simp add: IS_CURSEC_def IS_CURSEG_def)
  moreover have "sbi_cur_victim_sec vol_sbi = NULL_SEGNO" by (simp add: vol_sbi_def)
  ultimately show ?thesis by (auto simp: sec_usage_check_def vol_IS_CURSEG)
qed

lemma vol_ssr_candidate: "ssr_candidate vol_sbi BG_GC 0 s \<longleftrightarrow> s = 6"
  by (auto simp: ssr_candidate_def candidate_def is_dirty_def vol_dirty_def vol_usage GET_SECNO_def NULL_SEGNO_def)

text \<open>Zones of two sections, the last section in use: going left from it leads to section 8, whose
  zone 4 is the zone of another log.\<close>

definition vol_left_sbi :: f2fs_sb_info where
  "vol_left_sbi = set_FREE_I (vol_free\<lparr>fsm_free_secmap := \<lambda>i. i < 8 \<or> i = 9\<rparr>) (vol_sbi\<lparr>sbi_secs_per_zone := 2\<rparr>)"

lemma vol_left_parts:
  "FREE_I vol_left_sbi = vol_free\<lparr>fsm_free_secmap := \<lambda>i. i < 8 \<or> i = 9\<rparr>" "TOTAL_SECS vol_left_sbi = 10"
  "sbi_secs_per_zone vol_left_sbi = 2" "sbi_segs_per_sec vol_left_sbi = 1"
  by (simp_all add: vol_left_sbi_def) (simp_all add: vol_sbi_def TOTAL_SECS_def)

lemma vol_left_section: "find_section linux_env vol_left_sbi ALLOC_LEFT 9 False 9 = Some (8, True, 8)"
proof -
  have "find_next_zero_bit linux_env (\<lambda>i. i < 8 \<or> i = 9) 10 9 = 10"
    by (simp add: find_next_zero_bit_scan [OF linux_env_ok]) (rule scan_none; simp)
  then show ?thesis by (simp add: find_section_def vol_left_parts walk_left.simps sub32_id)
qed

lemma vol_left_free: "free_section vol_left_sbi 8"
  by (simp add: free_section_def vol_left_parts)

text \<open>All segments modified at the same time.\<close>

definition vol_same_age :: f2fs_sb_info where
  "vol_same_age = set_SIT_I (vol_sit\<lparr>sit_max_mtime := 100\<rparr>) vol_sbi"

lemma vol_same_age_facts:
  "geometry vol_same_age" "TOTAL_SEGS vol_same_age + sbi_segs_per_sec vol_same_age < 2 ^ 32"
  "sit_min_mtime (SIT_I vol_same_age) = 100" "sit_max_mtime (SIT_I vol_same_age) = 100"
  "\<forall>s<TOTAL_SEGS vol_same_age. is_dirty vol_same_age DIRTY s \<longrightarrow> sec_mtime vol_same_age s = 100"
  "\<not> (\<exists>s. bg_choice vol_same_age s)" "is_dirty vol_same_age DIRTY 6"
proof -
  show "geometry vol_same_age" by (simp add: geometry_def vol_same_age_def)
  have d: "is_dirty vol_same_age DIRTY s \<longleftrightarrow> s = 6" for s by (simp add: vol_same_age_def is_dirty_def vol_dirty_def DIRTY_def)
  then show "is_dirty vol_same_age DIRTY 6" by simp
  have "get_seg_entry vol_same_age 6 = vol_entry 0xE0 3 0" by (simp add: get_seg_entry_def vol_same_age_def vol_sit_def)
  then have "sec_mtime vol_same_age 6 = 100"
    by (simp add: sec_mtime_def GET_SECNO_def vol_same_age_def u32_id u64_id Let_def vol_entry_def)
  then show "\<forall>s<TOTAL_SEGS vol_same_age. is_dirty vol_same_age DIRTY s \<longrightarrow> sec_mtime vol_same_age s = 100" by (simp add: d)
  show "\<not> (\<exists>s. bg_choice vol_same_age s)" by (simp add: bg_choice_def vol_same_age_def vol_dirty_def)
qed (simp_all add: vol_same_age_def vol_sit_def)

text \<open>The background cleaner has chosen section 6.\<close>

definition vol_chosen :: f2fs_sb_info where
  "vol_chosen = set_DIRTY_I (vol_dirty\<lparr>dl_victim_secmap := (\<lambda>_. False)(6 := True)\<rparr>) vol_sbi"

lemma vol_chosen_facts:
  "geometry vol_chosen" "TOTAL_SEGS vol_chosen + sbi_segs_per_sec vol_chosen < 2 ^ 32" "bg_choice vol_chosen s \<longleftrightarrow> s = 6" "sbi_segs_per_sec vol_chosen = 1"
proof -
  show "geometry vol_chosen" by (simp add: geometry_def vol_chosen_def)
  show "bg_choice vol_chosen s \<longleftrightarrow> s = 6" by (auto simp: bg_choice_def vol_chosen_def vol_usage NULL_SEGNO_def)
qed (simp_all add: vol_chosen_def)

end
