(* ===== verification/Small_Mount.thy ===== *)
theory Small_Mount
  imports Remount Small_Volume
begin

text \<open>
  The small volume as it is on disk, for a checkpoint and for a mount.
\<close>

definition zero_raw :: f2fs_sit_entry where
  "zero_raw = \<lparr> rs_vblocks = 0, rs_valid_map = replicate 64 0, rs_mtime = 0 \<rparr>"

definition raw_byte :: "8 word \<Rightarrow> nat \<Rightarrow> nat \<Rightarrow> f2fs_sit_entry" where
  "raw_byte b v m = \<lparr> rs_vblocks = v, rs_valid_map = map_of_byte b, rs_mtime = m \<rparr>"

lemma raw_vol_entry:
  "n < 65536 \<Longrightarrow> raw_sit linux_env (vol_entry b n 0) = raw_byte b n 100"
  "t < 64 \<Longrightarrow> raw_sit linux_env (vol_entry b 0 t) = raw_byte b (t * 1024) 100"
  by (simp_all add: raw_sit_def vol_entry_def raw_byte_def linux_env_def u16_id push_bit_eq_mult)

section \<open>Before a checkpoint\<close>

text \<open>The entry of segment 6 has changed since the last checkpoint.\<close>

definition vol_table :: "f2fs_sit_entry list" where
  "vol_table = [raw_byte 0x80 1 100, raw_byte 0 1024 100, raw_byte 0 2048 100, raw_byte 0 3072 100, raw_byte 0 4096 100, raw_byte 0 5120 100,
     zero_raw, raw_byte 0 1024 100, raw_byte 0 0 100, raw_byte 0 0 100] @ replicate 45 zero_raw"

definition vol_flush :: sit_state where
  "vol_flush = \<lparr> ss_sbi = mark_sit_entry_dirty vol_sbi 6, ss_journal = \<lparr> jr_n = 0, jr_entries = replicate 6 (0, zero_raw) \<rparr>,
     ss_pages = (\<lambda>_. \<lparr> sp_dirty = False, sp_entries = vol_table \<rparr>) \<rparr>"

lemma vol_flush_parts [simp]:
  "ss_sbi vol_flush = mark_sit_entry_dirty vol_sbi 6" "ss_journal vol_flush = \<lparr> jr_n = 0, jr_entries = replicate 6 (0, zero_raw) \<rparr>"
  "ss_pages vol_flush a = \<lparr> sp_dirty = False, sp_entries = vol_table \<rparr>"
  by (simp_all add: vol_flush_def)

lemma vol_mark: "mark_sit_entry_dirty vol_sbi 6 = set_SIT_I (vol_sit\<lparr>sit_dirty_sentries_bitmap := (\<lambda>_. False)(6 := True), sit_dirty_sentries := 1\<rparr>) vol_sbi"
  by (simp add: mark_sit_entry_dirty_def Let_def vol_sit_def u32_id)

lemma vol_mark_parts [simp]:
  "SIT_I (mark_sit_entry_dirty vol_sbi 6) = vol_sit\<lparr>sit_dirty_sentries_bitmap := (\<lambda>_. False)(6 := True), sit_dirty_sentries := 1\<rparr>"
  "FREE_I (mark_sit_entry_dirty vol_sbi 6) = vol_free" "TOTAL_SEGS (mark_sit_entry_dirty vol_sbi 6) = 10" "sbi_blocks_per_seg (mark_sit_entry_dirty vol_sbi 6) = 8"
  "sm_segment_count (SM_I (mark_sit_entry_dirty vol_sbi 6)) = 12" "get_seg_entry (mark_sit_entry_dirty vol_sbi 6) = get_seg_entry vol_sbi"
  by (simp_all add: vol_mark) (simp_all add: vol_sm_def get_seg_entry_def fun_eq_iff)

lemma vol_flush_sit_ok: "sit_ok linux_env (ss_sbi vol_flush)" "free_ok (ss_sbi vol_flush)" "types_ok (ss_sbi vol_flush)"
proof -
  show "sit_ok linux_env (ss_sbi vol_flush)" using fold_mark_dirty [OF vol_sit_ok, of "[6]" id] by simp
  have "free_ok (ss_sbi vol_flush) = free_ok vol_sbi" by (rule free_ok_cong) (simp_all add: vol_mark)
  then show "free_ok (ss_sbi vol_flush)" using vol_free_ok by simp
  show "types_ok (ss_sbi vol_flush)" using vol_dirty_ok by (simp add: dirty_ok_def types_ok_def)
qed

lemma linux_sit_parts [simp]: "SIT_ENTRY_PER_BLOCK linux_env = 55" "SIT_VBLOCK_MAP_SIZE linux_env = 64" "SIT_JOURNAL_ENTRIES linux_layout = 6"
  by (simp_all add: linux_env_def linux_layout_def)

lemma raw_byte_map [simp]: "length (rs_valid_map (raw_byte b v m)) = 64" "length (rs_valid_map zero_raw) = 64"
  by (simp_all add: raw_byte_def map_of_byte_def zero_raw_def)

lemma vol_table_len: "length vol_table = 55" "e \<in> set vol_table \<Longrightarrow> length (rs_valid_map e) = 64"
  by (auto simp: vol_table_def)

lemma vol_table_raw: "k < 10 \<Longrightarrow> k \<noteq> 6 \<Longrightarrow> vol_table ! k = raw_sit linux_env (get_seg_entry vol_sbi k)"
  unfolding nat_less_10 by (elim insertE) (simp_all add: vol_table_def vol_entries raw_vol_entry [simplified])

lemma vol_flush_shape: "sit_shape linux_env linux_layout vol_flush"
  using vol_table_len(2)
  by (simp add: sit_shape_def sit_geom_def journal_ok_def journal_map_def vol_table_len(1)) (simp add: vol_sit_def)

lemma vol_ckpted: "k < 10 \<Longrightarrow> ckpted (get_seg_entry vol_sbi k) = get_seg_entry vol_sbi k"
  unfolding nat_less_10 by (elim insertE) (simp_all add: vol_entries ckpted_def vol_entry_def)

lemma vol_flush_disk: "sit_disk_ok linux_env vol_flush"
  by (auto simp: sit_disk_ok_def disk_sit_def journal_map_def vol_table_raw vol_ckpted)

lemma vol_flush_fits: "sit_fits linux_env (ss_sbi vol_flush)"
  using linux_env_raw_sit by (simp add: sit_fits_def) (simp add: linux_env_def curseg_types)

section \<open>On disk\<close>

definition mnt_super :: f2fs_super_block where
  "mnt_super = \<lparr> rsb_segment0_blkaddr = 16, rsb_cp_blkaddr = 0, rsb_sit_blkaddr = 2, rsb_ssa_blkaddr = 8, rsb_main_blkaddr = 16,
     rsb_segment_count = 12, rsb_segment_count_sit = 2, rsb_segment_count_main = 10, rsb_log_blocks_per_seg = 3 \<rparr>"

definition mnt_ckpt :: f2fs_checkpoint where
  "mnt_ckpt = \<lparr> ck_version = 1, ck_valid_block_count = 4, ck_rsvd_segment_count = 1, ck_overprov_segment_count = 2,
     ck_cur_data_segno = [0, 1, 2], ck_cur_data_blkoff = [1, 0, 0], ck_cur_node_segno = [3, 4, 5], ck_cur_node_blkoff = [0, 0, 0],
     ck_alloc_type = replicate 6 LFS, ck_umount = True, ck_compact_sum = False, ck_pack_total_block_count = 8, ck_pack_start_sum = 1,
     ck_elapsed_time = 0, ck_free_segment_count = 4, ck_valid_node_count = 0, ck_valid_inode_count = 0, ck_next_free_nid = 1,
     ck_orphan_present = False, ck_error = False, ck_sit_bitmap = [0], ck_nat_bitmap = [0], ck_checksum_offset = 4092 \<rparr>"

definition mnt_sums :: f2fs_summary_block where
  "mnt_sums = \<lparr> sb_entries = replicate 8 \<lparr> sum_nid = 0, sum_ofs_in_node = 0, sum_version = 0 \<rparr>, sb_entry_type = 0 \<rparr>"

definition mnt_sbi :: f2fs_sb_info where
  "mnt_sbi = vol_sbi\<lparr>sbi_meta_pages := \<lambda>_. mnt_sums\<rparr>"

definition mnt_journals :: "f2fs_nat_entry journal \<times> f2fs_sit_entry journal" where
  "mnt_journals = (\<lparr> jr_n = 0, jr_entries = [] \<rparr>, \<lparr> jr_n = 1, jr_entries = (6, raw_byte 0xE0 3 100) # replicate 5 (0, zero_raw) \<rparr>)"

definition mnt_pages :: "nat \<Rightarrow> sit_page" where
  "mnt_pages = (\<lambda>_. \<lparr> sp_dirty = False, sp_entries = vol_table \<rparr>)"

definition mnt_nn :: "nat \<Rightarrow> nat option" where "mnt_nn = (\<lambda>_. None)"

definition mnt_cp :: "nat \<Rightarrow> cp_page" where
  "mnt_cp = (\<lambda>_. \<lparr> cpp_nats = fst mnt_journals, cpp_sits = snd mnt_journals, cpp_sums = (\<lambda>_. \<lparr> sum_nid = 0, sum_ofs_in_node = 0, sum_version = 0 \<rparr>) \<rparr>)"

definition mnt_image :: sit_state where
  "mnt_image = image_state linux_env 8 mnt_super mnt_ckpt mnt_cp mnt_journals mnt_pages mnt_sbi"

lemma mnt_image_parts [simp]:
  "TOTAL_SEGS (ss_sbi mnt_image) = 10" "sbi_blocks_per_seg (ss_sbi mnt_image) = 8" "ss_journal mnt_image = snd mnt_journals" "ss_pages mnt_image = mnt_pages"
  "sm_segment_count (SM_I (ss_sbi mnt_image)) = 12" "sit_base_addr (SIT_I (ss_sbi mnt_image)) = 2" "sit_blocks (SIT_I (ss_sbi mnt_image)) = 8"
  "sit_bitmap (SIT_I (ss_sbi mnt_image)) = [0]" "sit_sents_per_block (SIT_I (ss_sbi mnt_image)) = 55" "sbi_meta_pages (ss_sbi mnt_image) = (\<lambda>_. mnt_sums)"
  by (simp_all add: mnt_image_def image_state_def Let_def mount_start_simps)
    (simp_all add: mnt_super_def mnt_sbi_def mount_start_def Let_def build_free_segmap_def build_sit_info_def init_sm_info_def pack_journals_def
      accessors setters mnt_ckpt_def push_bit_eq_mult u32_id vol_sbi_def)

lemma mnt_geometry: "geometry (ss_sbi mnt_image)"
  by (simp add: geometry_def)
    (simp add: mnt_image_def image_state_def mnt_super_def mnt_sbi_def mount_start_def Let_def build_free_segmap_def build_sit_info_def
      init_sm_info_def accessors setters vol_sbi_def TOTAL_SECS_def GET_SEGNO_FROM_SEG0_def GET_SEGOFF_FROM_SEG0_def u32_id sub32_id)

lemma mnt_disk: "k < 10 \<Longrightarrow> disk_sit linux_env mnt_image k = raw_sit linux_env (get_seg_entry vol_sbi k)"
  using vol_table_raw [of k]
  by (cases "k = 6") (simp_all add: disk_sit_def mnt_journals_def journal_map_def mnt_pages_def vol_entries raw_vol_entry)

lemma mnt_raw_ok: "k < 10 \<Longrightarrow> raw_entry_ok linux_env 8 (disk_sit linux_env mnt_image k)"
  using raw_sit_entry_ok(1) [OF vol_seg_ok [of k]] vol_flush_fits vol_flush_sit_ok(3)
  by (simp add: mnt_disk types_ok_def sit_fits_def)

lemma mnt_sit_image: "sit_image_ok linux_env linux_layout mnt_image"
proof -
  have "\<And>e. e \<in> set vol_table \<Longrightarrow> length (rs_valid_map e) = 64" by (rule vol_table_len(2))
  then have "sit_shape linux_env linux_layout mnt_image"
    by (simp add: sit_shape_def sit_geom_def journal_ok_def journal_map_def vol_table_len(1) mnt_journals_def mnt_pages_def)
  then show ?thesis using mnt_geometry vol_addr_consts mnt_raw_ok by (simp add: sit_image_ok_def)
qed

lemma mnt_valid: "k < 10 \<Longrightarrow> GET_SIT_VBLOCKS linux_env (rs_vblocks (disk_sit linux_env mnt_image k)) = (if k = 0 then 1 else if k = 6 then 3 else 0)"
  unfolding nat_less_10 by (elim insertE) (simp_all add: mnt_disk vol_entries raw_vol_entry, simp_all add: raw_byte_def linux_env_def)

lemma mnt_ck: "t < 6 \<Longrightarrow> ck_segno mnt_ckpt t = t" "t < 6 \<Longrightarrow> ck_blkoff mnt_ckpt t = (if t = 0 then 1 else 0)"
  unfolding nat_less_6 by (auto simp: ck_segno_def ck_blkoff_def mnt_ckpt_def IS_DATASEG_def curseg_types)

lemma mnt_image_ok: "image_ok linux_env linux_layout mnt_ckpt mnt_nn mnt_image"
proof -
  have bits: "bits_of (rs_valid_map (disk_sit linux_env mnt_image k)) b \<longleftrightarrow> k = 0 \<and> b = 0 \<or> k = 6 \<and> b < 3" if "k < 10" "b < 8" for k b
    using vol_live [OF that(2,1)] that by (simp add: mnt_disk raw_sit_def live_def)
  have "ckpt_logs_ok linux_env mnt_ckpt mnt_image"
    by (auto simp: ckpt_logs_ok_def mnt_ck bits curseg_types)
  moreover have "(\<Sum>i<10. GET_SIT_VBLOCKS linux_env (rs_vblocks (disk_sit linux_env mnt_image i))) = 4"
    unfolding sum_10 by (simp add: mnt_valid)
  moreover have "ck_valid_block_count mnt_ckpt = 4" "ck_umount mnt_ckpt" by (simp_all add: mnt_ckpt_def)
  moreover have "pages_full (ss_sbi mnt_image)" by (simp add: pages_full_def mnt_sums_def)
  ultimately show ?thesis using mnt_sit_image by (simp add: image_ok_def nodes_readable_def)
qed

section \<open>Compact summaries\<close>

definition cs_ckpt :: f2fs_checkpoint where
  "cs_ckpt = mnt_ckpt\<lparr>ck_compact_sum := True\<rparr>"

lemma vol_logs_shape: "logs_shape vol_sbi"
  by (simp add: logs_shape_def vol_log_seg curseg_types vol_log_def)

lemma cs_ckpt_of: "ckpt_of cs_ckpt vol_sbi"
  by (simp add: ckpt_of_def cs_ckpt_def mnt_ckpt_def vol_log_seg less_Suc_eq numeral_3_eq_3) (simp add: vol_log_def)

lemma vol_log_offs: "i < 3 \<Longrightarrow> cs_next_blkoff (CURSEG_I vol_sbi i) \<le> 8"
  by (simp add: vol_log_seg) (simp add: vol_log_def)

lemma vol_cs_npages: "npages_for_summary_flush linux_sums cs_ckpt vol_sbi < 3"
  unfolding npages_for_summary_flush_def three_logs
  by (simp add: Let_def linux_sums_def cs_ckpt_def mnt_ckpt_def curseg_blkoff_def vol_log_seg) (simp add: vol_log_def)

lemma vol_start_3: "START_BLOCK vol_sbi 3 = 40"
  by (simp add: START_BLOCK_def GET_R2L_SEGNO_def u32_id push_bit_eq_mult)

section \<open>Mounted again\<close>

definition vol_remount :: "sit_state \<Rightarrow> sit_state" where
  "vol_remount S = S\<lparr>ss_sbi := set_SIT_I ((SIT_I (ss_sbi S))\<lparr>sit_sentries := replicate 10 (zero_seg_entry linux_env)\<rparr>) vol_sbi\<rparr>"

lemma vol_remount_pages [simp]: "ss_pages (vol_remount S) = ss_pages S" "ss_journal (vol_remount S) = ss_journal S"
  by (simp_all add: vol_remount_def)

lemma vol_remount_fresh: "fresh_sit linux_env (vol_remount S)"
  by (simp add: fresh_sit_def vol_remount_def get_seg_entry_def zero_seg_entry_def)

lemma vol_remount_same:
  assumes "sit_shape linux_env linux_layout S" and "TOTAL_SEGS (ss_sbi S) = 10"
  shows "same_disk linux_env vol_flush S (vol_remount S)"
proof -
  have "sit_addr linux_env (SIT_I (ss_sbi (vol_remount S))) = sit_addr linux_env (SIT_I (ss_sbi S))"
    by (rule sit_addr_cong) (simp_all add: vol_remount_def)
  moreover have "sit_geom linux_env (ss_sbi (vol_remount S))"
    using sit_shapeD(1) [OF assms(1)] assms(2) by (simp add: sit_geom_def vol_remount_def) (simp add: vol_sm_def)
  moreover have "geometry (ss_sbi (vol_remount S))" using vol_geometry by (simp add: vol_remount_def)
  ultimately show ?thesis by (simp add: same_disk_def) (simp add: vol_remount_def)
qed

end
