(* ===== verification/Free_Nids.thy ===== *)
theory Free_Nids
  imports Nat_Flush
begin

text \<open>
  The list of free node ids: ids on it are counted, stand on it once and, as far as the node
  address table says, belong to no node.  \<open>build_free_nids\<close> fills it from the table and the
  journal, \<open>alloc_nid\<close> takes from it.
\<close>

section \<open>The invariant\<close>

definition free_new :: "free_nid list \<Rightarrow> nat set" where
  "free_new is = {fn_nid i |i. i \<in> set is \<and> fn_state i = NID_NEW}"

definition nid_list_ok :: "f2fs_nm_info \<Rightarrow> bool" where
  "nid_list_ok nm_i \<longleftrightarrow> distinct (map fn_nid (nm_free_nid_list nm_i))
     \<and> (\<forall>i\<in>set (nm_free_nid_list nm_i). fn_nid i \<noteq> 0 \<and> fn_nid i < nm_max_nid nm_i)
     \<and> nm_fcnt nm_i = length (filter (\<lambda>i. fn_state i = NID_NEW) (nm_free_nid_list nm_i))"

lemma free_new_simps:
  "free_new [] = {}" "free_new (xs @ ys) = free_new xs \<union> free_new ys"
  "free_new (i # is) = (if fn_state i = NID_NEW then insert (fn_nid i) (free_new is) else free_new is)"
  by (auto simp: free_new_def)

text \<open>The ids that can be handed out belong to no node.\<close>

definition nids_free :: "f2fs_env \<Rightarrow> node_layout \<Rightarrow> f2fs_sb_info \<Rightarrow> nat_state \<Rightarrow> bool" where
  "nids_free E L sbi S \<longleftrightarrow>
     (\<forall>nid\<in>free_new (nm_free_nid_list (ns_nm S)). rne_block_addr (nat_lookup L sbi S nid) = NULL_ADDR E)"

lemma nid_list_okD:
  assumes "nid_list_ok nm_i"
  shows "distinct (map fn_nid (nm_free_nid_list nm_i))"
    "\<And>i. i \<in> set (nm_free_nid_list nm_i) \<Longrightarrow> fn_nid i \<noteq> 0" "\<And>i. i \<in> set (nm_free_nid_list nm_i) \<Longrightarrow> fn_nid i < nm_max_nid nm_i"
    "nm_fcnt nm_i = length (filter (\<lambda>i. fn_state i = NID_NEW) (nm_free_nid_list nm_i))"
    "length (nm_free_nid_list nm_i) \<le> nm_max_nid nm_i"
proof -
  let ?ns = "map fn_nid (nm_free_nid_list nm_i)"
  have "set ?ns \<subseteq> {..<nm_max_nid nm_i}" using assms by (auto simp: nid_list_ok_def)
  then have "card (set ?ns) \<le> nm_max_nid nm_i" using card_mono [of "{..<nm_max_nid nm_i}"] by fastforce
  moreover have "card (set ?ns) = length ?ns" by (rule distinct_card) (use assms in \<open>simp add: nid_list_ok_def\<close>)
  ultimately show "length (nm_free_nid_list nm_i) \<le> nm_max_nid nm_i" by simp
qed (use assms in \<open>auto simp: nid_list_ok_def\<close>)

lemma lookup_free_nid_list_Some:
  "lookup_free_nid_list n is = Some i \<Longrightarrow> i \<in> set is \<and> fn_nid i = n"
  by (auto simp: lookup_free_nid_list_def find_Some_iff)

lemma lookup_free_nid_list_None: "lookup_free_nid_list n is = None \<longleftrightarrow> n \<notin> fn_nid ` set is"
  by (auto simp: lookup_free_nid_list_def find_None_iff)

lemma lookup_free_nid_list_in:
  assumes "distinct (map fn_nid is)" and "i \<in> set is"
  shows "lookup_free_nid_list (fn_nid i) is = Some i"
proof (cases "lookup_free_nid_list (fn_nid i) is")
  case None
  then show ?thesis using assms(2) by (auto simp: lookup_free_nid_list_None)
next
  case (Some j)
  then have "j \<in> set is" "fn_nid j = fn_nid i" using lookup_free_nid_list_Some by auto
  then show ?thesis using Some assms by (metis distinct_map inj_onD)
qed

section \<open>Adding and removing\<close>

text \<open>The manager's data but for the list of free ids and the place of the next scan.\<close>

definition same_nat :: "f2fs_nm_info \<Rightarrow> f2fs_nm_info \<Rightarrow> bool" where
  "same_nat a b \<longleftrightarrow> b\<lparr>nm_free_nid_list := [], nm_fcnt := 0, nm_next_scan_nid := 0\<rparr>
     = a\<lparr>nm_free_nid_list := [], nm_fcnt := 0, nm_next_scan_nid := 0\<rparr>"

lemma same_nat_simps [simp]:
  "same_nat a a" "same_nat a (a\<lparr>nm_free_nid_list := l, nm_fcnt := c\<rparr>)" "same_nat a (a\<lparr>nm_free_nid_list := l\<rparr>)"
  "same_nat a (a\<lparr>nm_next_scan_nid := s\<rparr>)"
  by (simp_all add: same_nat_def)

lemma same_nat_trans: "same_nat a b \<Longrightarrow> same_nat b c \<Longrightarrow> same_nat a c"
  by (simp add: same_nat_def)

lemma same_natD:
  assumes "same_nat a b"
  shows "nm_nat_root b = nm_nat_root a" "nm_max_nid b = nm_max_nid a" "same_table a b" "cache_ok b = cache_ok a"
    "nm_nat_entries b = nm_nat_entries a" "nm_dirty_nat_entries b = nm_dirty_nat_entries a"
proof -
  note eq = assms [unfolded same_nat_def]
  show r: "nm_nat_root b = nm_nat_root a" "nm_max_nid b = nm_max_nid a"
    "nm_nat_entries b = nm_nat_entries a" "nm_dirty_nat_entries b = nm_dirty_nat_entries a"
    using arg_cong [OF eq, of nm_nat_root] arg_cong [OF eq, of nm_max_nid]
      arg_cong [OF eq, of nm_nat_entries] arg_cong [OF eq, of nm_dirty_nat_entries] by simp_all
  show "same_table a b"
    using arg_cong [OF eq, of nm_nat_blkaddr] arg_cong [OF eq, of nm_nat_bitmap] r(2) by (simp add: same_table_def)
  show "cache_ok b = cache_ok a"
    using arg_cong [OF eq, of nm_nat_cnt] unfolding cache_ok_def r by simp
qed

lemma same_nat_state:
  assumes "same_nat (ns_nm S) nm"
  shows "nat_ok L sbi (S\<lparr>ns_nm := nm\<rparr>) = nat_ok L sbi S" "nat_lookup L sbi (S\<lparr>ns_nm := nm\<rparr>) = nat_lookup L sbi S"
    "page_nat L sbi (S\<lparr>ns_nm := nm\<rparr>) = page_nat L sbi S"
proof -
  note D = same_natD [OF assms]
  show "nat_lookup L sbi (S\<lparr>ns_nm := nm\<rparr>) = nat_lookup L sbi S"
    unfolding fun_eq_iff nat_lookup_nm [OF D(3)] D(1) by (simp add: nat_lookup_def)
  show "nat_ok L sbi (S\<lparr>ns_nm := nm\<rparr>) = nat_ok L sbi S"
    using D(3) unfolding nat_ok_def disk_nat_nm [OF D(3)] nat_geom_def by (simp add: D same_table_def)
  show "page_nat L sbi (S\<lparr>ns_nm := nm\<rparr>) = page_nat L sbi S"
    by (simp add: page_nat_def same_table_addr [OF D(3)] fun_eq_iff)
qed

lemma add_free_nid_ok:
  assumes ok: "nid_list_ok nm" and n: "nid < nm_max_nid nm" and max: "nm_max_nid nm < 2 ^ 32"
    and a: "add_free_nid E L nm nid build = (r, nm')"
  shows "nid_list_ok nm'" "same_nat nm nm'"
    "free_new (nm_free_nid_list nm') = free_new (nm_free_nid_list nm)
     \<or> free_new (nm_free_nid_list nm') = insert nid (free_new (nm_free_nid_list nm))
       \<and> (build \<longrightarrow> (\<forall>e. nm_nat_root nm nid = Some e \<longrightarrow> ni_blk_addr (nat_ni e) = NULL_ADDR E))"
proof -
  note F = nid_list_okD [OF ok]
  have "nid_list_ok nm' \<and> same_nat nm nm' \<and> (free_new (nm_free_nid_list nm') = free_new (nm_free_nid_list nm)
     \<or> free_new (nm_free_nid_list nm') = insert nid (free_new (nm_free_nid_list nm))
       \<and> (build \<longrightarrow> (\<forall>e. nm_nat_root nm nid = Some e \<longrightarrow> ni_blk_addr (nat_ni e) = NULL_ADDR E)))"
  proof (cases "nm' = nm")
    case True
    then show ?thesis using ok by simp
  next
    case False
    let ?i = "\<lparr> fn_nid = nid, fn_state = NID_NEW \<rparr>"
    have r: "nid \<noteq> 0" "lookup_free_nid_list nid (nm_free_nid_list nm) = None"
      "nm' = nm\<lparr>nm_free_nid_list := nm_free_nid_list nm @ [?i], nm_fcnt := u32 (nm_fcnt nm + 1)\<rparr>"
      "build \<longrightarrow> (\<forall>e. nm_nat_root nm nid = Some e \<longrightarrow> ni_blk_addr (nat_ni e) = NULL_ADDR E)"
      using a False by (auto simp: add_free_nid_def lookup_nat_cache_def split: if_splits)
    have new: "nid \<notin> fn_nid ` set (nm_free_nid_list nm)" using r(2) lookup_free_nid_list_None by simp
    have "length (nid # map fn_nid (nm_free_nid_list nm)) \<le> nm_max_nid nm"
    proof -
      let ?ns = "nid # map fn_nid (nm_free_nid_list nm)"
      have "set ?ns \<subseteq> {..<nm_max_nid nm}" using F(3) n by auto
      then have "card (set ?ns) \<le> nm_max_nid nm" using card_mono [of "{..<nm_max_nid nm}"] by fastforce
      moreover have "card (set ?ns) = length ?ns" by (rule distinct_card) (use F(1) new in simp)
      ultimately show ?thesis by simp
    qed
    moreover have "nm_fcnt nm \<le> length (nm_free_nid_list nm)" by (simp add: F(4))
    ultimately have "u32 (nm_fcnt nm + 1) = nm_fcnt nm + 1" using max by (intro u32_id) simp
    moreover have "free_new (nm_free_nid_list nm @ [?i]) = insert nid (free_new (nm_free_nid_list nm))"
      by (force simp: free_new_def)
    ultimately show ?thesis using F new n r by (auto simp: nid_list_ok_def)
  qed
  then show "nid_list_ok nm'" "same_nat nm nm'"
    "free_new (nm_free_nid_list nm') = free_new (nm_free_nid_list nm)
     \<or> free_new (nm_free_nid_list nm') = insert nid (free_new (nm_free_nid_list nm))
       \<and> (build \<longrightarrow> (\<forall>e. nm_nat_root nm nid = Some e \<longrightarrow> ni_blk_addr (nat_ni e) = NULL_ADDR E))" by blast+
qed

text \<open>Taking an entry off the list, and changing the state of one.\<close>

lemma length_filter_remove1:
  "x \<in> set xs \<Longrightarrow> length (filter P (remove1 x xs)) = (if P x then length (filter P xs) - 1 else length (filter P xs))"
proof (induction xs)
  case (Cons a xs)
  show ?case
  proof (cases "a = x")
    case False
    with Cons have "x \<in> set xs" by simp
    then have "P x \<Longrightarrow> 0 < length (filter P xs)" by (auto simp: filter_empty_conv)
    with Cons \<open>x \<in> set xs\<close> False show ?thesis by auto
  qed auto
qed simp

lemma nid_list_ok_remove:
  assumes ok: "nid_list_ok nm" and i: "i \<in> set (nm_free_nid_list nm)" and max: "nm_max_nid nm < 2 ^ 32"
  defines "nm' \<equiv> (del_from_free_nid_list nm i)\<lparr>nm_fcnt := (if fn_state i = NID_NEW then sub32 (nm_fcnt nm) 1 else nm_fcnt nm)\<rparr>"
  shows "nid_list_ok nm'" "same_nat nm nm'" "free_new (nm_free_nid_list nm') = free_new (nm_free_nid_list nm) - {fn_nid i}"
proof -
  note F = nid_list_okD [OF ok]
  have d: "distinct (nm_free_nid_list nm)" using F(1) by (simp add: distinct_map)
  have l: "nm_free_nid_list nm' = remove1 i (nm_free_nid_list nm)" "nm_max_nid nm' = nm_max_nid nm"
    by (simp_all add: nm'_def del_from_free_nid_list_def)
  have s: "set (remove1 i (nm_free_nid_list nm)) = set (nm_free_nid_list nm) - {i}" using d by simp
  have "nm_fcnt nm \<le> length (nm_free_nid_list nm)" by (simp add: F(4))
  then have small: "nm_fcnt nm < 2 ^ 32" using F(5) max by simp
  have pos: "fn_state i = NID_NEW \<Longrightarrow> 1 \<le> nm_fcnt nm" using i by (auto simp: F(4) Suc_le_eq filter_empty_conv)
  have "distinct (map fn_nid (remove1 i (nm_free_nid_list nm)))"
    using F(1) s by (auto simp: distinct_map d intro: inj_on_subset)
  moreover have "nm_fcnt nm' = length (filter (\<lambda>i. fn_state i = NID_NEW) (remove1 i (nm_free_nid_list nm)))"
    using length_filter_remove1 [OF i, of "\<lambda>i. fn_state i = NID_NEW"] pos small by (simp add: nm'_def sub32_id F(4))
  ultimately show "nid_list_ok nm'" using F(2,3) s unfolding nid_list_ok_def l by blast
  show "same_nat nm nm'" by (simp add: nm'_def del_from_free_nid_list_def)
  have "fn_nid j \<noteq> fn_nid i" if "j \<in> set (nm_free_nid_list nm)" "j \<noteq> i" for j
    using F(1) that i by (meson distinct_map inj_onD)
  then show "free_new (nm_free_nid_list nm') = free_new (nm_free_nid_list nm) - {fn_nid i}"
    unfolding l free_new_def s by auto
qed

lemma remove_free_nid_ok:
  assumes ok: "nid_list_ok nm" and max: "nm_max_nid nm < 2 ^ 32"
  shows "nid_list_ok (remove_free_nid nm nid)" "same_nat nm (remove_free_nid nm nid)"
    "free_new (nm_free_nid_list (remove_free_nid nm nid)) = free_new (nm_free_nid_list nm) - {nid}"
proof -
  note F = nid_list_okD [OF ok]
  have "nid_list_ok (remove_free_nid nm nid) \<and> same_nat nm (remove_free_nid nm nid)
    \<and> free_new (nm_free_nid_list (remove_free_nid nm nid)) = free_new (nm_free_nid_list nm) - {nid}"
  proof (cases "lookup_free_nid_list nid (nm_free_nid_list nm)")
    case None
    then have "nid \<notin> free_new (nm_free_nid_list nm)" by (auto simp: lookup_free_nid_list_None free_new_def)
    then show ?thesis using None ok by (simp add: remove_free_nid_def)
  next
    case (Some i)
    from lookup_free_nid_list_Some [OF Some] have i: "i \<in> set (nm_free_nid_list nm)" "fn_nid i = nid" by simp_all
    show ?thesis
    proof (cases "fn_state i = NID_NEW")
      case True
      then show ?thesis using nid_list_ok_remove [OF ok i(1) max] Some i(2) by (simp add: remove_free_nid_def)
    next
      case False
      have "j = i" if "j \<in> set (nm_free_nid_list nm)" "fn_nid j = nid" for j
        using F(1) that i by (metis distinct_map inj_onD)
      then have "nid \<notin> free_new (nm_free_nid_list nm)" using False by (auto simp: free_new_def)
      then show ?thesis using Some False ok by (simp add: remove_free_nid_def)
    qed
  qed
  then show "nid_list_ok (remove_free_nid nm nid)" "same_nat nm (remove_free_nid nm nid)"
    "free_new (nm_free_nid_list (remove_free_nid nm nid)) = free_new (nm_free_nid_list nm) - {nid}" by blast+
qed

section \<open>Scanning the table and the journal\<close>

text \<open>No entry on disk has the address of a node that was never written.\<close>

definition no_new_on_disk :: "f2fs_env \<Rightarrow> node_layout \<Rightarrow> f2fs_sb_info \<Rightarrow> nat_state \<Rightarrow> bool" where
  "no_new_on_disk E L sbi S \<longleftrightarrow> (\<forall>nid<nm_max_nid (ns_nm S). rne_block_addr (page_nat L sbi S nid) \<noteq> NEW_ADDR E)"

text \<open>During a scan an id of \<open>J\<close> may be on the list although the journal gives it to a node.\<close>

definition scan_ok :: "f2fs_env \<Rightarrow> node_layout \<Rightarrow> f2fs_sb_info \<Rightarrow> nat_state \<Rightarrow> nat set \<Rightarrow> f2fs_nm_info \<Rightarrow> bool" where
  "scan_ok E L sbi S J nm \<longleftrightarrow> nid_list_ok nm \<and> same_nat (ns_nm S) nm
     \<and> (\<forall>nid\<in>free_new (nm_free_nid_list nm). rne_block_addr (nat_lookup L sbi S nid) = NULL_ADDR E \<or> nid \<in> J)"

definition journal_used :: "f2fs_env \<Rightarrow> nat_state \<Rightarrow> nat set" where
  "journal_used E S = {nid. \<exists>ne. journal_map (ns_journal S) nid = Some ne \<and> rne_block_addr ne \<noteq> NULL_ADDR E}"

lemma scan_okD:
  assumes "scan_ok E L sbi S J nm"
  shows "nid_list_ok nm" "same_nat (ns_nm S) nm" "nm_max_nid nm = nm_max_nid (ns_nm S)" "nm_nat_root nm = nm_nat_root (ns_nm S)"
  using assms same_natD(1,2) by (auto simp: scan_ok_def)

lemma scan_ok_add:
  assumes ok: "scan_ok E L sbi S J nm" and n: "nid < nm_max_nid (ns_nm S)" and max: "nm_max_nid (ns_nm S) < 2 ^ 32"
    and a: "add_free_nid E L nm nid True = (r, nm')"
    and disk: "rne_block_addr (disk_nat L sbi S nid) = NULL_ADDR E \<or> nid \<in> J"
  shows "scan_ok E L sbi S J nm'"
proof -
  note D = scan_okD [OF ok]
  have n': "nid < nm_max_nid nm" "nm_max_nid nm < 2 ^ 32" using n max D(3) by simp_all
  note A = add_free_nid_ok [OF D(1) n' a]
  have "rne_block_addr (nat_lookup L sbi S nid) = NULL_ADDR E \<or> nid \<in> J"
    if "\<forall>e. nm_nat_root nm nid = Some e \<longrightarrow> ni_blk_addr (nat_ni e) = NULL_ADDR E"
    using that disk D(4) by (auto simp: nat_lookup_def raw_of_def split: option.splits)
  then show ?thesis
    using A(1,3) same_nat_trans [OF D(2) A(2)] ok unfolding scan_ok_def by auto
qed

lemma scan_nat_entries_ok:
  assumes "nat_ok L sbi S" and "no_new_on_disk E L sbi S" and "scan_ok E L sbi S (journal_used E S) nm"
    and "b * NAT_ENTRY_PER_BLOCK L \<le> start" and "start + n = Suc b * NAT_ENTRY_PER_BLOCK L"
    and "\<And>m. m < nm_max_nid (ns_nm S) \<Longrightarrow> nat_blk L m = b \<Longrightarrow> entries = np_entries (cur_page L sbi S m)"
  shows "\<exists>nm'. scan_nat_entries E L n entries start nm = Some nm' \<and> scan_ok E L sbi S (journal_used E S) nm'"
  using assms(3-5)
proof (induction n arbitrary: start nm)
  case 0
  then show ?case by simp
next
  case (Suc n)
  note D = scan_okD [OF Suc.prems(1)] and g = nat_okD(1) [OF assms(1)]
  let ?N = "NAT_ENTRY_PER_BLOCK L"
  have pos: "0 < ?N" by (rule nat_geomD(1) [OF g])
  have max: "nm_max_nid (ns_nm S) < 2 ^ 32" by (rule cache_okD(6) [OF nat_okD(2) [OF assms(1)]])
  show ?case
  proof (cases "nm_max_nid nm \<le> start")
    case True
    then show ?thesis using Suc.prems(1) by simp
  next
    case False
    then have st: "start < nm_max_nid (ns_nm S)" using D(3) by simp
    have "start < Suc b * ?N" using Suc.prems(3) by simp
    then have blk: "nat_blk L start = b"
      using Suc.prems(2) pos by (metis div_nat_eqI mult.commute)
    have e: "entries ! (start mod ?N) = page_nat L sbi S start"
      using assms(6) [OF st blk] by (simp add: page_nat_def)
    have u: "u32 (Suc start) = Suc start" using st max by (intro u32_id) simp
    have next': "b * ?N \<le> Suc start" "Suc start + n = Suc b * ?N" using Suc.prems(2,3) by simp_all
    have new: "rne_block_addr (page_nat L sbi S start) \<noteq> NEW_ADDR E" using assms(2) st by (simp add: no_new_on_disk_def)
    show ?thesis
    proof (cases "rne_block_addr (page_nat L sbi S start) = NULL_ADDR E")
      case True
      obtain r nm1 where a: "add_free_nid E L nm start True = (r, nm1)" by fastforce
      have "rne_block_addr (disk_nat L sbi S start) = NULL_ADDR E \<or> start \<in> journal_used E S"
        using True by (auto simp: disk_nat_def journal_used_def split: option.split)
      note A = scan_ok_add [OF Suc.prems(1) st max a this]
      show ?thesis
        using Suc.IH [OF A next'] A True new False by (auto simp: e u a f2fs_bug_on_def)
    next
      case no: False
      then show ?thesis using Suc.IH [OF Suc.prems(1) next'] new False by (auto simp: e u f2fs_bug_on_def)
    qed
  qed
qed

lemma scan_nat_pages_ok:
  assumes "nat_ok L sbi S" and "no_new_on_disk E L sbi S" and "scan_ok E L sbi S (journal_used E S) nm"
    and "nid < nm_max_nid (ns_nm S)"
  shows "\<exists>nid' nm'. scan_nat_pages E L sbi n nid (S\<lparr>ns_nm := nm\<rparr>) = Some (nid', S\<lparr>ns_nm := nm'\<rparr>)
    \<and> scan_ok E L sbi S (journal_used E S) nm' \<and> nid' < nm_max_nid (ns_nm S)"
  using assms(3,4)
proof (induction n arbitrary: nid nm)
  case 0
  then show ?case by auto
next
  case (Suc n)
  note D = scan_okD [OF Suc.prems(1)] and g = nat_okD(1) [OF assms(1)]
  let ?N = "NAT_ENTRY_PER_BLOCK L" and ?b = "nat_blk L nid"
  have pos: "0 < ?N" by (rule nat_geomD(1) [OF g])
  have addr: "current_nat_addr L sbi nm = current_nat_addr L sbi (ns_nm S)"
    by (rule same_table_addr [OF same_natD(3) [OF D(2)]])
  have b: "?b * ?N \<le> nid" "nid + (?N - nid mod ?N) = Suc ?b * ?N"
    using mod_less_divisor [OF pos, of nid] div_mult_mod_eq [of nid ?N] unfolding mult_Suc by linarith+
  have "\<exists>nm'. scan_nat_entries E L (?N - nid mod ?N) (np_entries (cur_page L sbi S nid)) nid nm = Some nm'
    \<and> scan_ok E L sbi S (journal_used E S) nm'"
  proof (rule scan_nat_entries_ok [OF assms(1,2) Suc.prems(1) b])
    show "np_entries (cur_page L sbi S nid) = np_entries (cur_page L sbi S m)"
      if "m < nm_max_nid (ns_nm S)" "nat_blk L m = ?b" for m
      using cur_addr_inj [OF g Suc.prems(2) that(1)] that(2) by simp
  qed
  then obtain nm1 where nm1: "scan_nat_entries E L (?N - nid mod ?N) (np_entries (cur_page L sbi S nid)) nid nm = Some nm1"
    "scan_ok E L sbi S (journal_used E S) nm1" by blast
  have max1: "nm_max_nid nm1 = nm_max_nid (ns_nm S)" by (rule scan_okD(3) [OF nm1(2)])
  define nid1 where "nid1 = (if nm_max_nid nm1 \<le> u32 (nid + (?N - nid mod ?N)) then 0 else u32 (nid + (?N - nid mod ?N)))"
  have "nid1 < nm_max_nid (ns_nm S)" using Suc.prems(2) by (auto simp: nid1_def max1)
  from Suc.IH [OF nm1(2) this] show ?case
    using nm1(1) by (simp add: scan_nat_page_def addr nid1_def [symmetric] Let_def)
qed

lemma scan_journal_ok:
  assumes "nm_max_nid (ns_nm S) < 2 ^ 32" and "scan_ok E L sbi S J nm"
    and "\<forall>(nid, ne)\<in>set es. journal_map (ns_journal S) nid = Some ne \<and> nid < nm_max_nid (ns_nm S)"
  shows "scan_ok E L sbi S (J - {nid. \<exists>ne. (nid, ne) \<in> set es \<and> rne_block_addr ne \<noteq> NULL_ADDR E}) (scan_journal E L es nm)"
  using assms(2,3)
proof (induction es arbitrary: J nm)
  case Nil
  then show ?case by simp
next
  case (Cons x es)
  obtain nid ne where x: "x = (nid, ne)" by (cases x)
  have j: "journal_map (ns_journal S) nid = Some ne" "nid < nm_max_nid (ns_nm S)" using Cons.prems(2) x by simp_all
  have es: "\<forall>(nid, ne)\<in>set es. journal_map (ns_journal S) nid = Some ne \<and> nid < nm_max_nid (ns_nm S)"
    using Cons.prems(2) by simp
  show ?case
  proof (cases "rne_block_addr ne = NULL_ADDR E")
    case True
    obtain r nm1 where a: "add_free_nid E L nm nid True = (r, nm1)" by fastforce
    have "scan_ok E L sbi S J nm1"
      by (rule scan_ok_add [OF Cons.prems(1) j(2) assms(1) a]) (simp add: disk_nat_def j(1) True)
    from Cons.IH [OF this es] have *: "scan_ok E L sbi S (J - {nid. \<exists>ne. (nid, ne) \<in> set es \<and> rne_block_addr ne \<noteq> NULL_ADDR E})
        (scan_journal E L (x # es) nm)" by (simp add: x True a)
    have "{nid. \<exists>ne. (nid, ne) \<in> set es \<and> rne_block_addr ne \<noteq> NULL_ADDR E} =
        {nid. \<exists>ne. (nid, ne) \<in> set (x # es) \<and> rne_block_addr ne \<noteq> NULL_ADDR E}"
      using x True by auto
    with * show ?thesis by simp
  next
    case False
    note D = scan_okD [OF Cons.prems(1)]
    have "nm_max_nid nm < 2 ^ 32" using assms(1) D(3) by simp
    note R = remove_free_nid_ok [OF D(1) this, of nid]
    have "scan_ok E L sbi S (J - {nid}) (remove_free_nid nm nid)"
      using Cons.prems(1) R same_nat_trans [OF D(2) R(2)] by (auto simp: scan_ok_def)
    from Cons.IH [OF this es] have *: "scan_ok E L sbi S (J - {nid} - {nid. \<exists>ne. (nid, ne) \<in> set es \<and> rne_block_addr ne \<noteq> NULL_ADDR E})
        (scan_journal E L (x # es) nm)" by (simp add: x False)
    have "J - {nid} - {nid. \<exists>ne. (nid, ne) \<in> set es \<and> rne_block_addr ne \<noteq> NULL_ADDR E} =
        J - {nid. \<exists>ne. (nid, ne) \<in> set (x # es) \<and> rne_block_addr ne \<noteq> NULL_ADDR E}"
      using x False by auto
    with * show ?thesis by simp
  qed
qed

text \<open>The manager between operations.\<close>

definition node_mgr_ok :: "f2fs_env \<Rightarrow> node_layout \<Rightarrow> f2fs_sb_info \<Rightarrow> nat_state \<Rightarrow> bool" where
  "node_mgr_ok E L sbi S \<longleftrightarrow> nat_ok L sbi S \<and> nid_list_ok (ns_nm S) \<and> nids_free E L sbi S \<and> no_new_on_disk E L sbi S
     \<and> nm_next_scan_nid (ns_nm S) < nm_max_nid (ns_nm S)"

lemma node_mgr_okD:
  assumes "node_mgr_ok E L sbi S"
  shows "nat_ok L sbi S" "nid_list_ok (ns_nm S)" "nids_free E L sbi S" "no_new_on_disk E L sbi S"
    "nm_next_scan_nid (ns_nm S) < nm_max_nid (ns_nm S)"
  using assms by (simp_all add: node_mgr_ok_def)

text \<open>A change of the free list alone.\<close>

lemma node_mgr_okI:
  assumes ok: "node_mgr_ok E L sbi S" and s: "same_nat (ns_nm S) nm" and f: "nid_list_ok nm"
    and n: "\<And>nid. nid \<in> free_new (nm_free_nid_list nm) \<Longrightarrow> rne_block_addr (nat_lookup L sbi S nid) = NULL_ADDR E"
    and scan: "nm_next_scan_nid nm < nm_max_nid (ns_nm S)"
  shows "node_mgr_ok E L sbi (S\<lparr>ns_nm := nm\<rparr>)"
  using ok f n scan same_natD(2) [OF s]
  by (simp add: node_mgr_ok_def nids_free_def no_new_on_disk_def same_nat_state [OF s])

lemma build_free_nids_ok:
  assumes ok: "node_mgr_ok E L sbi S"
  shows "\<exists>nm'. build_free_nids E L sbi S = Some (S\<lparr>ns_nm := nm'\<rparr>) \<and> node_mgr_ok E L sbi (S\<lparr>ns_nm := nm'\<rparr>)
    \<and> same_nat (ns_nm S) nm'"
proof (cases "NAT_ENTRY_PER_BLOCK L < nm_fcnt (ns_nm S)")
  case True
  have "S\<lparr>ns_nm := ns_nm S\<rparr> = S" by simp
  then show ?thesis using True ok by (intro exI [of _ "ns_nm S"]) (simp add: build_free_nids_def)
next
  case False
  note M = node_mgr_okD [OF ok]
  have max: "nm_max_nid (ns_nm S) < 2 ^ 32" by (rule cache_okD(6) [OF nat_okD(2) [OF M(1)]])
  have "scan_ok E L sbi S (journal_used E S) (ns_nm S)" using M(2,3) by (simp add: scan_ok_def nids_free_def)
  from scan_nat_pages_ok [OF M(1,4) this M(5), of "FREE_NID_PAGES + 1"] obtain nid nm1 where
    nm1: "scan_nat_pages E L sbi (FREE_NID_PAGES + 1) (nm_next_scan_nid (ns_nm S)) S = Some (nid, S\<lparr>ns_nm := nm1\<rparr>)"
      "scan_ok E L sbi S (journal_used E S) nm1" "nid < nm_max_nid (ns_nm S)" by auto
  let ?nm2 = "nm1\<lparr>nm_next_scan_nid := nid\<rparr>"
  let ?es = "take (jr_n (ns_journal S)) (jr_entries (ns_journal S))"
  have 2: "scan_ok E L sbi S (journal_used E S) ?nm2"
    using nm1(2) by (simp add: scan_ok_def same_nat_def nid_list_ok_def)
  have "distinct (map fst ?es)" using nat_okD(3) [OF M(1)] by (simp add: journal_ok_def)
  then have mem: "(n, ne) \<in> set ?es \<longleftrightarrow> journal_map (ns_journal S) n = Some ne" for n ne
    by (simp add: journal_map_def)
  then have "\<forall>(n, ne)\<in>set ?es. journal_map (ns_journal S) n = Some ne \<and> n < nm_max_nid (ns_nm S)"
    using nat_okD(6) [OF M(1)] by fastforce
  note J = scan_journal_ok [OF max 2 this]
  let ?nm3 = "scan_journal E L ?es ?nm2"
  have "journal_used E S - {nid. \<exists>ne. (nid, ne) \<in> set ?es \<and> rne_block_addr ne \<noteq> NULL_ADDR E} = {}"
    unfolding mem by (auto simp: journal_used_def)
  with J have 3: "scan_ok E L sbi S {} ?nm3" by simp
  have keep: "nm_next_scan_nid (scan_journal E L es nm) = nm_next_scan_nid nm" for es nm
  proof (induction es arbitrary: nm)
    case (Cons x es)
    then show ?case
      by (cases x) (auto simp: add_free_nid_def remove_free_nid_def del_from_free_nid_list_def split: option.split)
  qed simp
  have "node_mgr_ok E L sbi (S\<lparr>ns_nm := ?nm3\<rparr>)"
    by (rule node_mgr_okI [OF ok]) (use 3 nm1(3) in \<open>auto simp: scan_ok_def keep\<close>)
  moreover have "build_free_nids E L sbi S = Some (S\<lparr>ns_nm := ?nm3\<rparr>)"
    using False nm1(1) by (simp add: build_free_nids_def Let_def)
  ultimately show ?thesis using 3 by (auto simp: scan_ok_def)
qed

section \<open>Taking an id\<close>

lemma first_new_some: "\<exists>i\<in>set is. fn_state i = NID_NEW \<Longrightarrow> \<exists>i. first_new is = Some i \<and> i \<in> set is \<and> fn_state i = NID_NEW"
  by (induction "is" rule: first_new.induct) auto

lemma nid_list_ok_set_state:
  assumes ok: "nid_list_ok nm" and i: "i \<in> set (nm_free_nid_list nm)" "fn_state i \<noteq> s" and max: "nm_max_nid nm < 2 ^ 32"
  defines "nm' \<equiv> (set_nid_state (fn_nid i) s nm)\<lparr>nm_fcnt :=
     (if s = NID_NEW then u32 (nm_fcnt nm + 1) else sub32 (nm_fcnt nm) 1)\<rparr>"
  shows "nid_list_ok nm'" "same_nat nm nm'" "\<lparr> fn_nid = fn_nid i, fn_state = s \<rparr> \<in> set (nm_free_nid_list nm')"
    "free_new (nm_free_nid_list nm') =
       (if s = NID_NEW then insert (fn_nid i) (free_new (nm_free_nid_list nm)) else free_new (nm_free_nid_list nm) - {fn_nid i})"
proof -
  note F = nid_list_okD [OF ok]
  let ?l = "nm_free_nid_list nm"
  let ?f = "\<lambda>j. if fn_nid j = fn_nid i then j\<lparr>fn_state := s\<rparr> else j"
  have l: "nm_free_nid_list nm' = map ?f ?l" "nm_max_nid nm' = nm_max_nid nm"
    by (simp_all add: nm'_def set_nid_state_def)
  have uniq: "j = i" if "j \<in> set ?l" "fn_nid j = fn_nid i" for j
    using F(1) that i by (metis distinct_map inj_onD)
  obtain xs ys where s: "?l = xs @ i # ys" using i(1) by (meson split_list)
  have out: "\<forall>j\<in>set xs \<union> set ys. fn_nid j \<noteq> fn_nid i"
    using F(1) unfolding s by (auto simp: image_iff)
  have m: "map ?f ?l = xs @ i\<lparr>fn_state := s\<rparr> # ys"
    using out unfolding s by (simp add: map_idI)
  have small: "length ?l < 2 ^ 32" using F(5) max by simp
  have cnt: "nm_fcnt nm' = length (filter (\<lambda>i. fn_state i = NID_NEW) (map ?f ?l))"
  proof (cases s)
    case NID_NEW
    then have "fn_state i = NID_ALLOC" using i(2) by (cases "fn_state i") simp_all
    then have "nm_fcnt nm = length (filter (\<lambda>i. fn_state i = NID_NEW) xs) + length (filter (\<lambda>i. fn_state i = NID_NEW) ys)"
      using F(4) unfolding s by simp
    moreover have "\<dots> \<le> length xs + length ys" by (intro add_mono) simp_all
    ultimately have "u32 (nm_fcnt nm + 1) = nm_fcnt nm + 1" using small unfolding s by (intro u32_id) simp
    then show ?thesis using NID_NEW F(4) \<open>fn_state i = NID_ALLOC\<close> unfolding m by (simp add: nm'_def s)
  next
    case NID_ALLOC
    then have new: "fn_state i = NID_NEW" using i(2) by (cases "fn_state i") simp_all
    have "nm_fcnt nm \<le> length ?l" by (simp add: F(4))
    then have "sub32 (nm_fcnt nm) 1 = nm_fcnt nm - 1" using small new F(4) by (intro sub32_id) (simp_all add: s)
    then show ?thesis using NID_ALLOC F(4) new unfolding m by (simp add: nm'_def s)
  qed
  have d: "map fn_nid (map ?f ?l) = map fn_nid ?l" by simp
  have "fn_nid (?f j) = fn_nid j" for j by simp
  then have bnd: "\<forall>j\<in>set (map ?f ?l). fn_nid j \<noteq> 0 \<and> fn_nid j < nm_max_nid nm" using F(2,3) i(1) by auto
  show "nid_list_ok nm'" using F(1) cnt bnd unfolding nid_list_ok_def l d by blast
  show "same_nat nm nm'" by (simp add: nm'_def set_nid_state_def)
  have "i\<lparr>fn_state := s\<rparr> = \<lparr> fn_nid = fn_nid i, fn_state = s \<rparr>" by simp
  then show "\<lparr> fn_nid = fn_nid i, fn_state = s \<rparr> \<in> set (nm_free_nid_list nm')" unfolding l m by simp
  show "free_new (nm_free_nid_list nm') =
       (if s = NID_NEW then insert (fn_nid i) (free_new ?l) else free_new ?l - {fn_nid i})"
  proof -
    have "fn_nid i \<notin> free_new xs" "fn_nid i \<notin> free_new ys" using out by (auto simp: free_new_def)
    then have "free_new (xs @ i\<lparr>fn_state := s\<rparr> # ys) =
        (if s = NID_NEW then insert (fn_nid i) (free_new (xs @ i # ys)) else free_new (xs @ i # ys) - {fn_nid i})"
      by (cases s) (auto simp: free_new_simps)
    then show ?thesis unfolding trans [OF l(1) m] unfolding s .
  qed
qed

lemma take_free_nid_ok:
  assumes ok: "nid_list_ok nm" and n: "nm_fcnt nm \<noteq> 0" and max: "nm_max_nid nm < 2 ^ 32"
  shows "\<exists>nid nm'. take_free_nid E nm = Some (nid, nm') \<and> nid \<in> free_new (nm_free_nid_list nm) \<and> nid_list_ok nm' \<and> same_nat nm nm'
    \<and> free_new (nm_free_nid_list nm') = free_new (nm_free_nid_list nm) - {nid}
    \<and> \<lparr> fn_nid = nid, fn_state = NID_ALLOC \<rparr> \<in> set (nm_free_nid_list nm')"
proof -
  have "\<exists>i\<in>set (nm_free_nid_list nm). fn_state i = NID_NEW"
    using n nid_list_okD(4) [OF ok] by (auto simp: filter_empty_conv)
  from first_new_some [OF this] obtain i where
    i: "first_new (nm_free_nid_list nm) = Some i" "i \<in> set (nm_free_nid_list nm)" "fn_state i = NID_NEW" by blast
  have "fn_state i \<noteq> NID_ALLOC" using i(3) by simp
  note S = nid_list_ok_set_state [OF ok i(2) this max]
  have "take_free_nid E nm = Some (fn_nid i, (set_nid_state (fn_nid i) NID_ALLOC nm)\<lparr>nm_fcnt := sub32 (nm_fcnt nm) 1\<rparr>)"
    using i by (auto simp: take_free_nid_def f2fs_bug_on_def)
  moreover have "fn_nid i \<in> free_new (nm_free_nid_list nm)" using i by (auto simp: free_new_def)
  ultimately show ?thesis using S by auto
qed

text \<open>Whatever number of rounds \<open>alloc_nid\<close> takes, an id it returns belongs to no node and is
  marked as taken.\<close>

lemma alloc_nid_sound:
  assumes "alloc_nid E L sbi S = Some res" and "node_mgr_ok E L sbi S"
  shows "node_mgr_ok E L sbi (snd res) \<and> same_nat (ns_nm S) (ns_nm (snd res))
    \<and> (\<forall>nid. nat_lookup L sbi (snd res) nid = nat_lookup L sbi S nid)
    \<and> (case fst res of None \<Rightarrow> nm_max_nid (ns_nm S) \<le> u32 (sbi_total_valid_node_count sbi + 1)
       | Some nid \<Rightarrow> nid \<noteq> 0 \<and> nid < nm_max_nid (ns_nm S) \<and> rne_block_addr (nat_lookup L sbi S nid) = NULL_ADDR E
          \<and> \<lparr> fn_nid = nid, fn_state = NID_ALLOC \<rparr> \<in> set (nm_free_nid_list (ns_nm (snd res))))"
  using assms
proof (induction E L sbi S res rule: alloc_nid.raw_induct [rotated, consumes 1, case_names 1])
  case (1 rec E L sbi S res)
  show ?case
  proof (cases "nm_max_nid (ns_nm S) \<le> u32 (sbi_total_valid_node_count sbi + 1)")
    case True
    then show ?thesis using 1(2,3) by auto
  next
    case F: False
    note M = node_mgr_okD [OF 1(3)]
    have max: "nm_max_nid (ns_nm S) < 2 ^ 32" by (rule cache_okD(6) [OF nat_okD(2) [OF M(1)]])
    show ?thesis
    proof (cases "nm_fcnt (ns_nm S) \<noteq> 0 \<and> \<not> ns_on_build_free_nids S")
      case True
      from take_free_nid_ok [OF M(2) conjunct1 [OF True] max, of E] obtain nid nm' where
        t: "take_free_nid E (ns_nm S) = Some (nid, nm')" "nid \<in> free_new (nm_free_nid_list (ns_nm S))" "nid_list_ok nm'"
          "same_nat (ns_nm S) nm'" "free_new (nm_free_nid_list nm') = free_new (nm_free_nid_list (ns_nm S)) - {nid}"
          "\<lparr> fn_nid = nid, fn_state = NID_ALLOC \<rparr> \<in> set (nm_free_nid_list nm')" by blast
      have r: "res = (Some nid, S\<lparr>ns_nm := nm'\<rparr>)" using 1(2) F True t(1) by auto
      have "nm_next_scan_nid nm' = nm_next_scan_nid (ns_nm S)"
        using t(1) by (auto simp: take_free_nid_def set_nid_state_def f2fs_bug_on_def split: bind_splits if_splits)
      then have "node_mgr_ok E L sbi (S\<lparr>ns_nm := nm'\<rparr>)"
        using M(3,5) by (intro node_mgr_okI [OF 1(3) t(4,3)]) (auto simp: t(5) nids_free_def)
      moreover have "nid \<noteq> 0 \<and> nid < nm_max_nid (ns_nm S)"
        using nid_list_okD(2,3) [OF M(2)] t(2) by (auto simp: free_new_def)
      ultimately show ?thesis
        using t M(3) by (simp add: r same_nat_state [OF t(4)] nids_free_def)
    next
      case False
      let ?S1 = "S\<lparr>ns_on_build_free_nids := True\<rparr>"
      have same: "nat_lookup L sbi ?S1 = nat_lookup L sbi S" "nat_lookup L sbi (S2\<lparr>ns_on_build_free_nids := b\<rparr>) = nat_lookup L sbi S2" for S2 b
        by (simp_all add: fun_eq_iff nat_lookup_def disk_nat_def page_nat_def split: option.split)
      have flag: "node_mgr_ok E L sbi (S2\<lparr>ns_on_build_free_nids := b\<rparr>) = node_mgr_ok E L sbi S2" for S2 b
        using same(2) [of b S2]
        by (simp add: node_mgr_ok_def nat_ok_def nids_free_def no_new_on_disk_def page_nat_def disk_nat_def cong: option.case_cong)
      from build_free_nids_ok [of E L sbi ?S1] flag [of True S] 1(3) obtain nm' where
        b: "build_free_nids E L sbi ?S1 = Some (?S1\<lparr>ns_nm := nm'\<rparr>)" "node_mgr_ok E L sbi (?S1\<lparr>ns_nm := nm'\<rparr>)"
          "same_nat (ns_nm S) nm'" by auto
      let ?S2 = "S\<lparr>ns_nm := nm', ns_on_build_free_nids := False\<rparr>"
      have "rec E L sbi ?S2 = Some res" using 1(2) F False b(1) by (auto split: bind_splits if_splits)
      moreover have "node_mgr_ok E L sbi ?S2"
        using b(2) flag [of False "?S1\<lparr>ns_nm := nm'\<rparr>"] by simp
      moreover have "nat_lookup L sbi ?S2 = nat_lookup L sbi S"
        using same_nat_state(2) [OF b(3)] same(2) [of False "S\<lparr>ns_nm := nm'\<rparr>"] by simp
      ultimately show ?thesis
        using 1(1) [of E L sbi ?S2 res] same_nat_trans [OF b(3)] same_natD(2) [OF b(3)] by (auto split: option.splits)
    qed
  qed
qed

text \<open>With an id on the list, or with none left in the table, the call returns at once.\<close>

lemma alloc_nid_returns:
  assumes "node_mgr_ok E L sbi S"
  shows "nm_max_nid (ns_nm S) \<le> u32 (sbi_total_valid_node_count sbi + 1) \<Longrightarrow> alloc_nid E L sbi S = Some (None, S)"
    and "\<not> nm_max_nid (ns_nm S) \<le> u32 (sbi_total_valid_node_count sbi + 1) \<Longrightarrow> nm_fcnt (ns_nm S) \<noteq> 0
      \<Longrightarrow> \<not> ns_on_build_free_nids S \<Longrightarrow> \<exists>nid S'. alloc_nid E L sbi S = Some (Some nid, S')"
proof -
  show "nm_max_nid (ns_nm S) \<le> u32 (sbi_total_valid_node_count sbi + 1) \<Longrightarrow> alloc_nid E L sbi S = Some (None, S)"
    by (subst alloc_nid.simps) simp
  note M = node_mgr_okD [OF assms]
  have max: "nm_max_nid (ns_nm S) < 2 ^ 32" by (rule cache_okD(6) [OF nat_okD(2) [OF M(1)]])
  show "\<exists>nid S'. alloc_nid E L sbi S = Some (Some nid, S')"
    if "\<not> nm_max_nid (ns_nm S) \<le> u32 (sbi_total_valid_node_count sbi + 1)" "nm_fcnt (ns_nm S) \<noteq> 0" "\<not> ns_on_build_free_nids S"
    using take_free_nid_ok [OF M(2) that(2) max, of E] that by (subst alloc_nid.simps) auto
qed

text \<open>The caller's answer: the id is used, or it goes back.\<close>

lemma alloc_nid_done_ok:
  assumes ok: "nid_list_ok nm" and i: "\<lparr> fn_nid = nid, fn_state = NID_ALLOC \<rparr> \<in> set (nm_free_nid_list nm)" and max: "nm_max_nid nm < 2 ^ 32"
  shows "\<exists>nm'. alloc_nid_done E nm nid = Some nm' \<and> nid_list_ok nm' \<and> same_nat nm nm'
    \<and> free_new (nm_free_nid_list nm') = free_new (nm_free_nid_list nm) - {nid} \<and> nid \<notin> fn_nid ` set (nm_free_nid_list nm')"
proof -
  let ?i = "\<lparr> fn_nid = nid, fn_state = NID_ALLOC \<rparr>"
  note F = nid_list_okD [OF ok]
  have l: "lookup_free_nid_list nid (nm_free_nid_list nm) = Some ?i" using lookup_free_nid_list_in [OF F(1) i] by simp
  note R = nid_list_ok_remove [OF ok i max]
  have "distinct (nm_free_nid_list nm)" using F(1) by (simp add: distinct_map)
  then have "set (remove1 ?i (nm_free_nid_list nm)) = set (nm_free_nid_list nm) - {?i}" by simp
  moreover have "j = ?i" if "j \<in> set (nm_free_nid_list nm)" "fn_nid j = nid" for j
    using F(1) that i by (metis (no_types, lifting) distinct_map free_nid.select_convs(1) inj_onD)
  ultimately have "nid \<notin> fn_nid ` set (remove1 ?i (nm_free_nid_list nm))" by auto
  then show ?thesis
    using R l by (simp add: alloc_nid_done_def f2fs_bug_on_def del_from_free_nid_list_def)
qed

lemma alloc_nid_failed_ok:
  assumes ok: "nid_list_ok nm" and i: "\<lparr> fn_nid = nid, fn_state = NID_ALLOC \<rparr> \<in> set (nm_free_nid_list nm)" and max: "nm_max_nid nm < 2 ^ 32"
  shows "\<exists>nm'. alloc_nid_failed E L nm nid = Some nm' \<and> nid_list_ok nm' \<and> same_nat nm nm'
    \<and> (if 2 * MAX_FREE_NIDS L < nm_fcnt nm
       then free_new (nm_free_nid_list nm') = free_new (nm_free_nid_list nm) \<and> nid \<notin> fn_nid ` set (nm_free_nid_list nm')
       else free_new (nm_free_nid_list nm') = insert nid (free_new (nm_free_nid_list nm)))"
proof -
  let ?i = "\<lparr> fn_nid = nid, fn_state = NID_ALLOC \<rparr>" and ?l = "nm_free_nid_list nm"
  have l: "lookup_free_nid_list nid ?l = Some ?i"
    using lookup_free_nid_list_in [OF nid_list_okD(1) [OF ok] i] by simp
  have n: "nid \<noteq> 0" using nid_list_okD(2) [OF ok i] by simp
  have "fn_state ?i \<noteq> NID_NEW" by simp
  note R = nid_list_ok_remove [OF ok i max] and C = nid_list_ok_set_state [OF ok i this max]
  have uniq: "j = ?i" if "j \<in> set ?l" "fn_nid j = nid" for j
    using nid_list_okD(1) [OF ok] that i by (metis distinct_map inj_onD free_nid.select_convs(1))
  have "nid \<notin> free_new ?l"
  proof
    assume "nid \<in> free_new ?l"
    then obtain j where "j \<in> set ?l" "fn_nid j = nid" "fn_state j = NID_NEW" by (auto simp: free_new_def)
    then show False using uniq [of j] by simp
  qed
  moreover have "distinct ?l" using nid_list_okD(1) [OF ok] by (simp add: distinct_map)
  then have "nid \<notin> fn_nid ` set (remove1 ?i ?l)" using uniq by auto
  ultimately show ?thesis
    using R C l n by (auto simp: alloc_nid_failed_def f2fs_bug_on_def del_from_free_nid_list_def)
qed

lemma alloc_nid_failed_sub:
  assumes "nid_list_ok nm" and "\<lparr> fn_nid = nid, fn_state = NID_ALLOC \<rparr> \<in> set (nm_free_nid_list nm)" and "nm_max_nid nm < 2 ^ 32"
  shows "\<exists>nm'. alloc_nid_failed E L nm nid = Some nm' \<and> nid_list_ok nm' \<and> same_nat nm nm'
    \<and> free_new (nm_free_nid_list nm') \<subseteq> insert nid (free_new (nm_free_nid_list nm))"
  using alloc_nid_failed_ok [OF assms, of E L] by (auto split: if_splits)

end
