(* ===== verification/Small_Nat.thy ===== *)
theory Small_Nat
  imports Free_Nids Small_Volume
begin

text \<open>
  A small node address table on which the hypotheses of the properties hold: one block with the
  layout of Linux, 455 ids.  Nodes 3 and 4 are in the table, node 5 in the journal, node 6 has
  moved and is dirty in the cache, 7 and 8 are on the list of free ids.
\<close>

text \<open>The in-memory part of a plain file: no flag, no extent.\<close>

definition plain_info :: f2fs_inode_info where
  "plain_info = \<lparr> fi_flags = (\<lambda>_. False), fi_i_xattr_nid = 0, fi_ext = \<lparr> ext_fofs = 0, ext_blk_addr = 0, ext_len = 0 \<rparr> \<rparr>"

lemma path_5000: "get_node_path linux_layout plain_info 5000 = Some (2, [926, 2, 5], [0, 3, 6])"
  by (simp add: get_node_path_def Let_def linux_layout_def plain_info_def addrs_per_inode_def is_inode_flag_set_def u32_def)

definition no_node :: f2fs_nat_entry where
  "no_node = \<lparr> rne_version = 0, rne_ino = 0, rne_block_addr = 0 \<rparr>"

definition raw_node :: "nat \<Rightarrow> nat \<Rightarrow> f2fs_nat_entry" where
  "raw_node ino a = \<lparr> rne_version = 0, rne_ino = ino, rne_block_addr = a \<rparr>"

definition tab_entries :: "f2fs_nat_entry list" where
  "tab_entries = (replicate 455 no_node)[3 := raw_node 3 16, 4 := raw_node 4 64, 6 := raw_node 6 66]"

definition tab_nm :: f2fs_nm_info where
  "tab_nm = \<lparr> nm_nat_blkaddr = 4, nm_max_nid = 455, nm_next_scan_nid = 0,
     nm_nat_root = [4 \<mapsto> \<lparr> nat_checkpointed = True, nat_ni = \<lparr> ni_nid = 4, ni_ino = 4, ni_blk_addr = 64, ni_version = 0 \<rparr> \<rparr>,
                    6 \<mapsto> \<lparr> nat_checkpointed = True, nat_ni = \<lparr> ni_nid = 6, ni_ino = 6, ni_blk_addr = 65, ni_version = 0 \<rparr> \<rparr>],
     nm_nat_cnt = 2, nm_nat_entries = [4], nm_dirty_nat_entries = [6],
     nm_free_nid_list = [\<lparr> fn_nid = 7, fn_state = NID_NEW \<rparr>, \<lparr> fn_nid = 8, fn_state = NID_NEW \<rparr>], nm_fcnt = 2,
     nm_nat_bitmap = replicate 8 0 \<rparr>"

definition tab_state :: nat_state where
  "tab_state = \<lparr> ns_nm = tab_nm,
     ns_journal = \<lparr> jr_n = 1, jr_entries = (5, raw_node 5 70) # replicate 37 (0, no_node) \<rparr>,
     ns_pages = (\<lambda>_. \<lparr> np_dirty = False, np_entries = tab_entries \<rparr>), ns_on_build_free_nids = False \<rparr>"

lemma tab_nm_parts [simp]:
  "nm_nat_blkaddr tab_nm = 4" "nm_max_nid tab_nm = 455" "nm_next_scan_nid tab_nm = 0" "nm_nat_cnt tab_nm = 2"
  "nm_nat_entries tab_nm = [4]" "nm_dirty_nat_entries tab_nm = [6]" "nm_fcnt tab_nm = 2" "nm_nat_bitmap tab_nm = replicate 8 0"
  "nm_free_nid_list tab_nm = [\<lparr> fn_nid = 7, fn_state = NID_NEW \<rparr>, \<lparr> fn_nid = 8, fn_state = NID_NEW \<rparr>]"
  by (simp_all add: tab_nm_def)

lemma tab_root: "nm_nat_root tab_nm n =
  (if n = 4 then Some \<lparr> nat_checkpointed = True, nat_ni = \<lparr> ni_nid = 4, ni_ino = 4, ni_blk_addr = 64, ni_version = 0 \<rparr> \<rparr>
   else if n = 6 then Some \<lparr> nat_checkpointed = True, nat_ni = \<lparr> ni_nid = 6, ni_ino = 6, ni_blk_addr = 65, ni_version = 0 \<rparr> \<rparr>
   else None)"
  by (simp add: tab_nm_def)

lemma tab_state_parts [simp]:
  "ns_nm tab_state = tab_nm" "ns_journal tab_state = \<lparr> jr_n = 1, jr_entries = (5, raw_node 5 70) # replicate 37 (0, no_node) \<rparr>"
  "ns_pages tab_state a = \<lparr> np_dirty = False, np_entries = tab_entries \<rparr>" "\<not> ns_on_build_free_nids tab_state"
  by (simp_all add: tab_state_def)

lemma tab_layout [simp]:
  "NAT_ENTRY_PER_BLOCK linux_layout = 455" "NAT_JOURNAL_ENTRIES linux_layout = 38"
  by (simp_all add: linux_layout_def)

lemma tab_journal: "journal_map (ns_journal tab_state) n = (if n = 5 then Some (raw_node 5 70) else None)"
  by (simp add: journal_map_def)

lemma tab_page: "page_nat linux_layout vol_sbi tab_state n = tab_entries ! (n mod 455)"
  by (simp add: page_nat_def)

lemma tab_entries_nth: "i < 455 \<Longrightarrow> tab_entries ! i =
    (if i = 3 then raw_node 3 16 else if i = 4 then raw_node 4 64 else if i = 6 then raw_node 6 66 else no_node)"
  by (simp add: tab_entries_def nth_list_update)

lemma tab_nat_ok: "nat_ok linux_layout vol_sbi tab_state"
proof -
  have "nat_geom linux_layout vol_sbi tab_nm" by (simp add: nat_geom_def)
  moreover have "cache_ok tab_nm" by (auto simp: cache_ok_def tab_root split: if_splits)
  moreover have "journal_ok 38 (ns_journal tab_state)" by (simp add: journal_ok_def)
  moreover have "length tab_entries = 455" by (simp add: tab_entries_def)
  moreover have "disk_nat linux_layout vol_sbi tab_state 4 = raw_node 4 64"
    by (simp add: disk_nat_def tab_journal tab_page tab_entries_nth del: tab_state_parts(2))
  ultimately show ?thesis
    unfolding nat_ok_def by (simp add: tab_journal tab_root raw_of_def raw_node_def del: tab_state_parts(2))
qed

lemma tab_lookup: "n < 455 \<Longrightarrow> nat_lookup linux_layout vol_sbi tab_state n =
    (if n = 3 then raw_node 3 16 else if n = 4 then raw_node 4 64 else if n = 5 then raw_node 5 70
     else if n = 6 then raw_node 6 65 else no_node)"
  by (simp add: nat_lookup_def tab_root disk_nat_def tab_journal tab_page tab_entries_nth raw_of_def raw_node_def
      del: tab_state_parts(2))

lemma tab_clean: "\<not> np_dirty (cur_page linux_layout vol_sbi tab_state n)"
  by simp

lemma tab_node_mgr_ok: "node_mgr_ok linux_env linux_layout vol_sbi tab_state"
proof -
  have "nid_list_ok tab_nm" by (simp add: nid_list_ok_def)
  moreover have "nids_free linux_env linux_layout vol_sbi tab_state"
    by (simp add: nids_free_def free_new_simps tab_lookup no_node_def linux_env_def)
  moreover have "no_new_on_disk linux_env linux_layout vol_sbi tab_state"
    by (simp add: no_new_on_disk_def tab_page tab_entries_nth raw_node_def no_node_def linux_env_def)
  ultimately show ?thesis using tab_nat_ok by (simp add: node_mgr_ok_def)
qed

end
