(* ===== verification/Small_Cp.thy ===== *)
theory Small_Cp
  imports Cp_Mount Cp_Checksum Small_Mount Small_Nat
begin

text \<open>
  The small volume at a checkpoint, and a disk that has one checkpoint.
\<close>

section \<open>The layout of blocks\<close>

text \<open>The first bytes of a checkpoint block are its version and the user block count; a block of another kind has no checksum.\<close>

definition le_bytes :: "nat \<Rightarrow> nat \<Rightarrow> 8 word list" where
  "le_bytes k n = map (\<lambda>i. word_of_nat (n div 256 ^ i)) [0..<k]"

definition linux_cp_bytes :: "f2fs_checkpoint \<Rightarrow> nat \<Rightarrow> 8 word list" where
  "linux_cp_bytes ck n = take n (le_bytes 8 (ck_version ck) @ le_bytes 8 (ck_valid_block_count ck) @ replicate 4080 0)"

definition linux_cp :: cp_layout where
  "linux_cp = \<lparr> blocksize = 4096, F2FS_SUPER_MAGIC = 0xF2F52010, F2FS_ORPHANS_PER_BLOCK = 1020, cp_bytes = linux_cp_bytes,
     as_cp = (\<lambda>b. case b of Cp_Block c \<Rightarrow> c | _ \<Rightarrow> \<lparr> cb_ckpt = mnt_ckpt\<lparr>ck_checksum_offset := 4096\<rparr>, cb_crc = 0 \<rparr>),
     as_orphan = (\<lambda>b. case b of Orphan_Block ob \<Rightarrow> ob | _ \<Rightarrow> \<lparr> ob_ino = [], ob_blk_addr = 0, ob_blk_count = 0, ob_entry_count = 0 \<rparr>),
     as_compact = (\<lambda>b. case b of Compact_Block p \<Rightarrow> p | _ \<Rightarrow> mnt_cp 0),
     as_sum = (\<lambda>b. case b of Sum_Block s j \<Rightarrow> (s, j) | _ \<Rightarrow> (mnt_sums, No_Journal)) \<rparr>"

lemma linux_cp_parts [simp]:
  "blocksize linux_cp = 4096" "F2FS_ORPHANS_PER_BLOCK linux_cp = 1020" "as_cp linux_cp (Cp_Block c) = c" "cp_bytes linux_cp = linux_cp_bytes"
  "as_cp linux_cp (Other_Block bs) = \<lparr> cb_ckpt = mnt_ckpt\<lparr>ck_checksum_offset := 4096\<rparr>, cb_crc = 0 \<rparr>"
  "as_sum linux_cp (Cp_Block c) = (mnt_sums, No_Journal)" "as_sum linux_cp (Other_Block bs) = (mnt_sums, No_Journal)"
  by (simp_all add: linux_cp_def)

lemma linux_reads_back: "reads_back linux_cp"
  by (simp add: reads_back_def linux_cp_def)

lemma linux_sums_full: "sums_full linux_cp 8"
proof -
  have "8 \<le> length (sb_entries mnt_sums)" by (simp add: mnt_sums_def)
  then show ?thesis by (auto simp: sums_full_def sum_room_def linux_cp_def split: meta_block.split)
qed

lemma linux_cp_only: "\<not> cp_ok linux_cp (as_cp linux_cp b)" if "\<And>c. b \<noteq> Cp_Block c"
proof (cases b)
  case (Cp_Block c)
  then show ?thesis using that by blast
qed (simp_all add: cp_ok_def linux_cp_def)

section \<open>In memory\<close>

text \<open>The volume of \<open>Small_Volume\<close> with a table of eight blocks; the entry of segment 6 has changed.\<close>

definition cp_super :: f2fs_super_block where
  "cp_super = mnt_super\<lparr>rsb_cp_blkaddr := 256\<rparr>"

definition cp_sit :: sit_info where
  "cp_sit = vol_sit\<lparr>sit_blocks := 8, sit_dirty_sentries_bitmap := (\<lambda>_. False)(6 := True), sit_dirty_sentries := 1\<rparr>"

definition cp_sbi :: f2fs_sb_info where "cp_sbi = set_SIT_I cp_sit vol_sbi"

definition cp_flush :: sit_state where "cp_flush = vol_flush\<lparr>ss_sbi := cp_sbi\<rparr>"

definition seal :: "f2fs_checkpoint \<Rightarrow> cp_block" where
  "seal ck = \<lparr> cb_ckpt = ck, cb_crc = f2fs_crc32 (F2FS_SUPER_MAGIC linux_cp) (linux_cp_bytes ck (ck_checksum_offset ck)) \<rparr>"

text \<open>In memory before \<open>write_checkpoint\<close>, and before \<open>do_checkpoint\<close>, when the version has been counted up.\<close>

definition cp_mem :: "nat \<Rightarrow> cp_state" where
  "cp_mem v = \<lparr> cps_sit = cp_flush, cps_nat = tab_state, cps_orphans = init_orphan_info 1020 vol_sbi, cps_ckpt = seal (mnt_ckpt\<lparr>ck_version := v\<rparr>),
     cps_meta = (\<lambda>_. Other_Block []), cps_dirty = [], cps_last_valid_block_count = 4, cps_sb_dirty = True \<rparr>"

text \<open>On disk, the checkpoint of version 1.\<close>

definition cp_last :: cp_block where "cp_last = seal mnt_ckpt"

definition cp_disk :: "nat \<Rightarrow> meta_block" where
  "cp_disk = (\<lambda>_. Other_Block [])(256 := Cp_Block cp_last, 263 := Cp_Block cp_last)"

lemma cp_sbi_parts [simp]:
  "SIT_I cp_sbi = cp_sit" "FREE_I cp_sbi = vol_free" "DIRTY_I cp_sbi = vol_dirty" "TOTAL_SEGS cp_sbi = 10" "TOTAL_SECS cp_sbi = 10"
  "sbi_blocks_per_seg cp_sbi = 8" "sbi_log_blocks_per_seg cp_sbi = 3" "sbi_segs_per_sec cp_sbi = 1" "sbi_secs_per_zone cp_sbi = 1"
  "get_seg_entry cp_sbi = get_seg_entry vol_sbi" "sm_segment_count (SM_I cp_sbi) = 12" "sm_seg0_blkaddr (SM_I cp_sbi) = 16"
  "sm_curseg_array (SM_I cp_sbi) = sm_curseg_array vol_sm" "CURSEG_I cp_sbi = CURSEG_I vol_sbi" "sbi_total_valid_block_count cp_sbi = 4" "sbi_total_sections cp_sbi = 10"
  "geometry cp_sbi = geometry vol_sbi"
  by (simp_all add: cp_sbi_def fun_eq_iff get_seg_entry_def cp_sit_def geometry_def)
    (simp_all add: set_SIT_I_def SM_I_def vol_sbi_def vol_sm_def CURSEG_I_def)

lemma cp_mem_parts [simp]:
  "cps_sit (cp_mem v) = cp_flush" "cps_sbi (cp_mem v) = cp_sbi" "ss_sbi cp_flush = cp_sbi" "ss_pages cp_flush = ss_pages vol_flush"
  "ss_journal cp_flush = ss_journal vol_flush" "cps_nat (cp_mem v) = tab_state" "cps_orphans (cp_mem v) = init_orphan_info 1020 vol_sbi"
  "cps_ckpt (cp_mem v) = seal (mnt_ckpt\<lparr>ck_version := v\<rparr>)" "cb_ckpt (seal ck) = ck" "cps_dirty (cp_mem v) = []" "\<not> sbi_por_doing cp_sbi"
  by (simp_all add: cp_mem_def cp_flush_def seal_def del: vol_flush_parts) (simp add: cp_sbi_def set_SIT_I_def vol_sbi_def)

lemma cp_writable: "writable (cp_mem v)"
  by (simp add: meta_writable_def mnt_ckpt_def)

section \<open>Ready for a checkpoint\<close>

lemma linux_crc_bytes: "cp_ok linux_cp (seal ck) \<longleftrightarrow> ck_checksum_offset ck < 4096"
  by (simp add: cp_ok_def f2fs_crc_valid_def seal_def)

lemma cp_fs_ok: "fs_ok linux_env cp_sbi {}"
proof -
  note V = fs_okD [OF vol_fs_ok]
  have six: "NR_CURSEG_TYPE = 6" by (simp add: NR_CURSEG_TYPE_def)
  have "count_bits 10 ((\<lambda>_. False)(6 := True)) = 1" unfolding count_10 by simp
  moreover have "vblocks cp_sbi = vblocks vol_sbi" by (simp add: vblocks_def fun_eq_iff)
  ultimately have "sit_ok linux_env cp_sbi" using V(1) by (simp add: sit_ok_def cp_sit_def)
  moreover have "free_ok cp_sbi = free_ok vol_sbi" by (rule free_ok_cong) simp_all
  moreover have "dirty_ok cp_sbi = dirty_ok vol_sbi" by (rule dirty_ok_cong) (simp_all add: types_ok_def)
  moreover have "logs_ok cp_sbi {}"
    using V(4) live_cong [of cp_sbi vol_sbi] by (simp add: logs_ok_def log_seg_def log_space_def seg_inuse_def)
  moreover have "free_empty cp_sbi" using V(5) \<open>vblocks cp_sbi = vblocks vol_sbi\<close> by (simp add: free_empty_def seg_inuse_def)
  ultimately show ?thesis using V(2,3,6,7) by (simp add: fs_ok_def)
qed

lemma cp_flush_shape: "sit_shape linux_env linux_layout cp_flush"
  using vol_table_len(2)
  by (simp add: sit_shape_def sit_geom_def journal_ok_def journal_map_def vol_table_len(1)) (simp add: cp_sit_def vol_sit_def)

lemma cp_flush_disk: "sit_disk_ok linux_env cp_flush"
  by (auto simp: sit_disk_ok_def disk_sit_def journal_map_def vol_table_raw vol_ckpted cp_sit_def)

lemma cp_nat_ok: "nat_ok linux_layout cp_sbi tab_state"
proof -
  have n: "sbi_blocks_per_seg cp_sbi = sbi_blocks_per_seg vol_sbi" by simp
  have "page_nat linux_layout cp_sbi = page_nat linux_layout vol_sbi"
    unfolding fun_eq_iff page_nat_def current_nat_addr_def n by simp
  then have "disk_nat linux_layout cp_sbi tab_state = disk_nat linux_layout vol_sbi tab_state"
    by (simp add: disk_nat_def fun_eq_iff cong: option.case_cong)
  then show ?thesis using tab_nat_ok by (simp add: nat_ok_def nat_geom_def del: tab_state_parts(2))
qed

lemma cp_logs_shape: "logs_shape cp_sbi"
  using vol_logs_shape by (simp add: logs_shape_def)

lemma cp_orphans: "init_orphan_info 1020 vol_sbi = \<lparr> oi_list = [], oi_n = 0, oi_max = 0 \<rparr>"
  by (simp add: init_orphan_info_def NR_CURSEG_TYPE_def sub32_id u32_id)

lemma cp_pack_ready: "pack_ready linux_cp linux_sums cp_super (cp_mem v)"
  by (simp add: pack_ready_def linux_sums_ok cp_orphans orphans_ok_def cp_super_def)

lemma cp_can_checkpoint: "can_checkpoint linux_env linux_layout linux_cp linux_sums cp_super (cp_mem v)"
proof -
  have "sit_fits linux_env cp_sbi" using vol_flush_fits by (simp add: sit_fits_def)
  moreover have "ckpt_arrays (mnt_ckpt\<lparr>ck_version := v\<rparr>)" by (simp add: ckpt_arrays_def mnt_ckpt_def)
  moreover have "(\<Sum>i<10. vblocks cp_sbi i) = 4"
  proof -
    have "vblocks cp_sbi = vblocks vol_sbi" by (simp add: vblocks_def fun_eq_iff)
    then show ?thesis unfolding sum_10 by (simp add: vol_vblocks)
  qed
  ultimately show ?thesis
    using cp_fs_ok cp_flush_shape cp_flush_disk cp_nat_ok cp_pack_ready cp_logs_shape by (simp add: can_checkpoint_def)
qed

section \<open>Mounted again\<close>

lemma cp_same_volume: "same_volume cp_super cp_sbi mnt_sbi"
  by (simp add: same_volume_def cp_super_def mnt_super_def)
    (simp add: mnt_sbi_def vol_sbi_def cp_sit_def vol_sit_def u32_id push_bit_eq_mult GET_SEGNO_FROM_SEG0_def GET_SEGOFF_FROM_SEG0_def vol_free_def sub32_id)

lemma cp_disk_room: "sum_room linux_cp 8 (cp_disk a)"
  using linux_sums_full by (auto simp: sums_full_def cp_disk_def)

section \<open>The checkpoint area\<close>

lemma cp_area_ok: "cp_area cp_super cp_sbi"
  by (simp add: cp_area_def cp_super_def mnt_super_def)

lemma cp_place_super: "cp_place cp_super cp_sbi v = (if even v then 264 else 256)"
  by (simp add: cp_place_def cp_super_def mnt_super_def)

lemma cp_last_parts: "cb_version cp_last = 1" "cb_total cp_last = 8" "cp_ok linux_cp cp_last" "cp_mem 1 = (cp_mem 1)\<lparr>cps_ckpt := cp_last\<rparr>"
  "ck_checksum_offset (cb_ckpt cp_last) = 4092"
proof -
  show "cp_ok linux_cp cp_last" unfolding cp_last_def linux_crc_bytes by (simp add: mnt_ckpt_def)
  have "mnt_ckpt\<lparr>ck_version := 1\<rparr> = mnt_ckpt" by (simp add: mnt_ckpt_def)
  then show "cp_mem 1 = (cp_mem 1)\<lparr>cps_ckpt := cp_last\<rparr>" by (simp add: cp_mem_def cp_last_def)
qed (simp_all add: cp_last_def mnt_ckpt_def)

lemma cp_disk_at: "as_cp linux_cp (cp_disk a) = (if a = 256 \<or> a = 263 then cp_last else as_cp linux_cp (Other_Block []))"
  by (auto simp: cp_disk_def)

lemma cp_disk_ok: "cp_ok linux_cp (as_cp linux_cp (cp_disk a)) \<longleftrightarrow> a = 256 \<or> a = 263"
  unfolding cp_disk_at using cp_last_parts(3) linux_cp_only [of "Other_Block []"] by simp

lemma cp_disk_inv: "cp_inv linux_cp cp_super cp_sbi cp_disk cp_last"
proof -
  have z: "cp_place cp_super cp_sbi w + i = 256 \<or> cp_place cp_super cp_sbi w + i = 263 \<Longrightarrow> i < 8 \<Longrightarrow> odd w" for w i
    by (auto simp: cp_place_super split: if_splits)
  have "even (cb_version p) = even w \<and> cb_version p \<le> 1 + 1 \<and> (0 < i \<longrightarrow> cb_version p \<le> 1) \<and> (cb_version p = 1 + 1 \<longrightarrow> 2 \<le> cb_total p \<and> cb_total p \<le> 8)"
    if "i < 8" "cp_ok linux_cp (as_cp linux_cp (cp_disk (cp_place cp_super cp_sbi w + i)))" "p = as_cp linux_cp (cp_disk (cp_place cp_super cp_sbi w + i))" for w i p
  proof -
    have a: "cp_place cp_super cp_sbi w + i = 256 \<or> cp_place cp_super cp_sbi w + i = 263" using that(2) unfolding cp_disk_ok .
    then have "p = cp_last" using that(3) by (simp add: cp_disk_at)
    then show ?thesis using z [OF a that(1)] cp_last_parts(1) by simp
  qed
  then show ?thesis unfolding cp_inv_def Let_def cp_last_parts(1,2) cp_sbi_parts
    using cp_last_parts(3) by (simp add: cp_place_super cp_disk_at cp_last_parts(1))
qed

lemma cp_committed: "committed linux_cp cp_super cp_sbi cp_disk cp_last" "next_unused linux_cp cp_super cp_sbi cp_disk 1"
proof -
  have "\<not> cp_ok linux_cp (as_cp linux_cp (cp_disk (264 + i)))" for i unfolding cp_disk_ok by simp
  then show "next_unused linux_cp cp_super cp_sbi cp_disk 1" unfolding next_unused_def Let_def by (simp add: cp_place_super)
  have "\<not> cp_ok linux_cp (as_cp linux_cp (cp_disk 264))" unfolding cp_disk_ok by simp
  then show "committed linux_cp cp_super cp_sbi cp_disk cp_last" unfolding committed_def Let_def cp_last_parts(1,2) cp_sbi_parts
    using cp_last_parts(3) by (simp add: cp_place_super cp_disk_at cp_last_parts(1))
qed

lemma cp_last_mem: "cps_ckpt (cp_mem 1) = cp_last" "cb_version cp_last = 1"
proof -
  have "mnt_ckpt\<lparr>ck_version := 1\<rparr> = mnt_ckpt" by (simp add: mnt_ckpt_def)
  then show "cps_ckpt (cp_mem 1) = cp_last" by (simp add: cp_last_def)
qed (rule cp_last_parts)

lemma cp_mem_version: "cb_version (cps_ckpt (cp_mem v)) = v" "ck_checksum_offset (cb_ckpt (cps_ckpt (cp_mem v))) = 4092"
  by (simp_all add: mnt_ckpt_def)

lemma cp_goes_on: "goes_on linux_cp linux_sums cp_super cp_sbi cp_last (cp_mem 2)"
  using cp_pack_ready fs_okD(3) [OF cp_fs_ok] cp_last_parts(1) by (simp add: goes_on_def) (simp add: mnt_ckpt_def)

lemma cp_next_pack:
  obtains S' ws ds where "do_checkpoint linux_env linux_cp linux_sums cp_super (cp_mem 2) True = Some (S', ws, ds)" "foreign linux_cp ws" "2 \<le> length ws"
proof -
  have "dirty_ok (cps_sbi (cp_mem 2))" "TOTAL_SEGS (cps_sbi (cp_mem 2)) < 2 ^ 32 - 1" using fs_okD(3) [OF cp_fs_ok] by simp_all
  obtain T where T: "sync_dirty_meta (cp_mem 2) = Some T" using sync_dirty_meta_writable [OF cp_writable] by blast
  obtain S' ws ds where S': "do_checkpoint linux_env linux_cp linux_sums cp_super (cp_mem 2) True = Some (S', if writable (cp_mem 2) then ws else [], ds)"
    "pack_at cp_super (cps_sbi (cp_mem 2)) (cps_ckpt S') ws"
    by (rule do_checkpoint_pack [OF cp_pack_ready linux_env_ok \<open>dirty_ok _\<close> \<open>TOTAL_SEGS _ < _\<close> T, of True]) (rule that, assumption+)
  note run = S'(1) [simplified cp_writable if_True]
  have "2 \<le> length ws" by (rule pack_length(2) [OF S'(2)])
  moreover have "foreign linux_cp ws"
    using only_ends_foreign [OF _ _ \<open>dirty_ok _\<close> \<open>TOTAL_SEGS _ < _\<close> run linux_cp_only cp_writable] cp_pack_ready linux_env_ok by blast
  ultimately show ?thesis using that run by blast
qed

lemma cp_bytes_version:
  "ck = mnt_ckpt\<lparr>ck_version := v\<rparr> \<Longrightarrow> w = word_of_nat v \<Longrightarrow> v < 256 \<Longrightarrow> cp_bytes linux_cp ck 4092 = [] @ [w] @ (le_bytes 7 0 @ le_bytes 8 4 @ replicate 4076 0)"
  by (simp add: linux_cp_bytes_def le_bytes_def mnt_ckpt_def upt_rec)

end
