(* ===== verification/Gc_Thread.thy ===== *)
theory Gc_Thread
  imports Space
begin

text \<open>
  The background cleaner of \<open>gc.c\<close> and \<open>gc.h\<close>: when it runs and how long it sleeps.  One
  turn of the loop of \<open>gc_thread_func\<close> is a function of what the thread observes in that
  turn (a frozen file system, a taken \<open>gc_mutex\<close>, a busy device, the value of \<open>f2fs_gc\<close>);
  \<open>sleep_step\<close> is the step relation of its waiting time.
\<close>

definition LIMIT_INVALID_BLOCK :: nat where "LIMIT_INVALID_BLOCK = 40"
definition LIMIT_FREE_BLOCK :: nat where "LIMIT_FREE_BLOCK = 40"

definition free_user_blocks :: "f2fs_sb_info \<Rightarrow> nat" where
  "free_user_blocks sbi =
    (if free_segments sbi < overprovision_segments sbi then 0
     else u32 (push_bit (sbi_log_blocks_per_seg sbi) (sub32 (free_segments sbi) (overprovision_segments sbi))))"

definition limit_invalid_user_blocks :: "f2fs_sb_info \<Rightarrow> nat" where
  "limit_invalid_user_blocks sbi = u32 (sbi_user_block_count sbi * LIMIT_INVALID_BLOCK) div 100"

definition limit_free_user_blocks :: "f2fs_sb_info \<Rightarrow> nat" where
  "limit_free_user_blocks sbi =
    (let reclaimable_user_blocks = sub32 (sbi_user_block_count sbi) (written_block_count sbi)
     in u32 (reclaimable_user_blocks * LIMIT_FREE_BLOCK) div 100)"

definition has_enough_invalid_blocks :: "f2fs_sb_info \<Rightarrow> bool" where
  "has_enough_invalid_blocks sbi =
    (let invalid_user_blocks = sub32 (sbi_user_block_count sbi) (written_block_count sbi)
     in limit_invalid_user_blocks sbi < invalid_user_blocks \<and> free_user_blocks sbi < limit_free_user_blocks sbi)"

definition increase_sleep_time :: "f2fs_gc_kthread \<Rightarrow> int \<Rightarrow> int" where
  "increase_sleep_time gc_th wait =
    (if wait = int (gc_no_gc_sleep_time gc_th) then wait
     else let wait = wait + int (gc_min_sleep_time gc_th)
       in if int (gc_max_sleep_time gc_th) < wait then int (gc_max_sleep_time gc_th) else wait)"

definition decrease_sleep_time :: "f2fs_gc_kthread \<Rightarrow> int \<Rightarrow> int" where
  "decrease_sleep_time gc_th wait =
    (let wait = (if wait = int (gc_no_gc_sleep_time gc_th) then int (gc_max_sleep_time gc_th) else wait);
         wait = wait - int (gc_min_sleep_time gc_th)
     in if wait \<le> int (gc_min_sleep_time gc_th) then int (gc_min_sleep_time gc_th) else wait)"

section \<open>The thread\<close>

record gc_turn =
  gt_frozen :: bool
  gt_gc_locked :: bool
  gt_idle :: bool
  gt_no_victim :: bool

definition gc_thread_turn :: "f2fs_sb_info \<Rightarrow> f2fs_gc_kthread \<Rightarrow> gc_turn \<Rightarrow> int \<Rightarrow> int" where
  "gc_thread_turn sbi gc_th obs wait_ms =
    (if gt_frozen obs then increase_sleep_time gc_th wait_ms
     else if gt_gc_locked obs then wait_ms
     else if \<not> gt_idle obs then increase_sleep_time gc_th wait_ms
     else
       let wait_ms = (if has_enough_invalid_blocks sbi then decrease_sleep_time gc_th wait_ms
                      else increase_sleep_time gc_th wait_ms)
       in if gt_no_victim obs then int (gc_no_gc_sleep_time gc_th) else wait_ms)"

text \<open>The waiting times a thread can reach, whatever the file system does between two turns.\<close>

inductive sleeps :: "f2fs_gc_kthread \<Rightarrow> int \<Rightarrow> bool" for gc_th where
  start: "sleeps gc_th (int (gc_min_sleep_time gc_th))"
| turn: "sleeps gc_th wait_ms \<Longrightarrow> sleeps gc_th (gc_thread_turn sbi gc_th obs wait_ms)"

inductive_cases sleepsE: "sleeps gc_th wait_ms"

definition sleep_ok :: "f2fs_gc_kthread \<Rightarrow> int \<Rightarrow> bool" where
  "sleep_ok gc_th wait \<longleftrightarrow> wait = int (gc_no_gc_sleep_time gc_th)
     \<or> int (gc_min_sleep_time gc_th) \<le> wait \<and> wait \<le> int (gc_max_sleep_time gc_th)"

lemma increase_sleep_ok:
  "gc_min_sleep_time th \<le> gc_max_sleep_time th \<Longrightarrow> sleep_ok th w \<Longrightarrow> sleep_ok th (increase_sleep_time th w)"
  by (auto simp: sleep_ok_def increase_sleep_time_def Let_def)

lemma decrease_sleep_ok:
  "gc_min_sleep_time th \<le> gc_max_sleep_time th \<Longrightarrow> sleep_ok th w \<Longrightarrow> sleep_ok th (decrease_sleep_time th w)"
  by (auto simp: sleep_ok_def decrease_sleep_time_def Let_def)

text \<open>A sleep is between the minimum and the maximum, or the long one after a failed cleaning.\<close>

lemma sleeps_ok:
  assumes "sleeps th w" and "gc_min_sleep_time th \<le> gc_max_sleep_time th"
  shows "sleep_ok th w"
  using assms(1)
proof induction
  case start
  then show ?case using assms(2) by (simp add: sleep_ok_def)
next
  case (turn w sbi obs)
  then show ?case
    using increase_sleep_ok [OF assms(2)] decrease_sleep_ok [OF assms(2)]
    by (auto simp: gc_thread_turn_def Let_def) (simp add: sleep_ok_def)
qed

text \<open>Waiting longer never shortens a normal sleep, waiting less never lengthens it.\<close>

lemma sleep_time_moves:
  assumes "gc_min_sleep_time th \<le> gc_max_sleep_time th" and "sleep_ok th w"
  shows "w \<noteq> int (gc_no_gc_sleep_time th) \<Longrightarrow> w \<le> increase_sleep_time th w"
    and "w \<noteq> int (gc_no_gc_sleep_time th) \<Longrightarrow> decrease_sleep_time th w \<le> w"
  using assms by (auto simp: sleep_ok_def increase_sleep_time_def decrease_sleep_time_def Let_def)

section \<open>The trigger\<close>

text \<open>On volumes where 40 times the number of blocks fits 32 bits, the thread cleans exactly when
  more than 40\% of the user blocks are invalid and less than 40\% of those are free.\<close>

lemma has_enough_invalid_iff:
  assumes "40 * sbi_user_block_count sbi < 2 ^ 32" and "written_block_count sbi \<le> sbi_user_block_count sbi"
    and "overprovision_segments sbi \<le> free_segments sbi"
    and "(free_segments sbi - overprovision_segments sbi) * 2 ^ sbi_log_blocks_per_seg sbi < 2 ^ 32" "free_segments sbi < 2 ^ 32"
  defines "invalid \<equiv> sbi_user_block_count sbi - written_block_count sbi"
    and "free \<equiv> (free_segments sbi - overprovision_segments sbi) * 2 ^ sbi_log_blocks_per_seg sbi"
  shows "has_enough_invalid_blocks sbi \<longleftrightarrow> 40 * sbi_user_block_count sbi div 100 < invalid \<and> free < 40 * invalid div 100"
proof -
  have i: "sub32 (sbi_user_block_count sbi) (written_block_count sbi) = invalid"
    using assms(1,2) by (simp add: invalid_def sub32_id)
  have f: "sub32 (free_segments sbi) (overprovision_segments sbi) = free_segments sbi - overprovision_segments sbi"
    using assms(3,5) by (intro sub32_id) simp_all
  have le: "invalid \<le> sbi_user_block_count sbi" by (simp add: invalid_def)
  have "u32 (sbi_user_block_count sbi * 40) = 40 * sbi_user_block_count sbi" "u32 (invalid * 40) = 40 * invalid"
    using assms(1) le by (simp_all add: u32_id mult.commute)
  moreover have "free_user_blocks sbi = free"
    using assms(3,4) by (simp add: free_user_blocks_def f push_bit_eq_mult u32_id free_def)
  ultimately show ?thesis
    by (simp add: has_enough_invalid_blocks_def limit_invalid_user_blocks_def limit_free_user_blocks_def
        LIMIT_INVALID_BLOCK_def LIMIT_FREE_BLOCK_def i Let_def)
qed

text \<open>The limit is 40\% of the blocks exactly while the product fits into 32 bits; above that size it is too low by more than 42 million blocks.\<close>

lemma limit_invalid_wraps:
  fixes sbi
  defines "n \<equiv> sbi_user_block_count sbi"
  shows "n \<le> 107374182 \<Longrightarrow> limit_invalid_user_blocks sbi = 40 * n div 100"
    "107374182 < n \<Longrightarrow> limit_invalid_user_blocks sbi + 42949672 \<le> 40 * n div 100"
proof -
  have l: "limit_invalid_user_blocks sbi = u32 (40 * n) div 100"
    by (simp add: limit_invalid_user_blocks_def LIMIT_INVALID_BLOCK_def n_def mult.commute)
  show "n \<le> 107374182 \<Longrightarrow> limit_invalid_user_blocks sbi = 40 * n div 100" unfolding l by (simp add: u32_id)
  assume "107374182 < n"
  then have "2 ^ 32 \<le> 40 * n" by simp
  then have "u32 (40 * n) = u32 (40 * n - 2 ^ 32)" unfolding u32_def by (rule le_mod_geq)
  also have "\<dots> \<le> 40 * n - 2 ^ 32" by (simp add: u32_def)
  finally have "u32 (40 * n) + 100 * 42949672 \<le> 40 * n" using \<open>2 ^ 32 \<le> 40 * n\<close> by simp
  then have "(u32 (40 * n) + 100 * 42949672) div 100 \<le> 40 * n div 100" by (rule div_le_mono)
  then show "limit_invalid_user_blocks sbi + 42949672 \<le> 40 * n div 100" unfolding l by simp
qed

end
