(* ===== verification/Gc_Cost.thy ===== *)
theory Gc_Cost
  imports Gc_Correct Sit_Inv
begin

text \<open>
  The cleaning costs: age and utilisation are percentages, the cost-benefit cost grows with
  utilisation and falls with age, and so does the cost-age-times cost, which also grows with
  the number of past cleanings; it marks a section that is full or has no age as never
  worth cleaning.
\<close>

section \<open>Age and utilisation\<close>

lemma widen_mtime_range: "sit_min_mtime S \<le> sit_max_mtime S \<Longrightarrow>
  sit_min_mtime (widen_mtime t S) \<le> t \<and> t \<le> sit_max_mtime (widen_mtime t S)
  \<and> sit_min_mtime (widen_mtime t S) \<le> sit_max_mtime (widen_mtime t S)"
  by (auto simp: widen_mtime_def Let_def)

lemma sec_age_eq:
  assumes "sit_min_mtime S \<le> t" and "t \<le> sit_max_mtime S" and "sit_min_mtime S < sit_max_mtime S"
    and "100 * sit_max_mtime S < 2 ^ 64"
  shows "sec_age t S = 100 - 100 * (t - sit_min_mtime S) div (sit_max_mtime S - sit_min_mtime S)"
proof -
  let ?a = "t - sit_min_mtime S" and ?b = "sit_max_mtime S - sit_min_mtime S"
  have "?a \<le> ?b" using assms(2) by simp
  then have "100 * ?a div ?b \<le> 100 * ?b div ?b" by (intro div_le_mono mult_le_mono2)
  then have q: "100 * ?a div ?b \<le> 100" using assms(3) by simp
  have s: "sub64 t (sit_min_mtime S) = ?a" "sub64 (sit_max_mtime S) (sit_min_mtime S) = ?b"
    using assms by (auto intro!: sub64_id)
  have "u64 (100 * ?a) = 100 * ?a" using assms(2,4) by (intro u64_id) simp
  moreover have "sub64 100 (100 * ?a div ?b) = 100 - 100 * ?a div ?b" using q by (intro sub64_id) simp_all
  moreover have "u8 (100 - 100 * ?a div ?b) = 100 - 100 * ?a div ?b"
    by (rule u8_id, rule le_less_trans [OF diff_le_self]) simp
  ultimately show ?thesis using assms(3) s by (simp add: sec_age_def)
qed

lemma sec_age_le:
  assumes "sit_min_mtime S \<le> t" and "t \<le> sit_max_mtime S" and "100 * sit_max_mtime S < 2 ^ 64"
  shows "sec_age t S \<le> 100"
proof (cases "sit_min_mtime S = sit_max_mtime S")
  case False
  then show ?thesis using assms sec_age_eq [of S t] by simp
qed (simp add: sec_age_def)

text \<open>A section written later is younger.\<close>

lemma sec_age_antimono:
  assumes "sit_min_mtime S \<le> t" and "t \<le> t'" and "t' \<le> sit_max_mtime S" and "100 * sit_max_mtime S < 2 ^ 64"
  shows "sec_age t' S \<le> sec_age t S"
proof (cases "sit_min_mtime S = sit_max_mtime S")
  case False
  then have "sit_min_mtime S < sit_max_mtime S" using assms by linarith
  then show ?thesis using assms sec_age_eq [of S t] sec_age_eq [of S t']
    by (simp add: diff_le_mono2 div_le_mono mult_le_mono2 diff_le_mono)
qed (simp add: sec_age_def)

lemma sec_util_le:
  assumes "sbi_log_blocks_per_seg sbi < 16" and "0 < sbi_segs_per_sec sbi"
    and "get_valid_blocks sbi segno (sbi_segs_per_sec sbi) \<le> sbi_segs_per_sec sbi * 2 ^ sbi_log_blocks_per_seg sbi"
  shows "sec_util sbi segno = get_valid_blocks sbi segno (sbi_segs_per_sec sbi) div sbi_segs_per_sec sbi * 100
      div 2 ^ sbi_log_blocks_per_seg sbi" and "sec_util sbi segno \<le> 100"
proof -
  let ?v = "get_valid_blocks sbi segno (sbi_segs_per_sec sbi) div sbi_segs_per_sec sbi" and ?b = "2 ^ sbi_log_blocks_per_seg sbi :: nat"
  have v: "?v \<le> ?b"
    using div_le_mono [OF assms(3), of "sbi_segs_per_sec sbi"] assms(2) by simp
  have "?b \<le> 2 ^ 16" using assms(1) by (intro power_increasing) auto
  with v have "?v * 100 < 2 ^ 32" by simp
  then have c: "u32 ?v = ?v" "u32 (?v * 100) = ?v * 100" by (auto intro!: u32_id)
  have "?v * 100 div ?b \<le> ?b * 100 div ?b" using v by (intro div_le_mono mult_le_mono1)
  then have le: "?v * 100 div ?b \<le> 100" by simp
  then show "sec_util sbi segno = ?v * 100 div ?b"
    by (simp add: sec_util_def Let_def c drop_bit_eq_div u8_id)
  with le show "sec_util sbi segno \<le> 100" by simp
qed

section \<open>The cost-benefit cost\<close>

lemma sdiv_nat: "int a sdiv int b = int (a div b)"
proof -
  have "sgn (int a) * sgn (int b) * (int a div int b) = int a div int b"
    by (cases "a = 0"; cases "b = 0") simp_all
  then show ?thesis by (simp add: signed_divide_int_def sgn_mult zdiv_int)
qed

lemma cb_formula_eq:
  assumes "u \<le> 100" and "age \<le> 100"
  shows "cb_formula u age = UINT_MAX - 100 * (100 - u) * age div (100 + u)" and "100 * (100 - u) * age div (100 + u) \<le> 10000"
proof -
  let ?q = "100 * (100 - u) * age div (100 + u)"
  have "100 * (100 - u) * age \<le> 100 * 100 * 100" using assms by (intro mult_le_mono) auto
  also have "\<dots> \<le> 10000 * (100 + u)" by simp
  finally have "100 * (100 - u) * age \<le> 10000 * (100 + u)" .
  then have "?q \<le> 10000 * (100 + u) div (100 + u)" by (rule div_le_mono)
  also have "\<dots> = 10000" by (rule nonzero_mult_div_cancel_right) simp
  finally show q: "?q \<le> 10000" .
  have "int (100 * (100 - u) * age) = 100 * (100 - int u) * int age" using assms(1) by (simp add: of_nat_diff)
  moreover have "100 + int u = int (100 + u)" by simp
  ultimately have "(100 * (100 - int u) * int age) sdiv (100 + int u) = int ?q"
    by (simp only: sdiv_nat [symmetric])
  then have "cb_formula u age = to_u32 (int UINT_MAX - int ?q)" by (simp add: cb_formula_def)
  also have "\<dots> = UINT_MAX - ?q" using q by (subst to_u32_id) (auto simp: UINT_MAX_def nat_diff_distrib)
  finally show "cb_formula u age = UINT_MAX - ?q" .
qed

text \<open>Older and emptier sections are cheaper to clean.\<close>

lemma cb_formula_mono:
  assumes "u \<le> u'" and "u' \<le> 100" and "age' \<le> age" and "age \<le> 100"
  shows "cb_formula u age \<le> cb_formula u' age'"
proof -
  have "100 * (100 - u') * age' \<le> 100 * (100 - u) * age" using assms by (intro mult_le_mono) auto
  then have "100 * (100 - u') * age' div (100 + u') \<le> 100 * (100 - u) * age div (100 + u)"
    using assms(1) by (meson add_le_mono div_le_mono div_le_mono2 le_refl le_trans zero_less_numeral add_pos_nonneg zero_le)
  then have "UINT_MAX - 100 * (100 - u) * age div (100 + u) \<le> UINT_MAX - 100 * (100 - u') * age' div (100 + u')"
    by (rule diff_le_mono2)
  moreover have "u \<le> 100" "age' \<le> 100" using assms by simp_all
  ultimately show ?thesis using cb_formula_eq(1) [of u age] cb_formula_eq(1) [of u' age'] assms(2,4) by (simp only:)
qed

section \<open>The cost-age-times cost\<close>

lemma cat_formula_eq:
  assumes "u < 100" and "0 < age" and "100 * number < 2 ^ 32"
  shows "cat_formula u age number = u * number div (100 - u) div age"
proof -
  have un: "u * number \<le> 100 * number" using assms(1) by simp
  have lt: "u * number < 2 ^ 32" by (rule le_less_trans [OF un assms(3)])
  then have "u64 (u * number) = u * number" by (intro u64_id) simp
  moreover have "sub64 100 u = 100 - u" using assms(1) by (intro sub64_id) simp_all
  moreover have "u * number div (100 - u) div age \<le> u * number" by (meson div_le_dividend le_trans)
  then have "u32 (u * number div (100 - u) div age) = u * number div (100 - u) div age"
    using lt by (intro u32_id) linarith
  ultimately show ?thesis using assms(1,2) by (simp add: cat_formula_def)
qed

text \<open>A section that was cleaned more often, is fuller, or is younger costs more.\<close>

lemma cat_formula_mono:
  assumes "u \<le> u'" and "u' < 100" and "0 < age'" and "age' \<le> age" and "number \<le> number'" and "100 * number' < 2 ^ 32"
  shows "cat_formula u age number \<le> cat_formula u' age' number'"
proof -
  have "u * number \<le> u' * number'" using assms(1,5) by (rule mult_le_mono)
  then have "u * number div (100 - u) \<le> u' * number' div (100 - u')"
    using assms(1,2) by (meson diff_le_mono2 div_le_mono div_le_mono2 le_trans zero_less_diff)
  then have "u * number div (100 - u) div age \<le> u' * number' div (100 - u') div age'"
    using assms(3,4) by (meson div_le_mono div_le_mono2 le_trans)
  then show ?thesis using cat_formula_eq [of u age number] cat_formula_eq [of u' age' number'] assms by simp
qed

section \<open>Sections\<close>

text \<open>The loops over the segments of a section compute sums.\<close>

definition sec_sum :: "(nat \<Rightarrow> nat) \<Rightarrow> f2fs_sb_info \<Rightarrow> nat \<Rightarrow> nat" where
  "sec_sum f sbi secno = (\<Sum>i\<in>sec_segs sbi secno. f i)"

lemma section_fold:
  assumes "start + k \<le> 2 ^ 32" and "(\<Sum>i\<in>{start..<start + k}. f i) < 2 ^ 64"
  shows "fold (\<lambda>i m. u64 (m + f (u32 (start + i)))) [0..<k] 0 = (\<Sum>i\<in>{start..<start + k}. f i)"
  using assms
proof (induction k)
  case (Suc k)
  have "u32 (start + k) = start + k" using Suc.prems by (intro u32_id) simp
  then show ?case using Suc by (simp add: u64_id)
qed simp

lemma section_start:
  assumes "geometry sbi" and "segno < TOTAL_SEGS sbi"
  shows "u32 (GET_SECNO sbi segno * sbi_segs_per_sec sbi) = GET_SECNO sbi segno * sbi_segs_per_sec sbi"
    "GET_SECNO sbi segno * sbi_segs_per_sec sbi + sbi_segs_per_sec sbi \<le> 2 ^ 32" "i \<in> sec_segs sbi (GET_SECNO sbi segno) \<Longrightarrow> i < TOTAL_SEGS sbi"
proof -
  let ?k = "sbi_segs_per_sec sbi" and ?s = "GET_SECNO sbi segno"
  have "?s + 1 \<le> TOTAL_SECS sbi" using GET_SECNO_less [OF assms] by simp
  then have "(?s + 1) * ?k \<le> TOTAL_SEGS sbi" unfolding geometryD(6) [OF assms(1)] by (rule mult_le_mono1)
  then have le: "?s * ?k + ?k \<le> TOTAL_SEGS sbi" by (simp add: add.commute)
  then show "?s * ?k + ?k \<le> 2 ^ 32" "i \<in> sec_segs sbi ?s \<Longrightarrow> i < TOTAL_SEGS sbi"
    using TOTAL_SEGS_less [OF assms(1)] by (auto simp: sec_segs_def)
  then show "u32 (?s * ?k) = ?s * ?k" using geometryD(3) [OF assms(1)] by (intro u32_id) linarith
qed

text \<open>Utilisation and age of a section, in per cent, from the sums over its segments.\<close>

definition util_of :: "f2fs_sb_info \<Rightarrow> nat \<Rightarrow> nat" where
  "util_of sbi secno = sec_sum (vblocks sbi) sbi secno div sbi_segs_per_sec sbi * 100 div sbi_blocks_per_seg sbi"

definition age_of :: "f2fs_sb_info \<Rightarrow> nat \<Rightarrow> nat" where
  "age_of sbi secno =
    (let t = sec_sum (\<lambda>i. se_mtime (get_seg_entry sbi i)) sbi secno div sbi_segs_per_sec sbi; lo = sit_min_mtime (SIT_I sbi); hi = sit_max_mtime (SIT_I sbi)
     in if hi = lo then 0 else 100 - 100 * (t - lo) div (hi - lo))"

definition cleanings_of :: "f2fs_sb_info \<Rightarrow> nat \<Rightarrow> nat" where
  "cleanings_of sbi secno = sec_sum (\<lambda>i. se_numberofcleaning (get_seg_entry sbi i)) sbi secno div sbi_segs_per_sec sbi"

text \<open>The times are in the range of \<open>min_mtime\<close> and \<open>max_mtime\<close>, and no sum overflows.\<close>

definition costs_fit :: "f2fs_sb_info \<Rightarrow> nat \<Rightarrow> bool" where
  "costs_fit sbi segno \<longleftrightarrow> segno < TOTAL_SEGS sbi
     \<and> (\<forall>i\<in>sec_segs sbi (GET_SECNO sbi segno). sit_min_mtime (SIT_I sbi) \<le> se_mtime (get_seg_entry sbi i) \<and> se_mtime (get_seg_entry sbi i) \<le> sit_max_mtime (SIT_I sbi))
     \<and> 100 * sit_max_mtime (SIT_I sbi) < 2 ^ 64 \<and> sbi_segs_per_sec sbi * sit_max_mtime (SIT_I sbi) < 2 ^ 64
     \<and> 100 * sec_sum (\<lambda>i. se_numberofcleaning (get_seg_entry sbi i)) sbi (GET_SECNO sbi segno) < 2 ^ 32"

lemma section_costs:
  assumes ok: "sit_ok E sbi" and fit: "costs_fit sbi segno"
  defines "n \<equiv> GET_SECNO sbi segno"
  shows "fst (get_cb_cost sbi segno) = UINT_MAX - 100 * (100 - util_of sbi n) * age_of sbi n div (100 + util_of sbi n)"
    "fst (get_cat_cost sbi segno) = (if util_of sbi n = 100 \<or> age_of sbi n = 0 then UINT_MAX
       else util_of sbi n * cleanings_of sbi n div (100 - util_of sbi n) div age_of sbi n)"
    "util_of sbi n \<le> 100" "age_of sbi n \<le> 100" "100 * cleanings_of sbi n < 2 ^ 32"
    "snd (get_cb_cost sbi segno) = set_SIT_I (SIT_I sbi) sbi" "snd (get_cat_cost sbi segno) = set_SIT_I (SIT_I sbi) sbi"
proof -
  let ?k = "sbi_segs_per_sec sbi" and ?S = "SIT_I sbi" and ?lo = "sit_min_mtime (SIT_I sbi)" and ?hi = "sit_max_mtime (SIT_I sbi)"
  let ?t = "\<lambda>i. se_mtime (get_seg_entry sbi i)" and ?c = "\<lambda>i. se_numberofcleaning (get_seg_entry sbi i)"
  note g = sit_okD(1) [OF ok] and F = fit [unfolded costs_fit_def, folded n_def]
  have seg: "segno < TOTAL_SEGS sbi" using F by blast
  note st = section_start [OF g seg, folded n_def] and k = geometryD(3) [OF g]
  have card: "card (sec_segs sbi n) = ?k" by (simp add: sec_segs_def)
  have le: "sec_sum ?t sbi n \<le> ?k * ?hi" "?k * ?lo \<le> sec_sum ?t sbi n"
    using sum_bounded_above [of "sec_segs sbi n" ?t ?hi] sum_bounded_below [of "sec_segs sbi n" ?lo ?t] F by (auto simp: sec_sum_def card)
  then have mt: "sec_mtime sbi segno = sec_sum ?t sbi n div ?k"
    using section_fold [of "n * ?k" ?k ?t] st F by (simp add: sec_mtime_def Let_def n_def [symmetric] sec_sum_def sec_segs_def)
  have range: "?lo \<le> sec_mtime sbi segno" "sec_mtime sbi segno \<le> ?hi"
    using div_le_mono [OF le(1), of ?k] div_le_mono [OF le(2), of ?k] k by (simp_all add: mt)
  have cs: "100 * sec_sum ?c sbi n < 2 ^ 32" using F by blast
  then have "sec_sum ?c sbi n < 2 ^ 64" by simp
  then have cl: "sec_cleanings sbi segno = cleanings_of sbi n"
    using section_fold [of "n * ?k" ?k ?c] st by (simp add: sec_cleanings_def Let_def n_def [symmetric] cleanings_of_def sec_sum_def sec_segs_def)
  have w: "widen_mtime (sec_mtime sbi segno) ?S = ?S" using range by (simp add: widen_mtime_def)
  have age: "sec_age (sec_mtime sbi segno) ?S = age_of sbi n"
  proof (cases "?hi = ?lo")
    case False
    then show ?thesis using sec_age_eq [OF range] range F by (simp add: age_of_def Let_def mt)
  qed (simp add: sec_age_def age_of_def)
  show al: "age_of sbi n \<le> 100" using sec_age_le [OF range] F by (simp add: age)
  have v: "get_valid_blocks sbi segno ?k = sec_sum (vblocks sbi) sbi n"
  proof (cases "1 < ?k")
    case True
    then show ?thesis using sit_okD(10) [OF ok True GET_SECNO_less [OF g seg]] by (simp add: get_valid_blocks_def get_sec_entry_def n_def sec_sum_def)
  next
    case False
    then have "?k = 1" using k by simp
    then show ?thesis by (simp add: get_valid_blocks_def sec_sum_def sec_segs_def n_def GET_SECNO_def vblocks_def)
  qed
  have "vblocks sbi i \<le> sbi_blocks_per_seg sbi" if "i \<in> sec_segs sbi n" for i
    using sit_okD(6) [OF ok st(3) [OF that]] count_bits_le by (simp add: seg_ok_def vblocks_def)
  then have "sec_sum (vblocks sbi) sbi n \<le> ?k * sbi_blocks_per_seg sbi"
    using sum_bounded_above [of "sec_segs sbi n" "vblocks sbi" "sbi_blocks_per_seg sbi"] by (simp add: sec_sum_def card)
  moreover have "(2 :: nat) ^ sbi_log_blocks_per_seg sbi < 2 ^ 16" using sit_okD(4) [OF ok] geometryD(1) [OF g] by simp
  then have "sbi_log_blocks_per_seg sbi < 16" by (rule power_less_imp_less_exp [rotated]) simp
  ultimately have ut: "sec_util sbi segno = util_of sbi n" and ul: "sec_util sbi segno \<le> 100"
    using sec_util_le [of sbi segno] k geometryD(1) [OF g] by (simp_all add: v util_of_def)
  show u: "util_of sbi n \<le> 100" using ul by (simp add: ut)
  have "cleanings_of sbi n \<le> sec_sum ?c sbi n" by (simp add: cleanings_of_def)
  then show c: "100 * cleanings_of sbi n < 2 ^ 32" using cs by linarith
  show "fst (get_cb_cost sbi segno) = UINT_MAX - 100 * (100 - util_of sbi n) * age_of sbi n div (100 + util_of sbi n)"
    using cb_formula_eq(1) [OF u al] by (simp add: get_cb_cost_def Let_def w age ut)
  have "cat_formula (util_of sbi n) (age_of sbi n) (cleanings_of sbi n) = (if util_of sbi n = 100 \<or> age_of sbi n = 0 then UINT_MAX
       else util_of sbi n * cleanings_of sbi n div (100 - util_of sbi n) div age_of sbi n)"
    using cat_formula_eq [OF _ _ c] u by (simp add: cat_formula_def)
  then show "fst (get_cat_cost sbi segno) = (if util_of sbi n = 100 \<or> age_of sbi n = 0 then UINT_MAX
       else util_of sbi n * cleanings_of sbi n div (100 - util_of sbi n) div age_of sbi n)"
    by (simp add: get_cat_cost_def Let_def w age ut cl)
  show "snd (get_cb_cost sbi segno) = set_SIT_I (SIT_I sbi) sbi" "snd (get_cat_cost sbi segno) = set_SIT_I (SIT_I sbi) sbi"
    by (simp_all add: get_cb_cost_def get_cat_cost_def Let_def w)
qed

text \<open>A section that has fewer valid blocks, was written earlier and was cleaned less often never costs more.\<close>

lemma section_costs_ordered:
  assumes ok: "sit_ok E sbi" and fit: "costs_fit sbi a" "costs_fit sbi b"
    and v: "sec_sum (vblocks sbi) sbi (GET_SECNO sbi a) \<le> sec_sum (vblocks sbi) sbi (GET_SECNO sbi b)"
    and t: "sec_sum (\<lambda>i. se_mtime (get_seg_entry sbi i)) sbi (GET_SECNO sbi a) \<le> sec_sum (\<lambda>i. se_mtime (get_seg_entry sbi i)) sbi (GET_SECNO sbi b)"
  shows "fst (get_cb_cost sbi a) \<le> fst (get_cb_cost sbi b)"
    and "sec_sum (\<lambda>i. se_numberofcleaning (get_seg_entry sbi i)) sbi (GET_SECNO sbi a) \<le> sec_sum (\<lambda>i. se_numberofcleaning (get_seg_entry sbi i)) sbi (GET_SECNO sbi b)
      \<Longrightarrow> fst (get_cat_cost sbi a) \<le> fst (get_cat_cost sbi b)"
proof -
  let ?m = "GET_SECNO sbi a" and ?n = "GET_SECNO sbi b"
  note A = section_costs [OF ok fit(1)] and B = section_costs [OF ok fit(2)]
  have u: "util_of sbi ?m \<le> util_of sbi ?n" unfolding util_of_def using v by (intro div_le_mono mult_le_mono1)
  have ag: "age_of sbi ?n \<le> age_of sbi ?m"
    unfolding age_of_def Let_def using t by (simp add: diff_le_mono2 div_le_mono mult_le_mono2 diff_le_mono)
  show "fst (get_cb_cost sbi a) \<le> fst (get_cb_cost sbi b)"
    using cb_formula_mono [OF u B(3) ag A(4)] cb_formula_eq(1) [OF A(3,4)] cb_formula_eq(1) [OF B(3,4)] by (simp add: A(1) B(1))
  assume "sec_sum (\<lambda>i. se_numberofcleaning (get_seg_entry sbi i)) sbi ?m \<le> sec_sum (\<lambda>i. se_numberofcleaning (get_seg_entry sbi i)) sbi ?n"
  then have c: "cleanings_of sbi ?m \<le> cleanings_of sbi ?n" unfolding cleanings_of_def by (rule div_le_mono)
  have "u32 x \<le> UINT_MAX" for x by (simp add: u32_def UINT_MAX_def less_Suc_eq_le [symmetric])
  then have top: "fst (get_cat_cost sbi a) \<le> UINT_MAX" by (simp add: get_cat_cost_def Let_def cat_formula_def)
  show "fst (get_cat_cost sbi a) \<le> fst (get_cat_cost sbi b)"
  proof (cases "util_of sbi ?n = 100 \<or> age_of sbi ?n = 0")
    case True
    then show ?thesis using top by (simp add: B(2))
  next
    case False
    then have nb: "util_of sbi ?n < 100" "0 < age_of sbi ?n" using B(3) by auto
    then have na: "util_of sbi ?m < 100" "0 < age_of sbi ?m" using u ag by auto
    show ?thesis
      using cat_formula_mono [OF u nb ag c B(5)] cat_formula_eq [OF na A(5)] cat_formula_eq [OF nb B(5)] na nb by (simp add: A(2) B(2))
  qed
qed

section \<open>Sections without age\<close>

text \<open>
  When all sections have the same modification time, \<open>min_mtime\<close> equals \<open>max_mtime\<close>, every age
  is 0 and every cost is \<open>UINT_MAX\<close>, which is not below the limit \<open>get_max_cost\<close> sets: no
  section can become the victim.
\<close>

lemma get_gc_cost_no_age:
  assumes "sit_min_mtime (SIT_I sbi) = sec_mtime sbi segno" and "sit_max_mtime (SIT_I sbi) = sec_mtime sbi segno" and "vp_alloc_mode p = LFS"
  shows "get_gc_cost sbi segno p = (UINT_MAX, set_SIT_I (SIT_I sbi) sbi)"
proof -
  have "cb_formula u 0 = UINT_MAX" for u by (simp add: cb_formula_def to_u32_id UINT_MAX_def)
  then show ?thesis using assms
    by (simp add: get_gc_cost_def get_cat_cost_def get_cb_cost_def Let_def widen_mtime_def sec_age_def cat_formula_def)
qed

lemma sec_mtime_frame: "search_frame a b \<Longrightarrow> sec_mtime b s = sec_mtime a s"
  by (simp add: search_frame_def sec_mtime_def)

lemma no_victim_without_age:
  assumes K: "kernel_ok E" and g: "geometry sbi" and n: "TOTAL_SEGS sbi + sbi_segs_per_sec sbi < 2 ^ 32"
    and t: "sit_min_mtime (SIT_I sbi) = t" "sit_max_mtime (SIT_I sbi) = t"
    and same: "\<forall>s<TOTAL_SEGS sbi. is_dirty sbi DIRTY s \<longrightarrow> sec_mtime sbi s = t"
    and nb: "gc_type = FG_GC \<Longrightarrow> \<not> (\<exists>s. bg_choice sbi s)"
  shows "\<exists>sbi'. get_victim_by_default E sbi result gc_type type LFS = Some (False, result, sbi') \<and> search_frame sbi sbi'"
proof -
  let ?mx = "get_max_cost sbi (select_policy sbi gc_type type LFS)" and ?n = "TOTAL_SEGS sbi"
  define p where "p = (select_policy sbi gc_type type LFS)\<lparr>vp_min_cost := ?mx, vp_min_segno := NULL_SEGNO\<rparr>"
  have p: "vp_ofs_unit p = sbi_segs_per_sec sbi" "vp_min_segno p = NULL_SEGNO" "vp_alloc_mode p = LFS" "vp_min_cost p = ?mx"
    "vp_dirty_segmap p = dl_dirty_segmap (DIRTY_I sbi) ! DIRTY"
    by (simp_all add: p_def select_policy_def Let_def)
  have ofs: "0 < vp_ofs_unit p" "?n + vp_ofs_unit p < 2 ^ 32" using geometryD(3) [OF g] n by (simp_all add: p)
  have "?mx \<le> UINT_MAX" by (auto simp: get_max_cost_def select_policy_def Let_def UINT_MAX_def u32_def split: gc_mode.split)
  then have no: "\<not> UINT_MAX < ?mx" by simp
  let ?I = "\<lambda>b q (ns :: nat). search_frame sbi b \<and> SIT_I b = SIT_I sbi \<and> vp_min_segno q = NULL_SEGNO \<and> vp_min_cost q = ?mx"
    and ?Q = "\<lambda>b q. search_frame sbi b \<and> vp_min_segno q = NULL_SEGNO"
  have cost: "c = UINT_MAX" "search_frame sbi b'" "SIT_I b' = SIT_I sbi"
    if "get_gc_cost b s q = (c, b')" "search_frame sbi b" "SIT_I b = SIT_I sbi" "same_policy p q" "s = scan (vp_dirty_segmap p) ?n x" "s < ?n" for b s q c b' x
  proof -
    have "is_dirty sbi DIRTY s" using scan_hit [of "vp_dirty_segmap p" ?n x] that(5,6) by (auto simp: p is_dirty_def)
    then have "sec_mtime b s = t" using same that(6) sec_mtime_frame [OF that(2)] by simp
    then have "get_gc_cost b s q = (UINT_MAX, set_SIT_I (SIT_I b) b)"
      using t that(3,4) p(3) by (intro get_gc_cost_no_age) (simp_all add: same_policy_def)
    then show "c = UINT_MAX" "SIT_I b' = SIT_I sbi" using that(1,3) by auto
    show "search_frame sbi b'" by (rule search_frame_steps(2) [OF that(2) get_gc_cost_frame [OF that(1)]])
  qed
  have "\<exists>sbi' p'. victim_loop E gc_type ?mx sbi p 0 = Some (sbi', p') \<and> same_policy p p' \<and> ?Q sbi' p'"
  proof (rule victim_loop_rule [OF K ofs, where I = ?I and Q = ?Q])
    show "?I sbi p 0" using p by simp
    show "same_policy p p" by (simp add: same_policy_def)
  qed (use no in \<open>auto simp: take_if_less_def intro: search_frame_steps(1) dest: cost\<close>)
  then obtain sbi1 p' where v: "victim_loop E gc_type ?mx sbi p 0 = Some (sbi1, p')" "search_frame sbi sbi1" "vp_min_segno p' = NULL_SEGNO" by blast
  have "(if gc_type = FG_GC then check_bg_victims E sbi 0 else Some (NULL_SEGNO, sbi)) = Some (NULL_SEGNO, sbi)"
  proof (cases "gc_type = FG_GC")
    case True
    have "TOTAL_SECS sbi * 1 \<le> TOTAL_SECS sbi * sbi_segs_per_sec sbi" using geometryD(3) [OF g] by (intro mult_le_mono2) simp
    then have "TOTAL_SECS sbi < 2 ^ 32 - 1" using n geometryD(3) [OF g] unfolding geometryD(6) [OF g, symmetric] by simp
    then show ?thesis using check_bg_victims_ok [OF K, of sbi 0] nb [OF True] True by (auto simp: bg_choice_def)
  qed simp
  then show ?thesis using v by (simp add: get_victim_by_default_def p_def Let_def)
qed

end
