(* ===== verification/Block_Store.thy ===== *)
theory Block_Store
  imports Curseg_Alloc
begin

text \<open>
  The segment manager as its users see it: a set of live addresses, an operation that makes a
  fresh one live in place of an old one, and one that gives an address up.  Whoever keeps
  pointers to blocks relies on this contract only; the pointers then never meet.
\<close>

section \<open>Pointers into a store\<close>

text \<open>\<open>hole\<close> are the values that stand for no block.  No block has two pointers, and every block
  pointed at is live.\<close>

definition ptrs_ok :: "(nat \<Rightarrow> bool) \<Rightarrow> nat set \<Rightarrow> ('p \<Rightarrow> nat) \<Rightarrow> bool" where
  "ptrs_ok hole used tab \<longleftrightarrow> (\<forall>p. hole (tab p) \<or> tab p \<in> used) \<and> (\<forall>p q. tab p = tab q \<longrightarrow> hole (tab p) \<or> p = q)"

lemma ptrs_okD:
  assumes "ptrs_ok hole used tab"
  shows "hole (tab p) \<or> tab p \<in> used" "tab p = tab q \<Longrightarrow> hole (tab p) \<or> p = q"
  using assms by (auto simp: ptrs_ok_def)

text \<open>A renaming of the pointers.\<close>

lemma ptrs_ok_inj: "ptrs_ok hole used tab \<Longrightarrow> inj f \<Longrightarrow> ptrs_ok hole used (tab \<circ> f)"
  by (simp add: ptrs_ok_def inj_def) metis

section \<open>The contract\<close>

locale block_store =
  fixes inv :: "'s \<Rightarrow> bool" and used :: "'s \<Rightarrow> nat set" and hole :: "nat \<Rightarrow> bool" and room :: "'s \<Rightarrow> bool"
    and request :: "'q \<Rightarrow> bool"
    and alloc :: "'s \<Rightarrow> nat \<Rightarrow> 'q \<Rightarrow> (nat \<times> 's) option" and release :: "'s \<Rightarrow> nat \<Rightarrow> 's option"
  assumes alloc_fresh: "inv s \<Longrightarrow> room s \<Longrightarrow> request q \<Longrightarrow> hole old \<or> old \<in> used s \<Longrightarrow>
      \<exists>new s'. alloc s old q = Some (new, s') \<and> inv s' \<and> new \<notin> used s \<and> \<not> hole new \<and> used s' = insert new (used s) - {old}"
    and release_live: "inv s \<Longrightarrow> a \<in> used s \<Longrightarrow> \<exists>s'. release s a = Some s' \<and> inv s' \<and> used s' = used s - {a}"
    and hole_dead: "inv s \<Longrightarrow> hole a \<Longrightarrow> a \<notin> used s"
begin

text \<open>Moving a block keeps the pointers apart.\<close>

lemma alloc_ptrs:
  assumes "inv s" and "room s" and "request q" and p: "ptrs_ok hole (used s) tab"
  shows "\<exists>new s'. alloc s (tab k) q = Some (new, s') \<and> inv s' \<and> new \<notin> used s \<and> \<not> hole new
    \<and> used s' = insert new (used s) - {tab k} \<and> ptrs_ok hole (used s') (tab(k := new))"
proof -
  from alloc_fresh [OF assms(1-3) ptrs_okD(1) [OF p]] obtain new s' where
    s': "alloc s (tab k) q = Some (new, s')" "inv s'" "new \<notin> used s" "\<not> hole new" "used s' = insert new (used s) - {tab k}"
    by blast
  have new: "new \<noteq> tab k" using s'(3,4) ptrs_okD(1) [OF p, of k] by metis
  have other: "tab a \<noteq> new" "hole (tab a) \<or> tab a \<noteq> tab k" if "a \<noteq> k" for a
    using ptrs_okD(1) [OF p, of a] ptrs_okD(2) [OF p, of a k] that s'(3,4) by metis+
  have "hole ((tab(k := new)) a) \<or> (tab(k := new)) a \<in> used s'" for a
  proof (cases "a = k")
    case False
    then show ?thesis using ptrs_okD(1) [OF p, of a] other [OF False] s'(5) by auto
  qed (use new s'(5) in simp)
  moreover have "hole ((tab(k := new)) a) \<or> a = b" if "(tab(k := new)) a = (tab(k := new)) b" for a b
  proof (cases "a = k \<or> b = k")
    case True
    then show ?thesis using that other(1) by (auto split: if_splits)
  next
    case False
    then show ?thesis using that ptrs_okD(2) [OF p, of a b] by simp
  qed
  ultimately have "ptrs_ok hole (used s') (tab(k := new))" unfolding ptrs_ok_def by blast
  with s' show ?thesis by blast
qed

text \<open>Giving a block up, and writing a hole over a hole.\<close>

lemma release_ptrs:
  assumes "inv s" and p: "ptrs_ok hole (used s) tab" and k: "\<not> hole (tab k)" and h: "hole h"
  shows "\<exists>s'. release s (tab k) = Some s' \<and> inv s' \<and> used s' = used s - {tab k} \<and> ptrs_ok hole (used s') (tab(k := h))"
proof -
  have "tab k \<in> used s" using ptrs_okD(1) [OF p] k by blast
  from release_live [OF assms(1) this] obtain s' where
    s': "release s (tab k) = Some s'" "inv s'" "used s' = used s - {tab k}" by blast
  have "ptrs_ok hole (used s') (tab(k := h))"
    using ptrs_okD [OF p] k h s'(3) unfolding ptrs_ok_def fun_upd_apply by (metis Diff_iff singletonD)
  with s' show ?thesis by blast
qed

lemma hole_ptrs: "ptrs_ok hole (used s) tab \<Longrightarrow> hole h \<Longrightarrow> ptrs_ok hole (used s) (tab(k := h))"
  unfolding ptrs_ok_def fun_upd_apply by metis

end

section \<open>The segment manager keeps it\<close>

definition hole_addr :: "f2fs_env \<Rightarrow> nat \<Rightarrow> bool" where
  "hole_addr E a \<longleftrightarrow> a = NULL_ADDR E \<or> a = NEW_ADDR E"

definition data_request :: "f2fs_env \<Rightarrow> f2fs_sb_info \<Rightarrow> nat \<Rightarrow> bool \<times> f2fs_summary \<times> nat \<Rightarrow> (nat \<times> f2fs_sb_info) option" where
  "data_request E sbi old q = (case q of (has_page, summ, t) \<Rightarrow>
     map_option (\<lambda>(new, _, sbi). (new, sbi)) (allocate_data_block E sbi has_page old summ t))"

lemma live_addrs_not_hole:
  assumes "fs_ok E sbi {}" and "a \<in> live_addrs sbi"
  shows "\<not> hole_addr E a"
proof -
  from assms(2) obtain s b where "a = main_addr sbi s b" "s < TOTAL_SEGS sbi" "b < sbi_blocks_per_seg sbi"
    by (auto simp: live_addrs_def)
  then have "0 < a" "a < 2 ^ 32 - 1" using main_addr_less [OF fs_okD(8) [OF assms(1)]] by auto
  then show ?thesis using fs_okD(9) [OF assms(1)] by (auto simp: hole_addr_def addr_consts_def)
qed

interpretation vol: block_store "\<lambda>sbi. kernel_ok E \<and> fs_ok E sbi {}" live_addrs "hole_addr E" "\<lambda>sbi. \<exists>s. free_section sbi s"
  "\<lambda>(has_page, summ, t). t < NR_CURSEG_TYPE" "data_request E" "invalidate_blocks E" for E
proof
  show "\<exists>new s'. data_request E s old q = Some (new, s') \<and> (kernel_ok E \<and> fs_ok E s' {}) \<and> new \<notin> live_addrs s
      \<and> \<not> hole_addr E new \<and> live_addrs s' = insert new (live_addrs s) - {old}"
    if i: "kernel_ok E \<and> fs_ok E s {}" and room: "\<exists>sec. free_section s sec"
      and r: "case q of (has_page, summ, t) \<Rightarrow> t < NR_CURSEG_TYPE" and old: "hole_addr E old \<or> old \<in> live_addrs s" for s q old
  proof -
    obtain has_page summ t where q: "q = (has_page, summ, t)" by (cases q)
    obtain sec where sec: "free_section s sec" using room by blast
    have "old_addr E s old" using old by (auto simp: old_addr_def hole_addr_def)
    from allocate_data_block_ok [OF conjunct1 [OF i] conjunct2 [OF i] _ sec this, of t has_page summ] i r
    show ?thesis by (auto simp: q data_request_def hole_addr_def)
  qed
  show "\<exists>s'. invalidate_blocks E s a = Some s' \<and> (kernel_ok E \<and> fs_ok E s' {}) \<and> live_addrs s' = live_addrs s - {a}"
    if "kernel_ok E \<and> fs_ok E s {}" "a \<in> live_addrs s" for s a
    using invalidate_blocks_ok [OF conjunct2 [OF that(1)] that(2)] that(1) by blast
  show "a \<notin> live_addrs s" if "kernel_ok E \<and> fs_ok E s {}" "hole_addr E a" for s a
    using live_addrs_not_hole that by blast
qed

end
