(* ===== verification/Node_Walk.thy ===== *)
theory Node_Walk
  imports Node_Store
begin

text \<open>
  The tree of node blocks of a file as a function of the node blocks alone: the node reached
  from the inode by a list of slots, the offset such a node has, and the blocks of the file.
  The offset in the footer of a node tells its place, so no node is in two places.
\<close>

section \<open>Places in the tree\<close>

text \<open>The slots of \<open>i_nid\<close> count from 0, and the list of an inode's own place is empty.\<close>

definition place_nofs :: "node_layout \<Rightarrow> nat list \<Rightarrow> nat option" where
  "place_nofs L s = (let N = NIDS_PER_BLOCK L in case s of
       [] \<Rightarrow> Some 0
     | [a] \<Rightarrow> (if a = 0 then Some 1 else if a = 1 then Some 2 else if a = 2 then Some 3 else if a = 3 then Some (4 + N)
               else if a = 4 then Some (5 + 2 * N) else None)
     | [a, x] \<Rightarrow> (if x < N \<and> a = 2 then Some (4 + x) else if x < N \<and> a = 3 then Some (5 + N + x)
                  else if x < N \<and> a = 4 then Some (6 + 2 * N + x * (N + 1)) else None)
     | [a, x, y] \<Rightarrow> (if a = 4 \<and> x < N \<and> y < N then Some (6 + 2 * N + (x * (N + 1) + (y + 1))) else None)
     | _ \<Rightarrow> None)"

lemma place_nofs_cases:
  assumes "place_nofs L s = Some n"
  obtains "s = []" "n = 0" | "s = [0]" "n = 1" | "s = [1]" "n = 2" | "s = [2]" "n = 3" | "s = [3]" "n = 4 + NIDS_PER_BLOCK L"
    | "s = [4]" "n = 5 + 2 * NIDS_PER_BLOCK L"
    | x where "s = [2, x]" "x < NIDS_PER_BLOCK L" "n = 4 + x" | x where "s = [3, x]" "x < NIDS_PER_BLOCK L" "n = 5 + NIDS_PER_BLOCK L + x"
    | x where "s = [4, x]" "x < NIDS_PER_BLOCK L" "n = 6 + 2 * NIDS_PER_BLOCK L + x * (NIDS_PER_BLOCK L + 1)"
    | x y where "s = [4, x, y]" "x < NIDS_PER_BLOCK L" "y < NIDS_PER_BLOCK L"
        "n = 6 + 2 * NIDS_PER_BLOCK L + (x * (NIDS_PER_BLOCK L + 1) + (y + 1))"
  using assms by (auto simp: place_nofs_def Let_def split: list.splits if_splits)

lemma place_nofs_inj:
  assumes "place_nofs L s = Some n" and "place_nofs L t = Some n"
  shows "s = t"
proof -
  let ?N = "NIDS_PER_BLOCK L"
  have pair: "x = x' \<and> r = r'" if "x * (?N + 1) + r = x' * (?N + 1) + r'" "r < ?N + 1" "r' < ?N + 1" for x x' r r'
  proof -
    have "(x * (?N + 1) + r) div (?N + 1) = (x' * (?N + 1) + r') div (?N + 1)" using that(1) by simp
    then have "x = x'" using pair_index_div [OF that(2)] pair_index_div [OF that(3)] by metis
    then show ?thesis using that(1) by simp
  qed
  have wide: False if "n = 6 + 2 * ?N + k" "place_nofs L u = Some n" "length u < 2 \<or> hd u \<noteq> 4" for u k
    using that(1,3) by (cases rule: place_nofs_cases [OF that(2)]) auto
  have deep: "\<exists>x r. r < ?N + 1 \<and> x < ?N \<and> n = 6 + 2 * ?N + (x * (?N + 1) + r) \<and> u = (if r = 0 then [4, x] else [4, x, r - 1])"
    if "place_nofs L u = Some n" "2 \<le> length u" "hd u = 4" for u
    using that(2,3)
  proof (cases rule: place_nofs_cases [OF that(1)])
    case (9 x)
    then show ?thesis by (intro exI [of _ x] exI [of _ 0]) simp
  next
    case (10 x y)
    then show ?thesis by (intro exI [of _ x] exI [of _ "y + 1"]) simp
  qed auto
  show ?thesis
  proof (cases "2 \<le> length s \<and> hd s = 4 \<or> 2 \<le> length t \<and> hd t = 4")
    case True
    have both: "2 \<le> length u \<and> hd u = 4" if "place_nofs L u = Some n" for u
    proof (rule ccontr)
      assume "\<not> (2 \<le> length u \<and> hd u = 4)"
      moreover obtain k where "n = 6 + 2 * ?N + k" using deep [OF assms(1)] deep [OF assms(2)] True by blast
      ultimately show False using wide that by (metis not_le)
    qed
    from deep [OF assms(1)] both [OF assms(1)] obtain x r where x: "r < ?N + 1" "n = 6 + 2 * ?N + (x * (?N + 1) + r)"
      "s = (if r = 0 then [4, x] else [4, x, r - 1])" by blast
    from deep [OF assms(2)] both [OF assms(2)] obtain x' r' where x': "r' < ?N + 1" "n = 6 + 2 * ?N + (x' * (?N + 1) + r')"
      "t = (if r' = 0 then [4, x'] else [4, x', r' - 1])" by blast
    have "x * (?N + 1) + r = x' * (?N + 1) + r'" using x(2) x'(2) by linarith
    from pair [OF this x(1) x'(1)] show ?thesis using x(3) x'(3) by simp
  next
    case False
    then show ?thesis
      by (cases rule: place_nofs_cases [OF assms(1)]; cases rule: place_nofs_cases [OF assms(2)]) auto
  qed
qed

lemma place_nofs_butlast: "place_nofs L (s @ [x]) = Some n \<Longrightarrow> \<exists>m. place_nofs L s = Some m"
  by (erule place_nofs_cases) (auto simp: append_eq_Cons_conv place_nofs_def Let_def)

lemma place_nofs_pos: "place_nofs L s = Some n \<Longrightarrow> n = 0 \<longleftrightarrow> s = []"
  by (erule place_nofs_cases) simp_all

lemma place_nofs_small: "place_nofs L s = Some n \<Longrightarrow> n < node_count L"
proof (erule place_nofs_cases)
  fix x
  assume x: "x < NIDS_PER_BLOCK L"
  then have "x * (NIDS_PER_BLOCK L + 1) + 0 < NIDS_PER_BLOCK L * (NIDS_PER_BLOCK L + 1)" by (intro pair_index_less) simp_all
  then show "n = 6 + 2 * NIDS_PER_BLOCK L + x * (NIDS_PER_BLOCK L + 1) \<Longrightarrow> n < node_count L" by (simp add: node_count_def)
  show "n = 4 + x \<Longrightarrow> n < node_count L" "n = 5 + NIDS_PER_BLOCK L + x \<Longrightarrow> n < node_count L"
    using x by (simp_all add: node_count_def)
  fix y
  assume "y < NIDS_PER_BLOCK L"
  then have "x * (NIDS_PER_BLOCK L + 1) + (y + 1) < NIDS_PER_BLOCK L * (NIDS_PER_BLOCK L + 1)"
    using x by (intro pair_index_less) simp_all
  then show "n = 6 + 2 * NIDS_PER_BLOCK L + (x * (NIDS_PER_BLOCK L + 1) + (y + 1)) \<Longrightarrow> n < node_count L"
    by (simp add: node_count_def)
qed (simp_all add: node_count_def)

section \<open>The place of a block\<close>

definition leaf_slots :: "leaf \<Rightarrow> nat list" where
  "leaf_slots l = (case l of In_inode \<Rightarrow> [] | Direct i \<Rightarrow> [i] | Indirect i x \<Rightarrow> [2 + i, x] | Double x y \<Rightarrow> [4, x, y])"

text \<open>The slots of a path, as \<open>get_nid\<close> computes them.\<close>

definition path_slots :: "node_layout \<Rightarrow> nat list \<Rightarrow> nat list" where
  "path_slots L offset = (case butlast offset of [] \<Rightarrow> [] | a # os \<Rightarrow> (a - NODE_DIR1_BLOCK L) # os)"

lemma leaf_path_slots:
  assumes "layout_ok L" and "leaf_ok L l"
  shows "path_slots L (fst (leaf_path L l b)) = leaf_slots l"
    "k \<le> length (leaf_slots l) \<Longrightarrow> place_nofs L (take k (leaf_slots l)) = Some (snd (leaf_path L l b) ! k)"
    "length (snd (leaf_path L l b)) = Suc (length (leaf_slots l))"
    "length (fst (leaf_path L l b)) = Suc (length (leaf_slots l))"
  using assms
  by (cases l; auto simp: leaf_path_def leaf_slots_def path_slots_def layout_ok_def leaf_ok_def leaf_nofs_def place_nofs_def
      Let_def take_Cons' nth_Cons' less_2_cases_iff le_Suc_eq)+

lemma leaf_place: "layout_ok L \<Longrightarrow> leaf_ok L l \<Longrightarrow> place_nofs L (leaf_slots l) = Some (leaf_nofs L l)"
  by (cases l) (auto simp: leaf_slots_def leaf_ok_def leaf_nofs_def place_nofs_def Let_def less_2_cases_iff)

section \<open>Walking the tree\<close>

fun walk :: "(nat \<Rightarrow> node_block option) \<Rightarrow> nat \<Rightarrow> nat list \<Rightarrow> nat option" where
  "walk P nid [] = Some nid"
| "walk P nid (x # s) = (case P nid of None \<Rightarrow> None
     | Some p \<Rightarrow> if nb_nid p x = 0 then None else walk P (nb_nid p x) s)"

lemma walk_append: "walk P nid (s @ t) = Option.bind (walk P nid s) (\<lambda>m. walk P m t)"
  by (induction s arbitrary: nid) (auto split: option.splits)

lemma walk_snoc:
  "walk P nid (s @ [x]) = (case walk P nid s of None \<Rightarrow> None
     | Some m \<Rightarrow> (case P m of None \<Rightarrow> None | Some p \<Rightarrow> if nb_nid p x = 0 then None else Some (nb_nid p x)))"
  by (auto simp: walk_append split: option.splits)

text \<open>The footer of the node at a place.\<close>

definition footer_is :: "node_layout \<Rightarrow> node_block \<Rightarrow> nat \<Rightarrow> nat \<Rightarrow> nat \<Rightarrow> bool" where
  "footer_is L p nid ino n \<longleftrightarrow> ft_nid (nb_footer p) = nid \<and> ft_ino (nb_footer p) = ino \<and> ofs_of_node L (nb_footer p) = n"

definition tree_ok :: "node_layout \<Rightarrow> (nat \<Rightarrow> node_block option) \<Rightarrow> nat \<Rightarrow> bool" where
  "tree_ok L P ino \<longleftrightarrow> (\<forall>s n nid. place_nofs L s = Some n \<longrightarrow> walk P ino s = Some nid \<longrightarrow>
     (\<exists>p. P nid = Some p \<and> footer_is L p nid ino n))"

lemma tree_okD:
  assumes "tree_ok L P ino" and "place_nofs L s = Some n" and "walk P ino s = Some nid"
  obtains p where "P nid = Some p" "footer_is L p nid ino n"
  using assms unfolding tree_ok_def by blast

text \<open>A node is in one place of one tree.\<close>

lemma walk_unique:
  assumes "tree_ok L P ino" and "place_nofs L s = Some n" and "walk P ino s = Some nid"
    and "tree_ok L P ino'" and "place_nofs L s' = Some n'" and "walk P ino' s' = Some nid"
  shows "ino' = ino" "s' = s"
proof -
  from tree_okD [OF assms(1-3)] obtain p where "P nid = Some p" "footer_is L p nid ino n" .
  moreover from tree_okD [OF assms(4-6)] obtain q where "P nid = Some q" "footer_is L q nid ino' n'" .
  ultimately have "ino' = ino" "n' = n" by (auto simp: footer_is_def)
  then show "ino' = ino" "s' = s" using place_nofs_inj assms(2,5) by auto
qed

text \<open>What the walk looks at.\<close>

definition skeleton :: "node_layout \<Rightarrow> node_block \<Rightarrow> (nat \<Rightarrow> nat) \<times> nat \<times> nat \<times> nat" where
  "skeleton L p = (nb_nid p, ft_nid (nb_footer p), ft_ino (nb_footer p), ofs_of_node L (nb_footer p))"

lemma skeleton_footer: "skeleton L p = skeleton L q \<Longrightarrow> footer_is L p = footer_is L q"
  by (simp add: skeleton_def footer_is_def fun_eq_iff)

lemma walk_skeleton:
  assumes "\<And>nid. map_option (skeleton L) (P' nid) = map_option (skeleton L) (P nid)"
  shows "walk P' nid s = walk P nid s"
proof (induction s arbitrary: nid)
  case (Cons x s)
  then show ?case using assms [of nid] by (auto simp: skeleton_def split: option.splits)
qed simp

lemma tree_ok_skeleton:
  assumes "\<And>nid. map_option (skeleton L) (P' nid) = map_option (skeleton L) (P nid)"
  shows "tree_ok L P' ino = tree_ok L P ino"
proof -
  have "(\<exists>p. P' nid = Some p \<and> footer_is L p nid ino n) \<longleftrightarrow> (\<exists>p. P nid = Some p \<and> footer_is L p nid ino n)" for nid n
  proof (cases "P nid")
    case None
    then show ?thesis using assms [of nid] by simp
  next
    case (Some p)
    then obtain q where q: "P' nid = Some q" "skeleton L q = skeleton L p" using assms [of nid] by auto
    from skeleton_footer [OF q(2)] have "footer_is L q nid ino n \<longleftrightarrow> footer_is L p nid ino n" by simp
    then show ?thesis using Some q(1) by simp
  qed
  then show ?thesis unfolding tree_ok_def walk_skeleton [OF assms] by simp
qed

section \<open>The tree grows\<close>

text \<open>A fresh node without children is put into a free slot of the node at \<open>s\<close>.\<close>

definition graft :: "(nat \<Rightarrow> node_block option) \<Rightarrow> nat \<Rightarrow> nat \<Rightarrow> nat \<Rightarrow> node_block \<Rightarrow> nat \<Rightarrow> node_block option" where
  "graft P par x new q = P(new \<mapsto> q, par := map_option (\<lambda>p. p\<lparr>nb_nid := (nb_nid p)(x := new)\<rparr>) (P par))"

lemma graft_walk:
  assumes ok: "tree_ok L P ino" and s: "place_nofs L (s @ [x]) \<noteq> None" "walk P ino s = Some par"
    and p: "P par = Some p" "nb_nid p x = 0" and new: "P new = None" "new \<noteq> 0" and q: "nb_nid q = (\<lambda>_. 0)"
    and ok': "tree_ok L P ino'" and t: "place_nofs L t \<noteq> None"
  shows "walk (graft P par x new q) ino' t = (if ino' = ino \<and> t = s @ [x] then Some new else walk P ino' t)"
  using t
proof (induction t rule: rev_induct)
  case (snoc y t)
  obtain n where n: "place_nofs L (t @ [y]) = Some n" using snoc.prems by blast
  from place_nofs_butlast [OF this] obtain m where m: "place_nofs L t = Some m" by blast
  from s(1) obtain k where k: "place_nofs L s = Some k" using place_nofs_butlast by blast
  have np: "new \<noteq> par" using p new by auto
  have IH: "walk (graft P par x new q) ino' t = (if ino' = ino \<and> t = s @ [x] then Some new else walk P ino' t)"
    using snoc.IH m by simp
  show ?case
  proof (cases "ino' = ino \<and> t = s @ [x]")
    case True
    then have "walk P ino' t = None" using s(2) p by (simp add: walk_snoc)
    moreover have "walk (graft P par x new q) ino' t = Some new" "graft P par x new q new = Some q"
      using IH True np by (simp_all add: graft_def)
    moreover have "t @ [y] \<noteq> s @ [x]" using True by simp
    ultimately show ?thesis using q unfolding walk_snoc [of _ _ t y] by auto
  next
    case False
    show ?thesis
    proof (cases "walk P ino' t")
      case None
      moreover have "\<not> (ino' = ino \<and> t = s)" using None s(2) by auto
      ultimately show ?thesis using IH False unfolding walk_snoc [of _ _ t y] by auto
    next
      case (Some nid)
      from tree_okD [OF ok' m Some] have nn: "nid \<noteq> new" using new by (metis option.distinct(1))
      show ?thesis
      proof (cases "nid = par")
        case True
        have "ino' = ino" "t = s" using walk_unique [OF ok k s(2) ok' m Some [unfolded True]] by auto
        moreover have "graft P par x new q par = Some (p\<lparr>nb_nid := (nb_nid p)(x := new)\<rparr>)" using p by (simp add: graft_def)
        ultimately show ?thesis using IH False s(2) p new(2) unfolding walk_snoc [of _ _ t y] by auto
      next
        case other: False
        then have "\<not> (ino' = ino \<and> t = s)" using s(2) Some by auto
        moreover have "graft P par x new q nid = P nid" using nn other by (simp add: graft_def)
        moreover have "walk (graft P par x new q) ino' t = Some nid" using IH False Some by simp
        ultimately show ?thesis using Some unfolding walk_snoc [of _ _ t y] by auto
      qed
    qed
  qed
qed simp

lemma graft_ok:
  assumes ok: "tree_ok L P ino" and s: "place_nofs L (s @ [x]) = Some n" "walk P ino s = Some par"
    and p: "P par = Some p" "nb_nid p x = 0" and new: "P new = None" "new \<noteq> 0" and q: "nb_nid q = (\<lambda>_. 0)" "footer_is L q new ino n"
    and ok': "tree_ok L P ino'"
  shows "tree_ok L (graft P par x new q) ino'"
  unfolding tree_ok_def
proof (intro allI impI)
  fix t m nid
  assume t: "place_nofs L t = Some m" and w: "walk (graft P par x new q) ino' t = Some nid"
  have np: "new \<noteq> par" using p new by auto
  have "walk (graft P par x new q) ino' t = (if ino' = ino \<and> t = s @ [x] then Some new else walk P ino' t)"
    using graft_walk [OF ok _ s(2) p new q(1) ok', of t] s(1) t by simp
  with w consider "ino' = ino" "t = s @ [x]" "nid = new" | "walk P ino' t = Some nid" by (metis option.inject)
  then show "\<exists>p. graft P par x new q nid = Some p \<and> footer_is L p nid ino' m"
  proof cases
    case 1
    then show ?thesis using q(2) s(1) t np by (simp add: graft_def)
  next
    case 2
    from tree_okD [OF ok' t 2] obtain r where r: "P nid = Some r" "footer_is L r nid ino' m" .
    then have nn: "nid \<noteq> new" using new by auto
    show ?thesis
    proof (cases "nid = par")
      case True
      then show ?thesis using r p by (simp add: graft_def footer_is_def)
    next
      case False
      then show ?thesis using r nn by (simp add: graft_def)
    qed
  qed
qed

section \<open>The blocks of a file\<close>

text \<open>0 stands for a hole, as it does on disk.\<close>

definition leaf_node :: "node_layout \<Rightarrow> (nat \<Rightarrow> node_block option) \<Rightarrow> nat \<Rightarrow> f2fs_inode_info \<Rightarrow> nat \<Rightarrow> (nat \<times> nat) option" where
  "leaf_node L P ino fi b = (case get_node_path L fi b of None \<Rightarrow> None
     | Some (level, offset, noffset) \<Rightarrow> map_option (\<lambda>nid. (nid, last offset)) (walk P ino (path_slots L offset)))"

definition addr_at :: "(nat \<Rightarrow> node_block option) \<Rightarrow> nat \<times> nat \<Rightarrow> nat" where
  "addr_at P k = (case P (fst k) of None \<Rightarrow> 0 | Some p \<Rightarrow> nb_addr p (snd k))"

definition file_map :: "node_layout \<Rightarrow> (nat \<Rightarrow> node_block option) \<Rightarrow> nat \<Rightarrow> f2fs_inode_info \<Rightarrow> nat \<Rightarrow> nat" where
  "file_map L P ino fi b = (case leaf_node L P ino fi b of None \<Rightarrow> 0 | Some k \<Rightarrow> addr_at P k)"

end
