(* ===== verification/Node_State.thy ===== *)
theory Node_State
  imports Node_Walk Free_Nids
begin

text \<open>
  The node blocks of the file system as one map: what a reader of a node id gets, whether the
  block is in memory or on disk.  The invariant of the stored nodes, and what reading a node,
  making one and handing out an id do to it.
\<close>

section \<open>The table does not depend on the counters\<close>

definition same_geometry :: "f2fs_sb_info \<Rightarrow> f2fs_sb_info \<Rightarrow> bool" where
  "same_geometry sbi sbi' \<longleftrightarrow> sbi_log_blocks_per_seg sbi' = sbi_log_blocks_per_seg sbi
     \<and> sbi_blocks_per_seg sbi' = sbi_blocks_per_seg sbi"

lemma same_geometry_refl [simp]: "same_geometry sbi sbi"
  by (simp add: same_geometry_def)

lemma same_geometry_table:
  assumes "same_geometry sbi sbi'"
  shows "disk_nat L sbi' = disk_nat L sbi" "nat_lookup L sbi' = nat_lookup L sbi" "nat_ok L sbi' = nat_ok L sbi"
    "node_mgr_ok E L sbi' = node_mgr_ok E L sbi" "get_node_info L sbi' = get_node_info L sbi"
proof -
  have a: "current_nat_addr L sbi' = current_nat_addr L sbi"
    using assms by (simp add: current_nat_addr_def fun_eq_iff same_geometry_def Let_def)
  then have p: "page_nat L sbi' = page_nat L sbi" by (simp add: page_nat_def fun_eq_iff)
  then show d: "disk_nat L sbi' = disk_nat L sbi" by (simp add: disk_nat_def fun_eq_iff split: option.split)
  then show l: "nat_lookup L sbi' = nat_lookup L sbi" by (simp add: nat_lookup_def fun_eq_iff split: option.split)
  have "nat_geom L sbi' = nat_geom L sbi" using assms by (simp add: nat_geom_def fun_eq_iff same_geometry_def)
  then show n: "nat_ok L sbi' = nat_ok L sbi" using d by (simp add: nat_ok_def fun_eq_iff)
  show "node_mgr_ok E L sbi' = node_mgr_ok E L sbi"
    using n l p by (simp add: node_mgr_ok_def nids_free_def no_new_on_disk_def fun_eq_iff)
  show "get_node_info L sbi' = get_node_info L sbi" by (simp add: get_node_info_def a fun_eq_iff Let_def cong: option.case_cong)
qed

section \<open>The nodes and their invariant\<close>

abbreviation node_addr :: "node_layout \<Rightarrow> fs_state \<Rightarrow> nat \<Rightarrow> nat" where
  "node_addr L st nid \<equiv> rne_block_addr (nat_lookup L (fs_sbi st) (fs_nat st) nid)"

abbreviation max_nid :: "fs_state \<Rightarrow> nat" where
  "max_nid st \<equiv> nm_max_nid (ns_nm (fs_nat st))"

abbreviation free_nids :: "fs_state \<Rightarrow> nat set" where
  "free_nids st \<equiv> free_new (nm_free_nid_list (ns_nm (fs_nat st)))"

definition node_view :: "f2fs_env \<Rightarrow> node_layout \<Rightarrow> fs_state \<Rightarrow> nat \<Rightarrow> node_block option" where
  "node_view E L st nid =
    (if max_nid st \<le> nid \<or> node_addr L st nid = NULL_ADDR E then None
     else case fs_pages st nid of Some p \<Rightarrow> Some p
     | None \<Rightarrow> (case fs_disk st (node_addr L st nid) of Some (Node_block p) \<Rightarrow> Some p | _ \<Rightarrow> None))"

definition store_ok :: "f2fs_env \<Rightarrow> node_layout \<Rightarrow> fs_state \<Rightarrow> bool" where
  "store_ok E L st \<longleftrightarrow> node_mgr_ok E L (fs_sbi st) (fs_nat st)
     \<and> (\<forall>nid<max_nid st. rne_block_addr (disk_nat L (fs_sbi st) (fs_nat st) nid) \<noteq> NEW_ADDR E)
     \<and> node_addr L st 0 = NULL_ADDR E \<and> NULL_ADDR E \<noteq> NEW_ADDR E \<and> \<not> ns_on_build_free_nids (fs_nat st)"

lemma store_okD:
  assumes "store_ok E L st"
  shows "node_mgr_ok E L (fs_sbi st) (fs_nat st)" "nat_ok L (fs_sbi st) (fs_nat st)"
    "nid < max_nid st \<Longrightarrow> rne_block_addr (disk_nat L (fs_sbi st) (fs_nat st) nid) \<noteq> NEW_ADDR E"
    "node_addr L st 0 = NULL_ADDR E" "NULL_ADDR E \<noteq> NEW_ADDR E" "\<not> ns_on_build_free_nids (fs_nat st)"
    "0 < max_nid st" "max_nid st < 2 ^ 32"
proof -
  show m: "node_mgr_ok E L (fs_sbi st) (fs_nat st)" using assms by (simp add: store_ok_def)
  note M = node_mgr_okD [OF m]
  show "nat_ok L (fs_sbi st) (fs_nat st)" by (rule M(1))
  show "0 < max_nid st" using M(5) by simp
  show "max_nid st < 2 ^ 32" by (rule cache_okD(6) [OF nat_okD(2) [OF M(1)]])
  show "nid < max_nid st \<Longrightarrow> rne_block_addr (disk_nat L (fs_sbi st) (fs_nat st) nid) \<noteq> NEW_ADDR E"
    "node_addr L st 0 = NULL_ADDR E" "NULL_ADDR E \<noteq> NEW_ADDR E" "\<not> ns_on_build_free_nids (fs_nat st)"
    using assms by (simp_all add: store_ok_def)
qed

lemma view_less: "node_view E L st nid = Some p \<Longrightarrow> nid < max_nid st"
  by (auto simp: node_view_def split: if_splits)

lemma view_0: "store_ok E L st \<Longrightarrow> node_view E L st 0 = None"
  using store_okD(4) by (simp add: node_view_def)

text \<open>The state after a step that reads: the same nodes under the same addresses, the same list of
  free ids, more pages in memory.\<close>

definition reads :: "f2fs_env \<Rightarrow> node_layout \<Rightarrow> fs_state \<Rightarrow> fs_state \<Rightarrow> bool" where
  "reads E L st st' \<longleftrightarrow> store_ok E L st' \<and> node_view E L st' = node_view E L st
     \<and> fs_sbi st' = fs_sbi st \<and> fs_disk st' = fs_disk st
     \<and> nat_lookup L (fs_sbi st) (fs_nat st') = nat_lookup L (fs_sbi st) (fs_nat st)
     \<and> max_nid st' = max_nid st \<and> nm_free_nid_list (ns_nm (fs_nat st')) = nm_free_nid_list (ns_nm (fs_nat st))
     \<and> (\<forall>nid p. fs_pages st nid = Some p \<longrightarrow> node_view E L st nid \<noteq> None \<longrightarrow> fs_pages st' nid = Some p)"

lemma readsD:
  assumes "reads E L st st'"
  shows "store_ok E L st'" "node_view E L st' = node_view E L st" "fs_sbi st' = fs_sbi st" "fs_disk st' = fs_disk st"
    "node_addr L st' = node_addr L st" "max_nid st' = max_nid st"
    "nm_free_nid_list (ns_nm (fs_nat st')) = nm_free_nid_list (ns_nm (fs_nat st))"
    "fs_pages st nid = Some p \<Longrightarrow> node_view E L st nid \<noteq> None \<Longrightarrow> fs_pages st' nid = Some p"
    "nat_lookup L (fs_sbi st') (fs_nat st') = nat_lookup L (fs_sbi st) (fs_nat st)"
  using assms by (simp_all add: reads_def)

lemma reads_refl: "store_ok E L st \<Longrightarrow> reads E L st st"
  by (simp add: reads_def)

lemma reads_trans: "reads E L a b \<Longrightarrow> reads E L b c \<Longrightarrow> reads E L a c"
  by (simp add: reads_def)

lemma get_node_info_frame:
  assumes "get_node_info L sbi S nid = (ni, S')"
  shows "nm_free_nid_list (ns_nm S') = nm_free_nid_list (ns_nm S)" "nm_fcnt (ns_nm S') = nm_fcnt (ns_nm S)"
    "nm_next_scan_nid (ns_nm S') = nm_next_scan_nid (ns_nm S)" "ns_on_build_free_nids S' = ns_on_build_free_nids S"
  using assms by (auto simp: get_node_info_def cache_nat_entry_def grab_nat_entry_def put_nat_cache_def Let_def split: option.splits)

lemma get_node_info_reads:
  assumes ok: "store_ok E L st" and n: "nid < max_nid st" and g: "get_node_info L (fs_sbi st) (fs_nat st) nid = (ni, nt)"
  shows "ni = info_of nid (nat_lookup L (fs_sbi st) (fs_nat st) nid)" "reads E L st (st\<lparr>fs_nat := nt\<rparr>)"
    "nat_ok L (fs_sbi st) nt"
proof -
  note D = store_okD [OF ok]
  note G = get_node_info_ok [OF D(2) n g] and F = get_node_info_frame [OF g]
  note M = node_mgr_okD [OF D(1)]
  show "ni = info_of nid (nat_lookup L (fs_sbi st) (fs_nat st) nid)" "nat_ok L (fs_sbi st) nt" by (fact G)+
  have max: "nm_max_nid (ns_nm nt) = max_nid st" using G(4) by (simp add: same_table_def)
  have addr: "current_nat_addr L (fs_sbi st) (ns_nm nt) = current_nat_addr L (fs_sbi st) (ns_nm (fs_nat st))"
    by (rule same_table_addr [OF G(4)])
  have disk: "page_nat L (fs_sbi st) nt = page_nat L (fs_sbi st) (fs_nat st)"
    "disk_nat L (fs_sbi st) nt = disk_nat L (fs_sbi st) (fs_nat st)"
    by (simp_all add: page_nat_def disk_nat_def addr G(5,6) fun_eq_iff split: option.split)
  have "node_mgr_ok E L (fs_sbi st) nt"
    using M G(2) unfolding node_mgr_ok_def nids_free_def no_new_on_disk_def nid_list_ok_def G(3) disk max F by blast
  then have "store_ok E L (st\<lparr>fs_nat := nt\<rparr>)"
    using D unfolding store_ok_def by (simp add: disk max G(3) F)
  moreover have "node_view E L (st\<lparr>fs_nat := nt\<rparr>) = node_view E L st"
    by (simp add: node_view_def fun_eq_iff max G(3) cong: option.case_cong)
  ultimately show "reads E L st (st\<lparr>fs_nat := nt\<rparr>)" by (simp add: reads_def G(3) max F)
qed

lemma view_in_memory:
  assumes "node_view E L st nid = Some p"
  shows "node_view E L (st\<lparr>fs_pages := (fs_pages st)(nid \<mapsto> p)\<rparr>) = node_view E L st"
proof
  show "node_view E L (st\<lparr>fs_pages := (fs_pages st)(nid \<mapsto> p)\<rparr>) m = node_view E L st m" for m
    using assms by (cases "m = nid") (auto simp: node_view_def split: if_splits cong: option.case_cong)
qed

lemma read_node_page_ok:
  assumes ok: "store_ok E L st" and n: "nid < max_nid st"
  shows "case node_view E L st nid of
      Some p \<Rightarrow> \<exists>st'. read_node_page L E st nid = (Inr p, st') \<and> reads E L st st' \<and> fs_pages st' nid = Some p
    | None \<Rightarrow> \<exists>e st'. read_node_page L E st nid = (Inl e, st') \<and> reads E L st st'
        \<and> (node_addr L st nid = NULL_ADDR E \<longrightarrow> e = ENOENT)"
proof -
  obtain ni nt where g: "get_node_info L (fs_sbi st) (fs_nat st) nid = (ni, nt)" by fastforce
  note G = get_node_info_reads [OF ok n g]
  let ?st = "st\<lparr>fs_nat := nt\<rparr>"
  note R = readsD [OF G(2)]
  have r: "read_node_page L E st nid =
    (if node_addr L st nid = NULL_ADDR E then (Inl ENOENT, ?st)
     else case fs_pages st nid of Some p \<Rightarrow> (Inr p, ?st)
     | None \<Rightarrow> (case fs_disk st (node_addr L st nid) of Some (Node_block p) \<Rightarrow> (Inr p, ?st\<lparr>fs_pages := (fs_pages st)(nid \<mapsto> p)\<rparr>)
         | _ \<Rightarrow> (Inl EIO, ?st)))"
    by (simp add: read_node_page_def g G(1) info_of_def Let_def cong: option.case_cong disk_block.case_cong)
  show ?thesis
  proof (cases "node_view E L st nid")
    case None
    then show ?thesis using n r G(2) by (auto simp: node_view_def split: option.splits disk_block.splits if_splits)
  next
    case (Some p)
    show ?thesis
    proof (cases "fs_pages st nid")
      case Some': (Some q)
      then show ?thesis using Some n r G(2) by (auto simp: node_view_def split: if_splits)
    next
      case None
      let ?st' = "?st\<lparr>fs_pages := (fs_pages st)(nid \<mapsto> p)\<rparr>"
      from None Some n have d: "fs_disk st (node_addr L st nid) = Some (Node_block p)" "node_addr L st nid \<noteq> NULL_ADDR E"
        by (auto simp: node_view_def split: option.splits disk_block.splits if_splits)
      have "node_view E L ?st' = node_view E L ?st" using view_in_memory [of E L ?st nid p] Some R(2) by simp
      then have "reads E L ?st ?st'" using R(1) None by (auto simp: reads_def store_ok_def)
      then have "reads E L st ?st'" using reads_trans [OF G(2)] by blast
      then show ?thesis using Some None r d by auto
    qed
  qed
qed

lemma get_node_page_ok:
  assumes ok: "store_ok E L st" and p: "node_view E L st nid = Some p" "ft_nid (nb_footer p) = nid"
  shows "\<exists>st'. get_node_page E L st nid = Some (Inr p, st') \<and> reads E L st st' \<and> fs_pages st' nid = Some p"
  using read_node_page_ok [OF ok view_less [OF p(1)]] p by (auto simp: get_node_page_def f2fs_bug_on_def)

lemma get_node_page_none:
  assumes ok: "store_ok E L st" and n: "nid < max_nid st" "node_addr L st nid = NULL_ADDR E"
  shows "\<exists>st'. get_node_page E L st nid = Some (Inl ENOENT, st') \<and> reads E L st st'"
proof -
  have "node_view E L st nid = None" using n(2) by (simp add: node_view_def)
  then show ?thesis using read_node_page_ok [OF ok n(1)] n(2) by (auto simp: get_node_page_def)
qed

section \<open>An entry of the table changes\<close>

lemma set_node_addr_frame:
  assumes "set_node_addr E nm ni new = Some nm'"
  shows "nm_free_nid_list nm' = nm_free_nid_list nm" "nm_fcnt nm' = nm_fcnt nm" "nm_next_scan_nid nm' = nm_next_scan_nid nm"
    "nm_max_nid nm' = nm_max_nid nm"
  using assms
  by (auto simp: set_node_addr_def grab_nat_entry_def put_nat_cache_def set_nat_cache_dirty_def Let_def
      split: option.splits bind_splits if_splits)

lemma set_node_addr_store:
  assumes ok: "store_ok E L st" and n: "nid < max_nid st" "nid \<noteq> 0" "nid \<notin> free_nids st"
    and ni: "ni = (info_of nid (nat_lookup L (fs_sbi st) (fs_nat st) nid))\<lparr>ni_ino := ino\<rparr>"
    and ino: "new \<noteq> NEW_ADDR E \<Longrightarrow> ino = rne_ino (nat_lookup L (fs_sbi st) (fs_nat st) nid)"
    and legal: "legal_move E (node_addr L st nid) new"
  shows "\<exists>nm'. set_node_addr E (ns_nm (fs_nat st)) ni new = Some nm'
    \<and> store_ok E L (st\<lparr>fs_nat := (fs_nat st)\<lparr>ns_nm := nm'\<rparr>\<rparr>)
    \<and> nat_lookup L (fs_sbi st) ((fs_nat st)\<lparr>ns_nm := nm'\<rparr>) = (nat_lookup L (fs_sbi st) (fs_nat st))(nid := moved_raw E ni new)
    \<and> nm_max_nid nm' = max_nid st \<and> nm_free_nid_list nm' = nm_free_nid_list (ns_nm (fs_nat st))"
proof -
  note D = store_okD [OF ok]
  let ?l = "nat_lookup L (fs_sbi st) (fs_nat st)"
  have i: "ni_nid ni = nid" "ni_blk_addr ni = node_addr L st nid" "ni_version ni = rne_version (?l nid)" "ni_ino ni = ino"
    by (simp_all add: ni info_of_def)
  have "\<exists>nm'. set_node_addr E (ns_nm (fs_nat st)) ni new = Some nm' \<and> nat_ok L (fs_sbi st) ((fs_nat st)\<lparr>ns_nm := nm'\<rparr>)
    \<and> same_table (ns_nm (fs_nat st)) nm' \<and> nat_lookup L (fs_sbi st) ((fs_nat st)\<lparr>ns_nm := nm'\<rparr>) = ?l(ni_nid ni := moved_raw E ni new)"
    by (rule set_node_addr_ok [OF D(2)]) (use i n(1) ino legal D(3,5) in auto)
  then obtain nm' where nm': "set_node_addr E (ns_nm (fs_nat st)) ni new = Some nm'"
    "nat_ok L (fs_sbi st) ((fs_nat st)\<lparr>ns_nm := nm'\<rparr>)" "same_table (ns_nm (fs_nat st)) nm'"
    "nat_lookup L (fs_sbi st) ((fs_nat st)\<lparr>ns_nm := nm'\<rparr>) = ?l(nid := moved_raw E ni new)" unfolding i by blast
  note F = set_node_addr_frame [OF nm'(1)] and M = node_mgr_okD [OF D(1)]
  have disk: "disk_nat L (fs_sbi st) ((fs_nat st)\<lparr>ns_nm := nm'\<rparr>) = disk_nat L (fs_sbi st) (fs_nat st)"
    by (rule disk_nat_nm [OF nm'(3)])
  have page: "page_nat L (fs_sbi st) ((fs_nat st)\<lparr>ns_nm := nm'\<rparr>) = page_nat L (fs_sbi st) (fs_nat st)"
    by (simp add: page_nat_def fun_eq_iff same_table_addr [OF nm'(3)])
  have "nids_free E L (fs_sbi st) ((fs_nat st)\<lparr>ns_nm := nm'\<rparr>)"
    using M(3) n(3) unfolding nids_free_def nm'(4) by (auto simp: F)
  moreover have "nid_list_ok nm'" using M(2) by (simp add: nid_list_ok_def F)
  ultimately have "node_mgr_ok E L (fs_sbi st) ((fs_nat st)\<lparr>ns_nm := nm'\<rparr>)"
    using M(4,5) nm'(2) by (simp add: node_mgr_ok_def no_new_on_disk_def page F)
  then have "store_ok E L (st\<lparr>fs_nat := (fs_nat st)\<lparr>ns_nm := nm'\<rparr>\<rparr>)"
    using D(3-6) n(2) by (simp add: store_ok_def disk nm'(4) F)
  then show ?thesis using nm' F by blast
qed

section \<open>An id is handed out\<close>

lemma card_free_new:
  assumes "nid_list_ok nm"
  shows "card (free_new (nm_free_nid_list nm)) = nm_fcnt nm"
proof -
  note F = nid_list_okD [OF assms]
  let ?l = "filter (\<lambda>i. fn_state i = NID_NEW) (nm_free_nid_list nm)"
  have "free_new (nm_free_nid_list nm) = set (map fn_nid ?l)" by (auto simp: free_new_def)
  moreover have "distinct (map fn_nid ?l)" using F(1) by (simp add: distinct_map_filter)
  ultimately show ?thesis using F(4) distinct_card by fastforce
qed

text \<open>\<open>handed nid\<close> says that an id is on the list but not free.\<close>

definition handed :: "fs_state \<Rightarrow> nat \<Rightarrow> bool" where
  "handed st nid \<longleftrightarrow> \<lparr> fn_nid = nid, fn_state = NID_ALLOC \<rparr> \<in> set (nm_free_nid_list (ns_nm (fs_nat st)))"

lemma store_ok_nids:
  assumes ok: "store_ok E L st" and s: "same_nat (ns_nm (fs_nat st)) nm" and l: "nid_list_ok nm"
    and n: "\<And>nid. nid \<in> free_new (nm_free_nid_list nm) \<Longrightarrow> node_addr L st nid = NULL_ADDR E"
    and scan: "nm_next_scan_nid nm = nm_next_scan_nid (ns_nm (fs_nat st))"
  shows "store_ok E L (st\<lparr>fs_nat := (fs_nat st)\<lparr>ns_nm := nm\<rparr>\<rparr>)"
    "node_view E L (st\<lparr>fs_nat := (fs_nat st)\<lparr>ns_nm := nm\<rparr>\<rparr>) = node_view E L st"
    "nat_lookup L sbi ((fs_nat st)\<lparr>ns_nm := nm\<rparr>) = nat_lookup L sbi (fs_nat st)" "nm_max_nid nm = max_nid st"
proof -
  note D = store_okD [OF ok] and S = same_natD [OF s] and T = same_nat_state [OF s]
  show "nat_lookup L sbi ((fs_nat st)\<lparr>ns_nm := nm\<rparr>) = nat_lookup L sbi (fs_nat st)" by (rule T(2))
  show max: "nm_max_nid nm = max_nid st" by (rule S(2))
  have "node_mgr_ok E L (fs_sbi st) ((fs_nat st)\<lparr>ns_nm := nm\<rparr>)" 
    by (rule node_mgr_okI [OF D(1) s l n]) (use node_mgr_okD(5) [OF D(1)] scan in simp_all)
  then show "store_ok E L (st\<lparr>fs_nat := (fs_nat st)\<lparr>ns_nm := nm\<rparr>\<rparr>)"
    using D(3-6) by (simp add: store_ok_def disk_nat_nm [OF S(3)] T(2) max)
  show "node_view E L (st\<lparr>fs_nat := (fs_nat st)\<lparr>ns_nm := nm\<rparr>\<rparr>) = node_view E L st"
    by (simp add: node_view_def fun_eq_iff max T(2) cong: option.case_cong)
qed

lemma free_nids_null: "store_ok E L st \<Longrightarrow> nid \<in> free_nids st \<Longrightarrow> node_addr L st nid = NULL_ADDR E"
  using node_mgr_okD(3) [OF store_okD(1)] by (simp add: nids_free_def)

end
