(* ===== verification/Node_Make.thy ===== *)
theory Node_Make
  imports Node_State
begin

text \<open>
  Making a node (\<open>new_node_page\<close>) and putting it into the tree of its file: what changes in the
  map of nodes, in the table and in the counters, and what stays.
\<close>

section \<open>What stays\<close>

text \<open>Only counters of the superblock change.\<close>

definition counts_only :: "f2fs_sb_info \<Rightarrow> f2fs_sb_info \<Rightarrow> bool" where
  "counts_only sbi sbi' \<longleftrightarrow>
     sbi'\<lparr>sbi_alloc_valid_block_count := 0, sbi_total_valid_node_count := 0, sbi_total_valid_block_count := 0, sbi_total_valid_inode_count := 0\<rparr>
     = sbi\<lparr>sbi_alloc_valid_block_count := 0, sbi_total_valid_node_count := 0, sbi_total_valid_block_count := 0, sbi_total_valid_inode_count := 0\<rparr>"

lemma counts_only_refl [simp]: "counts_only sbi sbi"
  by (simp add: counts_only_def)

lemma counts_only_trans: "counts_only a b \<Longrightarrow> counts_only b c \<Longrightarrow> counts_only a c"
  by (simp add: counts_only_def)

lemma counts_only_geometry:
  assumes "counts_only sbi sbi'"
  shows "same_geometry sbi sbi'"
  using arg_cong [OF assms [unfolded counts_only_def], of sbi_log_blocks_per_seg]
    arg_cong [OF assms [unfolded counts_only_def], of sbi_blocks_per_seg]
  by (simp add: same_geometry_def)

lemma inc_valid_node_count_counts: "inc_valid_node_count sbi b = (ok, b', sbi') \<Longrightarrow> counts_only sbi sbi'"
  by (auto simp: inc_valid_node_count_def Let_def counts_only_def split: if_splits)

text \<open>The inode changes in its block count and its dirty mark only.\<close>

definition same_inode :: "inode \<Rightarrow> inode \<Rightarrow> bool" where
  "same_inode inode inode' \<longleftrightarrow> i_ino inode' = i_ino inode \<and> i_dir inode' = i_dir inode \<and> i_size inode' = i_size inode
     \<and> fi_ext (i_info inode') = fi_ext (i_info inode) \<and> fi_i_xattr_nid (i_info inode') = fi_i_xattr_nid (i_info inode)
     \<and> (\<forall>f. f \<noteq> FI_DIRTY_INODE \<longrightarrow> is_inode_flag_set (i_info inode') f = is_inode_flag_set (i_info inode) f)"

lemma same_inode_refl [simp]: "same_inode i i"
  by (simp add: same_inode_def)

lemma same_inode_trans: "same_inode a b \<Longrightarrow> same_inode b c \<Longrightarrow> same_inode a c"
  by (simp add: same_inode_def)

lemma same_inode_clean [simp]: "same_inode i (clean_inode j) = same_inode i j" "same_inode i (j\<lparr>i_blocks := b\<rparr>) = same_inode i j"
  by (auto simp: same_inode_def clean_inode_def clear_inode_flag_def is_inode_flag_set_def)

lemma same_inode_path:
  assumes "same_inode i j"
  shows "i_ino j = i_ino i" "addrs_per_inode L (i_info j) = addrs_per_inode L (i_info i)"
    "get_node_path L (i_info j) = get_node_path L (i_info i)" "file_map L P ino (i_info j) = file_map L P ino (i_info i)"
    "leaf_node L P ino (i_info j) = leaf_node L P ino (i_info i)"
proof -
  show "i_ino j = i_ino i" using assms by (simp add: same_inode_def)
  show a: "addrs_per_inode L (i_info j) = addrs_per_inode L (i_info i)"
    using assms by (simp add: addrs_per_inode_def same_inode_def FI_DIRTY_INODE_def FI_INLINE_XATTR_def)
  then show g: "get_node_path L (i_info j) = get_node_path L (i_info i)" by (simp add: get_node_path_def fun_eq_iff)
  show l: "leaf_node L P ino (i_info j) = leaf_node L P ino (i_info i)" by (simp add: leaf_node_def g fun_eq_iff)
  show "file_map L P ino (i_info j) = file_map L P ino (i_info i)" by (simp add: file_map_def l fun_eq_iff)
qed

section \<open>Room for new blocks\<close>

text \<open>The counters leave room for \<open>k\<close> more blocks, all of them nodes, and for their ids.\<close>

definition has_room :: "f2fs_sb_info \<Rightarrow> nat \<Rightarrow> nat \<Rightarrow> bool" where
  "has_room sbi nids k \<longleftrightarrow> sbi_total_valid_block_count sbi + k \<le> sbi_user_block_count sbi
     \<and> sbi_total_valid_node_count sbi + k \<le> sbi_total_node_count sbi \<and> sbi_total_valid_node_count sbi + k < nids"

abbreviation room :: "fs_state \<Rightarrow> nat \<Rightarrow> bool" where
  "room st \<equiv> has_room (fs_sbi st) (max_nid st)"

lemma u32_Suc_le: "u32 (Suc n) \<le> Suc n"
  by (simp add: u32_def)

lemma inc_valid_node_count_room:
  assumes "inc_valid_node_count sbi b = (ok, b', sbi')"
  shows "if ok then has_room sbi nids (Suc m) \<longrightarrow> has_room sbi' nids m else \<not> has_room sbi nids (Suc 0)"
  using assms u32_Suc_le [of "sbi_total_valid_block_count sbi"] u32_Suc_le [of "sbi_total_valid_node_count sbi"]
  by (auto simp: inc_valid_node_count_def has_room_def Let_def split: if_splits)

lemma inc_valid_block_count_room:
  assumes "inc_valid_block_count sbi b 1 = (ok, b', sbi')"
  shows "if ok then has_room sbi nids (Suc m) \<longrightarrow> has_room sbi' nids m else \<not> has_room sbi nids (Suc 0)"
  using assms u32_Suc_le [of "sbi_total_valid_block_count sbi"]
  by (auto simp: inc_valid_block_count_def has_room_def u32_id Let_def split: if_splits)

text \<open>An operation that takes at most \<open>k\<close> blocks fails only for an inode without allocation, or when
  there is no room for \<open>k\<close> of them.\<close>

definition accounted :: "fs_state \<Rightarrow> fs_state \<Rightarrow> inode \<Rightarrow> nat \<Rightarrow> errno + 'a \<Rightarrow> bool" where
  "accounted st st' inode k r \<longleftrightarrow> (case r of
     Inl e \<Rightarrow> e = EPERM \<and> is_inode_flag_set (i_info inode) FI_NO_ALLOC \<or> e = ENOSPC \<and> \<not> room st k
   | Inr _ \<Rightarrow> \<forall>m. room st (k + m) \<longrightarrow> room st' m)"

lemma has_room_less: "has_room sbi nids k \<Longrightarrow> j \<le> k \<Longrightarrow> has_room sbi nids j"
  by (simp add: has_room_def)

lemma accounted_mono: "accounted st st' inode j r \<Longrightarrow> j \<le> k \<Longrightarrow> accounted st st' inode k r"
proof (cases r)
  case (Inl e)
  assume "accounted st st' inode j r" and "j \<le> k"
  then show ?thesis using Inl has_room_less [of "fs_sbi st" "max_nid st" k j] by (auto simp: accounted_def)
next
  case (Inr x)
  assume a: "accounted st st' inode j r" and "j \<le> k"
  then have "room st (j + m)" if "room st (k + m)" for m using has_room_less [OF that] by simp
  then show ?thesis using Inr a by (simp add: accounted_def)
qed

lemma accounted_trans:
  assumes "accounted st st1 inode j (Inr x)" and "same_inode inode inode1" and "accounted st1 st2 inode1 k r"
  shows "accounted st st2 inode (j + k) r"
proof -
  have "is_inode_flag_set (i_info inode1) FI_NO_ALLOC = is_inode_flag_set (i_info inode) FI_NO_ALLOC"
    using assms(2) by (simp add: same_inode_def FI_NO_ALLOC_def FI_DIRTY_INODE_def)
  then show ?thesis using assms(1,3) by (auto simp: accounted_def add.assoc split: sum.splits)
qed

lemma accounted_same:
  assumes "fs_sbi st1 = fs_sbi st" and "max_nid st1 = max_nid st"
  shows "accounted st1 st' inode k r = accounted st st' inode k r" "accounted st' st1 inode k r = accounted st' st inode k r"
  by (simp_all add: accounted_def assms cong: sum.case_cong)

section \<open>A node is made\<close>

definition fresh_node :: "node_layout \<Rightarrow> inode \<Rightarrow> nat \<Rightarrow> nat \<Rightarrow> node_block" where
  "fresh_node L inode nid ofs =
     zero_block\<lparr>nb_footer := set_cold_node L (i_dir inode) (fill_node_footer L zero_footer nid (i_ino inode) ofs True)\<rparr>"

lemma fresh_node_simps [simp]:
  "nb_nid (fresh_node L inode nid ofs) = (\<lambda>_. 0)" "nb_addr (fresh_node L inode nid ofs) = (\<lambda>_. 0)"
  "ft_nid (nb_footer (fresh_node L inode nid ofs)) = nid" "ft_ino (nb_footer (fresh_node L inode nid ofs)) = i_ino inode"
  by (simp_all add: fresh_node_def zero_block_def set_cold_node_def fill_node_footer_def Let_def)

lemma fresh_node_blocks [simp]: "fresh_node L (inode\<lparr>i_blocks := b\<rparr>) nid ofs = fresh_node L inode nid ofs"
  by (simp add: fresh_node_def)

lemma fresh_node_footer:
  assumes "layout_ok L" and "ofs < node_count L"
  shows "footer_is L (fresh_node L inode nid ofs) nid (i_ino inode) ofs"
proof -
  have "ofs < 2 ^ (32 - OFFSET_BIT_SHIFT L)" using layout_okD(4) [OF assms(1)] assms(2) by (rule less_trans [rotated])
  then have "ofs_of_node L (nb_footer (fresh_node L inode nid ofs)) = ofs"
    using ofs_fill_node_footer [OF assms(1)] layout_okD(8) [OF assms(1)] by (simp add: fresh_node_def)
  then show ?thesis by (simp add: footer_is_def)
qed

lemma update_inode_skeleton:
  assumes "layout_ok L"
  shows "skeleton L (update_inode L inode p) = skeleton L p" "nb_addr (update_inode L inode p) = nb_addr p"
    "nb_nid (update_inode L inode p) = nb_nid p" "ft_nid (nb_footer (update_inode L inode p)) = ft_nid (nb_footer p)"
  using layout_okD(8) [OF assms] by (simp_all add: skeleton_def update_inode_def) (simp_all add: set_cold_node_def)

text \<open>The state with a new node \<open>q\<close> that has no block on disk yet, and a new contents of the inode's block.\<close>

definition made :: "f2fs_env \<Rightarrow> node_layout \<Rightarrow> fs_state \<Rightarrow> fs_state \<Rightarrow> nat \<Rightarrow> node_block \<Rightarrow> nat \<Rightarrow> node_block \<Rightarrow> bool" where
  "made E L st st' nid q ino ip \<longleftrightarrow> store_ok E L st'
     \<and> node_view E L st' = (node_view E L st)(nid \<mapsto> q, ino \<mapsto> ip) \<and> fs_pages st' = (fs_pages st)(nid \<mapsto> q, ino \<mapsto> ip)
     \<and> counts_only (fs_sbi st) (fs_sbi st') \<and> fs_disk st' = fs_disk st \<and> max_nid st' = max_nid st
     \<and> nm_free_nid_list (ns_nm (fs_nat st')) = nm_free_nid_list (ns_nm (fs_nat st))
     \<and> node_addr L st' = (node_addr L st)(nid := NEW_ADDR E)"

lemma new_node_page_ok:
  assumes L: "layout_ok L" and ok: "store_ok E L st"
    and n: "nid < max_nid st" "nid \<noteq> 0" "nid \<notin> free_nids st" "node_addr L st nid = NULL_ADDR E"
    and ip: "fs_pages st (i_ino (dn_inode dn)) = Some ip" "node_view E L st (i_ino (dn_inode dn)) = Some ip"
    and dn: "dn_nid dn = nid" "dn_inode_page dn" and ofs: "ofs \<noteq> 0" "ofs < node_count L"
  shows "\<exists>r dn' st'. new_node_page E L dn ofs False st = Some (r, dn', st') \<and> dn_inode_page dn' \<and> dn_nid dn' = nid
    \<and> same_inode (dn_inode dn) (dn_inode dn') \<and> accounted st st' (dn_inode dn) 1 r
    \<and> (case r of Inl e \<Rightarrow> e \<in> {EPERM, ENOSPC} \<and> reads E L st st'
       | Inr _ \<Rightarrow> \<exists>i. made E L st st' nid (fresh_node L (dn_inode dn) nid ofs) (i_ino (dn_inode dn)) (update_inode L i ip))"
proof -
  let ?inode = "dn_inode dn" and ?ino = "i_ino (dn_inode dn)"
  have none: "node_view E L st nid = None" using n(4) by (simp add: node_view_def)
  then have ni: "nid \<noteq> ?ino" using ip(2) by auto
  consider "is_inode_flag_set (i_info ?inode) FI_NO_ALLOC"
    | ok' blocks sbi where "\<not> is_inode_flag_set (i_info ?inode) FI_NO_ALLOC"
        "inc_valid_node_count (fs_sbi st) (Some (i_blocks ?inode)) = (ok', blocks, sbi)" "ok' \<longrightarrow> blocks = None"
    | blocks sbi where "\<not> is_inode_flag_set (i_info ?inode) FI_NO_ALLOC"
        "inc_valid_node_count (fs_sbi st) (Some (i_blocks ?inode)) = (True, Some blocks, sbi)"
    by (metis prod_cases3 option.exhaust)
  then show ?thesis
  proof cases
    case 1
    then show ?thesis using dn reads_refl [OF ok] by (simp add: new_node_page_def accounted_def)
  next
    case 2
    let ?st = "st\<lparr>fs_pages := (fs_pages st)(nid := None)\<rparr>"
    have "\<not> ok'" using 2(2,3) by (auto simp: inc_valid_node_count_def Let_def split: if_splits)
    then have "\<not> room st 1" using inc_valid_node_count_room [OF 2(2), of "max_nid st"] by simp
    then have "accounted st ?st (dn_inode dn) 1 (Inl ENOSPC :: errno + unit)" by (simp add: accounted_def)
    moreover have "reads E L st ?st"
    proof -
      have "node_view E L ?st m = node_view E L st m" for m
        using n(4) by (simp add: node_view_def cong: option.case_cong)
      then show ?thesis using ok none by (auto simp: reads_def store_ok_def)
    qed
    moreover have "new_node_page E L dn ofs False st = Some (Inl ENOSPC, dn, ?st)"
      using 2 dn by (cases ok'; cases blocks) (simp_all add: new_node_page_def)
    ultimately show ?thesis using dn by auto
  next
    case 3
    note C = inc_valid_node_count_counts [OF 3(2)]
    note G = same_geometry_table [OF counts_only_geometry [OF C], where L = L]
    obtain ni nt where g: "get_node_info L (fs_sbi st) (fs_nat st) nid = (ni, nt)" by fastforce
    note I = get_node_info_reads [OF ok n(1) g]
    let ?st1 = "st\<lparr>fs_nat := nt\<rparr>"
    note R = readsD [OF I(2)]
    have lk: "nat_lookup L (fs_sbi st) nt = nat_lookup L (fs_sbi st) (fs_nat st)" using R(9) by simp
    have "\<exists>nm'. set_node_addr E (ns_nm (fs_nat ?st1)) (ni\<lparr>ni_ino := ?ino\<rparr>) (NEW_ADDR E) = Some nm'
      \<and> store_ok E L (?st1\<lparr>fs_nat := (fs_nat ?st1)\<lparr>ns_nm := nm'\<rparr>\<rparr>)
      \<and> nat_lookup L (fs_sbi ?st1) ((fs_nat ?st1)\<lparr>ns_nm := nm'\<rparr>)
        = (nat_lookup L (fs_sbi ?st1) (fs_nat ?st1))(nid := moved_raw E (ni\<lparr>ni_ino := ?ino\<rparr>) (NEW_ADDR E))
      \<and> nm_max_nid nm' = max_nid ?st1 \<and> nm_free_nid_list nm' = nm_free_nid_list (ns_nm (fs_nat ?st1))"
      by (rule set_node_addr_store [OF R(1)]) (use n R(6,7) I(1) lk in \<open>auto simp: legal_move_def\<close>)
    then obtain nm' where s: "set_node_addr E (ns_nm nt) (ni\<lparr>ni_ino := ?ino\<rparr>) (NEW_ADDR E) = Some nm'"
      "store_ok E L (st\<lparr>fs_nat := nt\<lparr>ns_nm := nm'\<rparr>\<rparr>)"
      "nat_lookup L (fs_sbi st) (nt\<lparr>ns_nm := nm'\<rparr>) = (nat_lookup L (fs_sbi st) (fs_nat st))(nid := moved_raw E (ni\<lparr>ni_ino := ?ino\<rparr>) (NEW_ADDR E))"
      "nm_max_nid nm' = max_nid st" "nm_free_nid_list nm' = nm_free_nid_list (ns_nm (fs_nat st))"
      using R(6,7) lk by auto
    let ?q = "fresh_node L ?inode nid ofs" and ?i = "?inode\<lparr>i_blocks := blocks\<rparr>"
    let ?st2 = "st\<lparr>fs_sbi := sbi, fs_nat := nt\<lparr>ns_nm := nm'\<rparr>, fs_pages := (fs_pages st)(nid \<mapsto> ?q, ?ino \<mapsto> update_inode L ?i ip)\<rparr>"
    have x: "ofs \<noteq> XATTR_NODE_OFFSET L" by (rule nofs_not_xattr [OF L ofs(2)])
    have "new_node_page E L dn ofs False st =
      Some (Inr (), dn\<lparr>dn_inode := clean_inode ?i, dn_node_page := Some nid\<rparr>, ?st2)"
      using 3 dn g s(1) x ofs(1) n(4) ni ip(1) I(1)
      by (simp add: new_node_page_def G(5) f2fs_bug_on_def info_of_def sync_inode_page_def put_inode_def RAW_IS_INODE_def
          fresh_node_def [symmetric] Let_def)
    moreover have "made E L st ?st2 nid ?q ?ino (update_inode L ?i ip)"
    proof -
      have "store_ok E L ?st2"
        using s(2) same_geometry_table [OF counts_only_geometry [OF C], where L = L] by (simp add: store_ok_def)
      moreover have "node_view E L ?st2 = (node_view E L st)(nid \<mapsto> ?q, ?ino \<mapsto> update_inode L ?i ip)"
      proof
        fix m
        have "rne_block_addr (moved_raw E (ni\<lparr>ni_ino := ?ino\<rparr>) (NEW_ADDR E)) = NEW_ADDR E" by (simp add: moved_raw_def)
        then show "node_view E L ?st2 m = ((node_view E L st)(nid \<mapsto> ?q, ?ino \<mapsto> update_inode L ?i ip)) m"
          using s(3,4) store_okD(5) [OF ok] n(1) ni ip view_less [OF ip(2)]
          by (auto simp: node_view_def G(2) cong: option.case_cong split: if_splits)
      qed
      moreover have "node_addr L ?st2 = (node_addr L st)(nid := NEW_ADDR E)"
        using s(3) by (auto simp: G(2) moved_raw_def)
      ultimately show ?thesis using C s(4,5) by (simp add: made_def)
    qed
    moreover have "accounted st ?st2 ?inode 1 (Inr () :: errno + unit)"
      using inc_valid_node_count_room [OF 3(2), of "max_nid st"] s(4) by (simp add: accounted_def)
    ultimately show ?thesis using dn by auto
  qed
qed

section \<open>The nodes grow\<close>

text \<open>Every tree keeps its nodes; a node that appears in a tree was nowhere before and is empty; the
  addresses of data blocks stay.\<close>

definition grown :: "node_layout \<Rightarrow> (nat \<Rightarrow> node_block option) \<Rightarrow> (nat \<Rightarrow> node_block option) \<Rightarrow> bool" where
  "grown L P P' \<longleftrightarrow>
     (\<forall>ino. tree_ok L P ino \<longrightarrow> tree_ok L P' ino \<and> (\<forall>s n. place_nofs L s \<noteq> None \<longrightarrow>
        (walk P ino s = Some n \<longrightarrow> walk P' ino s = Some n) \<and> (walk P' ino s = Some n \<longrightarrow> walk P ino s = Some n \<or> P n = None)))
     \<and> (\<forall>n p. P n = Some p \<longrightarrow> (\<exists>p'. P' n = Some p' \<and> nb_addr p' = nb_addr p \<and> footer_is L p' = footer_is L p))
     \<and> (\<forall>n p'. P n = None \<longrightarrow> P' n = Some p' \<longrightarrow> nb_addr p' = (\<lambda>_. 0))"

lemma grownD:
  assumes "grown L P P'"
  shows "tree_ok L P ino \<Longrightarrow> tree_ok L P' ino"
    "tree_ok L P ino \<Longrightarrow> place_nofs L s \<noteq> None \<Longrightarrow> walk P ino s = Some n \<Longrightarrow> walk P' ino s = Some n"
    "tree_ok L P ino \<Longrightarrow> place_nofs L s \<noteq> None \<Longrightarrow> walk P' ino s = Some n \<Longrightarrow> walk P ino s = Some n \<or> P n = None"
    "P n = Some p \<Longrightarrow> \<exists>p'. P' n = Some p' \<and> nb_addr p' = nb_addr p \<and> footer_is L p' = footer_is L p"
    "P n = None \<Longrightarrow> P' n = Some q \<Longrightarrow> nb_addr q = (\<lambda>_. 0)"
proof -
  note a = assms [unfolded grown_def, THEN conjunct1, rule_format] and b = assms [unfolded grown_def, THEN conjunct2]
  show "tree_ok L P ino \<Longrightarrow> tree_ok L P' ino" using a by (rule conjunct1)
  show "tree_ok L P ino \<Longrightarrow> place_nofs L s \<noteq> None \<Longrightarrow> walk P ino s = Some n \<Longrightarrow> walk P' ino s = Some n"
    and "tree_ok L P ino \<Longrightarrow> place_nofs L s \<noteq> None \<Longrightarrow> walk P' ino s = Some n \<Longrightarrow> walk P ino s = Some n \<or> P n = None"
    using a [THEN conjunct2, of ino] by simp_all
  show "P n = Some p \<Longrightarrow> \<exists>p'. P' n = Some p' \<and> nb_addr p' = nb_addr p \<and> footer_is L p' = footer_is L p"
    using b [THEN conjunct1] by simp
  show "P n = None \<Longrightarrow> P' n = Some q \<Longrightarrow> nb_addr q = (\<lambda>_. 0)"
    using b [THEN conjunct2] by simp
qed

lemma grown_refl: "grown L P P"
  by (simp add: grown_def)

lemma grown_trans:
  assumes a: "grown L P Q" and b: "grown L Q R"
  shows "grown L P R"
proof -
  note A = grownD [OF a] and B = grownD [OF b]
  have none: "P n = None" if "Q n = None" for n using A(4) [of n] that by (cases "P n") auto
  have "nb_addr r = (\<lambda>_. 0)" if "P n = None" "R n = Some r" for n r
  proof (cases "Q n")
    case (Some q)
    then show ?thesis using A(5) [OF that(1) Some] B(4) [OF Some] that(2) by auto
  qed (use B(5) that in auto)
  moreover have "\<exists>r. R n = Some r \<and> nb_addr r = nb_addr p \<and> footer_is L r = footer_is L p" if "P n = Some p" for n p
    using A(4) [OF that] B(4) by metis
  moreover have "tree_ok L R ino \<and> (\<forall>s n. place_nofs L s \<noteq> None \<longrightarrow>
        (walk P ino s = Some n \<longrightarrow> walk R ino s = Some n) \<and> (walk R ino s = Some n \<longrightarrow> walk P ino s = Some n \<or> P n = None))"
    if "tree_ok L P ino" for ino
    using A(1-3) B(1-3) none that by meson
  ultimately show ?thesis unfolding grown_def by blast
qed

definition same_tree :: "node_layout \<Rightarrow> (nat \<Rightarrow> node_block option) \<Rightarrow> (nat \<Rightarrow> node_block option) \<Rightarrow> bool" where
  "same_tree L P P' \<longleftrightarrow> (\<forall>n. map_option (\<lambda>p. (skeleton L p, nb_addr p)) (P' n) = map_option (\<lambda>p. (skeleton L p, nb_addr p)) (P n))"

lemma same_tree_skeleton:
  assumes "same_tree L P P'"
  shows "map_option (skeleton L) (P' n) = map_option (skeleton L) (P n)"
proof -
  have "map_option (\<lambda>p. (skeleton L p, nb_addr p)) (P' n) = map_option (\<lambda>p. (skeleton L p, nb_addr p)) (P n)"
    using assms by (simp add: same_tree_def)
  then show ?thesis by (cases "P n"; cases "P' n") simp_all
qed

lemma same_tree_grown:
  assumes "same_tree L P P'"
  shows "grown L P P'"
proof -
  note sk = same_tree_skeleton [OF assms]
  have eq: "map_option (\<lambda>p. (skeleton L p, nb_addr p)) (P' n) = map_option (\<lambda>p. (skeleton L p, nb_addr p)) (P n)" for n
    using assms by (simp add: same_tree_def)
  have "\<exists>p'. P' n = Some p' \<and> nb_addr p' = nb_addr p \<and> footer_is L p' = footer_is L p" if pn: "P n = Some p" for n p
  proof -
    obtain p' where p': "P' n = Some p'" "skeleton L p' = skeleton L p" "nb_addr p' = nb_addr p" using eq [of n] pn by auto
    from skeleton_footer [OF p'(2)] show ?thesis using p' by blast
  qed
  moreover have "P' n = None" if "P n = None" for n using eq [of n] that by simp
  ultimately show ?thesis
    unfolding grown_def walk_skeleton [OF sk] tree_ok_skeleton [OF sk] by simp
qed

lemma graft_grown:
  assumes ok: "tree_ok L P ino" and s: "place_nofs L (s @ [x]) = Some n" "walk P ino s = Some par"
    and p: "P par = Some p" "nb_nid p x = 0" and new: "P new = None" "new \<noteq> 0"
    and q: "nb_nid q = (\<lambda>_. 0)" "footer_is L q new ino n" "nb_addr q = (\<lambda>_. 0)"
  shows "grown L P (graft P par x new q)" "walk (graft P par x new q) ino (s @ [x]) = Some new"
proof -
  have w: "walk (graft P par x new q) ino' t = (if ino' = ino \<and> t = s @ [x] then Some new else walk P ino' t)"
    if "tree_ok L P ino'" "place_nofs L t \<noteq> None" for ino' t
    using graft_walk [OF ok _ s(2) p new q(1) that] s(1) by simp
  show "walk (graft P par x new q) ino (s @ [x]) = Some new" using w [OF ok] s(1) by simp
  have np: "new \<noteq> par" using p new by auto
  have none: "walk P ino (s @ [x]) = None" using s(2) p by (simp add: walk_snoc)
  have trees: "tree_ok L (graft P par x new q) ino' \<and> (\<forall>t m. place_nofs L t \<noteq> None \<longrightarrow>
        (walk P ino' t = Some m \<longrightarrow> walk (graft P par x new q) ino' t = Some m)
        \<and> (walk (graft P par x new q) ino' t = Some m \<longrightarrow> walk P ino' t = Some m \<or> P m = None))"
    if "tree_ok L P ino'" for ino'
    using graft_ok [OF ok s p new q(1,2) that] w [OF that] none new(1) by auto
  have old: "\<exists>p'. graft P par x new q m = Some p' \<and> nb_addr p' = nb_addr r \<and> footer_is L p' = footer_is L r" if "P m = Some r" for m r
  proof (cases "m = par")
    case True
    then show ?thesis using p that by (auto simp: graft_def footer_is_def fun_eq_iff)
  next
    case False
    moreover have "m \<noteq> new" using that new(1) by auto
    ultimately show ?thesis using that by (simp add: graft_def)
  qed
  have "nb_addr r = (\<lambda>_. 0)" if "P m = None" "graft P par x new q m = Some r" for m r
    using that p q(3) np by (auto simp: graft_def split: if_splits)
  with trees old show "grown L P (graft P par x new q)" unfolding grown_def by blast
qed

text \<open>The place of a path.\<close>

lemma path_place:
  assumes L: "layout_ok L" and p: "get_node_path L fi b = Some (level, offset, noffset)"
  shows "k \<le> length (path_slots L offset) \<Longrightarrow> place_nofs L (take k (path_slots L offset)) = Some (noffset ! k)"
    "length noffset = Suc (length (path_slots L offset))" "length offset = Suc (length (path_slots L offset))"
    "length (path_slots L offset) \<le> 3"
proof -
  from get_node_path_sound [OF L p] obtain l where l: "leaf_ok L l" "(offset, noffset) = leaf_path L l (last offset)" by blast
  define b' where "b' = last offset"
  have e: "offset = fst (leaf_path L l b')" "noffset = snd (leaf_path L l b')" using l(2) by (simp_all add: b'_def flip: l(2))
  note S = leaf_path_slots [OF L l(1), of b']
  show "length noffset = Suc (length (path_slots L offset))" "length offset = Suc (length (path_slots L offset))"
    using S unfolding e by simp_all
  show "place_nofs L (take k (path_slots L offset)) = Some (noffset ! k)" if "k \<le> length (path_slots L offset)"
    using S(1) leaf_path_slots(2) [OF L l(1), of k b'] that unfolding e by simp
  have "path_slots L offset = leaf_slots l" using S(1) unfolding e(1) .
  then show "length (path_slots L offset) \<le> 3" by (cases l) (simp_all add: leaf_slots_def)
qed

lemma grown_file_map:
  assumes L: "layout_ok L" and g: "grown L P P'" and ok: "tree_ok L P ino"
  shows "file_map L P' ino fi b = file_map L P ino fi b"
proof (cases "get_node_path L fi b")
  case (Some r)
  then obtain level offset noffset where r: "get_node_path L fi b = Some (level, offset, noffset)" by (cases r) auto
  let ?s = "path_slots L offset"
  have s: "place_nofs L ?s \<noteq> None" using path_place(1) [OF L r, of "length ?s"] by simp
  note G = grownD [OF g]
  have leaf: "leaf_node L Q ino fi b = map_option (\<lambda>nid. (nid, last offset)) (walk Q ino ?s)" for Q
    by (simp add: leaf_node_def r)
  show ?thesis
  proof (cases "walk P ino ?s")
    case (Some n)
    from s obtain m where m: "place_nofs L ?s = Some m" by blast
    from tree_okD [OF ok m Some] obtain p where p: "P n = Some p" .
    then obtain p' where "P' n = Some p'" "nb_addr p' = nb_addr p" using G(4) by blast
    then show ?thesis using p Some G(2) [OF ok s Some] by (simp add: file_map_def leaf addr_at_def)
  next
    case None
    show ?thesis
    proof (cases "walk P' ino ?s")
      case (Some n)
      then have "P n = None" using G(3) [OF ok s Some] None by simp
      then show ?thesis using G(5) None Some by (auto simp: file_map_def leaf addr_at_def split: option.splits)
    qed (simp add: file_map_def leaf None)
  qed
qed (simp add: file_map_def leaf_node_def)

end
