(* ===== verification/Dnode.thy ===== *)
theory Dnode
  imports Node_Make
begin

text \<open>
  \<open>get_dnode_of_data\<close> finds the direct node of a file block: without allocation it answers from the
  tree and changes nothing, with allocation it makes the missing nodes of the path, and no block of
  any file changes.
\<close>

section \<open>An id for a new node\<close>

lemma take_free_nid_scan: "take_free_nid E nm = Some (nid, nm') \<Longrightarrow> nm_next_scan_nid nm' = nm_next_scan_nid nm"
  by (auto simp: take_free_nid_def set_nid_state_def Let_def split: bind_splits)

lemma alloc_nid_done_scan: "alloc_nid_done E nm nid = Some nm' \<Longrightarrow> nm_next_scan_nid nm' = nm_next_scan_nid nm"
  by (auto simp: alloc_nid_done_def del_from_free_nid_list_def Let_def split: bind_splits)

lemma alloc_nid_failed_scan: "alloc_nid_failed E L nm nid = Some nm' \<Longrightarrow> nm_next_scan_nid nm' = nm_next_scan_nid nm"
  by (auto simp: alloc_nid_failed_def del_from_free_nid_list_def set_nid_state_def Let_def split: bind_splits if_splits)

abbreviation set_nm :: "f2fs_nm_info \<Rightarrow> fs_state \<Rightarrow> fs_state" where
  "set_nm nm st \<equiv> st\<lparr>fs_nat := (fs_nat st)\<lparr>ns_nm := nm\<rparr>\<rparr>"

text \<open>Only the list of free ids changes.\<close>

definition list_step :: "f2fs_env \<Rightarrow> node_layout \<Rightarrow> fs_state \<Rightarrow> fs_state \<Rightarrow> bool" where
  "list_step E L st st' \<longleftrightarrow> store_ok E L st' \<and> node_view E L st' = node_view E L st \<and> fs_sbi st' = fs_sbi st
     \<and> fs_disk st' = fs_disk st \<and> fs_pages st' = fs_pages st \<and> max_nid st' = max_nid st \<and> (\<forall>n. node_addr L st' n = node_addr L st n)"

lemma list_stepI:
  assumes "store_ok E L st" and "same_nat (ns_nm (fs_nat st)) nm" and "nid_list_ok nm"
    and "\<And>nid. nid \<in> free_new (nm_free_nid_list nm) \<Longrightarrow> node_addr L st nid = NULL_ADDR E"
    and "nm_next_scan_nid nm = nm_next_scan_nid (ns_nm (fs_nat st))"
  shows "list_step E L st (set_nm nm st)"
  using store_ok_nids [OF assms] by (simp add: list_step_def)

lemma alloc_nid_ready:
  assumes ok: "store_ok E L st" and f: "free_nids st \<noteq> {}"
  shows "alloc_nid E L (fs_sbi st) (fs_nat st) = Some (None, fs_nat st) \<and> \<not> room st 1
    \<or> (\<exists>nid nm. alloc_nid E L (fs_sbi st) (fs_nat st) = Some (Some nid, (fs_nat st)\<lparr>ns_nm := nm\<rparr>)
        \<and> list_step E L st (set_nm nm st) \<and> nid \<in> free_nids st \<and> free_nids (set_nm nm st) = free_nids st - {nid}
        \<and> handed (set_nm nm st) nid \<and> nid \<noteq> 0 \<and> nid < max_nid st)"
proof -
  note D = store_okD [OF ok] and M = node_mgr_okD [OF store_okD(1) [OF ok]]
  have n: "nm_fcnt (ns_nm (fs_nat st)) \<noteq> 0"
  proof
    assume "nm_fcnt (ns_nm (fs_nat st)) = 0"
    then have "card (free_nids st) = 0" using card_free_new [OF M(2)] by simp
    moreover have "finite (free_nids st)" by (simp add: free_new_def)
    ultimately show False using f by simp
  qed
  from take_free_nid_ok [OF M(2) n D(8), of E] obtain nid nm where t: "take_free_nid E (ns_nm (fs_nat st)) = Some (nid, nm)"
    "nid \<in> free_nids st" "nid_list_ok nm" "same_nat (ns_nm (fs_nat st)) nm" "free_new (nm_free_nid_list nm) = free_nids st - {nid}"
    "\<lparr> fn_nid = nid, fn_state = NID_ALLOC \<rparr> \<in> set (nm_free_nid_list nm)" by blast
  have "list_step E L st (set_nm nm st)"
    by (rule list_stepI [OF ok t(4,3)]) (use t(5) free_nids_null [OF ok] take_free_nid_scan [OF t(1)] in auto)
  moreover have "nid \<noteq> 0 \<and> nid < max_nid st"
    using nid_list_okD(2,3) [OF t(3,6)] same_natD(2) [OF t(4)] by simp
  moreover have "alloc_nid E L (fs_sbi st) (fs_nat st) =
      (if max_nid st \<le> u32 (sbi_total_valid_node_count (fs_sbi st) + 1) then Some (None, fs_nat st)
       else Some (Some nid, (fs_nat st)\<lparr>ns_nm := nm\<rparr>))"
    using n D(6) t(1) by (subst alloc_nid.simps) simp
  moreover have "max_nid st \<le> u32 (sbi_total_valid_node_count (fs_sbi st) + 1) \<Longrightarrow> \<not> room st 1"
    using u32_Suc_le [of "sbi_total_valid_node_count (fs_sbi st)"] by (simp add: has_room_def)
  ultimately show ?thesis using t(2,5,6) by (auto simp: handed_def)
qed

lemma alloc_nid_done_step:
  assumes ok: "store_ok E L st" and h: "handed st nid"
  shows "\<exists>nm. alloc_nid_done E (ns_nm (fs_nat st)) nid = Some nm \<and> list_step E L st (set_nm nm st)
    \<and> free_nids (set_nm nm st) = free_nids st - {nid}"
proof -
  note D = store_okD [OF ok] and M = node_mgr_okD [OF store_okD(1) [OF ok]]
  from alloc_nid_done_ok [OF M(2) h [unfolded handed_def] D(8), of E] obtain nm where
    nm: "alloc_nid_done E (ns_nm (fs_nat st)) nid = Some nm" "nid_list_ok nm" "same_nat (ns_nm (fs_nat st)) nm"
    "free_new (nm_free_nid_list nm) = free_nids st - {nid}" by blast
  have "list_step E L st (set_nm nm st)"
    by (rule list_stepI [OF ok nm(3,2)]) (use nm(4) free_nids_null [OF ok] alloc_nid_done_scan [OF nm(1)] in auto)
  then show ?thesis using nm(1,4) by auto
qed

lemma alloc_nid_failed_step:
  assumes ok: "store_ok E L st" and h: "handed st nid" and a: "node_addr L st nid = NULL_ADDR E"
  shows "\<exists>nm. alloc_nid_failed E L (ns_nm (fs_nat st)) nid = Some nm \<and> list_step E L st (set_nm nm st)"
proof -
  note D = store_okD [OF ok] and M = node_mgr_okD [OF store_okD(1) [OF ok]]
  from alloc_nid_failed_sub [OF M(2) h [unfolded handed_def] D(8), of E L] obtain nm where
    nm: "alloc_nid_failed E L (ns_nm (fs_nat st)) nid = Some nm" "nid_list_ok nm" "same_nat (ns_nm (fs_nat st)) nm"
    "free_new (nm_free_nid_list nm) \<subseteq> insert nid (free_nids st)" by blast
  have "list_step E L st (set_nm nm st)"
    by (rule list_stepI [OF ok nm(3,2)]) (use nm(4) a free_nids_null [OF ok] alloc_nid_failed_scan [OF nm(1)] in auto)
  then show ?thesis using nm(1) by auto
qed

section \<open>A step of the walk\<close>

definition pinned :: "f2fs_env \<Rightarrow> node_layout \<Rightarrow> fs_state \<Rightarrow> nat \<Rightarrow> bool" where
  "pinned E L st n \<longleftrightarrow> (\<exists>p. fs_pages st n = Some p \<and> node_view E L st n = Some p)"

definition stepped :: "f2fs_env \<Rightarrow> node_layout \<Rightarrow> fs_state \<Rightarrow> fs_state \<Rightarrow> bool" where
  "stepped E L st st' \<longleftrightarrow> store_ok E L st' \<and> grown L (node_view E L st) (node_view E L st')
     \<and> counts_only (fs_sbi st) (fs_sbi st') \<and> fs_disk st' = fs_disk st \<and> max_nid st' = max_nid st
     \<and> (\<forall>n. node_addr L st' n = node_addr L st n \<or> node_addr L st n = NULL_ADDR E \<and> node_addr L st' n = NEW_ADDR E)
     \<and> (\<forall>n. pinned E L st n \<longrightarrow> pinned E L st' n)"

lemma steppedD:
  assumes "stepped E L st st'"
  shows "store_ok E L st'" "grown L (node_view E L st) (node_view E L st')" "counts_only (fs_sbi st) (fs_sbi st')"
    "fs_disk st' = fs_disk st" "max_nid st' = max_nid st" "pinned E L st n \<Longrightarrow> pinned E L st' n"
    "node_addr L st' n = node_addr L st n \<or> node_addr L st n = NULL_ADDR E \<and> node_addr L st' n = NEW_ADDR E"
  using assms unfolding stepped_def by blast+

lemma stepped_trans:
  assumes a: "stepped E L st st1" and b: "stepped E L st1 st2"
  shows "stepped E L st st2"
proof -
  note A = steppedD [OF a] and B = steppedD [OF b]
  have "node_addr L st2 n = node_addr L st n \<or> node_addr L st n = NULL_ADDR E \<and> node_addr L st2 n = NEW_ADDR E" for n
    using A(7) [of n] B(7) [of n] by metis
  then show ?thesis
    using A B grown_trans [OF A(2) B(2)] counts_only_trans [OF A(3) B(3)] unfolding stepped_def by simp
qed

lemma list_step_stepped: "list_step E L st st' \<Longrightarrow> stepped E L st st'"
  by (auto simp: list_step_def stepped_def grown_refl pinned_def)

lemma reads_stepped:
  assumes "reads E L st st'"
  shows "stepped E L st st'"
proof -
  note R = readsD [OF assms]
  have "pinned E L st' n" if "pinned E L st n" for n
    using that R(8) [of n] by (auto simp: pinned_def R(2))
  moreover have "node_addr L st' n = node_addr L st n" for n using R(5) by (rule fun_cong)
  ultimately show ?thesis using R(1-4,6) unfolding stepped_def by (simp add: grown_refl)
qed

lemma set_nid_made:
  assumes L: "layout_ok L" and m: "made E L st st' nid q ino (update_inode L i ip)"
    and tree: "tree_ok L (node_view E L st) ino" and s: "place_nofs L (s @ [nid_index L off first]) = Some n"
      "walk (node_view E L st) ino s = Some par"
    and p: "pinned E L st par" "node_view E L st par = Some p" "nb_nid p (nid_index L off first) = 0"
    and ip: "fs_pages st ino = Some ip" "node_view E L st ino = Some ip"
    and q: "nb_nid q = (\<lambda>_. 0)" "footer_is L q nid ino n" "nb_addr q = (\<lambda>_. 0)"
    and nid: "node_addr L st nid = NULL_ADDR E" "nid \<noteq> 0"
  shows "stepped E L st (set_nid L par off nid first st')" "pinned E L (set_nid L par off nid first st') nid"
    "walk (node_view E L (set_nid L par off nid first st')) ino (s @ [nid_index L off first]) = Some nid"
    "fs_nat (set_nid L par off nid first st') = fs_nat st'"
proof -
  let ?x = "nid_index L off first" and ?P = "node_view E L st" and ?st2 = "set_nid L par off nid first st'"
  let ?u = "\<lambda>rn. rn\<lparr>nb_nid := (nb_nid rn)(?x := nid)\<rparr>"
  have M: "store_ok E L st'" "node_view E L st' = ?P(nid \<mapsto> q, ino \<mapsto> update_inode L i ip)"
    "fs_pages st' = (fs_pages st)(nid \<mapsto> q, ino \<mapsto> update_inode L i ip)"
    "counts_only (fs_sbi st) (fs_sbi st')" "fs_disk st' = fs_disk st" "max_nid st' = max_nid st"
    "node_addr L st' = (node_addr L st)(nid := NEW_ADDR E)"
    using m by (simp_all add: made_def)
  have none: "?P nid = None" using nid(1) by (simp add: node_view_def)
  then have ni: "nid \<noteq> ino" "nid \<noteq> par" using ip(2) p(2) by auto
  show nat2: "fs_nat ?st2 = fs_nat st'" by (simp add: set_nid_def)
  have par': "fs_pages st' par = node_view E L st' par" using M(2,3) p(1,2) ni by (auto simp: pinned_def)
  have view: "node_view E L ?st2 = (node_view E L st')(par := map_option ?u (node_view E L st' par))"
  proof
    show "node_view E L ?st2 k = ((node_view E L st')(par := map_option ?u (node_view E L st' par))) k" for k
    proof (cases "k = par")
      case True
      obtain r where r: "node_view E L st' par = Some r" using M(2) p(2) ni by (cases "par = ino") auto
      then show ?thesis using True par' by (auto simp: node_view_def set_nid_def split: if_splits)
    next
      case False
      then show ?thesis by (simp add: node_view_def set_nid_def cong: option.case_cong)
    qed
  qed
  have same: "same_tree L (graft ?P par ?x nid q) (node_view E L ?st2)"
    unfolding same_tree_def
  proof
    fix k
    note U = update_inode_skeleton [OF L, of i ip]
    have sk: "skeleton L (?u (update_inode L i ip)) = skeleton L (?u ip)" using U by (simp add: skeleton_def)
    show "map_option (\<lambda>p. (skeleton L p, nb_addr p)) (node_view E L ?st2 k)
        = map_option (\<lambda>p. (skeleton L p, nb_addr p)) (graft ?P par ?x nid q k)"
      using ni ip(2) p(2) U sk by (auto simp: view M(2) graft_def)
  qed
  note G = graft_grown [OF tree s p(2,3) none nid(2) q]
  have g: "grown L ?P (node_view E L ?st2)" by (rule grown_trans [OF G(1) same_tree_grown [OF same]])
  show "walk (node_view E L ?st2) ino (s @ [?x]) = Some nid"
    unfolding walk_skeleton [OF same_tree_skeleton [OF same]] by (rule G(2))
  have pages: "fs_pages ?st2 = (fs_pages st')(par := map_option ?u (fs_pages st' par))" by (simp add: set_nid_def)
  show "pinned E L ?st2 nid" using ni M(2,3) by (simp add: pinned_def view pages)
  have "pinned E L ?st2 k" if "pinned E L st k" for k
    using that ni M(2,3) par' by (cases "k = par"; cases "k = ino"; cases "k = nid") (auto simp: pinned_def view pages)
  moreover have "store_ok E L ?st2" using M(1) by (simp add: store_ok_def set_nid_def)
  moreover have "node_addr L ?st2 k = node_addr L st k \<or> node_addr L st k = NULL_ADDR E \<and> node_addr L ?st2 k = NEW_ADDR E" for k
    using fun_cong [OF M(7), of k] nid(1) by (auto simp: set_nid_def)
  moreover have "fs_sbi ?st2 = fs_sbi st'" "fs_disk ?st2 = fs_disk st'" by (simp_all add: set_nid_def)
  ultimately show "stepped E L st ?st2" unfolding stepped_def using g M(4-6) nat2 by simp
qed

lemma list_stepD:
  assumes "list_step E L st st'"
  shows "store_ok E L st'" "node_view E L st' = node_view E L st" "fs_pages st' = fs_pages st" "max_nid st' = max_nid st"
    "node_addr L st' n = node_addr L st n" "pinned E L st' n = pinned E L st n"
  using assms unfolding list_step_def pinned_def by auto

text \<open>A missing node of the path is made.\<close>

lemma alloc_dnode_ok:
  assumes L: "layout_ok L" and ok: "store_ok E L st" and f: "free_nids st \<noteq> {}"
    and tree: "tree_ok L (node_view E L st) ino" and s: "place_nofs L (s @ [nid_index L off first]) = Some n"
      "walk (node_view E L st) ino s = Some par"
    and p: "pinned E L st par" "node_view E L st par = Some p" "nb_nid p (nid_index L off first) = 0"
    and ip: "pinned E L st ino" and dn: "i_ino (dn_inode dn) = ino" "dn_inode_page dn"
  shows "\<exists>r dn' st'. alloc_dnode E L dn par off n first st = Some (r, dn', st') \<and> stepped E L st st'
    \<and> dn_inode_page dn' \<and> same_inode (dn_inode dn) (dn_inode dn') \<and> accounted st st' (dn_inode dn) 1 r
    \<and> (case r of Inl e \<Rightarrow> e \<in> {EPERM, ENOSPC}
       | Inr nid \<Rightarrow> pinned E L st' nid \<and> walk (node_view E L st') ino (s @ [nid_index L off first]) = Some nid
          \<and> (\<exists>m\<in>free_nids st. free_nids st' = free_nids st - {m}))"
proof -
  from alloc_nid_ready [OF ok f] show ?thesis
  proof (elim disjE exE conjE)
    assume "alloc_nid E L (fs_sbi st) (fs_nat st) = Some (None, fs_nat st)" and "\<not> room st 1"
    then show ?thesis using dn reads_stepped [OF reads_refl [OF ok]] by (simp add: alloc_dnode_def accounted_def)
  next
    fix nid nm
    let ?st1 = "set_nm nm st"
    assume a: "alloc_nid E L (fs_sbi st) (fs_nat st) = Some (Some nid, (fs_nat st)\<lparr>ns_nm := nm\<rparr>)"
      and l: "list_step E L st ?st1" and free: "nid \<in> free_nids st" "free_nids ?st1 = free_nids st - {nid}"
      and h: "handed ?st1 nid" and nid: "nid \<noteq> 0" "nid < max_nid st"
    note D = list_stepD [OF l] and S1 = list_step_stepped [OF l]
    have addr: "node_addr L ?st1 nid = NULL_ADDR E" using D(5) [of nid] free_nids_null [OF ok free(1)] by simp
    obtain ipg where ipg: "fs_pages ?st1 ino = Some ipg" "node_view E L ?st1 ino = Some ipg"
      using ip D(6) [of ino] unfolding pinned_def by metis
    have n: "n \<noteq> 0" "n < node_count L" using place_nofs_pos [OF s(1)] place_nofs_small [OF s(1)] by simp_all
    let ?dn = "dn\<lparr>dn_nid := nid\<rparr>" and ?q = "fresh_node L (dn_inode dn) nid n"
    have "\<exists>r dn' st'. new_node_page E L ?dn n False ?st1 = Some (r, dn', st') \<and> dn_inode_page dn' \<and> dn_nid dn' = nid
      \<and> same_inode (dn_inode ?dn) (dn_inode dn') \<and> accounted ?st1 st' (dn_inode ?dn) 1 r
      \<and> (case r of Inl e \<Rightarrow> e \<in> {EPERM, ENOSPC} \<and> reads E L ?st1 st'
         | Inr _ \<Rightarrow> \<exists>i. made E L ?st1 st' nid (fresh_node L (dn_inode ?dn) nid n) (i_ino (dn_inode ?dn)) (update_inode L i ipg))"
      by (rule new_node_page_ok [OF L D(1)]) (use nid D(4) free(2) addr ipg dn n in simp_all)
    moreover have "dn_inode ?dn = dn_inode dn" by simp
    ultimately have "\<exists>r dn' st'. new_node_page E L ?dn n False ?st1 = Some (r, dn', st') \<and> dn_inode_page dn' \<and> dn_nid dn' = nid
      \<and> same_inode (dn_inode dn) (dn_inode dn') \<and> accounted ?st1 st' (dn_inode dn) 1 r
      \<and> (case r of Inl e \<Rightarrow> e \<in> {EPERM, ENOSPC} \<and> reads E L ?st1 st'
         | Inr _ \<Rightarrow> \<exists>i. made E L ?st1 st' nid ?q ino (update_inode L i ipg))" using dn(1) by (simp cong: sum.case_cong)
    then obtain r dn' st2 where new: "new_node_page E L ?dn n False ?st1 = Some (r, dn', st2)" "dn_inode_page dn'"
        "same_inode (dn_inode dn) (dn_inode dn')"
        "case r of Inl e \<Rightarrow> e \<in> {EPERM, ENOSPC} \<and> reads E L ?st1 st2
         | Inr _ \<Rightarrow> \<exists>i. made E L ?st1 st2 nid ?q ino (update_inode L i ipg)"
        "accounted ?st1 st2 (dn_inode dn) 1 r" by blast
    have sbi: "fs_sbi ?st1 = fs_sbi st" by simp
    have acc: "accounted st st2 (dn_inode dn) 1 r"
      using new(5) unfolding accounted_same(1) [OF sbi D(4)] .
    show ?thesis
    proof (cases r)
      case (Inl e)
      then have e: "e \<in> {EPERM, ENOSPC}" "reads E L ?st1 st2" using new(4) by auto
      note R = readsD [OF e(2)]
      have "handed st2 nid" using h R(7) by (simp add: handed_def)
      moreover have "node_addr L st2 nid = NULL_ADDR E" using fun_cong [OF R(5), of nid] addr by simp
      ultimately obtain nm2 where nm2: "alloc_nid_failed E L (ns_nm (fs_nat st2)) nid = Some nm2" "list_step E L st2 (set_nm nm2 st2)"
        using alloc_nid_failed_step [OF R(1)] by blast
      have "alloc_dnode E L dn par off n first st = Some (Inl e, dn', set_nm nm2 st2)"
        using a new(1) Inl nm2(1) by (simp add: alloc_dnode_def)
      moreover have "stepped E L st (set_nm nm2 st2)"
        by (rule stepped_trans [OF S1 stepped_trans [OF reads_stepped [OF e(2)] list_step_stepped [OF nm2(2)]]])
      moreover have "accounted st (set_nm nm2 st2) (dn_inode dn) 1 (Inl e :: errno + nat)"
        using acc Inl by (simp add: accounted_def)
      ultimately show ?thesis using new(2,3) e(1) by auto
    next
      case (Inr u)
      then obtain i where m: "made E L ?st1 st2 nid ?q ino (update_inode L i ipg)" using new(4) by auto
      have q: "nb_nid ?q = (\<lambda>_. 0)" "footer_is L ?q nid ino n" "nb_addr ?q = (\<lambda>_. 0)"
        using fresh_node_footer [OF L n(2), of "dn_inode dn" nid] dn(1) by simp_all
      note N = set_nid_made [OF L m _ s(1) _ _ _ p(3) ipg q addr nid(1), unfolded D(2), OF tree s(2) _ p(2)]
      let ?st3 = "set_nid L par off nid first st2"
      have pin: "pinned E L ?st1 par" using p(1) D(6) by simp
      note N = N [OF pin]
      note T = steppedD [OF N(1)]
      have lists: "nm_free_nid_list (ns_nm (fs_nat ?st3)) = nm_free_nid_list (ns_nm (fs_nat ?st1))"
        using m N(4) by (simp add: made_def)
      then have "handed ?st3 nid" using h by (simp add: handed_def)
      from alloc_nid_done_step [OF T(1) this] obtain nm2 where
        nm2: "alloc_nid_done E (ns_nm (fs_nat ?st3)) nid = Some nm2" "list_step E L ?st3 (set_nm nm2 ?st3)"
          "free_nids (set_nm nm2 ?st3) = free_nids ?st3 - {nid}" by blast
      note D3 = list_stepD [OF nm2(2)]
      have "alloc_dnode E L dn par off n first st = Some (Inr nid, dn', set_nm nm2 ?st3)"
        using a new(1) Inr nm2(1) by (simp add: alloc_dnode_def Let_def)
      moreover have "stepped E L st (set_nm nm2 ?st3)"
        by (rule stepped_trans [OF S1 stepped_trans [OF N(1) list_step_stepped [OF nm2(2)]]])
      moreover have "pinned E L (set_nm nm2 ?st3) nid" "walk (node_view E L (set_nm nm2 ?st3)) ino (s @ [nid_index L off first]) = Some nid"
        using N(2,3) D3(2,6) by simp_all
      moreover have "free_nids (set_nm nm2 ?st3) = free_nids st - {nid}" using nm2(3) lists free(2) by auto
      moreover have "accounted st (set_nm nm2 ?st3) (dn_inode dn) 1 (Inr nid :: errno + nat)"
        using acc Inr D3(4) nm2(2) N(4) by (simp add: accounted_def list_step_def set_nid_def)
      ultimately show ?thesis using new(2,3) free(1) by auto
    qed
  qed
qed

section \<open>The whole walk\<close>

text \<open>The slots that a list of offsets names.\<close>

definition walk_slots :: "node_layout \<Rightarrow> bool \<Rightarrow> nat list \<Rightarrow> nat list" where
  "walk_slots L first offs = (case offs of [] \<Rightarrow> [] | a # os \<Rightarrow> nid_index L a first # os)"

lemma walk_slots_simps [simp]:
  "walk_slots L first [] = []" "walk_slots L first (a # os) = nid_index L a first # walk_slots L False os"
  "length (walk_slots L first os) = length os"
  by (auto simp: walk_slots_def nid_index_def split: list.split)

lemma path_walk_slots: "walk_slots L True (butlast offset) = path_slots L offset"
  by (simp add: walk_slots_def path_slots_def nid_index_def split: list.split)

lemma dnode_walk_alloc:
  assumes L: "layout_ok L" and "length ns = length offs" and "store_ok E L st" and "tree_ok L (node_view E L st) ino"
    and "\<And>k. k < length offs \<Longrightarrow> place_nofs L (s @ take (Suc k) (walk_slots L first offs)) = Some (ns ! k)"
    and "walk (node_view E L st) ino s = Some par" and "pinned E L st par" and "pinned E L st ino"
    and "i_ino (dn_inode dn) = ino" and "dn_inode_page dn" and "length offs \<le> card (free_nids st)"
  shows "\<exists>r dn' st'. dnode_walk E L ALLOC_NODE (zip offs ns) dn par first st = Some (r, dn', st') \<and> stepped E L st st'
    \<and> dn_inode_page dn' \<and> same_inode (dn_inode dn) (dn_inode dn') \<and> accounted st st' (dn_inode dn) (length offs) r
    \<and> (case r of Inl e \<Rightarrow> e \<in> {EPERM, ENOSPC}
       | Inr nid \<Rightarrow> pinned E L st' nid \<and> walk (node_view E L st') ino (s @ walk_slots L first offs) = Some nid)"
  using assms(2-)
proof (induction offs arbitrary: ns st s par first dn)
  case Nil
  then show ?case using reads_stepped [OF reads_refl] by (simp add: accounted_def)
next
  case (Cons a os)
  note ok = Cons.prems(2) and tree = Cons.prems(3) and w = Cons.prems(5) and pin = Cons.prems(6,7) and dn = Cons.prems(8,9)
  obtain n ms where ns: "ns = n # ms" "length ms = length os" using Cons.prems(1) by (cases ns) auto
  let ?x = "nid_index L a first"
  have place: "place_nofs L (s @ [?x]) = Some n" using Cons.prems(4) [of 0] ns by simp
  have rest: "place_nofs L ((s @ [?x]) @ take (Suc k) (walk_slots L False os)) = Some (ms ! k)" if "k < length os" for k
    using Cons.prems(4) [of "Suc k"] that ns by simp
  obtain p where p: "fs_pages st par = Some p" "node_view E L st par = Some p" using pin(1) by (auto simp: pinned_def)
  define step where "step = (if nb_nid p ?x = 0 then alloc_dnode E L dn par a n first st
    else do { (r, st) \<leftarrow> get_node_page E L st (nb_nid p ?x); Some (map_sum id (\<lambda>_. nb_nid p ?x) r, dn, st) })"
  have "\<exists>r dn' st'. step = Some (r, dn', st') \<and> stepped E L st st' \<and> dn_inode_page dn' \<and> same_inode (dn_inode dn) (dn_inode dn')
    \<and> accounted st st' (dn_inode dn) 1 r
    \<and> (case r of Inl e \<Rightarrow> e \<in> {EPERM, ENOSPC}
       | Inr nid \<Rightarrow> pinned E L st' nid \<and> walk (node_view E L st') ino (s @ [?x]) = Some nid \<and> length os \<le> card (free_nids st'))"
  proof (cases "nb_nid p ?x = 0")
    case True
    have "free_nids st \<noteq> {}" using Cons.prems(10) by auto
    moreover have fin: "finite (free_nids st)" by (simp add: free_new_def)
    ultimately show ?thesis
      using alloc_dnode_ok [OF L ok _ tree place w pin(1) p(2) True pin(2) dn] Cons.prems(10) True
      by (fastforce simp: step_def split: sum.splits)
  next
    case False
    have w': "walk (node_view E L st) ino (s @ [?x]) = Some (nb_nid p ?x)" using w p(2) False by (simp add: walk_snoc)
    from tree_okD [OF tree place w'] obtain c where c: "node_view E L st (nb_nid p ?x) = Some c" "ft_nid (nb_footer c) = nb_nid p ?x"
      by (auto simp: footer_is_def)
    from get_node_page_ok [OF ok c] obtain st' where
      st': "get_node_page E L st (nb_nid p ?x) = Some (Inr c, st')" "reads E L st st'" "fs_pages st' (nb_nid p ?x) = Some c" by blast
    note R = readsD [OF st'(2)]
    have "pinned E L st' (nb_nid p ?x)" using st'(3) c(1) R(2) by (simp add: pinned_def)
    moreover have "length os \<le> card (free_nids st')" using Cons.prems(10) R(7) by simp
    moreover have "accounted st st' (dn_inode dn) 1 (Inr (nb_nid p ?x) :: errno + nat)"
      using R(3,6) by (auto simp: accounted_def elim: has_room_less)
    ultimately show ?thesis using False st'(1) reads_stepped [OF st'(2)] w' R(2) dn by (simp add: step_def)
  qed
  then obtain r dn1 st1 where st1: "step = Some (r, dn1, st1)" "stepped E L st st1" "dn_inode_page dn1" "same_inode (dn_inode dn) (dn_inode dn1)"
    "case r of Inl e \<Rightarrow> e \<in> {EPERM, ENOSPC}
       | Inr nid \<Rightarrow> pinned E L st1 nid \<and> walk (node_view E L st1) ino (s @ [?x]) = Some nid \<and> length os \<le> card (free_nids st1)"
    "accounted st st1 (dn_inode dn) 1 r"
    by blast
  have eq: "dnode_walk E L ALLOC_NODE (zip (a # os) ns) dn par first st =
    (case r of Inl e \<Rightarrow> Some (Inl e, dn1, st1) | Inr nid \<Rightarrow> dnode_walk E L ALLOC_NODE (zip os ms) dn1 nid False st1)"
    using st1(1) p(1) ns(1) by (cases "nb_nid p ?x = 0") (simp_all add: step_def get_nid_def split: bind_splits)
  show ?case
  proof (cases r)
    case (Inl e)
    moreover have "accounted st st1 (dn_inode dn) (length (a # os)) r" by (rule accounted_mono [OF st1(6)]) simp
    ultimately show ?thesis using eq st1 by auto
  next
    case (Inr nid)
    note S = steppedD [OF st1(2)]
    have i: "i_ino (dn_inode dn1) = ino" using dn(1) same_inode_path(1) [OF st1(4)] by simp
    have "\<exists>r dn' st'. dnode_walk E L ALLOC_NODE (zip os ms) dn1 nid False st1 = Some (r, dn', st') \<and> stepped E L st1 st'
      \<and> dn_inode_page dn' \<and> same_inode (dn_inode dn1) (dn_inode dn') \<and> accounted st1 st' (dn_inode dn1) (length os) r
      \<and> (case r of Inl e \<Rightarrow> e \<in> {EPERM, ENOSPC}
         | Inr nid \<Rightarrow> pinned E L st' nid \<and> walk (node_view E L st') ino ((s @ [?x]) @ walk_slots L False os) = Some nid)"
      by (rule Cons.IH [OF ns(2) S(1) grownD(1) [OF S(2) tree] rest]) (use Inr st1(3,5) S(6) pin(2) i in auto)
    then obtain r' dn2 st2 where st2: "dnode_walk E L ALLOC_NODE (zip os ms) dn1 nid False st1 = Some (r', dn2, st2)" "stepped E L st1 st2"
        "dn_inode_page dn2" "same_inode (dn_inode dn1) (dn_inode dn2)"
        "case r' of Inl e \<Rightarrow> e \<in> {EPERM, ENOSPC}
         | Inr nid \<Rightarrow> pinned E L st2 nid \<and> walk (node_view E L st2) ino ((s @ [?x]) @ walk_slots L False os) = Some nid"
        "accounted st1 st2 (dn_inode dn1) (length os) r'" by blast
    moreover have "accounted st st2 (dn_inode dn) (length (a # os)) r'"
      using accounted_trans [OF st1(6) [unfolded Inr] st1(4) st2(6)] by simp
    ultimately show ?thesis
      using eq Inr stepped_trans [OF st1(2) st2(2)] same_inode_trans [OF st1(4) st2(4)] by (cases r') simp_all
  qed
qed


lemma read_child:
  assumes ok: "store_ok E L st" and tree: "tree_ok L (node_view E L st) ino" and place: "place_nofs L (s @ [x]) = Some n"
    and w: "walk (node_view E L st) ino s = Some par" and p: "node_view E L st par = Some p"
  shows "nb_nid p x = 0 \<Longrightarrow> \<exists>st'. get_node_page E L st (nb_nid p x) = Some (Inl ENOENT, st') \<and> reads E L st st'"
    "nb_nid p x \<noteq> 0 \<Longrightarrow> walk (node_view E L st) ino (s @ [x]) = Some (nb_nid p x)"
    "nb_nid p x \<noteq> 0 \<Longrightarrow> \<exists>c st'. get_node_page E L st (nb_nid p x) = Some (Inr c, st') \<and> reads E L st st' \<and> pinned E L st' (nb_nid p x)"
    "nb_nid p x \<noteq> 0 \<Longrightarrow> \<exists>c st'. read_node_page L E st (nb_nid p x) = (Inr c, st') \<and> reads E L st st' \<and> pinned E L st' (nb_nid p x)"
proof -
  note D = store_okD [OF ok]
  show "\<exists>st'. get_node_page E L st (nb_nid p x) = Some (Inl ENOENT, st') \<and> reads E L st st'" if "nb_nid p x = 0"
    using get_node_page_none [OF ok D(7,4)] that by simp
  show w': "walk (node_view E L st) ino (s @ [x]) = Some (nb_nid p x)" if "nb_nid p x \<noteq> 0"
    using w p that by (simp add: walk_snoc)
  show "\<exists>c st'. get_node_page E L st (nb_nid p x) = Some (Inr c, st') \<and> reads E L st st' \<and> pinned E L st' (nb_nid p x)"
    and "\<exists>c st'. read_node_page L E st (nb_nid p x) = (Inr c, st') \<and> reads E L st st' \<and> pinned E L st' (nb_nid p x)"
    if n: "nb_nid p x \<noteq> 0"
  proof -
    from tree_okD [OF tree place w' [OF n]] obtain c where c: "node_view E L st (nb_nid p x) = Some c" "ft_nid (nb_footer c) = nb_nid p x"
      by (auto simp: footer_is_def)
    show "\<exists>c st'. get_node_page E L st (nb_nid p x) = Some (Inr c, st') \<and> reads E L st st' \<and> pinned E L st' (nb_nid p x)"
      using get_node_page_ok [OF ok c] c(1) readsD(2) by (fastforce simp: pinned_def)
    show "\<exists>c st'. read_node_page L E st (nb_nid p x) = (Inr c, st') \<and> reads E L st st' \<and> pinned E L st' (nb_nid p x)"
      using read_node_page_ok [OF ok view_less [OF c(1)]] c(1) readsD(2) by (fastforce simp: pinned_def)
  qed
qed


lemma dnode_walk_lookup:
  assumes mode: "mode \<noteq> ALLOC_NODE" and "length ns = length offs" and "store_ok E L st" and "tree_ok L (node_view E L st) ino"
    and "\<And>k. k < length offs \<Longrightarrow> place_nofs L (s @ take (Suc k) (walk_slots L first offs)) = Some (ns ! k)"
    and "walk (node_view E L st) ino s = Some par" and "pinned E L st par"
  shows "\<exists>r st'. dnode_walk E L mode (zip offs ns) dn par first st = Some (r, dn, st') \<and> reads E L st st'
    \<and> (case walk (node_view E L st) ino (s @ walk_slots L first offs) of None \<Rightarrow> r = Inl ENOENT
       | Some nid \<Rightarrow> r = Inr nid \<and> pinned E L st' nid)"
  using assms(2-)
proof (induction offs arbitrary: ns st s par first)
  case Nil
  then show ?case using reads_refl by simp
next
  case (Cons a os)
  note ok = Cons.prems(2) and tree = Cons.prems(3) and w = Cons.prems(5)
  obtain n ms where ns: "ns = n # ms" "length ms = length os" using Cons.prems(1) by (cases ns) auto
  let ?x = "nid_index L a first"
  have place: "place_nofs L (s @ [?x]) = Some n" using Cons.prems(4) [of 0] ns by simp
  have rest: "place_nofs L ((s @ [?x]) @ take (Suc k) (walk_slots L False os)) = Some (ms ! k)" if "k < length os" for k
    using Cons.prems(4) [of "Suc k"] that ns by simp
  obtain p where p: "fs_pages st par = Some p" "node_view E L st par = Some p" using Cons.prems(6) by (auto simp: pinned_def)
  note C = read_child [OF ok tree place w p(2)]
  let ?c = "nb_nid p ?x"
  define step where "step = (if mode = LOOKUP_NODE_RA \<and> zip os ms = [] \<and> \<not> first then
      (let (r, st) = get_node_page_ra E L st p a in Some (map_sum id (\<lambda>_. ?c) r, dn, st))
    else do { (r, st) \<leftarrow> get_node_page E L st ?c; Some (map_sum id (\<lambda>_. ?c) r, dn, st) })"
  have eq: "dnode_walk E L mode (zip (a # os) ns) dn par first st = Option.bind step (\<lambda>(r, dn, st).
    case r of Inl e \<Rightarrow> Some (Inl e, dn, st) | Inr nid \<Rightarrow> dnode_walk E L mode (zip os ms) dn nid False st)"
    using mode p(1) ns(1) by (simp add: step_def get_nid_def Let_def)
  have ra: "get_node_page_ra E L st p a = (if ?c = 0 then (Inl ENOENT, st) else read_node_page L E st ?c)" if "\<not> first"
    using that by (simp add: get_node_page_ra_def get_nid_def Let_def)
  show ?case
  proof (cases "?c = 0")
    case True
    then have "\<exists>st'. step = Some (Inl ENOENT, dn, st') \<and> reads E L st st'"
      using C(1) ra reads_refl [OF ok] by (fastforce simp: step_def)
    moreover have "walk (node_view E L st) ino (s @ walk_slots L first (a # os)) = None"
      using w p(2) True by (simp add: walk_append)
    ultimately show ?thesis using eq by auto
  next
    case False
    have "\<exists>st'. step = Some (Inr ?c, dn, st') \<and> reads E L st st' \<and> pinned E L st' ?c"
    proof (cases "mode = LOOKUP_NODE_RA \<and> zip os ms = [] \<and> \<not> first")
      case True
      then show ?thesis using C(4) [OF False] ra False by (auto simp: step_def)
    next
      case get: False
      then show ?thesis using C(3) [OF False] by (auto simp: step_def)
    qed
    then obtain st' where st': "step = Some (Inr ?c, dn, st')" "reads E L st st'" "pinned E L st' ?c" by blast
    note R = readsD [OF st'(2)]
    have "\<exists>r st''. dnode_walk E L mode (zip os ms) dn ?c False st' = Some (r, dn, st'') \<and> reads E L st' st''
      \<and> (case walk (node_view E L st') ino ((s @ [?x]) @ walk_slots L False os) of None \<Rightarrow> r = Inl ENOENT
         | Some nid \<Rightarrow> r = Inr nid \<and> pinned E L st'' nid)"
      by (rule Cons.IH [OF ns(2) R(1) _ rest]) (use R(2) tree C(2) False st'(3) in auto)
    then show ?thesis using eq st'(1) reads_trans [OF st'(2)] R(2) by auto
  qed
qed

section \<open>\<open>get_dnode_of_data\<close>\<close>

definition inode_ready :: "f2fs_env \<Rightarrow> node_layout \<Rightarrow> fs_state \<Rightarrow> dnode_of_data \<Rightarrow> bool" where
  "inode_ready E L st dn \<longleftrightarrow> tree_ok L (node_view E L st) (i_ino (dn_inode dn))
     \<and> (dn_inode_page dn \<longrightarrow> pinned E L st (i_ino (dn_inode dn)))"

lemma inode_page_ok:
  assumes ok: "store_ok E L st" and dn: "inode_ready E L st dn"
  shows "\<exists>st'. (if dn_inode_page dn then Some (Inr (), st)
     else do { (r, st) \<leftarrow> get_node_page E L st (i_ino (dn_inode dn)); Some (map_sum id (\<lambda>_. ()) r, st) }) = Some (Inr (), st')
    \<and> reads E L st st' \<and> pinned E L st' (i_ino (dn_inode dn))"
proof -
  have "place_nofs L [] = Some 0" by (simp add: place_nofs_def)
  from tree_okD [OF _ this] dn obtain c where c: "node_view E L st (i_ino (dn_inode dn)) = Some c"
    "ft_nid (nb_footer c) = i_ino (dn_inode dn)" unfolding inode_ready_def footer_is_def by force
  from get_node_page_ok [OF ok c] obtain st' where
    "get_node_page E L st (i_ino (dn_inode dn)) = Some (Inr c, st')" "reads E L st st'" "fs_pages st' (i_ino (dn_inode dn)) = Some c"
    by blast
  then show ?thesis using dn reads_refl [OF ok] c(1) readsD(2) [of E L st st'] by (auto simp: inode_ready_def pinned_def)
qed

lemma get_dnode_lookup:
  assumes L: "layout_ok L" and ok: "store_ok E L st" and mode: "mode \<noteq> ALLOC_NODE" and dn: "inode_ready E L st dn"
    and path: "get_node_path L (i_info (dn_inode dn)) b \<noteq> None"
  shows "\<exists>r dn' st'. get_dnode_of_data E L dn b mode st = Some (r, dn', st') \<and> reads E L st st'
    \<and> (case leaf_node L (node_view E L st) (i_ino (dn_inode dn)) (i_info (dn_inode dn)) b of
         None \<Rightarrow> r = Inl ENOENT \<and> dn_inode dn' = dn_inode dn
       | Some (nid, ofs) \<Rightarrow> r = Inr () \<and> pinned E L st' nid \<and> pinned E L st' (i_ino (dn_inode dn))
           \<and> dn' = dn\<lparr>dn_inode_page := True, dn_nid := nid, dn_ofs_in_node := ofs, dn_node_page := Some nid,
               dn_data_blkaddr := addr_at (node_view E L st) (nid, ofs)\<rparr>)"
proof -
  let ?ino = "i_ino (dn_inode dn)" and ?P = "node_view E L st"
  from path obtain level offset noffset where p: "get_node_path L (i_info (dn_inode dn)) b = Some (level, offset, noffset)" by auto
  note S = path_place [OF L p]
  obtain st1 where st1: "(if dn_inode_page dn then Some (Inr (), st)
     else do { (r, st) \<leftarrow> get_node_page E L st ?ino; Some (map_sum id (\<lambda>_. ()) r, st) }) = Some (Inr (), st1)"
    "reads E L st st1" "pinned E L st1 ?ino" using inode_page_ok [OF ok dn] by blast
  note R1 = readsD [OF st1(2)]
  have slots: "walk_slots L True (butlast offset) = path_slots L offset" by (rule path_walk_slots)
  have "\<exists>r st'. dnode_walk E L mode (zip (butlast offset) (tl noffset)) (dn\<lparr>dn_inode_page := True\<rparr>) ?ino True st1
      = Some (r, dn\<lparr>dn_inode_page := True\<rparr>, st') \<and> reads E L st1 st'
    \<and> (case walk (node_view E L st1) ?ino ([] @ walk_slots L True (butlast offset)) of None \<Rightarrow> r = Inl ENOENT
       | Some nid \<Rightarrow> r = Inr nid \<and> pinned E L st' nid)"
  proof (rule dnode_walk_lookup [OF mode _ R1(1)])
    show "length (tl noffset) = length (butlast offset)" using S(2,3) by simp
    show "tree_ok L (node_view E L st1) ?ino" using dn R1(2) by (simp add: inode_ready_def)
    show "place_nofs L ([] @ take (Suc k) (walk_slots L True (butlast offset))) = Some (tl noffset ! k)"
      if "k < length (butlast offset)" for k
      using that S(1) [of "Suc k"] S(2,3) by (simp add: slots nth_tl)
  qed (use st1(3) in simp_all)
  then obtain r st2 where st2: "dnode_walk E L mode (zip (butlast offset) (tl noffset)) (dn\<lparr>dn_inode_page := True\<rparr>) ?ino True st1
      = Some (r, dn\<lparr>dn_inode_page := True\<rparr>, st2)" "reads E L st st2" "reads E L st1 st2"
    "case walk ?P ?ino (path_slots L offset) of None \<Rightarrow> r = Inl ENOENT | Some nid \<Rightarrow> r = Inr nid \<and> pinned E L st2 nid"
    using slots reads_trans [OF st1(2)] R1(2) by auto
  have pin: "pinned E L st2 ?ino" by (rule steppedD(6) [OF reads_stepped [OF st2(3)] st1(3)])
  have leaf: "leaf_node L ?P ?ino (i_info (dn_inode dn)) b = map_option (\<lambda>nid. (nid, last offset)) (walk ?P ?ino (path_slots L offset))"
    by (simp add: leaf_node_def p)
  show ?thesis
  proof (cases "walk ?P ?ino (path_slots L offset)")
    case None
    then show ?thesis using st1(1) st2 p by (simp add: get_dnode_of_data_def leaf)
  next
    case (Some nid)
    then have "pinned E L st2 nid" "r = Inr nid" using st2(4) by auto
    then show ?thesis using st1(1) st2(1,2) p Some pin readsD(2) [OF st2(2)]
      by (auto simp: get_dnode_of_data_def leaf pinned_def addr_at_def datablock_addr_def)
  qed
qed

lemma get_dnode_alloc:
  assumes L: "layout_ok L" and ok: "store_ok E L st" and dn: "inode_ready E L st dn"
    and path: "get_node_path L (i_info (dn_inode dn)) b \<noteq> None" and free: "3 \<le> card (free_nids st)"
  shows "\<exists>r dn' st'. get_dnode_of_data E L dn b ALLOC_NODE st = Some (r, dn', st') \<and> stepped E L st st'
    \<and> same_inode (dn_inode dn) (dn_inode dn') \<and> accounted st st' (dn_inode dn) 3 r
    \<and> (case r of Inl e \<Rightarrow> e \<in> {EPERM, ENOSPC}
       | Inr _ \<Rightarrow> leaf_node L (node_view E L st') (i_ino (dn_inode dn)) (i_info (dn_inode dn)) b = Some (dn_nid dn', dn_ofs_in_node dn')
           \<and> dn_node_page dn' = Some (dn_nid dn') \<and> pinned E L st' (dn_nid dn') \<and> dn_inode_page dn' \<and> pinned E L st' (i_ino (dn_inode dn))
           \<and> dn_data_blkaddr dn' = file_map L (node_view E L st) (i_ino (dn_inode dn)) (i_info (dn_inode dn)) b)"
proof -
  let ?ino = "i_ino (dn_inode dn)" and ?fi = "i_info (dn_inode dn)"
  from path obtain level offset noffset where p: "get_node_path L ?fi b = Some (level, offset, noffset)" by auto
  note S = path_place [OF L p]
  obtain st1 where st1: "(if dn_inode_page dn then Some (Inr (), st)
     else do { (r, st) \<leftarrow> get_node_page E L st ?ino; Some (map_sum id (\<lambda>_. ()) r, st) }) = Some (Inr (), st1)"
    "reads E L st st1" "pinned E L st1 ?ino" using inode_page_ok [OF ok dn] by blast
  note R1 = readsD [OF st1(2)]
  have slots: "walk_slots L True (butlast offset) = path_slots L offset" by (rule path_walk_slots)
  let ?dn = "dn\<lparr>dn_inode_page := True\<rparr>"
  have "\<exists>r dn' st'. dnode_walk E L ALLOC_NODE (zip (butlast offset) (tl noffset)) ?dn ?ino True st1 = Some (r, dn', st') \<and> stepped E L st1 st'
    \<and> dn_inode_page dn' \<and> same_inode (dn_inode ?dn) (dn_inode dn') \<and> accounted st1 st' (dn_inode ?dn) (length (butlast offset)) r
    \<and> (case r of Inl e \<Rightarrow> e \<in> {EPERM, ENOSPC}
       | Inr nid \<Rightarrow> pinned E L st' nid \<and> walk (node_view E L st') ?ino ([] @ walk_slots L True (butlast offset)) = Some nid)"
  proof (rule dnode_walk_alloc [OF L _ R1(1)])
    show "length (tl noffset) = length (butlast offset)" using S(2,3) by simp
    show "tree_ok L (node_view E L st1) ?ino" using dn R1(2) by (simp add: inode_ready_def)
    show "place_nofs L ([] @ take (Suc k) (walk_slots L True (butlast offset))) = Some (tl noffset ! k)"
      if "k < length (butlast offset)" for k
      using that S(1) [of "Suc k"] S(2,3) by (simp add: slots nth_tl)
    show "length (butlast offset) \<le> card (free_nids st1)" using S(3,4) free R1(7) by simp
  qed (use st1(3) in simp_all)
  then obtain r dn' st2 where st2: "dnode_walk E L ALLOC_NODE (zip (butlast offset) (tl noffset)) ?dn ?ino True st1 = Some (r, dn', st2)"
    "stepped E L st1 st2" "dn_inode_page dn'" "same_inode (dn_inode dn) (dn_inode dn')"
    "case r of Inl e \<Rightarrow> e \<in> {EPERM, ENOSPC} | Inr nid \<Rightarrow> pinned E L st2 nid \<and> walk (node_view E L st2) ?ino (path_slots L offset) = Some nid"
    "accounted st1 st2 (dn_inode dn) (length (butlast offset)) r"
    by (auto simp: slots cong: sum.case_cong)
  have "accounted st st2 (dn_inode dn) (length (butlast offset)) r"
    using st2(6) by (simp only: accounted_same(1) [OF R1(3,6)])
  then have "accounted st st2 (dn_inode dn) 3 r" by (rule accounted_mono) (use S(3,4) in simp)
  then have acc: "accounted st st2 (dn_inode dn) 3 (map_sum id (\<lambda>_. ()) r)" by (cases r) (simp_all add: accounted_def)
  have st: "stepped E L st st2" by (rule stepped_trans [OF reads_stepped [OF st1(2)] st2(2)])
  note T = steppedD [OF st]
  show ?thesis
  proof (cases r)
    case (Inl e)
    then show ?thesis using st1(1) st2 p st acc by (auto simp: get_dnode_of_data_def)
  next
    case (Inr nid)
    then have nid: "pinned E L st2 nid" "walk (node_view E L st2) ?ino (path_slots L offset) = Some nid" using st2(5) by simp_all
    then obtain q where q: "fs_pages st2 nid = Some q" "node_view E L st2 nid = Some q" by (auto simp: pinned_def)
    have leaf: "leaf_node L (node_view E L st2) ?ino ?fi b = Some (nid, last offset)" by (simp add: leaf_node_def p nid(2))
    have "file_map L (node_view E L st2) ?ino ?fi b = file_map L (node_view E L st) ?ino ?fi b"
      using grown_file_map [OF L T(2)] dn by (simp add: inode_ready_def)
    then have "nb_addr q (last offset) = file_map L (node_view E L st) ?ino ?fi b"
      using leaf q(2) by (simp add: file_map_def addr_at_def)
    moreover have "pinned E L st2 ?ino" using steppedD(6) [OF st2(2) st1(3)] .
    ultimately show ?thesis using st1(1) st2(1,3,4) p st Inr q(1) leaf nid(1) acc
      by (simp add: get_dnode_of_data_def datablock_addr_def)
  qed
qed

end
