(* ===== verification/Page_Write.thy ===== *)
theory Page_Write
  imports Node_Store Curseg
begin

text \<open>
  Writing a page to a block of its own (\<open>segment.c\<close>, \<open>node.c\<close>): the log is chosen, the address
  taken, a node page gets the address of the next block of the log into its footer, and the
  device has the page.  Bios are submitted at once; \<open>cp_ver\<close> is the version of the current checkpoint.
\<close>

section \<open>Pages\<close>

text \<open>What \<open>get_segment_type\<close> looks at in a node page.\<close>

definition node_page_info :: "node_layout \<Rightarrow> node_block \<Rightarrow> page_info" where
  "node_page_info L p = \<lparr> pg_dir = False, pg_cold_data = False, pg_file_cold = False,
     pg_dnode = IS_DNODE L (nb_footer p), pg_cold_node = is_node (nb_footer p) (COLD_BIT_SHIFT L) \<rparr>"

definition fill_node_footer_blkaddr :: "nat \<Rightarrow> nat \<Rightarrow> node_footer \<Rightarrow> node_footer" where
  "fill_node_footer_blkaddr cp_ver blkaddr rn = rn\<lparr>ft_cp_ver := cp_ver, ft_next_blkaddr := blkaddr\<rparr>"

definition next_blkaddr_of_node :: "node_block \<Rightarrow> nat" where
  "next_blkaddr_of_node p = ft_next_blkaddr (nb_footer p)"

text \<open>The page that goes to the device: \<open>allocate_data_block\<close> fills the footer of a node page.\<close>

definition stamp_page :: "nat \<Rightarrow> nat option \<Rightarrow> disk_block \<Rightarrow> disk_block" where
  "stamp_page cp_ver footer b = (case (footer, b) of
     (Some a, Node_block p) \<Rightarrow> Node_block (p\<lparr>nb_footer := fill_node_footer_blkaddr cp_ver a (nb_footer p)\<rparr>)
   | _ \<Rightarrow> b)"

section \<open>The write paths\<close>

definition f2fs_submit_page_mbio :: "disk_block \<Rightarrow> nat \<Rightarrow> fs_state \<Rightarrow> fs_state" where
  "f2fs_submit_page_mbio b blk_addr st = st\<lparr>fs_disk := (fs_disk st)(blk_addr \<mapsto> b)\<rparr>"

text \<open>The new address, the page as written and the new state.\<close>

definition do_write_page ::
  "f2fs_env \<Rightarrow> nat \<Rightarrow> disk_block \<Rightarrow> page_info \<Rightarrow> page_type \<Rightarrow> nat \<Rightarrow> f2fs_summary \<Rightarrow> fs_state \<Rightarrow> (nat \<times> disk_block \<times> fs_state) option" where
  "do_write_page E cp_ver b page p_type old_blkaddr summ st = do {
     t \<leftarrow> get_segment_type E (fs_sbi st) page p_type;
     (new_blkaddr, footer, sbi) \<leftarrow> allocate_data_block E (fs_sbi st) True old_blkaddr summ t;
     let b = stamp_page cp_ver footer b;
     Some (new_blkaddr, b, f2fs_submit_page_mbio b new_blkaddr (st\<lparr>fs_sbi := sbi\<rparr>)) }"

definition write_node_page ::
  "f2fs_env \<Rightarrow> node_layout \<Rightarrow> nat \<Rightarrow> node_block \<Rightarrow> nat \<Rightarrow> nat \<Rightarrow> fs_state \<Rightarrow> (nat \<times> disk_block \<times> fs_state) option" where
  "write_node_page E L cp_ver p nid old_blkaddr st =
     do_write_page E cp_ver (Node_block p) (node_page_info L p) NODE old_blkaddr (set_summary nid 0 0) st"

definition write_data_page ::
  "f2fs_env \<Rightarrow> node_layout \<Rightarrow> 8 word list \<Rightarrow> page_info \<Rightarrow> dnode_of_data \<Rightarrow> fs_state \<Rightarrow> (nat \<times> fs_state) option" where
  "write_data_page E L data page dn st = do {
     f2fs_bug_on E (dn_data_blkaddr dn = NULL_ADDR E);
     let (ni, nat) = get_node_info L (fs_sbi st) (fs_nat st) (dn_nid dn);
     let summ = set_summary (dn_nid dn) (dn_ofs_in_node dn) (ni_version ni);
     (new_blkaddr, _, st) \<leftarrow> do_write_page E 0 (Data_block data) page DATA (dn_data_blkaddr dn) summ (st\<lparr>fs_nat := nat\<rparr>);
     Some (new_blkaddr, st) }"

definition rewrite_data_page :: "8 word list \<Rightarrow> nat \<Rightarrow> fs_state \<Rightarrow> fs_state" where
  "rewrite_data_page data old_blkaddr st = f2fs_submit_page_mbio (Data_block data) old_blkaddr st"

section \<open>A node page is written\<close>

text \<open>The first component tells whether the page is left to be written later (\<open>AOP_WRITEPAGE_ACTIVATE\<close>).
  Which pages are dirty, and how many, is not part of the model.\<close>

definition f2fs_write_node_page ::
  "f2fs_env \<Rightarrow> node_layout \<Rightarrow> nat \<Rightarrow> bool \<Rightarrow> nat \<Rightarrow> fs_state \<Rightarrow> (bool \<times> fs_state) option" where
  "f2fs_write_node_page E L cp_ver for_reclaim index st =
    (if sbi_por_doing (fs_sbi st) then Some (True, st)
     else do {
       page \<leftarrow> fs_pages st index;
       let nid = ft_nid (nb_footer page);
       f2fs_bug_on E (index \<noteq> nid);
       let (ni, nat) = get_node_info L (fs_sbi st) (fs_nat st) nid;
       let st = st\<lparr>fs_nat := nat\<rparr>;
       if ni_blk_addr ni = NULL_ADDR E then Some (False, st)
       else if for_reclaim then Some (True, st)
       else do {
         (new_addr, b, st) \<leftarrow> write_node_page E L cp_ver page nid (ni_blk_addr ni) st;
         let page = (case b of Node_block p \<Rightarrow> p | Data_block _ \<Rightarrow> page);
         let st = st\<lparr>fs_pages := (fs_pages st)(index \<mapsto> page)\<rparr>;
         nm \<leftarrow> set_node_addr E (ns_nm (fs_nat st)) ni new_addr;
         Some (False, st\<lparr>fs_nat := (fs_nat st)\<lparr>ns_nm := nm\<rparr>\<rparr>) } })"

section \<open>Blocks at a given address\<close>

text \<open>Roll-forward recovery puts blocks where they were before the crash: the log is moved there
  first (\<open>move_log\<close>), and its next block is set (\<open>set_log_block\<close>).\<close>

definition move_log :: "f2fs_env \<Rightarrow> f2fs_sb_info \<Rightarrow> nat \<Rightarrow> nat \<Rightarrow> f2fs_sb_info" where
  "move_log E sbi type segno =
    change_curseg E (set_CURSEG_I type ((CURSEG_I sbi type)\<lparr>cs_next_segno := segno\<rparr>) sbi) type True"

definition set_log_block :: "f2fs_sb_info \<Rightarrow> nat \<Rightarrow> nat \<Rightarrow> f2fs_sb_info" where
  "set_log_block sbi type blkaddr =
    set_CURSEG_I type ((CURSEG_I sbi type)\<lparr>cs_next_blkoff :=
      u16 (GET_SEGOFF_FROM_SEG0 sbi blkaddr AND (sbi_blocks_per_seg sbi - 1))\<rparr>) sbi"

definition recover_data_page :: "f2fs_env \<Rightarrow> f2fs_sb_info \<Rightarrow> f2fs_summary \<Rightarrow> nat \<Rightarrow> nat \<Rightarrow> f2fs_sb_info option" where
  "recover_data_page E sbi summ old_blkaddr new_blkaddr = do {
     let segno = GET_SEGNO E sbi new_blkaddr;
     let se = get_seg_entry sbi segno;
     let type = (if se_valid_blocks se = 0 \<and> \<not> IS_CURSEG sbi segno
                 then (if old_blkaddr = NULL_ADDR E then CURSEG_COLD_DATA else CURSEG_WARM_DATA)
                 else se_type se);
     let old_cursegno = cs_segno (CURSEG_I sbi type);
     let sbi = (if segno \<noteq> old_cursegno then move_log E sbi type segno else sbi);
     let sbi = set_log_block sbi type new_blkaddr;
     let sbi = add_sum_entry sbi type summ;
     sbi \<leftarrow> refresh_sit_entry E sbi old_blkaddr new_blkaddr;
     let sbi = locate_dirty_segment sbi old_cursegno;
     Some (locate_dirty_segment sbi (GET_SEGNO E sbi old_blkaddr)) }"

definition rewrite_node_page :: "f2fs_env \<Rightarrow> node_block \<Rightarrow> f2fs_summary \<Rightarrow> nat \<Rightarrow> nat \<Rightarrow> fs_state \<Rightarrow> fs_state option" where
  "rewrite_node_page E page summ old_blkaddr new_blkaddr st = do {
     let sbi = fs_sbi st;
     let type = CURSEG_WARM_NODE;
     let next_blkaddr = next_blkaddr_of_node page;
     let next_segno = GET_SEGNO E sbi next_blkaddr;
     let segno = GET_SEGNO E sbi new_blkaddr;
     let old_cursegno = cs_segno (CURSEG_I sbi type);
     let sbi = (if segno \<noteq> old_cursegno then move_log E sbi type segno else sbi);
     let sbi = set_log_block sbi type new_blkaddr;
     let sbi = add_sum_entry sbi type summ;
     let sbi = (if next_segno \<noteq> segno then move_log E sbi type next_segno else sbi);
     let sbi = set_log_block sbi type next_blkaddr;
     let st = f2fs_submit_page_mbio (Node_block page) new_blkaddr st;
     sbi \<leftarrow> refresh_sit_entry E sbi old_blkaddr new_blkaddr;
     let sbi = locate_dirty_segment sbi old_cursegno;
     Some (st\<lparr>fs_sbi := locate_dirty_segment sbi (GET_SEGNO E sbi old_blkaddr)\<rparr>) }"

end
