(* ===== verification/File_Data.thy ===== *)
theory File_Data
  imports Page_Write
begin

text \<open>
  The data blocks of a file (\<open>data.c\<close>): reserving a block, setting the address of a block
  together with the extent cache, finding and creating pages, mapping blocks for the block
  layer and writing a page back.

  A page of the page cache is given by its contents, \<open>cached\<close> tells what is there.  Getting memory
  for a page does not fail, and no page is truncated while it is being read.
\<close>

type_synonym page_data = "8 word list"

definition f2fs_put_dnode :: "dnode_of_data \<Rightarrow> dnode_of_data" where
  "f2fs_put_dnode dn = dn\<lparr>dn_node_page := None, dn_inode_page := False\<rparr>"

definition PAGE_CACHE_SHIFT :: nat where "PAGE_CACHE_SHIFT = 12"
definition FI_UPDATE_DIR :: nat where "FI_UPDATE_DIR = 5"

definition zero_page :: page_data where
  "zero_page = replicate (2 ^ PAGE_CACHE_SHIFT) 0"

section \<open>The address of a block\<close>

definition set_data_blkaddr :: "dnode_of_data \<Rightarrow> nat \<Rightarrow> fs_state \<Rightarrow> fs_state option" where
  "set_data_blkaddr dn new_addr st = do {
     npage \<leftarrow> dn_node_page dn;
     p \<leftarrow> fs_pages st npage;
     Some (st\<lparr>fs_pages := (fs_pages st)(npage \<mapsto> p\<lparr>nb_addr := (nb_addr p)(dn_ofs_in_node dn := new_addr)\<rparr>)\<rparr>) }"

definition reserve_new_block ::
  "f2fs_env \<Rightarrow> node_layout \<Rightarrow> dnode_of_data \<Rightarrow> fs_state \<Rightarrow> ((errno + unit) \<times> dnode_of_data \<times> fs_state) option" where
  "reserve_new_block E L dn st =
    (let inode = dn_inode dn
     in if is_inode_flag_set (i_info inode) FI_NO_ALLOC then Some (Inl EPERM, dn, st)
        else case inc_valid_block_count (fs_sbi st) (i_blocks inode) 1 of
          (False, _, _) \<Rightarrow> Some (Inl ENOSPC, dn, st)
        | (True, blocks, sbi) \<Rightarrow> do {
            st \<leftarrow> set_data_blkaddr dn (NEW_ADDR E) (st\<lparr>fs_sbi := sbi\<rparr>);
            let dn = dn\<lparr>dn_data_blkaddr := NEW_ADDR E, dn_inode := mark_inode_dirty (inode\<lparr>i_blocks := blocks\<rparr>)\<rparr>;
            (dn, st) \<leftarrow> sync_inode_page E L dn st;
            Some (Inr (), dn, st) })"

definition f2fs_reserve_block ::
  "f2fs_env \<Rightarrow> node_layout \<Rightarrow> dnode_of_data \<Rightarrow> nat \<Rightarrow> fs_state \<Rightarrow> ((errno + unit) \<times> dnode_of_data \<times> fs_state) option" where
  "f2fs_reserve_block E L dn index st = do {
     let need_put = (\<not> dn_inode_page dn);
     f2fs_bug_on E (\<not> need_put \<and> index \<noteq> 0);
     (r, dn, st) \<leftarrow> get_dnode_of_data E L dn index ALLOC_NODE st;
     case r of Inl e \<Rightarrow> Some (Inl e, dn, st)
     | Inr _ \<Rightarrow> do {
         (r, dn, st) \<leftarrow> (if dn_data_blkaddr dn = NULL_ADDR E then reserve_new_block E L dn st else Some (Inr (), dn, st));
         Some (r, if r \<noteq> Inr () \<or> need_put then f2fs_put_dnode dn else dn, st) } }"

text \<open>\<open>update_extent_cache\<close> after the address is set: \<open>update_extent\<close> is its part on the extent.\<close>

definition update_extent_cache ::
  "f2fs_env \<Rightarrow> node_layout \<Rightarrow> nat \<Rightarrow> dnode_of_data \<Rightarrow> fs_state \<Rightarrow> (dnode_of_data \<times> fs_state) option" where
  "update_extent_cache E L blk_addr dn st = do {
     f2fs_bug_on E (blk_addr = NEW_ADDR E);
     let inode = dn_inode dn;
     npage \<leftarrow> dn_node_page dn;
     p \<leftarrow> fs_pages st npage;
     let fofs = u32 (start_bidx_of_node L (ofs_of_node L (nb_footer p)) (i_info inode) + dn_ofs_in_node dn);
     st \<leftarrow> set_data_blkaddr dn blk_addr st;
     if is_inode_flag_set (i_info inode) FI_NO_EXTENT then Some (dn, st)
     else
       let (need_update, fi) = update_extent E (i_info inode) fofs blk_addr;
           dn = dn\<lparr>dn_inode := inode\<lparr>i_info := fi\<rparr>\<rparr>
       in if need_update then sync_inode_page E L dn st else Some (dn, st) }"

section \<open>Finding a page\<close>

definition f2fs_submit_page_bio :: "fs_state \<Rightarrow> nat \<Rightarrow> errno + page_data" where
  "f2fs_submit_page_bio st blk_addr = (case fs_disk st blk_addr of Some (Data_block d) \<Rightarrow> Inr d | _ \<Rightarrow> Inl EIO)"

definition find_data_page ::
  "f2fs_env \<Rightarrow> node_layout \<Rightarrow> page_data option \<Rightarrow> inode \<Rightarrow> nat \<Rightarrow> fs_state \<Rightarrow> ((errno + page_data) \<times> fs_state) option" where
  "find_data_page E L cached inode index st = (case cached of Some page \<Rightarrow> Some (Inr page, st)
   | None \<Rightarrow> do {
       (r, dn, st) \<leftarrow> get_dnode_of_data E L (set_new_dnode inode False None 0) index LOOKUP_NODE st;
       Some (case r of Inl e \<Rightarrow> Inl e
         | Inr _ \<Rightarrow> if dn_data_blkaddr dn = NULL_ADDR E then Inl ENOENT
             else if dn_data_blkaddr dn = NEW_ADDR E then Inl EINVAL
             else f2fs_submit_page_bio st (dn_data_blkaddr dn), st) })"

definition get_lock_data_page ::
  "f2fs_env \<Rightarrow> node_layout \<Rightarrow> page_data option \<Rightarrow> inode \<Rightarrow> nat \<Rightarrow> fs_state \<Rightarrow> ((errno + page_data) \<times> fs_state) option" where
  "get_lock_data_page E L cached inode index st = do {
     (r, dn, st) \<leftarrow> get_dnode_of_data E L (set_new_dnode inode False None 0) index LOOKUP_NODE st;
     Some (case r of Inl e \<Rightarrow> Inl e
       | Inr _ \<Rightarrow> if dn_data_blkaddr dn = NULL_ADDR E then Inl ENOENT
           else (case cached of Some page \<Rightarrow> Inr page
             | None \<Rightarrow> if dn_data_blkaddr dn = NEW_ADDR E then Inr zero_page
                 else f2fs_submit_page_bio st (dn_data_blkaddr dn)), st) }"

text \<open>\<open>ipage\<close> tells whether the caller passes the page of the inode.\<close>

definition get_new_data_page ::
  "f2fs_env \<Rightarrow> node_layout \<Rightarrow> page_data option \<Rightarrow> inode \<Rightarrow> bool \<Rightarrow> nat \<Rightarrow> bool \<Rightarrow> fs_state
    \<Rightarrow> ((errno + page_data) \<times> inode \<times> fs_state) option" where
  "get_new_data_page E L cached inode ipage index new_i_size st = do {
     (r, dn, st) \<leftarrow> f2fs_reserve_block E L (set_new_dnode inode ipage None 0) index st;
     let inode = dn_inode dn;
     case r of Inl e \<Rightarrow> Some (Inl e, inode, st)
     | Inr _ \<Rightarrow> Some (case cached of Some page \<Rightarrow> (Inr page, inode, st)
         | None \<Rightarrow> (case (if dn_data_blkaddr dn = NEW_ADDR E then Inr zero_page
                         else f2fs_submit_page_bio st (dn_data_blkaddr dn)) of
             Inl e \<Rightarrow> (Inl e, inode, st)
           | Inr page \<Rightarrow>
              (let new_size = u64 (u64 (index + 1) * 2 ^ PAGE_CACHE_SHIFT)
               in (Inr page,
                   if new_i_size \<and> i_size inode < new_size
                   then inode\<lparr>i_size := new_size, i_info := set_inode_flag (i_info inode) FI_UPDATE_DIR\<rparr> else inode,
                   st)))) }"

section \<open>Mapping blocks\<close>

text \<open>\<open>__allocate_data_block\<close>\<close>

definition allocate_data_block_dn ::
  "f2fs_env \<Rightarrow> node_layout \<Rightarrow> dnode_of_data \<Rightarrow> fs_state \<Rightarrow> ((errno + unit) \<times> dnode_of_data \<times> fs_state) option" where
  "allocate_data_block_dn E L dn st =
    (let inode = dn_inode dn
     in if is_inode_flag_set (i_info inode) FI_NO_ALLOC then Some (Inl EPERM, dn, st)
        else case inc_valid_block_count (fs_sbi st) (i_blocks inode) 1 of
          (False, _, _) \<Rightarrow> Some (Inl ENOSPC, dn, st)
        | (True, blocks, sbi) \<Rightarrow> do {
            st \<leftarrow> set_data_blkaddr dn (NEW_ADDR E) (st\<lparr>fs_sbi := sbi\<rparr>);
            let (ni, nat) = get_node_info L (fs_sbi st) (fs_nat st) (dn_nid dn);
            let summ = set_summary (dn_nid dn) (dn_ofs_in_node dn) (ni_version ni);
            (new_blkaddr, _, sbi) \<leftarrow> allocate_data_block E (fs_sbi st) False (NULL_ADDR E) summ CURSEG_WARM_DATA;
            let inode = inode\<lparr>i_blocks := blocks, i_info := set_inode_flag (i_info inode) FI_NO_EXTENT\<rparr>;
            (dn, st) \<leftarrow> update_extent_cache E L new_blkaddr (dn\<lparr>dn_data_blkaddr := NEW_ADDR E, dn_inode := inode\<rparr>)
                          (st\<lparr>fs_sbi := sbi, fs_nat := nat\<rparr>);
            let inode = dn_inode dn;
            Some (Inr (), dn\<lparr>dn_inode := inode\<lparr>i_info := clear_inode_flag (i_info inode) FI_NO_EXTENT\<rparr>,
                            dn_data_blkaddr := new_blkaddr\<rparr>, st) })"

definition IS_INODE :: "node_block \<Rightarrow> bool" where
  "IS_INODE p = RAW_IS_INODE p"

definition end_of_node :: "node_layout \<Rightarrow> inode \<Rightarrow> node_block \<Rightarrow> nat" where
  "end_of_node L inode p = (if IS_INODE p then addrs_per_inode L (i_info inode) else ADDRS_PER_BLOCK L)"

definition sync_allocated ::
  "f2fs_env \<Rightarrow> node_layout \<Rightarrow> bool \<Rightarrow> dnode_of_data \<Rightarrow> fs_state \<Rightarrow> (dnode_of_data \<times> fs_state) option" where
  "sync_allocated E L allocated dn st = (if allocated then sync_inode_page E L dn st else Some (dn, st))"

text \<open>The error a reader gets: a missing node is a hole.\<close>

definition map_error :: "errno \<Rightarrow> errno + unit" where
  "map_error e = (if e = ENOENT then Inr () else Inl e)"

text \<open>The loop at \<open>get_next\<close>.  A round that goes on has mapped one more block, so \<open>maxblocks + 1\<close> rounds
  are enough fuel.\<close>

fun get_next ::
  "nat \<Rightarrow> f2fs_env \<Rightarrow> node_layout \<Rightarrow> bool \<Rightarrow> nat \<Rightarrow> nat \<Rightarrow> dnode_of_data \<Rightarrow> nat \<Rightarrow> nat \<Rightarrow> bool \<Rightarrow> nat \<Rightarrow> buffer_head \<Rightarrow> fs_state
    \<Rightarrow> ((errno + unit) \<times> buffer_head \<times> inode \<times> fs_state) option" where
  "get_next 0 E L create blkbits maxblocks dn pgofs ofs allocated end_offset bh st = None"
| "get_next (Suc fuel) E L create blkbits maxblocks dn pgofs ofs allocated end_offset bh st = do {
     (leave, dn, allocated, end_offset, st) \<leftarrow>
       (if end_offset \<le> dn_ofs_in_node dn then do {
          (dn, st) \<leftarrow> sync_allocated E L allocated dn st;
          (r, dn, st) \<leftarrow> get_dnode_of_data E L (set_new_dnode (dn_inode dn) False None 0) pgofs
                          (if create then ALLOC_NODE else LOOKUP_NODE_RA) st;
          case r of Inl e \<Rightarrow> Some (Some (map_error e), dn, False, end_offset, st)
          | Inr _ \<Rightarrow>
              if dn_data_blkaddr dn = NEW_ADDR E then Some (Some (Inr ()), dn, False, end_offset, st)
              else do {
                p \<leftarrow> Option.bind (dn_node_page dn) (fs_pages st);
                Some (None, dn, False, end_of_node L (dn_inode dn) p, st) } }
        else Some (None, dn, allocated, end_offset, st));
     case leave of Some r \<Rightarrow> Some (r, bh, dn_inode dn, st)
     | None \<Rightarrow>
         if b_size bh div 2 ^ blkbits < maxblocks then do {
           p \<leftarrow> Option.bind (dn_node_page dn) (fs_pages st);
           let blkaddr = datablock_addr p (dn_ofs_in_node dn);
           (r, dn, allocated, blkaddr, st) \<leftarrow>
             (if blkaddr = NULL_ADDR E \<and> create then do {
                (r, dn, st) \<leftarrow> allocate_data_block_dn E L dn st;
                Some (case r of Inl e \<Rightarrow> (Inl e, dn, allocated, blkaddr, st)
                  | Inr _ \<Rightarrow> (Inr (), dn, True, dn_data_blkaddr dn, st)) }
              else Some (Inr (), dn, allocated, blkaddr, st));
           if r = Inr () \<and> blkaddr = b_blocknr bh + ofs
           then get_next fuel E L create blkbits maxblocks (dn\<lparr>dn_ofs_in_node := dn_ofs_in_node dn + 1\<rparr>) (pgofs + 1) (ofs + 1)
                  allocated end_offset (bh\<lparr>b_size := u64 (b_size bh + 2 ^ blkbits)\<rparr>) st
           else do {
             (dn, st) \<leftarrow> sync_allocated E L allocated dn st;
             Some (r, bh, dn_inode dn, st) } }
         else do {
           (dn, st) \<leftarrow> sync_allocated E L allocated dn st;
           Some (Inr (), bh, dn_inode dn, st) } }"

definition get_data_block ::
  "f2fs_env \<Rightarrow> node_layout \<Rightarrow> nat \<Rightarrow> inode \<Rightarrow> nat \<Rightarrow> buffer_head \<Rightarrow> bool \<Rightarrow> fs_state
    \<Rightarrow> ((errno + unit) \<times> buffer_head \<times> inode \<times> fs_state) option" where
  "get_data_block E L blkbits inode iblock bh create st =
    (let maxblocks = u32 (b_size bh div 2 ^ blkbits);
         pgofs = iblock div 2 ^ (PAGE_CACHE_SHIFT - blkbits)
     in case check_extent_cache (i_info inode) blkbits pgofs bh of
       (True, bh) \<Rightarrow> Some (Inr (), bh, inode, st)
     | (False, bh) \<Rightarrow> do {
         (r, dn, st) \<leftarrow> get_dnode_of_data E L (set_new_dnode inode False None 0) pgofs
                        (if create then ALLOC_NODE else LOOKUP_NODE_RA) st;
         case r of Inl e \<Rightarrow> Some (map_error e, bh, dn_inode dn, st)
         | Inr _ \<Rightarrow>
             if dn_data_blkaddr dn = NEW_ADDR E then Some (Inr (), bh, dn_inode dn, st)
             else do {
               (r, dn, allocated, st) \<leftarrow>
                 (if dn_data_blkaddr dn \<noteq> NULL_ADDR E then Some (Some (Inr ()), dn, False, st)
                  else if create then do {
                    (r, dn, st) \<leftarrow> allocate_data_block_dn E L dn st;
                    Some (Some r, dn, True, st) }
                  else Some (None, dn, False, st));
               case r of None \<Rightarrow> Some (Inr (), bh, dn_inode dn, st)
               | Some (Inl e) \<Rightarrow> Some (Inl e, bh, dn_inode dn, st)
               | Some (Inr _) \<Rightarrow> do {
                   p \<leftarrow> Option.bind (dn_node_page dn) (fs_pages st);
                   get_next (maxblocks + 1) E L create blkbits maxblocks (dn\<lparr>dn_ofs_in_node := dn_ofs_in_node dn + 1\<rparr>)
                     (pgofs + 1) 1 allocated (end_of_node L (dn_inode dn) p)
                     ((map_bh blkbits bh (dn_data_blkaddr dn))\<lparr>b_size := 2 ^ blkbits\<rparr>) st } } })"

section \<open>A page is written back\<close>

definition do_write_data_page ::
  "f2fs_env \<Rightarrow> node_layout \<Rightarrow> inode \<Rightarrow> nat \<Rightarrow> page_info \<Rightarrow> page_data \<Rightarrow> fs_state \<Rightarrow> ((errno + unit) \<times> inode \<times> fs_state) option" where
  "do_write_data_page E L inode index page data st = do {
     (r, dn, st) \<leftarrow> get_dnode_of_data E L (set_new_dnode inode False None 0) index LOOKUP_NODE st;
     case r of Inl e \<Rightarrow> Some (Inl e, dn_inode dn, st)
     | Inr _ \<Rightarrow>
         let old_blkaddr = dn_data_blkaddr dn
         in if old_blkaddr = NULL_ADDR E then Some (Inr (), dn_inode dn, st)
            else if old_blkaddr \<noteq> NEW_ADDR E \<and> \<not> pg_cold_data page \<and> need_inplace_update (fs_sbi st) (i_dir inode)
            then Some (Inr (), dn_inode dn, rewrite_data_page data old_blkaddr st)
            else do {
              (new_blkaddr, st) \<leftarrow> write_data_page E L data page dn st;
              (dn, st) \<leftarrow> update_extent_cache E L new_blkaddr dn st;
              Some (Inr (), dn_inode dn, st) } }"

end
