(* ===== verification/File_Write.thy ===== *)
theory File_Write
  imports Dnode File_Data Block_Store
begin

text \<open>
  Writing a data page back: the block gets the data, no other block of any file changes, and the
  invariants of the segment manager, of the node manager and of the pointers to blocks stay.
\<close>

section \<open>The place of a block\<close>

lemma leaf_node_place:
  assumes L: "layout_ok L" and k: "leaf_node L P ino fi b = Some (nid, ofs)" and tree: "tree_ok L P ino"
  obtains l p where "leaf_ok L l" "ofs < leaf_room L fi l" "b = leaf_start L fi l + ofs" "b < max_blocks L fi"
    "walk P ino (leaf_slots l) = Some nid" "P nid = Some p" "footer_is L p nid ino (leaf_nofs L l)"
proof -
  have b: "b < max_blocks L fi" using k get_node_path_beyond [of L fi b] by (cases "b < max_blocks L fi") (auto simp: leaf_node_def)
  from leaf_cases [OF L b] obtain l c where l: "leaf_ok L l" "c < leaf_room L fi l" "b = leaf_start L fi l + c" .
  have w: "ofs = c" "walk P ino (leaf_slots l) = Some nid"
    using k get_node_path_leaf [OF L l(1,2)] leaf_path_slots(1) [OF L l(1), of c] leaf_path_last(2) [of L l c]
    by (auto simp: leaf_node_def l(3) split: prod.splits)
  from tree_okD [OF tree leaf_place [OF L l(1)] w(2)] obtain p where "P nid = Some p" "footer_is L p nid ino (leaf_nofs L l)" .
  with that l b w show ?thesis by blast
qed

lemma leaf_slots_inj: "leaf_ok L l \<Longrightarrow> leaf_ok L m \<Longrightarrow> leaf_slots l = leaf_slots m \<Longrightarrow> l = m"
  by (cases l; cases m) (auto simp: leaf_slots_def leaf_ok_def)

text \<open>Two blocks never share a place.\<close>

lemma leaf_node_inj:
  assumes L: "layout_ok L" and "tree_ok L P ino" and "leaf_node L P ino fi b = Some k"
    and "tree_ok L P ino'" and "leaf_node L P ino' fi' b' = Some k"
  shows "ino' = ino" "fi' = fi \<Longrightarrow> b' = b"
proof -
  obtain nid ofs where k: "k = (nid, ofs)" by (cases k)
  from leaf_node_place [OF L assms(3) [unfolded k] assms(2)] obtain l where
    l: "leaf_ok L l" "b = leaf_start L fi l + ofs" "walk P ino (leaf_slots l) = Some nid" by metis
  from leaf_node_place [OF L assms(5) [unfolded k] assms(4)] obtain m where
    m: "leaf_ok L m" "b' = leaf_start L fi' m + ofs" "walk P ino' (leaf_slots m) = Some nid" by metis
  note u = walk_unique [OF assms(2) leaf_place [OF L l(1)] l(3) assms(4) leaf_place [OF L m(1)] m(3)]
  show "ino' = ino" by (rule u(1))
  have "m = l" using leaf_slots_inj [OF l(1) m(1)] u(2) by simp
  then show "fi' = fi \<Longrightarrow> b' = b" using l(2) m(2) by simp
qed

text \<open>The footer of the node tells the index of the block.\<close>

lemma leaf_node_index:
  assumes L: "layout_ok L" and "leaf_node L P ino fi b = Some (nid, ofs)" and "tree_ok L P ino" and p: "P nid = Some p"
  shows "u32 (start_bidx_of_node L (ofs_of_node L (nb_footer p)) fi + ofs) = b" "b < 2 ^ 31"
proof -
  from leaf_node_place [OF L assms(2,3)] obtain l where l: "leaf_ok L l" "b = leaf_start L fi l + ofs" "b < max_blocks L fi"
    "footer_is L p nid ino (leaf_nofs L l)" using p by (metis option.inject)
  show b: "b < 2 ^ 31" using l(3) layout_okD(6) [OF L, of fi] by simp
  show "u32 (start_bidx_of_node L (ofs_of_node L (nb_footer p)) fi + ofs) = b"
    using l(2,4) start_bidx_leaf [OF L l(1), of fi] b by (simp add: footer_is_def u32_id)
qed

lemma file_map_leaf: "file_map L P ino fi b = (case leaf_node L P ino fi b of None \<Rightarrow> 0 | Some k \<Rightarrow> addr_at P k)"
  by (simp add: file_map_def)

section \<open>All pointers to blocks\<close>

datatype block_ptr = Node_ptr nat | Data_ptr nat nat

primrec ptr_table :: "f2fs_env \<Rightarrow> node_layout \<Rightarrow> fs_state \<Rightarrow> block_ptr \<Rightarrow> nat" where
  "ptr_table E L st (Node_ptr nid) = (if nid < max_nid st then node_addr L st nid else NULL_ADDR E)"
| "ptr_table E L st (Data_ptr nid i) = addr_at (node_view E L st) (nid, i)"

definition volume_ok :: "f2fs_env \<Rightarrow> node_layout \<Rightarrow> fs_state \<Rightarrow> bool" where
  "volume_ok E L st \<longleftrightarrow> kernel_ok E \<and> fs_ok E (fs_sbi st) {} \<and> store_ok E L st
     \<and> ptrs_ok (hole_addr E) (live_addrs (fs_sbi st)) (ptr_table E L st) \<and> 1 < main_addr (fs_sbi st) 0 0"

lemma volume_okD:
  assumes "volume_ok E L st"
  shows "kernel_ok E" "fs_ok E (fs_sbi st) {}" "store_ok E L st" "addr_consts E"
    "ptrs_ok (hole_addr E) (live_addrs (fs_sbi st)) (ptr_table E L st)" "NULL_ADDR E = 0" "hole_addr E 0"
    "1 < main_addr (fs_sbi st) 0 0"
  using assms fs_okD(9) [of E "fs_sbi st" "{}"] by (auto simp: volume_ok_def addr_consts_def hole_addr_def)

lemma counts_only_fields:
  assumes "counts_only a b"
  shows "SM_I b = SM_I a" "sbi_log_blocks_per_seg b = sbi_log_blocks_per_seg a" "sbi_blocks_per_seg b = sbi_blocks_per_seg a"
    "sbi_segs_per_sec b = sbi_segs_per_sec a" "sbi_secs_per_zone b = sbi_secs_per_zone a"
    "sbi_total_sections b = sbi_total_sections a" "sbi_active_logs b = sbi_active_logs a" "sbi_por_doing b = sbi_por_doing a"
proof -
  obtain x y z w where b: "b = a\<lparr>sbi_alloc_valid_block_count := x, sbi_total_valid_node_count := y,
      sbi_total_valid_block_count := z, sbi_total_valid_inode_count := w\<rparr>"
    using assms unfolding counts_only_def by (cases a; cases b) simp
  show "SM_I b = SM_I a" "sbi_log_blocks_per_seg b = sbi_log_blocks_per_seg a" "sbi_blocks_per_seg b = sbi_blocks_per_seg a"
    "sbi_segs_per_sec b = sbi_segs_per_sec a" "sbi_secs_per_zone b = sbi_secs_per_zone a"
    "sbi_total_sections b = sbi_total_sections a" "sbi_active_logs b = sbi_active_logs a" "sbi_por_doing b = sbi_por_doing a"
    unfolding b by (simp_all add: SM_I_def)
qed

lemma counts_only_fs:
  assumes "counts_only a b"
  shows "fs_ok E b X = fs_ok E a X" "live_addrs b = live_addrs a" "free_section b = free_section a"
    "sbi_active_logs b = sbi_active_logs a" "main_addr b = main_addr a"
proof -
  note F = counts_only_fields [OF assms]
  have A: "SIT_I b = SIT_I a" "FREE_I b = FREE_I a" "DIRTY_I b = DIRTY_I a" "CURSEG_I b = CURSEG_I a"
    using F(1) by (simp_all add: SIT_I_def FREE_I_def DIRTY_I_def CURSEG_I_def fun_eq_iff)
  have T: "TOTAL_SEGS b = TOTAL_SEGS a" "TOTAL_SECS b = TOTAL_SECS a" by (simp_all add: TOTAL_SEGS_def TOTAL_SECS_def F)
  have g: "get_seg_entry b = get_seg_entry a" "seg_inuse b = seg_inuse a" "main_addr b = main_addr a"
    by (simp_all add: get_seg_entry_def seg_inuse_def main_addr_def A F fun_eq_iff)
  have v: "vblocks b = vblocks a" "live b = live a" by (simp_all add: vblocks_def live_def g fun_eq_iff)
  have "sit_ok E b = sit_ok E a" by (simp add: sit_ok_def geometry_def sec_segs_def A T F g v)
  moreover have "free_ok b = free_ok a" by (rule free_ok_cong) (simp_all add: A T F)
  moreover have "dirty_ok b = dirty_ok a" by (simp add: dirty_ok_def types_ok_def A T g)
  moreover have "logs_ok b X = logs_ok a X" by (simp add: logs_ok_def log_seg_def log_space_def A T F g v)
  moreover have "free_empty b = free_empty a" by (simp add: free_empty_def T g v)
  ultimately show "fs_ok E b X = fs_ok E a X" by (simp add: fs_ok_def F)
  show "live_addrs b = live_addrs a" by (simp add: live_addrs_def T F g v)
  show "free_section b = free_section a" by (simp add: free_section_def A T fun_eq_iff)
  show "sbi_active_logs b = sbi_active_logs a" by (fact F)
  show "main_addr b = main_addr a" by (fact g)
qed

lemma same_layout_geometry:
  assumes "fs_ok E a X" and "fs_ok E b Y" and "same_layout E a b"
  shows "same_geometry a b"
proof -
  have "(2::nat) ^ sbi_log_blocks_per_seg b = 2 ^ sbi_log_blocks_per_seg a"
    using geometryD(1) [OF fs_okD(8) [OF assms(1)]] geometryD(1) [OF fs_okD(8) [OF assms(2)]] assms(3)
    by (simp add: same_layout_def)
  then show ?thesis using assms(3) by (simp add: same_geometry_def same_layout_def)
qed

text \<open>Pointers that are holes may become other holes.\<close>

lemma ptrs_ok_holes:
  assumes "ptrs_ok hole used tab" and "\<And>p. tab' p = tab p \<or> hole (tab p) \<and> hole (tab' p)"
  shows "ptrs_ok hole used tab'"
proof -
  have "hole (tab' p) \<or> p = q" if "tab' p = tab' q" for p q
    using assms(2) [of p] assms(2) [of q] ptrs_okD(2) [OF assms(1), of p q] that by metis
  moreover have "hole (tab' p) \<or> tab' p \<in> used" for p
    using assms(2) [of p] ptrs_okD(1) [OF assms(1), of p] by metis
  ultimately show ?thesis unfolding ptrs_ok_def by blast
qed

lemma stepped_volume_ok:
  assumes v: "volume_ok E L st" and s: "stepped E L st st'"
  shows "volume_ok E L st'"
proof -
  note V = volume_okD [OF v] and S = steppedD [OF s]
  note C = counts_only_fs [OF S(3)]
  have "ptr_table E L st' p = ptr_table E L st p \<or> hole_addr E (ptr_table E L st p) \<and> hole_addr E (ptr_table E L st' p)" for p
  proof (cases p)
    case (Node_ptr nid)
    then show ?thesis using S(7) [of nid] by (auto simp: S(5) hole_addr_def)
  next
    case (Data_ptr nid i)
    show ?thesis
    proof (cases "node_view E L st nid")
      case (Some q)
      then show ?thesis using grownD(4) [OF S(2) Some] by (auto simp: Data_ptr addr_at_def)
    next
      case None
      then show ?thesis using grownD(5) [OF S(2) None] by (auto simp: Data_ptr addr_at_def split: option.splits)
    qed
  qed
  from ptrs_ok_holes [OF V(5) this] show ?thesis using V(1,2,8) S(1) C by (simp add: volume_ok_def)
qed

section \<open>A block gets another address\<close>

definition set_addr :: "(nat \<Rightarrow> node_block option) \<Rightarrow> nat \<Rightarrow> nat \<Rightarrow> nat \<Rightarrow> nat \<Rightarrow> node_block option" where
  "set_addr P nid ofs a = P(nid := map_option (\<lambda>p. p\<lparr>nb_addr := (nb_addr p)(ofs := a)\<rparr>) (P nid))"

definition readdressed :: "f2fs_env \<Rightarrow> node_layout \<Rightarrow> fs_state \<Rightarrow> fs_state \<Rightarrow> nat \<Rightarrow> nat \<Rightarrow> nat \<Rightarrow> bool" where
  "readdressed E L st st' nid ofs a \<longleftrightarrow> same_tree L (set_addr (node_view E L st) nid ofs a) (node_view E L st')
     \<and> fs_sbi st' = fs_sbi st \<and> fs_disk st' = fs_disk st \<and> fs_nat st' = fs_nat st \<and> (\<forall>n. pinned E L st n \<longrightarrow> pinned E L st' n)"

lemma readdressedD:
  assumes "readdressed E L st st' nid ofs a"
  shows "same_tree L (set_addr (node_view E L st) nid ofs a) (node_view E L st')" "fs_sbi st' = fs_sbi st" "fs_disk st' = fs_disk st"
    "fs_nat st' = fs_nat st" "pinned E L st n \<Longrightarrow> pinned E L st' n" "store_ok E L st' = store_ok E L st"
  using assms by (simp_all add: readdressed_def store_ok_def)

lemma same_tree_refl [simp]: "same_tree L P P"
  by (simp add: same_tree_def)

lemma same_tree_trans: "same_tree L P Q \<Longrightarrow> same_tree L Q R \<Longrightarrow> same_tree L P R"
  by (simp add: same_tree_def)

lemma same_tree_walk:
  assumes "same_tree L P P'"
  shows "walk P' = walk P" "tree_ok L P' = tree_ok L P" "addr_at P' = addr_at P" "leaf_node L P' = leaf_node L P"
    "file_map L P' = file_map L P"
proof -
  note sk = same_tree_skeleton [OF assms]
  show w: "walk P' = walk P" using walk_skeleton [OF sk] by (simp add: fun_eq_iff)
  show "tree_ok L P' = tree_ok L P" using tree_ok_skeleton [OF sk] by (simp add: fun_eq_iff)
  have eq: "map_option (\<lambda>p. (skeleton L p, nb_addr p)) (P' n) = map_option (\<lambda>p. (skeleton L p, nb_addr p)) (P n)" for n
    using assms by (simp add: same_tree_def)
  show a: "addr_at P' = addr_at P"
  proof
    fix k
    show "addr_at P' k = addr_at P k" using eq [of "fst k"] by (auto simp: addr_at_def split: option.splits)
  qed
  show l: "leaf_node L P' = leaf_node L P" by (intro ext) (simp only: leaf_node_def w)
  show "file_map L P' = file_map L P" by (intro ext) (simp only: file_map_def l a)
qed

lemma set_addr_skeleton: "map_option (skeleton L) (set_addr P nid ofs a n) = map_option (skeleton L) (P n)"
  by (cases "P n"; cases "n = nid") (simp_all add: set_addr_def skeleton_def)

lemma set_addr_walk:
  "walk (set_addr P nid ofs a) = walk P" "tree_ok L (set_addr P nid ofs a) = tree_ok L P"
  "leaf_node L (set_addr P nid ofs a) = leaf_node L P"
proof -
  show w: "walk (set_addr P nid ofs a) = walk P" using walk_skeleton [OF set_addr_skeleton] by (simp add: fun_eq_iff)
  show "tree_ok L (set_addr P nid ofs a) = tree_ok L P" using tree_ok_skeleton [OF set_addr_skeleton] by (simp add: fun_eq_iff)
  show "leaf_node L (set_addr P nid ofs a) = leaf_node L P" by (intro ext) (simp only: leaf_node_def w)
qed

lemma set_addr_at: "P nid \<noteq> None \<Longrightarrow> addr_at (set_addr P nid ofs a) = (addr_at P)((nid, ofs) := a)"
  by (auto simp: set_addr_def addr_at_def fun_eq_iff split: option.split)

lemma readdressed_map:
  assumes r: "readdressed E L st st' nid ofs a" and n: "node_view E L st nid \<noteq> None"
  shows "tree_ok L (node_view E L st') = tree_ok L (node_view E L st)"
    "leaf_node L (node_view E L st') = leaf_node L (node_view E L st)"
    "addr_at (node_view E L st') = (addr_at (node_view E L st))((nid, ofs) := a)"
    "file_map L (node_view E L st') ino fi b = (if leaf_node L (node_view E L st) ino fi b = Some (nid, ofs) then a
       else file_map L (node_view E L st) ino fi b)"
    "ptr_table E L st' = (ptr_table E L st)(Data_ptr nid ofs := a)"
proof -
  note W = same_tree_walk [OF readdressedD(1) [OF r]]
  show "tree_ok L (node_view E L st') = tree_ok L (node_view E L st)" by (simp add: W set_addr_walk)
  show l: "leaf_node L (node_view E L st') = leaf_node L (node_view E L st)" by (simp add: W set_addr_walk)
  show a: "addr_at (node_view E L st') = (addr_at (node_view E L st))((nid, ofs) := a)" by (simp only: W set_addr_at [of "node_view E L st", OF n])
  show "file_map L (node_view E L st') ino fi b = (if leaf_node L (node_view E L st) ino fi b = Some (nid, ofs) then a
       else file_map L (node_view E L st) ino fi b)"
    by (auto simp: file_map_def l a split: option.split)
  show "ptr_table E L st' = (ptr_table E L st)(Data_ptr nid ofs := a)"
  proof
    show "ptr_table E L st' p = ((ptr_table E L st)(Data_ptr nid ofs := a)) p" for p
      by (cases p) (simp_all add: a readdressedD(2,4) [OF r])
  qed
qed

lemma set_data_blkaddr_ok:
  assumes dn: "dn_node_page dn = Some nid" and p: "pinned E L st nid"
  shows "\<exists>st'. set_data_blkaddr dn a st = Some st' \<and> readdressed E L st st' nid (dn_ofs_in_node dn) a"
proof -
  obtain q where q: "fs_pages st nid = Some q" "node_view E L st nid = Some q" using p by (auto simp: pinned_def)
  let ?q = "q\<lparr>nb_addr := (nb_addr q)(dn_ofs_in_node dn := a)\<rparr>"
  let ?st = "st\<lparr>fs_pages := (fs_pages st)(nid \<mapsto> ?q)\<rparr>"
  have v: "node_view E L ?st = (node_view E L st)(nid \<mapsto> ?q)"
  proof
    show "node_view E L ?st k = ((node_view E L st)(nid \<mapsto> ?q)) k" for k
      using q by (cases "k = nid") (auto simp: node_view_def cong: option.case_cong split: if_splits)
  qed
  have "pinned E L ?st k" if "pinned E L st k" for k using that by (cases "k = nid") (simp_all add: pinned_def v)
  then have "readdressed E L st ?st nid (dn_ofs_in_node dn) a" by (simp add: readdressed_def v set_addr_def q)
  then show ?thesis using dn q by (simp add: set_data_blkaddr_def)
qed

section \<open>The inode's block follows\<close>

text \<open>What of an inode decides about paths stays; the extent and its flag may change.\<close>

definition same_file :: "inode \<Rightarrow> inode \<Rightarrow> bool" where
  "same_file i j \<longleftrightarrow> i_ino j = i_ino i \<and> i_dir j = i_dir i \<and> i_size j = i_size i \<and> fi_i_xattr_nid (i_info j) = fi_i_xattr_nid (i_info i)
     \<and> (\<forall>f. f \<noteq> FI_DIRTY_INODE \<longrightarrow> f \<noteq> FI_NO_EXTENT \<longrightarrow> is_inode_flag_set (i_info j) f = is_inode_flag_set (i_info i) f)"

lemma same_file_refl [simp]: "same_file i i"
  by (simp add: same_file_def)

lemma same_file_trans: "same_file i j \<Longrightarrow> same_file j k \<Longrightarrow> same_file i k"
  by (simp add: same_file_def)

lemma same_inode_file: "same_inode i j \<Longrightarrow> same_file i j"
  by (simp add: same_inode_def same_file_def)

lemma same_file_clean [simp]: "same_file i (clean_inode j) = same_file i j" "same_file i (j\<lparr>i_blocks := b\<rparr>) = same_file i j"
  by (auto simp: same_file_def clean_inode_def clear_inode_flag_def is_inode_flag_set_def)

lemma same_file_path:
  assumes "same_file i j"
  shows "i_ino j = i_ino i" "get_node_path L (i_info j) = get_node_path L (i_info i)"
    "file_map L P ino (i_info j) = file_map L P ino (i_info i)" "leaf_node L P ino (i_info j) = leaf_node L P ino (i_info i)"
proof -
  show "i_ino j = i_ino i" using assms by (simp add: same_file_def)
  have a: "addrs_per_inode L (i_info j) = addrs_per_inode L (i_info i)"
    using assms by (simp add: addrs_per_inode_def same_file_def FI_DIRTY_INODE_def FI_INLINE_XATTR_def FI_NO_EXTENT_def)
  then show g: "get_node_path L (i_info j) = get_node_path L (i_info i)" by (simp add: get_node_path_def fun_eq_iff)
  show l: "leaf_node L P ino (i_info j) = leaf_node L P ino (i_info i)" by (simp add: leaf_node_def g fun_eq_iff)
  show "file_map L P ino (i_info j) = file_map L P ino (i_info i)" by (simp add: file_map_def l fun_eq_iff)
qed

lemma put_inode_ok:
  assumes L: "layout_ok L" and p: "pinned E L st ino"
  shows "same_tree L (node_view E L st) (node_view E L (put_inode L ino i st))"
    "pinned E L st n \<Longrightarrow> pinned E L (put_inode L ino i st) n"
    "fs_sbi (put_inode L ino i st) = fs_sbi st" "fs_disk (put_inode L ino i st) = fs_disk st" "fs_nat (put_inode L ino i st) = fs_nat st"
proof -
  obtain q where q: "fs_pages st ino = Some q" "node_view E L st ino = Some q" using p by (auto simp: pinned_def)
  have v: "node_view E L (put_inode L ino i st) = (node_view E L st)(ino \<mapsto> update_inode L i q)"
  proof
    show "node_view E L (put_inode L ino i st) k = ((node_view E L st)(ino \<mapsto> update_inode L i q)) k" for k
      using q by (cases "k = ino") (auto simp: node_view_def put_inode_def cong: option.case_cong split: if_splits)
  qed
  then show "same_tree L (node_view E L st) (node_view E L (put_inode L ino i st))"
    using q(2) update_inode_skeleton [OF L, of i q] by (simp add: same_tree_def)
  show "pinned E L st n \<Longrightarrow> pinned E L (put_inode L ino i st) n"
    using q by (cases "n = ino") (simp_all add: pinned_def v, simp_all add: put_inode_def)
qed (simp_all add: put_inode_def)

lemma sync_inode_page_put:
  assumes "dn_node_page dn = Some nid" and "fs_pages st nid = Some p" and "ft_nid (nb_footer p) = nid"
    and "ft_ino (nb_footer p) = i_ino (dn_inode dn)" and "dn_inode_page dn"
  shows "sync_inode_page E L dn st =
    Some (dn\<lparr>dn_inode := clean_inode (dn_inode dn)\<rparr>, put_inode L (i_ino (dn_inode dn)) (dn_inode dn) st)"
  using assms by (auto simp: sync_inode_page_def RAW_IS_INODE_def Let_def)

lemma readdressed_put:
  assumes L: "layout_ok L" and r: "readdressed E L st st' nid ofs a" and p: "pinned E L st ino"
  shows "readdressed E L st (put_inode L ino i st') nid ofs a"
proof -
  note R = readdressedD [OF r]
  note P = put_inode_ok [OF L R(5) [OF p], where i = i]
  show ?thesis unfolding readdressed_def using same_tree_trans [OF R(1) P(1)] R P by simp
qed

text \<open>The place in a node that the caller of \<open>get_dnode_of_data\<close> holds.\<close>

definition dnode_held :: "f2fs_env \<Rightarrow> node_layout \<Rightarrow> fs_state \<Rightarrow> dnode_of_data \<Rightarrow> nat \<Rightarrow> bool" where
  "dnode_held E L st dn b \<longleftrightarrow> store_ok E L st \<and> tree_ok L (node_view E L st) (i_ino (dn_inode dn))
     \<and> dn_inode_page dn \<and> pinned E L st (i_ino (dn_inode dn)) \<and> dn_node_page dn = Some (dn_nid dn) \<and> pinned E L st (dn_nid dn)
     \<and> leaf_node L (node_view E L st) (i_ino (dn_inode dn)) (i_info (dn_inode dn)) b = Some (dn_nid dn, dn_ofs_in_node dn)"

lemma dnode_heldD:
  assumes L: "layout_ok L" and "dnode_held E L st dn b"
  obtains p where "fs_pages st (dn_nid dn) = Some p" "node_view E L st (dn_nid dn) = Some p" "ft_nid (nb_footer p) = dn_nid dn"
    "ft_ino (nb_footer p) = i_ino (dn_inode dn)"
    "u32 (start_bidx_of_node L (ofs_of_node L (nb_footer p)) (i_info (dn_inode dn)) + dn_ofs_in_node dn) = b" "b < 2 ^ 31"
proof -
  let ?P = "node_view E L st" and ?ino = "i_ino (dn_inode dn)"
  have h: "tree_ok L ?P ?ino" "leaf_node L ?P ?ino (i_info (dn_inode dn)) b = Some (dn_nid dn, dn_ofs_in_node dn)" "pinned E L st (dn_nid dn)"
    using assms(2) by (simp_all add: dnode_held_def)
  from h(3) obtain p where p: "fs_pages st (dn_nid dn) = Some p" "?P (dn_nid dn) = Some p" by (auto simp: pinned_def)
  from leaf_node_place [OF L h(2,1)] obtain l where "footer_is L p (dn_nid dn) ?ino (leaf_nofs L l)" using p(2) by (metis option.inject)
  then show ?thesis using that [OF p] leaf_node_index [OF L h(2,1) p(2)] by (simp add: footer_is_def)
qed

section \<open>\<open>update_extent_cache\<close>\<close>

text \<open>Only the extent and its flag change.\<close>

lemma update_extent_form:
  "\<exists>e n. snd (update_extent E fi fofs a) = (if n then set_inode_flag (fi\<lparr>fi_ext := e\<rparr>) FI_NO_EXTENT else fi\<lparr>fi_ext := e\<rparr>)"
proof -
  define R where "R x \<longleftrightarrow> (\<exists>e n. x = (if n then set_inode_flag (fi\<lparr>fi_ext := e\<rparr>) FI_NO_EXTENT else fi\<lparr>fi_ext := e\<rparr>))" for x
  have plain: "R (fi\<lparr>fi_ext := e\<rparr>)" for e unfolding R_def by (intro exI [of _ e] exI [of _ False]) simp
  have flag: "R (set_inode_flag (fi\<lparr>fi_ext := e\<rparr>) FI_NO_EXTENT)" for e unfolding R_def by (intro exI [of _ e] exI [of _ True]) simp
  have pick: "R (snd (if c then x else y))" if "R (snd x)" "R (snd y)" for c and x y :: "bool \<times> _" using that by simp
  have pick2: "R (if c then x else y)" if "R x" "R y" for c x y using that by simp
  have "R (snd (update_extent E fi fofs a))"
    unfolding update_extent_def
    by (rule plain flag pick pick2 | simp only: snd_conv Let_def split_beta)+
  then show ?thesis by (simp add: R_def)
qed

lemma update_extent_flags:
  "fi_i_xattr_nid (snd (update_extent E fi fofs a)) = fi_i_xattr_nid fi"
  "f \<noteq> FI_NO_EXTENT \<Longrightarrow> is_inode_flag_set (snd (update_extent E fi fofs a)) f = is_inode_flag_set fi f"
  using update_extent_form [of E fi fofs a] by (auto simp: set_inode_flag_def is_inode_flag_set_def split: if_splits)

lemma same_file_info:
  assumes "fi_i_xattr_nid fi = fi_i_xattr_nid (i_info i)"
    and "\<And>f. f \<noteq> FI_NO_EXTENT \<Longrightarrow> is_inode_flag_set fi f = is_inode_flag_set (i_info i) f"
  shows "same_file i (i\<lparr>i_info := fi\<rparr>)"
  using assms by (simp add: same_file_def)

lemma extent_ok_clean: "extent_ok (i_info (clean_inode i)) tab = extent_ok (i_info i) tab"
  by (simp add: extent_ok_def clean_inode_def clear_inode_flag_def is_inode_flag_set_def FI_DIRTY_INODE_def FI_NO_EXTENT_def Let_def)

lemma update_extent_cache_ok:
  assumes L: "layout_ok L" and E: "addr_consts E" and h: "dnode_held E L st dn b" and a: "a \<noteq> NEW_ADDR E"
  shows "\<exists>dn' st'. update_extent_cache E L a dn st = Some (dn', st') \<and> readdressed E L st st' (dn_nid dn) (dn_ofs_in_node dn) a
    \<and> dn' = dn\<lparr>dn_inode := dn_inode dn'\<rparr> \<and> same_file (dn_inode dn) (dn_inode dn')
    \<and> (is_inode_flag_set (i_info (dn_inode dn)) FI_NO_EXTENT \<longrightarrow> dn_inode dn' = dn_inode dn)
    \<and> (\<forall>tab. extent_ok (i_info (dn_inode dn)) tab \<longrightarrow> a = 0 \<or> block_addr a \<longrightarrow> extent_ok (i_info (dn_inode dn')) (tab(b := a)))"
proof -
  let ?i = "dn_inode dn" and ?nid = "dn_nid dn" and ?ofs = "dn_ofs_in_node dn"
  from dnode_heldD [OF L h] obtain p where p: "fs_pages st ?nid = Some p" "node_view E L st ?nid = Some p"
    "ft_nid (nb_footer p) = ?nid" "ft_ino (nb_footer p) = i_ino ?i"
    "u32 (start_bidx_of_node L (ofs_of_node L (nb_footer p)) (i_info ?i) + ?ofs) = b" "b < 2 ^ 31" .
  have H: "dn_inode_page dn" "pinned E L st (i_ino ?i)" "dn_node_page dn = Some ?nid" "pinned E L st ?nid"
    using h by (simp_all add: dnode_held_def)
  from set_data_blkaddr_ok [OF H(3,4)] obtain st1 where
    st1: "set_data_blkaddr dn a st = Some st1" "readdressed E L st st1 ?nid ?ofs a" by blast
  show ?thesis
  proof (cases "is_inode_flag_set (i_info ?i) FI_NO_EXTENT")
    case True
    have "extent_ok (i_info ?i) (tab(b := a))" if "extent_ok (i_info ?i) tab" for tab
      by (rule extent_ok_outside [OF that]) (use extent_okD(4) [OF that] True in auto)
    then show ?thesis using True a st1 H(3) p(1) by (auto simp: update_extent_cache_def f2fs_bug_on_def)
  next
    case False
    obtain need fi where u: "update_extent E (i_info ?i) b a = (need, fi)" by fastforce
    let ?j = "?i\<lparr>i_info := fi\<rparr>"
    have j: "same_file ?i ?j"
      by (rule same_file_info) (use update_extent_flags [where E = E and fi = "i_info ?i" and fofs = b and a = a] u in auto)
    have x: "\<forall>tab. extent_ok (i_info ?i) tab \<longrightarrow> a = 0 \<or> block_addr a \<longrightarrow> extent_ok fi (tab(b := a))"
      using update_extent_ok [OF E _ p(6) _ False] u by (metis snd_conv)
    have "update_extent_cache E L a dn st =
      (if need then sync_inode_page E L (dn\<lparr>dn_inode := ?j\<rparr>) st1 else Some (dn\<lparr>dn_inode := ?j\<rparr>, st1))"
      using False a st1(1) H(3) p(1,5) u by (simp add: update_extent_cache_def f2fs_bug_on_def)
    moreover obtain p1 where "fs_pages st1 ?nid = Some p1" "ft_nid (nb_footer p1) = ?nid" "ft_ino (nb_footer p1) = i_ino ?i"
      using st1(1) p(1,3,4) H(3) by (auto simp: set_data_blkaddr_def)
    ultimately have "update_extent_cache E L a dn st =
      (if need then Some (dn\<lparr>dn_inode := clean_inode ?j\<rparr>, put_inode L (i_ino ?i) ?j st1) else Some (dn\<lparr>dn_inode := ?j\<rparr>, st1))"
      using sync_inode_page_put [of "dn\<lparr>dn_inode := ?j\<rparr>" ?nid st1 p1] H by simp
    then show ?thesis
      using readdressed_put [OF L st1(2) H(2), where i = ?j] st1(2) j False
      by (cases need) (simp_all add: extent_ok_clean x del: imp_disjL)
  qed
qed

section \<open>A page goes to a new block\<close>

lemma get_segment_type_ok:
  assumes "sbi_active_logs sbi \<in> {2, 4, NR_CURSEG_TYPE}"
  shows "\<exists>t<NR_CURSEG_TYPE. get_segment_type E sbi page ty = Some t"
  using assms
  by (auto simp: get_segment_type_def get_segment_type_2_def get_segment_type_4_def get_segment_type_6_def f2fs_bug_on_def
      NR_CURSEG_TYPE_def curseg_types)

lemma ptr_table_view:
  assumes "node_view E L st' = node_view E L st" and "max_nid st' = max_nid st" and "\<And>n. node_addr L st' n = node_addr L st n"
  shows "ptr_table E L st' = ptr_table E L st"
proof
  show "ptr_table E L st' p = ptr_table E L st p" for p using assms by (cases p) simp_all
qed

lemma live_block_addr:
  assumes ok: "fs_ok E sbi X" and a: "a \<in> live_addrs sbi" and s: "1 < main_addr sbi 0 0"
  shows "block_addr a"
proof -
  from a obtain s' b where m: "a = main_addr sbi s' b" "s' < TOTAL_SEGS sbi" "b < sbi_blocks_per_seg sbi" by (auto simp: live_addrs_def)
  have "main_addr sbi 0 0 \<le> main_addr sbi s' b" by (simp add: main_addr_def add_mult_distrib)
  moreover have "main_addr sbi s' b < 2 ^ 32 - 1" by (rule main_addr_less(1) [OF fs_okD(8) [OF ok] m(2,3)])
  ultimately show ?thesis using s m(1) by (simp add: block_addr_def)
qed

text \<open>The device changes at one address that no node is read from.\<close>

lemma submit_view:
  assumes "same_geometry (fs_sbi st) sbi" and "\<And>nid. nid < max_nid st \<Longrightarrow> node_addr L st nid \<noteq> NULL_ADDR E \<Longrightarrow> node_addr L st nid \<noteq> a"
  shows "node_view E L (st\<lparr>fs_sbi := sbi, fs_disk := (fs_disk st)(a \<mapsto> b)\<rparr>) = node_view E L st"
    "store_ok E L (st\<lparr>fs_sbi := sbi, fs_disk := (fs_disk st)(a \<mapsto> b)\<rparr>) = store_ok E L st"
    "pinned E L (st\<lparr>fs_sbi := sbi, fs_disk := (fs_disk st)(a \<mapsto> b)\<rparr>) = pinned E L st"
proof -
  note G = same_geometry_table [OF assms(1), where L = L]
  show v: "node_view E L (st\<lparr>fs_sbi := sbi, fs_disk := (fs_disk st)(a \<mapsto> b)\<rparr>) = node_view E L st"
  proof
    show "node_view E L (st\<lparr>fs_sbi := sbi, fs_disk := (fs_disk st)(a \<mapsto> b)\<rparr>) n = node_view E L st n" for n
      using assms(2) [of n] by (simp add: node_view_def G cong: option.case_cong)
  qed
  show "store_ok E L (st\<lparr>fs_sbi := sbi, fs_disk := (fs_disk st)(a \<mapsto> b)\<rparr>) = store_ok E L st" by (simp add: store_ok_def G)
  show "pinned E L (st\<lparr>fs_sbi := sbi, fs_disk := (fs_disk st)(a \<mapsto> b)\<rparr>) = pinned E L st" by (simp add: pinned_def v fun_eq_iff)
qed

lemma do_write_page_ok:
  assumes v: "volume_ok E L st" and free: "\<exists>s. free_section (fs_sbi st) s" and logs: "sbi_active_logs (fs_sbi st) \<in> {2, 4, NR_CURSEG_TYPE}"
  shows "\<exists>new b' sbi. do_write_page E cp_ver b page ty (ptr_table E L st k) summ st
        = Some (new, b', st\<lparr>fs_sbi := sbi, fs_disk := (fs_disk st)(new \<mapsto> b')\<rparr>)
    \<and> fs_ok E sbi {} \<and> same_geometry (fs_sbi st) sbi \<and> new \<notin> live_addrs (fs_sbi st) \<and> \<not> hole_addr E new
    \<and> ptrs_ok (hole_addr E) (live_addrs sbi) ((ptr_table E L st)(k := new)) \<and> 1 < main_addr sbi 0 0 \<and> block_addr new
    \<and> (\<exists>footer. b' = stamp_page cp_ver footer b)"
proof -
  note V = volume_okD [OF v]
  let ?old = "ptr_table E L st k"
  obtain s where s: "free_section (fs_sbi st) s" using free by blast
  from get_segment_type_ok [OF logs, of E page ty] obtain t where t: "t < NR_CURSEG_TYPE" "get_segment_type E (fs_sbi st) page ty = Some t" by blast
  have old: "old_addr E (fs_sbi st) ?old" using ptrs_okD(1) [OF V(5), of k] by (auto simp: old_addr_def hole_addr_def)
  from allocate_data_block_ok [OF V(1,2) t(1) s old, of True summ] obtain new footer sbi where
    a: "allocate_data_block E (fs_sbi st) True ?old summ t = Some (new, footer, sbi)" "fs_ok E sbi {}" "same_layout E (fs_sbi st) sbi"
      "new \<notin> live_addrs (fs_sbi st)" "\<not> hole_addr E new" "live_addrs sbi = insert new (live_addrs (fs_sbi st)) - {?old}"
    by (auto simp: hole_addr_def)
  have r: "data_request E (fs_sbi st) ?old (True, summ, t) = Some (new, sbi)" by (simp add: data_request_def a(1))
  have "case (True, summ, t) of (has_page, summ, t) \<Rightarrow> t < NR_CURSEG_TYPE" using t(1) by simp
  from vol.alloc_ptrs [OF conjI [OF V(1,2)] free this V(5), of k] r
  have "ptrs_ok (hole_addr E) (live_addrs sbi) ((ptr_table E L st)(k := new))" by (elim exE conjE) simp
  moreover have m: "1 < main_addr sbi 0 0" using V(8) a(3) by (simp add: same_layout_def)
  moreover have "new \<noteq> ?old" using a(4,5) ptrs_okD(1) [OF V(5), of k] by metis
  then have "new \<in> live_addrs sbi" using a(6) by simp
  then have "block_addr new" by (rule live_block_addr [OF a(2) _ m])
  moreover have "same_geometry (fs_sbi st) sbi" by (rule same_layout_geometry [OF V(2) a(2,3)])
  moreover have "do_write_page E cp_ver b page ty ?old summ st
        = Some (new, stamp_page cp_ver footer b, st\<lparr>fs_sbi := sbi, fs_disk := (fs_disk st)(new \<mapsto> stamp_page cp_ver footer b)\<rparr>)"
    by (simp add: do_write_page_def t(2) a(1) f2fs_submit_page_mbio_def Let_def)
  ultimately show ?thesis using a(2,4,5) by blast
qed

section \<open>A block of a file is written\<close>

text \<open>What a reader of a block finds.\<close>

definition block_contents :: "f2fs_env \<Rightarrow> node_layout \<Rightarrow> fs_state \<Rightarrow> nat \<Rightarrow> f2fs_inode_info \<Rightarrow> nat \<Rightarrow> disk_block option" where
  "block_contents E L st ino fi b =
    (let a = file_map L (node_view E L st) ino fi b in if hole_addr E a then None else fs_disk st a)"

lemma file_map_ptr: "leaf_node L (node_view E L st) ino fi b = Some (nid, i) \<Longrightarrow> file_map L (node_view E L st) ino fi b = ptr_table E L st (Data_ptr nid i)"
  by (simp add: file_map_def)

lemma node_not_data:
  assumes "volume_ok E L st" and "\<not> hole_addr E (ptr_table E L st (Data_ptr m i))" and "nid < max_nid st"
  shows "node_addr L st nid \<noteq> ptr_table E L st (Data_ptr m i)"
  using ptrs_okD(2) [OF volume_okD(5) [OF assms(1)], of "Data_ptr m i" "Node_ptr nid"] assms(2,3) by auto

lemma write_data_page_ok:
  assumes L: "layout_ok L" and v: "volume_ok E L st" and free: "\<exists>s. free_section (fs_sbi st) s"
    and logs: "sbi_active_logs (fs_sbi st) \<in> {2, 4, NR_CURSEG_TYPE}" and h: "dnode_held E L st dn b"
    and a: "dn_data_blkaddr dn = ptr_table E L st (Data_ptr (dn_nid dn) (dn_ofs_in_node dn))" "dn_data_blkaddr dn \<noteq> NULL_ADDR E"
  shows "\<exists>new st'. write_data_page E L data page dn st = Some (new, st') \<and> dnode_held E L st' dn b
    \<and> node_view E L st' = node_view E L st \<and> ptr_table E L st' = ptr_table E L st \<and> \<not> hole_addr E new \<and> block_addr new
    \<and> fs_disk st' = (fs_disk st)(new \<mapsto> Data_block data) \<and> fs_ok E (fs_sbi st') {} \<and> 1 < main_addr (fs_sbi st') 0 0
    \<and> ptrs_ok (hole_addr E) (live_addrs (fs_sbi st')) ((ptr_table E L st)(Data_ptr (dn_nid dn) (dn_ofs_in_node dn) := new))"
proof -
  note V = volume_okD [OF v]
  let ?k = "Data_ptr (dn_nid dn) (dn_ofs_in_node dn)"
  have H: "store_ok E L st" "pinned E L st (dn_nid dn)" using h by (simp_all add: dnode_held_def)
  then have nid: "dn_nid dn < max_nid st" using view_less by (auto simp: pinned_def)
  obtain ni nt where g: "get_node_info L (fs_sbi st) (fs_nat st) (dn_nid dn) = (ni, nt)" by fastforce
  let ?st1 = "st\<lparr>fs_nat := nt\<rparr>"
  note R = get_node_info_reads(2) [OF V(3) nid g] and S = reads_stepped [OF get_node_info_reads(2) [OF V(3) nid g]]
  note D = readsD [OF R]
  have v1: "volume_ok E L ?st1" by (rule stepped_volume_ok [OF v S])
  have tab: "ptr_table E L ?st1 = ptr_table E L st" by (rule ptr_table_view [OF D(2,6) fun_cong [OF D(5)]])
  from do_write_page_ok [OF v1, where k = ?k and cp_ver = 0 and b = "Data_block data" and page = page and ty = DATA
      and summ = "set_summary (dn_nid dn) (dn_ofs_in_node dn) (ni_version ni)"] free logs
  obtain new b' sbi footer where w:
    "do_write_page E 0 (Data_block data) page DATA (ptr_table E L ?st1 ?k) (set_summary (dn_nid dn) (dn_ofs_in_node dn) (ni_version ni)) ?st1
      = Some (new, b', ?st1\<lparr>fs_sbi := sbi, fs_disk := (fs_disk ?st1)(new \<mapsto> b')\<rparr>)"
    "fs_ok E sbi {}" "same_geometry (fs_sbi ?st1) sbi" "new \<notin> live_addrs (fs_sbi ?st1)" "\<not> hole_addr E new"
    "ptrs_ok (hole_addr E) (live_addrs sbi) ((ptr_table E L ?st1)(?k := new))" "1 < main_addr sbi 0 0" "block_addr new"
    "b' = stamp_page 0 footer (Data_block data)" by auto
  have b': "b' = Data_block data" unfolding w(9) by (simp add: stamp_page_def split: option.split)
  let ?st2 = "?st1\<lparr>fs_sbi := sbi, fs_disk := (fs_disk ?st1)(new \<mapsto> Data_block data)\<rparr>"
  have "node_addr L ?st1 m \<noteq> new" if "m < max_nid ?st1" "node_addr L ?st1 m \<noteq> NULL_ADDR E" for m
    using ptrs_okD(1) [OF volume_okD(5) [OF v1], of "Node_ptr m"] that w(4,5) by auto
  note W = submit_view [OF w(3) this, where b = "Data_block data"]
  have "dnode_held E L ?st2 dn b"
    using h W D(2) steppedD(6) [OF S] D(1) unfolding dnode_held_def by simp
  moreover have "ptr_table E L ?st2 = ptr_table E L ?st1"
    by (rule ptr_table_view [OF W(1)]) (simp_all add: same_geometry_table(2) [OF w(3)])
  ultimately show ?thesis
    using w(1,2,5-8) g a tab b' W(1) D(2,4) by (simp add: write_data_page_def f2fs_bug_on_def)
qed

text \<open>The address of one block changes, the device changes at this address only.\<close>

lemma other_blocks_stay:
  assumes L: "layout_ok L" and tree: "tree_ok L (node_view E L st) ino"
    and k: "leaf_node L (node_view E L st) ino fi b = Some (nid, i)"
    and leaf: "leaf_node L (node_view E L st') = leaf_node L (node_view E L st)"
    and tab: "ptr_table E L st' = (ptr_table E L st)(Data_ptr nid i := a)" and a: "\<not> hole_addr E a"
    and ptrs: "ptrs_ok (hole_addr E) used (ptr_table E L st')" and disk: "fs_disk st' = (fs_disk st)(a \<mapsto> d)" and h0: "hole_addr E 0"
    and other: "tree_ok L (node_view E L st) ino'" "ino' \<noteq> ino \<or> fi' = fi \<and> b' \<noteq> b"
  shows "file_map L (node_view E L st') ino' fi' b' = file_map L (node_view E L st) ino' fi' b'"
    "block_contents E L st' ino' fi' b' = block_contents E L st ino' fi' b'"
proof -
  have "file_map L (node_view E L st') ino' fi' b' = file_map L (node_view E L st) ino' fi' b'
    \<and> (hole_addr E (file_map L (node_view E L st) ino' fi' b') \<or> file_map L (node_view E L st) ino' fi' b' \<noteq> a)"
  proof (cases "leaf_node L (node_view E L st) ino' fi' b'")
    case None
    then show ?thesis using h0 by (simp add: file_map_def leaf)
  next
    case (Some k')
    obtain m j where k': "k' = (m, j)" by (cases k')
    have ne: "(m, j) \<noteq> (nid, i)" using leaf_node_inj [OF L tree k other(1), of fi' b'] Some k' other(2) by auto
    have eq: "ptr_table E L st' (Data_ptr m j) = ptr_table E L st (Data_ptr m j)" using ne by (auto simp: tab)
    have "hole_addr E (ptr_table E L st' (Data_ptr m j)) \<or> ptr_table E L st' (Data_ptr m j) \<noteq> a"
      using ptrs_okD(2) [OF ptrs, of "Data_ptr m j" "Data_ptr nid i"] ne by (auto simp: tab)
    then show ?thesis using eq Some k' leaf file_map_ptr [of L E st ino' fi' b' m j] file_map_ptr [of L E st' ino' fi' b' m j] by simp
  qed
  then show "file_map L (node_view E L st') ino' fi' b' = file_map L (node_view E L st) ino' fi' b'"
    "block_contents E L st' ino' fi' b' = block_contents E L st ino' fi' b'"
    by (auto simp: block_contents_def disk Let_def)
qed

lemma do_write_data_page_ok:
  assumes L: "layout_ok L" and v: "volume_ok E L st" and free: "\<exists>s. free_section (fs_sbi st) s"
    and logs: "sbi_active_logs (fs_sbi st) \<in> {2, 4, NR_CURSEG_TYPE}" and tree: "tree_ok L (node_view E L st) (i_ino inode)"
    and b: "file_map L (node_view E L st) (i_ino inode) (i_info inode) b \<noteq> 0"
  shows "\<exists>inode' st'. do_write_data_page E L inode b page data st = Some (Inr (), inode', st') \<and> volume_ok E L st'
    \<and> same_file inode inode' \<and> tree_ok L (node_view E L st') = tree_ok L (node_view E L st)
    \<and> block_contents E L st' (i_ino inode) (i_info inode) b = Some (Data_block data)
    \<and> (\<forall>ino' fi' b'. tree_ok L (node_view E L st) ino' \<longrightarrow> ino' \<noteq> i_ino inode \<or> fi' = i_info inode \<and> b' \<noteq> b \<longrightarrow>
         file_map L (node_view E L st') ino' fi' b' = file_map L (node_view E L st) ino' fi' b'
         \<and> block_contents E L st' ino' fi' b' = block_contents E L st ino' fi' b')
    \<and> (extent_ok (i_info inode) (file_map L (node_view E L st) (i_ino inode) (i_info inode))
        \<longrightarrow> extent_ok (i_info inode') (file_map L (node_view E L st') (i_ino inode') (i_info inode')))"
proof -
  let ?ino = "i_ino inode" and ?fi = "i_info inode" and ?P = "node_view E L st"
  let ?new = "set_new_dnode inode False None 0"
  note V = volume_okD [OF v]
  obtain nid ofs where k: "leaf_node L ?P ?ino ?fi b = Some (nid, ofs)" using b by (auto simp: file_map_def split: option.splits)
  have path: "get_node_path L ?fi b \<noteq> None" using k by (auto simp: leaf_node_def split: option.splits)
  have dn0: "dn_inode ?new = inode" "\<not> dn_inode_page ?new" by (simp_all add: set_new_dnode_def)
  then have ready: "inode_ready E L st ?new" using tree by (simp add: inode_ready_def)
  let ?old = "addr_at ?P (nid, ofs)"
  let ?dn = "?new\<lparr>dn_inode_page := True, dn_nid := nid, dn_ofs_in_node := ofs, dn_node_page := Some nid, dn_data_blkaddr := ?old\<rparr>"
  from get_dnode_lookup [OF L V(3) _ ready, of LOOKUP_NODE b] path dn0 k obtain st1 where
    st1: "get_dnode_of_data E L ?new b LOOKUP_NODE st = Some (Inr (), ?dn, st1)" "reads E L st st1" "pinned E L st1 nid" "pinned E L st1 ?ino" by auto
  note D = readsD [OF st1(2)] and S = reads_stepped [OF st1(2)]
  have v1: "volume_ok E L st1" by (rule stepped_volume_ok [OF v S])
  note V1 = volume_okD [OF v1]
  have tab1: "ptr_table E L st1 = ptr_table E L st" by (rule ptr_table_view [OF D(2,6) fun_cong [OF D(5)]])
  have old: "?old \<noteq> NULL_ADDR E" "?old = file_map L ?P ?ino ?fi b" using b k V(6) by (simp_all add: file_map_def)
  have ptr: "?old = ptr_table E L st (Data_ptr nid ofs)" by simp
  note other = other_blocks_stay [OF L tree k, where st' = st2 for st2]
  show ?thesis
  proof (cases "?old \<noteq> NEW_ADDR E \<and> \<not> pg_cold_data page \<and> need_inplace_update (fs_sbi st1) (i_dir inode)")
    case True
    let ?st2 = "st1\<lparr>fs_disk := (fs_disk st1)(?old \<mapsto> Data_block data)\<rparr>"
    have nh: "\<not> hole_addr E ?old" using True old by (simp add: hole_addr_def)
    have "node_addr L st1 m \<noteq> ?old" if "m < max_nid st1" "node_addr L st1 m \<noteq> NULL_ADDR E" for m
      using node_not_data [OF v1, of nid ofs m] nh that(1) unfolding tab1 ptr [symmetric] .
    note W = submit_view [OF same_geometry_refl this, where b = "Data_block data"]
    have st2: "st1\<lparr>fs_sbi := fs_sbi st1, fs_disk := (fs_disk st1)(?old \<mapsto> Data_block data)\<rparr> = ?st2" by simp
    note W = W [unfolded st2]
    have tab2: "ptr_table E L ?st2 = ptr_table E L st" unfolding tab1 [symmetric] by (rule ptr_table_view [OF W(1)]) simp_all
    have v2: "volume_ok E L ?st2" using v1 W(2) tab1 tab2 by (simp add: volume_ok_def)
    have P2: "node_view E L ?st2 = ?P" using W(1) D(2) by simp
    have run: "do_write_data_page E L inode b page data st = Some (Inr (), inode, ?st2)"
      using st1(1) True old(1) dn0 by (simp add: do_write_data_page_def rewrite_data_page_def f2fs_submit_page_mbio_def)
    have t: "ptr_table E L ?st2 = (ptr_table E L st)(Data_ptr nid ofs := ?old)" unfolding tab2 unfolding ptr fun_upd_triv ..
    have disk: "fs_disk ?st2 = (fs_disk st)(?old \<mapsto> Data_block data)" by (simp add: D(4))
    note O = other [of ?st2, OF _ t nh volume_okD(5) [OF v2] disk V(7)]
    have "block_contents E L ?st2 ?ino ?fi b = Some (Data_block data)"
      using nh old(2) disk unfolding block_contents_def P2 by (simp add: Let_def)
    then show ?thesis using run v2 P2 O by (intro exI [of _ inode] exI [of _ ?st2]) simp
  next
    case False
    have h: "dnode_held E L st1 ?dn b"
      using D(1,2) tree k dn0 st1(3,4) by (simp add: dnode_held_def)
    have free1: "\<exists>s. free_section (fs_sbi st1) s" and logs1: "sbi_active_logs (fs_sbi st1) \<in> {2, 4, NR_CURSEG_TYPE}"
      using free logs D(3) by simp_all
    from write_data_page_ok [OF L v1 free1 logs1 h, of data page] old(1) obtain new st2 where
      w: "write_data_page E L data page ?dn st1 = Some (new, st2)" "dnode_held E L st2 ?dn b" "node_view E L st2 = node_view E L st1"
        "ptr_table E L st2 = ptr_table E L st1" "\<not> hole_addr E new" "block_addr new"
        "fs_disk st2 = (fs_disk st1)(new \<mapsto> Data_block data)" "fs_ok E (fs_sbi st2) {}" "1 < main_addr (fs_sbi st2) 0 0"
        "ptrs_ok (hole_addr E) (live_addrs (fs_sbi st2)) ((ptr_table E L st1)(Data_ptr nid ofs := new))"
      by (auto simp: D(2))
    have "new \<noteq> NEW_ADDR E" using w(5) by (auto simp: hole_addr_def)
    from update_extent_cache_ok [OF L V(4) w(2) this] dn0 obtain dn' st3 where
      u: "update_extent_cache E L new ?dn st2 = Some (dn', st3)" "readdressed E L st2 st3 nid ofs new"
        "same_file inode (dn_inode dn')"
        "\<forall>tab. extent_ok ?fi tab \<longrightarrow> new = 0 \<or> block_addr new \<longrightarrow> extent_ok (i_info (dn_inode dn')) (tab(b := new))" by auto
    note R = readdressedD [OF u(2)]
    have "node_view E L st2 nid \<noteq> None" using w(2) by (auto simp: dnode_held_def pinned_def)
    note M = readdressed_map [OF u(2) this]
    have P2: "node_view E L st2 = ?P" using w(3) D(2) by simp
    have t: "ptr_table E L st3 = (ptr_table E L st)(Data_ptr nid ofs := new)" using M(5) w(4) tab1 by simp
    have v3: "volume_ok E L st3"
      using V(1) w(2,8,9,10) R(2,6) t tab1 by (simp add: volume_ok_def dnode_held_def)
    have disk: "fs_disk st3 = (fs_disk st)(new \<mapsto> Data_block data)" using R(3) w(7) D(4) by simp
    have leaf: "leaf_node L (node_view E L st3) = leaf_node L ?P" using M(2) P2 by simp
    note O = other [of st3, OF leaf t w(5) volume_okD(5) [OF v3] disk V(7)]
    have map: "file_map L (node_view E L st3) ?ino ?fi b = new" using M(4) [of ?ino ?fi b] P2 k by simp
    have "block_contents E L st3 ?ino ?fi b = Some (Data_block data)"
      using w(5) by (simp add: block_contents_def map disk)
    moreover have "do_write_data_page E L inode b page data st = Some (Inr (), dn_inode dn', st3)"
      using st1(1) False old(1) dn0 w(1) u(1) by (auto simp: do_write_data_page_def Let_def)
    moreover have "file_map L (node_view E L st3) ?ino ?fi = (file_map L ?P ?ino ?fi)(b := new)"
      using O(1) [OF tree, of ?fi] map by (auto simp: fun_eq_iff)
    then have "extent_ok (i_info (dn_inode dn')) (file_map L (node_view E L st3) (i_ino (dn_inode dn')) (i_info (dn_inode dn')))"
      if "extent_ok ?fi (file_map L ?P ?ino ?fi)" using u(4) that w(6) same_file_path [OF u(3)] by simp
    ultimately show ?thesis using v3 O u(3) M(1) P2 by (intro exI [of _ "dn_inode dn'"] exI [of _ st3]) simp
  qed
qed

end
