(* ===== verification/File_Read.thy ===== *)
theory File_Read
  imports File_Write
begin

text \<open>
  Reading a block of a file, through the page cache or for the block layer (\<open>get_data_block\<close> without
  \<open>create\<close>): the answer is the address in the tree and what the device has there, and nothing
  changes that anybody reads later.
\<close>

lemma get_dnode_map:
  assumes L: "layout_ok L" and ok: "store_ok E L st" and mode: "mode \<noteq> ALLOC_NODE" and dn: "inode_ready E L st dn"
    and path: "get_node_path L (i_info (dn_inode dn)) b \<noteq> None"
  obtains r dn' st' where "get_dnode_of_data E L dn b mode st = Some (r, dn', st')" "reads E L st st'" "dn_inode dn' = dn_inode dn"
    "r = Inl ENOENT \<and> file_map L (node_view E L st) (i_ino (dn_inode dn)) (i_info (dn_inode dn)) b = 0
     \<or> r = Inr () \<and> dnode_held E L st' dn' b
         \<and> dn_data_blkaddr dn' = file_map L (node_view E L st) (i_ino (dn_inode dn)) (i_info (dn_inode dn)) b"
proof -
  let ?P = "node_view E L st" and ?ino = "i_ino (dn_inode dn)" and ?fi = "i_info (dn_inode dn)"
  from get_dnode_lookup [OF L ok mode dn path] obtain r dn' st' where
    g: "get_dnode_of_data E L dn b mode st = Some (r, dn', st')" "reads E L st st'"
      "case leaf_node L ?P ?ino ?fi b of None \<Rightarrow> r = Inl ENOENT \<and> dn_inode dn' = dn_inode dn
       | Some (nid, ofs) \<Rightarrow> r = Inr () \<and> pinned E L st' nid \<and> pinned E L st' ?ino
           \<and> dn' = dn\<lparr>dn_inode_page := True, dn_nid := nid, dn_ofs_in_node := ofs, dn_node_page := Some nid,
               dn_data_blkaddr := addr_at ?P (nid, ofs)\<rparr>" by blast
  note R = readsD [OF g(2)]
  show ?thesis
  proof (cases "leaf_node L ?P ?ino ?fi b")
    case None
    then show ?thesis using that [OF g(1,2)] g(3) by (simp add: file_map_def)
  next
    case (Some k)
    obtain nid ofs where k: "k = (nid, ofs)" by (cases k)
    have d: "r = Inr ()" "pinned E L st' nid" "pinned E L st' ?ino"
      "dn' = dn\<lparr>dn_inode_page := True, dn_nid := nid, dn_ofs_in_node := ofs, dn_node_page := Some nid,
               dn_data_blkaddr := addr_at ?P (nid, ofs)\<rparr>" using g(3) Some k by simp_all
    have "dnode_held E L st' dn' b" using R(1,2) d dn Some k by (simp add: dnode_held_def inode_ready_def)
    then show ?thesis using that [OF g(1,2)] d Some k by (simp add: file_map_def)
  qed
qed

section \<open>Pages\<close>

lemma new_dnode_ready:
  assumes "tree_ok L (node_view E L st) (i_ino inode)"
  shows "inode_ready E L st (set_new_dnode inode False None n)"
  using assms by (simp add: inode_ready_def set_new_dnode_def)

definition page_at :: "f2fs_env \<Rightarrow> fs_state \<Rightarrow> nat \<Rightarrow> errno + page_data" where
  "page_at E st a = (if a = NULL_ADDR E then Inl ENOENT else if a = NEW_ADDR E then Inl EINVAL
     else case fs_disk st a of Some (Data_block d) \<Rightarrow> Inr d | _ \<Rightarrow> Inl EIO)"

lemma find_data_page_ok:
  assumes L: "layout_ok L" and ok: "store_ok E L st" and N: "NULL_ADDR E = 0" and tree: "tree_ok L (node_view E L st) (i_ino inode)"
    and path: "get_node_path L (i_info inode) b \<noteq> None"
  shows "\<exists>st'. find_data_page E L None inode b st
      = Some (page_at E st (file_map L (node_view E L st) (i_ino inode) (i_info inode) b), st') \<and> reads E L st st'"
proof -
  let ?dn = "set_new_dnode inode False None 0"
  have i: "dn_inode ?dn = inode" by (simp add: set_new_dnode_def)
  from get_dnode_map [OF L ok lookup_mode.distinct(1) [symmetric] new_dnode_ready [OF tree, of 0], of b] path obtain r dn' st' where
    g: "get_dnode_of_data E L ?dn b LOOKUP_NODE st = Some (r, dn', st')" "reads E L st st'"
      "r = Inl ENOENT \<and> file_map L (node_view E L st) (i_ino inode) (i_info inode) b = 0
       \<or> r = Inr () \<and> dn_data_blkaddr dn' = file_map L (node_view E L st) (i_ino inode) (i_info inode) b"
    unfolding i by blast
  then show ?thesis using N readsD(4) [OF g(2)]
    by (auto simp: find_data_page_def page_at_def f2fs_submit_page_bio_def)
qed

lemma get_lock_data_page_ok:
  assumes L: "layout_ok L" and ok: "store_ok E L st" and N: "NULL_ADDR E = 0" and tree: "tree_ok L (node_view E L st) (i_ino inode)"
    and path: "get_node_path L (i_info inode) b \<noteq> None"
  shows "\<exists>st'. get_lock_data_page E L None inode b st
      = Some (let a = file_map L (node_view E L st) (i_ino inode) (i_info inode) b
              in if a \<noteq> NULL_ADDR E \<and> a = NEW_ADDR E then Inr zero_page else page_at E st a, st') \<and> reads E L st st'"
proof -
  let ?dn = "set_new_dnode inode False None 0"
  have i: "dn_inode ?dn = inode" by (simp add: set_new_dnode_def)
  from get_dnode_map [OF L ok lookup_mode.distinct(1) [symmetric] new_dnode_ready [OF tree, of 0], of b] path obtain r dn' st' where
    g: "get_dnode_of_data E L ?dn b LOOKUP_NODE st = Some (r, dn', st')" "reads E L st st'"
      "r = Inl ENOENT \<and> file_map L (node_view E L st) (i_ino inode) (i_info inode) b = 0
       \<or> r = Inr () \<and> dn_data_blkaddr dn' = file_map L (node_view E L st) (i_ino inode) (i_info inode) b"
    unfolding i by blast
  then show ?thesis using N readsD(4) [OF g(2)]
    by (auto simp: get_lock_data_page_def page_at_def f2fs_submit_page_bio_def Let_def)
qed

section \<open>The next block\<close>

lemma leaf_path_value:
  assumes L: "layout_ok L" and l: "leaf_ok L l" and i: "i < leaf_room L fi l"
  shows "leaf_node L P ino fi (leaf_start L fi l + i) = map_option (\<lambda>nid. (nid, i)) (walk P ino (leaf_slots l))"
  using get_node_path_leaf [OF L l i] leaf_path_slots(1) [OF L l, of i] leaf_path_last(2) [of L l i]
  by (cases "leaf_path L l i") (simp add: leaf_node_def)

lemma leaf_node_next:
  assumes L: "layout_ok L" and k: "leaf_node L P ino (i_info inode) b = Some (nid, i)" and tree: "tree_ok L P ino"
    and p: "P nid = Some p"
  shows "i < end_of_node L inode p"
    "i + 1 < end_of_node L inode p \<Longrightarrow> leaf_node L P ino (i_info inode) (b + 1) = Some (nid, i + 1)"
proof -
  from leaf_node_place [OF L k tree] p obtain l where l: "leaf_ok L l" "i < leaf_room L (i_info inode) l"
    "b = leaf_start L (i_info inode) l + i" "walk P ino (leaf_slots l) = Some nid" "footer_is L p nid ino (leaf_nofs L l)" by auto
  have root: "place_nofs L [] = Some 0" "walk P ino [] = Some ino" by (simp_all add: place_nofs_def)
  have "nid = ino \<longleftrightarrow> l = In_inode"
  proof
    assume "nid = ino"
    then have "leaf_slots l = []" using walk_unique(2) [OF tree root tree leaf_place [OF L l(1)]] l(4) by simp
    then show "l = In_inode" by (cases l) (simp_all add: leaf_slots_def)
  qed (use l(4) in \<open>simp add: leaf_slots_def\<close>)
  then have e: "end_of_node L inode p = leaf_room L (i_info inode) l"
    using l(5) by (auto simp: end_of_node_def IS_INODE_def RAW_IS_INODE_def footer_is_def leaf_room_def)
  show "i < end_of_node L inode p" using l(2) e by simp
  show "leaf_node L P ino (i_info inode) (b + 1) = Some (nid, i + 1)" if "i + 1 < end_of_node L inode p"
    using leaf_path_value [OF L l(1), of "i + 1" "i_info inode" P ino] that e l(3,4) by (simp add: add.assoc)
qed

declare get_next.simps(2) [simp del]

lemma get_next_lookup:
  assumes L: "layout_ok L" and N: "NULL_ADDR E = 0"
    and "store_ok E L st" and "max 1 maxblocks < fuel + n" and "0 < n" and "b + n < max_blocks L (i_info inode)"
    and "b + maxblocks < max_blocks L (i_info inode)" and "maxblocks < 2 ^ 32" and "0 < a"
    and "dn_inode dn = inode" and "dn_ofs_in_node dn = Suc m" and "dnode_held E L st (dn\<lparr>dn_ofs_in_node := m\<rparr>) (b + n - 1)"
    and "fs_pages st (dn_nid dn) = Some p" and "end_offset = end_of_node L inode p"
    and "b_blocknr bh = a" and "b_size bh = n * 2 ^ 12" and "n \<le> max 1 maxblocks"
    and "\<And>i. i < n \<Longrightarrow> file_map L (node_view E L st) (i_ino inode) (i_info inode) (b + i) = a + i"
  shows "\<exists>n' st'. get_next fuel E L False 12 maxblocks dn (b + n) n False end_offset bh st
        = Some (Inr (), bh\<lparr>b_size := n' * 2 ^ 12\<rparr>, inode, st') \<and> reads E L st st' \<and> n \<le> n' \<and> n' \<le> max 1 maxblocks
      \<and> (\<forall>i<n'. file_map L (node_view E L st) (i_ino inode) (i_info inode) (b + i) = a + i)"
  using assms(3-)
proof (induction fuel arbitrary: st n dn m p end_offset bh)
  case 0
  then show ?case by (simp add: max_def split: if_splits)
next
  case (Suc fuel)
  note ok = Suc.prems(1) and dn = Suc.prems(8,9) and held = Suc.prems(10) and p = Suc.prems(11,12) and bh = Suc.prems(13,14)
  let ?P = "node_view E L st" and ?ino = "i_ino inode" and ?fi = "i_info inode"
  let ?tab = "file_map L ?P ?ino ?fi" and ?new = "set_new_dnode inode False None 0"
  have tree: "tree_ok L ?P ?ino" using held dn by (simp add: dnode_held_def)
  have bh_same: "bh\<lparr>b_size := n * 2 ^ 12\<rparr> = bh" using bh by simp
  define enter where "enter = (if end_offset \<le> dn_ofs_in_node dn then do {
          (dn, st) \<leftarrow> sync_allocated E L False dn st;
          (r, dn, st) \<leftarrow> get_dnode_of_data E L (set_new_dnode (dn_inode dn) False None 0) (b + n)
                         (if False then ALLOC_NODE else LOOKUP_NODE_RA) st;
          case r of Inl e \<Rightarrow> Some (Some (map_error e), dn, False, end_offset, st)
          | Inr _ \<Rightarrow>
              if dn_data_blkaddr dn = NEW_ADDR E then Some (Some (Inr ()), dn, False, end_offset, st)
              else do {
                p \<leftarrow> Option.bind (dn_node_page dn) (fs_pages st);
                Some (None, dn, False, end_of_node L (dn_inode dn) p, st) } }
        else Some (None, dn, False, end_offset, st))"
  have round: "get_next (Suc fuel) E L False 12 maxblocks dn (b + n) n False end_offset bh st = Option.bind enter
    (\<lambda>(leave, dn, allocated, end_offset, st). case leave of Some r \<Rightarrow> Some (r, bh, dn_inode dn, st)
     | None \<Rightarrow>
         if b_size bh div 2 ^ 12 < maxblocks then do {
           p \<leftarrow> Option.bind (dn_node_page dn) (fs_pages st);
           let blkaddr = datablock_addr p (dn_ofs_in_node dn);
           (r, dn, allocated, blkaddr, st) \<leftarrow>
             (if blkaddr = NULL_ADDR E \<and> False then do {
                (r, dn, st) \<leftarrow> allocate_data_block_dn E L dn st;
                Some (case r of Inl e \<Rightarrow> (Inl e, dn, allocated, blkaddr, st)
                  | Inr _ \<Rightarrow> (Inr (), dn, True, dn_data_blkaddr dn, st)) }
              else Some (Inr (), dn, allocated, blkaddr, st));
           if r = Inr () \<and> blkaddr = b_blocknr bh + n
           then get_next fuel E L False 12 maxblocks (dn\<lparr>dn_ofs_in_node := dn_ofs_in_node dn + 1\<rparr>) (b + n + 1) (n + 1)
                  allocated end_offset (bh\<lparr>b_size := u64 (b_size bh + 2 ^ 12)\<rparr>) st
           else do {
             (dn, st) \<leftarrow> sync_allocated E L allocated dn st;
             Some (r, bh, dn_inode dn, st) } }
         else do {
           (dn, st) \<leftarrow> sync_allocated E L allocated dn st;
           Some (Inr (), bh, dn_inode dn, st) })"
    by (simp only: get_next.simps enter_def)
  have "(\<exists>dn1 st1. enter = Some (Some (Inr ()), dn1, False, end_offset, st1) \<and> dn_inode dn1 = inode \<and> reads E L st st1)
    \<or> (\<exists>dn1 st1 p1. enter = Some (None, dn1, False, end_of_node L inode p1, st1) \<and> dn_inode dn1 = inode \<and> reads E L st st1
        \<and> dnode_held E L st1 dn1 (b + n) \<and> fs_pages st1 (dn_nid dn1) = Some p1)"
  proof (cases "end_offset \<le> dn_ofs_in_node dn")
    case True
    have i: "dn_inode ?new = inode" by (simp add: set_new_dnode_def)
    from leaf_cases [OF L Suc.prems(4)] obtain l c where "leaf_ok L l" "c < leaf_room L ?fi l" "b + n = leaf_start L ?fi l + c" .
    then have path: "get_node_path L (i_info (dn_inode ?new)) (b + n) \<noteq> None" using get_node_path_leaf [OF L] i by simp
    obtain r dn1 st1 where
      g: "get_dnode_of_data E L ?new (b + n) LOOKUP_NODE_RA st = Some (r, dn1, st1)" "reads E L st st1" "dn_inode dn1 = inode"
        "r = Inl ENOENT \<or> r = Inr () \<and> dnode_held E L st1 dn1 (b + n)"
      by (rule get_dnode_map [OF L ok _ new_dnode_ready [OF tree, of 0] path, of LOOKUP_NODE_RA]) (use i in auto)
    have e: "enter = (case r of Inl e \<Rightarrow> Some (Some (map_error e), dn1, False, end_offset, st1)
          | Inr _ \<Rightarrow> if dn_data_blkaddr dn1 = NEW_ADDR E then Some (Some (Inr ()), dn1, False, end_offset, st1)
              else do {
                p \<leftarrow> Option.bind (dn_node_page dn1) (fs_pages st1);
                Some (None, dn1, False, end_of_node L inode p, st1) })"
      using True g(1,3) dn(1) by (cases r) (simp_all add: enter_def sync_allocated_def)
    from g(4) show ?thesis
    proof
      assume "r = Inl ENOENT"
      then show ?thesis using e g(2,3) by (simp add: map_error_def)
    next
      assume r: "r = Inr () \<and> dnode_held E L st1 dn1 (b + n)"
      then have "dn_node_page dn1 = Some (dn_nid dn1)" by (simp add: dnode_held_def)
      moreover from dnode_heldD [OF L] r obtain p1 where "fs_pages st1 (dn_nid dn1) = Some p1" by blast
      ultimately show ?thesis using e g(2,3) r by (cases "dn_data_blkaddr dn1 = NEW_ADDR E") simp_all
    qed
  next
    case False
    have b: "b + n - 1 + 1 = b + n" using Suc.prems(3) by simp
    have k: "leaf_node L ?P ?ino ?fi (b + n - 1) = Some (dn_nid dn, m)" "pinned E L st (dn_nid dn)"
      using held dn by (simp_all add: dnode_held_def)
    then have "?P (dn_nid dn) = Some p" using p(1) by (auto simp: pinned_def)
    from leaf_node_next(2) [OF L k(1) tree this] False p(2) dn(2) b
    have "leaf_node L ?P ?ino ?fi (b + n) = Some (dn_nid dn, Suc m)" by simp
    then have "dnode_held E L st dn (b + n)" using held dn by (simp add: dnode_held_def)
    then show ?thesis using False dn(1) p reads_refl [OF ok] by (simp add: enter_def)
  qed
  then show ?case
  proof (elim disjE exE conjE)
    fix dn1 st1
    assume e: "enter = Some (Some (Inr ()), dn1, False, end_offset, st1)" "dn_inode dn1 = inode" "reads E L st st1"
    have "get_next (Suc fuel) E L False 12 maxblocks dn (b + n) n False end_offset bh st = Some (Inr (), bh, inode, st1)"
      using e(1,2) unfolding round by simp
    then show ?thesis using e(3) bh_same Suc.prems(15,16) by (intro exI [of _ n] exI [of _ st1]) simp
  next
    fix dn1 st1 p1
    assume e: "enter = Some (None, dn1, False, end_of_node L inode p1, st1)" "dn_inode dn1 = inode" "reads E L st st1"
      "dnode_held E L st1 dn1 (b + n)" "fs_pages st1 (dn_nid dn1) = Some p1"
    note R = readsD [OF e(3)]
    have k: "leaf_node L ?P ?ino ?fi (b + n) = Some (dn_nid dn1, dn_ofs_in_node dn1)" "?P (dn_nid dn1) = Some p1"
      "dn_node_page dn1 = Some (dn_nid dn1)"
      using e(2,4,5) R(2) by (auto simp: dnode_held_def pinned_def)
    then have addr: "datablock_addr p1 (dn_ofs_in_node dn1) = ?tab (b + n)"
      by (simp add: file_map_def addr_at_def datablock_addr_def)
    let ?bh = "bh\<lparr>b_size := Suc n * 2 ^ 12\<rparr>" and ?dn = "dn1\<lparr>dn_ofs_in_node := dn_ofs_in_node dn1 + 1\<rparr>"
    have eq: "get_next (Suc fuel) E L False 12 maxblocks dn (b + n) n False end_offset bh st =
      (if n < maxblocks \<and> ?tab (b + n) = a + n
       then get_next fuel E L False 12 maxblocks ?dn (b + Suc n) (Suc n) False (end_of_node L inode p1) ?bh st1
       else Some (Inr (), bh, inode, st1))"
      using e(1,2,5) k(3) addr bh Suc.prems(6)
      unfolding round by (simp add: sync_allocated_def u64_id add.commute)
    show ?thesis
    proof (cases "n < maxblocks \<and> ?tab (b + n) = a + n")
      case False
      then have "get_next (Suc fuel) E L False 12 maxblocks dn (b + n) n False end_offset bh st = Some (Inr (), bh, inode, st1)"
        unfolding eq by (rule if_not_P)
      then show ?thesis using e(3) bh_same Suc.prems(15,16) by (intro exI [of _ n] exI [of _ st1]) simp
    next
      case True
      have P1: "node_view E L st1 = ?P" by (rule R(2))
      have "\<exists>n' st'. get_next fuel E L False 12 maxblocks ?dn (b + Suc n) (Suc n) False (end_of_node L inode p1) ?bh st1
          = Some (Inr (), ?bh\<lparr>b_size := n' * 2 ^ 12\<rparr>, inode, st') \<and> reads E L st1 st' \<and> Suc n \<le> n' \<and> n' \<le> max 1 maxblocks
        \<and> (\<forall>i<n'. file_map L (node_view E L st1) ?ino ?fi (b + i) = a + i)"
      proof (rule Suc.IH [OF R(1)])
        show "dnode_held E L st1 (?dn\<lparr>dn_ofs_in_node := dn_ofs_in_node dn1\<rparr>) (b + Suc n - 1)"
          using e(4) by (simp add: dnode_held_def)
        show "file_map L (node_view E L st1) ?ino ?fi (b + i) = a + i" if "i < Suc n" for i
          using Suc.prems(16) [of i] that True by (cases "i = n") (simp_all add: P1)
      qed (use Suc.prems(2,5,6,7) True e(2,5) bh in auto)
      then obtain n' st' where "get_next (Suc fuel) E L False 12 maxblocks dn (b + n) n False end_offset bh st
          = Some (Inr (), bh\<lparr>b_size := n' * 2 ^ 12\<rparr>, inode, st')" "reads E L st1 st'" "Suc n \<le> n'" "n' \<le> max 1 maxblocks"
        "\<forall>i<n'. ?tab (b + i) = a + i" using eq True P1 by auto
      then show ?thesis using reads_trans [OF e(3)] by (intro exI [of _ n'] exI [of _ st']) simp
    qed
  qed
qed

section \<open>\<open>get_data_block\<close>\<close>

text \<open>What a lookup must answer for the block \<open>b\<close>: a run of blocks that follow each other on the device.\<close>

definition mapped_run :: "nat \<Rightarrow> (nat \<Rightarrow> nat) \<Rightarrow> nat \<Rightarrow> buffer_head \<Rightarrow> bool" where
  "mapped_run blkbits tab b bh \<longleftrightarrow> bh_mapped bh \<and> b_blocknr bh = tab b
     \<and> (\<forall>i < b_size bh div 2 ^ blkbits. tab (b + i) = tab b + i)"

lemma hit_addr:
  assumes ok: "extent_ok fi tab" and c: "check_extent_cache fi blkbits b bh = (True, bh')"
  shows "block_addr (tab b)"
proof -
  let ?e = "fi_ext fi"
  have n: "0 < ext_len ?e" using c by (auto simp: check_extent_cache_def split: if_splits)
  have r: "ext_fofs ?e \<le> b" "b \<le> ext_fofs ?e + ext_len ?e - 1"
    using c extent_ends(1) [OF ok n] by (auto simp: check_extent_cache_def Let_def split: if_splits)
  then have "b - ext_fofs ?e < ext_len ?e" "ext_fofs ?e + (b - ext_fofs ?e) = b" using n by auto
  then show ?thesis using extent_okD(2,3,5) [OF ok] n by (fastforce simp: block_addr_def)
qed

lemma get_data_block_lookup:
  assumes L: "layout_ok L" and ok: "store_ok E L st" and N: "addr_consts E" and tree: "tree_ok L (node_view E L st) (i_ino inode)"
    and ext: "extent_ok (i_info inode) (file_map L (node_view E L st) (i_ino inode) (i_info inode))"
    and size: "b_size bh < 2 ^ 44" and b: "b + max 1 (b_size bh div 2 ^ 12) < max_blocks L (i_info inode)"
  shows "\<exists>bh' st'. get_data_block E L 12 inode b bh False st = Some (Inr (), bh', inode, st') \<and> reads E L st st'
    \<and> (if hole_addr E (file_map L (node_view E L st) (i_ino inode) (i_info inode) b) then bh' = bh
       else mapped_run 12 (file_map L (node_view E L st) (i_ino inode) (i_info inode)) b bh')"
proof -
  let ?P = "node_view E L st" and ?ino = "i_ino inode" and ?fi = "i_info inode"
  let ?tab = "file_map L ?P ?ino ?fi" and ?new = "set_new_dnode inode False None 0" and ?max = "b_size bh div 2 ^ 12"
  have N0: "NULL_ADDR E = 0" using N by (simp add: addr_consts_def)
  have max: "u32 ?max = ?max" "?max < 2 ^ 32" using size by (auto simp: u32_id)
  have i: "dn_inode ?new = inode" by (simp add: set_new_dnode_def)
  obtain hit bh1 where c: "check_extent_cache ?fi 12 b bh = (hit, bh1)" by fastforce
  show ?thesis
  proof (cases hit)
    case True
    have c': "check_extent_cache ?fi 12 b bh = (True, bh1)" "(12::nat) < 32" using c True by simp_all
    note X = check_extent_cache_ok [OF ext c'(2,1)]
    have run: "get_data_block E L 12 inode b bh False st = Some (Inr (), bh1, inode, st)"
      using c True by (simp add: get_data_block_def PAGE_CACHE_SHIFT_def)
    have "mapped_run 12 ?tab b bh1" using X by (simp add: mapped_run_def)
    moreover have "\<not> hole_addr E (?tab b)" using hit_addr [OF ext c'(1)] N
      by (auto simp: hole_addr_def addr_consts_def block_addr_def)
    ultimately show ?thesis using run reads_refl [OF ok] by (intro exI [of _ bh1] exI [of _ st]) simp
  next
    case False
    then have bh1: "bh1 = bh" using c by (auto simp: check_extent_cache_def Let_def split: if_splits)
    from leaf_cases [OF L, of b ?fi] b obtain l x where "leaf_ok L l" "x < leaf_room L ?fi l" "b = leaf_start L ?fi l + x" by auto
    then have path: "get_node_path L (i_info (dn_inode ?new)) b \<noteq> None" using get_node_path_leaf [OF L] i by simp
    obtain r dn1 st1 where
      g: "get_dnode_of_data E L ?new b LOOKUP_NODE_RA st = Some (r, dn1, st1)" "reads E L st st1" "dn_inode dn1 = inode"
        "r = Inl ENOENT \<and> ?tab b = 0 \<or> r = Inr () \<and> dnode_held E L st1 dn1 b \<and> dn_data_blkaddr dn1 = ?tab b"
      by (rule get_dnode_map [OF L ok _ new_dnode_ready [OF tree, of 0] path, of LOOKUP_NODE_RA]) (use i in auto)
    show ?thesis
    proof (cases "hole_addr E (?tab b)")
      case True
      then have "get_data_block E L 12 inode b bh False st = Some (Inr (), bh, inode, st1)"
        using g(1,3,4) c False bh1 max N0
        by (auto simp: get_data_block_def PAGE_CACHE_SHIFT_def map_error_def hole_addr_def Let_def)
      then show ?thesis using True g(2) by (intro exI [of _ bh] exI [of _ st1]) simp
    next
      case nh: False
      then have d: "r = Inr ()" "dnode_held E L st1 dn1 b" "dn_data_blkaddr dn1 = ?tab b" "?tab b \<noteq> 0" "?tab b \<noteq> NEW_ADDR E"
        using g(4) N0 by (auto simp: hole_addr_def)
      from dnode_heldD [OF L d(2)] obtain p where p: "fs_pages st1 (dn_nid dn1) = Some p" by blast
      have np: "dn_node_page dn1 = Some (dn_nid dn1)" using d(2) by (simp add: dnode_held_def)
      let ?dn = "dn1\<lparr>dn_ofs_in_node := dn_ofs_in_node dn1 + 1\<rparr>" and ?bh = "(map_bh 12 bh (?tab b))\<lparr>b_size := 2 ^ 12\<rparr>"
      have run: "get_data_block E L 12 inode b bh False st =
        get_next (?max + 1) E L False 12 ?max ?dn (b + 1) 1 False (end_of_node L inode p) ?bh st1"
        using g(1,3) c False bh1 max N0 d p np by (simp add: get_data_block_def PAGE_CACHE_SHIFT_def Let_def)
      have "\<exists>n' st'. get_next (?max + 1) E L False 12 ?max ?dn (b + 1) 1 False (end_of_node L inode p) ?bh st1
          = Some (Inr (), ?bh\<lparr>b_size := n' * 2 ^ 12\<rparr>, inode, st') \<and> reads E L st1 st' \<and> 1 \<le> n' \<and> n' \<le> max 1 ?max
        \<and> (\<forall>i<n'. file_map L (node_view E L st1) ?ino ?fi (b + i) = ?tab b + i)"
      proof (rule get_next_lookup [OF L N0 readsD(1) [OF g(2)]])
        show "dnode_held E L st1 (?dn\<lparr>dn_ofs_in_node := dn_ofs_in_node dn1\<rparr>) (b + 1 - 1)" using d(2) by (simp add: dnode_held_def)
      qed (use b max g(3) p d(4) readsD(2) [OF g(2)] in \<open>auto simp: map_bh_def\<close>)
      then obtain n' st' where n: "get_data_block E L 12 inode b bh False st = Some (Inr (), ?bh\<lparr>b_size := n' * 2 ^ 12\<rparr>, inode, st')"
        "reads E L st1 st'" "\<forall>i<n'. ?tab (b + i) = ?tab b + i" using run readsD(2) [OF g(2)] by auto
      have "mapped_run 12 ?tab b (?bh\<lparr>b_size := n' * 2 ^ 12\<rparr>)" using n(3) by (simp add: mapped_run_def map_bh_def)
      then show ?thesis using n(1) nh reads_trans [OF g(2) n(2)] by auto
    qed
  qed
qed

text \<open>After the last block of the largest possible file the code asks for a path that does not exist.\<close>

lemma get_data_block_last:
  assumes L: "layout_ok L" and ok: "store_ok E L st" and N: "addr_consts E" and tree: "tree_ok L (node_view E L st) (i_ino inode)"
    and b: "b + 1 = max_blocks L (i_info inode)" and a: "\<not> hole_addr E (file_map L (node_view E L st) (i_ino inode) (i_info inode) b)"
    and miss: "check_extent_cache (i_info inode) 12 b bh = (False, bh)"
  shows "get_data_block E L 12 inode b bh False st = None"
proof -
  let ?P = "node_view E L st" and ?ino = "i_ino inode" and ?fi = "i_info inode" and ?max = "u32 (b_size bh div 2 ^ 12)"
  let ?tab = "file_map L ?P ?ino ?fi" and ?new = "set_new_dnode inode False None 0"
  have N0: "NULL_ADDR E = 0" using N by (simp add: addr_consts_def)
  have i: "dn_inode ?new = inode" by (simp add: set_new_dnode_def)
  have beyond: "get_node_path L ?fi (b + 1) = None" by (rule get_node_path_beyond) (use b in linarith)
  from leaf_cases [OF L, of b ?fi] b obtain l x where "leaf_ok L l" "x < leaf_room L ?fi l" "b = leaf_start L ?fi l + x" by auto
  then have path: "get_node_path L (i_info (dn_inode ?new)) b \<noteq> None" using get_node_path_leaf [OF L] i by simp
  obtain r dn1 st1 where
    g: "get_dnode_of_data E L ?new b LOOKUP_NODE_RA st = Some (r, dn1, st1)" "reads E L st st1" "dn_inode dn1 = inode"
      "r = Inl ENOENT \<and> ?tab b = 0 \<or> r = Inr () \<and> dnode_held E L st1 dn1 b \<and> dn_data_blkaddr dn1 = ?tab b"
    by (rule get_dnode_map [OF L ok _ new_dnode_ready [OF tree, of 0] path, of LOOKUP_NODE_RA]) (use i in auto)
  have d: "r = Inr ()" "dnode_held E L st1 dn1 b" "dn_data_blkaddr dn1 = ?tab b" "?tab b \<noteq> 0" "?tab b \<noteq> NEW_ADDR E"
    using g(4) a N0 by (auto simp: hole_addr_def)
  have np: "dn_node_page dn1 = Some (dn_nid dn1)" using d(2) by (simp add: dnode_held_def)
  have held: "leaf_node L ?P ?ino ?fi b = Some (dn_nid dn1, dn_ofs_in_node dn1)" "pinned E L st1 (dn_nid dn1)"
    using d(2) g(3) readsD(2) [OF g(2)] by (simp_all add: dnode_held_def)
  then obtain p where p: "fs_pages st1 (dn_nid dn1) = Some p" "?P (dn_nid dn1) = Some p"
    using readsD(2) [OF g(2)] by (auto simp: pinned_def)
  have "leaf_node L ?P ?ino ?fi (b + 1) = None" using beyond by (simp add: leaf_node_def)
  then have e: "end_of_node L inode p \<le> dn_ofs_in_node dn1 + 1"
    using leaf_node_next(2) [OF L held(1) tree p(2)] by (metis not_le option.distinct(1))
  let ?dn = "dn1\<lparr>dn_ofs_in_node := dn_ofs_in_node dn1 + 1\<rparr>" and ?bh = "(map_bh 12 bh (?tab b))\<lparr>b_size := 2 ^ 12\<rparr>"
  have "get_data_block E L 12 inode b bh False st =
    get_next (?max + 1) E L False 12 ?max ?dn (b + 1) 1 False (end_of_node L inode p) ?bh st1"
    using g(1,3) miss N0 d p np by (simp add: get_data_block_def PAGE_CACHE_SHIFT_def Let_def)
  moreover have "get_dnode_of_data E L (set_new_dnode inode False None 0) (b + 1) LOOKUP_NODE_RA st1 = None"
    using beyond by (simp add: get_dnode_of_data_def set_new_dnode_def)
  ultimately show ?thesis using e g(3) by (simp add: get_next.simps(2) sync_allocated_def)
qed

end
