(* ===== verification/File_Alloc.thy ===== *)
theory File_Alloc
  imports File_Write
begin

text \<open>
  Giving a block of a file an address: \<open>f2fs_reserve_block\<close> promises a block, \<open>__allocate_data_block\<close>
  takes one at once, for direct writes.  Missing nodes are made on the way; a block that has an address
  keeps it, and so do all other blocks.
\<close>

lemma counts_stepped:
  assumes ok: "store_ok E L st" and c: "counts_only (fs_sbi st) sbi"
  shows "stepped E L st (st\<lparr>fs_sbi := sbi\<rparr>)" "node_view E L (st\<lparr>fs_sbi := sbi\<rparr>) = node_view E L st"
proof -
  note G = same_geometry_table [OF counts_only_geometry [OF c], where L = L]
  show v: "node_view E L (st\<lparr>fs_sbi := sbi\<rparr>) = node_view E L st"
    by (simp add: node_view_def G fun_eq_iff cong: option.case_cong)
  show "stepped E L st (st\<lparr>fs_sbi := sbi\<rparr>)"
    using ok c v by (simp add: stepped_def store_ok_def G grown_refl pinned_def)
qed

lemma inc_valid_block_count_counts: "inc_valid_block_count sbi b n = (ok, b', sbi') \<Longrightarrow> counts_only sbi sbi'"
  by (auto simp: inc_valid_block_count_def Let_def counts_only_def split: if_splits)

lemma dnode_held_steps:
  assumes h: "dnode_held E L st dn b" and s: "stepped E L st st'" and v: "node_view E L st' = node_view E L st"
    and dn: "same_file (dn_inode dn) (dn_inode dn')" "dn_nid dn' = dn_nid dn" "dn_ofs_in_node dn' = dn_ofs_in_node dn"
      "dn_inode_page dn' = dn_inode_page dn" "dn_node_page dn' = dn_node_page dn"
  shows "dnode_held E L st' dn' b"
  using h dn(2-) same_file_path [OF dn(1)] steppedD(1,6) [OF s] unfolding dnode_held_def v by simp

text \<open>A block of the file is given the address \<open>a\<close>, or nothing happens.\<close>

definition block_given :: "f2fs_env \<Rightarrow> node_layout \<Rightarrow> fs_state \<Rightarrow> fs_state \<Rightarrow> nat \<Rightarrow> f2fs_inode_info \<Rightarrow> nat \<Rightarrow> nat \<Rightarrow> bool" where
  "block_given E L st st' ino fi b a \<longleftrightarrow> volume_ok E L st' \<and> file_map L (node_view E L st') ino fi b = a
     \<and> (\<forall>ino'. tree_ok L (node_view E L st) ino' \<longrightarrow> tree_ok L (node_view E L st') ino'
         \<and> (\<forall>fi' b'. ino' \<noteq> ino \<or> get_node_path L fi' = get_node_path L fi \<and> b' \<noteq> b \<longrightarrow>
              file_map L (node_view E L st') ino' fi' b' = file_map L (node_view E L st) ino' fi' b'))"

lemma block_givenD:
  assumes "block_given E L st st' ino fi b a"
  shows "volume_ok E L st'" "file_map L (node_view E L st') ino fi b = a"
    "tree_ok L (node_view E L st) ino' \<Longrightarrow> tree_ok L (node_view E L st') ino'"
    "tree_ok L (node_view E L st) ino' \<Longrightarrow> ino' \<noteq> ino \<or> get_node_path L fi' = get_node_path L fi \<and> b' \<noteq> b \<Longrightarrow>
       file_map L (node_view E L st') ino' fi' b' = file_map L (node_view E L st) ino' fi' b'"
  using assms unfolding block_given_def by blast+

lemma path_same:
  assumes "get_node_path L fi' = get_node_path L fi"
  shows "leaf_node L P ino fi' = leaf_node L P ino fi" "file_map L P ino fi' = file_map L P ino fi"
proof -
  show l: "leaf_node L P ino fi' = leaf_node L P ino fi" by (intro ext) (simp only: leaf_node_def assms)
  show "file_map L P ino fi' = file_map L P ino fi" by (intro ext) (simp only: file_map_def l)
qed

lemma given_file: "same_file i j \<Longrightarrow> block_given E L st st' (i_ino j) (i_info j) b a = block_given E L st st' (i_ino i) (i_info i) b a"
  using same_file_path [of i j] by (simp add: block_given_def)

text \<open>Growing the trees gives no block an address.\<close>

lemma stepped_given:
  assumes "layout_ok L" and "volume_ok E L st" and s: "stepped E L st st'" and "tree_ok L (node_view E L st) ino"
  shows "block_given E L st st' ino fi b (file_map L (node_view E L st) ino fi b)"
  using stepped_volume_ok [OF assms(2) s] grown_file_map [OF assms(1) steppedD(2) [OF s]] grownD(1) [OF steppedD(2) [OF s]] assms(4)
  unfolding block_given_def by blast

lemma given_trans:
  assumes "block_given E L st st1 ino fi b a" and "block_given E L st1 st2 ino fi b a'"
  shows "block_given E L st st2 ino fi b a'"
  unfolding block_given_def
  using block_givenD [OF assms(1)] block_givenD [OF assms(2)] by metis

lemma readdressed_given:
  assumes L: "layout_ok L" and tree: "tree_ok L (node_view E L st) ino"
    and r: "readdressed E L st st' nid ofs a" and k: "leaf_node L (node_view E L st) ino fi b = Some (nid, ofs)"
    and n: "node_view E L st nid \<noteq> None" and v: "volume_ok E L st'"
  shows "block_given E L st st' ino fi b a"
proof -
  note M = readdressed_map [OF r n]
  have "file_map L (node_view E L st') ino' fi' b' = file_map L (node_view E L st) ino' fi' b'"
    if "tree_ok L (node_view E L st) ino'" "ino' \<noteq> ino \<or> get_node_path L fi' = get_node_path L fi \<and> b' \<noteq> b" for ino' fi' b'
  proof -
    have "leaf_node L (node_view E L st) ino' fi' b' \<noteq> Some (nid, ofs)"
    proof
      assume w: "leaf_node L (node_view E L st) ino' fi' b' = Some (nid, ofs)"
      have "ino' = ino" by (rule leaf_node_inj(1) [OF L tree k that(1) w])
      then have "get_node_path L fi' = get_node_path L fi" "b' \<noteq> b" using that(2) by simp_all
      then show False using leaf_node_inj(2) [OF L tree k that(1), of fi b'] w path_same(1) [of L fi' fi] by simp
    qed
    then show ?thesis by (simp add: M(4))
  qed
  then show ?thesis using v k by (auto simp: block_given_def M(1,4))
qed

section \<open>\<open>f2fs_reserve_block\<close>\<close>

lemma reserve_new_block_ok:
  assumes L: "layout_ok L" and v: "volume_ok E L st" and h: "dnode_held E L st dn b"
    and a: "hole_addr E (file_map L (node_view E L st) (i_ino (dn_inode dn)) (i_info (dn_inode dn)) b)"
  shows "\<exists>r dn' st'. reserve_new_block E L dn st = Some (r, dn', st') \<and> fs_disk st' = fs_disk st \<and> same_file (dn_inode dn) (dn_inode dn')
    \<and> accounted st st' (dn_inode dn) 1 r
    \<and> (case r of Inl e \<Rightarrow> e \<in> {EPERM, ENOSPC} \<and> dn' = dn \<and> st' = st
       | Inr _ \<Rightarrow> dn_data_blkaddr dn' = NEW_ADDR E
           \<and> block_given E L st st' (i_ino (dn_inode dn)) (i_info (dn_inode dn)) b (NEW_ADDR E))"
proof -
  let ?i = "dn_inode dn" and ?nid = "dn_nid dn" and ?ofs = "dn_ofs_in_node dn"
  note V = volume_okD [OF v]
  obtain ok blocks sbi where inc: "inc_valid_block_count (fs_sbi st) (i_blocks ?i) 1 = (ok, blocks, sbi)" by (metis prod_cases3)
  note room = inc_valid_block_count_room [OF inc, of "max_nid st"]
  consider "is_inode_flag_set (i_info ?i) FI_NO_ALLOC" | "\<not> is_inode_flag_set (i_info ?i) FI_NO_ALLOC" "\<not> ok"
    | "\<not> is_inode_flag_set (i_info ?i) FI_NO_ALLOC" ok by blast
  then show ?thesis
  proof cases
    case 3
    let ?st1 = "st\<lparr>fs_sbi := sbi\<rparr>" and ?j = "mark_inode_dirty (?i\<lparr>i_blocks := blocks\<rparr>)"
    let ?dn = "dn\<lparr>dn_data_blkaddr := NEW_ADDR E, dn_inode := ?j\<rparr>"
    note S = counts_stepped [OF V(3) inc_valid_block_count_counts [OF inc]]
    have j: "same_file ?i ?j" by (auto simp: same_file_def mark_inode_dirty_def set_inode_flag_def is_inode_flag_set_def)
    have h1: "dnode_held E L ?st1 dn b" by (rule dnode_held_steps [OF h S]) simp_all
    then have H: "dn_inode_page dn" "pinned E L ?st1 (i_ino ?i)" "dn_node_page dn = Some ?nid" "pinned E L ?st1 ?nid"
      "tree_ok L (node_view E L ?st1) (i_ino ?i)" "leaf_node L (node_view E L ?st1) (i_ino ?i) (i_info ?i) b = Some (?nid, ?ofs)"
      by (simp_all add: dnode_held_def)
    from dnode_heldD [OF L h1] obtain p where p: "fs_pages ?st1 ?nid = Some p" "node_view E L ?st1 ?nid = Some p"
      "ft_nid (nb_footer p) = ?nid" "ft_ino (nb_footer p) = i_ino ?i" .
    from set_data_blkaddr_ok [OF H(3,4), of "NEW_ADDR E"] obtain st2 where
      st2: "set_data_blkaddr dn (NEW_ADDR E) ?st1 = Some st2" "readdressed E L ?st1 st2 ?nid ?ofs (NEW_ADDR E)" by blast
    obtain q where q: "fs_pages st2 ?nid = Some q" "ft_nid (nb_footer q) = ?nid" "ft_ino (nb_footer q) = i_ino ?i"
      using st2(1) p H(3) by (auto simp: set_data_blkaddr_def)
    let ?st3 = "put_inode L (i_ino ?i) ?j st2"
    have ij: "i_ino ?j = i_ino ?i" using j by (simp add: same_file_def)
    have "sync_inode_page E L ?dn st2 = Some (?dn\<lparr>dn_inode := clean_inode ?j\<rparr>, ?st3)"
      using sync_inode_page_put [of ?dn ?nid st2 q] q H(1,3) ij by simp
    then have run: "reserve_new_block E L dn st = Some (Inr (), ?dn\<lparr>dn_inode := clean_inode ?j\<rparr>, ?st3)"
      using 3 inc st2(1) by (simp add: reserve_new_block_def Let_def)
    have r: "readdressed E L ?st1 ?st3 ?nid ?ofs (NEW_ADDR E)" by (rule readdressed_put [OF L st2(2) H(2)])
    note R = readdressedD [OF r]
    have n: "node_view E L ?st1 ?nid \<noteq> None" using p(2) by simp
    note M = readdressed_map [OF r n]
    note V1 = volume_okD [OF stepped_volume_ok [OF v S(1)]]
    have "hole_addr E (ptr_table E L ?st1 (Data_ptr ?nid ?ofs))" using a file_map_ptr [OF H(6)] S(2) by simp
    then have "ptrs_ok (hole_addr E) (live_addrs (fs_sbi ?st1)) (ptr_table E L ?st3)"
      by (intro ptrs_ok_holes [OF V1(5)]) (auto simp: M(5) hole_addr_def)
    then have "volume_ok E L ?st3" using V1(1-3,8) R(2,6) by (simp add: volume_ok_def)
    then have "block_given E L ?st1 ?st3 (i_ino ?i) (i_info ?i) b (NEW_ADDR E)"
      by (rule readdressed_given [OF L H(5) r H(6) n])
    then have "block_given E L st ?st3 (i_ino ?i) (i_info ?i) b (NEW_ADDR E)"
      using given_trans [OF stepped_given [OF L v S(1)]] H(5) S(2) by simp
    moreover have "accounted st ?st3 ?i 1 (Inr () :: errno + unit)"
      using room 3(2) R(2,4) by (simp add: accounted_def)
    ultimately show ?thesis using run R(3) j by (intro exI [of _ "Inr ()"] exI [of _ "?dn\<lparr>dn_inode := clean_inode ?j\<rparr>"] exI [of _ ?st3]) simp
  qed (use inc room in \<open>auto simp: reserve_new_block_def accounted_def\<close>)
qed

lemma f2fs_reserve_block_ok:
  assumes L: "layout_ok L" and v: "volume_ok E L st" and dn: "inode_ready E L st dn"
    and path: "get_node_path L (i_info (dn_inode dn)) b \<noteq> None" and free: "3 \<le> card (free_nids st)"
    and page: "dn_inode_page dn \<Longrightarrow> b = 0"
  shows "\<exists>r dn' st'. f2fs_reserve_block E L dn b st = Some (r, dn', st') \<and> fs_disk st' = fs_disk st \<and> same_file (dn_inode dn) (dn_inode dn')
    \<and> block_given E L st st' (i_ino (dn_inode dn)) (i_info (dn_inode dn)) b
        (let a = file_map L (node_view E L st) (i_ino (dn_inode dn)) (i_info (dn_inode dn)) b
         in if a = 0 \<and> r = Inr () then NEW_ADDR E else a)
    \<and> (\<forall>e. r = Inl e \<longrightarrow> e \<in> {EPERM, ENOSPC}) \<and> accounted st st' (dn_inode dn) 4 r"
proof -
  let ?ino = "i_ino (dn_inode dn)" and ?fi = "i_info (dn_inode dn)"
  let ?a = "file_map L (node_view E L st) ?ino ?fi b"
  note V = volume_okD [OF v]
  have tree: "tree_ok L (node_view E L st) ?ino" using dn by (simp add: inode_ready_def)
  from get_dnode_alloc [OF L V(3) dn path free] obtain r dn1 st1 where
    g: "get_dnode_of_data E L dn b ALLOC_NODE st = Some (r, dn1, st1)" "stepped E L st st1" "same_inode (dn_inode dn) (dn_inode dn1)"
      "case r of Inl e \<Rightarrow> e \<in> {EPERM, ENOSPC}
       | Inr _ \<Rightarrow> leaf_node L (node_view E L st1) ?ino ?fi b = Some (dn_nid dn1, dn_ofs_in_node dn1)
           \<and> dn_node_page dn1 = Some (dn_nid dn1) \<and> pinned E L st1 (dn_nid dn1) \<and> dn_inode_page dn1 \<and> pinned E L st1 ?ino
           \<and> dn_data_blkaddr dn1 = ?a" "accounted st st1 (dn_inode dn) 3 r" by blast
  note S = steppedD [OF g(2)]
  have given: "block_given E L st st1 ?ino ?fi b ?a" by (rule stepped_given [OF L v g(2) tree])
  note F = same_inode_file [OF g(3)]
  note Q = same_file_path [OF F]
  have bug: "(dn_inode_page dn \<and> b \<noteq> 0) = False" using page by auto
  show ?thesis
  proof (cases r)
    case (Inl e)
    moreover have "accounted st st1 (dn_inode dn) 4 r" by (rule accounted_mono [OF g(5)]) simp
    ultimately show ?thesis using g given S(4) F bug
      by (intro exI [of _ "Inl e"] exI [of _ dn1] exI [of _ st1]) (simp add: f2fs_reserve_block_def f2fs_bug_on_def Let_def)
  next
    case (Inr u)
    then have d: "leaf_node L (node_view E L st1) ?ino ?fi b = Some (dn_nid dn1, dn_ofs_in_node dn1)"
      "dn_node_page dn1 = Some (dn_nid dn1)" "pinned E L st1 (dn_nid dn1)" "dn_inode_page dn1" "pinned E L st1 ?ino" "dn_data_blkaddr dn1 = ?a"
      using g(4) by simp_all
    have h: "dnode_held E L st1 dn1 b" using d S(1) grownD(1) [OF S(2) tree] Q by (simp add: dnode_held_def)
    show ?thesis
    proof (cases "?a = 0")
      case True
      have a1: "file_map L (node_view E L st1) (i_ino (dn_inode dn1)) (i_info (dn_inode dn1)) b = 0"
        using block_givenD(2) [OF given] True Q by simp
      have v1: "volume_ok E L st1" by (rule stepped_volume_ok [OF v g(2)])
      from reserve_new_block_ok [OF L v1 h] a1 V(7) obtain r2 dn2 st2 where
        n: "reserve_new_block E L dn1 st1 = Some (r2, dn2, st2)" "fs_disk st2 = fs_disk st1" "same_file (dn_inode dn1) (dn_inode dn2)"
          "case r2 of Inl e \<Rightarrow> e \<in> {EPERM, ENOSPC} \<and> dn2 = dn1 \<and> st2 = st1
           | Inr _ \<Rightarrow> dn_data_blkaddr dn2 = NEW_ADDR E
               \<and> block_given E L st1 st2 (i_ino (dn_inode dn1)) (i_info (dn_inode dn1)) b (NEW_ADDR E)" "accounted st1 st2 (dn_inode dn1) 1 r2" by auto
      have acc: "accounted st st2 (dn_inode dn) 4 r2"
        using accounted_trans [OF g(5) [unfolded Inr] g(3) n(5)] by simp
      have "block_given E L st st2 ?ino ?fi b (if r2 = Inr () then NEW_ADDR E else 0)"
      proof (cases r2)
        case (Inl e)
        then show ?thesis using n(4) given True by simp
      next
        case (Inr u)
        then have "block_given E L st1 st2 ?ino ?fi b (NEW_ADDR E)" using n(4) given_file [OF F] by simp
        from given_trans [OF given this] Inr show ?thesis by simp
      qed
      moreover obtain dn' where "f2fs_reserve_block E L dn b st = Some (r2, dn', st2)" "dn_inode dn' = dn_inode dn2"
        using g(1) Inr d(6) True n(1) V(6) bug by (simp add: f2fs_reserve_block_def f2fs_bug_on_def f2fs_put_dnode_def)
      moreover have "\<forall>e. r2 = Inl e \<longrightarrow> e \<in> {EPERM, ENOSPC}" using n(4) by auto
      ultimately show ?thesis using acc n(2) S(4) True same_file_trans [OF F n(3)]
        by (intro exI [of _ r2] exI [of _ dn'] exI [of _ st2]) (simp add: Let_def)
    next
      case False
      then have "\<exists>dn'. f2fs_reserve_block E L dn b st = Some (Inr (), dn', st1) \<and> dn_inode dn' = dn_inode dn1"
        using g(1) Inr d(6) V(6) bug by (simp add: f2fs_reserve_block_def f2fs_bug_on_def f2fs_put_dnode_def)
      moreover have "accounted st st1 (dn_inode dn) 4 (Inr () :: errno + unit)"
        using accounted_mono [OF g(5), of 4] Inr by simp
      ultimately show ?thesis using False given S(4) F by (auto simp: Let_def)
    qed
  qed
qed

end
