(* ===== verification/Node_Write.thy ===== *)
theory Node_Write
  imports File_Write
begin

text \<open>
  Writing a node page back (\<open>f2fs_write_node_page\<close>): the node gets another block, every file keeps its
  blocks, and the page can leave the memory because the device has it.
\<close>

lemma stamp_node:
  assumes "stamp_page cp_ver footer (Node_block p) = b"
  obtains q where "b = Node_block q" "skeleton L q = skeleton L p" "nb_addr q = nb_addr p" "ft_nid (nb_footer q) = ft_nid (nb_footer p)"
  using assms by (cases footer) (auto simp: stamp_page_def skeleton_def fill_node_footer_blkaddr_def ofs_of_node_def)

lemma write_node_page_ok:
  assumes v: "volume_ok E L st" and free: "\<exists>s. free_section (fs_sbi st) s"
    and logs: "sbi_active_logs (fs_sbi st) \<in> {2, 4, NR_CURSEG_TYPE}" and p: "pinned E L st nid" "node_view E L st nid = Some p"
  shows "\<exists>new q st'. write_node_page E L cp_ver p nid (node_addr L st nid) st = Some (new, Node_block q, st')
    \<and> skeleton L q = skeleton L p \<and> nb_addr q = nb_addr p \<and> fs_pages st' = fs_pages st \<and> fs_nat st' = fs_nat st
    \<and> same_geometry (fs_sbi st) (fs_sbi st') \<and> node_view E L st' = node_view E L st \<and> store_ok E L st' \<and> \<not> hole_addr E new
    \<and> fs_disk st' = (fs_disk st)(new \<mapsto> Node_block q) \<and> fs_ok E (fs_sbi st') {} \<and> 1 < main_addr (fs_sbi st') 0 0
    \<and> ptrs_ok (hole_addr E) (live_addrs (fs_sbi st')) ((ptr_table E L st)(Node_ptr nid := new))
    \<and> (\<forall>m<max_nid st. node_addr L st m \<noteq> new) \<and> new \<notin> live_addrs (fs_sbi st)"
proof -
  note V = volume_okD [OF v]
  have nid: "nid < max_nid st" using view_less [OF p(2)] .
  have old: "ptr_table E L st (Node_ptr nid) = node_addr L st nid" using nid by simp
  from do_write_page_ok [OF v free logs, where k = "Node_ptr nid" and cp_ver = cp_ver and b = "Node_block p"
      and page = "node_page_info L p" and ty = NODE and summ = "set_summary nid 0 0"]
  obtain new b' sbi footer where w:
    "do_write_page E cp_ver (Node_block p) (node_page_info L p) NODE (ptr_table E L st (Node_ptr nid)) (set_summary nid 0 0) st
      = Some (new, b', st\<lparr>fs_sbi := sbi, fs_disk := (fs_disk st)(new \<mapsto> b')\<rparr>)"
    "fs_ok E sbi {}" "same_geometry (fs_sbi st) sbi" "new \<notin> live_addrs (fs_sbi st)" "\<not> hole_addr E new"
    "ptrs_ok (hole_addr E) (live_addrs sbi) ((ptr_table E L st)(Node_ptr nid := new))" "1 < main_addr sbi 0 0" "block_addr new"
    "b' = stamp_page cp_ver footer (Node_block p)" by blast
  from stamp_node [OF w(9) [symmetric]] obtain q where q: "b' = Node_block q" "skeleton L q = skeleton L p" "nb_addr q = nb_addr p" .
  have n: "node_addr L st m \<noteq> new" if "m < max_nid st" for m
    using ptrs_okD(1) [OF V(5), of "Node_ptr m"] that w(4,5) by auto
  note W = submit_view [where E = E and L = L and a = new and b = "Node_block q", OF w(3) n]
  show ?thesis
    by (intro exI [of _ new] exI [of _ q] exI [of _ "st\<lparr>fs_sbi := sbi, fs_disk := (fs_disk st)(new \<mapsto> b')\<rparr>"])
      (use w(1-7) q n W V(3) old in \<open>simp add: write_node_page_def\<close>)
qed

lemma f2fs_write_node_page_ok:
  assumes L: "layout_ok L" and v: "volume_ok E L st" and free: "\<exists>s. free_section (fs_sbi st) s"
    and logs: "sbi_active_logs (fs_sbi st) \<in> {2, 4, NR_CURSEG_TYPE}" and por: "\<not> sbi_por_doing (fs_sbi st)"
    and p: "pinned E L st nid" "node_view E L st nid = Some p" "ft_nid (nb_footer p) = nid"
  shows "\<exists>st'. f2fs_write_node_page E L cp_ver False nid st = Some (False, st') \<and> volume_ok E L st'
    \<and> same_tree L (node_view E L st) (node_view E L st') \<and> \<not> hole_addr E (node_addr L st' nid)
    \<and> (\<exists>q. node_view E L st' nid = Some q \<and> fs_disk st' = (fs_disk st)(node_addr L st' nid \<mapsto> Node_block q))
    \<and> node_addr L st' nid \<notin> live_addrs (fs_sbi st) \<and> (\<forall>m. m \<noteq> nid \<longrightarrow> node_addr L st' m = node_addr L st m)
    \<and> (\<forall>ino fi b. block_contents E L st' ino fi b = block_contents E L st ino fi b)
    \<and> node_view E L (st'\<lparr>fs_pages := (fs_pages st')(nid := None)\<rparr>) = node_view E L st'"
proof -
  note V = volume_okD [OF v]
  have nid: "nid < max_nid st" "node_addr L st nid \<noteq> NULL_ADDR E" using view_less [OF p(2)] p(2) by (auto simp: node_view_def split: if_splits)
  obtain ni nt where g: "get_node_info L (fs_sbi st) (fs_nat st) nid = (ni, nt)" by fastforce
  let ?st1 = "st\<lparr>fs_nat := nt\<rparr>"
  note I = get_node_info_reads [OF V(3) nid(1) g]
  note S = reads_stepped [OF I(2)] and D = readsD [OF I(2)]
  have v1: "volume_ok E L ?st1" by (rule stepped_volume_ok [OF v S])
  have addr: "node_addr L ?st1 m = node_addr L st m" for m by (rule fun_cong [OF D(5)])
  have pin: "pinned E L ?st1 nid" "node_view E L ?st1 nid = Some p" using steppedD(6) [OF S p(1)] D(2) p(2) by simp_all
  from write_node_page_ok [OF v1 _ _ pin, of cp_ver] free logs obtain new q st2 where
    w: "write_node_page E L cp_ver p nid (node_addr L ?st1 nid) ?st1 = Some (new, Node_block q, st2)"
      "skeleton L q = skeleton L p" "nb_addr q = nb_addr p" "fs_pages st2 = fs_pages st" "fs_nat st2 = nt"
      "same_geometry (fs_sbi st) (fs_sbi st2)" "node_view E L st2 = node_view E L ?st1" "store_ok E L st2" "\<not> hole_addr E new"
      "fs_disk st2 = (fs_disk st)(new \<mapsto> Node_block q)" "fs_ok E (fs_sbi st2) {}" "1 < main_addr (fs_sbi st2) 0 0"
      "ptrs_ok (hole_addr E) (live_addrs (fs_sbi st2)) ((ptr_table E L ?st1)(Node_ptr nid := new))"
      "\<forall>m<max_nid ?st1. node_addr L ?st1 m \<noteq> new" "new \<notin> live_addrs (fs_sbi st)" by auto
  let ?st3 = "st2\<lparr>fs_pages := (fs_pages st2)(nid \<mapsto> q)\<rparr>"
  note G = same_geometry_table [OF w(6), where L = L]
  have look: "nat_lookup L (fs_sbi ?st3) (fs_nat ?st3) = nat_lookup L (fs_sbi st) (fs_nat st)" using w(5) G(2) D(9) by simp
  have ok3: "store_ok E L ?st3" using w(8) by (simp add: store_ok_def)
  have free3: "nid \<notin> free_nids ?st3" using free_nids_null [OF ok3, of nid] nid(2) look by auto
  have nid3: "nid < max_nid ?st3" "nid \<noteq> 0" using nid w(5) D(6) store_okD(4) [OF V(3)] by (simp, metis)
  have ni3: "ni = (info_of nid (nat_lookup L (fs_sbi ?st3) (fs_nat ?st3) nid))\<lparr>ni_ino := rne_ino (nat_lookup L (fs_sbi ?st3) (fs_nat ?st3) nid)\<rparr>"
    unfolding look I(1) by (simp add: info_of_def)
  have legal: "legal_move E (node_addr L ?st3 nid) new" using w(9) nid(2) look by (auto simp: legal_move_def hole_addr_def)
  from set_node_addr_store [OF ok3 nid3 free3 ni3 refl legal] obtain nm where
    s: "set_node_addr E (ns_nm (fs_nat ?st3)) ni new = Some nm" "store_ok E L (?st3\<lparr>fs_nat := (fs_nat ?st3)\<lparr>ns_nm := nm\<rparr>\<rparr>)"
      "nat_lookup L (fs_sbi ?st3) ((fs_nat ?st3)\<lparr>ns_nm := nm\<rparr>) = (nat_lookup L (fs_sbi ?st3) (fs_nat ?st3))(nid := moved_raw E ni new)"
      "nm_max_nid nm = max_nid ?st3" by blast
  let ?st4 = "?st3\<lparr>fs_nat := (fs_nat ?st3)\<lparr>ns_nm := nm\<rparr>\<rparr>"
  have addr4: "node_addr L ?st4 m = (if m = nid then new else node_addr L st m)" for m
    using s(3) look by (simp add: moved_raw_def)
  have max4: "max_nid ?st4 = max_nid st" using s(4) w(5) D(6) by simp
  have new: "new \<noteq> NULL_ADDR E" "new \<noteq> NEW_ADDR E" using w(9) by (simp_all add: hole_addr_def)
  have view4: "node_view E L ?st4 = (node_view E L st)(nid \<mapsto> q)"
    and away: "node_view E L (?st4\<lparr>fs_pages := (fs_pages ?st4)(nid := None)\<rparr>) = (node_view E L st)(nid \<mapsto> q)"
  proof -
    have other: "node_addr L st m \<noteq> new" if "m < max_nid st" for m using w(14) that D(6) addr by simp
    have base: "node_view E L ?st4 m = ((node_view E L st)(nid \<mapsto> q)) m
        \<and> node_view E L (?st4\<lparr>fs_pages := (fs_pages ?st4)(nid := None)\<rparr>) m = ((node_view E L st)(nid \<mapsto> q)) m" for m
      using other [of m] nid(1) new w(4,10) addr4 max4 by (simp add: node_view_def cong: option.case_cong)
    show "node_view E L ?st4 = (node_view E L st)(nid \<mapsto> q)"
      and "node_view E L (?st4\<lparr>fs_pages := (fs_pages ?st4)(nid := None)\<rparr>) = (node_view E L st)(nid \<mapsto> q)"
      using base by blast+
  qed
  have same: "same_tree L (node_view E L st) (node_view E L ?st4)" using view4 w(2,3) p(2) by (simp add: same_tree_def)
  have tab: "ptr_table E L ?st4 = (ptr_table E L ?st1)(Node_ptr nid := new)"
  proof
    fix k
    show "ptr_table E L ?st4 k = ((ptr_table E L ?st1)(Node_ptr nid := new)) k"
      using addr4 max4 nid(1) addr D(2,6) same_tree_walk(3) [OF same] by (cases k) simp_all
  qed
  have "volume_ok E L ?st4" using V(1) s(2) w(11-13) tab by (simp add: volume_ok_def)
  moreover have "f2fs_write_node_page E L cp_ver False nid st = Some (False, ?st4)"
  proof -
    have "fs_pages st nid = Some p" using p(1,2) by (auto simp: pinned_def)
    moreover have "ni_blk_addr ni = node_addr L ?st1 nid" using I(1) addr by (simp add: info_of_def)
    ultimately show ?thesis using por p(3) g w(1) s(1) nid(2) addr by (simp add: f2fs_write_node_page_def f2fs_bug_on_def)
  qed
  moreover have "block_contents E L ?st4 ino fi b = block_contents E L st ino fi b" for ino fi b
  proof -
    have m: "file_map L (node_view E L ?st4) ino fi b = file_map L (node_view E L st) ino fi b" by (simp only: same_tree_walk(5) [OF same])
    have "hole_addr E (file_map L (node_view E L st) ino fi b) \<or> file_map L (node_view E L st) ino fi b \<noteq> new"
    proof (cases "leaf_node L (node_view E L st) ino fi b")
      case None
      then show ?thesis using V(7) by (simp add: file_map_def)
    next
      case (Some k)
      then show ?thesis using ptrs_okD(1) [OF V(5), of "Data_ptr (fst k) (snd k)"] w(15) by (auto simp: file_map_def)
    qed
    then show ?thesis using w(10) unfolding block_contents_def m Let_def by auto
  qed
  ultimately show ?thesis using same addr4 w(9,10,15) view4 away by (intro exI [of _ ?st4]) simp
qed

end
