(* ===== verification/Small_File.thy ===== *)
theory Small_File
  imports Small_Nat File_Write
begin

text \<open>
  A file on the small volume: inode 3 whose last possible block is reached through the nodes 4, 5
  and 6; block 0 is reserved, and \<open>d\<close> is the address of the last block.
\<close>

section \<open>The table\<close>

definition file_root :: "nat \<Rightarrow> nat_entry option" where
  "file_root = [4 \<mapsto> \<lparr> nat_checkpointed = True, nat_ni = \<lparr> ni_nid = 4, ni_ino = 3, ni_blk_addr = 64, ni_version = 0 \<rparr> \<rparr>,
     6 \<mapsto> \<lparr> nat_checkpointed = True, nat_ni = \<lparr> ni_nid = 6, ni_ino = 3, ni_blk_addr = 66, ni_version = 0 \<rparr> \<rparr>]"

definition file_ids :: "free_nid list" where
  "file_ids = map (\<lambda>i. \<lparr> fn_nid = i, fn_state = NID_NEW \<rparr>) [7, 8, 9]"

definition file_entries :: "f2fs_nat_entry list" where
  "file_entries = (replicate 455 no_node)[3 := raw_node 3 16, 4 := raw_node 3 64, 6 := raw_node 3 67]"

definition file_nm :: f2fs_nm_info where
  "file_nm = tab_nm\<lparr>nm_nat_root := file_root, nm_free_nid_list := file_ids, nm_fcnt := 3\<rparr>"

definition file_nat :: nat_state where
  "file_nat = \<lparr> ns_nm = file_nm, ns_journal = \<lparr> jr_n = 1, jr_entries = (5, raw_node 3 65) # replicate 37 (0, no_node) \<rparr>,
     ns_pages = (\<lambda>_. \<lparr> np_dirty = False, np_entries = file_entries \<rparr>), ns_on_build_free_nids = False \<rparr>"

lemma file_nm_parts [simp]:
  "nm_nat_blkaddr file_nm = 4" "nm_max_nid file_nm = 455" "nm_next_scan_nid file_nm = 0" "nm_nat_cnt file_nm = 2"
  "nm_nat_entries file_nm = [4]" "nm_dirty_nat_entries file_nm = [6]" "nm_fcnt file_nm = 3" "nm_nat_bitmap file_nm = replicate 8 0"
  "nm_free_nid_list file_nm = file_ids" "nm_nat_root file_nm = file_root"
  by (simp_all add: file_nm_def)

lemma file_nat_parts [simp]:
  "ns_nm file_nat = file_nm" "ns_journal file_nat = \<lparr> jr_n = 1, jr_entries = (5, raw_node 3 65) # replicate 37 (0, no_node) \<rparr>"
  "ns_pages file_nat a = \<lparr> np_dirty = False, np_entries = file_entries \<rparr>" "\<not> ns_on_build_free_nids file_nat"
  by (simp_all add: file_nat_def)

lemma file_journal: "journal_map (ns_journal file_nat) n = (if n = 5 then Some (raw_node 3 65) else None)"
  by (simp add: journal_map_def)

lemma file_page: "page_nat linux_layout vol_sbi file_nat n = file_entries ! (n mod 455)"
  by (simp add: page_nat_def)

lemma file_entries_nth: "i < 455 \<Longrightarrow> file_entries ! i =
    (if i = 3 then raw_node 3 16 else if i = 4 then raw_node 3 64 else if i = 6 then raw_node 3 67 else no_node)"
  by (simp add: file_entries_def nth_list_update)

lemma file_nat_ok: "nat_ok linux_layout vol_sbi file_nat"
proof -
  have "nat_geom linux_layout vol_sbi file_nm" by (simp add: nat_geom_def)
  moreover have "cache_ok file_nm" by (auto simp: cache_ok_def file_root_def split: if_splits)
  moreover have "journal_ok 38 (ns_journal file_nat)" by (simp add: journal_ok_def)
  moreover have "length file_entries = 455" by (simp add: file_entries_def)
  moreover have "disk_nat linux_layout vol_sbi file_nat 4 = raw_node 3 64"
    by (simp add: disk_nat_def file_journal file_page file_entries_nth del: file_nat_parts(2))
  ultimately show ?thesis
    unfolding nat_ok_def by (simp add: file_journal file_root_def raw_of_def raw_node_def del: file_nat_parts(2))
qed

lemma file_disk_nat: "n < 455 \<Longrightarrow> disk_nat linux_layout vol_sbi file_nat n =
    (if n = 3 then raw_node 3 16 else if n = 4 then raw_node 3 64 else if n = 5 then raw_node 3 65
     else if n = 6 then raw_node 3 67 else no_node)"
  by (simp add: disk_nat_def file_journal file_page file_entries_nth del: file_nat_parts(2))

lemma file_lookup: "n < 455 \<Longrightarrow> nat_lookup linux_layout vol_sbi file_nat n =
    (if n = 3 then raw_node 3 16 else if n = 4 then raw_node 3 64 else if n = 5 then raw_node 3 65
     else if n = 6 then raw_node 3 66 else no_node)"
  by (simp add: nat_lookup_def file_root_def file_disk_nat raw_of_def raw_node_def)

lemma file_free: "free_new file_ids = {7, 8, 9}"
  by (simp add: file_ids_def free_new_simps)

lemma file_node_mgr_ok: "node_mgr_ok linux_env linux_layout vol_sbi file_nat"
proof -
  have "nid_list_ok file_nm" by (simp add: nid_list_ok_def file_ids_def)
  moreover have "nids_free linux_env linux_layout vol_sbi file_nat"
    by (simp add: nids_free_def file_free file_lookup no_node_def linux_env_def)
  moreover have "no_new_on_disk linux_env linux_layout vol_sbi file_nat"
    by (simp add: no_new_on_disk_def file_page file_entries_nth raw_node_def no_node_def linux_env_def)
  ultimately show ?thesis using file_nat_ok by (simp add: node_mgr_ok_def)
qed

section \<open>The nodes\<close>

definition file_node :: "nat \<Rightarrow> nat \<Rightarrow> (nat \<Rightarrow> nat) \<Rightarrow> (nat \<Rightarrow> nat) \<Rightarrow> node_block" where
  "file_node nid ofs addr ids = zero_block\<lparr>nb_footer := fill_node_footer linux_layout zero_footer nid 3 ofs True,
     nb_addr := addr, nb_nid := ids\<rparr>"

definition file_blocks :: "nat \<Rightarrow> nat \<Rightarrow> node_block option" where
  "file_blocks d = [3 \<mapsto> file_node 3 0 ((\<lambda>_. 0)(0 := 2 ^ 32 - 1)) ((\<lambda>_. 0)(4 := 4)),
     4 \<mapsto> file_node 4 2041 (\<lambda>_. 0) ((\<lambda>_. 0)(1017 := 5)),
     5 \<mapsto> file_node 5 1038365 (\<lambda>_. 0) ((\<lambda>_. 0)(1017 := 6)),
     6 \<mapsto> file_node 6 1039383 ((\<lambda>_. 0)(1017 := d)) (\<lambda>_. 0)]"

definition file_state :: "nat \<Rightarrow> fs_state" where
  "file_state d = \<lparr> fs_sbi = vol_sbi, fs_nat = file_nat, fs_pages = (\<lambda>_. None),
     fs_disk = (\<lambda>a. if a = 16 then map_option Node_block (file_blocks d 3)
       else if 64 \<le> a \<and> a < 67 then map_option Node_block (file_blocks d (a - 60)) else None) \<rparr>"

definition file_inode :: inode where
  "file_inode = \<lparr> i_ino = 3, i_dir = False, i_size = 0, i_blocks = 4, i_info = plain_info \<rparr>"

lemma file_state_parts [simp]:
  "fs_sbi (file_state d) = vol_sbi" "fs_nat (file_state d) = file_nat" "fs_pages (file_state d) = (\<lambda>_. None)"
  by (simp_all add: file_state_def)

lemma file_store_ok: "store_ok linux_env linux_layout (file_state d)"
  using file_node_mgr_ok
  by (auto simp: store_ok_def file_disk_nat file_lookup raw_node_def no_node_def linux_env_def)

lemma file_view: "node_view linux_env linux_layout (file_state d) = file_blocks d"
proof
  fix n
  show "node_view linux_env linux_layout (file_state d) n = file_blocks d n"
  proof (cases "n < 455")
    case True
    then show ?thesis
      by (auto simp: node_view_def file_lookup raw_node_def no_node_def linux_env_def file_state_def file_blocks_def)
  qed (auto simp: node_view_def file_blocks_def)
qed

lemma file_node_footer:
  assumes "ofs < 2 ^ 29"
  shows "footer_is linux_layout (file_node nid ofs addr ids) nid 3 ofs"
proof -
  have "OFFSET_BIT_SHIFT linux_layout = 3" by (simp add: linux_layout_def)
  then have "ofs_of_node linux_layout (fill_node_footer linux_layout zero_footer nid 3 ofs True) = ofs"
    using ofs_fill_node_footer [OF linux_layout_ok] assms by simp
  then show ?thesis by (simp add: footer_is_def file_node_def) (simp add: fill_node_footer_def)
qed

lemma file_node_parts [simp]: "nb_addr (file_node nid ofs addr ids) = addr" "nb_nid (file_node nid ofs addr ids) = ids"
  by (simp_all add: file_node_def)

lemma file_tree: "tree_ok linux_layout (file_blocks d) 3"
  unfolding tree_ok_def
proof (intro allI impI)
  fix s n nid
  assume s: "place_nofs linux_layout s = Some n" and w: "walk (file_blocks d) 3 s = Some nid"
  have N: "NIDS_PER_BLOCK linux_layout = 1018" by (simp add: linux_layout_def)
  show "\<exists>p. file_blocks d nid = Some p \<and> footer_is linux_layout p nid 3 n"
    using w by (cases rule: place_nofs_cases [OF s]) (auto simp: N file_blocks_def file_node_footer split: if_splits)
qed

section \<open>The blocks of the file\<close>

definition last_block :: nat where "last_block = max_blocks linux_layout plain_info - 1"

lemma file_sizes: "ADDRS_PER_BLOCK linux_layout = 1018" "NIDS_PER_BLOCK linux_layout = 1018" "addrs_per_inode linux_layout plain_info = 923"
  by (simp_all add: linux_layout_def addrs_per_inode_def plain_info_def is_inode_flag_set_def)

lemma leaf_first: "leaf_node linux_layout P ino plain_info 0 = Some (ino, 0)"
proof -
  have "get_node_path linux_layout plain_info 0 = Some (0, leaf_path linux_layout In_inode 0)"
    using get_node_path_leaf [OF linux_layout_ok, of In_inode 0 plain_info] by (simp add: leaf_defs file_sizes)
  then show ?thesis by (simp add: leaf_node_def leaf_path_def path_slots_def)
qed

lemma leaf_last: "leaf_node linux_layout (file_blocks d) 3 plain_info last_block = Some (6, 1017)"
proof -
  let ?l = "Double 1017 1017"
  have l: "leaf_ok linux_layout ?l" "1017 < leaf_room linux_layout plain_info ?l" by (simp_all add: leaf_ok_def leaf_room_def file_sizes)
  have b: "leaf_start linux_layout plain_info ?l + 1017 = last_block"
    by (simp add: leaf_start_def leaf_index_def file_sizes last_block_def max_blocks_def)
  have "get_node_path linux_layout plain_info last_block = Some (3, leaf_path linux_layout ?l 1017)"
    using get_node_path_leaf [OF linux_layout_ok l] unfolding b by (simp add: leaf_path_def)
  moreover have "walk (file_blocks d) 3 (leaf_slots ?l) = Some 6"
    by (simp add: leaf_slots_def file_blocks_def)
  ultimately show ?thesis
    using leaf_path_slots(1) [OF linux_layout_ok l(1), of 1017] by (simp add: leaf_node_def leaf_path_def leaf_path_last)
qed

lemma file_map_first: "file_map linux_layout (file_blocks d) 3 plain_info 0 = 2 ^ 32 - 1"
  by (simp add: file_map_def leaf_first addr_at_def file_blocks_def)

lemma file_map_last: "file_map linux_layout (file_blocks d) 3 plain_info last_block = d"
  unfolding file_map_def leaf_last by (simp add: addr_at_def file_blocks_def)

lemma file_extent: "extent_ok plain_info tab"
  by (simp add: extent_ok_def plain_info_def)

lemma vol_live_main: "s < 10 \<Longrightarrow> b < 8 \<Longrightarrow> s = 0 \<and> b = 0 \<or> s = 6 \<and> b < 3 \<Longrightarrow> main_addr vol_sbi s b \<in> live_addrs vol_sbi"
  by (rule iffD2 [OF live_addrs_main]) (simp_all add: vol_live)

lemma file_live: "16 \<in> live_addrs vol_sbi" "64 \<in> live_addrs vol_sbi" "65 \<in> live_addrs vol_sbi" "66 \<in> live_addrs vol_sbi"
  using vol_live_main [of 0 0] vol_live_main [of 6 0] vol_live_main [of 6 1] vol_live_main [of 6 2] by (simp_all add: main_addr_def)

lemma file_hole: "hole_addr linux_env a \<longleftrightarrow> a = 0 \<or> a = 2 ^ 32 - 1"
  by (simp add: hole_addr_def linux_env_def)

lemma file_ptrs:
  "ptr_table linux_env linux_layout (file_state (2 ^ 32 - 1)) p = (case p of
     Node_ptr n \<Rightarrow> if n = 3 then 16 else if n = 4 then 64 else if n = 5 then 65 else if n = 6 then 66 else 0
   | Data_ptr n i \<Rightarrow> if n = 3 \<and> i = 0 \<or> n = 6 \<and> i = 1017 then 2 ^ 32 - 1 else 0)"
proof (cases p)
  case (Node_ptr n)
  then show ?thesis by (auto simp: file_lookup raw_node_def no_node_def linux_env_def)
next
  case (Data_ptr n i)
  then show ?thesis by (auto simp: file_view addr_at_def file_blocks_def)
qed

lemma file_volume_ok: "volume_ok linux_env linux_layout (file_state (2 ^ 32 - 1))"
proof -
  have "ptrs_ok (hole_addr linux_env) (live_addrs vol_sbi) (ptr_table linux_env linux_layout (file_state (2 ^ 32 - 1)))"
    using file_live unfolding ptrs_ok_def file_ptrs by (auto simp: file_hole split: block_ptr.splits if_splits)
  moreover have "1 < main_addr vol_sbi 0 0" by (simp add: main_addr_def)
  ultimately show ?thesis using linux_env_ok vol_fs_ok file_store_ok by (simp add: volume_ok_def)
qed

lemma file_free_ids: "card (free_nids (file_state d)) = 3"
  by (simp add: file_free)

lemma file_section: "\<exists>s. free_section (fs_sbi (file_state d)) s"
  using vol_free_section by auto

lemma file_logs: "sbi_active_logs (fs_sbi (file_state d)) \<in> {2, 4, NR_CURSEG_TYPE}" "\<not> sbi_por_doing (fs_sbi (file_state d))"
  by (simp_all add: vol_sbi_def NR_CURSEG_TYPE_def)

lemma file_inode_parts [simp]: "i_ino file_inode = 3" "i_info file_inode = plain_info" "i_dir file_inode = False"
  by (simp_all add: file_inode_def)

lemma file_tree_state: "tree_ok linux_layout (node_view linux_env linux_layout (file_state d)) 3"
  by (simp add: file_view file_tree)

text \<open>The inode's block is in memory.\<close>

definition file_open :: fs_state where
  "file_open = (file_state (2 ^ 32 - 1))\<lparr>fs_pages := [3 \<mapsto> file_node 3 0 ((\<lambda>_. 0)(0 := 2 ^ 32 - 1)) ((\<lambda>_. 0)(4 := 4))]\<rparr>"

lemma file_open_parts [simp]: "fs_sbi file_open = vol_sbi" "fs_nat file_open = file_nat"
  "fs_pages file_open = [3 \<mapsto> file_node 3 0 ((\<lambda>_. 0)(0 := 2 ^ 32 - 1)) ((\<lambda>_. 0)(4 := 4))]"
  by (simp_all add: file_open_def)

lemma file_open_view: "node_view linux_env linux_layout file_open = file_blocks (2 ^ 32 - 1)"
proof -
  have "file_blocks (2 ^ 32 - 1) 3 = Some (file_node 3 0 ((\<lambda>_. 0)(0 := 2 ^ 32 - 1)) ((\<lambda>_. 0)(4 := 4)))" by (simp add: file_blocks_def)
  then show ?thesis
    using view_in_memory [of linux_env linux_layout "file_state (2 ^ 32 - 1)" 3] by (simp add: file_open_def file_view)
qed

lemma file_open_ok: "volume_ok linux_env linux_layout file_open"
proof -
  have "ptr_table linux_env linux_layout file_open = ptr_table linux_env linux_layout (file_state (2 ^ 32 - 1))"
    by (rule ptr_table_view) (simp_all add: file_open_view file_view)
  moreover have "store_ok linux_env linux_layout file_open" using file_store_ok [of "2 ^ 32 - 1"] by (simp add: store_ok_def)
  ultimately show ?thesis using file_volume_ok by (simp add: volume_ok_def)
qed

end
