(* ===== verification/Spec2Isabelle.thy ===== *)
theory Spec2Isabelle
  imports Small_Cp Small_Volume Gc_Thread Gc_Cost Sit_Disk Small_Mount Nat_Flush Block_Store File_Read File_Alloc Node_Write Small_File
begin

text \<open>
  A model of the flash-friendly file system in \<open>src/filesystem/f2fs\<close>, a kernel module with the
  author's own cleaning policy (cost, age and times), and the theorems that make it correct.

  \<^bold>\<open>The program.\<close>  A volume is a row of segments of blocks; segments form sections and sections
  zones.  Six logs write blocks one after the other, each into its own segment
  (\<open>segment.c\<close>).  A validity map per segment tells its live blocks, the segment information table;
  bitmaps tell the free segments and sections, lists the dirty ones.  When free sections get
  scarce, the cleaner (\<open>gc.c\<close>) picks victim sections by a cost.  Files are trees of node blocks
  (\<open>node.c\<close>): the inode, indirect nodes and direct nodes with the addresses of data blocks.  A node
  has an id, and the node address table maps ids to addresses; its entries are cached in
  memory, kept in a journal or in blocks that have two places on disk each.

  \<^bold>\<open>The theories, in the order of the code's layers.\<close>

  \<^item> \<open>Prelude\<close>: C integers with their wrap-around, population counts of bitmaps.
  \<^item> \<open>Bit_Search\<close>, \<open>F2fs_Types\<close>, \<open>F2fs_Bits\<close>, \<open>Rev_Search\<close>, \<open>Rev_Search_Spec\<close>: the contract of a bitmap
    search (locale \<open>bit_search\<close>), the records of the segment manager (\<open>segment.h\<close>, \<open>f2fs.h\<close>), the bit
    operations, and the word-at-a-time searches of \<open>segment.c\<close> against the contract.
  \<^item> \<open>Segment_Addr\<close>, \<open>Free_Segmap\<close>, \<open>New_Segment\<close>: address macros; the free bitmaps and their invariant
    \<open>free_ok\<close>; the choice of a new segment.
  \<^item> \<open>Sit\<close>, \<open>Sit_Inv\<close>, \<open>Sit_Update\<close>, \<open>Sit_Disk\<close>: the segment information table, its invariant \<open>sit_ok\<close>, the
    update of one block, the form on disk and the two places of a table block.
  \<^item> \<open>Dirty_Seglist\<close>, \<open>Prefree\<close>, \<open>Discard\<close>: dirty lists (\<open>dirty_ok\<close>), prefree segments, discards.
  \<^item> \<open>Gc_Victim\<close>, \<open>Gc_Search\<close>, \<open>Gc_Correct\<close>, \<open>Gc_Cost\<close>, \<open>Gc_Thread\<close>: victim selection, the
    thread's waiting time.  The search loop is a \<open>partial_function\<close>; that it ends is proved.  \<open>Gc_Cost\<close> gives the cost of
    a section as a function of the sums over its segments (\<open>section_costs\<close>), their order, and the searches that find
    nothing because all modification times are equal.
  \<^item> \<open>Space\<close>: counters and the predicates that decide when to clean or to reuse.
  \<^item> \<open>Curseg\<close>, \<open>Curseg_Inv\<close>, \<open>Curseg_Move\<close>, \<open>Curseg_Ssr\<close>, \<open>Curseg_Alloc\<close>: the logs and
    \<open>allocate_data_block\<close>; \<open>fs_ok E sbi X\<close> is the invariant of the whole segment manager, where the logs
    in \<open>X\<close> may have no space.  Seen from outside it is a set of live addresses.
  \<^item> \<open>Block_Store\<close>: that view as an interface (locale \<open>block_store\<close>), interpreted on the segment manager:
    pointers kept by its users never meet.
  \<^item> \<open>Node_Path\<close>: the path of a block in the tree and its inverse, footers of nodes; the locale
    \<open>block_index\<close> with its interpretation on the layout of Linux.
  \<^item> \<open>Nat_Types\<close>, \<open>Nat_Ops\<close> and \<open>Nat_Inv\<close>, \<open>Nat_Cache\<close>, \<open>Nat_Move\<close>, \<open>Nat_Flush\<close>: the node address table.
    \<open>nat_lookup\<close> is the table as its users see it, \<open>disk_nat\<close> what a checkpoint has on disk, \<open>nat_ok\<close>
    the invariant.  \<open>Free_Nids\<close>: free node ids (\<open>node_mgr_ok\<close>).
  \<^item> \<open>Extent_Cache\<close>, \<open>Node_Store\<close>, \<open>Node_Walk\<close>, \<open>Node_State\<close>: the extent cache of an inode, node pages,
    \<open>get_dnode_of_data\<close>; \<open>tree_ok\<close> says that the footers of the nodes tell their places, \<open>file_map\<close> is the
    file as a function from blocks to addresses.  \<open>Node_Make\<close>, \<open>Dnode\<close>: making the missing nodes of a
    path changes no block of any file, and fails only for want of room (\<open>has_room\<close>, \<open>accounted\<close>).
  \<^item> \<open>Page_Write\<close>, \<open>File_Data\<close>: writing pages (\<open>segment.c\<close>, \<open>node.c\<close>) and the data blocks of a file
    (\<open>data.c\<close>).  \<open>File_Write\<close>, \<open>Node_Write\<close>, \<open>File_Alloc\<close>, \<open>File_Read\<close>: their correctness.  \<open>volume_ok\<close> is the
    invariant of the volume: of the segment manager, of the node manager, and of all pointers
    to blocks, which never meet.  \<open>block_contents\<close> is what a reader of a block finds.
  \<^item> \<open>Sit_Flush\<close>, \<open>Sit_Build\<close>: the segment information table written at a checkpoint and read at mount;
    \<open>disk_sit\<close> is the table on disk.  \<open>Compact_Sums\<close>: the compact summaries of a checkpoint pack.  \<open>Mount\<close>,
    \<open>Mount_Segs\<close>, \<open>Mount_Logs\<close>, \<open>Mount_Ok\<close>: \<open>build_segment_manager\<close>, which makes \<open>fs_ok\<close> true from a well-formed
    volume (\<open>image_ok\<close>).  \<open>Remount\<close>: a mount after a checkpoint.
  \<^item> \<open>Orphans\<close>, \<open>Checkpoint\<close>: orphan inodes and \<open>write_checkpoint\<close> (\<open>checkpoint.c\<close>): what is modelled of a pack is the list of
    its blocks, each by what was written into it; \<open>cp_layout\<close> (argument \<open>C\<close>) reads blocks.  While the volume is recovered or after an I/O error
    (\<open>meta_writable\<close>) no meta page is written: the pages stay dirty, the loop \<open>sync_dirty_meta\<close> at the beginning of
    \<open>do_checkpoint\<close> does not end when there is one, and no block of the pack reaches the disk.  \<open>Pack\<close>: the shape of the pack.
    \<open>Crash\<close>: the machine stops when any set of its blocks has been written (\<open>torn\<close>); \<open>attempts_mix\<close> shows why the old contents of
    the last block matter: only the version tells two attempts apart.  \<open>Cp_Runs\<close>: histories of attempts
    that are cut off after any number of blocks, a step relation with the invariant \<open>cp_inv\<close>.  \<open>Cp_Checksum\<close>: what
    \<open>f2fs_crc32\<close> detects.  \<open>Cp_Mount\<close>: a checkpoint and the mount after it are inverse.
  \<^item> \<open>Small_Volume\<close>, \<open>Small_Nat\<close>, \<open>Small_File\<close>, \<open>Small_Mount\<close>, \<open>Small_Cp\<close>: a small volume, table, file and checkpoint on which
    the hypotheses hold.

  \<^bold>\<open>Conventions.\<close>  Unsigned C integers are natural numbers with the casts \<open>u8\<close> to \<open>u64\<close> and the wrapping
  subtractions written out; words are used where bits matter.  \<open>BUG()\<close> stops the machine: the
  result is \<open>None\<close>.  \<open>f2fs_bug_on\<close> does so only with \<open>CONFIG_F2FS_CHECK_FS\<close>, a field of the environment.
  The record \<open>f2fs_env\<close> (argument \<open>E\<close>) holds what is not in the repository: the kernel's bitmap searches
  and constants of kernel headers; \<open>kernel_ok\<close> and \<open>addr_consts\<close> state what the code relies on, and
  \<open>linux_env\<close> is an instance.  \<open>node_layout\<close> (argument \<open>L\<close>) holds the constants of \<open>linux/f2fs_fs.h\<close>, with
  \<open>layout_ok\<close> and \<open>linux_layout\<close>.  Leading underscores of C names are dropped.  Loops that may not end are
  \<open>partial_function (option)\<close>, and that they end is a theorem.  Only the loop of \<open>get_data_block\<close> has fuel: a
  round that goes on maps one more block, so one more than the number of requested blocks is enough.

  \<^bold>\<open>Not modelled.\<close>  Locks and the interleaving they exclude, memory allocation that fails, statistics and
  trace points; block input and output beyond the map from addresses to blocks; which pages of nodes and data are dirty.
  Indices of file blocks are below \<open>2 ^ 63\<close>, where the signed \<open>long\<close> of \<open>get_node_path\<close> agrees with a natural number.  Of f2fs: moving
  the blocks of a victim, reading the superblock, writing back the dirty pages of directories before a checkpoint, deleting the
  recovered orphans, rolling forward (\<open>recovery.c\<close>), directories, inline data, extended attributes.  The validity of a pack is
  that of its first and its last block, so a disk that loses a block between them while it keeps both is outside the
  guarantee of the code, and of \<open>checkpoint_survives_remount\<close>.  The other projects in the repository are independent exercises, vendored
  tools or hardware descriptions.
\<close>

text \<open>C1: Seen as the set of live block addresses of the volume, allocate_data_block with a free section left never fails, returns an address that was not live and is not a reserved one, makes it live and the old address of the block dead, changes no other address and keeps the invariant of the segment manager.\<close>

theorem allocate_data_block_correct:
  assumes "kernel_ok E" and "fs_ok E sbi {}" and "t < NR_CURSEG_TYPE" and "free_section sbi s" and "old_addr E sbi old"
  shows "\<exists>new footer sbi'. allocate_data_block E sbi has_page old summ t = Some (new, footer, sbi')
    \<and> fs_ok E sbi' {} \<and> same_layout E sbi sbi' \<and> new \<notin> live_addrs sbi \<and> new \<noteq> NULL_ADDR E \<and> new \<noteq> NEW_ADDR E
    \<and> live_addrs sbi' = insert new (live_addrs sbi) - {old}"
  by (rule allocate_data_block_ok [OF assms])

theorem allocate_data_block_correct_witness:
  "\<exists>new footer sbi'. allocate_data_block linux_env vol_sbi True 16 \<lparr> sum_nid = 3, sum_ofs_in_node = 0, sum_version = 1 \<rparr> 0
      = Some (new, footer, sbi') \<and> fs_ok linux_env sbi' {} \<and> new \<notin> live_addrs vol_sbi \<and> 16 \<notin> live_addrs sbi'"
  using allocate_data_block_correct [OF linux_env_ok vol_fs_ok _ vol_free_section vol_old_addr(1), of 0 True
      "\<lparr> sum_nid = 3, sum_ofs_in_node = 0, sum_version = 1 \<rparr>"] by (auto simp: NR_CURSEG_TYPE_def)

text \<open>C2: write_checkpoint and the next mount are inverse to each other: from a well-formed state in which no I/O error is recorded and no recovery runs the checkpoint always gets through, no meta page is dirty afterwards, get_valid_checkpoint picks it, recover_orphan_inodes is given exactly the orphans, and build_segment_manager rebuilds a segment manager that has the invariant, with every entry as it was in memory (only the number of cleanings is lost), every log at its segment, position and mode, and the journal of the NAT.\<close>

theorem checkpoint_survives_remount:
  assumes "kernel_ok E" and "reads_back C" and "sums_full C (sbi_blocks_per_seg (cps_sbi S))" and "can_checkpoint E L C K rsb S" and "0 < bio"
    and "cp_area rsb (cps_sbi S)" and "committed C rsb (cps_sbi S) disk (cps_ckpt S)" and "meta_writable (cb_ckpt (cps_ckpt S)) (cps_sbi S)"
    and "same_volume rsb (cps_sbi S) m" and "\<And>a. sum_room C (sbi_blocks_per_seg m) (disk a)" and "um \<or> node_logs_readable nn (cps_sbi S)"
  shows "\<exists>S' ws ds M. write_checkpoint E L C K rsb S um = Some (S', ws, ds)
    \<and> dirty_meta S' = 0 \<and> (\<forall>a. \<not> sp_dirty (ss_pages (cps_sit S') a) \<and> \<not> np_dirty (ns_pages (cps_nat S') a))
    \<and> get_valid_checkpoint C rsb (put_blocks ws disk) = Inr (cps_ckpt S')
    \<and> fst (recover_orphan_inodes C rsb (cb_ckpt (cps_ckpt S')) m (put_blocks ws disk)) = oi_list (cps_orphans S)
    \<and> remount E C K n rsb (cb_ckpt (cps_ckpt S')) nn bio (put_blocks ws disk) (ss_pages (cps_sit S')) m = Some (0, ns_journal (cps_nat S'), M)
    \<and> fs_ok E (ss_sbi M) {} \<and> TOTAL_SEGS (ss_sbi M) = TOTAL_SEGS (cps_sbi S)
    \<and> (\<forall>k<TOTAL_SEGS (cps_sbi S). same_but_cleaning (sit_entry (cps_sit S) k) (sit_entry M k))
    \<and> (\<forall>t<NR_CURSEG_TYPE. cs_segno (CURSEG_I (ss_sbi M) t) = cs_segno (CURSEG_I (cps_sbi S) t)
         \<and> cs_next_blkoff (CURSEG_I (ss_sbi M) t) = cs_next_blkoff (CURSEG_I (cps_sbi S) t)
         \<and> cs_alloc_type (CURSEG_I (ss_sbi M) t) = cs_alloc_type (CURSEG_I (cps_sbi S) t))"
proof (rule checkpoint_then_mount [OF assms(1,4,2,5,3,8), of um])
  fix S' ws ds
  assume w: "write_checkpoint E L C K rsb S um = Some (S', ws, ds)" and pk: "pack_at rsb (cps_sbi S) (cps_ckpt S') ws"
    and v: "cb_version (cps_ckpt S') = u64 (cb_version (cps_ckpt S) + 1)"
    and clean: "\<And>a. \<not> sp_dirty (ss_pages (cps_sit S') a)" "\<And>a. \<not> np_dirty (ns_pages (cps_nat S') a)" "cps_dirty S' = []"
    and crc: "f2fs_crc_valid C (cb_crc (cps_ckpt S')) (cb_ckpt (cps_ckpt S')) (ck_checksum_offset (cb_ckpt (cps_ckpt S')))"
      "ck_checksum_offset (cb_ckpt (cps_ckpt S')) = ck_checksum_offset (cb_ckpt (cps_ckpt S))"
  have "cp_ok C (cps_ckpt S')" using crc assms(7) by (simp add: cp_ok_def committed_def Let_def)
  note found = checkpoint_found [OF assms(2,6,7) this v pk]
  have "dirty_meta S' = 0" using clean by (simp add: dirty_meta_def)
  assume "\<And>disk m n nn. same_volume rsb (cps_sbi S) m \<Longrightarrow> (\<And>a. sum_room C (sbi_blocks_per_seg m) (disk a)) \<Longrightarrow> um \<or> node_logs_readable nn (cps_sbi S) \<Longrightarrow>
       fst (recover_orphan_inodes C rsb (cb_ckpt (cps_ckpt S')) m (put_blocks ws disk)) = oi_list (cps_orphans S) \<and>
       (\<exists>M. remount E C K n rsb (cb_ckpt (cps_ckpt S')) nn bio (put_blocks ws disk) (ss_pages (cps_sit S')) m = Some (0, ns_journal (cps_nat S'), M)
          \<and> fs_ok E (ss_sbi M) {} \<and> TOTAL_SEGS (ss_sbi M) = TOTAL_SEGS (cps_sbi S)
          \<and> (\<forall>k<TOTAL_SEGS (cps_sbi S). same_but_cleaning (sit_entry (cps_sit S) k) (sit_entry M k))
          \<and> (\<forall>t<NR_CURSEG_TYPE. cs_segno (CURSEG_I (ss_sbi M) t) = cs_segno (CURSEG_I (cps_sbi S) t)
               \<and> cs_next_blkoff (CURSEG_I (ss_sbi M) t) = cs_next_blkoff (CURSEG_I (cps_sbi S) t)
               \<and> cs_alloc_type (CURSEG_I (ss_sbi M) t) = cs_alloc_type (CURSEG_I (cps_sbi S) t)))"
  from this [of m disk nn n, OF assms(9,10,11)] show ?thesis using w found clean \<open>dirty_meta S' = 0\<close> by blast
qed

theorem checkpoint_survives_remount_witness:
  "\<exists>S' ws ds M. write_checkpoint linux_env linux_layout linux_cp linux_sums cp_super (cp_mem 1) True = Some (S', ws, ds)
    \<and> get_valid_checkpoint linux_cp cp_super (put_blocks ws cp_disk) = Inr (cps_ckpt S')
    \<and> remount linux_env linux_cp linux_sums 8 cp_super (cb_ckpt (cps_ckpt S')) mnt_nn 256 (put_blocks ws cp_disk) (ss_pages (cps_sit S')) mnt_sbi
        = Some (0, ns_journal (cps_nat S'), M)
    \<and> fs_ok linux_env (ss_sbi M) {} \<and> (\<forall>k<10. same_but_cleaning (get_seg_entry vol_sbi k) (sit_entry M k))"
proof -
  have c: "committed linux_cp cp_super (cps_sbi (cp_mem 1)) cp_disk (cps_ckpt (cp_mem 1))"
    and u: "meta_writable (cb_ckpt (cps_ckpt (cp_mem 1))) (cps_sbi (cp_mem 1))"
    using cp_committed cp_last_mem cp_writable [of 1] by (simp, blast)
  have r: "sum_room linux_cp (sbi_blocks_per_seg mnt_sbi) (cp_disk a)" for a using cp_disk_room by (simp add: mnt_sbi_def vol_sbi_def)
  have "sums_full linux_cp (sbi_blocks_per_seg (cps_sbi (cp_mem 1)))" "cp_area cp_super (cps_sbi (cp_mem 1))" "same_volume cp_super (cps_sbi (cp_mem 1)) mnt_sbi"
    using linux_sums_full cp_area_ok cp_same_volume by simp_all
  from checkpoint_survives_remount [OF linux_env_ok linux_reads_back this(1) cp_can_checkpoint _ this(2) c u this(3) r, of 256 True mnt_nn 8]
  show ?thesis by simp blast
qed

text \<open>C3: No history of crashes loses a checkpoint: after any number of attempts to write the next checkpoint, each cut off after any number of its blocks and leaving its remains behind, get_valid_checkpoint finds the last one that was written to the end.\<close>

theorem crashes_keep_last_checkpoint:
  assumes "reads_back C" and "cp_area rsb sbi" and "kernel_ok E" and "checkpoint_runs E C K rsb sbi disk0 cb0 disk cb" and "cp_inv C rsb sbi disk0 cb0"
  shows "get_valid_checkpoint C rsb disk = Inr cb"
  by (rule runs_mount [OF assms])

theorem crashes_keep_last_checkpoint_witness:
  "\<exists>S' ws ds. do_checkpoint linux_env linux_cp linux_sums cp_super (cp_mem 2) True = Some (S', ws, ds)
    \<and> get_valid_checkpoint linux_cp cp_super (put_blocks (take 1 ws) cp_disk) = Inr cp_last
    \<and> get_valid_checkpoint linux_cp cp_super (put_blocks ws (put_blocks (take 1 ws) cp_disk)) = Inr (cps_ckpt S')"
proof -
  obtain S' ws ds where S': "do_checkpoint linux_env linux_cp linux_sums cp_super (cp_mem 2) True = Some (S', ws, ds)" "foreign linux_cp ws" "2 \<le> length ws"
    by (rule cp_next_pack)
  note r0 = checkpoint_runs.start [of linux_env linux_cp linux_sums cp_super cp_sbi cp_disk cp_last]
  have g: "goes_on linux_cp linux_sums cp_super cp_sbi cp_last (cp_mem 2)" by (rule cp_goes_on)
  have "1 \<le> length ws" "1 \<noteq> length ws" using S'(3) by simp_all
  with checkpoint_runs.attempt [OF r0 g S'(1,2) this(1)]
  have r1: "checkpoint_runs linux_env linux_cp linux_sums cp_super cp_sbi cp_disk cp_last (put_blocks (take 1 ws) cp_disk) cp_last" by simp
  have r2: "checkpoint_runs linux_env linux_cp linux_sums cp_super cp_sbi cp_disk cp_last (put_blocks ws (put_blocks (take 1 ws) cp_disk)) (cps_ckpt S')"
    using checkpoint_runs.attempt [OF r1 g S'(1,2) order_refl] S'(3) by (auto split: if_splits)
  note K = crashes_keep_last_checkpoint [OF linux_reads_back cp_area_ok linux_env_ok _ cp_disk_inv]
  show ?thesis using S'(1) K [OF r1] K [OF r2] by blast
qed

text \<open>C4: A checkpoint is atomic whatever part of it reaches the disk, in whatever order, on a disk that has no remains of an earlier attempt at the same version, while no I/O error is recorded and no recovery runs: when the machine stops with any set of the blocks of the pack written, get_valid_checkpoint finds the new checkpoint exactly when its first and its last block are among them, and the old one otherwise.\<close>

theorem checkpoint_atomic:
  assumes "kernel_ok E" and "reads_back C" and "pack_ready C K rsb S" and "dirty_ok (cps_sbi S)" "TOTAL_SEGS (cps_sbi S) < 2 ^ 32 - 1"
    and "cp_area rsb (cps_sbi S)" and "committed C rsb (cps_sbi S) disk old" and "next_unused C rsb (cps_sbi S) disk (cb_version old)"
    and "cb_version (cps_ckpt S) = u64 (cb_version old + 1)" and "ck_checksum_offset (cb_ckpt (cps_ckpt S)) < blocksize C"
    and "meta_writable (cb_ckpt (cps_ckpt S)) (cps_sbi S)"
  shows "\<exists>S' ws ds. do_checkpoint E C K rsb S um = Some (S', ws, ds)
    \<and> (\<forall>X. get_valid_checkpoint C rsb (torn X ws disk) = Inr (if fst (ws ! 0) \<in> X \<and> fst (last ws) \<in> X then cps_ckpt S' else old))"
proof -
  obtain T where T: "sync_dirty_meta S = Some T" using sync_dirty_meta_writable [OF assms(11)] by blast
  obtain S' ws ds nid where S': "do_checkpoint E C K rsb S um = Some (S', if writable S then ws else [], ds)" "cps_ckpt S' = modify_checkpoint E C K S nid um"
    "pack_at rsb (cps_sbi S) (cps_ckpt S') ws"
    by (rule do_checkpoint_pack [OF assms(3,1,4,5) T, of um]) (rule that, assumption+)
  note F = modify_checkpoint_fields [where E = E and C = C and K = K and S = S and nid = nid and um = um, folded S'(2)]
  have "cp_ok C (cps_ckpt S')" "cb_version (cps_ckpt S') = u64 (cb_version old + 1)" using F(1,2,19) assms(9,10) by (simp_all add: cp_ok_def)
  then show ?thesis using S'(1) assms(11) pack_atomic [OF assms(2,6,7,8) _ _ S'(3)] by (intro exI [of _ S'] exI [of _ ws] exI [of _ ds]) simp
qed

theorem checkpoint_atomic_witness:
  "\<exists>S' ws ds. do_checkpoint linux_env linux_cp linux_sums cp_super (cp_mem 2) True = Some (S', ws, ds)
    \<and> get_valid_checkpoint linux_cp cp_super (torn (- {fst (last ws)}) ws cp_disk) = Inr cp_last
    \<and> get_valid_checkpoint linux_cp cp_super (torn UNIV ws cp_disk) = Inr (cps_ckpt S')"
proof -
  have d: "dirty_ok (cps_sbi (cp_mem 2))" "TOTAL_SEGS (cps_sbi (cp_mem 2)) < 2 ^ 32 - 1" using fs_okD(3) [OF cp_fs_ok] by simp_all
  have c: "cp_area cp_super (cps_sbi (cp_mem 2))" "committed linux_cp cp_super (cps_sbi (cp_mem 2)) cp_disk cp_last"
    "next_unused linux_cp cp_super (cps_sbi (cp_mem 2)) cp_disk (cb_version cp_last)"
    using cp_area_ok cp_committed cp_last_mem(2) by simp_all
  have v: "cb_version (cps_ckpt (cp_mem 2)) = u64 (cb_version cp_last + 1)" unfolding cp_last_mem(2) cp_mem_version by (simp add: u64_def)
  have "ck_checksum_offset (cb_ckpt (cps_ckpt (cp_mem 2))) < blocksize linux_cp" unfolding cp_mem_version by simp
  from checkpoint_atomic [OF linux_env_ok linux_reads_back cp_pack_ready d c v this cp_writable, of True]
  obtain S' ws ds where S': "do_checkpoint linux_env linux_cp linux_sums cp_super (cp_mem 2) True = Some (S', ws, ds)"
    "\<And>X. get_valid_checkpoint linux_cp cp_super (torn X ws cp_disk) = Inr (if fst (ws ! 0) \<in> X \<and> fst (last ws) \<in> X then cps_ckpt S' else cp_last)"
    by blast
  show ?thesis using S'(1) S'(2) [of "- {fst (last ws)}"] S'(2) [of UNIV] by auto
qed

text \<open>C5: Once an I/O error is recorded (CP_ERROR_FLAG), do_checkpoint never returns when any meta page is dirty: its first loop waits for the number of dirty meta pages to become zero, but f2fs_write_meta_page makes every page dirty again. When no meta page is dirty it returns without having written any block of the pack, and from then on no write_checkpoint returns, since the pages of that pack stay dirty.\<close>

theorem error_stops_checkpoints:
  assumes "kernel_ok E" and "pack_ready C K rsb S" and "dirty_ok (cps_sbi S)" "TOTAL_SEGS (cps_sbi S) < 2 ^ 32 - 1" and "ck_error (cb_ckpt (cps_ckpt S))"
  shows "if dirty_meta S \<noteq> 0 then do_checkpoint E C K rsb S um = None
    else \<exists>S' ds. do_checkpoint E C K rsb S um = Some (S', [], ds) \<and> (\<forall>L um'. write_checkpoint E L C K rsb S' um' = None)"
proof (cases "dirty_meta S = 0")
  case False
  then show ?thesis using assms(5) by (simp add: do_checkpoint_stuck meta_writable_def)
next
  case True
  have w: "\<not> writable S" using assms(5) by (simp add: meta_writable_def)
  then have T: "sync_dirty_meta S = Some S" using sync_dirty_meta_stuck [OF w] True by simp
  obtain S' ws ds nid where S': "do_checkpoint E C K rsb S um = Some (S', if writable S then ws else [], ds)" "cps_ckpt S' = modify_checkpoint E C K S nid um"
    "pack_at rsb (cps_sbi S) (cps_ckpt S') ws" "cps_dirty S' = (if writable S then [] else List.union (map fst ws) (cps_dirty S))"
    by (rule do_checkpoint_pack [OF assms(2,1,3,4) T, of um]) (rule that, assumption+)
  have "ck_error (cb_ckpt (cps_ckpt S'))" using modify_checkpoint_fields(3) [of E C K S nid um] assms(5) by (simp add: S'(2))
  moreover have "set (cps_dirty S') \<noteq> {}" using S'(4) pack_length(2) [OF S'(3)] w by auto
  ultimately have "write_checkpoint E L C K rsb S' um' = None" for L um' by (intro write_checkpoint_stuck) auto
  then show ?thesis using True S'(1) w by auto
qed

theorem error_stops_checkpoints_witness:
  "\<exists>S. cps_dirty S = [256] \<and> do_checkpoint linux_env linux_cp linux_sums cp_super S True = None"
proof -
  let ?S = "(cp_mem 2)\<lparr>cps_ckpt := seal (mnt_ckpt\<lparr>ck_error := True\<rparr>), cps_dirty := [256]\<rparr>"
  have "pack_ready linux_cp linux_sums cp_super ?S" using cp_pack_ready [of 2] by (simp add: pack_ready_def)
  moreover have "dirty_ok (cps_sbi ?S)" "TOTAL_SEGS (cps_sbi ?S) < 2 ^ 32 - 1" "ck_error (cb_ckpt (cps_ckpt ?S))"
    using fs_okD(3) [OF cp_fs_ok] by simp_all
  ultimately have "if dirty_meta ?S \<noteq> 0 then do_checkpoint linux_env linux_cp linux_sums cp_super ?S True = None
    else \<exists>S' ds. do_checkpoint linux_env linux_cp linux_sums cp_super ?S True = Some (S', [], ds)
      \<and> (\<forall>L um'. write_checkpoint linux_env L linux_cp linux_sums cp_super S' um' = None)"
    by (rule error_stops_checkpoints [OF linux_env_ok])
  moreover have "dirty_meta ?S \<noteq> 0" by (simp add: dirty_meta_def)
  ultimately have "do_checkpoint linux_env linux_cp linux_sums cp_super ?S True = None" by (simp only: if_True not_False_eq_True)
  then show ?thesis by (intro exI [of _ ?S]) simp
qed

text \<open>C6: With a free section to take a fresh block from and a legal number of logs (2, 4 or 6), writing a page back (do_write_data_page), in place or to a fresh block, succeeds whenever the block has or was promised an address: reading the block then gives the data just written, no other block of any file gets another address or other contents, the trees of all files stay well formed, the pointers to blocks stay apart, and the extent cache stays truthful.\<close>

theorem data_page_written:
  assumes "layout_ok L" and "volume_ok E L st" and "\<exists>s. free_section (fs_sbi st) s"
    and "sbi_active_logs (fs_sbi st) \<in> {2, 4, NR_CURSEG_TYPE}" and "tree_ok L (node_view E L st) (i_ino inode)"
    and "file_map L (node_view E L st) (i_ino inode) (i_info inode) b \<noteq> 0"
  shows "\<exists>inode' st'. do_write_data_page E L inode b page data st = Some (Inr (), inode', st') \<and> volume_ok E L st'
    \<and> (\<exists>st''. find_data_page E L None inode b st' = Some (Inr data, st'') \<and> reads E L st' st'')
    \<and> (\<forall>ino' fi' b'. tree_ok L (node_view E L st) ino' \<longrightarrow> ino' \<noteq> i_ino inode \<or> fi' = i_info inode \<and> b' \<noteq> b \<longrightarrow>
         tree_ok L (node_view E L st') ino'
         \<and> file_map L (node_view E L st') ino' fi' b' = file_map L (node_view E L st) ino' fi' b'
         \<and> block_contents E L st' ino' fi' b' = block_contents E L st ino' fi' b')
    \<and> (extent_ok (i_info inode) (file_map L (node_view E L st) (i_ino inode) (i_info inode))
        \<longrightarrow> extent_ok (i_info inode') (file_map L (node_view E L st') (i_ino inode') (i_info inode')))"
proof -
  from do_write_data_page_ok [OF assms] obtain inode' st' where
    w: "do_write_data_page E L inode b page data st = Some (Inr (), inode', st')" "volume_ok E L st'"
      "tree_ok L (node_view E L st') = tree_ok L (node_view E L st)"
      "block_contents E L st' (i_ino inode) (i_info inode) b = Some (Data_block data)" by blast
  note V = volume_okD [OF w(2)]
  have "get_node_path L (i_info inode) b \<noteq> None" using assms(6) by (auto simp: file_map_def leaf_node_def split: option.splits)
  from find_data_page_ok [OF assms(1) V(3,6) _ this] w(3) assms(5) obtain st'' where
    f: "find_data_page E L None inode b st' = Some (page_at E st' (file_map L (node_view E L st') (i_ino inode) (i_info inode) b), st'')"
      "reads E L st' st''" by auto
  have "page_at E st' (file_map L (node_view E L st') (i_ino inode) (i_info inode) b) = Inr data"
    using w(4) by (auto simp: page_at_def block_contents_def hole_addr_def Let_def split: if_splits)
  with f have "\<exists>st''. find_data_page E L None inode b st' = Some (Inr data, st'') \<and> reads E L st' st''" by auto
  with do_write_data_page_ok [OF assms, of page data] w(1) show ?thesis by auto
qed

theorem data_page_written_witness:
  "\<exists>inode' st' st''. do_write_data_page linux_env linux_layout file_inode 0 (node_page_info linux_layout zero_block) [1, 2, 3]
        (file_state (2 ^ 32 - 1)) = Some (Inr (), inode', st') \<and> volume_ok linux_env linux_layout st'
     \<and> find_data_page linux_env linux_layout None file_inode 0 st' = Some (Inr [1, 2, 3], st'')"
proof -
  have "file_map linux_layout (node_view linux_env linux_layout (file_state (2 ^ 32 - 1))) (i_ino file_inode) (i_info file_inode) 0 \<noteq> 0"
    using file_map_first by (simp add: file_view)
  from data_page_written [OF linux_layout_ok file_volume_ok file_section file_logs(1) _ this,
      of "node_page_info linux_layout zero_block" "[1, 2, 3]"] file_tree_state
  show ?thesis by auto
qed

text \<open>C7: Mounting a well-formed volume always gets through: build_segment_manager succeeds, the segment manager it builds has the invariant that all operations keep, the entries in memory are those on disk, every log is where the checkpoint left it, a segment is in use exactly when it has a valid block or a log, and the dirty lists hold exactly the partly valid segments of no log.\<close>

theorem mount_establishes_invariant:
  assumes "kernel_ok E" and "0 < bio" and "image_ok E L ckpt nn (image_state E n rsb ckpt cp_pages journals pages sbi)"
  shows "\<exists>nats S. build_segment_manager E K n rsb ckpt nn bio cp_pages journals pages sbi = Some (0, nats, S)
    \<and> fs_ok E (ss_sbi S) {} \<and> mounted E ckpt (image_state E n rsb ckpt cp_pages journals pages sbi) S"
  using build_segment_manager_ok [OF assms] by blast

theorem mount_establishes_invariant_witness:
  "\<exists>nats S. build_segment_manager linux_env linux_sums 8 mnt_super mnt_ckpt mnt_nn 256 mnt_cp mnt_journals mnt_pages mnt_sbi = Some (0, nats, S)
    \<and> fs_ok linux_env (ss_sbi S) {} \<and> mounted linux_env mnt_ckpt mnt_image S"
  unfolding mnt_image_def
  by (rule mount_establishes_invariant [OF linux_env_ok _ mnt_image_ok [unfolded mnt_image_def]]) simp

text \<open>C8: A table of block pointers with no two equal ones, such as the addresses in the node blocks of all files, stays so when a block is written to the address allocate_data_block gives and when one is given up with invalidate_blocks: no block is ever owned twice, and every block pointed at is live.\<close>

theorem blocks_never_cross_linked:
  assumes "kernel_ok E" and "fs_ok E sbi {}" and "ptrs_ok (hole_addr E) (live_addrs sbi) tab"
  shows "(free_section sbi sec \<longrightarrow> t < NR_CURSEG_TYPE \<longrightarrow> (\<exists>new footer sbi'.
          allocate_data_block E sbi has_page (tab k) summ t = Some (new, footer, sbi') \<and> fs_ok E sbi' {}
            \<and> ptrs_ok (hole_addr E) (live_addrs sbi') (tab(k := new))))
    \<and> (\<not> hole_addr E (tab k) \<longrightarrow> (\<exists>sbi'. invalidate_blocks E sbi (tab k) = Some sbi' \<and> fs_ok E sbi' {}
            \<and> ptrs_ok (hole_addr E) (live_addrs sbi') (tab(k := NULL_ADDR E))))"
proof -
  note i = conjI [OF assms(1,2)]
  have "\<exists>new footer sbi'. allocate_data_block E sbi has_page (tab k) summ t = Some (new, footer, sbi') \<and> fs_ok E sbi' {}
      \<and> ptrs_ok (hole_addr E) (live_addrs sbi') (tab(k := new))" if "free_section sbi sec" "t < NR_CURSEG_TYPE"
    using vol.alloc_ptrs [OF i _ _ assms(3), of "(has_page, summ, t)" k] that by (auto simp: data_request_def)
  moreover have "hole_addr E (NULL_ADDR E)" by (simp add: hole_addr_def)
  ultimately show ?thesis using vol.release_ptrs [OF i assms(3), of k] by blast
qed

theorem blocks_never_cross_linked_witness:
  "\<exists>new footer sbi'. allocate_data_block linux_env vol_sbi True 16 \<lparr> sum_nid = 3, sum_ofs_in_node = 0, sum_version = 1 \<rparr> 0
      = Some (new, footer, sbi') \<and> ptrs_ok (hole_addr linux_env) (live_addrs sbi') ((\<lambda>i :: nat. 0)(0 := new))"
proof -
  have "ptrs_ok (hole_addr linux_env) (live_addrs vol_sbi) ((\<lambda>i :: nat. 0)(0 := 16))"
    using vol_old_addr(3) by (auto simp: ptrs_ok_def hole_addr_def linux_env_def)
  from conjunct1 [OF blocks_never_cross_linked [OF linux_env_ok vol_fs_ok this, of 8 0 True 0
      "\<lparr> sum_nid = 3, sum_ofs_in_node = 0, sum_version = 1 \<rparr>"]]
  show ?thesis using vol_free_section by (auto simp: NR_CURSEG_TYPE_def)
qed

text \<open>C9: At a checkpoint flush_nat_entries writes the dirty entries into the journal, or into the other copy of their blocks when the journal is full: it always succeeds, no entry of the table changes, afterwards disk and table agree on every node with a place, and the copy of every block of the table that the last checkpoint refers to is left untouched, so a crash in the middle loses nothing.\<close>

theorem flush_nat_entries_lossless:
  assumes "nat_ok L sbi S" and "\<And>nid. nid < nm_max_nid (ns_nm S) \<Longrightarrow> \<not> np_dirty (cur_page L sbi S nid)"
  shows "\<exists>S'. flush_nat_entries E L sbi S = Some S' \<and> nat_ok L sbi S'
    \<and> (\<forall>nid<nm_max_nid (ns_nm S). nat_lookup L sbi S' nid = nat_lookup L sbi S nid
        \<and> (rne_block_addr (nat_lookup L sbi S nid) \<noteq> NEW_ADDR E \<longrightarrow> disk_nat L sbi S' nid = nat_lookup L sbi S nid)
        \<and> ns_pages S' (current_nat_addr L sbi (ns_nm S) nid) = cur_page L sbi S nid)"
  by (rule flush_nat_entries_ok [OF assms])

theorem flush_nat_entries_lossless_witness:
  "\<exists>S'. flush_nat_entries linux_env linux_layout vol_sbi tab_state = Some S'
     \<and> disk_nat linux_layout vol_sbi S' 6 = raw_node 6 65 \<and> disk_nat linux_layout vol_sbi S' 4 = raw_node 4 64"
  using flush_nat_entries_lossless [OF tab_nat_ok tab_clean, of linux_env]
  by (auto simp: tab_lookup raw_node_def linux_env_def)

text \<open>C10: At a checkpoint flush_sit_entries writes the dirty entries into the journal, or into the other place of their blocks when the journal is full: it always succeeds, afterwards the disk has every entry, none is dirty, the blocks that the last checkpoint refers to are untouched, and exactly the prefree segments have become free.\<close>

theorem flush_sit_entries_lossless:
  assumes "kernel_ok E" and "sit_shape E L S" and "sit_ok E (ss_sbi S)" and "free_ok (ss_sbi S)" and "sit_disk_ok E S"
    and "\<And>k. k < TOTAL_SEGS (ss_sbi S) \<Longrightarrow> \<not> sp_dirty (ss_pages S (sit_addr E (SIT_I (ss_sbi S)) k))"
    and "8 dvd SIT_VBLOCK_MAP_SIZE E" "8 dvd sbi_blocks_per_seg (ss_sbi S)"
  shows "\<exists>S'. flush_sit_entries E L S = Some S' \<and> sit_shape E L S' \<and> sit_ok E (ss_sbi S') \<and> free_ok (ss_sbi S')
    \<and> (\<forall>k<TOTAL_SEGS (ss_sbi S). disk_sit E S' k = raw_sit E (sit_entry S k) \<and> sit_entry S' k = ckpted (sit_entry S k)
        \<and> \<not> sit_dirty S' k \<and> ss_pages S' (sit_addr E (SIT_I (ss_sbi S)) k) = ss_pages S (sit_addr E (SIT_I (ss_sbi S)) k)
        \<and> (seg_inuse (ss_sbi S') k \<longleftrightarrow> seg_inuse (ss_sbi S) k \<and> \<not> is_dirty (ss_sbi S) PRE k))"
  using flush_sit_entries_ok [OF assms] by blast

theorem flush_sit_entries_lossless_witness:
  "\<exists>S'. flush_sit_entries linux_env linux_layout vol_flush = Some S' \<and> (\<forall>k<10. disk_sit linux_env S' k = raw_sit linux_env (get_seg_entry vol_sbi k))"
  using flush_sit_entries_lossless [OF linux_env_ok vol_flush_shape vol_flush_sit_ok(1,2) vol_flush_disk] by auto

text \<open>C11: A log without space gets another segment whichever way allocate_segment_by_default goes (the next segment, a new section, a dirty segment found by the SSR search): it succeeds when a section is free, no block changes its state, and afterwards every log has its own segment in use with a dead next block.\<close>

theorem allocate_segment_keeps_invariant:
  assumes "kernel_ok E" and "fs_ok E sbi {t}" and "t < NR_CURSEG_TYPE" and "free_section sbi s"
  shows "\<exists>sbi'. allocate_segment_by_default E sbi t force = Some sbi' \<and> fs_ok E sbi' {} \<and> live sbi' = live sbi
    \<and> same_layout E sbi sbi'"
  by (rule allocate_segment_ok [OF assms])

theorem allocate_segment_keeps_invariant_witness:
  "\<exists>sbi'. allocate_segment_by_default linux_env vol_sbi 3 True = Some sbi' \<and> fs_ok linux_env sbi' {} \<and> live sbi' = live vol_sbi"
  using allocate_segment_keeps_invariant [OF linux_env_ok fs_ok_mono [OF vol_fs_ok empty_subsetI] _ vol_free_section, of 3 True]
  by (auto simp: NR_CURSEG_TYPE_def)

text \<open>With a section free, get_new_segment succeeds for both directions and with or without the request for a new section; the segment it returns is inside the main area, was free, and is the only one it marks as in use.\<close>

lemma get_new_segment_gives_free:
  assumes "kernel_ok E" and "free_ok sbi" and "newseg < TOTAL_SEGS sbi" and "0 < sbi_secs_per_zone sbi" and "free_section sbi s"
  shows "\<exists>segno. get_new_segment E sbi newseg new_sec dir = Some (segno, set_inuse sbi segno)
    \<and> segno < TOTAL_SEGS sbi \<and> \<not> seg_inuse sbi segno \<and> free_ok (set_inuse sbi segno)"
  using get_new_segment_free [OF assms, of new_sec dir] set_inuse_ok [OF assms(2)] by blast

lemma get_new_segment_gives_free_witness:
  "\<exists>segno. get_new_segment linux_env vol_sbi 5 True ALLOC_LEFT = Some (segno, set_inuse vol_sbi segno)
     \<and> segno < 10 \<and> \<not> seg_inuse vol_sbi segno"
  using get_new_segment_gives_free [OF linux_env_ok vol_free_ok _ _ vol_free_section, of 5 True ALLOC_LEFT] by auto

text \<open>C12: Going left, get_new_segment never moves to another zone: when the first round went left, the retry after finding the zone used by another log ends at the same section.\<close>

theorem get_new_segment_left_keeps_zone:
  assumes "kernel_ok E" and "TOTAL_SECS sbi < 2 ^ 32" and "0 < sbi_secs_per_zone sbi"
    and "find_section E sbi ALLOC_LEFT hint False hint = Some (secno, True, left_start)" and "free_section sbi secno"
  shows "find_zone E sbi ALLOC_LEFT old_zoneno True hint False hint = Some (u32 (secno * sbi_segs_per_sec sbi))"
  by (rule find_zone_left_keeps [OF assms])

theorem get_new_segment_left_keeps_zone_witness:
  "find_zone linux_env vol_left_sbi ALLOC_LEFT 9 True 9 False 9 = Some 8"
proof -
  have "find_section linux_env vol_left_sbi ALLOC_LEFT 9 False 9 = Some (8, True, 8)" by (rule vol_left_section)
  then show ?thesis
    using get_new_segment_left_keeps_zone [OF linux_env_ok _ _ _ vol_left_free, of 9 8 9] by (simp add: vol_left_parts u32_id)
qed

text \<open>C13: update_sit_entry with +1 on a dead block makes exactly this block live and raises the count of its segment by one, with -1 on a live block it makes it dead and lowers the count, and keeps the counters and bitmaps consistent; on a block that is allocated twice or freed twice it stops the machine.\<close>

theorem update_sit_entry_exact:
  assumes "sit_ok E sbi" and "segno < TOTAL_SEGS sbi" and "off < sbi_blocks_per_seg sbi"
  shows "(\<not> live sbi segno off \<longrightarrow> (\<exists>sbi'. update_sit_entry E sbi (main_addr sbi segno off) 1 = Some sbi' \<and> sit_ok E sbi'
        \<and> others_kept sbi sbi' segno \<and> vblocks sbi' segno = vblocks sbi segno + 1
        \<and> (\<forall>b. live sbi' segno b \<longleftrightarrow> b = off \<or> live sbi segno b)))
    \<and> (live sbi segno off \<longrightarrow> (\<exists>sbi'. update_sit_entry E sbi (main_addr sbi segno off) (- 1) = Some sbi' \<and> sit_ok E sbi'
        \<and> others_kept sbi sbi' segno \<and> vblocks sbi' segno + 1 = vblocks sbi segno
        \<and> (\<forall>b. live sbi' segno b \<longleftrightarrow> b \<noteq> off \<and> live sbi segno b)))
    \<and> update_sit_entry E sbi (main_addr sbi segno off) (if live sbi segno off then 1 else - 1) = None"
proof (intro conjI impI)
  show "update_sit_entry E sbi (main_addr sbi segno off) (if live sbi segno off then 1 else - 1) = None"
    using update_sit_entry_bug [OF assms] by simp
qed (erule update_sit_entry_add [OF assms] update_sit_entry_del [OF assms])+

theorem update_sit_entry_exact_witness:
  "(\<exists>sbi'. update_sit_entry linux_env vol_sbi (main_addr vol_sbi 6 5) 1 = Some sbi' \<and> vblocks sbi' 6 = 4)
    \<and> (\<exists>sbi'. update_sit_entry linux_env vol_sbi (main_addr vol_sbi 6 1) (- 1) = Some sbi' \<and> vblocks sbi' 6 = 2)
    \<and> update_sit_entry linux_env vol_sbi (main_addr vol_sbi 0 0) 1 = None"
  using update_sit_entry_exact [OF vol_sit_ok, of 6 5] update_sit_entry_exact [OF vol_sit_ok, of 6 1]
    update_sit_entry_exact [OF vol_sit_ok, of 0 0] by (auto simp: vol_live vol_vblocks)

text \<open>C14: Every operation on the free-segment bitmaps keeps them consistent: a section is in use iff one of its segments is, and both counters count the clear bits.\<close>

theorem free_segment_bitmaps_agree:
  assumes "kernel_ok E" and "free_ok sbi" and "segno < TOTAL_SEGS sbi"
  shows "free_ok (set_test_and_inuse sbi segno) \<and> free_ok (set_test_and_free E sbi segno)
    \<and> (\<not> seg_inuse sbi segno \<longrightarrow> free_ok (set_inuse sbi segno)) \<and> (seg_inuse sbi segno \<longrightarrow> free_ok (set_free E sbi segno))"
  using set_test_and_inuse_ok [OF assms(2,3)] set_test_and_free_ok [OF assms] set_inuse_ok [OF assms(2,3)]
    set_free_ok [OF assms] by blast

theorem free_segment_bitmaps_agree_witness:
  "free_ok (set_test_and_free linux_env vol_sbi 7) \<and> free_ok (set_free linux_env vol_sbi 7) \<and> free_ok (set_inuse vol_sbi 9)"
  using free_segment_bitmaps_agree [OF linux_env_ok vol_free_ok, of 7] free_segment_bitmaps_agree [OF linux_env_ok vol_free_ok, of 9]
  by (simp add: vol_seg_inuse)

text \<open>C15: locate_dirty_segment files a segment that no log uses by its valid blocks: none - it waits for a checkpoint, some - it is dirty and in the list of its type, all - in neither; no other segment moves and the counters keep counting the lists.\<close>

theorem dirty_segment_filed:
  assumes "sit_ok E sbi" and "dirty_ok sbi" and "segno < TOTAL_SEGS sbi" and "\<not> IS_CURSEG sbi segno"
  defines "sbi' \<equiv> locate_dirty_segment sbi segno" and "partly \<equiv> 0 < vblocks sbi segno \<and> vblocks sbi segno < sbi_blocks_per_seg sbi"
  shows "dirty_ok sbi' \<and> (is_dirty sbi' PRE segno \<longleftrightarrow> vblocks sbi segno = 0 \<or> is_dirty sbi PRE segno)
    \<and> (is_dirty sbi' DIRTY segno \<longleftrightarrow> partly) \<and> (is_dirty sbi' (se_type (get_seg_entry sbi segno)) segno \<longleftrightarrow> partly)
    \<and> (\<forall>d i. i \<noteq> segno \<longrightarrow> is_dirty sbi' d i = is_dirty sbi d i)"
  unfolding sbi'_def partly_def
  using locate_dirty_segment_files [OF assms(1-4)] locate_dirty_ok [OF assms(2,3)] by blast

theorem dirty_segment_filed_witness:
  "is_dirty (locate_dirty_segment vol_sbi 6) DIRTY 6 \<and> is_dirty (locate_dirty_segment vol_sbi 7) PRE 7"
  using dirty_segment_filed [OF vol_sit_ok vol_dirty_ok, of 6] dirty_segment_filed [OF vol_sit_ok vol_dirty_ok, of 7]
  by (simp add: vol_IS_CURSEG vol_vblocks)

text \<open>C16: invalidate_blocks on a live address makes exactly this address dead and keeps the invariant of the segment manager; on the reserved address NEW_ADDR it changes nothing.\<close>

theorem invalidated_block_dead:
  assumes "fs_ok E sbi {}" and "a \<in> live_addrs sbi"
  shows "\<exists>sbi'. invalidate_blocks E sbi a = Some sbi' \<and> fs_ok E sbi' {} \<and> same_layout E sbi sbi'
    \<and> live_addrs sbi' = live_addrs sbi - {a} \<and> invalidate_blocks E sbi (NEW_ADDR E) = Some sbi"
  using invalidate_blocks_ok [OF assms] invalidate_new_addr [OF fs_okD(9) [OF assms(1)]] by blast

theorem invalidated_block_dead_witness:
  "\<exists>sbi'. invalidate_blocks linux_env vol_sbi 16 = Some sbi' \<and> 16 \<notin> live_addrs sbi'"
  using invalidated_block_dead [OF vol_fs_ok vol_old_addr(3)] by auto

text \<open>C17: The background cleaner always ends its search; a victim is the first segment of a section that has a dirty segment, is not being written and was not chosen before, and the section is marked as chosen.\<close>

theorem bg_victim_cleanable:
  assumes "kernel_ok E" and "geometry sbi" and "TOTAL_SEGS sbi + sbi_segs_per_sec sbi < 2 ^ 32"
  shows "\<exists>found r sbi'. get_victim_by_default E sbi result BG_GC type LFS = Some (found, r, sbi')
    \<and> (if found then \<exists>secno. victim_section sbi secno \<and> \<not> dl_victim_secmap (DIRTY_I sbi) secno
          \<and> r = secno * sbi_segs_per_sec sbi
          \<and> dl_victim_secmap (DIRTY_I sbi') = (dl_victim_secmap (DIRTY_I sbi))(secno := True)
       else r = result)"
  by (rule get_victim_bg [OF assms])

theorem bg_victim_cleanable_witness:
  "\<exists>found r sbi'. get_victim_by_default linux_env vol_sbi NULL_SEGNO BG_GC NO_CHECK_TYPE LFS = Some (found, r, sbi')
     \<and> (found \<longrightarrow> victim_section vol_sbi r)"
proof -
  from bg_victim_cleanable [OF linux_env_ok vol_geometry, of NULL_SEGNO NO_CHECK_TYPE] obtain found r sbi' where
    v: "get_victim_by_default linux_env vol_sbi NULL_SEGNO BG_GC NO_CHECK_TYPE LFS = Some (found, r, sbi')"
    and f: "if found then \<exists>secno. victim_section vol_sbi secno \<and> \<not> dl_victim_secmap (DIRTY_I vol_sbi) secno
        \<and> r = secno * sbi_segs_per_sec vol_sbi
        \<and> dl_victim_secmap (DIRTY_I sbi') = (dl_victim_secmap (DIRTY_I vol_sbi))(secno := True) else r = NULL_SEGNO"
    by auto
  from f have "found \<longrightarrow> victim_section vol_sbi r" by (auto split: if_splits)
  with v show ?thesis by blast
qed

text \<open>C18: Cleaning on demand ends its search. When a section that the background cleaner chose before is not in use, the search always succeeds: it returns such a section and takes its mark away. Otherwise no mark changes, and when it reports a victim, this is a section with a dirty segment that is not in use. The chosen section becomes cur_victim_sec.\<close>

theorem fg_victim_prefers_bg:
  assumes "kernel_ok E" and "geometry sbi" and "TOTAL_SEGS sbi + sbi_segs_per_sec sbi < 2 ^ 32"
  shows "\<exists>found r sbi'. get_victim_by_default E sbi result FG_GC type LFS = Some (found, r, sbi')
    \<and> (if \<exists>s. bg_choice sbi s
       then found \<and> (\<exists>secno. bg_choice sbi secno \<and> r = secno * sbi_segs_per_sec sbi \<and> sbi_cur_victim_sec sbi' = secno
          \<and> dl_victim_secmap (DIRTY_I sbi') = (dl_victim_secmap (DIRTY_I sbi))(secno := False))
       else DIRTY_I sbi' = DIRTY_I sbi
          \<and> (if found then \<exists>secno. victim_section sbi secno \<and> r = secno * sbi_segs_per_sec sbi \<and> sbi_cur_victim_sec sbi' = secno
             else r = result))"
  by (rule get_victim_fg [OF assms])

theorem fg_victim_prefers_bg_witness:
  "\<exists>sbi'. get_victim_by_default linux_env vol_chosen NULL_SEGNO FG_GC NO_CHECK_TYPE LFS = Some (True, 6, sbi') \<and> sbi_cur_victim_sec sbi' = 6
     \<and> \<not> dl_victim_secmap (DIRTY_I sbi') 6"
proof -
  have b: "bg_choice vol_chosen s \<longleftrightarrow> s = 6" for s by (rule vol_chosen_facts(3))
  from fg_victim_prefers_bg [OF linux_env_ok vol_chosen_facts(1,2), of NULL_SEGNO NO_CHECK_TYPE] show ?thesis
    unfolding b by (auto simp: vol_chosen_facts(4))
qed

text \<open>C19: When the search bound covers the dirty list of a type, the SSR search returns a candidate of this type with the fewest blocks that are valid or needed by the checkpoint, and none only when every candidate is full.\<close>

theorem ssr_victim_cheapest:
  assumes "kernel_ok E" and "dirty_ok sbi" and "TOTAL_SEGS sbi < 2 ^ 32 - 1" and "type < NR_CURSEG_TYPE"
    and "count_bits (TOTAL_SEGS sbi) (is_dirty sbi type) \<le> sbi_max_victim_search sbi"
  shows "\<exists>found r sbi'. get_victim_by_default E sbi result gc_type type SSR = Some (found, r, sbi') \<and> search_frame sbi sbi'
    \<and> (if found then ssr_candidate sbi gc_type type r
            \<and> se_ckpt_valid_blocks (get_seg_entry sbi r) < 2 ^ sbi_log_blocks_per_seg sbi
            \<and> (\<forall>s. ssr_candidate sbi gc_type type s \<longrightarrow>
                  se_ckpt_valid_blocks (get_seg_entry sbi r) \<le> se_ckpt_valid_blocks (get_seg_entry sbi s))
       else r = result \<and> (\<forall>s. ssr_candidate sbi gc_type type s \<longrightarrow>
                  2 ^ sbi_log_blocks_per_seg sbi \<le> se_ckpt_valid_blocks (get_seg_entry sbi s)))"
  by (rule get_victim_ssr [OF assms])

theorem ssr_victim_cheapest_witness:
  "\<exists>sbi'. get_victim_by_default linux_env vol_sbi NULL_SEGNO BG_GC 0 SSR = Some (True, 6, sbi')"
proof -
  have "count_bits (TOTAL_SEGS vol_sbi) (is_dirty vol_sbi 0) \<le> sbi_max_victim_search vol_sbi"
    using count_bits_le [of 10 "is_dirty vol_sbi 0"] by (simp add: vol_search)
  from ssr_victim_cheapest [OF linux_env_ok vol_dirty_ok _ _ this, of NULL_SEGNO BG_GC] obtain found r sbi' where
    v: "get_victim_by_default linux_env vol_sbi NULL_SEGNO BG_GC 0 SSR = Some (found, r, sbi')"
    and f: "if found then ssr_candidate vol_sbi BG_GC 0 r else \<forall>s. ssr_candidate vol_sbi BG_GC 0 s \<longrightarrow>
        2 ^ sbi_log_blocks_per_seg vol_sbi \<le> se_ckpt_valid_blocks (get_seg_entry vol_sbi s)"
    by (fastforce simp: NR_CURSEG_TYPE_def split: if_splits)
  show ?thesis
  proof (cases found)
    case True
    then show ?thesis using f v by (auto simp: vol_ssr_candidate)
  next
    case False
    then show ?thesis using f by (auto simp: vol_ssr_candidate vol_entries vol_entry_def)
  qed
qed

text \<open>C20: set_prefree_as_free_segments ends, frees exactly the segments of the prefree list and keeps the free-segment bitmaps consistent.\<close>

theorem checkpoint_frees_prefree:
  assumes "kernel_ok E" and "free_ok sbi"
  shows "\<exists>sbi'. set_prefree_as_free_segments E sbi = Some sbi' \<and> free_ok sbi' \<and> free_frame sbi sbi'
    \<and> (\<forall>i<TOTAL_SEGS sbi. seg_inuse sbi' i \<longleftrightarrow> seg_inuse sbi i \<and> \<not> is_dirty sbi PRE i)"
  by (rule set_prefree_frees [OF assms])

theorem checkpoint_frees_prefree_witness:
  "\<exists>sbi'. set_prefree_as_free_segments linux_env vol_sbi = Some sbi' \<and> free_ok sbi' \<and> \<not> seg_inuse sbi' 7 \<and> seg_inuse sbi' 6"
proof -
  from checkpoint_frees_prefree [OF linux_env_ok vol_free_ok] obtain sbi' where
    "set_prefree_as_free_segments linux_env vol_sbi = Some sbi'" "free_ok sbi'"
    "\<forall>i<10. seg_inuse sbi' i \<longleftrightarrow> seg_inuse vol_sbi i \<and> \<not> is_dirty vol_sbi PRE i" by auto
  then show ?thesis by (auto simp: vol_seg_inuse vol_PRE)
qed

text \<open>clear_prefree_segments ends, empties the prefree list and its counter and the queue of small discards, and leaves the other dirty lists alone.\<close>

lemma prefree_list_cleared:
  assumes "kernel_ok E" and "dirty_ok sbi" and "TOTAL_SEGS sbi < 2 ^ 32 - 1"
  shows "\<exists>sbi' out. clear_prefree_segments E sbi = Some (sbi', out) \<and> dirty_ok sbi'
    \<and> (\<forall>i<TOTAL_SEGS sbi. \<not> is_dirty sbi' PRE i) \<and> dl_nr_dirty (DIRTY_I sbi') ! PRE = 0
    \<and> (\<forall>t<NR_DIRTY_TYPE. t \<noteq> PRE \<longrightarrow> is_dirty sbi' t = is_dirty sbi t)
    \<and> sm_discard_list (SM_I sbi') = []
    \<and> sm_nr_discards (SM_I sbi') = sm_nr_discards (SM_I sbi) - (\<Sum>e\<leftarrow>sm_discard_list (SM_I sbi). de_len e)"
  by (rule clear_prefree_empties [OF assms])

lemma prefree_list_cleared_witness:
  "\<exists>sbi' out. clear_prefree_segments linux_env vol_sbi = Some (sbi', out) \<and> \<not> is_dirty sbi' PRE 7"
proof -
  from prefree_list_cleared [OF linux_env_ok vol_dirty_ok] obtain sbi' out where
    "clear_prefree_segments linux_env vol_sbi = Some (sbi', out)" "\<forall>i<10. \<not> is_dirty sbi' PRE i" by auto
  then show ?thesis by auto
qed

text \<open>C21: add_discard_addrs only queues runs of blocks that were valid at the last checkpoint and are not any more, inside the segment, and counts the blocks it queues.\<close>

theorem discards_are_dead:
  assumes "seg_ok E (sbi_blocks_per_seg sbi) se" and "8 dvd SIT_VBLOCK_MAP_SIZE E" and "8 dvd sbi_blocks_per_seg sbi"
    and "sbi_blocks_per_seg sbi \<le> 8 * SIT_VBLOCK_MAP_SIZE E" and "sbi_blocks_per_seg sbi < 2 ^ 16"
  shows "\<exists>sbi' new. add_discard_addrs E sbi segno se = Some sbi'
    \<and> sm_discard_list (SM_I sbi') = sm_discard_list (SM_I sbi) @ new
    \<and> sm_nr_discards (SM_I sbi') = sm_nr_discards (SM_I sbi) + (\<Sum>e\<leftarrow>new. de_len e)
    \<and> (\<forall>e\<in>set new. discards_only (START_BLOCK sbi segno) (sbi_blocks_per_seg sbi)
        (\<lambda>i. bits_of (se_ckpt_valid_map se) i \<and> \<not> bits_of (se_cur_valid_map se) i) e)"
  by (rule add_discard_addrs_dead [OF assms])

theorem discards_are_dead_witness:
  "\<exists>sbi'. add_discard_addrs linux_env vol_sbi 6 (vol_entry 0xE0 3 0) = Some sbi'"
proof -
  have "8 dvd SIT_VBLOCK_MAP_SIZE linux_env" "sbi_blocks_per_seg vol_sbi \<le> 8 * SIT_VBLOCK_MAP_SIZE linux_env"
    by (simp_all add: linux_env_def)
  then show ?thesis
    using discards_are_dead [of linux_env vol_sbi "vol_entry 0xE0 3 0" 6] entry_seg_ok [OF entry_counts(2)] by auto
qed

text \<open>C22: The word-at-a-time search __find_rev_next_zero_bit returns the first clear bit from the start offset in the bit order of f2fs_set_bit, and the size when there is none, for every map of whole bytes.\<close>

theorem rev_zero_search_correct:
  assumes "8 dvd sz" and "sz \<le> 8 * length m" and "8 dvd length m"
  shows "find_rev_next_zero_bit (longs m) sz offset = scan (\<lambda>i. \<not> f2fs_test_bit i m) sz offset"
  unfolding find_rev_next_zero_bit_scan [OF assms(1)]
  by (rule scan_cong) (use rev_bit_longs [OF _ assms(3)] assms(2) in simp)

theorem rev_zero_search_correct_witness:
  "find_rev_next_zero_bit (longs (0xE0 # replicate 7 0)) 64 1 = 3"
proof -
  have bits: "f2fs_test_bit 1 (0xE0 # replicate 7 0)" "f2fs_test_bit 2 (0xE0 # replicate 7 0)" "\<not> f2fs_test_bit 3 (0xE0 # replicate 7 0)"
    by (simp_all add: f2fs_test_bit_iff)
  have "scan (\<lambda>i. \<not> f2fs_test_bit i (0xE0 # replicate 7 0)) 64 1 = 3"
  proof (rule scan_eqI)
    fix i :: nat
    assume "1 \<le> i" "i < 3"
    then have "i = 1 \<or> i = 2" by auto
    then show "\<not> \<not> f2fs_test_bit i (0xE0 # replicate 7 0)" using bits by auto
  qed (use bits in simp_all)
  then show ?thesis using rev_zero_search_correct [of 64 "0xE0 # replicate 7 0" 1] by simp
qed

text \<open>__find_rev_next_bit returns the first set bit that is not skipped, where an unaligned start skips the bits of its word behind the byte it starts in; from a word boundary it is the reference search.\<close>

lemma rev_bit_search_skips:
  assumes "8 dvd sz"
  shows "find_rev_next_bit addr sz offset = scan (\<lambda>i. rev_bit addr i \<and> \<not> skipped offset i) sz offset
    \<and> (64 dvd offset \<longrightarrow> find_rev_next_bit addr sz offset = scan (rev_bit addr) sz offset)"
  using find_rev_next_bit_scan [OF assms] find_rev_next_bit_aligned [OF assms] by blast

lemma rev_bit_search_skips_witness:
  "find_rev_next_bit (longs (0 # 0x40 # replicate 6 0)) 64 0 = scan (rev_bit (longs (0 # 0x40 # replicate 6 0))) 64 0"
  using rev_bit_search_skips [of 64 "longs (0 # 0x40 # replicate 6 0)" 0] by simp

text \<open>C23: The set-bit search of the validity maps is wrong for an unaligned start: in a map of whole bytes __find_rev_next_bit returns the first set bit that is not skipped, where the bits of the first word behind the byte of the start are skipped. It returns the next set bit exactly when that bit is not skipped; otherwise it runs past it.\<close>

theorem rev_bit_search_misses:
  assumes "8 dvd sz"
  shows "find_rev_next_bit addr sz offset = scan (\<lambda>i. rev_bit addr i \<and> \<not> skipped offset i) sz offset
    \<and> (let r = scan (rev_bit addr) sz offset in
        if r < sz \<and> skipped offset r then r < find_rev_next_bit addr sz offset else find_rev_next_bit addr sz offset = r)"
  using find_rev_next_bit_scan [OF assms] find_rev_next_bit_skips [OF assms] by blast

theorem rev_bit_search_misses_witness:
  "scan (rev_bit (longs (0 # 0x40 # replicate 6 0))) 64 1 = 9 \<and> 9 < find_rev_next_bit (longs (0 # 0x40 # replicate 6 0)) 64 1
    \<and> find_rev_next_bit (longs (0 # 0x40 # replicate 6 0)) 64 8 = 9"
proof -
  have "scan (rev_bit (longs (0 # 0x40 # replicate 6 0))) 64 8 = 9" by (rule scan_eqI) (auto simp: rev_bit_9)
  moreover have "skipped 1 9" "\<not> skipped 8 9" by (simp_all add: skipped_def)
  ultimately show ?thesis
    using rev_bit_search_misses [of 64 "longs (0 # 0x40 # replicate 6 0)" 1] rev_bit_search_misses [of 64 "longs (0 # 0x40 # replicate 6 0)" 8] scan_9
    by (simp add: Let_def)
qed

text \<open>The bit operations of the validity maps: setting or clearing a bit changes this bit only, and bit 0 of a byte is its most significant one.\<close>

lemma f2fs_bit_order:
  assumes "nr < 8 * length m"
  shows "(\<forall>i. f2fs_test_bit i (snd (f2fs_set_bit nr m)) \<longleftrightarrow> i = nr \<or> f2fs_test_bit i m)
    \<and> (\<forall>i. f2fs_test_bit i (snd (f2fs_clear_bit nr m)) \<longleftrightarrow> i \<noteq> nr \<and> f2fs_test_bit i m)
    \<and> snd (f2fs_set_bit 0 [0]) = [0x80]"
  using f2fs_test_set_bit [OF assms] f2fs_test_clear_bit [OF assms] by (simp add: f2fs_set_bit_def f2fs_mask_def)

lemma f2fs_bit_order_witness: "f2fs_test_bit 9 (snd (f2fs_set_bit 9 [0, 0])) \<and> \<not> f2fs_test_bit 9 (snd (f2fs_clear_bit 9 [0, 0xFF]))"
  using f2fs_bit_order [of 9 "[0, 0]"] f2fs_bit_order [of 9 "[0, 0xFF]"] by simp

text \<open>Writing a segment entry to its on-disk form and reading it back gives the entry, with the checkpoint map and count set to the current ones.\<close>

lemma sit_entry_roundtrip:
  assumes "raw_sit_ok E" and "se_valid_blocks se < 2 ^ SIT_VBLOCKS_SHIFT E" and "se_type se < 2 ^ (16 - SIT_VBLOCKS_SHIFT E)"
    and "se_valid_blocks se < 2 ^ 16" and "se_type se < 2 ^ 8" and "length (se_cur_valid_map se) = SIT_VBLOCK_MAP_SIZE E"
    and "length (se_ckpt_valid_map se) = SIT_VBLOCK_MAP_SIZE E" and "length (rs_valid_map rs) = SIT_VBLOCK_MAP_SIZE E"
  shows "let (se', rs') = seg_info_to_raw_sit E se rs in
    se' = se\<lparr>se_ckpt_valid_map := se_cur_valid_map se, se_ckpt_valid_blocks := se_valid_blocks se\<rparr>
    \<and> seg_info_from_raw_sit E se rs' = se'"
  using raw_sit_roundtrip [OF assms] by (cases "seg_info_to_raw_sit E se rs") auto

lemma sit_entry_roundtrip_witness:
  "let (se', rs') = seg_info_to_raw_sit linux_env (vol_entry 0xE0 3 5) \<lparr> rs_vblocks = 0, rs_valid_map = replicate 64 0, rs_mtime = 0 \<rparr> in
     seg_info_from_raw_sit linux_env (vol_entry 0xE0 3 5) rs' = se'"
proof -
  have "SIT_VBLOCKS_SHIFT linux_env = 10" "SIT_VBLOCK_MAP_SIZE linux_env = 64" by (simp_all add: linux_env_def)
  then show ?thesis
    using sit_entry_roundtrip [OF linux_env_raw_sit, of "vol_entry 0xE0 3 5" "\<lparr> rs_vblocks = 0, rs_valid_map = replicate 64 0, rs_mtime = 0 \<rparr>"]
    by (simp add: vol_entry_def map_of_byte_def Let_def case_prod_unfold)
qed

text \<open>With the checks compiled in, check_block_count stops the machine exactly when the segment number is out of range or the stored count differs from the number of set bits of the map.\<close>

lemma check_block_count_exact:
  assumes "kernel_ok E" and "CHECK_FS E" and "0 < sbi_blocks_per_seg sbi"
    and "0 < sm_segment_count (SM_I sbi)" and "sm_segment_count (SM_I sbi) < 2 ^ 32"
  shows "check_block_count E sbi segno raw = Some () \<longleftrightarrow> segno < sm_segment_count (SM_I sbi) \<and>
    GET_SIT_VBLOCKS E (rs_vblocks raw) = count_bits (sbi_blocks_per_seg sbi) (le_bits (rs_valid_map raw))"
  by (rule check_block_count_iff [OF assms])

lemma check_block_count_exact_witness:
  "check_block_count linux_env vol_sbi 12 \<lparr> rs_vblocks = 0, rs_valid_map = replicate 64 0, rs_mtime = 0 \<rparr> \<noteq> Some ()"
  using check_block_count_exact [OF linux_env_ok, of vol_sbi 12 "\<lparr> rs_vblocks = 0, rs_valid_map = replicate 64 0, rs_mtime = 0 \<rparr>"]
  by (simp add: linux_env_def vol_sm_def)

text \<open>The address of a block of the main area and its segment number and offset determine each other through the address macros of segment.h.\<close>

lemma block_address_roundtrip:
  assumes "geometry sbi" and "addr_consts E" and "cs_segno c < TOTAL_SEGS sbi" and "cs_next_blkoff c < sbi_blocks_per_seg sbi"
  shows "GET_SEGNO E sbi (NEXT_FREE_BLKADDR sbi c) = cs_segno c
    \<and> GET_SEGOFF_FROM_SEG0 sbi (NEXT_FREE_BLKADDR sbi c) AND (sbi_blocks_per_seg sbi - 1) = cs_next_blkoff c
    \<and> NEXT_FREE_BLKADDR sbi c = START_BLOCK sbi (cs_segno c) + cs_next_blkoff c"
proof -
  have "START_BLOCK sbi (cs_segno c) + cs_next_blkoff c = main_addr sbi (cs_segno c) (cs_next_blkoff c)"
    by (simp add: START_BLOCK_main [OF assms(1,3)] main_addr_def)
  then show ?thesis
    unfolding NEXT_FREE_BLKADDR_main [OF assms(1,3,4)]
    using GET_SEGNO_main [OF assms] segoff_mod_main [OF assms(1,3,4)] by simp
qed

lemma block_address_roundtrip_witness: "GET_SEGNO linux_env vol_sbi (NEXT_FREE_BLKADDR vol_sbi (vol_log 6 5)) = 6"
  proof -
  have "GET_SEGNO linux_env vol_sbi (NEXT_FREE_BLKADDR vol_sbi (vol_log 6 5)) = cs_segno (vol_log 6 5)"
    by (rule conjunct1 [OF block_address_roundtrip [OF vol_geometry vol_addr_consts]]) (simp_all add: vol_log_def)
  then show ?thesis by (simp add: vol_log_def)
qed

text \<open>Each SIT block has two places on disk: set_to_next_sit makes the other one current, and doing so twice leads back.\<close>

lemma sit_copy_switches:
  assumes "SIT_BLOCK_OFFSET E start < 8 * length (sit_bitmap (SIT_I sbi))" and "SIT_BLOCK_OFFSET E start < sit_blocks (SIT_I sbi)"
    and "sit_base_addr (SIT_I sbi) + 2 * sit_blocks (SIT_I sbi) \<le> 2 ^ 32" and "current_sit_addr E sbi start = Some a"
  shows "current_sit_addr E (set_SIT_I (set_to_next_sit E (SIT_I sbi) start) sbi) start = Some (next_sit_addr sbi a)
    \<and> next_sit_addr sbi (next_sit_addr sbi a) = a"
  using next_sit_addr_current [OF assms] by blast

lemma sit_copy_switches_witness:
  "current_sit_addr linux_env (set_SIT_I (set_to_next_sit linux_env vol_sit 0) vol_sbi) 0 = Some 3"
proof -
  have "current_sit_addr linux_env vol_sbi 0 = Some 2"
    by (simp add: current_sit_addr_def check_seg_range_def f2fs_bug_on_def BUG_ON_def vol_sit_def vol_sm_def SIT_BLOCK_OFFSET_def f2fs_test_bit_iff u32_id)
  moreover have "next_sit_addr vol_sbi 2 = 3" by (simp add: next_sit_addr_def vol_sit_def Let_def u32_id sub32_id u64_id sub64_id)
  ultimately show ?thesis
    using sit_copy_switches [of linux_env 0 vol_sbi 2] by (simp add: SIT_BLOCK_OFFSET_def vol_sit_def)
qed

text \<open>C24: get_cb_cost and get_cat_cost compute what is meant for a whole section: with the utilisation u and the age in per cent and the mean number of cleanings n, all taken from the sums over the segments of the section, the cost-benefit cost is UINT_MAX - 100 * (100 - u) * age / (100 + u) and the cost-age-times cost is u * n / (100 - u) / age, or UINT_MAX for a full section or one without age. A section with fewer valid blocks that was written earlier never costs more, for the second function when it was cleaned less often too. The segment times must lie between min_mtime and max_mtime and the sums must not overflow.\<close>

theorem cleaning_costs_ordered:
  assumes "sit_ok E sbi" and "costs_fit sbi a" and "costs_fit sbi b"
  shows "(let n = GET_SECNO sbi a; u = util_of sbi n; age = age_of sbi n in
       u \<le> 100 \<and> age \<le> 100 \<and> fst (get_cb_cost sbi a) = UINT_MAX - 100 * (100 - u) * age div (100 + u)
       \<and> fst (get_cat_cost sbi a) = (if u = 100 \<or> age = 0 then UINT_MAX else u * cleanings_of sbi n div (100 - u) div age))
    \<and> (sec_sum (vblocks sbi) sbi (GET_SECNO sbi a) \<le> sec_sum (vblocks sbi) sbi (GET_SECNO sbi b) \<longrightarrow>
       sec_sum (\<lambda>i. se_mtime (get_seg_entry sbi i)) sbi (GET_SECNO sbi a) \<le> sec_sum (\<lambda>i. se_mtime (get_seg_entry sbi i)) sbi (GET_SECNO sbi b) \<longrightarrow>
       fst (get_cb_cost sbi a) \<le> fst (get_cb_cost sbi b)
       \<and> (sec_sum (\<lambda>i. se_numberofcleaning (get_seg_entry sbi i)) sbi (GET_SECNO sbi a)
            \<le> sec_sum (\<lambda>i. se_numberofcleaning (get_seg_entry sbi i)) sbi (GET_SECNO sbi b)
          \<longrightarrow> fst (get_cat_cost sbi a) \<le> fst (get_cat_cost sbi b)))"
  using section_costs(1-4) [OF assms(1,2)] section_costs_ordered [OF assms] by (simp_all add: Let_def)

theorem cleaning_costs_ordered_witness:
  "fst (get_cb_cost vol_sbi 0) \<le> fst (get_cb_cost vol_sbi 6) \<and> fst (get_cat_cost vol_sbi 0) \<le> fst (get_cat_cost vol_sbi 6)
    \<and> fst (get_cb_cost vol_sbi 6) = UINT_MAX - 4598"
proof -
  have S: "sec_segs vol_sbi s = {s}" "GET_SECNO vol_sbi s = s" for s by (auto simp: sec_segs_def GET_SECNO_def)
  have fit: "costs_fit vol_sbi 0" "costs_fit vol_sbi 6"
    by (simp_all add: costs_fit_def sec_sum_def S vol_entries vol_entry_def) (simp_all add: vol_sit_def)
  have "util_of vol_sbi 6 = 37" "age_of vol_sbi 6 = 100"
    by (simp_all add: util_of_def age_of_def sec_sum_def S vol_vblocks vol_entries vol_entry_def) (simp add: vol_sit_def)
  then show ?thesis
    using cleaning_costs_ordered [OF vol_sit_ok fit] cleaning_costs_ordered [OF vol_sit_ok fit(2,2)]
    by (simp add: Let_def S sec_sum_def vol_vblocks vol_entries vol_entry_def)
qed

text \<open>C25: When all dirty sections have the same modification time and it is both min_mtime and max_mtime, every age is 0, and get_victim_by_default finds no victim for cleaning although sections are dirty, in the background as well as on demand unless a section that the background cleaner chose before is not in use: both cost functions return UINT_MAX, which never is below the start value of the search.\<close>

theorem cat_cost_without_age:
  assumes "kernel_ok E" and "geometry sbi" and "TOTAL_SEGS sbi + sbi_segs_per_sec sbi < 2 ^ 32"
    and "sit_min_mtime (SIT_I sbi) = t" "sit_max_mtime (SIT_I sbi) = t"
    and "\<forall>s<TOTAL_SEGS sbi. is_dirty sbi DIRTY s \<longrightarrow> sec_mtime sbi s = t" and "gc_type = FG_GC \<Longrightarrow> \<not> (\<exists>s. bg_choice sbi s)"
  shows "\<exists>sbi'. get_victim_by_default E sbi result gc_type type LFS = Some (False, result, sbi') \<and> search_frame sbi sbi'"
  by (rule no_victim_without_age [OF assms])

theorem cat_cost_without_age_witness:
  "is_dirty vol_same_age DIRTY 6 \<and> (\<exists>sbi'. get_victim_by_default linux_env vol_same_age NULL_SEGNO FG_GC NO_CHECK_TYPE LFS = Some (False, NULL_SEGNO, sbi'))"
  using cat_cost_without_age [OF linux_env_ok vol_same_age_facts(1-3), where gc_type = FG_GC and result = NULL_SEGNO and type = NO_CHECK_TYPE] vol_same_age_facts by simp blast

text \<open>Whatever happens between its turns, the waiting time of the cleaner thread is the no-victim time or between the smallest and the largest one.\<close>

lemma cleaner_sleep_bounded:
  assumes "sleeps th w" and "gc_min_sleep_time th \<le> gc_max_sleep_time th"
  shows "w = int (gc_no_gc_sleep_time th) \<or> int (gc_min_sleep_time th) \<le> w \<and> w \<le> int (gc_max_sleep_time th)"
  using sleeps_ok [OF assms] by (simp add: sleep_ok_def)

lemma cleaner_sleep_bounded_witness:
  "let th = \<lparr> gc_min_sleep_time = 30000, gc_max_sleep_time = 60000, gc_no_gc_sleep_time = 300000, gc_gc_idle = 0 \<rparr>;
       w = gc_thread_turn vol_sbi th \<lparr> gt_frozen = False, gt_gc_locked = False, gt_idle = True, gt_no_victim = False \<rparr> 30000
   in w = 300000 \<or> 30000 \<le> w \<and> w \<le> 60000"
  using cleaner_sleep_bounded [OF sleeps.turn [OF sleeps.start], of
      "\<lparr> gc_min_sleep_time = 30000, gc_max_sleep_time = 60000, gc_no_gc_sleep_time = 300000, gc_gc_idle = 0 \<rparr>" vol_sbi
      "\<lparr> gt_frozen = False, gt_gc_locked = False, gt_idle = True, gt_no_victim = False \<rparr>"]
  by (simp add: Let_def)

text \<open>limit_invalid_user_blocks is 40% of the user blocks only up to 107374182 of them (410 GB): above, its product wraps in 32 bits and the limit is too low by at least 42949672 blocks.\<close>

lemma invalid_limit_overflows:
  "if sbi_user_block_count sbi \<le> 107374182 then limit_invalid_user_blocks sbi = 40 * sbi_user_block_count sbi div 100
   else limit_invalid_user_blocks sbi + 42949672 \<le> 40 * sbi_user_block_count sbi div 100"
  using limit_invalid_wraps [of sbi] by simp

text \<open>The counters of valid blocks and nodes stay within their limits; an increment is refused exactly when it would exceed one, and a decrement undoes an increment.\<close>

lemma block_counters_balance:
  assumes "counts_ok sbi" and "count + sbi_user_block_count sbi < 2 ^ 32" and "b + count < 2 ^ 64"
  shows "(case inc_valid_block_count sbi b count of (ok, b', sbi') \<Rightarrow> counts_ok sbi'
      \<and> (ok \<longleftrightarrow> sbi_total_valid_block_count sbi + count \<le> sbi_user_block_count sbi)
      \<and> (ok \<longrightarrow> (\<exists>sbi''. dec_valid_block_count E sbi' b' count = Some (b, sbi'')
            \<and> sbi_total_valid_block_count sbi'' = sbi_total_valid_block_count sbi)))
    \<and> (case inc_valid_node_count sbi inode of (ok, _, sbi') \<Rightarrow> counts_ok sbi'
      \<and> (ok \<longleftrightarrow> sbi_total_valid_block_count sbi < sbi_user_block_count sbi
         \<and> sbi_total_valid_node_count sbi < sbi_total_node_count sbi))"
proof -
  obtain ok b' sbi1 where i: "inc_valid_block_count sbi b count = (ok, b', sbi1)" by (metis prod_cases3)
  obtain ok2 i2 sbi2 where n: "inc_valid_node_count sbi inode = (ok2, i2, sbi2)" by (metis prod_cases3)
  show ?thesis
    using inc_valid_block_count_ok [OF assms(1,2) i] inc_valid_node_count_ok [OF assms(1) n]
      dec_valid_block_count_undoes [OF assms, of b' sbi1 E] i n by (cases ok) auto
qed

lemma block_counters_balance_witness:
  "case inc_valid_block_count vol_sbi 1 7 of (ok, b', sbi') \<Rightarrow> ok \<and> counts_ok sbi'"
proof -
  have "counts_ok vol_sbi" "sbi_user_block_count vol_sbi = 50" "sbi_total_valid_block_count vol_sbi = 4"
    by (simp_all add: counts_ok_def vol_sbi_def)
  then show ?thesis using block_counters_balance [of vol_sbi 7 1] by auto
qed

text \<open>C26: The checksum of a checkpoint block is never fooled by a local error: take the bytes that it covers followed by the four bytes of the stored checksum; a block that is valid stops being valid when any bytes within four in a row are changed, wherever they are among these, in the checksum itself or across its border too, as long as the offset of the checksum is still the same.\<close>

theorem checksum_detects_burst:
  assumes "f2fs_crc_valid C crc ck n" and "cp_bytes C ck n @ crc_bytes crc = p @ xs @ s" and "cp_bytes C ck' n @ crc_bytes crc' = p @ ys @ s"
    and "length xs = length ys" "length xs \<le> 4" and "xs \<noteq> ys"
  shows "\<not> f2fs_crc_valid C crc' ck' n"
  using crc_bytes_detect [OF _ _ assms(2-5), of "F2FS_SUPER_MAGIC C"] assms(1,6) by (auto simp: f2fs_crc_valid_def)

theorem checksum_detects_burst_witness:
  "\<not> f2fs_crc_valid linux_cp (cb_crc cp_last) (mnt_ckpt\<lparr>ck_version := 2\<rparr>) 4092 \<and> \<not> f2fs_crc_valid linux_cp (cb_crc cp_last XOR 1) mnt_ckpt 4092"
proof
  have v: "f2fs_crc_valid linux_cp (cb_crc cp_last) mnt_ckpt 4092" using cp_last_parts(3) by (simp add: cp_ok_def cp_last_def mnt_ckpt_def)
  let ?s = "(le_bytes 7 0 @ le_bytes 8 4 @ replicate 4076 0) @ crc_bytes (cb_crc cp_last)"
  have "cp_bytes linux_cp mnt_ckpt 4092 @ crc_bytes (cb_crc cp_last) = [] @ [1] @ ?s"
    using cp_bytes_version [of mnt_ckpt 1 1] by (simp add: mnt_ckpt_def)
  moreover have "cp_bytes linux_cp (mnt_ckpt\<lparr>ck_version := 2\<rparr>) 4092 @ crc_bytes (cb_crc cp_last) = [] @ [2] @ ?s"
    using cp_bytes_version [of "mnt_ckpt\<lparr>ck_version := 2\<rparr>" 2 2] by simp
  ultimately show "\<not> f2fs_crc_valid linux_cp (cb_crc cp_last) (mnt_ckpt\<lparr>ck_version := 2\<rparr>) 4092"
    by (rule checksum_detects_burst [OF v]) simp_all
  have "cb_crc cp_last \<noteq> cb_crc cp_last XOR 1" using xor_cancel(2) [of "cb_crc cp_last" 0 1] by simp
  then have "crc_bytes (cb_crc cp_last) \<noteq> crc_bytes (cb_crc cp_last XOR 1)" by (metis crc_bytes_read(2))
  then show "\<not> f2fs_crc_valid linux_cp (cb_crc cp_last XOR 1) mnt_ckpt 4092"
    using checksum_detects_burst [OF v, of "cp_bytes linux_cp mnt_ckpt 4092" "crc_bytes (cb_crc cp_last)" "[]" mnt_ckpt "cb_crc cp_last XOR 1"
        "crc_bytes (cb_crc cp_last XOR 1)"] by (simp add: crc_bytes_read(1))
qed

text \<open>C27: The list of orphans stays well-formed under every operation: it is sorted without repetition, the counter is at least its length and at most the maximum. After acquire_orphan_inode there is room for add_orphan_inode or release_orphan_inode, acquire_orphan_inode fails exactly when the maximum is reached, and remove_orphan_inode, which never hits its BUG, removes exactly the inode.\<close>

theorem orphan_list_well_formed:
  assumes "8 \<le> sbi_blocks_per_seg sbi" "sbi_blocks_per_seg sbi * per_block < 2 ^ 32" "sbi_blocks_per_seg sbi < 2 ^ 32" and "orphans_ok O1"
  shows "orphans_ok (init_orphan_info per_block sbi) \<and> oi_max (init_orphan_info per_block sbi) = (sbi_blocks_per_seg sbi - 8) * per_block
    \<and> (case acquire_orphan_inode O1 of Inl e \<Rightarrow> e = ENOSPC \<and> oi_n O1 = oi_max O1 | Inr O2 \<Rightarrow> orphans_ok O2 \<and> length (oi_list O2) < oi_n O2 \<and> oi_n O1 < oi_max O1)
    \<and> (length (oi_list O1) < oi_n O1 \<longrightarrow> orphans_ok (add_orphan_inode O1 ino) \<and> set (oi_list (add_orphan_inode O1 ino)) = insert ino (set (oi_list O1)))
    \<and> (length (oi_list O1) < oi_n O1 \<longrightarrow> (\<exists>O2. release_orphan_inode E O1 = Some O2 \<and> orphans_ok O2))
    \<and> (\<exists>O2. remove_orphan_inode E O1 ino = Some O2 \<and> orphans_ok O2 \<and> set (oi_list O2) = set (oi_list O1) - {ino})"
proof -
  have "case acquire_orphan_inode O1 of Inl e \<Rightarrow> e = ENOSPC \<and> oi_n O1 = oi_max O1 | Inr O2 \<Rightarrow> orphans_ok O2 \<and> length (oi_list O2) < oi_n O2 \<and> oi_n O1 < oi_max O1"
    using orphan_ops_ok(1) [OF assms(4)] assms(4) by (auto simp: acquire_orphan_inode_def orphans_ok_def split: if_splits)
  moreover have "set (oi_list (add_orphan_inode O1 ino)) = insert ino (set (oi_list O1))" by (simp add: add_orphan_inode_def)
  ultimately show ?thesis using init_orphans_ok [OF assms(1-3)] orphan_ops_ok(2-4) [OF assms(4)] by blast
qed

theorem orphan_list_well_formed_witness:
  "oi_list (add_orphan_inode \<lparr> oi_list = [3, 9], oi_n = 3, oi_max = 2040 \<rparr> 5) = [3, 5, 9]
    \<and> orphans_ok (add_orphan_inode \<lparr> oi_list = [3, 9], oi_n = 3, oi_max = 2040 \<rparr> 5)"
  using orphan_list_well_formed [of vol_sbi 1020 "\<lparr> oi_list = [3, 9], oi_n = 3, oi_max = 2040 \<rparr>" 5 linux_env]
  by (simp add: orphans_ok_def) (simp add: add_orphan_inode_def)

text \<open>What flush_sit_entries writes at a checkpoint build_sit_entries reads at the next mount: every entry has its valid blocks, map, type and time again, and only the number of cleanings is lost.\<close>

lemma checkpoint_mount_roundtrip:
  assumes "kernel_ok E" and "sit_shape E L S" and "sit_ok E (ss_sbi S)" "types_ok (ss_sbi S)" "free_ok (ss_sbi S)" and "sit_disk_ok E S"
    and "\<And>k. k < TOTAL_SEGS (ss_sbi S) \<Longrightarrow> \<not> sp_dirty (ss_pages S (sit_addr E (SIT_I (ss_sbi S)) k))"
    and "8 dvd SIT_VBLOCK_MAP_SIZE E" "8 dvd sbi_blocks_per_seg (ss_sbi S)" and "sit_fits E (ss_sbi S)"
    and "flush_sit_entries E L S = Some S'" and "same_disk E S S' S0" and "fresh_sit E S0" and "0 < nrpages" "0 < TOTAL_SEGS (ss_sbi S)"
  shows "\<exists>S1. build_sit_entries E nrpages S0 = Some S1 \<and> (\<forall>k<TOTAL_SEGS (ss_sbi S). same_but_cleaning (sit_entry S k) (sit_entry S1 k))"
  by (rule flush_then_build [OF assms])

lemma checkpoint_mount_roundtrip_witness:
  "\<exists>S' S0 S1. flush_sit_entries linux_env linux_layout vol_flush = Some S' \<and> build_sit_entries linux_env 256 S0 = Some S1
    \<and> ss_pages S0 = ss_pages S' \<and> (\<forall>k<10. same_but_cleaning (sit_entry vol_flush k) (sit_entry S1 k))"
proof -
  note F = linux_env_ok vol_flush_shape vol_flush_sit_ok(1)
  obtain S' where S': "flush_sit_entries linux_env linux_layout vol_flush = Some S'" "sit_shape linux_env linux_layout S'" "TOTAL_SEGS (ss_sbi S') = 10"
    using flush_sit_entries_ok [OF F vol_flush_sit_ok(2) vol_flush_disk] by auto
  let ?S0 = "vol_remount S'"
  have "\<exists>S1. build_sit_entries linux_env 256 ?S0 = Some S1 \<and> (\<forall>k<TOTAL_SEGS (ss_sbi vol_flush). same_but_cleaning (sit_entry vol_flush k) (sit_entry S1 k))"
    by (rule checkpoint_mount_roundtrip [OF F vol_flush_sit_ok(3,2) vol_flush_disk _ _ _ vol_flush_fits S'(1) vol_remount_same [OF S'(2,3)] vol_remount_fresh]) simp_all
  then show ?thesis using S'(1) by (metis vol_flush_parts(1) vol_mark_parts(3) vol_remount_pages)
qed

text \<open>C28: The compact summaries of a checkpoint pack read back as they were written: both journals, the position and mode of each data log and all its used summary entries; when the pages that npages_for_summary_flush counts are at most two, the writer stays inside them.\<close>

theorem compact_summaries_roundtrip:
  assumes "sum_layout_ok K" and "ckpt_of ckpt sbi" and "logs_shape sbi" "logs_shape sbi0" and "sbi_blocks_per_seg sbi0 = sbi_blocks_per_seg sbi"
    and "\<And>i. i < 3 \<Longrightarrow> cs_next_blkoff (CURSEG_I sbi i) \<le> sbi_blocks_per_seg sbi" and "a + 3 * sbi_blocks_per_seg sbi + 2 < 2 ^ 32"
    and "npages_for_summary_flush K ckpt sbi < 3" and "0 < sbi_blocks_per_seg sbi"
  shows "let pages' = write_compacted_summaries K ckpt sbi nats sits pages a;
             (nats', sits', sbi') = read_compacted_summaries E K ckpt pages' a sbi0
    in nats' = nats \<and> sits' = sits
      \<and> (\<forall>i<3. cs_segno (CURSEG_I sbi' i) = cs_segno (CURSEG_I sbi i) \<and> cs_next_blkoff (CURSEG_I sbi' i) = cs_next_blkoff (CURSEG_I sbi i)
           \<and> cs_alloc_type (CURSEG_I sbi' i) = cs_alloc_type (CURSEG_I sbi i)
           \<and> (\<forall>j<used_sums ckpt sbi i. sb_entries (cs_sum_blk (CURSEG_I sbi' i)) ! j = sb_entries (cs_sum_blk (CURSEG_I sbi i)) ! j))
      \<and> (\<forall>b. b < a \<or> a + npages_for_summary_flush K ckpt sbi \<le> b \<longrightarrow> pages' b = pages b)"
proof -
  obtain nats' sits' sbi' where r: "read_compacted_summaries E K ckpt (write_compacted_summaries K ckpt sbi nats sits pages a) a sbi0 = (nats', sits', sbi')"
    by (metis prod_cases3)
  have "a + 3 < 2 ^ 32" using assms(7,9) by linarith
  note 1 = compact_roundtrip [OF assms(1-7) r] and 2 = compact_pages [OF assms(1) this assms(8), of _ nats sits pages]
  show ?thesis using 1 2 by (simp add: Let_def r)
qed

theorem compact_summaries_roundtrip_witness:
  "let pages' = write_compacted_summaries linux_sums cs_ckpt vol_sbi (fst mnt_journals) (snd mnt_journals) mnt_cp 1;
       (nats', sits', sbi') = read_compacted_summaries linux_env linux_sums cs_ckpt pages' 1 vol_sbi
   in sits' = snd mnt_journals \<and> cs_next_blkoff (CURSEG_I sbi' 0) = 1"
  using compact_summaries_roundtrip [OF linux_sums_ok cs_ckpt_of vol_logs_shape vol_logs_shape refl, of 1 "fst mnt_journals" "snd mnt_journals" mnt_cp linux_env]
    vol_cs_npages vol_log_offs
  by (auto simp: Let_def vol_log_seg vol_log_def split: prod.splits)

text \<open>C29: restore_node_summary forgets a read error of every batch of pages but the last: when the first block of a node log cannot be read and the log has more blocks than one batch, it reports success, and each summary holds the node of the next block.\<close>

theorem node_summary_error_forgotten:
  assumes "0 < bio" and "bio < sbi_blocks_per_seg sbi" and "sbi_blocks_per_seg sbi \<le> length (sb_entries summ)"
    and "START_BLOCK sbi segno + sbi_blocks_per_seg sbi < 2 ^ 32"
    and "\<And>j. nn (START_BLOCK sbi segno + j) = (if j = 0 then None else Some (nid j))"
  shows "\<exists>summ'. restore_node_summary nn bio sbi segno summ = Some (0, summ')
    \<and> (\<forall>j< sbi_blocks_per_seg sbi - 1. sum_nid (sb_entries summ' ! j) = nid (j + 1))"
  by (rule restore_node_summary_shifted [OF assms])

theorem node_summary_error_forgotten_witness:
  "\<exists>summ'. restore_node_summary (\<lambda>a. if a = 40 then None else Some a) 4 vol_sbi 3 mnt_sums = Some (0, summ')
    \<and> (\<forall>j<7. sum_nid (sb_entries summ' ! j) = 40 + (j + 1))"
  using node_summary_error_forgotten [of 4 vol_sbi mnt_sums 3 "\<lambda>a. if a = 40 then None else Some a" "\<lambda>j. 40 + j"]
  by (simp add: mnt_sums_def vol_start_3)

text \<open>C30: get_node_path and start_bidx_of_node are inverse: a block inside the range of a file has a path, which ends in a direct node (or the inode) at a slot it has, and the first block of that node plus the slot is the block again; conversely every slot of every direct node is on the path of the block start_bidx_of_node computes for it; a block beyond the range has no path.\<close>

theorem block_path_roundtrip:
  assumes "layout_ok L"
  shows "(case get_node_path L fi block of
      None \<Rightarrow> max_blocks L fi \<le> block
    | Some (level, offset, noffset) \<Rightarrow> block < max_blocks L fi \<and> level = length offset - 1 \<and> length noffset = length offset
        \<and> IS_DNODE_ofs L (last noffset) \<and> last noffset < node_count L \<and> last offset < node_room L fi (last noffset)
        \<and> start_bidx_of_node L (last noffset) fi + last offset = block)
    \<and> (IS_DNODE_ofs L nofs \<longrightarrow> nofs < node_count L \<longrightarrow> slot < node_room L fi nofs \<longrightarrow>
        (\<exists>level offset noffset. get_node_path L fi (start_bidx_of_node L nofs fi + slot) = Some (level, offset, noffset)
          \<and> last noffset = nofs \<and> last offset = slot))"
  using path_in_range [OF assms] get_node_path_dnode [OF assms] by (simp split: option.split prod.split)

theorem block_path_roundtrip_witness:
  "get_node_path linux_layout plain_info 5000 = Some (2, [926, 2, 5], [0, 3, 6]) \<and> start_bidx_of_node linux_layout 6 plain_info = 4995"
  using block_path_roundtrip [OF linux_layout_ok, of plain_info 5000] by (simp add: path_5000)

text \<open>C31: get_node_info answers with the entry the table holds for the node, wherever it is (the cache, the journal of the summary block, or the block of the table in use), and remembering it in the cache changes no entry.\<close>

theorem get_node_info_transparent:
  assumes "nat_ok L sbi S" and "nid < nm_max_nid (ns_nm S)" and "get_node_info L sbi S nid = (ni, S')"
  shows "ni = info_of nid (nat_lookup L sbi S nid) \<and> nat_ok L sbi S' \<and> nat_lookup L sbi S' = nat_lookup L sbi S"
  using get_node_info_ok(1-3) [OF assms] by blast

theorem get_node_info_transparent_witness:
  "fst (get_node_info linux_layout vol_sbi tab_state 5) = \<lparr> ni_nid = 5, ni_ino = 5, ni_blk_addr = 70, ni_version = 0 \<rparr>"
  using get_node_info_transparent [OF tab_nat_ok, of 5 "fst (get_node_info linux_layout vol_sbi tab_state 5)"
      "snd (get_node_info linux_layout vol_sbi tab_state 5)"] by (simp add: tab_lookup info_of_def raw_node_def)

text \<open>C32: For every change of address the life of a node has (made, written, moved, removed), set_node_addr does not stop the machine and changes the table at exactly this node: the new address, and the version raised by one when a written node is removed; the invariant of the cache is kept.\<close>

theorem set_node_addr_refines:
  assumes "nat_ok L sbi S" and "ni_nid ni < nm_max_nid (ns_nm S)"
    and "ni_blk_addr ni = rne_block_addr (nat_lookup L sbi S (ni_nid ni))"
      "ni_version ni = rne_version (nat_lookup L sbi S (ni_nid ni))"
      "new \<noteq> NEW_ADDR E \<Longrightarrow> ni_ino ni = rne_ino (nat_lookup L sbi S (ni_nid ni))"
    and "legal_move E (ni_blk_addr ni) new" and "NULL_ADDR E \<noteq> NEW_ADDR E"
    and "rne_block_addr (disk_nat L sbi S (ni_nid ni)) \<noteq> NEW_ADDR E"
  shows "\<exists>nm'. set_node_addr E (ns_nm S) ni new = Some nm' \<and> nat_ok L sbi (S\<lparr>ns_nm := nm'\<rparr>)
    \<and> nat_lookup L sbi (S\<lparr>ns_nm := nm'\<rparr>) = (nat_lookup L sbi S)(ni_nid ni := moved_raw E ni new)"
  using set_node_addr_ok [OF assms] by blast

theorem set_node_addr_refines_witness:
  "\<exists>nm'. set_node_addr linux_env tab_nm \<lparr> ni_nid = 3, ni_ino = 3, ni_blk_addr = 16, ni_version = 0 \<rparr> 0 = Some nm'
     \<and> nat_lookup linux_layout vol_sbi (tab_state\<lparr>ns_nm := nm'\<rparr>) 3 = \<lparr> rne_version = 1, rne_ino = 3, rne_block_addr = 0 \<rparr>"
  using set_node_addr_refines [OF tab_nat_ok, of "\<lparr> ni_nid = 3, ni_ino = 3, ni_blk_addr = 16, ni_version = 0 \<rparr>" 0 linux_env]
  by (auto simp: tab_lookup raw_node_def legal_move_def linux_env_def moved_raw_def disk_nat_def tab_journal tab_page
      tab_entries_nth u8_def simp del: tab_state_parts(2))

text \<open>C33: Whatever alloc_nid answers, after however many rounds of building the list, an id it hands out is not 0, is in range, belongs to no node in the table (cache, journal and blocks), and is now reserved on the list; it says it is out of ids only when the node count has reached the number of ids, and the table does not change.\<close>

theorem alloc_nid_gives_free_ids:
  assumes "alloc_nid E L sbi S = Some (r, S')" and "node_mgr_ok E L sbi S"
  shows "node_mgr_ok E L sbi S' \<and> (\<forall>nid. nat_lookup L sbi S' nid = nat_lookup L sbi S nid)
    \<and> (case r of None \<Rightarrow> nm_max_nid (ns_nm S) \<le> u32 (sbi_total_valid_node_count sbi + 1)
       | Some nid \<Rightarrow> nid \<noteq> 0 \<and> nid < nm_max_nid (ns_nm S) \<and> rne_block_addr (nat_lookup L sbi S nid) = NULL_ADDR E
          \<and> \<lparr> fn_nid = nid, fn_state = NID_ALLOC \<rparr> \<in> set (nm_free_nid_list (ns_nm S')))"
  using alloc_nid_sound [OF assms] by (cases r) simp_all

theorem alloc_nid_gives_free_ids_witness:
  "\<exists>S'. alloc_nid linux_env linux_layout vol_sbi tab_state = Some (Some 7, S') \<and> node_mgr_ok linux_env linux_layout vol_sbi S'"
proof -
  have *: "alloc_nid linux_env linux_layout vol_sbi tab_state = Some (Some 7,
      tab_state\<lparr>ns_nm := (set_nid_state 7 NID_ALLOC tab_nm)\<lparr>nm_fcnt := 1\<rparr>\<rparr>)"
    by (subst alloc_nid.simps)
      (simp add: take_free_nid_def f2fs_bug_on_def vol_sbi_def u32_def set_nid_state_def sub32_def linux_env_def)
  from alloc_nid_gives_free_ids [OF this tab_node_mgr_ok] * show ?thesis by auto
qed

text \<open>C34: alloc_nid returns without another round when the node count has reached the number of ids, and when the list has a free id and is not being built; a round of building the list always ends and keeps the list of free ids right.\<close>

theorem alloc_nid_answers:
  assumes "node_mgr_ok E L sbi S"
  shows "(nm_max_nid (ns_nm S) \<le> u32 (sbi_total_valid_node_count sbi + 1) \<longrightarrow> alloc_nid E L sbi S = Some (None, S))
    \<and> (\<not> nm_max_nid (ns_nm S) \<le> u32 (sbi_total_valid_node_count sbi + 1) \<longrightarrow> nm_fcnt (ns_nm S) \<noteq> 0
        \<longrightarrow> \<not> ns_on_build_free_nids S \<longrightarrow> (\<exists>nid S'. alloc_nid E L sbi S = Some (Some nid, S')))
    \<and> (\<exists>nm'. build_free_nids E L sbi S = Some (S\<lparr>ns_nm := nm'\<rparr>) \<and> node_mgr_ok E L sbi (S\<lparr>ns_nm := nm'\<rparr>))"
  using alloc_nid_returns [OF assms] build_free_nids_ok [OF assms] by blast

theorem alloc_nid_answers_witness:
  "(\<exists>nid S'. alloc_nid linux_env linux_layout vol_sbi tab_state = Some (Some nid, S'))
    \<and> build_free_nids linux_env linux_layout vol_sbi tab_state \<noteq> None"
  using alloc_nid_answers [OF tab_node_mgr_ok] by (auto simp: vol_sbi_def u32_def)

text \<open>C35: An id that was handed out leaves the list for good with alloc_nid_done, and alloc_nid_failed makes exactly this id free again, or takes it from the list when more than 2 * MAX_FREE_NIDS ids are free; neither stops the machine, and the other free ids stay as they are.\<close>

theorem nid_given_or_returned:
  assumes "nid_list_ok nm" and "\<lparr> fn_nid = nid, fn_state = NID_ALLOC \<rparr> \<in> set (nm_free_nid_list nm)" and "nm_max_nid nm < 2 ^ 32"
  shows "(\<exists>nm'. alloc_nid_done E nm nid = Some nm' \<and> nid_list_ok nm'
        \<and> free_new (nm_free_nid_list nm') = free_new (nm_free_nid_list nm) - {nid} \<and> nid \<notin> fn_nid ` set (nm_free_nid_list nm'))
    \<and> (\<exists>nm'. alloc_nid_failed E L nm nid = Some nm' \<and> nid_list_ok nm'
        \<and> (if 2 * MAX_FREE_NIDS L < nm_fcnt nm
           then free_new (nm_free_nid_list nm') = free_new (nm_free_nid_list nm) \<and> nid \<notin> fn_nid ` set (nm_free_nid_list nm')
           else free_new (nm_free_nid_list nm') = insert nid (free_new (nm_free_nid_list nm))))"
  using alloc_nid_done_ok [OF assms] alloc_nid_failed_ok [OF assms] by blast

theorem nid_given_or_returned_witness:
  "alloc_nid_done linux_env (set_nid_state 7 NID_ALLOC tab_nm\<lparr>nm_fcnt := 1\<rparr>) 7 \<noteq> None
    \<and> (\<exists>nm'. alloc_nid_failed linux_env linux_layout (set_nid_state 7 NID_ALLOC tab_nm\<lparr>nm_fcnt := 1\<rparr>) 7 = Some nm' \<and> 7 \<in> free_new (nm_free_nid_list nm'))"
proof -
  let ?nm = "set_nid_state 7 NID_ALLOC tab_nm\<lparr>nm_fcnt := 1\<rparr>"
  have "nid_list_ok ?nm" "\<lparr> fn_nid = 7, fn_state = NID_ALLOC \<rparr> \<in> set (nm_free_nid_list ?nm)" "nm_max_nid ?nm < 2 ^ 32"
    by (auto simp: nid_list_ok_def set_nid_state_def)
  show ?thesis
    using nid_given_or_returned [OF \<open>nid_list_ok ?nm\<close> \<open>_ \<in> set (nm_free_nid_list ?nm)\<close> \<open>nm_max_nid ?nm < 2 ^ 32\<close>, of linux_env linux_layout]
    by (auto simp: set_nid_state_def linux_layout_def MAX_FREE_NIDS_def FREE_NID_PAGES_def)
qed

text \<open>The offset fill_node_footer stores in the flag word of a footer is the offset ofs_of_node reads, and neither setting a mark nor marking the node cold changes it; a mark reads back as it was set and leaves the other marks alone.\<close>

lemma node_footer_roundtrip:
  assumes "layout_ok L" and "ofs < 2 ^ (32 - OFFSET_BIT_SHIFT L)" and "type < OFFSET_BIT_SHIFT L" and "type' < 32"
  shows "ofs_of_node L (set_cold_node L is_dir (set_mark (fill_node_footer L rn nid ino ofs reset) mark type)) = ofs
    \<and> (is_node (set_mark rn mark type) type' \<longleftrightarrow> (if type' = type then mark else is_node rn type'))"
  using layout_okD(3,8) [OF assms(1)] ofs_fill_node_footer [OF assms(1,2)] is_node_set_mark [OF _ assms(4), of type] assms(3)
  by simp

lemma node_footer_roundtrip_witness:
  "ofs_of_node linux_layout (set_cold_node linux_layout False (set_mark (fill_node_footer linux_layout zero_footer 4 3 1023 True) True 2)) = 1023"
  using node_footer_roundtrip [OF linux_layout_ok, of 1023 2 0 False zero_footer 4 3 True True] by (simp add: linux_layout_def)

text \<open>C36: Whenever a block of a file gets another address, update_extent_cache leaves the extent cache of the inode telling the truth about the new addresses (grown at either end, split, replaced or dropped), without overflow; and whenever check_extent_cache answers, the address is the one of the block and every block the answer covers follows it on the device.\<close>

theorem extent_cache_truthful:
  assumes "addr_consts E" and "extent_ok fi tab" and "fofs < 2 ^ 31" and "a = 0 \<or> block_addr a"
    and "\<not> is_inode_flag_set fi FI_NO_EXTENT" and "blkbits < 32"
  shows "extent_ok (snd (update_extent E fi fofs a)) (tab(fofs := a))
    \<and> (\<forall>b bh bh'. check_extent_cache fi blkbits b bh = (True, bh') \<longrightarrow> bh_mapped bh' \<and> b_blocknr bh' = tab b
        \<and> (\<forall>i < b_size bh' div 2 ^ blkbits. tab (b + i) = tab b + i))"
  using update_extent_ok [OF assms(1-5)] check_extent_cache_ok [OF assms(2,6)] by blast

theorem extent_cache_truthful_witness:
  "extent_ok (snd (update_extent linux_env (plain_info\<lparr>fi_ext := \<lparr> ext_fofs = 4, ext_blk_addr = 20, ext_len = 3 \<rparr>\<rparr>) 7 23))
     ((\<lambda>b. if 4 \<le> b \<and> b < 7 then b + 16 else 0)(7 := 23))
   \<and> ext_len (fi_ext (snd (update_extent linux_env (plain_info\<lparr>fi_ext := \<lparr> ext_fofs = 4, ext_blk_addr = 20, ext_len = 3 \<rparr>\<rparr>) 7 23))) = 4"
proof -
  let ?fi = "plain_info\<lparr>fi_ext := \<lparr> ext_fofs = 4, ext_blk_addr = 20, ext_len = 3 \<rparr>\<rparr>" and ?tab = "\<lambda>b :: nat. if 4 \<le> b \<and> b < 7 then b + 16 else 0"
  have "extent_ok ?fi ?tab" by (simp add: extent_ok_def plain_info_def is_inode_flag_set_def)
  moreover have "ext_len (fi_ext (snd (update_extent linux_env ?fi 7 23))) = 4"
    by (simp add: update_extent_def Let_def plain_info_def u32_def sub32_def u64_def sub64_def)
  ultimately show ?thesis
    using extent_cache_truthful [OF vol_addr_consts, of ?fi ?tab 7 23 12] by (simp add: block_addr_def is_inode_flag_set_def plain_info_def)
qed

text \<open>C37: With a free section, a legal number of logs and no recovery running, writing a node page back (f2fs_write_node_page) succeeds and moves the node to a fresh block: its new address was not live before, the device gets the node there and no other block of it changes, and the table changes the address of this node only. Every file stays as it was, and afterwards the page can leave the memory, because what a reader then gets from the device is the same node.\<close>

theorem node_page_written:
  assumes "layout_ok L" and "volume_ok E L st" and "\<exists>s. free_section (fs_sbi st) s"
    and "sbi_active_logs (fs_sbi st) \<in> {2, 4, NR_CURSEG_TYPE}" and "\<not> sbi_por_doing (fs_sbi st)"
    and "fs_pages st nid = Some p" and "node_view E L st nid = Some p" and "ft_nid (nb_footer p) = nid"
  shows "\<exists>st'. f2fs_write_node_page E L cp_ver False nid st = Some (False, st') \<and> volume_ok E L st'
    \<and> node_addr L st' nid \<notin> live_addrs (fs_sbi st) \<and> node_addr L st' nid \<in> live_addrs (fs_sbi st') \<and> (\<forall>m. m \<noteq> nid \<longrightarrow> node_addr L st' m = node_addr L st m)
    \<and> (\<exists>q. node_view E L st' nid = Some q \<and> fs_disk st' = (fs_disk st)(node_addr L st' nid \<mapsto> Node_block q))
    \<and> node_view E L (st'\<lparr>fs_pages := (fs_pages st')(nid := None)\<rparr>) = node_view E L st'
    \<and> (\<forall>ino fi b. tree_ok L (node_view E L st') ino = tree_ok L (node_view E L st) ino
         \<and> file_map L (node_view E L st') ino fi b = file_map L (node_view E L st) ino fi b
         \<and> block_contents E L st' ino fi b = block_contents E L st ino fi b)"
proof -
  have "pinned E L st nid" using assms(6,7) by (simp add: pinned_def)
  from f2fs_write_node_page_ok [OF assms(1-5) this assms(7,8), of cp_ver] obtain st' where
    w: "f2fs_write_node_page E L cp_ver False nid st = Some (False, st')" "volume_ok E L st'"
      "same_tree L (node_view E L st) (node_view E L st')" "\<forall>ino fi b. block_contents E L st' ino fi b = block_contents E L st ino fi b"
      "node_view E L (st'\<lparr>fs_pages := (fs_pages st')(nid := None)\<rparr>) = node_view E L st'" "\<not> hole_addr E (node_addr L st' nid)"
      "\<exists>q. node_view E L st' nid = Some q \<and> fs_disk st' = (fs_disk st)(node_addr L st' nid \<mapsto> Node_block q)"
      "node_addr L st' nid \<notin> live_addrs (fs_sbi st)" "\<forall>m. m \<noteq> nid \<longrightarrow> node_addr L st' m = node_addr L st m" by blast
  have "nid < max_nid st'" using w(7) view_less by blast
  then have "node_addr L st' nid \<in> live_addrs (fs_sbi st')"
    using ptrs_okD(1) [OF volume_okD(5) [OF w(2)], of "Node_ptr nid"] w(6) by simp
  then show ?thesis using w by (intro exI [of _ st']) (simp only: same_tree_walk [OF w(3)] simp_thms)
qed

theorem node_page_written_witness:
  "\<exists>st'. f2fs_write_node_page linux_env linux_layout 1 False 3 file_open = Some (False, st')
     \<and> node_view linux_env linux_layout (st'\<lparr>fs_pages := (fs_pages st')(3 := None)\<rparr>) = node_view linux_env linux_layout st'"
proof -
  let ?p = "file_node 3 0 ((\<lambda>_. 0)(0 := 2 ^ 32 - 1)) ((\<lambda>_. 0)(4 := 4))"
  have "\<exists>s. free_section (fs_sbi file_open) s" "sbi_active_logs (fs_sbi file_open) \<in> {2, 4, NR_CURSEG_TYPE}"
    "\<not> sbi_por_doing (fs_sbi file_open)" using file_section file_logs by simp_all
  moreover have "fs_pages file_open 3 = Some ?p" "node_view linux_env linux_layout file_open 3 = Some ?p" "ft_nid (nb_footer ?p) = 3"
    using file_node_footer [of 0 3] by (simp_all add: file_open_view file_blocks_def footer_is_def)
  ultimately show ?thesis using node_page_written [OF linux_layout_ok file_open_ok, of 3 ?p 1] by blast
qed

text \<open>C38: With at least three free ids on the list (so that none has to be searched for), f2fs_reserve_block makes the missing nodes on the way to a block and promises it a block of the device if it has none. It fails with EPERM only for an inode marked as one that must not allocate, and with ENOSPC only when the counters do not leave room for four more blocks (at most three nodes and the block itself), so for any other inode it succeeds while there is that room; it writes nothing, keeps an address that is there, changes no other block of any file, and keeps every invariant of the volume.\<close>

theorem block_reserved:
  assumes "layout_ok L" and "volume_ok E L st" and "tree_ok L (node_view E L st) (i_ino inode)"
    and "get_node_path L (i_info inode) b \<noteq> None" and "3 \<le> card (free_nids st)"
  shows "\<exists>r dn st'. f2fs_reserve_block E L (set_new_dnode inode False None 0) b st = Some (r, dn, st')
    \<and> volume_ok E L st' \<and> fs_disk st' = fs_disk st \<and> r \<in> {Inr (), Inl EPERM, Inl ENOSPC}
    \<and> (r = Inl EPERM \<longrightarrow> is_inode_flag_set (i_info inode) FI_NO_ALLOC)
    \<and> (r = Inl ENOSPC \<longrightarrow> \<not> has_room (fs_sbi st) (max_nid st) 4)
    \<and> (let a = file_map L (node_view E L st) (i_ino inode) (i_info inode) b
       in file_map L (node_view E L st') (i_ino inode) (i_info inode) b = (if a = 0 \<and> r = Inr () then NEW_ADDR E else a))
    \<and> (\<forall>ino' fi' b'. tree_ok L (node_view E L st) ino' \<longrightarrow> ino' \<noteq> i_ino inode \<or> fi' = i_info inode \<and> b' \<noteq> b \<longrightarrow>
         tree_ok L (node_view E L st') ino'
         \<and> file_map L (node_view E L st') ino' fi' b' = file_map L (node_view E L st) ino' fi' b')"
proof -
  let ?dn = "set_new_dnode inode False None 0"
  have dn: "dn_inode ?dn = inode" "\<not> dn_inode_page ?dn" by (simp_all add: set_new_dnode_def)
  have ready: "inode_ready E L st ?dn" using assms(3) by (simp add: inode_ready_def dn)
  from f2fs_reserve_block_ok [OF assms(1,2) ready _ assms(5), of b] assms(4) obtain r dn' st' where
    w: "f2fs_reserve_block E L ?dn b st = Some (r, dn', st')" "fs_disk st' = fs_disk st"
      "block_given E L st st' (i_ino inode) (i_info inode) b
        (let a = file_map L (node_view E L st) (i_ino inode) (i_info inode) b in if a = 0 \<and> r = Inr () then NEW_ADDR E else a)"
      "\<forall>e. r = Inl e \<longrightarrow> e \<in> {EPERM, ENOSPC}"
      "accounted st st' inode 4 r" unfolding dn(1) using dn(2) by blast
  note G = block_givenD [OF w(3)]
  have "r \<in> {Inr (), Inl EPERM, Inl ENOSPC}" using w(4) by (cases r) auto
  moreover have "(r = Inl EPERM \<longrightarrow> is_inode_flag_set (i_info inode) FI_NO_ALLOC) \<and> (r = Inl ENOSPC \<longrightarrow> \<not> room st 4)"
    using w(5) by (auto simp: accounted_def)
  ultimately show ?thesis using w(1,2) G by (intro exI [of _ r] exI [of _ dn'] exI [of _ st']) (simp add: Let_def)
qed

theorem block_reserved_witness:
  "\<exists>dn st'. f2fs_reserve_block linux_env linux_layout (set_new_dnode file_inode False None 0) 5000 (file_state (2 ^ 32 - 1)) = Some (Inr (), dn, st')
     \<and> volume_ok linux_env linux_layout st' \<and> file_map linux_layout (node_view linux_env linux_layout st') 3 plain_info 0 = 2 ^ 32 - 1"
proof -
  let ?st = "file_state (2 ^ 32 - 1)"
  have "get_node_path linux_layout (i_info file_inode) 5000 \<noteq> None" by (simp add: path_5000)
  from block_reserved [OF linux_layout_ok file_volume_ok _ this] file_tree_state file_free_ids obtain r dn st' where
    w: "f2fs_reserve_block linux_env linux_layout (set_new_dnode file_inode False None 0) 5000 ?st = Some (r, dn, st')"
    "volume_ok linux_env linux_layout st'" "r \<in> {Inr (), Inl EPERM, Inl ENOSPC}"
    "r = Inl EPERM \<longrightarrow> is_inode_flag_set (i_info file_inode) FI_NO_ALLOC"
    "r = Inl ENOSPC \<longrightarrow> \<not> has_room (fs_sbi ?st) (max_nid ?st) 4"
    "\<forall>ino' fi' b'. tree_ok linux_layout (node_view linux_env linux_layout ?st) ino' \<longrightarrow>
       ino' \<noteq> i_ino file_inode \<or> fi' = i_info file_inode \<and> b' \<noteq> 5000 \<longrightarrow>
         file_map linux_layout (node_view linux_env linux_layout st') ino' fi' b'
           = file_map linux_layout (node_view linux_env linux_layout ?st) ino' fi' b'" by auto
  have "has_room (fs_sbi ?st) (max_nid ?st) 4" by (simp add: has_room_def vol_sbi_def)
  then have "r = Inr ()" using w(3-5) by (auto simp: plain_info_def is_inode_flag_set_def)
  then show ?thesis using w file_tree_state file_map_first by (auto simp: file_view)
qed

text \<open>C39: A lookup of get_data_block ends and only reads; for a hole it leaves the buffer head unmapped, else it maps the address of the block and a size such that all blocks covered follow each other in the file and on the device, across the nodes of the tree and whether the extent cache answers or not.\<close>

theorem get_data_block_maps:
  assumes "layout_ok L" and "store_ok E L st" and "addr_consts E" and "tree_ok L (node_view E L st) (i_ino inode)"
    and "extent_ok (i_info inode) (file_map L (node_view E L st) (i_ino inode) (i_info inode))"
    and "b_size bh < 2 ^ 44" and "b + max 1 (b_size bh div 2 ^ 12) < max_blocks L (i_info inode)"
  shows "\<exists>bh' st'. get_data_block E L 12 inode b bh False st = Some (Inr (), bh', inode, st') \<and> reads E L st st'
    \<and> (if hole_addr E (file_map L (node_view E L st) (i_ino inode) (i_info inode) b) then bh' = bh
       else mapped_run 12 (file_map L (node_view E L st) (i_ino inode) (i_info inode)) b bh')"
  by (rule get_data_block_lookup [OF assms])

theorem get_data_block_maps_witness:
  "\<exists>bh' st'. get_data_block linux_env linux_layout 12 file_inode 0 \<lparr> bh_mapped = False, bh_new = False, b_blocknr = 0, b_size = 8192 \<rparr>
     False (file_state 100) = Some (Inr (), bh', file_inode, st') \<and> \<not> bh_mapped bh'"
proof -
  have "0 + max 1 (8192 div 2 ^ 12) < max_blocks linux_layout plain_info" by (simp add: max_blocks_def file_sizes)
  from get_data_block_maps [OF linux_layout_ok file_store_ok vol_addr_consts, of 100 file_inode
      "\<lparr> bh_mapped = False, bh_new = False, b_blocknr = 0, b_size = 8192 \<rparr>" 0] this
  show ?thesis using file_tree_state file_map_first file_extent by (auto simp: file_view file_hole)
qed

text \<open>C40: After mapping a block that ends its node get_data_block asks for the next one even when no more blocks were requested: for the last block of a file of the largest size get_node_path then has no path, and the machine stops.\<close>

theorem last_block_lookup_stops:
  assumes "layout_ok L" and "store_ok E L st" and "addr_consts E" and "tree_ok L (node_view E L st) (i_ino inode)"
    and "b + 1 = max_blocks L (i_info inode)" and "\<not> hole_addr E (file_map L (node_view E L st) (i_ino inode) (i_info inode) b)"
    and "check_extent_cache (i_info inode) 12 b bh = (False, bh)"
  shows "get_data_block E L 12 inode b bh False st = None"
  by (rule get_data_block_last [OF assms])

theorem last_block_lookup_stops_witness:
  "get_data_block linux_env linux_layout 12 file_inode last_block
     \<lparr> bh_mapped = False, bh_new = False, b_blocknr = 0, b_size = 4096 \<rparr> False (file_state 100) = None"
proof (rule last_block_lookup_stops [OF linux_layout_ok file_store_ok vol_addr_consts])
  show "last_block + 1 = max_blocks linux_layout (i_info file_inode)" by (simp add: last_block_def max_blocks_def file_sizes)
  show "\<not> hole_addr linux_env (file_map linux_layout (node_view linux_env linux_layout (file_state 100)) (i_ino file_inode) (i_info file_inode) last_block)"
    by (simp add: file_view file_map_last file_hole)
  show "check_extent_cache (i_info file_inode) 12 last_block \<lparr> bh_mapped = False, bh_new = False, b_blocknr = 0, b_size = 4096 \<rparr>
    = (False, \<lparr> bh_mapped = False, bh_new = False, b_blocknr = 0, b_size = 4096 \<rparr>)" by (simp add: check_extent_cache_def plain_info_def)
qed (simp add: file_tree_state)

end
